(* ===== verification/Prelude.thy ===== *)
theory Prelude
  imports Main "HOL-Library.Word" "HOL-Library.Code_Target_Nat"
begin

text \<open>
  The shared ground of the development: the outcome of a Go function, sequencing of
  its statements, byte slices with a capacity, and the list, map and word lemmas that
  several components use.

  A Go function that may fail is a function into \<open>out\<close>: it goes on with a new
  state, returns early with a byte count and an error, or panics. A byte slice keeps
  its visible bytes apart from the bytes of its backing array between length and
  capacity: \<open>s[t:]\<close> and \<open>s[i]\<close> are checked against the length, \<open>s[a:b]\<close> against the
  capacity only, so the decoders can read past the packet when the slice is a window
  of the input ring buffer.
\<close>

unbundle bit_operations_syntax

type_synonym byte = "8 word"
type_synonym bytes = "8 word list"
type_synonym uint16 = "16 word"
type_synonym uint32 = "32 word"
type_synonym uint64 = "64 word"

named_theorems wire_simps \<open>computation rules of the wire primitives\<close>
named_theorems wire_rt \<open>step lemmas of the decoders on encoded input\<close>
named_theorems inv_intro \<open>preservation of the component invariants\<close>

section \<open>Outcomes of Go functions\<close>

text \<open>Errors: a reason code used as an error value, or \<open>fmt.Errorf\<close> with its text.\<close>

datatype goerr = Code byte | Errorf string

datatype 's out = Go 's | Fail int goerr 's | Panic

fun andthen :: "'s out \<Rightarrow> ('s \<Rightarrow> 't out) \<Rightarrow> (int \<Rightarrow> goerr \<Rightarrow> 's \<Rightarrow> 't out) \<Rightarrow> 't out" where
  "andthen (Go s) k h = k s"
| "andthen (Fail n e s) k h = h n e s"
| "andthen Panic k h = Panic"

fun steps :: "('s \<Rightarrow> 's out) list \<Rightarrow> 's \<Rightarrow> 's out" where
  "steps [] s = Go s"
| "steps (f # fs) s = andthen (f s) (steps fs) Fail"

fun ok :: "'s out \<Rightarrow> bool" where
  "ok (Go s) = True"
| "ok (Fail n e s) = False"
| "ok Panic = False"

lemma steps_append:
  "steps (fs @ gs) s = andthen (steps fs s) (steps gs) Fail"
proof (induction fs arbitrary: s)
  case Nil
  show ?case by simp
next
  case (Cons f fs)
  then show ?case by (cases "f s") simp_all
qed

lemma andthen_Nil [simp]: "andthen r (steps []) Fail = r" "andthen r Go Fail = r"
  by (cases r; simp)+

lemma andthen_Go_iff:
  "andthen r k Fail = Go t \<longleftrightarrow> (\<exists>s. r = Go s \<and> k s = Go t)"
  by (cases r) auto

lemma steps_Cons_Go:
  "f s = Go s' \<Longrightarrow> steps (f # fs) s = steps fs s'"
  by simp

section \<open>Byte slices\<close>

datatype gslice = GSlice (vis: bytes) (spare: bytes)

definition exact :: "bytes \<Rightarrow> gslice" where
  "exact bs = GSlice bs []"

text \<open>\<open>src[t]\<close>, \<open>src[t:]\<close> and \<open>src[a:b]\<close>; None is the run-time panic.\<close>

definition at :: "gslice \<Rightarrow> nat \<Rightarrow> byte option" where
  "at s t = (if t < length (vis s) then Some (vis s ! t) else None)"

definition reslice :: "gslice \<Rightarrow> nat \<Rightarrow> gslice option" where
  "reslice s t = (if t \<le> length (vis s) then Some (GSlice (drop t (vis s)) (spare s)) else None)"

definition sub :: "gslice \<Rightarrow> nat \<Rightarrow> nat \<Rightarrow> bytes option" where
  "sub s a b =
     (if a \<le> b \<and> b \<le> length (vis s) + length (spare s)
      then Some (take (b - a) (drop a (vis s @ spare s))) else None)"

text \<open>
  The decoders are specified by the bytes that are left: \<open>left s t xs\<close> says that
  the visible bytes from position \<open>t\<close> on are \<open>xs\<close>.
\<close>

definition left :: "gslice \<Rightarrow> nat \<Rightarrow> bytes \<Rightarrow> bool" where
  "left s t xs \<longleftrightarrow> t \<le> length (vis s) \<and> drop t (vis s) = xs"

lemma left_exact: "left (exact (xs @ ys)) (length xs) ys"
  by (simp add: left_def exact_def)

lemma left_0 [simp]: "left s 0 xs \<longleftrightarrow> vis s = xs"
  by (simp add: left_def)

lemma left_advance: "left s t (xs @ ys) \<Longrightarrow> left s (t + length xs) ys"
proof -
  assume l: "left s t (xs @ ys)"
  have "drop (length xs) (drop t (vis s)) = ys"
    using l by (simp add: left_def)
  moreover have "length (vis s) - t = length xs + length ys"
    using l by (metis left_def length_append length_drop)
  ultimately show ?thesis
    using l by (auto simp: left_def add.commute)
qed

lemma left_Suc: "left s t (x # ys) \<Longrightarrow> left s (Suc t) ys"
  using left_advance [of s t "[x]" ys] by simp

lemma left_at: "left s t (x # ys) \<Longrightarrow> at s t = Some x"
  unfolding left_def at_def
  by (metis Cons_nth_drop_Suc drop_all leI list.distinct(1) list.inject)

lemma left_at_Nil: "left s t [] \<Longrightarrow> at s t = None"
  by (auto simp: left_def at_def)

lemma left_reslice: "left s t xs \<Longrightarrow> reslice s t = Some (GSlice xs (spare s))"
  by (auto simp: left_def reslice_def)

lemma left_len: "left s t xs \<Longrightarrow> length (vis s) = t + length xs"
  by (auto simp: left_def)

lemma left_sub: "left s t (xs @ ys) \<Longrightarrow> sub s t (t + length xs) = Some xs"
proof -
  assume l: "left s t (xs @ ys)"
  have len: "length (vis s) = t + (length xs + length ys)"
    using left_len [OF l] by simp
  have "drop t (vis s @ spare s) = (xs @ ys) @ spare s"
    using l len by (simp add: left_def)
  then show ?thesis
    using len by (simp add: sub_def)
qed

section \<open>Words and their bytes\<close>

lemma unat_byte_lt [simp]: "unat (b :: byte) < 256"
  using unsigned_less [of b] by simp

lemma unat_div_word: "unat ((x :: 'a::len word) div y) = unat x div unat y"
  by (rule unat_div_distrib)

lemma unat_mod_word: "unat ((x :: 'a::len word) mod y) = unat x mod unat y"
  by (rule unat_mod_distrib)

lemma unat_ne: "(x :: 'a::len word) \<noteq> y \<Longrightarrow> unat x \<noteq> unat y"
  using unsigned_word_eqI by blast

lemma unat_ge_1: "(x :: 'a::len word) \<noteq> 0 \<Longrightarrow> 1 \<le> unat x"
  by (simp add: Suc_le_eq unat_gt_0)

section \<open>Lists\<close>

lemma take_drop_append_len: "take (length xs) (xs @ ys) = xs"
  by simp

lemma list_update_append_len:
  "(xs @ y # ys)[length xs := z] = xs @ z # ys"
  by simp

section \<open>Refinement of an abstract machine\<close>

text \<open>
  A component is a step function from operation and state to the new state and the
  outputs, None when the code panics. Its contract is a total step function on an
  abstract state. The locale takes the simulation of one step and gives the simulation
  of every sequence of operations: the code never panics, keeps its invariant and
  produces the outputs of the abstract machine.
\<close>

fun run :: "('op \<Rightarrow> 'c \<Rightarrow> ('c \<times> 'o list) option) \<Rightarrow> 'op list \<Rightarrow> 'c \<Rightarrow> ('c \<times> 'o list) option" where
  "run step [] c = Some (c, [])"
| "run step (x # xs) c =
     (case step x c of
        None \<Rightarrow> None
      | Some (c', os) \<Rightarrow> map_option (\<lambda>(c'', os'). (c'', os @ os')) (run step xs c'))"

fun spec_run :: "('op \<Rightarrow> 'a \<Rightarrow> 'a \<times> 'o list) \<Rightarrow> 'op list \<Rightarrow> 'a \<Rightarrow> 'a \<times> 'o list" where
  "spec_run spec [] a = (a, [])"
| "spec_run spec (x # xs) a =
     (let (a', os) = spec x a; (a'', os') = spec_run spec xs a' in (a'', os @ os'))"

locale machine_refinement =
  fixes wf :: "'c \<Rightarrow> bool" and abs :: "'c \<Rightarrow> 'a"
    and step :: "'op \<Rightarrow> 'c \<Rightarrow> ('c \<times> 'o list) option"
    and spec :: "'op \<Rightarrow> 'a \<Rightarrow> 'a \<times> 'o list"
  assumes step_ok: "wf c \<Longrightarrow> \<exists>c' os. step x c = Some (c', os) \<and> wf c' \<and> spec x (abs c) = (abs c', os)"
begin

lemma run_ok:
  "wf c \<Longrightarrow> \<exists>c' os. run step xs c = Some (c', os) \<and> wf c' \<and> spec_run spec xs (abs c) = (abs c', os)"
proof (induction xs arbitrary: c)
  case (Cons x xs)
  obtain c' os where 1: "step x c = Some (c', os)" "wf c'" "spec x (abs c) = (abs c', os)"
    using step_ok [OF Cons.prems] by blast
  obtain c'' os' where 2: "run step xs c' = Some (c'', os')" "wf c''"
    "spec_run spec xs (abs c') = (abs c'', os')"
    using Cons.IH [OF 1(2)] by blast
  show ?case
    using 1 2 by simp
qed simp

text \<open>An invariant of the abstract machine holds of the abstraction of every reached state.\<close>

lemma run_invariant:
  assumes "wf c" and "P (abs c)" and "\<And>x a. P a \<Longrightarrow> P (fst (spec x a))" and "run step xs c = Some (c', os)"
  shows "P (abs c')"
proof -
  have "P a \<Longrightarrow> P (fst (spec_run spec xs a))" for a
  proof (induction xs arbitrary: a)
    case (Cons x xs)
    have "P (fst (spec_run spec xs (fst (spec x a))))"
      using assms(3) Cons by blast
    then show ?case
      by (cases "spec x a", cases "spec_run spec xs (fst (spec x a))") simp
  qed simp
  from this [OF assms(2)] show ?thesis
    using run_ok [OF assms(1), of xs] assms(4) by auto
qed

end

end
