(* ===== verification/MsgTypes.thy ===== *)
theory MsgTypes
  imports Prelude
begin

text \<open>
  Packet types, QoS levels, property identifiers and reason codes of
  broker/core/message/message.go and identifier.go, and the validity tests of
  message.go and util.go.
\<close>

section \<open>Packet types\<close>

datatype mtype =
    RESERVED | CONNECT | CONNACK | PUBLISH | PUBACK | PUBREC | PUBREL | PUBCOMP
  | SUBSCRIBE | SUBACK | UNSUBSCRIBE | UNSUBACK | PINGREQ | PINGRESP | DISCONNECT
  | AUTH | RESERVED2

fun mtype_byte :: "mtype \<Rightarrow> byte" where
  "mtype_byte RESERVED = 0"
| "mtype_byte CONNECT = 1"
| "mtype_byte CONNACK = 2"
| "mtype_byte PUBLISH = 3"
| "mtype_byte PUBACK = 4"
| "mtype_byte PUBREC = 5"
| "mtype_byte PUBREL = 6"
| "mtype_byte PUBCOMP = 7"
| "mtype_byte SUBSCRIBE = 8"
| "mtype_byte SUBACK = 9"
| "mtype_byte UNSUBSCRIBE = 10"
| "mtype_byte UNSUBACK = 11"
| "mtype_byte PINGREQ = 12"
| "mtype_byte PINGRESP = 13"
| "mtype_byte DISCONNECT = 14"
| "mtype_byte AUTH = 15"
| "mtype_byte RESERVED2 = 16"

text \<open>
  The conversion \<open>MessageType(b)\<close>. The code applies it to a byte shifted right by four
  only, so the values above 15 do not occur; they are mapped to the invalid type.
\<close>

definition mtype_of :: "byte \<Rightarrow> mtype" where
  "mtype_of b =
     (if b = 0 then RESERVED else if b = 1 then CONNECT else if b = 2 then CONNACK
      else if b = 3 then PUBLISH else if b = 4 then PUBACK else if b = 5 then PUBREC
      else if b = 6 then PUBREL else if b = 7 then PUBCOMP else if b = 8 then SUBSCRIBE
      else if b = 9 then SUBACK else if b = 10 then UNSUBSCRIBE else if b = 11 then UNSUBACK
      else if b = 12 then PINGREQ else if b = 13 then PINGRESP else if b = 14 then DISCONNECT
      else if b = 15 then AUTH else RESERVED2)"

definition DefaultFlags :: "mtype \<Rightarrow> byte" where
  "DefaultFlags t =
     (case t of PUBREL \<Rightarrow> 2 | SUBSCRIBE \<Rightarrow> 2 | UNSUBSCRIBE \<Rightarrow> 2 | _ \<Rightarrow> 0)"

text \<open>\<open>this > RESERVED && this < RESERVED2\<close>\<close>

definition mtype_Valid :: "mtype \<Rightarrow> bool" where
  "mtype_Valid t \<longleftrightarrow> mtype_byte RESERVED < mtype_byte t \<and> mtype_byte t < mtype_byte RESERVED2"

lemma mtype_of_byte [simp]: "mtype_of (mtype_byte t) = t"
  by (cases t) (simp_all add: mtype_of_def)

lemma mtype_Valid_iff [simp]: "mtype_Valid t \<longleftrightarrow> t \<noteq> RESERVED \<and> t \<noteq> RESERVED2"
  by (cases t) (simp_all add: mtype_Valid_def)

text \<open>The first byte of a packet: the type in the high nibble, the flags in the low one.\<close>

definition first_byte :: "mtype \<Rightarrow> byte \<Rightarrow> byte" where
  "first_byte t f = push_bit 4 (mtype_byte t) OR (f AND 15)"

lemma first_byte_type [simp]:
  "t \<noteq> RESERVED2 \<Longrightarrow> drop_bit 4 (first_byte t f) = mtype_byte t"
proof -
  assume "t \<noteq> RESERVED2"
  then have "drop_bit 4 (push_bit 4 (mtype_byte t)) = mtype_byte t"
    by (cases t) simp_all
  moreover have "drop_bit 4 (f AND 15) = 0"
  proof (rule bit_word_eqI)
    fix n assume "n < LENGTH(8)"
    show "bit (drop_bit 4 (f AND 15)) n = bit (0::byte) n"
      by (simp add: bit_simps bit_numeral_rec(1) numeral_eq_Suc)
  qed
  ultimately show ?thesis
    by (simp add: first_byte_def)
qed

section \<open>Quality of service and topic names\<close>

abbreviation QosAtMostOnce :: byte where "QosAtMostOnce \<equiv> 0"
abbreviation QosAtLeastOnce :: byte where "QosAtLeastOnce \<equiv> 1"
abbreviation QosExactlyOnce :: byte where "QosExactlyOnce \<equiv> 2"
abbreviation QosFailure :: byte where "QosFailure \<equiv> 0x80"

definition ValidQos :: "byte \<Rightarrow> bool" where
  "ValidQos q \<longleftrightarrow> q = QosAtMostOnce \<or> q = QosAtLeastOnce \<or> q = QosExactlyOnce"

abbreviation c_sep :: byte where "c_sep \<equiv> 0x2F"
abbreviation c_mwc :: byte where "c_mwc \<equiv> 0x23"
abbreviation c_swc :: byte where "c_swc \<equiv> 0x2B"
abbreviation c_sys :: byte where "c_sys \<equiv> 0x24"

text \<open>Non-empty and without the wildcard characters.\<close>

definition ValidTopic :: "bytes \<Rightarrow> bool" where
  "ValidTopic topic \<longleftrightarrow> length topic > 0 \<and> c_mwc \<notin> set topic \<and> c_swc \<notin> set topic"

definition ValidVersion :: "byte \<Rightarrow> bool" where
  "ValidVersion v \<longleftrightarrow> v \<in> {0x5}"

section \<open>Property identifiers\<close>

abbreviation LoadFormatDescription :: byte where "LoadFormatDescription \<equiv> 0x01"
abbreviation MessageExpirationTime :: byte where "MessageExpirationTime \<equiv> 0x02"
abbreviation ContentType :: byte where "ContentType \<equiv> 0x03"
abbreviation ResponseTopic :: byte where "ResponseTopic \<equiv> 0x08"
abbreviation RelatedData :: byte where "RelatedData \<equiv> 0x09"
abbreviation DefiningIdentifiers :: byte where "DefiningIdentifiers \<equiv> 0x0B"
abbreviation SessionExpirationInterval :: byte where "SessionExpirationInterval \<equiv> 0x11"
abbreviation ServerReference :: byte where "ServerReference \<equiv> 0x1C"
abbreviation ReasonString :: byte where "ReasonString \<equiv> 0x1F"
abbreviation ThemeAlias :: byte where "ThemeAlias \<equiv> 0x23"
abbreviation UserProperty :: byte where "UserProperty \<equiv> 0x26"

section \<open>Reason codes\<close>

abbreviation Success :: byte where "Success \<equiv> 0x00"
abbreviation Qos1 :: byte where "Qos1 \<equiv> 0x01"
abbreviation Qos2 :: byte where "Qos2 \<equiv> 0x02"
abbreviation DisconnectionIncludesWill :: byte where "DisconnectionIncludesWill \<equiv> 0x04"
abbreviation NoMatchSubscription :: byte where "NoMatchSubscription \<equiv> 0x10"
abbreviation NoExistSubscription :: byte where "NoExistSubscription \<equiv> 0x11"
abbreviation UnspecifiedError :: byte where "UnspecifiedError \<equiv> 0x80"
abbreviation InvalidMessage :: byte where "InvalidMessage \<equiv> 0x81"
abbreviation ProtocolError :: byte where "ProtocolError \<equiv> 0x82"
abbreviation ImplementError :: byte where "ImplementError \<equiv> 0x83"
abbreviation UnAuthorized :: byte where "UnAuthorized \<equiv> 0x87"
abbreviation ServerUnavailable :: byte where "ServerUnavailable \<equiv> 0x88"
abbreviation ServiceBusy :: byte where "ServiceBusy \<equiv> 0x89"
abbreviation InvalidTopicFilter :: byte where "InvalidTopicFilter \<equiv> 0x8F"
abbreviation InvalidTopicName :: byte where "InvalidTopicName \<equiv> 0x90"
abbreviation PacketIdentifierIsOccupied :: byte where "PacketIdentifierIsOccupied \<equiv> 0x91"
abbreviation PacketIdentifierInvalid :: byte where "PacketIdentifierInvalid \<equiv> 0x92"
abbreviation InvalidTopicAlias :: byte where "InvalidTopicAlias \<equiv> 0x94"
abbreviation BeyondQuota :: byte where "BeyondQuota \<equiv> 0x97"
abbreviation InvalidLoadFormat :: byte where "InvalidLoadFormat \<equiv> 0x99"
abbreviation UnsupportedRetention :: byte where "UnsupportedRetention \<equiv> 0x9A"
abbreviation UnsupportedQoSLevel :: byte where "UnsupportedQoSLevel \<equiv> 0x9B"
abbreviation UnsupportedSharedSubscriptions :: byte where "UnsupportedSharedSubscriptions \<equiv> 0x9E"
abbreviation UnsupportedSubscriptionIdentifiers :: byte where "UnsupportedSubscriptionIdentifiers \<equiv> 0xA1"
abbreviation UnsupportedWildcardSubscriptions :: byte where "UnsupportedWildcardSubscriptions \<equiv> 0xA2"

definition ValidPubAckReasonCode :: "byte \<Rightarrow> bool" where
  "ValidPubAckReasonCode code \<longleftrightarrow>
     code \<in> {Success, NoMatchSubscription, UnspecifiedError, ImplementError, UnAuthorized,
       InvalidTopicName, PacketIdentifierIsOccupied, BeyondQuota, InvalidLoadFormat}"

definition ValidPubRecReasonCode :: "byte \<Rightarrow> bool" where
  "ValidPubRecReasonCode code \<longleftrightarrow>
     code \<in> {Success, NoMatchSubscription, UnspecifiedError, ImplementError, UnAuthorized,
       InvalidTopicName, PacketIdentifierIsOccupied, BeyondQuota, InvalidLoadFormat}"

definition ValidPubRelReasonCode :: "byte \<Rightarrow> bool" where
  "ValidPubRelReasonCode code \<longleftrightarrow> code \<in> {Success, PacketIdentifierInvalid}"

definition ValidPubCompReasonCode :: "byte \<Rightarrow> bool" where
  "ValidPubCompReasonCode code \<longleftrightarrow> code \<in> {Success, PacketIdentifierInvalid}"

definition ValidSubAckReasonCode :: "byte \<Rightarrow> bool" where
  "ValidSubAckReasonCode code \<longleftrightarrow>
     code \<in> {Success, Qos1, Qos2, UnspecifiedError, ImplementError, UnAuthorized,
       InvalidTopicFilter, PacketIdentifierIsOccupied, BeyondQuota,
       UnsupportedSharedSubscriptions, UnsupportedSubscriptionIdentifiers,
       UnsupportedWildcardSubscriptions}"

definition ValidUnSubAckReasonCode :: "byte \<Rightarrow> bool" where
  "ValidUnSubAckReasonCode code \<longleftrightarrow>
     code \<in> {Success, NoExistSubscription, UnspecifiedError, ImplementError,
       UnAuthorized, InvalidTopicFilter, PacketIdentifierIsOccupied}"

end
