(* ===== verification/ReasonCodes.thy ===== *)
theory ReasonCodes
  imports MsgTypes
begin

text \<open>
  The reason codes of broker/core/message/identifier.go as errors: their descriptions, which are UTF-8, and
  the error value \<open>Code\<close> that carries a code and a text. A Go string is the list of its bytes.
\<close>

definition ascii :: "string \<Rightarrow> bytes" where
  "ascii s = map of_char s"

text \<open>The cases of \<open>Desc\<close> in their order\<close>

definition descriptions :: "(byte \<times> bytes) list" where
  "descriptions = [
    (0x00, ascii ''Success, NormalDisconnected or Qos0''),
    (0x01, ascii ''Qos1 '' @ [0xE6, 0x8E, 0x88, 0xE6, 0x9D, 0x83, 0xE7, 0x9A, 0x84] @ ascii '' QoS 1''),
    (0x02, ascii ''Qos2 '' @ [0xE6, 0x8E, 0x88, 0xE6, 0x9D, 0x83, 0xE7, 0x9A, 0x84] @ ascii '' QoS 2''),
    (0x04, ascii ''DisconnectionIncludesWill '' @ [0xE5, 0x8C, 0x85, 0xE5, 0x90, 0xAB, 0xE9, 0x81, 0x97, 0xE5, 0x98, 0xB1, 0xE7, 0x9A, 0x84, 0xE6, 0x96, 0xAD, 0xE5, 0xBC, 0x80]),
    (0x10, ascii ''NoMatchSubscription '' @ [0xE6, 0x97, 0xA0, 0xE5, 0x8C, 0xB9, 0xE9, 0x85, 0x8D, 0xE8, 0xAE, 0xA2, 0xE9, 0x98, 0x85]),
    (0x11, ascii ''NoExistSubscription '' @ [0xE8, 0xAE, 0xA2, 0xE9, 0x98, 0x85, 0xE4, 0xB8, 0x8D, 0xE5, 0xAD, 0x98, 0xE5, 0x9C, 0xA8]),
    (0x18, ascii ''ContinueAuthentication '' @ [0xE7, 0xBB, 0xA7, 0xE7, 0xBB, 0xAD, 0xE8, 0xAE, 0xA4, 0xE8, 0xAF, 0x81]),
    (0x19, ascii ''ReAuthentication '' @ [0xE9, 0x87, 0x8D, 0xE6, 0x96, 0xB0, 0xE8, 0xAE, 0xA4, 0xE8, 0xAF, 0x81]),
    (0x80, ascii ''UnspecifiedError '' @ [0xE6, 0x9C, 0xAA, 0xE6, 0x8C, 0x87, 0xE6, 0x98, 0x8E, 0xE7, 0x9A, 0x84, 0xE9, 0x94, 0x99, 0xE8, 0xAF, 0xAF]),
    (0x81, ascii ''InvalidMessage '' @ [0xE6, 0x97, 0xA0, 0xE6, 0x95, 0x88, 0xE6, 0x8A, 0xA5, 0xE6, 0x96, 0x87]),
    (0x82, ascii ''ProtocolError '' @ [0xE5, 0x8D, 0x8F, 0xE8, 0xAE, 0xAE, 0xE9, 0x94, 0x99, 0xE8, 0xAF, 0xAF]),
    (0x83, ascii ''ImplementError '' @ [0xE5, 0xAE, 0x9E, 0xE7, 0x8E, 0xB0, 0xE9, 0x94, 0x99, 0xE8, 0xAF, 0xAF]),
    (0x84, ascii ''UnSupportedProtocolVersion '' @ [0xE5, 0x8D, 0x8F, 0xE8, 0xAE, 0xAE, 0xE7, 0x89, 0x88, 0xE6, 0x9C, 0xAC, 0xE4, 0xB8, 0x8D, 0xE6, 0x94, 0xAF, 0xE6, 0x8C, 0x81]),
    (0x85, ascii ''CustomerIdentifierInvalid '' @ [0xE5, 0xAE, 0xA2, 0xE6, 0x88, 0xB7, 0xE6, 0xA0, 0x87, 0xE8, 0xAF, 0x86, 0xE7, 0xAC, 0xA6, 0xE6, 0x97, 0xA0, 0xE6, 0x95, 0x88]),
    (0x86, ascii ''UserNameOrPasswordIsIncorrect '' @ [0xE7, 0x94, 0xA8, 0xE6, 0x88, 0xB7, 0xE5, 0x90, 0x8D, 0xE5, 0xAF, 0x86, 0xE7, 0xA0, 0x81, 0xE9, 0x94, 0x99, 0xE8, 0xAF, 0xAF]),
    (0x87, ascii ''UnAuthorized '' @ [0xE6, 0x9C, 0xAA, 0xE6, 0x8E, 0x88, 0xE6, 0x9D, 0x83]),
    (0x88, ascii ''ServerUnavailable '' @ [0xE6, 0x9C, 0x8D, 0xE5, 0x8A, 0xA1, 0xE7, 0xAB, 0xAF, 0xE4, 0xB8, 0x8D, 0xE5, 0x8F, 0xAF, 0xE7, 0x94, 0xA8]),
    (0x89, ascii ''ServiceBusy '' @ [0xE5, 0x8D, 0x8F, 0xE8, 0xAE, 0xAE, 0xE9, 0x94, 0x99, 0xE8, 0xAF, 0xAF]),
    (0x8A, ascii ''Forbid '' @ [0xE7, 0xA6, 0x81, 0xE6, 0xAD, 0xA2]),
    (0x8B, ascii ''ServerBeingShutDown '' @ [0xE6, 0x9C, 0x8D, 0xE5, 0x8A, 0xA1, 0xE7, 0xAB, 0xAF, 0xE5, 0x85, 0xB3, 0xE9, 0x97, 0xAD, 0xE4, 0xB8, 0xAD]),
    (0x8C, ascii ''InvalidAuthenticationMethod '' @ [0xE6, 0x97, 0xA0, 0xE6, 0x95, 0x88, 0xE7, 0x9A, 0x84, 0xE8, 0xAE, 0xA4, 0xE8, 0xAF, 0x81, 0xE6, 0x96, 0xB9, 0xE6, 0xB3, 0x95]),
    (0x8D, ascii ''KeepAliveTimeout '' @ [0xE4, 0xBF, 0x9D, 0xE6, 0xB4, 0xBB, 0xE8, 0xB6, 0x85, 0xE6, 0x97, 0xB6]),
    (0x8E, ascii ''SessionTakeover '' @ [0xE4, 0xBC, 0x9A, 0xE8, 0xAF, 0x9D, 0xE8, 0xA2, 0xAB, 0xE6, 0x8E, 0xA5, 0xE7, 0xAE, 0xA1]),
    (0x8F, ascii ''InvalidTopicFilter '' @ [0xE4, 0xB8, 0xBB, 0xE9, 0xA2, 0x98, 0xE8, 0xBF, 0x87, 0xE6, 0xBB, 0xA4, 0xE5, 0x99, 0xA8, 0xE6, 0x97, 0xA0, 0xE6, 0x95, 0x88]),
    (0x90, ascii ''InvalidTopicName '' @ [0xE4, 0xB8, 0xBB, 0xE9, 0xA2, 0x98, 0xE5, 0x90, 0x8D, 0xE6, 0x97, 0xA0, 0xE6, 0x95, 0x88]),
    (0x91, ascii ''PacketIdentifierIsOccupied '' @ [0xE6, 0x8A, 0xA5, 0xE6, 0x96, 0x87, 0xE6, 0xA0, 0x87, 0xE8, 0xAF, 0x86, 0xE7, 0xAC, 0xA6, 0xE5, 0xB7, 0xB2, 0xE8, 0xA2, 0xAB, 0xE5, 0x8D, 0xA0, 0xE7, 0x94, 0xA8]),
    (0x92, ascii ''PacketIdentifierInvalid '' @ [0xE6, 0x8A, 0xA5, 0xE6, 0x96, 0x87, 0xE6, 0xA0, 0x87, 0xE8, 0xAF, 0x86, 0xE7, 0xAC, 0xA6, 0xE6, 0x97, 0xA0, 0xE6, 0x95, 0x88]),
    (0x93, ascii ''MaximumNumberReceivedExceeded '' @ [0xE6, 0x8E, 0xA5, 0xE6, 0x94, 0xB6, 0xE8, 0xB6, 0x85, 0xE5, 0x87, 0xBA, 0xE6, 0x9C, 0x80, 0xE5, 0xA4, 0xA7, 0xE6, 0x95, 0xB0, 0xE9, 0x87, 0x8F]),
    (0x94, ascii ''InvalidTopicAlias '' @ [0xE4, 0xB8, 0xBB, 0xE9, 0xA2, 0x98, 0xE5, 0x88, 0xAB, 0xE5, 0x90, 0x8D, 0xE6, 0x97, 0xA0, 0xE6, 0x95, 0x88]),
    (0x95, ascii ''MessageTooLong '' @ [0xE6, 0x8A, 0xA5, 0xE6, 0x96, 0x87, 0xE8, 0xBF, 0x87, 0xE9, 0x95, 0xBF]),
    (0x96, ascii ''TooManyMessages '' @ [0xE6, 0xB6, 0x88, 0xE6, 0x81, 0xAF, 0xE5, 0xA4, 0xAA, 0xE8, 0xBF, 0x87, 0xE9, 0xA2, 0x91, 0xE7, 0xB9, 0x81]),
    (0x97, ascii ''BeyondQuota '' @ [0xE8, 0xB6, 0x85, 0xE5, 0x87, 0xBA, 0xE9, 0x85, 0x8D, 0xE9, 0xA2, 0x9D]),
    (0x98, ascii ''ManagementBehavior '' @ [0xE7, 0xAE, 0xA1, 0xE7, 0x90, 0x86, 0xE8, 0xA1, 0x8C, 0xE4, 0xB8, 0xBA]),
    (0x99, ascii ''InvalidLoadFormat '' @ [0xE8, 0xBD, 0xBD, 0xE8, 0x8D, 0xB7, 0xE6, 0xA0, 0xBC, 0xE5, 0xBC, 0x8F, 0xE6, 0x97, 0xA0, 0xE6, 0x95, 0x88]),
    (0x9A, ascii ''UnsupportedRetention '' @ [0xE4, 0xB8, 0x8D, 0xE6, 0x94, 0xAF, 0xE6, 0x8C, 0x81, 0xE4, 0xBF, 0x9D, 0xE7, 0x95, 0x99]),
    (0x9B, ascii ''UnsupportedQoSLevel '' @ [0xE4, 0xB8, 0x8D, 0xE6, 0x94, 0xAF, 0xE6, 0x8C, 0x81, 0xE7, 0x9A, 0x84] @ ascii '' QoS '' @ [0xE7, 0xAD, 0x89, 0xE7, 0xBA, 0xA7]),
    (0x9C, ascii ''UseOtherServers '' @ [0xEF, 0xBC, 0x88, 0xE4, 0xB8, 0xB4, 0xE6, 0x97, 0xB6, 0xEF, 0xBC, 0x89, 0xE4, 0xBD, 0xBF, 0xE7, 0x94, 0xA8, 0xE5, 0x85, 0xB6, 0xE4, 0xBB, 0x96, 0xE6, 0x9C, 0x8D, 0xE5, 0x8A, 0xA1, 0xE7, 0xAB, 0xAF]),
    (0x9D, ascii ''ServerHasMoved '' @ [0xE6, 0x9C, 0x8D, 0xE5, 0x8A, 0xA1, 0xE7, 0xAB, 0xAF, 0xE5, 0xB7, 0xB2, 0xEF, 0xBC, 0x88, 0xE6, 0xB0, 0xB8, 0xE4, 0xB9, 0x85, 0xEF, 0xBC, 0x89, 0xE7, 0xA7, 0xBB, 0xE5, 0x8A, 0xA8]),
    (0x9E, ascii ''UnsupportedSharedSubscriptions '' @ [0xE4, 0xB8, 0x8D, 0xE6, 0x94, 0xAF, 0xE6, 0x8C, 0x81, 0xE5, 0x85, 0xB1, 0xE4, 0xBA, 0xAB, 0xE8, 0xAE, 0xA2, 0xE9, 0x98, 0x85]),
    (0x9F, ascii ''ExceededConnectionRateLimit '' @ [0xE8, 0xB6, 0x85, 0xE5, 0x87, 0xBA, 0xE8, 0xBF, 0x9E, 0xE6, 0x8E, 0xA5, 0xE9, 0x80, 0x9F, 0xE7, 0x8E, 0x87, 0xE9, 0x99, 0x90, 0xE5, 0x88, 0xB6]),
    (0xA0, ascii ''MaximumConnectionTime '' @ [0xE6, 0x9C, 0x80, 0xE5, 0xA4, 0xA7, 0xE8, 0xBF, 0x9E, 0xE6, 0x8E, 0xA5, 0xE6, 0x97, 0xB6, 0xE9, 0x97, 0xB4]),
    (0xA1, ascii ''UnsupportedSubscriptionIdentifiers '' @ [0xE4, 0xB8, 0x8D, 0xE6, 0x94, 0xAF, 0xE6, 0x8C, 0x81, 0xE8, 0xAE, 0xA2, 0xE9, 0x98, 0x85, 0xE6, 0xA0, 0x87, 0xE8, 0xAF, 0x86, 0xE7, 0xAC, 0xA6]),
    (0xA2, ascii ''UnsupportedWildcardSubscriptions '' @ [0xE4, 0xB8, 0x8D, 0xE6, 0x94, 0xAF, 0xE6, 0x8C, 0x81, 0xE9, 0x80, 0x9A, 0xE9, 0x85, 0x8D, 0xE7, 0xAC, 0xA6, 0xE8, 0xAE, 0xA2, 0xE9, 0x98, 0x85])]"

definition no_description :: bytes where
  "no_description = [0xE6, 0x97, 0xA0, 0xE6, 0x95, 0x88, 0xE5, 0x8E, 0x9F, 0xE5, 0x9B, 0xA0, 0xE7, 0xA0, 0x81]"

definition code_Desc :: "byte \<Rightarrow> bytes" where
  "code_Desc c = (case map_of descriptions c of Some d \<Rightarrow> d | None \<Rightarrow> no_description)"

definition code_Value :: "byte \<Rightarrow> byte" where
  "code_Value c = c"

definition code_String :: "byte \<Rightarrow> bytes" where
  "code_String c = code_Desc c"

definition code_Error :: "byte \<Rightarrow> bytes" where
  "code_Error c = code_Desc c"

definition code_Valid :: "byte \<Rightarrow> bool" where
  "code_Valid c \<longleftrightarrow> c \<le> 0xA2"

record code_err =
  ReasonCode :: byte
  info :: bytes

fun join :: "bytes \<Rightarrow> bytes list \<Rightarrow> bytes" where
  "join sep [] = []"
| "join sep [x] = x"
| "join sep (x # y # ys) = x @ sep @ join sep (y # ys)"

definition NewCodeErr :: "byte \<Rightarrow> bytes list \<Rightarrow> code_err" where
  "NewCodeErr c msg = \<lparr>ReasonCode = c, info = (if length msg > 0 then join (ascii '', '') msg else [])\<rparr>"

definition Code_Error :: "code_err \<Rightarrow> bytes" where
  "Code_Error e = code_Desc (ReasonCode e) @ ascii '': '' @ info e"

text \<open>Every code with a description passes \<open>Valid\<close>, and every case of \<open>Desc\<close> is reached.\<close>

lemma descriptions_distinct: "distinct (map fst descriptions)"
  unfolding descriptions_def by simp

lemma descriptions_Valid: "c \<in> fst ` set descriptions \<Longrightarrow> code_Valid c"
  unfolding descriptions_def code_Valid_def by auto

end
