(* ===== verification/Config.thy ===== *)
theory Config
  imports ReasonCodes
begin

text \<open>
  The configuration of broker/gcfg: the records of config.go, config_broker.go, config_log.go and
  config_monitor.go, the rule \<open>default\<close> that fills the zero fields after the file is read, and the bounds
  that the initialisation enforces. The TOML reader is a third-party package and a parameter; of the
  validator, another one, it is used that it runs the registered rule on each tagged field. No field of the
  configuration is a float, so the branch for floats is left out. The printing is left out.
\<close>

section \<open>The rule for defaults\<close>

text \<open>\<open>strconv.ParseInt\<close> in base ten and 64 bits\<close>

fun digits_val :: "int \<Rightarrow> bytes \<Rightarrow> int option" where
  "digits_val acc [] = Some acc"
| "digits_val acc (c # cs) = (if 0x30 \<le> c \<and> c \<le> 0x39 then digits_val (acc * 10 + (uint c - 48)) cs else None)"

definition ParseInt :: "bytes \<Rightarrow> int option" where
  "ParseInt s =
     (let neg = (s \<noteq> [] \<and> hd s = 0x2D); ds = (if s \<noteq> [] \<and> (hd s = 0x2D \<or> hd s = 0x2B) then tl s else s) in
      if ds = [] then None
      else (case digits_val 0 ds of
          None \<Rightarrow> None
        | Some n \<Rightarrow> if neg then (if n \<le> 2 ^ 63 then Some (- n) else None) else if n < 2 ^ 63 then Some n else None))"

text \<open>The first star of a string replaced, \<open>strings.Replace\<close> with count one\<close>

fun replace_star :: "bytes \<Rightarrow> bytes \<Rightarrow> bytes" where
  "replace_star new [] = []"
| "replace_star new (c # cs) = (if c = 0x2A then new @ cs else c # replace_star new cs)"

definition default_string :: "bytes \<Rightarrow> bytes \<Rightarrow> bytes \<Rightarrow> bytes" where
  "default_string gen param s =
     (if s = [] then if 0x2A \<in> set param then replace_star gen param else param else s)"

text \<open>\<open>setIntOrUint\<close>. A parameter that is no number leaves the field as it is, and the result of the function
  is dropped by its caller.\<close>

definition setInt :: "bytes \<Rightarrow> int \<Rightarrow> int" where
  "setInt param n = (case ParseInt param of None \<Rightarrow> n | Some va \<Rightarrow> va)"

definition setUint :: "bytes \<Rightarrow> 'a::len word \<Rightarrow> 'a word" where
  "setUint param n = (case ParseInt param of None \<Rightarrow> n | Some va \<Rightarrow> word_of_int va)"

definition default_int :: "bytes \<Rightarrow> int \<Rightarrow> int" where
  "default_int param n = (if n = 0 then setInt param n else n)"

definition default_uint :: "bytes \<Rightarrow> 'a::len word \<Rightarrow> 'a word" where
  "default_uint param n = (if n = 0 then setUint param n else n)"

section \<open>The configuration\<close>

record broker_cfg =
  MqttAddr :: bytes
  MqttTLSOpen :: bool
  WsAddr :: bytes
  WsPath :: bytes
  WssAddr :: bytes
  WssCertPath :: bytes
  WssKeyPath :: bytes
  Ca :: bytes
  CloseShareSub :: bool
  ServerTaskPoolSize :: int
  GettyServerTaskPoolSize :: int
  AllowZeroLengthClientId :: bool
  MaxQos :: int
  AutoIdPrefix :: bytes
  PerListenerSettings :: bool
  CheckRetainSource :: bool
  MaxInflightBytes :: uint32
  MaxInflightMessages :: uint32
  MaxKeepalive :: uint16
  MaxPacketSize :: uint32
  MaxQueueBytes :: uint64
  MaxQueueMessages :: uint32
  MessageSizeLimit :: uint32
  PersistentClientExpiration :: uint64
  QueueQos0Messages :: bool
  RetainAvailable :: bool
  SysInterval :: uint64
  UpgradeOutgoingQos :: bool

record connect_cfg =
  Keepalive :: int
  ReadTimeout :: int
  WriteTimeout :: int
  cc_ConnectTimeout :: int
  cc_AckTimeout :: int
  cc_TimeoutRetries :: int
  Quota :: int
  QuotaLimit :: int

record auth_cfg =
  Allows :: "bytes list"

record server_cfg =
  Redirects :: "bytes list"
  RedirectOpen :: bool
  RedirectIsForEver :: bool

record pprof_cfg =
  PProf_Open :: bool
  PProf_Port :: int

record log_cfg =
  Log_Level :: bytes

record gconfig =
  Version :: bytes
  Broker :: broker_cfg
  g_Connect :: connect_cfg
  g_Auth :: auth_cfg
  g_Server :: server_cfg
  g_PProf :: pprof_cfg
  g_Log :: log_cfg

text \<open>The tags, in the order of the fields\<close>

definition validate_broker :: "bytes \<Rightarrow> broker_cfg \<Rightarrow> broker_cfg" where
  "validate_broker gen b = b\<lparr>MqttAddr := default_string gen (ascii ''tcp://:1883'') (MqttAddr b),
     WsAddr := default_string gen (ascii '':8084'') (WsAddr b),
     WsPath := default_string gen (ascii ''/mqtt'') (WsPath b),
     ServerTaskPoolSize := default_int (ascii ''2000'') (ServerTaskPoolSize b),
     GettyServerTaskPoolSize := default_int (ascii ''10000'') (GettyServerTaskPoolSize b),
     MaxQos := default_int (ascii ''2'') (MaxQos b),
     AutoIdPrefix := default_string gen (ascii ''auto-'') (AutoIdPrefix b),
     MaxInflightBytes := default_uint (ascii ''0'') (MaxInflightBytes b),
     MaxInflightMessages := default_uint (ascii ''1000'') (MaxInflightMessages b),
     MaxKeepalive := default_uint (ascii ''300'') (MaxKeepalive b),
     MaxPacketSize := default_uint (ascii ''65535'') (MaxPacketSize b),
     MaxQueueBytes := default_uint (ascii ''0'') (MaxQueueBytes b),
     MaxQueueMessages := default_uint (ascii ''100'') (MaxQueueMessages b),
     MessageSizeLimit := default_uint (ascii ''0'') (MessageSizeLimit b),
     PersistentClientExpiration := default_uint (ascii ''3600'') (PersistentClientExpiration b),
     SysInterval := default_uint (ascii ''10'') (SysInterval b)\<rparr>"

definition validate_connect :: "connect_cfg \<Rightarrow> connect_cfg" where
  "validate_connect c = c\<lparr>Keepalive := default_int (ascii ''100'') (Keepalive c),
     ReadTimeout := default_int (ascii ''3'') (ReadTimeout c),
     WriteTimeout := default_int (ascii ''3'') (WriteTimeout c),
     cc_ConnectTimeout := default_int (ascii ''1000'') (cc_ConnectTimeout c),
     cc_AckTimeout := default_int (ascii ''5000'') (cc_AckTimeout c),
     cc_TimeoutRetries := default_int (ascii ''2'') (cc_TimeoutRetries c),
     Quota := default_int (ascii ''0'') (Quota c),
     QuotaLimit := default_int (ascii ''0'') (QuotaLimit c)\<rparr>"

definition validate_pprof :: "pprof_cfg \<Rightarrow> pprof_cfg" where
  "validate_pprof p = p\<lparr>PProf_Port := default_int (ascii ''6060'') (PProf_Port p)\<rparr>"

definition validate_log :: "bytes \<Rightarrow> log_cfg \<Rightarrow> log_cfg" where
  "validate_log gen l = l\<lparr>Log_Level := default_string gen (ascii ''INFO'') (Log_Level l)\<rparr>"

definition Validate_Struct :: "bytes \<Rightarrow> gconfig \<Rightarrow> gconfig" where
  "Validate_Struct gen g = g\<lparr>Broker := validate_broker gen (Broker g), g_Connect := validate_connect (g_Connect g),
     g_PProf := validate_pprof (g_PProf g), g_Log := validate_log gen (g_Log g)\<rparr>"

text \<open>The configuration before the file is read: zero, but for \<open>RetainAvailable\<close>\<close>

definition zero_broker :: broker_cfg where
  "zero_broker = \<lparr>MqttAddr = [], MqttTLSOpen = False, WsAddr = [], WsPath = [], WssAddr = [], WssCertPath = [],
     WssKeyPath = [], Ca = [], CloseShareSub = False, ServerTaskPoolSize = 0, GettyServerTaskPoolSize = 0,
     AllowZeroLengthClientId = False, MaxQos = 0, AutoIdPrefix = [], PerListenerSettings = False,
     CheckRetainSource = False, MaxInflightBytes = 0, MaxInflightMessages = 0, MaxKeepalive = 0, MaxPacketSize = 0,
     MaxQueueBytes = 0, MaxQueueMessages = 0, MessageSizeLimit = 0, PersistentClientExpiration = 0,
     QueueQos0Messages = False, RetainAvailable = True, SysInterval = 0, UpgradeOutgoingQos = False\<rparr>"

definition zero_connect :: connect_cfg where
  "zero_connect = \<lparr>Keepalive = 0, ReadTimeout = 0, WriteTimeout = 0, cc_ConnectTimeout = 0, cc_AckTimeout = 0,
     cc_TimeoutRetries = 0, Quota = 0, QuotaLimit = 0\<rparr>"

definition zero_config :: gconfig where
  "zero_config = \<lparr>Version = [], Broker = zero_broker, g_Connect = zero_connect, g_Auth = \<lparr>Allows = []\<rparr>,
     g_Server = \<lparr>Redirects = [], RedirectOpen = False, RedirectIsForEver = False\<rparr>,
     g_PProf = \<lparr>PProf_Open = False, PProf_Port = 0\<rparr>, g_Log = \<lparr>Log_Level = []\<rparr>\<rparr>"

definition clamp_qos :: "int \<Rightarrow> int" where
  "clamp_qos q = (if q > 2 \<or> q < 1 then 2 else q)"

text \<open>The initialisation of the package; \<open>None\<close> is a panic.\<close>

definition config_init :: "(bytes \<Rightarrow> gconfig \<Rightarrow> gconfig option) \<Rightarrow> bytes \<Rightarrow> bytes \<Rightarrow> gconfig option" where
  "config_init unmarshal gen CfgFile =
     (if CfgFile = [] then None
      else (case unmarshal CfgFile zero_config of
          None \<Rightarrow> None
        | Some g \<Rightarrow> (let g = Validate_Struct gen g in
            Some (g\<lparr>Broker := (Broker g)\<lparr>MaxQos := clamp_qos (MaxQos (Broker g))\<rparr>\<rparr>))))"

text \<open>\<open>ToLevel\<close> looks in a map, and a word that is not there gives the zero level, which is info.\<close>

definition ToLevel :: "bytes \<Rightarrow> int" where
  "ToLevel level = (case map_of [(ascii ''debug'', -1), (ascii ''info'', 0), (ascii ''warn'', 1), (ascii ''error'', 2)] level of
     None \<Rightarrow> 0 | Some l \<Rightarrow> l)"

definition GetLevel :: "log_cfg \<Rightarrow> int" where
  "GetLevel l = ToLevel (Log_Level l)"

section \<open>Generated identifiers\<close>

text \<open>\<open>objectID.Generate\<close> of util/object.go from the time in seconds, the three bytes of the machine, the process
  identifier and the counter: twelve bytes in hexadecimal, and the counter after the call.\<close>

definition hex_digit :: "byte \<Rightarrow> byte" where
  "hex_digit d = (if d < 10 then 0x30 + d else 0x57 + d)"

definition EncodeToString :: "bytes \<Rightarrow> bytes" where
  "EncodeToString bs = concat (map (\<lambda>b. [hex_digit (drop_bit 4 b), hex_digit (b AND 15)]) bs)"

definition Generate :: "uint32 \<Rightarrow> bytes \<Rightarrow> uint64 \<Rightarrow> uint32 \<Rightarrow> bytes \<times> uint32" where
  "Generate now machineID pid counter =
     (let i = counter + 1 in
      (EncodeToString ([ucast (drop_bit 24 now), ucast (drop_bit 16 now), ucast (drop_bit 8 now), ucast now]
          @ take 3 machineID @ [ucast (drop_bit 8 pid), ucast pid]
          @ [ucast (drop_bit 16 i), ucast (drop_bit 8 i), ucast i]), i))"

lemma hex_byte_inj:
  fixes b c :: byte
  assumes "hex_digit (drop_bit 4 b) = hex_digit (drop_bit 4 c)" and "hex_digit (b AND 15) = hex_digit (c AND 15)"
  shows "b = c"
proof -
  have inj: "d = e" if "hex_digit d = hex_digit e" "d < 16" "e < 16" for d e :: byte
    using that unfolding hex_digit_def word_less_nat_alt word_unat_eq_iff
    by (auto simp: unat_word_ariths split: if_splits)
  have d: "drop_bit 4 x < 16" for x :: byte
  proof -
    have "unat (drop_bit 4 x) = unat x div 2 ^ 4"
      by (simp only: unat_drop_bit_eq) (simp only: drop_bit_eq_div)
    moreover have "unat x div 16 < 16"
      by (rule less_mult_imp_div_less) (use unsigned_less [of x] in simp)
    ultimately show ?thesis
      by (simp add: word_less_nat_alt)
  qed
  have m: "x AND 15 \<le> 15" for x :: byte
    by (rule word_and_le1)
  then have a: "x AND 15 < 16" for x :: byte
    using le_less_trans [OF m, of 16 x] by simp
  have t: "take_bit 4 x = x AND 15" for x :: byte
    by (simp add: take_bit_eq_mask mask_eq_exp_minus_1)
  have "drop_bit 4 b = drop_bit 4 c" "b AND 15 = c AND 15"
    using inj [OF assms(1) d d] inj [OF assms(2) a a] .
  then show ?thesis
    by (metis bits_ident t)
qed

section \<open>What the initialisation gives\<close>

lemma parse_defaults:
  "ParseInt (ascii ''0'') = Some 0" "ParseInt (ascii ''2'') = Some 2" "ParseInt (ascii ''3'') = Some 3"
  "ParseInt (ascii ''10'') = Some 10" "ParseInt (ascii ''100'') = Some 100" "ParseInt (ascii ''300'') = Some 300"
  "ParseInt (ascii ''1000'') = Some 1000" "ParseInt (ascii ''2000'') = Some 2000" "ParseInt (ascii ''3600'') = Some 3600"
  "ParseInt (ascii ''5000'') = Some 5000" "ParseInt (ascii ''6060'') = Some 6060"
  "ParseInt (ascii ''10000'') = Some 10000" "ParseInt (ascii ''65535'') = Some 65535"
  by code_simp+

lemma defaults_filled:
  "default_int p n = (if n = 0 then case ParseInt p of None \<Rightarrow> 0 | Some v \<Rightarrow> v else n)"
  "default_uint p k = (if k = 0 then case ParseInt p of None \<Rightarrow> 0 | Some v \<Rightarrow> word_of_int v else k)"
  by (simp_all add: default_int_def default_uint_def setInt_def setUint_def)

lemma validate_broker_reads:
  "SysInterval (validate_broker gen b) = default_uint (ascii ''10'') (SysInterval b)"
  "PersistentClientExpiration (validate_broker gen b) = default_uint (ascii ''3600'') (PersistentClientExpiration b)"
  by (simp_all add: validate_broker_def)

text \<open>The rule runs once: a second run changes nothing, whatever the generated identifier.\<close>

lemma replace_star_id: "0x2A \<notin> set p \<Longrightarrow> replace_star gen p = p"
  by (induction p) auto

lemma default_string_twice: "p \<noteq> [] \<Longrightarrow> 0x2A \<notin> set p \<Longrightarrow> default_string gen2 p (default_string gen p s) = default_string gen p s"
  by (auto simp: default_string_def)

lemma default_int_twice: "default_int p (default_int p n) = default_int p n"
  by (simp add: defaults_filled split: option.splits)

lemma default_uint_twice: "default_uint p (default_uint p n) = default_uint p n"
  by (simp add: defaults_filled split: option.splits)

lemma clamp_qos_range: "1 \<le> clamp_qos q \<and> clamp_qos q \<le> 2"
  by (simp add: clamp_qos_def)

lemma level_default: "GetLevel (validate_log gen \<lparr>Log_Level = []\<rparr>) = 0"
  by code_simp

text \<open>The zero of the configuration file is lost. Two comments of the configuration give the value 0 a
  meaning, the system topics are switched off and sessions never expire, but the rule for defaults cannot tell a
  zero that the file has from a field it leaves out, so both run with the defaults 10 and 3600; the
  QoS the broker supports is 1 or 2 whatever the file says.\<close>

lemma config_zero_lost:
  assumes "config_init unmarshal gen file = Some c" and "unmarshal file zero_config = Some g"
    and "SysInterval (Broker g) = 0" and "PersistentClientExpiration (Broker g) = 0"
  shows "SysInterval (Broker c) = 10 \<and> PersistentClientExpiration (Broker c) = 3600
    \<and> 1 \<le> MaxQos (Broker c) \<and> MaxQos (Broker c) \<le> 2"
proof -
  have "c = (Validate_Struct gen g)\<lparr>Broker := (Broker (Validate_Struct gen g))
      \<lparr>MaxQos := clamp_qos (MaxQos (Broker (Validate_Struct gen g)))\<rparr>\<rparr>"
    using assms(1,2) by (simp add: config_init_def Let_def split: if_splits)
  then have "SysInterval (Broker c) = SysInterval (validate_broker gen (Broker g))"
      "PersistentClientExpiration (Broker c) = PersistentClientExpiration (validate_broker gen (Broker g))"
      "MaxQos (Broker c) = clamp_qos (MaxQos (validate_broker gen (Broker g)))"
    by (simp_all add: Validate_Struct_def)
  then show ?thesis
    using assms(3,4) clamp_qos_range [of "MaxQos (validate_broker gen (Broker g))"]
    by (simp add: validate_broker_reads defaults_filled parse_defaults)
qed

end
