(* ===== verification/PowerOfTwo.thy ===== *)
theory PowerOfTwo
  imports Prelude
begin

text \<open>
  The ring sizes: \<open>powerOfTwo64\<close> and \<open>roundUpPowerOfTwo64\<close>, which
  broker/impl/session/mem_ackqueue.go and broker/core/service/v1/buffer.go both define on
  \<open>int64\<close>. The rounding smears the highest bit to the right and adds one; it is proved
  to give the least power of two that is not below its argument.
\<close>

type_synonym int64 = "64 word"

definition powerOfTwo64 :: "int64 \<Rightarrow> bool" where
  "powerOfTwo64 n \<longleftrightarrow> n \<noteq> 0 \<and> n AND (n - 1) = 0"

text \<open>\<open>n |= n >> k\<close> on a signed integer\<close>

definition smear :: "nat \<Rightarrow> int64 \<Rightarrow> int64" where
  "smear k n = n OR signed_drop_bit k n"

definition roundUpPowerOfTwo64 :: "int64 \<Rightarrow> int64" where
  "roundUpPowerOfTwo64 n =
     smear 32 (smear 16 (smear 8 (smear 4 (smear 2 (smear 1 (n - 1)))))) + 1"

section \<open>The highest bit\<close>

definition spread :: "nat \<Rightarrow> int64 \<Rightarrow> int64 \<Rightarrow> bool" where
  "spread w x y \<longleftrightarrow> (\<forall>i. bit y i \<longleftrightarrow> (\<exists>j. i \<le> j \<and> j < i + w \<and> bit x j))"

lemma spread_1: "spread 1 x x"
  unfolding spread_def by (metis Suc_eq_plus1 le_less_Suc_eq le_refl lessI less_Suc_eq_le)

lemma bit64_lt: "bit (x :: int64) i \<Longrightarrow> i < 64"
  using bit_imp_le_length [of x i] by simp

lemma bit_smear:
  assumes "\<not> bit x 63"
  shows "bit (smear k x) i \<longleftrightarrow> bit x i \<or> bit x (k + i)"
proof -
  have "bit (signed_drop_bit k x) i \<longleftrightarrow> bit x (k + i)" if "i < 64"
    using that assms bit64_lt [of x "k + i"]
    by (auto simp: bit_signed_drop_bit_iff not_le not_less)
  moreover have "\<not> bit (signed_drop_bit k x) i \<and> \<not> bit x (k + i)" if "\<not> i < 64"
    using that bit64_lt [of x "k + i"] bit64_lt [of "signed_drop_bit k x" i] by auto
  ultimately show ?thesis
    by (auto simp: smear_def bit_or_iff)
qed

lemma ex_window:
  "(\<exists>j. i \<le> j \<and> j < i + (w + w) \<and> P j)
     \<longleftrightarrow> (\<exists>j. i \<le> j \<and> j < i + w \<and> P j) \<or> (\<exists>j. w + i \<le> j \<and> j < w + i + w \<and> P (j::nat))"
proof -
  have "i \<le> j \<and> j < i + (w + w) \<longleftrightarrow> i \<le> j \<and> j < i + w \<or> w + i \<le> j \<and> j < w + i + w" for j
    by arith
  then show ?thesis
    by blast
qed

lemma spread_smear:
  assumes "spread w x y" and "\<not> bit x 63"
  shows "spread (w + w) x (smear w y)"
proof -
  have "\<not> bit y 63"
  proof
    assume "bit y 63"
    then obtain j where "63 \<le> j" "bit x j"
      using assms(1) by (auto simp: spread_def)
    then show False
      using assms(2) bit64_lt [of x j] by (cases "j = 63") auto
  qed
  then show ?thesis
    using assms(1) by (simp add: spread_def bit_smear ex_window)
qed

lemma spread_top:
  assumes "spread 64 x y" and "2 ^ k \<le> unat x" and "unat x < 2 ^ Suc k" and "k < 63"
  shows "y = mask (Suc k)"
proof (rule bit_word_eqI)
  fix i assume i: "i < LENGTH(64)"
  have top: "bit x k"
  proof -
    have "unat x div 2 ^ k = 1"
      using assms(2,3) by (simp add: div_nat_eqI)
    then have "bit (unat x) k"
      by (simp add: bit_iff_odd)
    then show ?thesis
      by (simp add: bit_unsigned_iff)
  qed
  have above: "\<not> bit x j" if "k < j" for j
  proof -
    have "(2::nat) ^ Suc k \<le> 2 ^ j"
      using that by (intro power_increasing) simp_all
    then have "unat x div 2 ^ j = 0"
      using assms(3) by simp
    then have "\<not> bit (unat x) j"
      by (simp add: bit_iff_odd)
    then show ?thesis
      using bit64_lt [of x j] by (auto simp: bit_unsigned_iff)
  qed
  have "bit y i \<longleftrightarrow> i \<le> k"
  proof
    assume "bit y i"
    then obtain j where "i \<le> j" "bit x j"
      using assms(1) by (auto simp: spread_def)
    then show "i \<le> k"
      using above [of j] by (cases "k < j") auto
  next
    assume "i \<le> k"
    then show "bit y i"
      using assms(1) top assms(4) by (auto simp: spread_def intro!: exI [of _ k])
  qed
  then show "bit y i \<longleftrightarrow> bit (mask (Suc k) :: int64) i"
    using i by (simp add: bit_mask_iff less_Suc_eq_le)
qed

text \<open>
  The rounding of a positive size of at most \<open>2 ^ 62\<close>: the result is a power of two, it is
  not below the size, and half of it is.
\<close>

lemma roundUp_step:
  assumes "2 ^ k \<le> unat (n - 1)" and "unat (n - 1) < 2 ^ Suc k" and "k < 62"
  shows "roundUpPowerOfTwo64 n = 2 ^ Suc k"
proof -
  let ?x = "n - 1"
  have "unat ?x < 2 ^ 63"
    using assms(2,3) power_increasing [of "Suc k" 63 "2::nat"] by simp
  then have "unat ?x div 2 ^ 63 = 0"
    by simp
  then have "\<not> bit (unat ?x) 63"
    by (simp add: bit_iff_odd)
  then have nb: "\<not> bit ?x 63"
    by (simp add: bit_unsigned_iff)
  have s2: "spread 2 ?x (smear 1 ?x)"
    using spread_smear [OF spread_1 nb] by (simp only: one_add_one)
  have s4: "spread 4 ?x (smear 2 (smear 1 ?x))"
    using spread_smear [OF s2 nb] by simp
  have s8: "spread 8 ?x (smear 4 (smear 2 (smear 1 ?x)))"
    using spread_smear [OF s4 nb] by simp
  have s16: "spread 16 ?x (smear 8 (smear 4 (smear 2 (smear 1 ?x))))"
    using spread_smear [OF s8 nb] by simp
  have s32: "spread 32 ?x (smear 16 (smear 8 (smear 4 (smear 2 (smear 1 ?x)))))"
    using spread_smear [OF s16 nb] by simp
  have "spread 64 ?x (smear 32 (smear 16 (smear 8 (smear 4 (smear 2 (smear 1 ?x))))))"
    using spread_smear [OF s32 nb] by simp
  from spread_top [OF this assms(1,2)] assms(3)
  have "roundUpPowerOfTwo64 n = mask (Suc k) + 1"
    unfolding roundUpPowerOfTwo64_def by simp
  also have "\<dots> = 2 ^ Suc k"
    by (simp add: mask_eq_exp_minus_1)
  finally show ?thesis .
qed

lemma roundUp_correct:
  assumes "0 < unat n" and "unat n \<le> 2 ^ 62"
  shows "\<exists>k\<le>62. unat (roundUpPowerOfTwo64 n) = 2 ^ k \<and> unat n \<le> 2 ^ k \<and> 2 ^ k < 2 * unat n"
proof (cases "unat n = 1")
  case True
  then have "n = 1"
    by (simp add: word_unat_eq_iff)
  then have "roundUpPowerOfTwo64 n = 1"
    by (simp add: roundUpPowerOfTwo64_def smear_def)
  then show ?thesis
    using True by (intro exI [of _ 0]) simp
next
  case False
  have m1: "unat (n - 1) = unat n - 1"
    using assms(1) by (simp add: unat_sub word_le_nat_alt)
  have "unat n - 1 \<ge> 1"
    using False assms(1) by simp
  then obtain k where k: "2 ^ k \<le> unat n - 1" "unat n - 1 < 2 ^ Suc k"
    using ex_power_ivl1 [of 2 "unat n - 1"] by auto
  have "(2::nat) ^ k < 2 ^ 62"
    using k(1) assms by linarith
  then have k62: "k < 62"
    by (rule power_less_imp_less_exp [rotated]) simp
  have "(2::nat) ^ Suc k < 2 ^ 64"
    using k62 by (intro power_strict_increasing) simp_all
  then have "unat (2 ^ Suc k :: int64) = 2 ^ Suc k"
    using unat_of_nat [of "2 ^ Suc k", where 'a = 64]
    by (simp only: of_nat_power of_nat_numeral len_num0 len_bit0 len_num1) simp
  then show ?thesis
    using roundUp_step [of k n] k k62 m1 assms(1) by (intro exI [of _ "Suc k"]) auto
qed

lemma powerOfTwo64_iff:
  "powerOfTwo64 (2 ^ k) \<longleftrightarrow> k < 64"
proof (cases "k < 64")
  case True
  have "(2 ^ k :: int64) AND (2 ^ k - 1) = 0"
    by (simp flip: mask_eq_exp_minus_1 take_bit_eq_mask add: take_bit_eq_mod)
  moreover have "(2 ^ k :: int64) \<noteq> 0"
    using True by simp
  ultimately show ?thesis
    using True by (simp add: powerOfTwo64_def)
next
  case False
  then show ?thesis
    by (simp add: powerOfTwo64_def)
qed

text \<open>Conversely the test accepts powers of two only.\<close>

lemma powerOfTwo64_pos:
  assumes "powerOfTwo64 n" and "unat n < 2 ^ 63"
  shows "\<exists>k\<le>62. unat n = 2 ^ k"
proof -
  have n: "n \<noteq> 0" "n AND (n - 1) = 0"
    using assms(1) by (simp_all add: powerOfTwo64_def)
  then have pos: "0 < unat n"
    by (simp add: unat_gt_0)
  then obtain k where k: "2 ^ k \<le> unat n" "unat n < 2 ^ Suc k"
    using ex_power_ivl1 [of 2 "unat n"] by auto
  have "(2::nat) ^ k < 2 ^ 63"
    using k(1) assms(2) by linarith
  then have "k < 63"
    by (rule power_less_imp_less_exp [rotated]) simp
  then have k62: "k \<le> 62"
    by simp
  have "unat n = 2 ^ k"
  proof (rule ccontr)
    assume "unat n \<noteq> 2 ^ k"
    then have "unat n div 2 ^ k = 1" "(unat n - 1) div 2 ^ k = 1"
      using k by (simp_all add: div_nat_eqI)
    moreover have "unat (n - 1) = unat n - 1"
      using pos by (simp add: unat_sub word_le_nat_alt)
    ultimately have "bit (unat n) k" "bit (unat (n - 1)) k"
      by (simp_all add: bit_iff_odd)
    then have "bit (n AND (n - 1)) k"
      by (simp add: bit_unsigned_iff bit_and_iff)
    then show False
      using n(2) by simp
  qed
  then show ?thesis
    using k62 by blast
qed

lemma powerOfTwo64_unat: "powerOfTwo64 n \<Longrightarrow> unat n \<le> 2 ^ 62 \<Longrightarrow> \<exists>k\<le>62. unat n = 2 ^ k"
  by (rule powerOfTwo64_pos) simp_all

lemma sint_pos: "unat (n :: int64) < 2 ^ 63 \<Longrightarrow> \<not> sint n < 0"
proof -
  assume "unat n < 2 ^ 63"
  then have "unat n div 2 ^ 63 = 0"
    by simp
  then have "\<not> bit (unat n) 63"
    by (simp add: bit_iff_odd)
  then have "\<not> bit n 63"
    by (simp add: bit_unsigned_iff)
  then show ?thesis
    using bit_last_iff [of n] by simp
qed

lemma sint_nonneg: "0 \<le> sint (n :: int64) \<Longrightarrow> sint n = int (unat n) \<and> unat n < 2 ^ 63"
proof -
  assume n: "0 \<le> sint n"
  then have b: "\<not> bit n 63"
    using bit_last_iff [of n] by simp
  then have "\<not> bit (unat n) 63"
    by (simp add: bit_unsigned_iff)
  then have "even (unat n div 2 ^ 63)"
    by (simp add: bit_iff_odd)
  moreover have "unat n < 2 ^ 64"
    using unsigned_less [of n] by simp
  then have "unat n div 2 ^ 63 < 2"
    by (simp add: less_mult_imp_div_less)
  ultimately have lt: "unat n < 2 ^ 63"
    by (auto simp: less_2_cases_iff div_eq_0_iff)
  then have "uint n < 2 ^ 63"
    by (metis uint_nat of_nat_less_numeral_power_cancel_iff)
  then have "take_bit 63 (uint n) = uint n"
    by (simp add: take_bit_int_eq_self_iff)
  then have "sint n = int (unat n)"
    using b by (simp add: sint_uint signed_take_bit_eq_if_positive bit_uint_iff)
  then show ?thesis
    using lt by simp
qed

end
