(* ===== verification/RingBuffer.thy ===== *)
theory RingBuffer
  imports PowerOfTwo
begin

text \<open>
  The byte ring between a connection and its processor, broker/core/service/v1/buffer.go:
  one producer and one consumer, two positions that only grow, and two condition
  variables. Positions are \<open>int\<close> (the code's \<open>int64\<close> never comes near its bound); the
  buffer is a list of bytes indexed by the position masked with \<open>size - 1\<close>.

  A call that has to wait is split where the code sleeps: the operation answers \<open>Waits\<close>
  and its continuation after the broadcast is the operation ending in \<open>_woken\<close>. The two
  mutexes are kept as flags, because the code returns \<open>io.EOF\<close> from inside the wait loops
  without unlocking; a later \<open>Lock()\<close> of the same mutex never returns, which is the
  outcome \<open>Locked\<close>.
\<close>

section \<open>State and outcomes\<close>

datatype neterr = IoTimeout | UseOfClosed | OtherNet

datatype buferr =
    ErrNegativeCount | ErrBufferFull | ErrBufferInsufficientData | ErrEOF
  | SizeNotPowerOfTwo int64 | SizeTooSmall int64 | ErrNet neterr

datatype 'a outcome = Ret 'a | Waits | Locked | Panicked | Loops

record seqpos =
  cursor :: int
  gate :: int

definition newSequence :: seqpos where
  "newSequence = \<lparr>cursor = 0, gate = 0\<rparr>"

record buffer =
  buf_id :: int
  buf :: bytes
  tmp :: bytes
  rsize :: int
  rmask :: int
  rdone :: int
  pseq :: seqpos
  cseq :: seqpos
  cwait :: int
  pwait :: int
  pheld :: bool
  cheld :: bool

definition defaultBufferSize :: int64 where "defaultBufferSize = push_bit 2 1024"
definition defaultReadBlockSize :: int64 where "defaultReadBlockSize = 1024"
definition defaultWriteBlockSize :: int64 where "defaultWriteBlockSize = 1024"

text \<open>\<open>newBuffer\<close> also takes the process-wide counter \<open>bufcnt\<close> and returns it advanced.\<close>

definition newBuffer :: "int64 \<Rightarrow> int \<Rightarrow> (buferr + buffer) \<times> int" where
  "newBuffer n bufcnt =
     (if n <s 0 then (Inl ErrNegativeCount, bufcnt)
      else let m = (if n = 0 then defaultBufferSize else n) in
        if \<not> powerOfTwo64 m then (Inl (SizeNotPowerOfTwo (roundUpPowerOfTwo64 m)), bufcnt)
        else if sint m div 2 < sint defaultReadBlockSize
        then (Inl (SizeTooSmall (2 * defaultReadBlockSize)), bufcnt)
        else (Inr \<lparr>buf_id = bufcnt + 1, buf = replicate (nat (sint m)) 0, tmp = [],
                rsize = sint m, rmask = sint m - 1, rdone = 0,
                pseq = newSequence, cseq = newSequence, cwait = 0, pwait = 0,
                pheld = False, cheld = False\<rparr>, bufcnt + 1))"

text \<open>\<open>sequence.get\<close> of the two ends and \<open>sequence.set\<close>\<close>

definition cpos :: "buffer \<Rightarrow> int" where "cpos b = cursor (cseq b)"
definition ppos :: "buffer \<Rightarrow> int" where "ppos b = cursor (pseq b)"

definition set_cpos :: "int \<Rightarrow> buffer \<Rightarrow> buffer" where
  "set_cpos i b = b\<lparr>cseq := (cseq b)\<lparr>cursor := i\<rparr>\<rparr>"

definition set_ppos :: "int \<Rightarrow> buffer \<Rightarrow> buffer" where
  "set_ppos i b = b\<lparr>pseq := (pseq b)\<lparr>cursor := i\<rparr>\<rparr>"

definition set_gate :: "int \<Rightarrow> buffer \<Rightarrow> buffer" where
  "set_gate i b = b\<lparr>pseq := (pseq b)\<lparr>gate := i\<rparr>\<rparr>"

definition isDone :: "buffer \<Rightarrow> bool" where
  "isDone b \<longleftrightarrow> rdone b = 1"

definition Len :: "buffer \<Rightarrow> int" where
  "Len b = ppos b - cpos b"

definition ID :: "buffer \<Rightarrow> int" where
  "ID b = buf_id b"

text \<open>\<open>Lock(); Broadcast(); Unlock()\<close> on either condition variable, before a return\<close>

definition signal_p :: "'a \<Rightarrow> buffer \<Rightarrow> buffer \<times> 'a outcome" where
  "signal_p r b = (if pheld b then (b, Locked) else (b, Ret r))"

definition signal_c :: "'a \<Rightarrow> buffer \<Rightarrow> buffer \<times> 'a outcome" where
  "signal_c r b = (if cheld b then (b, Locked) else (b, Ret r))"

text \<open>\<open>Close\<close> takes the producer's mutex for both broadcasts.\<close>

definition Close :: "buffer \<Rightarrow> buffer \<times> unit outcome" where
  "Close b = signal_p () (b\<lparr>rdone := 1\<rparr>)"

text \<open>The statements after a call that may fail, wait or never return\<close>

fun bindr :: "buffer \<times> (buferr + 'a) outcome \<Rightarrow>
    ('a \<Rightarrow> buffer \<Rightarrow> buffer \<times> (buferr + 'b) outcome) \<Rightarrow> buffer \<times> (buferr + 'b) outcome" where
  "bindr (b, Ret (Inr a)) k = k a b"
| "bindr (b, Ret (Inl e)) k = (b, Ret (Inl e))"
| "bindr (b, Waits) k = (b, Waits)"
| "bindr (b, Locked) k = (b, Locked)"
| "bindr (b, Panicked) k = (b, Panicked)"
| "bindr (b, Loops) k = (b, Loops)"

section \<open>Copying into the ring\<close>

text \<open>Go's \<open>copy(dst[start:], src)\<close>: the new destination and the count\<close>

definition copy_at :: "bytes \<Rightarrow> nat \<Rightarrow> bytes \<Rightarrow> bytes \<times> nat" where
  "copy_at dst start src =
     (let l = min (length dst - start) (length src) in
        (take start dst @ take l src @ drop (start + l) dst, l))"

partial_function (option) ringCopy_loop ::
    "bytes \<Rightarrow> bytes \<Rightarrow> nat \<Rightarrow> nat \<Rightarrow> nat \<Rightarrow> (bytes \<times> nat) option" where
  "ringCopy_loop dst src start i n =
     (if n > 0 then
        let (dst', l) = copy_at dst start (drop i src);
            n' = n - l
        in ringCopy_loop dst' src (if n' > 0 then 0 else start) (i + l) n'
      else Some (dst, i))"

declare ringCopy_loop.simps [code]

definition ringCopy :: "bytes \<Rightarrow> bytes \<Rightarrow> nat \<Rightarrow> (bytes \<times> nat) option" where
  "ringCopy dst src start = ringCopy_loop dst src start 0 (length src)"

section \<open>The producer's operations\<close>

text \<open>The loop of \<open>waitForWriteSpace\<close>, entered with the producer's mutex held\<close>

definition waitWrite_loop :: "int \<Rightarrow> buffer \<Rightarrow> buffer \<times> (buferr + int \<times> int) outcome" where
  "waitWrite_loop n b =
     (if ppos b + n - rsize b > cpos b then
        if isDone b then (b\<lparr>pheld := True\<rparr>, Ret (Inl ErrEOF))
        else (b\<lparr>pwait := pwait b + 1\<rparr>, Waits)
      else (set_gate (cpos b) b, Ret (Inr (ppos b, n))))"

definition waitForWriteSpace :: "int \<Rightarrow> buffer \<Rightarrow> buffer \<times> (buferr + int \<times> int) outcome" where
  "waitForWriteSpace n b =
     (if isDone b then (b, Ret (Inl ErrEOF))
      else let wrap = ppos b + n - rsize b; g = gate (pseq b) in
        if wrap > g \<or> g > ppos b
        then if pheld b then (b, Locked) else waitWrite_loop n b
        else (b, Ret (Inr (ppos b, n))))"

definition waitForWriteSpace_woken :: "int \<Rightarrow> buffer \<Rightarrow> buffer \<times> (buferr + int \<times> int) outcome" where
  "waitForWriteSpace_woken n b = (if pheld b then (b, Locked) else waitWrite_loop n b)"

text \<open>The operations that wait for space, over the wait they enter or resume\<close>

type_synonym waiter = "int \<Rightarrow> buffer \<Rightarrow> buffer \<times> (buferr + int \<times> int) outcome"

definition Write_from :: "waiter \<Rightarrow> bytes \<Rightarrow> buffer \<Rightarrow> buffer \<times> (buferr + int) outcome" where
  "Write_from w p b =
     bindr (w (int (length p)) b) (\<lambda>(start, cnt) b.
       case ringCopy (buf b) p (nat (start AND rmask b)) of
         None \<Rightarrow> (b, Loops)
       | Some (dst, tot) \<Rightarrow>
           signal_c (Inr (int tot)) (set_ppos (start + int (length p)) (b\<lparr>buf := dst\<rparr>)))"

definition Write :: "bytes \<Rightarrow> buffer \<Rightarrow> buffer \<times> (buferr + int) outcome" where
  "Write p b = (if isDone b then (b, Ret (Inl ErrEOF)) else Write_from waitForWriteSpace p b)"

definition Write_woken :: "bytes \<Rightarrow> buffer \<Rightarrow> buffer \<times> (buferr + int) outcome" where
  "Write_woken p b = Write_from waitForWriteSpace_woken p b"

definition WriteCommit_from :: "waiter \<Rightarrow> int \<Rightarrow> buffer \<Rightarrow> buffer \<times> (buferr + int) outcome" where
  "WriteCommit_from w n b =
     bindr (w n b) (\<lambda>(start, cnt) b. signal_c (Inr cnt) (set_ppos (start + cnt) b))"

definition WriteCommit :: "int \<Rightarrow> buffer \<Rightarrow> buffer \<times> (buferr + int) outcome" where
  "WriteCommit n b = WriteCommit_from waitForWriteSpace n b"

text \<open>
  \<open>WriteWait\<close> hands out a window of the buffer, here its bounds, and whether the reserved
  space goes around the end.
\<close>

definition WriteWait_from ::
    "waiter \<Rightarrow> int \<Rightarrow> buffer \<Rightarrow> buffer \<times> (buferr + (nat \<times> nat) \<times> bool) outcome" where
  "WriteWait_from w n b =
     bindr (w n b) (\<lambda>(start, cnt) b.
       let pstart = start AND rmask b in
         if pstart + cnt > rsize b then (b, Ret (Inr ((nat pstart, length (buf b)), True)))
         else if cnt < 0 then (b, Panicked)
         else (b, Ret (Inr ((nat pstart, nat (pstart + cnt)), False))))"

definition WriteWait :: "int \<Rightarrow> buffer \<Rightarrow> buffer \<times> (buferr + (nat \<times> nat) \<times> bool) outcome" where
  "WriteWait n b = WriteWait_from waitForWriteSpace n b"

text \<open>
  \<open>ReadFrom\<close>. The reader is the list of its answers to the successive calls: from the length
  of the slice it is given, the bytes it stores at the front and the error it returns. A list
  that runs out is a reader that blocks.
\<close>

definition fill :: "nat \<Rightarrow> bytes \<Rightarrow> buffer \<Rightarrow> buffer" where
  "fill pstart bs b = b\<lparr>buf := fst (copy_at (buf b) pstart bs)\<rparr>"

definition read_slice :: "int \<Rightarrow> int \<Rightarrow> buffer \<Rightarrow> nat \<times> nat" where
  "read_slice start cnt b =
     (let pstart = start AND rmask b; pend = pstart + cnt in
        (nat pstart, nat (if pend > rsize b then rsize b else pend)))"

type_synonym reader = "(nat \<Rightarrow> bytes \<times> buferr option) list"

datatype round = Again int | Stop "(int \<times> buferr option) outcome"

definition ReadFrom_round :: "waiter \<Rightarrow> (nat \<Rightarrow> bytes \<times> buferr option) \<Rightarrow> int \<Rightarrow> buffer \<Rightarrow> buffer \<times> round" where
  "ReadFrom_round w rd tot b =
     (case w (sint defaultReadBlockSize) b of
        (b, Ret (Inl e)) \<Rightarrow> (b, Stop (Ret (0, Some e)))
      | (b, Ret (Inr (start, cnt))) \<Rightarrow>
          (let (pstart, pend) = read_slice start cnt b;
               (bs, err) = rd (pend - pstart);
               b = fill pstart bs b;
               n = int (length bs);
               tot = (if n > 0 then tot + n else tot);
               (b, r) = (if n > 0 then WriteCommit n b else (b, Ret (Inr 0)))
           in case r of
                Ret (Inl e) \<Rightarrow> (b, Stop (Ret (tot, Some e)))
              | Ret (Inr _) \<Rightarrow> (b, if err \<noteq> None then Stop (Ret (tot, err)) else Again tot)
              | Waits \<Rightarrow> (b, Stop Waits) | Locked \<Rightarrow> (b, Stop Locked)
              | Panicked \<Rightarrow> (b, Stop Panicked) | Loops \<Rightarrow> (b, Stop Loops))
      | (b, Waits) \<Rightarrow> (b, Stop Waits) | (b, Locked) \<Rightarrow> (b, Stop Locked)
      | (b, Panicked) \<Rightarrow> (b, Stop Panicked) | (b, Loops) \<Rightarrow> (b, Stop Loops))"

fun ReadFrom_loop :: "waiter \<Rightarrow> reader \<Rightarrow> int \<Rightarrow> buffer \<Rightarrow> buffer \<times> (int \<times> buferr option) outcome" where
  "ReadFrom_loop w [] tot b = (b, Waits)"
| "ReadFrom_loop w (rd # rs) tot b =
     (case ReadFrom_round w rd tot b of
        (b, Stop r) \<Rightarrow> (b, r)
      | (b, Again tot) \<Rightarrow>
          if isDone b then (b, Ret (tot, Some ErrEOF))
          else ReadFrom_loop waitForWriteSpace rs tot b)"

text \<open>The deferred \<open>Close\<close> of \<open>ReadFrom\<close> and \<open>WriteTo\<close>\<close>

fun defer_Close :: "buffer \<times> 'a outcome \<Rightarrow> buffer \<times> 'a outcome" where
  "defer_Close (b, Ret r) =
     (case Close b of (b', Ret _) \<Rightarrow> (b', Ret r) | (b', _) \<Rightarrow> (b', Locked))"
| "defer_Close (b, r) = (b, r)"

definition ReadFrom :: "reader \<Rightarrow> buffer \<Rightarrow>
    buffer \<times> (int \<times> buferr option) outcome" where
  "ReadFrom rs b = defer_Close
     (if isDone b then (b, Ret (0, Some ErrEOF)) else ReadFrom_loop waitForWriteSpace rs 0 b)"

definition ReadFrom_woken :: "reader \<Rightarrow> int \<Rightarrow> buffer \<Rightarrow>
    buffer \<times> (int \<times> buferr option) outcome" where
  "ReadFrom_woken rs tot b = defer_Close (ReadFrom_loop waitForWriteSpace_woken rs tot b)"

section \<open>The consumer's operations\<close>

text \<open>\<open>buf[cindex:cindex+n]\<close> and the two-piece copy of \<open>ReadPeek\<close> and \<open>ReadWait\<close>\<close>

definition ring_slice :: "int \<Rightarrow> int \<Rightarrow> buffer \<Rightarrow> buffer \<times> bytes" where
  "ring_slice start n b =
     (let cindex = start AND rmask b in
      if cindex + n > rsize b then
        (let l = length (drop (nat cindex) (buf b));
             t = drop (nat cindex) (buf b) @ take (nat n - l) (buf b)
         in (b\<lparr>tmp := t\<rparr>, t))
      else (b, take (nat n) (drop (nat cindex) (buf b))))"

text \<open>The wait loop the three readers share, entered with the consumer's mutex held\<close>

definition waitRead_loop :: "int \<Rightarrow> int \<Rightarrow> buffer \<Rightarrow> buffer \<times> (buferr + unit) outcome" where
  "waitRead_loop need inc b =
     (if need > ppos b then
        if isDone b then (b\<lparr>cheld := True\<rparr>, Ret (Inl ErrEOF))
        else (b\<lparr>cwait := cwait b + inc\<rparr>, Waits)
      else (b, Ret (Inr ())))"

definition waitRead :: "int \<Rightarrow> int \<Rightarrow> buffer \<Rightarrow> buffer \<times> (buferr + unit) outcome" where
  "waitRead need inc b = (if cheld b then (b, Locked) else waitRead_loop need inc b)"

definition ReadPeek_woken :: "int \<Rightarrow> buffer \<Rightarrow> buffer \<times> (buferr + bytes \<times> buferr option) outcome" where
  "ReadPeek_woken n b =
     bindr (waitRead (cpos b + 1) 1 b) (\<lambda>_ b.
       let avail = ppos b - cpos b;
           (m, err) = (if avail \<ge> n then (n, None) else (avail, Some ErrBufferInsufficientData))
       in if cpos b + m \<le> ppos b
          then (case ring_slice (cpos b) m b of (b', p) \<Rightarrow> (b', Ret (Inr (p, err))))
          else (b, Ret (Inl ErrBufferInsufficientData)))"

definition ReadPeek :: "int \<Rightarrow> buffer \<Rightarrow> buffer \<times> (buferr + bytes \<times> buferr option) outcome" where
  "ReadPeek n b =
     (if n > rsize b then (b, Ret (Inl ErrBufferFull))
      else if n < 0 then (b, Ret (Inl ErrNegativeCount))
      else ReadPeek_woken n b)"

definition ReadWait_woken :: "int \<Rightarrow> buffer \<Rightarrow> buffer \<times> (buferr + bytes) outcome" where
  "ReadWait_woken n b =
     bindr (waitRead (cpos b + n) 0 b) (\<lambda>_ b.
       case ring_slice (cpos b) n b of (b', p) \<Rightarrow> (b', Ret (Inr p)))"

definition ReadWait :: "int \<Rightarrow> buffer \<Rightarrow> buffer \<times> (buferr + bytes) outcome" where
  "ReadWait n b =
     (if n > rsize b then (b, Ret (Inl ErrBufferFull))
      else if n < 0 then (b, Ret (Inl ErrNegativeCount))
      else ReadWait_woken n b)"

definition ReadCommit :: "int \<Rightarrow> buffer \<Rightarrow> buffer \<times> (buferr + int) outcome" where
  "ReadCommit n b =
     (if n > rsize b then (b, Ret (Inl ErrBufferFull))
      else if n < 0 then (b, Ret (Inl ErrNegativeCount))
      else if cpos b + n \<le> ppos b then signal_p (Inr n) (set_cpos (cpos b + n) b)
      else (b, Ret (Inl ErrBufferInsufficientData)))"

text \<open>
  \<open>Read(p)\<close> with \<open>pl = len(p)\<close> returns the bytes stored at the front of \<open>p\<close>. The loop goes
  around once after a wait, and then finds data.
\<close>

definition Read_data :: "int \<Rightarrow> buffer \<Rightarrow> buffer \<times> (buferr + bytes) outcome" where
  "Read_data pl b =
     (let cindex = cpos b AND rmask b; avail = ppos b - cpos b;
          p = (if cpos b + pl < ppos b then take (nat pl) (drop (nat cindex) (buf b))
               else if cindex + avail < rsize b
               then take (nat pl) (take (nat avail) (drop (nat cindex) (buf b)))
               else take (nat pl) (drop (nat cindex) (buf b)))
      in signal_p (Inr p) (set_cpos (cpos b + int (length p)) b))"

definition Read_woken :: "int \<Rightarrow> buffer \<Rightarrow> buffer \<times> (buferr + bytes) outcome" where
  "Read_woken pl b = bindr (waitRead (cpos b + 1) 1 b) (\<lambda>_ b. Read_data pl b)"

definition Read :: "int \<Rightarrow> buffer \<Rightarrow> buffer \<times> (buferr + bytes) outcome" where
  "Read pl b =
     (if isDone b \<and> Len b = 0 then (b, Ret (Inl ErrEOF))
      else if cpos b + pl < ppos b \<or> cpos b < ppos b then Read_data pl b
      else Read_woken pl b)"

text \<open>
  \<open>WriteTo\<close>. The writer is the list of its answers: from the slice it is given, how many bytes
  it took and its error. The last component collects what it took.
\<close>

type_synonym writer = "(bytes \<Rightarrow> int \<times> buferr option) list"

definition ends_with :: "buferr option \<Rightarrow> bool" where
  "ends_with err \<longleftrightarrow> err \<noteq> Some ErrBufferInsufficientData \<and> err \<noteq> None"

type_synonym peeker = "int \<Rightarrow> buffer \<Rightarrow> buffer \<times> (buferr + bytes \<times> buferr option) outcome"

definition WriteTo_round :: "peeker \<Rightarrow> (bytes \<Rightarrow> int \<times> buferr option) \<Rightarrow> int \<Rightarrow> buffer \<Rightarrow>
    buffer \<times> round \<times> bytes" where
  "WriteTo_round peek wr tot b =
     (case peek (sint defaultWriteBlockSize) b of
        (b, Ret (Inl e)) \<Rightarrow> (b, if ends_with (Some e) then Stop (Ret (tot, Some e)) else Again tot, [])
      | (b, Ret (Inr (p, err))) \<Rightarrow>
          if length p > 0 then
            (let (n, werr) = wr p; sent = take (nat n) p; tot = tot + n in
             if werr \<noteq> None then (b, Stop (Ret (tot, werr)), sent)
             else case ReadCommit n b of
                 (b, Ret (Inl e)) \<Rightarrow> (b, Stop (Ret (tot, Some e)), sent)
               | (b, Ret (Inr _)) \<Rightarrow>
                   (b, if ends_with err then Stop (Ret (tot, err)) else Again tot, sent)
               | (b, Waits) \<Rightarrow> (b, Stop Waits, sent) | (b, Locked) \<Rightarrow> (b, Stop Locked, sent)
               | (b, Panicked) \<Rightarrow> (b, Stop Panicked, sent) | (b, Loops) \<Rightarrow> (b, Stop Loops, sent))
          else (b, if ends_with err then Stop (Ret (tot, err)) else Again tot, [])
      | (b, Waits) \<Rightarrow> (b, Stop Waits, []) | (b, Locked) \<Rightarrow> (b, Stop Locked, [])
      | (b, Panicked) \<Rightarrow> (b, Stop Panicked, []) | (b, Loops) \<Rightarrow> (b, Stop Loops, []))"

fun WriteTo_loop :: "peeker \<Rightarrow> writer \<Rightarrow> int \<Rightarrow> bytes \<Rightarrow> buffer \<Rightarrow>
    buffer \<times> (int \<times> buferr option) outcome \<times> bytes" where
  "WriteTo_loop peek [] tot out b = (b, Waits, out)"
| "WriteTo_loop peek (wr # ws) tot out b =
     (case WriteTo_round peek wr tot b of
        (b, Stop r, sent) \<Rightarrow> (b, r, out @ sent)
      | (b, Again tot, sent) \<Rightarrow>
          if isDone b then (b, Ret (tot, Some ErrEOF), out @ sent)
          else WriteTo_loop ReadPeek ws tot (out @ sent) b)"

definition WriteTo_end ::
    "buffer \<times> (int \<times> buferr option) outcome \<times> bytes \<Rightarrow> buffer \<times> (int \<times> buferr option) outcome \<times> bytes" where
  "WriteTo_end x = (case x of (b, r, out) \<Rightarrow> (case defer_Close (b, r) of (b', r') \<Rightarrow> (b', r', out)))"

definition WriteTo :: "writer \<Rightarrow> buffer \<Rightarrow> buffer \<times> (int \<times> buferr option) outcome \<times> bytes" where
  "WriteTo ws b = WriteTo_end
     (if isDone b then (b, Ret (0, Some ErrEOF), []) else WriteTo_loop ReadPeek ws 0 [] b)"

definition WriteTo_woken ::
    "writer \<Rightarrow> int \<Rightarrow> bytes \<Rightarrow> buffer \<Rightarrow> buffer \<times> (int \<times> buferr option) outcome \<times> bytes" where
  "WriteTo_woken ws tot out b = WriteTo_end (WriteTo_loop ReadPeek_woken ws tot out b)"

section \<open>The invariant and the queue a ring stands for\<close>

definition ring_ok :: "buffer \<Rightarrow> bool" where
  "ring_ok b \<longleftrightarrow> list_ex (\<lambda>k. rsize b = 2 ^ k) [0..<63] \<and> rmask b = rsize b - 1
     \<and> int (length (buf b)) = rsize b
     \<and> 0 \<le> gate (pseq b) \<and> gate (pseq b) \<le> cpos b \<and> cpos b \<le> ppos b \<and> ppos b \<le> cpos b + rsize b"

text \<open>\<open>window b i n\<close>: the \<open>n\<close> bytes from position \<open>i\<close> on; \<open>contents b\<close>: what is unread\<close>

definition byte_at :: "buffer \<Rightarrow> int \<Rightarrow> byte" where
  "byte_at b i = buf b ! nat (i mod rsize b)"

definition window :: "buffer \<Rightarrow> int \<Rightarrow> nat \<Rightarrow> bytes" where
  "window b i n = map (\<lambda>k. byte_at b (i + int k)) [0..<n]"

definition contents :: "buffer \<Rightarrow> bytes" where
  "contents b = window b (cpos b) (nat (ppos b - cpos b))"

named_theorems ring_simps \<open>positions of the ring after an update\<close>

lemma pos_simps [simp, ring_simps]:
  "cpos (set_cpos i b) = i" "ppos (set_cpos i b) = ppos b"
  "cpos (set_ppos i b) = cpos b" "ppos (set_ppos i b) = i"
  "cpos (set_gate i b) = cpos b" "ppos (set_gate i b) = ppos b"
  "buf (set_cpos i b) = buf b" "buf (set_ppos i b) = buf b" "buf (set_gate i b) = buf b"
  "rsize (set_cpos i b) = rsize b" "rsize (set_ppos i b) = rsize b" "rsize (set_gate i b) = rsize b"
  "rmask (set_cpos i b) = rmask b" "rmask (set_ppos i b) = rmask b" "rmask (set_gate i b) = rmask b"
  "gate (pseq (set_cpos i b)) = gate (pseq b)" "gate (pseq (set_ppos i b)) = gate (pseq b)"
  "gate (pseq (set_gate i b)) = i"
  "pheld (set_cpos i b) = pheld b" "pheld (set_ppos i b) = pheld b" "pheld (set_gate i b) = pheld b"
  "cheld (set_cpos i b) = cheld b" "cheld (set_ppos i b) = cheld b" "cheld (set_gate i b) = cheld b"
  "isDone (set_cpos i b) = isDone b" "isDone (set_ppos i b) = isDone b" "isDone (set_gate i b) = isDone b"
  by (simp_all add: cpos_def ppos_def set_cpos_def set_ppos_def set_gate_def isDone_def)

lemma field_simps_ring [simp, ring_simps]:
  "cpos (b\<lparr>buf := xs\<rparr>) = cpos b" "ppos (b\<lparr>buf := xs\<rparr>) = ppos b" "isDone (b\<lparr>buf := xs\<rparr>) = isDone b"
  "cpos (b\<lparr>tmp := xs\<rparr>) = cpos b" "ppos (b\<lparr>tmp := xs\<rparr>) = ppos b" "isDone (b\<lparr>tmp := xs\<rparr>) = isDone b"
  "cpos (b\<lparr>pwait := n\<rparr>) = cpos b" "ppos (b\<lparr>pwait := n\<rparr>) = ppos b"
  "cpos (b\<lparr>cwait := n\<rparr>) = cpos b" "ppos (b\<lparr>cwait := n\<rparr>) = ppos b"
  "cpos (b\<lparr>pheld := l\<rparr>) = cpos b" "ppos (b\<lparr>pheld := l\<rparr>) = ppos b"
  "cpos (b\<lparr>cheld := l\<rparr>) = cpos b" "ppos (b\<lparr>cheld := l\<rparr>) = ppos b"
  "cpos (b\<lparr>rdone := n\<rparr>) = cpos b" "ppos (b\<lparr>rdone := n\<rparr>) = ppos b"
  by (simp_all add: cpos_def ppos_def isDone_def)

lemma ring_okD:
  assumes "ring_ok b"
  shows "0 < rsize b" and "rmask b = rsize b - 1" and "int (length (buf b)) = rsize b"
    and "0 \<le> gate (pseq b)" and "gate (pseq b) \<le> cpos b" and "cpos b \<le> ppos b"
    and "ppos b \<le> cpos b + rsize b"
  using assms by (auto simp: ring_ok_def list_ex_iff)

lemma masked: "ring_ok b \<Longrightarrow> i AND rmask b = i mod rsize b"
  by (auto simp: ring_ok_def list_ex_iff mask_eq_exp_minus_1 [symmetric] take_bit_eq_mask [symmetric]
      take_bit_eq_mod)

lemma window_0 [simp]: "window b i 0 = []"
  by (simp add: window_def)

lemma length_window [simp]: "length (window b i n) = n"
  by (simp add: window_def)

lemma nth_window [simp]: "k < n \<Longrightarrow> window b i n ! k = byte_at b (i + int k)"
  by (simp add: window_def)

lemma window_add: "window b i (m + n) = window b i m @ window b (i + int m) n"
  by (rule nth_equalityI) (auto simp: nth_append add.assoc intro!: arg_cong [where f = "byte_at b"])

lemma take_window: "m \<le> n \<Longrightarrow> take m (window b i n) = window b i m"
  by (rule nth_equalityI) simp_all

lemma drop_window: "m \<le> n \<Longrightarrow> drop m (window b i n) = window b (i + int m) (n - m)"
  by (rule nth_equalityI) (simp_all add: add.assoc)

lemma window_cong:
  "(\<And>k. k < n \<Longrightarrow> byte_at b (i + int k) = byte_at b' (i + int k)) \<Longrightarrow> window b i n = window b' i n"
  by (simp add: window_def)

lemma byte_at_cong: "buf b = buf b' \<Longrightarrow> rsize b = rsize b' \<Longrightarrow> byte_at b = byte_at b'"
  by (rule ext) (simp add: byte_at_def)

lemma window_same: "buf b = buf b' \<Longrightarrow> rsize b = rsize b' \<Longrightarrow> window b = window b'"
  by (rule ext)+ (simp add: window_def byte_at_cong [of b b'])

lemma length_contents: "ring_ok b \<Longrightarrow> int (length (contents b)) = ppos b - cpos b"
  using ring_okD [of b] by (simp add: contents_def)

lemma length_contents_le: "ring_ok b \<Longrightarrow> int (length (contents b)) \<le> rsize b"
  using ring_okD [of b] by (simp add: contents_def)

text \<open>A window that does not go around the end is a slice of the buffer.\<close>

lemma mod_add_small: "0 < (m::int) \<Longrightarrow> 0 \<le> k \<Longrightarrow> i mod m + k < m \<Longrightarrow> (i + k) mod m = i mod m + k"
  by (metis add_nonneg_nonneg mod_add_left_eq mod_pos_pos_trivial pos_mod_sign)

lemma mod_add_wrap:
  "0 < (m::int) \<Longrightarrow> m \<le> i mod m + k \<Longrightarrow> k \<le> m \<Longrightarrow> (i + k) mod m = i mod m + k - m"
proof -
  assume m: "0 < m" "m \<le> i mod m + k" "k \<le> m"
  have lt: "i mod m < m" using m(1) by simp
  have "(i + k) mod m = (i mod m + k) mod m"
    by (simp add: mod_add_left_eq)
  also have "\<dots> = (i mod m + k - m) mod m"
    by (simp only: minus_mod_self2)
  also have "\<dots> = i mod m + k - m"
    by (rule mod_pos_pos_trivial) (use m lt in linarith)+
  finally show ?thesis .
qed

lemma window_slice:
  assumes "0 < rsize b" and "int (length (buf b)) = rsize b" and "i mod rsize b + int n \<le> rsize b"
  shows "window b i n = take n (drop (nat (i mod rsize b)) (buf b))"
proof (rule nth_equalityI)
  have nn: "0 \<le> i mod rsize b" using assms(1) by simp
  then obtain c where c: "i mod rsize b = int c"
    by (metis nonneg_int_cases)
  show "length (window b i n) = length (take n (drop (nat (i mod rsize b)) (buf b)))"
    using assms(2,3) by (simp add: c)
  fix k assume k: "k < length (window b i n)"
  have "(i + int k) mod rsize b = i mod rsize b + int k"
    using assms k by (intro mod_add_small) auto
  then show "window b i n ! k = take n (drop (nat (i mod rsize b)) (buf b)) ! k"
    using k nn assms(2,3) by (simp add: byte_at_def nat_add_distrib c)
qed

lemma window_wrap:
  assumes "0 < rsize b" and "int (length (buf b)) = rsize b"
    and "rsize b < i mod rsize b + int n" and "int n \<le> rsize b"
  shows "window b i n = drop (nat (i mod rsize b)) (buf b)
           @ take (n - (length (buf b) - nat (i mod rsize b))) (buf b)"
proof -
  have nn: "0 \<le> i mod rsize b" "i mod rsize b < rsize b" using assms(1) by simp_all
  then obtain c where c: "i mod rsize b = int c"
    by (metis nonneg_int_cases)
  define m where "m = nat (rsize b - i mod rsize b)"
  have m: "int m = rsize b - i mod rsize b" "m \<le> n" "m = length (buf b) - nat (i mod rsize b)"
    using nn(2) assms by (simp_all add: m_def c)
  have "window b i n = window b i m @ window b (i + int m) (n - m)"
    using window_add [of b i m "n - m"] m by simp
  moreover have "window b i m = drop (nat (i mod rsize b)) (buf b)"
    using window_slice [OF assms(1,2), of i m] m by simp
  moreover have "(i + int m) mod rsize b = 0"
    using mod_add_wrap [of "rsize b" i "int m"] assms m nn by simp
  then have "window b (i + int m) (n - m) = take (n - m) (buf b)"
    using window_slice [OF assms(1,2), of "i + int m" "n - m"] assms m by simp
  ultimately show ?thesis
    using m by simp
qed

lemma ring_slice_window:
  assumes "ring_ok b" and "0 \<le> n" and "n \<le> rsize b"
  shows "snd (ring_slice i n b) = window b i (nat n)"
  using assms ring_okD(1,3) [OF assms(1)] window_slice [of b i "nat n"] window_wrap [of b i "nat n"]
  by (auto simp: ring_slice_def Let_def masked not_less)

lemma ring_slice_state: "\<exists>t. fst (ring_slice i n b) = b\<lparr>tmp := t\<rparr>"
  by (auto simp: ring_slice_def Let_def intro: exI [of _ "tmp b"])

section \<open>The copy\<close>

lemma ringCopy_loop_0 [simp]: "ringCopy_loop dst src start i 0 = Some (dst, i)"
  by (subst ringCopy_loop.simps) simp

lemma ringCopy_loop_step:
  assumes "0 < n" and "n = length src - i"
  shows "ringCopy_loop dst src start i n =
    (let l = min (length dst - start) n in
     ringCopy_loop (take start dst @ take l (drop i src) @ drop (start + l) dst) src
       (if n - l > 0 then 0 else start) (i + l) (n - l))"
  using assms by (subst ringCopy_loop.simps) (simp add: copy_at_def Let_def)

lemma length_copied:
  "start \<le> length dst \<Longrightarrow> l = min (length dst - start) (length xs)
    \<Longrightarrow> length (take start dst @ take l xs @ drop (start + l) dst) = length dst"
  by simp

text \<open>The loop ends for every destination that is not empty, wherever it starts.\<close>

lemma ringCopy_loop_ends:
  assumes "start < length dst" and "i \<le> length src" and "n = length src - i"
  shows "\<exists>dst'. ringCopy_loop dst src start i n = Some (dst', length src) \<and> length dst' = length dst"
  using assms
proof (induction n arbitrary: dst start i rule: less_induct)
  case (less n)
  show ?case
  proof (cases "n = 0")
    case True
    then show ?thesis using less.prems by simp
  next
    case False
    let ?l = "min (length dst - start) n"
    let ?d = "take start dst @ take ?l (drop i src) @ drop (start + ?l) dst"
    have len: "length ?d = length dst"
      using less.prems by simp
    have "\<exists>dst'. ringCopy_loop ?d src (if n - ?l > 0 then 0 else start) (i + ?l) (n - ?l)
        = Some (dst', length src) \<and> length dst' = length ?d"
      by (rule less.IH) (use False less.prems len in auto)
    then show ?thesis
      using False less.prems(3) len by (simp add: ringCopy_loop_step Let_def)
  qed
qed

lemma ringCopy_ends:
  assumes "dst \<noteq> []" and "start \<le> length dst"
  shows "\<exists>dst'. ringCopy dst src start = Some (dst', length src) \<and> length dst' = length dst"
proof (cases "start < length dst \<or> src = []")
  case True
  then show ?thesis
    using ringCopy_loop_ends [of start dst 0 src] by (auto simp: ringCopy_def)
next
  case False
  then have "ringCopy dst src start = ringCopy_loop dst src 0 0 (length src)"
    using assms by (simp add: ringCopy_def ringCopy_loop_step)
  then show ?thesis
    using assms ringCopy_loop_ends [of 0 dst 0 src] by auto
qed

lemma ringCopy_flat:
  assumes "start + length src \<le> length dst"
  shows "ringCopy dst src start
    = Some (take start dst @ src @ drop (start + length src) dst, length src)"
  using assms by (cases "src = []") (simp_all add: ringCopy_def ringCopy_loop_step Let_def min_absorb2)

lemma ringCopy_wrap:
  assumes "start < length dst" and "length dst < start + length src" and "length src \<le> length dst"
    and "l = length dst - start"
  shows "ringCopy dst src start
    = Some (drop l src @ drop (length src - l) (take start dst) @ take l src, length src)"
proof -
  have l: "0 < l" "l < length src" "length src - l \<le> start" "src \<noteq> []"
    using assms by auto
  let ?d = "take start dst @ take l src"
  have "ringCopy dst src start = ringCopy_loop ?d src 0 l (length src - l)"
    unfolding ringCopy_def using assms l
    by (subst ringCopy_loop_step) (simp_all add: Let_def min_absorb1)
  also have "\<dots> = Some (drop l src @ drop (length src - l) ?d, length src)"
    using l assms by (subst ringCopy_loop_step) (simp_all add: Let_def min_absorb2)
  also have "drop (length src - l) ?d = drop (length src - l) (take start dst) @ take l src"
    using l assms(1) by simp
  finally show ?thesis .
qed

text \<open>
  A copy that fits writes the source at the positions from \<open>start\<close> on, around the end, and
  leaves every other byte.
\<close>

lemma ringCopy_nth:
  assumes "start < length dst" and "length src \<le> length dst"
    and "ringCopy dst src start = Some (dst', n)" and "k < length dst"
  shows "dst' ! ((start + k) mod length dst)
    = (if k < length src then src ! k else dst ! ((start + k) mod length dst))"
proof (cases "start + length src \<le> length dst")
  case True
  have d: "dst' = take start dst @ src @ drop (start + length src) dst"
    using ringCopy_flat [OF True] assms(3) by simp
  show ?thesis
  proof (cases "start + k < length dst")
    case True
    then show ?thesis
      using assms(1) \<open>start + length src \<le> length dst\<close>
      by (auto simp: d nth_append min_absorb2 not_less intro!: arg_cong [where f = "(!) dst"])
  next
    case False
    then have "(start + k) mod length dst = start + k - length dst"
      using assms by (simp add: mod_if)
    then show ?thesis
      using False assms True by (auto simp: d nth_append)
  qed
next
  case False
  define l where "l = length dst - start"
  have d: "dst' = drop l src @ drop (length src - l) (take start dst) @ take l src"
    using ringCopy_wrap [of start dst src l] assms False by (simp add: l_def)
  show ?thesis
  proof (cases "start + k < length dst")
    case True
    then have "k < l" by (simp add: l_def)
    then show ?thesis
      using True False assms by (auto simp: d nth_append l_def min_absorb2 intro!: arg_cong [where f = "(!) src"])
  next
    case False
    then have m: "(start + k) mod length dst = k - l"
      using assms by (simp add: mod_if l_def add.commute)
    show ?thesis
    proof (cases "k < length src")
      case True
      then have "k - l < length src - l" "l + (k - l) = k"
        using False by (simp_all add: l_def)
      then show ?thesis
        using True by (simp add: d m nth_append)
    next
      case False
      then show ?thesis
        using \<open>\<not> start + k < length dst\<close> \<open>\<not> start + length src \<le> length dst\<close> assms m
        by (auto simp: d nth_append l_def min_absorb2 intro!: arg_cong [where f = "(!) dst"])
    qed
  qed
qed

lemma ring_index:
  assumes "ring_ok b" and "0 \<le> k"
  shows "nat ((i + k) mod rsize b) = (nat (i mod rsize b) + nat k) mod length (buf b)"
proof -
  have "int ((nat (i mod rsize b) + nat k) mod length (buf b)) = (i mod rsize b + k) mod rsize b"
    using ring_okD(1,3) [OF assms(1)] assms(2) by (simp add: zmod_int)
  also have "\<dots> = (i + k) mod rsize b"
    by (simp add: mod_add_left_eq)
  finally show ?thesis
    by (metis nat_int)
qed

lemma ring_start: "ring_ok b \<Longrightarrow> nat (i AND rmask b) < length (buf b)"
  using ring_okD(1,3) [of b] masked [of b i]
  by (metis nat_less_iff of_nat_0_le_iff pos_mod_bound pos_mod_sign)

lemma ringCopy_byte_at:
  assumes "ring_ok b" and "ringCopy (buf b) p (nat (i AND rmask b)) = Some (dst, n)"
    and "int (length p) \<le> rsize b" and "0 \<le> k" and "k < rsize b"
  shows "byte_at (b\<lparr>buf := dst\<rparr>) (i + k)
    = (if k < int (length p) then p ! nat k else byte_at b (i + k))"
  using ringCopy_nth [OF ring_start [OF assms(1), of i] _ assms(2), of "nat k"] assms(3-5)
    ring_okD(3) [OF assms(1)] ring_index [OF assms(1,4), of i] masked [OF assms(1), of i]
  by (auto simp: byte_at_def)

lemma ringCopy_length:
  assumes "ring_ok b" and "ringCopy (buf b) p (nat (i AND rmask b)) = Some (dst, n)"
  shows "length dst = length (buf b)" and "n = length p"
  using ringCopy_ends [of "buf b" "nat (i AND rmask b)" p] ring_start [OF assms(1), of i] assms(2)
  by (cases "buf b = []"; simp)+

text \<open>Storing bytes past the producer's position leaves the unread ones.\<close>

lemma ringCopy_window:
  assumes "ring_ok b" and "ringCopy (buf b) p (nat (ppos b AND rmask b)) = Some (dst, n)"
    and "ppos b + int (length p) \<le> cpos b + rsize b"
  shows "window (b\<lparr>buf := dst\<rparr>) (ppos b) (length p) = p"
    and "window (b\<lparr>buf := dst\<rparr>) (cpos b) (nat (ppos b - cpos b)) = contents b"
proof -
  note o = ring_okD [OF assms(1)]
  have len: "int (length p) \<le> rsize b"
    using assms(3) o by linarith
  note ba = ringCopy_byte_at [OF assms(1,2) len]
  show "window (b\<lparr>buf := dst\<rparr>) (ppos b) (length p) = p"
    using ba len by (intro nth_equalityI) simp_all
  have "byte_at (b\<lparr>buf := dst\<rparr>) (cpos b + int k) = byte_at b (cpos b + int k)"
    if k: "k < nat (ppos b - cpos b)" for k
  proof -
    let ?j = "cpos b + int k + rsize b - ppos b"
    have j: "0 \<le> ?j" "?j < rsize b" "\<not> ?j < int (length p)"
      using k o assms(3) by linarith+
    have "ppos b + ?j = cpos b + int k + rsize b"
      by simp
    then have "(ppos b + ?j) mod rsize b = (cpos b + int k) mod rsize b"
      by (simp only: mod_add_self2)
    then have "byte_at b' (ppos b + ?j) = byte_at b' (cpos b + int k)" if "rsize b' = rsize b" for b'
      using that by (simp only: byte_at_def)
    then show ?thesis
      using ba [OF j(1,2)] j(3) by simp
  qed
  then show "window (b\<lparr>buf := dst\<rparr>) (cpos b) (nat (ppos b - cpos b)) = contents b"
    unfolding contents_def by (intro window_cong) simp
qed

section \<open>The invariant under the elementary updates\<close>

lemma ring_ok_buf [inv_intro]:
  "ring_ok b \<Longrightarrow> length xs = length (buf b) \<Longrightarrow> ring_ok (b\<lparr>buf := xs\<rparr>)"
  by (simp add: ring_ok_def)

lemma ring_ok_gate [inv_intro]: "ring_ok b \<Longrightarrow> ring_ok (set_gate (cpos b) b)"
  by (simp add: ring_ok_def)

lemma ring_ok_ppos [inv_intro]:
  "ring_ok b \<Longrightarrow> cpos b \<le> i \<Longrightarrow> i \<le> cpos b + rsize b \<Longrightarrow> ring_ok (set_ppos i b)"
  by (simp add: ring_ok_def)

lemma ring_ok_cpos [inv_intro]:
  "ring_ok b \<Longrightarrow> cpos b \<le> i \<Longrightarrow> i \<le> ppos b \<Longrightarrow> ring_ok (set_cpos i b)"
  by (simp add: ring_ok_def)

lemma ring_ok_other [simp]:
  "ring_ok (b\<lparr>tmp := t\<rparr>) = ring_ok b" "ring_ok (b\<lparr>pwait := n\<rparr>) = ring_ok b"
  "ring_ok (b\<lparr>cwait := n\<rparr>) = ring_ok b" "ring_ok (b\<lparr>pheld := l\<rparr>) = ring_ok b"
  "ring_ok (b\<lparr>cheld := l\<rparr>) = ring_ok b" "ring_ok (b\<lparr>rdone := n\<rparr>) = ring_ok b"
  by (simp_all add: ring_ok_def)

lemma contents_other [simp]:
  "contents (b\<lparr>tmp := t\<rparr>) = contents b" "contents (b\<lparr>pwait := n\<rparr>) = contents b"
  "contents (b\<lparr>cwait := n\<rparr>) = contents b" "contents (b\<lparr>pheld := l\<rparr>) = contents b"
  "contents (b\<lparr>cheld := l\<rparr>) = contents b" "contents (b\<lparr>rdone := n\<rparr>) = contents b"
  "contents (set_gate i b) = contents b"
  by (simp_all add: contents_def window_def byte_at_def)

lemma contents_set_ppos:
  "ring_ok b \<Longrightarrow> 0 \<le> n \<Longrightarrow> contents (set_ppos (ppos b + n) b) = contents b @ window b (ppos b) (nat n)"
  using window_add [of b "cpos b" "nat (ppos b - cpos b)" "nat n"] ring_okD(6) [of b]
    window_same [of "set_ppos (ppos b + n) b" b]
  by (simp add: contents_def nat_add_distrib [symmetric] algebra_simps)

lemma contents_set_cpos:
  "ring_ok b \<Longrightarrow> 0 \<le> n \<Longrightarrow> cpos b + n \<le> ppos b
    \<Longrightarrow> contents (set_cpos (cpos b + n) b) = drop (nat n) (contents b)"
  using drop_window [of "nat n" "nat (ppos b - cpos b)" b "cpos b"]
    window_same [of "set_cpos (cpos b + n) b" b]
  by (simp add: contents_def nat_diff_distrib [symmetric] algebra_simps)

lemma window_contents:
  "ring_ok b \<Longrightarrow> 0 \<le> n \<Longrightarrow> cpos b + n \<le> ppos b
    \<Longrightarrow> window b (cpos b) (nat n) = take (nat n) (contents b)"
  by (simp add: contents_def take_window)

section \<open>The producer\<close>

lemma bindr_Inr_iff:
  "bindr x k = (b', Ret (Inr r)) \<longleftrightarrow> (\<exists>b0 a. x = (b0, Ret (Inr a)) \<and> k a b0 = (b', Ret (Inr r)))"
  by (cases "(x, k)" rule: bindr.cases) auto

text \<open>
  The contract of a wait for space, met by the call of \<open>waitForWriteSpace\<close> and by its
  resumption after a broadcast.
\<close>

locale space_wait =
  fixes w :: waiter
  assumes granted: "w n b = (b', Ret (Inr (s, c))) \<Longrightarrow> ring_ok b
      \<Longrightarrow> s = ppos b \<and> c = n \<and> (b' = b \<or> b' = set_gate (cpos b) b)
          \<and> ppos b + n \<le> cpos b + rsize b"
    and refused: "w n b = (b', Ret (Inl e))
      \<Longrightarrow> e = ErrEOF \<and> isDone b \<and> (b' = b \<or> b' = b\<lparr>pheld := True\<rparr>)"
    and sleeps: "w n b = (b', Waits)
      \<Longrightarrow> \<not> isDone b \<and> cpos b + rsize b < ppos b + n \<and> b' = b\<lparr>pwait := pwait b + 1\<rparr>"
    and stuck: "w n b = (b', Locked) \<Longrightarrow> pheld b \<and> b' = b"
    and ends: "snd (w n b) \<noteq> Panicked" "snd (w n b) \<noteq> Loops"
begin

lemma bindr_w:
  assumes "bindr (w n b) k = (b', Ret (Inr r))" and "ring_ok b"
  obtains b0 where "b0 = b \<or> b0 = set_gate (cpos b) b" and "ring_ok b0" and "contents b0 = contents b"
    and "ppos b + n \<le> cpos b + rsize b" and "k (ppos b, n) b0 = (b', Ret (Inr r))"
proof -
  obtain b0 s c where w: "w n b = (b0, Ret (Inr (s, c)))" and k: "k (s, c) b0 = (b', Ret (Inr r))"
    using assms(1) by (auto simp: bindr_Inr_iff)
  note g = granted [OF w assms(2)]
  show thesis
    by (rule that [of b0]) (use g k ring_ok_gate [OF assms(2)] assms(2) in auto)
qed

lemma Write_from_appends:
  assumes "ring_ok b" and "Write_from w p b = (b', Ret (Inr n))"
  shows "ring_ok b' \<and> contents b' = contents b @ p \<and> n = int (length p) \<and> cpos b' = cpos b"
proof -
  define k :: "int \<times> int \<Rightarrow> buffer \<Rightarrow> buffer \<times> (buferr + int) outcome" where
    "k = (\<lambda>(start, cnt) b. case ringCopy (buf b) p (nat (start AND rmask b)) of None \<Rightarrow> (b, Loops)
    | Some (dst, tot) \<Rightarrow> signal_c (Inr (int tot)) (set_ppos (start + int (length p)) (b\<lparr>buf := dst\<rparr>)))"
  have "bindr (w (int (length p)) b) k = (b', Ret (Inr n))"
    using assms(2) by (simp add: Write_from_def k_def)
  then obtain b0 where b0: "b0 = b \<or> b0 = set_gate (cpos b) b" "ring_ok b0" "contents b0 = contents b"
      "ppos b + int (length p) \<le> cpos b + rsize b"
    and r0: "k (ppos b, int (length p)) b0 = (b', Ret (Inr n))"
    by (rule bindr_w [OF _ assms(1)]) blast
  obtain dst m where dst: "ringCopy (buf b0) p (nat (ppos b AND rmask b0)) = Some (dst, m)"
    and r: "b' = set_ppos (ppos b + int (length p)) (b0\<lparr>buf := dst\<rparr>)" "n = int m"
    using r0 by (auto simp: k_def signal_c_def split: option.splits if_splits)
  have p: "ppos b0 = ppos b" "cpos b0 = cpos b" "rsize b0 = rsize b"
    using b0(1) by auto
  note w = ringCopy_window [of b0 p dst m] and l = ringCopy_length [of b0 p "ppos b" dst m]
  have ok: "ring_ok (b0\<lparr>buf := dst\<rparr>)"
    using b0(2) l dst by (intro ring_ok_buf) simp_all
  have "contents (b0\<lparr>buf := dst\<rparr>) = contents b"
    using w(2) b0 dst p by (simp add: contents_def)
  moreover have "contents b' = contents (b0\<lparr>buf := dst\<rparr>) @ p"
    using contents_set_ppos [OF ok, of "int (length p)"] w(1) b0 dst p r(1) by simp
  moreover have "ring_ok b'"
    using ring_ok_ppos [OF ok, of "ppos b + int (length p)"] r p b0 ring_okD(6) [OF assms(1)] by simp
  ultimately show ?thesis
    using r l b0 dst p by simp
qed

lemma WriteCommit_from_appends:
  assumes "ring_ok b" and "0 \<le> n" and "WriteCommit_from w n b = (b', Ret (Inr m))"
  shows "ring_ok b' \<and> contents b' = contents b @ window b (ppos b) (nat n) \<and> m = n \<and> cpos b' = cpos b"
proof -
  define k :: "int \<times> int \<Rightarrow> buffer \<Rightarrow> buffer \<times> (buferr + int) outcome" where
    "k = (\<lambda>(start, cnt) b. signal_c (Inr cnt) (set_ppos (start + cnt) b))"
  have "bindr (w n b) k = (b', Ret (Inr m))"
    using assms(3) by (simp add: WriteCommit_from_def k_def)
  then obtain b0 where b0: "b0 = b \<or> b0 = set_gate (cpos b) b" "ring_ok b0" "contents b0 = contents b"
      "ppos b + n \<le> cpos b + rsize b" and r0: "k (ppos b, n) b0 = (b', Ret (Inr m))"
    by (rule bindr_w [OF _ assms(1)]) blast
  then have r: "b' = set_ppos (ppos b + n) b0" "m = n"
    using r0 by (auto simp: k_def signal_c_def split: if_splits)
  have p: "ppos b0 = ppos b" "cpos b0 = cpos b" "rsize b0 = rsize b" "window b0 = window b"
    using b0(1) window_same [of b0 b] by auto
  then show ?thesis
    using b0 r contents_set_ppos [OF b0(2) assms(2)] ring_ok_ppos [OF b0(2), of "ppos b + n"]
      ring_okD(6) [OF assms(1)] assms(2) by simp
qed

text \<open>A write that is larger than the ring never gets its space.\<close>

lemma oversize_waits:
  assumes "ring_ok b" and "rsize b < int (length p)" and "\<not> isDone b" and "\<not> pheld b"
  shows "Write_from w p b = (b\<lparr>pwait := pwait b + 1\<rparr>, Waits)"
proof -
  have big: "\<not> ppos b + int (length p) \<le> cpos b + rsize b"
    using assms(2) ring_okD(6) [OF assms(1)] by linarith
  obtain b' r where w: "w (int (length p)) b = (b', r)"
    by (cases "w (int (length p)) b")
  then have "r = Waits"
  proof (cases r)
    case (Ret x)
    then show ?thesis
      using w big granted [OF _ assms(1), of "int (length p)"] refused [of "int (length p)" b] assms(3)
      by (cases x) auto
  qed (use w stuck ends [of "int (length p)" b] assms(4) in auto)
  then show ?thesis
    using w sleeps [of "int (length p)" b b'] by (simp add: Write_from_def)
qed

end

lemma waitWrite_loop_cases:
  "waitWrite_loop n b = (b', r) \<Longrightarrow>
     (ppos b + n \<le> cpos b + rsize b \<and> b' = set_gate (cpos b) b \<and> r = Ret (Inr (ppos b, n)))
   \<or> (cpos b + rsize b < ppos b + n \<and> isDone b \<and> b' = b\<lparr>pheld := True\<rparr> \<and> r = Ret (Inl ErrEOF))
   \<or> (cpos b + rsize b < ppos b + n \<and> \<not> isDone b \<and> b' = b\<lparr>pwait := pwait b + 1\<rparr> \<and> r = Waits)"
  by (auto simp: waitWrite_loop_def split: if_splits)

interpretation woken: space_wait waitForWriteSpace_woken
  by unfold_locales
    (auto simp: waitForWriteSpace_woken_def waitWrite_loop_def split: if_splits)

interpretation call: space_wait waitForWriteSpace
  by unfold_locales
    (auto simp: waitForWriteSpace_def waitWrite_loop_def Let_def dest: ring_okD(5) split: if_splits)

text \<open>The two operations that write, at the call and at the resumption\<close>

lemma Write_appends:
  "ring_ok b \<Longrightarrow> Write p b = (b', Ret (Inr n)) \<Longrightarrow>
     ring_ok b' \<and> contents b' = contents b @ p \<and> n = int (length p) \<and> cpos b' = cpos b"
  by (rule call.Write_from_appends) (auto simp: Write_def split: if_splits)

lemma Write_woken_appends:
  "ring_ok b \<Longrightarrow> Write_woken p b = (b', Ret (Inr n)) \<Longrightarrow>
     ring_ok b' \<and> contents b' = contents b @ p \<and> n = int (length p) \<and> cpos b' = cpos b"
  by (rule woken.Write_from_appends) (auto simp: Write_woken_def)

lemma WriteCommit_appends:
  "ring_ok b \<Longrightarrow> 0 \<le> n \<Longrightarrow> WriteCommit n b = (b', Ret (Inr m)) \<Longrightarrow>
     ring_ok b' \<and> contents b' = contents b @ window b (ppos b) (nat n) \<and> m = n \<and> cpos b' = cpos b"
  by (rule call.WriteCommit_from_appends) (auto simp: WriteCommit_def)

text \<open>With room, no leaked mutex and the ring open, the write is done at once.\<close>

lemma Write_room:
  assumes "ring_ok b" and "int (length (contents b) + length p) \<le> rsize b"
    and "\<not> isDone b" and "\<not> pheld b" and "\<not> cheld b"
  shows "\<exists>b'. Write p b = (b', Ret (Inr (int (length p))))"
proof -
  have room: "ppos b + int (length p) - rsize b \<le> cpos b"
    using assms(2) length_contents [OF assms(1)] by simp
  obtain dst where dst: "ringCopy (buf b) p (nat (ppos b AND rmask b)) = Some (dst, length p)"
    using ringCopy_ends [of "buf b" "nat (ppos b AND rmask b)" p] ring_start [OF assms(1), of "ppos b"]
    by (cases "buf b = []") auto
  have "\<exists>b0. (b0 = b \<or> b0 = set_gate (cpos b) b)
      \<and> waitForWriteSpace (int (length p)) b = (b0, Ret (Inr (ppos b, int (length p))))"
    using room assms(3,4) by (auto simp: waitForWriteSpace_def waitWrite_loop_def Let_def)
  then show ?thesis
    using dst assms(3,5) by (auto simp: Write_def Write_from_def signal_c_def)
qed

section \<open>The consumer\<close>

lemma waitRead_Inr: "waitRead m i b = (b', Ret (Inr u)) \<Longrightarrow> b' = b \<and> m \<le> ppos b"
  by (auto simp: waitRead_def waitRead_loop_def split: if_splits)

lemma ReadWait_woken_ready:
  assumes "ring_ok b" and "0 \<le> n" and "n \<le> int (length (contents b))" and "\<not> cheld b"
  shows "\<exists>t. ReadWait_woken n b = (b\<lparr>tmp := t\<rparr>, Ret (Inr (take (nat n) (contents b))))"
proof -
  have n: "cpos b + n \<le> ppos b" "n \<le> rsize b"
    using assms(3) length_contents [OF assms(1)] length_contents_le [OF assms(1)] by linarith+
  obtain b' q where r: "ring_slice (cpos b) n b = (b', q)"
    by (cases "ring_slice (cpos b) n b")
  then show ?thesis
    using n assms(4) ring_slice_window [OF assms(1,2) n(2), of "cpos b"]
      window_contents [OF assms(1,2) n(1)] ring_slice_state [of "cpos b" n b]
    by (auto simp: ReadWait_woken_def waitRead_def waitRead_loop_def)
qed

lemma ReadWait_ready:
  assumes "ring_ok b" and "0 \<le> n" and "n \<le> int (length (contents b))" and "\<not> cheld b"
  shows "\<exists>t. ReadWait n b = (b\<lparr>tmp := t\<rparr>, Ret (Inr (take (nat n) (contents b))))"
  using ReadWait_woken_ready [OF assms] assms(2,3) length_contents_le [OF assms(1)]
  by (auto simp: ReadWait_def)

lemma ReadWait_woken_ret:
  assumes "ring_ok b" and "0 \<le> n" and "ReadWait_woken n b = (b', Ret (Inr p))"
  shows "p = take (nat n) (contents b) \<and> n \<le> int (length (contents b)) \<and> (\<exists>t. b' = b\<lparr>tmp := t\<rparr>)"
proof -
  have "cpos b + n \<le> ppos b" "\<not> cheld b"
    using assms(3) by (auto simp: ReadWait_woken_def bindr_Inr_iff waitRead_def waitRead_loop_def
        split: if_splits)
  then show ?thesis
    using ReadWait_woken_ready [OF assms(1,2)] assms(3) length_contents [OF assms(1)] by auto
qed

lemma ReadPeek_woken_ready:
  assumes "ring_ok b" and "0 \<le> n" and "n \<le> rsize b" and "contents b \<noteq> []" and "\<not> cheld b"
  shows "\<exists>t. ReadPeek_woken n b = (b\<lparr>tmp := t\<rparr>, Ret (Inr (take (nat n) (contents b),
    if n \<le> int (length (contents b)) then None else Some ErrBufferInsufficientData)))"
proof -
  note len = length_contents [OF assms(1)]
  have pos: "cpos b < ppos b"
    using assms(4) len by (metis length_greater_0_conv of_nat_0_less_iff zero_less_diff diff_gt_0_iff_gt)
  define m where "m = (if n \<le> ppos b - cpos b then n else ppos b - cpos b)"
  have m: "0 \<le> m" "m \<le> rsize b" "cpos b + m \<le> ppos b"
    using assms(2,3) ring_okD(7) [OF assms(1)] pos by (auto simp: m_def)
  have "take (nat m) (contents b) = take (nat n) (contents b)"
    using len by (auto simp: m_def)
  moreover obtain b' q where r: "ring_slice (cpos b) m b = (b', q)"
    by (cases "ring_slice (cpos b) m b")
  ultimately have q: "q = take (nat n) (contents b)" "\<exists>t. b' = b\<lparr>tmp := t\<rparr>"
    using ring_slice_window [OF assms(1) m(1,2), of "cpos b"] window_contents [OF assms(1) m(1,3)]
      ring_slice_state [of "cpos b" m b] by auto
  then show ?thesis
    using r pos assms(5) len m(3)
    by (auto simp: ReadPeek_woken_def waitRead_def waitRead_loop_def m_def Let_def split: if_splits)
qed

lemma ReadPeek_woken_ret:
  assumes "ring_ok b" and "0 \<le> n" and "n \<le> rsize b"
    and "ReadPeek_woken n b = (b', Ret (Inr (p, err)))"
  shows "p = take (nat n) (contents b) \<and> p = take (length p) (contents b) \<and> (\<exists>t. b' = b\<lparr>tmp := t\<rparr>)
    \<and> (err = None \<or> err = Some ErrBufferInsufficientData)"
proof -
  have "cpos b < ppos b" "\<not> cheld b"
    using assms(4) by (auto simp: ReadPeek_woken_def bindr_Inr_iff waitRead_def waitRead_loop_def
        split: if_splits)
  moreover from this have "contents b \<noteq> []"
    using length_contents [OF assms(1)] by auto
  ultimately show ?thesis
    using ReadPeek_woken_ready [OF assms(1-3)] assms(4) by (auto split: if_splits)
qed

lemma ReadCommit_ready:
  assumes "ring_ok b" and "0 \<le> n" and "n \<le> int (length (contents b))" and "\<not> pheld b"
  shows "ReadCommit n b = (set_cpos (cpos b + n) b, Ret (Inr n))"
proof -
  have "cpos b + n \<le> ppos b" "n \<le> rsize b"
    using assms(3) length_contents [OF assms(1)] length_contents_le [OF assms(1)] by linarith+
  then show ?thesis
    using assms(2,4) by (simp add: ReadCommit_def signal_p_def)
qed

lemma ReadCommit_state:
  assumes "ring_ok b" and "ReadCommit n b = (b', r)"
  shows "b' = b \<or> 0 \<le> n \<and> cpos b + n \<le> ppos b \<and> b' = set_cpos (cpos b + n) b"
  using assms by (auto simp: ReadCommit_def signal_p_def split: if_splits)

lemma ReadCommit_drops:
  assumes "ring_ok b" and "ReadCommit n b = (b', Ret (Inr m))"
  shows "ring_ok b' \<and> contents b' = drop (nat n) (contents b) \<and> m = n \<and> 0 \<le> n
    \<and> n \<le> int (length (contents b)) \<and> ppos b' = ppos b"
proof -
  have r: "0 \<le> n" "cpos b + n \<le> ppos b" "b' = set_cpos (cpos b + n) b" "m = n"
    using assms(2) by (auto simp: ReadCommit_def signal_p_def split: if_splits)
  then show ?thesis
    using contents_set_cpos [OF assms(1) r(1,2)] ring_ok_cpos [OF assms(1)] length_contents [OF assms(1)]
    by simp
qed

text \<open>
  \<open>Read\<close> returns unread bytes from the front and commits exactly these: never past the end of
  the buffer, so it may return fewer than are there.
\<close>

lemma Read_data_ret:
  assumes "ring_ok b" and "0 \<le> pl" and "cpos b + pl < ppos b \<or> cpos b < ppos b"
    and "Read_data pl b = (b', Ret (Inr p))"
  shows "ring_ok b' \<and> contents b = p @ contents b' \<and> int (length p) \<le> pl \<and> (0 < pl \<longrightarrow> p \<noteq> [])
    \<and> ppos b' = ppos b"
proof -
  note o = ring_okD [OF assms(1)] and len = length_contents [OF assms(1)]
  define i where "i = cpos b mod rsize b"
  have i: "0 \<le> i" "i < rsize b"
    using o(1) by (simp_all add: i_def)
  define m where "m = min (min pl (ppos b - cpos b)) (rsize b - i)"
  have m: "0 \<le> m" "cpos b + m \<le> ppos b" "i + m \<le> rsize b" "m \<le> pl" "0 < pl \<Longrightarrow> 0 < m"
    using assms(2,3) i o(6) by (auto simp: m_def)
  have p: "p = take (nat m) (drop (nat i) (buf b))" "b' = set_cpos (cpos b + int (length p)) b"
    using assms(2-4) i o(3)
    by (auto simp: Read_data_def masked [OF assms(1)] i_def [symmetric] signal_p_def Let_def m_def
        min_def split: if_splits)
  then have w: "p = window b (cpos b) (nat m)"
    using window_slice [OF o(1,3), of "cpos b" "nat m"] m(1,3) by (simp add: i_def)
  then have lp: "int (length p) = m"
    using m(1) by simp
  have "p = take (nat m) (contents b)"
    using w window_contents [OF assms(1) m(1,2)] by simp
  then show ?thesis
    using p(2) lp m contents_set_cpos [OF assms(1) m(1,2)] ring_ok_cpos [OF assms(1), of "cpos b + m"]
    by auto
qed

lemma Read_ret:
  assumes "ring_ok b" and "0 \<le> pl" and "Read pl b = (b', Ret (Inr p)) \<or> Read_woken pl b = (b', Ret (Inr p))"
  shows "ring_ok b' \<and> contents b = p @ contents b' \<and> int (length p) \<le> pl \<and> (0 < pl \<longrightarrow> p \<noteq> [])
    \<and> ppos b' = ppos b"
proof -
  have "(cpos b + pl < ppos b \<or> cpos b < ppos b) \<and> Read_data pl b = (b', Ret (Inr p))"
    using assms(3) by (auto simp: Read_def Read_woken_def bindr_Inr_iff dest: waitRead_Inr split: if_splits)
  then show ?thesis
    using Read_data_ret [OF assms(1,2)] by blast
qed

end
