(* ===== verification/RingFlow.thy ===== *)
theory RingFlow
  imports RingBuffer
begin

text \<open>
  The ring between its two goroutines: an interleaving of the producer's and the consumer's
  steps, the two copy loops \<open>ReadFrom\<close> and \<open>WriteTo\<close>, and what the leaked mutexes do to
  \<open>Close\<close>. Broker side: broker/core/service/v1/buffer.go.
\<close>

section \<open>Steps of a producer and a consumer\<close>

text \<open>
  The producer is idle, asleep in a write, holds reserved space from a start position, or has
  copied its bytes and not yet moved the position; the consumer may hold a peeked slice.
\<close>

datatype producer = PIdle | PAsleep bytes | PReserved int bytes | PCopied int bytes

datatype consumer = CIdle | CPeeked bytes

record flow =
  ring :: buffer
  prod :: producer
  cons :: consumer
  written :: bytes
  consumed :: bytes

inductive flow_step :: "flow \<Rightarrow> flow \<Rightarrow> bool" where
  reserve: "prod s = PIdle \<Longrightarrow> waitForWriteSpace (int (length p)) (ring s) = (b, Ret (Inr (i, c)))
    \<Longrightarrow> flow_step s (s\<lparr>ring := b, prod := PReserved i p\<rparr>)"
| sleep: "prod s = PIdle \<Longrightarrow> waitForWriteSpace (int (length p)) (ring s) = (b, Waits)
    \<Longrightarrow> flow_step s (s\<lparr>ring := b, prod := PAsleep p\<rparr>)"
| wake: "prod s = PAsleep p \<Longrightarrow> waitForWriteSpace_woken (int (length p)) (ring s) = (b, Ret (Inr (i, c)))
    \<Longrightarrow> flow_step s (s\<lparr>ring := b, prod := PReserved i p\<rparr>)"
| wake_sleep: "prod s = PAsleep p \<Longrightarrow> waitForWriteSpace_woken (int (length p)) (ring s) = (b, Waits)
    \<Longrightarrow> flow_step s (s\<lparr>ring := b\<rparr>)"
| wake_eof: "prod s = PAsleep p \<Longrightarrow> waitForWriteSpace_woken (int (length p)) (ring s) = (b, Ret (Inl e))
    \<Longrightarrow> flow_step s (s\<lparr>ring := b, prod := PIdle\<rparr>)"
| copy: "prod s = PReserved i p
    \<Longrightarrow> ringCopy (buf (ring s)) p (nat (i AND rmask (ring s))) = Some (dst, m)
    \<Longrightarrow> flow_step s (s\<lparr>ring := (ring s)\<lparr>buf := dst\<rparr>, prod := PCopied i p\<rparr>)"
| publish: "prod s = PCopied i p
    \<Longrightarrow> flow_step s (s\<lparr>ring := set_ppos (i + int (length p)) (ring s), prod := PIdle,
          written := written s @ p\<rparr>)"
| wait: "cons s = CIdle \<Longrightarrow> 0 \<le> n \<Longrightarrow> ReadWait_woken n (ring s) = (b, Ret (Inr p))
    \<Longrightarrow> flow_step s (s\<lparr>ring := b, cons := CPeeked p\<rparr>)"
| peek: "cons s = CIdle \<Longrightarrow> 0 \<le> n \<Longrightarrow> n \<le> rsize (ring s)
    \<Longrightarrow> ReadPeek_woken n (ring s) = (b, Ret (Inr (p, err)))
    \<Longrightarrow> flow_step s (s\<lparr>ring := b, cons := CPeeked p\<rparr>)"
| commit: "cons s = CPeeked p \<Longrightarrow> n \<le> int (length p) \<Longrightarrow> ReadCommit n (ring s) = (b, Ret (Inr m))
    \<Longrightarrow> flow_step s (s\<lparr>ring := b, cons := CIdle, consumed := consumed s @ take (nat n) p\<rparr>)"
| read: "cons s = CIdle \<Longrightarrow> 0 \<le> n
    \<Longrightarrow> Read n (ring s) = (b, Ret (Inr p)) \<or> Read_woken n (ring s) = (b, Ret (Inr p))
    \<Longrightarrow> flow_step s (s\<lparr>ring := b, consumed := consumed s @ p\<rparr>)"
| close: "Close (ring s) = (b, r) \<Longrightarrow> flow_step s (s\<lparr>ring := b\<rparr>)"

inductive flow_run :: "flow \<Rightarrow> flow \<Rightarrow> bool" where
  start: "flow_run s s"
| step: "flow_run s t \<Longrightarrow> flow_step t u \<Longrightarrow> flow_run s u"

definition fresh :: "buffer \<Rightarrow> flow" where
  "fresh b = \<lparr>ring = b, prod = PIdle, cons = CIdle, written = [], consumed = []\<rparr>"

text \<open>What each goroutine relies on while the other moves\<close>

fun prod_ok :: "producer \<Rightarrow> buffer \<Rightarrow> bool" where
  "prod_ok PIdle b \<longleftrightarrow> True"
| "prod_ok (PAsleep p) b \<longleftrightarrow> True"
| "prod_ok (PReserved i p) b \<longleftrightarrow> i = ppos b \<and> ppos b + int (length p) \<le> cpos b + rsize b"
| "prod_ok (PCopied i p) b \<longleftrightarrow> i = ppos b \<and> ppos b + int (length p) \<le> cpos b + rsize b
     \<and> window b (ppos b) (length p) = p"

fun cons_ok :: "consumer \<Rightarrow> buffer \<Rightarrow> bool" where
  "cons_ok CIdle b \<longleftrightarrow> True"
| "cons_ok (CPeeked p) b \<longleftrightarrow> take (length p) (contents b) = p"

definition flow_ok :: "flow \<Rightarrow> bool" where
  "flow_ok s \<longleftrightarrow> ring_ok (ring s) \<and> written s = consumed s @ contents (ring s)
     \<and> prod_ok (prod s) (ring s) \<and> cons_ok (cons s) (ring s)"

lemma take_append_same:
  assumes "take (length p) xs = p"
  shows "take (length p) (xs @ ys) = p"
proof -
  have "length p \<le> length xs"
    using arg_cong [OF assms, of length] by simp
  then show ?thesis
    using assms by simp
qed

lemma cons_ok_append: "cons_ok c b \<Longrightarrow> contents b' = contents b @ xs \<Longrightarrow> cons_ok c b'"
  by (cases c) (auto simp del: take_append intro: take_append_same)

lemma prod_ok_shift:
  "prod_ok q b \<Longrightarrow> ppos b' = ppos b \<Longrightarrow> cpos b \<le> cpos b' \<Longrightarrow> rsize b' = rsize b \<Longrightarrow> buf b' = buf b
    \<Longrightarrow> prod_ok q b'"
  using window_same [of b' b] by (cases q) auto


lemma prod_ok_pure [simp]:
  "prod_ok q (set_gate i b) = prod_ok q b" "prod_ok q (b\<lparr>pwait := k\<rparr>) = prod_ok q b"
  "prod_ok q (b\<lparr>pheld := l\<rparr>) = prod_ok q b" "prod_ok q (b\<lparr>tmp := t\<rparr>) = prod_ok q b"
  "prod_ok q (b\<lparr>rdone := n\<rparr>) = prod_ok q b"
  using window_same [of "set_gate i b" b] window_same [of "b\<lparr>pwait := k\<rparr>" b]
    window_same [of "b\<lparr>pheld := l\<rparr>" b] window_same [of "b\<lparr>tmp := t\<rparr>" b]
    window_same [of "b\<lparr>rdone := n\<rparr>" b]
  by (cases q; simp)+

lemma cons_ok_contents: "cons_ok c b \<Longrightarrow> contents b' = contents b \<Longrightarrow> cons_ok c b'"
  using cons_ok_append [of c b b' "[]"] by simp

text \<open>A step that only sleeps, wakes, peeks or closes changes nothing the other side sees.\<close>

lemma flow_ok_still:
  assumes "flow_ok s" and "ring_ok b" and "contents b = contents (ring s)"
    and "prod_ok q b" and "cons_ok c b"
  shows "flow_ok (s\<lparr>ring := b, prod := q, cons := c\<rparr>)"
  using assms by (simp add: flow_ok_def)

lemma granted_reserve:
  assumes "ring_ok b" and "b' = b \<or> b' = set_gate (cpos b) b"
    and "ppos b + int (length p) \<le> cpos b + rsize b"
  shows "ring_ok b' \<and> contents b' = contents b \<and> prod_ok (PReserved (ppos b) p) b'"
  using assms by (auto intro: ring_ok_gate)

lemma flow_reserved:
  assumes "flow_ok s" and "ring_ok (ring s) \<Longrightarrow> i = ppos (ring s) \<and> c = int (length p)
      \<and> (b = ring s \<or> b = set_gate (cpos (ring s)) (ring s))
      \<and> ppos (ring s) + int (length p) \<le> cpos (ring s) + rsize (ring s)"
  shows "flow_ok (s\<lparr>ring := b, prod := PReserved i p\<rparr>)"
proof -
  have ok: "ring_ok (ring s)"
    using assms(1) by (simp add: flow_ok_def)
  have "ring_ok b \<and> contents b = contents (ring s) \<and> prod_ok (PReserved i p) b"
    using granted_reserve [OF ok, of b p] assms(2) [OF ok] by blast
  moreover from this have "cons_ok (cons s) b"
    using assms(1) cons_ok_contents [of "cons s" "ring s" b] by (simp add: flow_ok_def)
  ultimately show ?thesis
    using assms(1) by (simp add: flow_ok_def)
qed

lemma flow_copied:
  assumes "flow_ok s" and "prod s = PReserved i p"
    and "ringCopy (buf (ring s)) p (nat (i AND rmask (ring s))) = Some (dst, m)"
  shows "flow_ok (s\<lparr>ring := (ring s)\<lparr>buf := dst\<rparr>, prod := PCopied i p\<rparr>)"
proof -
  have ok: "ring_ok (ring s)" and i: "i = ppos (ring s)"
    and room: "ppos (ring s) + int (length p) \<le> cpos (ring s) + rsize (ring s)"
    using assms(1,2) by (simp_all add: flow_ok_def)
  note w = ringCopy_window [OF ok assms(3) [unfolded i] room]
  have "contents ((ring s)\<lparr>buf := dst\<rparr>) = contents (ring s)"
    using w(2) by (simp add: contents_def)
  moreover have "ring_ok ((ring s)\<lparr>buf := dst\<rparr>)"
    using ringCopy_length [OF ok assms(3)] ok by (intro ring_ok_buf)
  ultimately show ?thesis
    using assms(1) w(1) i room cons_ok_contents [of "cons s" "ring s"] by (simp add: flow_ok_def)
qed

lemma flow_published:
  assumes "flow_ok s" and "prod s = PCopied i p"
  shows "flow_ok (s\<lparr>ring := set_ppos (i + int (length p)) (ring s), prod := PIdle,
           written := written s @ p\<rparr>)"
proof -
  have ok: "ring_ok (ring s)" and i: "i = ppos (ring s)" and w: "window (ring s) (ppos (ring s)) (length p) = p"
    and room: "ppos (ring s) + int (length p) \<le> cpos (ring s) + rsize (ring s)"
    using assms by (simp_all add: flow_ok_def)
  have c: "contents (set_ppos (i + int (length p)) (ring s)) = contents (ring s) @ p"
    using contents_set_ppos [OF ok, of "int (length p)"] w i by simp
  moreover have "ring_ok (set_ppos (i + int (length p)) (ring s))"
    using ring_ok_ppos [OF ok] ring_okD(6) [OF ok] i room by simp
  moreover have "cons_ok (cons s) (set_ppos (i + int (length p)) (ring s))"
    using assms(1) cons_ok_append [OF _ c] by (simp add: flow_ok_def)
  ultimately show ?thesis
    using assms(1) by (simp add: flow_ok_def)
qed

lemma flow_consumed:
  assumes "flow_ok s" and "ring_ok b" and "contents (ring s) = p @ contents b"
    and "b = set_cpos j (ring s)" and "cpos (ring s) \<le> j"
  shows "flow_ok (s\<lparr>ring := b, cons := CIdle, consumed := consumed s @ p\<rparr>)"
proof -
  have "prod_ok (prod s) b"
    using assms by (intro prod_ok_shift [of "prod s" "ring s" b]) (auto simp: flow_ok_def)
  then show ?thesis
    using assms by (simp add: flow_ok_def)
qed

lemma Read_data_pos: "Read_data n b = (b', Ret (Inr p)) \<Longrightarrow> b' = set_cpos (cpos b + int (length p)) b"
  by (auto simp: Read_data_def Let_def signal_p_def split: if_splits)

lemma Read_pos:
  assumes "Read n b = (b', Ret (Inr p)) \<or> Read_woken n b = (b', Ret (Inr p))"
  shows "b' = set_cpos (cpos b + int (length p)) b"
proof -
  have "Read_data n b = (b', Ret (Inr p))"
    using assms by (auto simp: Read_def Read_woken_def bindr_Inr_iff dest: waitRead_Inr split: if_splits)
  then show ?thesis
    by (rule Read_data_pos)
qed

lemma flow_ok_step:
  assumes "flow_step s t" and "flow_ok s"
  shows "flow_ok t"
  using assms(1)
proof cases
  case (reserve p b i c)
  then show ?thesis
    using flow_reserved [OF assms(2), of i c p b] call.granted [OF reserve(3)] by simp
next
  case (sleep p b)
  then show ?thesis
    using assms(2) call.sleeps [OF sleep(3)] cons_ok_contents [of "cons s" "ring s" b]
    by (auto simp: flow_ok_def)
next
  case (wake p b i c)
  then show ?thesis
    using flow_reserved [OF assms(2), of i c p b] woken.granted [OF wake(3)] by simp
next
  case (wake_sleep p b)
  then show ?thesis
    using assms(2) woken.sleeps [OF wake_sleep(3)] cons_ok_contents [of "cons s" "ring s" b]
    by (auto simp: flow_ok_def)
next
  case (wake_eof p b e)
  then show ?thesis
    using assms(2) woken.refused [OF wake_eof(3)] cons_ok_contents [of "cons s" "ring s" b]
    by (auto simp: flow_ok_def)
next
  case (copy i p dst m)
  then show ?thesis
    using flow_copied [OF assms(2) copy(2,3)] by simp
next
  case (publish i p)
  then show ?thesis
    using flow_published [OF assms(2) publish(2)] by simp
next
  case (wait n b p)
  then show ?thesis
    using assms(2) ReadWait_woken_ret [of "ring s" n b p]
    by (auto simp: flow_ok_def)
next
  case (peek n b p err)
  then show ?thesis
    using assms(2) ReadPeek_woken_ret [of "ring s" n b p err]
    by (auto simp: flow_ok_def)
next
  case (commit p n b m)
  have ok: "ring_ok (ring s)" and c: "take (length p) (contents (ring s)) = p"
    using assms(2) commit by (simp_all add: flow_ok_def)
  note d = ReadCommit_drops [OF ok commit(4)]
  have "take (nat n) p = take (nat n) (contents (ring s))"
    using commit(3) by (subst c [symmetric]) (simp add: min_absorb1 nat_le_iff)
  then have "contents (ring s) = take (nat n) p @ contents b"
    using d by simp
  moreover have "b = ring s \<or> b = set_cpos (cpos (ring s) + n) (ring s)"
    using ReadCommit_state [OF ok commit(4)] by blast
  moreover have "b = set_cpos (cpos (ring s) + n) (ring s)"
    using commit(4) by (auto simp: ReadCommit_def signal_p_def split: if_splits)
  ultimately show ?thesis
    using flow_consumed [OF assms(2)] d commit(1) by auto
next
  case (read n b p)
  have ok: "ring_ok (ring s)"
    using assms(2) by (simp add: flow_ok_def)
  then have "flow_ok (s\<lparr>ring := b, cons := CIdle, consumed := consumed s @ p\<rparr>)"
    using Read_ret [OF ok read(3,4)] Read_pos [OF read(4)] flow_consumed [OF assms(2)] by auto
  moreover have "s\<lparr>ring := b, cons := CIdle, consumed := consumed s @ p\<rparr>
      = s\<lparr>ring := b, consumed := consumed s @ p\<rparr>"
    using read(2) by (cases s) simp
  ultimately show ?thesis
    using read(1) by simp
next
  case (close b r)
  then show ?thesis
    using assms(2) cons_ok_contents [of "cons s" "ring s" b]
    by (auto simp: flow_ok_def Close_def signal_p_def split: if_splits)
qed

lemma flow_ok_run: "flow_run s t \<Longrightarrow> flow_ok s \<Longrightarrow> flow_ok t"
  by (induction rule: flow_run.induct) (auto intro: flow_ok_step)

section \<open>The sizes a ring can have\<close>

lemma newBuffer_size:
  assumes "0 \<le> sint m" and "powerOfTwo64 m"
  shows "\<exists>k<63. sint m = 2 ^ k"
  using powerOfTwo64_pos [OF assms(2)] sint_nonneg [OF assms(1)] by fastforce

lemma newBuffer_ok:
  assumes "newBuffer n k = (Inr b, k')"
  shows "ring_ok b \<and> contents b = [] \<and> \<not> isDone b \<and> 2048 \<le> rsize b
    \<and> cpos b = 0 \<and> ppos b = 0 \<and> \<not> pheld b \<and> \<not> cheld b \<and> rsize b = (if n = 0 then 4096 else sint n)"
proof -
  define m where "m = (if n = 0 then defaultBufferSize else n)"
  have ds: "sint defaultBufferSize = 4096" "sint defaultReadBlockSize = 1024"
    by (simp_all add: defaultBufferSize_def defaultReadBlockSize_def push_bit_eq_mult)
  have m: "0 \<le> sint m" "powerOfTwo64 m" "1024 \<le> sint m div 2" "sint m = (if n = 0 then 4096 else sint n)"
    using assms ds by (auto simp: newBuffer_def m_def Let_def word_sless_alt split: if_splits)
  have b: "buf b = replicate (nat (sint m)) 0" "rsize b = sint m" "rmask b = sint m - 1"
    "pseq b = newSequence" "cseq b = newSequence" "rdone b = 0" "\<not> pheld b" "\<not> cheld b"
    using assms by (auto simp: newBuffer_def m_def Let_def split: if_splits)
  obtain j where "j < 63" "sint m = 2 ^ j"
    using newBuffer_size [OF m(1,2)] by blast
  then have "ring_ok b"
    using b m(1) by (auto simp: ring_ok_def list_ex_iff cpos_def ppos_def newSequence_def)
  then show ?thesis
    using b m by (simp add: contents_def isDone_def cpos_def ppos_def newSequence_def)
qed

section \<open>The copy loops\<close>

lemma fill_contents:
  assumes "ring_ok b" and "read_slice (ppos b) n b = (pstart, pend)" and "0 \<le> n"
    and "length bs \<le> pend - pstart" and "ppos b + n \<le> cpos b + rsize b"
  shows "ring_ok (fill pstart bs b)" and "contents (fill pstart bs b) = contents b"
    and "window (fill pstart bs b) (ppos b) (length bs) = bs"
    and "ppos b + int (length bs) \<le> cpos b + rsize b"
proof -
  have ps: "pstart = nat (ppos b AND rmask b)" "pend \<le> length (buf b)"
      "int (pend - pstart) \<le> n"
    using assms(2,3) ring_okD(3) [OF assms(1)] masked [OF assms(1), of "ppos b"]
      pos_mod_sign [OF ring_okD(1) [OF assms(1)], of "ppos b"]
    by (auto simp: read_slice_def Let_def split: if_splits)
  have fits: "pstart + length bs \<le> length (buf b)"
    using assms(4) ps(2) ring_start [OF assms(1), of "ppos b"] ps(1) by linarith
  have "fst (copy_at (buf b) pstart bs) = take pstart (buf b) @ bs @ drop (pstart + length bs) (buf b)"
    using fits by (simp add: copy_at_def Let_def min_absorb2)
  then have rc: "ringCopy (buf b) bs (nat (ppos b AND rmask b)) = Some (fst (copy_at (buf b) pstart bs), length bs)"
    using ringCopy_flat [OF fits] ps(1) by simp
  show room: "ppos b + int (length bs) \<le> cpos b + rsize b"
    using assms(4,5) ps(3) by linarith
  show "window (fill pstart bs b) (ppos b) (length bs) = bs"
    and "contents (fill pstart bs b) = contents b"
    using ringCopy_window [OF assms(1) rc room] by (simp_all add: fill_def contents_def)
  show "ring_ok (fill pstart bs b)"
    unfolding fill_def using ringCopy_length(1) [OF assms(1) rc] assms(1) by (intro ring_ok_buf)
qed

definition appends :: "buffer \<Rightarrow> buffer \<Rightarrow> bool" where
  "appends b b' \<longleftrightarrow> ring_ok b' \<and> cpos b' = cpos b \<and> (\<exists>xs. contents b' = contents b @ xs)"

lemma appends_refl: "ring_ok b \<Longrightarrow> appends b b"
  by (simp add: appends_def)

lemma appends_trans: "appends a b \<Longrightarrow> appends b c \<Longrightarrow> appends a c"
  by (auto simp: appends_def)

lemma WriteCommit_states:
  assumes "ring_ok b" and "0 \<le> n" and "WriteCommit n b = (b', r)"
  shows "appends b b'"
proof -
  obtain b0 x where w: "waitForWriteSpace n b = (b0, x)"
    by (cases "waitForWriteSpace n b")
  consider i c where "x = Ret (Inr (i, c))" | e where "x = Ret (Inl e)" | "x = Waits" | "x = Locked"
    using w call.ends [of n b] by (cases x) (auto, metis sum.exhaust prod.exhaust)
  then show ?thesis
  proof cases
    case 1
    note g = call.granted [OF w [unfolded 1] assms(1)]
    have b': "b' = set_ppos (ppos b + n) b0"
      using assms(3) w 1 g by (auto simp: WriteCommit_def WriteCommit_from_def signal_c_def split: if_splits)
    have b0: "ring_ok b0" "contents b0 = contents b" "ppos b0 = ppos b" "cpos b0 = cpos b" "rsize b0 = rsize b"
      using g assms(1) by (auto intro: ring_ok_gate)
    then show ?thesis
      using b' g assms(2) contents_set_ppos [OF b0(1) assms(2)] ring_ok_ppos [OF b0(1), of "ppos b + n"]
        ring_okD(6) [OF assms(1)] by (simp add: appends_def)
  qed (use assms w call.refused [of n b] call.sleeps [of n b] call.stuck [of n b] in
      \<open>auto simp: WriteCommit_def WriteCommit_from_def appends_def\<close>)
qed

lemma ReadFrom_round_appends:
  assumes "space_wait w" and "ring_ok b" and "\<And>n. length (fst (rd n)) \<le> n"
    and "ReadFrom_round w rd tot b = (b', r)"
  shows "appends b b'"
proof -
  note granted = space_wait.granted [OF assms(1)] and refused = space_wait.refused [OF assms(1)]
    and sleeps = space_wait.sleeps [OF assms(1)] and stuck = space_wait.stuck [OF assms(1)]
  let ?n = "sint defaultReadBlockSize"
  have n: "0 \<le> ?n"
    by (simp add: defaultReadBlockSize_def)
  obtain b0 x where w: "w ?n b = (b0, x)"
    by (cases "w ?n b")
  consider i c where "x = Ret (Inr (i, c))" | e where "x = Ret (Inl e)" | "x = Waits" | "x = Locked"
    using w space_wait.ends [OF assms(1), of ?n b] by (cases x) (auto, metis sum.exhaust prod.exhaust)
  then show ?thesis
  proof cases
    case 1
    note g = granted [OF w [unfolded 1] assms(2)]
    have b0: "ring_ok b0" "contents b0 = contents b" "ppos b0 = ppos b" "cpos b0 = cpos b" "rsize b0 = rsize b"
      using g assms(2) by (auto intro: ring_ok_gate)
    obtain pstart pend where sl: "read_slice (ppos b0) ?n b0 = (pstart, pend)"
      by (cases "read_slice (ppos b0) ?n b0")
    obtain bs err where rd: "rd (pend - pstart) = (bs, err)"
      by (cases "rd (pend - pstart)")
    have "length bs \<le> pend - pstart"
      using assms(3) [of "pend - pstart"] rd by simp
    note f = fill_contents [OF b0(1) sl n this]
    have room: "ppos b0 + ?n \<le> cpos b0 + rsize b0"
      using g b0 by simp
    have fa: "appends b (fill pstart bs b0)"
      using f(1,2) [OF room] b0 by (simp add: appends_def fill_def)
    have b': "b' = (if bs \<noteq> [] then fst (WriteCommit (int (length bs)) (fill pstart bs b0)) else fill pstart bs b0)"
      using assms(4) w 1 g b0 sl rd
      by (auto simp: ReadFrom_round_def Let_def split: prod.splits outcome.splits sum.splits if_splits)
    show ?thesis
    proof (cases "bs = []")
      case True
      then show ?thesis using b' fa by simp
    next
      case False
      then have "appends (fill pstart bs b0) b'"
        using b' WriteCommit_states [OF f(1) [OF room], of "int (length bs)"]
        by (metis of_nat_0_le_iff prod.collapse)
      then show ?thesis
        using fa appends_trans by blast
    qed
  qed (use assms w refused [of ?n b] sleeps [of ?n b] stuck [of ?n b] in
      \<open>auto simp: ReadFrom_round_def appends_def\<close>)
qed

lemma ReadFrom_loop_appends:
  assumes "space_wait w" and "ring_ok b" and "\<forall>rd\<in>set rs. \<forall>n. length (fst (rd n)) \<le> n"
    and "ReadFrom_loop w rs tot b = (b', r)"
  shows "appends b b'"
  using assms
proof (induction rs arbitrary: w tot b)
  case Nil
  then show ?case by (auto simp: appends_refl)
next
  case (Cons rd rs)
  obtain b0 x where rnd: "ReadFrom_round w rd tot b = (b0, x)"
    by (cases "ReadFrom_round w rd tot b")
  have a: "appends b b0"
    by (rule ReadFrom_round_appends [OF Cons.prems(1,2) _ rnd]) (use Cons.prems(3) in simp)
  then have "ring_ok b0"
    by (simp add: appends_def)
  then have "appends b0 b'"
    using Cons.prems(3,4) rnd Cons.IH [OF call.space_wait_axioms, of b0]
    by (auto simp: appends_refl split: round.splits if_splits)
  then show ?case
    using a appends_trans by blast
qed

definition sends :: "buffer \<Rightarrow> buffer \<Rightarrow> bytes \<Rightarrow> bool" where
  "sends b b' xs \<longleftrightarrow> ring_ok b' \<and> ppos b' = ppos b
     \<and> (\<exists>ys zs us. xs = ys @ zs \<and> contents b = ys @ contents b' \<and> contents b' = zs @ us)"

lemma sends_none: "ring_ok b \<Longrightarrow> sends b b []"
  by (simp add: sends_def)


lemma sends_prefix:
  assumes "ring_ok b0" and "contents b0 = contents b" and "ppos b0 = ppos b"
  shows "sends b b0 (take k (contents b))"
  using assms append_take_drop_id [of k "contents b"] unfolding sends_def
  by (metis append_Nil)

lemma sends_trans:
  assumes "contents b = ys @ contents b0" and "ppos b0 = ppos b" and "sends b0 b' xs"
  shows "sends b b' (ys @ xs)"
  using assms by (auto simp: sends_def)

text \<open>The contract of \<open>io.Writer\<close>: a short count comes with an error.\<close>

definition writer_ok :: "(bytes \<Rightarrow> int \<times> buferr option) \<Rightarrow> bool" where
  "writer_ok wr \<longleftrightarrow> (\<forall>p. 0 \<le> fst (wr p) \<and> fst (wr p) \<le> int (length p)
     \<and> (snd (wr p) = None \<longrightarrow> fst (wr p) = int (length p)))"

text \<open>What a peek may do: see \<open>ReadPeek\<close> at the call and at the resumption.\<close>

definition peeked :: "buffer \<Rightarrow> buffer \<Rightarrow> (buferr + bytes \<times> buferr option) outcome \<Rightarrow> bool" where
  "peeked b b' r \<longleftrightarrow> ring_ok b' \<and> contents b' = contents b \<and> ppos b' = ppos b \<and> rsize b' = rsize b
     \<and> (\<forall>p err. r = Ret (Inr (p, err)) \<longrightarrow> p = take (length p) (contents b))"

definition peeker_ok :: "peeker \<Rightarrow> bool" where
  "peeker_ok peek \<longleftrightarrow> (\<forall>n b b' r. ring_ok b \<longrightarrow> 0 \<le> n \<longrightarrow> n \<le> rsize b \<longrightarrow> peek n b = (b', r) \<longrightarrow> peeked b b' r)"

lemma waitRead_state:
  "waitRead m i b = (b', r) \<Longrightarrow> b' = b \<or> b' = b\<lparr>cheld := True\<rparr> \<or> b' = b\<lparr>cwait := cwait b + i\<rparr>"
  by (auto simp: waitRead_def waitRead_loop_def split: if_splits)

lemma bindr_other:
  "bindr x k = (b', r) \<Longrightarrow> (\<exists>b0 a. x = (b0, Ret (Inr a)) \<and> k a b0 = (b', r))
     \<or> (fst x = b' \<and> (\<forall>q. r \<noteq> Ret (Inr q)))"
  by (cases "(x, k)" rule: bindr.cases) auto

lemma ReadPeek_woken_ok: "peeker_ok ReadPeek_woken"
  unfolding peeker_ok_def
proof (intro allI impI)
  fix n b b' r
  assume a: "ring_ok b" "0 \<le> n" "n \<le> rsize b" "ReadPeek_woken n b = (b', r)"
  show "peeked b b' r"
  proof (cases "\<exists>q. r = Ret (Inr q)")
    case True
    then obtain p err where "r = Ret (Inr (p, err))"
      by auto
    then show ?thesis
      using ReadPeek_woken_ret [OF a(1-3)] a(1,4) by (fastforce simp: peeked_def)
  next
    case False
    then consider "fst (waitRead (cpos b + 1) 1 b) = b'"
      | "waitRead (cpos b + 1) 1 b = (b, Ret (Inr ()))" "\<not> cheld b" "cpos b < ppos b"
      using bindr_other [OF a(4) [unfolded ReadPeek_woken_def]]
      by (auto simp: waitRead_def waitRead_loop_def split: if_splits)
    then show ?thesis
    proof cases
      case 1
      then show ?thesis
        using waitRead_state [of "cpos b + 1" 1 b b'] False a(1)
        by (cases "waitRead (cpos b + 1) 1 b") (auto simp: peeked_def)
    next
      case 2
      then have "contents b \<noteq> []"
        using length_contents [OF a(1)] by auto
      then show ?thesis
        using ReadPeek_woken_ready [OF a(1-3)] 2 a(4) False by auto
    qed
  qed
qed

lemma ReadPeek_ok: "peeker_ok ReadPeek"
  using ReadPeek_woken_ok by (auto simp: peeker_ok_def ReadPeek_def)

lemma WriteTo_round_sends:
  assumes "peeker_ok peek" and "ring_ok b" and "1024 \<le> rsize b" and "writer_ok wr"
    and "WriteTo_round peek wr tot b = (b', r, sent)"
  shows "sends b b' sent \<and> rsize b' = rsize b \<and> (\<forall>t. r = Again t \<longrightarrow> contents b = sent @ contents b')"
proof -
  obtain b0 x where pk: "peek (sint defaultWriteBlockSize) b = (b0, x)"
    by (cases "peek (sint defaultWriteBlockSize) b")
  have "sint defaultWriteBlockSize = 1024"
    by (simp add: defaultWriteBlockSize_def)
  then have k: "peeked b b0 x"
    using assms(1) [unfolded peeker_ok_def, rule_format, OF assms(2) _ _ pk] assms(3) by simp
  then have b0: "ring_ok b0" "contents b0 = contents b" "ppos b0 = ppos b" "rsize b0 = rsize b"
    by (simp_all add: peeked_def)
  then have quiet: "sends b b0 []"
    by (simp add: sends_def)
  show ?thesis
  proof (cases "\<exists>p err. x = Ret (Inr (p, err)) \<and> p \<noteq> []")
    case False
    then have "b' = b0 \<and> sent = []"
      using assms(5) pk by (auto simp: WriteTo_round_def split: outcome.splits sum.splits if_splits)
    then show ?thesis
      using quiet b0 by simp
  next
    case True
    then obtain p err where x: "x = Ret (Inr (p, err))" and p: "p \<noteq> []"
      by blast
    have pc: "take (length p) (contents b) = p"
      using k x by (auto simp: peeked_def)
    obtain n werr where wr: "wr p = (n, werr)"
      by (cases "wr p")
    then have n: "0 \<le> n" "n \<le> int (length p)"
      using assms(4) by (auto simp: writer_ok_def dest!: spec [of _ p])
    have tn: "take (nat n) p = take (nat n) (contents b)"
      using n by (subst pc [symmetric]) (simp add: min_absorb1 nat_le_iff)
    have sent: "sent = take (nat n) p"
      using assms(5) pk x p wr
      by (auto simp: WriteTo_round_def Let_def split: outcome.splits sum.splits if_splits prod.splits)
    obtain b1 rc where c: "ReadCommit n b0 = (b1, rc)"
      by (cases "ReadCommit n b0")
    show ?thesis
    proof (cases "werr = None")
      case False
      then have "b' = b0" "\<forall>t. r \<noteq> Again t"
        using assms(5) pk x p wr by (auto simp: WriteTo_round_def Let_def)
      then show ?thesis
        using b0 sent tn sends_prefix [OF b0(1-3), of "nat n"] by simp
    next
      case True
      then have b': "b' = b1" "\<And>t. r = Again t \<Longrightarrow> \<exists>q. rc = Ret (Inr q)"
        using assms(5) pk x p wr c
        by (auto simp: WriteTo_round_def Let_def split: outcome.splits sum.splits if_splits)
      consider "b1 = b0" "\<forall>q. rc \<noteq> Ret (Inr q)" | "b1 = set_cpos (cpos b0 + n) b0" "cpos b0 + n \<le> ppos b0"
        using c by (auto simp: ReadCommit_def signal_p_def split: if_splits)
      then show ?thesis
      proof cases
        case 1
        then show ?thesis
          using b' b0 sent tn sends_prefix [OF b0(1-3), of "nat n"] by auto
      next
        case 2
        then have "ring_ok b1" "contents b = sent @ contents b1" "ppos b1 = ppos b" "rsize b1 = rsize b"
          using contents_set_cpos [OF b0(1) n(1)] ring_ok_cpos [OF b0(1), of "cpos b0 + n"] b0 n sent tn
          by simp_all
        then show ?thesis
          using b' by (auto simp: sends_def)
      qed
    qed
  qed
qed

text \<open>
  The network gets a prefix of the unread bytes, in order, and what the ring drops has been
  sent.
\<close>

lemma WriteTo_loop_sends:
  assumes "peeker_ok peek" and "ring_ok b" and "1024 \<le> rsize b" and "\<forall>wr\<in>set ws. writer_ok wr"
    and "WriteTo_loop peek ws tot out b = (b', r, out')"
  shows "\<exists>xs. out' = out @ xs \<and> sends b b' xs"
  using assms
proof (induction ws arbitrary: peek tot out b)
  case Nil
  then show ?case by (auto intro: sends_none)
next
  case (Cons wr ws)
  obtain b0 x sent where rnd: "WriteTo_round peek wr tot b = (b0, x, sent)"
    by (cases "WriteTo_round peek wr tot b") auto
  have s: "sends b b0 sent" "rsize b0 = rsize b" "\<And>t. x = Again t \<Longrightarrow> contents b = sent @ contents b0"
    using WriteTo_round_sends [OF Cons.prems(1-3) _ rnd] Cons.prems(4) by auto
  show ?case
  proof (cases "\<exists>t. x = Again t \<and> \<not> isDone b0")
    case True
    then obtain t where t: "x = Again t" "\<not> isDone b0"
      by blast
    then obtain xs where xs: "out' = (out @ sent) @ xs" "sends b0 b' xs"
      using Cons.IH [OF ReadPeek_ok, of b0 t "out @ sent"] s(1,2) t Cons.prems(3-5) rnd
      by (auto simp: sends_def)
    then have "sends b b' (sent @ xs)"
      using sends_trans [OF s(3) [OF t(1)] _ xs(2)] s(1) by (simp add: sends_def)
    then show ?thesis
      using xs(1) by auto
  next
    case False
    then show ?thesis
      using Cons.prems(5) rnd s(1) by (auto split: round.splits)
  qed
qed

section \<open>Properties\<close>

text \<open>The ring of the witnesses: four bytes, everything read up to position 3.\<close>

definition ring4 :: buffer where
  "ring4 = \<lparr>buf_id = 1, buf = [10, 11, 12, 13], tmp = [], rsize = 4, rmask = 3, rdone = 0,
     pseq = \<lparr>cursor = 3, gate = 0\<rparr>, cseq = \<lparr>cursor = 3, gate = 0\<rparr>, cwait = 0, pwait = 0,
     pheld = False, cheld = False\<rparr>"

lemma ring4_ok: "ring_ok ring4" "contents ring4 = []"
  by code_simp+

text \<open>A ring that \<open>newBuffer\<close> returns holds the invariant, is empty and open, and is as large
  as asked for, or 4096 bytes for size 0.\<close>

theorem newBuffer_fresh:
  assumes "newBuffer n k = (Inr b, k')"
  shows "ring_ok b \<and> contents b = [] \<and> \<not> isDone b \<and> 2048 \<le> rsize b
    \<and> rsize b = (if n = 0 then 4096 else sint n)"
  using newBuffer_ok [OF assms] by blast

lemma newBuffer_2048: "newBuffer 2048 6 = (Inr \<lparr>buf_id = 7, buf = replicate 2048 0, tmp = [],
    rsize = 2048, rmask = 2047, rdone = 0, pseq = newSequence, cseq = newSequence,
    cwait = 0, pwait = 0, pheld = False, cheld = False\<rparr>, 7)"
proof -
  have "powerOfTwo64 2048" and "\<not> (2048 :: int64) <s 0" and "sint (2048 :: int64) = 2048"
    and "sint defaultReadBlockSize = 1024"
    by code_simp+
  then show ?thesis
    by (simp add: newBuffer_def Let_def)
qed

theorem newBuffer_fresh_witness:
  "\<exists>b. newBuffer 2048 6 = (Inr b, 7) \<and> contents b = [] \<and> rsize b = 2048"
proof -
  obtain b where b: "newBuffer 2048 6 = (Inr b, 7)" "rsize b = 2048"
    using newBuffer_2048 by simp
  show ?thesis
    using newBuffer_fresh [OF b(1)] b by blast
qed

text \<open>C8: In every interleaving of a producer (reserve, sleep, wake, copy, publish), a consumer
  (wait, peek, commit, read) and \<open>Close\<close>, the bytes published are the bytes consumed followed by
  the unread contents of the ring: nothing is lost, repeated or reordered, also around the end of
  the buffer.\<close>

theorem ring_fifo:
  assumes "ring_ok b" and "contents b = []" and "flow_run (fresh b) s"
  shows "written s = consumed s @ contents (ring s)"
  using flow_ok_run [OF assms(3)] assms(1,2) by (simp add: flow_ok_def fresh_def)

lemma fifo_example:
  "flow_run (fresh ring4) ((fresh ring4)\<lparr>ring := ring4\<lparr>buf := [2, 3, 12, 1], pseq := \<lparr>cursor = 6, gate = 3\<rparr>,
     cseq := \<lparr>cursor = 4, gate = 0\<rparr>\<rparr>, written := [1, 2, 3], consumed := [1]\<rparr>)"
proof -
  let ?s = "fresh ring4"
  have "flow_run ?s (?s\<lparr>ring := set_gate 3 ring4, prod := PReserved 3 [1, 2, 3]\<rparr>)" (is "flow_run _ ?s1")
    by (rule flow_run.step [OF flow_run.start], rule flow_step.reserve [where c = 3 and p = "[1, 2, 3]"]; code_simp)
  then have "flow_run ?s (?s1\<lparr>ring := (ring ?s1)\<lparr>buf := [2, 3, 12, 1]\<rparr>, prod := PCopied 3 [1, 2, 3]\<rparr>)"
    (is "flow_run _ ?s2")
    by (rule flow_run.step, intro flow_step.copy [where m = 3]) (simp, code_simp)
  then have "flow_run ?s (?s2\<lparr>ring := set_ppos (3 + int (length [1, 2, 3 :: byte])) (ring ?s2), prod := PIdle,
      written := written ?s2 @ [1, 2, 3]\<rparr>)" (is "flow_run _ ?s3")
    by (rule flow_run.step, intro flow_step.publish) simp
  then have "flow_run ?s (?s3\<lparr>ring := ring4\<lparr>buf := [2, 3, 12, 1], pseq := \<lparr>cursor = 6, gate = 3\<rparr>,
     cseq := \<lparr>cursor = 4, gate = 0\<rparr>\<rparr>, consumed := consumed ?s3 @ [1]\<rparr>)"
    by (rule flow_run.step, intro flow_step.read [where n = 2]) (code_simp, simp, code_simp)
  then show ?thesis
    by (simp add: fresh_def)
qed

theorem ring_fifo_witness:
  "[1, 2, 3] = [1] @ contents (ring4\<lparr>buf := [2, 3, 12, 1], pseq := \<lparr>cursor = 6, gate = 3\<rparr>,
     cseq := \<lparr>cursor = 4, gate = 0\<rparr>\<rparr>)"
  using ring_fifo [OF ring4_ok fifo_example] by simp

text \<open>C37: A write of more bytes than the ring has never gets its space: it goes to sleep at the
  call and at every resumption for as long as the ring is open, whatever is read meanwhile.\<close>

theorem oversize_write_sleeps:
  assumes "ring_ok b" and "rsize b < int (length p)" and "\<not> isDone b" and "\<not> pheld b"
  shows "Write p b = (b\<lparr>pwait := pwait b + 1\<rparr>, Waits)
    \<and> Write_woken p b = (b\<lparr>pwait := pwait b + 1\<rparr>, Waits)"
  using call.oversize_waits [OF assms] woken.oversize_waits [OF assms] assms(3)
  by (simp add: Write_def Write_woken_def)

theorem oversize_write_sleeps_witness:
  "snd (Write [1, 2, 3, 4, 5] ring4) = Waits \<and> snd (Write_woken [1, 2, 3, 4, 5] ring4) = Waits"
  using oversize_write_sleeps [OF ring4_ok(1), of "[1, 2, 3, 4, 5]"]
  by (simp add: ring4_def isDone_def)

text \<open>C36: When a ring without room for the next block is closed while \<open>ReadFrom\<close> sleeps, the
  resumed \<open>ReadFrom\<close> returns \<open>io.EOF\<close> holding the producer's mutex, its own deferred
  \<open>Close\<close> never returns, and neither does any later \<open>Close\<close>.\<close>

theorem ReadFrom_close_locks:
  assumes "cpos b + rsize b < ppos b + 1024" and "Close b = (b', Ret ())"
  shows "snd (ReadFrom_woken (rd # rs) tot b') = Locked
    \<and> snd (Close (fst (ReadFrom_woken (rd # rs) tot b'))) = Locked"
proof -
  have b': "b' = b\<lparr>rdone := 1\<rparr>" "\<not> pheld b"
    using assms(2) by (auto simp: Close_def signal_p_def split: if_splits)
  have "sint defaultReadBlockSize = 1024"
    by (simp add: defaultReadBlockSize_def)
  then have "waitForWriteSpace_woken (sint defaultReadBlockSize) b' = (b'\<lparr>pheld := True\<rparr>, Ret (Inl ErrEOF))"
    using assms(1) b' by (simp add: waitForWriteSpace_woken_def waitWrite_loop_def isDone_def)
  then show ?thesis
    by (simp add: ReadFrom_woken_def ReadFrom_round_def Close_def signal_p_def)
qed

theorem ReadFrom_close_locks_witness:
  "snd (ReadFrom_woken [\<lambda>n. ([], None)] 0 (ring4\<lparr>rdone := 1\<rparr>)) = Locked"
  using ReadFrom_close_locks [of ring4 "ring4\<lparr>rdone := 1\<rparr>" "\<lambda>n. ([], None)" "[]" 0]
  by (simp add: ring4_def cpos_def ppos_def Close_def signal_p_def)

text \<open>\<open>WriteTo\<close> hands the network a prefix of the unread bytes, in order; what it has committed
  is exactly what it has dropped from the ring.\<close>

theorem WriteTo_sends:
  assumes "ring_ok b" and "1024 \<le> rsize b" and "\<forall>wr\<in>set ws. writer_ok wr"
    and "WriteTo_loop ReadPeek ws tot out b = (b', r, out')"
  shows "\<exists>xs. out' = out @ xs \<and> sends b b' xs"
  by (rule WriteTo_loop_sends [OF ReadPeek_ok assms])

definition ring2048 :: buffer where
  "ring2048 = ring4\<lparr>buf := replicate 2048 7, rsize := 2048, rmask := 2047,
     pseq := \<lparr>cursor = 2, gate = 0\<rparr>, cseq := \<lparr>cursor = 0, gate = 0\<rparr>\<rparr>"

lemma ring2048_ok: "ring_ok ring2048"
  by (auto simp: ring_ok_def ring2048_def ring4_def cpos_def ppos_def list_ex_iff intro!: bexI [of _ 11])

lemma ring2048_sent:
  "WriteTo_loop ReadPeek [\<lambda>p. (int (length p), None)] 0 [] ring2048
    = (set_cpos 2 ring2048, Waits, [7, 7])"
proof -
  have "waitRead 1 1 ring2048 = (ring2048, Ret (Inr ()))"
    by (simp add: waitRead_def waitRead_loop_def ring2048_def ring4_def ppos_def)
  moreover have "ring_slice 0 2 ring2048 = (ring2048, [7, 7])"
    by (simp add: ring_slice_def ring2048_def ring4_def Let_def numeral_2_eq_2 take_replicate)
  ultimately show ?thesis
    by (simp add: WriteTo_round_def ReadPeek_def ReadPeek_woken_def ReadCommit_def signal_p_def
        ends_with_def Let_def defaultWriteBlockSize_def set_cpos_def isDone_def
        ring2048_def ring4_def cpos_def ppos_def)
qed

theorem WriteTo_sends_witness:
  "\<exists>xs. [7, 7] = [] @ xs \<and> sends ring2048 (set_cpos 2 ring2048) xs"
  by (rule WriteTo_sends [OF ring2048_ok _ _ ring2048_sent])
    (simp_all add: ring2048_def ring4_def writer_ok_def)

text \<open>The copy around the end of the ring terminates and writes every byte of its source, for
  every destination that is not empty.\<close>

theorem ringCopy_total:
  assumes "dst \<noteq> []" and "start \<le> length dst"
  shows "\<exists>dst'. ringCopy dst src start = Some (dst', length src) \<and> length dst' = length dst"
  by (rule ringCopy_ends [OF assms])

theorem ringCopy_total_witness:
  "\<exists>dst'. ringCopy [0, 0, 0] [1, 2, 3, 4, 5, 6, 7] 3 = Some (dst', 7) \<and> length dst' = 3"
  using ringCopy_total [of "[0, 0, 0]" 3 "[1, 2, 3, 4, 5, 6, 7]"] by (simp add: eval_nat_numeral)

end
