(* ===== verification/Wire.thy ===== *)
theory Wire
  imports MsgTypes
begin

text \<open>
  The wire primitives of broker/core/message/message.go and util.go: length-prefixed
  strings, big-endian integers, variable length integers and user properties, each in
  the version that writes into a byte slice and in the version that appends to a
  \<open>bytes.Buffer\<close>, with their readers. The variable length integers are specified by
  \<open>varint\<close> on natural numbers; the readers are proved to invert the writers.
\<close>

section \<open>Copies and big-endian integers\<close>

definition CopyLen :: "bytes \<Rightarrow> int \<Rightarrow> bytes" where
  "CopyLen data n =
     (if n \<le> 0 \<or> length data = 0 then []
      else if n > int (length data) then data
      else take (nat n) data)"

text \<open>\<open>copy(dst[t:], src)\<close>: what does not fit is dropped.\<close>

definition blit :: "bytes \<Rightarrow> nat \<Rightarrow> bytes \<Rightarrow> bytes" where
  "blit d t src = take t d @ take (length d - t) src @ drop (t + length src) d"

definition put16 :: "uint16 \<Rightarrow> bytes" where
  "put16 v = [ucast (drop_bit 8 v), ucast v]"

definition put32 :: "uint32 \<Rightarrow> bytes" where
  "put32 v = [ucast (drop_bit 24 v), ucast (drop_bit 16 v), ucast (drop_bit 8 v), ucast v]"

fun get16 :: "bytes \<Rightarrow> uint16 option" where
  "get16 (a # b # _) = Some (push_bit 8 (ucast a) OR ucast b)"
| "get16 _ = None"

fun get32 :: "bytes \<Rightarrow> uint32 option" where
  "get32 (a # b # c # d # _) =
     Some (push_bit 24 (ucast a) OR push_bit 16 (ucast b) OR push_bit 8 (ucast c) OR ucast d)"
| "get32 _ = None"

lemma length_put16 [simp]: "length (put16 v) = 2"
  by (simp add: put16_def)

lemma length_put32 [simp]: "length (put32 v) = 4"
  by (simp add: put32_def)

lemma get16_put16 [simp]: "get16 (put16 v @ r) = Some v"
proof -
  have "push_bit 8 (ucast (ucast (drop_bit 8 v) :: byte)) OR ucast (ucast v :: byte) = v"
    by (rule bit_word_eqI) (auto simp: bit_simps)
  then show ?thesis
    by (simp add: put16_def)
qed

lemma get32_put32 [simp]: "get32 (put32 v @ r) = Some v"
proof -
  have "push_bit 24 (ucast (ucast (drop_bit 24 v) :: byte))
      OR push_bit 16 (ucast (ucast (drop_bit 16 v) :: byte))
      OR push_bit 8 (ucast (ucast (drop_bit 8 v) :: byte)) OR ucast (ucast v :: byte) = v"
    (is "?l = v")
  proof (rule bit_word_eqI)
    fix n assume n: "n < LENGTH(32)"
    consider "n < 8" | "8 \<le> n" "n < 16" | "16 \<le> n" "n < 24" | "24 \<le> n"
      by linarith
    then show "bit ?l n = bit v n"
      using n by cases (auto simp: bit_simps)
  qed
  then show ?thesis
    by (simp add: put32_def)
qed

section \<open>Variable length integers\<close>

text \<open>The specification: seven bits per byte, least significant first.\<close>

definition cont_byte :: "nat \<Rightarrow> byte" where
  "cont_byte n = word_of_nat (n mod 128 + 128)"

fun varint :: "nat \<Rightarrow> bytes" where
  "varint n = (if n < 128 then [word_of_nat n] else cont_byte n # varint (n div 128))"

declare varint.simps [simp del]

text \<open>
  \<open>lbEncode\<close>: the loop over the remaining value, with the bytes stored so far in the
  four byte array \<open>b\<close>. Storing at index 4 is out of range and panics.
\<close>

definition lb_store :: "bytes \<Rightarrow> byte \<Rightarrow> bytes option" where
  "lb_store b e = (if length b < 4 then Some (b @ [e]) else None)"

lemma word_div_128_less: "(x :: uint32) > 0 \<Longrightarrow> unat (x div 128) < unat x"
proof -
  assume "x > 0"
  then have "0 < unat x"
    by (simp add: word_less_nat_alt)
  then show ?thesis
    by (simp add: unat_div_word)
qed

function lb_loop :: "uint32 \<Rightarrow> uint32 \<Rightarrow> bytes \<Rightarrow> bytes option" where
  "lb_loop x encodedByte b =
     (if x > 0 then
        let encodedByte = x mod 128; x' = x div 128 in
        if x' > 0 then
          (case lb_store b (ucast (encodedByte OR 128)) of
             None \<Rightarrow> None
           | Some b' \<Rightarrow> lb_loop x' (encodedByte OR 128) b')
        else lb_loop x' encodedByte b
      else lb_store b (ucast encodedByte))"
  by pat_completeness auto

termination
  by (relation "measure (\<lambda>(x, e, b). unat x)") (auto intro: word_div_128_less)

declare lb_loop.simps [simp del]

definition lbEncode :: "uint32 \<Rightarrow> bytes option" where
  "lbEncode x =
     (let encodedByte = x mod 128; x' = x div 128 in
      if x' > 0 then
        (case lb_store [] (ucast (encodedByte OR 128)) of
           None \<Rightarrow> None
         | Some b \<Rightarrow> lb_loop x' (encodedByte OR 128) b)
      else lb_loop x' encodedByte [])"

text \<open>
  \<open>lbDecode\<close>: value, byte count and error; the outer None is the index panic of \<open>b[i]\<close>
  when the continuation bit points past the slice.
\<close>

fun lb_dec_loop :: "bytes \<Rightarrow> byte \<Rightarrow> uint32 \<Rightarrow> uint32 \<Rightarrow> nat \<Rightarrow>
    (uint32 \<times> nat \<times> goerr option) option" where
  "lb_dec_loop rest ec value mu i =
     (if ec AND 128 = 0 then Some (value, i, None)
      else (case rest of
          [] \<Rightarrow> None
        | ec' # rest' \<Rightarrow>
            let value' = value + ucast (ec' AND 127) * mu in
            if mu > 128 * 128 * 128 then
              Some (0, 0, Some (Errorf ''Malformed Variable Byte Integer''))
            else lb_dec_loop rest' ec' value' (mu * 128) (Suc i)))"

declare lb_dec_loop.simps [simp del]

fun lbDecode :: "bytes \<Rightarrow> (uint32 \<times> nat \<times> goerr option) option" where
  "lbDecode [] = Some (0, 0, None)"
| "lbDecode (ec # rest) = lb_dec_loop rest ec (ucast (ec AND 127)) 128 1"

lemma unat_drop_bit_7: "unat (drop_bit 7 (x :: uint64)) = unat x div 128"
  by (simp add: drop_bit_eq_div unat_div_word)

text \<open>\<open>BigEndianPutUvarint\<close> (and \<open>binary.PutUvarint\<close>) on a 64-bit value.\<close>

function PutUvarint :: "uint64 \<Rightarrow> bytes" where
  "PutUvarint x = (if x \<ge> 0x80 then (ucast x OR 0x80) # PutUvarint (drop_bit 7 x)
                   else [ucast x])"
  by pat_completeness auto

termination
proof (relation "measure unat")
  fix x :: uint64
  assume "0x80 \<le> x"
  then have "128 \<le> unat x"
    by (simp add: word_le_nat_alt)
  then show "(drop_bit 7 x, x) \<in> measure unat"
    by (simp add: unat_drop_bit_7)
qed simp

declare PutUvarint.simps [simp del]

text \<open>
  \<open>binary.Uvarint\<close>: the value and the number of bytes read; 0 bytes when the buffer is
  too small, a negative number on overflow of 64 bits.
\<close>

fun uv_loop :: "bytes \<Rightarrow> nat \<Rightarrow> uint64 \<Rightarrow> nat \<Rightarrow> uint64 \<times> int" where
  "uv_loop [] i x s = (0, 0)"
| "uv_loop (b # bs) i x s =
     (if i = 10 then (0, - int (Suc i))
      else if b < 0x80 then
        (if i = 9 \<and> b > 1 then (0, - int (Suc i))
         else (x OR push_bit s (ucast b), int (Suc i)))
      else uv_loop bs (Suc i) (x OR push_bit s (ucast (b AND 0x7f))) (s + 7))"

definition Uvarint :: "bytes \<Rightarrow> uint64 \<times> int" where
  "Uvarint bs = uv_loop bs 0 0 0"

section \<open>The variable length integers against their specification\<close>

lemma or_128: "(x mod 128 :: uint32) OR 128 = x mod 128 + 128"
proof -
  have x: "x mod 128 = take_bit 7 x" by (simp add: take_bit_eq_mod)
  have e: "(128 :: uint32) = 2 ^ 7" by simp
  have "take_bit 7 x AND 2 ^ 7 = (0 :: uint32)"
    unfolding and_exp_eq_0_iff_not_bit by (simp only: bit_take_bit_iff) simp
  then have "take_bit 7 x OR 128 = take_bit 7 x + 128"
    unfolding e by (simp only: disjunctive_add_eq_or)
  then show ?thesis by (simp only: x)
qed

lemma even_div_128: "m < 256 \<Longrightarrow> even (m div 128) \<longleftrightarrow> m < (128::nat)"
proof (cases "m < 128")
  case False
  assume "m < 256"
  with False have "m div 128 = 1"
    by (intro div_nat_eqI) simp_all
  with False show ?thesis by simp
qed simp

lemma byte_and_128: "(w :: byte) AND 128 = 0 \<longleftrightarrow> unat w < 128"
proof -
  have "w AND 128 = 0 \<longleftrightarrow> \<not> bit w 7"
    using and_exp_eq_0_iff_not_bit [of w 7] by simp
  also have "\<dots> \<longleftrightarrow> \<not> bit (unat w) 7"
    by (simp add: bit_unsigned_iff)
  also have "bit (unat w) 7 \<longleftrightarrow> odd (unat w div 2 ^ 7)"
    by (rule bit_iff_odd)
  also have "\<not> odd (unat w div 2 ^ 7) \<longleftrightarrow> unat w < 128"
    using even_div_128 [OF unat_byte_lt [of w]] by simp
  finally show ?thesis .
qed

lemma byte_and_127: "(w :: byte) AND 127 = word_of_nat (unat w mod 128)"
proof -
  have "w AND 127 = take_bit 7 w"
    by (simp add: take_bit_eq_mask mask_eq_exp_minus_1)
  then show ?thesis
    by (simp add: take_bit_eq_mod word_unat_eq_iff unat_mod_word unat_of_nat)
qed

lemma word32_shift7: "unat x < 2^28 \<Longrightarrow> 0 < (x :: uint32) \<longleftrightarrow> 0 < unat x"
  by (simp add: word_less_nat_alt)

lemma varint_nonempty [simp]: "varint n \<noteq> []"
  by (subst varint.simps) simp

lemma length_varint_le: "length (varint n) \<le> Suc k \<longleftrightarrow> n < 128 ^ Suc k"
proof (induction n arbitrary: k rule: varint.induct)
  case (1 n)
  show ?case
  proof (cases "n < 128")
    case True
    then have "n < 128 ^ Suc k"
      by (meson less_le_trans one_le_numeral power_increasing le_numeral_Suc self_le_power zero_less_Suc)
    with True show ?thesis
      by (subst varint.simps) simp
  next
    case False
    show ?thesis
    proof (cases k)
      case 0
      with False show ?thesis
        by (subst varint.simps) simp
    next
      case (Suc j)
      have "n div 128 < 128 ^ Suc j \<longleftrightarrow> n < 128 ^ Suc k"
        unfolding Suc by (subst div_less_iff_less_mult) (simp_all add: mult.commute)
      with False Suc "1.IH" [of j] show ?thesis
        by (subst varint.simps) simp
    qed
  qed
qed

lemma unat_ucast8: "unat (ucast (x :: uint32) :: byte) = unat x mod 256"
  by (simp add: unsigned_ucast_eq take_bit_eq_mod)

lemma unat_of_nat8: "unat (word_of_nat m :: byte) = m mod 256"
  by (simp add: unat_of_nat)

lemma ucast_lo: "(ucast (x mod 128 :: uint32) :: byte) = word_of_nat (unat x mod 128)"
  unfolding word_unat_eq_iff unat_ucast8 unat_of_nat8 unat_mod_word by simp

lemma ucast_hi: "(ucast (x mod 128 OR 128 :: uint32) :: byte) = cont_byte (unat x)"
proof -
  have "unat (x mod 128 + 128 :: uint32) = unat x mod 128 + 128"
  proof -
    have "unat x mod 128 + 128 < 2 ^ 32"
      using mod_less_divisor [of 128 "unat x"] by simp
    then show ?thesis by (simp add: unat_add_lem [THEN iffD1] unat_mod_word)
  qed
  then show ?thesis
    unfolding or_128 cont_byte_def word_unat_eq_iff unat_ucast8 unat_of_nat8 by simp
qed


lemma div_128_pos: "(x :: uint32) div 128 > 0 \<longleftrightarrow> unat x \<ge> 128"
  by (simp add: word_less_nat_alt unat_div_word div_greater_zero_iff)

lemma word_pos_unat: "(x :: uint32) > 0 \<longleftrightarrow> unat x > 0"
  by (simp add: word_less_nat_alt)

lemma lb_loop_varint:
  "x > 0 \<Longrightarrow> lb_loop x e b =
     (if length b + length (varint (unat x)) \<le> 4 then Some (b @ varint (unat x)) else None)"
proof (induction x e b rule: lb_loop.induct)
  case (1 x e b)
  show ?case
  proof (cases "unat x < 128")
    case True
    then have d: "x div 128 = 0" and m: "x mod 128 = x"
      by (simp_all add: word_unat_eq_iff unat_div_word unat_mod_word)
    have "lb_loop x e b = lb_loop 0 x b"
      using "1.prems" by (subst lb_loop.simps) (simp add: d m)
    also have "\<dots> = lb_store b (ucast x)"
      by (subst lb_loop.simps) simp
    finally show ?thesis
      using True by (subst (1 2) varint.simps) (simp add: lb_store_def)
  next
    case False
    let ?b = "b @ [cont_byte (unat x)]"
    have pos: "x div 128 > 0"
      using False div_128_pos by simp
    have v: "varint (unat x) = cont_byte (unat x) # varint (unat (x div 128))"
      using False by (subst varint.simps) (simp add: unat_div_word)
    have unf: "lb_loop x e b =
        (case lb_store b (cont_byte (unat x)) of None \<Rightarrow> None
         | Some b' \<Rightarrow> lb_loop (x div 128) (x mod 128 OR 128) b')"
      using "1.prems" pos by (subst lb_loop.simps) (simp add: Let_def ucast_hi)
    show ?thesis
    proof (cases "length b < 4")
      case True
      then have eq: "lb_loop x e b = lb_loop (x div 128) (x mod 128 OR 128) ?b"
        by (simp add: unf lb_store_def)
      have st: "lb_store b (ucast (x mod 128 OR 128)) = Some ?b"
        using True by (simp only: lb_store_def ucast_hi if_True)
      note IH = "1.IH"(1) [OF "1.prems" refl refl pos st pos]
      show ?thesis
        unfolding eq IH v by simp
    next
      case False
      then show ?thesis by (simp add: unf lb_store_def v)
    qed
  qed
qed

lemma lbEncode_varint:
  "lbEncode x = (if unat x < 2 ^ 28 then Some (varint (unat x)) else None)"
proof (cases "unat x < 128")
  case True
  then have d: "x div 128 = 0" and m: "x mod 128 = x"
    by (simp_all add: word_unat_eq_iff unat_div_word unat_mod_word)
  have "lb_loop 0 x [] = Some [ucast x]"
    by (subst lb_loop.simps) (simp add: lb_store_def)
  then show ?thesis
    using True unfolding lbEncode_def
    by (subst varint.simps) (simp add: Let_def d m)
next
  case False
  have pos: "x div 128 > 0"
    using False div_128_pos by simp
  have v: "varint (unat x) = cont_byte (unat x) # varint (unat (x div 128))"
    using False by (subst varint.simps) (simp add: unat_div_word)
  have "lbEncode x = lb_loop (x div 128) (x mod 128 OR 128) [cont_byte (unat x)]"
    using pos by (simp add: lbEncode_def Let_def lb_store_def ucast_hi)
  then show ?thesis
    using length_varint_le [of "unat x" 3] v
    by (simp add: lb_loop_varint [OF pos])
qed


lemma unat_cont_byte: "unat (cont_byte n) = n mod 128 + 128"
  unfolding cont_byte_def unat_of_nat8 using mod_less_divisor [of 128 n] by simp

lemma hd_varint: "unat (hd (varint n)) mod 128 = n mod 128"
  by (subst varint.simps) (simp add: unat_of_nat8 unat_cont_byte)

lemma varint_cont: "n \<ge> 128 \<Longrightarrow> \<not> unat (hd (varint n)) < 128"
  by (subst varint.simps) (simp add: unat_cont_byte)

lemma varint_last: "n < 128 \<Longrightarrow> unat (hd (varint n)) < 128"
  by (subst varint.simps) (simp add: unat_of_nat8)

lemma varint_unfold: "n \<ge> 128 \<Longrightarrow> varint n = hd (varint n) # varint (n div 128)"
  by (subst (1 2) varint.simps) simp

lemma varint_one: "n < 128 \<Longrightarrow> varint n = [hd (varint n)]"
  by (subst (1 2) varint.simps) simp

lemma length_varint_one: "n < 128 \<Longrightarrow> length (varint n) = 1 \<and> tl (varint n) = []"
  by (subst (1 2) varint.simps) simp

lemma length_varint: "n \<ge> 128 \<Longrightarrow> length (varint n) = Suc (length (varint (n div 128)))"
  by (subst varint.simps) simp

lemma ucast_and_127: "(ucast (w AND 127 :: byte) :: uint32) = word_of_nat (unat w mod 128)"
  unfolding byte_and_127
  by (simp add: word_unat_eq_iff unsigned_ucast_eq unat_of_nat take_bit_eq_mod)


lemma lb_dec_loop_stop:
  "ec AND 128 = 0 \<Longrightarrow> lb_dec_loop rest ec v mu i = Some (v, i, None)"
  by (subst lb_dec_loop.simps) (simp only: if_True refl)

lemma lb_dec_loop_more:
  "ec AND 128 \<noteq> 0 \<Longrightarrow> \<not> mu > 128 * 128 * 128 \<Longrightarrow>
   lb_dec_loop (ec' # rest) ec v mu i
     = lb_dec_loop rest ec' (v + ucast (ec' AND 127) * mu) (mu * 128) (Suc i)"
  by (subst lb_dec_loop.simps) (simp only: if_False list.case Let_def)

lemma lb_dec_loop_varint:
  assumes "mu = 128 ^ k" and "k \<ge> 1" and "k + length (varint n) \<le> 5"
  shows "lb_dec_loop (tl (varint n) @ r) (hd (varint n)) (v + word_of_nat (n mod 128) * (128 ^ (k - 1))) mu i
     = Some (v + word_of_nat n * 128 ^ (k - 1), i + (length (varint n) - 1), None)"
  using assms
proof (induction n arbitrary: mu k v i rule: varint.induct)
  case (1 n)
  show ?case
  proof (cases "n < 128")
    case True
    have c: "hd (varint n) AND 128 = 0"
      using varint_last [OF True] by (simp add: byte_and_128)
    have l: "length (varint n) - 1 = 0"
      using length_varint_one [OF True] by simp
    have m: "n mod 128 = n"
      using True by (rule mod_less)
    show ?thesis
      unfolding l m lb_dec_loop_stop [OF c] by simp
  next
    case False
    let ?m = "n div 128"
    have unf: "varint n = hd (varint n) # hd (varint ?m) # tl (varint ?m)"
      using False varint_unfold [of n] by simp
    have len: "length (varint n) = Suc (length (varint ?m))"
      using False by (simp add: length_varint)
    have kk: "k \<le> 3" "1 \<le> length (varint ?m)"
    proof -
      show m1: "1 \<le> length (varint ?m)" by (simp add: Suc_le_eq)
      show "k \<le> 3" using "1.prems"(3) len m1 by linarith
    qed
    have mu: "\<not> (mu :: uint32) > 128 * 128 * 128"
    proof -
      have "k = 1 \<or> k = 2 \<or> k = 3" using kk "1.prems" by linarith
      then show ?thesis unfolding "1.prems"(1) by auto
    qed
    have mu': "mu * 128 = 128 ^ Suc k" and mk: "mu = 128 ^ (k - 1) * 128"
      using "1.prems"(1,2) by (simp_all add: power_eq_if)
    have nm: "(word_of_nat n :: uint32) = word_of_nat (n mod 128) + 128 * word_of_nat ?m"
      by (metis mod_mult_div_eq of_nat_add of_nat_mult of_nat_numeral)
    have cont: "hd (varint n) AND 128 \<noteq> 0"
      using varint_cont [of n] False by (simp add: byte_and_128)
    have "lb_dec_loop (tl (varint n) @ r) (hd (varint n)) (v + word_of_nat (n mod 128) * (128 ^ (k - 1))) mu i
       = lb_dec_loop (tl (varint ?m) @ r) (hd (varint ?m))
           ((v + word_of_nat (n mod 128) * (128 ^ (k - 1))) + word_of_nat (?m mod 128) * 128 ^ (Suc k - 1))
           (mu * 128) (Suc i)"
    proof -
      have t: "tl (varint n) @ r = hd (varint ?m) # tl (varint ?m) @ r"
        by (subst unf) simp
      have sk: "Suc k - 1 = k" by simp
      show ?thesis
        unfolding t lb_dec_loop_more [OF cont mu] ucast_and_127 hd_varint sk
        by (simp only: "1.prems"(1))
    qed
    also have "\<dots> = Some ((v + word_of_nat (n mod 128) * 128 ^ (k - 1)) + word_of_nat ?m * 128 ^ (Suc k - 1),
          Suc i + (length (varint ?m) - 1), None)"
      using "1.prems"(3) len by (intro "1.IH" False mu') simp_all
    also have "(v + word_of_nat (n mod 128) * 128 ^ (k - 1)) + word_of_nat ?m * 128 ^ (Suc k - 1)
        = v + word_of_nat n * 128 ^ (k - 1)"
      using mk "1.prems"(1) by (simp add: nm algebra_simps)
    finally show ?thesis
      using kk len by simp
  qed
qed

lemma lbDecode_varint:
  assumes "n < 2 ^ 28"
  shows "lbDecode (varint n @ r) = Some (word_of_nat n, length (varint n), None)"
proof -
  have len: "length (varint n) \<le> 4"
    using assms length_varint_le [of n 3] by simp
  have "varint n @ r = hd (varint n) # (tl (varint n) @ r)"
    by simp
  then have "lbDecode (varint n @ r) =
      lb_dec_loop (tl (varint n) @ r) (hd (varint n)) (ucast (hd (varint n) AND 127)) 128 1"
    by (metis lbDecode.simps(2))
  also have "\<dots> = lb_dec_loop (tl (varint n) @ r) (hd (varint n)) (0 + word_of_nat (n mod 128) * 128 ^ (1 - 1)) 128 1"
    by (simp add: ucast_and_127 hd_varint)
  also have "\<dots> = Some (0 + word_of_nat n * 128 ^ (1 - 1), 1 + (length (varint n) - 1), None)"
    using len by (intro lb_dec_loop_varint) simp_all
  finally show ?thesis
    by (simp add: Suc_le_eq)
qed



lemma byte_or_128: "unat ((w :: byte) OR 128) = unat w mod 128 + 128"
proof -
  have "w OR 128 = take_bit 7 w OR 128"
  proof (rule bit_word_eqI)
    fix n assume n: "n < LENGTH(8)"
    have "bit (128 :: byte) n \<longleftrightarrow> n = 7"
      using n bit_exp_iff [of 7 n, where ?'a = byte] by (auto simp: bit_exp_iff)
    then show "bit (w OR 128) n = bit (take_bit 7 w OR 128) n"
      using n by (auto simp: bit_or_iff bit_take_bit_iff)
  qed
  also have "\<dots> = take_bit 7 w + 128"
  proof -
    have "take_bit 7 w AND 2 ^ 7 = (0 :: byte)"
      unfolding and_exp_eq_0_iff_not_bit by (simp only: bit_take_bit_iff) simp
    then show ?thesis
      using disjunctive_add_eq_or [of "take_bit 7 w" "2 ^ 7"] by simp
  qed
  finally have "w OR 128 = take_bit 7 w + 128" .
  moreover have "unat (take_bit 7 w) = unat w mod 128"
    by (simp only: unsigned_take_bit_eq) (simp only: take_bit_eq_mod, simp)
  moreover have "unat w mod 128 + 128 < 2 ^ 8"
    using mod_less_divisor [of 128 "unat w"] by simp
  ultimately show ?thesis
    by (simp add: unat_add_lem [THEN iffD1])
qed

lemma unat_ucast64_8: "unat (ucast (x :: uint64) :: byte) = unat x mod 256"
  by (simp add: unsigned_ucast_eq take_bit_eq_mod)

lemma PutUvarint_varint: "PutUvarint x = varint (unat x)"
proof (induction x rule: PutUvarint.induct)
  case (1 x)
  show ?case
  proof (cases "x \<ge> 0x80")
    case True
    then have n: "\<not> unat x < 128"
      by (simp add: word_le_nat_alt)
    have "unat x mod 256 mod 128 = unat x mod 128"
      by (rule mod_mod_cancel) simp
    then have "(ucast x :: byte) OR 0x80 = cont_byte (unat x)"
      unfolding word_unat_eq_iff byte_or_128 unat_cont_byte unat_ucast64_8 by simp
    then show ?thesis
      using True n "1.IH"
      by (subst PutUvarint.simps, subst varint.simps) (simp add: unat_drop_bit_7)
  next
    case False
    then have n: "unat x < 128"
      by (simp add: word_le_nat_alt)
    then show ?thesis
      using False by (subst PutUvarint.simps, subst varint.simps) simp
  qed
qed


lemma word64_split7:
  "(word_of_nat n :: uint64) = word_of_nat (n mod 128) OR push_bit 7 (word_of_nat (n div 128))"
proof -
  have m: "n mod 128 = take_bit 7 n" and d: "n div 128 = drop_bit 7 n"
    by (simp_all add: take_bit_eq_mod drop_bit_eq_div)
  show ?thesis
    unfolding m d by (rule bit_word_eqI) (auto simp: bit_simps)
qed

lemma uv_loop_varint:
  "i + length (varint n) \<le> 9 \<Longrightarrow>
   uv_loop (varint n @ r) i x s = (x OR push_bit s (word_of_nat n), int (i + length (varint n)))"
proof (induction n arbitrary: i x s rule: varint.induct)
  case (1 n)
  show ?case
  proof (cases "n < 128")
    case True
    have v: "varint n = [word_of_nat n]"
      using True by (subst varint.simps) simp
    have lt: "(word_of_nat n :: byte) < 0x80"
      using True by (simp add: word_less_nat_alt unat_of_nat8)
    have c: "(ucast (word_of_nat n :: byte) :: uint64) = word_of_nat n"
      using True by (simp add: word_unat_eq_iff unsigned_ucast_eq unat_of_nat take_bit_eq_mod)
    show ?thesis
      using "1.prems" lt unfolding v by (simp add: c)
  next
    case False
    let ?m = "n div 128"
    have v: "varint n = cont_byte n # varint ?m"
      using False by (subst varint.simps) simp
    have ge: "\<not> cont_byte n < 0x80"
      by (simp add: word_less_nat_alt unat_cont_byte)
    have c: "(ucast (cont_byte n AND 127) :: uint64) = word_of_nat (n mod 128)"
      unfolding byte_and_127 unat_cont_byte
      by (simp add: word_unat_eq_iff unsigned_ucast_eq unat_of_nat take_bit_eq_mod)
    have "uv_loop (varint ?m @ r) (Suc i) (x OR push_bit s (word_of_nat (n mod 128))) (s + 7)
        = ((x OR push_bit s (word_of_nat (n mod 128))) OR push_bit (s + 7) (word_of_nat ?m),
            int (Suc i + length (varint ?m)))"
      using "1.prems" unfolding v by (intro "1.IH" [OF False]) simp
    moreover have "(x OR push_bit s (word_of_nat (n mod 128))) OR push_bit (s + 7) (word_of_nat ?m)
        = x OR push_bit s (word_of_nat n)"
      unfolding word64_split7 [of n] by (simp add: push_bit_or or.assoc)
    ultimately show ?thesis
      using "1.prems" ge unfolding v by (simp add: c)
  qed
qed

lemma Uvarint_varint:
  "n < 2 ^ 32 \<Longrightarrow> Uvarint (varint n @ r) = (word_of_nat n, int (length (varint n)))"
  using length_varint_le [of n 4] uv_loop_varint [of 0 n r 0 0]
  by (simp add: Uvarint_def)

section \<open>Length-prefixed strings\<close>

text \<open>
  \<open>readLPBytes\<close>: bytes, count and error. The length test compares with the prefix
  alone, so the slice expression \<open>buf[2:total]\<close> can reach past the slice: into the
  spare capacity, or into a panic (None).
\<close>

definition readLPBytes :: "gslice \<Rightarrow> (bytes \<times> nat \<times> goerr option) option" where
  "readLPBytes buf =
     (if length (vis buf) < 2 then Some ([], 0, Some (Code InvalidMessage))
      else
        let n = (case get16 (vis buf) of Some w \<Rightarrow> unat w | None \<Rightarrow> 0) in
        if length (vis buf) < n then Some ([], 2, Some (Code InvalidMessage))
        else (case sub buf 2 (2 + n) of
                None \<Rightarrow> None
              | Some b \<Rightarrow> Some (CopyLen b (int n), 2 + n, None)))"

text \<open>\<open>writeToBufLPBytes\<close>: the buffer after the call, and the error.\<close>

definition writeToBufLPBytes :: "bytes \<Rightarrow> bytes \<Rightarrow> bytes \<times> goerr option" where
  "writeToBufLPBytes buf b =
     (let n = length b in
      if n > 65535 then (buf, Some (Errorf ''utils/writeLPBytes: Length greater than 65535''))
      else (buf @ [word_of_nat (n div 256), word_of_nat n] @ b, None))"

text \<open>\<open>writeLPBytes(dst[t:], b)\<close>: the slice after the call, count and error.\<close>

definition writeLPBytes :: "bytes \<Rightarrow> nat \<Rightarrow> bytes \<Rightarrow> (bytes \<times> nat \<times> goerr option) option" where
  "writeLPBytes dst t b =
     (if t > length dst then None
      else let n = length b in
        if n > 65535 then
          Some (dst, 0, Some (Errorf ''utils/writeLPBytes: Length greater than 65535''))
        else if length dst - t < 2 + n then
          Some (dst, 0, Some (Errorf ''utils/writeLPBytes: Insufficient buffer size''))
        else Some (blit (blit dst t (put16 (word_of_nat n))) (t + 2) b, 2 + n, None))"

text \<open>Specification: two bytes of length, then the string.\<close>

definition lp :: "bytes \<Rightarrow> bytes" where
  "lp b = put16 (word_of_nat (length b)) @ b"

lemma length_lp [simp]: "length (lp b) = 2 + length b"
  by (simp add: lp_def)

lemma put16_of_nat: "put16 (word_of_nat n) = [word_of_nat (n div 256), word_of_nat n]"
proof -
  have "(ucast (word_of_nat n :: uint16) :: byte) = word_of_nat n"
    by (rule bit_word_eqI) (auto simp: bit_simps)
  moreover have "(ucast (drop_bit 8 (word_of_nat n :: uint16)) :: byte) = word_of_nat (drop_bit 8 n)"
    by (rule bit_word_eqI) (auto simp: bit_simps)
  ultimately show ?thesis
    by (simp add: put16_def drop_bit_eq_div)
qed

lemma writeToBufLPBytes_ok [wire_simps]:
  "length b \<le> 65535 \<Longrightarrow> writeToBufLPBytes buf b = (buf @ lp b, None)"
  by (simp add: writeToBufLPBytes_def lp_def put16_of_nat Let_def)

lemma get16_lp: "length b \<le> 65535 \<Longrightarrow> get16 (lp b @ r) = Some (word_of_nat (length b))"
  by (simp add: lp_def)

lemma readLPBytes_lp [wire_rt]:
  assumes "length b \<le> 65535"
  shows "readLPBytes (GSlice (lp b @ r) sp) = Some (b, 2 + length b, None)"
proof -
  have n: "unat (word_of_nat (length b) :: uint16) = length b"
    using assms by (simp add: unat_of_nat)
  have "left (GSlice (lp b @ r) sp) 2 (b @ r)"
    by (simp add: left_def lp_def)
  from left_sub [OF this] have "sub (GSlice (lp b @ r) sp) 2 (2 + length b) = Some b" .
  then show ?thesis
    using assms by (auto simp: readLPBytes_def get16_lp n CopyLen_def Let_def)
qed

lemma readLPBytes_progress: "readLPBytes s = Some (v, n, None) \<Longrightarrow> 2 \<le> n"
  by (auto simp: readLPBytes_def Let_def split: if_splits option.splits)

section \<open>User properties\<close>

text \<open>\<open>decodeUserProperty(src[t:])\<close>, with positions relative to the whole slice.\<close>

function dup_loop :: "gslice \<Rightarrow> nat \<Rightarrow> bytes list \<Rightarrow> (bytes list \<times> nat \<times> goerr option) option" where
  "dup_loop src t acc =
     (if at src t = Some UserProperty then
        (case reslice src (Suc t) of
           None \<Rightarrow> None
         | Some sl \<Rightarrow> (case readLPBytes sl of
             None \<Rightarrow> None
           | Some (tu, n, Some e) \<Rightarrow> Some (acc, Suc t + n, Some e)
           | Some (tu, n, None) \<Rightarrow>
               (case reslice src (Suc t + n) of
                  None \<Rightarrow> None
                | Some sl' \<Rightarrow> (case readLPBytes sl' of
                    None \<Rightarrow> None
                  | Some (tv, m, Some e) \<Rightarrow> Some (acc @ [tu], Suc t + n + m, Some e)
                  | Some (tv, m, None) \<Rightarrow> dup_loop src (Suc t + n + m) (acc @ [tu, tv])))))
      else Some (acc, t, None))"
  by pat_completeness auto

termination
  by (relation "measure (\<lambda>(src, t, acc). length (vis src) - t)")
    (auto simp: at_def split: if_splits)

declare dup_loop.simps [simp del]

definition decodeUserProperty :: "gslice \<Rightarrow> (bytes list \<times> nat \<times> goerr option) option" where
  "decodeUserProperty src = dup_loop src 0 []"

text \<open>\<open>writeUserPropertyByBuf\<close>: pairs, a missing or empty value as two zero bytes.\<close>

fun writeUserPropertyByBuf :: "bytes \<Rightarrow> bytes list \<Rightarrow> bytes \<times> goerr option" where
  "writeUserPropertyByBuf buf [] = (buf, None)"
| "writeUserPropertyByBuf buf (k # ups) =
     (case (if length k = 0 then (buf @ [UserProperty] @ [0, 0], None)
            else writeToBufLPBytes (buf @ [UserProperty]) k) of
        (buf1, Some e) \<Rightarrow> (buf1, Some e)
      | (buf1, None) \<Rightarrow>
          (case ups of
             [] \<Rightarrow> (buf1 @ [0, 0], None)
           | v # ups' \<Rightarrow>
               (case (if length v = 0 then (buf1 @ [0, 0], None) else writeToBufLPBytes buf1 v) of
                  (buf2, Some e) \<Rightarrow> (buf2, Some e)
                | (buf2, None) \<Rightarrow> writeUserPropertyByBuf buf2 ups')))"

fun buildUserPropertyLen :: "bytes list \<Rightarrow> nat" where
  "buildUserPropertyLen [] = 0"
| "buildUserPropertyLen [k] = 1 + 2 + length k + 2"
| "buildUserPropertyLen (k # v # ups) =
     1 + 2 + length k + 2 + length v + buildUserPropertyLen ups"

text \<open>Specification of the user property bytes, and of the list that is read back.\<close>

fun up_bytes :: "bytes list \<Rightarrow> bytes" where
  "up_bytes [] = []"
| "up_bytes [k] = UserProperty # lp k @ lp []"
| "up_bytes (k # v # ups) = UserProperty # lp k @ lp v @ up_bytes ups"

fun up_pad :: "bytes list \<Rightarrow> bytes list" where
  "up_pad [] = []"
| "up_pad [k] = [k, []]"
| "up_pad (k # v # ups) = k # v # up_pad ups"

definition strs_ok :: "bytes list \<Rightarrow> bool" where
  "strs_ok ups \<longleftrightarrow> (\<forall>u \<in> set ups. length u \<le> 65535)"

lemma lp_Nil: "lp [] = [0, 0]"
  by (simp add: lp_def put16_def)

lemma up_pad_even: "even (length ups) \<Longrightarrow> up_pad ups = ups"
  by (induction ups rule: up_pad.induct) auto

lemma length_up_bytes [simp]: "length (up_bytes ups) = buildUserPropertyLen ups"
  by (induction ups rule: up_bytes.induct) auto

lemma writeUserPropertyByBuf_ok [wire_simps]:
  "strs_ok ups \<Longrightarrow> writeUserPropertyByBuf buf ups = (buf @ up_bytes ups, None)"
proof (induction ups arbitrary: buf rule: up_bytes.induct)
  case (3 k v ups)
  then show ?case
    by (auto simp: strs_ok_def writeToBufLPBytes_ok lp_Nil)
qed (auto simp: strs_ok_def writeToBufLPBytes_ok lp_Nil)

lemma dup_loop_rt:
  assumes "left src t (up_bytes ups @ r)" and "strs_ok ups" and "r = [] \<or> hd r \<noteq> UserProperty"
  shows "dup_loop src t acc = Some (acc @ up_pad ups, t + length (up_bytes ups), None)"
  using assms
proof (induction ups arbitrary: t acc rule: up_bytes.induct)
  case 1
  then have "at src t \<noteq> Some UserProperty"
    using left_at left_at_Nil by (cases r) force+
  then show ?case
    by (subst dup_loop.simps) simp
next
  case (2 k)
  have a: "at src t = Some UserProperty"
    using "2.prems"(1) left_at by simp
  have l1: "left src (Suc t) (lp k @ lp [] @ r)"
    using "2.prems"(1) left_Suc by simp
  have l2: "left src (Suc t + length (lp k)) (lp [] @ r)"
    by (rule left_advance [OF l1])
  have l3: "left src (Suc t + length (lp k) + length (lp [])) r"
    by (rule left_advance [OF l2])
  have e: "at src (Suc t + length (lp k) + length (lp [])) \<noteq> Some UserProperty"
    using l3 "2.prems"(3) left_at left_at_Nil by (cases r) force+
  show ?case
    using a e "2.prems"(2) left_reslice [OF l1] left_reslice [OF l2]
    by (subst dup_loop.simps, subst dup_loop.simps) (simp add: readLPBytes_lp strs_ok_def)
next
  case (3 k v ups)
  have a: "at src t = Some UserProperty"
    using "3.prems"(1) left_at by simp
  have l1: "left src (Suc t) (lp k @ lp v @ up_bytes ups @ r)"
    using "3.prems"(1) left_Suc by simp
  have l2: "left src (Suc t + length (lp k)) (lp v @ up_bytes ups @ r)"
    by (rule left_advance [OF l1])
  have l3: "left src (Suc t + length (lp k) + length (lp v)) (up_bytes ups @ r)"
    by (rule left_advance [OF l2])
  have ok: "strs_ok ups" "length k \<le> 65535" "length v \<le> 65535"
    using "3.prems"(2) by (auto simp: strs_ok_def)
  show ?case
    using a left_reslice [OF l1] left_reslice [OF l2] ok "3.IH" [OF l3 ok(1) "3.prems"(3)]
    by (subst dup_loop.simps) (simp add: readLPBytes_lp)
qed

end
