(* ===== verification/Header.thy ===== *)
theory Header
  imports Wire
begin

text \<open>
  The fixed header of every packet, broker/core/message/header.go: the record that each
  message embeds, its accessors, \<open>encode\<close>, \<open>encodeToBuf\<close>, \<open>decode\<close> and \<open>msglen\<close>, and
  the statement forms that the message decoders share.

  Every message is built by its \<open>New...Message\<close> function, whose \<open>SetType\<close> allocates
  \<open>mtypeflags\<close> with one byte, and no method frees it again, so the slice is modelled by
  that byte. \<open>packetId\<close> stays a byte list, empty or of length two.
\<close>

record header =
  remlen :: uint32
  mtf :: byte
  packetId :: bytes
  dbuf :: bytes
  dirty :: bool

abbreviation maxRemainingLength :: uint32 where "maxRemainingLength \<equiv> 268435455"

section \<open>Accessors\<close>

definition Type :: "'a header_scheme \<Rightarrow> mtype" where
  "Type head = mtype_of (drop_bit 4 (mtf head))"

definition Flags :: "'a header_scheme \<Rightarrow> byte" where
  "Flags head = mtf head AND 0x0f"

text \<open>\<open>SetType\<close> on the zero header; the byte \<open>mtypeflags[0]\<close> is allocated there.\<close>

definition new_header :: "mtype \<Rightarrow> header" where
  "new_header t = \<lparr>remlen = 0, mtf = first_byte t (DefaultFlags t), packetId = [], dbuf = [],
     dirty = True\<rparr>"

definition SetMtypeFlags :: "byte \<Rightarrow> 'a header_scheme \<Rightarrow> 'a header_scheme" where
  "SetMtypeFlags f head = head\<lparr>mtf := f\<rparr>"

definition SetRemainingLength :: "uint32 \<Rightarrow> 'a header_scheme \<Rightarrow> 'a header_scheme \<times> goerr option" where
  "SetRemainingLength v head =
     (if v > maxRemainingLength then (head, Some (Errorf ''header/SetLength: out of bound''))
      else (head\<lparr>remlen := v, dirty := True\<rparr>, None))"

definition PacketId :: "'a header_scheme \<Rightarrow> uint16" where
  "PacketId head = (case packetId head of
     [a, b] \<Rightarrow> push_bit 8 (ucast a) OR ucast b
   | _ \<Rightarrow> 0)"

definition SetPacketId :: "uint16 \<Rightarrow> 'a header_scheme \<Rightarrow> 'a header_scheme" where
  "SetPacketId v head =
     (if v = 0 then head
      else if length (packetId head) \<noteq> 2 then head\<lparr>packetId := put16 v, dirty := True\<rparr>
      else head\<lparr>packetId := put16 v\<rparr>)"

definition header_msglen :: "'a header_scheme \<Rightarrow> nat" where
  "header_msglen head =
     1 + (if remlen head \<le> 127 then 1 else if remlen head \<le> 16383 then 2
          else if remlen head \<le> 2097151 then 3 else 4)"

section \<open>Encoding and decoding\<close>

definition header_encodeToBuf :: "bytes \<Rightarrow> 'a header_scheme \<Rightarrow> bytes \<times> goerr option" where
  "header_encodeToBuf dst head =
     (if remlen head > maxRemainingLength then
        (dst, Some (Errorf ''header/Encode: Remaining length out of bound''))
      else if \<not> mtype_Valid (Type head) then
        (dst, Some (Errorf ''header/Encode: Invalid message type''))
      else (dst @ [mtf head] @ PutUvarint (ucast (remlen head)), None))"

text \<open>
  \<open>encode(dst[t:])\<close>: the slice after the call, count and error; None is the panic of
  \<open>binary.PutUvarint\<close>, which indexes its slice and is only reached with room enough.
\<close>

definition header_encode :: "bytes \<Rightarrow> nat \<Rightarrow> 'a header_scheme \<Rightarrow> (bytes \<times> nat \<times> goerr option) option" where
  "header_encode dst t head =
     (if t > length dst then None
      else if length dst - t < header_msglen head then
        Some (dst, 0, Some (Errorf ''header/Encode: Insufficient buffer size''))
      else if remlen head > maxRemainingLength then
        Some (dst, 0, Some (Errorf ''header/Encode: Remaining length out of bound''))
      else if \<not> mtype_Valid (Type head) then
        Some (dst, 0, Some (Errorf ''header/Encode: Invalid message type''))
      else let d1 = blit dst t [mtf head];
               v = PutUvarint (ucast (remlen head)) in
        if t + 1 + length v > length dst then None
        else Some (blit d1 (t + 1) v, 1 + length v, None))"

definition exempt :: "mtype \<Rightarrow> bool" where
  "exempt t \<longleftrightarrow> t = PINGREQ \<or> t = PINGRESP \<or> t = AUTH \<or> t = DISCONNECT"

definition header_decode :: "gslice \<Rightarrow> 'a header_scheme \<Rightarrow> (nat \<times> 'a header_scheme) out" where
  "header_decode src head =
     (let head1 = head\<lparr>dbuf := vis src\<rparr>;
          mtype = Type head1 in
      case sub src 0 1 of
        None \<Rightarrow> Panic
      | Some b \<Rightarrow>
          let head2 = head1\<lparr>mtf := hd (CopyLen b 1)\<rparr> in
          if \<not> mtype_Valid (Type head2) then Fail 0 (Code InvalidMessage) (0, head2)
          else if mtype \<noteq> Type head2 then Fail 0 (Code InvalidMessage) (0, head2)
          else if Type head2 \<noteq> PUBLISH \<and> Flags head2 \<noteq> DefaultFlags (Type head2) then
            Fail 0 (Code InvalidMessage) (0, head2)
          else if Type head2 = PUBLISH \<and> \<not> ValidQos (drop_bit 1 (Flags head2) AND 0x3) then
            Fail 0 (Code InvalidMessage) (0, head2)
          else (case reslice src 1 of
            None \<Rightarrow> Panic
          | Some sl \<Rightarrow>
              let (rl, m) = Uvarint (vis sl);
                  total = 1 + m;
                  head3 = head2\<lparr>remlen := ucast rl\<rparr> in
              if remlen head3 > maxRemainingLength \<or> (\<not> exempt (Type head3) \<and> rl = 0) then
                Fail total (Code InvalidMessage) (nat total, head3)
              else if total < 0 \<or> nat total > length (vis src) then Panic
              else if unat (remlen head3) > length (vis src) - nat total then
                Fail total (Code InvalidMessage) (nat total, head3)
              else Go (nat total, head3)))"

text \<open>The flags that \<open>decode\<close> accepts for the packet type of the first byte.\<close>

definition flags_ok :: "byte \<Rightarrow> bool" where
  "flags_ok b \<longleftrightarrow>
     (let t = mtype_of (drop_bit 4 b); f = b AND 0x0f in
      mtype_Valid t \<and>
      (if t = PUBLISH then ValidQos (drop_bit 1 f AND 0x3) else f = DefaultFlags t))"

section \<open>Lemmas\<close>

lemma unat_le_max: "x \<le> maxRemainingLength \<longleftrightarrow> unat x < 2 ^ 28"
proof -
  have "x \<le> maxRemainingLength \<longleftrightarrow> unat x \<le> 268435455"
    by (simp add: word_le_nat_alt)
  also have "\<dots> \<longleftrightarrow> unat x < 268435456"
    by linarith
  finally show ?thesis by simp
qed

lemma unat32_lt: "unat (x :: uint32) < 2 ^ 32"
  using unsigned_less [of x] by simp

lemma ucast_remlen: "unat (ucast (x :: uint32) :: uint64) = unat x"
proof -
  have "unat x < 2 ^ 64"
    by (rule less_trans [OF unat32_lt]) simp
  then show ?thesis
    by (simp only: unsigned_ucast_eq take_bit_nat_eq_self_iff len_num1) (simp add: take_bit_nat_eq_self)
qed

lemma unat_len32: "n < 2 ^ 28 \<Longrightarrow> unat (word_of_nat n :: uint32) = n"
  by (simp add: unat_of_nat)

lemma header_encodeToBuf_ok [wire_simps]:
  assumes "remlen h \<le> maxRemainingLength" and "mtype_Valid (Type h)"
  shows "header_encodeToBuf dst h = (dst @ mtf h # varint (unat (remlen h)), None)"
  using assms by (simp add: header_encodeToBuf_def PutUvarint_varint ucast_remlen not_less)

lemma length_varint_remlen:
  assumes "remlen h \<le> maxRemainingLength"
  shows "1 + length (varint (unat (remlen h))) = header_msglen h"
proof -
  let ?n = "unat (remlen h)"
  have n: "?n < 128 ^ 4"
    using assms by (simp add: word_le_nat_alt)
  have l: "length (varint ?n) \<le> Suc k \<longleftrightarrow> ?n < 128 ^ Suc k" for k
    by (rule length_varint_le)
  have "length (varint ?n) \<ge> 1"
    by (simp add: Suc_le_eq)
  then show ?thesis
    using n l [of 0] l [of 1] l [of 2] l [of 3]
    by (auto simp: header_msglen_def word_le_nat_alt)
qed

lemma PacketId_put16: "packetId h = put16 v \<Longrightarrow> PacketId h = v"
  using get16_put16 [of v "[]"] by (simp add: PacketId_def put16_def)

lemma PacketId_SetPacketId: "v \<noteq> 0 \<Longrightarrow> PacketId (SetPacketId v h) = v"
  by (auto simp: SetPacketId_def intro: PacketId_put16)

text \<open>The header round trip: a packet's first bytes decode to its type byte and length.\<close>

lemma header_decode_rt:
  assumes v: "vis src = b # varint (unat rl) @ rest"
    and f: "flags_ok b" and t: "mtype_of (drop_bit 4 b) = Type head"
    and rl: "rl \<le> maxRemainingLength" "rl \<noteq> 0 \<or> exempt (Type head)" "unat rl \<le> length rest"
  shows "header_decode src head
    = Go (1 + length (varint (unat rl)), head\<lparr>dbuf := vis src, mtf := b, remlen := rl\<rparr>)"
proof -
  let ?h = "head\<lparr>dbuf := vis src, mtf := b\<rparr>"
  have T: "Type ?h = Type head" "Flags ?h = b AND 0x0f"
    using t by (simp_all add: Type_def Flags_def)
  have sub1: "sub src 0 1 = Some [b]"
    using left_sub [of src 0 "[b]" "varint (unat rl) @ rest"] v by simp
  have rs: "reslice src 1 = Some (GSlice (varint (unat rl) @ rest) (spare src))"
    by (rule left_reslice) (simp add: left_def v)
  have uv: "Uvarint (varint (unat rl) @ rest) = (ucast rl, int (length (varint (unat rl))))"
    using Uvarint_varint [of "unat rl" rest] unat32_lt [of rl] by simp
  have ucu: "(ucast (ucast rl :: uint64) :: uint32) = rl"
    by (rule bit_word_eqI) (auto simp: bit_simps)
  have nz: "(ucast rl :: uint64) = 0 \<longleftrightarrow> rl = 0"
    using ucast_remlen [of rl] by (simp add: word_unat_eq_iff)
  have good: "mtype_Valid (Type head)"
    "Type head \<noteq> PUBLISH \<Longrightarrow> b AND 0x0f = DefaultFlags (Type head)"
    "Type head = PUBLISH \<Longrightarrow> ValidQos (drop_bit 1 (b AND 0x0f) AND 0x3)"
    using f t by (auto simp: flags_ok_def Let_def split: if_splits)
  have ty: "Type (?h\<lparr>remlen := rl\<rparr>) = Type head" "Type (head\<lparr>dbuf := vis src\<rparr>) = Type head"
    using t by (simp_all add: Type_def)
  have len: "nat (1 + int (length (varint (unat rl)))) = Suc (length (varint (unat rl)))"
    by simp
  have cp: "hd (CopyLen [b] 1) = b"
    by (simp add: CopyLen_def)
  show ?thesis
    unfolding header_decode_def Let_def sub1 rs option.case gslice.sel uv prod.case ucu cp ty T
    using good rl v by (auto simp: nz exempt_def not_less)
qed

text \<open>Without a valid type, or with flags the type does not allow, nothing is accepted.\<close>

lemma header_decode_flags:
  assumes "header_decode src head = Go (n, h)" and "vis src = b # bs"
  shows "flags_ok b \<and> mtf h = b \<and> Type h = Type head \<and> remlen h \<le> maxRemainingLength
    \<and> n \<le> length (vis src) \<and> unat (remlen h) \<le> length (vis src) - n"
proof -
  have "sub src 0 1 = Some [b]"
    using assms(2) left_sub [of src 0 "[b]" bs] by simp
  then show ?thesis
    using assms
    by (auto simp: header_decode_def Let_def CopyLen_def flags_ok_def Type_def Flags_def not_less
        split: if_splits option.splits prod.splits)
qed

end
