(* ===== verification/Decode.thy ===== *)
theory Decode
  imports Header
begin

text \<open>
  The statement forms that the \<open>Decode\<close> methods of broker/core/message repeat, over a
  decoder state that holds the header length, the running \<open>total\<close> and the message:
  the header, the packet identifier, a length-prefixed string, a variable length
  integer, an optional property guarded by its identifier byte, and the test for a
  repeated property. Each form comes with its step lemma on encoded input.
\<close>

record 'm dstate =
  d_hn :: nat
  d_tot :: nat
  d_msg :: 'm

definition dstart :: "'m \<Rightarrow> 'm dstate" where
  "dstart m = \<lparr>d_hn = 0, d_tot = 0, d_msg = m\<rparr>"

text \<open>\<open>return total, err\<close> and \<open>return 0, ProtocolError\<close>\<close>

definition ret_total :: "'m dstate \<Rightarrow> goerr \<Rightarrow> 'm dstate out" where
  "ret_total s e = Fail (int (d_tot s)) e s"

definition ret_proto :: "'m dstate \<Rightarrow> goerr \<Rightarrow> 'm dstate out" where
  "ret_proto s e = Fail 0 (Code ProtocolError) s"

section \<open>The forms\<close>

definition dec_header :: "gslice \<Rightarrow> 'a header_scheme dstate \<Rightarrow> 'a header_scheme dstate out" where
  "dec_header src s =
     (case header_decode src (d_msg s) of
        Go (n, m) \<Rightarrow> Go (s\<lparr>d_hn := n, d_tot := n, d_msg := m\<rparr>)
      | Fail n e (t, m) \<Rightarrow> Fail n e (s\<lparr>d_tot := t, d_msg := m\<rparr>)
      | Panic \<Rightarrow> Panic)"

text \<open>\<open>packetId = CopyLen(src[total:total+2], 2); total += 2\<close>\<close>

definition dec_packetId :: "gslice \<Rightarrow> 'a header_scheme dstate \<Rightarrow> 'a header_scheme dstate out" where
  "dec_packetId src s =
     (case sub src (d_tot s) (d_tot s + 2) of
        None \<Rightarrow> Panic
      | Some b \<Rightarrow> Go (s\<lparr>d_tot := d_tot s + 2, d_msg := (d_msg s)\<lparr>packetId := CopyLen b 2\<rparr>\<rparr>))"

text \<open>\<open>x, n, err = readLPBytes(src[total:]); total += n; if err != nil ...\<close>\<close>

definition dec_lp :: "gslice \<Rightarrow> (bytes \<Rightarrow> 'm \<Rightarrow> 'm) \<Rightarrow> ('m dstate \<Rightarrow> goerr \<Rightarrow> 'm dstate out) \<Rightarrow>
    'm dstate \<Rightarrow> 'm dstate out" where
  "dec_lp src upd onerr s =
     (case reslice src (d_tot s) of
        None \<Rightarrow> Panic
      | Some sl \<Rightarrow> (case readLPBytes sl of
          None \<Rightarrow> Panic
        | Some (v, n, err) \<Rightarrow>
            let s' = s\<lparr>d_tot := d_tot s + n, d_msg := upd v (d_msg s)\<rparr> in
            (case err of None \<Rightarrow> Go s' | Some e \<Rightarrow> onerr s' e)))"

text \<open>\<open>x, n, err = lbDecode(src[total:])\<close>\<close>

definition dec_lb :: "gslice \<Rightarrow> (uint32 \<Rightarrow> 'm \<Rightarrow> 'm) \<Rightarrow> ('m dstate \<Rightarrow> goerr \<Rightarrow> 'm dstate out) \<Rightarrow>
    'm dstate \<Rightarrow> 'm dstate out" where
  "dec_lb src upd onerr s =
     (case reslice src (d_tot s) of
        None \<Rightarrow> Panic
      | Some sl \<Rightarrow> (case lbDecode (vis sl) of
          None \<Rightarrow> Panic
        | Some (v, n, err) \<Rightarrow>
            let s' = s\<lparr>d_tot := d_tot s + n, d_msg := upd v (d_msg s)\<rparr> in
            (case err of None \<Rightarrow> Go s' | Some e \<Rightarrow> onerr s' e)))"

text \<open>\<open>x = src[total]; total++\<close> and the fixed-width integers\<close>

definition dec_byte :: "gslice \<Rightarrow> (byte \<Rightarrow> 'm \<Rightarrow> 'm) \<Rightarrow> 'm dstate \<Rightarrow> 'm dstate out" where
  "dec_byte src upd s =
     (case at src (d_tot s) of
        None \<Rightarrow> Panic
      | Some b \<Rightarrow> Go (s\<lparr>d_tot := Suc (d_tot s), d_msg := upd b (d_msg s)\<rparr>))"

definition dec_u16 :: "gslice \<Rightarrow> (uint16 \<Rightarrow> 'm \<Rightarrow> 'm) \<Rightarrow> 'm dstate \<Rightarrow> 'm dstate out" where
  "dec_u16 src upd s =
     (case reslice src (d_tot s) of
        None \<Rightarrow> Panic
      | Some sl \<Rightarrow> (case get16 (vis sl) of
          None \<Rightarrow> Panic
        | Some v \<Rightarrow> Go (s\<lparr>d_tot := d_tot s + 2, d_msg := upd v (d_msg s)\<rparr>)))"

definition dec_u32 :: "gslice \<Rightarrow> (uint32 \<Rightarrow> 'm \<Rightarrow> 'm) \<Rightarrow> 'm dstate \<Rightarrow> 'm dstate out" where
  "dec_u32 src upd s =
     (case reslice src (d_tot s) of
        None \<Rightarrow> Panic
      | Some sl \<Rightarrow> (case get32 (vis sl) of
          None \<Rightarrow> Panic
        | Some v \<Rightarrow> Go (s\<lparr>d_tot := d_tot s + 4, d_msg := upd v (d_msg s)\<rparr>)))"

text \<open>\<open>x, n, err = decodeUserProperty(src[total:]); total += n\<close>\<close>

definition dec_userProperty :: "gslice \<Rightarrow> (bytes list \<Rightarrow> 'm \<Rightarrow> 'm) \<Rightarrow> 'm dstate \<Rightarrow> 'm dstate out" where
  "dec_userProperty src upd s =
     (case reslice src (d_tot s) of
        None \<Rightarrow> Panic
      | Some sl \<Rightarrow> (case decodeUserProperty sl of
          None \<Rightarrow> Panic
        | Some (v, n, err) \<Rightarrow>
            let s' = s\<lparr>d_tot := d_tot s + n, d_msg := upd v (d_msg s)\<rparr> in
            (case err of None \<Rightarrow> Go s' | Some e \<Rightarrow> ret_total s' e)))"

text \<open>\<open>if total < len(src) && src[total] == code { total++; ... }\<close>\<close>

definition dec_when :: "gslice \<Rightarrow> byte \<Rightarrow> ('m dstate \<Rightarrow> 'm dstate out) list \<Rightarrow> 'm dstate \<Rightarrow> 'm dstate out" where
  "dec_when src code body s =
     (if at src (d_tot s) = Some code then steps body (s\<lparr>d_tot := Suc (d_tot s)\<rparr>) else Go s)"

text \<open>\<open>if bad || (total < len(src) && src[total] == code) { return 0, ProtocolError }\<close>\<close>

definition dec_nodup :: "gslice \<Rightarrow> byte \<Rightarrow> ('m \<Rightarrow> bool) \<Rightarrow> 'm dstate \<Rightarrow> 'm dstate out" where
  "dec_nodup src code bad s =
     (if bad (d_msg s) \<or> at src (d_tot s) = Some code then Fail 0 (Code ProtocolError) s else Go s)"

section \<open>Step lemmas\<close>

text \<open>The next byte, if there is one, is not the given identifier.\<close>

definition starts_not :: "bytes \<Rightarrow> byte \<Rightarrow> bool" where
  "starts_not r c \<longleftrightarrow> r = [] \<or> hd r \<noteq> c"

lemma starts_not_simps [simp]:
  "starts_not [] c"
  "starts_not (b # r) c \<longleftrightarrow> b \<noteq> c"
  by (simp_all add: starts_not_def)

lemma starts_not_if [simp]:
  "starts_not ((if p then xs else ys) @ r) c
     \<longleftrightarrow> (if p then starts_not (xs @ r) c else starts_not (ys @ r) c)"
  by simp

lemma starts_not_up_bytes [simp]:
  "starts_not (up_bytes ups @ r) c \<longleftrightarrow> (if ups = [] then starts_not r c else c \<noteq> UserProperty)"
  by (cases ups rule: up_bytes.cases) auto

lemma left_starts_not:
  "left src t r \<Longrightarrow> starts_not r c \<Longrightarrow> at src t \<noteq> Some c"
  using left_at left_at_Nil by (cases r) fastforce+

lemma dec_header_rt:
  assumes v: "vis src = b # varint n @ rest" and n: "n < 2 ^ 28" "n = length rest"
    and f: "flags_ok b" and t: "mtype_of (drop_bit 4 b) = Type m0" and z: "n \<noteq> 0 \<or> exempt (Type m0)"
  shows "dec_header src (dstart m0) = Go \<lparr>d_hn = Suc (length (varint n)), d_tot = Suc (length (varint n)),
      d_msg = m0\<lparr>dbuf := vis src, mtf := b, remlen := word_of_nat n\<rparr>\<rparr>"
    and "left src (Suc (length (varint n))) rest"
proof -
  define rl where "rl = (word_of_nat n :: uint32)"
  have u: "unat rl = n"
    using n(1) by (simp only: rl_def unat_len32)
  have "header_decode src m0 = Go (1 + length (varint (unat rl)), m0\<lparr>dbuf := vis src, mtf := b, remlen := rl\<rparr>)"
  proof (rule header_decode_rt [where rest = rest])
    show "rl \<le> maxRemainingLength"
      using n(1) by (simp only: unat_le_max u)
    show "rl \<noteq> 0 \<or> exempt (Type m0)"
      using z u by (auto simp flip: unat_eq_zero)
  qed (use v f t u n in simp_all)
  then show "dec_header src (dstart m0) = Go \<lparr>d_hn = Suc (length (varint n)), d_tot = Suc (length (varint n)),
      d_msg = m0\<lparr>dbuf := vis src, mtf := b, remlen := word_of_nat n\<rparr>\<rparr>"
    by (simp add: dec_header_def dstart_def u rl_def [symmetric])
  show "left src (Suc (length (varint n))) rest"
    using v by (simp add: left_def)
qed

lemma dec_packetId_rt [wire_rt]:
  "left src (d_tot s) (p @ r) \<Longrightarrow> length p = 2 \<Longrightarrow>
   dec_packetId src s = Go (s\<lparr>d_tot := d_tot s + 2, d_msg := (d_msg s)\<lparr>packetId := p\<rparr>\<rparr>)"
  using left_sub [of src "d_tot s" p r] by (auto simp: dec_packetId_def CopyLen_def)

lemma dec_lp_rt [wire_rt]:
  "left src (d_tot s) (lp b @ r) \<Longrightarrow> length b \<le> 65535 \<Longrightarrow>
   dec_lp src upd h s = Go (s\<lparr>d_tot := d_tot s + length (lp b), d_msg := upd b (d_msg s)\<rparr>)"
  by (simp add: dec_lp_def left_reslice readLPBytes_lp)

lemma dec_lb_rt [wire_rt]:
  "left src (d_tot s) (varint n @ r) \<Longrightarrow> n < 2 ^ 28 \<Longrightarrow>
   dec_lb src upd h s
     = Go (s\<lparr>d_tot := d_tot s + length (varint n), d_msg := upd (word_of_nat n) (d_msg s)\<rparr>)"
  by (simp add: dec_lb_def left_reslice lbDecode_varint)

lemma dec_byte_rt [wire_rt]:
  "left src (d_tot s) (b # r) \<Longrightarrow>
   dec_byte src upd s = Go (s\<lparr>d_tot := Suc (d_tot s), d_msg := upd b (d_msg s)\<rparr>)"
  by (simp add: dec_byte_def left_at)

lemma dec_u16_rt [wire_rt]:
  "left src (d_tot s) (put16 v @ r) \<Longrightarrow>
   dec_u16 src upd s = Go (s\<lparr>d_tot := d_tot s + 2, d_msg := upd v (d_msg s)\<rparr>)"
  by (simp add: dec_u16_def left_reslice)

lemma dec_u32_rt [wire_rt]:
  "left src (d_tot s) (put32 v @ r) \<Longrightarrow>
   dec_u32 src upd s = Go (s\<lparr>d_tot := d_tot s + 4, d_msg := upd v (d_msg s)\<rparr>)"
  by (simp add: dec_u32_def left_reslice)

lemma dec_userProperty_rt [wire_rt]:
  assumes "left src (d_tot s) (up_bytes ups @ r)" and "strs_ok ups" and "starts_not r UserProperty"
  shows "dec_userProperty src upd s
    = Go (s\<lparr>d_tot := d_tot s + length (up_bytes ups), d_msg := upd (up_pad ups) (d_msg s)\<rparr>)"
proof -
  have "dup_loop (GSlice (up_bytes ups @ r) (spare src)) 0 []
      = Some ([] @ up_pad ups, 0 + length (up_bytes ups), None)"
    using assms(2,3) by (intro dup_loop_rt [where r = r]) (simp_all add: starts_not_def)
  then show ?thesis
    using assms(1) by (simp add: dec_userProperty_def left_reslice decodeUserProperty_def)
qed

lemma dec_when_miss:
  "left src (d_tot s) r \<Longrightarrow> starts_not r c \<Longrightarrow> dec_when src c body s = Go s"
  by (simp add: dec_when_def left_starts_not)

lemma dec_when_hit:
  "left src (d_tot s) (c # r) \<Longrightarrow>
   dec_when src c body s = steps body (s\<lparr>d_tot := Suc (d_tot s)\<rparr>)"
  by (simp add: dec_when_def left_at)

lemma dec_nodup_rt:
  "left src (d_tot s) r \<Longrightarrow> starts_not r c \<Longrightarrow> \<not> bad (d_msg s) \<Longrightarrow> dec_nodup src c bad s = Go s"
  by (simp add: dec_nodup_def left_starts_not)

text \<open>
  A string property: identifier, string, and a test that it is non-empty and not
  repeated. On input with the property or without it, the step reads exactly what the
  encoder writes for the value.
\<close>

definition opt_bytes :: "bool \<Rightarrow> byte \<Rightarrow> bytes \<Rightarrow> bytes" where
  "opt_bytes p c e = (if p then c # e else [])"

lemma starts_not_opt [simp]:
  "starts_not (opt_bytes p c e @ r) c' \<longleftrightarrow> (if p then c \<noteq> c' else starts_not r c')"
  by (simp add: opt_bytes_def)

lemma length_opt_bytes [simp]: "length (opt_bytes p c e) = (if p then Suc (length e) else 0)"
  by (simp add: opt_bytes_def)

lemma dec_opt_rt:
  assumes l: "left src (d_tot s) (opt_bytes p c e @ r)"
    and n: "\<not> p \<Longrightarrow> starts_not r c"
    and keep: "\<not> p \<Longrightarrow> m' = d_msg s"
    and hit: "\<And>s'. p \<Longrightarrow> left src (d_tot s') (e @ r) \<Longrightarrow> d_msg s' = d_msg s \<Longrightarrow>
      steps body s' = Go (s'\<lparr>d_tot := d_tot s' + length e, d_msg := m'\<rparr>)"
  shows "dec_when src c body s
    = Go (s\<lparr>d_tot := d_tot s + length (opt_bytes p c e), d_msg := m'\<rparr>)"
proof (cases p)
  case True
  have l1: "left src (d_tot s) (c # e @ r)"
    using l True by (simp add: opt_bytes_def)
  let ?s = "s\<lparr>d_tot := Suc (d_tot s)\<rparr>"
  have "left src (d_tot ?s) (e @ r)"
    using left_Suc [OF l1] by simp
  then show ?thesis
    using True hit [of ?s] dec_when_hit [OF l1] by simp
next
  case False
  then show ?thesis
    using l n keep by (simp add: opt_bytes_def dec_when_miss)
qed

text \<open>The five kinds of optional property, each guarded and tested for repetition.\<close>

lemma dec_opt_str_rt:
  assumes "left src (d_tot s) (opt_bytes (length b > 0) c (lp b) @ r)" and "length b \<le> 65535"
    and "starts_not r c" and "b \<noteq> [] \<Longrightarrow> \<not> bad (upd b (d_msg s))"
    and "b = [] \<Longrightarrow> upd b (d_msg s) = d_msg s"
  shows "dec_when src c [dec_lp src upd h, dec_nodup src c bad] s
    = Go (s\<lparr>d_tot := d_tot s + length (opt_bytes (length b > 0) c (lp b)), d_msg := upd b (d_msg s)\<rparr>)"
proof (rule dec_opt_rt [OF assms(1)])
  fix s' :: "'a dstate" assume p: "length b > 0" and l: "left src (d_tot s') (lp b @ r)" and m: "d_msg s' = d_msg s"
  have "left src (d_tot s' + length (lp b)) r"
    by (rule left_advance [OF l])
  then show "steps [dec_lp src upd h, dec_nodup src c bad] s'
      = Go (s'\<lparr>d_tot := d_tot s' + length (lp b), d_msg := upd b (d_msg s)\<rparr>)"
    using p m assms(3,4) by (simp add: dec_lp_rt [OF l assms(2)] dec_nodup_rt)
qed (use assms(3,5) in simp_all)

lemma dec_opt_byte_rt:
  assumes "left src (d_tot s) (opt_bytes p c [v] @ r)"
    and "starts_not r c" and "p \<Longrightarrow> \<not> bad (upd v (d_msg s))" and "\<not> p \<Longrightarrow> upd v (d_msg s) = d_msg s"
  shows "dec_when src c [dec_byte src upd, dec_nodup src c bad] s
    = Go (s\<lparr>d_tot := d_tot s + length (opt_bytes p c [v]), d_msg := upd v (d_msg s)\<rparr>)"
proof (rule dec_opt_rt [OF assms(1)])
  fix s' :: "'a dstate" assume p: p and l: "left src (d_tot s') ([v] @ r)" and m: "d_msg s' = d_msg s"
  have l': "left src (d_tot s') (v # r)"
    using l by simp
  then have "left src (Suc (d_tot s')) r"
    by (rule left_Suc)
  then show "steps [dec_byte src upd, dec_nodup src c bad] s'
      = Go (s'\<lparr>d_tot := d_tot s' + length [v], d_msg := upd v (d_msg s)\<rparr>)"
    using p m assms(2,3) by (simp add: dec_byte_rt [OF l'] dec_nodup_rt)
qed (use assms(2,4) in simp_all)

lemma dec_opt_u16_rt:
  assumes "left src (d_tot s) (opt_bytes p c (put16 v) @ r)"
    and "starts_not r c" and "p \<Longrightarrow> \<not> bad (upd v (d_msg s))" and "\<not> p \<Longrightarrow> upd v (d_msg s) = d_msg s"
  shows "dec_when src c [dec_u16 src upd, dec_nodup src c bad] s
    = Go (s\<lparr>d_tot := d_tot s + length (opt_bytes p c (put16 v)), d_msg := upd v (d_msg s)\<rparr>)"
proof (rule dec_opt_rt [OF assms(1)])
  fix s' :: "'a dstate" assume p: p and l: "left src (d_tot s') (put16 v @ r)" and m: "d_msg s' = d_msg s"
  have "left src (d_tot s' + 2) r"
    using left_advance [OF l] by simp
  then show "steps [dec_u16 src upd, dec_nodup src c bad] s'
      = Go (s'\<lparr>d_tot := d_tot s' + length (put16 v), d_msg := upd v (d_msg s)\<rparr>)"
    using p m assms(2,3) by (simp add: dec_u16_rt [OF l] dec_nodup_rt)
qed (use assms(2,4) in simp_all)

lemma dec_opt_u32_rt:
  assumes "left src (d_tot s) (opt_bytes p c (put32 v) @ r)"
    and "starts_not r c" and "p \<Longrightarrow> \<not> bad (upd v (d_msg s))" and "\<not> p \<Longrightarrow> upd v (d_msg s) = d_msg s"
  shows "dec_when src c [dec_u32 src upd, dec_nodup src c bad] s
    = Go (s\<lparr>d_tot := d_tot s + length (opt_bytes p c (put32 v)), d_msg := upd v (d_msg s)\<rparr>)"
proof (rule dec_opt_rt [OF assms(1)])
  fix s' :: "'a dstate" assume p: p and l: "left src (d_tot s') (put32 v @ r)" and m: "d_msg s' = d_msg s"
  have "left src (d_tot s' + 4) r"
    using left_advance [OF l] by simp
  then show "steps [dec_u32 src upd, dec_nodup src c bad] s'
      = Go (s'\<lparr>d_tot := d_tot s' + length (put32 v), d_msg := upd v (d_msg s)\<rparr>)"
    using p m assms(2,3) by (simp add: dec_u32_rt [OF l] dec_nodup_rt)
qed (use assms(2,4) in simp_all)

lemma dec_opt_lb_rt:
  assumes "left src (d_tot s) (opt_bytes p c (varint (unat v)) @ r)" and "p \<Longrightarrow> unat v < 2 ^ 28"
    and "starts_not r c" and "p \<Longrightarrow> \<not> bad (upd v (d_msg s))"
    and "\<not> p \<Longrightarrow> upd v' (d_msg s) = d_msg s" and "p \<Longrightarrow> v' = v"
  shows "dec_when src c [dec_lb src upd h, dec_nodup src c bad] s
    = Go (s\<lparr>d_tot := d_tot s + length (opt_bytes p c (varint (unat v))), d_msg := upd v' (d_msg s)\<rparr>)"
proof (rule dec_opt_rt [OF assms(1)])
  fix s' :: "'a dstate" assume p: p and l: "left src (d_tot s') (varint (unat v) @ r)" and m: "d_msg s' = d_msg s"
  have "left src (d_tot s' + length (varint (unat v))) r"
    by (rule left_advance [OF l])
  then show "steps [dec_lb src upd h, dec_nodup src c bad] s'
      = Go (s'\<lparr>d_tot := d_tot s' + length (varint (unat v)), d_msg := upd v' (d_msg s)\<rparr>)"
    using p m assms(3,4,6) by (simp add: dec_lb_rt [OF l assms(2)] dec_nodup_rt)
qed (use assms(3,5) in simp_all)

section \<open>Reading a sequence of fields\<close>

text \<open>
  \<open>reads src m f x m' r\<close>: with message \<open>m\<close> and the bytes \<open>x\<close> left before \<open>r\<close>, the
  statement \<open>f\<close> consumes exactly \<open>x\<close> and turns the message into \<open>m'\<close>. The rest \<open>r\<close>
  matters because the optional properties look at the next byte.
\<close>

definition reads :: "gslice \<Rightarrow> 'm \<Rightarrow> ('m dstate \<Rightarrow> 'm dstate out) \<Rightarrow> bytes \<Rightarrow> 'm \<Rightarrow> bytes \<Rightarrow> bool" where
  "reads src m f x m' r \<longleftrightarrow>
     (\<forall>s. d_msg s = m \<longrightarrow> left src (d_tot s) (x @ r) \<longrightarrow>
        f s = Go (s\<lparr>d_tot := d_tot s + length x, d_msg := m'\<rparr>))"

lemma readsD:
  "reads src m f x m' r \<Longrightarrow> d_msg s = m \<Longrightarrow> left src (d_tot s) (x @ r) \<Longrightarrow>
   f s = Go (s\<lparr>d_tot := d_tot s + length x, d_msg := m'\<rparr>)"
  by (simp add: reads_def)

lemma reads_Nil: "m = m' \<Longrightarrow> reads src m (steps []) (concat []) m' r"
  by (auto simp: reads_def)

lemma reads_Cons:
  assumes f: "reads src m f x m1 (concat xs @ r)" and fs: "reads src m1 (steps fs) (concat xs) m' r"
  shows "reads src m (steps (f # fs)) (concat (x # xs)) m' r"
  unfolding reads_def
proof (intro allI impI)
  fix s :: "'a dstate"
  assume m: "d_msg s = m" and l: "left src (d_tot s) (concat (x # xs) @ r)"
  have l1: "left src (d_tot s) (x @ (concat xs @ r))"
    using l by simp
  let ?s = "s\<lparr>d_tot := d_tot s + length x, d_msg := m1\<rparr>"
  have "left src (d_tot ?s) (concat xs @ r)"
    using left_advance [OF l1] by simp
  from readsD [OF fs _ this]
  show "steps (f # fs) s
      = Go (s\<lparr>d_tot := d_tot s + length (concat (x # xs)), d_msg := m'\<rparr>)"
    by (simp add: readsD [OF f m l1] add.assoc)
qed

lemma reads_append:
  assumes "reads src m (steps fs) x m1 (y @ r)" and "reads src m1 (steps gs) y m' r"
  shows "reads src m (steps (fs @ gs)) (x @ y) m' r"
  unfolding reads_def
proof (intro allI impI)
  fix s :: "'a dstate"
  assume m: "d_msg s = m" and l: "left src (d_tot s) ((x @ y) @ r)"
  have l1: "left src (d_tot s) (x @ (y @ r))"
    using l by simp
  let ?s = "s\<lparr>d_tot := d_tot s + length x, d_msg := m1\<rparr>"
  have "left src (d_tot ?s) (y @ r)"
    using left_advance [OF l1] by simp
  from readsD [OF assms(2) _ this]
  show "steps (fs @ gs) s = Go (s\<lparr>d_tot := d_tot s + length (x @ y), d_msg := m'\<rparr>)"
    by (simp add: steps_append readsD [OF assms(1) m l1] add.assoc)
qed

lemma reads_packetId: "length p = 2 \<Longrightarrow> reads src m (dec_packetId src) p (m\<lparr>packetId := p\<rparr>) r"
  unfolding reads_def using dec_packetId_rt by fastforce

lemma reads_lp: "length b \<le> 65535 \<Longrightarrow> reads src m (dec_lp src upd h) (lp b) (upd b m) r"
  unfolding reads_def using dec_lp_rt by metis

lemma reads_lb:
  "n < 2 ^ 28 \<Longrightarrow> reads src m (dec_lb src upd h) (varint n) (upd (word_of_nat n) m) r"
  unfolding reads_def using dec_lb_rt by metis

lemma reads_userProperty:
  "strs_ok ups \<Longrightarrow> starts_not r UserProperty \<Longrightarrow>
   reads src m (dec_userProperty src upd) (up_bytes ups) (upd (up_pad ups) m) r"
  unfolding reads_def using dec_userProperty_rt by metis

lemma reads_opt_str:
  assumes "length b \<le> 65535" and "starts_not r c" and "b \<noteq> [] \<Longrightarrow> \<not> bad (upd b m)"
    and "b = [] \<Longrightarrow> upd b m = m"
  shows "reads src m (dec_when src c [dec_lp src upd h, dec_nodup src c bad])
    (opt_bytes (length b > 0) c (lp b)) (upd b m) r"
  unfolding reads_def by (intro allI impI, subst dec_opt_str_rt) (use assms in auto)

lemma reads_opt_byte:
  assumes "starts_not r c" and "p \<Longrightarrow> \<not> bad (upd v m)" and "\<not> p \<Longrightarrow> upd v m = m"
  shows "reads src m (dec_when src c [dec_byte src upd, dec_nodup src c bad])
    (opt_bytes p c [v]) (upd v m) r"
  unfolding reads_def by (intro allI impI, subst dec_opt_byte_rt) (use assms in auto)

lemma reads_opt_u16:
  assumes "starts_not r c" and "p \<Longrightarrow> \<not> bad (upd v m)" and "\<not> p \<Longrightarrow> upd v m = m"
  shows "reads src m (dec_when src c [dec_u16 src upd, dec_nodup src c bad])
    (opt_bytes p c (put16 v)) (upd v m) r"
  unfolding reads_def by (intro allI impI, subst dec_opt_u16_rt) (use assms in auto)

lemma reads_opt_u32:
  assumes "starts_not r c" and "p \<Longrightarrow> \<not> bad (upd v m)" and "\<not> p \<Longrightarrow> upd v m = m"
  shows "reads src m (dec_when src c [dec_u32 src upd, dec_nodup src c bad])
    (opt_bytes p c (put32 v)) (upd v m) r"
  unfolding reads_def by (intro allI impI, subst dec_opt_u32_rt) (use assms in auto)

lemma reads_opt_lb:
  assumes "p \<Longrightarrow> unat v < 2 ^ 28" and "starts_not r c" and "p \<Longrightarrow> \<not> bad (upd v m)"
    and "\<not> p \<Longrightarrow> upd 0 m = m"
  shows "reads src m (dec_when src c [dec_lb src upd h, dec_nodup src c bad])
    (opt_bytes p c (varint (unat v))) (upd (if p then v else 0) m) r"
  unfolding reads_def by (intro allI impI, subst dec_opt_lb_rt) (use assms in auto)

lemma reads_skip:
  assumes "\<And>s. d_msg s = m \<Longrightarrow> f s = Go s"
  shows "reads src m f [] m r"
  using assms by (auto simp: reads_def)

lemmas reads_intros =
  reads_Cons reads_lp reads_lb reads_userProperty reads_opt_str reads_opt_byte reads_opt_u16
  reads_opt_u32 reads_opt_lb

end
