(* ===== verification/Encode.thy ===== *)
theory Encode
  imports Decode
begin

text \<open>
  The statement forms of the encoders of broker/core/message, in two versions: those of
  \<open>EncodeToBuf\<close>, which append to a \<open>bytes.Buffer\<close>, and those of \<open>Encode\<close>, which write at
  the running \<open>total\<close> of a destination slice. Both carry the process-wide packet
  identifier counter \<open>gPacketId\<close>. A simulation between the two versions shows that an
  \<open>Encode\<close> into a slice with room enough writes the bytes that \<open>EncodeToBuf\<close> appends.
\<close>

section \<open>Appending to a buffer\<close>

record 'm bstate =
  b_buf :: bytes
  b_msg :: 'm
  b_gpid :: uint64

text \<open>\<open>return dst.Len(), err\<close>\<close>

definition ret_len :: "'m bstate \<Rightarrow> goerr \<Rightarrow> 'm bstate out" where
  "ret_len s e = Fail (int (length (b_buf s))) e s"

definition buf_header :: "'a header_scheme bstate \<Rightarrow> 'a header_scheme bstate out" where
  "buf_header s =
     (case header_encodeToBuf (b_buf s) (b_msg s) of
        (d, None) \<Rightarrow> Go (s\<lparr>b_buf := d\<rparr>)
      | (d, Some e) \<Rightarrow> ret_len (s\<lparr>b_buf := d\<rparr>) e)"

definition buf_write :: "('m \<Rightarrow> bytes) \<Rightarrow> 'm bstate \<Rightarrow> 'm bstate out" where
  "buf_write f s = Go (s\<lparr>b_buf := b_buf s @ f (b_msg s)\<rparr>)"

definition buf_lp :: "('m \<Rightarrow> bytes) \<Rightarrow> 'm bstate \<Rightarrow> 'm bstate out" where
  "buf_lp f s =
     (case writeToBufLPBytes (b_buf s) (f (b_msg s)) of
        (d, None) \<Rightarrow> Go (s\<lparr>b_buf := d\<rparr>)
      | (d, Some e) \<Rightarrow> ret_len (s\<lparr>b_buf := d\<rparr>) e)"

definition buf_lb :: "('m \<Rightarrow> uint32) \<Rightarrow> 'm bstate \<Rightarrow> 'm bstate out" where
  "buf_lb f s =
     (case lbEncode (f (b_msg s)) of
        None \<Rightarrow> Panic
      | Some b \<Rightarrow> Go (s\<lparr>b_buf := b_buf s @ b\<rparr>))"

definition buf_userProperty :: "('m \<Rightarrow> bytes list) \<Rightarrow> 'm bstate \<Rightarrow> 'm bstate out" where
  "buf_userProperty f s =
     (case writeUserPropertyByBuf (b_buf s) (f (b_msg s)) of
        (d, None) \<Rightarrow> Go (s\<lparr>b_buf := d\<rparr>)
      | (d, Some e) \<Rightarrow> ret_len (s\<lparr>b_buf := d\<rparr>) e)"

definition buf_when :: "('m \<Rightarrow> bool) \<Rightarrow> ('m bstate \<Rightarrow> 'm bstate out) list \<Rightarrow> 'm bstate \<Rightarrow> 'm bstate out" where
  "buf_when p body s = (if p (b_msg s) then steps body s else Go s)"

text \<open>
  A packet identifier of 0 is replaced by the low 16 bits of the incremented counter;
  \<open>SetPacketId\<close> ignores a zero.
\<close>

definition next_packetId :: "uint64 \<times> 'a header_scheme \<Rightarrow> uint64 \<times> 'a header_scheme" where
  "next_packetId gm =
     (let (g, m) = gm in
      if PacketId m = 0 then (g + 1, SetPacketId (ucast ((g + 1) AND 0xffff)) m) else (g, m))"

definition buf_packetId :: "'a header_scheme bstate \<Rightarrow> 'a header_scheme bstate out" where
  "buf_packetId s =
     (let (g, m) = next_packetId (b_gpid s, b_msg s) in
      Go (s\<lparr>b_gpid := g, b_msg := m, b_buf := b_buf s @ packetId m\<rparr>))"

section \<open>Writing into a slice\<close>

record 'm estate =
  e_dst :: bytes
  e_tot :: nat
  e_msg :: 'm
  e_gpid :: uint64

definition ret_etot :: "'m estate \<Rightarrow> goerr \<Rightarrow> 'm estate out" where
  "ret_etot s e = Fail (int (e_tot s)) e s"

definition enc_header :: "'a header_scheme estate \<Rightarrow> 'a header_scheme estate out" where
  "enc_header s =
     (case header_encode (e_dst s) (e_tot s) (e_msg s) of
        None \<Rightarrow> Panic
      | Some (d, n, None) \<Rightarrow> Go (s\<lparr>e_dst := d, e_tot := e_tot s + n\<rparr>)
      | Some (d, n, Some e) \<Rightarrow> ret_etot (s\<lparr>e_dst := d, e_tot := e_tot s + n\<rparr>) e)"

text \<open>\<open>dst[total] = b; total++\<close>\<close>

definition enc_byte :: "('m \<Rightarrow> byte) \<Rightarrow> 'm estate \<Rightarrow> 'm estate out" where
  "enc_byte f s =
     (if e_tot s < length (e_dst s)
      then Go (s\<lparr>e_dst := (e_dst s)[e_tot s := f (e_msg s)], e_tot := Suc (e_tot s)\<rparr>)
      else Panic)"

text \<open>\<open>copy(dst[total:], x); total += len(x)\<close>\<close>

definition enc_copy :: "('m \<Rightarrow> bytes) \<Rightarrow> 'm estate \<Rightarrow> 'm estate out" where
  "enc_copy f s =
     (let x = f (e_msg s) in
      if e_tot s \<le> length (e_dst s)
      then Go (s\<lparr>e_dst := blit (e_dst s) (e_tot s) x, e_tot := e_tot s + length x\<rparr>)
      else Panic)"

text \<open>\<open>binary.BigEndian.PutUint16/32(dst[total:], v)\<close> index their slice.\<close>

definition enc_put :: "('m \<Rightarrow> bytes) \<Rightarrow> 'm estate \<Rightarrow> 'm estate out" where
  "enc_put f s =
     (let x = f (e_msg s) in
      if e_tot s + length x \<le> length (e_dst s)
      then Go (s\<lparr>e_dst := blit (e_dst s) (e_tot s) x, e_tot := e_tot s + length x\<rparr>)
      else Panic)"

definition enc_lp :: "('m \<Rightarrow> bytes) \<Rightarrow> 'm estate \<Rightarrow> 'm estate out" where
  "enc_lp f s =
     (case writeLPBytes (e_dst s) (e_tot s) (f (e_msg s)) of
        None \<Rightarrow> Panic
      | Some (d, n, None) \<Rightarrow> Go (s\<lparr>e_dst := d, e_tot := e_tot s + n\<rparr>)
      | Some (d, n, Some e) \<Rightarrow> ret_etot (s\<lparr>e_dst := d, e_tot := e_tot s + n\<rparr>) e)"

definition enc_lb :: "('m \<Rightarrow> uint32) \<Rightarrow> 'm estate \<Rightarrow> 'm estate out" where
  "enc_lb f s =
     (case lbEncode (f (e_msg s)) of
        None \<Rightarrow> Panic
      | Some b \<Rightarrow> enc_copy (\<lambda>_. b) s)"

definition enc_when :: "('m \<Rightarrow> bool) \<Rightarrow> ('m estate \<Rightarrow> 'm estate out) list \<Rightarrow> 'm estate \<Rightarrow> 'm estate out" where
  "enc_when p body s = (if p (e_msg s) then steps body s else Go s)"

text \<open>\<open>n = copy(dst[total:], packetId); total += n\<close>\<close>

definition enc_packetId :: "'a header_scheme estate \<Rightarrow> 'a header_scheme estate out" where
  "enc_packetId s =
     (let (g, m) = next_packetId (e_gpid s, e_msg s) in
      if e_tot s \<le> length (e_dst s)
      then Go (s\<lparr>e_gpid := g, e_msg := m, e_dst := blit (e_dst s) (e_tot s) (packetId m),
             e_tot := e_tot s + min (length (packetId m)) (length (e_dst s) - e_tot s)\<rparr>)
      else Panic)"

text \<open>
  \<open>writeUserProperty(dst[total:], ups)\<close>: the slice, the count and the error. The zero
  pairs are stored by index; \<open>Encode\<close> drops the error.
\<close>

definition writeUserStr :: "bytes \<Rightarrow> nat \<Rightarrow> bytes \<Rightarrow> (bytes \<times> nat \<times> goerr option) option" where
  "writeUserStr dst t k =
     (if length k = 0 then
        (if t + 1 < length dst then Some (dst[t := 0, t + 1 := 0], 2, None) else None)
      else writeLPBytes dst t k)"

fun writeUserProperty :: "bytes \<Rightarrow> nat \<Rightarrow> bytes list \<Rightarrow> (bytes \<times> nat \<times> goerr option) option" where
  "writeUserProperty dst t [] = Some (dst, t, None)"
| "writeUserProperty dst t (k # ups) =
     (if t < length dst then
        (case writeUserStr (dst[t := UserProperty]) (Suc t) k of
           None \<Rightarrow> None
         | Some (d1, n1, Some e) \<Rightarrow> Some (d1, Suc t + n1, Some e)
         | Some (d1, n1, None) \<Rightarrow>
             (case ups of
                [] \<Rightarrow> (if Suc t + n1 + 1 < length d1
                       then Some (d1[Suc t + n1 := 0, Suc t + n1 + 1 := 0], Suc t + n1 + 2, None) else None)
              | v # ups' \<Rightarrow>
                  (case writeUserStr d1 (Suc t + n1) v of
                     None \<Rightarrow> None
                   | Some (d2, n2, Some e) \<Rightarrow> Some (d2, Suc t + n1 + n2, Some e)
                   | Some (d2, n2, None) \<Rightarrow> writeUserProperty d2 (Suc t + n1 + n2) ups')))
      else None)"

definition enc_userProperty :: "('m \<Rightarrow> bytes list) \<Rightarrow> 'm estate \<Rightarrow> 'm estate out" where
  "enc_userProperty f s =
     (if e_tot s > length (e_dst s) then Panic
      else case writeUserProperty (e_dst s) (e_tot s) (f (e_msg s)) of
        None \<Rightarrow> Panic
      | Some (d, t, _) \<Rightarrow> Go (s\<lparr>e_dst := d, e_tot := t\<rparr>))"

section \<open>Computation rules of the appending forms\<close>

lemma buf_header_ok [wire_simps]:
  "remlen (b_msg s) \<le> maxRemainingLength \<Longrightarrow> mtype_Valid (Type (b_msg s)) \<Longrightarrow>
   buf_header s = Go (s\<lparr>b_buf := b_buf s @ mtf (b_msg s) # varint (unat (remlen (b_msg s)))\<rparr>)"
  by (simp add: buf_header_def header_encodeToBuf_ok)

lemma buf_lp_ok [wire_simps]:
  "length (f (b_msg s)) \<le> 65535 \<Longrightarrow> buf_lp f s = Go (s\<lparr>b_buf := b_buf s @ lp (f (b_msg s))\<rparr>)"
  by (simp add: buf_lp_def writeToBufLPBytes_ok)

lemma buf_lb_ok [wire_simps]:
  "unat (f (b_msg s)) < 2 ^ 28 \<Longrightarrow>
   buf_lb f s = Go (s\<lparr>b_buf := b_buf s @ varint (unat (f (b_msg s)))\<rparr>)"
  by (simp add: buf_lb_def lbEncode_varint)

lemma buf_userProperty_ok [wire_simps]:
  "strs_ok (f (b_msg s)) \<Longrightarrow>
   buf_userProperty f s = Go (s\<lparr>b_buf := b_buf s @ up_bytes (f (b_msg s))\<rparr>)"
  by (simp add: buf_userProperty_def writeUserPropertyByBuf_ok)

lemma buf_packetId_ok [wire_simps]:
  "PacketId (b_msg s) \<noteq> 0 \<Longrightarrow> buf_packetId s = Go (s\<lparr>b_buf := b_buf s @ packetId (b_msg s)\<rparr>)"
  by (simp add: buf_packetId_def next_packetId_def)

text \<open>
  \<open>appends m f x\<close>: on every state with message \<open>m\<close> the statement \<open>f\<close> appends the
  bytes \<open>x\<close> and changes nothing else. A list of such statements appends the
  concatenation.
\<close>

definition appends :: "'m \<Rightarrow> ('m bstate \<Rightarrow> 'm bstate out) \<Rightarrow> bytes \<Rightarrow> bool" where
  "appends m f x \<longleftrightarrow> (\<forall>s. b_msg s = m \<longrightarrow> f s = Go (s\<lparr>b_buf := b_buf s @ x\<rparr>))"

lemma appends_header:
  "remlen m \<le> maxRemainingLength \<Longrightarrow> mtype_Valid (Type m) \<Longrightarrow>
   appends m buf_header (mtf m # varint (unat (remlen m)))"
  by (auto simp: appends_def buf_header_ok)

lemma appends_lp: "length (f m) \<le> 65535 \<Longrightarrow> appends m (buf_lp f) (lp (f m))"
  by (auto simp: appends_def buf_lp_ok)

lemma appends_write: "appends m (buf_write f) (f m)"
  by (auto simp: appends_def buf_write_def)

lemma appends_lb: "unat (f m) < 2 ^ 28 \<Longrightarrow> appends m (buf_lb f) (varint (unat (f m)))"
  by (auto simp: appends_def buf_lb_ok)

lemma appends_userProperty: "strs_ok (f m) \<Longrightarrow> appends m (buf_userProperty f) (up_bytes (f m))"
  by (auto simp: appends_def buf_userProperty_ok)

lemma appends_packetId: "PacketId m \<noteq> 0 \<Longrightarrow> appends m buf_packetId (packetId m)"
  by (auto simp: appends_def buf_packetId_ok)

lemma appends_when_one:
  "(p m \<Longrightarrow> appends m f x) \<Longrightarrow> appends m (buf_when p [f]) (if p m then x else [])"
  by (auto simp: appends_def buf_when_def)

lemma appends_opt:
  "(p m \<Longrightarrow> appends m f x) \<Longrightarrow>
   appends m (buf_when p [buf_write (\<lambda>_. [c]), f]) (opt_bytes (p m) c x)"
  by (auto simp: appends_def buf_when_def buf_write_def opt_bytes_def)

lemma steps_appends:
  "list_all2 (appends m) fs xs \<Longrightarrow> b_msg s = m \<Longrightarrow>
   steps fs s = Go (s\<lparr>b_buf := b_buf s @ concat xs\<rparr>)"
proof (induction fs xs arbitrary: s rule: list_all2_induct)
  case (Cons f fs x xs)
  then have "f s = Go (s\<lparr>b_buf := b_buf s @ x\<rparr>)"
    by (simp add: appends_def)
  then show ?case
    using Cons.IH [of "s\<lparr>b_buf := b_buf s @ x\<rparr>"] Cons.prems by simp
qed simp

lemmas appends_intros =
  appends_header appends_lp appends_write appends_lb appends_userProperty appends_packetId
  appends_when_one appends_opt

end
