(* ===== verification/EncodeSlice.thy ===== *)
theory EncodeSlice
  imports Encode
begin

text \<open>
  What the slice versions of the encoder statements write. Each form writes, at the
  running total of a slice with room enough, the bytes that its counterpart appends to a
  buffer; a list of forms writes the concatenation.
\<close>

section \<open>Copying into a slice\<close>

lemma length_blit [simp]: "t + length x \<le> length d \<Longrightarrow> length (blit d t x) = length d"
  by (simp add: blit_def)

lemma blit_Nil [simp]: "t \<le> length d \<Longrightarrow> blit d t [] = d"
  by (simp add: blit_def)

lemma blit_fits: "t + length x \<le> length d \<Longrightarrow> blit d t x = take t d @ x @ drop (t + length x) d"
  by (simp add: blit_def)

lemma blit_blit:
  assumes "t + length x + length y \<le> length d"
  shows "blit (blit d t x) (t + length x) y = blit d t (x @ y)"
proof -
  have "blit d t x = (take t d @ x) @ drop (t + length x) d"
    using assms by (simp add: blit_fits)
  moreover have "length (take t d @ x) = t + length x"
    using assms by simp
  ultimately have "blit (blit d t x) (t + length x) y
      = (take t d @ x) @ y @ drop (length y) (drop (t + length x) d)"
    using assms by (simp add: blit_fits)
  then show ?thesis
    using assms by (simp add: blit_fits add.commute add.left_commute)
qed

lemma list_update_blit: "t < length d \<Longrightarrow> d[t := b] = blit d t [b]"
  by (simp add: blit_fits upd_conv_take_nth_drop)

lemma list_update2_blit:
  assumes "t + 1 < length d"
  shows "d[t := a, t + 1 := b] = blit d t [a, b]"
  using assms blit_blit [of t "[a]" "[b]" d] by (simp add: list_update_blit)

section \<open>The forms\<close>

definition writes :: "nat \<Rightarrow> 'm \<Rightarrow> ('m estate \<Rightarrow> 'm estate out) \<Rightarrow> bytes \<Rightarrow> bool" where
  "writes N m f x \<longleftrightarrow> (\<forall>e. e_msg e = m \<longrightarrow> length (e_dst e) = N \<longrightarrow> e_tot e + length x \<le> N \<longrightarrow>
     f e = Go (e\<lparr>e_dst := blit (e_dst e) (e_tot e) x, e_tot := e_tot e + length x\<rparr>))"

lemma writes_byte: "writes N m (enc_byte f) [f m]"
  by (auto simp: writes_def enc_byte_def list_update_blit)

lemma writes_copy: "writes N m (enc_copy f) (f m)"
  by (auto simp: writes_def enc_copy_def Let_def)

lemma writes_put: "writes N m (enc_put f) (f m)"
  by (auto simp: writes_def enc_put_def Let_def)

lemma writes_lb: "unat (f m) < 2 ^ 28 \<Longrightarrow> writes N m (enc_lb f) (varint (unat (f m)))"
  by (auto simp: writes_def enc_lb_def lbEncode_varint enc_copy_def Let_def)

lemma writeLPBytes_ok:
  assumes "length b \<le> 65535" and "t + 2 + length b \<le> length dst"
  shows "writeLPBytes dst t b = Some (blit dst t (lp b), 2 + length b, None)"
  using assms blit_blit [of t "put16 (word_of_nat (length b))" b dst]
  by (simp add: writeLPBytes_def Let_def lp_def)

lemma writes_lp: "length (f m) \<le> 65535 \<Longrightarrow> writes N m (enc_lp f) (lp (f m))"
  by (auto simp: writes_def enc_lp_def writeLPBytes_ok)

lemma writes_packetId: "PacketId m \<noteq> 0 \<Longrightarrow> writes N m enc_packetId (packetId m)"
  by (auto simp: writes_def enc_packetId_def next_packetId_def min_absorb1)

lemma writes_header:
  assumes "remlen m \<le> maxRemainingLength" and "mtype_Valid (Type m)"
  shows "writes N m enc_header (mtf m # varint (unat (remlen m)))"
  unfolding writes_def
proof (intro allI impI)
  fix e :: "'a header_scheme estate"
  let ?v = "varint (unat (remlen m))"
  assume m: "e_msg e = m" and n: "length (e_dst e) = N" and r: "e_tot e + length (mtf m # ?v) \<le> N"
  have b: "blit (blit (e_dst e) (e_tot e) [mtf m]) (Suc (e_tot e)) ?v = blit (e_dst e) (e_tot e) (mtf m # ?v)"
    using blit_blit [of "e_tot e" "[mtf m]" ?v "e_dst e"] r n by simp
  have lim: "\<not> maxRemainingLength < remlen m" "\<not> N - e_tot e < header_msglen m"
    using assms(1) r length_varint_remlen [OF assms(1)] by (simp_all add: not_less)
  show "enc_header e = Go (e\<lparr>e_dst := blit (e_dst e) (e_tot e) (mtf m # ?v),
      e_tot := e_tot e + length (mtf m # ?v)\<rparr>)"
    using assms(2) lim r n b
    by (simp add: enc_header_def header_encode_def m Let_def PutUvarint_varint ucast_remlen)
qed

lemma writeUserStr_ok:
  assumes "length k \<le> 65535" and "t + 2 + length k \<le> length d"
  shows "writeUserStr d t k = Some (blit d t (lp k), 2 + length k, None)"
proof (cases "length k = 0")
  case True
  then have "d[t := 0, t + 1 := 0] = blit d t (lp k)"
    using assms(2) by (subst list_update2_blit) (simp_all add: lp_Nil)
  then show ?thesis
    using True assms by (simp add: writeUserStr_def)
next
  case False
  then show ?thesis
    using assms by (simp add: writeLPBytes_ok writeUserStr_def)
qed

lemma writeUserProperty_ok:
  "strs_ok ups \<Longrightarrow> t + length (up_bytes ups) \<le> length dst \<Longrightarrow>
   writeUserProperty dst t ups = Some (blit dst t (up_bytes ups), t + length (up_bytes ups), None)"
proof (induction ups arbitrary: dst t rule: up_bytes.induct)
  case 1
  then show ?case by simp
next
  case (2 k)
  let ?d1 = "blit dst t (UserProperty # lp k)"
  let ?t1 = "Suc t + (2 + length k)"
  have k: "length k \<le> 65535" and room: "?t1 + 2 \<le> length dst"
    using 2 by (simp_all add: strs_ok_def)
  have 1: "blit (blit dst t [UserProperty]) (Suc t) (lp k) = ?d1"
    using blit_blit [of t "[UserProperty]" "lp k" dst] room by simp
  have 2: "?d1[?t1 := 0, ?t1 + 1 := 0] = blit ?d1 ?t1 [0, 0]"
    by (rule list_update2_blit) (use room in simp)
  have 3: "blit ?d1 ?t1 [0, 0] = blit dst t (up_bytes [k])"
    using blit_blit [of t "UserProperty # lp k" "[0, 0]" dst] room by (simp add: lp_Nil)
  have u: "writeUserStr (blit dst t [UserProperty]) (Suc t) k = Some (?d1, 2 + length k, None)"
    using writeUserStr_ok [OF k, of "Suc t" "blit dst t [UserProperty]"] room 1 by simp
  show ?case
    using room 2 3 u by (simp add: list_update_blit)
next
  case (3 k v ups)
  let ?d1 = "blit dst t (UserProperty # lp k)"
  let ?t1 = "Suc t + (2 + length k)"
  let ?d2 = "blit dst t (UserProperty # lp k @ lp v)"
  let ?t2 = "?t1 + (2 + length v)"
  have k: "length k \<le> 65535" "length v \<le> 65535" "strs_ok ups"
    and room: "?t2 + length (up_bytes ups) \<le> length dst"
    using 3 by (simp_all add: strs_ok_def)
  have 1: "blit (blit dst t [UserProperty]) (Suc t) (lp k) = ?d1"
    using blit_blit [of t "[UserProperty]" "lp k" dst] room by simp
  have 2: "blit ?d1 ?t1 (lp v) = ?d2"
    using blit_blit [of t "UserProperty # lp k" "lp v" dst] room by simp
  have 4: "blit ?d2 ?t2 (up_bytes ups) = blit dst t (up_bytes (k # v # ups))"
    using blit_blit [of t "UserProperty # lp k @ lp v" "up_bytes ups" dst] room by (simp add: add.assoc)
  have u: "writeUserStr (blit dst t [UserProperty]) (Suc t) k = Some (?d1, 2 + length k, None)"
    using writeUserStr_ok [OF k(1), of "Suc t" "blit dst t [UserProperty]"] room 1 by simp
  have w: "writeUserStr ?d1 ?t1 v = Some (?d2, 2 + length v, None)"
    using writeUserStr_ok [OF k(2), of ?t1 ?d1] room 2 by simp
  have "writeUserProperty ?d2 ?t2 ups = Some (blit ?d2 ?t2 (up_bytes ups), ?t2 + length (up_bytes ups), None)"
    by (rule "3.IH" [OF k(3)]) (use room in simp)
  then show ?case
    using room u w 4 by (simp add: list_update_blit)
qed

lemma writes_userProperty: "strs_ok (f m) \<Longrightarrow> writes N m (enc_userProperty f) (up_bytes (f m))"
  by (auto simp: writes_def enc_userProperty_def writeUserProperty_ok simp del: length_up_bytes)

lemma writes_when_one:
  "(p m \<Longrightarrow> writes N m f x) \<Longrightarrow> writes N m (enc_when p [f]) (if p m then x else [])"
  by (auto simp: writes_def enc_when_def)

lemma steps_writes:
  "list_all2 (writes N m) fs xs \<Longrightarrow> e_msg e = m \<Longrightarrow> length (e_dst e) = N \<Longrightarrow>
   e_tot e + length (concat xs) \<le> N \<Longrightarrow>
   steps fs e = Go (e\<lparr>e_dst := blit (e_dst e) (e_tot e) (concat xs), e_tot := e_tot e + length (concat xs)\<rparr>)"
proof (induction fs xs arbitrary: e rule: list_all2_induct)
  case (Cons f fs x xs)
  let ?e1 = "e\<lparr>e_dst := blit (e_dst e) (e_tot e) x, e_tot := e_tot e + length x\<rparr>"
  have "f e = Go ?e1"
    using Cons by (simp add: writes_def)
  then show ?case
    using Cons.IH [of ?e1] Cons.prems blit_blit [of "e_tot e" x "concat xs" "e_dst e"] by (simp add: add.assoc)
qed simp

lemma writes_opt:
  assumes "p m \<Longrightarrow> writes N m f x"
  shows "writes N m (enc_when p [enc_byte (\<lambda>_. c), f]) (opt_bytes (p m) c x)"
  unfolding writes_def
proof (intro allI impI)
  fix e :: "'a estate"
  assume e: "e_msg e = m" "length (e_dst e) = N" "e_tot e + length (opt_bytes (p m) c x) \<le> N"
  show "enc_when p [enc_byte (\<lambda>_. c), f] e = Go (e\<lparr>e_dst := blit (e_dst e) (e_tot e) (opt_bytes (p m) c x),
      e_tot := e_tot e + length (opt_bytes (p m) c x)\<rparr>)"
  proof (cases "p m")
    case True
    have "list_all2 (writes N m) [enc_byte (\<lambda>_. c), f] [[c], x]"
      using assms [OF True] writes_byte [of N m "\<lambda>_. c"] by simp
    from steps_writes [OF this e(1,2)] True e show ?thesis
      by (simp add: enc_when_def opt_bytes_def del: steps.simps)
  next
    case False
    then show ?thesis
      using e by (simp add: enc_when_def opt_bytes_def)
  qed
qed

lemmas writes_intros =
  writes_header writes_lp writes_copy writes_lb writes_userProperty writes_packetId
  writes_when_one writes_opt writes_byte writes_put

end
