(* ===== verification/PropForms.thy ===== *)
theory PropForms
  imports EncodeSlice
begin

text \<open>
  The property identifiers and reason codes of CONNECT, CONNACK, DISCONNECT and AUTH
  (broker/core/message/identifier.go), and the statement forms their decoders add to those
  of PUBLISH: an optional property with an else branch, the test for a repeated property
  that returns the running total, and a guard.
\<close>

abbreviation AssignCustomerIdentifiers :: byte where "AssignCustomerIdentifiers \<equiv> 0x12"
abbreviation ServerSurvivalTime :: byte where "ServerSurvivalTime \<equiv> 0x13"
abbreviation AuthenticationMethod :: byte where "AuthenticationMethod \<equiv> 0x15"
abbreviation AuthenticationData :: byte where "AuthenticationData \<equiv> 0x16"
abbreviation RequestProblemInformation :: byte where "RequestProblemInformation \<equiv> 0x17"
abbreviation DelayWills :: byte where "DelayWills \<equiv> 0x18"
abbreviation RequestResponseInformation :: byte where "RequestResponseInformation \<equiv> 0x19"
abbreviation SolicitedMessage :: byte where "SolicitedMessage \<equiv> 0x1A"
abbreviation MaximumQuantityReceived :: byte where "MaximumQuantityReceived \<equiv> 0x21"
abbreviation MaximumLengthOfTopicAlias :: byte where "MaximumLengthOfTopicAlias \<equiv> 0x22"
abbreviation MaximumQoS :: byte where "MaximumQoS \<equiv> 0x24"
abbreviation PreservePropertyAvailability :: byte where "PreservePropertyAvailability \<equiv> 0x25"
abbreviation MaximumMessageLength :: byte where "MaximumMessageLength \<equiv> 0x27"
abbreviation WildcardSubscriptionAvailability :: byte where "WildcardSubscriptionAvailability \<equiv> 0x28"
abbreviation AvailabilityOfSubscriptionIdentifiers :: byte where "AvailabilityOfSubscriptionIdentifiers \<equiv> 0x29"
abbreviation SharedSubscriptionAvailability :: byte where "SharedSubscriptionAvailability \<equiv> 0x2A"

abbreviation UnSupportedProtocolVersion :: byte where "UnSupportedProtocolVersion \<equiv> 0x84"
abbreviation CustomerIdentifierInvalid :: byte where "CustomerIdentifierInvalid \<equiv> 0x85"

definition ValidConnAckReasonCode :: "byte \<Rightarrow> bool" where
  "ValidConnAckReasonCode c \<longleftrightarrow> c \<in> set [Success, UnspecifiedError, InvalidMessage, ProtocolError, ImplementError,
     UnSupportedProtocolVersion, CustomerIdentifierInvalid, 0x86, UnAuthorized, ServerUnavailable, ServiceBusy,
     0x8A, 0x8C, InvalidTopicName, 0x95, BeyondQuota, InvalidLoadFormat, UnsupportedRetention,
     UnsupportedQoSLevel, 0x9C, 0x9D, 0x9F]"

text \<open>The size of a string property, and the values that are neither 0 nor 1\<close>

definition prop_len :: "bytes \<Rightarrow> nat" where
  "prop_len b = (if length b > 0 then 1 + 2 + length b else 0)"

definition not_flag :: "byte \<Rightarrow> bool" where
  "not_flag b \<longleftrightarrow> b \<noteq> 0 \<and> b \<noteq> 1"

section \<open>Decoder forms\<close>

text \<open>\<open>if total < len(src) && src[total] == code { total++; ... } else { ... }\<close>\<close>

definition dec_if :: "gslice \<Rightarrow> byte \<Rightarrow> ('m dstate \<Rightarrow> 'm dstate out) list \<Rightarrow> ('m dstate \<Rightarrow> 'm dstate out) \<Rightarrow>
    'm dstate \<Rightarrow> 'm dstate out" where
  "dec_if src code body els s =
     (if at src (d_tot s) = Some code then steps body (s\<lparr>d_tot := Suc (d_tot s)\<rparr>) else els s)"

text \<open>\<open>if bad || (total < len(src) && src[total] == code) { return total, ProtocolError }\<close>\<close>

definition dec_unique :: "gslice \<Rightarrow> byte \<Rightarrow> ('m \<Rightarrow> bool) \<Rightarrow> 'm dstate \<Rightarrow> 'm dstate out" where
  "dec_unique src code bad s =
     (if bad (d_msg s) \<or> at src (d_tot s) = Some code then ret_total s (Code ProtocolError) else Go s)"

definition dec_set :: "('m \<Rightarrow> 'm) \<Rightarrow> 'm dstate \<Rightarrow> 'm dstate out" where
  "dec_set f s = Go (s\<lparr>d_msg := f (d_msg s)\<rparr>)"

text \<open>\<open>if bad { return total, err }\<close>\<close>

definition dec_guard :: "('m \<Rightarrow> bool) \<Rightarrow> byte \<Rightarrow> 'm dstate \<Rightarrow> 'm dstate out" where
  "dec_guard bad e s = (if bad (d_msg s) then ret_total s (Code e) else Go s)"

text \<open>\<open>if p { ... }\<close> on a condition on the message\<close>

definition dec_cond :: "('m \<Rightarrow> bool) \<Rightarrow> ('m dstate \<Rightarrow> 'm dstate out) list \<Rightarrow> 'm dstate \<Rightarrow> 'm dstate out" where
  "dec_cond p body s = (if p (d_msg s) then steps body s else Go s)"

section \<open>Reading encoded input\<close>

lemma reads_if:
  assumes "p \<Longrightarrow> reads src m (steps body) e m' r" and "\<not> p \<Longrightarrow> starts_not r c" and "\<not> p \<Longrightarrow> reads src m els [] m' r"
  shows "reads src m (dec_if src c body els) (opt_bytes p c e) m' r"
proof (cases p)
  case True
  show ?thesis
    unfolding reads_def
  proof (intro allI impI)
    fix s :: "'a dstate" assume m: "d_msg s = m" and l: "left src (d_tot s) (opt_bytes p c e @ r)"
    have l1: "left src (d_tot s) (c # e @ r)"
      using l True by (simp add: opt_bytes_def)
    let ?s = "s\<lparr>d_tot := Suc (d_tot s)\<rparr>"
    have l2: "left src (d_tot ?s) (e @ r)"
      using left_Suc [OF l1] by simp
    show "dec_if src c body els s = Go (s\<lparr>d_tot := d_tot s + length (opt_bytes p c e), d_msg := m'\<rparr>)"
      using readsD [OF assms(1) [OF True] _ l2] m True left_at [OF l1] by (simp add: dec_if_def)
  qed
next
  case False
  then show ?thesis
    using assms(2,3) left_starts_not by (fastforce simp: reads_def dec_if_def opt_bytes_def)
qed

lemma dec_when_if: "dec_when src c body = dec_if src c body Go"
  by (simp add: dec_when_def dec_if_def fun_eq_iff)

lemma reads_Go: "reads src m Go [] m r"
  by (simp add: reads_def)

lemma reads_when:
  assumes "p \<Longrightarrow> reads src m (steps body) e m' r" and "\<not> p \<Longrightarrow> starts_not r c" and "\<not> p \<Longrightarrow> m' = m"
  shows "reads src m (dec_when src c body) (opt_bytes p c e) m' r"
  unfolding dec_when_if using assms by (intro reads_if) (auto intro: reads_Go)

lemma reads_unique: "starts_not r c \<Longrightarrow> \<not> bad m \<Longrightarrow> reads src m (dec_unique src c bad) [] m r"
  by (auto simp: reads_def dec_unique_def left_starts_not)

lemma reads_nodup: "starts_not r c \<Longrightarrow> \<not> bad m \<Longrightarrow> reads src m (dec_nodup src c bad) [] m r"
  by (auto simp: reads_def dec_nodup_def left_starts_not)

lemma reads_set: "m' = f m \<Longrightarrow> reads src m (dec_set f) [] m' r"
  by (auto simp: reads_def dec_set_def)

lemma reads_guard: "\<not> bad m \<Longrightarrow> reads src m (dec_guard bad e) [] m r"
  by (auto simp: reads_def dec_guard_def)

lemma reads_cond:
  "(p m \<Longrightarrow> reads src m (steps body) x m' r) \<Longrightarrow> (\<not> p m \<Longrightarrow> x = [] \<and> m' = m) \<Longrightarrow>
   reads src m (dec_cond p body) x m' r"
  by (auto simp: reads_def dec_cond_def)

lemma reads_byte: "reads src m (dec_byte src upd) [b] (upd b m) r"
  unfolding reads_def using dec_byte_rt by fastforce

lemma reads_u16: "reads src m (dec_u16 src upd) (put16 v) (upd v m) r"
  unfolding reads_def using dec_u16_rt by fastforce

lemma reads_u32: "reads src m (dec_u32 src upd) (put32 v) (upd v m) r"
  unfolding reads_def using dec_u32_rt by fastforce

text \<open>A field and the test behind it.\<close>

lemma reads_two:
  assumes "reads src m f x m' r" and "reads src m' g [] m' r"
  shows "reads src m (steps [f, g]) x m' r"
  using reads_Cons [of src m f x m' "[[]]" r "[g]" m'] reads_Cons [of src m' g "[]" m' "[]" r "[]" m']
    reads_Nil [of m' m' src r] assms by simp

lemma reads_opt_unique:
  assumes "p \<Longrightarrow> reads src m f e m' r" and "starts_not r c" and "p \<Longrightarrow> \<not> bad m'" and "\<not> p \<Longrightarrow> m' = m"
  shows "reads src m (dec_when src c [f, dec_unique src c bad]) (opt_bytes p c e) m' r"
  using assms by (intro reads_when reads_two reads_unique) auto

lemma reads_opt_unique_else:
  assumes "p \<Longrightarrow> reads src m f e m' r" and "starts_not r c" and "p \<Longrightarrow> \<not> bad m'"
    and "\<not> p \<Longrightarrow> reads src m els [] m' r"
  shows "reads src m (dec_if src c [f, dec_unique src c bad] els) (opt_bytes p c e) m' r"
  using assms by (intro reads_if reads_two reads_unique) auto

lemma reads_opt_nodup:
  assumes "p \<Longrightarrow> reads src m f e m' r" and "starts_not r c" and "p \<Longrightarrow> \<not> bad m'" and "\<not> p \<Longrightarrow> m' = m"
  shows "reads src m (dec_when src c [f, dec_nodup src c bad]) (opt_bytes p c e) m' r"
  using assms by (intro reads_when reads_two reads_nodup) auto

lemma reads_opt_nodup_else:
  assumes "p \<Longrightarrow> reads src m f e m' r" and "starts_not r c" and "p \<Longrightarrow> \<not> bad m'"
    and "\<not> p \<Longrightarrow> reads src m els [] m' r"
  shows "reads src m (dec_if src c [f, dec_nodup src c bad] els) (opt_bytes p c e) m' r"
  using assms by (intro reads_if reads_two reads_nodup) auto

lemma starts_not_hd: "xs \<noteq> [] \<Longrightarrow> starts_not (xs @ r) c \<longleftrightarrow> hd xs \<noteq> c"
  by (cases xs) simp_all

lemma starts_not_opt_end [simp]: "starts_not (opt_bytes p c e) c' \<longleftrightarrow> (p \<longrightarrow> c \<noteq> c')"
  by (simp add: opt_bytes_def)

lemma lp_nonempty [simp]: "lp b \<noteq> []"
  by (simp add: lp_def put16_def)

lemma starts_not_lp [simp]: "starts_not (lp b @ r) c \<longleftrightarrow> hd (lp b) \<noteq> c"
  by (simp add: starts_not_hd)

lemma hd_lp_short: "length b < 256 \<Longrightarrow> hd (lp b) = 0"
proof -
  assume b: "length b < 256"
  then have "unat (word_of_nat (length b) :: uint16) = length b"
    by (simp add: unat_of_nat)
  then have "(word_of_nat (length b) :: uint16) div 256 = 0"
    using b by (simp add: unat_eq_0 [symmetric] unat_div)
  then have "drop_bit 8 (word_of_nat (length b) :: uint16) = 0"
    by (simp add: drop_bit_eq_div)
  then show ?thesis
    by (simp add: lp_def put16_def)
qed

section \<open>Guarded blocks of the encoders\<close>

lemma appends_when:
  "(p m \<Longrightarrow> list_all2 (appends m) fs xs) \<Longrightarrow> appends m (buf_when p fs) (if p m then concat xs else [])"
  by (auto simp: appends_def buf_when_def intro: steps_appends)

lemma writes_when:
  assumes "p m \<Longrightarrow> list_all2 (writes N m) fs xs"
  shows "writes N m (enc_when p fs) (if p m then concat xs else [])"
  unfolding writes_def
proof (intro allI impI)
  fix e :: "'a estate"
  assume e: "e_msg e = m" "length (e_dst e) = N" "e_tot e + length (if p m then concat xs else []) \<le> N"
  show "enc_when p fs e = Go (e\<lparr>e_dst := blit (e_dst e) (e_tot e) (if p m then concat xs else []),
      e_tot := e_tot e + length (if p m then concat xs else [])\<rparr>)"
    using steps_writes [OF assms e(1,2)] e by (cases "p m") (simp_all add: enc_when_def)
qed

end
