(* ===== verification/Connect.thy ===== *)
theory Connect
  imports PropForms
begin

text \<open>
  The CONNECT packet, broker/core/message/connect.go: the record, the connect flags with
  their setters, \<open>build\<close>, \<open>Len\<close>, \<open>Encode\<close>, \<open>EncodeToBuf\<close> and \<open>Decode\<close>. \<open>Decode\<close> hands
  \<open>src[total:]\<close> to \<open>decodeMessage\<close>, which counts from 0; here the running total counts
  from the start of the packet throughout, so \<open>return total + n, err\<close> is \<open>ret_total\<close>.
\<close>

record connect = header +
  connectFlags :: byte
  version :: byte
  keepAlive :: uint16
  protoName :: bytes
  clientId :: bytes
  willTopic :: bytes
  willMessage :: bytes
  username :: bytes
  password :: bytes
  propertiesLen :: uint32
  sessionExpiryInterval :: uint32
  receiveMaximum :: uint16
  maxPacketSize :: uint32
  topicAliasMax :: uint16
  requestRespInfo :: byte
  requestProblemInfo :: byte
  userProperty :: "bytes list"
  authMethod :: bytes
  authData :: bytes
  willPropertiesLen :: uint32
  willDelayInterval :: uint32
  payloadFormatIndicator :: byte
  willMsgExpiryInterval :: uint32
  contentType :: bytes
  willUserProperty :: "bytes list"
  responseTopic :: bytes
  correlationData :: bytes

definition SupportedVersions :: "byte \<Rightarrow> bytes option" where
  "SupportedVersions v = (if v = 0x5 then Some [0x4D, 0x51, 0x54, 0x54] else None)"

definition defaultCId :: bytes where "defaultCId = [0x23]"

section \<open>Setters\<close>

definition SetPropertiesLen :: "uint32 \<Rightarrow> connect \<Rightarrow> connect" where
  "SetPropertiesLen v m = m\<lparr>propertiesLen := v, dirty := True\<rparr>"
definition SetSessionExpiryInterval :: "uint32 \<Rightarrow> connect \<Rightarrow> connect" where
  "SetSessionExpiryInterval v m = m\<lparr>sessionExpiryInterval := v, dirty := True\<rparr>"
definition SetReceiveMaximum :: "uint16 \<Rightarrow> connect \<Rightarrow> connect" where
  "SetReceiveMaximum v m = m\<lparr>receiveMaximum := v, dirty := True\<rparr>"
definition SetMaxPacketSize :: "uint32 \<Rightarrow> connect \<Rightarrow> connect" where
  "SetMaxPacketSize v m = m\<lparr>maxPacketSize := v, dirty := True\<rparr>"
definition SetTopicAliasMax :: "uint16 \<Rightarrow> connect \<Rightarrow> connect" where
  "SetTopicAliasMax v m = m\<lparr>topicAliasMax := v, dirty := True\<rparr>"
definition SetRequestRespInfo :: "byte \<Rightarrow> connect \<Rightarrow> connect" where
  "SetRequestRespInfo v m = m\<lparr>requestRespInfo := v, dirty := True\<rparr>"
definition SetRequestProblemInfo :: "byte \<Rightarrow> connect \<Rightarrow> connect" where
  "SetRequestProblemInfo v m = m\<lparr>requestProblemInfo := v, dirty := True\<rparr>"
definition AddUserPropertys :: "bytes list \<Rightarrow> connect \<Rightarrow> connect" where
  "AddUserPropertys v m = m\<lparr>userProperty := userProperty m @ v, dirty := True\<rparr>"
definition AddUserProperty :: "bytes \<Rightarrow> connect \<Rightarrow> connect" where
  "AddUserProperty v m = m\<lparr>userProperty := userProperty m @ [v], dirty := True\<rparr>"
definition AddWillUserPropertys :: "bytes list \<Rightarrow> connect \<Rightarrow> connect" where
  "AddWillUserPropertys v m = m\<lparr>willUserProperty := willUserProperty m @ v, dirty := True\<rparr>"
definition AddWillUserProperty :: "bytes \<Rightarrow> connect \<Rightarrow> connect" where
  "AddWillUserProperty v m = m\<lparr>willUserProperty := willUserProperty m @ [v], dirty := True\<rparr>"
definition SetAuthMethod :: "bytes \<Rightarrow> connect \<Rightarrow> connect" where
  "SetAuthMethod v m = m\<lparr>authMethod := v, dirty := True\<rparr>"
definition SetAuthData :: "bytes \<Rightarrow> connect \<Rightarrow> connect" where
  "SetAuthData v m = m\<lparr>authData := v, dirty := True\<rparr>"
definition SetWillPropertiesLen :: "uint32 \<Rightarrow> connect \<Rightarrow> connect" where
  "SetWillPropertiesLen v m = m\<lparr>willPropertiesLen := v, dirty := True\<rparr>"
definition SetWillDelayInterval :: "uint32 \<Rightarrow> connect \<Rightarrow> connect" where
  "SetWillDelayInterval v m = m\<lparr>willDelayInterval := v, dirty := True\<rparr>"
definition SetPayloadFormatIndicator :: "byte \<Rightarrow> connect \<Rightarrow> connect" where
  "SetPayloadFormatIndicator v m = m\<lparr>payloadFormatIndicator := v, dirty := True\<rparr>"
definition SetWillMsgExpiryInterval :: "uint32 \<Rightarrow> connect \<Rightarrow> connect" where
  "SetWillMsgExpiryInterval v m = m\<lparr>willMsgExpiryInterval := v, dirty := True\<rparr>"
definition SetContentType :: "bytes \<Rightarrow> connect \<Rightarrow> connect" where
  "SetContentType v m = m\<lparr>contentType := v, dirty := True\<rparr>"
definition SetResponseTopic :: "bytes \<Rightarrow> connect \<Rightarrow> connect" where
  "SetResponseTopic v m = m\<lparr>responseTopic := v, dirty := True\<rparr>"
definition SetCorrelationData :: "bytes \<Rightarrow> connect \<Rightarrow> connect" where
  "SetCorrelationData v m = m\<lparr>correlationData := v, dirty := True\<rparr>"
definition SetKeepAlive :: "uint16 \<Rightarrow> connect \<Rightarrow> connect" where
  "SetKeepAlive v m = m\<lparr>keepAlive := v, dirty := True\<rparr>"

definition SetVersion :: "byte \<Rightarrow> connect \<Rightarrow> connect \<times> goerr option" where
  "SetVersion v m =
     (case SupportedVersions v of
        None \<Rightarrow> (m, Some (Errorf ''connect/SetVersion: Invalid version number''))
      | Some pn \<Rightarrow> (m\<lparr>protoName := pn, version := v, dirty := True\<rparr>, None))"

definition NewConnectMessage :: connect where
  "NewConnectMessage = SetMaxPacketSize 1024 (SetRequestProblemInfo 1 (header.extend (new_header CONNECT)
     \<lparr>connectFlags = 0, version = 0, keepAlive = 0, protoName = [], clientId = [], willTopic = [],
      willMessage = [], username = [], password = [], propertiesLen = 0, sessionExpiryInterval = 0,
      receiveMaximum = 0, maxPacketSize = 0, topicAliasMax = 0, requestRespInfo = 0,
      requestProblemInfo = 0, userProperty = [], authMethod = [], authData = [],
      willPropertiesLen = 0, willDelayInterval = 0, payloadFormatIndicator = 0,
      willMsgExpiryInterval = 0, contentType = [], willUserProperty = [], responseTopic = [],
      correlationData = []\<rparr>))"

section \<open>Connect flags\<close>

definition CleanSession :: "connect \<Rightarrow> bool" where
  "CleanSession m \<longleftrightarrow> drop_bit 1 (connectFlags m) AND 0x1 = 1"
definition CleanStart :: "connect \<Rightarrow> bool" where
  "CleanStart m \<longleftrightarrow> drop_bit 1 (connectFlags m) AND 0x1 = 1"
definition SetCleanSession :: "bool \<Rightarrow> connect \<Rightarrow> connect" where
  "SetCleanSession v m = m\<lparr>connectFlags := (if v then connectFlags m OR 0x2 else connectFlags m AND 253), dirty := True\<rparr>"

definition WillFlag :: "connect \<Rightarrow> bool" where
  "WillFlag m \<longleftrightarrow> drop_bit 2 (connectFlags m) AND 0x1 = 1"
definition SetWillFlag :: "bool \<Rightarrow> connect \<Rightarrow> connect" where
  "SetWillFlag v m = m\<lparr>connectFlags := (if v then connectFlags m OR 0x4 else connectFlags m AND 251), dirty := True\<rparr>"

definition WillQos :: "connect \<Rightarrow> byte" where
  "WillQos m = drop_bit 3 (connectFlags m) AND 0x3"
definition SetWillQos :: "byte \<Rightarrow> connect \<Rightarrow> connect \<times> goerr option" where
  "SetWillQos q m =
     (if q \<noteq> QosAtMostOnce \<and> q \<noteq> QosAtLeastOnce \<and> q \<noteq> QosExactlyOnce
      then (m, Some (Errorf ''connect/SetWillQos: Invalid QoS level''))
      else (m\<lparr>connectFlags := (connectFlags m AND 231) OR push_bit 3 q, dirty := True\<rparr>, None))"

definition WillRetain :: "connect \<Rightarrow> bool" where
  "WillRetain m \<longleftrightarrow> drop_bit 5 (connectFlags m) AND 0x1 = 1"
definition SetWillRetain :: "bool \<Rightarrow> connect \<Rightarrow> connect" where
  "SetWillRetain v m = m\<lparr>connectFlags := (if v then connectFlags m OR 32 else connectFlags m AND 223), dirty := True\<rparr>"

definition UsernameFlag :: "connect \<Rightarrow> bool" where
  "UsernameFlag m \<longleftrightarrow> drop_bit 7 (connectFlags m) AND 0x1 = 1"
definition SetUsernameFlag :: "bool \<Rightarrow> connect \<Rightarrow> connect" where
  "SetUsernameFlag v m = m\<lparr>connectFlags := (if v then connectFlags m OR 128 else connectFlags m AND 127), dirty := True\<rparr>"

definition PasswordFlag :: "connect \<Rightarrow> bool" where
  "PasswordFlag m \<longleftrightarrow> drop_bit 6 (connectFlags m) AND 0x1 = 1"
definition SetPasswordFlag :: "bool \<Rightarrow> connect \<Rightarrow> connect" where
  "SetPasswordFlag v m = m\<lparr>connectFlags := (if v then connectFlags m OR 64 else connectFlags m AND 191), dirty := True\<rparr>"

definition SetWillTopic :: "bytes \<Rightarrow> connect \<Rightarrow> connect" where
  "SetWillTopic v m =
     (let m1 = m\<lparr>willTopic := v\<rparr>;
          m2 = (if length v > 0 then SetWillFlag True m1
                else if length (willMessage m1) = 0 then SetWillFlag False m1 else m1) in
      m2\<lparr>dirty := True\<rparr>)"

definition SetWillMessage :: "bytes \<Rightarrow> connect \<Rightarrow> connect" where
  "SetWillMessage v m =
     (let m1 = m\<lparr>willMessage := v\<rparr>;
          m2 = (if length v > 0 then SetWillFlag True m1
                else if length (willTopic m1) = 0 then SetWillFlag False m1
                else if length v = 0 then SetWillFlag False m1 else m1) in
      m2\<lparr>dirty := True\<rparr>)"

definition SetUsername :: "bytes \<Rightarrow> connect \<Rightarrow> connect" where
  "SetUsername v m =
     (let m1 = m\<lparr>username := v\<rparr>;
          m2 = (if length v > 0 then SetUsernameFlag True m1 else SetUsernameFlag False m1) in
      m2\<lparr>dirty := True\<rparr>)"

definition SetPassword :: "bytes \<Rightarrow> connect \<Rightarrow> connect" where
  "SetPassword v m =
     (let m1 = m\<lparr>password := v\<rparr>;
          m2 = (if length v > 0 then SetPasswordFlag True m1 else SetPasswordFlag False m1) in
      m2\<lparr>dirty := True\<rparr>)"

text \<open>The regular expression \<open>^[/\-0-9a-zA-Z _]*$\<close> on the bytes of the identifier.\<close>

definition cid_char :: "byte \<Rightarrow> bool" where
  "cid_char b \<longleftrightarrow> b = 0x2F \<or> b = 0x2D \<or> 0x30 \<le> b \<and> b \<le> 0x39 \<or> 0x61 \<le> b \<and> b \<le> 0x7A
     \<or> 0x41 \<le> b \<and> b \<le> 0x5A \<or> b = 0x20 \<or> b = 0x5F"

definition validClientId :: "bytes \<Rightarrow> bool" where
  "validClientId cid \<longleftrightarrow> list_all cid_char cid"

definition SetClientId :: "bytes \<Rightarrow> connect \<Rightarrow> connect \<times> goerr option" where
  "SetClientId v m =
     (if length v > 0 \<and> \<not> validClientId v then (m, Some (Code InvalidTopicName))
      else (m\<lparr>clientId := v, dirty := True\<rparr>, None))"

section \<open>Length\<close>

text \<open>
  \<open>build\<close>: the user properties of the will are added to the property length after it has
  been stored, and not to the length of the will properties. None is a panic of \<open>lbEncode\<close>.
\<close>

definition connect_build :: "connect \<Rightarrow> connect option" where
  "connect_build m =
     (let rlen = 1 + 1 + 2 + 2 + length (protoName m) + 2 + length (clientId m)
            + (if WillFlag m \<and> length (willTopic m) > 0 then 2 + length (willTopic m) else 0)
            + (if WillFlag m \<and> length (willMessage m) > 0 then 2 + length (willMessage m) else 0)
            + (if UsernameFlag m then 2 + length (username m) else 0)
            + (if PasswordFlag m then 2 + length (password m) else 0);
          plen = (if sessionExpiryInterval m > 0 then 5 else 0)
            + (if receiveMaximum m > 0 \<and> receiveMaximum m < 65535 then 3 else 0)
            + (if maxPacketSize m > 0 then 5 else 0)
            + (if topicAliasMax m > 0 then 3 else 0)
            + (if requestRespInfo m \<noteq> 0 then 2 else 0)
            + (if requestProblemInfo m \<noteq> 1 then 2 else 0)
            + buildUserPropertyLen (userProperty m)
            + prop_len (authMethod m) + prop_len (authData m);
          m1 = m\<lparr>propertiesLen := word_of_nat plen\<rparr>;
          wlen = (if willDelayInterval m > 0 then 5 else 0)
            + (if payloadFormatIndicator m = 1 then 2 else 0)
            + (if willMsgExpiryInterval m > 0 then 5 else 0)
            + prop_len (contentType m);
          plen2 = plen + buildUserPropertyLen (willUserProperty m);
          wlen2 = wlen + prop_len (responseTopic m) + prop_len (correlationData m);
          m2 = m1\<lparr>willPropertiesLen := word_of_nat wlen2\<rparr> in
      case lbEncode (propertiesLen m2) of
        None \<Rightarrow> None
      | Some b \<Rightarrow>
          let rl = word_of_nat (rlen + plen2 + length b) in
          if WillFlag m2 then
            (case lbEncode (willPropertiesLen m2) of
               None \<Rightarrow> None
             | Some wb \<Rightarrow> Some (fst (SetRemainingLength (rl + word_of_nat (wlen2 + length wb)) m2)))
          else Some (fst (SetRemainingLength rl m2)))"

definition connect_Len :: "connect \<Rightarrow> (nat \<times> connect) option" where
  "connect_Len m =
     (if \<not> dirty m then Some (length (dbuf m), m)
      else case connect_build m of
        None \<Rightarrow> None
      | Some m1 \<Rightarrow>
          (case SetRemainingLength (remlen m1) m1 of
             (m2, Some e) \<Rightarrow> Some (0, m2)
           | (m2, None) \<Rightarrow> Some (header_msglen m2 + unat (remlen m1), m2)))"

section \<open>Encoding\<close>

text \<open>\<open>SupportedVersions[version]\<close>, the empty string for an unknown version\<close>

definition proto :: "connect \<Rightarrow> bytes" where
  "proto m = (case SupportedVersions (version m) of None \<Rightarrow> [] | Some pn \<Rightarrow> pn)"

definition recv_max_written :: "connect \<Rightarrow> bool" where
  "recv_max_written m \<longleftrightarrow> receiveMaximum m > 0 \<and> receiveMaximum m < 65535"

definition connect_buf_steps :: "(connect bstate \<Rightarrow> connect bstate out) list" where
  "connect_buf_steps =
     [buf_header,
      buf_lp proto,
      buf_write (\<lambda>m. [version m]),
      buf_write (\<lambda>m. [connectFlags m]),
      buf_write (\<lambda>m. put16 (keepAlive m)),
      buf_lb propertiesLen,
      buf_when (\<lambda>m. sessionExpiryInterval m > 0)
        [buf_write (\<lambda>_. [SessionExpirationInterval]), buf_write (\<lambda>m. put32 (sessionExpiryInterval m))],
      buf_when recv_max_written
        [buf_write (\<lambda>_. [MaximumQuantityReceived]), buf_write (\<lambda>m. put16 (receiveMaximum m))],
      buf_write (\<lambda>_. [MaximumMessageLength]),
      buf_write (\<lambda>m. put32 (maxPacketSize m)),
      buf_when (\<lambda>m. topicAliasMax m > 0)
        [buf_write (\<lambda>_. [MaximumLengthOfTopicAlias]), buf_write (\<lambda>m. put16 (topicAliasMax m))],
      buf_when (\<lambda>m. requestRespInfo m \<noteq> 0)
        [buf_write (\<lambda>_. [RequestResponseInformation]), buf_write (\<lambda>m. [requestRespInfo m])],
      buf_when (\<lambda>m. requestProblemInfo m \<noteq> 1)
        [buf_write (\<lambda>_. [RequestProblemInformation]), buf_write (\<lambda>m. [requestProblemInfo m])],
      buf_userProperty userProperty,
      buf_when (\<lambda>m. length (authMethod m) > 0)
        [buf_write (\<lambda>_. [AuthenticationMethod]), buf_lp authMethod],
      buf_when (\<lambda>m. length (authData m) > 0)
        [buf_write (\<lambda>_. [AuthenticationData]), buf_lp authData],
      buf_lp clientId,
      buf_when WillFlag
        [buf_lb willPropertiesLen,
         buf_when (\<lambda>m. willDelayInterval m > 0)
           [buf_write (\<lambda>_. [DelayWills]), buf_write (\<lambda>m. put32 (willDelayInterval m))],
         buf_when (\<lambda>m. payloadFormatIndicator m > 0)
           [buf_write (\<lambda>_. [LoadFormatDescription]), buf_write (\<lambda>m. [payloadFormatIndicator m])],
         buf_when (\<lambda>m. willMsgExpiryInterval m > 0)
           [buf_write (\<lambda>_. [MessageExpirationTime]), buf_write (\<lambda>m. put32 (willMsgExpiryInterval m))],
         buf_when (\<lambda>m. length (contentType m) > 0)
           [buf_write (\<lambda>_. [ContentType]), buf_lp contentType],
         buf_when (\<lambda>m. length (responseTopic m) > 0)
           [buf_write (\<lambda>_. [ResponseTopic]), buf_lp responseTopic],
         buf_when (\<lambda>m. length (correlationData m) > 0)
           [buf_write (\<lambda>_. [RelatedData]), buf_lp correlationData],
         buf_userProperty willUserProperty,
         buf_lp willTopic,
         buf_lp willMessage],
      buf_when (\<lambda>m. UsernameFlag m \<and> length (username m) > 0) [buf_lp username],
      buf_when (\<lambda>m. PasswordFlag m \<and> length (password m) > 0) [buf_lp password]]"

definition connect_EncodeToBuf :: "connect bstate \<Rightarrow> connect bstate out" where
  "connect_EncodeToBuf s =
     (let m = b_msg s in
      if \<not> dirty m then Go (s\<lparr>b_buf := b_buf s @ dbuf m\<rparr>)
      else if Type m \<noteq> CONNECT then Fail 0 (Errorf ''connect/Encode: Invalid message type.'') s
      else if SupportedVersions (version m) = None then Fail 0 (Code UnSupportedProtocolVersion) s
      else case connect_build m of
        None \<Rightarrow> Panic
      | Some m1 \<Rightarrow>
          (case SetRemainingLength (remlen m1) m1 of
             (m2, Some e) \<Rightarrow> Fail 0 e (s\<lparr>b_msg := m2\<rparr>)
           | (m2, None) \<Rightarrow> steps connect_buf_steps (s\<lparr>b_msg := m2\<rparr>)))"

definition connect_enc_steps :: "(connect estate \<Rightarrow> connect estate out) list" where
  "connect_enc_steps =
     [enc_header,
      enc_lp proto,
      enc_byte version,
      enc_byte connectFlags,
      enc_put (\<lambda>m. put16 (keepAlive m)),
      enc_lb propertiesLen,
      enc_when (\<lambda>m. sessionExpiryInterval m > 0)
        [enc_byte (\<lambda>_. SessionExpirationInterval), enc_put (\<lambda>m. put32 (sessionExpiryInterval m))],
      enc_when recv_max_written
        [enc_byte (\<lambda>_. MaximumQuantityReceived), enc_put (\<lambda>m. put16 (receiveMaximum m))],
      enc_byte (\<lambda>_. MaximumMessageLength),
      enc_put (\<lambda>m. put32 (maxPacketSize m)),
      enc_when (\<lambda>m. topicAliasMax m > 0)
        [enc_byte (\<lambda>_. MaximumLengthOfTopicAlias), enc_put (\<lambda>m. put16 (topicAliasMax m))],
      enc_when (\<lambda>m. requestRespInfo m \<noteq> 0)
        [enc_byte (\<lambda>_. RequestResponseInformation), enc_byte requestRespInfo],
      enc_when (\<lambda>m. requestProblemInfo m \<noteq> 1)
        [enc_byte (\<lambda>_. RequestProblemInformation), enc_byte requestProblemInfo],
      enc_userProperty userProperty,
      enc_when (\<lambda>m. length (authMethod m) > 0)
        [enc_byte (\<lambda>_. AuthenticationMethod), enc_lp authMethod],
      enc_when (\<lambda>m. length (authData m) > 0)
        [enc_byte (\<lambda>_. AuthenticationData), enc_lp authData],
      enc_lp clientId,
      enc_when WillFlag
        [enc_lb willPropertiesLen,
         enc_when (\<lambda>m. willDelayInterval m > 0)
           [enc_byte (\<lambda>_. DelayWills), enc_put (\<lambda>m. put32 (willDelayInterval m))],
         enc_when (\<lambda>m. payloadFormatIndicator m > 0)
           [enc_byte (\<lambda>_. LoadFormatDescription), enc_byte payloadFormatIndicator],
         enc_when (\<lambda>m. willMsgExpiryInterval m > 0)
           [enc_byte (\<lambda>_. MessageExpirationTime), enc_put (\<lambda>m. put32 (willMsgExpiryInterval m))],
         enc_when (\<lambda>m. length (contentType m) > 0)
           [enc_byte (\<lambda>_. ContentType), enc_lp contentType],
         enc_when (\<lambda>m. length (responseTopic m) > 0)
           [enc_byte (\<lambda>_. ResponseTopic), enc_lp responseTopic],
         enc_when (\<lambda>m. length (correlationData m) > 0)
           [enc_byte (\<lambda>_. RelatedData), enc_lp correlationData],
         enc_userProperty willUserProperty,
         enc_lp willTopic,
         enc_lp willMessage],
      enc_when (\<lambda>m. UsernameFlag m \<and> length (username m) > 0) [enc_lp username],
      enc_when (\<lambda>m. PasswordFlag m \<and> length (password m) > 0) [enc_lp password]]"

definition connect_Encode :: "connect estate \<Rightarrow> connect estate out" where
  "connect_Encode s =
     (let m = e_msg s in
      if \<not> dirty m then
        (if length (e_dst s) < length (dbuf m) then
           Fail 0 (Errorf ''connect/Encode: Insufficient buffer size.'') s
         else Go (s\<lparr>e_dst := blit (e_dst s) 0 (dbuf m), e_tot := length (dbuf m)\<rparr>))
      else if Type m \<noteq> CONNECT then Fail 0 (Errorf ''connect/Encode: Invalid message type.'') s
      else if SupportedVersions (version m) = None then Fail 0 (Code UnSupportedProtocolVersion) s
      else case connect_build m of
        None \<Rightarrow> Panic
      | Some m1 \<Rightarrow>
          if length (e_dst s) < header_msglen m1 + unat (remlen m1) then
            Fail 0 (Errorf ''connect/Encode: Insufficient buffer size.'') (s\<lparr>e_msg := m1\<rparr>)
          else (case SetRemainingLength (remlen m1) m1 of
             (m2, Some e) \<Rightarrow> Fail 0 e (s\<lparr>e_msg := m2\<rparr>)
           | (m2, None) \<Rightarrow> steps connect_enc_steps (s\<lparr>e_msg := m2, e_tot := 0\<rparr>)))"

section \<open>Decoding\<close>

text \<open>\<open>if len(src[total:]) < 2 { return 0, InvalidMessage }\<close>, which adds to the header's bytes\<close>

definition connect_dec_keepAlive :: "gslice \<Rightarrow> connect dstate \<Rightarrow> connect dstate out" where
  "connect_dec_keepAlive src s =
     (case reslice src (d_tot s) of
        None \<Rightarrow> Panic
      | Some sl \<Rightarrow>
          if length (vis sl) < 2 then Fail (int (d_hn s)) (Code InvalidMessage) s
          else dec_u16 src (\<lambda>v m. m\<lparr>keepAlive := v\<rparr>) s)"

definition connect_dec_plenCheck :: "gslice \<Rightarrow> connect dstate \<Rightarrow> connect dstate out" where
  "connect_dec_plenCheck src s =
     (case reslice src (d_tot s) of
        None \<Rightarrow> Panic
      | Some sl \<Rightarrow>
          if length (vis sl) < unat (propertiesLen (d_msg s)) then ret_total s (Code InvalidMessage) else Go s)"

definition connect_dec_front :: "gslice \<Rightarrow> (connect dstate \<Rightarrow> connect dstate out) list" where
  "connect_dec_front src =
     [dec_lp src (\<lambda>v m. m\<lparr>protoName := v\<rparr>) ret_total,
      dec_byte src (\<lambda>v m. m\<lparr>version := v\<rparr>),
      dec_guard (\<lambda>m. SupportedVersions (version m) = None) UnSupportedProtocolVersion,
      dec_guard (\<lambda>m. proto m \<noteq> protoName m) ProtocolError,
      dec_byte src (\<lambda>v m. m\<lparr>connectFlags := v\<rparr>),
      dec_guard (\<lambda>m. connectFlags m AND 0x1 \<noteq> 0) InvalidMessage,
      dec_guard (\<lambda>m. WillQos m > QosExactlyOnce) InvalidMessage,
      dec_guard (\<lambda>m. \<not> WillFlag m \<and> (WillRetain m \<or> WillQos m \<noteq> QosAtMostOnce)) InvalidMessage,
      dec_guard (\<lambda>m. UsernameFlag m \<and> \<not> PasswordFlag m) InvalidMessage,
      connect_dec_keepAlive src,
      dec_lb src (\<lambda>v m. m\<lparr>propertiesLen := v\<rparr>) (\<lambda>s e. ret_total s (Code InvalidMessage)),
      connect_dec_plenCheck src]"

definition connect_dec_props :: "gslice \<Rightarrow> (connect dstate \<Rightarrow> connect dstate out) list" where
  "connect_dec_props src =
     [dec_when src SessionExpirationInterval
        [dec_u32 src (\<lambda>v m. m\<lparr>sessionExpiryInterval := v\<rparr>), dec_unique src SessionExpirationInterval (\<lambda>_. False)],
      dec_if src MaximumQuantityReceived
        [dec_u16 src (\<lambda>v m. m\<lparr>receiveMaximum := v\<rparr>),
         dec_unique src MaximumQuantityReceived (\<lambda>m. receiveMaximum m = 0)]
        (dec_set (\<lambda>m. m\<lparr>receiveMaximum := 65535\<rparr>)),
      dec_when src MaximumMessageLength
        [dec_u32 src (\<lambda>v m. m\<lparr>maxPacketSize := v\<rparr>), dec_unique src MaximumMessageLength (\<lambda>m. maxPacketSize m = 0)],
      dec_when src MaximumLengthOfTopicAlias
        [dec_u16 src (\<lambda>v m. m\<lparr>topicAliasMax := v\<rparr>), dec_unique src MaximumLengthOfTopicAlias (\<lambda>_. False)],
      dec_when src RequestResponseInformation
        [dec_byte src (\<lambda>v m. m\<lparr>requestRespInfo := v\<rparr>),
         dec_unique src RequestResponseInformation (\<lambda>m. not_flag (requestRespInfo m))],
      dec_if src RequestProblemInformation
        [dec_byte src (\<lambda>v m. m\<lparr>requestProblemInfo := v\<rparr>),
         dec_unique src RequestProblemInformation (\<lambda>m. not_flag (requestProblemInfo m))]
        (dec_set (\<lambda>m. m\<lparr>requestProblemInfo := 0x01\<rparr>)),
      dec_userProperty src (\<lambda>v m. m\<lparr>userProperty := v\<rparr>),
      dec_when src AuthenticationMethod
        [dec_lp src (\<lambda>v m. m\<lparr>authMethod := v\<rparr>) ret_total, dec_unique src AuthenticationMethod (\<lambda>_. False)],
      dec_if src AuthenticationData
        [dec_lp src (\<lambda>v m. m\<lparr>authData := v\<rparr>) ret_total, dec_unique src AuthenticationData (\<lambda>_. False)]
        (dec_guard (\<lambda>m. length (authMethod m) \<noteq> 0) ProtocolError)]"

definition connect_dec_will :: "gslice \<Rightarrow> (connect dstate \<Rightarrow> connect dstate out) list" where
  "connect_dec_will src =
     [dec_lb src (\<lambda>v m. m\<lparr>willPropertiesLen := v\<rparr>) (\<lambda>s e. ret_total s (Code ProtocolError)),
      dec_when src DelayWills
        [dec_u32 src (\<lambda>v m. m\<lparr>willDelayInterval := v\<rparr>), dec_unique src DelayWills (\<lambda>_. False)],
      dec_when src LoadFormatDescription
        [dec_byte src (\<lambda>v m. m\<lparr>payloadFormatIndicator := v\<rparr>),
         dec_unique src LoadFormatDescription (\<lambda>m. not_flag (payloadFormatIndicator m))],
      dec_when src MessageExpirationTime
        [dec_u32 src (\<lambda>v m. m\<lparr>willMsgExpiryInterval := v\<rparr>), dec_unique src MessageExpirationTime (\<lambda>_. False)],
      dec_when src ContentType
        [dec_lp src (\<lambda>v m. m\<lparr>contentType := v\<rparr>) ret_total, dec_unique src ContentType (\<lambda>_. False)],
      dec_when src ResponseTopic
        [dec_lp src (\<lambda>v m. m\<lparr>responseTopic := v\<rparr>) ret_total, dec_unique src ResponseTopic (\<lambda>_. False)],
      dec_when src RelatedData
        [dec_lp src (\<lambda>v m. m\<lparr>correlationData := v\<rparr>) ret_total, dec_unique src RelatedData (\<lambda>_. False)],
      dec_userProperty src (\<lambda>v m. m\<lparr>willUserProperty := v\<rparr>)]"

text \<open>\<open>if p && len(src[total:]) > 0 { x, n, err = readLPBytes(src[total:]) ... }\<close>\<close>

definition connect_dec_cred :: "gslice \<Rightarrow> (connect \<Rightarrow> bool) \<Rightarrow> (bytes \<Rightarrow> connect \<Rightarrow> connect) \<Rightarrow>
    connect dstate \<Rightarrow> connect dstate out" where
  "connect_dec_cred src p upd s =
     (if \<not> p (d_msg s) then Go s
      else case reslice src (d_tot s) of
        None \<Rightarrow> Panic
      | Some sl \<Rightarrow> if length (vis sl) > 0 then dec_lp src upd ret_total s else Go s)"

definition connect_dec_payload :: "gslice \<Rightarrow> (connect dstate \<Rightarrow> connect dstate out) list" where
  "connect_dec_payload src =
     [dec_lp src (\<lambda>v m. m\<lparr>clientId := v\<rparr>) ret_total,
      dec_guard (\<lambda>m. length (clientId m) = 0 \<and> \<not> CleanSession m) CustomerIdentifierInvalid,
      dec_guard (\<lambda>m. length (clientId m) > 0 \<and> \<not> validClientId (clientId m)) CustomerIdentifierInvalid,
      dec_set (\<lambda>m. if length (clientId m) = 0 then m\<lparr>clientId := defaultCId\<rparr> else m),
      dec_cond WillFlag (connect_dec_will src),
      dec_cond WillFlag
        [dec_lp src (\<lambda>v m. m\<lparr>willTopic := v\<rparr>) ret_total,
         dec_lp src (\<lambda>v m. m\<lparr>willMessage := v\<rparr>) ret_total],
      connect_dec_cred src UsernameFlag (\<lambda>v m. m\<lparr>username := v\<rparr>),
      connect_dec_cred src PasswordFlag (\<lambda>v m. m\<lparr>password := v\<rparr>)]"

definition connect_Decode :: "gslice \<Rightarrow> connect \<Rightarrow> connect dstate out" where
  "connect_Decode src m =
     steps (dec_header src # connect_dec_front src @ connect_dec_props src @ connect_dec_payload src
       @ [dec_set (\<lambda>m. m\<lparr>dirty := False\<rparr>)]) (dstart m)"

end
