(* ===== verification/Connack.thy ===== *)
theory Connack
  imports PropForms
begin

text \<open>
  The CONNACK packet, broker/core/message/connack.go: the record, its setters, \<open>build\<close>,
  \<open>Len\<close>, \<open>Encode\<close>, \<open>EncodeToBuf\<close> and \<open>Decode\<close>.
\<close>

record connack = header +
  sessionPresent :: bool
  reasonCode :: byte
  propertiesLen :: uint32
  sessionExpiryInterval :: uint32
  receiveMaximum :: uint16
  maxQos :: byte
  retainAvailable :: byte
  maxPacketSize :: uint32
  assignedIdentifier :: bytes
  topicAliasMax :: uint16
  reasonStr :: bytes
  userProperties :: "bytes list"
  wildcardSubscriptionAvailable :: byte
  subscriptionIdentifierAvailable :: byte
  sharedSubscriptionAvailable :: byte
  serverKeepAlive :: uint16
  responseInformation :: bytes
  serverReference :: bytes
  authMethod :: bytes
  authData :: bytes

section \<open>Setters\<close>

definition SetPropertiesLen :: "uint32 \<Rightarrow> connack \<Rightarrow> connack" where
  "SetPropertiesLen v m = m\<lparr>propertiesLen := v, dirty := True\<rparr>"
definition SetSessionExpiryInterval :: "uint32 \<Rightarrow> connack \<Rightarrow> connack" where
  "SetSessionExpiryInterval v m = m\<lparr>sessionExpiryInterval := v, dirty := True\<rparr>"
definition SetReceiveMaximum :: "uint16 \<Rightarrow> connack \<Rightarrow> connack" where
  "SetReceiveMaximum v m = m\<lparr>receiveMaximum := v, dirty := True\<rparr>"
definition SetMaxQos :: "byte \<Rightarrow> connack \<Rightarrow> connack" where
  "SetMaxQos v m = m\<lparr>maxQos := v, dirty := True\<rparr>"
definition SetRetainAvailable :: "byte \<Rightarrow> connack \<Rightarrow> connack" where
  "SetRetainAvailable v m = m\<lparr>retainAvailable := v, dirty := True\<rparr>"
definition SetMaxPacketSize :: "uint32 \<Rightarrow> connack \<Rightarrow> connack" where
  "SetMaxPacketSize v m = m\<lparr>maxPacketSize := v, dirty := True\<rparr>"
definition SetAssignedIdentifier :: "bytes \<Rightarrow> connack \<Rightarrow> connack" where
  "SetAssignedIdentifier v m = m\<lparr>assignedIdentifier := v, dirty := True\<rparr>"
definition SetTopicAliasMax :: "uint16 \<Rightarrow> connack \<Rightarrow> connack" where
  "SetTopicAliasMax v m = m\<lparr>topicAliasMax := v, dirty := True\<rparr>"
definition SetReasonStr :: "bytes \<Rightarrow> connack \<Rightarrow> connack" where
  "SetReasonStr v m = m\<lparr>reasonStr := v, dirty := True\<rparr>"
definition SetUserProperties :: "bytes list \<Rightarrow> connack \<Rightarrow> connack" where
  "SetUserProperties v m = m\<lparr>userProperties := v, dirty := True\<rparr>"
definition SetWildcardSubscriptionAvailable :: "byte \<Rightarrow> connack \<Rightarrow> connack" where
  "SetWildcardSubscriptionAvailable v m = m\<lparr>wildcardSubscriptionAvailable := v, dirty := True\<rparr>"
definition SetSubscriptionIdentifierAvailable :: "byte \<Rightarrow> connack \<Rightarrow> connack" where
  "SetSubscriptionIdentifierAvailable v m = m\<lparr>subscriptionIdentifierAvailable := v, dirty := True\<rparr>"
definition SetSharedSubscriptionAvailable :: "byte \<Rightarrow> connack \<Rightarrow> connack" where
  "SetSharedSubscriptionAvailable v m = m\<lparr>sharedSubscriptionAvailable := v, dirty := True\<rparr>"
definition SetServerKeepAlive :: "uint16 \<Rightarrow> connack \<Rightarrow> connack" where
  "SetServerKeepAlive v m = m\<lparr>serverKeepAlive := v, dirty := True\<rparr>"
definition SetResponseInformation :: "bytes \<Rightarrow> connack \<Rightarrow> connack" where
  "SetResponseInformation v m = m\<lparr>responseInformation := v, dirty := True\<rparr>"
definition SetServerReference :: "bytes \<Rightarrow> connack \<Rightarrow> connack" where
  "SetServerReference v m = m\<lparr>serverReference := v, dirty := True\<rparr>"
definition SetAuthMethod :: "bytes \<Rightarrow> connack \<Rightarrow> connack" where
  "SetAuthMethod v m = m\<lparr>authMethod := v, dirty := True\<rparr>"
definition SetAuthData :: "bytes \<Rightarrow> connack \<Rightarrow> connack" where
  "SetAuthData v m = m\<lparr>authData := v, dirty := True\<rparr>"
definition SetSessionPresent :: "bool \<Rightarrow> connack \<Rightarrow> connack" where
  "SetSessionPresent v m = m\<lparr>sessionPresent := v, dirty := True\<rparr>"
definition SetReasonCode :: "byte \<Rightarrow> connack \<Rightarrow> connack" where
  "SetReasonCode v m = m\<lparr>reasonCode := v, dirty := True\<rparr>"
definition AddUserProperties :: "bytes list \<Rightarrow> connack \<Rightarrow> connack" where
  "AddUserProperties v m = m\<lparr>userProperties := userProperties m @ v, dirty := True\<rparr>"
definition AddUserProperty :: "bytes \<Rightarrow> connack \<Rightarrow> connack" where
  "AddUserProperty v m = m\<lparr>userProperties := userProperties m @ [v], dirty := True\<rparr>"

definition NewConnackMessage :: connack where
  "NewConnackMessage = SetMaxPacketSize 1024 (SetRetainAvailable 0x01 (header.extend (new_header CONNACK)
     \<lparr>sessionPresent = False, reasonCode = 0, propertiesLen = 0, sessionExpiryInterval = 0, receiveMaximum = 0,
      maxQos = 0, retainAvailable = 0, maxPacketSize = 0, assignedIdentifier = [], topicAliasMax = 0,
      reasonStr = [], userProperties = [], wildcardSubscriptionAvailable = 0,
      subscriptionIdentifierAvailable = 0, sharedSubscriptionAvailable = 0, serverKeepAlive = 0,
      responseInformation = [], serverReference = [], authMethod = [], authData = []\<rparr>))"

section \<open>Length\<close>

definition recv_max_written :: "connack \<Rightarrow> bool" where
  "recv_max_written m \<longleftrightarrow> receiveMaximum m > 0 \<and> receiveMaximum m < 65535"

text \<open>\<open>build\<close> also replaces a receive maximum that is not written by its default.\<close>

definition connack_build :: "connack \<Rightarrow> connack option" where
  "connack_build m =
     (let m0 = (if recv_max_written m then m else m\<lparr>receiveMaximum := 65535\<rparr>);
          plen = (if sessionExpiryInterval m > 0 then 5 else 0)
            + (if recv_max_written m then 3 else 0)
            + (if maxQos m > 0 then 2 else 0)
            + (if retainAvailable m \<noteq> 1 then 2 else 0)
            + (if maxPacketSize m > 0 then 5 else 0)
            + prop_len (assignedIdentifier m)
            + (if topicAliasMax m > 0 then 3 else 0)
            + prop_len (reasonStr m)
            + buildUserPropertyLen (userProperties m)
            + (if wildcardSubscriptionAvailable m \<noteq> 1 then 2 else 0)
            + (if subscriptionIdentifierAvailable m \<noteq> 1 then 2 else 0)
            + (if sharedSubscriptionAvailable m \<noteq> 1 then 2 else 0)
            + (if serverKeepAlive m > 0 then 3 else 0)
            + prop_len (responseInformation m) + prop_len (serverReference m)
            + prop_len (authMethod m) + prop_len (authData m);
          m1 = m0\<lparr>propertiesLen := word_of_nat plen\<rparr> in
      case lbEncode (propertiesLen m1) of
        None \<Rightarrow> None
      | Some b \<Rightarrow> Some (fst (SetRemainingLength (word_of_nat (1 + 1 + plen + length b)) m1)))"

definition connack_Len :: "connack \<Rightarrow> (nat \<times> connack) option" where
  "connack_Len m =
     (if \<not> dirty m then Some (length (dbuf m), m)
      else case connack_build m of
        None \<Rightarrow> None
      | Some m1 \<Rightarrow>
          (case SetRemainingLength (remlen m1) m1 of
             (m2, Some e) \<Rightarrow> Some (0, m2)
           | (m2, None) \<Rightarrow> Some (header_msglen m2 + unat (remlen m1), m2)))"

section \<open>Encoding\<close>

text \<open>An error of the header encoder returns 0 here.\<close>

definition zero_count :: "('m \<Rightarrow> 'm out) \<Rightarrow> 'm \<Rightarrow> 'm out" where
  "zero_count f s = (case f s of Go t \<Rightarrow> Go t | Fail n e t \<Rightarrow> Fail 0 e t | Panic \<Rightarrow> Panic)"

definition buf_reason :: "connack bstate \<Rightarrow> connack bstate out" where
  "buf_reason s =
     (if reasonCode (b_msg s) > UnsupportedWildcardSubscriptions
      then ret_len s (Errorf ''connack/Encode: Invalid CONNACK return code'')
      else buf_write (\<lambda>m. [reasonCode m]) s)"

text \<open>\<open>if sessionPresent { dst[total] = 1 }; total++\<close>\<close>

definition enc_session :: "connack estate \<Rightarrow> connack estate out" where
  "enc_session s =
     (if sessionPresent (e_msg s) then enc_byte (\<lambda>_. 1) s else Go (s\<lparr>e_tot := Suc (e_tot s)\<rparr>))"

definition enc_reason :: "connack estate \<Rightarrow> connack estate out" where
  "enc_reason s =
     (if reasonCode (e_msg s) > UnsupportedWildcardSubscriptions
      then ret_etot s (Errorf ''connack/Encode: Invalid CONNACK return code'')
      else enc_byte reasonCode s)"

definition connack_buf_steps :: "(connack bstate \<Rightarrow> connack bstate out) list" where
  "connack_buf_steps =
     [zero_count buf_header,
      buf_write (\<lambda>m. if sessionPresent m then [1] else [0]),
      buf_reason,
      buf_lb propertiesLen,
      buf_when (\<lambda>m. sessionExpiryInterval m > 0)
        [buf_write (\<lambda>_. [SessionExpirationInterval]), buf_write (\<lambda>m. put32 (sessionExpiryInterval m))],
      buf_when recv_max_written
        [buf_write (\<lambda>_. [MaximumQuantityReceived]), buf_write (\<lambda>m. put16 (receiveMaximum m))],
      buf_when (\<lambda>m. maxQos m > 0)
        [buf_write (\<lambda>_. [MaximumQoS]), buf_write (\<lambda>m. [maxQos m])],
      buf_when (\<lambda>m. retainAvailable m \<noteq> 1)
        [buf_write (\<lambda>_. [PreservePropertyAvailability]), buf_write (\<lambda>m. [retainAvailable m])],
      buf_when (\<lambda>m. maxPacketSize m \<noteq> 1)
        [buf_write (\<lambda>_. [MaximumMessageLength]), buf_write (\<lambda>m. put32 (maxPacketSize m))],
      buf_when (\<lambda>m. length (assignedIdentifier m) > 0)
        [buf_write (\<lambda>_. [AssignCustomerIdentifiers]), buf_lp assignedIdentifier],
      buf_when (\<lambda>m. topicAliasMax m > 0)
        [buf_write (\<lambda>_. [MaximumLengthOfTopicAlias]), buf_write (\<lambda>m. put16 (topicAliasMax m))],
      buf_when (\<lambda>m. length (reasonStr m) > 0)
        [buf_write (\<lambda>_. [ReasonString]), buf_lp reasonStr],
      buf_userProperty userProperties,
      buf_when (\<lambda>m. wildcardSubscriptionAvailable m \<noteq> 1)
        [buf_write (\<lambda>_. [WildcardSubscriptionAvailability]), buf_write (\<lambda>m. [wildcardSubscriptionAvailable m])],
      buf_when (\<lambda>m. subscriptionIdentifierAvailable m \<noteq> 1)
        [buf_write (\<lambda>_. [AvailabilityOfSubscriptionIdentifiers]), buf_write (\<lambda>m. [subscriptionIdentifierAvailable m])],
      buf_when (\<lambda>m. sharedSubscriptionAvailable m \<noteq> 1)
        [buf_write (\<lambda>_. [SharedSubscriptionAvailability]), buf_write (\<lambda>m. [sharedSubscriptionAvailable m])],
      buf_when (\<lambda>m. serverKeepAlive m > 0)
        [buf_write (\<lambda>_. [ServerSurvivalTime]), buf_write (\<lambda>m. put16 (serverKeepAlive m))],
      buf_when (\<lambda>m. length (responseInformation m) > 0)
        [buf_write (\<lambda>_. [SolicitedMessage]), buf_lp responseInformation],
      buf_when (\<lambda>m. length (serverReference m) > 0)
        [buf_write (\<lambda>_. [ServerReference]), buf_lp serverReference],
      buf_when (\<lambda>m. length (authMethod m) > 0)
        [buf_write (\<lambda>_. [AuthenticationMethod]), buf_lp authMethod],
      buf_when (\<lambda>m. length (authData m) > 0)
        [buf_write (\<lambda>_. [AuthenticationData]), buf_lp authData]]"

definition connack_EncodeToBuf :: "connack bstate \<Rightarrow> connack bstate out" where
  "connack_EncodeToBuf s =
     (let m = b_msg s in
      if \<not> dirty m then Go (s\<lparr>b_buf := b_buf s @ dbuf m\<rparr>)
      else case connack_build m of
        None \<Rightarrow> Panic
      | Some m1 \<Rightarrow>
          (case SetRemainingLength (remlen m1) m1 of
             (m2, Some e) \<Rightarrow> Fail 0 e (s\<lparr>b_msg := m2\<rparr>)
           | (m2, None) \<Rightarrow> steps connack_buf_steps (s\<lparr>b_msg := m2\<rparr>)))"

definition connack_enc_steps :: "(connack estate \<Rightarrow> connack estate out) list" where
  "connack_enc_steps =
     [zero_count enc_header,
      enc_session,
      enc_reason,
      enc_lb propertiesLen,
      enc_when (\<lambda>m. sessionExpiryInterval m > 0)
        [enc_byte (\<lambda>_. SessionExpirationInterval), enc_put (\<lambda>m. put32 (sessionExpiryInterval m))],
      enc_when recv_max_written
        [enc_byte (\<lambda>_. MaximumQuantityReceived), enc_put (\<lambda>m. put16 (receiveMaximum m))],
      enc_when (\<lambda>m. maxQos m > 0)
        [enc_byte (\<lambda>_. MaximumQoS), enc_byte maxQos],
      enc_when (\<lambda>m. retainAvailable m \<noteq> 1)
        [enc_byte (\<lambda>_. PreservePropertyAvailability), enc_byte retainAvailable],
      enc_when (\<lambda>m. maxPacketSize m \<noteq> 1)
        [enc_byte (\<lambda>_. MaximumMessageLength), enc_put (\<lambda>m. put32 (maxPacketSize m))],
      enc_when (\<lambda>m. length (assignedIdentifier m) > 0)
        [enc_byte (\<lambda>_. AssignCustomerIdentifiers), enc_lp assignedIdentifier],
      enc_when (\<lambda>m. topicAliasMax m > 0)
        [enc_byte (\<lambda>_. MaximumLengthOfTopicAlias), enc_put (\<lambda>m. put16 (topicAliasMax m))],
      enc_when (\<lambda>m. length (reasonStr m) > 0)
        [enc_byte (\<lambda>_. ReasonString), enc_lp reasonStr],
      enc_userProperty userProperties,
      enc_when (\<lambda>m. wildcardSubscriptionAvailable m \<noteq> 1)
        [enc_byte (\<lambda>_. WildcardSubscriptionAvailability), enc_byte wildcardSubscriptionAvailable],
      enc_when (\<lambda>m. subscriptionIdentifierAvailable m \<noteq> 1)
        [enc_byte (\<lambda>_. AvailabilityOfSubscriptionIdentifiers), enc_byte subscriptionIdentifierAvailable],
      enc_when (\<lambda>m. sharedSubscriptionAvailable m \<noteq> 1)
        [enc_byte (\<lambda>_. SharedSubscriptionAvailability), enc_byte sharedSubscriptionAvailable],
      enc_when (\<lambda>m. serverKeepAlive m > 0)
        [enc_byte (\<lambda>_. ServerSurvivalTime), enc_put (\<lambda>m. put16 (serverKeepAlive m))],
      enc_when (\<lambda>m. length (responseInformation m) > 0)
        [enc_byte (\<lambda>_. SolicitedMessage), enc_lp responseInformation],
      enc_when (\<lambda>m. length (serverReference m) > 0)
        [enc_byte (\<lambda>_. ServerReference), enc_lp serverReference],
      enc_when (\<lambda>m. length (authMethod m) > 0)
        [enc_byte (\<lambda>_. AuthenticationMethod), enc_lp authMethod],
      enc_when (\<lambda>m. length (authData m) > 0)
        [enc_byte (\<lambda>_. AuthenticationData), enc_lp authData]]"

definition connack_Encode :: "connack estate \<Rightarrow> connack estate out" where
  "connack_Encode s =
     (let m = e_msg s in
      if \<not> dirty m then
        (if length (e_dst s) < length (dbuf m) then
           Fail 0 (Errorf ''connack/Encode: Insufficient buffer size.'') s
         else Go (s\<lparr>e_dst := blit (e_dst s) 0 (dbuf m), e_tot := length (dbuf m)\<rparr>))
      else case connack_build m of
        None \<Rightarrow> Panic
      | Some m1 \<Rightarrow>
          if length (e_dst s) < header_msglen m1 + unat (remlen m1) then
            Fail 0 (Errorf ''connack/Encode: Insufficient buffer size.'') (s\<lparr>e_msg := m1\<rparr>)
          else (case SetRemainingLength (remlen m1) m1 of
             (m2, Some e) \<Rightarrow> Fail 0 e (s\<lparr>e_msg := m2\<rparr>)
           | (m2, None) \<Rightarrow> steps connack_enc_steps (s\<lparr>e_msg := m2, e_tot := 0\<rparr>)))"

section \<open>Decoding\<close>

definition connack_dec_flags :: "gslice \<Rightarrow> connack dstate \<Rightarrow> connack dstate out" where
  "connack_dec_flags src s =
     (case at src (d_tot s) of
        None \<Rightarrow> Panic
      | Some b \<Rightarrow>
          if b AND 254 \<noteq> 0 then ret_proto s (Code ProtocolError)
          else Go (s\<lparr>d_tot := Suc (d_tot s), d_msg := (d_msg s)\<lparr>sessionPresent := (b AND 0x1 = 1)\<rparr>\<rparr>))"

definition connack_dec_reason :: "gslice \<Rightarrow> connack dstate \<Rightarrow> connack dstate out" where
  "connack_dec_reason src s =
     (case at src (d_tot s) of
        None \<Rightarrow> Panic
      | Some b \<Rightarrow>
          if b > UnsupportedWildcardSubscriptions then ret_proto s (Code ProtocolError)
          else let s1 = s\<lparr>d_tot := Suc (d_tot s), d_msg := (d_msg s)\<lparr>reasonCode := b\<rparr>\<rparr> in
            if \<not> ValidConnAckReasonCode b then ret_total s1 (Code ProtocolError) else Go s1)"

text \<open>\<open>binary.BigEndian.Uint16(src[total:]); total++\<close>: the count is one short.\<close>

definition connack_dec_keepAlive :: "gslice \<Rightarrow> connack dstate \<Rightarrow> connack dstate out" where
  "connack_dec_keepAlive src s =
     (case dec_u16 src (\<lambda>v m. m\<lparr>serverKeepAlive := v\<rparr>) s of
        Go t \<Rightarrow> Go (t\<lparr>d_tot := Suc (d_tot s)\<rparr>)
      | Fail n e t \<Rightarrow> Fail n e t
      | Panic \<Rightarrow> Panic)"

definition connack_dec_props :: "gslice \<Rightarrow> (connack dstate \<Rightarrow> connack dstate out) list" where
  "connack_dec_props src =
     [dec_when src SessionExpirationInterval
        [dec_u32 src (\<lambda>v m. m\<lparr>sessionExpiryInterval := v\<rparr>),
         dec_nodup src SessionExpirationInterval (\<lambda>_. False)],
      dec_if src MaximumQuantityReceived
        [dec_u16 src (\<lambda>v m. m\<lparr>receiveMaximum := v\<rparr>),
         dec_nodup src MaximumQuantityReceived (\<lambda>m. receiveMaximum m = 0)]
        (dec_set (\<lambda>m. m\<lparr>receiveMaximum := 65535\<rparr>)),
      dec_if src MaximumQoS
        [dec_byte src (\<lambda>v m. m\<lparr>maxQos := v\<rparr>),
         dec_nodup src MaximumQoS (\<lambda>m. maxQos m > 2 \<or> maxQos m < 0)]
        (dec_set (\<lambda>m. m\<lparr>maxQos := 2\<rparr>)),
      dec_if src PreservePropertyAvailability
        [dec_byte src (\<lambda>v m. m\<lparr>retainAvailable := v\<rparr>),
         dec_nodup src PreservePropertyAvailability (\<lambda>m. not_flag (retainAvailable m))]
        (dec_set (\<lambda>m. m\<lparr>retainAvailable := 0x01\<rparr>)),
      dec_when src MaximumMessageLength
        [dec_u32 src (\<lambda>v m. m\<lparr>maxPacketSize := v\<rparr>),
         dec_nodup src MaximumMessageLength (\<lambda>m. maxPacketSize m = 0)],
      dec_when src AssignCustomerIdentifiers
        [dec_lp src (\<lambda>v m. m\<lparr>assignedIdentifier := v\<rparr>) ret_total,
         dec_unique src AssignCustomerIdentifiers (\<lambda>_. False)],
      dec_when src MaximumLengthOfTopicAlias
        [dec_u16 src (\<lambda>v m. m\<lparr>topicAliasMax := v\<rparr>),
         dec_nodup src MaximumLengthOfTopicAlias (\<lambda>_. False)],
      dec_when src ReasonString
        [dec_lp src (\<lambda>v m. m\<lparr>reasonStr := v\<rparr>) ret_total,
         dec_unique src ReasonString (\<lambda>_. False)],
      dec_userProperty src (\<lambda>v m. m\<lparr>userProperties := v\<rparr>),
      dec_if src WildcardSubscriptionAvailability
        [dec_byte src (\<lambda>v m. m\<lparr>wildcardSubscriptionAvailable := v\<rparr>),
         dec_nodup src WildcardSubscriptionAvailability (\<lambda>m. not_flag (wildcardSubscriptionAvailable m))]
        (dec_set (\<lambda>m. m\<lparr>wildcardSubscriptionAvailable := 0x01\<rparr>)),
      dec_if src AvailabilityOfSubscriptionIdentifiers
        [dec_byte src (\<lambda>v m. m\<lparr>subscriptionIdentifierAvailable := v\<rparr>),
         dec_nodup src AvailabilityOfSubscriptionIdentifiers (\<lambda>m. not_flag (subscriptionIdentifierAvailable m))]
        (dec_set (\<lambda>m. m\<lparr>subscriptionIdentifierAvailable := 0x01\<rparr>)),
      dec_if src SharedSubscriptionAvailability
        [dec_byte src (\<lambda>v m. m\<lparr>sharedSubscriptionAvailable := v\<rparr>),
         dec_nodup src SharedSubscriptionAvailability (\<lambda>m. not_flag (sharedSubscriptionAvailable m))]
        (dec_set (\<lambda>m. m\<lparr>subscriptionIdentifierAvailable := 0x01\<rparr>)),
      dec_when src ServerSurvivalTime
        [connack_dec_keepAlive src,
         dec_nodup src ServerSurvivalTime (\<lambda>_. False)],
      dec_when src SolicitedMessage
        [dec_lp src (\<lambda>v m. m\<lparr>responseInformation := v\<rparr>) ret_total,
         dec_unique src SolicitedMessage (\<lambda>_. False)],
      dec_when src ServerReference
        [dec_lp src (\<lambda>v m. m\<lparr>serverReference := v\<rparr>) ret_total,
         dec_unique src ServerReference (\<lambda>_. False)],
      dec_when src AuthenticationMethod
        [dec_lp src (\<lambda>v m. m\<lparr>authMethod := v\<rparr>) ret_total,
         dec_unique src AuthenticationMethod (\<lambda>_. False)],
      dec_when src AuthenticationData
        [dec_lp src (\<lambda>v m. m\<lparr>authData := v\<rparr>) ret_total,
         dec_unique src AuthenticationData (\<lambda>_. False)]]"

definition connack_Decode :: "gslice \<Rightarrow> connack \<Rightarrow> connack dstate out" where
  "connack_Decode src m =
     steps ([dec_header src,
        connack_dec_flags src,
        connack_dec_reason src,
        dec_lb src (\<lambda>v m. m\<lparr>propertiesLen := v\<rparr>) ret_total]
       @ connack_dec_props src
       @ [dec_set (\<lambda>m. m\<lparr>dirty := False\<rparr>)]) (dstart m)"

end
