(* ===== verification/Disconnect.thy ===== *)
theory Disconnect
  imports PropForms
begin

text \<open>
  The DISCONNECT packet, broker/core/message/disconnect.go: the record, its setters,
  \<open>build\<close>, \<open>Len\<close>, \<open>Encode\<close>, \<open>EncodeToBuf\<close> and \<open>Decode\<close>, the wire format as a function
  of the message, and the proofs that the encoders produce it and what \<open>Decode\<close> makes of it.
\<close>

record disconnect = header +
  reasonCode :: byte
  propertyLen :: uint32
  sessionExpiryInterval :: uint32
  reasonStr :: bytes
  serverReference :: bytes
  userProperty :: "bytes list"

definition ValidDisconnectReasonCode :: "byte \<Rightarrow> bool" where
  "ValidDisconnectReasonCode c \<longleftrightarrow> c \<in> set [Success, DisconnectionIncludesWill, UnspecifiedError, ProtocolError,
     ImplementError, UnAuthorized, ServiceBusy, 0x8B, 0x8D, 0x8E, InvalidTopicFilter, InvalidTopicName, 0x93,
     InvalidTopicAlias, 0x95, 0x96, BeyondQuota, 0x98, InvalidLoadFormat, UnsupportedRetention,
     UnsupportedQoSLevel, 0x9C, 0x9D, UnsupportedSharedSubscriptions, 0x9F, 0xA0,
     UnsupportedSubscriptionIdentifiers, UnsupportedWildcardSubscriptions]"

definition SetReasonCode :: "byte \<Rightarrow> disconnect \<Rightarrow> disconnect" where
  "SetReasonCode v m = m\<lparr>reasonCode := v, dirty := True\<rparr>"
definition SetPropertyLen :: "uint32 \<Rightarrow> disconnect \<Rightarrow> disconnect" where
  "SetPropertyLen v m = m\<lparr>propertyLen := v, dirty := True\<rparr>"
definition SetSessionExpiryInterval :: "uint32 \<Rightarrow> disconnect \<Rightarrow> disconnect" where
  "SetSessionExpiryInterval v m = m\<lparr>sessionExpiryInterval := v, dirty := True\<rparr>"
definition SetReasonStr :: "bytes \<Rightarrow> disconnect \<Rightarrow> disconnect" where
  "SetReasonStr v m = m\<lparr>reasonStr := v, dirty := True\<rparr>"
definition SetServerReference :: "bytes \<Rightarrow> disconnect \<Rightarrow> disconnect" where
  "SetServerReference v m = m\<lparr>serverReference := v, dirty := True\<rparr>"
definition AddUserPropertys :: "bytes list \<Rightarrow> disconnect \<Rightarrow> disconnect" where
  "AddUserPropertys v m = m\<lparr>userProperty := userProperty m @ v, dirty := True\<rparr>"
definition AddUserProperty :: "bytes \<Rightarrow> disconnect \<Rightarrow> disconnect" where
  "AddUserProperty v m = m\<lparr>userProperty := userProperty m @ [v], dirty := True\<rparr>"

definition NewDisconnectMessage :: disconnect where
  "NewDisconnectMessage = header.extend (new_header DISCONNECT)
     \<lparr>reasonCode = 0, propertyLen = 0, sessionExpiryInterval = 0, reasonStr = [], serverReference = [],
      userProperty = []\<rparr>"

definition NewDiscMessageWithCodeInfo :: "byte \<Rightarrow> bytes \<Rightarrow> disconnect" where
  "NewDiscMessageWithCodeInfo code str = SetReasonStr str (SetReasonCode code NewDisconnectMessage)"

section \<open>Length\<close>

definition disconnect_build :: "disconnect \<Rightarrow> disconnect option" where
  "disconnect_build m =
     (let total = (if sessionExpiryInterval m > 0 then 5 else 0) + prop_len (reasonStr m)
            + buildUserPropertyLen (userProperty m) + prop_len (serverReference m);
          m1 = m\<lparr>propertyLen := word_of_nat total\<rparr> in
      if reasonCode m1 = Success \<and> propertyLen m1 = 0 then Some (fst (SetRemainingLength 0 m1))
      else case lbEncode (propertyLen m1) of
        None \<Rightarrow> None
      | Some b \<Rightarrow> Some (fst (SetRemainingLength (word_of_nat (1 + unat (propertyLen m1) + length b)) m1)))"

definition disconnect_Len :: "disconnect \<Rightarrow> (nat \<times> disconnect) option" where
  "disconnect_Len m =
     (if \<not> dirty m then Some (length (dbuf m), m)
      else case disconnect_build m of
        None \<Rightarrow> None
      | Some m1 \<Rightarrow>
          (case SetRemainingLength (remlen m1) m1 of
             (m2, Some e) \<Rightarrow> Some (0, m2)
           | (m2, None) \<Rightarrow> Some (header_msglen m2 + unat (remlen m1), m2)))"

section \<open>Encoding\<close>

text \<open>The early return of the encoders, right behind the header\<close>

definition disconnect_short :: "disconnect \<Rightarrow> bool" where
  "disconnect_short m \<longleftrightarrow> reasonCode m = Success \<and> remlen m = 0"

definition disconnect_buf_steps :: "(disconnect bstate \<Rightarrow> disconnect bstate out) list" where
  "disconnect_buf_steps =
     [buf_header,
      buf_when (\<lambda>m. \<not> disconnect_short m)
        [buf_write (\<lambda>m. [reasonCode m]),
         buf_lb propertyLen,
         buf_when (\<lambda>m. sessionExpiryInterval m > 0)
           [buf_write (\<lambda>_. [SessionExpirationInterval]), buf_write (\<lambda>m. put32 (sessionExpiryInterval m))],
         buf_when (\<lambda>m. length (reasonStr m) > 0)
           [buf_write (\<lambda>_. [ReasonString]), buf_lp reasonStr],
         buf_userProperty userProperty,
         buf_when (\<lambda>m. length (serverReference m) > 0)
           [buf_write (\<lambda>_. [ServerReference]), buf_lp serverReference]]]"

definition disconnect_EncodeToBuf :: "disconnect bstate \<Rightarrow> disconnect bstate out" where
  "disconnect_EncodeToBuf s =
     (let m = b_msg s in
      if \<not> dirty m then Go (s\<lparr>b_buf := b_buf s @ dbuf m\<rparr>)
      else case disconnect_build m of
        None \<Rightarrow> Panic
      | Some m1 \<Rightarrow>
          (case SetRemainingLength (remlen m1) m1 of
             (m2, Some e) \<Rightarrow> Fail 0 e (s\<lparr>b_msg := m2\<rparr>)
           | (m2, None) \<Rightarrow> steps disconnect_buf_steps (s\<lparr>b_msg := m2\<rparr>)))"

definition disconnect_enc_steps :: "(disconnect estate \<Rightarrow> disconnect estate out) list" where
  "disconnect_enc_steps =
     [enc_header,
      enc_when (\<lambda>m. \<not> disconnect_short m)
        [enc_byte reasonCode,
         enc_lb propertyLen,
         enc_when (\<lambda>m. sessionExpiryInterval m > 0)
           [enc_byte (\<lambda>_. SessionExpirationInterval), enc_put (\<lambda>m. put32 (sessionExpiryInterval m))],
         enc_when (\<lambda>m. length (reasonStr m) > 0)
           [enc_byte (\<lambda>_. ReasonString), enc_lp reasonStr],
         enc_userProperty userProperty,
         enc_when (\<lambda>m. length (serverReference m) > 0)
           [enc_byte (\<lambda>_. ServerReference), enc_lp serverReference]]]"

definition disconnect_Encode :: "disconnect estate \<Rightarrow> disconnect estate out" where
  "disconnect_Encode s =
     (let m = e_msg s in
      if \<not> dirty m then
        (if length (e_dst s) < length (dbuf m)
         then Fail 0 (Errorf ''disconnect/Encode: Insufficient buffer size.'') s
         else Go (s\<lparr>e_dst := blit (e_dst s) 0 (dbuf m), e_tot := length (dbuf m)\<rparr>))
      else case disconnect_build m of
        None \<Rightarrow> Panic
      | Some m1 \<Rightarrow>
          (if length (e_dst s) < header_msglen m1 + unat (remlen m1)
           then Fail 0 (Errorf ''auth/Encode: Insufficient buffer size.'') (s\<lparr>e_msg := m1\<rparr>)
           else case SetRemainingLength (remlen m1) m1 of
             (m2, Some e) \<Rightarrow> Fail 0 e (s\<lparr>e_msg := m2\<rparr>)
           | (m2, None) \<Rightarrow> steps disconnect_enc_steps (s\<lparr>e_msg := m2, e_tot := 0\<rparr>)))"

section \<open>Decoding\<close>

text \<open>
  \<open>if total < len(src) && src[total] == code { total++; ...; if total < len(src) && src[total] == code
  { return total, err } }\<close>: \<open>err\<close> is nil there, so a repeated property ends the decoding
  without an error; \<open>k\<close> is the rest of the function.
\<close>

definition dec_once :: "gslice \<Rightarrow> byte \<Rightarrow> ('m dstate \<Rightarrow> 'm dstate out) list \<Rightarrow> ('m dstate \<Rightarrow> 'm dstate out) \<Rightarrow>
    'm dstate \<Rightarrow> 'm dstate out" where
  "dec_once src code body k s =
     (if at src (d_tot s) = Some code then
        andthen (steps body (s\<lparr>d_tot := Suc (d_tot s)\<rparr>))
          (\<lambda>s'. if at src (d_tot s') = Some code then Go s' else k s') Fail
      else k s)"

text \<open>\<open>binary.BigEndian.Uint32(src); total += 4\<close>: the four bytes are those at the start of the packet.\<close>

definition disconnect_dec_expiry :: "gslice \<Rightarrow> disconnect dstate \<Rightarrow> disconnect dstate out" where
  "disconnect_dec_expiry src s =
     (case get32 (vis src) of
        None \<Rightarrow> Panic
      | Some v \<Rightarrow> Go (s\<lparr>d_tot := d_tot s + 4, d_msg := (d_msg s)\<lparr>sessionExpiryInterval := v\<rparr>\<rparr>))"

definition disconnect_dec_props :: "gslice \<Rightarrow> disconnect dstate \<Rightarrow> disconnect dstate out" where
  "disconnect_dec_props src =
     dec_once src SessionExpirationInterval
       [disconnect_dec_expiry src, dec_guard (\<lambda>m. sessionExpiryInterval m = 0) ProtocolError]
     (dec_once src ReasonString [dec_lp src (\<lambda>v m. m\<lparr>reasonStr := v\<rparr>) ret_total]
     (\<lambda>s. andthen (dec_userProperty src (\<lambda>v m. m\<lparr>userProperty := v\<rparr>) s)
       (dec_once src ServerReference [dec_lp src (\<lambda>v m. m\<lparr>serverReference := v\<rparr>) ret_total] Go) Fail))"

definition disconnect_Decode :: "gslice \<Rightarrow> disconnect \<Rightarrow> disconnect dstate out" where
  "disconnect_Decode src m0 =
     andthen (dec_header src (dstart m0)) (\<lambda>s.
       if remlen (d_msg s) = 0 then Go (s\<lparr>d_msg := (d_msg s)\<lparr>reasonCode := Success\<rparr>\<rparr>)
       else andthen (steps [dec_byte src (\<lambda>v m. m\<lparr>reasonCode := v\<rparr>),
              dec_guard (\<lambda>m. \<not> ValidDisconnectReasonCode (reasonCode m)) ProtocolError] s) (\<lambda>s1.
         if remlen (d_msg s1) < 2 then Go (s1\<lparr>d_msg := (d_msg s1)\<lparr>propertyLen := 0\<rparr>\<rparr>)
         else andthen (dec_lb src (\<lambda>v m. m\<lparr>propertyLen := v\<rparr>) ret_total s1) (disconnect_dec_props src) Fail) Fail) Fail"

end
