(* ===== verification/PacketFrame.thy ===== *)
theory PacketFrame
  imports PropForms
begin

text \<open>
  The contract that a packet's length computation and its lists of encoder statements have
  to meet, and what follows from it for \<open>Encode\<close> and \<open>EncodeToBuf\<close>: both produce the
  fixed header and the body, and \<open>Encode\<close> refuses exactly the slices that are too short.
\<close>

definition frame :: "'a header_scheme \<Rightarrow> bytes \<Rightarrow> bytes" where
  "frame m body = mtf m # varint (length body) @ body"

lemma length_frame: "length (frame m body) = Suc (length (varint (length body)) + length body)"
  by (simp add: frame_def)

text \<open>The statements of the encoders on a message whose length fields are set.\<close>

locale packet_format =
  fixes valid :: "'a header_scheme \<Rightarrow> bool"
    and build :: "'a header_scheme \<Rightarrow> 'a header_scheme option"
    and built :: "'a header_scheme \<Rightarrow> 'a header_scheme"
    and body :: "'a header_scheme \<Rightarrow> bytes"
    and buf_body :: "('a header_scheme bstate \<Rightarrow> 'a header_scheme bstate out) list"
    and enc_body :: "('a header_scheme estate \<Rightarrow> 'a header_scheme estate out) list"
    and chunks :: "'a header_scheme \<Rightarrow> bytes list"
  assumes build: "valid m \<Longrightarrow> build m = Some (built m)"
    and built_mtf: "valid m \<Longrightarrow> mtf (built m) = mtf m"
    and built_remlen: "valid m \<Longrightarrow> remlen (built m) = word_of_nat (length (body m)) \<and> dirty (built m)"
    and small: "valid m \<Longrightarrow> length (body m) < 2 ^ 28"
    and valid_type: "valid m \<Longrightarrow> mtype_Valid (Type m)"
    and buf_chunks: "valid m \<Longrightarrow> list_all2 (appends (built m)) buf_body (chunks m)"
    and enc_chunks: "valid m \<Longrightarrow> list_all2 (writes N (built m)) enc_body (chunks m)"
    and chunks: "valid m \<Longrightarrow> concat (chunks m) = body m"

context packet_format begin

lemma unat_remlen: "valid m \<Longrightarrow> unat (remlen (built m)) = length (body m)"
  using built_remlen small by (simp add: unat_len32)

lemma remlen_bound: "valid m \<Longrightarrow> remlen (built m) \<le> maxRemainingLength"
  using unat_remlen small by (simp add: unat_le_max)

lemma set_again: "valid m \<Longrightarrow> SetRemainingLength (remlen (built m)) (built m) = (built m, None)"
  using remlen_bound built_remlen by (simp add: SetRemainingLength_def not_less)

lemma frame_length: "valid m \<Longrightarrow> header_msglen (built m) + unat (remlen (built m)) = length (frame m (body m))"
  using length_varint_remlen [OF remlen_bound] by (simp add: length_frame unat_remlen)

lemma header_chunk: "valid m \<Longrightarrow> mtf (built m) # varint (unat (remlen (built m))) = mtf m # varint (length (body m))"
  by (simp add: unat_remlen built_mtf)

lemma built_type: "valid m \<Longrightarrow> mtype_Valid (Type (built m))"
  using valid_type built_mtf by (simp add: Type_def)

lemma buf_bytes:
  assumes "valid m" and "b_msg s = built m"
  shows "steps (buf_header # buf_body) s = Go (s\<lparr>b_buf := b_buf s @ frame m (body m)\<rparr>)"
proof -
  have "list_all2 (appends (built m)) (buf_header # buf_body) ((mtf m # varint (length (body m))) # chunks m)"
    using appends_header [OF remlen_bound [OF assms(1)] built_type [OF assms(1)]] buf_chunks [OF assms(1)]
    by (simp add: header_chunk [OF assms(1)])
  from steps_appends [OF this assms(2)] show ?thesis
    by (simp add: frame_def chunks [OF assms(1)])
qed

lemma enc_bytes:
  assumes "valid m" and "e_msg e = built m" and "e_tot e = 0" and "length (frame m (body m)) \<le> length (e_dst e)"
  shows "steps (enc_header # enc_body) e
    = Go (e\<lparr>e_dst := blit (e_dst e) 0 (frame m (body m)), e_tot := length (frame m (body m))\<rparr>)"
proof -
  let ?xs = "(mtf m # varint (length (body m))) # chunks m"
  have "list_all2 (writes (length (e_dst e)) (built m)) (enc_header # enc_body) ?xs"
    using writes_header [OF remlen_bound [OF assms(1)] built_type [OF assms(1)]] enc_chunks [OF assms(1)]
    by (simp add: header_chunk [OF assms(1)])
  moreover have "concat ?xs = frame m (body m)"
    by (simp add: frame_def chunks [OF assms(1)])
  ultimately show ?thesis
    using steps_writes [of "length (e_dst e)" "built m" "enc_header # enc_body" ?xs e] assms(2-4) by simp
qed

end

text \<open>The two encoders on top: the guards, the length computation and the statements.\<close>

locale packet_encoders = packet_format +
  fixes EncodeToBuf :: "'a header_scheme bstate \<Rightarrow> 'a header_scheme bstate out"
    and Encode :: "'a header_scheme estate \<Rightarrow> 'a header_scheme estate out"
    and too_small :: goerr
  assumes EncodeToBuf: "valid (b_msg s) \<Longrightarrow> dirty (b_msg s) \<Longrightarrow> build (b_msg s) = Some m1 \<Longrightarrow>
      SetRemainingLength (remlen m1) m1 = (m1, None) \<Longrightarrow>
      EncodeToBuf s = steps (buf_header # buf_body) (s\<lparr>b_msg := m1\<rparr>)"
    and Encode: "valid (e_msg e) \<Longrightarrow> dirty (e_msg e) \<Longrightarrow> build (e_msg e) = Some m1 \<Longrightarrow>
      SetRemainingLength (remlen m1) m1 = (m1, None) \<Longrightarrow>
      Encode e = (if length (e_dst e) < header_msglen m1 + unat (remlen m1)
         then Fail 0 too_small (e\<lparr>e_msg := m1\<rparr>)
         else steps (enc_header # enc_body) (e\<lparr>e_msg := m1, e_tot := 0\<rparr>))"

context packet_encoders begin

lemma EncodeToBuf_bytes:
  assumes "valid (b_msg s)" and "dirty (b_msg s)"
  shows "EncodeToBuf s = Go (s\<lparr>b_buf := b_buf s @ frame (b_msg s) (body (b_msg s)), b_msg := built (b_msg s)\<rparr>)"
  using EncodeToBuf [OF assms build set_again] buf_bytes [of "b_msg s" "s\<lparr>b_msg := built (b_msg s)\<rparr>"] assms(1)
  by simp

lemma Encode_bytes:
  assumes "valid (e_msg e)" and "dirty (e_msg e)"
  shows "Encode e =
    (if length (e_dst e) < length (frame (e_msg e) (body (e_msg e)))
     then Fail 0 too_small (e\<lparr>e_msg := built (e_msg e)\<rparr>)
     else Go (e\<lparr>e_dst := blit (e_dst e) 0 (frame (e_msg e) (body (e_msg e))),
            e_tot := length (frame (e_msg e) (body (e_msg e))), e_msg := built (e_msg e)\<rparr>))"
  using Encode [OF assms build set_again] assms(1)
    enc_bytes [of "e_msg e" "e\<lparr>e_msg := built (e_msg e), e_tot := 0\<rparr>"]
  by (simp add: frame_length)

text \<open>\<open>Encode\<close> writes what \<open>EncodeToBuf\<close> appends, at the start of the slice.\<close>

lemma encoders_agree:
  assumes "valid m" and "dirty m"
  shows "\<exists>s. EncodeToBuf \<lparr>b_buf = [], b_msg = m, b_gpid = g\<rparr> = Go s
    \<and> b_buf s = frame m (body m)
    \<and> Encode \<lparr>e_dst = d, e_tot = 0, e_msg = m, e_gpid = g\<rparr> =
      (if length d < length (b_buf s)
       then Fail 0 too_small \<lparr>e_dst = d, e_tot = 0, e_msg = b_msg s, e_gpid = g\<rparr>
       else Go \<lparr>e_dst = b_buf s @ drop (length (b_buf s)) d, e_tot = length (b_buf s),
         e_msg = b_msg s, e_gpid = g\<rparr>)"
  using assms EncodeToBuf_bytes [of "\<lparr>b_buf = [], b_msg = m, b_gpid = g\<rparr>"]
    Encode_bytes [of "\<lparr>e_dst = d, e_tot = 0, e_msg = m, e_gpid = g\<rparr>"]
  by (simp add: blit_fits not_less)

end

lemma starts_not_up_end [simp]: "starts_not (up_bytes ups) c \<longleftrightarrow> ups = [] \<or> c \<noteq> UserProperty"
  using starts_not_up_bytes [of ups "[]" c] by simp

text \<open>Sizes that every interpretation needs\<close>

lemma plen_ok:
  assumes "n < 2 ^ 28"
  shows "lbEncode (word_of_nat n) = Some (varint n)" "unat (word_of_nat n :: uint32) = n"
    "fst (SetRemainingLength (word_of_nat n) m) = m\<lparr>remlen := word_of_nat n, dirty := True\<rparr>"
    "(word_of_nat n :: uint32) = 0 \<longleftrightarrow> n = 0"
proof -
  show u: "unat (word_of_nat n :: uint32) = n"
    using assms by (rule unat_len32)
  show "lbEncode (word_of_nat n) = Some (varint n)"
    using assms by (simp add: lbEncode_varint u)
  have "\<not> (word_of_nat n :: uint32) > maxRemainingLength"
    using assms by (simp add: not_less unat_le_max u)
  then show "fst (SetRemainingLength (word_of_nat n) m) = m\<lparr>remlen := word_of_nat n, dirty := True\<rparr>"
    by (simp add: SetRemainingLength_def)
  show "(word_of_nat n :: uint32) = 0 \<longleftrightarrow> n = 0"
    by (simp flip: unat_eq_zero add: u)
qed

end
