(* ===== verification/Auth.thy ===== *)
theory Auth
  imports PacketFrame
begin

text \<open>
  The AUTH packet, broker/core/message/auth.go: the record, its setters, \<open>build\<close>, \<open>Len\<close>,
  \<open>Encode\<close>, \<open>EncodeToBuf\<close> and \<open>Decode\<close>, the wire format as a function of the message,
  and the proofs that the encoders produce it and that \<open>Decode\<close> reads it back.
\<close>

record auth = header +
  reasonCode :: byte
  propertiesLen :: uint32
  authMethod :: bytes
  authData :: bytes
  reasonStr :: bytes
  userProperty :: "bytes list"

definition ValidAuthReasonCode :: "byte \<Rightarrow> bool" where
  "ValidAuthReasonCode c \<longleftrightarrow> c \<in> set [Success, 0x18, 0x19]"

definition SetReasonCode :: "byte \<Rightarrow> auth \<Rightarrow> auth" where
  "SetReasonCode v m = m\<lparr>reasonCode := v, dirty := True\<rparr>"
definition SetPropertiesLen :: "uint32 \<Rightarrow> auth \<Rightarrow> auth" where
  "SetPropertiesLen v m = m\<lparr>propertiesLen := v, dirty := True\<rparr>"
definition SetAuthMethod :: "bytes \<Rightarrow> auth \<Rightarrow> auth" where
  "SetAuthMethod v m = m\<lparr>authMethod := v, dirty := True\<rparr>"
definition SetAuthData :: "bytes \<Rightarrow> auth \<Rightarrow> auth" where
  "SetAuthData v m = m\<lparr>authData := v, dirty := True\<rparr>"
definition SetReasonStr :: "bytes \<Rightarrow> auth \<Rightarrow> auth" where
  "SetReasonStr v m = m\<lparr>reasonStr := v, dirty := True\<rparr>"
definition AddUserPropertys :: "bytes list \<Rightarrow> auth \<Rightarrow> auth" where
  "AddUserPropertys v m = m\<lparr>userProperty := userProperty m @ v, dirty := True\<rparr>"
definition AddUserProperty :: "bytes \<Rightarrow> auth \<Rightarrow> auth" where
  "AddUserProperty v m = m\<lparr>userProperty := userProperty m @ [v], dirty := True\<rparr>"
definition SetUserProperties :: "bytes list \<Rightarrow> auth \<Rightarrow> auth" where
  "SetUserProperties v m = m\<lparr>userProperty := v, dirty := True\<rparr>"

definition NewAuthMessage :: auth where
  "NewAuthMessage = header.extend (new_header AUTH)
     \<lparr>reasonCode = 0, propertiesLen = 0, authMethod = [], authData = [], reasonStr = [], userProperty = []\<rparr>"

section \<open>Length\<close>

definition auth_build :: "auth \<Rightarrow> auth option" where
  "auth_build m =
     (let total = 1 + prop_len (authMethod m) + prop_len (authData m) + prop_len (reasonStr m)
            + buildUserPropertyLen (userProperty m);
          m1 = m\<lparr>propertiesLen := word_of_nat (total - 1)\<rparr> in
      if propertiesLen m1 = 0 \<and> reasonCode m1 = Success then Some (fst (SetRemainingLength 0 m1))
      else case lbEncode (propertiesLen m1) of
        None \<Rightarrow> None
      | Some b \<Rightarrow> Some (fst (SetRemainingLength (word_of_nat (total + length b)) m1)))"

definition auth_Len :: "auth \<Rightarrow> (nat \<times> auth) option" where
  "auth_Len m =
     (if \<not> dirty m then Some (length (dbuf m), m)
      else case auth_build m of
        None \<Rightarrow> None
      | Some m1 \<Rightarrow>
          (case SetRemainingLength (remlen m1) m1 of
             (m2, Some e) \<Rightarrow> Some (0, m2)
           | (m2, None) \<Rightarrow> Some (header_msglen m2 + unat (remlen m1), m2)))"

section \<open>Encoding\<close>

text \<open>The early return of the encoders, right behind the header\<close>

definition auth_short :: "auth \<Rightarrow> bool" where
  "auth_short m \<longleftrightarrow> reasonCode m = Success \<and> length (authMethod m) = 0 \<and> length (authData m) = 0
     \<and> length (reasonStr m) = 0 \<and> length (userProperty m) = 0"

definition auth_buf_steps :: "(auth bstate \<Rightarrow> auth bstate out) list" where
  "auth_buf_steps =
     [buf_header,
      buf_when (\<lambda>m. \<not> auth_short m)
        [buf_write (\<lambda>m. [reasonCode m]),
         buf_lb propertiesLen,
         buf_when (\<lambda>m. length (authMethod m) > 0)
           [buf_write (\<lambda>_. [AuthenticationMethod]), buf_lp authMethod],
         buf_when (\<lambda>m. length (authData m) > 0)
           [buf_write (\<lambda>_. [AuthenticationData]), buf_lp authData],
         buf_when (\<lambda>m. length (reasonStr m) > 0)
           [buf_write (\<lambda>_. [ReasonString]), buf_lp reasonStr],
         buf_userProperty userProperty]]"

definition auth_EncodeToBuf :: "auth bstate \<Rightarrow> auth bstate out" where
  "auth_EncodeToBuf s =
     (let m = b_msg s in
      if \<not> dirty m then Go (s\<lparr>b_buf := b_buf s @ dbuf m\<rparr>)
      else if Type m \<noteq> AUTH then Fail 0 (Errorf ''auth/Encode: Invalid message type.'') s
      else case auth_build m of
        None \<Rightarrow> Panic
      | Some m1 \<Rightarrow>
          (case SetRemainingLength (remlen m1) m1 of
             (m2, Some e) \<Rightarrow> Fail 0 e (s\<lparr>b_msg := m2\<rparr>)
           | (m2, None) \<Rightarrow> steps auth_buf_steps (s\<lparr>b_msg := m2\<rparr>)))"

text \<open>\<open>n, err = writeUserProperty(...); total += n; return total, err\<close>\<close>

definition enc_userProperty_err :: "('m \<Rightarrow> bytes list) \<Rightarrow> 'm estate \<Rightarrow> 'm estate out" where
  "enc_userProperty_err f s =
     (if e_tot s > length (e_dst s) then Panic
      else case writeUserProperty (e_dst s) (e_tot s) (f (e_msg s)) of
        None \<Rightarrow> Panic
      | Some (d, t, None) \<Rightarrow> Go (s\<lparr>e_dst := d, e_tot := t\<rparr>)
      | Some (d, t, Some e) \<Rightarrow> ret_etot (s\<lparr>e_dst := d, e_tot := t\<rparr>) e)"

definition auth_enc_steps :: "(auth estate \<Rightarrow> auth estate out) list" where
  "auth_enc_steps =
     [enc_header,
      enc_when (\<lambda>m. \<not> auth_short m)
        [enc_byte reasonCode,
         enc_lb propertiesLen,
         enc_when (\<lambda>m. length (authMethod m) > 0)
           [enc_byte (\<lambda>_. AuthenticationMethod), enc_lp authMethod],
         enc_when (\<lambda>m. length (authData m) > 0)
           [enc_byte (\<lambda>_. AuthenticationData), enc_lp authData],
         enc_when (\<lambda>m. length (reasonStr m) > 0)
           [enc_byte (\<lambda>_. ReasonString), enc_lp reasonStr],
         enc_userProperty_err userProperty]]"

definition auth_Encode :: "auth estate \<Rightarrow> auth estate out" where
  "auth_Encode s =
     (let m = e_msg s in
      if \<not> dirty m then
        (if length (e_dst s) < length (dbuf m)
         then Fail 0 (Errorf ''auth/Encode: Insufficient buffer size.'') s
         else Go (s\<lparr>e_dst := blit (e_dst s) 0 (dbuf m), e_tot := length (dbuf m)\<rparr>))
      else if Type m \<noteq> AUTH then Fail 0 (Errorf ''auth/Encode: Invalid message type.'') s
      else case auth_build m of
        None \<Rightarrow> Panic
      | Some m1 \<Rightarrow>
          (if length (e_dst s) < header_msglen m1 + unat (remlen m1)
           then Fail 0 (Errorf ''auth/Encode: Insufficient buffer size.'') (s\<lparr>e_msg := m1\<rparr>)
           else case SetRemainingLength (remlen m1) m1 of
             (m2, Some e) \<Rightarrow> Fail 0 e (s\<lparr>e_msg := m2\<rparr>)
           | (m2, None) \<Rightarrow> steps auth_enc_steps (s\<lparr>e_msg := m2, e_tot := 0\<rparr>)))"

section \<open>Decoding\<close>

text \<open>\<open>if int(remlen) > len(src[total:]) { return total, ProtocolError }\<close>\<close>

definition dec_remlen :: "gslice \<Rightarrow> 'a header_scheme dstate \<Rightarrow> 'a header_scheme dstate out" where
  "dec_remlen src s =
     (case reslice src (d_tot s) of
        None \<Rightarrow> Panic
      | Some sl \<Rightarrow> (if unat (remlen (d_msg s)) > length (vis sl) then ret_total s (Code ProtocolError) else Go s))"

definition auth_dec_props :: "gslice \<Rightarrow> (auth dstate \<Rightarrow> auth dstate out) list" where
  "auth_dec_props src =
     [dec_byte src (\<lambda>v m. m\<lparr>reasonCode := v\<rparr>),
      dec_guard (\<lambda>m. \<not> ValidAuthReasonCode (reasonCode m)) ProtocolError,
      dec_lb src (\<lambda>v m. m\<lparr>propertiesLen := v\<rparr>) ret_total,
      dec_when src AuthenticationMethod
        [dec_lp src (\<lambda>v m. m\<lparr>authMethod := v\<rparr>) ret_total, dec_unique src AuthenticationMethod (\<lambda>_. False)],
      dec_when src AuthenticationData
        [dec_lp src (\<lambda>v m. m\<lparr>authData := v\<rparr>) ret_total, dec_unique src AuthenticationData (\<lambda>_. False)],
      dec_when src ReasonString
        [dec_lp src (\<lambda>v m. m\<lparr>reasonStr := v\<rparr>) ret_total, dec_unique src ReasonString (\<lambda>_. False)],
      dec_userProperty src (\<lambda>v m. m\<lparr>userProperty := v\<rparr>),
      dec_set (\<lambda>m. m\<lparr>dirty := False\<rparr>)]"

definition auth_Decode :: "gslice \<Rightarrow> auth \<Rightarrow> auth dstate out" where
  "auth_Decode src m0 =
     andthen (steps [dec_header src, dec_remlen src] (dstart m0)) (\<lambda>s.
       if remlen (d_msg s) = 0 then Go (s\<lparr>d_msg := (d_msg s)\<lparr>reasonCode := Success\<rparr>\<rparr>)
       else steps (auth_dec_props src) s) Fail"

section \<open>The wire format\<close>

definition auth_props :: "auth \<Rightarrow> bytes" where
  "auth_props m =
     opt_bytes (length (authMethod m) > 0) AuthenticationMethod (lp (authMethod m))
     @ opt_bytes (length (authData m) > 0) AuthenticationData (lp (authData m))
     @ opt_bytes (length (reasonStr m) > 0) ReasonString (lp (reasonStr m))
     @ up_bytes (userProperty m)"

definition auth_body :: "auth \<Rightarrow> bytes" where
  "auth_body m = (if auth_short m then [] else [reasonCode m] @ varint (length (auth_props m)) @ auth_props m)"

definition auth_ok :: "auth \<Rightarrow> bool" where
  "auth_ok m \<longleftrightarrow>
     Type m = AUTH \<and> flags_ok (mtf m) \<and> ValidAuthReasonCode (reasonCode m)
     \<and> list_all (\<lambda>b. length b \<le> 65535) [authMethod m, authData m, reasonStr m] \<and> strs_ok (userProperty m)
     \<and> length (auth_props m) < 2 ^ 27"

definition auth_built :: "auth \<Rightarrow> auth" where
  "auth_built m = m\<lparr>propertiesLen := word_of_nat (length (auth_props m)),
     remlen := word_of_nat (length (auth_body m)), dirty := True\<rparr>"

lemma auth_sizes:
  assumes "auth_ok m"
  shows "length (auth_props m) < 2 ^ 28" "length (auth_body m) < 2 ^ 28"
proof -
  show p: "length (auth_props m) < 2 ^ 28"
    using assms by (simp add: auth_ok_def)
  have "length (varint (length (auth_props m))) \<le> 4"
    using p length_varint_le [of _ 3] by simp
  then show "length (auth_body m) < 2 ^ 28"
    using assms by (simp add: auth_ok_def auth_body_def)
qed

lemma length_auth_props:
  "length (auth_props m) = prop_len (authMethod m) + prop_len (authData m) + prop_len (reasonStr m)
     + buildUserPropertyLen (userProperty m)"
  by (simp add: auth_props_def prop_len_def)

lemma auth_short_iff: "auth_short m \<longleftrightarrow> auth_props m = [] \<and> reasonCode m = Success"
  by (cases "userProperty m" rule: up_bytes.cases) (auto simp: auth_short_def auth_props_def opt_bytes_def)

lemma auth_build_ok:
  assumes ok: "auth_ok m"
  shows "auth_build m = Some (auth_built m)"
proof -
  let ?p = "length (auth_props m)" and ?b = "length (auth_body m)"
  note z = auth_sizes [OF ok]
  note p = plen_ok [OF z(1)] and b = plen_ok [OF z(2)]
  have t: "1 + prop_len (authMethod m) + prop_len (authData m) + prop_len (reasonStr m)
      + buildUserPropertyLen (userProperty m) = Suc ?p"
    by (simp add: length_auth_props)
  have "Suc ?p + length (varint ?p) = ?b" if "\<not> auth_short m"
    using that by (simp add: auth_body_def)
  moreover have "?b = 0" if "auth_short m"
    using that by (simp add: auth_body_def)
  ultimately show ?thesis
    unfolding auth_build_def Let_def t diff_Suc_1
    using p(1,2,4) b(3) plen_ok(3) [of 0] by (auto simp: auth_built_def auth_short_iff simp del: of_nat_add of_nat_Suc)
qed

lemma auth_built_fields [simp]:
  "mtf (auth_built m) = mtf m" "reasonCode (auth_built m) = reasonCode m" "authMethod (auth_built m) = authMethod m"
  "authData (auth_built m) = authData m" "reasonStr (auth_built m) = reasonStr m"
  "userProperty (auth_built m) = userProperty m" "auth_short (auth_built m) = auth_short m"
  by (simp_all add: auth_built_def auth_short_def)

definition auth_chunks :: "auth \<Rightarrow> bytes list" where
  "auth_chunks m =
     [if \<not> auth_short m then concat
       [[reasonCode m], varint (length (auth_props m)),
        opt_bytes (length (authMethod m) > 0) AuthenticationMethod (lp (authMethod m)),
        opt_bytes (length (authData m) > 0) AuthenticationData (lp (authData m)),
        opt_bytes (length (reasonStr m) > 0) ReasonString (lp (reasonStr m)),
        up_bytes (userProperty m)] else []]"

lemma writes_userProperty_err: "strs_ok (f m) \<Longrightarrow> writes N m (enc_userProperty_err f) (up_bytes (f m))"
  by (auto simp: writes_def enc_userProperty_err_def writeUserProperty_ok simp del: length_up_bytes)

interpretation au: packet_encoders auth_ok auth_build auth_built auth_body
  "tl auth_buf_steps" "tl auth_enc_steps" auth_chunks
  auth_EncodeToBuf auth_Encode "Errorf ''auth/Encode: Insufficient buffer size.''"
proof unfold_locales
  fix m :: auth and N :: nat assume ok: "auth_ok m"
  have o: "length (authMethod m) \<le> 65535" "length (authData m) \<le> 65535" "length (reasonStr m) \<le> 65535"
      "strs_ok (userProperty m)"
    using ok by (simp_all add: auth_ok_def)
  note z = auth_sizes [OF ok]
  have pl: "unat (propertiesLen (auth_built m)) = length (auth_props m)"
    using plen_ok(2) [OF z(1)] by (simp add: auth_built_def)
  show "auth_build m = Some (auth_built m)"
    by (rule auth_build_ok [OF ok])
  show "length (auth_body m) < 2 ^ 28" "mtype_Valid (Type m)"
    using z(2) ok by (simp_all add: auth_ok_def)
  show "remlen (auth_built m) = word_of_nat (length (auth_body m)) \<and> dirty (auth_built m)"
    by (simp add: auth_built_def)
  show "concat (auth_chunks m) = auth_body m"
    by (simp add: auth_chunks_def auth_body_def auth_props_def)
  have c: "auth_chunks m = [if \<not> auth_short (auth_built m) then concat
       [[reasonCode (auth_built m)], varint (unat (propertiesLen (auth_built m))),
        opt_bytes (length (authMethod (auth_built m)) > 0) AuthenticationMethod (lp (authMethod (auth_built m))),
        opt_bytes (length (authData (auth_built m)) > 0) AuthenticationData (lp (authData (auth_built m))),
        opt_bytes (length (reasonStr (auth_built m)) > 0) ReasonString (lp (reasonStr (auth_built m))),
        up_bytes (userProperty (auth_built m))] else []]"
    by (simp add: auth_chunks_def pl)
  show "list_all2 (appends (auth_built m)) (tl auth_buf_steps) (auth_chunks m)"
    unfolding c auth_buf_steps_def list.sel list_all2_Cons list_all2_Nil
    by (intro conjI TrueI appends_when appends_intros list_all2_Cons [THEN iffD2] list_all2_Nil [THEN iffD2])
      (use o pl z(1) in simp_all)
  show "list_all2 (writes N (auth_built m)) (tl auth_enc_steps) (auth_chunks m)"
    unfolding c auth_enc_steps_def list.sel list_all2_Cons list_all2_Nil
    by (intro conjI TrueI writes_when writes_userProperty_err writes_intros list_all2_Cons [THEN iffD2] list_all2_Nil [THEN iffD2])
      (use o pl z(1) in simp_all)
qed (simp_all add: auth_EncodeToBuf_def auth_Encode_def auth_buf_steps_def auth_enc_steps_def auth_ok_def)

section \<open>Decoding what was encoded\<close>

definition auth_decoded :: "bytes \<Rightarrow> auth \<Rightarrow> auth" where
  "auth_decoded raw m = auth_built m\<lparr>dbuf := raw, packetId := [], userProperty := up_pad (userProperty m),
     dirty := auth_short m\<rparr>"

lemma auth_dec_props_rt:
  assumes ok: "auth_ok m" and ns: "\<not> auth_short m"
    and m0: "authMethod m0 = []" "authData m0 = []" "reasonStr m0 = []"
  shows "reads src m0 (steps (auth_dec_props src)) (auth_body m)
    (m0\<lparr>reasonCode := reasonCode m, propertiesLen := word_of_nat (length (auth_props m)), authMethod := authMethod m,
      authData := authData m, reasonStr := reasonStr m, userProperty := up_pad (userProperty m), dirty := False\<rparr>) []"
proof -
  have o: "length (authMethod m) \<le> 65535" "length (authData m) \<le> 65535" "length (reasonStr m) \<le> 65535"
      "strs_ok (userProperty m)" "ValidAuthReasonCode (reasonCode m)"
    using ok by (simp_all add: auth_ok_def)
  have keep: "x = [] \<Longrightarrow> authMethod m' = x \<Longrightarrow> m'\<lparr>authMethod := x\<rparr> = m'"
     "x = [] \<Longrightarrow> authData m' = x \<Longrightarrow> m'\<lparr>authData := x\<rparr> = m'"
     "x = [] \<Longrightarrow> reasonStr m' = x \<Longrightarrow> m'\<lparr>reasonStr := x\<rparr> = m'" for m' :: auth and x
    by simp_all
  have b: "auth_body m = concat [[reasonCode m], [], varint (length (auth_props m)),
      opt_bytes (length (authMethod m) > 0) AuthenticationMethod (lp (authMethod m)),
      opt_bytes (length (authData m) > 0) AuthenticationData (lp (authData m)),
      opt_bytes (length (reasonStr m) > 0) ReasonString (lp (reasonStr m)), up_bytes (userProperty m), []]"
    using ns by (simp add: auth_body_def auth_props_def)
  show ?thesis
    unfolding b auth_dec_props_def
    apply (rule reads_Cons, rule reads_byte)
    apply (rule reads_Cons, rule reads_guard, simp add: o)
    apply (rule reads_Cons, rule reads_lb, rule auth_sizes(1) [OF ok])
    apply (rule reads_Cons, rule reads_opt_unique, rule reads_lp)
        apply (use o m0 in \<open>simp_all add: keep\<close>)[4]
    apply (rule reads_Cons, rule reads_opt_unique, rule reads_lp)
        apply (use o m0 in \<open>simp_all add: keep\<close>)[4]
    apply (rule reads_Cons, rule reads_opt_unique, rule reads_lp)
        apply (use o m0 in \<open>simp_all add: keep\<close>)[4]
    apply (rule reads_Cons, rule reads_userProperty)
      apply (use o in simp_all)[2]
    apply (rule reads_Cons, rule reads_set, rule refl)
    by (rule reads_Nil) simp
qed

lemma NewAuth_type: "Type NewAuthMessage = AUTH"
  by (simp add: NewAuthMessage_def new_header_def header.defs Type_def first_byte_def DefaultFlags_def mtype_of_def)

lemma auth_Decode_bytes:
  assumes ok: "auth_ok m" and v: "vis src = frame m (auth_body m)"
  shows "auth_Decode src NewAuthMessage
    = Go \<lparr>d_hn = Suc (length (varint (length (auth_body m)))), d_tot = length (vis src),
        d_msg = auth_decoded (vis src) m\<rparr>"
proof -
  let ?b = "length (auth_body m)"
  define m0 where "m0 = NewAuthMessage\<lparr>dbuf := vis src, mtf := mtf m, remlen := word_of_nat ?b\<rparr>"
  let ?hn = "Suc (length (varint ?b))" and ?s = "\<lparr>d_hn = Suc (length (varint ?b)), d_tot = Suc (length (varint ?b)), d_msg = m0\<rparr>"
  have o: "Type m = AUTH" "flags_ok (mtf m)"
    using ok by (simp_all add: auth_ok_def)
  note z = auth_sizes [OF ok]
  note u = plen_ok(2,4) [OF z(2)]
  have vs: "vis src = mtf m # varint ?b @ auth_body m"
    by (simp add: v frame_def)
  have h: "dec_header src (dstart NewAuthMessage) = Go ?s" and l0: "left src (d_tot ?s) (auth_body m)"
    using dec_header_rt [OF vs z(2) refl o(2), of NewAuthMessage] o(1) NewAuth_type
    by (simp_all add: m0_def Type_def exempt_def)
  have r: "dec_remlen src ?s = Go ?s"
    using left_reslice [OF l0] u(1) by (simp add: dec_remlen_def m0_def)
  have tot: "length (vis src) = ?hn + ?b"
    by (simp add: vs)
  have dec: "auth_decoded (vis src) m = m0\<lparr>reasonCode := reasonCode m, propertiesLen := word_of_nat (length (auth_props m)),
      authMethod := authMethod m, authData := authData m, reasonStr := reasonStr m,
      userProperty := up_pad (userProperty m), dirty := auth_short m\<rparr>"
    by (simp add: auth_decoded_def auth_built_def m0_def NewAuthMessage_def new_header_def header.defs)
  show ?thesis
  proof (cases "auth_short m")
    case True
    then have "m0\<lparr>reasonCode := Success\<rparr> = auth_decoded (vis src) m"
      unfolding dec using auth_short_iff [of m]
      by (simp add: auth_short_def m0_def NewAuthMessage_def new_header_def header.defs)
    then show ?thesis
      using h r tot True by (simp add: auth_Decode_def auth_body_def m0_def)
  next
    case False
    then have "remlen m0 \<noteq> 0"
      using u(2) by (simp add: m0_def auth_body_def)
    moreover have "left src (d_tot ?s) (auth_body m @ [])"
      using l0 by simp
    from readsD [OF auth_dec_props_rt [OF ok False] _ this, of m0]
    have "steps (auth_dec_props src) ?s = Go (?s\<lparr>d_tot := d_tot ?s + ?b, d_msg := auth_decoded (vis src) m\<rparr>)"
      using False unfolding dec by (simp add: m0_def NewAuthMessage_def header.defs)
    ultimately show ?thesis
      using h r tot by (simp add: auth_Decode_def)
  qed
qed

definition sample_auth :: auth where
  "sample_auth = NewAuthMessage\<lparr>reasonCode := 0x18, authMethod := [0x6D], authData := [1, 2], reasonStr := [0x72]\<rparr>"

lemma sample_auth_ok: "auth_ok sample_auth" "dirty sample_auth"
  by code_simp+

text \<open>Round trip of AUTH: the two encoders produce the same bytes, and \<open>Decode\<close> reads them back,
  whatever capacity lies behind them, into a message with the same reason code and properties. The
  short form, success without properties, stays marked as changed.\<close>

theorem auth_roundtrip:
  assumes "auth_ok m" and "dirty m"
  shows "\<exists>s t. auth_EncodeToBuf \<lparr>b_buf = [], b_msg = m, b_gpid = g\<rparr> = Go s
    \<and> auth_Encode \<lparr>e_dst = b_buf s, e_tot = 0, e_msg = m, e_gpid = g\<rparr> =
        Go \<lparr>e_dst = b_buf s, e_tot = length (b_buf s), e_msg = b_msg s, e_gpid = g\<rparr>
    \<and> auth_Decode (GSlice (b_buf s) sp) NewAuthMessage = Go t
    \<and> d_tot t = length (b_buf s) \<and> reasonCode (d_msg t) = reasonCode m \<and> authMethod (d_msg t) = authMethod m
    \<and> authData (d_msg t) = authData m \<and> reasonStr (d_msg t) = reasonStr m
    \<and> userProperty (d_msg t) = up_pad (userProperty m) \<and> (dirty (d_msg t) \<longleftrightarrow> auth_short m)"
proof -
  obtain s where s: "auth_EncodeToBuf \<lparr>b_buf = [], b_msg = m, b_gpid = g\<rparr> = Go s"
    "b_buf s = frame m (auth_body m)"
    using au.encoders_agree [OF assms] by blast
  moreover have "auth_Encode \<lparr>e_dst = b_buf s, e_tot = 0, e_msg = m, e_gpid = g\<rparr> =
        Go \<lparr>e_dst = b_buf s, e_tot = length (b_buf s), e_msg = b_msg s, e_gpid = g\<rparr>"
    using au.encoders_agree [OF assms, of g "b_buf s"] s(1) by auto
  ultimately show ?thesis
    using auth_Decode_bytes [OF assms(1), of "GSlice (b_buf s) sp"] by (auto simp: auth_decoded_def)
qed

theorem auth_roundtrip_witness:
  "\<exists>s t. auth_EncodeToBuf \<lparr>b_buf = [], b_msg = sample_auth, b_gpid = 0\<rparr> = Go s
    \<and> auth_Decode (GSlice (b_buf s) []) NewAuthMessage = Go t
    \<and> reasonCode (d_msg t) = 0x18 \<and> authData (d_msg t) = [1, 2]"
  using auth_roundtrip [OF sample_auth_ok, of 0 "[]"] by (auto simp: sample_auth_def)

end
