(* ===== verification/Subscribe.thy ===== *)
theory Subscribe
  imports PacketFrame
begin

text \<open>
  The SUBSCRIBE packet, broker/core/message/subscribe.go: the record with its parallel
  lists of filters and options, the operations on them, \<open>build\<close>, \<open>Len\<close>, \<open>Encode\<close>,
  \<open>EncodeToBuf\<close> and \<open>Decode\<close>. An operation that indexes a list beyond its end is None.
\<close>

record subscribe = header +
  propertiesLen :: uint32
  subscriptionIdentifier :: uint32
  userProperty :: "bytes list"
  topics :: "bytes list"
  qos :: bytes
  noLocal :: bytes
  retainAsPub :: bytes
  retainHandling :: bytes

definition NewSubscribeMessage :: subscribe where
  "NewSubscribeMessage = header.extend (new_header SUBSCRIBE)
     \<lparr>propertiesLen = 0, subscriptionIdentifier = 0, userProperty = [], topics = [], qos = [], noLocal = [],
      retainAsPub = [], retainHandling = []\<rparr>"

definition SetPropertiesLen :: "uint32 \<Rightarrow> subscribe \<Rightarrow> subscribe" where
  "SetPropertiesLen v m = m\<lparr>propertiesLen := v, dirty := True\<rparr>"
definition SetSubscriptionIdentifier :: "uint32 \<Rightarrow> subscribe \<Rightarrow> subscribe" where
  "SetSubscriptionIdentifier v m = m\<lparr>subscriptionIdentifier := v, dirty := True\<rparr>"
definition SetUserProperties :: "bytes list \<Rightarrow> subscribe \<Rightarrow> subscribe" where
  "SetUserProperties v m = m\<lparr>userProperty := v, dirty := True\<rparr>"
definition AddUserPropertys :: "bytes list \<Rightarrow> subscribe \<Rightarrow> subscribe" where
  "AddUserPropertys v m = m\<lparr>userProperty := userProperty m @ v, dirty := True\<rparr>"
definition AddUserProperty :: "bytes \<Rightarrow> subscribe \<Rightarrow> subscribe" where
  "AddUserProperty v m = m\<lparr>userProperty := userProperty m @ [v], dirty := True\<rparr>"

section \<open>The list of filters\<close>

text \<open>The index of the first filter equal to the given one\<close>

fun find_topic :: "bytes \<Rightarrow> bytes list \<Rightarrow> nat option" where
  "find_topic t [] = None"
| "find_topic t (u # us) = (if u = t then Some 0 else map_option Suc (find_topic t us))"

definition nth_opt :: "'a list \<Rightarrow> nat \<Rightarrow> 'a option" where
  "nth_opt xs i = (if i < length xs then Some (xs ! i) else None)"

definition upd_opt :: "'a list \<Rightarrow> nat \<Rightarrow> 'a \<Rightarrow> 'a list option" where
  "upd_opt xs i v = (if i < length xs then Some (xs[i := v]) else None)"

text \<open>\<open>append(xs[:i], xs[i+1:]...)\<close>\<close>

definition del_opt :: "'a list \<Rightarrow> nat \<Rightarrow> 'a list option" where
  "del_opt xs i = (if i < length xs then Some (take i xs @ drop (Suc i) xs) else None)"

text \<open>\<open>Clone\<close> fills a fresh message per filter from the options at index 0, and then appends the
  receiver instead of it.\<close>

definition Clone :: "subscribe \<Rightarrow> subscribe list option" where
  "Clone m =
     (if topics m = [] then Some []
      else if qos m = [] \<or> retainHandling m = [] \<or> retainAsPub m = [] \<or> noLocal m = [] then None
      else Some (replicate (length (topics m)) m))"

definition AddTopicOpts :: "bytes \<Rightarrow> byte \<Rightarrow> byte \<Rightarrow> byte \<Rightarrow> byte \<Rightarrow> subscribe \<Rightarrow> subscribe option" where
  "AddTopicOpts t q nl rap rh m =
     (case find_topic t (topics m) of
        Some i \<Rightarrow> map_option (\<lambda>qs. m\<lparr>qos := qs\<rparr>) (upd_opt (qos m) i q)
      | None \<Rightarrow> Some (m\<lparr>topics := topics m @ [t], qos := qos m @ [q], noLocal := noLocal m @ [nl],
                      retainAsPub := retainAsPub m @ [rap], retainHandling := retainHandling m @ [rh], dirty := True\<rparr>))"

definition AddTopic :: "bytes \<Rightarrow> byte \<Rightarrow> subscribe \<Rightarrow> (subscribe \<times> goerr option) option" where
  "AddTopic t q m =
     (if \<not> ValidQos q then Some (m, Some (Errorf ''Invalid QoS''))
      else map_option (\<lambda>m. (m, None)) (AddTopicOpts t q 0 0 0 m))"

definition AddTopicAll :: "bytes \<Rightarrow> byte \<Rightarrow> bool \<Rightarrow> bool \<Rightarrow> byte \<Rightarrow> subscribe \<Rightarrow> (subscribe \<times> goerr option) option" where
  "AddTopicAll t q nl rap rh m =
     (if \<not> ValidQos q then Some (m, Some (Errorf ''Invalid QoS''))
      else if rh > 2 then Some (m, Some (Errorf ''Invalid Sub Option RetainHandling''))
      else map_option (\<lambda>m. (m, None)) (AddTopicOpts t q (if nl then 1 else 0) (if rap then 1 else 0) rh m))"

definition RemoveTopic :: "bytes \<Rightarrow> subscribe \<Rightarrow> subscribe option" where
  "RemoveTopic t m =
     (case find_topic t (topics m) of
        None \<Rightarrow> Some (m\<lparr>dirty := True\<rparr>)
      | Some i \<Rightarrow>
          (case (del_opt (topics m) i, del_opt (qos m) i, del_opt (noLocal m) i, del_opt (retainAsPub m) i, del_opt (retainHandling m) i) of
             (Some ts, Some qs, Some nls, Some raps, Some rhs) \<Rightarrow>
               Some (m\<lparr>topics := ts, qos := qs, noLocal := nls, retainAsPub := raps, retainHandling := rhs, dirty := True\<rparr>)
           | _ \<Rightarrow> None))"

definition TopicExists :: "bytes \<Rightarrow> subscribe \<Rightarrow> bool" where
  "TopicExists t m \<longleftrightarrow> t \<in> set (topics m)"

text \<open>The option of a filter, with a default for a filter that is not there\<close>

definition topic_opt :: "bytes \<Rightarrow> (subscribe \<Rightarrow> 'a list) \<Rightarrow> 'a \<Rightarrow> subscribe \<Rightarrow> 'a option" where
  "topic_opt t f d m = (case find_topic t (topics m) of None \<Rightarrow> Some d | Some i \<Rightarrow> nth_opt (f m) i)"

definition TopicQos :: "bytes \<Rightarrow> subscribe \<Rightarrow> byte option" where
  "TopicQos t m = topic_opt t qos QosFailure m"
definition TopicNoLocal :: "bytes \<Rightarrow> subscribe \<Rightarrow> bool option" where
  "TopicNoLocal t m = map_option (\<lambda>v. v > 0) (topic_opt t noLocal 0 m)"
definition TopicRetainAsPublished :: "bytes \<Rightarrow> subscribe \<Rightarrow> bool option" where
  "TopicRetainAsPublished t m = map_option (\<lambda>v. v > 0) (topic_opt t retainAsPub 0 m)"
definition TopicRetainHandling :: "bytes \<Rightarrow> subscribe \<Rightarrow> byte option" where
  "TopicRetainHandling t m = topic_opt t retainHandling 0 m"

definition SetTopicNoLocal :: "bytes \<Rightarrow> bool \<Rightarrow> subscribe \<Rightarrow> subscribe option" where
  "SetTopicNoLocal t v m =
     (case find_topic t (topics m) of None \<Rightarrow> Some m
      | Some i \<Rightarrow> map_option (\<lambda>xs. m\<lparr>noLocal := xs, dirty := True\<rparr>) (upd_opt (noLocal m) i (if v then 1 else 0)))"
definition SetTopicRetainAsPublished :: "bytes \<Rightarrow> bool \<Rightarrow> subscribe \<Rightarrow> subscribe option" where
  "SetTopicRetainAsPublished t v m =
     (case find_topic t (topics m) of None \<Rightarrow> Some m
      | Some i \<Rightarrow> map_option (\<lambda>xs. m\<lparr>retainAsPub := xs, dirty := True\<rparr>) (upd_opt (retainAsPub m) i (if v then 1 else 0)))"
definition SetTopicRetainHandling :: "bytes \<Rightarrow> byte \<Rightarrow> subscribe \<Rightarrow> subscribe option" where
  "SetTopicRetainHandling t v m =
     (case find_topic t (topics m) of None \<Rightarrow> Some m
      | Some i \<Rightarrow> map_option (\<lambda>xs. m\<lparr>retainHandling := xs, dirty := True\<rparr>) (upd_opt (retainHandling m) i v))"

section \<open>Length\<close>

definition subid_written :: "subscribe \<Rightarrow> bool" where
  "subid_written m \<longleftrightarrow> subscriptionIdentifier m > 0 \<and> subscriptionIdentifier m \<le> 268435455"

definition subscribe_build :: "subscribe \<Rightarrow> subscribe option" where
  "subscribe_build m =
     (case (if subid_written m then map_option (\<lambda>b. 1 + length b) (lbEncode (subscriptionIdentifier m)) else Some 0) of
        None \<Rightarrow> None
      | Some n \<Rightarrow>
          let total = 2 + n + buildUserPropertyLen (userProperty m);
              m1 = m\<lparr>propertiesLen := word_of_nat (total - 2)\<rparr> in
          (case lbEncode (propertiesLen m1) of
             None \<Rightarrow> None
           | Some b \<Rightarrow> Some (fst (SetRemainingLength
               (word_of_nat (total + length b + sum_list (map (\<lambda>t. 2 + length t + 1) (topics m1)))) m1))))"

definition subscribe_Len :: "subscribe \<Rightarrow> (nat \<times> subscribe) option" where
  "subscribe_Len m =
     (if \<not> dirty m then Some (length (dbuf m), m)
      else case subscribe_build m of
        None \<Rightarrow> None
      | Some m1 \<Rightarrow>
          (case SetRemainingLength (remlen m1) m1 of
             (m2, Some e) \<Rightarrow> Some (0, m2)
           | (m2, None) \<Rightarrow> Some (header_msglen m2 + unat (remlen m1), m2)))"

section \<open>Encoding\<close>

text \<open>The option byte of filter \<open>i\<close>\<close>

definition sub_option :: "subscribe \<Rightarrow> nat \<Rightarrow> byte option" where
  "sub_option m i =
     (case (nth_opt (qos m) i, nth_opt (noLocal m) i, nth_opt (retainAsPub m) i, nth_opt (retainHandling m) i) of
        (Some q, Some nl, Some rap, Some rh) \<Rightarrow> Some (q OR push_bit 2 nl OR push_bit 3 rap OR push_bit 4 rh)
      | _ \<Rightarrow> None)"

fun buf_topics :: "nat \<Rightarrow> bytes list \<Rightarrow> subscribe bstate \<Rightarrow> subscribe bstate out" where
  "buf_topics i [] s = Go s"
| "buf_topics i (t # ts) s =
     (case buf_lp (\<lambda>_. t) s of
        Go s1 \<Rightarrow> (case sub_option (b_msg s1) i of
            None \<Rightarrow> Panic
          | Some b \<Rightarrow> andthen (buf_write (\<lambda>_. [b]) s1) (buf_topics (Suc i) ts) Fail)
      | Fail n e s1 \<Rightarrow> Fail n e s1
      | Panic \<Rightarrow> Panic)"

fun enc_topics :: "nat \<Rightarrow> bytes list \<Rightarrow> subscribe estate \<Rightarrow> subscribe estate out" where
  "enc_topics i [] s = Go s"
| "enc_topics i (t # ts) s =
     (case enc_lp (\<lambda>_. t) s of
        Go s1 \<Rightarrow> (case sub_option (e_msg s1) i of
            None \<Rightarrow> Panic
          | Some b \<Rightarrow> andthen (enc_byte (\<lambda>_. b) s1) (enc_topics (Suc i) ts) Fail)
      | Fail n e s1 \<Rightarrow> Fail n e s1
      | Panic \<Rightarrow> Panic)"

definition subscribe_buf_steps :: "(subscribe bstate \<Rightarrow> subscribe bstate out) list" where
  "subscribe_buf_steps =
     [buf_header,
      buf_packetId,
      buf_lb propertiesLen,
      buf_when subid_written [buf_write (\<lambda>_. [DefiningIdentifiers]), buf_lb subscriptionIdentifier],
      buf_userProperty userProperty,
      (\<lambda>s. buf_topics 0 (topics (b_msg s)) s)]"

definition subscribe_EncodeToBuf :: "subscribe bstate \<Rightarrow> subscribe bstate out" where
  "subscribe_EncodeToBuf s =
     (let m = b_msg s in
      if \<not> dirty m then Go (s\<lparr>b_buf := b_buf s @ dbuf m\<rparr>)
      else case subscribe_build m of
        None \<Rightarrow> Panic
      | Some m1 \<Rightarrow>
          (case SetRemainingLength (remlen m1) m1 of
             (m2, Some e) \<Rightarrow> Fail 0 e (s\<lparr>b_msg := m2\<rparr>)
           | (m2, None) \<Rightarrow> steps subscribe_buf_steps (s\<lparr>b_msg := m2\<rparr>)))"

definition subscribe_enc_steps :: "(subscribe estate \<Rightarrow> subscribe estate out) list" where
  "subscribe_enc_steps =
     [enc_header,
      enc_packetId,
      enc_lb propertiesLen,
      enc_when subid_written [enc_byte (\<lambda>_. DefiningIdentifiers), enc_lb subscriptionIdentifier],
      enc_userProperty userProperty,
      (\<lambda>s. enc_topics 0 (topics (e_msg s)) s)]"

definition subscribe_Encode :: "subscribe estate \<Rightarrow> subscribe estate out" where
  "subscribe_Encode s =
     (let m = e_msg s in
      if \<not> dirty m then
        (if length (e_dst s) < length (dbuf m)
         then Fail 0 (Errorf ''subscribe/Encode: Insufficient buffer size.'') s
         else Go (s\<lparr>e_dst := blit (e_dst s) 0 (dbuf m), e_tot := length (dbuf m)\<rparr>))
      else case subscribe_build m of
        None \<Rightarrow> Panic
      | Some m1 \<Rightarrow>
          (if length (e_dst s) < header_msglen m1 + unat (remlen m1)
           then Fail 0 (Errorf ''subscribe/Encode: Insufficient buffer size.'') (s\<lparr>e_msg := m1\<rparr>)
           else case SetRemainingLength (remlen m1) m1 of
             (m2, Some e) \<Rightarrow> Fail 0 e (s\<lparr>e_msg := m2\<rparr>)
           | (m2, None) \<Rightarrow> steps subscribe_enc_steps (s\<lparr>e_msg := m2, e_tot := 0\<rparr>)))"

section \<open>Decoding\<close>

text \<open>\<open>if int(propertiesLen) > len(src[total:]) { return total, ProtocolError }\<close>\<close>

definition dec_plen :: "gslice \<Rightarrow> ('m \<Rightarrow> uint32) \<Rightarrow> 'm dstate \<Rightarrow> 'm dstate out" where
  "dec_plen src f s =
     (case reslice src (d_tot s) of
        None \<Rightarrow> Panic
      | Some sl \<Rightarrow> (if unat (f (d_msg s)) > length (vis sl) then ret_total s (Code ProtocolError) else Go s))"

text \<open>\<open>if bad || src[total] == code { return total, ProtocolError }\<close>, with no test of the length\<close>

definition dec_next_not :: "gslice \<Rightarrow> byte \<Rightarrow> ('m \<Rightarrow> bool) \<Rightarrow> 'm dstate \<Rightarrow> 'm dstate out" where
  "dec_next_not src code bad s =
     (if bad (d_msg s) then ret_total s (Code ProtocolError)
      else case at src (d_tot s) of
        None \<Rightarrow> Panic
      | Some b \<Rightarrow> if b = code then ret_total s (Code ProtocolError) else Go s)"

definition sub_dec_option :: "byte \<Rightarrow> subscribe dstate \<Rightarrow> subscribe dstate out" where
  "sub_dec_option b s =
     (let s1 = s\<lparr>d_msg := (d_msg s)\<lparr>qos := qos (d_msg s) @ [b AND 3]\<rparr>\<rparr> in
      if b AND 3 = 3 then ret_proto s1 (Code ProtocolError)
      else let s2 = s1\<lparr>d_msg := (d_msg s1)\<lparr>noLocal := noLocal (d_msg s1) @ [drop_bit 2 (b AND 4)],
             retainAsPub := retainAsPub (d_msg s1) @ [drop_bit 3 (b AND 8)],
             retainHandling := retainHandling (d_msg s1) @ [drop_bit 4 (b AND 48)]\<rparr>\<rparr> in
      if drop_bit 4 (b AND 48) = 3 then ret_proto s2 (Code ProtocolError)
      else if drop_bit 6 b \<noteq> 0 then ret_proto s2 (Code ProtocolError)
      else Go (s2\<lparr>d_tot := Suc (d_tot s2)\<rparr>))"

function sub_dec_topics :: "gslice \<Rightarrow> int \<Rightarrow> subscribe dstate \<Rightarrow> subscribe dstate out" where
  "sub_dec_topics src n s =
     (if n \<le> 0 then Go s
      else case reslice src (d_tot s) of
        None \<Rightarrow> Panic
      | Some sl \<Rightarrow> (case readLPBytes sl of
          None \<Rightarrow> Panic
        | Some (t, k, Some e) \<Rightarrow> ret_total (s\<lparr>d_tot := d_tot s + k\<rparr>) e
        | Some (t, k, None) \<Rightarrow>
            let s1 = s\<lparr>d_tot := d_tot s + k, d_msg := (d_msg s)\<lparr>topics := topics (d_msg s) @ [t]\<rparr>\<rparr> in
            (case at src (d_tot s1) of
               None \<Rightarrow> Panic
             | Some b \<Rightarrow> andthen (sub_dec_option b s1) (sub_dec_topics src (n - int k - 1)) Fail)))"
  by pat_completeness auto
termination by (relation "measure (\<lambda>(src, n, s). nat n)") auto

declare sub_dec_topics.simps [simp del]

definition subscribe_dec_front :: "gslice \<Rightarrow> (subscribe dstate \<Rightarrow> subscribe dstate out) list" where
  "subscribe_dec_front src =
     [dec_packetId src,
      dec_lb src (\<lambda>v m. m\<lparr>propertiesLen := v\<rparr>) ret_total,
      dec_plen src propertiesLen,
      dec_when src DefiningIdentifiers
        [dec_lb src (\<lambda>v m. m\<lparr>subscriptionIdentifier := v\<rparr>) ret_total,
         dec_next_not src DefiningIdentifiers (\<lambda>m. subscriptionIdentifier m = 0)],
      dec_userProperty src (\<lambda>v m. m\<lparr>userProperty := v\<rparr>)]"

definition subscribe_Decode :: "gslice \<Rightarrow> subscribe \<Rightarrow> subscribe dstate out" where
  "subscribe_Decode src m0 =
     steps [dec_header src,
       steps (subscribe_dec_front src),
       (\<lambda>s. sub_dec_topics src (uint (remlen (d_msg s)) - (int (d_tot s) - int (d_hn s))) s),
       (\<lambda>s. if length (topics (d_msg s)) = 0 then ret_proto s (Code ProtocolError) else Go s),
       dec_set (\<lambda>m. m\<lparr>dirty := False\<rparr>)] (dstart m0)"

end
