(* ===== verification/Suback.thy ===== *)
theory Suback
  imports Subscribe
begin

text \<open>
  The packets SUBACK and UNSUBACK, broker/core/message/suback.go and unsuback.go. The two Go
  types have the same fields (the property length is called \<open>propertiesLen\<close> in one and
  \<open>propertyLen\<close> in the other) and repeat each other's \<open>build\<close>, \<open>Len\<close>, statements of the
  encoders and of the decoder; they differ in the tests of the reason codes and in the test of
  the property length. So they share one record and the definitions that are the same.
\<close>

record suback = header +
  propertiesLen :: uint32
  reasonStr :: bytes
  userProperty :: "bytes list"
  reasonCodes :: bytes

definition new_codes :: "mtype \<Rightarrow> suback" where
  "new_codes t = header.extend (new_header t)
     \<lparr>propertiesLen = 0, reasonStr = [], userProperty = [], reasonCodes = []\<rparr>"

definition NewSubackMessage :: suback where "NewSubackMessage = new_codes SUBACK"
definition NewUnsubackMessage :: suback where "NewUnsubackMessage = new_codes UNSUBACK"

definition SetPropertiesLen :: "uint32 \<Rightarrow> suback \<Rightarrow> suback" where
  "SetPropertiesLen v m = m\<lparr>propertiesLen := v, dirty := True\<rparr>"
definition SetReasonStr :: "bytes \<Rightarrow> suback \<Rightarrow> suback" where
  "SetReasonStr v m = m\<lparr>reasonStr := v, dirty := True\<rparr>"
definition SetUserProperties :: "bytes list \<Rightarrow> suback \<Rightarrow> suback" where
  "SetUserProperties v m = m\<lparr>userProperty := v, dirty := True\<rparr>"
definition AddUserPropertys :: "bytes list \<Rightarrow> suback \<Rightarrow> suback" where
  "AddUserPropertys v m = m\<lparr>userProperty := userProperty m @ v, dirty := True\<rparr>"
definition AddUserProperty :: "bytes \<Rightarrow> suback \<Rightarrow> suback" where
  "AddUserProperty v m = m\<lparr>userProperty := userProperty m @ [v], dirty := True\<rparr>"

text \<open>\<open>SubackMessage.AddReasonCodes\<close>: the codes before the first one that is refused are added.\<close>

fun AddReasonCodes :: "bytes \<Rightarrow> suback \<Rightarrow> suback \<times> goerr option" where
  "AddReasonCodes [] m = (m\<lparr>dirty := True\<rparr>, None)"
| "AddReasonCodes (c # cs) m =
     (if c \<noteq> QosAtMostOnce \<and> c \<noteq> QosAtLeastOnce \<and> c \<noteq> QosExactlyOnce \<and> c \<noteq> QosFailure
      then (m, Some (Errorf ''suback/AddReturnCode: Invalid return code. Must be 0, 1, 2, 0x80.''))
      else AddReasonCodes cs (m\<lparr>reasonCodes := reasonCodes m @ [c]\<rparr>))"

definition AddReasonCode :: "byte \<Rightarrow> suback \<Rightarrow> suback \<times> goerr option" where
  "AddReasonCode c m = AddReasonCodes [c] m"

definition unsub_AddReasonCodes :: "bytes \<Rightarrow> suback \<Rightarrow> suback" where
  "unsub_AddReasonCodes cs m = m\<lparr>reasonCodes := reasonCodes m @ cs, dirty := True\<rparr>"
definition unsub_AddReasonCode :: "byte \<Rightarrow> suback \<Rightarrow> suback" where
  "unsub_AddReasonCode c m = m\<lparr>reasonCodes := reasonCodes m @ [c], dirty := True\<rparr>"

section \<open>Length\<close>

definition suback_build :: "suback \<Rightarrow> suback option" where
  "suback_build m =
     (let total = 2 + prop_len (reasonStr m) + buildUserPropertyLen (userProperty m);
          m1 = m\<lparr>propertiesLen := word_of_nat (total - 2)\<rparr> in
      case lbEncode (propertiesLen m1) of
        None \<Rightarrow> None
      | Some b \<Rightarrow> Some (fst (SetRemainingLength
          (word_of_nat (total + length b + length (reasonCodes m1))) m1)))"

definition suback_Len :: "suback \<Rightarrow> (nat \<times> suback) option" where
  "suback_Len m =
     (if \<not> dirty m then Some (length (dbuf m), m)
      else case suback_build m of
        None \<Rightarrow> None
      | Some m1 \<Rightarrow>
          (case SetRemainingLength (remlen m1) m1 of
             (m2, Some e) \<Rightarrow> Some (0, m2)
           | (m2, None) \<Rightarrow> Some (header_msglen m2 + unat (remlen m1), m2)))"

section \<open>Encoding\<close>

definition suback_buf_steps :: "(suback bstate \<Rightarrow> suback bstate out) list" where
  "suback_buf_steps =
     [buf_header,
      buf_write (\<lambda>m. if length (packetId m) \<noteq> 2 then [0, 0] else packetId m),
      buf_lb propertiesLen,
      buf_when (\<lambda>m. length (reasonStr m) > 0)
        [buf_write (\<lambda>_. [ReasonString]), buf_lp reasonStr],
      buf_userProperty userProperty,
      buf_write reasonCodes]"

text \<open>The part of \<open>EncodeToBuf\<close> behind the tests\<close>

definition codes_EncodeToBuf :: "suback bstate \<Rightarrow> suback bstate out" where
  "codes_EncodeToBuf s =
     (case suback_build (b_msg s) of
        None \<Rightarrow> Panic
      | Some m1 \<Rightarrow>
          (case SetRemainingLength (remlen m1) m1 of
             (m2, Some e) \<Rightarrow> Fail 0 e (s\<lparr>b_msg := m2\<rparr>)
           | (m2, None) \<Rightarrow> steps suback_buf_steps (s\<lparr>b_msg := m2\<rparr>)))"

definition suback_EncodeToBuf :: "suback bstate \<Rightarrow> suback bstate out" where
  "suback_EncodeToBuf s =
     (let m = b_msg s in
      if \<not> dirty m then Go (s\<lparr>b_buf := b_buf s @ dbuf m\<rparr>)
      else if \<not> list_all ValidSubAckReasonCode (reasonCodes m)
        then Fail 0 (Errorf ''suback/Encode: Invalid return code'') s
      else codes_EncodeToBuf s)"

definition unsuback_EncodeToBuf :: "suback bstate \<Rightarrow> suback bstate out" where
  "unsuback_EncodeToBuf s =
     (let m = b_msg s in
      if \<not> dirty m then Go (s\<lparr>b_buf := b_buf s @ dbuf m\<rparr>) else codes_EncodeToBuf s)"

text \<open>\<open>if copy(dst[total:total+2], packetId) != 2 { dst[total], dst[total+1] = 0, 0 }; total += 2\<close>\<close>

definition enc_id0 :: "'a header_scheme estate \<Rightarrow> 'a header_scheme estate out" where
  "enc_id0 e =
     (if e_tot e + 2 \<le> length (e_dst e)
      then Go (e\<lparr>e_dst := blit (e_dst e) (e_tot e)
               (if length (packetId (e_msg e)) < 2 then [0, 0] else take 2 (packetId (e_msg e))),
             e_tot := e_tot e + 2\<rparr>)
      else Panic)"

definition suback_enc_steps :: "(suback estate \<Rightarrow> suback estate out) list" where
  "suback_enc_steps =
     [enc_header,
      enc_id0,
      enc_lb propertiesLen,
      enc_when (\<lambda>m. length (reasonStr m) > 0)
        [enc_byte (\<lambda>_. ReasonString), enc_lp reasonStr],
      enc_userProperty userProperty,
      enc_copy reasonCodes]"

definition codes_Encode :: "goerr \<Rightarrow> suback estate \<Rightarrow> suback estate out" where
  "codes_Encode small s =
     (case suback_build (e_msg s) of
        None \<Rightarrow> Panic
      | Some m1 \<Rightarrow>
          (if length (e_dst s) < header_msglen m1 + unat (remlen m1) then Fail 0 small (s\<lparr>e_msg := m1\<rparr>)
           else case SetRemainingLength (remlen m1) m1 of
             (m2, Some e) \<Rightarrow> Fail 0 e (s\<lparr>e_msg := m2\<rparr>)
           | (m2, None) \<Rightarrow> steps suback_enc_steps (s\<lparr>e_msg := m2, e_tot := 0\<rparr>)))"

definition suback_small :: goerr where
  "suback_small = Errorf ''suback/Encode: Insufficient buffer size.''"
definition unsuback_small :: goerr where
  "unsuback_small = Errorf ''unsuback/Encode: Insufficient buffer size.''"

definition suback_Encode :: "suback estate \<Rightarrow> suback estate out" where
  "suback_Encode s =
     (let m = e_msg s in
      if \<not> dirty m then
        (if length (e_dst s) < length (dbuf m) then Fail 0 suback_small s
         else Go (s\<lparr>e_dst := blit (e_dst s) 0 (dbuf m), e_tot := length (dbuf m)\<rparr>))
      else if \<not> list_all ValidSubAckReasonCode (reasonCodes m)
        then Fail 0 (Errorf ''suback/Encode: Invalid return code'') s
      else codes_Encode suback_small s)"

definition unsuback_Encode :: "suback estate \<Rightarrow> suback estate out" where
  "unsuback_Encode s =
     (let m = e_msg s in
      if \<not> dirty m then
        (if length (e_dst s) < length (dbuf m) then Fail 0 unsuback_small s
         else Go (s\<lparr>e_dst := blit (e_dst s) 0 (dbuf m), e_tot := length (dbuf m)\<rparr>))
      else codes_Encode unsuback_small s)"

section \<open>Decoding\<close>

text \<open>
  The rest of the packet is the list of codes. A negative length is a slice expression with
  its bounds in the wrong order.
\<close>

definition dec_codes :: "gslice \<Rightarrow> (byte \<Rightarrow> bool) \<Rightarrow> suback dstate \<Rightarrow> suback dstate out" where
  "dec_codes src valid s =
     (let l = uint (remlen (d_msg s)) - (int (d_tot s) - int (d_hn s)) in
      if l = 0 then ret_total s (Code ProtocolError)
      else if l < 0 then Panic
      else case sub src (d_tot s) (d_tot s + nat l) of
        None \<Rightarrow> Panic
      | Some b \<Rightarrow>
          let cs = CopyLen b l;
              s1 = s\<lparr>d_tot := d_tot s + length cs, d_msg := (d_msg s)\<lparr>reasonCodes := cs\<rparr>\<rparr> in
          if list_all valid cs then Go s1 else ret_total s1 (Code ProtocolError))"

definition codes_dec_steps :: "gslice \<Rightarrow> (byte \<Rightarrow> bool) \<Rightarrow> (suback dstate \<Rightarrow> suback dstate out) list" where
  "codes_dec_steps src valid =
     [dec_when src ReasonString
        [dec_lp src (\<lambda>v m. m\<lparr>reasonStr := v\<rparr>) ret_total, dec_next_not src ReasonString (\<lambda>_. False)],
      dec_userProperty src (\<lambda>v m. m\<lparr>userProperty := v\<rparr>),
      dec_codes src valid,
      dec_set (\<lambda>m. m\<lparr>dirty := False\<rparr>)]"

definition suback_Decode :: "gslice \<Rightarrow> suback \<Rightarrow> suback dstate out" where
  "suback_Decode src m0 =
     steps ([dec_header src, dec_packetId src, dec_lb src (\<lambda>v m. m\<lparr>propertiesLen := v\<rparr>) ret_total,
       dec_plen src propertiesLen] @ codes_dec_steps src ValidSubAckReasonCode) (dstart m0)"

definition unsuback_Decode :: "gslice \<Rightarrow> suback \<Rightarrow> suback dstate out" where
  "unsuback_Decode src m0 =
     steps ([dec_header src, dec_packetId src, dec_lb src (\<lambda>v m. m\<lparr>propertiesLen := v\<rparr>) ret_total]
       @ codes_dec_steps src ValidUnSubAckReasonCode) (dstart m0)"

end
