(* ===== verification/Unsubscribe.thy ===== *)
theory Unsubscribe
  imports Subscribe
begin

text \<open>
  The UNSUBSCRIBE packet, broker/core/message/unsubscribe.go: the record, the operations on
  its list of filters, \<open>build\<close>, \<open>Len\<close>, \<open>Encode\<close>, \<open>EncodeToBuf\<close> and \<open>Decode\<close>.
\<close>

record unsubscribe = header +
  propertyLen :: uint32
  userProperty :: "bytes list"
  topics :: "bytes list"

definition NewUnsubscribeMessage :: unsubscribe where
  "NewUnsubscribeMessage = header.extend (new_header UNSUBSCRIBE) \<lparr>propertyLen = 0, userProperty = [], topics = []\<rparr>"

definition SetPropertyLen :: "uint32 \<Rightarrow> unsubscribe \<Rightarrow> unsubscribe" where
  "SetPropertyLen v m = m\<lparr>propertyLen := v, dirty := True\<rparr>"
definition SetUserProperties :: "bytes list \<Rightarrow> unsubscribe \<Rightarrow> unsubscribe" where
  "SetUserProperties v m = m\<lparr>userProperty := v, dirty := True\<rparr>"
definition AddUserPropertys :: "bytes list \<Rightarrow> unsubscribe \<Rightarrow> unsubscribe" where
  "AddUserPropertys v m = m\<lparr>userProperty := userProperty m @ v, dirty := True\<rparr>"
definition AddUserProperty :: "bytes \<Rightarrow> unsubscribe \<Rightarrow> unsubscribe" where
  "AddUserProperty v m = m\<lparr>userProperty := userProperty m @ [v], dirty := True\<rparr>"

definition TopicExists :: "bytes \<Rightarrow> unsubscribe \<Rightarrow> bool" where
  "TopicExists t m \<longleftrightarrow> t \<in> set (topics m)"

definition AddTopic :: "bytes \<Rightarrow> unsubscribe \<Rightarrow> unsubscribe" where
  "AddTopic t m = (if TopicExists t m then m else m\<lparr>topics := topics m @ [t], dirty := True\<rparr>)"

definition RemoveTopic :: "bytes \<Rightarrow> unsubscribe \<Rightarrow> unsubscribe" where
  "RemoveTopic t m =
     (case find_topic t (topics m) of
        None \<Rightarrow> m\<lparr>dirty := True\<rparr>
      | Some i \<Rightarrow> m\<lparr>topics := take i (topics m) @ drop (Suc i) (topics m), dirty := True\<rparr>)"

section \<open>Length\<close>

definition unsubscribe_build :: "unsubscribe \<Rightarrow> unsubscribe option" where
  "unsubscribe_build m =
     (let total = buildUserPropertyLen (userProperty m);
          m1 = m\<lparr>propertyLen := word_of_nat total\<rparr>;
          total2 = total + 2 + sum_list (map (\<lambda>t. 2 + length t) (topics m1)) in
      case lbEncode (propertyLen m1) of
        None \<Rightarrow> None
      | Some b \<Rightarrow> Some (fst (SetRemainingLength (word_of_nat (total2 + length b)) m1)))"

definition unsubscribe_Len :: "unsubscribe \<Rightarrow> (nat \<times> unsubscribe) option" where
  "unsubscribe_Len m =
     (if \<not> dirty m then Some (length (dbuf m), m)
      else case unsubscribe_build m of
        None \<Rightarrow> None
      | Some m1 \<Rightarrow>
          (case SetRemainingLength (remlen m1) m1 of
             (m2, Some e) \<Rightarrow> Some (0, m2)
           | (m2, None) \<Rightarrow> Some (header_msglen m2 + unat (remlen m1), m2)))"

section \<open>Encoding\<close>

text \<open>\<open>for _, t := range topics { ... }\<close>\<close>

definition unsubscribe_buf_steps :: "(unsubscribe bstate \<Rightarrow> unsubscribe bstate out) list" where
  "unsubscribe_buf_steps =
     [buf_header,
      buf_packetId,
      buf_lb propertyLen,
      buf_userProperty userProperty,
      (\<lambda>s. steps (map (\<lambda>t. buf_lp (\<lambda>_. t)) (topics (b_msg s))) s)]"

definition unsubscribe_EncodeToBuf :: "unsubscribe bstate \<Rightarrow> unsubscribe bstate out" where
  "unsubscribe_EncodeToBuf s =
     (let m = b_msg s in
      if \<not> dirty m then Go (s\<lparr>b_buf := b_buf s @ dbuf m\<rparr>)
      else case unsubscribe_build m of
        None \<Rightarrow> Panic
      | Some m1 \<Rightarrow>
          (case SetRemainingLength (remlen m1) m1 of
             (m2, Some e) \<Rightarrow> Fail 0 e (s\<lparr>b_msg := m2\<rparr>)
           | (m2, None) \<Rightarrow> steps unsubscribe_buf_steps (s\<lparr>b_msg := m2\<rparr>)))"

definition unsubscribe_enc_steps :: "(unsubscribe estate \<Rightarrow> unsubscribe estate out) list" where
  "unsubscribe_enc_steps =
     [enc_header,
      enc_packetId,
      enc_lb propertyLen,
      enc_userProperty userProperty,
      (\<lambda>s. steps (map (\<lambda>t. enc_lp (\<lambda>_. t)) (topics (e_msg s))) s)]"

definition unsubscribe_Encode :: "unsubscribe estate \<Rightarrow> unsubscribe estate out" where
  "unsubscribe_Encode s =
     (let m = e_msg s in
      if \<not> dirty m then
        (if length (e_dst s) < length (dbuf m)
         then Fail 0 (Errorf ''unsubscribe/Encode: Insufficient buffer size.'') s
         else Go (s\<lparr>e_dst := blit (e_dst s) 0 (dbuf m), e_tot := length (dbuf m)\<rparr>))
      else case unsubscribe_build m of
        None \<Rightarrow> Panic
      | Some m1 \<Rightarrow>
          (if length (e_dst s) < header_msglen m1 + unat (remlen m1)
           then Fail 0 (Errorf ''unsubscribe/Encode: Insufficient buffer size.'') (s\<lparr>e_msg := m1\<rparr>)
           else case SetRemainingLength (remlen m1) m1 of
             (m2, Some e) \<Rightarrow> Fail 0 e (s\<lparr>e_msg := m2\<rparr>)
           | (m2, None) \<Rightarrow> steps unsubscribe_enc_steps (s\<lparr>e_msg := m2, e_tot := 0\<rparr>)))"

section \<open>Decoding\<close>

text \<open>\<open>if total < len(src) && len(src[total:]) >= 4 { propertyLen, n, err = lbDecode(src[total:]) ... }\<close>\<close>

definition unsub_dec_plen :: "gslice \<Rightarrow> unsubscribe dstate \<Rightarrow> unsubscribe dstate out" where
  "unsub_dec_plen src s =
     (if d_tot s < length (vis src) \<and> length (vis src) - d_tot s \<ge> 4
      then dec_lb src (\<lambda>v m. m\<lparr>propertyLen := v\<rparr>) ret_total s else Go s)"

text \<open>The loop counts one byte more per filter than it reads.\<close>

function unsub_dec_topics :: "gslice \<Rightarrow> int \<Rightarrow> unsubscribe dstate \<Rightarrow> unsubscribe dstate out" where
  "unsub_dec_topics src n s =
     (if n \<le> 0 then Go s
      else case reslice src (d_tot s) of
        None \<Rightarrow> Panic
      | Some sl \<Rightarrow> (case readLPBytes sl of
          None \<Rightarrow> Panic
        | Some (t, k, Some e) \<Rightarrow> ret_total (s\<lparr>d_tot := d_tot s + k\<rparr>) e
        | Some (t, k, None) \<Rightarrow>
            unsub_dec_topics src (n - int k - 1)
              (s\<lparr>d_tot := d_tot s + k, d_msg := (d_msg s)\<lparr>topics := topics (d_msg s) @ [t]\<rparr>\<rparr>)))"
  by pat_completeness auto
termination by (relation "measure (\<lambda>(src, n, s). nat n)") auto

declare unsub_dec_topics.simps [simp del]

definition unsubscribe_Decode :: "gslice \<Rightarrow> unsubscribe \<Rightarrow> unsubscribe dstate out" where
  "unsubscribe_Decode src m0 =
     steps [dec_header src,
       dec_packetId src,
       unsub_dec_plen src,
       dec_userProperty src (\<lambda>v m. m\<lparr>userProperty := v\<rparr>),
       (\<lambda>s. unsub_dec_topics src (uint (remlen (d_msg s)) - (int (d_tot s) - int (d_hn s))) s),
       (\<lambda>s. if length (topics (d_msg s)) = 0 then ret_proto s (Code ProtocolError) else Go s),
       dec_set (\<lambda>m. m\<lparr>dirty := False\<rparr>)] (dstart m0)"

end
