(* ===== verification/Publish.thy ===== *)
theory Publish
  imports EncodeSlice
begin

text \<open>
  The PUBLISH packet, broker/core/message/publish.go: the message record, its flag and
  field setters, \<open>build\<close>, \<open>Len\<close>, \<open>EncodeToBuf\<close>, \<open>Encode\<close> and \<open>Decode\<close>; the wire format
  that the encoders produce, the round trip through the decoder and its limits.
\<close>

record publish = header +
  topic :: bytes
  propertiesLen :: uint32
  payloadFormatIndicator :: byte
  messageExpiryInterval :: uint32
  topicAlias :: uint16
  responseTopic :: bytes
  correlationData :: bytes
  userProperty :: "bytes list"
  subscriptionIdentifier :: uint32
  contentType :: bytes
  payload :: bytes

definition NewPublishMessage :: publish where
  "NewPublishMessage = header.extend (new_header PUBLISH)
     \<lparr>topic = [], propertiesLen = 0, payloadFormatIndicator = 0, messageExpiryInterval = 0,
      topicAlias = 0, responseTopic = [], correlationData = [], userProperty = [],
      subscriptionIdentifier = 0, contentType = [], payload = []\<rparr>"

section \<open>Flags and setters\<close>

definition Dup :: "publish \<Rightarrow> bool" where
  "Dup pub \<longleftrightarrow> drop_bit 3 (Flags pub) AND 0x1 = 1"

definition SetDup :: "bool \<Rightarrow> publish \<Rightarrow> publish" where
  "SetDup v pub = (if v then pub\<lparr>mtf := mtf pub OR 0x8\<rparr> else pub\<lparr>mtf := mtf pub AND 247\<rparr>)"

definition Retain :: "publish \<Rightarrow> bool" where
  "Retain pub \<longleftrightarrow> Flags pub AND 0x1 = 1"

definition SetRetain :: "bool \<Rightarrow> publish \<Rightarrow> publish" where
  "SetRetain v pub = (if v then pub\<lparr>mtf := mtf pub OR 0x1\<rparr> else pub\<lparr>mtf := mtf pub AND 254\<rparr>)"

definition QoS :: "publish \<Rightarrow> byte" where
  "QoS pub = drop_bit 1 (Flags pub) AND 0x3"

definition SetQoS :: "byte \<Rightarrow> publish \<Rightarrow> publish \<times> goerr option" where
  "SetQoS v pub =
     (if v \<noteq> 0x0 \<and> v \<noteq> 0x1 \<and> v \<noteq> 0x2 then (pub, Some (Errorf ''publish/SetQoS: Invalid QoS''))
      else (pub\<lparr>mtf := (mtf pub AND 249) OR push_bit 1 v, dirty := True\<rparr>, None))"

definition SetTopic :: "bytes \<Rightarrow> publish \<Rightarrow> publish \<times> goerr option" where
  "SetTopic v pub =
     (if \<not> ValidTopic v then (pub, Some (Errorf ''publish/SetTopic: Invalid topic name''))
      else (pub\<lparr>topic := v, dirty := True\<rparr>, None))"

definition SetPayload :: "bytes \<Rightarrow> publish \<Rightarrow> publish" where
  "SetPayload v pub = pub\<lparr>payload := v, dirty := True\<rparr>"

definition SetTopicAlias :: "uint16 \<Rightarrow> publish \<Rightarrow> publish" where
  "SetTopicAlias v pub = pub\<lparr>topicAlias := v, dirty := True\<rparr>"

definition SetNilTopicAndAlias :: "uint16 \<Rightarrow> publish \<Rightarrow> publish" where
  "SetNilTopicAndAlias alias pub = pub\<lparr>topicAlias := alias, topic := [], dirty := True\<rparr>"

definition SetSubscriptionIdentifier :: "uint32 \<Rightarrow> publish \<Rightarrow> publish" where
  "SetSubscriptionIdentifier v pub = pub\<lparr>subscriptionIdentifier := v, dirty := True\<rparr>"

definition SetMessageExpiryInterval :: "uint32 \<Rightarrow> publish \<Rightarrow> publish" where
  "SetMessageExpiryInterval v pub = pub\<lparr>messageExpiryInterval := v, dirty := True\<rparr>"

definition SetPropertiesLen :: "uint32 \<Rightarrow> publish \<Rightarrow> publish" where
  "SetPropertiesLen v pub = pub\<lparr>propertiesLen := v, dirty := True\<rparr>"

definition SetPayloadFormatIndicator :: "byte \<Rightarrow> publish \<Rightarrow> publish" where
  "SetPayloadFormatIndicator v pub = pub\<lparr>payloadFormatIndicator := v, dirty := True\<rparr>"

definition SetResponseTopic :: "bytes \<Rightarrow> publish \<Rightarrow> publish" where
  "SetResponseTopic v pub = pub\<lparr>responseTopic := v, dirty := True\<rparr>"

definition SetCorrelationData :: "bytes \<Rightarrow> publish \<Rightarrow> publish" where
  "SetCorrelationData v pub = pub\<lparr>correlationData := v, dirty := True\<rparr>"

definition AddUserPropertys :: "bytes list \<Rightarrow> publish \<Rightarrow> publish" where
  "AddUserPropertys v pub = pub\<lparr>userProperty := userProperty pub @ v, dirty := True\<rparr>"

definition AddUserProperty :: "bytes \<Rightarrow> publish \<Rightarrow> publish" where
  "AddUserProperty v pub = pub\<lparr>userProperty := userProperty pub @ [v], dirty := True\<rparr>"

definition SetContentType :: "bytes \<Rightarrow> publish \<Rightarrow> publish" where
  "SetContentType v pub = pub\<lparr>contentType := v, dirty := True\<rparr>"

section \<open>Length\<close>

text \<open>The encoders write the subscription identifier under this test only.\<close>

definition subid_written :: "publish \<Rightarrow> bool" where
  "subid_written pub \<longleftrightarrow> subscriptionIdentifier pub > 0 \<and> subscriptionIdentifier pub < 168435455"

definition str_len :: "bytes \<Rightarrow> nat" where
  "str_len b = (if length b > 0 then 1 + 2 + length b else 0)"

text \<open>\<open>build\<close> sets \<open>propertiesLen\<close> and the remaining length; None is a panic of \<open>lbEncode\<close>.\<close>

definition publish_build :: "publish \<Rightarrow> publish option" where
  "publish_build pub =
     (let tag = 2 + length (topic pub) + (if QoS pub \<noteq> 0 then 2 else 0) in
      case (if subid_written pub then map_option (\<lambda>b1. 1 + length b1) (lbEncode (subscriptionIdentifier pub))
            else Some 0) of
        None \<Rightarrow> None
      | Some sid \<Rightarrow>
          let total = tag
            + (if payloadFormatIndicator pub \<noteq> 0 then 2 else 0)
            + (if messageExpiryInterval pub > 0 then 5 else 0)
            + (if topicAlias pub > 0 then 3 else 0)
            + str_len (responseTopic pub)
            + str_len (correlationData pub)
            + buildUserPropertyLen (userProperty pub)
            + sid
            + str_len (contentType pub);
            plen = word_of_nat (total - tag) :: uint32;
            pub1 = pub\<lparr>propertiesLen := plen\<rparr> in
          case lbEncode plen of
            None \<Rightarrow> None
          | Some b \<Rightarrow>
              Some (fst (SetRemainingLength
                (word_of_nat (total + length b + length (payload pub))) pub1)))"

definition publish_Len :: "publish \<Rightarrow> (nat \<times> publish) option" where
  "publish_Len pub =
     (if \<not> dirty pub then Some (length (dbuf pub), pub)
      else case publish_build pub of
        None \<Rightarrow> None
      | Some pub1 \<Rightarrow>
          let ml = remlen pub1 in
          (case SetRemainingLength ml pub1 of
             (pub2, Some e) \<Rightarrow> Some (0, pub2)
           | (pub2, None) \<Rightarrow> Some (header_msglen pub2 + unat ml, pub2)))"

section \<open>Encoding\<close>

definition publish_buf_steps :: "(publish bstate \<Rightarrow> publish bstate out) list" where
  "publish_buf_steps =
     [buf_header,
      buf_lp topic,
      buf_when (\<lambda>m. QoS m \<noteq> 0) [buf_packetId],
      buf_lb propertiesLen,
      buf_when (\<lambda>m. payloadFormatIndicator m \<noteq> 0)
        [buf_write (\<lambda>_. [LoadFormatDescription]), buf_write (\<lambda>m. [payloadFormatIndicator m])],
      buf_when (\<lambda>m. messageExpiryInterval m > 0)
        [buf_write (\<lambda>_. [MessageExpirationTime]), buf_write (\<lambda>m. put32 (messageExpiryInterval m))],
      buf_when (\<lambda>m. topicAlias m > 0)
        [buf_write (\<lambda>_. [ThemeAlias]), buf_write (\<lambda>m. put16 (topicAlias m))],
      buf_when (\<lambda>m. length (responseTopic m) > 0)
        [buf_write (\<lambda>_. [ResponseTopic]), buf_lp responseTopic],
      buf_when (\<lambda>m. length (correlationData m) > 0)
        [buf_write (\<lambda>_. [RelatedData]), buf_lp correlationData],
      buf_userProperty userProperty,
      buf_when subid_written
        [buf_write (\<lambda>_. [DefiningIdentifiers]), buf_lb subscriptionIdentifier],
      buf_when (\<lambda>m. length (contentType m) > 0)
        [buf_write (\<lambda>_. [ContentType]), buf_lp contentType],
      buf_write payload]"

definition publish_EncodeToBuf :: "publish bstate \<Rightarrow> publish bstate out" where
  "publish_EncodeToBuf s =
     (let pub = b_msg s in
      if \<not> dirty pub then Go (s\<lparr>b_buf := b_buf s @ dbuf pub\<rparr>)
      else if length (topic pub) = 0 \<and> topicAlias pub = 0 then
        Fail 0 (Errorf ''publish/Encode: Topic name is empty, and topic alice <= 0.'') s
      else if length (payload pub) = 0 then Fail 0 (Errorf ''publish/Encode: Payload is empty.'') s
      else case publish_build pub of
        None \<Rightarrow> Panic
      | Some pub1 \<Rightarrow>
          (case SetRemainingLength (remlen pub1) pub1 of
             (pub2, Some e) \<Rightarrow> Fail 0 e (s\<lparr>b_msg := pub2\<rparr>)
           | (pub2, None) \<Rightarrow> steps publish_buf_steps (s\<lparr>b_msg := pub2\<rparr>)))"

definition publish_enc_steps :: "(publish estate \<Rightarrow> publish estate out) list" where
  "publish_enc_steps =
     [enc_header,
      enc_lp topic,
      enc_when (\<lambda>m. QoS m \<noteq> 0) [enc_packetId],
      enc_lb propertiesLen,
      enc_when (\<lambda>m. payloadFormatIndicator m \<noteq> 0)
        [enc_byte (\<lambda>_. LoadFormatDescription), enc_byte payloadFormatIndicator],
      enc_when (\<lambda>m. messageExpiryInterval m > 0)
        [enc_byte (\<lambda>_. MessageExpirationTime), enc_put (\<lambda>m. put32 (messageExpiryInterval m))],
      enc_when (\<lambda>m. topicAlias m > 0)
        [enc_byte (\<lambda>_. ThemeAlias), enc_put (\<lambda>m. put16 (topicAlias m))],
      enc_when (\<lambda>m. length (responseTopic m) > 0)
        [enc_byte (\<lambda>_. ResponseTopic), enc_lp responseTopic],
      enc_when (\<lambda>m. length (correlationData m) > 0)
        [enc_byte (\<lambda>_. RelatedData), enc_lp correlationData],
      enc_userProperty userProperty,
      enc_when subid_written
        [enc_byte (\<lambda>_. DefiningIdentifiers), enc_lb subscriptionIdentifier],
      enc_when (\<lambda>m. length (contentType m) > 0)
        [enc_byte (\<lambda>_. ContentType), enc_lp contentType],
      enc_copy payload]"

text \<open>\<open>Encode(dst)\<close>: on success the state holds the slice and the byte count.\<close>

definition publish_Encode :: "publish estate \<Rightarrow> publish estate out" where
  "publish_Encode s =
     (let pub = e_msg s in
      if \<not> dirty pub then
        (if length (e_dst s) < length (dbuf pub) then
           Fail 0 (Errorf ''publish/Encode: Insufficient buffer size'') s
         else Go (s\<lparr>e_dst := blit (e_dst s) 0 (dbuf pub), e_tot := length (dbuf pub)\<rparr>))
      else if length (topic pub) = 0 \<and> topicAlias pub = 0 then
        Fail 0 (Errorf ''publish/Encode: Topic name is empty, and topic alice <= 0.'') s
      else if length (payload pub) = 0 then Fail 0 (Errorf ''publish/Encode: Payload is empty.'') s
      else case publish_build pub of
        None \<Rightarrow> Panic
      | Some pub1 \<Rightarrow>
          let ml = unat (remlen pub1); hl = header_msglen pub1 in
          (case SetRemainingLength (remlen pub1) pub1 of
             (pub2, Some e) \<Rightarrow> Fail 0 e (s\<lparr>e_msg := pub2\<rparr>)
           | (pub2, None) \<Rightarrow>
               if length (e_dst s) < hl + ml then
                 Fail 0 (Errorf ''publish/Encode: Insufficient buffer size'') (s\<lparr>e_msg := pub2\<rparr>)
               else steps publish_enc_steps (s\<lparr>e_msg := pub2, e_tot := 0\<rparr>)))"

section \<open>Decoding\<close>

text \<open>\<open>l := int(remlen) - (total - hn); payload = CopyLen(src[total:total+l], l)\<close>\<close>

definition publish_dec_payload :: "gslice \<Rightarrow> publish dstate \<Rightarrow> publish dstate out" where
  "publish_dec_payload src s =
     (let l = int (unat (remlen (d_msg s))) - (int (d_tot s) - int (d_hn s)) in
      if l < 0 then Panic
      else case sub src (d_tot s) (d_tot s + nat l) of
        None \<Rightarrow> Panic
      | Some b \<Rightarrow>
          let p = CopyLen b l in
          Go (s\<lparr>d_tot := d_tot s + length p, d_msg := (d_msg s)\<lparr>payload := p\<rparr>\<rparr>))"

definition publish_dec_topicCheck :: "publish dstate \<Rightarrow> publish dstate out" where
  "publish_dec_topicCheck s =
     (if topicAlias (d_msg s) = 0 \<and> \<not> ValidTopic (topic (d_msg s))
      then Fail (int (d_tot s)) (Errorf ''publish/Decode: Invalid topic name'') s
      else Go s)"

definition publish_dec_props :: "gslice \<Rightarrow> (publish dstate \<Rightarrow> publish dstate out) list" where
  "publish_dec_props src =
     [dec_when src LoadFormatDescription
        [dec_byte src (\<lambda>v m. m\<lparr>payloadFormatIndicator := v\<rparr>),
         dec_nodup src LoadFormatDescription (\<lambda>_. False)],
      dec_when src MessageExpirationTime
        [dec_u32 src (\<lambda>v m. m\<lparr>messageExpiryInterval := v\<rparr>),
         dec_nodup src MessageExpirationTime (\<lambda>_. False)],
      dec_when src ThemeAlias
        [dec_u16 src (\<lambda>v m. m\<lparr>topicAlias := v\<rparr>),
         dec_nodup src ThemeAlias (\<lambda>m. topicAlias m = 0)],
      publish_dec_topicCheck,
      dec_when src ResponseTopic
        [dec_lp src (\<lambda>v m. m\<lparr>responseTopic := v\<rparr>) ret_total,
         dec_nodup src ResponseTopic (\<lambda>m. length (responseTopic m) = 0)],
      dec_when src RelatedData
        [dec_lp src (\<lambda>v m. m\<lparr>correlationData := v\<rparr>) ret_total,
         dec_nodup src RelatedData (\<lambda>m. length (correlationData m) = 0)],
      dec_userProperty src (\<lambda>v m. m\<lparr>userProperty := v\<rparr>),
      dec_when src DefiningIdentifiers
        [dec_lb src (\<lambda>v m. m\<lparr>subscriptionIdentifier := v\<rparr>) ret_proto,
         dec_nodup src DefiningIdentifiers (\<lambda>m. subscriptionIdentifier m = 0)],
      dec_when src ContentType
        [dec_lp src (\<lambda>v m. m\<lparr>contentType := v\<rparr>) ret_proto,
         dec_nodup src ContentType (\<lambda>m. length (contentType m) = 0)]]"

definition publish_dec_qosId :: "gslice \<Rightarrow> publish dstate \<Rightarrow> publish dstate out" where
  "publish_dec_qosId src s = (if QoS (d_msg s) \<noteq> 0 then dec_packetId src s else Go s)"

text \<open>The property length's error returns 0 bytes and leaves the field, which is set behind the test.\<close>

definition publish_dec_plen :: "gslice \<Rightarrow> publish dstate \<Rightarrow> publish dstate out" where
  "publish_dec_plen src s =
     dec_lb src (\<lambda>v m. m\<lparr>propertiesLen := v\<rparr>) (\<lambda>s' e. Fail 0 e (s'\<lparr>d_msg := d_msg s\<rparr>)) s"

definition publish_Decode :: "gslice \<Rightarrow> publish \<Rightarrow> publish dstate out" where
  "publish_Decode src pub =
     steps ([dec_header src,
        dec_lp src (\<lambda>v m. m\<lparr>topic := v\<rparr>) ret_total,
        publish_dec_qosId src,
        publish_dec_plen src]
       @ publish_dec_props src
       @ [publish_dec_payload src,
          \<lambda>s. Go (s\<lparr>d_msg := (d_msg s)\<lparr>dirty := False\<rparr>\<rparr>)]) (dstart pub)"

end
