(* ===== verification/Puback.thy ===== *)
theory Puback
  imports PropForms
begin

text \<open>
  The four acknowledgements of a PUBLISH, broker/core/message/puback.go, pubrec.go,
  pubrel.go and pubcomp.go. The last three embed \<open>PubackMessage\<close> and repeat its \<open>Decode\<close>
  with another reason code test, so the decoder is one definition over that test with an
  instance per file.
\<close>

record puback = header +
  reasonCode :: byte
  propertyLen :: uint32
  reasonStr :: bytes
  userProperty :: "bytes list"

definition new_ack :: "mtype \<Rightarrow> puback" where
  "new_ack t = header.extend (new_header t)
     \<lparr>reasonCode = 0, propertyLen = 0, reasonStr = [], userProperty = []\<rparr>"

definition NewPubackMessage :: puback where "NewPubackMessage = new_ack PUBACK"
definition NewPubrecMessage :: puback where "NewPubrecMessage = new_ack PUBREC"
definition NewPubrelMessage :: puback where "NewPubrelMessage = new_ack PUBREL"
definition NewPubcompMessage :: puback where "NewPubcompMessage = new_ack PUBCOMP"

definition SetReasonCode :: "byte \<Rightarrow> puback \<Rightarrow> puback" where
  "SetReasonCode c m = m\<lparr>reasonCode := c, dirty := True\<rparr>"

definition SetReasonStr :: "bytes \<Rightarrow> puback \<Rightarrow> puback" where
  "SetReasonStr v m = m\<lparr>reasonStr := v, dirty := True\<rparr>"

definition SetUserProperties :: "bytes list \<Rightarrow> puback \<Rightarrow> puback" where
  "SetUserProperties v m = m\<lparr>userProperty := v, dirty := True\<rparr>"

definition AddUserProperty :: "bytes \<Rightarrow> puback \<Rightarrow> puback" where
  "AddUserProperty v m = m\<lparr>userProperty := userProperty m @ [v], dirty := True\<rparr>"

definition SetPropertyLen :: "uint32 \<Rightarrow> puback \<Rightarrow> puback" where
  "SetPropertyLen v m = m\<lparr>propertyLen := v, dirty := True\<rparr>"

definition AddUserPropertys :: "bytes list \<Rightarrow> puback \<Rightarrow> puback" where
  "AddUserPropertys v m = m\<lparr>userProperty := userProperty m @ v, dirty := True\<rparr>"

section \<open>Length\<close>

definition puback_build :: "puback \<Rightarrow> puback option" where
  "puback_build m =
     (let total = (if length (reasonStr m) > 0 then 1 + 2 + length (reasonStr m) else 0)
                  + buildUserPropertyLen (userProperty m);
          m1 = m\<lparr>propertyLen := word_of_nat total\<rparr> in
      if propertyLen m1 = 0 \<and> reasonCode m1 = Success then Some (fst (SetRemainingLength 2 m1))
      else if propertyLen m1 = 0 \<and> reasonCode m1 \<noteq> Success then Some (fst (SetRemainingLength 3 m1))
      else case lbEncode (propertyLen m1) of
        None \<Rightarrow> None
      | Some b \<Rightarrow> Some (fst (SetRemainingLength
          (word_of_nat (2 + 1 + unat (propertyLen m1) + length b)) m1)))"

definition puback_Len :: "puback \<Rightarrow> (nat \<times> puback) option" where
  "puback_Len m =
     (if \<not> dirty m then Some (length (dbuf m), m)
      else case puback_build m of
        None \<Rightarrow> None
      | Some m1 \<Rightarrow>
          (case SetRemainingLength (remlen m1) m1 of
             (m2, Some e) \<Rightarrow> Some (0, m2)
           | (m2, None) \<Rightarrow> Some (header_msglen m2 + unat (remlen m1), m2)))"

section \<open>Encoding\<close>

text \<open>The early returns of the encoders: after the packet identifier, and after the reason code.\<close>

definition ack_short :: "puback \<Rightarrow> bool" where
  "ack_short m \<longleftrightarrow> remlen m = 2 \<and> reasonCode m = Success"

definition puback_buf_steps :: "(puback bstate \<Rightarrow> puback bstate out) list" where
  "puback_buf_steps =
     [buf_header,
      buf_write (\<lambda>m. if length (packetId m) = 2 then packetId m else [0, 0]),
      buf_when (\<lambda>m. \<not> ack_short m)
        [buf_write (\<lambda>m. [reasonCode m]),
         buf_when (\<lambda>m. propertyLen m > 0)
           [buf_lb propertyLen,
            buf_when (\<lambda>m. length (reasonStr m) > 0)
              [buf_write (\<lambda>_. [ReasonString]), buf_lp reasonStr],
            buf_userProperty userProperty]]]"

definition puback_EncodeToBuf :: "puback bstate \<Rightarrow> puback bstate out" where
  "puback_EncodeToBuf s =
     (let m = b_msg s in
      if \<not> dirty m then Go (s\<lparr>b_buf := b_buf s @ dbuf m\<rparr>)
      else case puback_build m of
        None \<Rightarrow> Panic
      | Some m1 \<Rightarrow>
          (case SetRemainingLength (remlen m1) m1 of
             (m2, Some e) \<Rightarrow> Fail 0 e (s\<lparr>b_msg := m2\<rparr>)
           | (m2, None) \<Rightarrow> steps puback_buf_steps (s\<lparr>b_msg := m2\<rparr>)))"

text \<open>\<open>if copy(dst[total:total+2], packetId) != 2 { dst[total], dst[total+1] = 0, 0 }; total += 2\<close>\<close>

definition enc_ackId :: "puback estate \<Rightarrow> puback estate out" where
  "enc_ackId e =
     (if e_tot e + 2 \<le> length (e_dst e)
      then Go (e\<lparr>e_dst := blit (e_dst e) (e_tot e)
               (if length (packetId (e_msg e)) < 2 then [0, 0] else take 2 (packetId (e_msg e))),
             e_tot := e_tot e + 2\<rparr>)
      else Panic)"

definition puback_enc_steps :: "(puback estate \<Rightarrow> puback estate out) list" where
  "puback_enc_steps =
     [enc_header,
      enc_ackId,
      enc_when (\<lambda>m. \<not> ack_short m)
        [enc_byte reasonCode,
         enc_when (\<lambda>m. propertyLen m > 0)
           [enc_lb propertyLen,
            enc_when (\<lambda>m. length (reasonStr m) > 0)
              [enc_byte (\<lambda>_. ReasonString), enc_lp reasonStr],
            enc_userProperty userProperty]]]"

definition puback_Encode :: "puback estate \<Rightarrow> puback estate out" where
  "puback_Encode s =
     (let m = e_msg s in
      if \<not> dirty m then
        (if length (e_dst s) < length (dbuf m) then
           Fail 0 (Errorf ''pubxxx/Encode: Insufficient buffer size.'') s
         else Go (s\<lparr>e_dst := blit (e_dst s) 0 (dbuf m), e_tot := length (dbuf m)\<rparr>))
      else case puback_build m of
        None \<Rightarrow> Panic
      | Some m1 \<Rightarrow>
          let ml = unat (remlen m1); hl = header_msglen m1 in
          if length (e_dst s) < hl + ml then
            Fail 0 (Errorf ''pubxxx/Encode: Insufficient buffer size.'') (s\<lparr>e_msg := m1\<rparr>)
          else (case SetRemainingLength (remlen m1) m1 of
             (m2, Some e) \<Rightarrow> Fail 0 e (s\<lparr>e_msg := m2\<rparr>)
           | (m2, None) \<Rightarrow> steps puback_enc_steps (s\<lparr>e_msg := m2, e_tot := 0\<rparr>)))"

section \<open>Decoding\<close>

text \<open>\<open>if total < len(src) && len(src[total:]) > 0 { propertyLen, n, err = lbDecode(src[total:]) }\<close>\<close>

definition ack_dec_plen :: "gslice \<Rightarrow> puback dstate \<Rightarrow> puback dstate out" where
  "ack_dec_plen src s =
     (if d_tot s < length (vis src) then dec_lb src (\<lambda>v m. m\<lparr>propertyLen := v\<rparr>) ret_total s else Go s)"

text \<open>\<open>if src[total] == ReasonString { return total, ProtocolError }\<close>, with no bounds test\<close>

definition dec_norepeat :: "gslice \<Rightarrow> byte \<Rightarrow> 'm dstate \<Rightarrow> 'm dstate out" where
  "dec_norepeat src c s =
     (case at src (d_tot s) of
        None \<Rightarrow> Panic
      | Some b \<Rightarrow> if b = c then Fail (int (d_tot s)) (Code ProtocolError) s else Go s)"

definition ack_dec_reason :: "(byte \<Rightarrow> bool) \<Rightarrow> puback dstate \<Rightarrow> puback dstate out" where
  "ack_dec_reason valid s =
     (if \<not> valid (reasonCode (d_msg s)) then Fail (int (d_tot s)) (Code ProtocolError) s else Go s)"

definition ack_decodeOther :: "(byte \<Rightarrow> bool) \<Rightarrow> gslice \<Rightarrow> (puback dstate \<Rightarrow> puback dstate out) list" where
  "ack_decodeOther valid src =
     [dec_byte src (\<lambda>v m. m\<lparr>reasonCode := v\<rparr>),
      ack_dec_reason valid,
      ack_dec_plen src,
      dec_when src ReasonString
        [dec_lp src (\<lambda>v m. m\<lparr>reasonStr := v\<rparr>) ret_total, dec_norepeat src ReasonString],
      dec_userProperty src (\<lambda>v m. m\<lparr>userProperty := v\<rparr>),
      \<lambda>s. Go (s\<lparr>d_msg := (d_msg s)\<lparr>dirty := False\<rparr>\<rparr>)]"

definition ack_Decode :: "(byte \<Rightarrow> bool) \<Rightarrow> gslice \<Rightarrow> puback \<Rightarrow> puback dstate out" where
  "ack_Decode valid src m =
     steps [dec_header src, dec_packetId src,
       \<lambda>s. if remlen (d_msg s) = 2 then Go (s\<lparr>d_msg := (d_msg s)\<lparr>reasonCode := Success\<rparr>\<rparr>)
           else steps (ack_decodeOther valid src) s] (dstart m)"

definition puback_Decode :: "gslice \<Rightarrow> puback \<Rightarrow> puback dstate out" where
  "puback_Decode = ack_Decode ValidPubAckReasonCode"

definition pubrec_Decode :: "gslice \<Rightarrow> puback \<Rightarrow> puback dstate out" where
  "pubrec_Decode = ack_Decode ValidPubRecReasonCode"

definition pubrel_Decode :: "gslice \<Rightarrow> puback \<Rightarrow> puback dstate out" where
  "pubrel_Decode = ack_Decode ValidPubRelReasonCode"

definition pubcomp_Decode :: "gslice \<Rightarrow> puback \<Rightarrow> puback dstate out" where
  "pubcomp_Decode = ack_Decode ValidPubCompReasonCode"

section \<open>The wire format\<close>

definition ack_props :: "puback \<Rightarrow> bytes" where
  "ack_props m = opt_bytes (length (reasonStr m) > 0) ReasonString (lp (reasonStr m)) @ up_bytes (userProperty m)"

definition ack_tail :: "puback \<Rightarrow> bytes" where
  "ack_tail m =
     (if ack_props m = [] then (if reasonCode m = Success then [] else [reasonCode m])
      else reasonCode m # varint (length (ack_props m)) @ ack_props m)"

definition ack_bytes :: "puback \<Rightarrow> bytes" where
  "ack_bytes m = mtf m # varint (2 + length (ack_tail m)) @ packetId m @ ack_tail m"

definition ack_ok :: "(byte \<Rightarrow> bool) \<Rightarrow> puback \<Rightarrow> bool" where
  "ack_ok valid m \<longleftrightarrow>
     flags_ok (mtf m) \<and> \<not> exempt (Type m) \<and> length (packetId m) = 2 \<and> valid (reasonCode m)
     \<and> length (reasonStr m) \<le> 65535 \<and> strs_ok (userProperty m) \<and> length (ack_tail m) < 2 ^ 28 - 2"

definition ack_built :: "puback \<Rightarrow> puback" where
  "ack_built m = m\<lparr>propertyLen := word_of_nat (length (ack_props m)),
     remlen := word_of_nat (2 + length (ack_tail m)), dirty := True\<rparr>"

lemma ack_props_length:
  "length (ack_props m) = (if length (reasonStr m) > 0 then 1 + 2 + length (reasonStr m) else 0)
     + buildUserPropertyLen (userProperty m)"
  by (simp add: ack_props_def)

lemma ack_props_tail: "length (ack_props m) \<le> length (ack_tail m)"
  by (simp add: ack_tail_def)

lemma ack_sizes:
  assumes "ack_ok valid m"
  shows "unat (propertyLen (ack_built m)) = length (ack_props m)"
    and "unat (remlen (ack_built m)) = 2 + length (ack_tail m)"
    and "length (ack_props m) < 2 ^ 28" and "2 + length (ack_tail m) < 2 ^ 28"
proof -
  have t: "length (ack_tail m) < 2 ^ 28 - 2"
    using assms by (simp add: ack_ok_def)
  show "2 + length (ack_tail m) < 2 ^ 28"
    using t by simp
  show p: "length (ack_props m) < 2 ^ 28"
    using t ack_props_tail [of m] by linarith
  show "unat (propertyLen (ack_built m)) = length (ack_props m)"
    using p by (simp add: ack_built_def unat_of_nat)
  show "unat (remlen (ack_built m)) = 2 + length (ack_tail m)"
    using unat_len32 [of "2 + length (ack_tail m)"] t by (simp add: ack_built_def del: of_nat_add of_nat_Suc)
qed

lemma ack_build_ok:
  assumes ok: "ack_ok valid m"
  shows "puback_build m = Some (ack_built m)"
proof -
  note z = ack_sizes [OF ok]
  let ?p = "length (ack_props m)"
  let ?m1 = "m\<lparr>propertyLen := word_of_nat ?p\<rparr>"
  have up: "unat (word_of_nat ?p :: uint32) = ?p"
    using z(3) by (rule unat_len32)
  have p0: "(word_of_nat ?p :: uint32) = 0 \<longleftrightarrow> ack_props m = []"
    unfolding unat_eq_zero [symmetric] up by simp
  have enc: "lbEncode (word_of_nat ?p) = Some (varint ?p)"
    using z(3) by (simp add: lbEncode_varint up)
  have rl: "SetRemainingLength (word_of_nat n) ?m1 = (?m1\<lparr>remlen := word_of_nat n, dirty := True\<rparr>, None)"
    if "n < 2 ^ 28" for n
    using unat_len32 [OF that] that by (simp add: SetRemainingLength_def not_less unat_le_max)
  have sets: "fst (SetRemainingLength (word_of_nat (2 + length (ack_tail m))) ?m1) = ack_built m"
    using rl [OF z(4)] by (simp only: fst_conv ack_built_def)
  have b: "puback_build m =
     (if (word_of_nat ?p :: uint32) = 0 \<and> reasonCode m = Success then Some (fst (SetRemainingLength 2 ?m1))
      else if (word_of_nat ?p :: uint32) = 0 \<and> reasonCode m \<noteq> Success then Some (fst (SetRemainingLength 3 ?m1))
      else Some (fst (SetRemainingLength (word_of_nat (2 + 1 + ?p + length (varint ?p))) ?m1)))"
    unfolding puback_build_def Let_def ack_props_length [symmetric] by (simp add: enc up del: of_nat_add)
  show ?thesis
  proof (cases "ack_props m = []")
    case True
    then have "2 + length (ack_tail m) = (if reasonCode m = Success then 2 else 3)"
      by (simp add: ack_tail_def)
    then have "(word_of_nat (2 + length (ack_tail m)) :: uint32) = (if reasonCode m = Success then 2 else 3)"
      by (simp only: if_distrib [of word_of_nat] of_nat_numeral)
    then show ?thesis
      using sets True p0 by (auto simp: b split: if_splits)
  next
    case False
    then have "2 + 1 + ?p + length (varint ?p) = 2 + length (ack_tail m)"
      by (simp add: ack_tail_def)
    then show ?thesis
      unfolding b using sets False p0 by (simp only: if_False simp_thms)
  qed
qed

lemma ack_built_proj [simp]:
  "ack_tail (ack_built m) = ack_tail m" "ack_props (ack_built m) = ack_props m"
  "mtf (ack_built m) = mtf m" "packetId (ack_built m) = packetId m" "reasonCode (ack_built m) = reasonCode m"
  "reasonStr (ack_built m) = reasonStr m" "userProperty (ack_built m) = userProperty m"
  "Type (ack_built m) = Type m" "dirty (ack_built m)" "ack_bytes (ack_built m) = ack_bytes m"
  by (simp_all add: ack_built_def ack_tail_def ack_props_def Type_def ack_bytes_def)

lemma ack_short_built:
  assumes "ack_ok valid m"
  shows "ack_short (ack_built m) \<longleftrightarrow> ack_tail m = []"
proof -
  have "remlen (ack_built m) = 2 \<longleftrightarrow> ack_tail m = []"
    using ack_sizes(2) [OF assms] by (auto simp: word_unat_eq_iff)
  then show ?thesis
    by (auto simp: ack_short_def ack_tail_def split: if_splits)
qed

lemma ack_set_built:
  assumes "ack_ok valid m"
  shows "SetRemainingLength (remlen (ack_built m)) (ack_built m) = (ack_built m, None)"
proof -
  have "remlen (ack_built m) \<le> maxRemainingLength"
    using ack_sizes(2,4) [OF assms] by (simp add: unat_le_max)
  then show ?thesis
    by (simp add: SetRemainingLength_def not_less)
qed

lemma ack_buf_steps_ok:
  assumes ok: "ack_ok valid m" and s: "b_msg s = ack_built m"
  shows "steps puback_buf_steps s = Go (s\<lparr>b_buf := b_buf s @ ack_bytes m\<rparr>)"
proof -
  let ?m = "ack_built m"
  have o: "length (packetId m) = 2" "length (reasonStr m) \<le> 65535" "strs_ok (userProperty m)"
    "mtype_Valid (Type m)"
    using ok by (auto simp: ack_ok_def flags_ok_def Type_def Let_def)
  note z = ack_sizes [OF ok]
  have pl: "propertyLen ?m > 0 \<longleftrightarrow> ack_props m \<noteq> []"
    using z(1) by (simp add: word_pos_unat)
  have rl: "remlen ?m \<le> maxRemainingLength"
    using z(2,4) by (simp add: unat_le_max)
  let ?pr = "if propertyLen ?m > 0 then concat [varint (unat (propertyLen ?m)),
       opt_bytes (length (reasonStr ?m) > 0) ReasonString (lp (reasonStr ?m)), up_bytes (userProperty ?m)] else []"
  let ?xs = "[mtf ?m # varint (unat (remlen ?m)),
     (\<lambda>m. if length (packetId m) = 2 then packetId m else [0, 0]) ?m,
     if \<not> ack_short ?m then concat [[reasonCode ?m], ?pr] else []]"
  have "list_all2 (appends ?m) puback_buf_steps ?xs"
    unfolding puback_buf_steps_def list_all2_Cons list_all2_Nil
    by (intro conjI TrueI appends_header appends_write appends_when appends_lb appends_opt appends_lp
        appends_userProperty list_all2_Cons [THEN iffD2] list_all2_Nil [THEN iffD2])
      (use o z rl in \<open>simp_all add: appends_write [where f = "\<lambda>m. [reasonCode m]"]\<close>)
  from steps_appends [OF this s] have "steps puback_buf_steps s = Go (s\<lparr>b_buf := b_buf s @ concat ?xs\<rparr>)" .
  moreover have "concat ?xs = ack_bytes m"
    using o(1) z(1,2) pl ack_short_built [OF ok]
    by (auto simp: ack_bytes_def ack_tail_def ack_props_def)
  ultimately show ?thesis
    by simp
qed

lemma puback_EncodeToBuf_bytes:
  assumes "ack_ok valid (b_msg s)" and "dirty (b_msg s)"
  shows "puback_EncodeToBuf s = Go (s\<lparr>b_buf := b_buf s @ ack_bytes (b_msg s), b_msg := ack_built (b_msg s)\<rparr>)"
  using assms(2) ack_buf_steps_ok [OF assms(1), of "s\<lparr>b_msg := ack_built (b_msg s)\<rparr>"]
  by (simp add: puback_EncodeToBuf_def Let_def ack_build_ok [OF assms(1)] ack_set_built [OF assms(1)])

section \<open>Decoding what was encoded\<close>

definition ack_decoded :: "bytes \<Rightarrow> puback \<Rightarrow> puback" where
  "ack_decoded src m = m\<lparr>remlen := word_of_nat (2 + length (ack_tail m)), dbuf := src,
     dirty := (ack_tail m = []), propertyLen := word_of_nat (length (ack_props m)),
     userProperty := up_pad (userProperty m)\<rparr>"

text \<open>
  The decoder looks for a second reason string without a bounds test, so a reason string
  must be followed by something.
\<close>

definition ack_followed :: "puback \<Rightarrow> bool" where
  "ack_followed m \<longleftrightarrow> reasonStr m = [] \<or> userProperty m \<noteq> []"

lemma starts_up: "ups \<noteq> [] \<Longrightarrow> \<exists>r. up_bytes ups = UserProperty # r"
  by (cases ups rule: up_bytes.cases) auto

lemma dec_norepeat_rt:
  "left src (d_tot s) (b # r) \<Longrightarrow> b \<noteq> c \<Longrightarrow> dec_norepeat src c s = Go s"
  by (simp add: dec_norepeat_def left_at)

lemma ack_reads_reason:
  fixes m m0 :: puback
  assumes "length (reasonStr m) \<le> 65535" and "ack_followed m" and "reasonStr m0 = []"
  shows "reads src m0 (dec_when src ReasonString
        [dec_lp src (\<lambda>v m. m\<lparr>reasonStr := v\<rparr>) ret_total, dec_norepeat src ReasonString])
     (opt_bytes (length (reasonStr m) > 0) ReasonString (lp (reasonStr m)))
     (m0\<lparr>reasonStr := reasonStr m\<rparr>) (up_bytes (userProperty m))"
  unfolding reads_def
proof (intro allI impI, rule dec_opt_rt)
  fix s s' :: "puback dstate"
  assume p: "0 < length (reasonStr m)" and l: "left src (d_tot s') (lp (reasonStr m) @ up_bytes (userProperty m))"
    and e: "d_msg s' = d_msg s" and m0: "d_msg s = m0"
  obtain r where r: "up_bytes (userProperty m) = UserProperty # r"
    using assms(2) p starts_up by (auto simp: ack_followed_def)
  have l2: "left src (d_tot s' + length (lp (reasonStr m))) (UserProperty # r)"
    using left_advance [OF l] r by simp
  let ?s2 = "s'\<lparr>d_tot := d_tot s' + length (lp (reasonStr m)), d_msg := m0\<lparr>reasonStr := reasonStr m\<rparr>\<rparr>"
  have nr: "dec_norepeat src ReasonString ?s2 = Go ?s2"
    by (rule dec_norepeat_rt [of _ _ UserProperty r]) (use l2 in simp_all)
  show "steps [dec_lp src (\<lambda>v m. m\<lparr>reasonStr := v\<rparr>) ret_total, dec_norepeat src ReasonString] s'
      = Go (s'\<lparr>d_tot := d_tot s' + length (lp (reasonStr m)), d_msg := m0\<lparr>reasonStr := reasonStr m\<rparr>\<rparr>)"
    using nr e m0 by (simp add: dec_lp_rt [OF l assms(1)])
qed (use assms(3) starts_not_up_bytes [of "userProperty m" "[]"] in auto)

lemma ack_reads_plen:
  assumes "n < 2 ^ 28"
  shows "reads src m0 (ack_dec_plen src) (varint n) (m0\<lparr>propertyLen := word_of_nat n\<rparr>) r"
proof -
  have "d_tot s < length (vis src)" if "left src (d_tot s) (varint n @ r)" for s :: "puback dstate"
    using left_len [OF that] by simp
  then show ?thesis
    using reads_lb [OF assms, of src m0 "\<lambda>v m. m\<lparr>propertyLen := v\<rparr>" ret_total r]
    by (auto simp: reads_def ack_dec_plen_def)
qed

text \<open>The packets with properties.\<close>

lemma ack_reads_props:
  assumes ok: "ack_ok valid m" and f: "ack_followed m" and ne: "ack_props m \<noteq> []" and z: "reasonStr m0 = []"
  shows "reads src m0 (steps (ack_decodeOther valid src)) (ack_tail m)
    (m0\<lparr>reasonCode := reasonCode m, propertyLen := word_of_nat (length (ack_props m)),
       reasonStr := reasonStr m, userProperty := up_pad (userProperty m), dirty := False\<rparr>) []"
proof -
  have o: "length (reasonStr m) \<le> 65535" "strs_ok (userProperty m)" "valid (reasonCode m)"
    using ok by (simp_all add: ack_ok_def)
  have t: "ack_tail m = concat [[reasonCode m], [], varint (length (ack_props m)),
      opt_bytes (length (reasonStr m) > 0) ReasonString (lp (reasonStr m)), up_bytes (userProperty m), []]"
  proof -
    have "ack_tail m = reasonCode m # varint (length (ack_props m)) @ ack_props m"
      using ne by (simp add: ack_tail_def)
    then show ?thesis
      by (simp add: ack_props_def)
  qed
  have byte: "reads src m0 (dec_byte src (\<lambda>v m. m\<lparr>reasonCode := v\<rparr>)) [v] (m0\<lparr>reasonCode := v\<rparr>) r" for v r
    unfolding reads_def using dec_byte_rt by fastforce
  have val: "reads src m1 (ack_dec_reason valid) [] m1 r" if "reasonCode m1 = reasonCode m" for m1 r
    using that o(3) by (auto intro!: reads_skip simp: ack_dec_reason_def)
  have fin: "reads src m1 (\<lambda>s. Go (s\<lparr>d_msg := (d_msg s)\<lparr>dirty := False\<rparr>\<rparr>)) [] (m1\<lparr>dirty := False\<rparr>) r"
    for m1 :: puback and r
    by (auto simp: reads_def)
  show ?thesis
    unfolding t ack_decodeOther_def
    apply (rule reads_Cons, rule byte)
    apply (rule reads_Cons, rule val)
    prefer 2
    apply (rule reads_Cons, rule ack_reads_plen)
    prefer 2
    apply (rule reads_Cons)
    apply (simp only: concat.simps append_Nil2)
    apply (rule ack_reads_reason [OF o(1) f])
    prefer 2
    apply (rule reads_Cons, rule reads_userProperty)
    prefer 3
    apply (rule reads_Cons, rule fin, rule reads_Nil)
    using ack_sizes(3) [OF ok] o z by simp_all
qed

text \<open>A packet that ends with its reason code.\<close>

lemma ack_only_reason:
  assumes l: "left src (d_tot s) [c]" and c: "valid c"
  shows "steps (ack_decodeOther valid src) s = Go (s\<lparr>d_tot := Suc (d_tot s),
     d_msg := (d_msg s)\<lparr>reasonCode := c, userProperty := [], dirty := False\<rparr>\<rparr>)"
proof -
  let ?s = "s\<lparr>d_tot := Suc (d_tot s), d_msg := (d_msg s)\<lparr>reasonCode := c\<rparr>\<rparr>"
  have l1: "left src (d_tot ?s) []"
    using left_Suc [OF l] by simp
  have "dec_byte src (\<lambda>v m. m\<lparr>reasonCode := v\<rparr>) s = Go ?s"
    using dec_byte_rt [OF l] by simp
  moreover have "ack_dec_reason valid ?s = Go ?s" "ack_dec_plen src ?s = Go ?s"
    using c left_len [OF l1] by (simp_all add: ack_dec_reason_def ack_dec_plen_def)
  moreover have "dec_when src ReasonString fs ?s = Go ?s" for fs
    by (rule dec_when_miss [OF l1]) simp
  moreover have "dec_userProperty src (\<lambda>v m. m\<lparr>userProperty := v\<rparr>) ?s
      = Go (?s\<lparr>d_msg := (d_msg ?s)\<lparr>userProperty := []\<rparr>\<rparr>)"
    using dec_userProperty_rt [of src ?s "[]" "[]" "\<lambda>v m. m\<lparr>userProperty := v\<rparr>"] l1
    by (simp add: strs_ok_def)
  ultimately show ?thesis
    by (simp add: ack_decodeOther_def)
qed

lemma ack_Decode_bytes:
  assumes ok: "ack_ok valid m" and f: "ack_followed m" and v: "vis src = ack_bytes m"
    and m0: "Type m0 = Type m" "reasonStr m0 = []" "userProperty m0 = []" "propertyLen m0 = 0" "dirty m0"
  shows "\<exists>t. ack_Decode valid src m0 = Go t \<and> d_tot t = length (ack_bytes m) \<and> d_msg t = ack_decoded (vis src) m"
proof -
  let ?n = "2 + length (ack_tail m)"
  let ?h = "Suc (length (varint ?n))"
  have o: "flags_ok (mtf m)" "\<not> exempt (Type m)" "length (packetId m) = 2" "valid (reasonCode m)"
    using ok by (simp_all add: ack_ok_def)
  note z = ack_sizes [OF ok]
  define m1 where "m1 = m0\<lparr>dbuf := vis src, mtf := mtf m, remlen := word_of_nat ?n\<rparr>"
  define m2 where "m2 = m1\<lparr>packetId := packetId m\<rparr>"
  have vs: "vis src = mtf m # varint ?n @ (packetId m @ ack_tail m)"
    by (simp add: v ack_bytes_def)
  have hd: "dec_header src (dstart m0) = Go \<lparr>d_hn = ?h, d_tot = ?h, d_msg = m1\<rparr>"
    and l1: "left src ?h (packetId m @ ack_tail m)"
    using dec_header_rt [OF vs, of m0] o m0(1) z(4) by (simp_all add: m1_def Type_def)
  let ?s = "\<lparr>d_hn = ?h, d_tot = ?h + 2, d_msg = m2\<rparr>"
  have pid: "dec_packetId src \<lparr>d_hn = ?h, d_tot = ?h, d_msg = m1\<rparr> = Go ?s"
    using dec_packetId_rt [of src "\<lparr>d_hn = ?h, d_tot = ?h, d_msg = m1\<rparr>" "packetId m" "ack_tail m"] l1 o(3)
    by (simp add: m2_def)
  have l2: "left src (d_tot ?s) (ack_tail m @ [])"
    using left_advance [OF l1] o(3) by simp
  have dec: "ack_Decode valid src m0 =
      (if remlen m2 = 2 then Go (?s\<lparr>d_msg := m2\<lparr>reasonCode := Success\<rparr>\<rparr>) else steps (ack_decodeOther valid src) ?s)"
    using hd pid by (simp add: ack_Decode_def)
  have rl: "unat (remlen m2) = ?n"
    using unat_len32 [OF z(4)] by (simp add: m2_def m1_def)
  have fin: "m2\<lparr>reasonCode := reasonCode m, propertyLen := word_of_nat (length (ack_props m)),
       reasonStr := reasonStr m, userProperty := up_pad (userProperty m), dirty := (ack_tail m = [])\<rparr>
     = ack_decoded (vis src) m"
    by (simp add: m2_def m1_def ack_decoded_def)
  have flds: "reasonStr m2 = []" "userProperty m2 = []" "propertyLen m2 = 0" "dirty m2"
    using m0 by (simp_all add: m2_def m1_def)
  have len: "length (ack_bytes m) = ?h + 2 + length (ack_tail m)"
    using o(3) by (simp add: ack_bytes_def)
  show ?thesis
  proof (cases "ack_props m = []")
    case False
    have "remlen m2 \<noteq> 2"
      using rl False by (auto simp: ack_tail_def)
    then show ?thesis
      using dec readsD [OF ack_reads_props [OF ok f False flds(1)] _ l2] fin len False
      by (simp add: ack_tail_def)
  next
    case True
    then have e: "reasonStr m = []" "userProperty m = []"
      using starts_up [of "userProperty m"] by (auto simp: ack_props_def opt_bytes_def split: if_splits)
    show ?thesis
    proof (cases "reasonCode m = Success")
      case s: True
      then have t: "ack_tail m = []"
        using True by (simp add: ack_tail_def)
      then have "remlen m2 = 2"
        using rl by (simp add: word_unat_eq_iff)
      moreover have "m2\<lparr>reasonCode := Success\<rparr> = ack_decoded (vis src) m"
        unfolding fin [symmetric] by (rule puback.equality) (use flds e s t True in simp_all)
      ultimately show ?thesis
        using dec len t by simp
    next
      case ns: False
      then have t: "ack_tail m = [reasonCode m]"
        using True by (simp add: ack_tail_def)
      have "remlen m2 \<noteq> 2"
        using rl t by auto
      moreover have "steps (ack_decodeOther valid src) ?s
          = Go (?s\<lparr>d_tot := Suc (d_tot ?s), d_msg := m2\<lparr>reasonCode := reasonCode m, userProperty := [], dirty := False\<rparr>\<rparr>)"
        using ack_only_reason [of src ?s "reasonCode m" valid] l2 t o(4) by simp
      moreover have "m2\<lparr>reasonCode := reasonCode m, userProperty := [], dirty := False\<rparr> = ack_decoded (vis src) m"
        unfolding fin [symmetric] by (rule puback.equality) (use flds e t True in simp_all)
      ultimately show ?thesis
        using dec len t by simp
    qed
  qed
qed

text \<open>A reason string at the end of the packet makes the decoder index past it.\<close>

lemma ack_reason_last:
  assumes ok: "ack_ok valid m" and ne: "reasonStr m \<noteq> []" and up: "userProperty m = []"
    and l: "left src (d_tot s) (ack_tail m)"
  shows "steps (ack_decodeOther valid src) s = Panic"
proof -
  let ?r = "reasonStr m" and ?n = "length (ack_props m)"
  have o: "length ?r \<le> 65535" "valid (reasonCode m)"
    using ok by (simp_all add: ack_ok_def)
  have p: "ack_props m = ReasonString # lp ?r"
    using ne up by (simp add: ack_props_def opt_bytes_def)
  then have t: "ack_tail m = reasonCode m # varint ?n @ ReasonString # lp ?r"
    by (simp add: ack_tail_def)
  let ?s1 = "s\<lparr>d_tot := Suc (d_tot s), d_msg := (d_msg s)\<lparr>reasonCode := reasonCode m\<rparr>\<rparr>"
  let ?s2 = "?s1\<lparr>d_tot := d_tot ?s1 + length (varint ?n), d_msg := (d_msg ?s1)\<lparr>propertyLen := word_of_nat ?n\<rparr>\<rparr>"
  let ?s3 = "?s2\<lparr>d_tot := Suc (d_tot ?s2)\<rparr>"
  have l1: "left src (d_tot ?s1) (varint ?n @ ReasonString # lp ?r)"
    using left_Suc l t by simp
  have l2: "left src (d_tot ?s2) (ReasonString # lp ?r)"
    using left_advance [OF l1] by simp
  have l3: "left src (d_tot ?s3) (lp ?r @ [])"
    using left_Suc [OF l2] by simp
  have l4: "left src (d_tot ?s3 + length (lp ?r)) []"
    using left_advance [OF l3] .
  have "dec_byte src (\<lambda>v m. m\<lparr>reasonCode := v\<rparr>) s = Go ?s1"
    using dec_byte_rt l t by simp
  moreover have "ack_dec_reason valid ?s1 = Go ?s1"
    using o by (simp add: ack_dec_reason_def)
  moreover have "ack_dec_plen src ?s1 = Go ?s2"
    using readsD [OF ack_reads_plen [OF ack_sizes(3) [OF ok]] refl l1] by simp
  moreover have "dec_norepeat src ReasonString (?s3\<lparr>d_tot := d_tot ?s3 + length (lp ?r), d_msg := M\<rparr>) = Panic" for M
    using left_at_Nil [OF l4] by (simp add: dec_norepeat_def)
  then have "dec_when src ReasonString
        [dec_lp src (\<lambda>v m. m\<lparr>reasonStr := v\<rparr>) ret_total, dec_norepeat src ReasonString] ?s2 = Panic"
    unfolding dec_when_hit [OF l2] by (simp only: steps.simps dec_lp_rt [OF l3 o(1)] andthen.simps)
  ultimately show ?thesis
    by (simp add: ack_decodeOther_def)
qed

lemma ack_Decode_panics:
  assumes ok: "ack_ok valid m" and ne: "reasonStr m \<noteq> []" and up: "userProperty m = []"
    and v: "vis src = ack_bytes m" and m0: "Type m0 = Type m"
  shows "ack_Decode valid src m0 = Panic"
proof -
  let ?n = "2 + length (ack_tail m)"
  let ?h = "Suc (length (varint ?n))"
  have o: "flags_ok (mtf m)" "\<not> exempt (Type m)" "length (packetId m) = 2"
    using ok by (simp_all add: ack_ok_def)
  note z = ack_sizes [OF ok]
  have vs: "vis src = mtf m # varint ?n @ (packetId m @ ack_tail m)"
    by (simp add: v ack_bytes_def)
  define s1 where "s1 = \<lparr>d_hn = ?h, d_tot = ?h, d_msg = m0\<lparr>dbuf := vis src, mtf := mtf m, remlen := word_of_nat ?n\<rparr>\<rparr>"
  define s2 where "s2 = s1\<lparr>d_tot := d_tot s1 + 2, d_msg := (d_msg s1)\<lparr>packetId := packetId m\<rparr>\<rparr>"
  have hd: "dec_header src (dstart m0) = Go s1" and l1: "left src (d_tot s1) (packetId m @ ack_tail m)"
    using dec_header_rt [OF vs, of m0] o m0 z(4) by (simp_all add: s1_def Type_def)
  have pid: "dec_packetId src s1 = Go s2"
    using dec_packetId_rt [OF l1 o(3)] by (simp add: s2_def)
  have l2: "left src (d_tot s2) (ack_tail m)"
    using left_advance [OF l1] o(3) by (simp add: s2_def)
  have "ack_tail m \<noteq> []"
    using ne by (auto simp: ack_tail_def ack_props_def opt_bytes_def)
  moreover have "unat (remlen (d_msg s2)) = ?n"
    using unat_len32 [OF z(4)] by (simp add: s2_def s1_def)
  ultimately have "remlen (d_msg s2) \<noteq> 2"
    by auto
  then show ?thesis
    using hd pid ack_reason_last [OF ok ne up l2] by (simp add: ack_Decode_def)
qed

section \<open>The slice encoder\<close>

lemma writes_ackId: "length (packetId m) = 2 \<Longrightarrow> writes N m enc_ackId (packetId m)"
  by (auto simp: writes_def enc_ackId_def)

lemma ack_enc_steps_ok:
  assumes ok: "ack_ok valid m" and s: "e_msg e = ack_built m" "e_tot e = 0"
    and room: "length (ack_bytes m) \<le> length (e_dst e)"
  shows "steps puback_enc_steps e = Go (e\<lparr>e_dst := blit (e_dst e) 0 (ack_bytes m), e_tot := length (ack_bytes m)\<rparr>)"
proof -
  let ?m = "ack_built m" and ?N = "length (e_dst e)"
  have o: "length (packetId m) = 2" "length (reasonStr m) \<le> 65535" "strs_ok (userProperty m)"
    "mtype_Valid (Type m)"
    using ok by (auto simp: ack_ok_def flags_ok_def Type_def Let_def)
  note z = ack_sizes [OF ok]
  have pl: "propertyLen ?m > 0 \<longleftrightarrow> ack_props m \<noteq> []"
    using z(1) by (simp add: word_pos_unat)
  have rl: "remlen ?m \<le> maxRemainingLength"
    using z(2,4) by (simp add: unat_le_max)
  let ?pr = "if propertyLen ?m > 0 then concat [varint (unat (propertyLen ?m)),
       opt_bytes (length (reasonStr ?m) > 0) ReasonString (lp (reasonStr ?m)), up_bytes (userProperty ?m)] else []"
  let ?xs = "[mtf ?m # varint (unat (remlen ?m)), packetId ?m,
     if \<not> ack_short ?m then concat [[reasonCode ?m], ?pr] else []]"
  have w: "list_all2 (writes ?N ?m) puback_enc_steps ?xs"
    unfolding puback_enc_steps_def list_all2_Cons list_all2_Nil
    by (intro conjI TrueI writes_header writes_ackId writes_when writes_lb writes_opt writes_lp writes_byte
        writes_userProperty list_all2_Cons [THEN iffD2] list_all2_Nil [THEN iffD2])
      (use o z rl in simp_all)
  have c: "concat ?xs = ack_bytes m"
    using o(1) z(1,2) pl ack_short_built [OF ok]
    by (auto simp: ack_bytes_def ack_tail_def ack_props_def)
  show ?thesis
    using steps_writes [OF w s(1) refl] room s(2) unfolding c by simp
qed

lemma puback_Encode_bytes:
  assumes "ack_ok valid (e_msg s)" and "dirty (e_msg s)" and "length (ack_bytes (e_msg s)) \<le> length (e_dst s)"
  shows "puback_Encode s = Go (s\<lparr>e_dst := blit (e_dst s) 0 (ack_bytes (e_msg s)),
     e_tot := length (ack_bytes (e_msg s)), e_msg := ack_built (e_msg s)\<rparr>)"
proof -
  let ?m = "e_msg s"
  note z = ack_sizes [OF assms(1)]
  have rl: "remlen (ack_built ?m) \<le> maxRemainingLength"
    using z(2,4) by (simp add: unat_le_max)
  have "length (packetId ?m) = 2"
    using assms(1) by (simp add: ack_ok_def)
  then have len: "header_msglen (ack_built ?m) + unat (remlen (ack_built ?m)) = length (ack_bytes ?m)"
    using length_varint_remlen [OF rl] by (simp add: z(2) ack_bytes_def)
  show ?thesis
    using assms(2,3) ack_enc_steps_ok [OF assms(1), of "s\<lparr>e_msg := ack_built ?m, e_tot := 0\<rparr>"]
    by (simp add: puback_Encode_def Let_def ack_build_ok [OF assms(1)] ack_set_built [OF assms(1)] len)
qed

end
