(* ===== verification/Ping.thy ===== *)
theory Ping
  imports EncodeSlice
begin

text \<open>
  The packets that consist of a fixed header only, broker/core/message/pingreq.go and
  pingresp.go: both embed the header, and their methods are the same but for the type and
  an error text. \<open>Encode\<close> takes the slice; the outcome holds it with the byte count.
\<close>

definition NewPingreqMessage :: header where "NewPingreqMessage = new_header PINGREQ"
definition NewPingrespMessage :: header where "NewPingrespMessage = new_header PINGRESP"

definition pingreq_Decode :: "gslice \<Rightarrow> header \<Rightarrow> (nat \<times> header) out" where
  "pingreq_Decode src ping = header_decode src ping"

definition pingresp_Decode :: "gslice \<Rightarrow> header \<Rightarrow> (nat \<times> header) out" where
  "pingresp_Decode src pingResp = header_decode src pingResp"

definition ping_Encode :: "string \<Rightarrow> bytes \<Rightarrow> header \<Rightarrow> (bytes \<times> nat) out" where
  "ping_Encode what dst ping =
     (if \<not> dirty ping then
        (if length dst < length (dbuf ping) then Fail 0 (Errorf (what @ ''/Encode: Insufficient buffer size'')) (dst, 0)
         else Go (blit dst 0 (dbuf ping), length (dbuf ping)))
      else case header_encode dst 0 ping of
        None \<Rightarrow> Panic
      | Some (d, n, None) \<Rightarrow> Go (d, n)
      | Some (d, n, Some e) \<Rightarrow> Fail (int n) e (d, n))"

definition pingreq_Encode :: "bytes \<Rightarrow> header \<Rightarrow> (bytes \<times> nat) out" where
  "pingreq_Encode = ping_Encode ''pingreqMessage''"

definition pingresp_Encode :: "bytes \<Rightarrow> header \<Rightarrow> (bytes \<times> nat) out" where
  "pingresp_Encode = ping_Encode ''pingrespMessage''"

definition ping_EncodeToBuf :: "bytes \<Rightarrow> header \<Rightarrow> bytes \<times> goerr option" where
  "ping_EncodeToBuf dst ping =
     (if \<not> dirty ping then (dst @ dbuf ping, None) else header_encodeToBuf dst ping)"

lemma new_ping_type [simp]:
  "Type NewPingreqMessage = PINGREQ" "Type NewPingrespMessage = PINGRESP"
  by (simp_all add: NewPingreqMessage_def NewPingrespMessage_def new_header_def Type_def mtype_of_def)

text \<open>The two bytes of a ping, and what they decode to.\<close>

lemma ping_bytes:
  assumes "t = PINGREQ \<or> t = PINGRESP"
  shows "ping_EncodeToBuf [] (new_header t) = ([first_byte t 0, 0], None)"
    and "ping_Encode w (a # b # d) (new_header t) = Go (first_byte t 0 # 0 # d, 2)"
    and "header_decode (GSlice (first_byte t 0 # 0 # r) sp) (new_header t)
      = Go (2, (new_header t)\<lparr>dbuf := first_byte t 0 # 0 # r\<rparr>)"
proof -
  have v0: "varint 0 = [0]"
    by (subst varint.simps) simp
  have h: "Type (new_header t) = t" "DefaultFlags t = 0" "mtype_Valid t"
    using assms by (auto simp: new_header_def Type_def DefaultFlags_def mtype_of_def)
  have rl: "remlen (new_header t) = 0" "mtf (new_header t) = first_byte t 0" "dirty (new_header t)"
    using h(2) by (simp_all add: new_header_def)
  show "ping_EncodeToBuf [] (new_header t) = ([first_byte t 0, 0], None)"
    using header_encodeToBuf_ok [of "new_header t" "[]"] h rl v0 by (simp add: ping_EncodeToBuf_def)
  have pu: "PutUvarint (ucast (0 :: uint32)) = [0]"
    by (simp add: PutUvarint_varint v0)
  show "ping_Encode w (a # b # d) (new_header t) = Go (first_byte t 0 # 0 # d, 2)"
    using h rl pu by (simp add: ping_Encode_def header_encode_def header_msglen_def Let_def blit_def)
  have f: "flags_ok (first_byte t 0)"
    using assms by (auto simp: flags_ok_def first_byte_def mtype_of_def DefaultFlags_def)
  have u: "(new_header t)\<lparr>dbuf := first_byte t 0 # 0 # r, mtf := first_byte t 0, remlen := 0\<rparr>
      = (new_header t)\<lparr>dbuf := first_byte t 0 # 0 # r\<rparr>"
    using rl by simp
  show "header_decode (GSlice (first_byte t 0 # 0 # r) sp) (new_header t)
      = Go (2, (new_header t)\<lparr>dbuf := first_byte t 0 # 0 # r\<rparr>)"
    using header_decode_rt [of "GSlice (first_byte t 0 # 0 # r) sp" "first_byte t 0" 0 r "new_header t"]
      assms f h v0 u by (auto simp: exempt_def)
qed

end
