(* ===== verification/Message.thy ===== *)
theory Message
  imports Connect Connack Disconnect Auth Subscribe Suback Unsubscribe Publish Puback Ping
begin

text \<open>
  The interface \<open>Message\<close> of broker/core/message/message.go: a packet is one of the fifteen
  message types, and a call of an interface method goes to the type's own method. \<open>New\<close> makes
  the empty message of a packet type. The encoders share the process-wide packet id counter
  \<open>gPacketId\<close>, which is passed through.
\<close>

datatype message =
    MConnect connect | MConnack connack | MPublish publish | MPuback puback | MPubrec puback
  | MPubrel puback | MPubcomp puback | MSubscribe subscribe | MSuback suback
  | MUnsubscribe unsubscribe | MUnsuback suback | MPingreq header | MPingresp header
  | MDisconnect disconnect | MAuth auth

definition mtype_Name :: "mtype \<Rightarrow> string" where
  "mtype_Name t =
     (case t of RESERVED \<Rightarrow> ''RESERVED'' | CONNECT \<Rightarrow> ''CONNECT'' | CONNACK \<Rightarrow> ''CONNACK''
      | PUBLISH \<Rightarrow> ''PUBLISH'' | PUBACK \<Rightarrow> ''PUBACK'' | PUBREC \<Rightarrow> ''PUBREC'' | PUBREL \<Rightarrow> ''PUBREL''
      | PUBCOMP \<Rightarrow> ''PUBCOMP'' | SUBSCRIBE \<Rightarrow> ''SUBSCRIBE'' | SUBACK \<Rightarrow> ''SUBACK''
      | UNSUBSCRIBE \<Rightarrow> ''UNSUBSCRIBE'' | UNSUBACK \<Rightarrow> ''UNSUBACK'' | PINGREQ \<Rightarrow> ''PINGREQ''
      | PINGRESP \<Rightarrow> ''PINGRESP'' | DISCONNECT \<Rightarrow> ''DISCONNECT'' | AUTH \<Rightarrow> ''AUTH''
      | RESERVED2 \<Rightarrow> ''UNKNOWN'')"

definition mtype_Desc :: "mtype \<Rightarrow> string" where
  "mtype_Desc t =
     (case t of CONNECT \<Rightarrow> ''Client request to connect to Server''
      | CONNACK \<Rightarrow> ''Connect acknowledgement'' | PUBLISH \<Rightarrow> ''Publish message''
      | PUBACK \<Rightarrow> ''Publish acknowledgement''
      | PUBREC \<Rightarrow> ''Publish received (assured delivery part 1)''
      | PUBREL \<Rightarrow> ''Publish release (assured delivery part 2)''
      | PUBCOMP \<Rightarrow> ''Publish complete (assured delivery part 3)''
      | SUBSCRIBE \<Rightarrow> ''Client subscribe request'' | SUBACK \<Rightarrow> ''Subscribe acknowledgement''
      | UNSUBSCRIBE \<Rightarrow> ''Unsubscribe request'' | UNSUBACK \<Rightarrow> ''Unsubscribe acknowledgement''
      | PINGREQ \<Rightarrow> ''PING request'' | PINGRESP \<Rightarrow> ''PING response''
      | DISCONNECT \<Rightarrow> ''Client is disconnecting'' | AUTH \<Rightarrow> ''Client auth''
      | RESERVED \<Rightarrow> ''UNKNOWN'' | RESERVED2 \<Rightarrow> ''UNKNOWN'')"

definition mtype_New :: "mtype \<Rightarrow> string + message" where
  "mtype_New t =
     (case t of CONNECT \<Rightarrow> Inr (MConnect NewConnectMessage)
      | CONNACK \<Rightarrow> Inr (MConnack NewConnackMessage) | PUBLISH \<Rightarrow> Inr (MPublish NewPublishMessage)
      | PUBACK \<Rightarrow> Inr (MPuback NewPubackMessage) | PUBREC \<Rightarrow> Inr (MPubrec NewPubrecMessage)
      | PUBREL \<Rightarrow> Inr (MPubrel NewPubrelMessage) | PUBCOMP \<Rightarrow> Inr (MPubcomp NewPubcompMessage)
      | SUBSCRIBE \<Rightarrow> Inr (MSubscribe NewSubscribeMessage) | SUBACK \<Rightarrow> Inr (MSuback NewSubackMessage)
      | UNSUBSCRIBE \<Rightarrow> Inr (MUnsubscribe NewUnsubscribeMessage)
      | UNSUBACK \<Rightarrow> Inr (MUnsuback NewUnsubackMessage) | PINGREQ \<Rightarrow> Inr (MPingreq NewPingreqMessage)
      | PINGRESP \<Rightarrow> Inr (MPingresp NewPingrespMessage)
      | DISCONNECT \<Rightarrow> Inr (MDisconnect NewDisconnectMessage) | AUTH \<Rightarrow> Inr (MAuth NewAuthMessage)
      | RESERVED \<Rightarrow> Inl ''msgtype/NewMessage: Invalid message type''
      | RESERVED2 \<Rightarrow> Inl ''msgtype/NewMessage: Invalid message type'')"

section \<open>The methods of the interface\<close>

fun msg_Type :: "message \<Rightarrow> mtype" where
  "msg_Type (MConnect m) = Type m" | "msg_Type (MConnack m) = Type m"
| "msg_Type (MPublish m) = Type m" | "msg_Type (MPuback m) = Type m"
| "msg_Type (MPubrec m) = Type m" | "msg_Type (MPubrel m) = Type m"
| "msg_Type (MPubcomp m) = Type m" | "msg_Type (MSubscribe m) = Type m"
| "msg_Type (MSuback m) = Type m" | "msg_Type (MUnsubscribe m) = Type m"
| "msg_Type (MUnsuback m) = Type m" | "msg_Type (MPingreq m) = Type m"
| "msg_Type (MPingresp m) = Type m" | "msg_Type (MDisconnect m) = Type m"
| "msg_Type (MAuth m) = Type m"

fun msg_PacketId :: "message \<Rightarrow> uint16" where
  "msg_PacketId (MConnect m) = PacketId m" | "msg_PacketId (MConnack m) = PacketId m"
| "msg_PacketId (MPublish m) = PacketId m" | "msg_PacketId (MPuback m) = PacketId m"
| "msg_PacketId (MPubrec m) = PacketId m" | "msg_PacketId (MPubrel m) = PacketId m"
| "msg_PacketId (MPubcomp m) = PacketId m" | "msg_PacketId (MSubscribe m) = PacketId m"
| "msg_PacketId (MSuback m) = PacketId m" | "msg_PacketId (MUnsubscribe m) = PacketId m"
| "msg_PacketId (MUnsuback m) = PacketId m" | "msg_PacketId (MPingreq m) = PacketId m"
| "msg_PacketId (MPingresp m) = PacketId m" | "msg_PacketId (MDisconnect m) = PacketId m"
| "msg_PacketId (MAuth m) = PacketId m"

definition Name :: "message \<Rightarrow> string" where
  "Name m = mtype_Name (msg_Type m)"

definition Desc :: "message \<Rightarrow> string" where
  "Desc m = mtype_Desc (msg_Type m)"

text \<open>\<open>Decode\<close>: the byte count and the filled message\<close>

fun decoded_as :: "('m \<Rightarrow> message) \<Rightarrow> 'm dstate out \<Rightarrow> (nat \<times> message) out" where
  "decoded_as c (Go s) = Go (d_tot s, c (d_msg s))"
| "decoded_as c (Fail n e s) = Fail n e (d_tot s, c (d_msg s))"
| "decoded_as c Panic = Panic"

fun header_as :: "(header \<Rightarrow> message) \<Rightarrow> (nat \<times> header) out \<Rightarrow> (nat \<times> message) out" where
  "header_as c (Go (n, h)) = Go (n, c h)"
| "header_as c (Fail n e (k, h)) = Fail n e (k, c h)"
| "header_as c Panic = Panic"

fun msg_Decode :: "gslice \<Rightarrow> message \<Rightarrow> (nat \<times> message) out" where
  "msg_Decode src (MConnect m) = decoded_as MConnect (connect_Decode src m)"
| "msg_Decode src (MConnack m) = decoded_as MConnack (connack_Decode src m)"
| "msg_Decode src (MPublish m) = decoded_as MPublish (publish_Decode src m)"
| "msg_Decode src (MPuback m) = decoded_as MPuback (puback_Decode src m)"
| "msg_Decode src (MPubrec m) = decoded_as MPubrec (pubrec_Decode src m)"
| "msg_Decode src (MPubrel m) = decoded_as MPubrel (pubrel_Decode src m)"
| "msg_Decode src (MPubcomp m) = decoded_as MPubcomp (pubcomp_Decode src m)"
| "msg_Decode src (MSubscribe m) = decoded_as MSubscribe (subscribe_Decode src m)"
| "msg_Decode src (MSuback m) = decoded_as MSuback (suback_Decode src m)"
| "msg_Decode src (MUnsubscribe m) = decoded_as MUnsubscribe (unsubscribe_Decode src m)"
| "msg_Decode src (MUnsuback m) = decoded_as MUnsuback (unsuback_Decode src m)"
| "msg_Decode src (MPingreq m) = header_as MPingreq (pingreq_Decode src m)"
| "msg_Decode src (MPingresp m) = header_as MPingresp (pingresp_Decode src m)"
| "msg_Decode src (MDisconnect m) = decoded_as MDisconnect (disconnect_Decode src m)"
| "msg_Decode src (MAuth m) = decoded_as MAuth (auth_Decode src m)"

text \<open>\<open>Encode\<close> into a slice: the slice, the count, the message and the packet id counter\<close>

type_synonym encoded = "bytes \<times> nat \<times> message \<times> uint64"

fun encoded_as :: "('m \<Rightarrow> message) \<Rightarrow> 'm estate out \<Rightarrow> encoded out" where
  "encoded_as c (Go s) = Go (e_dst s, e_tot s, c (e_msg s), e_gpid s)"
| "encoded_as c (Fail n e s) = Fail n e (e_dst s, e_tot s, c (e_msg s), e_gpid s)"
| "encoded_as c Panic = Panic"

fun ping_as :: "message \<Rightarrow> uint64 \<Rightarrow> (bytes \<times> nat) out \<Rightarrow> encoded out" where
  "ping_as m g (Go (d, n)) = Go (d, n, m, g)"
| "ping_as m g (Fail n e (d, k)) = Fail n e (d, k, m, g)"
| "ping_as m g Panic = Panic"

definition into :: "bytes \<Rightarrow> uint64 \<Rightarrow> 'm \<Rightarrow> 'm estate" where
  "into dst g m = \<lparr>e_dst = dst, e_tot = 0, e_msg = m, e_gpid = g\<rparr>"

fun msg_Encode :: "bytes \<Rightarrow> uint64 \<Rightarrow> message \<Rightarrow> encoded out" where
  "msg_Encode dst g (MConnect m) = encoded_as MConnect (connect_Encode (into dst g m))"
| "msg_Encode dst g (MConnack m) = encoded_as MConnack (connack_Encode (into dst g m))"
| "msg_Encode dst g (MPublish m) = encoded_as MPublish (publish_Encode (into dst g m))"
| "msg_Encode dst g (MPuback m) = encoded_as MPuback (puback_Encode (into dst g m))"
| "msg_Encode dst g (MPubrec m) = encoded_as MPubrec (puback_Encode (into dst g m))"
| "msg_Encode dst g (MPubrel m) = encoded_as MPubrel (puback_Encode (into dst g m))"
| "msg_Encode dst g (MPubcomp m) = encoded_as MPubcomp (puback_Encode (into dst g m))"
| "msg_Encode dst g (MSubscribe m) = encoded_as MSubscribe (subscribe_Encode (into dst g m))"
| "msg_Encode dst g (MSuback m) = encoded_as MSuback (suback_Encode (into dst g m))"
| "msg_Encode dst g (MUnsubscribe m) = encoded_as MUnsubscribe (unsubscribe_Encode (into dst g m))"
| "msg_Encode dst g (MUnsuback m) = encoded_as MUnsuback (unsuback_Encode (into dst g m))"
| "msg_Encode dst g (MPingreq m) = ping_as (MPingreq m) g (pingreq_Encode dst m)"
| "msg_Encode dst g (MPingresp m) = ping_as (MPingresp m) g (pingresp_Encode dst m)"
| "msg_Encode dst g (MDisconnect m) = encoded_as MDisconnect (disconnect_Encode (into dst g m))"
| "msg_Encode dst g (MAuth m) = encoded_as MAuth (auth_Encode (into dst g m))"

fun buffered_as :: "('m \<Rightarrow> message) \<Rightarrow> 'm bstate out \<Rightarrow> (bytes \<times> message \<times> uint64) out" where
  "buffered_as c (Go s) = Go (b_buf s, c (b_msg s), b_gpid s)"
| "buffered_as c (Fail n e s) = Fail n e (b_buf s, c (b_msg s), b_gpid s)"
| "buffered_as c Panic = Panic"

definition onto :: "bytes \<Rightarrow> uint64 \<Rightarrow> 'm \<Rightarrow> 'm bstate" where
  "onto dst g m = \<lparr>b_buf = dst, b_msg = m, b_gpid = g\<rparr>"

fun ping_buf :: "message \<Rightarrow> uint64 \<Rightarrow> bytes \<times> goerr option \<Rightarrow> (bytes \<times> message \<times> uint64) out" where
  "ping_buf m g (d, None) = Go (d, m, g)"
| "ping_buf m g (d, Some e) = Fail 0 e (d, m, g)"

fun msg_EncodeToBuf :: "bytes \<Rightarrow> uint64 \<Rightarrow> message \<Rightarrow> (bytes \<times> message \<times> uint64) out" where
  "msg_EncodeToBuf dst g (MConnect m) = buffered_as MConnect (connect_EncodeToBuf (onto dst g m))"
| "msg_EncodeToBuf dst g (MConnack m) = buffered_as MConnack (connack_EncodeToBuf (onto dst g m))"
| "msg_EncodeToBuf dst g (MPublish m) = buffered_as MPublish (publish_EncodeToBuf (onto dst g m))"
| "msg_EncodeToBuf dst g (MPuback m) = buffered_as MPuback (puback_EncodeToBuf (onto dst g m))"
| "msg_EncodeToBuf dst g (MPubrec m) = buffered_as MPubrec (puback_EncodeToBuf (onto dst g m))"
| "msg_EncodeToBuf dst g (MPubrel m) = buffered_as MPubrel (puback_EncodeToBuf (onto dst g m))"
| "msg_EncodeToBuf dst g (MPubcomp m) = buffered_as MPubcomp (puback_EncodeToBuf (onto dst g m))"
| "msg_EncodeToBuf dst g (MSubscribe m) = buffered_as MSubscribe (subscribe_EncodeToBuf (onto dst g m))"
| "msg_EncodeToBuf dst g (MSuback m) = buffered_as MSuback (suback_EncodeToBuf (onto dst g m))"
| "msg_EncodeToBuf dst g (MUnsubscribe m) = buffered_as MUnsubscribe (unsubscribe_EncodeToBuf (onto dst g m))"
| "msg_EncodeToBuf dst g (MUnsuback m) = buffered_as MUnsuback (unsuback_EncodeToBuf (onto dst g m))"
| "msg_EncodeToBuf dst g (MPingreq m) = ping_buf (MPingreq m) g (ping_EncodeToBuf dst m)"
| "msg_EncodeToBuf dst g (MPingresp m) = ping_buf (MPingresp m) g (ping_EncodeToBuf dst m)"
| "msg_EncodeToBuf dst g (MDisconnect m) = buffered_as MDisconnect (disconnect_EncodeToBuf (onto dst g m))"
| "msg_EncodeToBuf dst g (MAuth m) = buffered_as MAuth (auth_EncodeToBuf (onto dst g m))"

text \<open>\<open>Len\<close>, which sets the length fields of a message that is dirty\<close>

definition len_as :: "('m \<Rightarrow> message) \<Rightarrow> (nat \<times> 'm) option \<Rightarrow> (nat \<times> message) option" where
  "len_as c r = map_option (map_prod id c) r"

fun msg_Len :: "message \<Rightarrow> (nat \<times> message) option" where
  "msg_Len (MConnect m) = len_as MConnect (connect_Len m)"
| "msg_Len (MConnack m) = len_as MConnack (connack_Len m)"
| "msg_Len (MPublish m) = len_as MPublish (publish_Len m)"
| "msg_Len (MPuback m) = len_as MPuback (puback_Len m)"
| "msg_Len (MPubrec m) = len_as MPubrec (puback_Len m)"
| "msg_Len (MPubrel m) = len_as MPubrel (puback_Len m)"
| "msg_Len (MPubcomp m) = len_as MPubcomp (puback_Len m)"
| "msg_Len (MSubscribe m) = len_as MSubscribe (subscribe_Len m)"
| "msg_Len (MSuback m) = len_as MSuback (suback_Len m)"
| "msg_Len (MUnsubscribe m) = len_as MUnsubscribe (unsubscribe_Len m)"
| "msg_Len (MUnsuback m) = len_as MUnsuback (suback_Len m)"
| "msg_Len (MPingreq m) = Some (header_msglen m, MPingreq m)"
| "msg_Len (MPingresp m) = Some (header_msglen m, MPingresp m)"
| "msg_Len (MDisconnect m) = len_as MDisconnect (disconnect_Len m)"
| "msg_Len (MAuth m) = len_as MAuth (auth_Len m)"

section \<open>The interface \<open>CleanReqProblemInfo\<close>\<close>

text \<open>
  The types that have both \<open>SetReasonStr\<close> and \<open>SetUserProperties\<close>; here both setters with nil,
  for the types that \<open>delRequestRespInfo\<close> does not exempt. SUBSCRIBE and UNSUBSCRIBE have no
  reason string.
\<close>

fun clean_info :: "message \<Rightarrow> message" where
  "clean_info (MAuth m) = MAuth (Auth.SetUserProperties [] (Auth.SetReasonStr [] m))"
| "clean_info (MPuback m) = MPuback (Puback.SetUserProperties [] (Puback.SetReasonStr [] m))"
| "clean_info (MPubrec m) = MPubrec (Puback.SetUserProperties [] (Puback.SetReasonStr [] m))"
| "clean_info (MPubrel m) = MPubrel (Puback.SetUserProperties [] (Puback.SetReasonStr [] m))"
| "clean_info (MPubcomp m) = MPubcomp (Puback.SetUserProperties [] (Puback.SetReasonStr [] m))"
| "clean_info (MSubscribe m) = MSubscribe (Subscribe.SetUserProperties [] m)"
| "clean_info (MSuback m) = MSuback (Suback.SetUserProperties [] (Suback.SetReasonStr [] m))"
| "clean_info (MUnsubscribe m) = MUnsubscribe (Unsubscribe.SetUserProperties [] m)"
| "clean_info (MUnsuback m) = MUnsuback (Suback.SetUserProperties [] (Suback.SetReasonStr [] m))"
| "clean_info m = m"

end
