(* ===== verification/GCore.thy ===== *)
theory GCore
  imports RingFlow Message
begin

text \<open>
  The connection core, broker/core/service/v1/operator.go with module/statistic: a ring for
  the bytes from the network and one for the bytes to it, the framing of packets on the
  input ring and the encoding of messages into the output ring. Where a ring waits, the
  function waits at the same point; \<open>_woken\<close> goes on after the broadcast. The sockets stay
  outside: the receiver is \<open>ReadFrom\<close> on the input ring, the sender \<open>WriteTo\<close> on the output
  ring.
\<close>

record stat =
  stat_bytes :: uint64
  stat_msgs :: uint64

definition Incr :: "uint64 \<Rightarrow> stat \<Rightarrow> stat" where
  "Incr n s = s\<lparr>stat_bytes := stat_bytes s + n, stat_msgs := stat_msgs s + 1\<rparr>"

definition MsgTotal :: "stat \<Rightarrow> uint64" where
  "MsgTotal s = stat_msgs s"

record gcore =
  connMsg :: connect
  g_in :: buffer
  g_out :: buffer
  inTmp :: bytes
  outTmp :: bytes
  inStat :: stat
  outStat :: stat
  g_done :: int

text \<open>Errors of the core: from the ring, from a codec, or a text\<close>

datatype gerr = RingErr buferr | CodecErr goerr | TextErr string

text \<open>\<open>NewGCore\<close>: two rings of the default size; the rings' errors are dropped.\<close>

definition NewGCore :: "connect \<Rightarrow> int \<Rightarrow> (gcore option) \<times> int" where
  "NewGCore m bufcnt =
     (let (i, k) = newBuffer defaultBufferSize bufcnt; (out, k') = newBuffer defaultBufferSize k in
      case (i, out) of
        (Inr bi, Inr bo) \<Rightarrow>
          (Some \<lparr>connMsg = m, g_in = bi, g_out = bo, inTmp = [], outTmp = [],
             inStat = \<lparr>stat_bytes = 0, stat_msgs = 0\<rparr>, outStat = \<lparr>stat_bytes = 0, stat_msgs = 0\<rparr>,
             g_done = 0\<rparr>, k')
      | _ \<Rightarrow> (None, k'))"

definition IsDone :: "gcore \<Rightarrow> bool" where
  "IsDone g \<longleftrightarrow> g_done g = 1"

text \<open>
  \<open>Close\<close> up to the wait for the two loops: it closes both rings, and hangs where one of them
  does.
\<close>

definition gcore_Close :: "gcore \<Rightarrow> gcore \<times> unit outcome" where
  "gcore_Close g =
     (if g_done g = 1 then (g, Ret ())
      else let g = g\<lparr>g_done := 1\<rparr> in
        case Close (g_in g) of
          (i, Ret _) \<Rightarrow>
            (case Close (g_out g) of (out, r) \<Rightarrow> (g\<lparr>g_in := i, g_out := out\<rparr>, r))
        | (i, r) \<Rightarrow> (g\<lparr>g_in := i\<rparr>, r))"

section \<open>Framing on the input ring\<close>

text \<open>
  \<open>peekMessageSize\<close>: two bytes are peeked, then one more for as long as the last has its
  continuation bit. The first argument is the wait that is entered or resumed.
\<close>

type_synonym fetch = "int \<Rightarrow> buffer \<Rightarrow> buffer \<times> (buferr + bytes) outcome"

function peekSize_loop :: "fetch \<Rightarrow> nat \<Rightarrow> buffer \<Rightarrow> buffer \<times> (gerr + bytes) outcome" where
  "peekSize_loop rd cnt b =
     (if cnt > 5 then
        (b, Ret (Inl (TextErr ''sendrecv/peekMessageSize: 4th byte of remaining length has continuation bit set'')))
      else case rd (int cnt) b of
        (b, Ret (Inl e)) \<Rightarrow> (b, Ret (Inl (RingErr e)))
      | (b, Ret (Inr p)) \<Rightarrow>
          if length p < cnt then (b, Loops)
          else if p ! (cnt - 1) \<ge> 0x80 then peekSize_loop ReadWait (cnt + 1) b
          else (b, Ret (Inr p))
      | (b, Waits) \<Rightarrow> (b, Waits) | (b, Locked) \<Rightarrow> (b, Locked)
      | (b, Panicked) \<Rightarrow> (b, Panicked) | (b, Loops) \<Rightarrow> (b, Loops))"
  by pat_completeness auto

termination
  by (relation "measure (\<lambda>(rd, cnt, b). 6 - cnt)") auto

declare peekSize_loop.simps [simp del]

definition size_of :: "bytes \<Rightarrow> mtype \<times> int" where
  "size_of p = (let (rl, m) = Uvarint (tl p) in (mtype_of (drop_bit 4 (hd p)), uint rl + 1 + m))"

definition peekMessageSize_from :: "fetch \<Rightarrow> nat \<Rightarrow> gcore \<Rightarrow> gcore \<times> (gerr + mtype \<times> int) outcome" where
  "peekMessageSize_from rd cnt g =
     (case peekSize_loop rd cnt (g_in g) of
        (b, Ret (Inl e)) \<Rightarrow> (g\<lparr>g_in := b\<rparr>, Ret (Inl e))
      | (b, Ret (Inr p)) \<Rightarrow> (g\<lparr>g_in := b\<rparr>, Ret (Inr (size_of p)))
      | (b, Waits) \<Rightarrow> (g\<lparr>g_in := b\<rparr>, Waits) | (b, Locked) \<Rightarrow> (g\<lparr>g_in := b\<rparr>, Locked)
      | (b, Panicked) \<Rightarrow> (g\<lparr>g_in := b\<rparr>, Panicked) | (b, Loops) \<Rightarrow> (g\<lparr>g_in := b\<rparr>, Loops))"

definition peekMessageSize :: "gcore \<Rightarrow> gcore \<times> (gerr + mtype \<times> int) outcome" where
  "peekMessageSize = peekMessageSize_from ReadWait 2"

text \<open>
  What lies behind a peeked slice up to its capacity: the rest of the ring's array, or the spare
  capacity \<open>sp\<close> of the temporary slice when the window goes around the end.
\<close>

definition peek_spare :: "bytes \<Rightarrow> int \<Rightarrow> buffer \<Rightarrow> bytes" where
  "peek_spare sp n b =
     (let cindex = cpos b AND rmask b in
      if cindex + n > rsize b then sp else drop (nat (cindex + n)) (buf b))"

text \<open>
  \<open>peekMessage\<close> decodes the slice and commits what the decoder has read. With an error of the
  commit the message is returned too.
\<close>

definition peekMessage_from :: "fetch \<Rightarrow> bytes \<Rightarrow> mtype \<Rightarrow> int \<Rightarrow> gcore \<Rightarrow>
    gcore \<times> (gerr + message \<times> nat \<times> gerr option) outcome" where
  "peekMessage_from rd sp t tot g =
     (case rd tot (g_in g) of
        (b, Ret (Inl e)) \<Rightarrow>
          if e \<noteq> ErrBufferInsufficientData then (g\<lparr>g_in := b\<rparr>, Ret (Inl (RingErr e)))
          else (g\<lparr>g_in := b\<rparr>, Loops)
      | (b, Ret (Inr p)) \<Rightarrow>
          if int (length p) < tot then (g\<lparr>g_in := b\<rparr>, Loops)
          else (case mtype_New t of
              Inl e \<Rightarrow> (g\<lparr>g_in := b\<rparr>, Ret (Inl (TextErr e)))
            | Inr m \<Rightarrow>
                (case msg_Decode (GSlice p (peek_spare sp tot b)) m of
                   Panic \<Rightarrow> (g\<lparr>g_in := b\<rparr>, Panicked)
                 | Fail n e _ \<Rightarrow> (g\<lparr>g_in := b\<rparr>, Ret (Inl (CodecErr e)))
                 | Go (n, m) \<Rightarrow>
                     (case ReadCommit (int n) b of
                        (b, Ret (Inl e)) \<Rightarrow> (g\<lparr>g_in := b\<rparr>, Ret (Inr (m, n, Some (RingErr e))))
                      | (b, Ret (Inr _)) \<Rightarrow> (g\<lparr>g_in := b\<rparr>, Ret (Inr (m, n, None)))
                      | (b, Waits) \<Rightarrow> (g\<lparr>g_in := b\<rparr>, Waits) | (b, Locked) \<Rightarrow> (g\<lparr>g_in := b\<rparr>, Locked)
                      | (b, Panicked) \<Rightarrow> (g\<lparr>g_in := b\<rparr>, Panicked)
                      | (b, Loops) \<Rightarrow> (g\<lparr>g_in := b\<rparr>, Loops))))
      | (b, Waits) \<Rightarrow> (g\<lparr>g_in := b\<rparr>, Waits) | (b, Locked) \<Rightarrow> (g\<lparr>g_in := b\<rparr>, Locked)
      | (b, Panicked) \<Rightarrow> (g\<lparr>g_in := b\<rparr>, Panicked) | (b, Loops) \<Rightarrow> (g\<lparr>g_in := b\<rparr>, Loops))"

definition peekMessage :: "bytes \<Rightarrow> mtype \<Rightarrow> int \<Rightarrow> gcore \<Rightarrow>
    gcore \<times> (gerr + message \<times> nat \<times> gerr option) outcome" where
  "peekMessage = peekMessage_from ReadWait"

section \<open>Messages into the output ring\<close>

text \<open>\<open>delRequestRespInfo\<close>: without problem information, acknowledgements lose their details.\<close>

definition delRequestRespInfo :: "gcore \<Rightarrow> message \<Rightarrow> message" where
  "delRequestRespInfo g m =
     (if requestProblemInfo (connMsg g) = 0 \<and> msg_Type m \<noteq> CONNACK \<and> msg_Type m \<noteq> DISCONNECT
         \<and> msg_Type m \<noteq> PUBLISH
      then clean_info m else m)"

text \<open>A slice of the ring's array, and the array with the slice written\<close>

definition slice_at :: "nat \<Rightarrow> nat \<Rightarrow> bytes \<Rightarrow> bytes" where
  "slice_at lo hi xs = take (hi - lo) (drop lo xs)"

definition put_slice :: "nat \<Rightarrow> bytes \<Rightarrow> bytes \<Rightarrow> bytes" where
  "put_slice lo d xs = take lo xs @ d @ drop (lo + length d) xs"

type_synonym written = "gcore \<times> message \<times> uint64 \<times> (gerr + int) outcome"

text \<open>The end of both branches: count the bytes, or return the ring's error\<close>

fun count_out :: "gcore \<Rightarrow> message \<Rightarrow> uint64 \<Rightarrow> buffer \<times> (buferr + int) outcome \<Rightarrow> written" where
  "count_out g m k (b, Ret (Inr n)) =
     (g\<lparr>g_out := b, outStat := Incr (word_of_int n) (outStat g)\<rparr>, m, k, Ret (Inr n))"
| "count_out g m k (b, Ret (Inl e)) = (g\<lparr>g_out := b\<rparr>, m, k, Ret (Inl (RingErr e)))"
| "count_out g m k (b, Waits) = (g\<lparr>g_out := b\<rparr>, m, k, Waits)"
| "count_out g m k (b, Locked) = (g\<lparr>g_out := b\<rparr>, m, k, Locked)"
| "count_out g m k (b, Panicked) = (g\<lparr>g_out := b\<rparr>, m, k, Panicked)"
| "count_out g m k (b, Loops) = (g\<lparr>g_out := b\<rparr>, m, k, Loops)"

definition write_wrapped :: "nat \<Rightarrow> message \<Rightarrow> uint64 \<Rightarrow> gcore \<Rightarrow> written" where
  "write_wrapped l m k g =
     (let out = (if length (outTmp g) < l then replicate l 0 else outTmp g) in
      case msg_Encode out k m of
        Panic \<Rightarrow> (g\<lparr>outTmp := out\<rparr>, m, k, Panicked)
      | Fail _ e (d, _, m, k) \<Rightarrow> (g\<lparr>outTmp := d\<rparr>, m, k, Ret (Inl (CodecErr e)))
      | Go (d, n, m, k) \<Rightarrow> count_out (g\<lparr>outTmp := d\<rparr>) m k (Write (take n d) (g_out g)))"

definition write_direct :: "nat \<Rightarrow> nat \<Rightarrow> message \<Rightarrow> uint64 \<Rightarrow> gcore \<Rightarrow> written" where
  "write_direct lo hi m k g =
     (let b = g_out g in
      case msg_Encode (slice_at lo hi (buf b)) k m of
        Panic \<Rightarrow> (g, m, k, Panicked)
      | Fail _ e (d, _, m, k) \<Rightarrow> (g\<lparr>g_out := b\<lparr>buf := put_slice lo d (buf b)\<rparr>\<rparr>, m, k, Ret (Inl (CodecErr e)))
      | Go (d, n, m, k) \<Rightarrow> count_out g m k (WriteCommit (int n) (b\<lparr>buf := put_slice lo d (buf b)\<rparr>)))"

text \<open>\<open>writeMessage\<close> from the wait for \<open>l\<close> bytes on, and as a whole\<close>

definition writeMessage_from :: "waiter \<Rightarrow> nat \<Rightarrow> message \<Rightarrow> uint64 \<Rightarrow> gcore \<Rightarrow> written" where
  "writeMessage_from w l m k g =
     (case WriteWait_from w (int l) (g_out g) of
        (b, Ret (Inr ((lo, hi), wrap))) \<Rightarrow>
          if wrap then write_wrapped l m k (g\<lparr>g_out := b\<rparr>)
          else write_direct lo hi m k (g\<lparr>g_out := b\<rparr>)
      | (b, Ret (Inl e)) \<Rightarrow> (g\<lparr>g_out := b\<rparr>, m, k, Ret (Inl (RingErr e)))
      | (b, Waits) \<Rightarrow> (g\<lparr>g_out := b\<rparr>, m, k, Waits) | (b, Locked) \<Rightarrow> (g\<lparr>g_out := b\<rparr>, m, k, Locked)
      | (b, Panicked) \<Rightarrow> (g\<lparr>g_out := b\<rparr>, m, k, Panicked) | (b, Loops) \<Rightarrow> (g\<lparr>g_out := b\<rparr>, m, k, Loops))"

definition writeMessage :: "message \<Rightarrow> uint64 \<Rightarrow> gcore \<Rightarrow> written" where
  "writeMessage m k g =
     (case msg_Len (delRequestRespInfo g m) of
        None \<Rightarrow> (g, m, k, Panicked)
      | Some (l, m) \<Rightarrow> writeMessage_from waitForWriteSpace l m k g)"

end
