(* ===== verification/AckQueue.thy ===== *)
theory AckQueue
  imports MsgTypes PowerOfTwo
begin

text \<open>
  The queue of messages that wait for an acknowledgement,
  broker/impl/session/mem_ackqueue.go: a growing ring with an index from packet
  identifiers to ring slots. The ring is refined to a list of entries, oldest first.

  The queue sees a message through its interface: type, packet identifier, QoS and DUP
  flag of a PUBLISH, and what \<open>Encode\<close> leaves in a fresh buffer of \<open>Len\<close> bytes. The
  callback \<open>OnComplete\<close> is a value of a type variable. The \<open>int64\<close> fields are natural
  numbers, their invariant keeps them below the size; \<open>grow\<close> panics before the size
  overflows. None is a panic.
\<close>

section \<open>Messages and entries\<close>

record amsg =
  a_type :: mtype
  a_pktid :: uint16
  a_qos :: byte
  a_dup :: bool
  a_enc :: "bytes \<times> goerr option"

record 'oc ackmsg =
  Mtype :: mtype
  State :: mtype
  Pktid :: uint16
  Msgbuf :: bytes
  Ackbuf :: bytes
  OnComplete :: "'oc option"

definition zeroAckmsg :: "'oc ackmsg" where
  "zeroAckmsg = \<lparr>Mtype = RESERVED, State = RESERVED, Pktid = 0, Msgbuf = [], Ackbuf = [],
     OnComplete = None\<rparr>"

datatype aqerr = errQueueEmpty | errWaitMessage | errAckMessage
  | errDuplicate mtype | errDupNotSet | errEncode goerr

record 'oc ackqueue =
  aq_size :: nat
  aq_mask :: nat
  aq_count :: nat
  aq_head :: nat
  aq_tail :: nat
  aq_ping :: "'oc ackmsg"
  aq_ring :: "'oc ackmsg list"
  aq_emap :: "uint16 \<rightharpoonup> nat"
  aq_ackdone :: "'oc ackmsg list"

section \<open>Operations\<close>

text \<open>\<open>make\<close> panics on a negative length.\<close>

definition newMemAckQueue :: "int64 \<Rightarrow> 'oc ackqueue option" where
  "newMemAckQueue n =
     (let m = (if \<not> powerOfTwo64 n then roundUpPowerOfTwo64 n else n) in
      if sint m < 0 then None
      else Some \<lparr>aq_size = unat m, aq_mask = unat (m - 1), aq_count = 0, aq_head = 0, aq_tail = 0,
        aq_ping = zeroAckmsg, aq_ring = replicate (unat m) zeroAckmsg, aq_emap = Map.empty,
        aq_ackdone = []\<rparr>)"

definition newAckqueue :: "int64 \<Rightarrow> 'oc ackqueue option" where
  "newAckqueue n = newMemAckQueue n"

definition aq_Size :: "'oc ackqueue \<Rightarrow> nat" where
  "aq_Size aq = aq_size aq"

definition aq_len :: "'oc ackqueue \<Rightarrow> nat" where
  "aq_len aq = aq_count aq"

definition aq_index :: "'oc ackqueue \<Rightarrow> nat \<Rightarrow> nat" where
  "aq_index aq n = n AND aq_mask aq"

definition aq_full :: "'oc ackqueue \<Rightarrow> bool" where
  "aq_full aq \<longleftrightarrow> aq_count aq = aq_size aq"

definition aq_empty :: "'oc ackqueue \<Rightarrow> bool" where
  "aq_empty aq \<longleftrightarrow> aq_count aq = 0"

definition aq_increment :: "'oc ackqueue \<Rightarrow> nat \<Rightarrow> nat" where
  "aq_increment aq n = (n + 1) AND aq_mask aq"

definition grow :: "'oc ackqueue \<Rightarrow> 'oc ackqueue option" where
  "grow aq =
     (if (2 ^ 63 - 1) div 2 < aq_size aq then None
      else
        let newsize = 2 * aq_size aq;
            content = (if aq_tail aq > aq_head aq
              then take (aq_tail aq - aq_head aq) (drop (aq_head aq) (aq_ring aq))
              else drop (aq_head aq) (aq_ring aq) @ take (aq_tail aq) (aq_ring aq));
            newring = content @ replicate (newsize - length content) zeroAckmsg in
        Some (aq\<lparr>aq_size := newsize, aq_mask := newsize - 1, aq_ring := newring, aq_head := 0,
          aq_tail := aq_count aq,
          aq_emap := foldl (\<lambda>em i. em(Pktid (newring ! i) \<mapsto> i)) Map.empty [0..<aq_count aq]\<rparr>))"

definition aq_insert :: "uint16 \<Rightarrow> amsg \<Rightarrow> 'oc \<Rightarrow> 'oc ackqueue \<Rightarrow>
    ('oc ackqueue \<times> aqerr option) option" where
  "aq_insert pktid msg onc aq0 =
     (case (if aq_full aq0 then grow aq0 else Some aq0) of
        None \<Rightarrow> None
      | Some aq \<Rightarrow>
          if aq_emap aq pktid = None then
            (case a_enc msg of
               (b, Some e) \<Rightarrow> Some (aq, Some (errEncode e))
             | (b, None) \<Rightarrow>
                 if aq_tail aq < length (aq_ring aq) then
                   Some (aq\<lparr>aq_ring := (aq_ring aq)[aq_tail aq :=
                       \<lparr>Mtype = a_type msg, State = RESERVED, Pktid = a_pktid msg, Msgbuf = b,
                        Ackbuf = [], OnComplete = Some onc\<rparr>],
                     aq_emap := (aq_emap aq)(pktid \<mapsto> aq_tail aq),
                     aq_tail := aq_increment aq (aq_tail aq),
                     aq_count := aq_count aq + 1\<rparr>, None)
                 else None)
          else if a_type msg \<noteq> PUBLISH then Some (aq, Some (errDuplicate (a_type msg)))
          else if a_dup msg then Some (aq, Some errDupNotSet)
          else Some (aq, None))"

text \<open>\<open>Wait\<close> drops the error of \<open>insert\<close>.\<close>

definition Wait :: "amsg \<Rightarrow> 'oc \<Rightarrow> 'oc ackqueue \<Rightarrow> ('oc ackqueue \<times> aqerr option) option" where
  "Wait msg onc aq =
     (if a_type msg = PUBLISH then
        (if a_qos msg = QosAtMostOnce then Some (aq, Some errWaitMessage)
         else map_option (\<lambda>(aq', _). (aq', None)) (aq_insert (a_pktid msg) msg onc aq))
      else if a_type msg = SUBSCRIBE \<or> a_type msg = UNSUBSCRIBE then
        map_option (\<lambda>(aq', _). (aq', None)) (aq_insert (a_pktid msg) msg onc aq)
      else if a_type msg = PINGREQ then
        Some (aq\<lparr>aq_ping := \<lparr>Mtype = PINGREQ, State = RESERVED, Pktid = 0, Msgbuf = [], Ackbuf = [],
          OnComplete = Some onc\<rparr>\<rparr>, None)
      else Some (aq, Some errWaitMessage))"

definition Ack :: "amsg \<Rightarrow> 'oc ackqueue \<Rightarrow> ('oc ackqueue \<times> aqerr option) option" where
  "Ack msg aq =
     (if a_type msg \<in> {PUBACK, PUBREC, PUBREL, PUBCOMP, SUBACK, UNSUBACK} then
        (case aq_emap aq (a_pktid msg) of
           None \<Rightarrow> Some (aq, None)
         | Some i \<Rightarrow>
             if i < length (aq_ring aq) then
               (let e = aq_ring aq ! i in
                Some (aq\<lparr>aq_ring := (aq_ring aq)[i := e\<lparr>State := a_type msg, Ackbuf := fst (a_enc msg)\<rparr>]\<rparr>,
                  map_option errEncode (snd (a_enc msg))))
             else None)
      else if a_type msg = PINGRESP then
        (if Mtype (aq_ping aq) = PINGREQ
         then Some (aq\<lparr>aq_ping := (aq_ping aq)\<lparr>State := PINGRESP\<rparr>\<rparr>, None)
         else Some (aq, None))
      else Some (aq, Some errAckMessage))"

definition removeHead :: "'oc ackqueue \<Rightarrow> 'oc ackqueue \<times> aqerr option" where
  "removeHead aq =
     (if aq_empty aq then (aq, Some errQueueEmpty)
      else let it = aq_ring aq ! aq_head aq in
        (aq\<lparr>aq_ring := (aq_ring aq)[aq_head aq := zeroAckmsg],
           aq_head := aq_increment aq (aq_head aq),
           aq_count := aq_count aq - 1,
           aq_emap := (aq_emap aq)(Pktid it := None)\<rparr>, None))"

definition done_state :: "mtype \<Rightarrow> bool" where
  "done_state t \<longleftrightarrow> t \<in> {PUBACK, PUBREL, PUBCOMP, SUBACK, UNSUBACK}"

lemma removeHead_count:
  "\<not> aq_empty aq \<Longrightarrow> aq_count (fst (removeHead aq)) < aq_count aq"
  by (simp add: removeHead_def Let_def aq_empty_def)

text \<open>The loop of \<open>Acked\<close>; it ends because \<open>removeHead\<close> lowers the count.\<close>

function acked_loop :: "'oc ackqueue \<Rightarrow> 'oc ackqueue" where
  "acked_loop aq =
     (if \<not> aq_empty aq \<and> done_state (State (aq_ring aq ! aq_head aq))
      then acked_loop (fst (removeHead
             (aq\<lparr>aq_ackdone := aq_ackdone aq @ [aq_ring aq ! aq_head aq]\<rparr>)))
      else aq)"
  by pat_completeness auto
termination
  by (relation "measure aq_count") (auto simp: removeHead_def Let_def aq_empty_def)

declare acked_loop.simps [simp del]

definition Acked :: "'oc ackqueue \<Rightarrow> 'oc ackqueue \<times> 'oc ackmsg list" where
  "Acked aq =
     (let aq0 = aq\<lparr>aq_ackdone := []\<rparr>;
          aq1 = (if State (aq_ping aq0) = PINGRESP
                 then aq0\<lparr>aq_ackdone := aq_ackdone aq0 @ [aq_ping aq0], aq_ping := zeroAckmsg\<rparr>
                 else aq0);
          aq2 = acked_loop aq1 in
      (aq2, aq_ackdone aq2))"

section \<open>The invariant and the abstract queue\<close>

definition slot :: "'oc ackqueue \<Rightarrow> nat \<Rightarrow> nat" where
  "slot aq k = (aq_head aq + k) mod aq_size aq"

definition entries :: "'oc ackqueue \<Rightarrow> 'oc ackmsg list" where
  "entries aq = map (\<lambda>k. aq_ring aq ! slot aq k) [0..<aq_count aq]"

definition aq_wf :: "'oc ackqueue \<Rightarrow> bool" where
  "aq_wf aq \<longleftrightarrow>
     (\<exists>e\<le>62. aq_size aq = 2 ^ e) \<and> aq_mask aq = aq_size aq - 1 \<and> length (aq_ring aq) = aq_size aq
     \<and> aq_count aq \<le> aq_size aq \<and> aq_head aq < aq_size aq
     \<and> aq_tail aq = slot aq (aq_count aq)
     \<and> distinct (map Pktid (entries aq))
     \<and> (\<forall>p i. aq_emap aq p = Some i \<longleftrightarrow>
          (\<exists>k<aq_count aq. i = slot aq k \<and> Pktid (aq_ring aq ! i) = p))"

section \<open>Slots\<close>

lemma slot_if:
  "k \<le> aq_size aq \<Longrightarrow> aq_head aq < aq_size aq \<Longrightarrow>
   slot aq k = (if aq_head aq + k < aq_size aq then aq_head aq + k else aq_head aq + k - aq_size aq)"
  by (auto simp: slot_def mod_if)

lemma slot_lt: "aq_head aq < aq_size aq \<Longrightarrow> slot aq k < aq_size aq"
  by (simp add: slot_def)

lemma slot_inj:
  "slot aq j = slot aq k \<Longrightarrow> j < aq_size aq \<Longrightarrow> k < aq_size aq \<Longrightarrow> aq_head aq < aq_size aq \<Longrightarrow> j = k"
  by (auto simp: slot_if split: if_splits)

lemma slot_0 [simp]: "aq_head aq < aq_size aq \<Longrightarrow> slot aq 0 = aq_head aq"
  by (simp add: slot_def)

lemma aq_wfD:
  assumes "aq_wf aq"
  shows "aq_mask aq = aq_size aq - 1" "length (aq_ring aq) = aq_size aq"
    "aq_count aq \<le> aq_size aq" "aq_head aq < aq_size aq" "aq_tail aq = slot aq (aq_count aq)"
    "distinct (map Pktid (entries aq))" "0 < aq_size aq"
    "aq_emap aq p = Some i \<longleftrightarrow> (\<exists>k<aq_count aq. i = slot aq k \<and> Pktid (aq_ring aq ! i) = p)"
  using assms unfolding aq_wf_def by auto

lemma length_entries [simp]: "length (entries aq) = aq_count aq"
  by (simp add: entries_def)

lemma nth_entries: "k < aq_count aq \<Longrightarrow> entries aq ! k = aq_ring aq ! slot aq k"
  by (simp add: entries_def)

lemma slot_in_entries: "k < aq_count aq \<Longrightarrow> aq_ring aq ! slot aq k \<in> set (entries aq)"
  by (auto simp: entries_def)

lemma increment_mod:
  assumes "aq_wf aq"
  shows "aq_increment aq n = (n + 1) mod aq_size aq"
proof -
  obtain e where "aq_size aq = 2 ^ e"
    using assms by (auto simp: aq_wf_def)
  moreover have "(n + 1) AND mask e = take_bit e (n + 1)"
    by (simp only: take_bit_eq_mask)
  ultimately show ?thesis
    using aq_wfD(1) [OF assms]
    by (simp only: aq_increment_def mask_eq_exp_minus_1 take_bit_eq_mod)
qed

lemma increment_slot: "aq_wf aq \<Longrightarrow> aq_increment aq (slot aq k) = slot aq (Suc k)"
  by (simp add: increment_mod slot_def mod_Suc_eq)

lemma emap_None:
  assumes "aq_wf aq"
  shows "aq_emap aq p = None \<longleftrightarrow> p \<notin> Pktid ` set (entries aq)"
proof -
  have "p \<in> Pktid ` set (entries aq) \<longleftrightarrow> (\<exists>k<aq_count aq. Pktid (aq_ring aq ! slot aq k) = p)"
    by (auto simp: entries_def)
  also have "\<dots> \<longleftrightarrow> (\<exists>i. aq_emap aq p = Some i)"
    unfolding aq_wfD(8) [OF assms] by blast
  finally show ?thesis
    by auto
qed

lemma entries_cong:
  assumes "aq_count bq = aq_count aq"
    and "\<And>k. k < aq_count aq \<Longrightarrow> aq_ring bq ! slot bq k = aq_ring aq ! slot aq k"
  shows "entries bq = entries aq"
  using assms by (simp add: entries_def)

section \<open>Growing\<close>

lemma foldl_index:
  assumes "inj_on f (set is)" and "distinct is"
  shows "foldl (\<lambda>em i. em(f i \<mapsto> i)) m is p = Some i
    \<longleftrightarrow> (i \<in> set is \<and> f i = p) \<or> (p \<notin> f ` set is \<and> m p = Some i)"
  using assms
proof (induction "is" arbitrary: m)
  case (Cons j js)
  have "inj_on f (set js)" "distinct js" "f j \<notin> f ` set js"
    using Cons.prems by auto
  then show ?case
    unfolding foldl_Cons by (subst Cons.IH) auto
qed simp

lemma full_content:
  assumes wf: "aq_wf aq" and full: "aq_full aq"
  shows "drop (aq_head aq) (aq_ring aq) @ take (aq_tail aq) (aq_ring aq) = entries aq"
    and "\<not> aq_tail aq > aq_head aq"
proof -
  note w = aq_wfD [OF wf]
  have c: "aq_count aq = aq_size aq"
    using full by (simp add: aq_full_def)
  have t: "aq_tail aq = aq_head aq"
    using w(4,5) c by (simp add: slot_def)
  then show "\<not> aq_tail aq > aq_head aq"
    by simp
  show "drop (aq_head aq) (aq_ring aq) @ take (aq_tail aq) (aq_ring aq) = entries aq"
  proof (rule nth_equalityI)
    show "length (drop (aq_head aq) (aq_ring aq) @ take (aq_tail aq) (aq_ring aq)) = length (entries aq)"
      using w(2,4) t c by simp
  next
    fix k assume "k < length (drop (aq_head aq) (aq_ring aq) @ take (aq_tail aq) (aq_ring aq))"
    then have k: "k < aq_size aq"
      using w(2,4) t by simp
    then show "(drop (aq_head aq) (aq_ring aq) @ take (aq_tail aq) (aq_ring aq)) ! k = entries aq ! k"
      using w(2,4) t c by (auto simp: nth_append nth_entries slot_if add.commute)
  qed
qed

lemma grow_ok:
  assumes wf: "aq_wf aq" and full: "aq_full aq" and "aq_size aq < 2 ^ 62"
  shows "\<exists>bq. grow aq = Some bq \<and> aq_wf bq \<and> entries bq = entries aq \<and> \<not> aq_full bq
    \<and> aq_ping bq = aq_ping aq \<and> aq_ackdone bq = aq_ackdone aq"
proof -
  note w = aq_wfD [OF wf]
  have c: "aq_count aq = aq_size aq"
    using full by (simp add: aq_full_def)
  obtain e where e: "aq_size aq = 2 ^ e" "e \<le> 62"
    using wf by (auto simp: aq_wf_def)
  have e61: "Suc e \<le> 62"
    using assms(3) e by (cases "e = 62") auto
  let ?nr = "entries aq @ replicate (aq_size aq) zeroAckmsg"
  define bq where "bq = aq\<lparr>aq_size := 2 * aq_size aq, aq_mask := 2 * aq_size aq - 1, aq_ring := ?nr,
      aq_head := 0, aq_tail := aq_count aq,
      aq_emap := foldl (\<lambda>em i. em(Pktid (?nr ! i) \<mapsto> i)) Map.empty [0..<aq_count aq]\<rparr>"
  have b: "aq_size bq = 2 * aq_size aq" "aq_mask bq = 2 * aq_size aq - 1" "aq_ring bq = ?nr"
    "aq_head bq = 0" "aq_tail bq = aq_count aq" "aq_count bq = aq_count aq"
    "aq_emap bq = foldl (\<lambda>em i. em(Pktid (?nr ! i) \<mapsto> i)) Map.empty [0..<aq_count aq]"
    "aq_ping bq = aq_ping aq" "aq_ackdone bq = aq_ackdone aq"
    by (simp_all add: bq_def)
  have g: "grow aq = Some bq"
    using full_content [OF wf full] assms(3) c by (simp add: grow_def Let_def bq_def)
  have s: "slot bq k = k" if "k \<le> aq_count aq" for k
    using that c w(7) by (simp add: slot_def b)
  have en: "entries bq = entries aq"
  proof (rule nth_equalityI)
    fix k assume "k < length (entries bq)"
    then have "k < aq_count aq"
      by (simp add: b)
    then show "entries bq ! k = entries aq ! k"
      using s [of k] by (simp add: nth_entries [of k bq] nth_append b)
  qed (simp add: b)
  have inj: "inj_on (\<lambda>i. Pktid (?nr ! i)) (set [0..<aq_count aq])"
    using w(6) unfolding inj_on_def distinct_conv_nth by (simp add: nth_append) (metis atLeastLessThan_iff)
  have em: "aq_emap bq p = Some i \<longleftrightarrow> (\<exists>k<aq_count bq. i = slot bq k \<and> Pktid (aq_ring bq ! i) = p)"
    for p i
    using foldl_index [OF inj, of Map.empty p i] s by (auto simp: b)
  have sz: "\<exists>e\<le>62. aq_size bq = 2 ^ e"
    using e e61 by (intro exI [of _ "Suc e"]) (simp add: b)
  have "aq_wf bq"
    unfolding aq_wf_def en using sz em w(6,7) c s [of "aq_count aq"] by (simp add: b)
  then show ?thesis
    using g en c w(7) b(8,9) by (intro exI [of _ bq]) (simp add: aq_full_def b)
qed

section \<open>Refinement of the operations\<close>

definition new_entry :: "amsg \<Rightarrow> 'oc \<Rightarrow> 'oc ackmsg" where
  "new_entry msg onc = \<lparr>Mtype = a_type msg, State = RESERVED, Pktid = a_pktid msg,
     Msgbuf = fst (a_enc msg), Ackbuf = [], OnComplete = Some onc\<rparr>"

text \<open>The abstract insertion: at the end, unless the identifier waits already.\<close>

definition spec_insert :: "amsg \<Rightarrow> 'oc \<Rightarrow> 'oc ackmsg list \<Rightarrow> 'oc ackmsg list" where
  "spec_insert msg onc q =
     (if a_pktid msg \<in> Pktid ` set q \<or> snd (a_enc msg) \<noteq> None then q else q @ [new_entry msg onc])"

definition spec_ack :: "amsg \<Rightarrow> 'oc ackmsg list \<Rightarrow> 'oc ackmsg list" where
  "spec_ack msg q = map (\<lambda>e. if Pktid e = a_pktid msg
     then e\<lparr>State := a_type msg, Ackbuf := fst (a_enc msg)\<rparr> else e) q"

lemma put_tail:
  assumes wf: "aq_wf aq" and nf: "\<not> aq_full aq" and id: "Pktid am \<notin> Pktid ` set (entries aq)"
  defines "bq \<equiv> aq\<lparr>aq_ring := (aq_ring aq)[aq_tail aq := am],
     aq_emap := (aq_emap aq)(Pktid am \<mapsto> aq_tail aq),
     aq_tail := aq_increment aq (aq_tail aq), aq_count := aq_count aq + 1\<rparr>"
  shows "aq_wf bq" and "entries bq = entries aq @ [am]"
proof -
  note w = aq_wfD [OF wf]
  have c: "aq_count aq < aq_size aq"
    using nf w(3) by (simp add: aq_full_def)
  have b: "aq_ring bq = (aq_ring aq)[aq_tail aq := am]" "aq_count bq = Suc (aq_count aq)"
    "aq_emap bq = (aq_emap aq)(Pktid am \<mapsto> aq_tail aq)" "aq_tail bq = aq_increment aq (aq_tail aq)"
    "aq_size bq = aq_size aq" "aq_mask bq = aq_mask aq" "aq_head bq = aq_head aq"
    by (simp_all add: bq_def)
  have s: "slot bq k = slot aq k" for k
    by (simp add: slot_def b)
  have tl: "aq_tail aq < aq_size aq"
    using w(4,5) by (simp add: slot_lt)
  have ne: "slot aq k \<noteq> aq_tail aq" if "k < aq_count aq" for k
    using slot_inj [of aq k "aq_count aq"] w(4,5) c that by auto
  have r: "aq_ring bq ! slot aq k = (if k < aq_count aq then aq_ring aq ! slot aq k else am)"
    if "k < Suc (aq_count aq)" for k
    using that ne [of k] w(2,5) tl by (auto simp: b less_Suc_eq nth_list_update)
  show en: "entries bq = entries aq @ [am]"
  proof (rule nth_equalityI)
    show len: "length (entries bq) = length (entries aq @ [am])"
      by (simp add: b)
    fix k assume "k < length (entries bq)"
    then have k: "k < Suc (aq_count aq)" "k < aq_count bq"
      using len by simp_all
    then show "entries bq ! k = (entries aq @ [am]) ! k"
      using r [OF k(1)] by (auto simp: nth_entries [OF k(2)] s nth_append nth_entries less_Suc_eq)
  qed
  have em: "aq_emap bq p = Some i \<longleftrightarrow> (\<exists>k<aq_count bq. i = slot bq k \<and> Pktid (aq_ring bq ! i) = p)"
    for p i
  proof (cases "p = Pktid am")
    case True
    have no: "Pktid (aq_ring aq ! slot aq k) \<noteq> p" if "k < aq_count aq" for k
      using id True slot_in_entries [OF that] by (metis imageI)
    have "(\<exists>k<Suc (aq_count aq). i = slot aq k \<and> Pktid (aq_ring bq ! i) = p) \<longleftrightarrow> i = aq_tail aq"
      using no r True w(5) by (auto simp: less_Suc_eq)
    then show ?thesis
      using True by (auto simp: b(2,3) s)
  next
    case False
    have "(\<exists>k<Suc (aq_count aq). i = slot aq k \<and> Pktid (aq_ring bq ! i) = p)
        \<longleftrightarrow> (\<exists>k<aq_count aq. i = slot aq k \<and> Pktid (aq_ring aq ! i) = p)"
      using r False by (auto simp: less_Suc_eq)
    then show ?thesis
      using False w(8) [of p i] by (simp add: b(2,3) s)
  qed
  have "\<exists>e\<le>62. aq_size aq = 2 ^ e"
    using wf by (simp add: aq_wf_def)
  then show "aq_wf bq"
    unfolding aq_wf_def en using w(1-7) c id em increment_slot [OF wf]
    by (simp add: b(1,2,4-7) s)
qed

definition insert_err :: "amsg \<Rightarrow> 'oc ackmsg list \<Rightarrow> aqerr option" where
  "insert_err msg q =
     (if a_pktid msg \<notin> Pktid ` set q then map_option errEncode (snd (a_enc msg))
      else if a_type msg \<noteq> PUBLISH then Some (errDuplicate (a_type msg))
      else if a_dup msg then Some errDupNotSet else None)"

lemma make_room:
  assumes "aq_wf aq" and "aq_count aq < 2 ^ 62"
  obtains bq where "(if aq_full aq then grow aq else Some aq) = Some bq" "aq_wf bq"
    "entries bq = entries aq" "\<not> aq_full bq" "aq_ping bq = aq_ping aq"
proof (cases "aq_full aq")
  case True
  then have "aq_size aq < 2 ^ 62"
    using assms(2) by (simp add: aq_full_def)
  with grow_ok [OF assms(1) True] True that show ?thesis
    by auto
next
  case False
  then show ?thesis
    using assms(1) by (intro that [of aq]) simp_all
qed

lemma insert_ok:
  assumes wf: "aq_wf aq" and "aq_count aq < 2 ^ 62"
  shows "\<exists>bq. aq_insert (a_pktid msg) msg onc aq = Some (bq, insert_err msg (entries aq))
    \<and> aq_wf bq \<and> entries bq = spec_insert msg onc (entries aq) \<and> aq_ping bq = aq_ping aq"
proof -
  obtain bq where b: "(if aq_full aq then grow aq else Some aq) = Some bq" "aq_wf bq"
    "entries bq = entries aq" "\<not> aq_full bq" "aq_ping bq = aq_ping aq"
    using make_room [OF assms] .
  have tl: "aq_tail bq < length (aq_ring bq)"
    using aq_wfD(2,4,5) [OF b(2)] by (simp add: slot_lt)
  have em: "aq_emap bq (a_pktid msg) = None \<longleftrightarrow> a_pktid msg \<notin> Pktid ` set (entries aq)"
    using emap_None [OF b(2)] b(3) by simp
  show ?thesis
  proof (cases "a_pktid msg \<in> Pktid ` set (entries aq)")
    case True
    then obtain i where i: "aq_emap bq (a_pktid msg) = Some i"
      using em by auto
    show ?thesis
      using True b by (simp add: aq_insert_def b(1) insert_err_def spec_insert_def i)
  next
    case False
    then have id: "Pktid (new_entry msg onc) \<notin> Pktid ` set (entries bq)"
      by (simp add: new_entry_def b(3))
    note pt = put_tail [OF b(2,4) id]
    show ?thesis
    proof (cases "snd (a_enc msg)")
      case None
      then have "a_enc msg = (fst (a_enc msg), None)"
        by (metis prod.collapse)
      then show ?thesis
        using False b em tl pt None
        by (cases "a_enc msg") (simp add: aq_insert_def b(1) insert_err_def spec_insert_def new_entry_def)
    next
      case (Some e)
      then show ?thesis
        using False b em
        by (cases "a_enc msg") (simp add: aq_insert_def b(1) insert_err_def spec_insert_def)
    qed
  qed
qed

text \<open>\<open>Ack\<close> changes the entry with the identifier, in place.\<close>

lemma entry_update:
  assumes wf: "aq_wf aq" and k: "k < aq_count aq" and same: "Pktid e = Pktid (aq_ring aq ! slot aq k)"
  defines "bq \<equiv> aq\<lparr>aq_ring := (aq_ring aq)[slot aq k := e]\<rparr>"
  shows "aq_wf bq" and "entries bq = (entries aq)[k := e]"
proof -
  note w = aq_wfD [OF wf]
  have b: "aq_ring bq = (aq_ring aq)[slot aq k := e]" "aq_count bq = aq_count aq"
    "aq_emap bq = aq_emap aq" "aq_tail bq = aq_tail aq"
    "aq_size bq = aq_size aq" "aq_mask bq = aq_mask aq" "aq_head bq = aq_head aq"
    by (simp_all add: bq_def)
  have s: "slot bq j = slot aq j" for j
    by (simp add: slot_def b)
  have sl: "slot aq k < length (aq_ring aq)"
    using w(2,4) by (simp add: slot_lt)
  have r: "aq_ring bq ! slot aq j = (if j = k then e else aq_ring aq ! slot aq j)" if "j < aq_count aq" for j
    using slot_inj [of aq j k] w(3,4) that k sl by (auto simp: b nth_list_update)
  show en: "entries bq = (entries aq)[k := e]"
    by (rule nth_equalityI)
      (simp_all add: nth_entries [of _ bq] nth_entries [of _ aq] b(2) s r nth_list_update k)
  have p: "map Pktid (entries bq) = map Pktid (entries aq)"
    unfolding en map_update using same nth_entries [OF k] k
    by (metis length_map list_update_id nth_map length_entries)
  have em: "aq_emap bq q = Some i \<longleftrightarrow> (\<exists>j<aq_count bq. i = slot bq j \<and> Pktid (aq_ring bq ! i) = q)"
    for q i
  proof -
    have "Pktid (aq_ring bq ! slot aq j) = Pktid (aq_ring aq ! slot aq j)" if "j < aq_count aq" for j
      using r [OF that] same by simp
    then show ?thesis
      using w(8) [of q i] by (auto simp: b(2,3) s)
  qed
  have "\<exists>e\<le>62. aq_size aq = 2 ^ e"
    using wf by (simp add: aq_wf_def)
  then show "aq_wf bq"
    unfolding aq_wf_def p using w(1-7) em by (simp add: b s)
qed

lemma Ack_ok:
  assumes wf: "aq_wf aq" and t: "a_type msg \<in> {PUBACK, PUBREC, PUBREL, PUBCOMP, SUBACK, UNSUBACK}"
  shows "\<exists>bq err. Ack msg aq = Some (bq, err) \<and> aq_wf bq \<and> entries bq = spec_ack msg (entries aq)
    \<and> aq_ping bq = aq_ping aq"
proof (cases "aq_emap aq (a_pktid msg)")
  case None
  then have "spec_ack msg (entries aq) = entries aq"
    unfolding emap_None [OF wf] spec_ack_def by (intro map_idI) (auto simp: image_iff)
  then show ?thesis
    using None wf t by (auto simp: Ack_def)
next
  case (Some i)
  note w = aq_wfD [OF wf]
  obtain k where k: "k < aq_count aq" "i = slot aq k" "Pktid (aq_ring aq ! i) = a_pktid msg"
    using Some w(8) by blast
  let ?e = "(aq_ring aq ! i)\<lparr>State := a_type msg, Ackbuf := fst (a_enc msg)\<rparr>"
  let ?bq = "aq\<lparr>aq_ring := (aq_ring aq)[i := ?e]\<rparr>"
  have bq: "aq_wf ?bq" "entries ?bq = (entries aq)[k := ?e]"
    using entry_update [OF wf k(1), of ?e] k(2) by simp_all
  have ids: "Pktid (aq_ring aq ! slot aq j) = a_pktid msg \<longleftrightarrow> j = k" if "j < aq_count aq" for j
    using nth_eq_iff_index_eq [OF w(6), of j k] k that by (auto simp: nth_entries)
  have "(entries aq)[k := ?e] = spec_ack msg (entries aq)"
    by (rule nth_equalityI) (auto simp: spec_ack_def nth_list_update ids nth_entries k)
  moreover have "i < length (aq_ring aq)"
    using w(2,4) k(2) by (simp add: slot_lt)
  ultimately show ?thesis
    using Some t bq by (auto simp: Ack_def Let_def)
qed

text \<open>\<open>removeHead\<close> takes the oldest entry.\<close>

lemma removeHead_ok:
  assumes wf: "aq_wf aq" and ne: "\<not> aq_empty aq"
  defines "bq \<equiv> fst (removeHead aq)"
  shows "aq_wf bq" and "entries bq = tl (entries aq)" and "aq_ping bq = aq_ping aq"
    and "aq_ackdone bq = aq_ackdone aq" and "entries aq \<noteq> []"
    and "aq_ring aq ! aq_head aq = hd (entries aq)"
proof -
  note w = aq_wfD [OF wf]
  have c: "0 < aq_count aq"
    using ne by (simp add: aq_empty_def)
  have b: "aq_ring bq = (aq_ring aq)[slot aq 0 := zeroAckmsg]" "aq_count bq = aq_count aq - 1"
    "aq_emap bq = (aq_emap aq)(Pktid (aq_ring aq ! slot aq 0) := None)" "aq_tail bq = aq_tail aq"
    "aq_size bq = aq_size aq" "aq_mask bq = aq_mask aq" "aq_head bq = slot aq 1"
    "aq_ping bq = aq_ping aq" "aq_ackdone bq = aq_ackdone aq"
    using ne w(4) increment_slot [OF wf, of 0] by (simp_all add: bq_def removeHead_def Let_def)
  then show "aq_ping bq = aq_ping aq" "aq_ackdone bq = aq_ackdone aq"
    by blast+
  have s: "slot bq k = slot aq (Suc k)" for k
    by (simp add: slot_def b mod_add_left_eq)
  have ne0: "slot aq (Suc k) \<noteq> slot aq 0" if "Suc k < aq_count aq" for k
    using slot_inj [of aq "Suc k" 0] w(3,4) that by linarith
  have r: "aq_ring bq ! slot aq (Suc k) = aq_ring aq ! slot aq (Suc k)" if "Suc k < aq_count aq" for k
    using ne0 [OF that] by (simp add: b(1))
  show nn: "entries aq \<noteq> []"
    using c by (simp flip: length_greater_0_conv)
  show hd: "aq_ring aq ! aq_head aq = hd (entries aq)"
    using nth_entries [OF c] w(4) nn by (simp add: hd_conv_nth)
  show en: "entries bq = tl (entries aq)"
    by (rule nth_equalityI) (simp_all add: nth_entries [of _ bq] nth_tl nth_entries b(2) s r)
  have cons: "entries aq = hd (entries aq) # entries bq"
    using nn en by simp
  have dist: "distinct (map Pktid (entries bq))" "Pktid (hd (entries aq)) \<notin> Pktid ` set (entries bq)"
    using w(6) by (subst (asm) cons, simp)+
  have em: "aq_emap bq p = Some i \<longleftrightarrow> (\<exists>k<aq_count bq. i = slot bq k \<and> Pktid (aq_ring bq ! i) = p)"
    for p i
  proof -
    have no: "Pktid (aq_ring bq ! slot bq k) \<noteq> Pktid (hd (entries aq))" if "k < aq_count bq" for k
      using dist(2) slot_in_entries [OF that] by (metis imageI)
    have split: "(\<exists>k<aq_count aq. Q k) \<longleftrightarrow> Q 0 \<or> (\<exists>k<aq_count bq. Q (Suc k))" for Q
      using c by (cases "aq_count aq") (auto simp: b(2) less_Suc_eq_0_disj)
    show ?thesis
      unfolding b(3) fun_upd_apply
      using w(8) [of p i] no r hd w(4)
      by (cases "p = Pktid (hd (entries aq))") (auto simp: split s b(2))
  qed
  have "\<exists>e\<le>62. aq_size aq = 2 ^ e"
    using wf by (simp add: aq_wf_def)
  then show "aq_wf bq"
    unfolding aq_wf_def using w(1-5,7) c dist em slot_lt [of aq 1]
    by (simp add: b(1,2,4-7) s)
qed

lemma aq_ping_upd [simp]:
  "aq_wf (aq\<lparr>aq_ping := p\<rparr>) = aq_wf aq" "aq_wf (aq\<lparr>aq_ackdone := d\<rparr>) = aq_wf aq"
  "entries (aq\<lparr>aq_ping := p\<rparr>) = entries aq" "entries (aq\<lparr>aq_ackdone := d\<rparr>) = entries aq"
  "aq_empty (aq\<lparr>aq_ackdone := d\<rparr>) = aq_empty aq"
  by (simp_all add: aq_wf_def entries_def slot_def aq_empty_def)

lemma acked_loop_ok:
  assumes "aq_wf aq"
  shows "aq_wf (acked_loop aq)
    \<and> aq_ackdone (acked_loop aq) = aq_ackdone aq @ takeWhile (done_state \<circ> State) (entries aq)
    \<and> entries (acked_loop aq) = dropWhile (done_state \<circ> State) (entries aq)
    \<and> aq_ping (acked_loop aq) = aq_ping aq"
  using assms
proof (induction aq rule: acked_loop.induct)
  case (1 aq)
  show ?case
  proof (cases "aq_empty aq")
    case True
    then have "entries aq = []"
      by (simp add: aq_empty_def flip: length_0_conv)
    then show ?thesis
      using True 1(2) by (subst (1 2 3 4) acked_loop.simps) simp
  next
    case ne: False
    let ?cq = "aq\<lparr>aq_ackdone := aq_ackdone aq @ [aq_ring aq ! aq_head aq]\<rparr>"
    note r = removeHead_ok [OF 1(2) ne]
    have rc: "aq_wf ?cq" "\<not> aq_empty ?cq"
      using 1(2) ne by simp_all
    note rr = removeHead_ok [OF rc]
    show ?thesis
    proof (cases "done_state (State (aq_ring aq ! aq_head aq))")
      case True
      have l: "acked_loop aq = acked_loop (fst (removeHead ?cq))"
        using ne True by (subst acked_loop.simps) simp
      show ?thesis
        unfolding l using 1(1) [OF conjI [OF ne True] rr(1)] rr r True
        by (cases "entries aq") auto
    next
      case False
      then show ?thesis
        using r 1(2) ne by (subst (1 2 3 4) acked_loop.simps) (cases "entries aq"; simp)
    qed
  qed
qed

lemma Acked_ok:
  assumes "aq_wf aq"
  shows "aq_wf (fst (Acked aq))
    \<and> snd (Acked aq) = (if State (aq_ping aq) = PINGRESP then [aq_ping aq] else [])
        @ takeWhile (done_state \<circ> State) (entries aq)
    \<and> entries (fst (Acked aq)) = dropWhile (done_state \<circ> State) (entries aq)
    \<and> aq_ping (fst (Acked aq)) = (if State (aq_ping aq) = PINGRESP then zeroAckmsg else aq_ping aq)"
proof -
  let ?a1 = "if State (aq_ping aq) = PINGRESP
    then aq\<lparr>aq_ackdone := [aq_ping aq], aq_ping := zeroAckmsg\<rparr> else aq\<lparr>aq_ackdone := []\<rparr>"
  have "aq_wf ?a1"
    using assms by simp
  from acked_loop_ok [OF this] show ?thesis
    by (simp add: Acked_def Let_def split: if_splits)
qed

text \<open>Sixteen-bit identifiers bound the queue, so it never panics.\<close>

lemma count_le: "aq_wf aq \<Longrightarrow> aq_count aq \<le> 2 ^ 16"
proof -
  assume "aq_wf aq"
  then have "card (set (map Pktid (entries aq))) = aq_count aq"
    using distinct_card aq_wfD(6) by fastforce
  moreover have "card (set (map Pktid (entries aq))) \<le> card (UNIV :: uint16 set)"
    by (rule card_mono) simp_all
  ultimately show ?thesis
    by (simp add: card_word)
qed

lemma new_ok:
  assumes "0 < unat n" and "unat n \<le> 2 ^ 62"
  shows "\<exists>aq. newMemAckQueue n = Some aq \<and> aq_wf aq \<and> entries aq = [] \<and> aq_ping aq = zeroAckmsg
    \<and> unat n \<le> aq_size aq"
proof -
  let ?m = "if \<not> powerOfTwo64 n then roundUpPowerOfTwo64 n else n"
  have pow: "\<exists>k\<le>62. unat ?m = 2 ^ k \<and> unat n \<le> 2 ^ k"
  proof (cases "powerOfTwo64 n")
    case False
    then show ?thesis
      using roundUp_correct [OF assms] by auto
  next
    case True
    then show ?thesis
      using powerOfTwo64_unat [OF True assms(2)] by auto
  qed
  then obtain k where k: "k \<le> 62" "unat ?m = 2 ^ k" "unat n \<le> 2 ^ k"
    by blast
  have "(2::nat) ^ k < 2 ^ 63"
    using k(1) by (intro power_strict_increasing) simp_all
  then have pos: "\<not> sint ?m < 0"
    using k(2) sint_pos by metis
  have m1: "unat (?m - 1) = 2 ^ k - 1"
    using k(2) by (simp add: unat_sub word_le_nat_alt)
  show ?thesis
    using pos k m1 by (auto simp: newMemAckQueue_def Let_def aq_wf_def entries_def slot_def)
qed

section \<open>Sequences of operations\<close>

datatype 'oc aqop = OWait amsg 'oc | OAck amsg | OAcked

datatype 'oc aqev = Released "'oc ackmsg" | Refused aqerr

fun refused :: "aqerr option \<Rightarrow> 'oc aqev list" where
  "refused None = []"
| "refused (Some e) = [Refused e]"

fun aq_step :: "'oc aqop \<Rightarrow> 'oc ackqueue \<Rightarrow> ('oc ackqueue \<times> 'oc aqev list) option" where
  "aq_step (OWait m onc) aq = map_option (\<lambda>(bq, e). (bq, refused e)) (Wait m onc aq)"
| "aq_step (OAck m) aq = map_option (\<lambda>(bq, e). (bq, refused e)) (Ack m aq)"
| "aq_step OAcked aq = Some (fst (Acked aq), map Released (snd (Acked aq)))"

definition waits :: "amsg \<Rightarrow> bool" where
  "waits m \<longleftrightarrow> (a_type m = PUBLISH \<and> a_qos m \<noteq> QosAtMostOnce) \<or> a_type m = SUBSCRIBE \<or> a_type m = UNSUBSCRIBE"

text \<open>The contract, on the pending ping and the list of waiting entries.\<close>

fun aq_spec :: "'oc aqop \<Rightarrow> 'oc ackmsg \<times> 'oc ackmsg list \<Rightarrow> ('oc ackmsg \<times> 'oc ackmsg list) \<times> 'oc aqev list" where
  "aq_spec (OWait m onc) (ping, q) =
     (if waits m then ((ping, spec_insert m onc q), [])
      else if a_type m = PINGREQ then
        ((\<lparr>Mtype = PINGREQ, State = RESERVED, Pktid = 0, Msgbuf = [], Ackbuf = [], OnComplete = Some onc\<rparr>, q), [])
      else ((ping, q), [Refused errWaitMessage]))"
| "aq_spec (OAck m) (ping, q) =
     (if a_type m \<in> {PUBACK, PUBREC, PUBREL, PUBCOMP, SUBACK, UNSUBACK} then
        ((ping, spec_ack m q),
         if a_pktid m \<in> Pktid ` set q then refused (map_option errEncode (snd (a_enc m))) else [])
      else if a_type m = PINGRESP then
        ((if Mtype ping = PINGREQ then ping\<lparr>State := PINGRESP\<rparr> else ping, q), [])
      else ((ping, q), [Refused errAckMessage]))"
| "aq_spec OAcked (ping, q) =
     ((if State ping = PINGRESP then zeroAckmsg else ping, dropWhile (done_state \<circ> State) q),
      map Released ((if State ping = PINGRESP then [ping] else []) @ takeWhile (done_state \<circ> State) q))"

definition aq_abs :: "'oc ackqueue \<Rightarrow> 'oc ackmsg \<times> 'oc ackmsg list" where
  "aq_abs aq = (aq_ping aq, entries aq)"

lemma Ack_err:
  assumes wf: "aq_wf aq" and t: "a_type m \<in> {PUBACK, PUBREC, PUBREL, PUBCOMP, SUBACK, UNSUBACK}"
    and a: "Ack m aq = Some (bq, e)"
  shows "e = (if a_pktid m \<in> Pktid ` set (entries aq) then map_option errEncode (snd (a_enc m)) else None)"
  using a t emap_None [OF wf, of "a_pktid m"]
  by (cases "aq_emap aq (a_pktid m)") (auto simp: Ack_def Let_def split: if_splits)

lemma aq_step_ok:
  assumes wf: "aq_wf aq"
  shows "\<exists>bq os. aq_step x aq = Some (bq, os) \<and> aq_wf bq \<and> aq_spec x (aq_abs aq) = (aq_abs bq, os)"
proof (cases x)
  case (OWait m onc)
  have c: "aq_count aq < 2 ^ 62"
    using count_le [OF wf] by simp
  show ?thesis
  proof (cases "waits m")
    case True
    obtain bq where "aq_insert (a_pktid m) m onc aq = Some (bq, insert_err m (entries aq))" "aq_wf bq"
      "entries bq = spec_insert m onc (entries aq)" "aq_ping bq = aq_ping aq"
      using insert_ok [OF wf c] by blast
    then show ?thesis
      using True by (auto simp: OWait Wait_def waits_def aq_abs_def)
  next
    case False
    then show ?thesis
      using wf by (auto simp: OWait Wait_def waits_def aq_abs_def)
  qed
next
  case (OAck m)
  show ?thesis
  proof (cases "a_type m \<in> {PUBACK, PUBREC, PUBREL, PUBCOMP, SUBACK, UNSUBACK}")
    case True
    obtain bq e where b: "Ack m aq = Some (bq, e)" "aq_wf bq" "entries bq = spec_ack m (entries aq)"
      "aq_ping bq = aq_ping aq"
      using Ack_ok [OF wf True] by blast
    show ?thesis
      using True b Ack_err [OF wf True b(1)] by (simp add: OAck aq_abs_def)
  next
    case False
    then show ?thesis
      using wf by (auto simp: OAck Ack_def aq_abs_def)
  qed
next
  case OAcked
  then show ?thesis
    using Acked_ok [OF wf] by (simp add: aq_abs_def)
qed

interpretation aq: machine_refinement aq_wf aq_abs aq_step aq_spec
  by unfold_locales (rule aq_step_ok)

text \<open>
  The identifiers that a sequence of operations takes in, and those it lets out. The ping
  entry is let out in state PINGRESP, which no waiting entry has.
\<close>

fun taken :: "'oc aqop list \<Rightarrow> 'oc ackmsg \<times> 'oc ackmsg list \<Rightarrow> uint16 list" where
  "taken [] a = []"
| "taken (x # xs) a =
     (case x of OWait m onc \<Rightarrow>
        (if waits m \<and> a_pktid m \<notin> Pktid ` set (snd a) \<and> snd (a_enc m) = None then [a_pktid m] else [])
      | _ \<Rightarrow> []) @ taken xs (fst (aq_spec x a))"

fun out_ids :: "'oc aqev list \<Rightarrow> uint16 list" where
  "out_ids [] = []"
| "out_ids (Released e # os) = (if State e = PINGRESP then [] else [Pktid e]) @ out_ids os"
| "out_ids (Refused e # os) = out_ids os"

lemma out_ids_append [simp]: "out_ids (os @ os') = out_ids os @ out_ids os'"
  by (induction os rule: out_ids.induct) auto

lemma out_ids_refused [simp]: "out_ids (refused e) = []"
  by (cases e) auto

lemma out_ids_done:
  "out_ids (map Released (takeWhile (done_state \<circ> State) q)) = map Pktid (takeWhile (done_state \<circ> State) q)"
  by (induction q) (auto simp: done_state_def)

lemma ids_spec_ack [simp]: "map Pktid (spec_ack m q) = map Pktid q"
  by (auto simp: spec_ack_def)

lemma aq_spec_ids:
  "out_ids (snd (aq_spec x a)) @ map Pktid (snd (fst (aq_spec x a))) = map Pktid (snd a) @ taken [x] a"
proof (cases a)
  case (Pair ping q)
  then show ?thesis
  proof (cases x)
    case OAcked
    have "map Pktid (takeWhile (done_state \<circ> State) q) @ map Pktid (dropWhile (done_state \<circ> State) q) = map Pktid q"
      by (simp flip: map_append)
    then show ?thesis
      by (simp add: Pair OAcked out_ids_done)
  qed (auto simp: spec_insert_def new_entry_def)
qed

lemma spec_run_ids:
  "out_ids (snd (spec_run aq_spec xs a)) @ map Pktid (snd (fst (spec_run aq_spec xs a)))
     = map Pktid (snd a) @ taken xs a"
proof (induction xs arbitrary: a)
  case (Cons x xs)
  obtain a' os where 1: "aq_spec x a = (a', os)"
    by (cases "aq_spec x a")
  have "out_ids os @ map Pktid (snd a') = map Pktid (snd a) @ taken [x] a"
    using aq_spec_ids [of x a] 1 by simp
  moreover have "out_ids (snd (spec_run aq_spec xs a')) @ map Pktid (snd (fst (spec_run aq_spec xs a')))
     = map Pktid (snd a') @ taken xs a'"
    by (rule Cons.IH)
  moreover have "taken (x # xs) a = taken [x] a @ taken xs a'"
    by (simp add: 1)
  ultimately show ?case
    by (cases "spec_run aq_spec xs a'") (simp add: 1)
qed simp

lemmas aq_run_ok = aq.run_ok

end
