(* ===== verification/SafeMap.thy ===== *)
theory SafeMap
  imports Prelude "HOL-Library.AList"
begin

text \<open>
  The map of util/collection/safe_map.go: two Go maps with deletion counters, between
  which the entries migrate when many were deleted. A Go map is an association list with
  distinct keys; the iterations of the code do not depend on their order. The map is
  refined to a partial function. The read-write lock makes every method atomic, except
  that \<open>GetOrSet\<close> reads before it locks: it takes the two states it sees.
\<close>

record ('k, 'v) safemap =
  deletionOld :: nat
  deletionNew :: nat
  dirtyOld :: "('k \<times> 'v) list"
  dirtyNew :: "('k \<times> 'v) list"

definition copyThreshold :: nat where "copyThreshold = 1000"
definition maxDeletion :: nat where "maxDeletion = 10000"

definition NewSafeMap :: "('k, 'v) safemap" where
  "NewSafeMap = \<lparr>deletionOld = 0, deletionNew = 0, dirtyOld = [], dirtyNew = []\<rparr>"

section \<open>Operations\<close>

text \<open>\<open>for k, v := range src { dst[k] = v }\<close>\<close>

definition copyInto :: "('k \<times> 'v) list \<Rightarrow> ('k \<times> 'v) list \<Rightarrow> ('k \<times> 'v) list" where
  "copyInto src dst = fold (\<lambda>(k, v) d. AList.update k v d) src dst"

definition remove_entry :: "'k \<Rightarrow> ('k, 'v) safemap \<Rightarrow> ('k, 'v) safemap \<times> 'v option" where
  "remove_entry key m =
     (case map_of (dirtyOld m) key of
        Some old \<Rightarrow> (m\<lparr>dirtyOld := AList.delete key (dirtyOld m), deletionOld := deletionOld m + 1\<rparr>, Some old)
      | None \<Rightarrow>
          (case map_of (dirtyNew m) key of
             Some old \<Rightarrow> (m\<lparr>dirtyNew := AList.delete key (dirtyNew m), deletionNew := deletionNew m + 1\<rparr>, Some old)
           | None \<Rightarrow> (m, None)))"

definition migrate_old :: "('k, 'v) safemap \<Rightarrow> ('k, 'v) safemap" where
  "migrate_old m =
     (if deletionOld m \<ge> maxDeletion \<and> length (dirtyOld m) < copyThreshold
      then \<lparr>deletionOld = deletionNew m, deletionNew = 0,
            dirtyOld = copyInto (dirtyOld m) (dirtyNew m), dirtyNew = []\<rparr>
      else m)"

definition migrate_new :: "('k, 'v) safemap \<Rightarrow> ('k, 'v) safemap" where
  "migrate_new m =
     (if deletionNew m \<ge> maxDeletion \<and> length (dirtyNew m) < copyThreshold
      then m\<lparr>dirtyOld := copyInto (dirtyNew m) (dirtyOld m), dirtyNew := [], deletionNew := 0\<rparr>
      else m)"

definition sm_del :: "'k \<Rightarrow> ('k, 'v) safemap \<Rightarrow> ('k, 'v) safemap \<times> 'v option" where
  "sm_del key m = (let (m1, old) = remove_entry key m in (migrate_new (migrate_old m1), old))"

definition Del :: "'k \<Rightarrow> ('k, 'v) safemap \<Rightarrow> ('k, 'v) safemap" where
  "Del key m = fst (sm_del key m)"

definition Dels :: "'k list \<Rightarrow> ('k, 'v) safemap \<Rightarrow> ('k, 'v) safemap" where
  "Dels keys m = fold (\<lambda>key m. fst (sm_del key m)) keys m"

definition Get :: "'k \<Rightarrow> ('k, 'v) safemap \<Rightarrow> 'v option" where
  "Get key m = (case map_of (dirtyOld m) key of Some v \<Rightarrow> Some v | None \<Rightarrow> map_of (dirtyNew m) key)"

definition ContainsKey :: "'k \<Rightarrow> ('k, 'v) safemap \<Rightarrow> bool" where
  "ContainsKey key m \<longleftrightarrow> Get key m \<noteq> None"

definition put_old :: "'k \<Rightarrow> 'v \<Rightarrow> ('k, 'v) safemap \<Rightarrow> ('k, 'v) safemap" where
  "put_old key v m =
     (let m1 = (if map_of (dirtyNew m) key \<noteq> None
                then m\<lparr>dirtyNew := AList.delete key (dirtyNew m), deletionNew := deletionNew m + 1\<rparr> else m)
      in m1\<lparr>dirtyOld := AList.update key v (dirtyOld m1)\<rparr>)"

definition put_new :: "'k \<Rightarrow> 'v \<Rightarrow> ('k, 'v) safemap \<Rightarrow> ('k, 'v) safemap" where
  "put_new key v m =
     (let m1 = (if map_of (dirtyOld m) key \<noteq> None
                then m\<lparr>dirtyOld := AList.delete key (dirtyOld m), deletionOld := deletionOld m + 1\<rparr> else m)
      in m1\<lparr>dirtyNew := AList.update key v (dirtyNew m1)\<rparr>)"

definition Set :: "'k \<Rightarrow> 'v \<Rightarrow> ('k, 'v) safemap \<Rightarrow> ('k, 'v) safemap" where
  "Set key v m = (if deletionOld m \<le> maxDeletion then put_old key v m else put_new key v m)"

text \<open>
  \<open>GetOrSet\<close>: \<open>m1\<close> is what the unlocked read sees, \<open>m2\<close> the map under the lock. The last
  component tells whether the lock is released on return.
\<close>

definition GetOrSet :: "'k \<Rightarrow> 'v \<Rightarrow> ('k, 'v) safemap \<Rightarrow> ('k, 'v) safemap \<Rightarrow>
    ('k, 'v) safemap \<times> 'v \<times> bool \<times> bool" where
  "GetOrSet key v m1 m2 =
     (case Get key m1 of
        Some x \<Rightarrow> (m2, x, True, True)
      | None \<Rightarrow>
          (case map_of (dirtyOld m2) key of
             Some x \<Rightarrow> (m2, x, True, False)
           | None \<Rightarrow>
               (case map_of (dirtyNew m2) key of
                  Some x \<Rightarrow> (m2, x, True, False)
                | None \<Rightarrow>
                    ((if deletionOld m2 \<le> maxDeletion then put_old key v m2 else put_new key v m2),
                     v, False, True))))"

definition GetDel :: "'k \<Rightarrow> ('k, 'v) safemap \<Rightarrow> ('k, 'v) safemap \<times> 'v option" where
  "GetDel key m = sm_del key m"

definition Size :: "('k, 'v) safemap \<Rightarrow> nat" where
  "Size m = length (dirtyOld m) + length (dirtyNew m)"

text \<open>\<open>Range\<close> with a callback on a state; the first error stops it.\<close>

fun range_entries :: "('k \<Rightarrow> 'v \<Rightarrow> 's \<Rightarrow> 's \<times> 'e option) \<Rightarrow> ('k \<times> 'v) list \<Rightarrow> 's \<Rightarrow> 's \<times> 'e option" where
  "range_entries fn [] s = (s, None)"
| "range_entries fn ((k, v) # es) s =
     (case fn k v s of
        (s', Some e) \<Rightarrow> (s', Some e)
      | (s', None) \<Rightarrow> range_entries fn es s')"

definition Range :: "('k \<Rightarrow> 'v \<Rightarrow> 's \<Rightarrow> 's \<times> 'e option) \<Rightarrow> ('k, 'v) safemap \<Rightarrow> 's \<Rightarrow> 's \<times> 'e option" where
  "Range fn m s =
     (case range_entries fn (dirtyOld m) s of
        (s', Some e) \<Rightarrow> (s', Some e)
      | (s', None) \<Rightarrow> range_entries fn (dirtyNew m) s')"

section \<open>The invariant and the abstraction\<close>

definition sm_wf :: "('k, 'v) safemap \<Rightarrow> bool" where
  "sm_wf m \<longleftrightarrow> distinct (map fst (dirtyOld m)) \<and> distinct (map fst (dirtyNew m))
     \<and> fst ` set (dirtyOld m) \<inter> fst ` set (dirtyNew m) = {}"

definition sm_abs :: "('k, 'v) safemap \<Rightarrow> 'k \<rightharpoonup> 'v" where
  "sm_abs m = map_of (dirtyNew m) ++ map_of (dirtyOld m)"

lemma NewSafeMap_ok: "sm_wf NewSafeMap" "sm_abs NewSafeMap = Map.empty"
  by (simp_all add: sm_wf_def sm_abs_def NewSafeMap_def)

lemma Get_abs: "Get key m = sm_abs m key"
  by (simp add: Get_def sm_abs_def map_add_def)

lemma copyInto_props:
  "distinct (map fst dst) \<Longrightarrow>
   distinct (map fst (copyInto src dst)) \<and> fst ` set (copyInto src dst) = fst ` set src \<union> fst ` set dst"
  unfolding copyInto_def
proof (induction src arbitrary: dst)
  case (Cons kv src)
  obtain k v where kv: "kv = (k, v)" by fastforce
  have "distinct (map fst (AList.update k v dst))"
    using Cons.prems by (simp add: distinct_update)
  from Cons.IH [OF this] show ?case
    by (auto simp: kv dom_update)
qed simp

lemma copyInto_map:
  "distinct (map fst src) \<Longrightarrow> map_of (copyInto src dst) = map_of dst ++ map_of src"
  unfolding copyInto_def
proof (induction src arbitrary: dst)
  case (Cons kv src)
  obtain k v where kv: "kv = (k, v)" by fastforce
  have "k \<notin> dom (map_of src)"
    using Cons.prems by (auto simp: kv dom_map_of_conv_image_fst)
  then show ?case
    using Cons by (auto simp: kv update_conv' fun_eq_iff map_add_def domIff split: option.split)
qed simp

lemma wf_disjoint:
  "sm_wf m \<Longrightarrow> map_of (dirtyOld m) k \<noteq> None \<Longrightarrow> map_of (dirtyNew m) k = None"
  unfolding sm_wf_def by (metis IntI empty_iff map_of_eq_None_iff)

lemma delete_keys_set: "fst ` set (AList.delete key al) = fst ` set al - {key}"
  by (metis delete_keys set_map set_removeAll)

lemma remove_entry_ok:
  assumes "sm_wf m"
  shows "sm_wf (fst (remove_entry key m))"
    and "sm_abs (fst (remove_entry key m)) = (sm_abs m)(key := None)"
    and "snd (remove_entry key m) = sm_abs m key"
proof -
  have d: "distinct (map fst (dirtyOld m))" "distinct (map fst (dirtyNew m))"
    "fst ` set (dirtyOld m) \<inter> fst ` set (dirtyNew m) = {}"
    using assms by (simp_all add: sm_wf_def)
  have k: "(fst ` set xs - {key}) \<inter> fst ` set ys = {}" "fst ` set xs \<inter> (fst ` set ys - {key}) = {}"
    if "fst ` set xs \<inter> fst ` set ys = {}" for xs ys :: "('a \<times> 'b) list"
    using that by blast+
  show "sm_wf (fst (remove_entry key m))"
    using d k [OF d(3)]
    by (simp add: remove_entry_def sm_wf_def distinct_delete delete_keys_set split: option.split)
  show "sm_abs (fst (remove_entry key m)) = (sm_abs m)(key := None)"
    using wf_disjoint [OF assms, of key]
    by (auto simp: remove_entry_def sm_abs_def delete_conv' fun_eq_iff map_add_def split: option.splits)
  show "snd (remove_entry key m) = sm_abs m key"
    by (simp add: remove_entry_def sm_abs_def map_add_def split: option.split)
qed

lemma migrate_ok:
  assumes "sm_wf m"
  shows "sm_wf (migrate_old m)" "sm_abs (migrate_old m) = sm_abs m"
    "sm_wf (migrate_new m)" "sm_abs (migrate_new m) = sm_abs m"
proof -
  have d: "distinct (map fst (dirtyOld m))" "distinct (map fst (dirtyNew m))"
    "fst ` set (dirtyOld m) \<inter> fst ` set (dirtyNew m) = {}"
    using assms by (simp_all add: sm_wf_def)
  have comm: "map_of (dirtyOld m) ++ map_of (dirtyNew m) = map_of (dirtyNew m) ++ map_of (dirtyOld m)"
    by (rule map_add_comm) (use d(3) in \<open>simp add: dom_map_of_conv_image_fst\<close>)
  show "sm_wf (migrate_old m)" "sm_wf (migrate_new m)"
    using assms copyInto_props [OF d(2), of "dirtyOld m"] copyInto_props [OF d(1), of "dirtyNew m"]
    by (simp_all add: migrate_old_def migrate_new_def sm_wf_def)
  show "sm_abs (migrate_old m) = sm_abs m" "sm_abs (migrate_new m) = sm_abs m"
    using copyInto_map [OF d(1), of "dirtyNew m"] copyInto_map [OF d(2), of "dirtyOld m"] comm
    by (simp_all add: migrate_old_def migrate_new_def sm_abs_def)
qed

lemma sm_del_ok:
  assumes "sm_wf m"
  shows "sm_wf (fst (sm_del key m))" and "sm_abs (fst (sm_del key m)) = (sm_abs m)(key := None)"
    and "snd (sm_del key m) = sm_abs m key"
proof -
  obtain m1 old where r: "remove_entry key m = (m1, old)"
    by fastforce
  then have m1: "sm_wf m1" "sm_abs m1 = (sm_abs m)(key := None)" "old = sm_abs m key"
    using remove_entry_ok [OF assms, of key] by simp_all
  note g = migrate_ok(1,2) [OF m1(1)]
  show "sm_wf (fst (sm_del key m))" "sm_abs (fst (sm_del key m)) = (sm_abs m)(key := None)"
    "snd (sm_del key m) = sm_abs m key"
    using migrate_ok(3,4) [OF g(1)] g m1 by (simp_all add: sm_del_def r)
qed

lemma put_ok:
  assumes "sm_wf m"
  shows "sm_wf (put_old key v m)" "sm_abs (put_old key v m) = (sm_abs m)(key \<mapsto> v)"
    "sm_wf (put_new key v m)" "sm_abs (put_new key v m) = (sm_abs m)(key \<mapsto> v)"
proof -
  have d: "distinct (map fst (dirtyOld m))" "distinct (map fst (dirtyNew m))"
    "fst ` set (dirtyOld m) \<inter> fst ` set (dirtyNew m) = {}"
    using assms by (simp_all add: sm_wf_def)
  have nk: "map_of al key = None \<longleftrightarrow> key \<notin> fst ` set al" for al :: "('a \<times> 'b) list"
    by (simp add: map_of_eq_None_iff)
  show "sm_wf (put_old key v m)" "sm_wf (put_new key v m)"
    using d nk [of "dirtyOld m"] nk [of "dirtyNew m"]
    by (auto simp: put_old_def put_new_def Let_def sm_wf_def distinct_update distinct_delete
        dom_update delete_keys_set split: if_splits)
  show "sm_abs (put_old key v m) = (sm_abs m)(key \<mapsto> v)" "sm_abs (put_new key v m) = (sm_abs m)(key \<mapsto> v)"
    by (auto simp: put_old_def put_new_def Let_def sm_abs_def update_conv' delete_conv' fun_eq_iff map_add_def
        split: option.split)
qed

lemma Set_ok:
  "sm_wf m \<Longrightarrow> sm_wf (Set key v m)"
  "sm_wf m \<Longrightarrow> sm_abs (Set key v m) = (sm_abs m)(key \<mapsto> v)"
  using put_ok [of m key v] by (simp_all add: Set_def)

lemma Size_abs: "sm_wf m \<Longrightarrow> Size m = card (dom (sm_abs m))"
proof -
  assume wf: "sm_wf m"
  then have d: "distinct (map fst (dirtyOld m))" "distinct (map fst (dirtyNew m))"
    "fst ` set (dirtyOld m) \<inter> fst ` set (dirtyNew m) = {}"
    by (simp_all add: sm_wf_def)
  have "card (fst ` set (dirtyOld m)) = length (dirtyOld m)" "card (fst ` set (dirtyNew m)) = length (dirtyNew m)"
    using distinct_card [OF d(1)] distinct_card [OF d(2)] by simp_all
  moreover have "dom (sm_abs m) = fst ` set (dirtyOld m) \<union> fst ` set (dirtyNew m)"
    by (simp add: sm_abs_def dom_map_of_conv_image_fst)
  ultimately show ?thesis
    using d(3) by (simp add: Size_def card_Un_disjoint)
qed

section \<open>Refinement to a map\<close>

datatype ('k, 'v) smop = OSet 'k 'v | ODel 'k | OGet 'k | OGetDel 'k | OGetOrSet 'k 'v | OSize

datatype 'v smev = Found "'v option" | OrSet 'v bool | Count nat

fun sm_step :: "('k, 'v) smop \<Rightarrow> ('k, 'v) safemap \<Rightarrow> (('k, 'v) safemap \<times> 'v smev list) option" where
  "sm_step (OSet k v) m = Some (Set k v m, [])"
| "sm_step (ODel k) m = Some (Del k m, [])"
| "sm_step (OGet k) m = Some (m, [Found (Get k m)])"
| "sm_step (OGetDel k) m = (let (m', old) = GetDel k m in Some (m', [Found old]))"
| "sm_step (OGetOrSet k v) m = (let (m', x, ex, unlocked) = GetOrSet k v m m in Some (m', [OrSet x ex]))"
| "sm_step OSize m = Some (m, [Count (Size m)])"

fun sm_spec :: "('k, 'v) smop \<Rightarrow> ('k \<rightharpoonup> 'v) \<Rightarrow> ('k \<rightharpoonup> 'v) \<times> 'v smev list" where
  "sm_spec (OSet k v) f = (f(k \<mapsto> v), [])"
| "sm_spec (ODel k) f = (f(k := None), [])"
| "sm_spec (OGet k) f = (f, [Found (f k)])"
| "sm_spec (OGetDel k) f = (f(k := None), [Found (f k)])"
| "sm_spec (OGetOrSet k v) f =
     (case f k of None \<Rightarrow> (f(k \<mapsto> v), [OrSet v False]) | Some x \<Rightarrow> (f, [OrSet x True]))"
| "sm_spec OSize f = (f, [Count (card (dom f))])"

lemma GetOrSet_ok:
  assumes "sm_wf m"
  shows "case GetOrSet k v m m of (m', x, ex, unlocked) \<Rightarrow>
    sm_wf m' \<and> unlocked \<and> sm_spec (OGetOrSet k v) (sm_abs m) = (sm_abs m', [OrSet x ex])"
proof (cases "Get k m")
  case None
  then have n: "map_of (dirtyOld m) k = None" "map_of (dirtyNew m) k = None"
    by (simp_all add: Get_def split: option.splits)
  show ?thesis
    using put_ok [OF assms, of k v] None Get_abs [of k m] by (simp add: GetOrSet_def n)
next
  case (Some x)
  then show ?thesis
    using assms Get_abs [of k m] by (simp add: GetOrSet_def)
qed

lemma sm_step_ok:
  assumes "sm_wf m"
  shows "\<exists>m' os. sm_step x m = Some (m', os) \<and> sm_wf m' \<and> sm_spec x (sm_abs m) = (sm_abs m', os)"
proof (cases x)
  case (OGetDel k)
  then show ?thesis
    using sm_del_ok [OF assms, of k] by (cases "sm_del k m") (simp add: GetDel_def)
next
  case (OGetOrSet k v)
  then show ?thesis
    using GetOrSet_ok [OF assms, of k v] by (auto simp: OGetOrSet split: prod.splits)
next
  case (OSet k v)
  then show ?thesis
    using Set_ok [OF assms, of k v] by simp
next
  case (ODel k)
  then show ?thesis
    using sm_del_ok [OF assms, of k] by (simp add: Del_def)
qed (use assms in \<open>simp_all add: Get_abs Size_abs\<close>)

interpretation sm: machine_refinement sm_wf sm_abs sm_step sm_spec
  by unfold_locales (rule sm_step_ok)

text \<open>\<open>Range\<close> visits every entry once when its callback never fails.\<close>

lemma range_entries_collect:
  "range_entries (\<lambda>k v s. (s @ [(k, v)], None)) es s = (s @ es, None)"
  by (induction es arbitrary: s) auto

lemma Range_collect:
  assumes "sm_wf m"
  shows "map_of (fst (Range (\<lambda>k v s. (s @ [(k, v)], None)) m [])) = sm_abs m"
    and "distinct (map fst (fst (Range (\<lambda>k v s. (s @ [(k, v)], None)) m [])))"
proof -
  have d: "distinct (map fst (dirtyOld m))" "distinct (map fst (dirtyNew m))"
    "fst ` set (dirtyOld m) \<inter> fst ` set (dirtyNew m) = {}"
    using assms by (simp_all add: sm_wf_def)
  have "map_of (dirtyOld m) ++ map_of (dirtyNew m) = map_of (dirtyNew m) ++ map_of (dirtyOld m)"
    by (rule map_add_comm) (use d(3) in \<open>simp add: dom_map_of_conv_image_fst\<close>)
  then show "map_of (fst (Range (\<lambda>k v s. (s @ [(k, v)], None)) m [])) = sm_abs m"
    by (simp add: Range_def range_entries_collect sm_abs_def)
  show "distinct (map fst (fst (Range (\<lambda>k v s. (s @ [(k, v)], None)) m [])))"
    using d by (simp add: Range_def range_entries_collect)
qed

text \<open>
  The second look-up of \<open>GetOrSet\<close>, taken when another goroutine stored the key in
  between, returns with the lock held.
\<close>

lemma GetOrSet_keeps_lock:
  assumes "Get k m1 = None" and "Get k m2 = Some x"
  shows "GetOrSet k v m1 m2 = (m2, x, True, False)"
  using assms by (auto simp: GetOrSet_def Get_def split: option.splits)

end
