(* ===== verification/SessionStore.thy ===== *)
theory SessionStore
  imports SafeMap Header
begin

text \<open>
  The in-memory session store, broker/impl/store/mem_session.go. The caches are maps from
  client identifiers to inner maps; the code gets a pointer to the inner map and changes it
  in place, which is \<open>sm_at\<close> here: an update of the entry where it is stored. A session, a
  subscription and a message are values of type variables; a message has a packet
  identifier, \<open>pid\<close>, and the offline list of a client is a list. \<open>GetOrSet\<close> is taken at one
  state, without another goroutine between its look-ups.
\<close>

definition sm_at :: "'k \<Rightarrow> ('v \<Rightarrow> 'v) \<Rightarrow> ('k, 'v) safemap \<Rightarrow> ('k, 'v) safemap" where
  "sm_at k f m = m\<lparr>dirtyOld := AList.map_entry k f (dirtyOld m), dirtyNew := AList.map_entry k f (dirtyNew m)\<rparr>"

text \<open>\<open>v, ok := m.GetOrSet(k, d)\<close>, then an update of \<open>v\<close> in place\<close>

definition get_or_new :: "'k \<Rightarrow> 'v \<Rightarrow> ('k, 'v) safemap \<Rightarrow> ('k, 'v) safemap \<times> 'v \<times> bool" where
  "get_or_new k d m = (case GetOrSet k d m m of (m', x, ex, unlocked) \<Rightarrow> (m', x, ex))"

definition on_inner :: "bytes \<Rightarrow> (('k, 'v) safemap \<Rightarrow> ('k, 'v) safemap) \<Rightarrow>
    (bytes, ('k, 'v) safemap) safemap \<Rightarrow> (bytes, ('k, 'v) safemap) safemap" where
  "on_inner cid f m = (case get_or_new cid NewSafeMap m of (m', x, ex) \<Rightarrow> sm_at cid f m')"

text \<open>The values of an inner map, in the order of \<open>Range\<close>; nil when the client had none.\<close>

definition inner_values :: "bytes \<Rightarrow> (bytes, ('k, 'v) safemap) safemap \<Rightarrow>
    (bytes, ('k, 'v) safemap) safemap \<times> ('k \<times> 'v) list" where
  "inner_values cid m =
     (case get_or_new cid NewSafeMap m of
        (m', x, ex) \<Rightarrow>
          (m', if \<not> ex then [] else fst (Range (\<lambda>k v ret. (ret @ [(k, v)], None :: unit option)) x [])))"

record ('s, 'sub, 'm) sessstore =
  db :: "(bytes, 's) safemap"
  subCache :: "(bytes, (bytes, 'sub) safemap) safemap"
  offlineTable :: "(bytes, 'm list) safemap"
  msgMaxNum :: nat
  recCache :: "(bytes, (uint16, 'm) safemap) safemap"
  sendCache :: "(bytes, (uint16, 'm) safemap) safemap"
  secTwoCache :: "(bytes, (uint16, unit) safemap) safemap"

definition NewMemSessStore :: "('s, 'sub, 'm) sessstore" where
  "NewMemSessStore = \<lparr>db = NewSafeMap, subCache = NewSafeMap, offlineTable = NewSafeMap, msgMaxNum = 1000,
     recCache = NewSafeMap, sendCache = NewSafeMap, secTwoCache = NewSafeMap\<rparr>"

section \<open>Sessions and subscriptions\<close>

definition GetSession :: "bytes \<Rightarrow> ('s, 'sub, 'm) sessstore \<Rightarrow> 's option" where
  "GetSession cid st = Get cid (db st)"

definition StoreSession :: "bytes \<Rightarrow> 's \<Rightarrow> ('s, 'sub, 'm) sessstore \<Rightarrow> ('s, 'sub, 'm) sessstore" where
  "StoreSession cid s st = st\<lparr>db := Set cid s (db st)\<rparr>"

definition ClearOfflineMsgs :: "bytes \<Rightarrow> ('s, 'sub, 'm) sessstore \<Rightarrow> ('s, 'sub, 'm) sessstore" where
  "ClearOfflineMsgs cid st = st\<lparr>offlineTable := Del cid (offlineTable st)\<rparr>"

definition ClearSession :: "bytes \<Rightarrow> bool \<Rightarrow> ('s, 'sub, 'm) sessstore \<Rightarrow> ('s, 'sub, 'm) sessstore" where
  "ClearSession cid clearOfflineMsg st =
     (let st1 = st\<lparr>db := Del cid (db st)\<rparr> in if clearOfflineMsg then ClearOfflineMsgs cid st1 else st1)"

text \<open>The topics of the message and its clones, one per topic; the \<open>i\<close>-th clone goes under the \<open>i\<close>-th topic.\<close>

definition StoreSubscription :: "bytes \<Rightarrow> (bytes \<times> 'sub) list \<Rightarrow> ('s, 'sub, 'm) sessstore \<Rightarrow> ('s, 'sub, 'm) sessstore" where
  "StoreSubscription cid subs st =
     st\<lparr>subCache := on_inner cid (\<lambda>vm. fold (\<lambda>(t, s) vm. Set t s vm) subs vm) (subCache st)\<rparr>"

definition DelSubscription :: "bytes \<Rightarrow> bytes \<Rightarrow> ('s, 'sub, 'm) sessstore \<Rightarrow> ('s, 'sub, 'm) sessstore" where
  "DelSubscription cid t st = st\<lparr>subCache := on_inner cid (Del t) (subCache st)\<rparr>"

definition ClearSubscriptions :: "bytes \<Rightarrow> ('s, 'sub, 'm) sessstore \<Rightarrow> ('s, 'sub, 'm) sessstore" where
  "ClearSubscriptions cid st = st\<lparr>subCache := Del cid (subCache st)\<rparr>"

definition GetSubscriptions :: "bytes \<Rightarrow> ('s, 'sub, 'm) sessstore \<Rightarrow> 'sub list" where
  "GetSubscriptions cid st =
     (case Get cid (subCache st) of
        None \<Rightarrow> []
      | Some vm \<Rightarrow> fst (Range (\<lambda>k v ret. (ret @ [v], None :: unit option)) vm []))"

section \<open>Messages in flight\<close>

text \<open>QoS 2 messages that came in, by packet identifier\<close>

definition CacheInflowMsg :: "('m \<Rightarrow> uint16) \<Rightarrow> bytes \<Rightarrow> 'm \<Rightarrow> ('s, 'sub, 'm) sessstore \<Rightarrow> ('s, 'sub, 'm) sessstore" where
  "CacheInflowMsg pid cid msg st = st\<lparr>recCache := on_inner cid (Set (pid msg) msg) (recCache st)\<rparr>"

definition ReleaseInflowMsg :: "bytes \<Rightarrow> uint16 \<Rightarrow> ('s, 'sub, 'm) sessstore \<Rightarrow> ('s, 'sub, 'm) sessstore \<times> (string + 'm)" where
  "ReleaseInflowMsg cid pkId st =
     (case get_or_new cid NewSafeMap (recCache st) of
        (m', vm, ex) \<Rightarrow>
          (st\<lparr>recCache := sm_at cid (\<lambda>vm. fst (GetDel pkId vm)) m'\<rparr>,
           case snd (GetDel pkId vm) of None \<Rightarrow> Inl ''no inflow msg'' | Some msg \<Rightarrow> Inr msg))"

definition ReleaseInflowMsgs :: "bytes \<Rightarrow> uint16 list \<Rightarrow> ('s, 'sub, 'm) sessstore \<Rightarrow> ('s, 'sub, 'm) sessstore" where
  "ReleaseInflowMsgs cid pkIds st = st\<lparr>recCache := on_inner cid (Dels pkIds) (recCache st)\<rparr>"

definition ReleaseAllInflowMsg :: "bytes \<Rightarrow> ('s, 'sub, 'm) sessstore \<Rightarrow> ('s, 'sub, 'm) sessstore" where
  "ReleaseAllInflowMsg cid st = st\<lparr>recCache := Del cid (recCache st)\<rparr>"

definition GetAllInflowMsg :: "bytes \<Rightarrow> ('s, 'sub, 'm) sessstore \<Rightarrow> ('s, 'sub, 'm) sessstore \<times> 'm list" where
  "GetAllInflowMsg cid st =
     (case inner_values cid (recCache st) of (m', es) \<Rightarrow> (st\<lparr>recCache := m'\<rparr>, map snd es))"

text \<open>QoS 1 and 2 messages sent to the client\<close>

definition CacheOutflowMsg :: "('m \<Rightarrow> uint16) \<Rightarrow> bytes \<Rightarrow> 'm \<Rightarrow> ('s, 'sub, 'm) sessstore \<Rightarrow> ('s, 'sub, 'm) sessstore" where
  "CacheOutflowMsg pid cid msg st = st\<lparr>sendCache := on_inner cid (Set (pid msg) msg) (sendCache st)\<rparr>"

definition GetAllOutflowMsg :: "bytes \<Rightarrow> ('s, 'sub, 'm) sessstore \<Rightarrow> ('s, 'sub, 'm) sessstore \<times> 'm list" where
  "GetAllOutflowMsg cid st =
     (case inner_values cid (sendCache st) of (m', es) \<Rightarrow> (st\<lparr>sendCache := m'\<rparr>, map snd es))"

definition ReleaseOutflowMsg :: "bytes \<Rightarrow> uint16 \<Rightarrow> ('s, 'sub, 'm) sessstore \<Rightarrow> ('s, 'sub, 'm) sessstore \<times> (string + 'm)" where
  "ReleaseOutflowMsg cid pkId st =
     (case get_or_new cid NewSafeMap (sendCache st) of
        (m', vm, ex) \<Rightarrow>
          if \<not> ex then (st\<lparr>sendCache := m'\<rparr>, Inl ''no out inflow msg'')
          else (st\<lparr>sendCache := sm_at cid (\<lambda>vm. fst (GetDel pkId vm)) m'\<rparr>,
             case snd (GetDel pkId vm) of None \<Rightarrow> Inl ''no out inflow msg'' | Some msg \<Rightarrow> Inr msg))"

definition on_existing :: "bytes \<Rightarrow> (('k, 'v) safemap \<Rightarrow> ('k, 'v) safemap) \<Rightarrow>
    (bytes, ('k, 'v) safemap) safemap \<Rightarrow> (bytes, ('k, 'v) safemap) safemap" where
  "on_existing cid f m = (case get_or_new cid NewSafeMap m of (m', x, ex) \<Rightarrow> if ex then sm_at cid f m' else m')"

definition ReleaseOutflowMsgs :: "bytes \<Rightarrow> uint16 list \<Rightarrow> ('s, 'sub, 'm) sessstore \<Rightarrow> ('s, 'sub, 'm) sessstore" where
  "ReleaseOutflowMsgs cid pkIds st = st\<lparr>sendCache := on_existing cid (Dels pkIds) (sendCache st)\<rparr>"

definition ReleaseAllOutflowMsg :: "bytes \<Rightarrow> ('s, 'sub, 'm) sessstore \<Rightarrow> ('s, 'sub, 'm) sessstore" where
  "ReleaseAllOutflowMsg cid st = st\<lparr>sendCache := Del cid (sendCache st)\<rparr>"

text \<open>Packet identifiers in the second phase of QoS 2\<close>

definition CacheOutflowSecMsgId :: "bytes \<Rightarrow> uint16 \<Rightarrow> ('s, 'sub, 'm) sessstore \<Rightarrow> ('s, 'sub, 'm) sessstore" where
  "CacheOutflowSecMsgId cid pkId st = st\<lparr>secTwoCache := on_inner cid (Set pkId ()) (secTwoCache st)\<rparr>"

definition GetAllOutflowSecMsg :: "bytes \<Rightarrow> ('s, 'sub, 'm) sessstore \<Rightarrow> ('s, 'sub, 'm) sessstore \<times> uint16 list" where
  "GetAllOutflowSecMsg cid st =
     (case inner_values cid (secTwoCache st) of (m', es) \<Rightarrow> (st\<lparr>secTwoCache := m'\<rparr>, map fst es))"

definition ReleaseOutflowSecMsgId :: "bytes \<Rightarrow> uint16 \<Rightarrow> ('s, 'sub, 'm) sessstore \<Rightarrow> ('s, 'sub, 'm) sessstore" where
  "ReleaseOutflowSecMsgId cid pkId st = st\<lparr>secTwoCache := on_existing cid (Del pkId) (secTwoCache st)\<rparr>"

definition ReleaseOutflowSecMsgIds :: "bytes \<Rightarrow> uint16 list \<Rightarrow> ('s, 'sub, 'm) sessstore \<Rightarrow> ('s, 'sub, 'm) sessstore" where
  "ReleaseOutflowSecMsgIds cid pkIds st = st\<lparr>secTwoCache := on_existing cid (Dels pkIds) (secTwoCache st)\<rparr>"

definition ReleaseAllOutflowSecMsg :: "bytes \<Rightarrow> ('s, 'sub, 'm) sessstore \<Rightarrow> ('s, 'sub, 'm) sessstore" where
  "ReleaseAllOutflowSecMsg cid st = st\<lparr>secTwoCache := Del cid (secTwoCache st)\<rparr>"

section \<open>Offline messages\<close>

definition StoreOfflineMsg :: "bytes \<Rightarrow> 'm \<Rightarrow> ('s, 'sub, 'm) sessstore \<Rightarrow> ('s, 'sub, 'm) sessstore \<times> string option" where
  "StoreOfflineMsg cid msg st =
     (case get_or_new cid [] (offlineTable st) of
        (m', vl, ex) \<Rightarrow>
          if length vl \<ge> msgMaxNum st then (st\<lparr>offlineTable := m'\<rparr>, Some ''too many msg'')
          else (st\<lparr>offlineTable := sm_at cid (\<lambda>vl. vl @ [msg]) m'\<rparr>, None))"

text \<open>The messages and their packet identifiers, which the code renders with \<open>strconv.Itoa\<close>.\<close>

definition GetAllOfflineMsg :: "('m \<Rightarrow> uint16) \<Rightarrow> bytes \<Rightarrow> ('s, 'sub, 'm) sessstore \<Rightarrow>
    ('s, 'sub, 'm) sessstore \<times> 'm list \<times> uint16 list" where
  "GetAllOfflineMsg pid cid st =
     (case get_or_new cid [] (offlineTable st) of
        (m', vl, ex) \<Rightarrow> (st\<lparr>offlineTable := m'\<rparr>, if \<not> ex \<or> length vl = 0 then ([], []) else (vl, map pid vl)))"

text \<open>The inner loop: the first unused identifier equal to the message's is used up; None is an used-up entry.\<close>

fun use_id :: "uint16 \<Rightarrow> uint16 option list \<Rightarrow> uint16 option list option" where
  "use_id p [] = None"
| "use_id p (i # is) = (if i = Some p then Some (None # is) else map_option ((#) i) (use_id p is))"

fun clear_ids :: "('m \<Rightarrow> uint16) \<Rightarrow> 'm list \<Rightarrow> uint16 option list \<Rightarrow> 'm list" where
  "clear_ids pid [] is = []"
| "clear_ids pid (msg # vl) is =
     (case use_id (pid msg) is of
        Some is' \<Rightarrow> clear_ids pid vl is'
      | None \<Rightarrow> msg # clear_ids pid vl is)"

definition ClearOfflineMsgById :: "('m \<Rightarrow> uint16) \<Rightarrow> bytes \<Rightarrow> uint16 list \<Rightarrow> ('s, 'sub, 'm) sessstore \<Rightarrow> ('s, 'sub, 'm) sessstore" where
  "ClearOfflineMsgById pid cid msgIds st =
     (case get_or_new cid [] (offlineTable st) of
        (m', vl, ex) \<Rightarrow>
          st\<lparr>offlineTable := (if \<not> ex \<or> length vl = 0 then m'
             else sm_at cid (\<lambda>vl. clear_ids pid vl (map Some msgIds)) m')\<rparr>)"

section \<open>Nested maps\<close>

definition nest_wf :: "(bytes, ('k, 'v) safemap) safemap \<Rightarrow> bool" where
  "nest_wf m \<longleftrightarrow> sm_wf m \<and> (\<forall>cid vm. sm_abs m cid = Some vm \<longrightarrow> sm_wf vm)"

definition inner :: "(bytes, ('k, 'v) safemap) safemap \<Rightarrow> bytes \<Rightarrow> 'k \<rightharpoonup> 'v" where
  "inner m cid = (case sm_abs m cid of None \<Rightarrow> Map.empty | Some vm \<Rightarrow> sm_abs vm)"

definition offline :: "(bytes, 'm list) safemap \<Rightarrow> bytes \<Rightarrow> 'm list" where
  "offline m cid = (case sm_abs m cid of None \<Rightarrow> [] | Some l \<Rightarrow> l)"

lemma sm_at_ok:
  assumes "sm_wf m"
  shows "sm_wf (sm_at k f m)" and "sm_abs (sm_at k f m) = (sm_abs m)(k := map_option f (sm_abs m k))"
  using assms by (auto simp: sm_at_def sm_wf_def sm_abs_def map_of_map_entry map_add_def fun_eq_iff
      distinct_map_entry dom_map_entry split: option.split)

lemma get_or_new_ok:
  assumes "sm_wf m" and "get_or_new k d m = (m', x, ex)"
  shows "sm_wf m'" and "ex \<longleftrightarrow> sm_abs m k \<noteq> None"
    and "x = (case sm_abs m k of None \<Rightarrow> d | Some y \<Rightarrow> y)" and "sm_abs m' = (sm_abs m)(k \<mapsto> x)"
  using GetOrSet_ok [OF assms(1), of k d] assms(2)
  by (auto simp: get_or_new_def fun_upd_idem split: prod.splits option.splits)

lemma nest_empty: "nest_wf NewSafeMap" "inner NewSafeMap cid = Map.empty" "offline NewSafeMap cid = []"
  by (simp_all add: nest_wf_def inner_def offline_def NewSafeMap_ok)

lemma nest_at:
  assumes "nest_wf m" and "get_or_new cid NewSafeMap m = (m', x, ex)"
  shows "sm_wf x" and "sm_abs x = inner m cid" and "nest_wf m'" and "inner m' = inner m"
    and "\<not> ex \<Longrightarrow> inner m cid = Map.empty"
    and "sm_wf (f x) \<Longrightarrow> nest_wf (sm_at cid f m')"
    and "inner (sm_at cid f m') = (inner m)(cid := sm_abs (f x))"
proof -
  note g = get_or_new_ok [OF _ assms(2)]
  have w: "sm_wf m" "\<And>c vm. sm_abs m c = Some vm \<Longrightarrow> sm_wf vm"
    using assms(1) by (auto simp: nest_wf_def)
  show x: "sm_wf x" "sm_abs x = inner m cid"
    using g(3) [OF w(1)] w(2) by (auto simp: inner_def NewSafeMap_ok split: option.splits)
  show "nest_wf m'" "inner m' = inner m"
    using g(1,4) [OF w(1)] w(2) x by (auto simp: nest_wf_def inner_def fun_eq_iff)
  show "inner m cid = Map.empty" if "\<not> ex"
    using that g(2) [OF w(1)] by (simp add: inner_def)
  show "nest_wf (sm_at cid f m')" if "sm_wf (f x)"
    using that g(1,4) [OF w(1)] w(2) x(1) by (auto simp: nest_wf_def sm_at_ok split: if_splits)
  show "inner (sm_at cid f m') = (inner m)(cid := sm_abs (f x))"
    using g(1,4) [OF w(1)] by (auto simp: inner_def sm_at_ok fun_eq_iff)
qed

text \<open>An update of the inner map that is \<open>F\<close> on its abstraction\<close>

lemma on_inner_ok:
  assumes "nest_wf m" and "\<And>vm. sm_wf vm \<Longrightarrow> sm_wf (f vm) \<and> sm_abs (f vm) = F (sm_abs vm)"
  shows "nest_wf (on_inner cid f m)" and "inner (on_inner cid f m) = (inner m)(cid := F (inner m cid))"
proof -
  obtain m' x ex where g: "get_or_new cid NewSafeMap m = (m', x, ex)"
    by (metis prod_cases3)
  note n = nest_at [OF assms(1) g]
  show "nest_wf (on_inner cid f m)" "inner (on_inner cid f m) = (inner m)(cid := F (inner m cid))"
    using n(1,2,6,7) assms(2) by (simp_all add: on_inner_def g)
qed

lemma on_existing_ok:
  assumes "nest_wf m" and "\<And>vm. sm_wf vm \<Longrightarrow> sm_wf (f vm) \<and> sm_abs (f vm) = F (sm_abs vm)" and "F Map.empty = Map.empty"
  shows "nest_wf (on_existing cid f m)" and "inner (on_existing cid f m) = (inner m)(cid := F (inner m cid))"
proof -
  obtain m' x ex where g: "get_or_new cid NewSafeMap m = (m', x, ex)"
    by (metis prod_cases3)
  note n = nest_at [OF assms(1) g]
  show "nest_wf (on_existing cid f m)" "inner (on_existing cid f m) = (inner m)(cid := F (inner m cid))"
    using n(1-7) assms(2) [OF n(1)] assms(3) by (cases ex; simp add: on_existing_def g fun_upd_idem)+
qed

definition drop_keys :: "'k list \<Rightarrow> ('k \<rightharpoonup> 'v) \<Rightarrow> 'k \<rightharpoonup> 'v" where
  "drop_keys ks f = f |` (- set ks)"

lemma Dels_ok: "sm_wf m \<Longrightarrow> sm_wf (Dels ks m) \<and> sm_abs (Dels ks m) = drop_keys ks (sm_abs m)"
proof (induction ks arbitrary: m)
  case (Cons k ks)
  let ?m = "fst (sm_del k m)"
  have w: "sm_wf ?m" "sm_abs ?m = (sm_abs m)(k := None)"
    using sm_del_ok(1,2) [OF Cons.prems] by blast+
  have "drop_keys ks ((sm_abs m)(k := None)) = drop_keys (k # ks) (sm_abs m)"
    by (auto simp: drop_keys_def restrict_map_def)
  moreover have "Dels (k # ks) m = Dels ks ?m"
    by (simp add: Dels_def)
  ultimately show ?case
    using Cons.IH [OF w(1)] unfolding w(2) by (simp only:)
qed (simp add: Dels_def drop_keys_def restrict_map_def)

lemma Del_ok: "sm_wf m \<Longrightarrow> sm_wf (Del k m) \<and> sm_abs (Del k m) = (sm_abs m)(k := None)"
  by (simp add: Del_def sm_del_ok)

lemma Sets_ok:
  "sm_wf m \<Longrightarrow> sm_wf (fold (\<lambda>(t, s) vm. Set t s vm) es m) \<and> sm_abs (fold (\<lambda>(t, s) vm. Set t s vm) es m) = fold (\<lambda>(t, s) f. f(t \<mapsto> s)) es (sm_abs m)"
  by (induction es arbitrary: m) (auto simp: Set_ok)

lemma nest_del:
  assumes "nest_wf m"
  shows "nest_wf (Del cid m)" and "inner (Del cid m) = (inner m)(cid := Map.empty)"
  using assms Del_ok [of m cid] by (auto simp: nest_wf_def inner_def fun_eq_iff split: if_splits)

lemma nest_release:
  assumes "nest_wf m" and g: "get_or_new cid NewSafeMap m = (m', x, ex)"
  shows "nest_wf (sm_at cid (\<lambda>vm. fst (GetDel i vm)) m')"
    and "inner (sm_at cid (\<lambda>vm. fst (GetDel i vm)) m') = (inner m)(cid := (inner m cid)(i := None))"
    and "snd (GetDel i x) = inner m cid i"
proof -
  note n = nest_at [OF assms]
  show "nest_wf (sm_at cid (\<lambda>vm. fst (GetDel i vm)) m')"
    by (rule n(6)) (simp add: GetDel_def sm_del_ok n(1))
  show "inner (sm_at cid (\<lambda>vm. fst (GetDel i vm)) m') = (inner m)(cid := (inner m cid)(i := None))"
    using n(7) [of "\<lambda>vm. fst (GetDel i vm)"] sm_del_ok(2) [OF n(1), of i] n(2) by (simp add: GetDel_def)
  show "snd (GetDel i x) = inner m cid i"
    using sm_del_ok(3) [OF n(1), of i] n(2) by (simp add: GetDel_def)
qed

section \<open>Refinement to plain maps\<close>

text \<open>
  The contract of the store: per client a session, subscriptions by topic, the messages in
  flight by packet identifier in either direction, the identifiers in the second QoS 2
  phase, and a bounded list of offline messages.
\<close>

record ('s, 'sub, 'm) sessspec =
  p_sess :: "bytes \<rightharpoonup> 's"
  p_subs :: "bytes \<Rightarrow> bytes \<rightharpoonup> 'sub"
  p_in :: "bytes \<Rightarrow> uint16 \<rightharpoonup> 'm"
  p_out :: "bytes \<Rightarrow> uint16 \<rightharpoonup> 'm"
  p_sec :: "bytes \<Rightarrow> uint16 \<rightharpoonup> unit"
  p_off :: "bytes \<Rightarrow> 'm list"

datatype ('s, 'sub, 'm) ssop =
    SPut bytes 's | SGet bytes | SClear bytes bool
  | SubPut bytes "(bytes \<times> 'sub) list" | SubDel bytes bytes | SubClear bytes
  | InPut bytes 'm | InTake bytes uint16 | InDrop bytes "uint16 list" | InClear bytes
  | OutPut bytes 'm | OutTake bytes uint16 | OutDrop bytes "uint16 list" | OutClear bytes
  | SecPut bytes uint16 | SecDel bytes uint16 | SecDrop bytes "uint16 list" | SecClear bytes
  | OffPut bytes 'm | OffAll bytes | OffClear bytes | OffDrop bytes "uint16 list"
  | SubAll bytes | InAll bytes | OutAll bytes | SecAll bytes

text \<open>
  What a caller sees. A getter ranges over Go maps, whose order is open, so of its list only how often each value
  occurs is observed. The offline messages come in order, with their identifiers.
\<close>

datatype ('s, 'sub, 'm) ssev = Sess "'s option" | Taken "'m option" | Full | Msgs "'m list" "uint16 list"
  | SubsFound "'sub \<Rightarrow> nat" | Found "'m \<Rightarrow> nat" | IdsFound "uint16 \<Rightarrow> nat"

definition occurs :: "('k \<rightharpoonup> 'v) \<Rightarrow> 'v \<Rightarrow> nat" where
  "occurs f v = card {k. f k = Some v}"

definition taken_ev :: "string + 'm \<Rightarrow> ('s, 'sub, 'm) ssev list" where
  "taken_ev r = [Taken (case r of Inl e \<Rightarrow> None | Inr m \<Rightarrow> Some m)]"

fun ss_step :: "('m \<Rightarrow> uint16) \<Rightarrow> ('s, 'sub, 'm) ssop \<Rightarrow> ('s, 'sub, 'm) sessstore \<Rightarrow>
    (('s, 'sub, 'm) sessstore \<times> ('s, 'sub, 'm) ssev list) option" where
  "ss_step pid (SPut c s) st = Some (StoreSession c s st, [])"
| "ss_step pid (SGet c) st = Some (st, [Sess (GetSession c st)])"
| "ss_step pid (SClear c b) st = Some (ClearSession c b st, [])"
| "ss_step pid (SubPut c subs) st = Some (StoreSubscription c subs st, [])"
| "ss_step pid (SubDel c t) st = Some (DelSubscription c t st, [])"
| "ss_step pid (SubClear c) st = Some (ClearSubscriptions c st, [])"
| "ss_step pid (InPut c m) st = Some (CacheInflowMsg pid c m st, [])"
| "ss_step pid (InTake c i) st = (case ReleaseInflowMsg c i st of (st', r) \<Rightarrow> Some (st', taken_ev r))"
| "ss_step pid (InDrop c is) st = Some (ReleaseInflowMsgs c is st, [])"
| "ss_step pid (InClear c) st = Some (ReleaseAllInflowMsg c st, [])"
| "ss_step pid (OutPut c m) st = Some (CacheOutflowMsg pid c m st, [])"
| "ss_step pid (OutTake c i) st = (case ReleaseOutflowMsg c i st of (st', r) \<Rightarrow> Some (st', taken_ev r))"
| "ss_step pid (OutDrop c is) st = Some (ReleaseOutflowMsgs c is st, [])"
| "ss_step pid (OutClear c) st = Some (ReleaseAllOutflowMsg c st, [])"
| "ss_step pid (SecPut c i) st = Some (CacheOutflowSecMsgId c i st, [])"
| "ss_step pid (SecDel c i) st = Some (ReleaseOutflowSecMsgId c i st, [])"
| "ss_step pid (SecDrop c is) st = Some (ReleaseOutflowSecMsgIds c is st, [])"
| "ss_step pid (SecClear c) st = Some (ReleaseAllOutflowSecMsg c st, [])"
| "ss_step pid (OffPut c m) st = (case StoreOfflineMsg c m st of (st', e) \<Rightarrow> Some (st', case e of None \<Rightarrow> [] | Some _ \<Rightarrow> [Full]))"
| "ss_step pid (OffAll c) st = (case GetAllOfflineMsg pid c st of (st', ms, ids) \<Rightarrow> Some (st', [Msgs ms ids]))"
| "ss_step pid (OffClear c) st = Some (ClearOfflineMsgs c st, [])"
| "ss_step pid (OffDrop c is) st = Some (ClearOfflineMsgById pid c is st, [])"
| "ss_step pid (SubAll c) st = Some (st, [SubsFound (count_list (GetSubscriptions c st))])"
| "ss_step pid (InAll c) st = (case GetAllInflowMsg c st of (st', ms) \<Rightarrow> Some (st', [Found (count_list ms)]))"
| "ss_step pid (OutAll c) st = (case GetAllOutflowMsg c st of (st', ms) \<Rightarrow> Some (st', [Found (count_list ms)]))"
| "ss_step pid (SecAll c) st = (case GetAllOutflowSecMsg c st of (st', is) \<Rightarrow> Some (st', [IdsFound (count_list is)]))"

definition upd :: "bytes \<Rightarrow> ('a \<Rightarrow> 'a) \<Rightarrow> (bytes \<Rightarrow> 'a) \<Rightarrow> bytes \<Rightarrow> 'a" where
  "upd c F f = f(c := F (f c))"

fun ss_spec :: "('m \<Rightarrow> uint16) \<Rightarrow> ('s, 'sub, 'm) ssop \<Rightarrow> ('s, 'sub, 'm) sessspec \<Rightarrow>
    ('s, 'sub, 'm) sessspec \<times> ('s, 'sub, 'm) ssev list" where
  "ss_spec pid (SPut c s) p = (p\<lparr>p_sess := (p_sess p)(c \<mapsto> s)\<rparr>, [])"
| "ss_spec pid (SGet c) p = (p, [Sess (p_sess p c)])"
| "ss_spec pid (SClear c b) p =
     (p\<lparr>p_sess := (p_sess p)(c := None), p_off := (if b then (p_off p)(c := []) else p_off p)\<rparr>, [])"
| "ss_spec pid (SubPut c subs) p = (p\<lparr>p_subs := upd c (fold (\<lambda>(t, s) f. f(t \<mapsto> s)) subs) (p_subs p)\<rparr>, [])"
| "ss_spec pid (SubDel c t) p = (p\<lparr>p_subs := upd c (\<lambda>f. f(t := None)) (p_subs p)\<rparr>, [])"
| "ss_spec pid (SubClear c) p = (p\<lparr>p_subs := (p_subs p)(c := Map.empty)\<rparr>, [])"
| "ss_spec pid (InPut c m) p = (p\<lparr>p_in := upd c (\<lambda>f. f(pid m \<mapsto> m)) (p_in p)\<rparr>, [])"
| "ss_spec pid (InTake c i) p = (p\<lparr>p_in := upd c (\<lambda>f. f(i := None)) (p_in p)\<rparr>, [Taken (p_in p c i)])"
| "ss_spec pid (InDrop c is) p = (p\<lparr>p_in := upd c (drop_keys is) (p_in p)\<rparr>, [])"
| "ss_spec pid (InClear c) p = (p\<lparr>p_in := (p_in p)(c := Map.empty)\<rparr>, [])"
| "ss_spec pid (OutPut c m) p = (p\<lparr>p_out := upd c (\<lambda>f. f(pid m \<mapsto> m)) (p_out p)\<rparr>, [])"
| "ss_spec pid (OutTake c i) p = (p\<lparr>p_out := upd c (\<lambda>f. f(i := None)) (p_out p)\<rparr>, [Taken (p_out p c i)])"
| "ss_spec pid (OutDrop c is) p = (p\<lparr>p_out := upd c (drop_keys is) (p_out p)\<rparr>, [])"
| "ss_spec pid (OutClear c) p = (p\<lparr>p_out := (p_out p)(c := Map.empty)\<rparr>, [])"
| "ss_spec pid (SecPut c i) p = (p\<lparr>p_sec := upd c (\<lambda>f. f(i \<mapsto> ())) (p_sec p)\<rparr>, [])"
| "ss_spec pid (SecDel c i) p = (p\<lparr>p_sec := upd c (\<lambda>f. f(i := None)) (p_sec p)\<rparr>, [])"
| "ss_spec pid (SecDrop c is) p = (p\<lparr>p_sec := upd c (drop_keys is) (p_sec p)\<rparr>, [])"
| "ss_spec pid (SecClear c) p = (p\<lparr>p_sec := (p_sec p)(c := Map.empty)\<rparr>, [])"
| "ss_spec pid (OffPut c m) p =
     (if length (p_off p c) \<ge> 1000 then (p, [Full]) else (p\<lparr>p_off := upd c (\<lambda>l. l @ [m]) (p_off p)\<rparr>, []))"
| "ss_spec pid (OffAll c) p = (p, [Msgs (p_off p c) (map pid (p_off p c))])"
| "ss_spec pid (OffClear c) p = (p\<lparr>p_off := (p_off p)(c := [])\<rparr>, [])"
| "ss_spec pid (OffDrop c is) p = (p\<lparr>p_off := upd c (\<lambda>l. clear_ids pid l (map Some is)) (p_off p)\<rparr>, [])"
| "ss_spec pid (SubAll c) p = (p, [SubsFound (occurs (p_subs p c))])"
| "ss_spec pid (InAll c) p = (p, [Found (occurs (p_in p c))])"
| "ss_spec pid (OutAll c) p = (p, [Found (occurs (p_out p c))])"
| "ss_spec pid (SecAll c) p = (p, [IdsFound (\<lambda>i. if p_sec p c i = None then 0 else 1)])"

definition ss_wf :: "('s, 'sub, 'm) sessstore \<Rightarrow> bool" where
  "ss_wf st \<longleftrightarrow> sm_wf (db st) \<and> nest_wf (subCache st) \<and> sm_wf (offlineTable st) \<and> msgMaxNum st = 1000
     \<and> nest_wf (recCache st) \<and> nest_wf (sendCache st) \<and> nest_wf (secTwoCache st)"

definition ss_abs :: "('s, 'sub, 'm) sessstore \<Rightarrow> ('s, 'sub, 'm) sessspec" where
  "ss_abs st = \<lparr>p_sess = sm_abs (db st), p_subs = inner (subCache st), p_in = inner (recCache st),
     p_out = inner (sendCache st), p_sec = inner (secTwoCache st), p_off = offline (offlineTable st)\<rparr>"

lemma NewMemSessStore_ok:
  "ss_wf NewMemSessStore"
  "ss_abs NewMemSessStore = \<lparr>p_sess = Map.empty, p_subs = \<lambda>_. Map.empty, p_in = \<lambda>_. Map.empty,
     p_out = \<lambda>_. Map.empty, p_sec = \<lambda>_. Map.empty, p_off = \<lambda>_. []\<rparr>"
  by (simp_all add: ss_wf_def ss_abs_def NewMemSessStore_def nest_empty NewSafeMap_ok fun_eq_iff)

definition sim :: "('m \<Rightarrow> uint16) \<Rightarrow> ('s, 'sub, 'm) ssop \<Rightarrow> ('s, 'sub, 'm) sessstore \<Rightarrow> bool" where
  "sim pid x st \<longleftrightarrow> (\<exists>st' os. ss_step pid x st = Some (st', os) \<and> ss_wf st' \<and> ss_spec pid x (ss_abs st) = (ss_abs st', os))"

lemma sim_plain:
  assumes "ss_wf st"
  shows "sim pid (SPut c s) st" "sim pid (SGet c) st" "sim pid (SubClear c) st" "sim pid (InClear c) st"
    "sim pid (OutClear c) st" "sim pid (SecClear c) st"
  using assms
  by (simp_all add: sim_def ss_wf_def ss_abs_def StoreSession_def GetSession_def ClearSubscriptions_def
      ReleaseAllInflowMsg_def ReleaseAllOutflowMsg_def ReleaseAllOutflowSecMsg_def Set_ok Get_abs nest_del)

lemma fun_upd_triv_None: "Map.empty(k := None) = Map.empty"
  by simp

lemma sim_inner:
  assumes "ss_wf st"
  shows "sim pid (SubPut c subs) st" "sim pid (SubDel c t) st" "sim pid (InPut c m) st" "sim pid (InDrop c is) st"
    "sim pid (OutPut c m) st" "sim pid (OutDrop c is) st" "sim pid (SecPut c i) st" "sim pid (SecDel c i) st"
    "sim pid (SecDrop c is) st"
proof -
  have w: "nest_wf (subCache st)" "nest_wf (recCache st)" "nest_wf (sendCache st)" "nest_wf (secTwoCache st)"
    using assms by (simp_all add: ss_wf_def)
  have e: "drop_keys is Map.empty = Map.empty" for "is" :: "'k list"
    by (simp add: drop_keys_def)
  have set1: "sm_wf vm \<Longrightarrow> sm_wf (Set k v vm) \<and> sm_abs (Set k v vm) = (\<lambda>f. f(k \<mapsto> v)) (sm_abs vm)" for k v and vm :: "('k, 'v) safemap"
    by (simp add: Set_ok)
  have del1: "sm_wf vm \<Longrightarrow> sm_wf (Del k vm) \<and> sm_abs (Del k vm) = (\<lambda>f. f(k := None)) (sm_abs vm)" for k and vm :: "('k, 'v) safemap"
    by (simp add: Del_ok)
  show "sim pid (SubPut c subs) st"
    using assms on_inner_ok [where f = "\<lambda>vm. fold (\<lambda>(t, s) vm. Set t s vm) subs vm"
        and F = "fold (\<lambda>(t, s) f. f(t \<mapsto> s)) subs", OF w(1) Sets_ok, of c] by (simp add: sim_def ss_wf_def ss_abs_def upd_def StoreSubscription_def)
  show "sim pid (SubDel c t) st"
    using assms on_inner_ok [where f = "Del t" and F = "\<lambda>f. f(t := None)", OF w(1) del1, of c] by (simp add: sim_def ss_wf_def ss_abs_def upd_def DelSubscription_def)
  show "sim pid (InPut c m) st"
    using assms on_inner_ok [where f = "Set (pid m) m" and F = "\<lambda>f. f(pid m \<mapsto> m)", OF w(2) set1, of c] by (simp add: sim_def ss_wf_def ss_abs_def upd_def CacheInflowMsg_def)
  show "sim pid (InDrop c is) st"
    using assms on_inner_ok [where f = "Dels is" and F = "drop_keys is", OF w(2) Dels_ok, of c] by (simp add: sim_def ss_wf_def ss_abs_def upd_def ReleaseInflowMsgs_def)
  show "sim pid (OutPut c m) st"
    using assms on_inner_ok [where f = "Set (pid m) m" and F = "\<lambda>f. f(pid m \<mapsto> m)", OF w(3) set1, of c] by (simp add: sim_def ss_wf_def ss_abs_def upd_def CacheOutflowMsg_def)
  show "sim pid (OutDrop c is) st"
    using assms on_existing_ok [where f = "Dels is" and F = "drop_keys is", OF w(3) Dels_ok e, of c] by (simp add: sim_def ss_wf_def ss_abs_def upd_def ReleaseOutflowMsgs_def)
  show "sim pid (SecPut c i) st"
    using assms on_inner_ok [where f = "Set i ()" and F = "\<lambda>f. f(i \<mapsto> ())", OF w(4) set1, of c] by (simp add: sim_def ss_wf_def ss_abs_def upd_def CacheOutflowSecMsgId_def)
  show "sim pid (SecDel c i) st"
    using assms on_existing_ok [where f = "Del i" and F = "\<lambda>f. f(i := None)", OF w(4) del1 fun_upd_triv_None, of c] by (simp add: sim_def ss_wf_def ss_abs_def upd_def ReleaseOutflowSecMsgId_def)
  show "sim pid (SecDrop c is) st"
    using assms on_existing_ok [where f = "Dels is" and F = "drop_keys is", OF w(4) Dels_ok e, of c] by (simp add: sim_def ss_wf_def ss_abs_def upd_def ReleaseOutflowSecMsgIds_def)
qed

lemma sim_take:
  assumes "ss_wf st"
  shows "sim pid (InTake c i) st" "sim pid (OutTake c i) st"
proof -
  have w: "nest_wf (recCache st)" "nest_wf (sendCache st)"
    using assms by (simp_all add: ss_wf_def)
  obtain m1 x1 ex1 where g1: "get_or_new c NewSafeMap (recCache st) = (m1, x1, ex1)"
    by (metis prod_cases3)
  show "sim pid (InTake c i) st"
    using assms nest_release [OF w(1) g1, of i]
    by (cases "inner (recCache st) c i")
      (simp_all add: sim_def ss_wf_def ss_abs_def upd_def ReleaseInflowMsg_def g1 taken_ev_def)
  obtain m2 x2 ex2 where g2: "get_or_new c NewSafeMap (sendCache st) = (m2, x2, ex2)"
    by (metis prod_cases3)
  show "sim pid (OutTake c i) st"
  proof (cases ex2)
    case True
    then show ?thesis
      using assms nest_release [OF w(2) g2, of i]
      by (cases "inner (sendCache st) c i")
        (simp_all add: sim_def ss_wf_def ss_abs_def upd_def ReleaseOutflowMsg_def g2 taken_ev_def)
  next
    case False
    then have "inner (sendCache st) c = Map.empty"
      using nest_at(5) [OF w(2) g2] by simp
    then show ?thesis
      using assms nest_at(3,4) [OF w(2) g2] False
      by (simp add: sim_def ss_wf_def ss_abs_def upd_def ReleaseOutflowMsg_def g2 taken_ev_def fun_upd_idem)
  qed
qed

lemma offline_at:
  assumes "sm_wf m" and g: "get_or_new c [] m = (m', vl, ex)"
  shows "vl = offline m c" and "sm_wf m'" and "offline m' = offline m" and "sm_wf (sm_at c f m')"
    and "offline (sm_at c f m') = (offline m)(c := f (offline m c))" and "\<not> ex \<Longrightarrow> vl = []"
proof -
  note gn = get_or_new_ok [OF assms]
  show "vl = offline m c" "sm_wf m'" "sm_wf (sm_at c f m')"
    using gn(1,3) by (simp_all add: offline_def sm_at_ok split: option.split)
  show "offline m' = offline m" "offline (sm_at c f m') = (offline m)(c := f (offline m c))" "\<not> ex \<Longrightarrow> vl = []"
    using gn by (auto simp: offline_def sm_at_ok fun_eq_iff split: option.splits)
qed

lemma sim_offline:
  assumes "ss_wf st"
  shows "sim pid (SClear c b) st" "sim pid (OffPut c m) st" "sim pid (OffAll c) st" "sim pid (OffClear c) st"
    "sim pid (OffDrop c is) st"
proof -
  have w: "sm_wf (offlineTable st)"
    using assms by (simp add: ss_wf_def)
  obtain m' vl ex where g: "get_or_new c [] (offlineTable st) = (m', vl, ex)"
    by (metis prod_cases3)
  note o = offline_at [OF w g]
  have d: "offline (Del c (offlineTable st)) = (offline (offlineTable st))(c := [])"
    using Del_ok [OF w, of c] by (auto simp: offline_def fun_eq_iff)
  show "sim pid (SClear c b) st"
    using assms d Del_ok [OF w, of c] Del_ok [of "db st" c]
    by (simp add: sim_def ss_wf_def ss_abs_def ClearSession_def ClearOfflineMsgs_def Let_def)
  show "sim pid (OffClear c) st"
    using assms d Del_ok [OF w, of c] by (simp add: sim_def ss_wf_def ss_abs_def ClearOfflineMsgs_def)
  show "sim pid (OffPut c m) st"
    using assms o(1,2,3) o(4,5) [of "\<lambda>vl. vl @ [m]"]
    by (simp add: sim_def ss_wf_def ss_abs_def StoreOfflineMsg_def g upd_def)
  show "sim pid (OffAll c) st"
    using assms o(1,2,3,6) by (auto simp: sim_def ss_wf_def ss_abs_def GetAllOfflineMsg_def g)
  show "sim pid (OffDrop c is) st"
    using assms o(1,2,3,6) o(4,5) [of "\<lambda>vl. clear_ids pid vl (map Some is)"]
    by (auto simp: sim_def ss_wf_def ss_abs_def ClearOfflineMsgById_def g upd_def fun_upd_idem)
qed

text \<open>The getters\<close>

lemma count_occurs:
  assumes "distinct (map fst es)"
  shows "count_list (map snd es) = occurs (map_of es)"
proof
  fix v
  have "{k. map_of es k = Some v} = fst ` set (filter (\<lambda>e. snd e = v) es)"
    using assms by (auto simp: image_iff map_of_eq_Some_iff)
  moreover have "distinct (map fst (filter (\<lambda>e. snd e = v) es))"
    using assms by (rule distinct_map_filter)
  ultimately have "occurs (map_of es) v = length (filter (\<lambda>e. snd e = v) es)"
    unfolding occurs_def by (metis distinct_card length_map set_map)
  moreover have "count_list (map snd es) v = length (filter (\<lambda>e. snd e = v) es)"
    by (induction es) auto
  ultimately show "count_list (map snd es) v = occurs (map_of es) v"
    by simp
qed

lemma count_keys:
  assumes "distinct (map fst es)"
  shows "count_list (map fst es) = (\<lambda>k. if map_of es k = None then 0 else 1)"
  using assms by (induction es) (auto simp: fun_eq_iff rev_image_eqI)

lemma range_entries_values: "range_entries (\<lambda>k v s. (s @ [v], None)) es s = (s @ map snd es, None)"
  by (induction es arbitrary: s) auto

lemma Range_values:
  "fst (Range (\<lambda>k v s. (s @ [v], None :: unit option)) m [])
    = map snd (fst (Range (\<lambda>k v s. (s @ [(k, v)], None :: unit option)) m []))"
  by (simp add: Range_def range_entries_values range_entries_collect)

lemma Range_pairs:
  assumes "sm_wf m"
  shows "map_of (fst (Range (\<lambda>k v s. (s @ [(k, v)], None :: unit option)) m [])) = sm_abs m"
    and "distinct (map fst (fst (Range (\<lambda>k v s. (s @ [(k, v)], None :: unit option)) m [])))"
  using assms by (rule Range_collect)+

lemma inner_values_ok:
  assumes "nest_wf m" and "inner_values c m = (m', es)"
  shows "nest_wf m'" and "inner m' = inner m" and "map_of es = inner m c" and "distinct (map fst es)"
proof -
  obtain m1 x ex where g: "get_or_new c NewSafeMap m = (m1, x, ex)"
    by (metis prod_cases3)
  note n = nest_at [OF assms(1) g]
  show "nest_wf m'" "inner m' = inner m" "map_of es = inner m c" "distinct (map fst es)"
    using assms(2) n(2-5) Range_pairs [OF n(1)] by (auto simp: inner_values_def g split: if_splits)
qed

lemma sim_getters:
  assumes "ss_wf st"
  shows "sim pid (SubAll c) st" "sim pid (InAll c) st" "sim pid (OutAll c) st" "sim pid (SecAll c) st"
proof -
  have w: "nest_wf (subCache st)" "nest_wf (recCache st)" "nest_wf (sendCache st)" "nest_wf (secTwoCache st)"
    using assms by (simp_all add: ss_wf_def)
  have "count_list (GetSubscriptions c st) = occurs (inner (subCache st) c)"
  proof (cases "sm_abs (subCache st) c")
    case None
    then show ?thesis
      using w(1) by (simp add: GetSubscriptions_def Get_abs nest_wf_def inner_def occurs_def fun_eq_iff)
  next
    case (Some vm)
    then have "sm_wf vm"
      using w(1) by (auto simp: nest_wf_def)
    from Range_pairs [OF this] Some show ?thesis
      using w(1) by (simp add: GetSubscriptions_def Get_abs nest_wf_def inner_def Range_values count_occurs)
  qed
  then show "sim pid (SubAll c) st"
    using assms by (simp add: sim_def ss_abs_def)
  obtain m1 e1 where g1: "inner_values c (recCache st) = (m1, e1)"
    by (metis prod.exhaust)
  show "sim pid (InAll c) st"
    using assms inner_values_ok [OF w(2) g1]
    by (simp add: sim_def ss_wf_def ss_abs_def GetAllInflowMsg_def g1 count_occurs)
  obtain m2 e2 where g2: "inner_values c (sendCache st) = (m2, e2)"
    by (metis prod.exhaust)
  show "sim pid (OutAll c) st"
    using assms inner_values_ok [OF w(3) g2]
    by (simp add: sim_def ss_wf_def ss_abs_def GetAllOutflowMsg_def g2 count_occurs)
  obtain m3 e3 where g3: "inner_values c (secTwoCache st) = (m3, e3)"
    by (metis prod.exhaust)
  show "sim pid (SecAll c) st"
    using assms inner_values_ok [OF w(4) g3]
    by (simp add: sim_def ss_wf_def ss_abs_def GetAllOutflowSecMsg_def g3 count_keys)
qed

lemma ss_step_ok:
  assumes "ss_wf st"
  shows "\<exists>st' os. ss_step pid x st = Some (st', os) \<and> ss_wf st' \<and> ss_spec pid x (ss_abs st) = (ss_abs st', os)"
proof -
  have "sim pid x st"
    by (cases x) (simp_all add: sim_plain sim_inner sim_take sim_offline sim_getters assms)
  then show ?thesis
    by (simp only: sim_def)
qed

interpretation ss: machine_refinement ss_wf ss_abs "ss_step pid" "ss_spec pid" for pid :: "'m \<Rightarrow> uint16"
  by unfold_locales (rule ss_step_ok)

end
