(* ===== verification/TopicTree.thy ===== *)
theory TopicTree
  imports MsgTypes "HOL-Library.AList"
begin

text \<open>
  The subscription tree of broker/impl/topic/topic.go: \<open>nextTopicLevel\<close>, which the three
  topic packages share word for word, and the tree operations \<open>sinsert\<close>, \<open>sremove\<close>, \<open>smatch\<close>
  and \<open>matchQos\<close>. The two parallel slices \<open>subs\<close> and \<open>qos\<close> of a node are one list of pairs,
  since every operation changes them together; a Go map is an association list, whose
  order stands for the iteration order. A subscriber is compared with \<open>equal\<close>, which is
  pointer equality on the values the service passes; it is a type variable.

  The tree is refined to a table from level paths and subscribers to subscriptions, and
  matching to a relation between a topic and a path, which is compared with the
  matching rule of the protocol.
\<close>

record sub =
  Topic :: bytes
  Qos :: byte
  NoLocal :: bool
  RetainAsPublished :: bool
  RetainHandling :: byte
  SubIdentifier :: uint32

definition MaxQosAllowed :: byte where "MaxQosAllowed = 2"

text \<open>\<open>util.Qos\<close>\<close>

definition util_Qos :: "byte \<Rightarrow> byte" where
  "util_Qos q = (if q > MaxQosAllowed then MaxQosAllowed else q)"

section \<open>Topic levels\<close>

datatype chstate = StateCHR | StateMWC | StateSWC | StateSYS

fun ntl_loop :: "bytes \<Rightarrow> nat \<Rightarrow> chstate \<Rightarrow> bytes \<Rightarrow> string + bytes \<times> bytes option" where
  "ntl_loop topic i s [] = Inr (topic, None)"
| "ntl_loop topic i s (c # cs) =
     (if c = c_sep then
        (if s = StateMWC then Inl ''Multi-level wildcard found in topic and it's not at the last level''
         else if i = 0 then Inr ([c_swc], Some cs)
         else Inr (take i topic, Some cs))
      else if c = c_mwc then
        (if i \<noteq> 0 then Inl ''Wildcard character '#' must occupy entire topic level''
         else ntl_loop topic (Suc i) StateMWC cs)
      else if c = c_swc then
        (if i \<noteq> 0 then Inl ''Wildcard character '+' must occupy entire topic level''
         else ntl_loop topic (Suc i) StateSWC cs)
      else if c = c_sys then
        (if i = 0 then Inl ''Cannot publish to $ topics''
         else ntl_loop topic (Suc i) StateSYS cs)
      else
        (if s = StateMWC \<or> s = StateSWC then Inl ''Wildcard characters '#' and '+' must occupy entire topic level''
         else ntl_loop topic (Suc i) StateCHR cs))"

text \<open>The level and the rest; a rest of None is the nil slice, when there is no separator.\<close>

definition nextTopicLevel :: "bytes \<Rightarrow> string + bytes \<times> bytes option" where
  "nextTopicLevel topic = ntl_loop topic 0 StateCHR topic"

lemma ntl_loop_shorter: "ntl_loop topic i s cs = Inr (l, Some rem) \<Longrightarrow> length rem < length cs"
  by (induction topic i s cs rule: ntl_loop.induct) (auto split: if_splits simp: less_Suc_eq)

lemma nextTopicLevel_shorter [simp]: "nextTopicLevel t = Inr (l, Some rem) \<Longrightarrow> length rem < length t"
  by (simp add: nextTopicLevel_def ntl_loop_shorter)

definition rest :: "bytes option \<Rightarrow> bytes" where
  "rest r = (case r of None \<Rightarrow> [] | Some b \<Rightarrow> b)"

lemma rest_simps [simp]: "rest None = []" "rest (Some b) = b"
  by (simp_all add: rest_def)

lemma rest_shorter: "nextTopicLevel t = Inr (l, rem) \<Longrightarrow> t \<noteq> [] \<Longrightarrow> length (rest rem) < length t"
  by (cases rem) (auto simp: rest_def)

section \<open>The tree\<close>

datatype 'c snode = SNode (subs: "('c \<times> sub) list") (snodes: "(bytes \<times> 'c snode) list")

definition newSNode :: "'c snode" where
  "newSNode = SNode [] []"

text \<open>Replace the subscription of a known subscriber, or append.\<close>

fun upd_sub :: "'c \<Rightarrow> 's \<Rightarrow> ('c \<times> 's) list \<Rightarrow> ('c \<times> 's) list" where
  "upd_sub c s [] = [(c, s)]"
| "upd_sub c s ((c', s') # ss) = (if c' = c then (c', s) # ss else (c', s') # upd_sub c s ss)"

fun del_sub :: "'c \<Rightarrow> ('c \<times> 's) list \<Rightarrow> ('c \<times> 's) list" where
  "del_sub c [] = []"
| "del_sub c ((c', s') # ss) = (if c' = c then ss else (c', s') # del_sub c ss)"

definition child :: "bytes \<Rightarrow> 'c snode \<Rightarrow> 'c snode" where
  "child l n = (case map_of (snodes n) l of Some n' \<Rightarrow> n' | None \<Rightarrow> newSNode)"

function sinsert :: "sub \<Rightarrow> 'c \<Rightarrow> 'c snode \<Rightarrow> 'c snode \<times> string option" where
  "sinsert s c n =
     (if Topic s = [] then (SNode (upd_sub c s (subs n)) (snodes n), None)
      else case nextTopicLevel (Topic s) of
        Inl e \<Rightarrow> (n, Some e)
      | Inr (level, rem) \<Rightarrow>
          (case sinsert (s\<lparr>Topic := rest rem\<rparr>) c (child level n) of
             (n', e) \<Rightarrow> (SNode (subs n) (AList.update level n' (snodes n)), e)))"
  by pat_completeness auto
termination
  by (relation "measure (\<lambda>(s, c, n). length (Topic s))") (auto intro: rest_shorter)

declare sinsert.simps [simp del]

text \<open>\<open>who\<close> is None when all subscribers of the filter are to go.\<close>

function sremove :: "bytes \<Rightarrow> 'c option \<Rightarrow> 'c snode \<Rightarrow> 'c snode \<times> string option" where
  "sremove topic who n =
     (if topic = [] then
        (case who of
           None \<Rightarrow> (SNode [] (snodes n), None)
         | Some c \<Rightarrow>
             if c \<in> fst ` set (subs n) then (SNode (del_sub c (subs n)) (snodes n), None)
             else (n, Some ''No topic found for subscriber''))
      else case nextTopicLevel topic of
        Inl e \<Rightarrow> (n, Some e)
      | Inr (level, rem) \<Rightarrow>
          (case map_of (snodes n) level of
             None \<Rightarrow> (n, Some ''No topic found'')
           | Some n0 \<Rightarrow>
               (case sremove (rest rem) who n0 of
                  (n1, Some e) \<Rightarrow> (SNode (subs n) (AList.update level n1 (snodes n)), Some e)
                | (n1, None) \<Rightarrow>
                    if length (subs n1) = 0 \<and> length (snodes n1) = 0
                    then (SNode (subs n) (AList.delete level (snodes n)), None)
                    else (SNode (subs n) (AList.update level n1 (snodes n)), None))))"
  by pat_completeness auto
termination
  by (relation "measure (\<lambda>(t, c, n). length t)") (auto intro: rest_shorter)

declare sremove.simps [simp del]

text \<open>The granted QoS is the lower one.\<close>

definition cap :: "byte \<Rightarrow> sub \<Rightarrow> sub" where
  "cap qos s = (if qos \<le> Qos s then s\<lparr>Qos := qos\<rparr> else s)"

definition matchQos :: "byte \<Rightarrow> 'c snode \<Rightarrow> ('c \<times> sub) list" where
  "matchQos qos n = map (\<lambda>(c, s). (c, cap qos s)) (subs n)"

definition match_key :: "byte \<Rightarrow> bytes \<Rightarrow> 'c snode \<Rightarrow> ('c \<times> sub) list" where
  "match_key qos k n = (case map_of (snodes n) k of None \<Rightarrow> [] | Some v \<Rightarrow> matchQos qos v)"

text \<open>
  The subscribers appended and the error; the second function is the loop over the
  children, with the level and rest of the topic.
\<close>

function (sequential) smatch :: "bytes \<Rightarrow> byte \<Rightarrow> 'c snode \<Rightarrow> ('c \<times> sub) list \<times> string option"
  and smatch_kids :: "bytes \<Rightarrow> bytes option \<Rightarrow> byte \<Rightarrow> (bytes \<times> 'c snode) list \<Rightarrow> ('c \<times> sub) list \<times> string option" where
  "smatch topic qos (SNode ss ks) =
     (if topic = [] then
        (matchQos qos (SNode ss ks) @ match_key qos [c_mwc] (SNode ss ks) @ match_key qos [c_swc] (SNode ss ks), None)
      else case nextTopicLevel topic of
        Inl e \<Rightarrow> ([], Some e)
      | Inr (level, rem) \<Rightarrow> smatch_kids level rem qos ks)"
| "smatch_kids level rem qos [] = ([], None)"
| "smatch_kids level rem qos ((k, n) # ks) =
     (case (if k = [c_mwc] then (matchQos qos n, None)
            else if k = [c_swc] \<or> k = level then
              (case rem of
                 Some r \<Rightarrow> smatch r qos n
               | None \<Rightarrow> (matchQos qos n @ match_key qos [c_mwc] n, None))
            else ([], None)) of
        (out, Some e) \<Rightarrow> (out, Some e)
      | (out, None) \<Rightarrow> (case smatch_kids level rem qos ks of (out', e) \<Rightarrow> (out @ out', e)))"
  by pat_completeness auto
termination
  by (relation "measure (\<lambda>x. case x of Inl (t, q, n) \<Rightarrow> size n
      | Inr (l, r, q, ks) \<Rightarrow> size_list (size_prod (\<lambda>x. 0) size) ks)") auto

section \<open>The table of a tree\<close>

fun tab :: "'c snode \<Rightarrow> bytes list \<Rightarrow> 'c \<rightharpoonup> sub" where
  "tab n [] = map_of (subs n)"
| "tab n (p # ps) = (case map_of (snodes n) p of None \<Rightarrow> Map.empty | Some n' \<Rightarrow> tab n' ps)"

text \<open>Keys are distinct at every node.\<close>

inductive sn_wf :: "'c snode \<Rightarrow> bool" where
  sn_wfI: "distinct (map fst (subs n)) \<Longrightarrow> distinct (map fst (snodes n)) \<Longrightarrow>
     (\<And>k n'. (k, n') \<in> set (snodes n) \<Longrightarrow> sn_wf n') \<Longrightarrow> sn_wf n"

inductive_cases sn_wfE: "sn_wf n"

lemma sn_wfD:
  assumes "sn_wf n"
  shows "distinct (map fst (subs n))" and "distinct (map fst (snodes n))"
    and "(k, n') \<in> set (snodes n) \<Longrightarrow> sn_wf n'"
  using assms by (blast elim: sn_wfE)+

text \<open>The levels of a topic or filter, as the tree cuts them; None is an error.\<close>

function path :: "bytes \<Rightarrow> bytes list option" where
  "path t = (if t = [] then Some []
     else case nextTopicLevel t of
       Inl e \<Rightarrow> None
     | Inr (l, rem) \<Rightarrow> map_option ((#) l) (path (rest rem)))"
  by pat_completeness auto
termination
  by (relation "measure length") (auto intro: rest_shorter)

declare path.simps [simp del]

lemma path_Nil [simp]: "path [] = Some []"
  by (simp add: path.simps)

lemma path_step:
  "t \<noteq> [] \<Longrightarrow> path t = (case nextTopicLevel t of Inl e \<Rightarrow> None | Inr (l, rem) \<Rightarrow> map_option ((#) l) (path (rest rem)))"
  by (subst path.simps) simp

lemma newSNode_wf [simp]: "sn_wf newSNode"
  by (rule sn_wfI) (simp_all add: newSNode_def)

lemma tab_newSNode [simp]: "tab newSNode ps = Map.empty"
  by (cases ps) (simp_all add: newSNode_def)

lemma child_wf: "sn_wf n \<Longrightarrow> sn_wf (child l n)"
  by (auto simp: child_def split: option.split dest: map_of_SomeD sn_wfD(3))

lemma tab_child: "tab n (l # ps) = tab (child l n) ps"
  by (simp add: child_def split: option.split)

lemma upd_sub_map: "map_of (upd_sub c s ss) = (map_of ss)(c \<mapsto> s)"
  by (induction c s ss rule: upd_sub.induct) auto

lemma upd_sub_keys: "fst ` set (upd_sub c s ss) = insert c (fst ` set ss)"
  by (induction c s ss rule: upd_sub.induct) auto

lemma upd_sub_distinct: "distinct (map fst ss) \<Longrightarrow> distinct (map fst (upd_sub c s ss))"
  by (induction c s ss rule: upd_sub.induct) (auto simp: upd_sub_keys)

lemma del_sub_keys: "distinct (map fst ss) \<Longrightarrow> fst ` set (del_sub c ss) = fst ` set ss - {c}"
  by (induction c ss rule: del_sub.induct) auto

lemma del_sub_distinct: "distinct (map fst ss) \<Longrightarrow> distinct (map fst (del_sub c ss))"
  by (induction c ss rule: del_sub.induct) (auto simp: del_sub_keys)

lemma del_sub_map: "distinct (map fst ss) \<Longrightarrow> map_of (del_sub c ss) = (map_of ss)(c := None)"
proof (induction c ss rule: del_sub.induct)
  case (2 c c' s' ss)
  then show ?case
    by (auto simp: fun_eq_iff map_of_eq_None_iff)
qed simp

lemma set_update: "(k', v') \<in> set (AList.update k v al) \<Longrightarrow> v' = v \<or> (k', v') \<in> set al"
  by (induction al) (auto split: if_splits)

lemma set_delete: "x \<in> set (AList.delete k al) \<Longrightarrow> x \<in> set al"
  by (induction al) (auto split: if_splits)

lemma node_update_wf:
  assumes "sn_wf n" and "sn_wf n'"
  shows "sn_wf (SNode (subs n) (AList.update l n' (snodes n)))"
proof (rule sn_wfI)
  fix k m assume "(k, m) \<in> set (snodes (SNode (subs n) (AList.update l n' (snodes n))))"
  then show "sn_wf m"
    using set_update [of k m l n' "snodes n"] assms sn_wfD(3) [OF assms(1)] by auto
qed (use sn_wfD(1,2) [OF assms(1)] in \<open>simp_all add: distinct_update\<close>)

lemma node_delete_wf:
  assumes "sn_wf n"
  shows "sn_wf (SNode (subs n) (AList.delete l (snodes n)))"
proof (rule sn_wfI)
  fix k m assume "(k, m) \<in> set (snodes (SNode (subs n) (AList.delete l (snodes n))))"
  then show "sn_wf m"
    using set_delete sn_wfD(3) [OF assms] by fastforce
qed (use sn_wfD(1,2) [OF assms] in \<open>simp_all add: distinct_delete\<close>)

lemma node_subs_wf:
  assumes "sn_wf n" and "distinct (map fst ss)"
  shows "sn_wf (SNode ss (snodes n))"
proof (rule sn_wfI)
  fix k m assume "(k, m) \<in> set (snodes (SNode ss (snodes n)))"
  then show "sn_wf m"
    using sn_wfD(3) [OF assms(1)] by simp
qed (use sn_wfD(2) [OF assms(1)] assms(2) in simp_all)

section \<open>Insertion\<close>

lemma sinsert_ok:
  "sn_wf n \<Longrightarrow>
   sn_wf (fst (sinsert s c n)) \<and>
   (case path (Topic s) of
      Some ps \<Rightarrow> snd (sinsert s c n) = None
        \<and> tab (fst (sinsert s c n)) = (tab n)(ps := (tab n ps)(c \<mapsto> s\<lparr>Topic := []\<rparr>))
    | None \<Rightarrow> snd (sinsert s c n) \<noteq> None \<and> tab (fst (sinsert s c n)) = tab n)"
proof (induction s c n rule: sinsert.induct)
  case (1 s c n)
  show ?case
  proof (cases "Topic s = []")
    case True
    have eq: "sinsert s c n = (SNode (upd_sub c s (subs n)) (snodes n), None)"
      using True by (simp add: sinsert.simps)
    have "tab (SNode (upd_sub c s (subs n)) (snodes n)) ps = ((tab n)([] := (tab n [])(c \<mapsto> s))) ps" for ps
      by (cases ps) (simp_all add: upd_sub_map)
    moreover have "s\<lparr>Topic := []\<rparr> = s"
      using True by simp
    moreover have "sn_wf (SNode (upd_sub c s (subs n)) (snodes n))"
      by (rule node_subs_wf [OF 1(2) upd_sub_distinct [OF sn_wfD(1) [OF 1(2)]]])
    ultimately show ?thesis
      using True eq by (auto simp: fun_eq_iff)
  next
    case ne: False
    show ?thesis
    proof (cases "nextTopicLevel (Topic s)")
      case (Inl e)
      then show ?thesis
        using ne 1(2) by (simp add: sinsert.simps path_step)
    next
      case (Inr lr)
      obtain l rem where lr: "nextTopicLevel (Topic s) = Inr (l, rem)"
        using Inr by (cases lr) auto
      let ?s = "s\<lparr>Topic := rest rem\<rparr>"
      obtain n' e where i: "sinsert ?s c (child l n) = (n', e)"
        by fastforce
      have eq: "sinsert s c n = (SNode (subs n) (AList.update l n' (snodes n)), e)"
        using ne lr i by (subst sinsert.simps) simp
      note IH = 1(1) [OF ne lr refl, OF child_wf [OF 1(2)]]
      have wf: "sn_wf n'"
        using IH i by simp
      have t: "tab (SNode (subs n) (AList.update l n' (snodes n))) ps =
          (case ps of [] \<Rightarrow> tab n [] | p # qs \<Rightarrow> if p = l then tab n' qs else tab n (p # qs))" for ps
        by (cases ps) (simp_all add: update_conv')
      have p: "path (Topic s) = map_option ((#) l) (path (rest rem))"
        using ne lr by (simp add: path_step)
      show ?thesis
      proof (cases "path (rest rem)")
        case None
        then have "tab n' = tab (child l n)" "e \<noteq> None"
          using IH i by simp_all
        then show ?thesis
          using None p eq t node_update_wf [OF 1(2) wf]
          by (auto simp: fun_eq_iff tab_child [symmetric] split: list.split)
      next
        case (Some ps)
        then have "tab n' = (tab (child l n))(ps := (tab (child l n) ps)(c \<mapsto> s\<lparr>Topic := []\<rparr>))" "e = None"
          using IH i by simp_all
        then show ?thesis
          using Some p eq t node_update_wf [OF 1(2) wf]
          by (auto simp: fun_eq_iff tab_child [symmetric] split: list.split)
      qed
    qed
  qed
qed

section \<open>Removal\<close>

lemma tab_node:
  "tab (SNode ss ks) ps = (case ps of [] \<Rightarrow> map_of ss
     | p # qs \<Rightarrow> (case map_of ks p of None \<Rightarrow> Map.empty | Some n' \<Rightarrow> tab n' qs))"
  by (cases ps) simp_all

lemma tab_update:
  "tab (SNode (subs n) (AList.update l n' (snodes n))) ps =
     (case ps of [] \<Rightarrow> tab n [] | p # qs \<Rightarrow> if p = l then tab n' qs else tab n (p # qs))"
  by (cases ps) (simp_all add: update_conv')

lemma tab_delete:
  "tab (SNode (subs n) (AList.delete l (snodes n))) ps =
     (case ps of [] \<Rightarrow> tab n [] | p # qs \<Rightarrow> if p = l then Map.empty else tab n (p # qs))"
  by (cases ps) (simp_all add: delete_conv')

lemma tab_empty: "subs n = [] \<Longrightarrow> snodes n = [] \<Longrightarrow> tab n ps = Map.empty"
  by (cases ps) simp_all

text \<open>The table without one subscriber, or without any, at a path.\<close>

definition tab_remove :: "bytes list \<Rightarrow> 'c option \<Rightarrow> (bytes list \<Rightarrow> 'c \<rightharpoonup> sub) \<Rightarrow> bytes list \<Rightarrow> 'c \<rightharpoonup> sub" where
  "tab_remove ps who f = f(ps := (case who of None \<Rightarrow> Map.empty | Some c \<Rightarrow> (f ps)(c := None)))"

lemma tab_remove_step:
  assumes "tab n1 = tab_remove qs who (tab n0)" and "map_of (snodes n) l = Some n0"
  shows "tab (SNode (subs n) (AList.update l n1 (snodes n))) = tab_remove (l # qs) who (tab n)"
    and "subs n1 = [] \<Longrightarrow> snodes n1 = [] \<Longrightarrow>
      tab (SNode (subs n) (AList.delete l (snodes n))) = tab_remove (l # qs) who (tab n)"
proof -
  show 1: "tab (SNode (subs n) (AList.update l n1 (snodes n))) = tab_remove (l # qs) who (tab n)"
    using assms(2) by (auto simp: fun_eq_iff tab_update assms(1) tab_remove_def split: list.split option.split)
  assume "subs n1 = []" "snodes n1 = []"
  then have "tab (SNode (subs n) (AList.delete l (snodes n))) = tab (SNode (subs n) (AList.update l n1 (snodes n)))"
    by (auto simp: fun_eq_iff tab_update tab_delete tab_empty split: list.split)
  then show "tab (SNode (subs n) (AList.delete l (snodes n))) = tab_remove (l # qs) who (tab n)"
    using 1 by simp
qed

lemma sremove_go:
  assumes "t \<noteq> []" and "nextTopicLevel t = Inr (l, rem)" and "map_of (snodes n) l = Some n0"
    and "sremove (rest rem) who n0 = (n1, e)"
  shows "sremove t who n =
    (case e of Some x \<Rightarrow> (SNode (subs n) (AList.update l n1 (snodes n)), Some x)
     | None \<Rightarrow> if length (subs n1) = 0 \<and> length (snodes n1) = 0
         then (SNode (subs n) (AList.delete l (snodes n)), None)
         else (SNode (subs n) (AList.update l n1 (snodes n)), None))"
  using assms by (subst sremove.simps) (cases e; simp)

lemma sremove_wf: "sn_wf n \<Longrightarrow> sn_wf (fst (sremove t who n))"
proof (induction t who n rule: sremove.induct)
  case (1 t who n)
  show ?case
  proof (cases "t = []")
    case True
    then show ?thesis
      using 1(2) sn_wfD(1) [OF 1(2)]
      by (subst sremove.simps) (auto intro!: node_subs_wf del_sub_distinct split: option.split)
  next
    case ne: False
    show ?thesis
    proof (cases "nextTopicLevel t")
      case (Inl e)
      then show ?thesis
        using ne 1(2) by (subst sremove.simps) simp
    next
      case (Inr lr)
      obtain l rem where lr: "nextTopicLevel t = Inr (l, rem)"
        using Inr by (cases lr) auto
      show ?thesis
      proof (cases "map_of (snodes n) l")
        case None
        then show ?thesis
          using ne lr 1(2) by (subst sremove.simps) simp
      next
        case (Some n0)
        have w0: "sn_wf n0"
          using sn_wfD(3) [OF 1(2) map_of_SomeD [OF Some]] .
        have "sn_wf (fst (sremove (rest rem) who n0))"
          using 1(1) [OF ne lr refl Some w0] .
        then show ?thesis
          using ne lr Some 1(2) node_update_wf [OF 1(2)] node_delete_wf [OF 1(2)]
          by (subst sremove.simps) (auto split: prod.split option.split)
      qed
    qed
  qed
qed

lemma sremove_tab:
  "sn_wf n \<Longrightarrow> snd (sremove t who n) = None \<Longrightarrow>
   \<exists>ps. path t = Some ps \<and> tab (fst (sremove t who n)) = tab_remove ps who (tab n)
     \<and> (\<forall>c. who = Some c \<longrightarrow> tab n ps c \<noteq> None)"
proof (induction t who n rule: sremove.induct)
  case (1 t who n)
  show ?case
  proof (cases "t = []")
    case True
    show ?thesis
    proof (cases who)
      case None
      then show ?thesis
        using True by (auto simp: sremove.simps tab_node tab_remove_def fun_eq_iff split: list.split)
    next
      case (Some c)
      then have c: "c \<in> fst ` set (subs n)"
        using True 1(3) by (simp add: sremove.simps split: if_splits)
      then have "map_of (subs n) c \<noteq> None"
        by (simp add: map_of_eq_None_iff)
      then show ?thesis
        using True Some c del_sub_map [OF sn_wfD(1) [OF 1(2)], of c]
        by (auto simp: sremove.simps tab_node tab_remove_def fun_eq_iff split: list.split)
    qed
  next
    case ne: False
    then obtain l rem where lr: "nextTopicLevel t = Inr (l, rem)"
      using 1(3) by (cases "nextTopicLevel t") (auto simp: sremove.simps)
    then obtain n0 where n0: "map_of (snodes n) l = Some n0"
      using 1(3) ne by (cases "map_of (snodes n) l") (auto simp: sremove.simps)
    obtain n1 e where s: "sremove (rest rem) who n0 = (n1, e)"
      by fastforce
    note go = sremove_go [OF ne lr n0 s]
    have e: "e = None"
      using 1(3) by (cases e) (auto simp: go)
    have w0: "sn_wf n0"
      using sn_wfD(3) [OF 1(2) map_of_SomeD [OF n0]] .
    obtain qs where q: "path (rest rem) = Some qs" "tab n1 = tab_remove qs who (tab n0)"
      "\<forall>c. who = Some c \<longrightarrow> tab n0 qs c \<noteq> None"
      using 1(1) [OF ne lr refl n0 w0] s e by auto
    have "path t = Some (l # qs)"
      using ne lr q(1) by (simp add: path_step)
    moreover have "tab (fst (sremove t who n)) = tab_remove (l # qs) who (tab n)"
      using e tab_remove_step [OF q(2) n0] by (simp add: go)
    ultimately show ?thesis
      using q(3) n0 by auto
  qed
qed

text \<open>A removal fails exactly when there is nothing to remove.\<close>

lemma sremove_err:
  "sn_wf n \<Longrightarrow> snd (sremove t (Some c) n) \<noteq> None \<Longrightarrow>
   tab (fst (sremove t (Some c) n)) = tab n \<and> (\<forall>ps. path t = Some ps \<longrightarrow> tab n ps c = None)"
proof (induction t "Some c" n rule: sremove.induct)
  case (1 t n)
  show ?case
  proof (cases "t = []")
    case True
    then show ?thesis
      using 1(3) by (auto simp: sremove.simps map_of_eq_None_iff split: if_splits)
  next
    case ne: False
    show ?thesis
    proof (cases "nextTopicLevel t")
      case (Inl e)
      then show ?thesis
        using ne by (simp add: sremove.simps path_step)
    next
      case (Inr lr)
      obtain l rem where lr: "nextTopicLevel t = Inr (l, rem)"
        using Inr by (cases lr) auto
      show ?thesis
      proof (cases "map_of (snodes n) l")
        case None
        then show ?thesis
          using ne lr by (auto simp: sremove.simps path_step)
      next
        case (Some n0)
        obtain n1 e where s: "sremove (rest rem) (Some c) n0 = (n1, e)"
          by fastforce
        note go = sremove_go [OF ne lr Some s]
        have e: "e \<noteq> None"
          using 1(3) by (cases e) (auto simp: go split: if_splits)
        have w0: "sn_wf n0"
          using sn_wfD(3) [OF 1(2) map_of_SomeD [OF Some]] .
        have "tab n1 = tab n0 \<and> (\<forall>ps. path (rest rem) = Some ps \<longrightarrow> tab n0 ps c = None)"
          using 1(1) [OF ne lr refl Some w0] s e by simp
        then show ?thesis
          using ne lr Some e
          by (auto simp: go path_step fun_eq_iff tab_update split: list.split)
      qed
    qed
  qed
qed

section \<open>Matching\<close>

text \<open>When a topic matches a path of the tree.\<close>

fun tmatch :: "bytes \<Rightarrow> bytes list \<Rightarrow> bool" where
  "tmatch t [] = (t = [])"
| "tmatch t (p # ps) =
     (if t = [] then ps = [] \<and> (p = [c_mwc] \<or> p = [c_swc])
      else case nextTopicLevel t of
        Inl e \<Rightarrow> False
      | Inr (l, rem) \<Rightarrow>
          if p = [c_mwc] then ps = []
          else if p = [c_swc] \<or> p = l
          then (case rem of Some r \<Rightarrow> tmatch r ps | None \<Rightarrow> ps = [] \<or> ps = [[c_mwc]])
          else False)"

definition kmatch :: "bytes \<Rightarrow> bytes option \<Rightarrow> bytes \<Rightarrow> bytes list \<Rightarrow> bool" where
  "kmatch l rem p ps \<longleftrightarrow>
     (if p = [c_mwc] then ps = []
      else if p = [c_swc] \<or> p = l
      then (case rem of Some r \<Rightarrow> tmatch r ps | None \<Rightarrow> ps = [] \<or> ps = [[c_mwc]])
      else False)"

definition hits :: "byte \<Rightarrow> (bytes list \<Rightarrow> bool) \<Rightarrow> 'c snode \<Rightarrow> ('c \<times> sub) set" where
  "hits q P n = {(c, cap q s) | c s ps. P ps \<and> tab n ps c = Some s}"

lemma hits_cong: "(\<And>ps. P ps = Q ps) \<Longrightarrow> hits q P n = hits q Q n"
  by (simp add: hits_def)

lemma hits_or: "hits q (\<lambda>ps. P ps \<or> Q ps) n = hits q P n \<union> hits q Q n"
  by (auto simp: hits_def)

lemma hits_False [simp]: "hits q (\<lambda>ps. False) n = {}"
  by (simp add: hits_def)

lemma set_matchQos:
  assumes "sn_wf n"
  shows "set (matchQos q n) = hits q (\<lambda>ps. ps = []) n"
  using sn_wfD(1) [OF assms] by (force simp: matchQos_def hits_def)

lemma set_match_key:
  assumes "sn_wf n"
  shows "set (match_key q k n) = hits q (\<lambda>ps. ps = [k]) n"
proof (cases "map_of (snodes n) k")
  case None
  then show ?thesis
    by (simp add: match_key_def hits_def)
next
  case (Some v)
  then have "sn_wf v"
    using sn_wfD(3) [OF assms map_of_SomeD] by blast
  then show ?thesis
    using set_matchQos [of v q] Some by (simp add: match_key_def hits_def)
qed

lemma kid_size:
  "(k, m) \<in> set ks \<Longrightarrow> size m < Suc (size_list (size_prod (\<lambda>x. 0) size) ks)"
  using size_list_estimation' [of "(k, m)" ks "size m" "size_prod (\<lambda>x. 0) size"] by simp

lemma hits_children:
  assumes "distinct (map fst ks)"
  shows "hits q (\<lambda>ps. ps \<noteq> [] \<and> P (hd ps) (tl ps)) (SNode ss ks) = (\<Union>(k, n) \<in> set ks. hits q (P k) n)"
proof (intro set_eqI iffI)
  fix x assume "x \<in> hits q (\<lambda>ps. ps \<noteq> [] \<and> P (hd ps) (tl ps)) (SNode ss ks)"
  then obtain c s p ps where x: "x = (c, cap q s)" "P p ps" "tab (SNode ss ks) (p # ps) c = Some s"
    unfolding hits_def by (clarsimp simp: neq_Nil_conv)
  then obtain n where "map_of ks p = Some n" "tab n ps c = Some s"
    by (auto split: option.splits)
  then show "x \<in> (\<Union>(k, n) \<in> set ks. hits q (P k) n)"
    using x(1,2) map_of_SomeD by (fastforce simp: hits_def)
next
  fix x assume "x \<in> (\<Union>(k, n) \<in> set ks. hits q (P k) n)"
  then obtain k n c s ps where x: "(k, n) \<in> set ks" "x = (c, cap q s)" "P k ps" "tab n ps c = Some s"
    by (auto simp: hits_def)
  then have "tab (SNode ss ks) (k # ps) c = Some s"
    using assms by simp
  then show "x \<in> hits q (\<lambda>ps. ps \<noteq> [] \<and> P (hd ps) (tl ps)) (SNode ss ks)"
    using x(2,3) unfolding hits_def by (auto intro!: exI [of _ "k # ps"])
qed

lemma smatch_kids_ok:
  assumes "\<And>k n. (k, n) \<in> set ks \<Longrightarrow> sn_wf n"
    and "\<And>k n r. (k, n) \<in> set ks \<Longrightarrow> rem = Some r \<Longrightarrow>
       snd (smatch r q n) = None \<and> set (fst (smatch r q n)) = hits q (tmatch r) n"
  shows "snd (smatch_kids level rem q ks) = None \<and>
    set (fst (smatch_kids level rem q ks)) = (\<Union>(k, n) \<in> set ks. hits q (kmatch level rem k) n)"
  using assms
proof (induction ks)
  case (Cons kn ks)
  obtain k n where kn: "kn = (k, n)" by fastforce
  let ?r = "if k = [c_mwc] then (matchQos q n, None)
            else if k = [c_swc] \<or> k = level then
              (case rem of
                 Some r \<Rightarrow> smatch r q n
               | None \<Rightarrow> (matchQos q n @ match_key q [c_mwc] n, None))
            else ([], None)"
  have wf: "sn_wf n"
    using Cons.prems(1) kn by auto
  have h: "hits q (kmatch level rem k) n =
      (if k = [c_mwc] then hits q (\<lambda>ps. ps = []) n
       else if k = [c_swc] \<or> k = level then
         (case rem of Some r \<Rightarrow> hits q (tmatch r) n | None \<Rightarrow> hits q (\<lambda>ps. ps = [] \<or> ps = [[c_mwc]]) n)
       else {})"
    by (auto simp: kmatch_def hits_def split: option.split)
  have "snd ?r = None \<and> set (fst ?r) = hits q (kmatch level rem k) n"
    unfolding h using set_matchQos [OF wf] set_match_key [OF wf] Cons.prems(2) [of k n] kn
    by (auto simp: hits_or split: option.split)
  moreover have "snd (smatch_kids level rem q ks) = None \<and>
    set (fst (smatch_kids level rem q ks)) = (\<Union>(k, n) \<in> set ks. hits q (kmatch level rem k) n)"
  proof (rule Cons.IH)
    show "sn_wf m" if "(j, m) \<in> set ks" for j m
      using Cons.prems(1) [of j m] that by simp
    show "snd (smatch r q m) = None \<and> set (fst (smatch r q m)) = hits q (tmatch r) m"
      if "(j, m) \<in> set ks" "rem = Some r" for j m r
      using Cons.prems(2) [of j m r] that by simp
  qed
  ultimately show ?case
    by (cases ?r; cases "smatch_kids level rem q ks") (simp add: kn)
qed simp

lemma smatch_ok:
  "sn_wf n \<Longrightarrow> path t \<noteq> None \<Longrightarrow>
   snd (smatch t q n) = None \<and> set (fst (smatch t q n)) = hits q (tmatch t) n"
proof (induction "size n" arbitrary: n t rule: less_induct)
  case less
  obtain ss ks where n: "n = SNode ss ks"
    by (cases n)
  have wk: "sn_wf m" if "(k, m) \<in> set ks" for k m
    using sn_wfD(3) [OF less.prems(1)] that n by simp
  have sz: "size m < size n" if "(k, m) \<in> set ks" for k m
    using kid_size [OF that] n by simp
  show ?case
  proof (cases "t = []")
    case True
    have "tmatch [] ps \<longleftrightarrow> ps = [] \<or> ps = [[c_mwc]] \<or> ps = [[c_swc]]" for ps
      by (cases ps) auto
    then have "hits q (tmatch []) n = hits q (\<lambda>ps. ps = [] \<or> ps = [[c_mwc]] \<or> ps = [[c_swc]]) n"
      by (rule hits_cong)
    then show ?thesis
      using set_matchQos [OF less.prems(1)] set_match_key [OF less.prems(1)] True n
      by (simp add: hits_or)
  next
    case ne: False
    then obtain l rem where lr: "nextTopicLevel t = Inr (l, rem)" and pr: "path (rest rem) \<noteq> None"
      using less.prems(2) by (auto simp: path_step split: sum.splits prod.splits)
    have "tmatch t ps \<longleftrightarrow> ps \<noteq> [] \<and> kmatch l rem (hd ps) (tl ps)" for ps
      using ne lr by (cases ps) (auto simp: kmatch_def)
    then have "hits q (tmatch t) n = hits q (\<lambda>ps. ps \<noteq> [] \<and> kmatch l rem (hd ps) (tl ps)) n"
      by (rule hits_cong)
    also have "\<dots> = (\<Union>(k, m) \<in> set ks. hits q (kmatch l rem k) m)"
      unfolding n by (rule hits_children) (use sn_wfD(2) [OF less.prems(1)] n in simp)
    finally have h: "hits q (tmatch t) n = (\<Union>(k, m) \<in> set ks. hits q (kmatch l rem k) m)" .
    have "smatch t q n = smatch_kids l rem q ks"
      using ne lr n by simp
    moreover have "snd (smatch_kids l rem q ks) = None \<and>
      set (fst (smatch_kids l rem q ks)) = (\<Union>(k, m) \<in> set ks. hits q (kmatch l rem k) m)"
      by (rule smatch_kids_ok) (use wk sz less.hyps pr in auto)
    ultimately show ?thesis
      using h by simp
  qed
qed

section \<open>The matching rule of the protocol\<close>

fun join_levels :: "bytes list \<Rightarrow> bytes" where
  "join_levels [] = []"
| "join_levels [l] = l"
| "join_levels (l # ls) = l @ c_sep # join_levels ls"

definition plain :: "bytes \<Rightarrow> bool" where
  "plain l \<longleftrightarrow> l \<noteq> [] \<and> c_sep \<notin> set l \<and> c_mwc \<notin> set l \<and> c_swc \<notin> set l \<and> hd l \<noteq> c_sys"

text \<open>Topic names have plain levels; filters may use \<open>+\<close> for a level and \<open>#\<close> for the last.\<close>

fun filter_ok :: "bytes list \<Rightarrow> bool" where
  "filter_ok [] = False"
| "filter_ok [l] = (plain l \<or> l = [c_mwc] \<or> l = [c_swc])"
| "filter_ok (l # ls) = ((plain l \<or> l = [c_swc]) \<and> filter_ok ls)"

definition topic_ok :: "bytes list \<Rightarrow> bool" where
  "topic_ok ts \<longleftrightarrow> ts \<noteq> [] \<and> list_all plain ts"

fun mqtt_match :: "bytes list \<Rightarrow> bytes list \<Rightarrow> bool" where
  "mqtt_match [] ts = (ts = [])"
| "mqtt_match (f # fs) ts =
     (if f = [c_mwc] \<and> fs = [] then True
      else case ts of [] \<Rightarrow> False | t # ts' \<Rightarrow> (f = [c_swc] \<or> f = t) \<and> mqtt_match fs ts')"

lemma ntl_loop_plain:
  assumes "c_sep \<notin> set l" "c_mwc \<notin> set l" "c_swc \<notin> set l" and "0 < i" and "s = StateCHR \<or> s = StateSYS"
  shows "ntl_loop topic i s l = Inr (topic, None)"
    and "ntl_loop topic i s (l @ c_sep # r) = Inr (take (i + length l) topic, Some r)"
  using assms by (induction l arbitrary: i s) auto

lemma ntl_plain:
  assumes "plain l"
  shows "nextTopicLevel l = Inr (l, None)" and "nextTopicLevel (l @ c_sep # r) = Inr (l, Some r)"
proof -
  obtain c cs where l: "l = c # cs"
    using assms by (cases l) (auto simp: plain_def)
  then have c: "c \<noteq> c_sep" "c \<noteq> c_mwc" "c \<noteq> c_swc" "c \<noteq> c_sys"
    and cs: "c_sep \<notin> set cs" "c_mwc \<notin> set cs" "c_swc \<notin> set cs"
    using assms by (auto simp: plain_def)
  show "nextTopicLevel l = Inr (l, None)" "nextTopicLevel (l @ c_sep # r) = Inr (l, Some r)"
    using c ntl_loop_plain [OF cs, of 1 StateCHR] by (simp_all add: nextTopicLevel_def l)
qed

lemma ntl_wild:
  "nextTopicLevel [c_mwc] = Inr ([c_mwc], None)"
  "nextTopicLevel [c_swc] = Inr ([c_swc], None)"
  "nextTopicLevel (c_swc # c_sep # r) = Inr ([c_swc], Some r)"
  by (simp_all add: nextTopicLevel_def)

lemma join_nonempty: "filter_ok fs \<Longrightarrow> join_levels fs \<noteq> []"
  by (induction fs rule: filter_ok.induct) (auto simp: plain_def)

lemma path_filter: "filter_ok fs \<Longrightarrow> path (join_levels fs) = Some fs"
proof (induction fs rule: filter_ok.induct)
  case (2 l)
  then have "l \<noteq> []"
    by (auto simp: plain_def)
  then show ?case
    using 2 ntl_plain(1) [of l] ntl_wild by (auto simp: path_step)
next
  case (3 l v va)
  have n: "join_levels (l # v # va) \<noteq> []"
    by (rule join_nonempty) (use 3 in simp)
  have "nextTopicLevel (l @ c_sep # join_levels (v # va)) = Inr (l, Some (join_levels (v # va)))"
    using 3(2) ntl_plain(2) [of l] ntl_wild(3) by auto
  then show ?case
    using 3 n by (simp add: path_step)
qed simp

lemma topic_filter: "topic_ok ts \<Longrightarrow> filter_ok ts"
  by (induction ts rule: filter_ok.induct) (auto simp: topic_ok_def)

lemma tmatch_Cons_topic:
  assumes "topic_ok (t # ts)"
  shows "tmatch (join_levels (t # ts)) (p # ps) \<longleftrightarrow>
    (if p = [c_mwc] then ps = []
     else (p = [c_swc] \<or> p = t) \<and> (if ts = [] then ps = [] \<or> ps = [[c_mwc]] else tmatch (join_levels ts) ps))"
proof -
  have n: "join_levels (t # ts) \<noteq> []"
    using join_nonempty topic_filter assms by blast
  have pl: "plain t"
    using assms by (simp add: topic_ok_def)
  have "nextTopicLevel (join_levels (t # ts)) = Inr (t, if ts = [] then None else Some (join_levels ts))"
    using ntl_plain [OF pl] by (cases ts) auto
  then show ?thesis
    using n by auto
qed

lemma tmatch_mqtt:
  "topic_ok ts \<Longrightarrow> filter_ok fs \<Longrightarrow> tmatch (join_levels ts) fs \<longleftrightarrow> mqtt_match fs ts"
proof (induction fs arbitrary: ts)
  case (Cons f fs)
  obtain t ts' where ts: "ts = t # ts'"
    using Cons.prems(1) by (cases ts) (auto simp: topic_ok_def)
  have f: "fs = [] \<or> filter_ok fs \<and> f \<noteq> [c_mwc]"
    using Cons.prems(2) by (cases fs) (auto simp: plain_def)
  show ?case
  proof (cases "ts' = []")
    case True
    have "mqtt_match fs [] \<longleftrightarrow> fs = [] \<or> fs = [[c_mwc]]"
      by (cases fs) auto
    then show ?thesis
      using True f tmatch_Cons_topic [of t ts' f fs] Cons.prems(1) by (auto simp: ts)
  next
    case False
    then have "topic_ok ts'"
      using Cons.prems(1) by (simp add: topic_ok_def ts)
    then have "filter_ok fs \<Longrightarrow> tmatch (join_levels ts') fs \<longleftrightarrow> mqtt_match fs ts'"
      and "join_levels ts' \<noteq> []"
      using Cons.IH join_nonempty topic_filter by blast+
    then show ?thesis
      using False f tmatch_Cons_topic [of t ts' f fs] Cons.prems(1) by (auto simp: ts)
  qed
qed simp

section \<open>The contract of a subscription store\<close>

locale subscription_store =
  fixes wf :: "'n \<Rightarrow> bool" and table :: "'n \<Rightarrow> bytes list \<Rightarrow> 'c \<rightharpoonup> sub"
    and insert :: "sub \<Rightarrow> 'c \<Rightarrow> 'n \<Rightarrow> 'n \<times> string option"
    and remove :: "bytes \<Rightarrow> 'c option \<Rightarrow> 'n \<Rightarrow> 'n \<times> string option"
    and lookup :: "bytes \<Rightarrow> byte \<Rightarrow> 'n \<Rightarrow> ('c \<times> sub) list \<times> string option"
  assumes insert_ok: "wf n \<Longrightarrow> path (Topic s) = Some ps \<Longrightarrow> wf (fst (insert s c n))
      \<and> snd (insert s c n) = None
      \<and> table (fst (insert s c n)) = (table n)(ps := (table n ps)(c \<mapsto> s\<lparr>Topic := []\<rparr>))"
    and remove_ok: "wf n \<Longrightarrow> snd (remove t who n) = None \<Longrightarrow> path t = Some ps \<Longrightarrow> wf (fst (remove t who n))
      \<and> table (fst (remove t who n)) = tab_remove ps who (table n)"
    and lookup_ok: "wf n \<Longrightarrow> path t \<noteq> None \<Longrightarrow> snd (lookup t q n) = None
      \<and> set (fst (lookup t q n)) = {(c, cap q s) | c s ps. tmatch t ps \<and> table n ps c = Some s}"
begin

lemma delivered_iff:
  assumes "wf n" and "topic_ok ts" and "\<And>ps c. table n ps c \<noteq> None \<Longrightarrow> filter_ok ps"
  shows "(c, s') \<in> set (fst (lookup (join_levels ts) q n))
    \<longleftrightarrow> (\<exists>fs s. mqtt_match fs ts \<and> table n fs c = Some s \<and> s' = cap q s)"
proof -
  have "path (join_levels ts) \<noteq> None"
    using path_filter topic_filter assms(2) by force
  then have "(c, s') \<in> set (fst (lookup (join_levels ts) q n))
      \<longleftrightarrow> (\<exists>fs s. tmatch (join_levels ts) fs \<and> table n fs c = Some s \<and> s' = cap q s)"
    using lookup_ok [OF assms(1), of "join_levels ts" q] by auto
  then show ?thesis
    using tmatch_mqtt [OF assms(2)] assms(3) by (metis option.distinct(1))
qed

lemma subscribed_delivered:
  assumes "wf n" and "filter_ok fs" and "topic_ok ts" and "Topic s = join_levels fs" and "mqtt_match fs ts"
  shows "(c, cap q (s\<lparr>Topic := []\<rparr>)) \<in> set (fst (lookup (join_levels ts) q (fst (insert s c n))))"
proof -
  have p: "path (Topic s) = Some fs"
    using path_filter [OF assms(2)] assms(4) by simp
  note i = insert_ok [OF assms(1) p, of c]
  have "path (join_levels ts) \<noteq> None"
    using path_filter topic_filter assms(3) by force
  then have l: "set (fst (lookup (join_levels ts) q (fst (insert s c n))))
      = {(c', cap q s') | c' s' ps. tmatch (join_levels ts) ps \<and> table (fst (insert s c n)) ps c' = Some s'}"
    using lookup_ok i by blast
  have "tmatch (join_levels ts) fs" "table (fst (insert s c n)) fs c = Some (s\<lparr>Topic := []\<rparr>)"
    using tmatch_mqtt [OF assms(3,2)] assms(5) i by simp_all
  then show ?thesis
    unfolding l by blast
qed

lemma unsubscribed_not_delivered:
  assumes "wf n" and "filter_ok fs" and "path t = Some fs" and "topic_ok ts"
    and "snd (remove t (Some c) n) = None"
    and "\<And>gs s. table n gs c = Some s \<Longrightarrow> gs \<noteq> fs \<Longrightarrow> filter_ok gs \<and> \<not> mqtt_match gs ts"
  shows "c \<notin> fst ` set (fst (lookup (join_levels ts) q (fst (remove t (Some c) n))))"
proof
  let ?n = "fst (remove t (Some c) n)"
  note r = remove_ok [OF assms(1,5,3)]
  have p: "path (join_levels ts) \<noteq> None"
    using path_filter topic_filter assms(4) by force
  assume "c \<in> fst ` set (fst (lookup (join_levels ts) q ?n))"
  then obtain s ps where m: "tmatch (join_levels ts) ps" "table ?n ps c = Some s"
    using lookup_ok [of ?n, OF _ p, of q] r by auto
  then have "ps \<noteq> fs" "table n ps c = Some s"
    using r by (auto simp: tab_remove_def split: if_splits)
  then show False
    using assms(6) m(1) tmatch_mqtt [OF assms(4)] by blast
qed

end

interpretation tree: subscription_store sn_wf tab sinsert sremove smatch
proof unfold_locales
  fix n :: "'c snode" and s :: sub and c ps
  assume "sn_wf n" "path (Topic s) = Some ps"
  then show "sn_wf (fst (sinsert s c n)) \<and> snd (sinsert s c n) = None
      \<and> tab (fst (sinsert s c n)) = (tab n)(ps := (tab n ps)(c \<mapsto> s\<lparr>Topic := []\<rparr>))"
    using sinsert_ok [of n s c] by simp
next
  fix n :: "'c snode" and t who ps
  assume "sn_wf n" "snd (sremove t who n) = None" "path t = Some ps"
  then show "sn_wf (fst (sremove t who n)) \<and> tab (fst (sremove t who n)) = tab_remove ps who (tab n)"
    using sremove_wf [of n t who] sremove_tab [of n t who] by auto
next
  fix n :: "'c snode" and t q
  assume "sn_wf n" "path t \<noteq> None"
  then show "snd (smatch t q n) = None
      \<and> set (fst (smatch t q n)) = {(c, cap q s) | c s ps. tmatch t ps \<and> tab n ps c = Some s}"
    using smatch_ok [of n t q] by (simp add: hits_def)
qed

section \<open>Sequences of subscriptions\<close>

text \<open>Subscribing and unsubscribing, on the tree and on its table.\<close>

datatype 'c subop = Subscribed "bytes list" sub 'c | Unsubscribed "bytes list" 'c

fun op_filter :: "'c subop \<Rightarrow> bytes list" where
  "op_filter (Subscribed fs s c) = fs"
| "op_filter (Unsubscribed fs c) = fs"

fun tree_apply :: "'c subop \<Rightarrow> 'c snode \<Rightarrow> 'c snode" where
  "tree_apply (Subscribed fs s c) n = fst (sinsert (s\<lparr>Topic := join_levels fs\<rparr>) c n)"
| "tree_apply (Unsubscribed fs c) n = fst (sremove (join_levels fs) (Some c) n)"

fun table_apply :: "'c subop \<Rightarrow> (bytes list \<Rightarrow> 'c \<rightharpoonup> sub) \<Rightarrow> bytes list \<Rightarrow> 'c \<rightharpoonup> sub" where
  "table_apply (Subscribed fs s c) f = f(fs := (f fs)(c \<mapsto> s\<lparr>Topic := []\<rparr>))"
| "table_apply (Unsubscribed fs c) f = f(fs := (f fs)(c := None))"

lemma tree_apply_ok:
  assumes wf: "sn_wf n" and f: "filter_ok (op_filter x)"
  shows "sn_wf (tree_apply x n) \<and> tab (tree_apply x n) = table_apply x (tab n)"
proof (cases x)
  case (Subscribed fs s c)
  then show ?thesis
    using sinsert_ok [OF wf, of "s\<lparr>Topic := join_levels fs\<rparr>" c] path_filter f by simp
next
  case (Unsubscribed fs c)
  then have p: "path (join_levels fs) = Some fs"
    using path_filter f by simp
  have "tab (fst (sremove (join_levels fs) (Some c) n)) = (tab n)(fs := (tab n fs)(c := None))"
  proof (cases "snd (sremove (join_levels fs) (Some c) n)")
    case None
    then show ?thesis
      using sremove_tab [OF wf None] p by (auto simp: tab_remove_def)
  next
    case (Some e)
    then show ?thesis
      using sremove_err [OF wf, of "join_levels fs" c] p by (auto simp: fun_upd_idem)
  qed
  then show ?thesis
    using sremove_wf [OF wf] Unsubscribed by simp
qed

lemma tree_fold_ok:
  "sn_wf n \<Longrightarrow> \<forall>x \<in> set xs. filter_ok (op_filter x) \<Longrightarrow>
   sn_wf (fold tree_apply xs n) \<and> tab (fold tree_apply xs n) = fold table_apply xs (tab n)"
  by (induction xs arbitrary: n) (auto simp: tree_apply_ok)

lemma table_fold_filters:
  "\<forall>x \<in> set xs. filter_ok (op_filter x) \<Longrightarrow> (\<And>fs c. f fs c \<noteq> None \<Longrightarrow> filter_ok fs) \<Longrightarrow>
   fold table_apply xs f fs c \<noteq> None \<Longrightarrow> filter_ok fs"
proof (induction xs arbitrary: f)
  case (Cons x xs)
  have "filter_ok gs" if "table_apply x f gs d \<noteq> None" for gs d
    using that Cons.prems(1,2) by (cases x) (auto split: if_splits)
  then show ?case
    using Cons.IH [of "table_apply x f"] Cons.prems by simp
qed simp

end
