(* ===== verification/Session.thy ===== *)
theory Session
  imports Message AckQueue SessionStore TopicTree
begin

text \<open>
  Client sessions, broker/impl/session/mem_session.go and option.go, and the session manager,
  mem_provider.go. The maps of topics and aliases are an association list (the iteration order
  of a Go map is not specified; here it is the order of the list) and HOL maps. The callback of
  an acknowledgement queue entry is nil or the function that logs. The locks are released at the
  end of each method and leave no trace. None is a panic.

  The manager hands out pointers to sessions; a session is an entry of a heap and a pointer its
  index. The session store holds pointers.
\<close>

section \<open>Sessions\<close>

datatype status = NULL | ONLINE | OFFLINE

datatype onComplete = NoCallback | LogSent

type_synonym queue = "onComplete ackqueue"

record session =
  se_sid :: bytes
  queueSize :: nat
  pub1ack :: queue
  pub2in :: queue
  pub2out :: queue
  se_suback :: queue
  se_unsuback :: queue
  pingack :: queue
  cMsg :: connect
  se_status :: status
  offlineTime :: int
  offlineMsg :: "message list"
  will :: "publish option"
  cbuf :: bytes
  rbuf :: bytes
  se_topics :: "(bytes \<times> sub) list"
  topicAlice :: "uint16 \<rightharpoonup> bytes"
  topicAliceRe :: "bytes \<rightharpoonup> uint16"
  initted :: bool
  se_stop :: int

definition defaultQueueSize :: int64 where "defaultQueueSize = drop_bit 2 1024"

text \<open>The will as a message\<close>

definition new_will :: "connect \<Rightarrow> goerr + publish option" where
  "new_will m =
     (if WillFlag m then
        (case SetQoS (WillQos m) NewPublishMessage of
           (_, Some e) \<Rightarrow> Inl e
         | (w, None) \<Rightarrow>
             (case SetTopic (willTopic m) w of
                (_, Some e) \<Rightarrow> Inl e
              | (w, None) \<Rightarrow>
                  Inr (Some (Publish.SetMessageExpiryInterval (willMsgExpiryInterval m)
                    (SetRetain (WillRetain m) (SetPayload (willMessage m) w))))))
      else Inr None)"

type_synonym queues = "queue \<times> queue \<times> queue \<times> queue \<times> queue \<times> queue"

definition new_queues :: "queues option" where
  "new_queues =
     (case (newAckqueue (push_bit 1 defaultQueueSize), newAckqueue (drop_bit 2 defaultQueueSize),
         newAckqueue (drop_bit 3 defaultQueueSize)) of
        (Some q, Some r, Some p) \<Rightarrow> Some (q, q, q, r, r, p)
      | _ \<Rightarrow> None)"

text \<open>
  \<open>NewMemSession\<close> encodes the CONNECT message into a fresh buffer and decodes it from there
  again, both on the message it was given, which the caller keeps; it comes back with the result.
\<close>

definition recode :: "connect \<Rightarrow> (goerr option \<times> bytes \<times> connect) option" where
  "recode m =
     (case connect_Len m of
        None \<Rightarrow> None
      | Some (l, m) \<Rightarrow>
          (case connect_Encode (into (replicate l 0) 0 m) of
             Panic \<Rightarrow> None
           | Fail _ e s \<Rightarrow> Some (Some e, e_dst s, e_msg s)
           | Go s \<Rightarrow>
               (case connect_Decode (exact (e_dst s)) (e_msg s) of
                  Panic \<Rightarrow> None
                | Fail _ e t \<Rightarrow> Some (Some e, e_dst s, d_msg t)
                | Go t \<Rightarrow> Some (None, e_dst s, d_msg t))))"

type_synonym option_fn = "session \<Rightarrow> session"

definition NewMemSession :: "connect \<Rightarrow> option_fn list \<Rightarrow> ((goerr + session) \<times> connect) option" where
  "NewMemSession m op =
     (case recode m of
        None \<Rightarrow> None
      | Some (Some e, _, m) \<Rightarrow> Some (Inl e, m)
      | Some (None, buf, m) \<Rightarrow>
          (case new_will m of
             Inl e \<Rightarrow> Some (Inl e, m)
           | Inr w \<Rightarrow>
               (case new_queues of
                  None \<Rightarrow> None
                | Some (q1, q2, q3, q4, q5, q6) \<Rightarrow>
                    Some (Inr (fold (\<lambda>f s. f s) op
                      \<lparr>se_sid = clientId m, queueSize = unat defaultQueueSize, pub1ack = q1, pub2in = q2,
                       pub2out = q3, se_suback = q4, se_unsuback = q5, pingack = q6, cMsg = m,
                       se_status = ONLINE, offlineTime = 0, offlineMsg = [], will = w, cbuf = buf,
                       rbuf = [], se_topics = [], topicAlice = Map.empty, topicAliceRe = Map.empty,
                       initted = True, se_stop = 0\<rparr>), m))))"

text \<open>\<open>Update\<close> decodes the new CONNECT into a fresh message.\<close>

definition Update :: "connect \<Rightarrow> session \<Rightarrow> (session \<times> goerr option \<times> connect) option" where
  "Update m s =
     (case connect_Len m of
        None \<Rightarrow> None
      | Some (l, m) \<Rightarrow>
          let s = s\<lparr>cMsg := NewConnectMessage\<rparr> in
          (case connect_Encode (into (replicate l 0) 0 m) of
             Panic \<Rightarrow> None
           | Fail _ e x \<Rightarrow> Some (s\<lparr>cbuf := e_dst x\<rparr>, Some e, e_msg x)
           | Go x \<Rightarrow>
               (case connect_Decode (exact (e_dst x)) NewConnectMessage of
                  Panic \<Rightarrow> None
                | Fail _ e t \<Rightarrow> Some (s\<lparr>cbuf := e_dst x, cMsg := d_msg t\<rparr>, Some e, e_msg x)
                | Go t \<Rightarrow> Some (s\<lparr>cbuf := e_dst x, cMsg := d_msg t, se_stop := 1\<rparr>, None, e_msg x))))"

definition AddTopicAlice :: "bytes \<Rightarrow> uint16 \<Rightarrow> session \<Rightarrow> session" where
  "AddTopicAlice t a s = s\<lparr>topicAlice := (topicAlice s)(a \<mapsto> t), topicAliceRe := (topicAliceRe s)(t \<mapsto> a)\<rparr>"

definition GetTopicAlice :: "bytes \<Rightarrow> session \<Rightarrow> uint16 option" where
  "GetTopicAlice t s = topicAliceRe s t"

definition GetAliceTopic :: "uint16 \<Rightarrow> session \<Rightarrow> bytes option" where
  "GetAliceTopic a s = topicAlice s a"

definition AddTopic :: "sub \<Rightarrow> session \<Rightarrow> session \<times> string option" where
  "AddTopic x s =
     (if \<not> initted s then (s, Some ''session not yet initialized'')
      else (s\<lparr>se_topics := AList.update (Topic x) x (se_topics s)\<rparr>, None))"

definition RemoveTopic :: "bytes \<Rightarrow> session \<Rightarrow> session \<times> string option" where
  "RemoveTopic t s =
     (if \<not> initted s then (s, Some ''session not yet initialized'')
      else (s\<lparr>se_topics := AList.delete t (se_topics s)\<rparr>, None))"

definition no_sub :: sub where
  "no_sub = \<lparr>Topic = [], Qos = 0, NoLocal = False, RetainAsPublished = False, RetainHandling = 0,
     SubIdentifier = 0\<rparr>"

definition SubOption :: "bytes \<Rightarrow> session \<Rightarrow> sub" where
  "SubOption t s = (case map_of (se_topics s) t of None \<Rightarrow> no_sub | Some x \<Rightarrow> x)"

definition session_topic :: "session \<Rightarrow> string + sub list" where
  "session_topic s =
     (if \<not> initted s then Inl ''session not yet initialized'' else Inr (map snd (se_topics s)))"

definition session_Topics :: "session \<Rightarrow> string + sub list" where
  "session_Topics s = session_topic s"

definition OfflineMsg :: "session \<Rightarrow> message list" where "OfflineMsg s = offlineMsg s"
definition session_ID :: "session \<Rightarrow> bytes" where "session_ID s = connect.clientId (cMsg s)"
definition CMsg :: "session \<Rightarrow> connect" where "CMsg s = cMsg s"
definition session_ClientId :: "session \<Rightarrow> bytes" where "session_ClientId s = connect.clientId (cMsg s)"

definition session_Will :: "session \<Rightarrow> session \<times> publish option" where
  "session_Will s = (if se_stop s = 1 then s\<lparr>se_stop := 2\<rparr> else s\<lparr>se_stop := 1\<rparr>, will s)"

definition SessExpiryInterval :: "session \<Rightarrow> uint32" where "SessExpiryInterval s = connect.sessionExpiryInterval (cMsg s)"
definition session_Status :: "session \<Rightarrow> status" where "session_Status s = se_status s"
definition ReceiveMaximum :: "session \<Rightarrow> uint16" where "ReceiveMaximum s = connect.receiveMaximum (cMsg s)"
definition MaxPacketSize :: "session \<Rightarrow> uint32" where "MaxPacketSize s = connect.maxPacketSize (cMsg s)"
definition TopicAliasMax :: "session \<Rightarrow> uint16" where "TopicAliasMax s = connect.topicAliasMax (cMsg s)"
definition RequestRespInfo :: "session \<Rightarrow> byte" where "RequestRespInfo s = connect.requestRespInfo (cMsg s)"
definition RequestProblemInfo :: "session \<Rightarrow> byte" where "RequestProblemInfo s = connect.requestProblemInfo (cMsg s)"
definition session_UserProperty :: "session \<Rightarrow> bytes list" where
  "session_UserProperty s = connect.userProperty (cMsg s)"
definition OfflineTime :: "session \<Rightarrow> int" where "OfflineTime s = offlineTime s"

definition session_SetClientId :: "bytes \<Rightarrow> session \<Rightarrow> session" where
  "session_SetClientId cid s = s\<lparr>cMsg := fst (Connect.SetClientId cid (cMsg s))\<rparr>"
definition SetSessExpiryInterval :: "uint32 \<Rightarrow> session \<Rightarrow> session" where
  "SetSessExpiryInterval u s = s\<lparr>cMsg := Connect.SetSessionExpiryInterval u (cMsg s)\<rparr>"
definition SetStatus :: "status \<Rightarrow> session \<Rightarrow> session" where "SetStatus x s = s\<lparr>se_status := x\<rparr>"
definition session_SetReceiveMaximum :: "uint16 \<Rightarrow> session \<Rightarrow> session" where
  "session_SetReceiveMaximum u s = s\<lparr>cMsg := Connect.SetReceiveMaximum u (cMsg s)\<rparr>"
definition session_SetMaxPacketSize :: "uint32 \<Rightarrow> session \<Rightarrow> session" where
  "session_SetMaxPacketSize u s = s\<lparr>cMsg := Connect.SetMaxPacketSize u (cMsg s)\<rparr>"
definition session_SetTopicAliasMax :: "uint16 \<Rightarrow> session \<Rightarrow> session" where
  "session_SetTopicAliasMax u s = s\<lparr>cMsg := Connect.SetTopicAliasMax u (cMsg s)\<rparr>"
definition session_SetRequestRespInfo :: "byte \<Rightarrow> session \<Rightarrow> session" where
  "session_SetRequestRespInfo b s = s\<lparr>cMsg := Connect.SetRequestRespInfo b (cMsg s)\<rparr>"
definition session_SetRequestProblemInfo :: "byte \<Rightarrow> session \<Rightarrow> session" where
  "session_SetRequestProblemInfo b s = s\<lparr>cMsg := Connect.SetRequestProblemInfo b (cMsg s)\<rparr>"
definition SetUserProperty :: "bytes list \<Rightarrow> session \<Rightarrow> session" where
  "SetUserProperty up s = s\<lparr>cMsg := Connect.AddUserPropertys up (cMsg s)\<rparr>"
definition SetOfflineTime :: "int \<Rightarrow> session \<Rightarrow> session" where "SetOfflineTime t s = s\<lparr>offlineTime := t\<rparr>"
definition SetWill :: "publish option \<Rightarrow> session \<Rightarrow> session" where "SetWill w s = s\<lparr>will := w\<rparr>"

text \<open>The subscription a SUBSCRIBE message asks for under a filter; the lookups panic on shorter lists.\<close>

definition asked :: "subscribe \<Rightarrow> bytes \<Rightarrow> byte \<Rightarrow> sub option" where
  "asked m t q =
     (case (TopicNoLocal t m, TopicRetainAsPublished t m, TopicRetainHandling t m) of
        (Some nl, Some rap, Some rh) \<Rightarrow>
          Some \<lparr>Topic = t, Qos = q, NoLocal = nl, RetainAsPublished = rap, RetainHandling = rh,
            SubIdentifier = subscribe.subscriptionIdentifier m\<rparr>
      | _ \<Rightarrow> None)"

fun set_subs :: "subscribe \<Rightarrow> bytes list \<Rightarrow> byte list \<Rightarrow> session \<Rightarrow> session option" where
  "set_subs m [] qs s = Some s"
| "set_subs m (t # ts) [] s = None"
| "set_subs m (t # ts) (q # qs) s =
     (case asked m t q of None \<Rightarrow> None | Some x \<Rightarrow> set_subs m ts qs (fst (AddTopic x s)))"

definition SetSub :: "subscribe \<Rightarrow> session \<Rightarrow> session option" where
  "SetSub m s = set_subs m (subscribe.topics m) (subscribe.qos m) s"

definition WithOfflineMsg :: "message list \<Rightarrow> option_fn" where
  "WithOfflineMsg ms s = s\<lparr>offlineMsg := offlineMsg s @ ms\<rparr>"

definition WithOldTopic :: "sub list \<Rightarrow> option_fn" where
  "WithOldTopic xs s = s\<lparr>se_topics := fold (\<lambda>x. AList.update (Topic x) x) xs (se_topics s)\<rparr>"

section \<open>The manager\<close>

record manager =
  m_store :: "(nat, subscribe, message) sessstore"
  m_local :: "(bytes, nat) safemap"
  m_heap :: "nat \<rightharpoonup> session"
  m_next :: nat

definition NewMemManager :: "(nat, subscribe, message) sessstore \<Rightarrow> manager" where
  "NewMemManager st = \<lparr>m_store = st, m_local = NewSafeMap, m_heap = Map.empty, m_next = 0\<rparr>"

definition SetStore :: "(nat, subscribe, message) sessstore \<Rightarrow> manager \<Rightarrow> manager" where
  "SetStore st p = p\<lparr>m_store := st\<rparr>"

text \<open>A new session, the session behind a pointer, and a change of it\<close>

definition alloc :: "session \<Rightarrow> manager \<Rightarrow> nat \<times> manager" where
  "alloc s p = (m_next p, p\<lparr>m_heap := (m_heap p)(m_next p \<mapsto> s), m_next := m_next p + 1\<rparr>)"

definition BuildSess :: "connect \<Rightarrow> manager \<Rightarrow> (manager \<times> (goerr + nat) \<times> connect) option" where
  "BuildSess m p =
     (case NewMemSession m [] of
        None \<Rightarrow> None
      | Some (Inl e, m) \<Rightarrow> Some (p, Inl e, m)
      | Some (Inr s, m) \<Rightarrow> (case alloc s p of (r, p) \<Rightarrow> Some (p, Inr r, m)))"

text \<open>
  \<open>GetOrCreate\<close>: a local session is taken out of the map and nil returned; a stored one is
  found; else a message makes a new one. The last component is the message, which
  \<open>NewMemSession\<close> decodes again in place.
\<close>

definition GetOrCreate :: "bytes \<Rightarrow> connect option \<Rightarrow> manager \<Rightarrow>
    (manager \<times> (goerr + nat option \<times> bool) \<times> connect option) option" where
  "GetOrCreate cid cm p =
     (case GetDel cid (m_local p) of
        (l, Some _) \<Rightarrow> Some (p\<lparr>m_local := l\<rparr>, Inr (None, False), cm)
      | (l, None) \<Rightarrow>
          let p = p\<lparr>m_local := l\<rparr> in
          (case GetSession cid (m_store p) of
             Some r \<Rightarrow> Some (p, Inr (Some r, True), cm)
           | None \<Rightarrow>
               (case cm of
                  None \<Rightarrow> Some (p, Inr (None, False), cm)
                | Some m \<Rightarrow>
                    (case BuildSess m p of
                       None \<Rightarrow> None
                     | Some (p, Inl e, m') \<Rightarrow> Some (p, Inl e, Some m')
                     | Some (p, Inr r, m') \<Rightarrow>
                         if CleanSession m' then
                           Some (p\<lparr>m_store := ClearSession cid True (m_store p),
                               m_local := Set cid r (m_local p)\<rparr>, Inr (Some r, False), Some m')
                         else
                           Some (p\<lparr>m_store := StoreSession (connect.clientId m) r (m_store p)\<rparr>,
                             Inr (Some r, False), Some m')))))"

definition Exist :: "bytes \<Rightarrow> manager \<Rightarrow> (manager \<times> bool) option" where
  "Exist cid p =
     map_option (\<lambda>(p, x, _). (p, case x of Inr (_, b) \<Rightarrow> b | Inl _ \<Rightarrow> False)) (GetOrCreate cid None p)"

text \<open>\<open>Save\<close> and \<open>Remove\<close> of the session at a pointer; None is a nil pointer.\<close>

definition Save :: "nat \<Rightarrow> manager \<Rightarrow> manager option" where
  "Save r p =
     (case m_heap p r of
        None \<Rightarrow> None
      | Some s \<Rightarrow>
          Some (if CleanSession (CMsg s) then p\<lparr>m_local := Set (session_ClientId s) r (m_local p)\<rparr>
                else p\<lparr>m_store := StoreSession (session_ClientId s) r (m_store p)\<rparr>))"

definition Remove :: "nat \<Rightarrow> manager \<Rightarrow> manager option" where
  "Remove r p =
     (case m_heap p r of
        None \<Rightarrow> None
      | Some s \<Rightarrow>
          Some (if CleanSession (CMsg s) then p\<lparr>m_local := Del (session_ClientId s) (m_local p)\<rparr>
                else p\<lparr>m_store := ClearSession (session_ClientId s) True (m_store p)\<rparr>))"

end
