(* ===== verification/LevelTree.thy ===== *)
theory LevelTree
  imports TopicTree
begin

text \<open>
  The tree over topic levels that the packages for system topics and for shared
  subscriptions both define: \<open>sinsert\<close>, \<open>sremove\<close> and \<open>smatch\<close> walk along the levels in the
  same way and differ in what a node holds and in what happens at the node they reach. The
  walks are defined here once, over the item of a node; each package is an instance.
  The two matching walks differ too: the one for shared subscriptions lets \<open>#\<close> match its
  parent level (as the main tree does), the one for system topics does not.
\<close>

datatype 'e lnode = LNode (litem: 'e) (lkids: "(bytes \<times> 'e lnode) list")

definition lchild :: "'e \<Rightarrow> bytes \<Rightarrow> 'e lnode \<Rightarrow> 'e lnode" where
  "lchild e0 l n = (case map_of (lkids n) l of Some n' \<Rightarrow> n' | None \<Rightarrow> LNode e0 [])"

function linsert :: "'e \<Rightarrow> ('e \<Rightarrow> 'e) \<Rightarrow> bytes \<Rightarrow> 'e lnode \<Rightarrow> 'e lnode \<times> string option" where
  "linsert e0 f t n =
     (if t = [] then (LNode (f (litem n)) (lkids n), None)
      else case nextTopicLevel t of
        Inl e \<Rightarrow> (n, Some e)
      | Inr (level, rem) \<Rightarrow>
          (case linsert e0 f (rest rem) (lchild e0 level n) of
             (n', e) \<Rightarrow> (LNode (litem n) (AList.update level n' (lkids n)), e)))"
  by pat_completeness auto

termination
  by (relation "measure (\<lambda>(e0, f, t, n). length t)") (auto intro: rest_shorter)

declare linsert.simps [simp del]

text \<open>\<open>void\<close> tells whether a node without children is deleted.\<close>

function lremove :: "('e \<Rightarrow> 'e \<times> string option) \<Rightarrow> ('e \<Rightarrow> bool) \<Rightarrow> bytes \<Rightarrow> 'e lnode \<Rightarrow> 'e lnode \<times> string option" where
  "lremove f void t n =
     (if t = [] then (case f (litem n) of (x, e) \<Rightarrow> (LNode x (lkids n), e))
      else case nextTopicLevel t of
        Inl e \<Rightarrow> (n, Some e)
      | Inr (level, rem) \<Rightarrow>
          (case map_of (lkids n) level of
             None \<Rightarrow> (n, Some ''memtopics/remove: No topic found'')
           | Some n0 \<Rightarrow>
               (case lremove f void (rest rem) n0 of
                  (n1, Some e) \<Rightarrow> (LNode (litem n) (AList.update level n1 (lkids n)), Some e)
                | (n1, None) \<Rightarrow>
                    if void (litem n1) \<and> length (lkids n1) = 0
                    then (LNode (litem n) (AList.delete level (lkids n)), None)
                    else (LNode (litem n) (AList.update level n1 (lkids n)), None))))"
  by pat_completeness auto

termination
  by (relation "measure (\<lambda>(f, v, t, n). length t)") (auto intro: rest_shorter)

declare lremove.simps [simp del]

text \<open>The items of the nodes on which \<open>matchQos\<close> is called, in this order, and the error.\<close>

definition lkey :: "bytes \<Rightarrow> 'e lnode \<Rightarrow> 'e list" where
  "lkey k n = (case map_of (lkids n) k of None \<Rightarrow> [] | Some v \<Rightarrow> [litem v])"

function (sequential) lvisit :: "bool \<Rightarrow> bytes \<Rightarrow> 'e lnode \<Rightarrow> 'e list \<times> string option"
  and lvisit_kids :: "bool \<Rightarrow> bytes \<Rightarrow> bytes option \<Rightarrow> (bytes \<times> 'e lnode) list \<Rightarrow> 'e list \<times> string option" where
  "lvisit parent topic (LNode x ks) =
     (if topic = [] then
        (if parent then x # lkey [c_mwc] (LNode x ks) @ lkey [c_swc] (LNode x ks) else [x], None)
      else case nextTopicLevel topic of
        Inl e \<Rightarrow> ([], Some e)
      | Inr (level, rem) \<Rightarrow> lvisit_kids parent level rem ks)"
| "lvisit_kids parent level rem [] = ([], None)"
| "lvisit_kids parent level rem ((k, n) # ks) =
     (case (if k = [c_mwc] then ([litem n], None)
            else if k = [c_swc] \<or> k = level then
              (if parent \<and> rem = None then (litem n # lkey [c_mwc] n, None) else lvisit parent (rest rem) n)
            else ([], None)) of
        (out, Some e) \<Rightarrow> (out, Some e)
      | (out, None) \<Rightarrow> (case lvisit_kids parent level rem ks of (out', e) \<Rightarrow> (out @ out', e)))"
  by pat_completeness auto

termination
  by (relation "measure (\<lambda>x. case x of Inl (p, t, n) \<Rightarrow> size n
      | Inr (p, l, r, ks) \<Rightarrow> size_list (size_prod (\<lambda>x. 0) size) ks)") auto

section \<open>The items by path\<close>

fun ltab :: "'e \<Rightarrow> 'e lnode \<Rightarrow> bytes list \<Rightarrow> 'e" where
  "ltab e0 n [] = litem n"
| "ltab e0 n (p # ps) = (case map_of (lkids n) p of None \<Rightarrow> e0 | Some n' \<Rightarrow> ltab e0 n' ps)"

inductive lt_wf :: "('e \<Rightarrow> bool) \<Rightarrow> 'e lnode \<Rightarrow> bool" for I where
  lt_wfI: "I (litem n) \<Longrightarrow> distinct (map fst (lkids n)) \<Longrightarrow>
     (\<And>k n'. (k, n') \<in> set (lkids n) \<Longrightarrow> lt_wf I n') \<Longrightarrow> lt_wf I n"

inductive_cases lt_wfE: "lt_wf I n"

lemma lt_wfD:
  assumes "lt_wf I n"
  shows "I (litem n)" and "distinct (map fst (lkids n))" and "(k, n') \<in> set (lkids n) \<Longrightarrow> lt_wf I n'"
  using assms by (auto elim: lt_wfE)

lemma lt_wf_empty: "I e0 \<Longrightarrow> lt_wf I (LNode e0 [])"
  by (rule lt_wfI) simp_all

lemma lchild_wf: "lt_wf I n \<Longrightarrow> I e0 \<Longrightarrow> lt_wf I (lchild e0 l n)"
  by (auto simp: lchild_def lt_wf_empty dest: map_of_SomeD lt_wfD(3) split: option.split)

lemma ltab_empty: "ltab e0 (LNode e0 []) ps = e0"
  by (cases ps) simp_all

lemma ltab_child: "ltab e0 n (l # ps) = ltab e0 (lchild e0 l n) ps"
  by (simp add: lchild_def ltab_empty split: option.split)

lemma ltab_update:
  "ltab e0 (LNode x (AList.update l n' (lkids n))) ps =
     (case ps of [] \<Rightarrow> x | p # qs \<Rightarrow> if p = l then ltab e0 n' qs else ltab e0 n (p # qs))"
  by (cases ps) (simp_all add: update_conv')

lemma ltab_delete:
  "ltab e0 (LNode x (AList.delete l (lkids n))) ps =
     (case ps of [] \<Rightarrow> x | p # qs \<Rightarrow> if p = l then e0 else ltab e0 n (p # qs))"
  by (cases ps) (simp_all add: delete_conv')

lemma lnode_update_wf:
  assumes "lt_wf I n" and "lt_wf I n'"
  shows "lt_wf I (LNode (litem n) (AList.update l n' (lkids n)))"
  by (rule lt_wfI) (use assms lt_wfD [OF assms(1)] in \<open>auto simp: distinct_update dest!: set_update\<close>)

lemma lnode_delete_wf:
  assumes "lt_wf I n"
  shows "lt_wf I (LNode (litem n) (AList.delete l (lkids n)))"
  by (rule lt_wfI) (use lt_wfD [OF assms] in \<open>auto simp: distinct_delete dest!: set_delete\<close>)

lemma lnode_item_wf:
  assumes "lt_wf I n" and "I x"
  shows "lt_wf I (LNode x (lkids n))"
  by (rule lt_wfI) (use assms lt_wfD [OF assms(1)] in auto)

section \<open>Insertion and removal\<close>

lemma linsert_ok:
  assumes "I e0" and "\<And>x. I x \<Longrightarrow> I (f x)"
  shows "lt_wf I n \<Longrightarrow>
   lt_wf I (fst (linsert e0 f t n)) \<and>
   (case path t of
      Some ps \<Rightarrow> snd (linsert e0 f t n) = None
        \<and> ltab e0 (fst (linsert e0 f t n)) = (ltab e0 n)(ps := f (ltab e0 n ps))
    | None \<Rightarrow> snd (linsert e0 f t n) \<noteq> None \<and> ltab e0 (fst (linsert e0 f t n)) = ltab e0 n)"
proof (induction t arbitrary: n rule: path.induct)
  case (1 t)
  show ?case
  proof (cases "t = []")
    case True
    have "ltab e0 (LNode (f (litem n)) (lkids n)) ps = ((ltab e0 n)([] := f (ltab e0 n []))) ps" for ps
      by (cases ps) simp_all
    then show ?thesis
      using True lnode_item_wf [OF 1(2) assms(2) [OF lt_wfD(1) [OF 1(2)]]]
      by (simp add: linsert.simps fun_eq_iff)
  next
    case ne: False
    show ?thesis
    proof (cases "nextTopicLevel t")
      case (Inl e)
      then show ?thesis
        using ne 1(2) by (simp add: linsert.simps path_step)
    next
      case (Inr lr)
      obtain l rem where lr: "nextTopicLevel t = Inr (l, rem)"
        using Inr by (cases lr) auto
      obtain n' e where i: "linsert e0 f (rest rem) (lchild e0 l n) = (n', e)"
        by fastforce
      have eq: "linsert e0 f t n = (LNode (litem n) (AList.update l n' (lkids n)), e)"
        using ne lr i by (subst linsert.simps) simp
      note IH = 1(1) [OF ne lr refl, OF lchild_wf [OF 1(2) assms(1), of l]]
      have wf: "lt_wf I (LNode (litem n) (AList.update l n' (lkids n)))"
        using lnode_update_wf [OF 1(2)] IH i by simp
      have p: "path t = map_option ((#) l) (path (rest rem))"
        using ne lr by (simp add: path_step)
      have c: "ltab e0 n (l # qs) = ltab e0 (lchild e0 l n) qs" for qs
        by (rule ltab_child)
      show ?thesis
        using IH i eq wf p c
        by (cases "path (rest rem)") (auto simp: fun_eq_iff ltab_update simp del: ltab.simps(2) split: list.split)
    qed
  qed
qed

lemma lremove_ok:
  assumes "\<And>x y e. I x \<Longrightarrow> f x = (y, e) \<Longrightarrow> I y" and void: "\<And>x. I x \<Longrightarrow> void x \<Longrightarrow> g x = g e0"
    and err: "\<And>x y e. f x = (y, Some e) \<Longrightarrow> y = x"
  shows "lt_wf I n \<Longrightarrow>
   lt_wf I (fst (lremove f void t n)) \<and>
   (snd (lremove f void t n) = None \<longrightarrow> (\<exists>ps x. path t = Some ps \<and> f (ltab e0 n ps) = (x, None)
      \<and> g \<circ> ltab e0 (fst (lremove f void t n)) = (g \<circ> ltab e0 n)(ps := g x))) \<and>
   (snd (lremove f void t n) \<noteq> None \<longrightarrow> ltab e0 (fst (lremove f void t n)) = ltab e0 n
      \<and> (\<forall>ps. path t = Some ps \<longrightarrow> (\<exists>x e. f (ltab e0 n ps) = (x, Some e)) \<or> ltab e0 n ps = e0))"
proof (induction t arbitrary: n rule: path.induct)
  case (1 t)
  show ?case
  proof (cases "t = []")
    case True
    obtain x e where f: "f (litem n) = (x, e)"
      by fastforce
    have t: "ltab e0 (LNode x (lkids n)) ps = ((ltab e0 n)([] := x)) ps" for ps
      by (cases ps) simp_all
    have "e \<noteq> None \<Longrightarrow> x = litem n"
      using f err by (cases e) auto
    then show ?thesis
      using True f t lnode_item_wf [OF 1(2) assms(1) [OF lt_wfD(1) [OF 1(2)] f]]
      by (cases e) (auto simp: lremove.simps fun_eq_iff)
  next
    case ne: False
    show ?thesis
    proof (cases "nextTopicLevel t")
      case (Inl e)
      then show ?thesis
        using ne 1(2) by (simp add: lremove.simps path_step)
    next
      case (Inr lr)
      obtain l rem where lr: "nextTopicLevel t = Inr (l, rem)"
        using Inr by (cases lr) auto
      have p: "path t = map_option ((#) l) (path (rest rem))"
        using ne lr by (simp add: path_step)
      show ?thesis
      proof (cases "map_of (lkids n) l")
        case None
        then show ?thesis
          using ne lr 1(2) p by (auto simp: lremove.simps)
      next
        case (Some n0)
        obtain n1 e where r: "lremove f void (rest rem) n0 = (n1, e)"
          by fastforce
        note IH = 1(1) [OF ne lr refl, OF lt_wfD(3) [OF 1(2) map_of_SomeD [OF Some]], unfolded r fst_conv snd_conv]
        have up: "lt_wf I (LNode (litem n) (AList.update l n1 (lkids n)))"
          using lnode_update_wf [OF 1(2)] IH by simp
        have c: "ltab e0 n (l # qs) = ltab e0 n0 qs" for qs
          using Some by simp
        show ?thesis
        proof (cases e)
          case E: (Some x)
          have "lremove f void t n = (LNode (litem n) (AList.update l n1 (lkids n)), Some x)"
            using ne lr Some r E by (subst lremove.simps) simp
          then show ?thesis
            using IH E up p c by (auto simp: fun_eq_iff ltab_update simp del: ltab.simps(2) split: list.split)
        next
          case N: None
          obtain qs y where q: "path (rest rem) = Some qs" "f (ltab e0 n0 qs) = (y, None)"
              "g \<circ> ltab e0 n1 = (g \<circ> ltab e0 n0)(qs := g y)"
            using IH N by blast
          have q3: "g (ltab e0 n1 ps) = (if ps = qs then g y else g (ltab e0 n0 ps))" for ps
            using fun_cong [OF q(3), of ps] by simp
          have eq: "lremove f void t n = (if void (litem n1) \<and> length (lkids n1) = 0
              then (LNode (litem n) (AList.delete l (lkids n)), None)
              else (LNode (litem n) (AList.update l n1 (lkids n)), None))"
            using ne lr Some r N by (subst lremove.simps) simp
          show ?thesis
          proof (cases "void (litem n1) \<and> length (lkids n1) = 0")
            case True
            have "g (ltab e0 n1 ps) = g e0" for ps
              using True void [of "litem n1"] lt_wfD(1) IH by (cases ps) auto
            then have "g y = g e0" "\<And>ps. ps \<noteq> qs \<Longrightarrow> g (ltab e0 n0 ps) = g e0"
              using q3 by metis+
            then show ?thesis
              using eq True lnode_delete_wf [OF 1(2)] p q c
              by (auto simp: fun_eq_iff ltab_delete simp del: ltab.simps(2) split: list.split)
          next
            case False
            then show ?thesis
              using eq up p q q3 c by (auto simp: fun_eq_iff ltab_update simp del: ltab.simps(2) split: list.split)
          qed
        qed
      qed
    qed
  qed
qed

section \<open>Visiting\<close>

fun lmatch :: "bool \<Rightarrow> bytes \<Rightarrow> bytes list \<Rightarrow> bool" where
  "lmatch parent t [] = (t = [])"
| "lmatch parent t (p # ps) =
     (if t = [] then parent \<and> ps = [] \<and> (p = [c_mwc] \<or> p = [c_swc])
      else case nextTopicLevel t of
        Inl e \<Rightarrow> False
      | Inr (l, rem) \<Rightarrow>
          if p = [c_mwc] then ps = []
          else if p = [c_swc] \<or> p = l
          then (if parent \<and> rem = None then ps = [] \<or> ps = [[c_mwc]] else lmatch parent (rest rem) ps)
          else False)"

lemma lmatch_parent: "lmatch True t ps = tmatch t ps"
  by (induction t ps rule: tmatch.induct) (auto split: sum.split option.split)

definition lkmatch :: "bool \<Rightarrow> bytes \<Rightarrow> bytes option \<Rightarrow> bytes \<Rightarrow> bytes list \<Rightarrow> bool" where
  "lkmatch parent l rem p ps \<longleftrightarrow>
     (if p = [c_mwc] then ps = []
      else if p = [c_swc] \<or> p = l
      then (if parent \<and> rem = None then ps = [] \<or> ps = [[c_mwc]] else lmatch parent (rest rem) ps)
      else False)"

text \<open>What the nodes at the paths in \<open>P\<close> contribute, and the visited nodes contribute.\<close>

definition lhits :: "'e \<Rightarrow> ('e \<Rightarrow> 'o set) \<Rightarrow> (bytes list \<Rightarrow> bool) \<Rightarrow> 'e lnode \<Rightarrow> 'o set" where
  "lhits e0 G P n = {z. \<exists>ps. P ps \<and> z \<in> G (ltab e0 n ps)}"

definition visited :: "('e \<Rightarrow> 'o set) \<Rightarrow> 'e list \<times> string option \<Rightarrow> 'o set" where
  "visited G r = \<Union> (G ` set (fst r))"

lemma lhits_cong: "(\<And>ps. P ps = Q ps) \<Longrightarrow> lhits e0 G P n = lhits e0 G Q n"
  by (simp add: lhits_def)

lemma lhits_or: "lhits e0 G (\<lambda>ps. P ps \<or> Q ps) n = lhits e0 G P n \<union> lhits e0 G Q n"
  by (auto simp: lhits_def)

lemma lhits_item: "lhits e0 G (\<lambda>ps. ps = []) n = G (litem n)"
  by (simp add: lhits_def)

lemma lhits_key:
  assumes "G e0 = {}"
  shows "lhits e0 G (\<lambda>ps. ps = [k]) n = \<Union> (G ` set (lkey k n))"
  using assms by (auto simp: lhits_def lkey_def split: option.split)

lemma lhits_children:
  assumes "distinct (map fst ks)" and "G e0 = {}"
  shows "lhits e0 G (\<lambda>ps. ps \<noteq> [] \<and> P (hd ps) (tl ps)) (LNode x ks) = (\<Union>(k, n) \<in> set ks. lhits e0 G (P k) n)"
proof (intro set_eqI iffI)
  fix z assume "z \<in> lhits e0 G (\<lambda>ps. ps \<noteq> [] \<and> P (hd ps) (tl ps)) (LNode x ks)"
  then obtain p ps where z: "P p ps" "z \<in> G (ltab e0 (LNode x ks) (p # ps))"
    unfolding lhits_def by (clarsimp simp: neq_Nil_conv)
  then obtain n where "map_of ks p = Some n" "z \<in> G (ltab e0 n ps)"
    using assms(2) by (auto split: option.splits)
  then show "z \<in> (\<Union>(k, n) \<in> set ks. lhits e0 G (P k) n)"
    using z(1) map_of_SomeD by (fastforce simp: lhits_def)
next
  fix z assume "z \<in> (\<Union>(k, n) \<in> set ks. lhits e0 G (P k) n)"
  then obtain k n ps where z: "(k, n) \<in> set ks" "P k ps" "z \<in> G (ltab e0 n ps)"
    by (auto simp: lhits_def)
  then have "z \<in> G (ltab e0 (LNode x ks) (k # ps))"
    using assms(1) by simp
  then show "z \<in> lhits e0 G (\<lambda>ps. ps \<noteq> [] \<and> P (hd ps) (tl ps)) (LNode x ks)"
    using z(2) unfolding lhits_def by (auto intro!: exI [of _ "k # ps"])
qed

lemma lvisit_kids_ok:
  assumes "\<And>k n. (k, n) \<in> set ks \<Longrightarrow> snd (lvisit b (rest rem) n) = None
      \<and> visited G (lvisit b (rest rem) n) = lhits e0 G (lmatch b (rest rem)) n"
    and G: "G e0 = {}"
  shows "snd (lvisit_kids b level rem ks) = None \<and>
    visited G (lvisit_kids b level rem ks) = (\<Union>(k, n) \<in> set ks. lhits e0 G (lkmatch b level rem k) n)"
  using assms(1)
proof (induction ks)
  case (Cons kn ks)
  obtain k n where kn: "kn = (k, n)" by fastforce
  let ?r = "if k = [c_mwc] then ([litem n], None)
            else if k = [c_swc] \<or> k = level then
              (if b \<and> rem = None then (litem n # lkey [c_mwc] n, None) else lvisit b (rest rem) n)
            else ([], None)"
  have h: "lhits e0 G (lkmatch b level rem k) n =
      (if k = [c_mwc] then lhits e0 G (\<lambda>ps. ps = []) n
       else if k = [c_swc] \<or> k = level then
         (if b \<and> rem = None then lhits e0 G (\<lambda>ps. ps = [] \<or> ps = [[c_mwc]]) n else lhits e0 G (lmatch b (rest rem)) n)
       else {})"
    by (auto simp: lkmatch_def lhits_def)
  have "snd ?r = None \<and> visited G ?r = lhits e0 G (lkmatch b level rem k) n"
    unfolding h using Cons.prems [of k n] kn lhits_item [of e0 G n] lhits_key [of G e0 _ n, OF G]
    by (auto simp: lhits_or visited_def)
  moreover have "snd (lvisit_kids b level rem ks) = None \<and>
    visited G (lvisit_kids b level rem ks) = (\<Union>(k, n) \<in> set ks. lhits e0 G (lkmatch b level rem k) n)"
    by (rule Cons.IH) (use Cons.prems in auto)
  ultimately show ?case
    by (cases ?r; cases "lvisit_kids b level rem ks") (auto simp: kn visited_def)
qed (simp add: visited_def)

lemma lkid_size:
  "(k, m) \<in> set ks \<Longrightarrow> size m < Suc (size_list (size_prod (\<lambda>x. 0) size) ks)"
  using size_list_estimation' [of "(k, m)" ks "size m" "size_prod (\<lambda>x. 0) size"] by simp

lemma lvisit_ok:
  assumes G: "G e0 = {}"
  shows "lt_wf I n \<Longrightarrow> path t \<noteq> None \<Longrightarrow>
   snd (lvisit b t n) = None \<and> visited G (lvisit b t n) = lhits e0 G (lmatch b t) n"
proof (induction "size n" arbitrary: n t rule: less_induct)
  case less
  obtain x ks where n: "n = LNode x ks"
    by (cases n)
  have wk: "lt_wf I m" "size m < size n" if "(k, m) \<in> set ks" for k m
    using lt_wfD(3) [OF less.prems(1)] lkid_size [OF that] that n by auto
  show ?case
  proof (cases "t = []")
    case True
    have "lmatch b [] ps \<longleftrightarrow> ps = [] \<or> b \<and> (ps = [[c_mwc]] \<or> ps = [[c_swc]])" for ps
      by (cases ps) auto
    then have "lhits e0 G (lmatch b []) n = lhits e0 G (\<lambda>ps. ps = [] \<or> b \<and> (ps = [[c_mwc]] \<or> ps = [[c_swc]])) n"
      by (rule lhits_cong)
    then show ?thesis
      using lhits_item [of e0 G n] lhits_key [of G e0 _ n, OF G] True n
      by (cases b) (auto simp: lhits_or visited_def)
  next
    case ne: False
    then obtain l rem where lr: "nextTopicLevel t = Inr (l, rem)" and pr: "path (rest rem) \<noteq> None"
      using less.prems(2) by (auto simp: path_step split: sum.splits prod.splits)
    have "lmatch b t ps \<longleftrightarrow> ps \<noteq> [] \<and> lkmatch b l rem (hd ps) (tl ps)" for ps
      using ne lr by (cases ps) (auto simp: lkmatch_def)
    then have "lhits e0 G (lmatch b t) n = lhits e0 G (\<lambda>ps. ps \<noteq> [] \<and> lkmatch b l rem (hd ps) (tl ps)) n"
      by (rule lhits_cong)
    also have "\<dots> = (\<Union>(k, m) \<in> set ks. lhits e0 G (lkmatch b l rem k) m)"
      unfolding n by (rule lhits_children) (use G lt_wfD(2) [OF less.prems(1)] n in simp_all)
    finally have h: "lhits e0 G (lmatch b t) n = (\<Union>(k, m) \<in> set ks. lhits e0 G (lkmatch b l rem k) m)" .
    have "lvisit b t n = lvisit_kids b l rem ks"
      using ne lr n by simp
    moreover have "snd (lvisit_kids b l rem ks) = None \<and>
      visited G (lvisit_kids b l rem ks) = (\<Union>(k, m) \<in> set ks. lhits e0 G (lkmatch b l rem k) m)"
      by (rule lvisit_kids_ok) (use G wk less.hyps pr in auto)
    ultimately show ?thesis
      using h by simp
  qed
qed

end
