(* ===== verification/PublishRT.thy ===== *)
theory PublishRT
  imports Publish
begin

text \<open>
  The wire format of PUBLISH as a function of the message, and the proofs that
  \<open>EncodeToBuf\<close> produces it and that \<open>Decode\<close> reads it back.
\<close>

section \<open>The wire format\<close>

definition publish_props :: "publish \<Rightarrow> bytes" where
  "publish_props m =
     opt_bytes (payloadFormatIndicator m \<noteq> 0) LoadFormatDescription [payloadFormatIndicator m]
     @ opt_bytes (messageExpiryInterval m > 0) MessageExpirationTime (put32 (messageExpiryInterval m))
     @ opt_bytes (topicAlias m > 0) ThemeAlias (put16 (topicAlias m))
     @ opt_bytes (length (responseTopic m) > 0) ResponseTopic (lp (responseTopic m))
     @ opt_bytes (length (correlationData m) > 0) RelatedData (lp (correlationData m))
     @ up_bytes (userProperty m)
     @ opt_bytes (subid_written m) DefiningIdentifiers (varint (unat (subscriptionIdentifier m)))
     @ opt_bytes (length (contentType m) > 0) ContentType (lp (contentType m))"

definition publish_body :: "publish \<Rightarrow> bytes" where
  "publish_body m =
     lp (topic m) @ (if QoS m \<noteq> 0 then packetId m else [])
     @ varint (length (publish_props m)) @ publish_props m @ payload m"

definition publish_bytes :: "publish \<Rightarrow> bytes" where
  "publish_bytes m = mtf m # varint (length (publish_body m)) @ publish_body m"

text \<open>A message the encoders accept: strings and total length within the protocol's bounds.\<close>

definition publish_ok :: "publish \<Rightarrow> bool" where
  "publish_ok m \<longleftrightarrow>
     Type m = PUBLISH \<and> flags_ok (mtf m)
     \<and> (topicAlias m = 0 \<longrightarrow> ValidTopic (topic m))
     \<and> length (topic m) \<le> 65535
     \<and> length (responseTopic m) \<le> 65535 \<and> length (correlationData m) \<le> 65535
     \<and> length (contentType m) \<le> 65535 \<and> strs_ok (userProperty m)
     \<and> (QoS m \<noteq> 0 \<longrightarrow> length (packetId m) = 2 \<and> PacketId m \<noteq> 0)
     \<and> payload m \<noteq> []
     \<and> length (publish_body m) < 2 ^ 28"

text \<open>
  The decoder does not stop at the property length, so a payload that starts with the
  identifier of a property is read as that property. This is the condition under which
  it is not.
\<close>

definition payload_plain :: "publish \<Rightarrow> bool" where
  "payload_plain m \<longleftrightarrow> hd (payload m) \<notin>
     {LoadFormatDescription, MessageExpirationTime, ThemeAlias, ResponseTopic, RelatedData,
      UserProperty, DefiningIdentifiers, ContentType}"

section \<open>Lengths\<close>

lemma subid_28: "subid_written m \<Longrightarrow> unat (subscriptionIdentifier m) < 2 ^ 28"
  by (simp add: subid_written_def word_less_nat_alt)

lemma length_props_body: "length (publish_props m) \<le> length (publish_body m)"
  by (simp add: publish_body_def)

lemma publish_props_length:
  "length (publish_props m) =
     (if payloadFormatIndicator m \<noteq> 0 then 2 else 0)
     + (if messageExpiryInterval m > 0 then 5 else 0)
     + (if topicAlias m > 0 then 3 else 0)
     + str_len (responseTopic m) + str_len (correlationData m)
     + buildUserPropertyLen (userProperty m)
     + (if subid_written m then 1 + length (varint (unat (subscriptionIdentifier m))) else 0)
     + str_len (contentType m)"
  by (simp add: publish_props_def str_len_def)

lemma publish_body_length:
  "QoS m \<noteq> 0 \<longrightarrow> length (packetId m) = 2 \<Longrightarrow>
   length (publish_body m) = 2 + length (topic m) + (if QoS m \<noteq> 0 then 2 else 0)
     + length (varint (length (publish_props m))) + length (publish_props m) + length (payload m)"
  by (simp add: publish_body_def)

lemma publish_build_ok:
  assumes "publish_ok m"
  shows "publish_build m = Some (m\<lparr>propertiesLen := word_of_nat (length (publish_props m)),
     remlen := word_of_nat (length (publish_body m)), dirty := True\<rparr>)"
proof -
  let ?tag = "2 + length (topic m) + (if QoS m \<noteq> 0 then 2 else 0)"
  let ?n = "length (publish_props m)"
  let ?b = "length (publish_body m)"
  have b28: "?b < 2 ^ 28" and pid: "QoS m \<noteq> 0 \<longrightarrow> length (packetId m) = 2"
    using assms by (simp_all add: publish_ok_def)
  have n28: "?n < 2 ^ 28"
    using b28 length_props_body [of m] by linarith
  have un: "unat (word_of_nat ?n :: uint32) = ?n" "unat (word_of_nat ?b :: uint32) = ?b"
    using n28 b28 by (simp_all add: unat_of_nat)
  have enc: "lbEncode (word_of_nat ?n) = Some (varint ?n)"
    using n28 by (simp add: lbEncode_varint un)
  have max: "\<not> (word_of_nat ?b :: uint32) > maxRemainingLength"
    using b28 by (simp add: not_less unat_le_max un)
  have sid: "(if subid_written m then map_option (\<lambda>b1. 1 + length b1) (lbEncode (subscriptionIdentifier m))
      else Some 0)
    = Some (if subid_written m then 1 + length (varint (unat (subscriptionIdentifier m))) else 0)"
    using subid_28 [of m] by (simp add: lbEncode_varint)
  have tot: "?tag + (if payloadFormatIndicator m \<noteq> 0 then 2 else 0)
      + (if messageExpiryInterval m > 0 then 5 else 0) + (if topicAlias m > 0 then 3 else 0)
      + str_len (responseTopic m) + str_len (correlationData m)
      + buildUserPropertyLen (userProperty m)
      + (if subid_written m then 1 + length (varint (unat (subscriptionIdentifier m))) else 0)
      + str_len (contentType m) = ?tag + ?n"
    unfolding publish_props_length by (simp only: add.assoc)
  have body: "?tag + ?n + length (varint ?n) + length (payload m) = ?b"
    unfolding publish_body_length [OF pid] by (simp only: add_ac)
  show ?thesis
    unfolding publish_build_def Let_def sid option.case tot diff_add_inverse enc body
    using max by (simp add: SetRemainingLength_def del: of_nat_add)
qed

section \<open>Encoding\<close>

definition built :: "publish \<Rightarrow> publish" where
  "built m = m\<lparr>propertiesLen := word_of_nat (length (publish_props m)),
     remlen := word_of_nat (length (publish_body m)), dirty := True\<rparr>"

lemma built_props [simp]:
  "publish_props (built m) = publish_props m" "QoS (built m) = QoS m"
  by (simp_all add: built_def publish_props_def subid_written_def QoS_def Flags_def)

lemma built_body [simp]: "publish_body (built m) = publish_body m"
  by (simp add: publish_body_def, simp add: built_def)

lemma built_ok: "publish_ok m \<Longrightarrow> publish_ok (built m)"
  unfolding publish_ok_def by (simp, simp add: built_def Type_def PacketId_def)

lemma publish_buf_steps_ok:
  assumes ok: "publish_ok (b_msg s)" and b: "built (b_msg s) = b_msg s"
  shows "steps publish_buf_steps s = Go (s\<lparr>b_buf := b_buf s @ publish_bytes (b_msg s)\<rparr>)"
proof -
  let ?m = "b_msg s"
  let ?n = "length (publish_props ?m)" and ?b = "length (publish_body ?m)"
  have o: "length (topic ?m) \<le> 65535" "length (responseTopic ?m) \<le> 65535"
    "length (correlationData ?m) \<le> 65535" "length (contentType ?m) \<le> 65535"
    "strs_ok (userProperty ?m)" "QoS ?m \<noteq> 0 \<Longrightarrow> PacketId ?m \<noteq> 0" "Type ?m = PUBLISH" "?b < 2 ^ 28"
    using ok by (simp_all add: publish_ok_def)
  have n28: "?n < 2 ^ 28"
    using o(8) length_props_body [of ?m] by linarith
  have p: "propertiesLen ?m = word_of_nat ?n" and r: "remlen ?m = word_of_nat ?b"
    using arg_cong [OF b, of propertiesLen] arg_cong [OF b, of remlen] by (simp_all add: built_def)
  have un: "unat (propertiesLen ?m) = ?n" "unat (remlen ?m) = ?b"
    using n28 o(8) by (simp_all add: p r unat_of_nat)
  have rl: "remlen ?m \<le> maxRemainingLength"
    using o(8) by (simp add: unat_le_max un)
  have "list_all2 (appends ?m) publish_buf_steps
      [mtf ?m # varint (unat (remlen ?m)), lp (topic ?m), if QoS ?m \<noteq> 0 then packetId ?m else [],
       varint (unat (propertiesLen ?m)),
       opt_bytes (payloadFormatIndicator ?m \<noteq> 0) LoadFormatDescription [payloadFormatIndicator ?m],
       opt_bytes (messageExpiryInterval ?m > 0) MessageExpirationTime (put32 (messageExpiryInterval ?m)),
       opt_bytes (topicAlias ?m > 0) ThemeAlias (put16 (topicAlias ?m)),
       opt_bytes (length (responseTopic ?m) > 0) ResponseTopic (lp (responseTopic ?m)),
       opt_bytes (length (correlationData ?m) > 0) RelatedData (lp (correlationData ?m)),
       up_bytes (userProperty ?m),
       opt_bytes (subid_written ?m) DefiningIdentifiers (varint (unat (subscriptionIdentifier ?m))),
       opt_bytes (length (contentType ?m) > 0) ContentType (lp (contentType ?m)),
       payload ?m]"
    unfolding publish_buf_steps_def list_all2_Cons list_all2_Nil
    by (intro conjI TrueI appends_intros) (use o un rl n28 subid_28 [of ?m] in simp_all)
  from steps_appends [OF this refl] show ?thesis
    by (simp only: concat.simps append_Nil2 append_assoc append_Cons publish_bytes_def
        publish_body_def publish_props_def un)
qed

lemma publish_EncodeToBuf_bytes:
  assumes "publish_ok (b_msg s)" and "dirty (b_msg s)"
  shows "publish_EncodeToBuf s
    = Go (s\<lparr>b_buf := b_buf s @ publish_bytes (b_msg s), b_msg := built (b_msg s)\<rparr>)"
proof -
  let ?m = "b_msg s"
  have b: "publish_build ?m = Some (built ?m)"
    using publish_build_ok [OF assms(1)] by (simp add: built_def)
  have nz: "\<not> (length (topic ?m) = 0 \<and> topicAlias ?m = 0)" "length (payload ?m) \<noteq> 0"
    using assms(1) by (auto simp: publish_ok_def ValidTopic_def)
  have rl: "SetRemainingLength (remlen (built ?m)) (built ?m) = (built ?m, None)"
    using assms(1) by (simp add: SetRemainingLength_def built_def publish_ok_def not_less unat_le_max unat_of_nat)
  have bb: "built (built ?m) = built ?m"
    unfolding built_def [of "built ?m"] by (simp, simp add: built_def)
  have mt: "publish_bytes (built ?m) = publish_bytes ?m"
    by (simp add: publish_bytes_def, simp add: built_def)
  show ?thesis
    using assms(2) nz publish_buf_steps_ok [of "s\<lparr>b_msg := built ?m\<rparr>"] built_ok [OF assms(1)] bb mt
    unfolding publish_EncodeToBuf_def Let_def b option.case rl prod.case by simp
qed

text \<open>The slice version writes the same bytes.\<close>

lemma publish_enc_steps_ok:
  assumes ok: "publish_ok m" and b: "built m = m" and e: "e_msg e = m" "e_tot e = 0"
    and room: "length (publish_bytes m) \<le> length (e_dst e)"
  shows "steps publish_enc_steps e
    = Go (e\<lparr>e_dst := blit (e_dst e) 0 (publish_bytes m), e_tot := length (publish_bytes m)\<rparr>)"
proof -
  let ?n = "length (publish_props m)" and ?b = "length (publish_body m)"
  have o: "length (topic m) \<le> 65535" "length (responseTopic m) \<le> 65535"
    "length (correlationData m) \<le> 65535" "length (contentType m) \<le> 65535"
    "strs_ok (userProperty m)" "QoS m \<noteq> 0 \<Longrightarrow> PacketId m \<noteq> 0" "Type m = PUBLISH" "?b < 2 ^ 28"
    using ok by (simp_all add: publish_ok_def)
  have n28: "?n < 2 ^ 28"
    using o(8) length_props_body [of m] by linarith
  have p: "propertiesLen m = word_of_nat ?n" and r: "remlen m = word_of_nat ?b"
    using arg_cong [OF b, of propertiesLen] arg_cong [OF b, of remlen] by (simp_all add: built_def)
  have un: "unat (propertiesLen m) = ?n" "unat (remlen m) = ?b"
    using n28 o(8) by (simp_all add: p r unat_of_nat)
  have rl: "remlen m \<le> maxRemainingLength"
    using o(8) by (simp add: unat_le_max un)
  let ?xs = "[mtf m # varint (unat (remlen m)), lp (topic m), if QoS m \<noteq> 0 then packetId m else [],
       varint (unat (propertiesLen m)),
       opt_bytes (payloadFormatIndicator m \<noteq> 0) LoadFormatDescription [payloadFormatIndicator m],
       opt_bytes (messageExpiryInterval m > 0) MessageExpirationTime (put32 (messageExpiryInterval m)),
       opt_bytes (topicAlias m > 0) ThemeAlias (put16 (topicAlias m)),
       opt_bytes (length (responseTopic m) > 0) ResponseTopic (lp (responseTopic m)),
       opt_bytes (length (correlationData m) > 0) RelatedData (lp (correlationData m)),
       up_bytes (userProperty m),
       opt_bytes (subid_written m) DefiningIdentifiers (varint (unat (subscriptionIdentifier m))),
       opt_bytes (length (contentType m) > 0) ContentType (lp (contentType m)),
       payload m]"
  have w: "list_all2 (writes (length (e_dst e)) m) publish_enc_steps ?xs"
    unfolding publish_enc_steps_def list_all2_Cons list_all2_Nil
    by (intro conjI TrueI writes_intros) (use o un rl n28 subid_28 [of m] in simp_all)
  have c: "concat ?xs = publish_bytes m"
    by (simp only: concat.simps append_Nil2 append_assoc append_Cons publish_bytes_def
        publish_body_def publish_props_def un)
  show ?thesis
    using steps_writes [OF w e(1) refl] room e(2) by (simp only: c) simp
qed

lemma length_publish_bytes:
  assumes "publish_ok m"
  shows "length (publish_bytes m) = header_msglen (built m) + unat (remlen (built m))"
proof -
  have r: "unat (remlen (built m)) = length (publish_body m)" "remlen (built m) \<le> maxRemainingLength"
    using assms by (simp_all add: built_def publish_ok_def unat_of_nat unat_le_max)
  show ?thesis
    using length_varint_remlen [OF r(2)] by (simp add: publish_bytes_def r(1))
qed

lemma publish_Encode_bytes:
  assumes "publish_ok (e_msg s)" and "dirty (e_msg s)"
  shows "publish_Encode s =
    (if length (e_dst s) < length (publish_bytes (e_msg s))
     then Fail 0 (Errorf ''publish/Encode: Insufficient buffer size'') (s\<lparr>e_msg := built (e_msg s)\<rparr>)
     else Go (s\<lparr>e_dst := blit (e_dst s) 0 (publish_bytes (e_msg s)),
            e_tot := length (publish_bytes (e_msg s)), e_msg := built (e_msg s)\<rparr>))"
proof -
  let ?m = "e_msg s"
  have b: "publish_build ?m = Some (built ?m)"
    using publish_build_ok [OF assms(1)] by (simp add: built_def)
  have nz: "\<not> (length (topic ?m) = 0 \<and> topicAlias ?m = 0)" "length (payload ?m) \<noteq> 0"
    using assms(1) by (auto simp: publish_ok_def ValidTopic_def)
  have rl: "SetRemainingLength (remlen (built ?m)) (built ?m) = (built ?m, None)"
    using assms(1) by (simp add: SetRemainingLength_def built_def publish_ok_def not_less unat_le_max unat_of_nat)
  have bb: "built (built ?m) = built ?m"
    unfolding built_def [of "built ?m"] by (simp, simp add: built_def)
  have mt: "publish_bytes (built ?m) = publish_bytes ?m"
    by (simp add: publish_bytes_def, simp add: built_def)
  have len: "header_msglen (built ?m) + unat (remlen (built ?m)) = length (publish_bytes ?m)"
    using length_publish_bytes [OF assms(1)] by simp
  have st: "steps publish_enc_steps (s\<lparr>e_msg := built ?m, e_tot := 0\<rparr>)
      = Go (s\<lparr>e_dst := blit (e_dst s) 0 (publish_bytes ?m), e_tot := length (publish_bytes ?m), e_msg := built ?m\<rparr>)"
    if "\<not> length (e_dst s) < length (publish_bytes ?m)"
    using publish_enc_steps_ok [of "built ?m" "s\<lparr>e_msg := built ?m, e_tot := 0\<rparr>"] built_ok [OF assms(1)] bb mt that
    by simp
  show ?thesis
    using assms(2) nz st
    unfolding publish_Encode_def Let_def b option.case rl prod.case len by simp
qed

section \<open>Decoding\<close>

definition decoded :: "bytes \<Rightarrow> publish \<Rightarrow> publish" where
  "decoded src m = m\<lparr>propertiesLen := word_of_nat (length (publish_props m)),
     remlen := word_of_nat (length (publish_body m)), dbuf := src, dirty := False,
     packetId := (if QoS m \<noteq> 0 then packetId m else []),
     userProperty := up_pad (userProperty m),
     subscriptionIdentifier := (if subid_written m then subscriptionIdentifier m else 0)\<rparr>"

lemma reads_qosId:
  assumes "QoS m \<noteq> 0 \<Longrightarrow> length p = 2" and "QoS m = 0 \<Longrightarrow> p = []"
    and "QoS m = 0 \<Longrightarrow> packetId m = []"
  shows "reads src m (publish_dec_qosId src) p (m\<lparr>packetId := p\<rparr>) r"
proof (cases "QoS m = 0")
  case True
  then have "publish_dec_qosId src s = Go s" if "d_msg s = m" for s
    using that by (simp add: publish_dec_qosId_def)
  then show ?thesis
    using assms True reads_skip [of m "publish_dec_qosId src" src r] by (simp add: reads_def)
next
  case False
  have "publish_dec_qosId src s = dec_packetId src s" if "d_msg s = m" for s
    using that False by (simp add: publish_dec_qosId_def)
  then show ?thesis
    using reads_packetId [of p src m r] assms(1) False by (simp add: reads_def)
qed

lemma reads_topicCheck:
  "topicAlias m = 0 \<Longrightarrow> ValidTopic (topic m) \<Longrightarrow> reads src m publish_dec_topicCheck [] m r"
  "topicAlias m \<noteq> 0 \<Longrightarrow> reads src m publish_dec_topicCheck [] m r"
  by (auto intro!: reads_skip simp: publish_dec_topicCheck_def)

text \<open>Writing the value a field already has changes nothing.\<close>

lemma publish_keep:
  fixes x :: publish
  shows "payloadFormatIndicator x = v \<Longrightarrow> x\<lparr>payloadFormatIndicator := v\<rparr> = x"
    "messageExpiryInterval x = w \<Longrightarrow> x\<lparr>messageExpiryInterval := w\<rparr> = x"
    "topicAlias x = a \<Longrightarrow> x\<lparr>topicAlias := a\<rparr> = x"
    "responseTopic x = b \<Longrightarrow> x\<lparr>responseTopic := b\<rparr> = x"
    "correlationData x = b \<Longrightarrow> x\<lparr>correlationData := b\<rparr> = x"
    "subscriptionIdentifier x = w \<Longrightarrow> x\<lparr>subscriptionIdentifier := w\<rparr> = x"
    "contentType x = b \<Longrightarrow> x\<lparr>contentType := b\<rparr> = x"
  by auto

lemma publish_dec_props_rt:
  assumes ok: "publish_ok m" and plain: "payload_plain m"
    and z: "payloadFormatIndicator m0 = 0" "messageExpiryInterval m0 = 0" "topicAlias m0 = 0"
      "responseTopic m0 = []" "correlationData m0 = []" "subscriptionIdentifier m0 = 0"
      "contentType m0 = []" "topic m0 = topic m"
  shows "reads src m0 (steps (publish_dec_props src)) (publish_props m)
    (m0\<lparr>payloadFormatIndicator := payloadFormatIndicator m,
       messageExpiryInterval := messageExpiryInterval m, topicAlias := topicAlias m,
       responseTopic := responseTopic m, correlationData := correlationData m,
       userProperty := up_pad (userProperty m),
       subscriptionIdentifier := (if subid_written m then subscriptionIdentifier m else 0),
       contentType := contentType m\<rparr>) (payload m)"
proof -
  have o: "length (responseTopic m) \<le> 65535" "length (correlationData m) \<le> 65535"
    "length (contentType m) \<le> 65535" "strs_ok (userProperty m)" "payload m \<noteq> []"
    "topicAlias m = 0 \<Longrightarrow> ValidTopic (topic m)"
    using ok by (simp_all add: publish_ok_def)
  have pl: "starts_not (payload m) c" if "c \<in> {LoadFormatDescription, MessageExpirationTime,
      ThemeAlias, ResponseTopic, RelatedData, UserProperty, DefiningIdentifiers, ContentType}" for c
    using plain that by (auto simp: payload_plain_def starts_not_def)
  have props: "publish_props m = concat
     [opt_bytes (payloadFormatIndicator m \<noteq> 0) LoadFormatDescription [payloadFormatIndicator m],
      opt_bytes (messageExpiryInterval m > 0) MessageExpirationTime (put32 (messageExpiryInterval m)),
      opt_bytes (topicAlias m > 0) ThemeAlias (put16 (topicAlias m)), [],
      opt_bytes (length (responseTopic m) > 0) ResponseTopic (lp (responseTopic m)),
      opt_bytes (length (correlationData m) > 0) RelatedData (lp (correlationData m)),
      up_bytes (userProperty m),
      opt_bytes (subid_written m) DefiningIdentifiers (varint (unat (subscriptionIdentifier m))),
      opt_bytes (length (contentType m) > 0) ContentType (lp (contentType m))]"
    by (simp add: publish_props_def)
  have tc: "reads src m' publish_dec_topicCheck [] m' r"
    if "topicAlias m' = topicAlias m" "topic m' = topic m" for m' r
    using that o(6) reads_topicCheck by metis
  show ?thesis
    unfolding props publish_dec_props_def
    apply (rule reads_Cons, rule reads_opt_byte)
    prefer 4
    apply (rule reads_Cons, rule reads_opt_u32)
    prefer 4
    apply (rule reads_Cons, rule reads_opt_u16)
    prefer 4
    apply (rule reads_Cons, rule tc)
    prefer 3
    apply (rule reads_Cons, rule reads_opt_str)
    prefer 5
    apply (rule reads_Cons, rule reads_opt_str)
    prefer 5
    apply (rule reads_Cons, rule reads_userProperty)
    prefer 3
    apply (rule reads_Cons, rule reads_opt_lb)
    prefer 5
    apply (rule reads_Cons, rule reads_opt_str)
    prefer 5
    apply (rule reads_Nil)
    using o pl z subid_28 [of m] by (simp_all add: subid_written_def word_gt_0 publish_keep)
qed

text \<open>The fields between the header and the properties.\<close>

lemma reads_publish_plen:
  "n < 2 ^ 28 \<Longrightarrow> reads src m (publish_dec_plen src) (varint n) (m\<lparr>propertiesLen := word_of_nat n\<rparr>) r"
  unfolding reads_def publish_dec_plen_def using dec_lb_rt by metis

lemma publish_dec_front_rt:
  assumes ok: "publish_ok m" and q: "QoS m0 = QoS m" and p: "packetId m0 = []"
  shows "reads src m0 (steps [dec_lp src (\<lambda>v m. m\<lparr>topic := v\<rparr>) ret_total,
       publish_dec_qosId src, publish_dec_plen src])
    (concat [lp (topic m), if QoS m \<noteq> 0 then packetId m else [], varint (length (publish_props m))])
    (m0\<lparr>topic := topic m, packetId := (if QoS m \<noteq> 0 then packetId m else []),
       propertiesLen := word_of_nat (length (publish_props m))\<rparr>) r"
proof -
  have o: "length (topic m) \<le> 65535" "QoS m \<noteq> 0 \<Longrightarrow> length (packetId m) = 2"
    using ok by (simp_all add: publish_ok_def)
  have n: "length (publish_props m) < 2 ^ 28"
    using ok length_props_body [of m] by (simp add: publish_ok_def)
  have q': "QoS (m0\<lparr>topic := topic m\<rparr>) = QoS m"
    using q by (simp add: QoS_def Flags_def)
  show ?thesis
    apply (rule reads_Cons, rule reads_lp, rule o(1))
    apply (rule reads_Cons, rule reads_qosId)
    prefer 4
    apply (rule reads_Cons, rule reads_publish_plen, rule n, rule reads_Nil)
    using o(2) q' p by simp_all
qed

lemma publish_dec_payload_rt:
  assumes "left src (d_tot s) (payload m @ r)" and "d_hn s \<le> d_tot s"
    and "unat (remlen (d_msg s)) = d_tot s - d_hn s + length (payload m)"
  shows "publish_dec_payload src s = Go (s\<lparr>d_tot := d_tot s + length (payload m),
     d_msg := (d_msg s)\<lparr>payload := payload m\<rparr>\<rparr>)"
proof -
  have "int (unat (remlen (d_msg s))) - (int (d_tot s) - int (d_hn s)) = int (length (payload m))"
    using assms(2,3) by simp
  then show ?thesis
    using left_sub [OF assms(1)] by (simp add: publish_dec_payload_def CopyLen_def Let_def)
qed

lemma Type_New_publish: "Type NewPublishMessage = PUBLISH"
  by (simp add: Type_def NewPublishMessage_def header.defs new_header_def first_byte_def
      DefaultFlags_def mtype_of_def)

lemma publish_header_rt:
  assumes ok: "publish_ok m" and v: "vis src = publish_bytes m"
  shows "dec_header src (dstart NewPublishMessage)
    = Go \<lparr>d_hn = 1 + length (varint (length (publish_body m))),
         d_tot = 1 + length (varint (length (publish_body m))),
         d_msg = NewPublishMessage\<lparr>dbuf := vis src, mtf := mtf m,
           remlen := word_of_nat (length (publish_body m))\<rparr>\<rparr>"
proof -
  let ?b = "length (publish_body m)"
  have b: "?b < 2 ^ 28" and f: "flags_ok (mtf m)" and t: "Type m = PUBLISH"
    using ok by (simp_all add: publish_ok_def)
  define rl where "rl = (word_of_nat ?b :: uint32)"
  have u: "unat rl = ?b"
    using b by (simp add: rl_def unat_of_nat)
  have pos: "?b \<noteq> 0"
    using ok by (simp add: publish_ok_def publish_body_def)
  have "header_decode src NewPublishMessage
      = Go (1 + length (varint (unat rl)), NewPublishMessage\<lparr>dbuf := vis src, mtf := mtf m, remlen := rl\<rparr>)"
  proof (rule header_decode_rt [where rest = "publish_body m"])
    show "vis src = mtf m # varint (unat rl) @ publish_body m"
      by (simp only: v publish_bytes_def u)
    show "mtype_of (drop_bit 4 (mtf m)) = Type NewPublishMessage"
      using t by (simp only: Type_New_publish) (simp only: Type_def)
    show "rl \<le> maxRemainingLength"
      using b by (simp only: unat_le_max u)
    show "rl \<noteq> 0 \<or> exempt (Type NewPublishMessage)"
      using pos u by (metis unat_0)
  qed (use f u in simp_all)
  then show ?thesis
    by (simp add: dec_header_def dstart_def u rl_def [symmetric])
qed

lemma publish_Decode_bytes:
  assumes ok: "publish_ok m" and plain: "payload_plain m" and v: "vis src = publish_bytes m"
  shows "publish_Decode src NewPublishMessage
    = Go \<lparr>d_hn = 1 + length (varint (length (publish_body m))),
         d_tot = length (publish_bytes m), d_msg = decoded (vis src) m\<rparr>"
proof -
  let ?hn = "1 + length (varint (length (publish_body m)))"
  define m0 where "m0 = NewPublishMessage\<lparr>dbuf := vis src, mtf := mtf m,
    remlen := word_of_nat (length (publish_body m))\<rparr>"
  define m1 where "m1 = m0\<lparr>topic := topic m, packetId := (if QoS m \<noteq> 0 then packetId m else []),
       propertiesLen := word_of_nat (length (publish_props m))\<rparr>"
  define m2 where "m2 = m1\<lparr>payloadFormatIndicator := payloadFormatIndicator m,
       messageExpiryInterval := messageExpiryInterval m, topicAlias := topicAlias m,
       responseTopic := responseTopic m, correlationData := correlationData m,
       userProperty := up_pad (userProperty m),
       subscriptionIdentifier := (if subid_written m then subscriptionIdentifier m else 0),
       contentType := contentType m\<rparr>"
  define xs where "xs = concat [lp (topic m), if QoS m \<noteq> 0 then packetId m else [],
       varint (length (publish_props m))] @ publish_props m"
  define mid where "mid = [dec_lp src (\<lambda>v m. m\<lparr>topic := v\<rparr>) ret_total,
       publish_dec_qosId src, publish_dec_plen src] @ publish_dec_props src"
  let ?s0 = "\<lparr>d_hn = ?hn, d_tot = ?hn, d_msg = m0\<rparr>"
  let ?s2 = "?s0\<lparr>d_tot := ?hn + length xs, d_msg := m2\<rparr>"
  have b28: "length (publish_body m) < 2 ^ 28"
    using ok by (simp add: publish_ok_def)
  have body: "publish_body m = xs @ payload m"
    by (simp add: publish_body_def xs_def)
  have hdr: "dec_header src (dstart NewPublishMessage) = Go ?s0"
    using publish_header_rt [OF ok v] by (simp only: m0_def)
  have q: "QoS m0 = QoS m" "packetId m0 = []"
    by (simp_all add: m0_def QoS_def Flags_def NewPublishMessage_def header.defs new_header_def)
  have z: "payloadFormatIndicator m1 = 0" "messageExpiryInterval m1 = 0" "topicAlias m1 = 0"
      "responseTopic m1 = []" "correlationData m1 = []" "subscriptionIdentifier m1 = 0"
      "contentType m1 = []" "topic m1 = topic m"
    by (simp_all add: m1_def m0_def NewPublishMessage_def header.defs)
  have rd: "reads src m0 (steps mid) xs m2 (payload m)"
    unfolding xs_def mid_def
    by (rule reads_append [OF publish_dec_front_rt [OF ok q, folded m1_def]
          publish_dec_props_rt [OF ok plain z, folded m2_def]])
  have l0: "left src (d_tot ?s0) (xs @ payload m)"
    using v by (simp add: left_def publish_bytes_def body)
  have l2: "left src (d_tot ?s2) (payload m @ [])"
    using left_advance [OF l0] by simp
  have rl: "unat (remlen (d_msg ?s2)) = d_tot ?s2 - d_hn ?s2 + length (payload m)"
    using b28 by (simp add: m2_def m1_def m0_def unat_of_nat body del: of_nat_add)
  have pl: "publish_dec_payload src ?s2 = Go (?s2\<lparr>d_tot := d_tot ?s2 + length (payload m),
     d_msg := (d_msg ?s2)\<lparr>payload := payload m\<rparr>\<rparr>)"
    by (rule publish_dec_payload_rt [OF l2 _ rl]) simp
  have fin: "m2\<lparr>payload := payload m, dirty := False\<rparr> = decoded (vis src) m"
    by (simp add: m2_def m1_def m0_def decoded_def NewPublishMessage_def header.defs)
  have "steps ([dec_header src] @ mid @ [publish_dec_payload src,
          \<lambda>s. Go (s\<lparr>d_msg := (d_msg s)\<lparr>dirty := False\<rparr>\<rparr>)]) (dstart NewPublishMessage)
      = Go (?s2\<lparr>d_tot := ?hn + length xs + length (payload m),
          d_msg := m2\<lparr>payload := payload m, dirty := False\<rparr>\<rparr>)"
    using hdr readsD [OF rd _ l0] pl by (simp add: steps_append)
  then show ?thesis
    by (simp add: publish_Decode_def fin publish_bytes_def body mid_def)
qed

end
