(* ===== verification/Retained.thy ===== *)
theory Retained
  imports PublishRT TopicTree
begin

text \<open>
  The tree of retained messages in broker/impl/topic/topic.go: \<open>rinsert\<close>, \<open>rremove\<close>,
  \<open>rmatch\<close> and \<open>allRetained\<close>. A node keeps an encoded copy of the message and the message
  decoded from it; decoding reuses the message object that the node already has.
\<close>

datatype rnode = RNode (rmsg: "publish option") (rbuf: bytes) (rnodes: "(bytes \<times> rnode) list")

definition newRNode :: rnode where
  "newRNode = RNode None [] []"

definition rchild :: "bytes \<Rightarrow> rnode \<Rightarrow> rnode" where
  "rchild l n = (case map_of (rnodes n) l of Some n' \<Rightarrow> n' | None \<Rightarrow> newRNode)"

text \<open>
  Storing at the node: encode into the buffer, whose old contents beyond what is written
  do not matter since \<open>Len\<close> is exact, and decode into the node's message. None is a panic.
\<close>

definition rstore :: "uint64 \<Rightarrow> publish \<Rightarrow> rnode \<Rightarrow> (rnode \<times> goerr option) option" where
  "rstore g msg n =
     (case publish_Len msg of
        None \<Rightarrow> None
      | Some (l, msg1) \<Rightarrow>
          (case publish_Encode \<lparr>e_dst = take l (rbuf n) @ replicate (l - length (rbuf n)) 0, e_tot = 0,
                  e_msg = msg1, e_gpid = g\<rparr> of
             Panic \<Rightarrow> None
           | Fail k e es \<Rightarrow> Some (RNode (rmsg n) (e_dst es) (rnodes n), Some e)
           | Go es \<Rightarrow>
               (case publish_Decode (exact (e_dst es))
                   (case rmsg n of None \<Rightarrow> NewPublishMessage | Some m \<Rightarrow> m) of
                  Panic \<Rightarrow> None
                | Fail k e ds \<Rightarrow> Some (RNode (Some (d_msg ds)) (e_dst es) (rnodes n), Some e)
                | Go ds \<Rightarrow> Some (RNode (Some (d_msg ds)) (e_dst es) (rnodes n), None))))"

function rinsert :: "uint64 \<Rightarrow> bytes \<Rightarrow> publish \<Rightarrow> rnode \<Rightarrow> (rnode \<times> goerr option) option" where
  "rinsert g t msg n =
     (if t = [] then rstore g msg n
      else case nextTopicLevel t of
        Inl e \<Rightarrow> Some (n, Some (Errorf e))
      | Inr (level, rem) \<Rightarrow>
          map_option (\<lambda>(n', e). (RNode (rmsg n) (rbuf n) (AList.update level n' (rnodes n)), e))
            (rinsert g (rest rem) msg (rchild level n)))"
  by pat_completeness auto
termination
  by (relation "measure (\<lambda>(g, t, m, n). length t)") (auto intro: rest_shorter)

declare rinsert.simps [simp del]

function rremove :: "bytes \<Rightarrow> rnode \<Rightarrow> rnode \<times> string option" where
  "rremove t n =
     (if t = [] then (RNode None [] (rnodes n), None)
      else case nextTopicLevel t of
        Inl e \<Rightarrow> (n, Some e)
      | Inr (level, rem) \<Rightarrow>
          (case map_of (rnodes n) level of
             None \<Rightarrow> (n, Some ''memtopic/rremove: No topic found'')
           | Some n0 \<Rightarrow>
               (case rremove (rest rem) n0 of
                  (n1, Some e) \<Rightarrow> (RNode (rmsg n) (rbuf n) (AList.update level n1 (rnodes n)), Some e)
                | (n1, None) \<Rightarrow>
                    if length (rnodes n1) = 0
                    then (RNode (rmsg n) (rbuf n) (AList.delete level (rnodes n)), None)
                    else (RNode (rmsg n) (rbuf n) (AList.update level n1 (rnodes n)), None))))"
  by pat_completeness auto
termination
  by (relation "measure (\<lambda>(t, n). length t)") (auto intro: rest_shorter)

declare rremove.simps [simp del]

primrec opt_list :: "'a option \<Rightarrow> 'a list" where
  "opt_list None = []"
| "opt_list (Some x) = [x]"

fun allRetained :: "rnode \<Rightarrow> publish list" where
  "allRetained (RNode m b ks) = opt_list m @ concat (map (\<lambda>(k, n). allRetained n) ks)"

function (sequential) rmatch :: "bytes \<Rightarrow> rnode \<Rightarrow> publish list \<times> string option"
  and rmatch_all :: "bytes \<Rightarrow> (bytes \<times> rnode) list \<Rightarrow> publish list \<times> string option" where
  "rmatch t (RNode m b ks) =
     (if t = [] then (opt_list m, None)
      else case nextTopicLevel t of
        Inl e \<Rightarrow> ([], Some e)
      | Inr (level, rem) \<Rightarrow>
          if level = [c_mwc] then (allRetained (RNode m b ks), None)
          else if level = [c_swc] then rmatch_all (rest rem) ks
          else (case map_of ks level of
             None \<Rightarrow> ([], None)
           | Some n \<Rightarrow> rmatch (rest rem) n))"
| "rmatch_all r [] = ([], None)"
| "rmatch_all r ((k, n) # ks) =
     (case rmatch r n of
        (out, Some e) \<Rightarrow> (out, Some e)
      | (out, None) \<Rightarrow> (case rmatch_all r ks of (out', e) \<Rightarrow> (out @ out', e)))"
  by pat_completeness auto
termination
  by (relation "measure (\<lambda>x. case x of Inl (t, n) \<Rightarrow> size n
      | Inr (r, ks) \<Rightarrow> size_list (size_prod (\<lambda>x. 0) size) ks)") (auto dest: map_of_SomeD intro: kid_size)

section \<open>The table of retained messages\<close>

fun rtab :: "rnode \<Rightarrow> bytes list \<Rightarrow> publish option" where
  "rtab n [] = rmsg n"
| "rtab n (p # ps) = (case map_of (rnodes n) p of None \<Rightarrow> None | Some n' \<Rightarrow> rtab n' ps)"

inductive rn_wf :: "rnode \<Rightarrow> bool" where
  rn_wfI: "distinct (map fst (rnodes n)) \<Longrightarrow> (\<And>k n'. (k, n') \<in> set (rnodes n) \<Longrightarrow> rn_wf n') \<Longrightarrow> rn_wf n"

inductive_cases rn_wfE: "rn_wf n"

lemma rn_wfD:
  assumes "rn_wf n"
  shows "distinct (map fst (rnodes n))" and "(k, n') \<in> set (rnodes n) \<Longrightarrow> rn_wf n'"
  using assms by (blast elim: rn_wfE)+

lemma newRNode_ok [simp]: "rn_wf newRNode" "rtab newRNode ps = None"
  by (auto intro: rn_wfI simp: newRNode_def) (cases ps; simp)

lemma rchild_wf: "rn_wf n \<Longrightarrow> rn_wf (rchild l n)"
  by (auto simp: rchild_def split: option.split dest: map_of_SomeD rn_wfD(2))

lemma rtab_child: "rtab n (l # ps) = rtab (rchild l n) ps"
  by (simp add: rchild_def split: option.split)

lemma rtab_update:
  "rtab (RNode m b (AList.update l n' (rnodes n))) ps =
     (case ps of [] \<Rightarrow> m | p # qs \<Rightarrow> if p = l then rtab n' qs else rtab n (p # qs))"
  by (cases ps) (simp_all add: update_conv')

lemma rtab_delete:
  "rtab (RNode m b (AList.delete l (rnodes n))) ps =
     (case ps of [] \<Rightarrow> m | p # qs \<Rightarrow> if p = l then None else rtab n (p # qs))"
  by (cases ps) (simp_all add: delete_conv')

lemma rnode_update_wf:
  assumes "rn_wf n" and "rn_wf n'"
  shows "rn_wf (RNode m b (AList.update l n' (rnodes n)))"
proof (rule rn_wfI)
  fix k x assume "(k, x) \<in> set (rnodes (RNode m b (AList.update l n' (rnodes n))))"
  then show "rn_wf x"
    using set_update [of k x l n' "rnodes n"] assms rn_wfD(2) [OF assms(1)] by auto
qed (use rn_wfD(1) [OF assms(1)] in \<open>simp add: distinct_update\<close>)

lemma rnode_delete_wf:
  assumes "rn_wf n"
  shows "rn_wf (RNode m b (AList.delete l (rnodes n)))"
proof (rule rn_wfI)
  fix k x assume "(k, x) \<in> set (rnodes (RNode m b (AList.delete l (rnodes n))))"
  then show "rn_wf x"
    using set_delete rn_wfD(2) [OF assms] by fastforce
qed (use rn_wfD(1) [OF assms] in \<open>simp add: distinct_delete\<close>)

section \<open>Storing\<close>

text \<open>What a node without a message stores for a message that encodes.\<close>

lemma rstore_fresh:
  assumes ok: "publish_ok msg" "dirty msg" "payload_plain msg" and n: "rmsg n = None"
  shows "rstore g msg n = Some (RNode (Some (decoded (publish_bytes msg) msg)) (publish_bytes msg) (rnodes n), None)"
proof -
  let ?l = "length (publish_bytes msg)"
  have rl: "SetRemainingLength (remlen (built msg)) (built msg) = (built msg, None)"
    using ok(1) by (simp add: SetRemainingLength_def built_def publish_ok_def not_less unat_le_max unat_of_nat)
  have b: "publish_build msg = Some (built msg)"
    using publish_build_ok [OF ok(1)] by (simp add: built_def)
  have len: "publish_Len msg = Some (?l, built msg)"
    using ok(2) length_publish_bytes [OF ok(1)] by (simp add: publish_Len_def b rl Let_def)
  let ?dst = "take ?l (rbuf n) @ replicate (?l - length (rbuf n)) 0"
  have bb: "publish_ok (built msg)" "dirty (built msg)" "publish_bytes (built msg) = publish_bytes msg"
    using built_ok [OF ok(1)] by (auto simp: publish_bytes_def, simp_all add: built_def)
  have dl: "length ?dst = ?l"
    by simp
  have enc: "publish_Encode \<lparr>e_dst = ?dst, e_tot = 0, e_msg = built msg, e_gpid = g\<rparr>
      = Go \<lparr>e_dst = publish_bytes msg, e_tot = ?l, e_msg = built (built msg), e_gpid = g\<rparr>"
    using publish_Encode_bytes [of "\<lparr>e_dst = ?dst, e_tot = 0, e_msg = built msg, e_gpid = g\<rparr>"] bb dl
    by (simp add: blit_def)
  have dec: "publish_Decode (exact (publish_bytes msg)) NewPublishMessage =
      Go \<lparr>d_hn = 1 + length (varint (length (publish_body msg))), d_tot = ?l, d_msg = decoded (publish_bytes msg) msg\<rparr>"
    using publish_Decode_bytes [OF ok(1,3), of "exact (publish_bytes msg)"] by (simp add: exact_def)
  show ?thesis
    unfolding rstore_def len option.case prod.case enc out.case n bstate.simps estate.simps dec dstate.simps by simp
qed

lemma rinsert_ok:
  assumes st: "\<And>k. rmsg k = None \<Longrightarrow> rstore g msg k = Some (RNode (Some m') (B k) (rnodes k), None)"
  shows "rn_wf n \<Longrightarrow> path t = Some ps \<Longrightarrow> rtab n ps = None \<Longrightarrow>
    \<exists>n'. rinsert g t msg n = Some (n', None) \<and> rn_wf n' \<and> rtab n' = (rtab n)(ps := Some m')"
proof (induction "length t" arbitrary: t n ps rule: less_induct)
  case less
  show ?case
  proof (cases "t = []")
    case True
    then have "ps = []"
      using less.prems(2) by simp
    then have s: "rstore g msg n = Some (RNode (Some m') (B n) (rnodes n), None)"
      using st less.prems(3) by simp
    have "rtab (RNode (Some m') (B n) (rnodes n)) qs = ((rtab n)([] := Some m')) qs" for qs
      by (cases qs) simp_all
    moreover have "rn_wf (RNode (Some m') (B n) (rnodes n))"
    proof (rule rn_wfI)
      fix k x assume "(k, x) \<in> set (rnodes (RNode (Some m') (B n) (rnodes n)))"
      then show "rn_wf x"
        using rn_wfD(2) [OF less.prems(1)] by simp
    qed (use rn_wfD(1) [OF less.prems(1)] in simp)
    ultimately show ?thesis
      using True s \<open>ps = []\<close> by (subst rinsert.simps) (auto simp: fun_eq_iff)
  next
    case ne: False
    then obtain l rem qs where lr: "nextTopicLevel t = Inr (l, rem)" and qs: "path (rest rem) = Some qs" "ps = l # qs"
      using less.prems(2) by (auto simp: path_step split: sum.splits prod.splits)
    have "rtab (rchild l n) qs = None"
      using less.prems(3) qs(2) rtab_child by metis
    then obtain n' where n': "rinsert g (rest rem) msg (rchild l n) = Some (n', None)" "rn_wf n'"
      "rtab n' = (rtab (rchild l n))(qs := Some m')"
      using less.hyps [OF rest_shorter [OF lr ne] rchild_wf [OF less.prems(1)] qs(1)] by blast
    have "rtab (RNode (rmsg n) (rbuf n) (AList.update l n' (rnodes n))) xs = ((rtab n)(ps := Some m')) xs" for xs
      unfolding rtab_update n'(3) qs(2)
      by (cases xs) (auto simp: rtab_child simp del: rtab.simps(2))
    then have "rtab (RNode (rmsg n) (rbuf n) (AList.update l n' (rnodes n))) = (rtab n)(ps := Some m')"
      by blast
    then show ?thesis
      using ne lr n' rnode_update_wf [OF less.prems(1) n'(2)] by (subst rinsert.simps) auto
  qed
qed

section \<open>Removing\<close>

lemma rremove_go:
  assumes "t \<noteq> []" and "nextTopicLevel t = Inr (l, rem)" and "map_of (rnodes n) l = Some n0"
    and "rremove (rest rem) n0 = (n1, e)"
  shows "rremove t n =
    (case e of Some x \<Rightarrow> (RNode (rmsg n) (rbuf n) (AList.update l n1 (rnodes n)), Some x)
     | None \<Rightarrow> if length (rnodes n1) = 0
         then (RNode (rmsg n) (rbuf n) (AList.delete l (rnodes n)), None)
         else (RNode (rmsg n) (rbuf n) (AList.update l n1 (rnodes n)), None))"
  using assms by (subst rremove.simps) (cases e; simp)

text \<open>Of the messages, only the one at the topic and those at the levels above it can go.\<close>

lemma rremove_ok:
  "rn_wf n \<Longrightarrow> snd (rremove t n) = None \<Longrightarrow>
   \<exists>ps. path t = Some ps \<and> rtab (fst (rremove t n)) ps = None \<and>
     (\<forall>qs. (\<forall>k. 0 < k \<longrightarrow> k < length ps \<longrightarrow> qs \<noteq> take k ps) \<longrightarrow> qs \<noteq> ps \<longrightarrow> rtab (fst (rremove t n)) qs = rtab n qs)"
proof (induction "length t" arbitrary: t n rule: less_induct)
  case less
  show ?case
  proof (cases "t = []")
    case True
    have "rtab (RNode None [] (rnodes n)) qs = rtab n qs" if "qs \<noteq> []" for qs
      using that by (cases qs) simp_all
    then show ?thesis
      using True by (intro exI [of _ "[]"]) (simp add: rremove.simps)
  next
    case ne: False
    then obtain l rem where lr: "nextTopicLevel t = Inr (l, rem)"
      using less.prems(2) by (cases "nextTopicLevel t") (auto simp: rremove.simps)
    then obtain n0 where n0: "map_of (rnodes n) l = Some n0"
      using less.prems(2) ne by (cases "map_of (rnodes n) l") (auto simp: rremove.simps)
    obtain n1 e where s: "rremove (rest rem) n0 = (n1, e)"
      by fastforce
    note go = rremove_go [OF ne lr n0 s]
    have e: "e = None"
      using less.prems(2) by (cases e) (auto simp: go)
    have w0: "rn_wf n0"
      using rn_wfD(2) [OF less.prems(1) map_of_SomeD [OF n0]] .
    obtain ps where ps: "path (rest rem) = Some ps" "rtab n1 ps = None"
      "\<And>qs. (\<forall>k. 0 < k \<longrightarrow> k < length ps \<longrightarrow> qs \<noteq> take k ps) \<Longrightarrow> qs \<noteq> ps \<Longrightarrow> rtab n1 qs = rtab n0 qs"
      using less.hyps [OF rest_shorter [OF lr ne] w0] s e by auto
    let ?n = "fst (rremove t n)"
    have gone: "rnodes n1 = [] \<Longrightarrow> qs \<noteq> [] \<Longrightarrow> rtab n1 qs = None" for qs
      by (cases qs) simp_all
    have tab: "rtab ?n qs = (case qs of [] \<Rightarrow> rmsg n | q # qs' \<Rightarrow> if q = l
        then (if rnodes n1 = [] then None else rtab n1 qs') else rtab n qs)" for qs
      using e unfolding go by (cases qs) (simp_all add: update_conv' delete_conv')
    have "rtab ?n qs = rtab n qs"
      if nk: "\<forall>k. 0 < k \<longrightarrow> k < length (l # ps) \<longrightarrow> qs \<noteq> take k (l # ps)" and "qs \<noteq> l # ps" for qs
    proof (cases qs)
      case Nil
      then show ?thesis
        using tab [of "[]"] by simp
    next
      case (Cons q qs')
      show ?thesis
      proof (cases "q = l")
        case True
        have "qs' \<noteq> take k ps" if "k < length ps" for k
          using nk [rule_format, of "Suc k"] that Cons True by simp
        moreover have ne': "qs' \<noteq> ps"
          using that(2) Cons True by simp
        ultimately have "rtab n1 qs' = rtab n0 qs'"
          using ps(3) by blast
        moreover have "qs' \<noteq> []"
          using nk [rule_format, of 1] ne' Cons True by (cases ps) auto
        ultimately show ?thesis
          using gone [of qs'] True Cons n0 tab [of qs] by auto
      next
        case False
        then show ?thesis
          using tab [of qs] Cons by simp
      qed
    qed
    moreover have "rtab ?n (l # ps) = None"
      using ps(2) tab [of "l # ps"] by simp
    moreover have "path t = Some (l # ps)"
      using ne lr ps(1) by (simp add: path_step)
    ultimately show ?thesis
      by blast
  qed
qed

text \<open>A node with a message of its own goes with its last child.\<close>

lemma rremove_drops_parent:
  assumes "plain a" and "plain b" and "map_of (rnodes n) a = Some na" and "rnodes na = [(b, nb)]" and "rnodes nb = []"
  shows "rtab (fst (rremove (a @ c_sep # b) n)) [a] = None"
proof -
  have ne: "b \<noteq> []" "a @ c_sep # b \<noteq> []"
    using assms(2) by (auto simp: plain_def)
  have nb: "map_of (rnodes na) b = Some nb"
    using assms(4) by simp
  have "rremove (rest None) nb = (RNode None [] (rnodes nb), None)"
    by (simp add: rremove.simps)
  from rremove_go [OF ne(1) ntl_plain(1) [OF assms(2)] nb this]
  have "rremove b na = (RNode (rmsg na) (rbuf na) [], None)"
    using assms(4,5) by simp
  then have b: "rremove (rest (Some b)) na = (RNode (rmsg na) (rbuf na) [], None)"
    by simp
  show ?thesis
    using rremove_go [OF ne(2) ntl_plain(2) [OF assms(1)] assms(3) b] by (simp add: delete_conv')
qed

section \<open>Matching a filter against the retained messages\<close>

definition rhits :: "(bytes list \<Rightarrow> bool) \<Rightarrow> rnode \<Rightarrow> publish set" where
  "rhits P n = {m. \<exists>ps. P ps \<and> rtab n ps = Some m}"

lemma rhits_children:
  assumes "distinct (map fst ks)"
  shows "rhits (\<lambda>ps. ps \<noteq> [] \<and> P (hd ps) (tl ps)) (RNode m b ks) = (\<Union>(k, n) \<in> set ks. rhits (P k) n)"
proof (intro set_eqI iffI)
  fix x assume "x \<in> rhits (\<lambda>ps. ps \<noteq> [] \<and> P (hd ps) (tl ps)) (RNode m b ks)"
  then obtain p ps where x: "P p ps" "rtab (RNode m b ks) (p # ps) = Some x"
    unfolding rhits_def by (clarsimp simp: neq_Nil_conv)
  then obtain n where "map_of ks p = Some n" "rtab n ps = Some x"
    by (auto split: option.splits)
  then show "x \<in> (\<Union>(k, n) \<in> set ks. rhits (P k) n)"
    using x(1) map_of_SomeD by (fastforce simp: rhits_def)
next
  fix x assume "x \<in> (\<Union>(k, n) \<in> set ks. rhits (P k) n)"
  then obtain k n ps where x: "(k, n) \<in> set ks" "P k ps" "rtab n ps = Some x"
    by (auto simp: rhits_def)
  then have "rtab (RNode m b ks) (k # ps) = Some x"
    using assms by simp
  then show "x \<in> rhits (\<lambda>ps. ps \<noteq> [] \<and> P (hd ps) (tl ps)) (RNode m b ks)"
    using x(2) unfolding rhits_def by (auto intro!: exI [of _ "k # ps"])
qed

lemma rhits_split:
  "rhits P (RNode m b ks) = (if P [] then set (opt_list m) else {})
     \<union> rhits (\<lambda>ps. ps \<noteq> [] \<and> P (hd ps # tl ps)) (RNode m b ks)"
proof -
  have "P ps \<longleftrightarrow> (ps = [] \<and> P []) \<or> (ps \<noteq> [] \<and> P (hd ps # tl ps))" for ps
    by (cases ps) auto
  then have "rhits P (RNode m b ks) = rhits (\<lambda>ps. ps = [] \<and> P []) (RNode m b ks)
      \<union> rhits (\<lambda>ps. ps \<noteq> [] \<and> P (hd ps # tl ps)) (RNode m b ks)"
    unfolding rhits_def by blast
  moreover have "rhits (\<lambda>ps. ps = [] \<and> P []) (RNode m b ks) = (if P [] then set (opt_list m) else {})"
    by (cases m) (auto simp: rhits_def)
  ultimately show ?thesis
    by simp
qed

lemma allRetained_set: "rn_wf n \<Longrightarrow> set (allRetained n) = rhits (\<lambda>ps. True) n"
proof (induction n rule: allRetained.induct)
  case (1 m b ks)
  have "rhits (\<lambda>ps. ps \<noteq> [] \<and> (\<lambda>p ps. True) (hd ps) (tl ps)) (RNode m b ks) = (\<Union>(k, n) \<in> set ks. rhits (\<lambda>ps. True) n)"
    by (rule rhits_children) (use rn_wfD(1) [OF 1(2)] in simp)
  moreover have "set (allRetained n) = rhits (\<lambda>ps. True) n" if "(k, n) \<in> set ks" for k n
    using 1(1) [OF that refl] rn_wfD(2) [OF 1(2)] that by simp
  ultimately show ?case
    by (subst rhits_split) auto
qed

lemma rmatch_all_ok:
  assumes "\<And>k n. (k, n) \<in> set ks \<Longrightarrow> snd (rmatch r n) = None \<and> set (fst (rmatch r n)) = rhits (P k) n"
  shows "snd (rmatch_all r ks) = None \<and> set (fst (rmatch_all r ks)) = (\<Union>(k, n) \<in> set ks. rhits (P k) n)"
  using assms
proof (induction ks)
  case (Cons kn ks)
  obtain k n where kn: "kn = (k, n)" by fastforce
  have "snd (rmatch r n) = None \<and> set (fst (rmatch r n)) = rhits (P k) n"
    using Cons.prems [of k n] kn by simp
  moreover have "snd (rmatch_all r ks) = None \<and> set (fst (rmatch_all r ks)) = (\<Union>(k, n) \<in> set ks. rhits (P k) n)"
  proof (rule Cons.IH)
    show "snd (rmatch r m) = None \<and> set (fst (rmatch r m)) = rhits (P j) m" if "(j, m) \<in> set ks" for j m
      using Cons.prems [of j m] that by simp
  qed
  ultimately show ?case
    by (cases "rmatch r n"; cases "rmatch_all r ks") (simp add: kn)
qed simp

lemma ntl_join:
  assumes "filter_ok (f # fs)"
  shows "join_levels (f # fs) \<noteq> []"
    and "\<exists>rem. nextTopicLevel (join_levels (f # fs)) = Inr (f, rem) \<and> rest rem = join_levels fs"
proof -
  show "join_levels (f # fs) \<noteq> []"
    using join_nonempty assms by blast
  show "\<exists>rem. nextTopicLevel (join_levels (f # fs)) = Inr (f, rem) \<and> rest rem = join_levels fs"
  proof (cases fs)
    case Nil
    then have "plain f \<or> f = [c_mwc] \<or> f = [c_swc]"
      using assms by simp
    then have "nextTopicLevel f = Inr (f, None)"
      using ntl_plain(1) ntl_wild by blast
    then show ?thesis
      using Nil by simp
  next
    case (Cons g gs)
    then have "plain f \<or> f = [c_swc]"
      using assms by simp
    then have "nextTopicLevel (f @ c_sep # join_levels fs) = Inr (f, Some (join_levels fs))"
      using ntl_plain(2) ntl_wild(3) by auto
    then show ?thesis
      using Cons by simp
  qed
qed

lemma rmatch_ok:
  "rn_wf n \<Longrightarrow> fs = [] \<or> filter_ok fs \<Longrightarrow>
   snd (rmatch (join_levels fs) n) = None \<and> set (fst (rmatch (join_levels fs) n)) = rhits (mqtt_match fs) n"
proof (induction fs arbitrary: n)
  case Nil
  obtain m b ks where n: "n = RNode m b ks" by (cases n)
  show ?case
    by (simp add: n rhits_def) (cases m; auto)
next
  case (Cons f fs)
  obtain m b ks where n: "n = RNode m b ks" by (cases n)
  have fo: "filter_ok (f # fs)"
    using Cons.prems(2) by simp
  obtain rem where ne: "join_levels (f # fs) \<noteq> []"
    and lr: "nextTopicLevel (join_levels (f # fs)) = Inr (f, rem)" "rest rem = join_levels fs"
    using ntl_join [OF fo] by blast
  have f: "fs = [] \<or> filter_ok fs \<and> f \<noteq> [c_mwc]"
    using fo by (cases fs) (auto simp: plain_def)
  have wk: "rn_wf k" if "(j, k) \<in> set ks" for j k
    using rn_wfD(2) [OF Cons.prems(1)] that n by simp
  have dk: "distinct (map fst ks)"
    using rn_wfD(1) [OF Cons.prems(1)] n by simp
  have IH: "snd (rmatch (join_levels fs) k) = None \<and> set (fst (rmatch (join_levels fs) k)) = rhits (mqtt_match fs) k"
    if "rn_wf k" for k
    using Cons.IH [OF that] f by blast
  show ?case
  proof (cases "f = [c_mwc]")
    case True
    then have "fs = []"
      using f by blast
    then have "mqtt_match (f # fs) = (\<lambda>ps. True)"
      using True by (simp add: fun_eq_iff)
    then have "rhits (mqtt_match (f # fs)) n = rhits (\<lambda>ps. True) n"
      by (simp only:)
    moreover have "rmatch (join_levels (f # fs)) n = (allRetained n, None)"
      using ne lr True n by simp
    ultimately show ?thesis
      using allRetained_set [OF Cons.prems(1)] by (simp only: fst_conv snd_conv simp_thms)
  next
    case nm: False
    have h: "rhits (mqtt_match (f # fs)) n = (\<Union>(k, c) \<in> set ks. rhits (\<lambda>ps. (f = [c_swc] \<or> f = k) \<and> mqtt_match fs ps) c)"
    proof -
      have "mqtt_match (f # fs) ps \<longleftrightarrow> ps \<noteq> [] \<and> (\<lambda>k ps. (f = [c_swc] \<or> f = k) \<and> mqtt_match fs ps) (hd ps) (tl ps)" for ps
        using nm by (cases ps) auto
      then have "rhits (mqtt_match (f # fs)) n
          = rhits (\<lambda>ps. ps \<noteq> [] \<and> (\<lambda>k ps. (f = [c_swc] \<or> f = k) \<and> mqtt_match fs ps) (hd ps) (tl ps)) n"
        by (simp add: rhits_def)
      then show ?thesis
        unfolding n using rhits_children [OF dk] by simp
    qed
    show ?thesis
    proof (cases "f = [c_swc]")
      case True
      have "rmatch (join_levels (f # fs)) n = rmatch_all (join_levels fs) ks"
        using ne lr True n by simp
      moreover have "snd (rmatch_all (join_levels fs) ks) = None
          \<and> set (fst (rmatch_all (join_levels fs) ks)) = (\<Union>(k, c) \<in> set ks. rhits (mqtt_match fs) c)"
        by (rule rmatch_all_ok) (use IH wk in blast)
      ultimately show ?thesis
        using h True by (simp del: mqtt_match.simps)
    next
      case False
      then have h': "rhits (mqtt_match (f # fs)) n = (\<Union>(k, c) \<in> set ks. if f = k then rhits (mqtt_match fs) c else {})"
        unfolding h by (intro SUP_cong) (auto simp: rhits_def split: if_splits)
      show ?thesis
      proof (cases "map_of ks f")
        case None
        then have "f \<notin> fst ` set ks"
          by (simp add: map_of_eq_None_iff)
        then have "rhits (mqtt_match (f # fs)) n = {}"
          unfolding h' by (force split: if_splits)
        then show ?thesis
          using ne lr nm False None n by (simp del: mqtt_match.simps)
      next
        case (Some c)
        then have mem: "(f, c) \<in> set ks"
          by (rule map_of_SomeD)
        have "c' = c" if "(f, c') \<in> set ks" for c'
          using that Some dk by simp
        have "(\<Union>(k, c) \<in> set ks. if f = k then rhits (mqtt_match fs) c else {}) = rhits (mqtt_match fs) c"
          (is "?U = ?c")
        proof
          show "?U \<subseteq> ?c"
            using \<open>\<And>c'. (f, c') \<in> set ks \<Longrightarrow> c' = c\<close> by (force split: if_splits)
          show "?c \<subseteq> ?U"
            using mem by force
        qed
        then have "rhits (mqtt_match (f # fs)) n = rhits (mqtt_match fs) c"
          unfolding h' .
        then show ?thesis
          using ne lr nm False Some n IH [OF wk [OF mem]] by (simp del: mqtt_match.simps)
      qed
    qed
  qed
qed

end
