(* ===== verification/SysTopics.thy ===== *)
theory SysTopics
  imports LevelTree Retained
begin

text \<open>
  The topic provider for system topics, broker/impl/topic/sys/mem_sys_topic.go. A node
  keeps subscribers with the granted QoS only. \<open>nextRTopicLevel\<close>, which \<open>sinsert\<close> uses, and
  \<open>nextTopicLevel\<close> of the package differ from \<open>TopicTree.nextTopicLevel\<close> in error texts
  only. The tree of retained messages of the package is the one of the main package word
  for word. A subscriber is optional: None is nil.
\<close>

type_synonym 'c sysnode = "('c \<times> byte) list lnode"

definition newRSNode :: "'c sysnode" where
  "newRSNode = LNode [] []"

definition nextRTopicLevel :: "bytes \<Rightarrow> string + bytes \<times> bytes option" where
  "nextRTopicLevel = nextTopicLevel"

definition sys_nextTopicLevel :: "bytes \<Rightarrow> string + bytes \<times> bytes option" where
  "sys_nextTopicLevel = nextTopicLevel"

definition sys_sinsert :: "sub \<Rightarrow> 'c \<Rightarrow> 'c sysnode \<Rightarrow> 'c sysnode \<times> string option" where
  "sys_sinsert s c n = linsert [] (upd_sub c (Qos s)) (Topic s) n"

definition del_who :: "'c option \<Rightarrow> ('c \<times> 's) list \<Rightarrow> ('c \<times> 's) list \<times> string option" where
  "del_who who xs =
     (case who of
        None \<Rightarrow> ([], None)
      | Some c \<Rightarrow>
          if c \<in> fst ` set xs then (del_sub c xs, None)
          else (xs, Some ''memtopics/remove: No topic found for subscriber''))"

definition sys_sremove :: "bytes \<Rightarrow> 'c option \<Rightarrow> 'c sysnode \<Rightarrow> 'c sysnode \<times> string option" where
  "sys_sremove t who n = lremove (del_who who) (\<lambda>xs. length xs = 0) t n"

text \<open>The result carries the published QoS; a subscriber with a lower granted QoS is skipped.\<close>

definition qos_sub :: "byte \<Rightarrow> sub" where
  "qos_sub q = \<lparr>Topic = [], Qos = q, NoLocal = False, RetainAsPublished = False, RetainHandling = 0, SubIdentifier = 0\<rparr>"

definition sys_matchQos :: "byte \<Rightarrow> ('c \<times> byte) list \<Rightarrow> ('c \<times> sub) list" where
  "sys_matchQos qos xs = map (\<lambda>(c, g). (c, qos_sub qos)) (filter (\<lambda>(c, g). qos \<le> g) xs)"

definition sys_smatch :: "bytes \<Rightarrow> byte \<Rightarrow> 'c sysnode \<Rightarrow> ('c \<times> sub) list \<times> string option" where
  "sys_smatch t qos n =
     (case lvisit False t n of (xs, e) \<Rightarrow> (concat (map (sys_matchQos qos) xs), e))"

section \<open>The provider\<close>

definition sys_Subscribe :: "sub \<Rightarrow> 'c option \<Rightarrow> 'c sysnode \<Rightarrow> 'c sysnode \<times> byte \<times> string option" where
  "sys_Subscribe s who n =
     (if \<not> ValidQos (Qos s) then (n, QosFailure, Some ''invalid QoS'')
      else case who of
        None \<Rightarrow> (n, QosFailure, Some ''subscriber cannot be nil'')
      | Some c \<Rightarrow>
          let s1 = s\<lparr>Qos := util_Qos (Qos s)\<rparr> in
          (case sys_sinsert s1 c n of
             (n', Some e) \<Rightarrow> (n', QosFailure, Some e)
           | (n', None) \<Rightarrow> (n', Qos s1, None)))"

definition sys_Unsubscribe :: "bytes \<Rightarrow> 'c option \<Rightarrow> 'c sysnode \<Rightarrow> 'c sysnode \<times> string option" where
  "sys_Unsubscribe t who n = sys_sremove t who n"

text \<open>The lists \<open>subs\<close> and \<open>qoss\<close> are one list \<open>out\<close>, which an invalid QoS leaves as it was.\<close>

definition sys_Subscribers :: "bytes \<Rightarrow> byte \<Rightarrow> ('c \<times> sub) list \<Rightarrow> 'c sysnode \<Rightarrow> ('c \<times> sub) list \<times> string option" where
  "sys_Subscribers t qos out n =
     (if \<not> ValidQos qos then (out, Some ''invalid QoS'') else sys_smatch t qos n)"

section \<open>Its tree of retained messages\<close>

definition sys_newRRNode :: rnode where "sys_newRRNode = newRNode"
definition sys_rinsert :: "uint64 \<Rightarrow> bytes \<Rightarrow> publish \<Rightarrow> rnode \<Rightarrow> (rnode \<times> goerr option) option" where
  "sys_rinsert = rinsert"
definition sys_rremove :: "bytes \<Rightarrow> rnode \<Rightarrow> rnode \<times> string option" where
  "sys_rremove = rremove"
definition sys_rmatch :: "bytes \<Rightarrow> rnode \<Rightarrow> publish list \<times> string option" where
  "sys_rmatch = rmatch"
definition sys_allRetained :: "rnode \<Rightarrow> publish list" where
  "sys_allRetained = allRetained"

section \<open>The table of granted QoS levels\<close>

definition uniq :: "('c \<times> 's) list \<Rightarrow> bool" where
  "uniq xs \<longleftrightarrow> distinct (map fst xs)"

definition sys_wf :: "'c sysnode \<Rightarrow> bool" where
  "sys_wf n \<longleftrightarrow> lt_wf uniq n"

definition sys_tab :: "'c sysnode \<Rightarrow> bytes list \<Rightarrow> 'c \<rightharpoonup> byte" where
  "sys_tab n ps = map_of (ltab [] n ps)"

lemma newRSNode_ok: "sys_wf newRSNode" "sys_tab newRSNode ps = Map.empty"
  by (simp_all add: sys_wf_def newRSNode_def lt_wf_empty uniq_def sys_tab_def ltab_empty)

lemma sys_sinsert_ok:
  assumes "sys_wf n"
  shows "sys_wf (fst (sys_sinsert s c n)) \<and>
    (case path (Topic s) of
       Some ps \<Rightarrow> snd (sys_sinsert s c n) = None
         \<and> sys_tab (fst (sys_sinsert s c n)) = (sys_tab n)(ps := (sys_tab n ps)(c \<mapsto> Qos s))
     | None \<Rightarrow> snd (sys_sinsert s c n) \<noteq> None \<and> sys_tab (fst (sys_sinsert s c n)) = sys_tab n)"
  using linsert_ok [of uniq "[]" "upd_sub c (Qos s)" n "Topic s"] assms
  by (auto simp: sys_wf_def sys_sinsert_def sys_tab_def [abs_def] uniq_def upd_sub_distinct upd_sub_map
      fun_eq_iff split: option.split)

lemma del_who_uniq: "uniq xs \<Longrightarrow> del_who who xs = (ys, e) \<Longrightarrow> uniq ys"
  by (auto simp: del_who_def uniq_def del_sub_distinct split: option.splits if_splits)

lemma del_who_map:
  "uniq xs \<Longrightarrow> del_who (Some c) xs = (ys, None) \<Longrightarrow> map_of ys = (map_of xs)(c := None) \<and> map_of xs c \<noteq> None"
  by (auto simp: del_who_def uniq_def del_sub_map map_of_eq_None_iff split: if_splits)

lemma ltab_inv: "lt_wf I n \<Longrightarrow> I e0 \<Longrightarrow> I (ltab e0 n ps)"
proof (induction ps arbitrary: n)
  case (Cons p ps)
  then show ?case
    using lt_wfD(3) [OF Cons.prems(1)] map_of_SomeD by (fastforce split: option.split)
qed (simp add: lt_wfD(1))

text \<open>A cancellation takes effect exactly when the subscriber has the filter.\<close>

lemma sys_sremove_ok:
  assumes "sys_wf n"
  shows "sys_wf (fst (sys_sremove t (Some c) n))
    \<and> (snd (sys_sremove t (Some c) n) = None \<longleftrightarrow> (\<exists>ps. path t = Some ps \<and> sys_tab n ps c \<noteq> None))
    \<and> sys_tab (fst (sys_sremove t (Some c) n)) = (case path t of
        None \<Rightarrow> sys_tab n | Some ps \<Rightarrow> (sys_tab n)(ps := (sys_tab n ps)(c := None)))"
proof -
  let ?r = "sys_sremove t (Some c) n"
  have wf: "lt_wf uniq n"
    using assms by (simp add: sys_wf_def)
  have u: "uniq (ltab [] n ps)" for ps
    using ltab_inv [OF wf] by (simp add: uniq_def)
  have err: "del_who (Some c) x = (y, Some e) \<Longrightarrow> y = x" for x y :: "('a \<times> byte) list" and e
    by (auto simp: del_who_def split: if_splits)
  have L: "lt_wf uniq (fst ?r) \<and>
     (snd ?r = None \<longrightarrow> (\<exists>ps x. path t = Some ps \<and> del_who (Some c) (ltab [] n ps) = (x, None)
        \<and> map_of \<circ> ltab [] (fst ?r) = (map_of \<circ> ltab [] n)(ps := map_of x))) \<and>
     (snd ?r \<noteq> None \<longrightarrow> ltab [] (fst ?r) = ltab [] n
        \<and> (\<forall>ps. path t = Some ps \<longrightarrow> (\<exists>x e. del_who (Some c) (ltab [] n ps) = (x, Some e)) \<or> ltab [] n ps = []))"
    unfolding sys_sremove_def
    by (rule lremove_ok [OF _ _ _ wf]) (auto simp: err intro: del_who_uniq)
  show ?thesis
  proof (cases "snd ?r")
    case None
    then obtain ps x where p: "path t = Some ps" "del_who (Some c) (ltab [] n ps) = (x, None)"
        "map_of \<circ> ltab [] (fst ?r) = (map_of \<circ> ltab [] n)(ps := map_of x)"
      using L by blast
    then show ?thesis
      using None L del_who_map [OF u p(2)] by (auto simp: sys_wf_def sys_tab_def [abs_def] comp_def fun_eq_iff)
  next
    case (Some e)
    have "sys_tab n ps c = None" if "path t = Some ps" for ps
    proof -
      have "(\<exists>x e. del_who (Some c) (ltab [] n ps) = (x, Some e)) \<or> ltab [] n ps = []"
        using L Some that by simp
      then show ?thesis
        by (auto simp: sys_tab_def del_who_def map_of_eq_None_iff split: if_splits)
    qed
    then show ?thesis
      using Some L by (auto simp: sys_wf_def sys_tab_def [abs_def] fun_eq_iff split: option.split)
  qed
qed

text \<open>The lookup gives the subscribers whose filter matches and whose granted QoS suffices.\<close>

lemma sys_smatch_ok:
  assumes "sys_wf n" and "path t \<noteq> None"
  shows "snd (sys_smatch t q n) = None \<and> set (fst (sys_smatch t q n)) =
    {(c, qos_sub q) | c g ps. lmatch False t ps \<and> sys_tab n ps c = Some g \<and> q \<le> g}"
proof -
  let ?G = "\<lambda>xs. set (sys_matchQos q xs)"
  have wf: "lt_wf uniq n"
    using assms(1) by (simp add: sys_wf_def)
  have G: "?G [] = {}"
    by (simp add: sys_matchQos_def)
  have v: "snd (lvisit False t n) = None"
      "visited ?G (lvisit False t n) = lhits [] ?G (lmatch False t) n"
    using lvisit_ok [where G = ?G, OF G wf assms(2)] by auto
  have u: "set (fst (sys_smatch t q n)) = visited ?G (lvisit False t n)" "snd (sys_smatch t q n) = None"
    using v(1) by (cases "lvisit False t n"; simp add: sys_smatch_def visited_def)+
  have m: "(c, s) \<in> ?G (ltab [] n ps) \<longleftrightarrow> s = qos_sub q \<and> (\<exists>g. sys_tab n ps c = Some g \<and> q \<le> g)" for c s ps
  proof -
    have "distinct (map fst (ltab [] n ps))"
      using ltab_inv [OF wf, of "[]" ps] by (simp add: uniq_def)
    then show ?thesis
      by (force simp: sys_matchQos_def sys_tab_def)
  qed
  show ?thesis
    unfolding u v(2) by (auto simp: lhits_def m) blast
qed

section \<open>The matching rule\<close>

lemma lmatch_Cons_topic:
  assumes "topic_ok (t # ts)"
  shows "lmatch False (join_levels (t # ts)) (p # ps) \<longleftrightarrow>
    (if p = [c_mwc] then ps = []
     else (p = [c_swc] \<or> p = t) \<and> (if ts = [] then ps = [] else lmatch False (join_levels ts) ps))"
proof -
  have n: "join_levels (t # ts) \<noteq> []"
    using join_nonempty topic_filter assms by blast
  have pl: "plain t"
    using assms by (simp add: topic_ok_def)
  have "nextTopicLevel (join_levels (t # ts)) = Inr (t, if ts = [] then None else Some (join_levels ts))"
    using ntl_plain [OF pl] by (cases ts) auto
  moreover have "lmatch False [] ps \<longleftrightarrow> ps = []"
    by (cases ps) simp_all
  ultimately show ?thesis
    using n by auto
qed

text \<open>Without the parent rule a filter matches only topics with at least as many levels.\<close>

lemma lmatch_mqtt:
  "topic_ok ts \<Longrightarrow> filter_ok fs \<Longrightarrow>
   lmatch False (join_levels ts) fs \<longleftrightarrow> mqtt_match fs ts \<and> length fs \<le> length ts"
proof (induction fs arbitrary: ts)
  case (Cons f fs)
  obtain t ts' where ts: "ts = t # ts'"
    using Cons.prems(1) by (cases ts) (auto simp: topic_ok_def)
  have f: "fs = [] \<or> filter_ok fs \<and> f \<noteq> [c_mwc]"
    using Cons.prems(2) by (cases fs) (auto simp: plain_def)
  show ?case
  proof (cases "ts' = []")
    case True
    then show ?thesis
      using f lmatch_Cons_topic [of t ts' f fs] Cons.prems(1) by (auto simp: ts)
  next
    case False
    then have "topic_ok ts'"
      using Cons.prems(1) by (simp add: topic_ok_def ts)
    then have "filter_ok fs \<Longrightarrow> lmatch False (join_levels ts') fs \<longleftrightarrow> mqtt_match fs ts' \<and> length fs \<le> length ts'"
      and "join_levels ts' \<noteq> []"
      using Cons.IH join_nonempty topic_filter by blast+
    then show ?thesis
      using False f lmatch_Cons_topic [of t ts' f fs] Cons.prems(1) by (auto simp: ts)
  qed
qed simp

lemma lmatch_path:
  assumes "topic_ok ts" and "path fs = Some ps"
  shows "lmatch False (join_levels ts) ps \<longrightarrow> ps \<noteq> []"
  using assms join_nonempty topic_filter by (cases ps) auto

end
