(* ===== verification/ShareTopics.thy ===== *)
theory ShareTopics
  imports SysTopics
begin

text \<open>
  The topic provider for shared subscriptions, broker/impl/topic/share/mem_share_topic.go.
  A node keeps, by share name, a group of subscribers with their granted QoS. A lookup
  picks one member of a group at random; the random number of the \<open>k\<close>-th call below \<open>n\<close> is
  \<open>rnd k n\<close>, and the calls are counted along the lookup. The level parser and the tree of
  retained messages, whose share name argument is never used, are those of the main
  package word for word.
\<close>

type_synonym 'c groups = "(bytes \<times> ('c \<times> byte) list) list"
type_synonym 'c sharenode = "'c groups lnode"

definition share_newSNode :: "'c sharenode" where
  "share_newSNode = LNode [] []"

definition share_nextTopicLevel :: "bytes \<Rightarrow> string + bytes \<times> bytes option" where
  "share_nextTopicLevel = nextTopicLevel"

definition group_add :: "bytes \<Rightarrow> byte \<Rightarrow> 'c \<Rightarrow> 'c groups \<Rightarrow> 'c groups" where
  "group_add sn q c gs =
     (case map_of gs sn of
        Some v \<Rightarrow> AList.update sn (upd_sub c q v) gs
      | None \<Rightarrow> AList.update sn [(c, q)] gs)"

definition share_sinsert :: "bytes \<Rightarrow> sub \<Rightarrow> 'c \<Rightarrow> 'c sharenode \<Rightarrow> 'c sharenode \<times> string option" where
  "share_sinsert sn s c n = linsert [] (group_add sn (Qos s) c) (Topic s) n"

definition group_del :: "bytes \<Rightarrow> 'c option \<Rightarrow> 'c groups \<Rightarrow> 'c groups \<times> string option" where
  "group_del sn who gs =
     (case who of
        None \<Rightarrow> (if length sn = 0 then ([], None) else (AList.delete sn gs, None))
      | Some c \<Rightarrow>
          (case map_of gs sn of
             Some v \<Rightarrow>
               if c \<in> fst ` set v then (AList.update sn (del_sub c v) gs, None)
               else (gs, Some ''memtopics/remove: No topic found for subscriber'')
           | None \<Rightarrow> (gs, Some ''memtopics/remove: No topic found for subscriber'')))"

definition no_members :: "'c groups \<Rightarrow> bool" where
  "no_members gs \<longleftrightarrow> list_all (\<lambda>(sn, v). length v = 0) gs"

definition share_sremove :: "bytes \<Rightarrow> bytes \<Rightarrow> 'c option \<Rightarrow> 'c sharenode \<Rightarrow> 'c sharenode \<times> string option" where
  "share_sremove t sn who n = lremove (group_del sn who) no_members t n"

section \<open>Lookup\<close>

text \<open>One member per non-empty group, with the lower QoS; the result carries the call count.\<close>

fun pick_groups :: "(nat \<Rightarrow> nat \<Rightarrow> nat) \<Rightarrow> byte \<Rightarrow> 'c groups \<Rightarrow> nat \<Rightarrow> ('c \<times> sub) list \<times> nat" where
  "pick_groups rnd qos [] k = ([], k)"
| "pick_groups rnd qos ((sn, v) # gs) k =
     (if length v = 0 then pick_groups rnd qos gs k
      else let i = rnd k (length v); (c, g) = v ! i;
               (out, k') = pick_groups rnd qos gs (Suc k) in
        ((c, if qos \<le> g then qos_sub qos else qos_sub g) # out, k'))"

definition share_matchQos :: "(nat \<Rightarrow> nat \<Rightarrow> nat) \<Rightarrow> byte \<Rightarrow> bytes \<Rightarrow> 'c groups \<Rightarrow> nat \<Rightarrow> ('c \<times> sub) list \<times> nat" where
  "share_matchQos rnd qos sn gs k =
     (if length sn = 0 then pick_groups rnd qos gs k
      else case map_of gs sn of
        None \<Rightarrow> ([], k)
      | Some v \<Rightarrow> pick_groups rnd qos [(sn, v)] k)"

fun share_collect :: "(nat \<Rightarrow> nat \<Rightarrow> nat) \<Rightarrow> byte \<Rightarrow> bytes \<Rightarrow> 'c groups list \<Rightarrow> nat \<Rightarrow> ('c \<times> sub) list" where
  "share_collect rnd qos sn [] k = []"
| "share_collect rnd qos sn (x # xs) k =
     (case share_matchQos rnd qos sn x k of (out, k') \<Rightarrow> out @ share_collect rnd qos sn xs k')"

definition share_smatch :: "(nat \<Rightarrow> nat \<Rightarrow> nat) \<Rightarrow> bytes \<Rightarrow> bytes \<Rightarrow> byte \<Rightarrow> 'c sharenode \<Rightarrow> ('c \<times> sub) list \<times> string option" where
  "share_smatch rnd t sn qos n =
     (case lvisit True t n of (xs, e) \<Rightarrow> (share_collect rnd qos sn xs 0, e))"

text \<open>\<open>AllSubInfo\<close>: the share names by topic, in a Go map from strings to lists.\<close>

definition add_info :: "bytes \<Rightarrow> (bytes \<times> bytes list) list \<Rightarrow> bytes \<Rightarrow> (bytes \<times> bytes list) list" where
  "add_info tp v sn = AList.update tp (case map_of v tp of None \<Rightarrow> [sn] | Some l \<Rightarrow> l @ [sn]) v"

fun matchAll :: "(bytes \<times> bytes list) list \<Rightarrow> bytes \<Rightarrow> 'c sharenode \<Rightarrow> (bytes \<times> bytes list) list" where
  "matchAll v tp (LNode gs ks) =
     fold (\<lambda>(p, sn) v. matchAll v (tp @ c_sep # p) sn) ks (fold (\<lambda>g v. add_info tp v (fst g)) gs v)"

definition smatchAll :: "'c sharenode \<Rightarrow> (bytes \<times> bytes list) list" where
  "smatchAll n = fold (\<lambda>(k, n) v. matchAll v k n) (lkids n) []"

section \<open>The provider\<close>

record 'c sharetopics =
  sh_sroot :: "'c sharenode"
  sh_rroot :: rnode

definition share_NewMemProvider :: "'c sharetopics" where
  "share_NewMemProvider = \<lparr>sh_sroot = share_newSNode, sh_rroot = newRNode\<rparr>"

definition share_Subscribe :: "bytes \<Rightarrow> sub \<Rightarrow> 'c option \<Rightarrow> 'c sharetopics \<Rightarrow> 'c sharetopics \<times> byte \<times> string option" where
  "share_Subscribe sn s who st =
     (if \<not> ValidQos (Qos s) then (st, QosFailure, Some ''invalid QoS'')
      else case who of
        None \<Rightarrow> (st, QosFailure, Some ''subscriber cannot be nil'')
      | Some c \<Rightarrow>
          let s1 = s\<lparr>Qos := util_Qos (Qos s)\<rparr> in
          (case share_sinsert sn s1 c (sh_sroot st) of
             (n', Some e) \<Rightarrow> (st\<lparr>sh_sroot := n'\<rparr>, QosFailure, Some e)
           | (n', None) \<Rightarrow> (st\<lparr>sh_sroot := n'\<rparr>, Qos s1, None)))"

definition share_Unsubscribe :: "bytes \<Rightarrow> bytes \<Rightarrow> 'c option \<Rightarrow> 'c sharetopics \<Rightarrow> 'c sharetopics \<times> string option" where
  "share_Unsubscribe t sn who st =
     (case share_sremove t sn who (sh_sroot st) of (n', e) \<Rightarrow> (st\<lparr>sh_sroot := n'\<rparr>, e))"

definition share_Subscribers :: "(nat \<Rightarrow> nat \<Rightarrow> nat) \<Rightarrow> bytes \<Rightarrow> bytes \<Rightarrow> byte \<Rightarrow> ('c \<times> sub) list \<Rightarrow>
    'c sharetopics \<Rightarrow> ('c \<times> sub) list \<times> string option" where
  "share_Subscribers rnd t sn qos out st =
     (if \<not> ValidQos qos then (out, Some ''invalid QoS'') else share_smatch rnd t sn qos (sh_sroot st))"

definition AllSubInfo :: "'c sharetopics \<Rightarrow> (bytes \<times> bytes list) list" where
  "AllSubInfo st = smatchAll (sh_sroot st)"

definition share_rinsert :: "uint64 \<Rightarrow> bytes \<Rightarrow> bytes \<Rightarrow> publish \<Rightarrow> rnode \<Rightarrow> (rnode \<times> goerr option) option" where
  "share_rinsert g t sn msg n = rinsert g t msg n"

definition share_rremove :: "bytes \<Rightarrow> bytes \<Rightarrow> rnode \<Rightarrow> rnode \<times> string option" where
  "share_rremove t sn n = rremove t n"

definition share_rmatch :: "bytes \<Rightarrow> bytes \<Rightarrow> rnode \<Rightarrow> publish list \<times> string option" where
  "share_rmatch t sn n = rmatch t n"

definition share_allRetained :: "rnode \<Rightarrow> publish list" where
  "share_allRetained = allRetained"

definition share_Retain :: "uint64 \<Rightarrow> publish \<Rightarrow> bytes \<Rightarrow> 'c sharetopics \<Rightarrow> ('c sharetopics \<times> goerr option) option" where
  "share_Retain g msg sn st =
     (if length (payload msg) = 0 then
        (case share_rremove (topic msg) sn (sh_rroot st) of
           (n', e) \<Rightarrow> Some (st\<lparr>sh_rroot := n'\<rparr>, map_option Errorf e))
      else map_option (\<lambda>(n', e). (st\<lparr>sh_rroot := n'\<rparr>, e)) (share_rinsert g (topic msg) sn msg (sh_rroot st)))"

definition share_Retained :: "bytes \<Rightarrow> bytes \<Rightarrow> 'c sharetopics \<Rightarrow> publish list \<times> string option" where
  "share_Retained t sn st = share_rmatch t sn (sh_rroot st)"

section \<open>The table of group members\<close>

definition groups_ok :: "'c groups \<Rightarrow> bool" where
  "groups_ok gs \<longleftrightarrow> uniq gs \<and> (\<forall>g \<in> set gs. uniq (snd g))"

definition members :: "'c groups \<Rightarrow> bytes \<Rightarrow> 'c \<rightharpoonup> byte" where
  "members gs sn = (case map_of gs sn of None \<Rightarrow> Map.empty | Some v \<Rightarrow> map_of v)"

definition share_wf :: "'c sharenode \<Rightarrow> bool" where
  "share_wf n \<longleftrightarrow> lt_wf groups_ok n"

definition share_tab :: "'c sharenode \<Rightarrow> bytes list \<Rightarrow> bytes \<Rightarrow> 'c \<rightharpoonup> byte" where
  "share_tab n ps = members (ltab [] n ps)"

lemma share_newSNode_ok: "share_wf share_newSNode" "share_tab share_newSNode ps sn = Map.empty"
  by (simp_all add: share_wf_def share_newSNode_def lt_wf_empty groups_ok_def uniq_def share_tab_def ltab_empty members_def)

lemma groups_ok_update:
  "groups_ok gs \<Longrightarrow> uniq v \<Longrightarrow> groups_ok (AList.update sn v gs)"
  by (auto simp: groups_ok_def uniq_def distinct_update dest!: set_update)

lemma groups_okD: "groups_ok gs \<Longrightarrow> map_of gs sn = Some v \<Longrightarrow> uniq v"
  by (force simp: groups_ok_def dest: map_of_SomeD)

lemma group_add_ok:
  assumes "groups_ok gs"
  shows "groups_ok (group_add sn q c gs)"
    and "members (group_add sn q c gs) = (members gs)(sn := (members gs sn)(c \<mapsto> q))"
proof -
  show "groups_ok (group_add sn q c gs)"
    using assms groups_okD [OF assms, of sn]
    by (auto simp: group_add_def uniq_def upd_sub_distinct intro!: groups_ok_update split: option.split)
  show "members (group_add sn q c gs) = (members gs)(sn := (members gs sn)(c \<mapsto> q))"
    by (auto simp: group_add_def members_def fun_eq_iff update_conv' upd_sub_map split: option.split)
qed

lemma group_del_ok:
  assumes "groups_ok gs" and "group_del sn (Some c) gs = (hs, e)"
  shows "groups_ok hs"
    and "e = None \<Longrightarrow> members hs = (members gs)(sn := (members gs sn)(c := None)) \<and> members gs sn c \<noteq> None"
    and "e \<noteq> None \<Longrightarrow> hs = gs \<and> members gs sn c = None"
proof -
  show "groups_ok hs"
    using assms groups_okD [OF assms(1), of sn]
    by (auto simp: group_del_def uniq_def del_sub_distinct intro!: groups_ok_update split: option.splits if_splits)
  show "members hs = (members gs)(sn := (members gs sn)(c := None)) \<and> members gs sn c \<noteq> None" if e: "e = None"
  proof -
    obtain v where v: "map_of gs sn = Some v" "c \<in> fst ` set v" "hs = AList.update sn (del_sub c v) gs"
      using assms(2) e by (auto simp: group_del_def split: option.splits if_splits)
    have "map_of v c \<noteq> None"
      using v(2) by (simp add: map_of_eq_None_iff)
    moreover have "distinct (map fst v)"
      using groups_okD [OF assms(1) v(1)] by (simp add: uniq_def)
    ultimately show ?thesis
      using v by (auto simp: members_def fun_eq_iff update_conv' del_sub_map)
  qed
  have n: "c \<notin> fst ` set v \<Longrightarrow> map_of v c = None" for v :: "('a \<times> byte) list"
    by (simp add: map_of_eq_None_iff)
  show "hs = gs \<and> members gs sn c = None" if "e \<noteq> None"
    using assms(2) that by (auto simp: group_del_def members_def n split: option.splits if_splits)
qed

lemma no_members_empty: "no_members gs \<Longrightarrow> members gs = members []"
  by (force simp: no_members_def members_def fun_eq_iff list_all_iff dest: map_of_SomeD split: option.split)

lemma share_sinsert_ok:
  assumes "share_wf n"
  shows "share_wf (fst (share_sinsert sn s c n)) \<and>
    (case path (Topic s) of
       Some ps \<Rightarrow> snd (share_sinsert sn s c n) = None
         \<and> share_tab (fst (share_sinsert sn s c n))
           = (share_tab n)(ps := (share_tab n ps)(sn := (share_tab n ps sn)(c \<mapsto> Qos s)))
     | None \<Rightarrow> snd (share_sinsert sn s c n) \<noteq> None \<and> share_tab (fst (share_sinsert sn s c n)) = share_tab n)"
proof -
  have wf: "lt_wf groups_ok n" and e: "groups_ok []"
    using assms by (simp_all add: share_wf_def groups_ok_def uniq_def)
  have g: "groups_ok (ltab [] n ps)" for ps
    by (rule ltab_inv [OF wf e])
  show ?thesis
    using linsert_ok [of groups_ok "[]" "group_add sn (Qos s) c", OF e group_add_ok(1) wf, of "Topic s"] group_add_ok(2) [OF g]
    by (auto simp: share_wf_def share_sinsert_def share_tab_def [abs_def] split: option.split)
qed

lemma share_sremove_ok:
  assumes "share_wf n"
  shows "share_wf (fst (share_sremove t sn (Some c) n))
    \<and> (snd (share_sremove t sn (Some c) n) = None \<longleftrightarrow> (\<exists>ps. path t = Some ps \<and> share_tab n ps sn c \<noteq> None))
    \<and> share_tab (fst (share_sremove t sn (Some c) n)) = (case path t of
        None \<Rightarrow> share_tab n
      | Some ps \<Rightarrow> (share_tab n)(ps := (share_tab n ps)(sn := (share_tab n ps sn)(c := None))))"
proof -
  let ?r = "share_sremove t sn (Some c) n" and ?f = "group_del sn (Some c)"
  have wf: "lt_wf groups_ok n" and e: "groups_ok []"
    using assms by (simp_all add: share_wf_def groups_ok_def uniq_def)
  have g: "groups_ok (ltab [] n ps)" for ps
    by (rule ltab_inv [OF wf e])
  have err: "?f x = (y, Some e) \<Longrightarrow> y = x" for x y and e
    by (auto simp: group_del_def split: if_splits option.splits)
  have L: "lt_wf groups_ok (fst ?r) \<and>
     (snd ?r = None \<longrightarrow> (\<exists>ps x. path t = Some ps \<and> ?f (ltab [] n ps) = (x, None)
        \<and> members \<circ> ltab [] (fst ?r) = (members \<circ> ltab [] n)(ps := members x))) \<and>
     (snd ?r \<noteq> None \<longrightarrow> ltab [] (fst ?r) = ltab [] n
        \<and> (\<forall>ps. path t = Some ps \<longrightarrow> (\<exists>x e. ?f (ltab [] n ps) = (x, Some e)) \<or> ltab [] n ps = []))"
    unfolding share_sremove_def
    by (rule lremove_ok [OF _ _ _ wf]) (auto simp: err dest: group_del_ok(1) no_members_empty)
  show ?thesis
  proof (cases "snd ?r")
    case None
    then obtain ps x where p: "path t = Some ps" "?f (ltab [] n ps) = (x, None)"
        "members \<circ> ltab [] (fst ?r) = (members \<circ> ltab [] n)(ps := members x)"
      using L by blast
    then show ?thesis
      using None L group_del_ok(2) [OF g p(2)] by (auto simp: share_wf_def share_tab_def [abs_def] comp_def fun_eq_iff)
  next
    case (Some er)
    have "share_tab n ps sn c = None" if "path t = Some ps" for ps
    proof -
      have "(\<exists>x e. ?f (ltab [] n ps) = (x, Some e)) \<or> ltab [] n ps = []"
        using L Some that by simp
      then show ?thesis
        using group_del_ok(3) [OF g] by (auto simp: share_tab_def members_def)
    qed
    then show ?thesis
      using Some L by (auto simp: share_wf_def share_tab_def [abs_def] fun_eq_iff split: option.split)
  qed
qed

section \<open>One member of every matching group\<close>

definition fair :: "(nat \<Rightarrow> nat \<Rightarrow> nat) \<Rightarrow> bool" where
  "fair rnd \<longleftrightarrow> (\<forall>k n. 0 < n \<longrightarrow> rnd k n < n)"

definition group_sel :: "bytes \<Rightarrow> 'c groups \<Rightarrow> 'c groups" where
  "group_sel sn gs = (if length sn = 0 then gs else case map_of gs sn of None \<Rightarrow> [] | Some v \<Rightarrow> [(sn, v)])"

lemma share_matchQos_sel: "share_matchQos rnd q sn gs k = pick_groups rnd q (group_sel sn gs) k"
  by (simp add: share_matchQos_def group_sel_def split: option.split)

definition live :: "'c groups \<Rightarrow> 'c groups" where
  "live gs = filter (\<lambda>(sn, v). v \<noteq> []) gs"

definition chosen :: "byte \<Rightarrow> bytes \<times> ('c \<times> byte) list \<Rightarrow> 'c \<times> sub \<Rightarrow> bool" where
  "chosen q g r \<longleftrightarrow> (\<exists>h. (fst r, h) \<in> set (snd g) \<and> snd r = qos_sub (min q h))"

text \<open>The results of a call correspond, one by one, to the non-empty groups.\<close>

lemma pick_groups_ok:
  assumes "fair rnd"
  shows "list_all2 (chosen q) (live gs) (fst (pick_groups rnd q gs k))"
proof (induction gs arbitrary: k)
  case (Cons g gs)
  obtain sn v where g: "g = (sn, v)"
    by fastforce
  show ?case
  proof (cases "v = []")
    case True
    then show ?thesis
      using Cons.IH by (simp add: g live_def)
  next
    case False
    obtain c h where ch: "v ! rnd k (length v) = (c, h)"
      by fastforce
    have "rnd k (length v) < length v"
      using assms False by (simp add: fair_def)
    then have "(c, h) \<in> set v"
      using nth_mem ch by metis
    then have "chosen q g (c, if q \<le> h then qos_sub q else qos_sub h)"
      by (auto simp: chosen_def g min_def)
    moreover have "list_all2 (chosen q) (live gs) (fst (pick_groups rnd q gs (Suc k)))"
      by (rule Cons.IH)
    ultimately show ?thesis
      using False ch by (cases "pick_groups rnd q gs (Suc k)") (auto simp: g live_def Let_def split: if_splits)
  qed
qed (simp add: live_def)

lemma share_collect_ok:
  assumes "fair rnd"
  shows "list_all2 (chosen q) (concat (map (\<lambda>x. live (group_sel sn x)) xs)) (share_collect rnd q sn xs k)"
proof (induction xs arbitrary: k)
  case (Cons x xs)
  obtain out k' where p: "pick_groups rnd q (group_sel sn x) k = (out, k')"
    by fastforce
  have "list_all2 (chosen q) (live (group_sel sn x)) out"
    using pick_groups_ok [OF assms, of q "group_sel sn x" k] p by simp
  then show ?case
    using Cons.IH [of k'] p by (simp add: share_matchQos_sel list_all2_appendI)
qed simp

lemma live_group_sel:
  assumes "groups_ok gs"
  shows "(sn', v) \<in> set (live (group_sel sn gs)) \<longleftrightarrow> v \<noteq> [] \<and> map_of gs sn' = Some v \<and> (sn = [] \<or> sn' = sn)"
proof -
  have "distinct (map fst gs)"
    using assms by (simp add: groups_ok_def uniq_def)
  then show ?thesis
    by (auto simp: live_def group_sel_def split: option.split)
qed

text \<open>
  A lookup with a share name picks one member of each matching group of that name, one
  with an empty name picks one member of each matching group.
\<close>

lemma share_smatch_ok:
  assumes wf: "share_wf n" and p: "path t \<noteq> None" and f: "fair rnd"
  shows "snd (share_smatch rnd t sn q n) = None
    \<and> (\<forall>(c, s) \<in> set (fst (share_smatch rnd t sn q n)). \<exists>ps sn' g. tmatch t ps \<and> (sn = [] \<or> sn' = sn)
        \<and> share_tab n ps sn' c = Some g \<and> s = qos_sub (min q g))
    \<and> (\<forall>ps sn'. tmatch t ps \<and> (sn = [] \<or> sn' = sn) \<and> share_tab n ps sn' \<noteq> Map.empty \<longrightarrow>
        (\<exists>(c, s) \<in> set (fst (share_smatch rnd t sn q n)). share_tab n ps sn' c \<noteq> None))"
proof -
  let ?G = "\<lambda>gs. set (live (group_sel sn gs))"
  obtain xs e where v: "lvisit True t n = (xs, e)"
    by fastforce
  have lw: "lt_wf groups_ok n" and go: "groups_ok []"
    using wf by (simp_all add: share_wf_def groups_ok_def uniq_def)
  have g: "groups_ok (ltab [] n ps)" for ps
    by (rule ltab_inv [OF lw go])
  have "snd (lvisit True t n) = None \<and> visited ?G (lvisit True t n) = lhits [] ?G (lmatch True t) n"
    by (rule lvisit_ok [OF _ lw p]) (simp add: group_sel_def live_def)
  then have e: "e = None" and vis: "\<Union> (?G ` set xs) = lhits [] ?G (lmatch True t) n"
    by (simp_all add: v visited_def)
  define gs where "gs = concat (map (\<lambda>x. live (group_sel sn x)) xs)"
  define out where "out = share_collect rnd q sn xs 0"
  have r: "share_smatch rnd t sn q n = (out, None)"
    using v e by (simp add: share_smatch_def out_def)
  have l: "list_all2 (chosen q) gs out"
    unfolding gs_def out_def by (rule share_collect_ok [OF f])
  have G: "(sn', v) \<in> set gs \<longleftrightarrow> (\<exists>ps. tmatch t ps \<and> v \<noteq> [] \<and> map_of (ltab [] n ps) sn' = Some v \<and> (sn = [] \<or> sn' = sn))"
    for sn' v
  proof -
    have "set gs = \<Union> (?G ` set xs)"
      by (simp add: gs_def)
    then show ?thesis
      unfolding vis by (simp add: lhits_def lmatch_parent live_group_sel [OF g])
  qed
  have tab: "share_tab n ps sn' = map_of v" if "map_of (ltab [] n ps) sn' = Some v" for ps sn' v
    using that by (simp add: share_tab_def members_def)
  have one: "\<exists>ps sn' g. tmatch t ps \<and> (sn = [] \<or> sn' = sn) \<and> share_tab n ps sn' c = Some g \<and> s = qos_sub (min q g)"
    if "(c, s) \<in> set out" for c s
  proof -
    obtain i where i: "i < length out" "out ! i = (c, s)"
      using \<open>(c, s) \<in> set out\<close> by (auto simp: in_set_conv_nth)
    obtain sn' v where gi: "gs ! i = (sn', v)"
      by fastforce
    have ch: "chosen q (sn', v) (c, s)" and m: "(sn', v) \<in> set gs"
      using l i gi list_all2_nthD2 [OF l i(1)] list_all2_lengthD [OF l] nth_mem [of i gs] by simp_all
    obtain ps where ps: "tmatch t ps" "map_of (ltab [] n ps) sn' = Some v" "sn = [] \<or> sn' = sn"
      using m G by blast
    obtain h where h: "(c, h) \<in> set v" "s = qos_sub (min q h)"
      using ch by (auto simp: chosen_def)
    have "distinct (map fst v)"
      using groups_okD [OF g ps(2)] by (simp add: uniq_def)
    then have "share_tab n ps sn' c = Some h"
      using tab [OF ps(2)] h(1) by simp
    then show ?thesis
      using ps h(2) by blast
  qed
  have all: "\<exists>(c, s) \<in> set out. share_tab n ps sn' c \<noteq> None"
    if a: "tmatch t ps" "sn = [] \<or> sn' = sn" "share_tab n ps sn' \<noteq> Map.empty" for ps sn'
  proof -
    obtain v where v: "map_of (ltab [] n ps) sn' = Some v" "v \<noteq> []"
      using a(3) by (auto simp: share_tab_def members_def split: option.splits)
    then have "(sn', v) \<in> set gs"
      using G a by blast
    then obtain i where i: "i < length gs" "gs ! i = (sn', v)"
      by (auto simp: in_set_conv_nth)
    obtain c s where cs: "out ! i = (c, s)"
      by fastforce
    have "chosen q (sn', v) (c, s)" "(c, s) \<in> set out"
      using i cs list_all2_nthD [OF l i(1)] list_all2_lengthD [OF l] nth_mem [of i out] by simp_all
    then show ?thesis
      using tab [OF v(1)] by (auto simp: chosen_def map_of_eq_None_iff image_iff intro!: bexI [of _ "(c, s)"]) force
  qed
  show ?thesis
    unfolding r using one all by auto
qed

end
