(* ===== verification/MessageStore.thy ===== *)
theory MessageStore
  imports SafeMap Publish
begin

text \<open>
  The in-memory message store, broker/impl/store/mem_message.go: the will messages by
  client and the retained messages by topic, each in a \<open>SafeMap\<close>. A string is a byte list.
  No method returns an error except the two readers, for a missing key.
\<close>

record 'm msgstore =
  willTable :: "(bytes, 'm) safemap"
  retainTable :: "(bytes, 'm) safemap"

definition NewMemMsgStore :: "'m msgstore" where
  "NewMemMsgStore = \<lparr>willTable = NewSafeMap, retainTable = NewSafeMap\<rparr>"

definition StoreWillMessage :: "bytes \<Rightarrow> 'm \<Rightarrow> 'm msgstore \<Rightarrow> 'm msgstore" where
  "StoreWillMessage cid msg st = st\<lparr>willTable := Set cid msg (willTable st)\<rparr>"

definition ClearWillMessage :: "bytes \<Rightarrow> 'm msgstore \<Rightarrow> 'm msgstore" where
  "ClearWillMessage cid st = st\<lparr>willTable := Del cid (willTable st)\<rparr>"

definition GetWillMessage :: "bytes \<Rightarrow> 'm msgstore \<Rightarrow> string + 'm" where
  "GetWillMessage cid st = (case Get cid (willTable st) of Some m \<Rightarrow> Inr m | None \<Rightarrow> Inl ''no will msg'')"

definition StoreRetainMessage :: "bytes \<Rightarrow> 'm \<Rightarrow> 'm msgstore \<Rightarrow> 'm msgstore" where
  "StoreRetainMessage t msg st = st\<lparr>retainTable := Set t msg (retainTable st)\<rparr>"

definition ClearRetainMessage :: "bytes \<Rightarrow> 'm msgstore \<Rightarrow> 'm msgstore" where
  "ClearRetainMessage t st = st\<lparr>retainTable := Del t (retainTable st)\<rparr>"

definition GetRetainMessage :: "bytes \<Rightarrow> 'm msgstore \<Rightarrow> string + 'm" where
  "GetRetainMessage t st = (case Get t (retainTable st) of Some m \<Rightarrow> Inr m | None \<Rightarrow> Inl ''no retain msg'')"

definition GetAllRetainMsg :: "'m msgstore \<Rightarrow> 'm list" where
  "GetAllRetainMsg st = fst (Range (\<lambda>k v ret. (ret @ [v], None :: unit option)) (retainTable st) [])"

section \<open>The store as two maps\<close>

definition store_wf :: "'m msgstore \<Rightarrow> bool" where
  "store_wf st \<longleftrightarrow> sm_wf (willTable st) \<and> sm_wf (retainTable st)"

definition wills :: "'m msgstore \<Rightarrow> bytes \<rightharpoonup> 'm" where
  "wills st = sm_abs (willTable st)"

definition retained :: "'m msgstore \<Rightarrow> bytes \<rightharpoonup> 'm" where
  "retained st = sm_abs (retainTable st)"

lemma NewMemMsgStore_ok: "store_wf NewMemMsgStore" "wills NewMemMsgStore = Map.empty" "retained NewMemMsgStore = Map.empty"
  by (simp_all add: store_wf_def wills_def retained_def NewMemMsgStore_def NewSafeMap_ok)

lemma store_ops_wf [simp]:
  "store_wf st \<Longrightarrow> store_wf (StoreWillMessage c m st)" "store_wf st \<Longrightarrow> store_wf (ClearWillMessage c st)"
  "store_wf st \<Longrightarrow> store_wf (StoreRetainMessage t m st)" "store_wf st \<Longrightarrow> store_wf (ClearRetainMessage t st)"
  by (simp_all add: store_wf_def StoreWillMessage_def ClearWillMessage_def StoreRetainMessage_def ClearRetainMessage_def
      Set_ok Del_def sm_del_ok)

lemma store_ops [simp]:
  assumes "store_wf st"
  shows "wills (StoreWillMessage c m st) = (wills st)(c \<mapsto> m)" "retained (StoreWillMessage c m st) = retained st"
    "wills (ClearWillMessage c st) = (wills st)(c := None)" "retained (ClearWillMessage c st) = retained st"
    "retained (StoreRetainMessage t m st) = (retained st)(t \<mapsto> m)" "wills (StoreRetainMessage t m st) = wills st"
    "retained (ClearRetainMessage t st) = (retained st)(t := None)" "wills (ClearRetainMessage t st) = wills st"
  using assms by (simp_all add: store_wf_def wills_def retained_def StoreWillMessage_def ClearWillMessage_def
      StoreRetainMessage_def ClearRetainMessage_def Set_ok Del_def sm_del_ok)

lemma store_gets:
  "GetWillMessage c st = (case wills st c of Some m \<Rightarrow> Inr m | None \<Rightarrow> Inl ''no will msg'')"
  "GetRetainMessage t st = (case retained st t of Some m \<Rightarrow> Inr m | None \<Rightarrow> Inl ''no retain msg'')"
  by (simp_all add: GetWillMessage_def GetRetainMessage_def wills_def retained_def Get_abs)

lemma range_values:
  "range_entries (\<lambda>k v ret. (ret @ [v], None)) es s = (s @ map snd es, None)"
  by (induction es arbitrary: s) auto

lemma GetAllRetainMsg_set:
  assumes "store_wf st"
  shows "set (GetAllRetainMsg st) = ran (retained st)"
proof -
  let ?m = "retainTable st"
  have d: "sm_wf ?m"
    using assms by (simp add: store_wf_def)
  have l: "GetAllRetainMsg st = map snd (dirtyOld ?m @ dirtyNew ?m)"
    by (simp add: GetAllRetainMsg_def Range_def range_values)
  have "retained st = map_of (dirtyOld ?m @ dirtyNew ?m)"
    by (simp add: retained_def sm_abs_def map_of_append)
  moreover have "distinct (map fst (dirtyOld ?m @ dirtyNew ?m))"
    using d by (auto simp: sm_wf_def)
  ultimately show ?thesis
    using ran_distinct [of "dirtyOld ?m @ dirtyNew ?m"] by (simp add: l image_Un)
qed

end
