(* ===== verification/Topics.thy ===== *)
theory Topics
  imports ShareTopics MessageStore
begin

text \<open>
  The topic manager, broker/impl/topic/topic.go: it hands a subscription, a cancellation
  or a lookup to the system topics, the shared subscriptions or its own tree, by the prefix
  of the topic (\<open>util/topic.go\<close>), and keeps the retained messages in its tree and in the
  message store. A subscriber is optional: None is nil. The locks make a call one step.
\<close>

definition sharePrefix :: bytes where
  "sharePrefix = [0x24, 0x73, 0x68, 0x61, 0x72, 0x65, 0x2F]"

definition sysPrefix :: bytes where
  "sysPrefix = [0x24, 0x73, 0x79, 0x73, 0x2F]"

definition ShareTopicPrefixLen :: nat where "ShareTopicPrefixLen = length sharePrefix"

definition SysTopicPrefixLen :: nat where "SysTopicPrefixLen = length sysPrefix"

definition IsShareSub :: "bytes \<Rightarrow> bool" where
  "IsShareSub t \<longleftrightarrow> take (length sharePrefix) t = sharePrefix"

definition IsSysSub :: "bytes \<Rightarrow> bool" where
  "IsSysSub t \<longleftrightarrow> take (length sysPrefix) t = sysPrefix"

record 'c memtopic =
  t_sroot :: "'c snode"
  t_rroot :: rnode
  t_sys :: "'c sysnode"
  t_share :: "'c sharetopics"
  t_store :: "publish msgstore"

definition topics_NewMemProvider :: "publish msgstore \<Rightarrow> 'c memtopic" where
  "topics_NewMemProvider st = \<lparr>t_sroot = newSNode, t_rroot = newRNode, t_sys = newRSNode,
     t_share = share_NewMemProvider, t_store = st\<rparr>"

definition SetStore :: "publish msgstore \<Rightarrow> 'c memtopic \<Rightarrow> 'c memtopic" where
  "SetStore st t = t\<lparr>t_store := st\<rparr>"

text \<open>
  The scan for the end of the share name: the position of the first separator after the
  prefix, or none, or an error on a wildcard before it.
\<close>

fun share_scan :: "nat \<Rightarrow> bytes \<Rightarrow> string + nat" where
  "share_scan i [] = Inr 0"
| "share_scan i (b # bs) =
     (if b = c_sep then Inr i
      else if b = c_swc \<or> b = c_mwc then Inl ''not allowed '+' or '#' in the {share_name}''
      else share_scan (Suc i) bs)"

text \<open>The share name and the filter behind it; None when what follows is too short.\<close>

definition share_split :: "bytes \<Rightarrow> string + (bytes \<times> bytes) option" where
  "share_split t =
     (case share_scan 0 (drop ShareTopicPrefixLen t) of
        Inl e \<Rightarrow> Inl e
      | Inr i \<Rightarrow>
          let index = ShareTopicPrefixLen + i in
          if index = ShareTopicPrefixLen then Inl ''topic format error''
          else if length t \<ge> 2 + index \<and> t ! index = c_sep
          then Inr (Some (take i (drop ShareTopicPrefixLen t), drop (index + 1) t))
          else Inr None)"

definition Subscribe :: "sub \<Rightarrow> 'c option \<Rightarrow> 'c memtopic \<Rightarrow> 'c memtopic \<times> byte \<times> string option" where
  "Subscribe s0 who t =
     (if \<not> ValidQos (Qos s0) then (t, QosFailure, Some ''invalid QoS'')
      else case who of
        None \<Rightarrow> (t, QosFailure, Some ''subscriber cannot be nil'')
      | Some c \<Rightarrow>
          let s = s0\<lparr>Qos := util_Qos (Qos s0)\<rparr> in
          if IsSysSub (Topic s) then
            (case sys_Subscribe (s\<lparr>Topic := drop SysTopicPrefixLen (Topic s)\<rparr>) (Some c) (t_sys t) of
               (n, q, e) \<Rightarrow> (t\<lparr>t_sys := n\<rparr>, q, e))
          else if IsShareSub (Topic s) then
            (case share_split (Topic s) of
               Inl e \<Rightarrow> (t, QosFailure, Some e)
             | Inr None \<Rightarrow> (t, QosFailure, Some ''topic format error'')
             | Inr (Some (sn, f)) \<Rightarrow>
                 (case share_Subscribe sn (s\<lparr>Topic := f\<rparr>) (Some c) (t_share t) of
                    (n, q, e) \<Rightarrow> (t\<lparr>t_share := n\<rparr>, q, e)))
          else (case sinsert s c (t_sroot t) of
                  (n, Some e) \<Rightarrow> (t\<lparr>t_sroot := n\<rparr>, QosFailure, Some e)
                | (n, None) \<Rightarrow> (t\<lparr>t_sroot := n\<rparr>, Qos s, None)))"

text \<open>A share name with nothing behind it is not an error here; it goes to the tree.\<close>

definition Unsubscribe :: "bytes \<Rightarrow> 'c option \<Rightarrow> 'c memtopic \<Rightarrow> 'c memtopic \<times> string option" where
  "Unsubscribe tp who t =
     (if IsSysSub tp then
        (case sys_Unsubscribe (drop SysTopicPrefixLen tp) who (t_sys t) of (n, e) \<Rightarrow> (t\<lparr>t_sys := n\<rparr>, e))
      else
        (let tree = (case sremove tp who (t_sroot t) of (n, e) \<Rightarrow> (t\<lparr>t_sroot := n\<rparr>, e)) in
         if IsShareSub tp then
           (case share_split tp of
              Inl e \<Rightarrow> (t, Some e)
            | Inr (Some (sn, f)) \<Rightarrow>
                (case share_Unsubscribe f sn who (t_share t) of (n, e) \<Rightarrow> (t\<lparr>t_share := n\<rparr>, e))
            | Inr None \<Rightarrow> tree)
         else tree))"

text \<open>
  The lists \<open>subs\<close> and \<open>qoss\<close> are one list \<open>out\<close>; the early errors leave it as it was. With a share name
  the shared subscribers come first; \<open>share.Subscribers\<close> resets the lists, \<open>smatch\<close> appends.
\<close>

definition Subscribers :: "(nat \<Rightarrow> nat \<Rightarrow> nat) \<Rightarrow> bytes \<Rightarrow> byte \<Rightarrow> ('c \<times> sub) list \<Rightarrow> bool \<Rightarrow> bytes \<Rightarrow> bool \<Rightarrow>
    'c memtopic \<Rightarrow> ('c \<times> sub) list \<times> string option" where
  "Subscribers rnd tp qos out svc shareName onlyShare t =
     (if \<not> ValidQos qos then (out, Some ''invalid QoS'')
      else if \<not> svc \<and> length tp > 0 \<and> hd tp = c_sys then
        (out, Some ''memtopic/Subscribers: Cannot publish to $ topic'')
      else if svc then
        (if IsSysSub tp then sys_Subscribers (drop SysTopicPrefixLen tp) qos [] (t_sys t)
         else ([], Some ''memtopic/Subscribers: Publish error message to $sys/ topic''))
      else if shareName \<noteq> [] then
        (case share_Subscribers rnd tp shareName qos [] (t_share t) of
           (out1, Some e) \<Rightarrow> (out1, Some e)
         | (out1, None) \<Rightarrow>
             if onlyShare then (out1, None)
             else (case smatch tp qos (t_sroot t) of (out2, e) \<Rightarrow> (out1 @ out2, e)))
      else if onlyShare then share_Subscribers rnd tp [] qos [] (t_share t)
      else smatch tp qos (t_sroot t))"

definition topics_AllSubInfo :: "'c memtopic \<Rightarrow> (bytes \<times> bytes list) list" where
  "topics_AllSubInfo t = AllSubInfo (t_share t)"

section \<open>Retained messages\<close>

text \<open>An empty payload deletes; None is a panic of the codec.\<close>

definition topics_Retain :: "uint64 \<Rightarrow> publish \<Rightarrow> 'c memtopic \<Rightarrow> ('c memtopic \<times> goerr option) option" where
  "topics_Retain g msg t =
     (if length (payload msg) = 0 then
        (case rremove (topic msg) (t_rroot t) of
           (n, e) \<Rightarrow> Some (t\<lparr>t_store := ClearRetainMessage (topic msg) (t_store t), t_rroot := n\<rparr>, map_option Errorf e))
      else map_option (\<lambda>(n, e). (t\<lparr>t_store := StoreRetainMessage (topic msg) msg (t_store t), t_rroot := n\<rparr>, e))
             (rinsert g (topic msg) msg (t_rroot t)))"

definition topics_Retained :: "bytes \<Rightarrow> 'c memtopic \<Rightarrow> publish list \<times> string option" where
  "topics_Retained tp t = rmatch tp (t_rroot t)"

section \<open>Routing\<close>

definition topics_wf :: "'c memtopic \<Rightarrow> bool" where
  "topics_wf t \<longleftrightarrow> sn_wf (t_sroot t) \<and> sys_wf (t_sys t) \<and> share_wf (sh_sroot (t_share t))
     \<and> rn_wf (t_rroot t) \<and> store_wf (t_store t)"

lemma topics_new_wf: "store_wf st \<Longrightarrow> topics_wf (topics_NewMemProvider st)"
  by (simp add: topics_wf_def topics_NewMemProvider_def newRSNode_ok share_NewMemProvider_def share_newSNode_ok)

lemma share_scan_plain:
  "c_sep \<notin> set sn \<Longrightarrow> c_mwc \<notin> set sn \<Longrightarrow> c_swc \<notin> set sn \<Longrightarrow> share_scan i (sn @ c_sep # f) = Inr (i + length sn)"
  by (induction sn arbitrary: i) auto

lemma share_split_ok:
  assumes "sn \<noteq> []" and "c_sep \<notin> set sn" "c_mwc \<notin> set sn" "c_swc \<notin> set sn" and "f \<noteq> []"
  shows "share_split (sharePrefix @ sn @ c_sep # f) = Inr (Some (sn, f))"
proof -
  have l: "length sharePrefix = 7"
    by (simp add: sharePrefix_def)
  show ?thesis
    using assms share_scan_plain [of sn 0 f]
    by (simp add: share_split_def ShareTopicPrefixLen_def l nth_append Suc_le_eq)
qed

lemma prefixes [simp]:
  "IsShareSub (sharePrefix @ r)" "\<not> IsSysSub (sharePrefix @ r)" "IsSysSub (sysPrefix @ r)"
  by (simp_all add: IsShareSub_def IsSysSub_def sharePrefix_def sysPrefix_def)

lemma plain_prefix: "t = [] \<or> hd t \<noteq> c_sys \<Longrightarrow> \<not> IsSysSub t \<and> \<not> IsShareSub t"
  by (cases t) (auto simp: IsShareSub_def IsSysSub_def sharePrefix_def sysPrefix_def)

lemma ValidQos_util: "ValidQos q \<Longrightarrow> util_Qos q = q"
  by (auto simp: ValidQos_def util_Qos_def MaxQosAllowed_def)

text \<open>
  The effect of a subscription: on success the granted QoS is the requested one and exactly
  one of the three tables gains the entry; on failure no table changes.
\<close>

definition tables :: "'c memtopic \<Rightarrow> (bytes list \<Rightarrow> 'c \<rightharpoonup> sub) \<times> (bytes list \<Rightarrow> 'c \<rightharpoonup> byte) \<times> (bytes list \<Rightarrow> bytes \<Rightarrow> 'c \<rightharpoonup> byte)" where
  "tables t = (tab (t_sroot t), sys_tab (t_sys t), share_tab (sh_sroot (t_share t)))"

lemma sys_Subscribe_ok:
  assumes wf: "sys_wf n" and q: "ValidQos (Qos s)"
  shows "case sys_Subscribe s (Some c) n of (n', g, e) \<Rightarrow> sys_wf n' \<and>
     (case path (Topic s) of
        Some ps \<Rightarrow> e = None \<and> g = Qos s \<and> sys_tab n' = (sys_tab n)(ps := (sys_tab n ps)(c \<mapsto> Qos s))
      | None \<Rightarrow> e \<noteq> None \<and> g = QosFailure \<and> sys_tab n' = sys_tab n)"
proof -
  have "s\<lparr>Qos := util_Qos (Qos s)\<rparr> = s"
    using q by (simp add: ValidQos_util)
  then show ?thesis
    using q sys_sinsert_ok [OF wf, of s c] by (auto simp: sys_Subscribe_def Let_def split: prod.splits option.splits)
qed

lemma share_Subscribe_ok:
  assumes wf: "share_wf (sh_sroot n)" and q: "ValidQos (Qos s)"
  shows "case share_Subscribe sn s (Some c) n of (n', g, e) \<Rightarrow> share_wf (sh_sroot n') \<and>
     (case path (Topic s) of
        Some ps \<Rightarrow> e = None \<and> g = Qos s \<and> share_tab (sh_sroot n') = (share_tab (sh_sroot n))
          (ps := (share_tab (sh_sroot n) ps)(sn := (share_tab (sh_sroot n) ps sn)(c \<mapsto> Qos s)))
      | None \<Rightarrow> e \<noteq> None \<and> g = QosFailure \<and> share_tab (sh_sroot n') = share_tab (sh_sroot n))"
proof -
  have "s\<lparr>Qos := util_Qos (Qos s)\<rparr> = s"
    using q by (simp add: ValidQos_util)
  then show ?thesis
    using q share_sinsert_ok [OF wf, of sn s c] by (auto simp: share_Subscribe_def Let_def split: prod.splits option.splits)
qed

lemma Subscribe_plain:
  assumes wf: "topics_wf t" and q: "ValidQos (Qos s)" and p: "\<not> IsSysSub (Topic s)" "\<not> IsShareSub (Topic s)"
  shows "case Subscribe s (Some c) t of (t', g, e) \<Rightarrow> topics_wf t' \<and>
     (case path (Topic s) of
        Some ps \<Rightarrow> e = None \<and> g = Qos s
          \<and> tables t' = ((tab (t_sroot t))(ps := (tab (t_sroot t) ps)(c \<mapsto> s\<lparr>Topic := []\<rparr>)), snd (tables t))
      | None \<Rightarrow> e \<noteq> None \<and> g = QosFailure \<and> tables t' = tables t)"
proof -
  have s: "s\<lparr>Qos := util_Qos (Qos s)\<rparr> = s"
    using q by (simp add: ValidQos_util)
  have w: "sn_wf (t_sroot t)"
    using wf by (simp add: topics_wf_def)
  show ?thesis
    using q p wf sinsert_ok [OF w, of s c]
    by (auto simp: Subscribe_def Let_def s topics_wf_def tables_def split: prod.splits option.splits)
qed

lemma Subscribe_share:
  assumes wf: "topics_wf t" and q: "ValidQos (Qos s)" and tp: "Topic s = sharePrefix @ sn @ c_sep # f"
    and sn: "sn \<noteq> []" "c_sep \<notin> set sn" "c_mwc \<notin> set sn" "c_swc \<notin> set sn" "f \<noteq> []"
  shows "case Subscribe s (Some c) t of (t', g, e) \<Rightarrow> topics_wf t' \<and>
     (case path f of
        Some ps \<Rightarrow> e = None \<and> g = Qos s \<and> tables t' = (tab (t_sroot t), sys_tab (t_sys t),
          (share_tab (sh_sroot (t_share t)))(ps := (share_tab (sh_sroot (t_share t)) ps)
             (sn := (share_tab (sh_sroot (t_share t)) ps sn)(c \<mapsto> Qos s))))
      | None \<Rightarrow> e \<noteq> None \<and> g = QosFailure \<and> tables t' = tables t)"
proof -
  have s: "s\<lparr>Qos := util_Qos (Qos s)\<rparr> = s"
    using q by (simp add: ValidQos_util)
  have w: "share_wf (sh_sroot (t_share t))"
    using wf by (simp add: topics_wf_def)
  have sp: "share_split (Topic s) = Inr (Some (sn, f))"
    using share_split_ok [OF sn] tp by simp
  show ?thesis
    using q tp sp wf share_Subscribe_ok [OF w, of "s\<lparr>Topic := f\<rparr>" sn c]
    by (auto simp: Subscribe_def Let_def s topics_wf_def tables_def split: prod.splits option.splits)
qed

lemma Subscribe_sys:
  assumes wf: "topics_wf t" and q: "ValidQos (Qos s)" and tp: "Topic s = sysPrefix @ f"
  shows "case Subscribe s (Some c) t of (t', g, e) \<Rightarrow> topics_wf t' \<and>
     (case path f of
        Some ps \<Rightarrow> e = None \<and> g = Qos s \<and> tables t' = (tab (t_sroot t),
          (sys_tab (t_sys t))(ps := (sys_tab (t_sys t) ps)(c \<mapsto> Qos s)), share_tab (sh_sroot (t_share t)))
      | None \<Rightarrow> e \<noteq> None \<and> g = QosFailure \<and> tables t' = tables t)"
proof -
  have s: "s\<lparr>Qos := util_Qos (Qos s)\<rparr> = s"
    using q by (simp add: ValidQos_util)
  have w: "sys_wf (t_sys t)"
    using wf by (simp add: topics_wf_def)
  show ?thesis
    using q tp wf sys_Subscribe_ok [OF w, of "s\<lparr>Topic := f\<rparr>" c]
    by (auto simp: Subscribe_def Let_def s topics_wf_def tables_def SysTopicPrefixLen_def split: prod.splits option.splits)
qed

end
