(* ===== verification/PacketIds.thy ===== *)
theory PacketIds
  imports Prelude
begin

text \<open>
  The packet identifier limiter of util/pkid: a bitmap of identifiers in use and a
  limiter that hands out identifiers below a limit, the receive maximum of the client.
  Identifiers and counters are 16-bit words, so sizes and limits wrap around.
  The condition variable is modelled by its effect: a call that has to wait yields
  \<open>Blocked\<close>. None is an index panic.
\<close>

section \<open>The bitmap (util/pkid/bitmap.go)\<close>

record bitmap =
  bm_vals :: bytes
  bm_size :: uint16

definition MaxSize :: uint16 where "MaxSize = 65535"

definition NewBitmap :: "uint16 \<Rightarrow> bitmap" where
  "NewBitmap size0 =
     (let size = (if size0 = 0 \<or> size0 \<ge> MaxSize then MaxSize
                  else if size0 mod 8 \<noteq> 0 then size0 + (8 - size0 mod 8) else size0) in
      \<lparr>bm_vals = replicate (unat (drop_bit 3 size + 1)) 0, bm_size = size\<rparr>)"

definition bm_Set :: "uint16 \<Rightarrow> byte \<Rightarrow> bitmap \<Rightarrow> (bitmap \<times> bool) option" where
  "bm_Set offset value b =
     (if bm_size b < offset then Some (b, False)
      else let index = unat (drop_bit 3 offset); pos = unat (offset AND 7) in
        if index < length (bm_vals b) then
          let v = bm_vals b ! index in
          Some (b\<lparr>bm_vals := (bm_vals b)[index :=
            (if value = 0 then v AND NOT (push_bit pos 1) else v OR push_bit pos 1)]\<rparr>, True)
        else None)"

definition bm_Get :: "uint16 \<Rightarrow> bitmap \<Rightarrow> byte option" where
  "bm_Get offset b =
     (if bm_size b < offset then Some 0
      else let index = unat (drop_bit 3 offset); pos = unat (offset AND 7) in
        if index < length (bm_vals b) then Some (drop_bit pos (bm_vals b ! index) AND 1) else None)"

section \<open>The limiter (util/pkid/pkid.go)\<close>

record limiter =
  used :: uint16
  limit :: uint16
  exit :: bool
  lockedPid :: bitmap
  freePid :: uint16

definition MaxPacketID :: uint16 where "MaxPacketID = 65535"
definition MinPacketID :: uint16 where "MinPacketID = 1"

definition newPacketIDLimiter :: "uint16 \<Rightarrow> limiter" where
  "newPacketIDLimiter l =
     \<lparr>used = 0, limit = l, exit = False, lockedPid = NewBitmap (l + 1), freePid = MinPacketID\<rparr>"

definition NewPacketIDLimiter :: "uint16 list \<Rightarrow> limiter" where
  "NewPacketIDLimiter ls =
     (case ls of [] \<Rightarrow> newPacketIDLimiter MaxPacketID | l # _ \<Rightarrow> newPacketIDLimiter l)"

definition lim_Close :: "limiter \<Rightarrow> limiter" where
  "lim_Close p = p\<lparr>exit := True\<rparr>"

definition next_pid :: "limiter \<Rightarrow> limiter" where
  "next_pid p = p\<lparr>freePid := (if freePid p = limit p then MinPacketID else freePid p + 1)\<rparr>"

text \<open>\<open>for p.lockedPid.Get(p.freePid) == 1 { ... }\<close>: None if it panics or never ends\<close>

partial_function (option) skip_locked :: "limiter \<Rightarrow> limiter option" where
  "skip_locked p =
     (case bm_Get (freePid p) (lockedPid p) of
        None \<Rightarrow> None
      | Some b \<Rightarrow> if b = 1 then skip_locked (next_pid p) else Some p)"

declare skip_locked.simps [code]

definition take_one :: "limiter \<Rightarrow> (uint16 \<times> limiter) option" where
  "take_one p0 =
     (case skip_locked p0 of
        None \<Rightarrow> None
      | Some p \<Rightarrow>
          (case bm_Set (freePid p) 1 (lockedPid p) of
             None \<Rightarrow> None
           | Some (bm, _) \<Rightarrow>
               Some (freePid p, next_pid (p\<lparr>used := used p + 1, lockedPid := bm\<rparr>))))"

fun take_ids :: "nat \<Rightarrow> limiter \<Rightarrow> (uint16 list \<times> limiter) option" where
  "take_ids 0 p = Some ([], p)"
| "take_ids (Suc n) p =
     (case take_one p of
        None \<Rightarrow> None
      | Some (i, p1) \<Rightarrow> map_option (\<lambda>(ids, p2). (i # ids, p2)) (take_ids n p1))"

datatype polled = Blocked | Closed | Ids "uint16 list"

definition PollPacketIDs :: "uint16 \<Rightarrow> limiter \<Rightarrow> (polled \<times> limiter) option" where
  "PollPacketIDs mx p =
     (if used p \<ge> limit p \<and> \<not> exit p then Some (Blocked, p)
      else if exit p then Some (Closed, p)
      else let remain = limit p - used p; n = (if remain < mx then remain else mx) in
        map_option (\<lambda>(ids, p'). (Ids ids, p')) (take_ids (unat n) p))"

text \<open>\<open>PollPacketID\<close>: 0 when the limiter is closed; None in the first component is a blocked call\<close>

definition PollPacketID :: "limiter \<Rightarrow> (uint16 option \<times> limiter) option" where
  "PollPacketID p =
     map_option (\<lambda>(r, p'). (case r of Blocked \<Rightarrow> None | Closed \<Rightarrow> Some 0
       | Ids ids \<Rightarrow> Some (case ids of [] \<Rightarrow> 0 | i # _ \<Rightarrow> i), p')) (PollPacketIDs 1 p)"

definition Release :: "uint16 \<Rightarrow> limiter \<Rightarrow> limiter option" where
  "Release i p =
     (case bm_Get i (lockedPid p) of
        None \<Rightarrow> None
      | Some b \<Rightarrow>
          if b = 1 then map_option (\<lambda>(bm, _). p\<lparr>lockedPid := bm, used := used p - 1\<rparr>) (bm_Set i 0 (lockedPid p))
          else Some p)"

fun BatchRelease :: "uint16 list \<Rightarrow> limiter \<Rightarrow> limiter option" where
  "BatchRelease [] p = Some p"
| "BatchRelease (i # is) p = Option.bind (Release i p) (BatchRelease is)"

definition MarkUsedLocked :: "uint16 \<Rightarrow> limiter \<Rightarrow> limiter option" where
  "MarkUsedLocked i p =
     map_option (\<lambda>(bm, _). p\<lparr>used := used p + 1, lockedPid := bm\<rparr>) (bm_Set i 1 (lockedPid p))"

section \<open>Bits of the bitmap\<close>

definition bm_wf :: "bitmap \<Rightarrow> bool" where
  "bm_wf b \<longleftrightarrow> length (bm_vals b) = unat (bm_size b) div 8 + 1"

definition bm_bit :: "bitmap \<Rightarrow> uint16 \<Rightarrow> bool" where
  "bm_bit b i \<longleftrightarrow> i \<le> bm_size b \<and> bit (bm_vals b ! (unat i div 8)) (unat i mod 8)"

lemma index_pos:
  "unat (drop_bit 3 (i :: uint16)) = unat i div 8" "unat (i AND 7) = unat i mod 8"
proof -
  show "unat (drop_bit 3 i) = unat i div 8"
    by (simp add: drop_bit_eq_div unat_div_word)
  have "i AND 7 = take_bit 3 i"
    using take_bit_eq_mask [of 3 i] by (simp add: mask_eq_exp_minus_1)
  then show "unat (i AND 7) = unat i mod 8"
    by (simp add: take_bit_eq_mod unat_mod_word)
qed

lemma bm_Get_ok:
  assumes "bm_wf b"
  shows "bm_Get i b = Some (if bm_bit b i then 1 else 0)"
proof -
  have "unat i div 8 < length (bm_vals b)" if "i \<le> bm_size b"
    using assms that by (simp add: bm_wf_def word_le_nat_alt less_Suc_eq_le div_le_mono)
  moreover have "drop_bit n v AND 1 = (if bit v n then 1 else 0)" for v :: byte and n
    by (simp add: and_one_eq odd_iff_mod_2_eq_one bit_iff_odd_drop_bit)
  ultimately show ?thesis
    by (auto simp: bm_Get_def bm_bit_def index_pos Let_def not_less)
qed

lemma bm_Set_ok:
  assumes wf: "bm_wf b" and i: "i \<le> bm_size b"
  shows "\<exists>b'. bm_Set i v b = Some (b', True) \<and> bm_wf b' \<and> bm_size b' = bm_size b
    \<and> (\<forall>j. bm_bit b' j = (if j = i then v \<noteq> 0 else bm_bit b j))"
proof -
  let ?k = "unat i div 8" and ?n = "unat i mod 8"
  have k: "?k < length (bm_vals b)"
    using wf i by (simp add: bm_wf_def word_le_nat_alt less_Suc_eq_le div_le_mono)
  let ?x = "if v = 0 then (bm_vals b ! ?k) AND NOT (push_bit ?n 1) else (bm_vals b ! ?k) OR push_bit ?n 1"
  let ?b = "b\<lparr>bm_vals := (bm_vals b)[?k := ?x]\<rparr>"
  have pb: "bit (2 ^ ?n :: byte) m \<longleftrightarrow> m = ?n" if "m < 8" for m
    using that by (simp add: bit_exp_iff)
  have x: "bit ?x m = (if m = ?n then v \<noteq> 0 else bit (bm_vals b ! ?k) m)" if "m < 8" for m
    using pb [OF that] pb [of ?n] that by (cases "m = ?n") (simp_all add: bit_and_iff bit_or_iff bit_not_iff)
  have eq: "unat j = unat i" if "unat j div 8 = ?k" "unat j mod 8 = ?n" for j :: uint16
    using that by (metis div_mult_mod_eq)
  have bits: "bm_bit ?b j = (if j = i then v \<noteq> 0 else bm_bit b j)" for j
  proof (cases "unat j div 8 = ?k")
    case True
    show ?thesis
    proof (cases "j = i")
      case True
      then show ?thesis
        using k i x [of ?n] by (simp add: bm_bit_def)
    next
      case False
      then have "unat j mod 8 \<noteq> ?n"
        using eq [OF True] by (auto simp: word_unat_eq_iff)
      then show ?thesis
        using True False k x [of "unat j mod 8"] by (simp add: bm_bit_def)
    qed
  next
    case False
    then show ?thesis
      using k by (auto simp: bm_bit_def nth_list_update)
  qed
  have "bm_Set i v b = Some (?b, True)"
    using k i by (simp add: bm_Set_def index_pos Let_def not_less)
  then show ?thesis
    using wf bits by (intro exI [of _ ?b]) (simp add: bm_wf_def)
qed

lemma bm_mark:
  assumes "bm_wf b" and "i \<le> bm_size b"
  shows "\<exists>b'. bm_Set i 1 b = Some (b', True) \<and> bm_wf b' \<and> bm_size b' = bm_size b
    \<and> (\<forall>j. bm_bit b' j = (j = i \<or> bm_bit b j))"
proof -
  obtain b' where "bm_Set i 1 b = Some (b', True)" "bm_wf b'" "bm_size b' = bm_size b"
    "\<And>j. bm_bit b' j = (if j = i then (1 :: byte) \<noteq> 0 else bm_bit b j)"
    using bm_Set_ok [OF assms, of 1] by blast
  then show ?thesis
    by (intro exI [of _ b']) simp
qed

lemma bm_clear:
  assumes "bm_wf b" and "i \<le> bm_size b"
  shows "\<exists>b'. bm_Set i 0 b = Some (b', True) \<and> bm_wf b' \<and> bm_size b' = bm_size b
    \<and> (\<forall>j. bm_bit b' j = (j \<noteq> i \<and> bm_bit b j))"
proof -
  obtain b' where "bm_Set i 0 b = Some (b', True)" "bm_wf b'" "bm_size b' = bm_size b"
    "\<And>j. bm_bit b' j = (if j = i then (0 :: byte) \<noteq> 0 else bm_bit b j)"
    using bm_Set_ok [OF assms, of 0] by blast
  then show ?thesis
    by (intro exI [of _ b']) simp
qed

text \<open>Rounding the size up to a multiple of eight stays within 16 bits up to 65528.\<close>

lemma NewBitmap_wf: "bm_wf (NewBitmap s)"
proof -
  have "unat (drop_bit 3 (x :: uint16) + 1) = unat x div 8 + 1" for x
  proof -
    have "unat (drop_bit 3 x) = unat x div 8"
      by (rule index_pos)
    moreover have "unat x < 65536"
      using unsigned_less [of x] by simp
    then have "unat x div 8 + 1 < 65536"
      by simp
    ultimately show ?thesis
      by (simp add: unat_word_ariths)
  qed
  then show ?thesis
    by (simp add: NewBitmap_def bm_wf_def Let_def)
qed

lemma NewBitmap_empty: "\<not> bm_bit (NewBitmap s) j"
proof
  assume b: "bm_bit (NewBitmap s) j"
  let ?b = "NewBitmap s"
  have "unat j div 8 < length (bm_vals ?b)"
    using b NewBitmap_wf [of s] by (simp add: bm_wf_def bm_bit_def word_le_nat_alt less_Suc_eq_le div_le_mono)
  then have "bm_vals ?b ! (unat j div 8) = 0"
    by (auto simp: NewBitmap_def Let_def)
  then show False
    using b by (simp add: bm_bit_def)
qed

definition good_limit :: "uint16 \<Rightarrow> bool" where
  "good_limit l \<longleftrightarrow> l \<noteq> 0 \<and> (l \<le> 65527 \<or> 65534 \<le> l)"

lemma NewBitmap_size:
  assumes "good_limit l"
  shows "l \<le> bm_size (NewBitmap (l + 1))"
proof -
  have cases: "l = 65534 \<or> l = 65535 \<or> unat l \<le> 65527"
  proof -
    have "unat l = 65534 \<or> unat l = 65535" if "65534 \<le> unat l"
    proof -
      have "unat l < 65536"
        using unsigned_less [of l] by simp
      then show ?thesis
        using that by linarith
    qed
    then show ?thesis
      using assms by (auto simp: good_limit_def word_le_nat_alt word_unat_eq_iff)
  qed
  show ?thesis
  proof (cases "unat l \<le> 65527")
    case True
    let ?s = "l + 1"
    have s: "unat ?s = unat l + 1"
      using True by (simp add: unat_word_ariths)
    have nz: "?s \<noteq> 0" "\<not> ?s \<ge> MaxSize"
      using True s by (auto simp: word_le_nat_alt MaxSize_def simp flip: unat_eq_zero)
    have m: "unat (?s mod 8) = (unat l + 1) mod 8"
      by (simp add: unat_mod_word s)
    have "unat ?s \<le> unat (?s + (8 - ?s mod 8))" if "?s mod 8 \<noteq> 0"
    proof -
      have a: "unat (8 - ?s mod 8) = 8 - (unat l + 1) mod 8"
        using m by (subst unat_sub) (simp_all add: word_le_nat_alt)
      have nz: "(unat l + 1) mod 8 \<noteq> 0"
        using that m by (simp flip: unat_eq_zero)
      then have "unat ?s + unat (8 - ?s mod 8) < 65536"
        using True unfolding a s by presburger
      then show ?thesis
        using unat_word_ariths(1) [of ?s "8 - ?s mod 8"] by simp
    qed
    then show ?thesis
      using nz s by (auto simp: NewBitmap_def Let_def word_le_nat_alt)
  next
    case False
    then show ?thesis
      using cases by (auto simp: NewBitmap_def Let_def MaxSize_def)
  qed
qed

section \<open>The invariant of the limiter\<close>

definition inflight :: "limiter \<Rightarrow> uint16 set" where
  "inflight p = {i. bm_bit (lockedPid p) i}"

definition lim_wf :: "limiter \<Rightarrow> bool" where
  "lim_wf p \<longleftrightarrow> bm_wf (lockedPid p) \<and> limit p \<noteq> 0 \<and> limit p \<le> bm_size (lockedPid p)
     \<and> freePid p \<noteq> 0 \<and> freePid p \<le> limit p
     \<and> inflight p \<subseteq> {i. i \<noteq> 0 \<and> i \<le> limit p} \<and> unat (used p) = card (inflight p)"

lemma new_limiter_wf:
  assumes "good_limit l"
  shows "lim_wf (newPacketIDLimiter l)" and "inflight (newPacketIDLimiter l) = {}"
proof -
  show e: "inflight (newPacketIDLimiter l) = {}"
    by (simp add: inflight_def newPacketIDLimiter_def NewBitmap_empty)
  have "1 \<le> l"
    using assms by (simp add: good_limit_def word_le_nat_alt Suc_le_eq unat_gt_0)
  then show "lim_wf (newPacketIDLimiter l)"
    unfolding lim_wf_def e
    using assms NewBitmap_size [OF assms] NewBitmap_wf [of "l + 1"]
    by (simp add: newPacketIDLimiter_def MinPacketID_def good_limit_def)
qed

lemma ids_card: "card {i :: uint16. i \<noteq> 0 \<and> i \<le> l} = unat l"
proof -
  have "{i :: uint16. i \<noteq> 0 \<and> i \<le> l} = word_of_nat ` {1..unat l}"
  proof (intro set_eqI iffI)
    fix i :: uint16 assume "i \<in> {i. i \<noteq> 0 \<and> i \<le> l}"
    then have "unat i \<in> {1..unat l}" "i = word_of_nat (unat i)"
      by (simp_all add: word_le_nat_alt Suc_le_eq unat_gt_0)
    then show "i \<in> word_of_nat ` {1..unat l}"
      by blast
  next
    fix i :: uint16 assume "i \<in> word_of_nat ` {1..unat l}"
    then obtain n where n: "i = word_of_nat n" "1 \<le> n" "n \<le> unat l"
      by auto
    have "unat l < 65536"
      using unsigned_less [of l] by simp
    then have "unat i = n"
      using n by (simp add: unat_of_nat)
    then show "i \<in> {i. i \<noteq> 0 \<and> i \<le> l}"
      using n(2,3) by (auto simp: word_le_nat_alt)
  qed
  moreover have "inj_on (word_of_nat :: nat \<Rightarrow> uint16) {1..unat l}"
  proof (rule inj_onI)
    fix x y assume "x \<in> {1..unat l}" "y \<in> {1..unat l}" "(word_of_nat x :: uint16) = word_of_nat y"
    moreover have "unat l < 65536"
      using unsigned_less [of l] by simp
    ultimately show "x = y"
      by (simp add: word_of_nat_eq_iff take_bit_eq_mod)
  qed
  ultimately show ?thesis
    by (simp add: card_image)
qed

text \<open>
  The scan for a free identifier ends: the distance from the scan position to a free
  identifier, cyclically below the limit, goes down.
\<close>

definition dist_to :: "limiter \<Rightarrow> uint16 \<Rightarrow> nat" where
  "dist_to p g = (if freePid p \<le> g then unat g - unat (freePid p)
     else unat (limit p) - unat (freePid p) + unat g)"

lemma next_pid_range:
  assumes "freePid p \<noteq> 0" and "freePid p \<le> limit p"
  shows "freePid (next_pid p) \<noteq> 0" "freePid (next_pid p) \<le> limit p"
    "freePid p \<noteq> limit p \<Longrightarrow> unat (freePid (next_pid p)) = unat (freePid p) + 1"
proof -
  have lt: "unat (limit p) < 65536"
    using unsigned_less [of "limit p"] by simp
  have u: "unat (freePid p + 1) = unat (freePid p) + 1" if "freePid p \<noteq> limit p"
  proof -
    have "unat (freePid p) < unat (limit p)"
      using assms(2) that by (simp add: word_le_nat_alt le_neq_implies_less word_unat_eq_iff)
    then show ?thesis
      using lt unat_word_ariths(1) [of "freePid p" 1] by simp
  qed
  then show "freePid p \<noteq> limit p \<Longrightarrow> unat (freePid (next_pid p)) = unat (freePid p) + 1"
    by (simp add: next_pid_def)
  show "freePid (next_pid p) \<noteq> 0"
    using u by (auto simp: next_pid_def MinPacketID_def simp flip: unat_eq_zero)
  show "freePid (next_pid p) \<le> limit p"
  proof (cases "freePid p = limit p")
    case True
    then show ?thesis
      using assms by (simp add: next_pid_def MinPacketID_def word_le_nat_alt Suc_le_eq unat_gt_0)
  next
    case False
    then have "unat (freePid p) < unat (limit p)"
      using assms(2) by (simp add: word_le_nat_alt le_neq_implies_less word_unat_eq_iff)
    then show ?thesis
      using u False by (simp add: next_pid_def word_le_nat_alt)
  qed
qed

lemma dist_next:
  assumes r: "freePid p \<noteq> 0" "freePid p \<le> limit p" and g: "g \<noteq> 0" "g \<le> limit p" "freePid p \<noteq> g"
  shows "dist_to (next_pid p) g < dist_to p g"
proof -
  have ne: "unat (freePid p) \<noteq> unat g" "1 \<le> unat g"
    using unat_ne [OF g(3)] unat_ge_1 [OF g(1)] by simp_all
  have le: "unat (freePid p) \<le> unat (limit p)" "unat g \<le> unat (limit p)"
    using r g by (simp_all add: word_le_nat_alt)
  have lim: "limit (next_pid p) = limit p"
    by (simp add: next_pid_def)
  show ?thesis
  proof (cases "freePid p = limit p")
    case True
    then have "unat (freePid (next_pid p)) = 1"
      by (simp add: next_pid_def MinPacketID_def)
    then show ?thesis
      using True ne le by (auto simp: dist_to_def word_le_nat_alt lim)
  next
    case False
    then have "unat (freePid p) \<noteq> unat (limit p)"
      by (rule unat_ne)
    then show ?thesis
      using next_pid_range(3) [OF r False] ne le by (auto simp: dist_to_def word_le_nat_alt lim)
  qed
qed

lemma skip_locked_ok:
  assumes "bm_wf (lockedPid p)" and "freePid p \<noteq> 0" and "freePid p \<le> limit p"
    and "g \<noteq> 0" and "g \<le> limit p" and "\<not> bm_bit (lockedPid p) g"
  shows "\<exists>f. skip_locked p = Some (p\<lparr>freePid := f\<rparr>) \<and> f \<noteq> 0 \<and> f \<le> limit p \<and> \<not> bm_bit (lockedPid p) f"
  using assms
proof (induction "dist_to p g" arbitrary: p rule: less_induct)
  case less
  show ?case
  proof (cases "bm_bit (lockedPid p) (freePid p)")
    case False
    then show ?thesis
      using less.prems by (intro exI [of _ "freePid p"]) (simp add: skip_locked.simps bm_Get_ok)
  next
    case True
    then have ne: "freePid p \<noteq> g"
      using less.prems(6) by auto
    have n: "lockedPid (next_pid p) = lockedPid p" "limit (next_pid p) = limit p"
      by (simp_all add: next_pid_def)
    have "\<exists>f. skip_locked (next_pid p) = Some ((next_pid p)\<lparr>freePid := f\<rparr>) \<and> f \<noteq> 0
        \<and> f \<le> limit (next_pid p) \<and> \<not> bm_bit (lockedPid (next_pid p)) f"
      using less.prems next_pid_range [OF less.prems(2,3)] n
      by (intro less.hyps dist_next less.prems ne) simp_all
    moreover have "(next_pid p)\<lparr>freePid := f\<rparr> = p\<lparr>freePid := f\<rparr>" for f
      by (simp add: next_pid_def)
    ultimately show ?thesis
      using True less.prems(1) by (subst skip_locked.simps) (simp add: bm_Get_ok n)
  qed
qed

lemma take_one_ok:
  assumes wf: "lim_wf p" and room: "card (inflight p) < unat (limit p)"
  shows "\<exists>i p'. take_one p = Some (i, p') \<and> lim_wf p' \<and> i \<notin> inflight p \<and> i \<noteq> 0 \<and> i \<le> limit p
    \<and> inflight p' = insert i (inflight p) \<and> limit p' = limit p \<and> exit p' = exit p"
proof -
  have w: "bm_wf (lockedPid p)" "limit p \<noteq> 0" "limit p \<le> bm_size (lockedPid p)" "freePid p \<noteq> 0"
    "freePid p \<le> limit p" "inflight p \<subseteq> {i. i \<noteq> 0 \<and> i \<le> limit p}" "unat (used p) = card (inflight p)"
    using wf by (simp_all add: lim_wf_def)
  have "inflight p \<noteq> {i. i \<noteq> 0 \<and> i \<le> limit p}"
    using room ids_card [of "limit p"] by (metis less_irrefl)
  then obtain g where g: "g \<noteq> 0" "g \<le> limit p" "\<not> bm_bit (lockedPid p) g"
    using w(6) by (auto simp: inflight_def)
  obtain f where f: "skip_locked p = Some (p\<lparr>freePid := f\<rparr>)" "f \<noteq> 0" "f \<le> limit p"
    "\<not> bm_bit (lockedPid p) f"
    using skip_locked_ok [OF w(1,4,5) g] by blast
  have "f \<le> bm_size (lockedPid p)"
    using f(3) w(3) by simp
  then obtain bm where bm: "bm_Set f 1 (lockedPid p) = Some (bm, True)" "bm_wf bm"
    "bm_size bm = bm_size (lockedPid p)" "\<And>j. bm_bit bm j = (j = f \<or> bm_bit (lockedPid p) j)"
    using bm_mark [OF w(1)] by metis
  define q where "q = p\<lparr>freePid := f, used := used p + 1, lockedPid := bm\<rparr>"
  have q: "freePid q = f" "limit q = limit p" "exit q = exit p" "lockedPid q = bm" "used q = used p + 1"
    by (simp_all add: q_def)
  have nq: "limit (next_pid q) = limit p" "exit (next_pid q) = exit p" "lockedPid (next_pid q) = bm"
    "used (next_pid q) = used p + 1"
    by (simp_all add: next_pid_def q)
  have t: "take_one p = Some (f, next_pid q)"
    using bm(1) by (simp add: take_one_def f(1) q_def)
  have fin: "finite (inflight p)"
    by simp
  have nf: "f \<notin> inflight p"
    using f(4) by (simp add: inflight_def)
  have inf: "inflight (next_pid q) = insert f (inflight p)"
    using bm(4) by (auto simp: inflight_def nq)
  have "unat (limit p) < 65536"
    using unsigned_less [of "limit p"] by simp
  then have u: "unat (used p + 1) = card (insert f (inflight p))"
    using room w(7) nf fin unat_word_ariths(1) [of "used p" 1] by simp
  have "lim_wf (next_pid q)"
    unfolding lim_wf_def inf nq using bm(2,3) w(2,3,6) f(2,3) u next_pid_range(1,2) [of q] by (auto simp: q)
  then show ?thesis
    using t nf f inf nq by blast
qed

lemma take_ids_ok:
  "lim_wf p \<Longrightarrow> card (inflight p) + n \<le> unat (limit p) \<Longrightarrow>
   \<exists>ids p'. take_ids n p = Some (ids, p') \<and> lim_wf p' \<and> length ids = n \<and> distinct ids
     \<and> set ids \<inter> inflight p = {} \<and> set ids \<subseteq> {i. i \<noteq> 0 \<and> i \<le> limit p}
     \<and> inflight p' = inflight p \<union> set ids \<and> limit p' = limit p \<and> exit p' = exit p"
proof (induction n arbitrary: p)
  case (Suc n)
  obtain i p1 where 1: "take_one p = Some (i, p1)" "lim_wf p1" "i \<notin> inflight p" "i \<noteq> 0" "i \<le> limit p"
    "inflight p1 = insert i (inflight p)" "limit p1 = limit p" "exit p1 = exit p"
    using take_one_ok [OF Suc.prems(1)] Suc.prems(2) by auto
  have "card (inflight p1) + n \<le> unat (limit p1)"
    using Suc.prems(2) 1 by simp
  from Suc.IH [OF 1(2) this] obtain ids p2 where 2: "take_ids n p1 = Some (ids, p2)" "lim_wf p2"
    "length ids = n" "distinct ids" "set ids \<inter> inflight p1 = {}" "set ids \<subseteq> {i. i \<noteq> 0 \<and> i \<le> limit p1}"
    "inflight p2 = inflight p1 \<union> set ids" "limit p2 = limit p1" "exit p2 = exit p1"
    by blast
  show ?case
    using 1 2 by (intro exI [of _ "i # ids"] exI [of _ p2]) auto
qed simp

lemma PollPacketIDs_ok:
  assumes wf: "lim_wf p" and free: "card (inflight p) < unat (limit p)" "\<not> exit p"
  shows "\<exists>ids p'. PollPacketIDs mx p = Some (Ids ids, p') \<and> lim_wf p'
     \<and> length ids = min (unat mx) (unat (limit p) - card (inflight p)) \<and> distinct ids
     \<and> set ids \<inter> inflight p = {} \<and> set ids \<subseteq> {i. i \<noteq> 0 \<and> i \<le> limit p}
     \<and> inflight p' = inflight p \<union> set ids \<and> limit p' = limit p \<and> \<not> exit p'"
proof -
  have u: "unat (used p) = card (inflight p)"
    using wf by (simp add: lim_wf_def)
  have lt: "\<not> used p \<ge> limit p"
    using free(1) u by (simp add: word_le_nat_alt)
  have r: "unat (limit p - used p) = unat (limit p) - card (inflight p)"
    using free(1) u by (simp add: unat_sub word_le_nat_alt)
  let ?n = "unat (if limit p - used p < mx then limit p - used p else mx)"
  have n: "?n = min (unat mx) (unat (limit p) - card (inflight p))"
    by (simp add: r word_less_nat_alt min_def)
  have "card (inflight p) + ?n \<le> unat (limit p)"
    using n free(1) by simp
  from take_ids_ok [OF wf this] show ?thesis
    using lt free(2) n by (auto simp: PollPacketIDs_def Let_def)
qed

lemma Release_ok:
  assumes wf: "lim_wf p"
  shows "\<exists>p'. Release i p = Some p' \<and> lim_wf p' \<and> inflight p' = inflight p - {i} \<and> limit p' = limit p \<and> exit p' = exit p"
proof -
  have w: "bm_wf (lockedPid p)" "inflight p \<subseteq> {i. i \<noteq> 0 \<and> i \<le> limit p}" "unat (used p) = card (inflight p)"
    "limit p \<le> bm_size (lockedPid p)"
    using wf by (simp_all add: lim_wf_def)
  show ?thesis
  proof (cases "bm_bit (lockedPid p) i")
    case False
    then show ?thesis
      using wf by (auto simp: Release_def bm_Get_ok [OF w(1)] inflight_def)
  next
    case True
    then have i: "i \<in> inflight p" "i \<le> limit p"
      using w(2) by (auto simp: inflight_def)
    have "i \<le> bm_size (lockedPid p)"
      using i(2) w(4) by simp
    then obtain bm where bm: "bm_Set i 0 (lockedPid p) = Some (bm, True)" "bm_wf bm"
      "bm_size bm = bm_size (lockedPid p)" "\<And>j. bm_bit bm j = (j \<noteq> i \<and> bm_bit (lockedPid p) j)"
      using bm_clear [OF w(1)] by metis
    let ?p = "p\<lparr>lockedPid := bm, used := used p - 1\<rparr>"
    have r: "Release i p = Some ?p"
      using True bm(1) by (simp add: Release_def bm_Get_ok [OF w(1)])
    have inf: "inflight ?p = inflight p - {i}"
      using bm(4) by (auto simp: inflight_def)
    have "1 \<le> card (inflight p)"
      using i(1) by (auto simp: Suc_le_eq card_gt_0_iff)
    then have "unat (used p - 1) = card (inflight p - {i})"
      using w(3) i(1) by (subst unat_sub) (simp_all add: word_le_nat_alt)
    then have "lim_wf ?p"
      unfolding lim_wf_def inf using wf bm(2,3) by (auto simp: lim_wf_def)
    then show ?thesis
      using r inf by auto
  qed
qed

section \<open>Allocators\<close>

text \<open>
  The contract of an identifier pool towards its client: what is handed out was not in
  use, and what is given back is free again. For every sequence of calls the outstanding
  identifiers are then distinct.
\<close>

datatype 'i idop = Alloc nat | Free 'i

fun id_run :: "(nat \<Rightarrow> 'p \<Rightarrow> ('i list \<times> 'p) option) \<Rightarrow> ('i \<Rightarrow> 'p \<Rightarrow> 'p option) \<Rightarrow> 'i idop list \<Rightarrow>
    'p \<times> 'i list \<Rightarrow> ('p \<times> 'i list) option" where
  "id_run al fr [] po = Some po"
| "id_run al fr (Alloc n # ops) (p, out) =
     (case al n p of None \<Rightarrow> None | Some (ids, p') \<Rightarrow> id_run al fr ops (p', out @ ids))"
| "id_run al fr (Free i # ops) (p, out) =
     (case fr i p of None \<Rightarrow> None | Some p' \<Rightarrow> id_run al fr ops (p', removeAll i out))"

locale id_allocator =
  fixes wf :: "'p \<Rightarrow> bool" and busy :: "'p \<Rightarrow> 'i set"
    and alloc :: "nat \<Rightarrow> 'p \<Rightarrow> ('i list \<times> 'p) option" and free :: "'i \<Rightarrow> 'p \<Rightarrow> 'p option"
  assumes alloc_ok: "wf p \<Longrightarrow> \<exists>ids p'. alloc n p = Some (ids, p') \<and> wf p' \<and> distinct ids
      \<and> set ids \<inter> busy p = {} \<and> busy p' = busy p \<union> set ids"
    and free_ok: "wf p \<Longrightarrow> \<exists>p'. free i p = Some p' \<and> wf p' \<and> busy p' = busy p - {i}"
begin

lemma run_distinct:
  "wf p \<Longrightarrow> distinct out \<Longrightarrow> set out = busy p \<Longrightarrow>
   \<exists>p' out'. id_run alloc free ops (p, out) = Some (p', out') \<and> wf p' \<and> distinct out' \<and> set out' = busy p'"
proof (induction ops arbitrary: p out)
  case (Cons x ops)
  show ?case
  proof (cases x)
    case (Alloc n)
    obtain ids p1 where a: "alloc n p = Some (ids, p1)" "wf p1" "distinct ids"
      "set ids \<inter> busy p = {}" "busy p1 = busy p \<union> set ids"
      using alloc_ok [OF Cons.prems(1)] by blast
    have "distinct (out @ ids)" "set (out @ ids) = busy p1"
      using a Cons.prems by auto
    from Cons.IH [OF a(2) this] show ?thesis
      by (simp add: Alloc a(1))
  next
    case (Free i)
    obtain p1 where f: "free i p = Some p1" "wf p1" "busy p1 = busy p - {i}"
      using free_ok [OF Cons.prems(1)] by blast
    have "distinct (removeAll i out)" "set (removeAll i out) = busy p1"
      using f Cons.prems by (auto simp: distinct_removeAll)
    from Cons.IH [OF f(2) this] show ?thesis
      by (simp add: Free f(1))
  qed
qed simp

end

text \<open>The limiter as an allocator: a blocked or closed poll hands out nothing.\<close>

definition lim_alloc :: "nat \<Rightarrow> limiter \<Rightarrow> (uint16 list \<times> limiter) option" where
  "lim_alloc n p = map_option (\<lambda>(r, p'). (case r of Ids ids \<Rightarrow> ids | _ \<Rightarrow> [], p')) (PollPacketIDs (word_of_nat n) p)"

lemma lim_alloc_ok:
  assumes wf: "lim_wf p"
  shows "\<exists>ids p'. lim_alloc n p = Some (ids, p') \<and> lim_wf p' \<and> distinct ids
      \<and> set ids \<inter> inflight p = {} \<and> inflight p' = inflight p \<union> set ids"
proof (cases "used p \<ge> limit p \<or> exit p")
  case True
  then show ?thesis
    using wf by (auto simp: lim_alloc_def PollPacketIDs_def)
next
  case False
  then have "card (inflight p) < unat (limit p)" "\<not> exit p"
    using wf by (simp_all add: lim_wf_def word_le_nat_alt)
  from PollPacketIDs_ok [OF wf this, of "word_of_nat n"] show ?thesis
    by (auto simp: lim_alloc_def)
qed

lemma lim_free_ok: "lim_wf p \<Longrightarrow> \<exists>p'. Release i p = Some p' \<and> lim_wf p' \<and> inflight p' = inflight p - {i}"
  using Release_ok by blast

interpretation pool: id_allocator lim_wf inflight lim_alloc Release
  by unfold_locales (rule lim_alloc_ok, assumption, rule lim_free_ok)

section \<open>Limits whose bitmap size wraps around\<close>

lemma small_bitmap:
  assumes "65528 \<le> l" and "l \<le> 65533"
  shows "NewBitmap (l + 1) = \<lparr>bm_vals = [0], bm_size = 0\<rparr>"
proof -
  have u: "65528 \<le> unat l" "unat l \<le> 65533"
    using assms by (simp_all add: word_le_nat_alt)
  let ?s = "l + 1"
  have s: "unat ?s = unat l + 1"
    using u unat_word_ariths(1) [of l 1] by simp
  have "unat (?s mod 8) = (unat l + 1) mod 8"
    by (simp add: unat_mod_word s)
  moreover have "(unat l + 1) mod 8 = unat l + 1 - 65528"
    using u by presburger
  ultimately have m: "unat (?s mod 8) = unat l + 1 - 65528"
    by simp
  have "unat (8 - ?s mod 8) = 65535 - unat l"
    using m u by (subst unat_sub) (simp_all add: word_le_nat_alt)
  then have "unat (?s + (8 - ?s mod 8)) = 0"
    using unat_word_ariths(1) [of ?s "8 - ?s mod 8"] s u by simp
  then have z: "?s + (8 - ?s mod 8) = 0"
    by (simp add: unat_eq_zero)
  have nz: "?s mod 8 \<noteq> 0"
  proof
    assume "?s mod 8 = 0"
    then show False
      using m u by (simp only: unat_0)
  qed
  have "\<not> (?s = 0 \<or> ?s \<ge> MaxSize)"
    using s u by (auto simp: MaxSize_def word_le_nat_alt simp flip: unat_eq_zero)
  then show ?thesis
    by (simp only: NewBitmap_def Let_def if_False nz z not_False_eq_True if_True) simp
qed

text \<open>Then no identifier is ever seen as used, and giving one back changes nothing.\<close>

lemma small_bitmap_Release:
  assumes "lockedPid p = \<lparr>bm_vals = [0], bm_size = 0\<rparr>" and "i \<noteq> 0"
  shows "Release i p = Some p" and "bm_Set i 1 (lockedPid p) = Some (lockedPid p, False)"
proof -
  have "(0 :: uint16) < i"
    using assms(2) by (simp add: word_gt_0)
  then show "Release i p = Some p" "bm_Set i 1 (lockedPid p) = Some (lockedPid p, False)"
    using assms(1) by (simp_all add: Release_def bm_Get_def bm_Set_def)
qed

lemma small_skip:
  assumes "lockedPid p = \<lparr>bm_vals = [0], bm_size = 0\<rparr>" and "freePid p \<noteq> 0"
  shows "skip_locked p = Some p"
  using assms by (subst skip_locked.simps) (simp add: bm_Get_def word_gt_0)

lemma small_take_ids:
  "lockedPid p = \<lparr>bm_vals = [0], bm_size = 0\<rparr> \<Longrightarrow> freePid p \<noteq> 0 \<Longrightarrow> freePid p \<le> limit p \<Longrightarrow>
   \<exists>ids p'. take_ids n p = Some (ids, p') \<and> lockedPid p' = lockedPid p"
proof (induction n arbitrary: p)
  case (Suc n)
  let ?p = "next_pid (p\<lparr>used := used p + 1\<rparr>)"
  have "bm_Set (freePid p) 1 (lockedPid p) = Some (lockedPid p, False)"
    by (rule small_bitmap_Release(2) [OF Suc.prems(1,2)])
  then have t: "take_one p = Some (freePid p, ?p)"
    using small_skip [OF Suc.prems(1,2)] by (simp add: take_one_def)
  have "freePid ?p \<noteq> 0" "freePid ?p \<le> limit ?p" "lockedPid ?p = lockedPid p"
    using next_pid_range(1,2) [of "p\<lparr>used := used p + 1\<rparr>"] Suc.prems by (simp_all add: next_pid_def)
  then show ?case
    using Suc.IH [of ?p] Suc.prems(1) t by auto
qed simp

end
