(* ===== verification/Quota.thy ===== *)
theory Quota
  imports PowerOfTwo
begin

text \<open>
  Flow control of one client, broker/core/service/v1/pipiline.go: the quota of QoS 1 and 2
  messages that may be on their way to it, and the rate limit of what it sends, with the
  process-wide switches of the same file. The rate limiter is a package of its own; its
  \<open>New\<close>, \<open>UpdateRate\<close> and \<open>Limit\<close> are parameters, a limiter a value of a type variable.
\<close>

section \<open>The switches\<close>

record switches =
  serviceBusy :: bool
  serverBeingShutDown :: bool
  exceededConnectionRateLimit :: bool
  unsupportedSubscriptionIdentifiers :: bool
  unsupportedWildcardSubscriptions :: bool
  unsupportedSharedSubscriptions :: bool
  unsupportedRetention :: bool

definition initial_switches :: switches where
  "initial_switches = \<lparr>serviceBusy = False, serverBeingShutDown = False, exceededConnectionRateLimit = False,
     unsupportedSubscriptionIdentifiers = False, unsupportedWildcardSubscriptions = False,
     unsupportedSharedSubscriptions = False, unsupportedRetention = False\<rparr>"

definition ServiceBusy :: "switches \<Rightarrow> bool" where "ServiceBusy w = serviceBusy w"
definition SetServiceBusy :: "bool \<Rightarrow> switches \<Rightarrow> switches" where "SetServiceBusy x w = w\<lparr>serviceBusy := x\<rparr>"
definition ServerBeingShutDown :: "switches \<Rightarrow> bool" where "ServerBeingShutDown w = serverBeingShutDown w"
definition SetServerBeingShutDown :: "bool \<Rightarrow> switches \<Rightarrow> switches" where
  "SetServerBeingShutDown x w = w\<lparr>serverBeingShutDown := x\<rparr>"
definition ExceededConnectionRateLimit :: "switches \<Rightarrow> bool" where
  "ExceededConnectionRateLimit w = exceededConnectionRateLimit w"
definition SetExceededConnectionRateLimit :: "bool \<Rightarrow> switches \<Rightarrow> switches" where
  "SetExceededConnectionRateLimit x w = w\<lparr>exceededConnectionRateLimit := x\<rparr>"
definition UnsupportedSubscriptionIdentifiers :: "switches \<Rightarrow> bool" where
  "UnsupportedSubscriptionIdentifiers w = unsupportedSubscriptionIdentifiers w"
definition SetUnsupportedSubscriptionIdentifiers :: "bool \<Rightarrow> switches \<Rightarrow> switches" where
  "SetUnsupportedSubscriptionIdentifiers x w = w\<lparr>unsupportedSubscriptionIdentifiers := x\<rparr>"
definition UnsupportedWildcardSubscriptions :: "switches \<Rightarrow> bool" where
  "UnsupportedWildcardSubscriptions w = unsupportedWildcardSubscriptions w"
definition SetUnsupportedWildcardSubscriptions :: "bool \<Rightarrow> switches \<Rightarrow> switches" where
  "SetUnsupportedWildcardSubscriptions x w = w\<lparr>unsupportedWildcardSubscriptions := x\<rparr>"
definition UnsupportedSharedSubscriptions :: "switches \<Rightarrow> bool" where
  "UnsupportedSharedSubscriptions w = unsupportedSharedSubscriptions w"
definition SetUnsupportedSharedSubscriptions :: "bool \<Rightarrow> switches \<Rightarrow> switches" where
  "SetUnsupportedSharedSubscriptions x w = w\<lparr>unsupportedSharedSubscriptions := x\<rparr>"
definition UnsupportedRetention :: "switches \<Rightarrow> bool" where "UnsupportedRetention w = unsupportedRetention w"
definition SetUnsupportedRetention :: "bool \<Rightarrow> switches \<Rightarrow> switches" where
  "SetUnsupportedRetention x w = w\<lparr>unsupportedRetention := x\<rparr>"

section \<open>The signs of a client\<close>

record 'r sign =
  beyondQuota :: bool
  tooManyMessages :: bool
  rateLimit :: 'r
  quota :: int64
  currQuota :: int64
  rlimit :: int

definition NewSign :: "(int \<Rightarrow> 'r) \<Rightarrow> int64 \<Rightarrow> int \<Rightarrow> 'r sign" where
  "NewSign new q n =
     (if q = 0 \<and> n = 0
      then \<lparr>beyondQuota = False, tooManyMessages = False, rateLimit = new 100000, quota = 100000,
        currQuota = 100000, rlimit = 100000\<rparr>
      else \<lparr>beyondQuota = False, tooManyMessages = False, rateLimit = new n, quota = q, currQuota = q,
        rlimit = n\<rparr>)"

definition setBeyondQuota :: "bool \<Rightarrow> 'r sign \<Rightarrow> 'r sign" where
  "setBeyondQuota x s = s\<lparr>beyondQuota := x\<rparr>"

definition setTooManyMessages :: "bool \<Rightarrow> 'r sign \<Rightarrow> 'r sign" where
  "setTooManyMessages x s = s\<lparr>tooManyMessages := x\<rparr>"

definition UpLimit :: "(int \<Rightarrow> 'r \<Rightarrow> 'r) \<Rightarrow> int \<Rightarrow> 'r sign \<Rightarrow> 'r sign" where
  "UpLimit update n s = s\<lparr>rlimit := n, rateLimit := update n (rateLimit s)\<rparr>"

definition UpQuota :: "int64 \<Rightarrow> bool \<Rightarrow> 'r sign \<Rightarrow> 'r sign" where
  "UpQuota q reset s =
     (let s = s\<lparr>quota := q\<rparr> in
      if reset then (setBeyondQuota False s)\<lparr>currQuota := q\<rparr>
      else if quota s <s currQuota s then setBeyondQuota True s
      else s)"

definition Limit :: "('r \<Rightarrow> bool \<times> 'r) \<Rightarrow> 'r sign \<Rightarrow> bool \<times> 'r sign" where
  "Limit lim s =
     (let (hit, r) = lim (rateLimit s); s = s\<lparr>rateLimit := r\<rparr> in
      if hit then (True, setTooManyMessages True s) else (False, s))"

definition BeyondQuota :: "'r sign \<Rightarrow> bool" where
  "BeyondQuota s = beyondQuota s"

definition TooManyMessages :: "'r sign \<Rightarrow> bool" where
  "TooManyMessages s = tooManyMessages s"

definition ReqQuota :: "'r sign \<Rightarrow> bool \<times> 'r sign" where
  "ReqQuota s =
     (if beyondQuota s then (False, s)
      else let cur = currQuota s - 1; s = s\<lparr>currQuota := cur\<rparr> in
        if cur <s 0 then (False, (setBeyondQuota True s)\<lparr>currQuota := 0\<rparr>)
        else (True, s))"

definition AddQuota :: "'r sign \<Rightarrow> 'r sign" where
  "AddQuota s =
     (let cur = currQuota s + 1; s = s\<lparr>currQuota := cur\<rparr> in
      if 0 <s cur \<and> beyondQuota s then setBeyondQuota False s else s)"

section \<open>A window of messages on their way\<close>

text \<open>
  \<open>window_ok q n s\<close>: with a quota of \<open>q\<close> and \<open>n\<close> messages on their way, \<open>q - n\<close> more may be
  sent, and the client is beyond its quota only when there are none left.
\<close>

definition window_ok :: "int64 \<Rightarrow> nat \<Rightarrow> 'r sign \<Rightarrow> bool" where
  "window_ok q n s \<longleftrightarrow> 0 \<le> sint q \<and> int n \<le> sint q \<and> sint (currQuota s) = sint q - int n
     \<and> (beyondQuota s \<longrightarrow> int n = sint q)"

text \<open>A request counts a message when it is granted; an addition ends one that is on its way.\<close>

datatype quota_op = Req | Done

fun quota_step :: "quota_op \<Rightarrow> nat \<times> 'r sign \<Rightarrow> nat \<times> 'r sign" where
  "quota_step Req (n, s) = (case ReqQuota s of (granted, s') \<Rightarrow> (if granted then n + 1 else n, s'))"
| "quota_step Done (n, s) = (if n = 0 then (n, s) else (n - 1, AddQuota s))"

lemma sint_add:
  fixes x :: int64
  assumes "- (2 ^ 63) \<le> sint x + k" and "sint x + k < 2 ^ 63"
  shows "sint (x + word_of_int k) = sint x + k"
proof -
  have "sint (x + word_of_int k) = sint (word_of_int (sint x + k) :: int64)"
    by (simp add: wi_hom_syms)
  also have "sint (word_of_int (sint x + k) :: int64) = signed_take_bit 63 (sint x + k)"
    by (simp only: sint_sbintrunc') simp
  also have "\<dots> = sint x + k"
    by (rule signed_take_bit_int_eq_self) (use assms in simp_all)
  finally show ?thesis .
qed

lemma sint_range: "- (2 ^ 63) \<le> sint (x :: int64)" "sint x < 2 ^ 63"
  using sint_ge [of x] sint_lt [of x] by simp_all

lemma sint_dec: "0 \<le> sint (x :: int64) \<Longrightarrow> sint (x - 1) = sint x - 1"
  using sint_add [of x "- 1"] sint_range [of x] by simp

lemma sint_inc: "sint (x :: int64) < sint (y :: int64) \<Longrightarrow> sint (x + 1) = sint x + 1"
  using sint_add [of x 1] sint_range [of x] sint_range [of y] by simp

lemma ReqQuota_window:
  assumes "window_ok q n s"
  shows "fst (ReqQuota s) \<longleftrightarrow> int n < sint q"
    and "window_ok q (if fst (ReqQuota s) then n + 1 else n) (snd (ReqQuota s))"
  using assms sint_dec [of "currQuota s"]
  by (auto simp: window_ok_def ReqQuota_def Let_def setBeyondQuota_def word_sless_alt)

lemma AddQuota_window:
  assumes "window_ok q n s" and "0 < n"
  shows "window_ok q (n - Suc 0) (AddQuota s)"
  using assms sint_inc [of "currQuota s" q]
  by (auto simp: window_ok_def AddQuota_def Let_def setBeyondQuota_def word_sless_alt of_nat_diff)

lemma quota_step_window:
  assumes "window_ok q n s"
  shows "case quota_step x (n, s) of (n', s') \<Rightarrow> window_ok q n' s'"
  using assms ReqQuota_window(2) [OF assms]
  by (cases x; cases "ReqQuota s") (auto simp: AddQuota_window)

definition granted_quota :: "int64 \<Rightarrow> int \<Rightarrow> int64" where
  "granted_quota q l = (if q = 0 \<and> l = 0 then 100000 else q)"

lemma NewSign_window: "0 \<le> sint q \<Longrightarrow> window_ok (granted_quota q l) 0 (NewSign new q l)"
  by (simp add: window_ok_def NewSign_def granted_quota_def)

lemma quota_run_window:
  assumes "window_ok q n s"
  shows "case fold quota_step xs (n, s) of (n', s') \<Rightarrow> window_ok q n' s'"
  using assms
proof (induction xs arbitrary: n s)
  case (Cons x xs)
  then show ?case
    using quota_step_window [OF Cons.prems, of x] by (cases "quota_step x (n, s)") auto
qed simp

text \<open>C6: the send quota. Through any run of requests, and of additions that each end a granted message,
  from a new sign on, no more messages are on their way than the quota the sign was made with, and the
  next request is granted exactly when fewer are.\<close>

theorem quota_window:
  assumes "0 \<le> sint q" and "fold quota_step xs (0, NewSign new q l) = (n, s)"
  shows "int n \<le> sint (granted_quota q l) \<and> (fst (ReqQuota s) \<longleftrightarrow> int n < sint (granted_quota q l))"
proof -
  have "window_ok (granted_quota q l) n s"
    using quota_run_window [OF NewSign_window [OF assms(1), of l new], of xs] assms(2) by simp
  then show ?thesis
    using ReqQuota_window(1) [of "granted_quota q l" n s] by (simp add: window_ok_def)
qed

definition limiter_of :: "int \<Rightarrow> int" where "limiter_of n = n"

theorem quota_window_witness:
  "\<not> fst (ReqQuota (snd (fold quota_step [Req, Req, Req, Done, Req] (0, NewSign limiter_of 2 5))))"
proof -
  have r: "fold quota_step [Req, Req, Req, Done, Req] (0, NewSign limiter_of 2 5)
      = (2, snd (fold quota_step [Req, Req, Req, Done, Req] (0, NewSign limiter_of 2 5)))"
    by code_simp
  have q: "0 \<le> sint (2 :: int64)" "sint (granted_quota 2 5) = 2"
    by code_simp+
  show ?thesis
    using quota_window [OF q(1) r] q(2) by simp
qed

end
