(* ===== verification/Service.thy ===== *)
theory Service
  imports GCore Session Topics PacketIds Quota
begin

text \<open>
  The service of one client connection, broker/core/service/v1/service.go and process.go, and
  the state the services share: the topic manager, the session manager, the counter of packet
  identifiers and the delayed wills. A subscriber in the topic trees is the index of a service,
  for the code subscribes the address of its \<open>onPubFn\<close>.

  A handler is a function on the whole state with an outcome: it returns, or it stops where the
  code waits for space in a ring or for a packet identifier (Waits), for a mutex (Locked) or
  panics. Errors are values; of an error only its reason code is kept, its text is the function
  \<open>describe\<close> of the environment.

  The environment holds what is configured or plugged in: the limits, the access checks, the
  rate limiter, the random choice of a shared subscriber, the clock and the socket. Writing
  to the socket past the ring is \<open>s_direct\<close>.
\<close>

datatype svcerr = SCode byte | SText | Disconnected

record 'r env =
  MaxQos :: int
  RetainAvailable :: bool
  CloseShareSub :: bool
  cfg_MaxPacketSize :: int
  cfg_Quota :: int64
  cfg_QuotaLimit :: int
  aclPub :: "bytes \<Rightarrow> publish \<Rightarrow> bool"
  aclSub :: "bytes \<Rightarrow> sub \<Rightarrow> bool"
  newLimiter :: "int \<Rightarrow> 'r"
  limiterHit :: "'r \<Rightarrow> bool \<times> 'r"
  random :: "nat \<Rightarrow> nat \<Rightarrow> nat"
  now :: int
  socketFails :: "nat \<Rightarrow> bytes \<Rightarrow> bool"
  describe :: "svcerr \<Rightarrow> bytes"

record 'r service =
  clusterBelong :: bool
  clusterOpen :: bool
  ccid :: bytes
  s_core :: "gcore option"
  s_sess :: nat
  hasSendWill :: bool
  s_closed :: bool
  s_sign :: "'r sign"
  rmsgs :: "publish list"
  pkIDLimiter :: limiter
  s_direct :: bytes

text \<open>
  A delayed will: the task identifier, the delay in seconds, the message and the service. Tasks
  are numbered; \<open>w_jobs\<close> is the scheduler's table from identifiers to the number registered last.
\<close>

record task =
  task_id :: bytes
  task_delay :: int
  task_msg :: publish
  task_svc :: nat

record 'r world =
  w_topics :: "nat memtopic"
  w_mgr :: manager
  w_svcs :: "nat \<rightharpoonup> 'r service"
  w_gpid :: uint64
  w_tasks :: "(nat \<times> task) list"
  w_jobs :: "bytes \<rightharpoonup> nat"
  w_ntask :: nat
  w_serving :: "(nat, unit) safemap"
  w_ranging :: bool
  w_listening :: bool
  w_gsvcid :: nat
  w_bufcnt :: int

type_synonym ('w, 'a) step = "'w \<Rightarrow> 'w \<times> 'a outcome"
type_synonym ('r, 'a) act = "('r world, 'a) step"

definition ret :: "'a \<Rightarrow> ('w, 'a) step" where
  "ret x w = (w, Ret x)"

definition crash :: "('w, 'a) step" where
  "crash w = (w, Panicked)"

fun follow :: "'w \<times> 'a outcome \<Rightarrow> ('a \<Rightarrow> 'w \<Rightarrow> 'w \<times> 'b outcome) \<Rightarrow> 'w \<times> 'b outcome" where
  "follow (w, Ret x) k = k x w"
| "follow (w, Waits) k = (w, Waits)"
| "follow (w, Locked) k = (w, Locked)"
| "follow (w, Panicked) k = (w, Panicked)"
| "follow (w, Loops) k = (w, Loops)"

definition bindw :: "('w, 'a) step \<Rightarrow> ('a \<Rightarrow> ('w, 'b) step) \<Rightarrow> ('w, 'b) step" where
  "bindw f k w = follow (f w) k"

text \<open>\<open>unless_err\<close> returns an error at once and goes on without one.\<close>

definition unless_err :: "('w, 'e option) step \<Rightarrow> ('w, 'e option) step \<Rightarrow> ('w, 'e option) step" where
  "unless_err f g = bindw f (\<lambda>e. if e \<noteq> None then ret e else g)"

definition MessageTooLong :: byte where "MessageTooLong = 0x95"
definition TooManyMessagesCode :: byte where "TooManyMessagesCode = 0x96"

section \<open>Access to the state\<close>

definition get_svc :: "nat \<Rightarrow> ('r, 'r service) act" where
  "get_svc i w = (case w_svcs w i of None \<Rightarrow> (w, Panicked) | Some v \<Rightarrow> (w, Ret v))"

definition put_svc :: "nat \<Rightarrow> 'r service \<Rightarrow> ('r, unit) act" where
  "put_svc i v w = (w\<lparr>w_svcs := (w_svcs w)(i \<mapsto> v)\<rparr>, Ret ())"

definition get_sess :: "nat \<Rightarrow> ('r, session) act" where
  "get_sess i = bindw (get_svc i) (\<lambda>v w.
     case m_heap (w_mgr w) (s_sess v) of None \<Rightarrow> (w, Panicked) | Some s \<Rightarrow> (w, Ret s))"

definition put_sess :: "nat \<Rightarrow> session \<Rightarrow> ('r, unit) act" where
  "put_sess i s = bindw (get_svc i) (\<lambda>v w.
     (w\<lparr>w_mgr := (w_mgr w)\<lparr>m_heap := (m_heap (w_mgr w))(s_sess v \<mapsto> s)\<rparr>\<rparr>, Ret ()))"

definition mod_sess :: "nat \<Rightarrow> (session \<Rightarrow> session) \<Rightarrow> ('r, unit) act" where
  "mod_sess i f = bindw (get_sess i) (\<lambda>s. put_sess i (f s))"

definition cid :: "'r service \<Rightarrow> bytes" where
  "cid v = ccid v"

definition isCluster :: "'r service \<Rightarrow> bool" where
  "isCluster v = clusterBelong v"

definition openCluster :: "'r service \<Rightarrow> bool" where
  "openCluster v = clusterOpen v"

definition openShare :: "'r service \<Rightarrow> bool" where
  "openShare v = True"

text \<open>
  \<open>svc.gCore.writeMessage\<close>: a nil core panics. The message comes back as the encoder leaves it.
\<close>

definition write_core :: "nat \<Rightarrow> message \<Rightarrow> ('r, message \<times> gerr option) act" where
  "write_core i m = bindw (get_svc i) (\<lambda>v.
     case s_core v of
       None \<Rightarrow> crash
     | Some g \<Rightarrow> (\<lambda>w.
         case writeMessage m (w_gpid w) g of
           (g, m, k, r) \<Rightarrow>
             follow (w\<lparr>w_svcs := (w_svcs w)(i \<mapsto> v\<lparr>s_core := Some g\<rparr>), w_gpid := k\<rparr>, r) (\<lambda>x w.
               case x of Inl e \<Rightarrow> (w, Ret (m, Some e)) | Inr _ \<Rightarrow> (w, Ret (m, None)))))"

definition sent :: "('r, message \<times> gerr option) act \<Rightarrow> ('r, svcerr option) act" where
  "sent f = bindw f (\<lambda>(_, e). ret (map_option (\<lambda>_. SCode UnspecifiedError) e))"

text \<open>The socket itself: \<open>writeMessage\<close> of misc.go and \<open>sendByConn\<close> write past the ring.\<close>

definition write_socket :: "'r env \<Rightarrow> nat \<Rightarrow> bytes \<Rightarrow> ('r, bool) act" where
  "write_socket ev i bs = bindw (get_svc i) (\<lambda>v.
     case s_core v of
       None \<Rightarrow> crash
     | Some _ \<Rightarrow>
         if socketFails ev i bs then ret True
         else bindw (put_svc i (v\<lparr>s_direct := s_direct v @ bs\<rparr>)) (\<lambda>_. ret False))"

definition conn_writeMessage :: "'r env \<Rightarrow> nat \<Rightarrow> message \<Rightarrow> ('r, svcerr option) act" where
  "conn_writeMessage ev i m w =
     (case msg_EncodeToBuf [] (w_gpid w) m of
        Panic \<Rightarrow> (w, Panicked)
      | Fail _ e (_, _, k) \<Rightarrow> (w\<lparr>w_gpid := k\<rparr>, Ret (Some SText))
      | Go (bs, m, k) \<Rightarrow>
          bindw (write_socket ev i bs) (\<lambda>failed.
            if failed then ret (Some SText)
            else bindw (get_svc i) (\<lambda>v.
              case (s_core v, msg_Len m) of
                (Some g, Some (l, _)) \<Rightarrow>
                  bindw (put_svc i (v\<lparr>s_core := Some (g\<lparr>outStat := Incr (word_of_nat l) (outStat g)\<rparr>)\<rparr>))
                    (\<lambda>_. ret None)
              | _ \<Rightarrow> crash)) (w\<lparr>w_gpid := k\<rparr>))"

definition sendByConn :: "'r env \<Rightarrow> nat \<Rightarrow> message \<Rightarrow> ('r, svcerr option) act" where
  "sendByConn ev i m w =
     (case msg_Len m of
        None \<Rightarrow> (w, Panicked)
      | Some (l, m) \<Rightarrow>
          (case msg_Encode (replicate l 0) (w_gpid w) m of
             Panic \<Rightarrow> (w, Panicked)
           | Fail _ e (_, _, _, k) \<Rightarrow> (w\<lparr>w_gpid := k\<rparr>, Ret (Some SText))
           | Go (d, _, _, k) \<Rightarrow>
               bindw (write_socket ev i d) (\<lambda>failed. ret (if failed then Some SText else None))
                 (w\<lparr>w_gpid := k\<rparr>)))"

definition sendBeyondQuota :: "'r env \<Rightarrow> nat \<Rightarrow> ('r, svcerr option) act" where
  "sendBeyondQuota ev i =
     sendByConn ev i (MDisconnect (Disconnect.SetReasonCode MsgTypes.BeyondQuota NewDisconnectMessage))"

definition sendTooManyMessages :: "'r env \<Rightarrow> nat \<Rightarrow> ('r, svcerr option) act" where
  "sendTooManyMessages ev i =
     sendByConn ev i (MDisconnect (Disconnect.SetReasonCode TooManyMessagesCode NewDisconnectMessage))"

section \<open>The acknowledgement queues\<close>

text \<open>What \<open>Encode\<close> leaves in a fresh buffer of \<open>Len\<close> bytes, and the message behind it\<close>

definition encoding :: "uint64 \<Rightarrow> message \<Rightarrow> ((bytes \<times> goerr option) \<times> message \<times> uint64) option" where
  "encoding k m =
     (case msg_Len m of
        None \<Rightarrow> None
      | Some (l, m) \<Rightarrow>
          (case msg_Encode (replicate l 0) k m of
             Panic \<Rightarrow> None
           | Fail _ e (d, _, m, k) \<Rightarrow> Some ((d, Some e), m, k)
           | Go (d, _, m, k) \<Rightarrow> Some ((d, None), m, k)))"

definition amsg_of :: "bytes \<times> goerr option \<Rightarrow> message \<Rightarrow> amsg" where
  "amsg_of x m = \<lparr>a_type = msg_Type m, a_pktid = msg_PacketId m,
     a_qos = (case m of MPublish p \<Rightarrow> QoS p | _ \<Rightarrow> 0), a_dup = (case m of MPublish p \<Rightarrow> Dup p | _ \<Rightarrow> False),
     a_enc = x\<rparr>"

definition queued_type :: "message \<Rightarrow> bool" where
  "queued_type m \<longleftrightarrow> (case m of MPublish p \<Rightarrow> QoS p \<noteq> QosAtMostOnce | MSubscribe _ \<Rightarrow> True
     | MUnsubscribe _ \<Rightarrow> True | _ \<Rightarrow> False)"

text \<open>The queue encodes a message only when it stores it.\<close>

definition queue_Wait :: "uint64 \<Rightarrow> message \<Rightarrow> onComplete \<Rightarrow> queue \<Rightarrow>
    (queue \<times> aqerr option \<times> message \<times> uint64) option" where
  "queue_Wait k m onc q =
     (if queued_type m \<and> aq_emap q (msg_PacketId m) = None then
        (case encoding k m of
           None \<Rightarrow> None
         | Some (x, m', k') \<Rightarrow> map_option (\<lambda>(q, e). (q, e, m', k')) (Wait (amsg_of x m) onc q))
      else map_option (\<lambda>(q, e). (q, e, m, k)) (Wait (amsg_of ([], None) m) onc q))"

definition queue_Ack :: "uint64 \<Rightarrow> message \<Rightarrow> queue \<Rightarrow> (queue \<times> aqerr option \<times> uint64) option" where
  "queue_Ack k m q =
     (if msg_Type m \<in> {PUBACK, PUBREC, PUBREL, PUBCOMP, SUBACK, UNSUBACK} \<and> aq_emap q (msg_PacketId m) \<noteq> None
      then
        (case encoding k m of
           None \<Rightarrow> None
         | Some (x, _, k') \<Rightarrow> map_option (\<lambda>(q, e). (q, e, k')) (Ack (amsg_of x m) q))
      else map_option (\<lambda>(q, e). (q, e, k)) (Ack (amsg_of ([], None) m) q))"

datatype which = Pub1ACK | Pub2in | Pub2out | SubACK | UnsubACK | PingACK

fun get_queue :: "which \<Rightarrow> session \<Rightarrow> queue" where
  "get_queue Pub1ACK s = pub1ack s" | "get_queue Pub2in s = pub2in s" | "get_queue Pub2out s = pub2out s"
| "get_queue SubACK s = se_suback s" | "get_queue UnsubACK s = se_unsuback s" | "get_queue PingACK s = pingack s"

fun put_queue :: "which \<Rightarrow> queue \<Rightarrow> session \<Rightarrow> session" where
  "put_queue Pub1ACK q s = s\<lparr>pub1ack := q\<rparr>" | "put_queue Pub2in q s = s\<lparr>pub2in := q\<rparr>"
| "put_queue Pub2out q s = s\<lparr>pub2out := q\<rparr>" | "put_queue SubACK q s = s\<lparr>se_suback := q\<rparr>"
| "put_queue UnsubACK q s = s\<lparr>se_unsuback := q\<rparr>" | "put_queue PingACK q s = s\<lparr>pingack := q\<rparr>"

definition wait_on :: "which \<Rightarrow> nat \<Rightarrow> message \<Rightarrow> onComplete \<Rightarrow> ('r, message \<times> aqerr option) act" where
  "wait_on x i m onc = bindw (get_sess i) (\<lambda>s w.
     case queue_Wait (w_gpid w) m onc (get_queue x s) of
       None \<Rightarrow> (w, Panicked)
     | Some (q, e, m, k) \<Rightarrow>
         bindw (put_sess i (put_queue x q s)) (\<lambda>_. ret (m, e)) (w\<lparr>w_gpid := k\<rparr>))"

definition ack_on :: "which \<Rightarrow> nat \<Rightarrow> message \<Rightarrow> ('r, aqerr option) act" where
  "ack_on x i m = bindw (get_sess i) (\<lambda>s w.
     case queue_Ack (w_gpid w) m (get_queue x s) of
       None \<Rightarrow> (w, Panicked)
     | Some (q, e, k) \<Rightarrow> bindw (put_sess i (put_queue x q s)) (\<lambda>_. ret e) (w\<lparr>w_gpid := k\<rparr>))"

definition acked_on :: "which \<Rightarrow> nat \<Rightarrow> ('r, onComplete ackmsg list) act" where
  "acked_on x i = bindw (get_sess i) (\<lambda>s.
     case Acked (get_queue x s) of (q, es) \<Rightarrow> bindw (put_sess i (put_queue x q s)) (\<lambda>_. ret es))"

section \<open>Sending a message to a subscriber\<close>

definition as_publish :: "publish \<Rightarrow> message \<Rightarrow> publish" where
  "as_publish m x = (case x of MPublish p \<Rightarrow> p | _ \<Rightarrow> m)"

text \<open>
  \<open>publish\<close>: the error of the write is overwritten with nil on every branch. With QoS 1 and 2
  the message first joins the queue. The message comes back for the caller's pointer.
\<close>

definition publish_queued :: "which \<Rightarrow> nat \<Rightarrow> publish \<Rightarrow> onComplete \<Rightarrow> ('r, publish \<times> svcerr option) act" where
  "publish_queued x i m onc =
     bindw (wait_on x i (MPublish m) onc) (\<lambda>(m', e).
       if e \<noteq> None then ret (as_publish m m', Some (SCode ServerUnavailable))
       else bindw (write_core i m') (\<lambda>(m', _). ret (as_publish m m', None)))"

definition service_publish :: "nat \<Rightarrow> publish \<Rightarrow> onComplete \<Rightarrow> ('r, publish \<times> svcerr option) act" where
  "service_publish i m onc =
     (if QoS m = QosAtMostOnce then
        bindw (write_core i (MPublish m)) (\<lambda>(m', _). ret (as_publish m m', None))
      else if QoS m = QosAtLeastOnce then publish_queued Pub1ACK i m onc
      else if QoS m = QosExactlyOnce then publish_queued Pub2out i m onc
      else ret (m, None))"

definition req_quota :: "nat \<Rightarrow> ('r, bool) act" where
  "req_quota i = bindw (get_svc i) (\<lambda>v.
     case ReqQuota (s_sign v) of (b, sg) \<Rightarrow> bindw (put_svc i (v\<lparr>s_sign := sg\<rparr>)) (\<lambda>_. ret b))"

definition add_quota :: "nat \<Rightarrow> ('r, unit) act" where
  "add_quota i = bindw (get_svc i) (\<lambda>v. put_svc i (v\<lparr>s_sign := AddQuota (s_sign v)\<rparr>))"

definition poll_id :: "nat \<Rightarrow> ('r, uint16) act" where
  "poll_id i = bindw (get_svc i) (\<lambda>v w.
     case PollPacketID (pkIDLimiter v) of
       None \<Rightarrow> (w, Panicked)
     | Some (None, l) \<Rightarrow> (w, Waits)
     | Some (Some n, l) \<Rightarrow> bindw (put_svc i (v\<lparr>pkIDLimiter := l\<rparr>)) (\<lambda>_. ret n) w)"

text \<open>\<open>msg.Len()\<close>, evaluated only when the client has set a maximum; it sets length fields.\<close>

definition too_long :: "uint32 \<Rightarrow> publish \<Rightarrow> ('r, publish \<times> bool) act" where
  "too_long mx m =
     (if mx = 0 then ret (m, False)
      else case publish_Len m of
          None \<Rightarrow> crash
        | Some (l, m) \<Rightarrow> ret (m, unat mx < l))"

text \<open>
  \<open>onPub\<close> in the order of the code. The quota is taken before the no-local test, which
  drops the message without giving it back.
\<close>

definition onPub :: "nat \<Rightarrow> publish \<Rightarrow> sub \<Rightarrow> bytes \<Rightarrow> bool \<Rightarrow> ('r, svcerr option) act" where
  "onPub i m sb sender isShareMsg =
     bindw (get_sess i) (\<lambda>s.
     bindw (too_long (MaxPacketSize s) m) (\<lambda>(m, long).
       if long then ret None
       else bindw (if QoS m > 0 then req_quota i else ret True) (\<lambda>granted.
         if \<not> granted then ret None
         else bindw (get_svc i) (\<lambda>v.
           if \<not> isShareMsg \<and> NoLocal sb \<and> cid v = sender then ret None
           else
             let m = (if \<not> RetainAsPublished sb then SetRetain False m else m) in
             bindw (if QoS m > 0 then bindw (poll_id i) (\<lambda>n. ret (SetPacketId n m)) else ret m) (\<lambda>m.
             let m = (if SubIdentifier sb > 0 then SetSubscriptionIdentifier (SubIdentifier sb) m else m);
                 m = (case GetTopicAlice (topic m) s of Some a \<Rightarrow> SetNilTopicAndAlias a m | None \<Rightarrow> m)
             in bindw (service_publish i m LogSent) (\<lambda>(_, e). ret e))))))"

text \<open>
  A message encoded into a buffer and decoded from it again; the errors of both are dropped.
  First the copy, then the message as the encoder leaves it.
\<close>

definition recopy :: "uint64 \<Rightarrow> publish \<Rightarrow> (publish \<times> publish \<times> uint64) option" where
  "recopy k m =
     (case publish_EncodeToBuf (onto [] k m) of
        Panic \<Rightarrow> None
      | x \<Rightarrow>
          let s = (case x of Go s \<Rightarrow> s | Fail _ _ s \<Rightarrow> s | Panic \<Rightarrow> onto [] k m) in
          (case publish_Decode (exact (b_buf s)) NewPublishMessage of
             Panic \<Rightarrow> None
           | Go t \<Rightarrow> Some (d_msg t, b_msg s, b_gpid s)
           | Fail _ _ t \<Rightarrow> Some (d_msg t, b_msg s, b_gpid s)))"

definition copyMsg :: "uint64 \<Rightarrow> publish \<Rightarrow> byte \<Rightarrow> (publish \<times> publish \<times> uint64) option" where
  "copyMsg k m newQos = map_option (\<lambda>(t, m, k). (fst (SetQoS newQos t), m, k)) (recopy k m)"

text \<open>
  The message store keeps a pointer to a retained message, so what the fan-out changes in the
  message changes there; \<open>write_back\<close> writes it back.
\<close>

definition write_back :: "bool \<Rightarrow> publish \<Rightarrow> ('r, unit) act" where
  "write_back kept m w =
     (if kept then w\<lparr>w_topics := (w_topics w)\<lparr>t_store := StoreRetainMessage (topic m) m (t_store (w_topics w))\<rparr>\<rparr>
      else w, Ret ())"

fun lookSend :: "bool \<Rightarrow> nat \<Rightarrow> publish \<Rightarrow> (nat \<times> sub) list \<Rightarrow> bool \<Rightarrow> ('r, svcerr option) act" where
  "lookSend kept i m [] onlyShare = ret None"
| "lookSend kept i m ((c, sb) # xs) onlyShare = (\<lambda>w.
     case copyMsg (w_gpid w) m (Qos sb) of
       None \<Rightarrow> (w, Panicked)
     | Some (cp, m, k) \<Rightarrow>
         bindw (write_back kept m) (\<lambda>_.
         bindw (get_svc i) (\<lambda>v.
         bindw (onPub c cp sb (cid v) onlyShare) (\<lambda>_. lookSend kept i m xs onlyShare))) (w\<lparr>w_gpid := k\<rparr>))"

text \<open>\<open>pubFn\<close>, \<open>pubFnPlus\<close> and \<open>pubFnSys\<close> differ in which subscribers they ask for.\<close>

definition pub_to :: "'r env \<Rightarrow> bool \<Rightarrow> nat \<Rightarrow> publish \<Rightarrow> bool \<Rightarrow> bytes \<Rightarrow> bool \<Rightarrow> ('r, svcerr option) act" where
  "pub_to ev kept i m svc shareName onlyShare w =
     (case Subscribers (random ev) (topic m) (QoS m) [] svc shareName onlyShare (w_topics w) of
        (_, Some e) \<Rightarrow> (w, Ret (Some (SCode MsgTypes.ServiceBusy)))
      | (xs, None) \<Rightarrow>
          let m = SetRetain False m in
          bindw (write_back kept m) (\<lambda>_. lookSend kept i m xs onlyShare) w)"

definition pubFn :: "'r env \<Rightarrow> bool \<Rightarrow> nat \<Rightarrow> publish \<Rightarrow> bytes \<Rightarrow> bool \<Rightarrow> ('r, svcerr option) act" where
  "pubFn ev kept i m shareName onlyShare = pub_to ev kept i m False shareName onlyShare"

definition pubFnPlus :: "'r env \<Rightarrow> nat \<Rightarrow> publish \<Rightarrow> ('r, svcerr option) act" where
  "pubFnPlus ev i m = pub_to ev False i m False [] True"

definition pubFnSys :: "'r env \<Rightarrow> bool \<Rightarrow> nat \<Rightarrow> publish \<Rightarrow> ('r, svcerr option) act" where
  "pubFnSys ev kept i m = pub_to ev kept i m True [] False"

end
