(* ===== verification/Process.thy ===== *)
theory Process
  imports Service
begin

text \<open>
  What a service does with the packets of its client, broker/core/service/v1/process.go, and its
  start and end, service.go: publishing, the acknowledgement handshakes, subscribing and
  unsubscribing, the delayed will, the loop of the processor and the flow control in front of
  it. Handlers and outcomes are those of Service. The middleware sees a message and changes no
  state of the broker; it and the log are left out.
\<close>

section \<open>Publishing\<close>

text \<open>
  The message is handed to \<open>Retain\<close> as it is. The pointer in the message store is the message
  itself, so it follows what the fan-out does with it.
\<close>

definition keeps :: "publish \<Rightarrow> bool" where
  "keeps m \<longleftrightarrow> Retain m \<and> length (payload m) > 0"

definition retain :: "publish \<Rightarrow> ('r, unit) act" where
  "retain m w =
     (if Retain m then
        (case topics_Retain (w_gpid w) m (w_topics w) of
           None \<Rightarrow> (w, Panicked)
         | Some (t, _) \<Rightarrow> (w\<lparr>w_topics := t\<rparr>, Ret ()))
      else (w, Ret ()))"

text \<open>The copy for the shared subscribers; with a cluster nothing is sent to them.\<close>

definition sendShareToCluster :: "'r env \<Rightarrow> nat \<Rightarrow> publish \<Rightarrow> ('r, unit) act" where
  "sendShareToCluster ev i m = bindw (get_svc i) (\<lambda>v.
     if \<not> openCluster v then bindw (pubFnPlus ev i m) (\<lambda>_. ret ()) else ret ())"

definition onPublish :: "'r env \<Rightarrow> nat \<Rightarrow> publish \<Rightarrow> ('r, svcerr option) act" where
  "onPublish ev i m =
     bindw (retain m) (\<lambda>_ w.
       case recopy (w_gpid w) m of
         None \<Rightarrow> (w, Panicked)
       | Some (copy, m, k) \<Rightarrow>
           bindw (sendShareToCluster ev i copy) (\<lambda>_. pubFn ev (keeps m) i m [] False) (w\<lparr>w_gpid := k\<rparr>))"

definition from_cluster :: "('r, svcerr option) act \<Rightarrow> nat \<Rightarrow> publish \<Rightarrow> ('r, svcerr option) act" where
  "from_cluster f i m = bindw (get_svc i) (\<lambda>v.
     if \<not> isCluster v then ret None else bindw (retain m) (\<lambda>_. f))"

definition ClusterInToPub :: "'r env \<Rightarrow> nat \<Rightarrow> publish \<Rightarrow> ('r, svcerr option) act" where
  "ClusterInToPub ev i m = from_cluster (pubFn ev (keeps m) i m [] False) i m"

definition ClusterInToPubShare :: "'r env \<Rightarrow> nat \<Rightarrow> publish \<Rightarrow> bytes \<Rightarrow> bool \<Rightarrow> ('r, svcerr option) act" where
  "ClusterInToPubShare ev i m shareName onlyShare =
     from_cluster (pubFn ev (keeps m) i m shareName onlyShare) i m"

definition ClusterInToPubSys :: "'r env \<Rightarrow> nat \<Rightarrow> publish \<Rightarrow> ('r, svcerr option) act" where
  "ClusterInToPubSys ev i m = from_cluster (pubFnSys ev (keeps m) i m) i m"

definition topicAliceIn :: "nat \<Rightarrow> publish \<Rightarrow> ('r, publish \<times> svcerr option) act" where
  "topicAliceIn i m = bindw (get_sess i) (\<lambda>s.
     let a = topicAlias m in
     if a > 0 \<and> length (topic m) = 0 then
       (case GetAliceTopic a s of
          Some tp \<Rightarrow> ret (SetTopicAlias 0 (fst (SetTopic tp m)), None)
        | None \<Rightarrow> ret (m, Some (SCode InvalidTopicAlias)))
     else if a > 0 \<and> length (topic m) > 0 then
       (if a > TopicAliasMax s then ret (m, Some (SCode InvalidTopicAlias))
        else bindw (put_sess i (AddTopicAlice (topic m) a s)) (\<lambda>_. ret (SetTopicAlias 0 m, None)))
     else if a > TopicAliasMax s then ret (m, Some (SCode InvalidTopicAlias))
     else ret (m, None))"

definition processPublish :: "'r env \<Rightarrow> nat \<Rightarrow> publish \<Rightarrow> ('r, svcerr option) act" where
  "processPublish ev i m = bindw (get_svc i) (\<lambda>v.
     if \<not> aclPub ev (ccid v) m then ret (Some (SCode MsgTypes.UnAuthorized))
     else if MaxQos ev < uint (QoS m) then ret (Some (SCode UnsupportedQoSLevel))
     else if Retain m \<and> \<not> RetainAvailable ev then ret (Some (SCode MsgTypes.UnsupportedRetention))
     else bindw (topicAliceIn i m) (\<lambda>(m, e).
       if e \<noteq> None then ret e
       else if QoS m = QosExactlyOnce then
         bindw (wait_on Pub2in i (MPublish m) NoCallback) (\<lambda>(x, _).
           sent (write_core i (MPubrec (SetPacketId (msg_PacketId x) NewPubrecMessage))))
       else if QoS m = QosAtLeastOnce then
         unless_err (sent (write_core i (MPuback (SetPacketId (PacketId m) NewPubackMessage))))
           (onPublish ev i m)
       else if QoS m = QosAtMostOnce then onPublish ev i m
       else ret (Some (SCode UnsupportedQoSLevel))))"

section \<open>Acknowledgements\<close>

text \<open>
  \<open>processAcked\<close> over the entries a queue releases: what does not decode is skipped; a
  PUBLISH released by PUBREL is published, the other entries have callbacks that only log.
\<close>

fun processAcked :: "'r env \<Rightarrow> nat \<Rightarrow> onComplete ackmsg list \<Rightarrow> ('r, unit) act" where
  "processAcked ev i [] = ret ()"
| "processAcked ev i (e # es) =
     (case mtype_New (Mtype e) of
        Inl _ \<Rightarrow> processAcked ev i es
      | Inr m \<Rightarrow>
          (case (if msg_Type m \<noteq> PINGREQ then msg_Decode (exact (Msgbuf e)) m else Go (0, m)) of
             Panic \<Rightarrow> crash
           | Fail _ _ _ \<Rightarrow> processAcked ev i es
           | Go (_, m) \<Rightarrow>
               (case mtype_New (State e) of
                  Inl _ \<Rightarrow> processAcked ev i es
                | Inr a \<Rightarrow>
                    if msg_Type a = PINGRESP then processAcked ev i es
                    else (case msg_Decode (exact (Ackbuf e)) a of
                        Panic \<Rightarrow> crash
                      | Fail _ _ _ \<Rightarrow> processAcked ev i es
                      | Go _ \<Rightarrow>
                          if State e = PUBREL then
                            (case m of MPublish p \<Rightarrow> bindw (onPublish ev i p) (\<lambda>_. processAcked ev i es)
                             | _ \<Rightarrow> crash)
                          else processAcked ev i es))))"

section \<open>Subscribing\<close>

text \<open>The filters are checked for shared subscriptions before any of them is entered.\<close>

fun share_check :: "'r env \<Rightarrow> subscribe \<Rightarrow> bytes list \<Rightarrow> ('r, svcerr option) act" where
  "share_check ev m [] = ret None"
| "share_check ev m (t # ts) =
     (if IsShareSub t then
        if CloseShareSub ev then ret (Some (SCode MsgTypes.UnsupportedSharedSubscriptions))
        else (case TopicNoLocal t m of
                None \<Rightarrow> crash
              | Some True \<Rightarrow> ret (Some (SCode ProtocolError))
              | Some False \<Rightarrow> share_check ev m ts)
      else share_check ev m ts)"

definition mod_svc :: "nat \<Rightarrow> ('r service \<Rightarrow> 'r service) \<Rightarrow> ('r, unit) act" where
  "mod_svc i f = bindw (get_svc i) (\<lambda>v. put_svc i (f v))"

text \<open>The retained messages of a filter join those to be sent.\<close>

definition add_retained :: "nat \<Rightarrow> bytes \<Rightarrow> ('r, svcerr option) act" where
  "add_retained i t w =
     (case topics_Retained t (w_topics w) of
        (ms, Some _) \<Rightarrow> bindw (mod_svc i (\<lambda>v. v\<lparr>rmsgs := rmsgs v @ ms\<rparr>)) (\<lambda>_. ret (Some (SCode MsgTypes.ServiceBusy))) w
      | (ms, None) \<Rightarrow> bindw (mod_svc i (\<lambda>v. v\<lparr>rmsgs := rmsgs v @ ms\<rparr>)) (\<lambda>_. ret None) w)"

text \<open>
  By the retain handling. For value 1 the session is asked whether it has the filter, after
  the filter has been added to it.
\<close>

definition retained_for :: "nat \<Rightarrow> sub \<Rightarrow> ('r, svcerr option) act" where
  "retained_for i sb =
     (if IsShareSub (Topic sb) then ret None
      else if RetainHandling sb = 0 then add_retained i (Topic sb)
      else if RetainHandling sb = 1 then
        bindw (get_sess i) (\<lambda>s.
          case session_Topics s of
            Inl _ \<Rightarrow> add_retained i (Topic sb)
          | Inr olds \<Rightarrow> if Topic sb \<in> Topic ` set olds then ret None else add_retained i (Topic sb))
      else ret None)"

definition topic_subscribe :: "nat \<Rightarrow> sub \<Rightarrow> ('r, byte \<times> svcerr option) act" where
  "topic_subscribe i sb w =
     (case Topics.Subscribe sb (Some i) (w_topics w) of
        (t, q, e) \<Rightarrow> (w\<lparr>w_topics := t\<rparr>, Ret (q, map_option (\<lambda>_. SCode MsgTypes.ServiceBusy) e)))"

definition sess_AddTopic :: "nat \<Rightarrow> sub \<Rightarrow> ('r, svcerr option) act" where
  "sess_AddTopic i sb = bindw (get_sess i) (\<lambda>s.
     case AddTopic sb s of
       (s, e) \<Rightarrow> bindw (put_sess i s) (\<lambda>_. ret (map_option (\<lambda>_. SCode MsgTypes.ServiceBusy) e)))"

fun enter_filters :: "'r env \<Rightarrow> nat \<Rightarrow> subscribe \<Rightarrow> bytes list \<Rightarrow> bytes \<Rightarrow> bytes \<Rightarrow>
    ('r, bytes \<times> svcerr option) act" where
  "enter_filters ev i m [] qs codes = ret (codes, None)"
| "enter_filters ev i m (t # ts) [] codes = crash"
| "enter_filters ev i m (t # ts) (q # qs) codes =
     (case asked m t q of
        None \<Rightarrow> crash
      | Some sb \<Rightarrow>
          bindw (get_svc i) (\<lambda>v.
          if \<not> aclSub ev (ccid v) sb then enter_filters ev i m ts qs (codes @ [QosFailure])
          else bindw (topic_subscribe i sb) (\<lambda>(rqos, e).
            if e \<noteq> None then ret (codes, e)
            else bindw (sess_AddTopic i sb) (\<lambda>e.
              if e \<noteq> None then ret (codes, e)
              else bindw (retained_for i sb) (\<lambda>e.
                if e \<noteq> None then ret (codes @ [rqos], e)
                else enter_filters ev i m ts qs (codes @ [rqos]))))))"

text \<open>
  The retained messages that are sent are those of the tree: what sending does to a message
  stays in it. \<open>stored_as\<close> finds the message by its topic, \<open>store_back\<close> puts it there.
\<close>

primrec rmap :: "(publish \<Rightarrow> publish) \<Rightarrow> rnode \<Rightarrow> rnode" where
  "rmap f (RNode m b ns) = RNode (map_option f m) b (map (map_prod id (rmap f)) ns)"

definition stored_as :: "publish \<Rightarrow> 'c memtopic \<Rightarrow> publish" where
  "stored_as m t = (case find (\<lambda>x. topic x = topic m) (allRetained (t_rroot t)) of Some x \<Rightarrow> x | None \<Rightarrow> m)"

definition store_back :: "publish \<Rightarrow> ('r, unit) act" where
  "store_back m w =
     (w\<lparr>w_topics := (w_topics w)\<lparr>t_rroot := rmap (\<lambda>x. if topic x = topic m then m else x) (t_rroot (w_topics w))\<rparr>\<rparr>, Ret ())"

fun send_retained :: "nat \<Rightarrow> byte \<Rightarrow> publish list \<Rightarrow> ('r, unit) act" where
  "send_retained i q0 [] = ret ()"
| "send_retained i q0 (rm # ms) = (\<lambda>w.
     let rm = stored_as rm (w_topics w);
         old = QoS rm;
         rm1 = (if QoS rm > q0 then fst (SetQoS q0 rm) else rm)
     in bindw (store_back rm1) (\<lambda>_.
        bindw (service_publish i rm1 NoCallback) (\<lambda>(rm2, _).
        bindw (store_back (fst (SetQoS old rm2))) (\<lambda>_. send_retained i q0 ms))) w)"

definition processSubscribe :: "'r env \<Rightarrow> nat \<Rightarrow> subscribe \<Rightarrow> ('r, svcerr option) act" where
  "processSubscribe ev i m =
     bindw (mod_svc i (\<lambda>v. v\<lparr>rmsgs := []\<rparr>)) (\<lambda>_.
     unless_err (share_check ev m (subscribe.topics m))
       (bindw (enter_filters ev i m (subscribe.topics m) (subscribe.qos m) []) (\<lambda>(codes, e).
          if e \<noteq> None then ret e
          else case AddReasonCodes codes (SetPacketId (PacketId m) NewSubackMessage) of
              (_, Some _) \<Rightarrow> ret (Some (SCode UnspecifiedError))
            | (resp, None) \<Rightarrow>
                unless_err (sent (write_core i (MSuback resp)))
                  (bindw (get_svc i) (\<lambda>v.
                    if rmsgs v = [] then ret None
                    else bindw (send_retained i (hd (subscribe.qos m)) (rmsgs v)) (\<lambda>_. ret None))))))"

fun leave_filters :: "nat \<Rightarrow> bytes list \<Rightarrow> ('r, unit) act" where
  "leave_filters i [] = ret ()"
| "leave_filters i (t # ts) = (\<lambda>w.
     bindw (mod_sess i (\<lambda>s. fst (RemoveTopic t s))) (\<lambda>_. leave_filters i ts)
       (w\<lparr>w_topics := fst (Topics.Unsubscribe t (Some i) (w_topics w))\<rparr>))"

definition processUnsubscribe :: "nat \<Rightarrow> unsubscribe \<Rightarrow> ('r, svcerr option) act" where
  "processUnsubscribe i m =
     bindw (leave_filters i (unsubscribe.topics m)) (\<lambda>_.
       sent (write_core i (MUnsuback (unsub_AddReasonCode Success (SetPacketId (PacketId m) NewUnsubackMessage)))))"

end
