(* ===== verification/Lifecycle.thy ===== *)
theory Lifecycle
  imports Process
begin

text \<open>
  The life of a service, broker/core/service/v1/process.go and service.go: the dispatch of a
  packet, the loop of the processor with the flow control in front of it, the delayed will with
  util/cron/delay_task.go, start and stop.
\<close>

section \<open>Delayed tasks\<close>

text \<open>
  The scheduler of util/cron/cron.go over the third-party cron: the entries are the numbered tasks, \<open>ids\<close> is
  \<open>w_jobs\<close>. \<open>AddJob\<close> forgets the entry that the identifier stood for, which stays scheduled.
\<close>

definition AddJob :: "task \<Rightarrow> 'r world \<Rightarrow> 'r world" where
  "AddJob tk w = w\<lparr>w_tasks := w_tasks w @ [(w_ntask w, tk)], w_ntask := w_ntask w + 1,
     w_jobs := (w_jobs w)(task_id tk \<mapsto> w_ntask w)\<rparr>"

definition GetJob :: "bytes \<Rightarrow> 'r world \<Rightarrow> task option" where
  "GetJob tid w = Option.bind (w_jobs w tid) (map_of (w_tasks w))"

definition job_Remove :: "bytes \<Rightarrow> 'r world \<Rightarrow> 'r world" where
  "job_Remove tid w =
     (case w_jobs w tid of
        None \<Rightarrow> w
      | Some n \<Rightarrow> w\<lparr>w_jobs := (w_jobs w)(tid := None), w_tasks := AList.delete n (w_tasks w)\<rparr>)"

text \<open>
  \<open>Run\<close>: without a delay the task is a goroutine that is about to run; else it is a job of the
  scheduler under its identifier. \<open>Cancel\<close> removes the job an identifier stands for, if it is
  still there, and calls its callback.
\<close>

definition spawn :: "task \<Rightarrow> 'r world \<Rightarrow> 'r world" where
  "spawn tk w = w\<lparr>w_tasks := w_tasks w @ [(w_ntask w, tk)], w_ntask := w_ntask w + 1\<rparr>"

definition delay_Run :: "task \<Rightarrow> ('r, unit) act" where
  "delay_Run tk w = (if task_delay tk \<le> 0 then spawn tk w else AddJob tk w, Ret ())"

definition delay_Cancel :: "bytes \<Rightarrow> ('r, unit) act" where
  "delay_Cancel tid w =
     (case GetJob tid w of
        None \<Rightarrow> (w, Ret ())
      | Some tk \<Rightarrow> mod_svc (task_svc tk) (\<lambda>v. v\<lparr>hasSendWill := False\<rparr>) (job_Remove tid w))"

text \<open>\<open>sendWillMsg\<close>, and a task that runs: its function cancels by the identifier first.\<close>

definition sendWillMsg :: "nat \<Rightarrow> ('r, unit) act" where
  "sendWillMsg i =
     bindw (get_svc i) (\<lambda>v. bindw (get_sess i) (\<lambda>s.
       case session_Will s of
         (s, None) \<Rightarrow> put_sess i s
       | (s, Some m) \<Rightarrow>
           if hasSendWill v then put_sess i s
           else
             let m = (if willMsgExpiryInterval (CMsg s) > 0
                      then Publish.SetMessageExpiryInterval (willMsgExpiryInterval (CMsg s)) m else m)
             in bindw (put_sess i (SetWill (Some m) s)) (\<lambda>_.
                bindw (delay_Run \<lparr>task_id = session_ClientId s, task_delay = uint (willDelayInterval (CMsg s)),
                    task_msg = m, task_svc = i\<rparr>) (\<lambda>_.
                mod_svc i (\<lambda>v. v\<lparr>hasSendWill := True\<rparr>)))))"

definition run_task :: "'r env \<Rightarrow> nat \<Rightarrow> ('r, unit) act" where
  "run_task ev n w =
     (case map_of (w_tasks w) n of
        None \<Rightarrow> (w, Ret ())
      | Some tk \<Rightarrow>
          let now_only = task_delay tk \<le> 0;
              w = (if now_only then w\<lparr>w_tasks := AList.delete n (w_tasks w)\<rparr> else w)
          in bindw (delay_Cancel (task_id tk)) (\<lambda>_.
             bindw (pubFn ev False (task_svc tk) (task_msg tk) [] False) (\<lambda>_ w.
               (if now_only then w else job_Remove (task_id tk) w, Ret ()))) w)"

section \<open>The dispatch of a packet\<close>

definition text_code :: "('r, aqerr option) act \<Rightarrow> ('r, svcerr option) act" where
  "text_code f = bindw f (\<lambda>e. ret (map_option (\<lambda>_. SCode UnspecifiedError) e))"

definition then_release :: "'r env \<Rightarrow> which \<Rightarrow> nat \<Rightarrow> ('r, svcerr option) act" where
  "then_release ev x i = bindw (acked_on x i) (\<lambda>es. bindw (processAcked ev i es) (\<lambda>_. ret None))"

text \<open>\<open>StoreSession\<close> under the service's own identifier\<close>

definition store_session :: "nat \<Rightarrow> ('r, unit) act" where
  "store_session i = bindw (get_svc i) (\<lambda>v w.
     (w\<lparr>w_mgr := (w_mgr w)\<lparr>m_store := StoreSession (cid v) (s_sess v) (m_store (w_mgr w))\<rparr>\<rparr>, Ret ()))"

definition drop_will :: "session \<Rightarrow> session" where
  "drop_will s = SetWill None (s\<lparr>cMsg := SetWillMessage [] (cMsg s)\<rparr>)"

definition processDisconnect :: "nat \<Rightarrow> disconnect \<Rightarrow> ('r, svcerr option) act" where
  "processDisconnect i m =
     bindw (if disconnect.reasonCode m = DisconnectionIncludesWill then sendWillMsg i else mod_sess i drop_will) (\<lambda>_.
       let n = disconnect.sessionExpiryInterval m in
       if n > 0 then
         bindw (get_sess i) (\<lambda>s.
           if SessExpiryInterval s = 0 then ret (Some (SCode ProtocolError))
           else bindw (mod_sess i (SetSessExpiryInterval n)) (\<lambda>_.
                bindw (store_session i) (\<lambda>_. ret (Some Disconnected))))
       else ret (Some Disconnected))"

definition processIncoming :: "'r env \<Rightarrow> nat \<Rightarrow> message \<Rightarrow> ('r, svcerr option) act" where
  "processIncoming ev i msg =
     (case msg of
        MPublish m \<Rightarrow> processPublish ev i m
      | MPuback m \<Rightarrow>
          bindw (add_quota i) (\<lambda>_.
          unless_err (text_code (ack_on Pub1ACK i msg)) (then_release ev Pub1ACK i))
      | MPubrec m \<Rightarrow>
          bindw (if puback.reasonCode m > QosFailure then add_quota i else ret ()) (\<lambda>_.
          unless_err (text_code (ack_on Pub2out i msg))
            (sent (write_core i (MPubrel (SetPacketId (PacketId m) NewPubrelMessage)))))
      | MPubrel m \<Rightarrow>
          unless_err (bindw (ack_on Pub2in i msg) (\<lambda>e. ret (map_option (\<lambda>_. SText) e)))
            (unless_err (then_release ev Pub2in i)
              (sent (write_core i (MPubcomp (SetPacketId (PacketId m) NewPubcompMessage)))))
      | MPubcomp m \<Rightarrow>
          bindw (add_quota i) (\<lambda>_.
          unless_err (text_code (ack_on Pub2out i msg)) (then_release ev Pub2out i))
      | MSubscribe m \<Rightarrow> processSubscribe ev i m
      | MSuback m \<Rightarrow> bindw (ack_on SubACK i msg) (\<lambda>_. then_release ev SubACK i)
      | MUnsubscribe m \<Rightarrow> processUnsubscribe i m
      | MUnsuback m \<Rightarrow> bindw (ack_on UnsubACK i msg) (\<lambda>_. then_release ev UnsubACK i)
      | MPingreq m \<Rightarrow> sent (write_core i (MPingresp NewPingrespMessage))
      | MPingresp m \<Rightarrow> bindw (ack_on PingACK i msg) (\<lambda>_. then_release ev PingACK i)
      | MDisconnect m \<Rightarrow> processDisconnect i m
      | _ \<Rightarrow> ret (Some (SCode ProtocolError)))"

section \<open>Start and stop\<close>

fun decimal :: "nat \<Rightarrow> bytes" where
  "decimal n = (if n < 10 then [] else decimal (n div 10)) @ [word_of_nat (48 + n mod 10)]"

declare decimal.simps [simp del]

definition ccid_of :: "nat \<Rightarrow> bytes \<Rightarrow> bytes" where
  "ccid_of i sid = [0x67, 0x6D, 0x71, 0x74, 0x74, 0x2D] @ decimal i @ [0x2F] @ sid"

fun recover_filters :: "'r env \<Rightarrow> nat \<Rightarrow> sub list \<Rightarrow> ('r, unit) act" where
  "recover_filters ev i [] = ret ()"
| "recover_filters ev i (sb # sbs) = (\<lambda>w. recover_filters ev i sbs
     (w\<lparr>w_topics :=
        if CloseShareSub ev \<and> IsShareSub (Topic sb) then fst (Topics.Unsubscribe (Topic sb) (Some i) (w_topics w))
        else fst (Topics.Subscribe sb (Some i) (w_topics w))\<rparr>))"

definition recoverSub :: "'r env \<Rightarrow> nat \<Rightarrow> ('r, svcerr option) act" where
  "recoverSub ev i = bindw (get_sess i) (\<lambda>s.
     case session_Topics s of
       Inl _ \<Rightarrow> ret (Some SText)
     | Inr sbs \<Rightarrow> bindw (recover_filters ev i sbs) (\<lambda>_. ret None))"

text \<open>
  \<open>dealOfflineMsg\<close> from the message at index \<open>n\<close> on. The search compares \<open>subs[n]\<close>, the index of
  the message, on every turn, and panics where there is no such subscriber. What sending changes
  in a message of the session's list is not kept.
\<close>

fun deal_offline :: "'r env \<Rightarrow> nat \<Rightarrow> nat \<Rightarrow> message list \<Rightarrow> ('r, unit) act" where
  "deal_offline ev i n [] = ret ()"
| "deal_offline ev i n (x # xs) =
     (case x of
        MPublish m \<Rightarrow> (\<lambda>w.
          let subs = fst (Subscribers (random ev) (topic m) (QoS m) [] False [] False (w_topics w)) in
          (if subs = [] then bindw (onPub i m no_sub [] False) (\<lambda>_. deal_offline ev i (n + 1) xs)
           else if length subs \<le> n then crash
           else if fst (subs ! n) = i
           then bindw (onPub i m (snd (hd subs)) [] False) (\<lambda>_. deal_offline ev i (n + 1) xs)
           else bindw (onPub i m no_sub [] False) (\<lambda>_. deal_offline ev i (n + 1) xs)) w)
      | _ \<Rightarrow> crash)"

definition dealOfflineMsg :: "'r env \<Rightarrow> nat \<Rightarrow> ('r, unit) act" where
  "dealOfflineMsg ev i = bindw (get_sess i) (\<lambda>s. deal_offline ev i 0 (OfflineMsg s))"

text \<open>\<open>start\<close> up to the goroutine of the processor; the CONNACK goes past the ring.\<close>

definition init_service :: "'r env \<Rightarrow> nat \<Rightarrow> ('r, unit) act" where
  "init_service ev i = bindw (get_sess i) (\<lambda>s. mod_svc i (\<lambda>v.
     v\<lparr>ccid := ccid_of i (session_ID s), s_sign := NewSign (newLimiter ev) (cfg_Quota ev) (cfg_QuotaLimit ev),
       hasSendWill := False, pkIDLimiter := NewPacketIDLimiter [ReceiveMaximum s]\<rparr>))"

definition count_sent :: "nat \<Rightarrow> message \<Rightarrow> ('r, unit) act" where
  "count_sent i m = bindw (get_svc i) (\<lambda>v.
     case (s_core v, msg_Len m) of
       (Some g, Some (l, _)) \<Rightarrow>
         put_svc i (v\<lparr>s_core := Some (g\<lparr>outStat := Incr (word_of_nat l) (outStat g)\<rparr>)\<rparr>)
     | _ \<Rightarrow> crash)"

definition start :: "'r env \<Rightarrow> nat \<Rightarrow> connack option \<Rightarrow> ('r, svcerr option) act" where
  "start ev i resp =
     bindw (init_service ev i) (\<lambda>_.
     unless_err (recoverSub ev i)
       (unless_err
         (case resp of
            None \<Rightarrow> ret None
          | Some m \<Rightarrow> unless_err (conn_writeMessage ev i (MConnack m))
              (bindw (count_sent i (MConnack m)) (\<lambda>_. ret None)))
         (bindw (dealOfflineMsg ev i) (\<lambda>_. ret None))))"

fun leave_all :: "nat \<Rightarrow> sub list \<Rightarrow> ('r, unit) act" where
  "leave_all i [] = ret ()"
| "leave_all i (sb # sbs) = (\<lambda>w. leave_all i sbs
     (w\<lparr>w_topics := fst (Topics.Unsubscribe (Topic sb) (Some i) (w_topics w))\<rparr>))"

definition unSubAll :: "nat \<Rightarrow> ('r, unit) act" where
  "unSubAll i = bindw (get_sess i) (\<lambda>s.
     case session_Topics s of Inl _ \<Rightarrow> ret () | Inr sbs \<Rightarrow> leave_all i sbs)"

definition close_core :: "nat \<Rightarrow> ('r, unit) act" where
  "close_core i = bindw (get_svc i) (\<lambda>v.
     case s_core v of
       None \<Rightarrow> crash
     | Some g \<Rightarrow> (\<lambda>w. case gcore_Close g of
         (g, r) \<Rightarrow> (w\<lparr>w_svcs := (w_svcs w)(i \<mapsto> v\<lparr>s_core := Some g\<rparr>)\<rparr>, r)))"

definition end_session :: "'r env \<Rightarrow> nat \<Rightarrow> ('r, unit) act" where
  "end_session ev i =
     bindw (get_svc i) (\<lambda>v. bindw (get_sess i) (\<lambda>s.
       if CleanSession (CMsg s) then (\<lambda>w.
         case Remove (s_sess v) (w_mgr w) of None \<Rightarrow> (w, Panicked) | Some p \<Rightarrow> (w\<lparr>w_mgr := p\<rparr>, Ret ()))
       else bindw (put_sess i (SetOfflineTime (now ev) s)) (\<lambda>_ w.
         case Save (s_sess v) (w_mgr w) of None \<Rightarrow> (w, Panicked) | Some p \<Rightarrow> (w\<lparr>w_mgr := p\<rparr>, Ret ()))))"

fun recovered :: "'w \<times> unit outcome \<Rightarrow> 'w \<times> unit outcome" where
  "recovered (w, Panicked) = (w, Ret ())"
| "recovered (w, r) = (w, r)"

text \<open>
  \<open>stop\<close>; a panic inside it is recovered. With \<open>server_stop\<close> the server forgets the service, which
  takes the write lock of the map of services: for ever, while a \<open>Range\<close> over that map holds its
  read lock (\<open>w_ranging\<close>).
\<close>

definition stop_body :: "'r env \<Rightarrow> nat \<Rightarrow> ('r, unit) act" where
  "stop_body ev i = bindw (get_svc i) (\<lambda>v.
     if s_closed v then ret ()
     else bindw (put_svc i (v\<lparr>s_closed := True\<rparr>)) (\<lambda>_.
       bindw (mod_sess i (SetStatus OFFLINE)) (\<lambda>_.
       bindw (close_core i) (\<lambda>_.
       bindw (get_sess i) (\<lambda>s.
       bindw (if CleanSession (CMsg s) then unSubAll i else ret ()) (\<lambda>_.
       bindw (if WillFlag (CMsg s) then sendWillMsg i else ret ()) (\<lambda>_.
       bindw (end_session ev i) (\<lambda>_.
       mod_svc i (\<lambda>v. v\<lparr>s_core := None\<rparr>)))))))))"

definition service_stop :: "'r env \<Rightarrow> nat \<Rightarrow> bool \<Rightarrow> ('r, unit) act" where
  "service_stop ev i server_stop w =
     follow (recovered (stop_body ev i w)) (\<lambda>_ w.
       if \<not> server_stop then (w, Ret ())
       else if w_ranging w then (w, Locked)
       else (w\<lparr>w_serving := Del i (w_serving w)\<rparr>, Ret ()))"

definition serverStopHandle :: "'r env \<Rightarrow> nat \<Rightarrow> ('r, unit) act" where
  "serverStopHandle ev i = service_stop ev i True"

section \<open>The processor\<close>

definition service_isDone :: "'r service \<Rightarrow> bool" where
  "service_isDone v = s_closed v"

definition streamController :: "'r env \<Rightarrow> nat \<Rightarrow> ('r, svcerr option) act" where
  "streamController ev i = bindw (get_svc i) (\<lambda>v.
     if BeyondQuota (s_sign v) then bindw (sendBeyondQuota ev i) (\<lambda>_. ret (Some SText))
     else case Limit (limiterHit ev) (s_sign v) of
         (hit, sg) \<Rightarrow> bindw (put_svc i (v\<lparr>s_sign := sg\<rparr>)) (\<lambda>_.
           if hit then bindw (sendTooManyMessages ev i) (\<lambda>_. ret (Some SText)) else ret None))"

definition core_op :: "nat \<Rightarrow> (gcore \<Rightarrow> gcore \<times> 'a outcome) \<Rightarrow> ('r, 'a) act" where
  "core_op i f = bindw (get_svc i) (\<lambda>v.
     case s_core v of
       None \<Rightarrow> crash
     | Some g \<Rightarrow> (\<lambda>w. case f g of (g, r) \<Rightarrow> (w\<lparr>w_svcs := (w_svcs w)(i \<mapsto> v\<lparr>s_core := Some g\<rparr>)\<rparr>, r)))"

definition error_code :: "svcerr \<Rightarrow> byte" where
  "error_code e = (case e of SCode c \<Rightarrow> c | _ \<Rightarrow> UnspecifiedError)"

definition handle_error :: "'r env \<Rightarrow> nat \<Rightarrow> svcerr \<Rightarrow> ('r, bool) act" where
  "handle_error ev i e =
     (if e = Disconnected then ret False
      else bindw (conn_writeMessage ev i (MDisconnect (NewDiscMessageWithCodeInfo (error_code e) (describe ev e))))
        (\<lambda>_. ret False))"

text \<open>
  One turn of the loop; whether there is another. \<open>sp\<close> is the spare capacity behind the
  temporary slice of the ring.
\<close>

definition processor_turn :: "'r env \<Rightarrow> bytes \<Rightarrow> nat \<Rightarrow> ('r, bool) act" where
  "processor_turn ev sp i =
     bindw (get_svc i) (\<lambda>v. if service_isDone v then ret False else
     bindw (streamController ev i) (\<lambda>e. if e \<noteq> None then ret False else
     bindw (core_op i peekMessageSize) (\<lambda>x.
       case x of
         Inl _ \<Rightarrow> ret False
       | Inr (t, n) \<Rightarrow>
           if n > cfg_MaxPacketSize ev then
             bindw (conn_writeMessage ev i (MDisconnect (NewDiscMessageWithCodeInfo MessageTooLong [])))
               (\<lambda>_. ret False)
           else bindw (core_op i (peekMessage sp t n)) (\<lambda>y.
             case y of
               Inr (m, k, None) \<Rightarrow>
                 bindw (core_op i (\<lambda>g. (g\<lparr>inStat := Incr (word_of_nat k) (inStat g)\<rparr>, Ret ()))) (\<lambda>_.
                 bindw (processIncoming ev i m) (\<lambda>e.
                   case e of None \<Rightarrow> ret True | Some e \<Rightarrow> handle_error ev i e))
             | _ \<Rightarrow> ret False))))"

text \<open>The end of the loop and a panic both stop the service.\<close>

definition processor_step :: "'r env \<Rightarrow> bytes \<Rightarrow> nat \<Rightarrow> ('r, bool) act" where
  "processor_step ev sp i w =
     (case processor_turn ev sp i w of
        (w, Ret True) \<Rightarrow> (w, Ret True)
      | (w, Ret False) \<Rightarrow> bindw (service_stop ev i False) (\<lambda>_. ret False) w
      | (w, Panicked) \<Rightarrow> bindw (service_stop ev i False) (\<lambda>_. ret False) w
      | (w, r) \<Rightarrow> (w, r))"

end
