(* ===== verification/Server.thy ===== *)
theory Server
  imports Lifecycle
begin

text \<open>
  A connection before its service runs, broker/core/service/v1/server.go and misc.go: the
  packets of the handshake on the bare socket, authentication, the choice of the session and the
  start of the service. A connection is what the client still sends and the packets written to
  it; a read at the end of the input is an error. The authentication manager and the clock are
  parameters; of an error only the kind is kept.
\<close>

record conn =
  c_in :: bytes
  c_out :: "bytes list"
  c_broken :: bool

datatype connerr = ReadErr | WriteErr | Malformed | BadPacket goerr | Refused string

record srvcfg =
  AllowZeroLengthClientId :: bool
  MaxKeepalive :: uint16
  srv_MaxPacketSize :: uint32
  srv_MaxQos :: int
  srv_RetainAvailable :: bool
  srv_CloseShareSub :: bool
  RedirectOpen :: bool
  RedirectIsForEver :: bool
  Redirects :: "bytes list"
  Keepalive :: int

text \<open>
  \<open>Verify\<close> of a name and a password: None accepts, an error refuses. \<open>PlusVerify\<close> finds the verifier of
  a method, which answers the \<open>n\<close>-th datum with data to send, whether to go on, and an error.
\<close>

record authman =
  verify :: "bytes \<Rightarrow> bytes \<Rightarrow> bytes option"
  plusVerify :: "bytes \<Rightarrow> (nat \<Rightarrow> bytes \<Rightarrow> bytes \<times> bool \<times> bytes option) option"

definition InvalidAuthenticationMethod :: byte where "InvalidAuthenticationMethod = 0x8C"
definition UserNameOrPasswordIsIncorrect :: byte where "UserNameOrPasswordIsIncorrect = 0x86"
definition ContinueAuthentication :: byte where "ContinueAuthentication = 0x18"
definition UseOtherServers :: byte where "UseOtherServers = 0x9C"
definition ServerHasMoved :: byte where "ServerHasMoved = 0x9D"

section \<open>Packets of the handshake\<close>

definition conn_send :: "message \<Rightarrow> (conn, connerr option) step" where
  "conn_send m c =
     (case msg_EncodeToBuf [] 0 m of
        Panic \<Rightarrow> (c, Panicked)
      | Fail _ e _ \<Rightarrow> (c, Ret (Some (BadPacket e)))
      | Go (bs, _, _) \<Rightarrow>
          if c_broken c then (c, Ret (Some WriteErr)) else (c\<lparr>c_out := c_out c @ [bs]\<rparr>, Ret None))"

text \<open>The packet type and the remaining length, byte by byte\<close>

function read_header :: "nat \<Rightarrow> bytes \<Rightarrow> conn \<Rightarrow> conn \<times> (connerr + bytes)" where
  "read_header l pk c =
     (if l > 5 then (c, Inl Malformed)
      else case c_in c of
          [] \<Rightarrow> (c, Inl ReadErr)
        | b # bs \<Rightarrow>
            if l + 1 > 1 \<and> b < 0x80 then (c\<lparr>c_in := bs\<rparr>, Inr (pk @ [b]))
            else read_header (l + 1) (pk @ [b]) (c\<lparr>c_in := bs\<rparr>))"
  by pat_completeness auto

termination
  by (relation "measure (\<lambda>(l, pk, c). 6 - l)") auto

declare read_header.simps [simp del]

definition getMessageBuffer :: "conn \<Rightarrow> conn \<times> (connerr + bytes)" where
  "getMessageBuffer c =
     (case read_header 0 [] c of
        (c, Inl e) \<Rightarrow> (c, Inl e)
      | (c, Inr pk) \<Rightarrow>
          let n = unat (fst (Uvarint (tl pk))) in
          if length (c_in c) < n then (c\<lparr>c_in := []\<rparr>, Inl ReadErr)
          else (c\<lparr>c_in := drop n (c_in c)\<rparr>, Inr (pk @ take n (c_in c))))"

definition getConnectMessage :: "(conn, connerr + connect) step" where
  "getConnectMessage c =
     (case getMessageBuffer c of
        (c, Inl e) \<Rightarrow> (c, Ret (Inl e))
      | (c, Inr pk) \<Rightarrow>
          (c, case connect_Decode (exact pk) NewConnectMessage of
                Panic \<Rightarrow> Panicked
              | Fail _ e _ \<Rightarrow> Ret (Inl (BadPacket e))
              | Go t \<Rightarrow> Ret (Inr (d_msg t))))"

definition getConnackMessage :: "(conn, connerr + connack) step" where
  "getConnackMessage c =
     (case getMessageBuffer c of
        (c, Inl e) \<Rightarrow> (c, Ret (Inl e))
      | (c, Inr pk) \<Rightarrow>
          (c, case connack_Decode (exact pk) NewConnackMessage of
                Panic \<Rightarrow> Panicked
              | Fail _ e _ \<Rightarrow> Ret (Inl (BadPacket e))
              | Go t \<Rightarrow> Ret (Inr (d_msg t))))"

text \<open>
  The error of a DISCONNECT packet is dropped; AUTH and CONNACK packets are handed on, any other
  packet is an error.
\<close>

definition auth_packet :: "bytes \<Rightarrow> (connerr + message) outcome" where
  "auth_packet pk =
     (let t = mtype_of (drop_bit 4 (hd pk)) in
      case mtype_New t of
        Inl e \<Rightarrow> Ret (Inl (Refused e))
      | Inr m \<Rightarrow>
          (case msg_Decode (exact pk) m of
             Panic \<Rightarrow> Panicked
           | Fail _ e (_, m) \<Rightarrow>
               if t = DISCONNECT then Ret (Inr m)
               else if t = AUTH \<or> t = CONNACK then Ret (Inl (BadPacket e))
               else Ret (Inl (Refused ''error type''))
           | Go (_, m) \<Rightarrow>
               if t = DISCONNECT \<or> t = AUTH \<or> t = CONNACK then Ret (Inr m)
               else Ret (Inl (Refused ''error type''))))"

definition getAuthMessageOrOther :: "(conn, connerr + message) step" where
  "getAuthMessageOrOther c =
     (case getMessageBuffer c of
        (c, Inl e) \<Rightarrow> (c, Ret (Inl e))
      | (c, Inr pk) \<Rightarrow> (c, auth_packet pk))"

text \<open>Every packet takes bytes from the input, so the dialogue of an authentication ends.\<close>

lemma read_header_shrinks:
  "read_header l pk c = (c', Inr pk') \<Longrightarrow> length (c_in c') < length (c_in c)"
proof (induction l pk c rule: read_header.induct)
  case (1 l pk c)
  show ?case
  proof (cases "l > 5 \<or> c_in c = []")
    case True
    then show ?thesis using "1.prems" by (subst (asm) read_header.simps) (auto split: if_splits)
  next
    case False
    then obtain b bs where c: "c_in c = b # bs" "\<not> l > 5"
      by (cases "c_in c") auto
    show ?thesis
    proof (cases "l + 1 > 1 \<and> b < 0x80")
      case True
      then show ?thesis using "1.prems" c by (subst (asm) read_header.simps) auto
    next
      case False
      then have "read_header (l + 1) (pk @ [b]) (c\<lparr>c_in := bs\<rparr>) = (c', Inr pk')"
        using "1.prems" c by (subst (asm) read_header.simps) auto
      then show ?thesis
        using "1.IH" [OF c(2) c(1) False] c(1) by simp
    qed
  qed
qed

lemma getMessageBuffer_shrinks:
  "getMessageBuffer c = (c', Inr pk) \<Longrightarrow> length (c_in c') < length (c_in c)"
  by (auto simp: getMessageBuffer_def Let_def split: prod.splits sum.splits if_splits
      dest!: read_header_shrinks)

lemma getAuthMessage_shrinks:
  "getAuthMessageOrOther c = (c', Ret (Inr m)) \<Longrightarrow> length (c_in c') < length (c_in c)"
  by (auto simp: getAuthMessageOrOther_def split: prod.splits sum.splits dest: getMessageBuffer_shrinks)

lemma conn_send_keeps: "(c', r) = conn_send m c \<Longrightarrow> c_in c' = c_in c"
  by (auto simp: conn_send_def split: out.splits prod.splits if_splits)

section \<open>Authentication\<close>

text \<open>A packet that refuses the client: where it could be written, the error is nil.\<close>

definition refuse :: "disconnect \<Rightarrow> connack \<Rightarrow> (conn, connack \<times> connerr option) step" where
  "refuse dis resp = bindw (conn_send (MDisconnect dis)) (\<lambda>e. ret (resp, e))"

definition disc_with :: "byte \<Rightarrow> disconnect" where
  "disc_with code = Disconnect.SetReasonCode code NewDisconnectMessage"

function auth_loop :: "(nat \<Rightarrow> bytes \<Rightarrow> bytes \<times> bool \<times> bytes option) \<Rightarrow> nat \<Rightarrow> bytes \<Rightarrow> bytes \<Rightarrow> connack \<Rightarrow>
    conn \<Rightarrow> conn \<times> (connack \<times> connerr option) outcome" where
  "auth_loop vf k am ad resp c =
     (case vf k ad of
        (_, _, Some e) \<Rightarrow> refuse (Disconnect.SetReasonStr e (disc_with MsgTypes.UnAuthorized)) resp c
      | (_, False, None) \<Rightarrow> (c, Ret (Connack.SetAuthMethod am (Connack.SetReasonCode Success resp), None))
      | (d, True, None) \<Rightarrow>
          (case conn_send (MAuth (Auth.SetAuthData d (Auth.SetAuthMethod am
                 (Auth.SetReasonCode ContinueAuthentication NewAuthMessage)))) c of
             (c, Ret (Some e)) \<Rightarrow> (c, Ret (resp, Some e))
           | (c, Ret None) \<Rightarrow>
               (case getAuthMessageOrOther c of
                  (c, Ret (Inl e)) \<Rightarrow> (c, Ret (resp, Some e))
                | (c, Ret (Inr (MAuth m))) \<Rightarrow>
                    if auth.authMethod m \<noteq> am then
                      bindw (conn_send (MDisconnect (Disconnect.SetReasonStr
                          (map of_char ''auth method is different from last time'')
                          (disc_with InvalidAuthenticationMethod))))
                        (\<lambda>e. ret (resp, case e of Some e \<Rightarrow> Some e
                           | None \<Rightarrow> Some (Refused ''authplus: the authentication method is different from last time''))) c
                    else auth_loop vf (k + 1) am (auth.authData m) resp c
                | (c, Ret (Inr (MDisconnect _))) \<Rightarrow> (c, Ret (resp, Some (Refused ''disconnect in auth'')))
                | (c, Ret (Inr _)) \<Rightarrow> (c, Ret (resp, Some (Refused ''unSupport deal msg'')))
                | (c, Waits) \<Rightarrow> (c, Waits) | (c, Locked) \<Rightarrow> (c, Locked) | (c, Panicked) \<Rightarrow> (c, Panicked)
                | (c, Loops) \<Rightarrow> (c, Loops))
           | (c, Waits) \<Rightarrow> (c, Waits) | (c, Locked) \<Rightarrow> (c, Locked) | (c, Panicked) \<Rightarrow> (c, Panicked)
           | (c, Loops) \<Rightarrow> (c, Loops)))"
  by pat_completeness auto

termination
  by (relation "measure (\<lambda>(vf, k, am, ad, resp, c). length (c_in c))")
    (simp_all del: split_paired_All split_paired_Ex, metis conn_send_keeps getAuthMessage_shrinks)

declare auth_loop.simps [simp del]

text \<open>
  \<open>auth\<close>. An unknown method, an error of the verifier and a wrong password all return what the
  write of the refusing packet returns.
\<close>

definition server_auth :: "authman \<Rightarrow> connack \<Rightarrow> connect \<Rightarrow> (conn, connack \<times> connerr option) step" where
  "server_auth am resp req =
     (if length (connect.authMethod req) > 0 then
        (case plusVerify am (connect.authMethod req) of
           None \<Rightarrow> refuse (disc_with InvalidAuthenticationMethod) resp
         | Some vf \<Rightarrow> auth_loop vf 0 (connect.authMethod req) (connect.authData req) resp)
      else case verify am (connect.username req) (connect.password req) of
          Some _ \<Rightarrow>
            let resp = SetSessionPresent False (Connack.SetReasonCode UserNameOrPasswordIsIncorrect resp)
            in bindw (conn_send (MConnack resp)) (\<lambda>e. ret (resp, e))
        | None \<Rightarrow> ret (resp, None))"

type_synonym handshake = "(connect \<times> connack) option \<times> connerr option"

definition reject :: "byte \<Rightarrow> string \<Rightarrow> string \<Rightarrow> (conn, handshake) step" where
  "reject code info err =
     bindw (conn_send (MDisconnect (NewDiscMessageWithCodeInfo code (map of_char info))))
       (\<lambda>_. ret (None, Some (Refused err)))"

text \<open>
  \<open>conAuth\<close>, in two parts. \<open>Redirects[0]\<close> panics when there is none; so does a CONNACK that cannot be
  written for a CONNECT that does not decode. The result is empty for an error and a redirection.
\<close>

definition after_checks :: "srvcfg \<Rightarrow> authman \<Rightarrow> connect \<Rightarrow> connack \<Rightarrow> (conn, handshake) step" where
  "after_checks cf am req resp =
     (if RedirectOpen cf then
        (case Redirects cf of
           [] \<Rightarrow> crash
         | r # _ \<Rightarrow>
             bindw (conn_send (MDisconnect (SetServerReference r
                 (disc_with (if RedirectIsForEver cf then ServerHasMoved else UseOtherServers)))))
               (\<lambda>_. ret (None, None)))
      else bindw (server_auth am resp req) (\<lambda>(resp, e).
        if e \<noteq> None then ret (None, e)
        else
          let req = (if keepAlive req = 0 then Connect.SetKeepAlive (word_of_int (Keepalive cf)) req else req);
              resp = (if requestRespInfo req = 0 then SetResponseInformation [] resp else resp)
          in ret (Some (req, resp), None)))"

definition conAuth :: "srvcfg \<Rightarrow> authman \<Rightarrow> (conn, handshake) step" where
  "conAuth cf am =
     (let resp = (if \<not> srv_CloseShareSub cf then SetSharedSubscriptionAvailable 1 NewConnackMessage
                  else NewConnackMessage) in
      bindw getConnectMessage (\<lambda>x.
        case x of
          Inl e \<Rightarrow>
            (case e of
               BadPacket (Code code) \<Rightarrow>
                 bindw (conn_send (MConnack (SetSessionPresent False (Connack.SetReasonCode code resp))))
                   (\<lambda>w. if w \<noteq> None then crash else ret (None, Some e))
             | _ \<Rightarrow> ret (None, Some e))
        | Inr req \<Rightarrow>
            if length (connect.clientId req) = 0 \<and> \<not> AllowZeroLengthClientId cf then
              reject CustomerIdentifierInvalid ''the length of the client ID cannot be zero''
                ''the length of the client ID cannot be zero''
            else if MaxKeepalive cf > 0 \<and> keepAlive req > MaxKeepalive cf then
              reject UnspecifiedError ''the keepalive value exceeds the maximum value''
                ''the keepalive value exceeds the maximum value''
            else
              case (if srv_MaxPacketSize cf > 0 then connect_Len req else Some (0, req)) of
                None \<Rightarrow> crash
              | Some (l, req) \<Rightarrow>
                  if l > unat (srv_MaxPacketSize cf) then
                    reject MessageTooLong ''exceeds the maximum package size'' ''exceeds the maximum package size''
                  else
                    let resp = Connack.SetMaxPacketSize (srv_MaxPacketSize cf) resp in
                    if srv_MaxQos cf < uint (WillQos req) then
                      reject UnsupportedQoSLevel [] ''exceeds the max qos''
                    else
                      let resp = SetMaxQos (word_of_int (srv_MaxQos cf)) resp in
                      if srv_RetainAvailable cf then after_checks cf am req (SetRetainAvailable 1 resp)
                      else if WillRetain req then
                        reject MsgTypes.UnsupportedRetention [] ''unSupport retain message''
                      else after_checks cf am req (SetRetainAvailable 0 resp)))"

section \<open>The session of a connection\<close>

definition mgr_op :: "(manager \<Rightarrow> (manager \<times> 'a) option) \<Rightarrow> ('r, 'a) act" where
  "mgr_op f w = (case f (w_mgr w) of None \<Rightarrow> (w, Panicked) | Some (p, x) \<Rightarrow> (w\<lparr>w_mgr := p\<rparr>, Ret x))"

definition mgr_Remove :: "nat \<Rightarrow> ('r, unit) act" where
  "mgr_Remove r = mgr_op (\<lambda>p. map_option (\<lambda>p. (p, ())) (Remove r p))"

definition mgr_GetOrCreate :: "bytes \<Rightarrow> connect option \<Rightarrow> ('r, (goerr + nat option \<times> bool) \<times> connect option) act" where
  "mgr_GetOrCreate c m = mgr_op (GetOrCreate c m)"

definition expired :: "int \<Rightarrow> session \<Rightarrow> bool" where
  "expired t s \<longleftrightarrow> SessExpiryInterval s = 0 \<or> OfflineTime s + uint (SessExpiryInterval s) \<le> t"

text \<open>The stored session for a connection that does not start clean; an expired one is removed.\<close>

definition old_session :: "int \<Rightarrow> bytes \<Rightarrow> ('r, goerr + nat option) act" where
  "old_session t c =
     bindw (mgr_GetOrCreate c None) (\<lambda>(x, _).
       case x of
         Inl e \<Rightarrow> ret (Inl e)
       | Inr (None, _) \<Rightarrow> ret (Inr None)
       | Inr (Some r, _) \<Rightarrow> (\<lambda>w.
           case m_heap (w_mgr w) r of
             None \<Rightarrow> (w, Panicked)
           | Some s \<Rightarrow>
               if expired t s then bindw (mgr_Remove r) (\<lambda>_. ret (Inr None)) w else (w, Ret (Inr (Some r)))))"

text \<open>
  A clean start builds a session from the message and removes by it; \<open>BuildSess\<close> that fails hands
  on a nil pointer, which panics. The message, that all three hold a pointer to, comes back.
\<close>

definition clean_session :: "connect \<Rightarrow> ('r, nat \<times> connect) act" where
  "clean_session req =
     bindw (mgr_op (\<lambda>p. map_option (\<lambda>(p, x, m). (p, x, m)) (BuildSess req p))) (\<lambda>(x, req).
       case x of
         Inl _ \<Rightarrow> crash
       | Inr r \<Rightarrow> bindw (mgr_Remove r) (\<lambda>_. ret (r, req)))"

definition with_clientId :: "nat \<Rightarrow> connect \<Rightarrow> connect" where
  "with_clientId i req =
     (if length (connect.clientId req) = 0 then
        SetCleanSession True (fst (Connect.SetClientId (map of_char ''internalclient'' @ decimal i) req))
      else req)"

definition getSession :: "'r env \<Rightarrow> nat \<Rightarrow> connect \<Rightarrow> connack \<Rightarrow>
    ('r, goerr + nat option \<times> connect \<times> connack) act" where
  "getSession ev i req resp =
     (let req = with_clientId i req; c = connect.clientId req in
      bindw (if \<not> CleanStart req then bindw (old_session (now ev) c) (\<lambda>x. ret (x, req))
             else bindw (clean_session req) (\<lambda>(r, req). ret (Inr (Some r), req))) (\<lambda>(x, req).
        case x of
          Inl e \<Rightarrow> ret (Inl e)
        | Inr (Some r) \<Rightarrow> bindw (delay_Cancel c) (\<lambda>_. ret (Inr (Some r, req, resp)))
        | Inr None \<Rightarrow>
            bindw (mgr_GetOrCreate c (Some req)) (\<lambda>(x, m).
              let req = (case m of None \<Rightarrow> req | Some m \<Rightarrow> m) in
              case x of
                Inl e \<Rightarrow> ret (Inl e)
              | Inr (r, _) \<Rightarrow>
                  bindw (delay_Cancel c) (\<lambda>_. ret (Inr (r, req, SetSessionPresent False resp))))))"

section \<open>A connection becomes a service\<close>

definition new_service :: "gcore option \<Rightarrow> nat \<Rightarrow> 'r env \<Rightarrow> 'r service" where
  "new_service g r ev = \<lparr>clusterBelong = False, clusterOpen = False, ccid = [], s_core = g, s_sess = r,
     hasSendWill = False, s_closed = False, s_sign = NewSign (newLimiter ev) 0 0, rmsgs = [],
     pkIDLimiter = newPacketIDLimiter 0, s_direct = []\<rparr>"

text \<open>The core of the new service; its rings cannot fail to be made.\<close>

definition open_core :: "connect \<Rightarrow> ('r, nat \<times> gcore option) act" where
  "open_core req w =
     (let i = w_gsvcid w + 1; (g, k) = NewGCore req (w_bufcnt w) in
      (w\<lparr>w_gsvcid := i, w_bufcnt := k\<rparr>, Ret (i, g)))"

text \<open>
  \<open>handleConnection\<close> behind \<open>conAuth\<close>: \<open>serve\<close> is the case of a client that was let in. The error
  of a failed start follows its \<open>stop\<close>.
\<close>

definition serve :: "'r env \<Rightarrow> connect \<Rightarrow> connack \<Rightarrow> ('r, svcerr option) act" where
  "serve ev req resp =
     bindw (open_core req) (\<lambda>(i, g).
     bindw (getSession ev i req resp) (\<lambda>x.
       case x of
         Inl _ \<Rightarrow> ret (Some SText)
       | Inr (None, _, _) \<Rightarrow> crash
       | Inr (Some r, req, resp) \<Rightarrow>
           (case connect_Len req of
              None \<Rightarrow> crash
            | Some (l, _) \<Rightarrow>
                bindw (put_svc i (new_service
                    (map_option (\<lambda>g. g\<lparr>connMsg := req, inStat := Incr (word_of_nat l) (inStat g)\<rparr>) g) r ev)) (\<lambda>_.
                bindw (start ev i (Some (Connack.SetReasonCode Success resp))) (\<lambda>e.
                  if e \<noteq> None then bindw (service_stop ev i False) (\<lambda>_. ret e)
                  else (\<lambda>w. (w\<lparr>w_serving := Set i () (w_serving w)\<rparr>, Ret None)))))))"

definition handleConnection :: "srvcfg \<Rightarrow> authman \<Rightarrow> 'r env \<Rightarrow> conn \<times> 'r world \<Rightarrow>
    (conn \<times> 'r world) \<times> connerr option outcome" where
  "handleConnection cf am ev = (\<lambda>(c, w).
     case conAuth cf am c of
       (c, Ret (_, Some e)) \<Rightarrow> ((c, w), Ret (Some e))
     | (c, Ret (None, None)) \<Rightarrow> ((c, w), Ret None)
     | (c, Ret (Some (req, resp), None)) \<Rightarrow>
         (case serve ev req resp w of
            (w, Ret e) \<Rightarrow> ((c, w), Ret (map_option (\<lambda>_. Refused ''service'') e))
          | (w, Waits) \<Rightarrow> ((c, w), Waits) | (w, Locked) \<Rightarrow> ((c, w), Locked)
          | (w, Panicked) \<Rightarrow> ((c, w), Panicked) | (w, Loops) \<Rightarrow> ((c, w), Loops))
     | (c, Waits) \<Rightarrow> ((c, w), Waits) | (c, Locked) \<Rightarrow> ((c, w), Locked)
     | (c, Panicked) \<Rightarrow> ((c, w), Panicked) | (c, Loops) \<Rightarrow> ((c, w), Loops))"

section \<open>Shutdown\<close>

text \<open>\<open>Range\<close> holds the read lock of the map while it stops the services.\<close>

fun stop_all :: "'r env \<Rightarrow> nat list \<Rightarrow> ('r, unit) act" where
  "stop_all ev [] = ret ()"
| "stop_all ev (i # is) = bindw (serverStopHandle ev i) (\<lambda>_. stop_all ev is)"

definition Shutdown :: "'r env \<Rightarrow> ('r, unit) act" where
  "Shutdown ev w =
     bindw (stop_all ev (map fst (dirtyOld (w_serving w) @ dirtyNew (w_serving w)))) (\<lambda>_ w.
       (w\<lparr>w_ranging := False, w_listening := False\<rparr>, Ret ())) (w\<lparr>w_ranging := True\<rparr>)"

definition reset_delay :: "int \<Rightarrow> int" where
  "reset_delay tempDelay = (let d = (if tempDelay = 0 then 5 else tempDelay * 2) in if d > 1000 then 1000 else d)"

end
