(* ===== verification/WorldRel.thy ===== *)
theory WorldRel
  imports Server
begin

text \<open>
  Relations between the states before and after a handler. The locale states what a relation has
  to allow: any change of the shared components, a change of a service that leaves its limiter of
  packet identifiers alone, and a poll of that limiter. It then holds across every handler, whatever
  the outcome. The interpretations: the server's flags are not touched, the identifiers in use do
  not become fewer, and a job that no identifier stands for stays scheduled.
\<close>

locale world_relation =
  fixes rel :: "'r world \<Rightarrow> 'r world \<Rightarrow> bool"
    and svc_rel :: "'r service \<Rightarrow> 'r service \<Rightarrow> bool"
  assumes rel_refl: "rel w w"
    and rel_trans: "rel w w' \<Longrightarrow> rel w' w'' \<Longrightarrow> rel w w''"
    and rel_topics: "rel w (w\<lparr>w_topics := t\<rparr>)"
    and rel_mgr: "rel w (w\<lparr>w_mgr := p\<rparr>)"
    and rel_gpid: "rel w (w\<lparr>w_gpid := k\<rparr>)"
    and rel_add: "rel w (AddJob tk w)"
    and rel_spawn: "rel w (spawn tk w)"
    and rel_remove: "rel w (job_Remove tid w)"
    and rel_goroutine: "map_of (w_tasks w) n = Some tk \<Longrightarrow> task_delay tk \<le> 0 \<Longrightarrow> rel w (w\<lparr>w_tasks := AList.delete n (w_tasks w)\<rparr>)"
    and rel_serving: "rel w (w\<lparr>w_serving := m\<rparr>)"
    and rel_svc: "w_svcs w i = Some v \<Longrightarrow> svc_rel v v' \<Longrightarrow> rel w (w\<lparr>w_svcs := (w_svcs w)(i \<mapsto> v')\<rparr>)"
    and svc_same: "pkIDLimiter v' = pkIDLimiter v \<Longrightarrow> svc_rel v v'"
    and svc_poll: "PollPacketID (pkIDLimiter v) = Some (Some pid, l) \<Longrightarrow> svc_rel v (v\<lparr>pkIDLimiter := l\<rparr>)"
begin

definition across :: "('r, 'a) act \<Rightarrow> bool" where
  "across f \<longleftrightarrow> (\<forall>w. rel w (fst (f w)))"

lemma acrossI: "(\<And>w. rel w (fst (f w))) \<Longrightarrow> across f"
  by (simp add: across_def)

lemma acrossD: "across f \<Longrightarrow> rel w (fst (f w))"
  by (simp add: across_def)

lemma follow_rel: "rel w (fst x) \<Longrightarrow> (\<And>y w'. rel w w' \<Longrightarrow> rel w (fst (k y w'))) \<Longrightarrow> rel w (fst (follow x k))"
  by (cases x; cases "snd x") auto

lemma bind_at: "rel w (fst (f w)) \<Longrightarrow> (\<And>y. across (k y)) \<Longrightarrow> rel w (fst (bindw f k w))"
  unfolding bindw_def by (rule follow_rel) (auto intro: rel_trans [OF _ acrossD])

lemma bind_across [intro]: "across f \<Longrightarrow> (\<And>y. across (k y)) \<Longrightarrow> across (bindw f k)"
  by (rule acrossI, rule bind_at) (simp_all add: acrossD)

lemma ret_across [intro, simp]: "across (ret x)"
  by (simp add: across_def ret_def rel_refl)

lemma crash_across [intro, simp]: "across crash"
  by (simp add: across_def crash_def rel_refl)

lemma ret_same [intro, simp]: "across (\<lambda>w. (w, r))"
  by (simp add: across_def rel_refl)

lemma unless_across [intro]: "across f \<Longrightarrow> across g \<Longrightarrow> across (unless_err f g)"
  unfolding unless_err_def by (intro bind_across) auto

lemma if_across [intro]: "across f \<Longrightarrow> across g \<Longrightarrow> across (if b then f else g)"
  by simp

lemma gpid_across: "across f \<Longrightarrow> rel w (fst (f (w\<lparr>w_gpid := k\<rparr>)))"
  by (rule rel_trans [OF rel_gpid acrossD])

lemma topics_across: "across f \<Longrightarrow> rel w (fst (f (w\<lparr>w_topics := t\<rparr>)))"
  by (rule rel_trans [OF rel_topics acrossD])

text \<open>A service that is read and written at once\<close>

lemma get_svc_across [intro, simp]: "across (get_svc i)"
  by (auto simp: across_def get_svc_def rel_refl split: option.splits)

lemma get_at:
  "(\<And>v. w_svcs w i = Some v \<Longrightarrow> rel w (fst (k v w))) \<Longrightarrow> rel w (fst (bindw (get_svc i) k w))"
  by (auto simp: bindw_def get_svc_def rel_refl split: option.splits)

lemma bind_get: "(\<And>v w. w_svcs w i = Some v \<Longrightarrow> rel w (fst (k v w))) \<Longrightarrow> across (bindw (get_svc i) k)"
  by (intro acrossI get_at)

lemma put_at: "w_svcs w i = Some v \<Longrightarrow> svc_rel v v' \<Longrightarrow> rel w (fst (put_svc i v' w))"
  by (simp add: put_svc_def rel_svc)

lemma put_bind:
  "w_svcs w i = Some v \<Longrightarrow> svc_rel v v' \<Longrightarrow> (\<And>x. across (k x)) \<Longrightarrow> rel w (fst (bindw (put_svc i v') k w))"
  by (intro bind_at put_at)

lemma mod_svc_across [intro]: "(\<And>v. svc_rel v (f v)) \<Longrightarrow> across (mod_svc i f)"
  unfolding mod_svc_def by (intro bind_get put_at) auto

lemma core_put: "w_svcs w i = Some v \<Longrightarrow> rel w (w\<lparr>w_svcs := (w_svcs w)(i \<mapsto> v\<lparr>s_core := g\<rparr>)\<rparr>)"
  by (auto intro!: rel_svc svc_same)

lemma get_sess_across [intro, simp]: "across (get_sess i)"
  unfolding get_sess_def by (intro bind_get) (auto simp: rel_refl split: option.splits)

lemma put_sess_across [intro, simp]: "across (put_sess i s)"
  unfolding put_sess_def by (intro bind_get) (auto simp: rel_mgr)

lemma mod_sess_across [intro, simp]: "across (mod_sess i f)"
  unfolding mod_sess_def by (intro bind_across) auto

lemma write_core_across [intro, simp]: "across (write_core i m)"
  unfolding write_core_def
proof (intro bind_get, goal_cases)
  case (1 v w)
  show ?case
  proof (cases "s_core v")
    case (Some g)
    obtain g' m' k r where x: "writeMessage m (w_gpid w) g = (g', m', k, r)"
      by (cases "writeMessage m (w_gpid w) g") auto
    have "rel w (w\<lparr>w_svcs := (w_svcs w)(i \<mapsto> v\<lparr>s_core := Some g'\<rparr>), w_gpid := k\<rparr>)"
      by (rule rel_trans [OF core_put [OF 1] rel_gpid])
    then show ?thesis
      using Some x by (auto intro!: follow_rel split: sum.splits)
  qed (simp add: crash_def rel_refl)
qed

lemma sent_across [intro, simp]: "across f \<Longrightarrow> across (sent f)"
  unfolding sent_def by (intro bind_across) auto

lemma write_socket_across [intro, simp]: "across (write_socket ev i bs)"
  unfolding write_socket_def
  by (intro bind_get) (auto simp: crash_def ret_def rel_refl split: option.splits intro!: put_bind svc_same)

lemma conn_write_across [intro, simp]: "across (conn_writeMessage ev i m)"
proof (rule acrossI)
  fix w
  have *: "across (bindw (get_svc i) (\<lambda>v. case (s_core v, msg_Len m) of
      (Some g, Some (l, _)) \<Rightarrow> bindw (put_svc i (v\<lparr>s_core := Some (g\<lparr>outStat := Incr (word_of_nat l) (outStat g)\<rparr>)\<rparr>))
        (\<lambda>_. ret None) | _ \<Rightarrow> crash))" for m
    by (intro bind_get) (auto simp: crash_def rel_refl split: option.splits intro!: put_bind svc_same)
  show "rel w (fst (conn_writeMessage ev i m w))"
  proof (cases "msg_EncodeToBuf [] (w_gpid w) m")
    case (Go x)
    then show ?thesis
      by (cases x) (simp add: conn_writeMessage_def,
        intro gpid_across bind_across write_socket_across if_across ret_across *)
  next
    case (Fail n e x)
    then show ?thesis
      by (cases x) (simp add: conn_writeMessage_def rel_gpid)
  qed (simp add: conn_writeMessage_def rel_refl)
qed

lemma sendByConn_across [intro, simp]: "across (sendByConn ev i m)"
  by (rule acrossI)
    (auto simp: sendByConn_def rel_refl rel_gpid split: option.splits out.splits prod.splits intro!: gpid_across bind_across)

lemma wait_on_across [intro, simp]: "across (wait_on x i m onc)"
  unfolding wait_on_def
  by (intro bind_across get_sess_across acrossI)
    (auto simp: rel_refl split: option.splits prod.splits intro!: gpid_across bind_across)

lemma ack_on_across [intro, simp]: "across (ack_on x i m)"
  unfolding ack_on_def
  by (intro bind_across get_sess_across acrossI)
    (auto simp: rel_refl split: option.splits prod.splits intro!: gpid_across bind_across)

lemma acked_on_across [intro, simp]: "across (acked_on x i)"
  unfolding acked_on_def by (intro bind_across) (auto split: prod.splits)

section \<open>Sending\<close>

lemma service_publish_across [intro, simp]: "across (service_publish i m onc)"
  unfolding service_publish_def publish_queued_def by (auto intro!: bind_across split: prod.splits)

lemma req_quota_across [intro, simp]: "across (req_quota i)"
  unfolding req_quota_def by (intro bind_get) (auto split: prod.splits intro!: put_bind svc_same)

lemma add_quota_across [intro, simp]: "across (add_quota i)"
  unfolding add_quota_def by (intro bind_get put_at) (auto intro!: svc_same)

lemma poll_id_across [intro, simp]: "across (poll_id i)"
  unfolding poll_id_def
  by (intro bind_get) (auto simp: rel_refl split: option.splits prod.splits intro!: put_bind svc_poll)

lemma too_long_across [intro, simp]: "across (too_long mx m)"
  unfolding too_long_def by (auto split: option.splits)

lemma onPub_across [intro, simp]: "across (onPub i m sb sender sh)"
  unfolding onPub_def Let_def by (auto intro!: bind_across split: prod.splits)

lemma write_back_across [intro, simp]: "across (write_back kept m)"
  by (auto simp: across_def write_back_def rel_refl rel_topics)

lemma lookSend_across [intro, simp]: "across (lookSend kept i m xs sh)"
proof (induction xs arbitrary: m)
  case (Cons a xs)
  obtain c sb where "a = (c, sb)" by (cases a)
  then show ?case
    by (intro acrossI) (auto simp: rel_refl split: option.splits intro!: gpid_across bind_across Cons.IH)
qed simp

lemma pub_to_across [intro, simp]: "across (pub_to ev kept i m svc sn sh)"
proof (rule acrossI)
  fix w
  have "across (bindw (write_back kept m) (\<lambda>_. lookSend kept i m xs sh))" for m xs
    by (intro bind_across) simp_all
  then show "rel w (fst (pub_to ev kept i m svc sn sh w))"
    by (simp add: pub_to_def rel_refl Let_def acrossD split: prod.split option.split)
qed

lemma pubFn_across [intro, simp]: "across (pubFn ev kept i m sn sh)" "across (pubFnPlus ev i m)"
  "across (pubFnSys ev kept i m)"
  by (simp_all add: pubFn_def pubFnPlus_def pubFnSys_def)

section \<open>The packets of a client\<close>

lemma retain_across [intro, simp]: "across (retain m)"
  by (auto simp: across_def retain_def rel_refl rel_topics split: option.splits)

lemma share_across [intro, simp]: "across (sendShareToCluster ev i m)"
  unfolding sendShareToCluster_def by (auto intro!: bind_across)

lemma onPublish_across [intro, simp]: "across (onPublish ev i m)"
proof -
  have "across (\<lambda>w. case recopy (w_gpid w) m of None \<Rightarrow> (w, Panicked)
       | Some (copy, m, k) \<Rightarrow>
           bindw (sendShareToCluster ev i copy) (\<lambda>_. pubFn ev (keeps m) i m [] False) (w\<lparr>w_gpid := k\<rparr>))"
    by (rule acrossI) (auto simp: rel_refl split: option.splits intro!: gpid_across bind_across)
  then show ?thesis
    unfolding onPublish_def by (intro bind_across) auto
qed

lemma topicAliceIn_across [intro, simp]: "across (topicAliceIn i m)"
  unfolding topicAliceIn_def Let_def by (auto intro!: bind_across split: option.splits)

lemma processPublish_across [intro, simp]: "across (processPublish ev i m)"
  unfolding processPublish_def by (auto intro!: bind_across unless_across split: prod.splits)

lemma processAcked_across [intro, simp]: "across (processAcked ev i es)"
proof (induction es)
  case (Cons e es)
  have "across (case m of MPublish p \<Rightarrow> bindw (onPublish ev i p) (\<lambda>_. processAcked ev i es) | _ \<Rightarrow> crash)" for m
    by (cases m) (simp_all add: bind_across Cons.IH)
  then show ?case
    by (simp add: Cons.IH split: sum.split out.split prod.split)
qed simp

lemma topic_subscribe_across [intro, simp]: "across (topic_subscribe i sb)"
  by (auto simp: across_def topic_subscribe_def rel_topics split: prod.splits)

lemma add_retained_across [intro, simp]: "across (add_retained i t)"
proof (rule acrossI)
  fix w
  have "across (bindw (mod_svc i (\<lambda>v. v\<lparr>rmsgs := rmsgs v @ ms\<rparr>)) (\<lambda>_. ret e))" for ms and e :: "svcerr option"
    by (intro bind_across mod_svc_across svc_same) simp_all
  then show "rel w (fst (add_retained i t w))"
    by (simp add: add_retained_def acrossD split: prod.split option.split)
qed

lemma retained_for_across [intro, simp]: "across (retained_for i sb)"
  unfolding retained_for_def by (auto intro!: bind_across split: sum.splits)

lemma sess_AddTopic_across [intro, simp]: "across (sess_AddTopic i sb)"
  unfolding sess_AddTopic_def by (auto intro!: bind_across split: prod.splits)

lemma share_check_across [intro, simp]: "across (share_check ev m ts)"
  by (induction ts) (auto split: option.splits bool.splits)

lemma enter_filters_across [intro, simp]: "across (enter_filters ev i m ts qs codes)"
proof (induction ts arbitrary: qs codes)
  case (Cons t ts)
  then show ?case
    by (cases qs) (auto intro!: bind_across split: option.splits prod.splits)
qed simp

lemma store_back_across [intro, simp]: "across (store_back m)"
  by (auto simp: across_def store_back_def rel_topics)

lemma send_retained_across [intro, simp]: "across (send_retained i q0 ms)"
proof (induction ms)
  case (Cons rm ms)
  have "across (bindw (store_back a) (\<lambda>_. bindw (service_publish i b NoCallback)
      (\<lambda>(rm2, _). bindw (store_back (fst (SetQoS q rm2))) (\<lambda>_. send_retained i q0 ms))))" for a b q
    by (intro bind_across) (auto intro!: bind_across Cons.IH)
  then show ?case
    unfolding send_retained.simps Let_def by (rule acrossI [OF acrossD])
qed simp

lemma processSubscribe_across [intro, simp]: "across (processSubscribe ev i m)"
  unfolding processSubscribe_def
  by (auto intro!: bind_across unless_across svc_same split: prod.splits option.splits)

lemma leave_filters_across [intro, simp]: "across (leave_filters i ts)"
proof (induction ts)
  case (Cons t ts)
  then show ?case
    by (intro acrossI) (auto intro!: topics_across bind_across)
qed simp

lemma processUnsubscribe_across [intro, simp]: "across (processUnsubscribe i m)"
  unfolding processUnsubscribe_def by (auto intro!: bind_across)

section \<open>The life of a service\<close>

lemma delay_Run_across [intro, simp]: "across (delay_Run tk)"
  by (rule acrossI) (simp add: delay_Run_def rel_add rel_spawn)

lemma job_across: "across f \<Longrightarrow> rel w (fst (f (job_Remove tid w)))"
  by (rule rel_trans [OF rel_remove acrossD])

lemma delay_Cancel_across [intro, simp]: "across (delay_Cancel tid)"
proof (rule acrossI)
  fix w
  have "across (mod_svc i (\<lambda>v. v\<lparr>hasSendWill := False\<rparr>))" for i
    by (intro mod_svc_across svc_same) simp
  then show "rel w (fst (delay_Cancel tid w))"
    by (simp add: delay_Cancel_def rel_refl job_across split: option.split)
qed

lemma sendWillMsg_across [intro, simp]: "across (sendWillMsg i)"
  unfolding sendWillMsg_def Let_def
  by (auto intro!: bind_across mod_svc_across svc_same split: prod.split option.split)

lemma run_task_across [intro, simp]: "across (run_task ev n)"
proof (rule acrossI)
  fix w
  have *: "across (bindw (delay_Cancel (task_id tk)) (\<lambda>_.
      bindw (pubFn ev False (task_svc tk) (task_msg tk) [] False) (\<lambda>_ w. (if b then w else job_Remove (task_id tk) w, Ret ()))))"
    for tk b
    by (intro bind_across) (auto intro: acrossI simp: rel_refl rel_remove)
  show "rel w (fst (run_task ev n w))"
  proof (cases "map_of (w_tasks w) n")
    case (Some tk)
    show ?thesis
    proof (cases "task_delay tk \<le> 0")
      case True
      show ?thesis
        using rel_trans [OF rel_goroutine [OF Some True] acrossD [OF * [of tk True]]] Some True
        by (simp add: run_task_def Let_def)
    next
      case False
      then show ?thesis
        using acrossD [OF * [of tk False], of w] Some by (simp add: run_task_def Let_def)
    qed
  qed (simp add: run_task_def rel_refl)
qed

lemma then_release_across [intro, simp]: "across (then_release ev x i)"
  unfolding then_release_def by (auto intro!: bind_across)

lemma text_code_across [intro, simp]: "across f \<Longrightarrow> across (text_code f)"
  unfolding text_code_def by (auto intro!: bind_across)

lemma store_session_across [intro, simp]: "across (store_session i)"
  unfolding store_session_def by (intro bind_get) (simp add: rel_mgr)

lemma processDisconnect_across [intro, simp]: "across (processDisconnect i m)"
  unfolding processDisconnect_def Let_def by (auto intro!: bind_across)

lemma processIncoming_across [intro, simp]: "across (processIncoming ev i msg)"
  unfolding processIncoming_def by (cases msg) (simp_all add: bind_across unless_across)

lemma streamController_across [intro, simp]: "across (streamController ev i)"
  unfolding streamController_def
proof (intro bind_get, goal_cases)
  case (1 v w)
  have e: "rel w (fst (bindw (sendBeyondQuota ev i) (\<lambda>_. ret (Some SText)) w))"
    by (intro acrossD bind_across) (simp_all add: sendBeyondQuota_def)
  obtain hit sg where l: "Limit (limiterHit ev) (s_sign v) = (hit, sg)"
    by (cases "Limit (limiterHit ev) (s_sign v)") auto
  have "rel w (fst (bindw (put_svc i (v\<lparr>s_sign := sg\<rparr>))
      (\<lambda>_. if hit then bindw (sendTooManyMessages ev i) (\<lambda>_. ret (Some SText)) else ret None) w))"
    by (intro put_bind [OF 1] svc_same if_across bind_across) (simp_all add: sendTooManyMessages_def)
  then show ?case
    using e l by simp
qed

lemma core_op_across [intro, simp]: "across (core_op i f)"
  unfolding core_op_def
  by (intro bind_get) (auto simp: crash_def rel_refl core_put split: option.split prod.split)

lemma handle_error_across [intro, simp]: "across (handle_error ev i e)"
  unfolding handle_error_def by (auto intro!: bind_across)

lemma processor_turn_across [intro, simp]: "across (processor_turn ev sp i)"
  unfolding processor_turn_def
  by (auto intro!: bind_across split: sum.split prod.split option.split)

lemma leave_all_across [intro, simp]: "across (leave_all i sbs)"
proof (induction sbs)
  case (Cons sb sbs)
  then show ?case
    by (intro acrossI) (simp add: topics_across)
qed simp

lemma unSubAll_across [intro, simp]: "across (unSubAll i)"
  unfolding unSubAll_def by (auto intro!: bind_across split: sum.split)

lemma close_core_across [intro, simp]: "across (close_core i)"
  unfolding close_core_def
  by (intro bind_get) (auto simp: crash_def rel_refl core_put split: option.split prod.split)

lemma end_session_across [intro, simp]: "across (end_session ev i)"
proof -
  have "across (\<lambda>w. case f (w_mgr w) of None \<Rightarrow> (w, Panicked) | Some p \<Rightarrow> (w\<lparr>w_mgr := p\<rparr>, Ret ()))" for f
    by (rule acrossI) (simp add: rel_refl rel_mgr split: option.split)
  then show ?thesis
    unfolding end_session_def by (auto intro!: bind_across)
qed

lemma stop_body_across [intro, simp]: "across (stop_body ev i)"
proof -
  have m: "across (mod_svc i (\<lambda>v. v\<lparr>s_core := None\<rparr>))"
    by (intro mod_svc_across svc_same) simp
  show ?thesis
    unfolding stop_body_def
    by (intro bind_get) (auto simp: ret_def rel_refl m intro!: put_bind svc_same bind_across)
qed

lemma recovered_fst [simp]: "fst (recovered x) = fst x"
  by (cases x rule: recovered.cases) simp_all

lemma service_stop_across [intro, simp]: "across (service_stop ev i b)"
proof (rule acrossI)
  fix w
  have "rel w (fst (stop_body ev i w))"
    by (rule acrossD) simp
  then show "rel w (fst (service_stop ev i b w))"
    unfolding service_stop_def
    by (intro follow_rel) (auto simp: rel_refl rel_serving elim: rel_trans)
qed

lemma processor_step_across [intro, simp]: "across (processor_step ev sp i)"
proof (rule acrossI)
  fix w
  have t: "rel w (fst (processor_turn ev sp i w))"
    by (rule acrossD) simp
  have s: "rel w w' \<Longrightarrow> rel w (fst (bindw (service_stop ev i False) (\<lambda>_. ret False) w'))" for w'
    by (rule rel_trans, assumption, rule acrossD, intro bind_across) simp_all
  show "rel w (fst (processor_step ev sp i w))"
    using t s by (auto simp: processor_step_def split: prod.split outcome.split bool.split)
qed

end

section \<open>The server's flags\<close>

interpretation flags: world_relation
  "\<lambda>w w'. w_ranging w' = w_ranging w \<and> w_listening w' = w_listening w" "\<lambda>_ _. True"
  by unfold_locales (auto simp: AddJob_def spawn_def job_Remove_def split: option.split)

section \<open>The packet identifiers in use\<close>

lemma skip_locked_same:
  "skip_locked p = Some p' \<Longrightarrow> used p' = used p \<and> limit p' = limit p \<and> exit p' = exit p"
proof -
  assume a: "skip_locked p = Some p'"
  show ?thesis
  proof (rule skip_locked.raw_induct [OF _ a])
    fix f x y
    assume ih: "\<And>x y. f x = Some y \<Longrightarrow> used y = used x \<and> limit y = limit x \<and> exit y = exit x"
      and s: "(case bm_Get (freePid x) (lockedPid x) of None \<Rightarrow> None
        | Some b \<Rightarrow> if b = 1 then f (next_pid x) else Some x) = Some y"
    show "used y = used x \<and> limit y = limit x \<and> exit y = exit x"
      using s ih [of "next_pid x" y] by (simp add: next_pid_def split: option.splits if_splits)
  qed
qed

lemma take_one_used:
  "take_one p = Some (i, p') \<Longrightarrow> used p' = used p + 1 \<and> limit p' = limit p \<and> exit p' = exit p"
  by (auto simp: take_one_def next_pid_def split: option.splits dest!: skip_locked_same)

text \<open>A poll takes one identifier below the limit, or none.\<close>

definition limiter_rel :: "limiter \<Rightarrow> limiter \<Rightarrow> bool" where
  "limiter_rel l l' \<longleftrightarrow> used l \<le> used l' \<and> limit l' = limit l \<and> exit l' = exit l"

lemma PollPacketID_rel:
  assumes "PollPacketID p = Some (Some i, p')"
  shows "limiter_rel p p'"
proof (cases "exit p")
  case True
  then show ?thesis
    using assms by (auto simp: PollPacketID_def PollPacketIDs_def limiter_rel_def split: polled.splits)
next
  case False
  then have u: "used p < limit p"
    using assms by (auto simp: PollPacketID_def PollPacketIDs_def split: if_splits)
  then have "1 \<le> limit p - used p"
    by (simp add: word_le_nat_alt word_less_nat_alt unat_sub order_less_imp_le)
  then have n: "(if limit p - used p < 1 then limit p - used p else 1) = 1"
    by (intro if_not_P) (simp only: not_less)
  have "PollPacketIDs 1 p = map_option (\<lambda>(ids, p'). (Ids ids, p')) (take_ids (Suc 0) p)"
    unfolding PollPacketIDs_def Let_def n using False u [folded not_le] by simp
  then have "\<exists>j. take_one p = Some (j, p')"
    using assms by (auto simp: PollPacketID_def split: option.splits)
  moreover have "unat (limit p) < 65536"
    using unsigned_less [of "limit p"] by simp
  then have "used p \<le> used p + 1"
    using u by (simp add: word_le_nat_alt word_less_nat_alt unat_word_ariths)
  ultimately show ?thesis
    using take_one_used by (auto simp: limiter_rel_def)
qed

definition ids_rel :: "'r world \<Rightarrow> 'r world \<Rightarrow> bool" where
  "ids_rel w w' \<longleftrightarrow> (\<forall>i v. w_svcs w i = Some v \<longrightarrow>
     (\<exists>v'. w_svcs w' i = Some v' \<and> limiter_rel (pkIDLimiter v) (pkIDLimiter v')))"

lemma limiter_rel_refl [simp]: "limiter_rel l l"
  by (simp add: limiter_rel_def)

lemma limiter_rel_trans: "limiter_rel l l' \<Longrightarrow> limiter_rel l' l'' \<Longrightarrow> limiter_rel l l''"
  by (auto simp: limiter_rel_def)

interpretation ids: world_relation ids_rel "\<lambda>v v'. limiter_rel (pkIDLimiter v) (pkIDLimiter v')"
proof unfold_locales
  fix w w' w'' :: "'r world"
  show "ids_rel w w' \<Longrightarrow> ids_rel w' w'' \<Longrightarrow> ids_rel w w''"
    unfolding ids_rel_def by (meson limiter_rel_trans)
qed (auto simp: ids_rel_def AddJob_def spawn_def job_Remove_def split: option.split dest: PollPacketID_rel)

section \<open>Jobs that no identifier stands for\<close>

definition orphan :: "nat \<Rightarrow> task \<Rightarrow> 'r world \<Rightarrow> bool" where
  "orphan n tk w \<longleftrightarrow> map_of (w_tasks w) n = Some tk \<and> 0 < task_delay tk \<and> n < w_ntask w \<and> (\<forall>tid. w_jobs w tid \<noteq> Some n)"

interpretation orphans: world_relation "\<lambda>w w'. \<forall>n tk. orphan n tk w \<longrightarrow> orphan n tk w'" "\<lambda>_ _. True"
  by unfold_locales
    (auto simp: orphan_def AddJob_def spawn_def job_Remove_def map_add_def delete_conv' split: option.splits)

end
