(* ===== verification/GCoreProps.thy ===== *)
theory GCoreProps
  imports GCore PublishRT
begin

text \<open>
  What the connection core does with packets: framing on the input ring, encoding into the
  output ring, and the way of a message from one side of a connection to the other.
\<close>

section \<open>Framing\<close>

lemma byte_lt_80: "(b :: byte) < 0x80 \<longleftrightarrow> unat b < 128"
  by (simp add: word_less_nat_alt)

lemma varint_nth_cont:
  "k < length (varint n) \<Longrightarrow> varint n ! k < 0x80 \<longleftrightarrow> Suc k = length (varint n)"
proof (induction n arbitrary: k rule: varint.induct)
  case (1 n)
  show ?case
  proof (cases "n < 128")
    case True
    then show ?thesis
      using "1.prems" varint_one [OF True] varint_last [OF True]
      by (metis One_nat_def byte_lt_80 hd_conv_nth length_Cons less_Suc0 list.size(3) varint_nonempty)
  next
    case False
    then have v: "varint n = hd (varint n) # varint (n div 128)"
      by (intro varint_unfold) simp
    show ?thesis
    proof (cases k)
      case 0
      then show ?thesis
        using False varint_cont [of n] v
        by (metis byte_lt_80 hd_conv_nth leI length_Cons length_greater_0_conv nat.inject
            nless_le varint_nonempty less_numeral_extra(3))
    next
      case (Suc j)
      have l: "length (varint n) = Suc (length (varint (n div 128)))"
        using False by (intro length_varint) simp
      have "varint n ! k = varint (n div 128) ! j"
        by (subst v) (simp add: Suc)
      then show ?thesis
        using "1.IH" [OF False, of j] "1.prems" l Suc by simp
    qed
  qed
qed

lemma length_varint_28: "n < 2 ^ 28 \<Longrightarrow> length (varint n) \<le> 4"
  using length_varint_le [of n 3] by simp

text \<open>A wait for bytes that are there, at the call or resumed\<close>

definition fetches :: "fetch \<Rightarrow> bool" where
  "fetches rd \<longleftrightarrow> (\<forall>n b. ring_ok b \<longrightarrow> 0 \<le> n \<longrightarrow> n \<le> int (length (contents b)) \<longrightarrow> \<not> cheld b
     \<longrightarrow> (\<exists>t. rd n b = (b\<lparr>tmp := t\<rparr>, Ret (Inr (take (nat n) (contents b))))))"

lemma fetches_ReadWait: "fetches ReadWait" "fetches ReadWait_woken"
  using ReadWait_ready ReadWait_woken_ready by (simp_all add: fetches_def)

lemma peekSize_loop_ready:
  assumes "fetches rd" and "ring_ok b" and "\<not> cheld b" and "contents b = h # varint n @ r"
    and "n < 2 ^ 28" and "2 \<le> cnt" and "cnt \<le> Suc (length (varint n))"
  shows "\<exists>t. peekSize_loop rd cnt b = (b\<lparr>tmp := t\<rparr>, Ret (Inr (h # varint n)))"
  using assms
proof (induction "Suc (length (varint n)) - cnt" arbitrary: rd cnt b)
  case (0 cnt rd b)
  then have c: "cnt = Suc (length (varint n))" "cnt \<le> 5"
    using length_varint_28 [of n] by simp_all
  obtain t where t: "rd (int cnt) b = (b\<lparr>tmp := t\<rparr>, Ret (Inr (take (nat (int cnt)) (contents b))))"
    using "0.prems" c(1) unfolding fetches_def by (metis length_Cons length_append le_add1 of_nat_0_le_iff of_nat_le_iff plus_nat.simps(2))
  have "take (nat (int cnt)) (contents b) = h # varint n"
    unfolding nat_int using "0.prems"(4) c(1) by simp
  moreover have "varint n ! (cnt - 2) < 0x80"
    using varint_nth_cont [of "cnt - 2" n] c "0.prems"(6) by simp
  moreover have "(h # varint n) ! (cnt - 1) = varint n ! (cnt - 2)"
    using "0.prems"(6) by (cases cnt) (auto simp: nth_Cons' numeral_2_eq_2)
  ultimately show ?case
    using t c by (subst peekSize_loop.simps) auto
next
  case (Suc x cnt rd b)
  then have c: "cnt < Suc (length (varint n))" "cnt \<le> 5"
    using length_varint_28 [of n] by simp_all
  have l: "int cnt \<le> int (length (contents b))"
    using Suc.prems(4) c(1) by simp
  obtain t where t: "rd (int cnt) b = (b\<lparr>tmp := t\<rparr>, Ret (Inr (take (nat (int cnt)) (contents b))))"
    using Suc.prems(1-3) l unfolding fetches_def by (metis of_nat_0_le_iff)
  let ?p = "take cnt (contents b)"
  have "?p ! (cnt - 1) = varint n ! (cnt - 2)"
    using Suc.prems(4,6) c(1) by (cases cnt) (auto simp: nth_Cons' nth_append numeral_2_eq_2)
  moreover have "\<not> varint n ! (cnt - 2) < 0x80"
    using varint_nth_cont [of "cnt - 2" n] c Suc.prems(6) by simp
  moreover have "length ?p = cnt"
    using l by simp
  ultimately have "peekSize_loop rd cnt b = peekSize_loop ReadWait (cnt + 1) (b\<lparr>tmp := t\<rparr>)"
    using t c(2) by (subst peekSize_loop.simps) (simp add: not_less)
  moreover have "\<exists>u. peekSize_loop ReadWait (cnt + 1) (b\<lparr>tmp := t\<rparr>)
      = (b\<lparr>tmp := t\<rparr>\<lparr>tmp := u\<rparr>, Ret (Inr (h # varint n)))"
    using Suc.hyps(2) Suc.prems c fetches_ReadWait(1) by (intro Suc.hyps(1)) simp_all
  ultimately show ?case
    by simp
qed

lemma size_of_frame:
  "n < 2 ^ 28 \<Longrightarrow> size_of (h # varint n) = (mtype_of (drop_bit 4 h), int (Suc (length (varint n) + n)))"
  using Uvarint_varint [of n "[]"] by (simp add: size_of_def unsigned_of_nat take_bit_nat_eq_self)

lemma peekMessageSize_frame:
  assumes "ring_ok (g_in g)" and "\<not> cheld (g_in g)" and "contents (g_in g) = h # varint n @ r" and "n < 2 ^ 28"
  shows "\<exists>t. peekMessageSize g = (g\<lparr>g_in := (g_in g)\<lparr>tmp := t\<rparr>\<rparr>,
    Ret (Inr (mtype_of (drop_bit 4 h), int (Suc (length (varint n) + n)))))"
proof -
  have "2 \<le> Suc (length (varint n))"
    using varint_nonempty [of n] by (cases "varint n") auto
  then show ?thesis
    using peekSize_loop_ready [OF fetches_ReadWait(1) assms, of 2] size_of_frame [OF assms(4), of h]
    by (auto simp: peekMessageSize_def peekMessageSize_from_def)
qed

text \<open>A length field whose fourth byte still has its continuation bit is refused.\<close>

lemma peekSize_loop_continues:
  assumes "ring_ok b" and "\<not> cheld b" and "5 \<le> length (contents b)"
    and "\<forall>i\<in>{1..4}. 0x80 \<le> contents b ! i" and "2 \<le> cnt" and "cnt \<le> 6"
  shows "\<exists>t. peekSize_loop ReadWait cnt b = (b\<lparr>tmp := t\<rparr>,
    Ret (Inl (TextErr ''sendrecv/peekMessageSize: 4th byte of remaining length has continuation bit set'')))"
  using assms
proof (induction "6 - cnt" arbitrary: cnt b)
  case 0
  then show ?case
    by (subst peekSize_loop.simps) (auto intro: exI [of _ "tmp b"])
next
  case (Suc x cnt b)
  then have c: "cnt \<le> 5" "int cnt \<le> int (length (contents b))"
    by simp_all
  then obtain t where t: "ReadWait (int cnt) b = (b\<lparr>tmp := t\<rparr>, Ret (Inr (take (nat (int cnt)) (contents b))))"
    using ReadWait_ready [OF Suc.prems(1) _ c(2) Suc.prems(2)] by auto
  obtain j where j: "cnt = Suc j" "1 \<le> j" "j \<le> 4"
    using Suc.prems(5) c(1) by (cases cnt) auto
  then have "0x80 \<le> take cnt (contents b) ! (cnt - 1)"
    using Suc.prems(4) by simp
  then have "peekSize_loop ReadWait cnt b = peekSize_loop ReadWait (cnt + 1) (b\<lparr>tmp := t\<rparr>)"
    using t c Suc.prems(3) by (subst peekSize_loop.simps) simp
  moreover have "\<exists>u. peekSize_loop ReadWait (cnt + 1) (b\<lparr>tmp := t\<rparr>) = (b\<lparr>tmp := t\<rparr>\<lparr>tmp := u\<rparr>,
      Ret (Inl (TextErr ''sendrecv/peekMessageSize: 4th byte of remaining length has continuation bit set'')))"
    using Suc.hyps(2) Suc.prems c by (intro Suc.hyps(1)) simp_all
  ultimately show ?case
    by simp
qed

section \<open>Reading a message\<close>

lemma peekMessage_frame:
  assumes "ring_ok (g_in g)" and "\<not> cheld (g_in g)" and "\<not> pheld (g_in g)"
    and "contents (g_in g) = p @ r" and "mtype_New t = Inr m0"
    and "\<And>sp. msg_Decode (GSlice p sp) m0 = Go (length p, m)"
  shows "\<exists>b. peekMessage sp t (int (length p)) g = (g\<lparr>g_in := b\<rparr>, Ret (Inr (m, length p, None)))
    \<and> ring_ok b \<and> contents b = r \<and> ppos b = ppos (g_in g)"
proof -
  have l: "int (length p) \<le> int (length (contents (g_in g)))"
    using assms(4) by simp
  obtain u where rw: "ReadWait (int (length p)) (g_in g) = ((g_in g)\<lparr>tmp := u\<rparr>, Ret (Inr p))"
    using ReadWait_ready [OF assms(1) _ l assms(2)] assms(4) by auto
  let ?b = "(g_in g)\<lparr>tmp := u\<rparr>"
  have ok: "ring_ok ?b" "int (length p) \<le> int (length (contents ?b))" "\<not> pheld ?b"
    using assms(1,3) l by simp_all
  note rc = ReadCommit_ready [OF ok(1) _ ok(2,3)]
  have d: "ring_ok (set_cpos (cpos ?b + int (length p)) ?b)"
      "contents (set_cpos (cpos ?b + int (length p)) ?b) = r"
    using ReadCommit_drops [OF ok(1) rc] assms(4) by simp_all
  show ?thesis
    using rw rc d assms(5,6)
    by (intro exI [of _ "set_cpos (cpos ?b + int (length p)) ?b"])
      (simp add: peekMessage_def peekMessage_from_def)
qed

lemma peekMessage_oversize:
  "rsize (g_in g) < tot \<Longrightarrow> peekMessage sp t tot g = (g, Ret (Inl (RingErr ErrBufferFull)))"
  by (simp add: peekMessage_def peekMessage_from_def ReadWait_def)

section \<open>Writing a message\<close>

definition encodes :: "message \<Rightarrow> bytes \<Rightarrow> bool" where
  "encodes m bs \<longleftrightarrow> (\<forall>d k. length bs \<le> length d \<longrightarrow>
     (\<exists>m' k'. msg_Encode d k m = Go (bs @ drop (length bs) d, length bs, m', k')))"

lemma encodesD:
  "encodes m bs \<Longrightarrow> length bs \<le> length d \<Longrightarrow>
    \<exists>m' k'. msg_Encode d k m = Go (bs @ drop (length bs) d, length bs, m', k')"
  by (simp add: encodes_def)

lemma put_slice_ring:
  assumes "ring_ok b" and "pstart = nat (ppos b AND rmask b)" and "pstart + length bs \<le> length (buf b)"
    and "ppos b + int (length bs) \<le> cpos b + rsize b"
  shows "ring_ok (b\<lparr>buf := put_slice pstart bs (buf b)\<rparr>)"
    and "contents (b\<lparr>buf := put_slice pstart bs (buf b)\<rparr>) = contents b"
    and "window (b\<lparr>buf := put_slice pstart bs (buf b)\<rparr>) (ppos b) (length bs) = bs"
proof -
  have rc: "ringCopy (buf b) bs (nat (ppos b AND rmask b)) = Some (put_slice pstart bs (buf b), length bs)"
    using ringCopy_flat [OF assms(3)] assms(2) by (simp add: put_slice_def)
  show "ring_ok (b\<lparr>buf := put_slice pstart bs (buf b)\<rparr>)"
    using ringCopy_length(1) [OF assms(1) rc] assms(1) by (intro ring_ok_buf)
  show "contents (b\<lparr>buf := put_slice pstart bs (buf b)\<rparr>) = contents b"
    and "window (b\<lparr>buf := put_slice pstart bs (buf b)\<rparr>) (ppos b) (length bs) = bs"
    using ringCopy_window [OF assms(1) rc assms(4)] by (simp_all add: contents_def)
qed

lemma WriteCommit_room:
  assumes "ring_ok b" and "0 \<le> n" and "ppos b + n \<le> cpos b + rsize b"
    and "\<not> isDone b" and "\<not> pheld b" and "\<not> cheld b"
  shows "\<exists>b'. WriteCommit n b = (b', Ret (Inr n))"
  using assms(3-6)
  by (auto simp: WriteCommit_def WriteCommit_from_def waitForWriteSpace_def waitWrite_loop_def
      signal_c_def Let_def)

lemma count_out_Inr:
  "count_out g m k (b, Ret (Inr n))
    = (g\<lparr>g_out := b, outStat := Incr (word_of_int n) (outStat g)\<rparr>, m, k, Ret (Inr n))"
  by simp

lemma waitForWriteSpace_room:
  "ppos b + n \<le> cpos b + rsize b \<Longrightarrow> \<not> isDone b \<Longrightarrow> \<not> pheld b \<Longrightarrow>
    \<exists>b0. (b0 = b \<or> b0 = set_gate (cpos b) b) \<and> waitForWriteSpace n b = (b0, Ret (Inr (ppos b, n)))"
  by (auto simp: waitForWriteSpace_def waitWrite_loop_def Let_def)

text \<open>
  A message whose encoder writes \<open>bs\<close> is appended to the output ring, whether or not its bytes
  go around the end.
\<close>

lemma writeMessage_appends:
  assumes "ring_ok (g_out g)" and "\<not> isDone (g_out g)" and "\<not> pheld (g_out g)" and "\<not> cheld (g_out g)"
    and "int (length (contents (g_out g)) + length bs) \<le> rsize (g_out g)"
    and "msg_Len (delRequestRespInfo g m) = Some (length bs, m1)" and "encodes m1 bs"
  shows "\<exists>g' m' k'. writeMessage m k g = (g', m', k', Ret (Inr (int (length bs))))
    \<and> ring_ok (g_out g') \<and> contents (g_out g') = contents (g_out g) @ bs \<and> g_in g' = g_in g"
proof -
  let ?b = "g_out g" and ?l = "length bs"
  note o = ring_okD [OF assms(1)]
  have room: "ppos ?b + int ?l \<le> cpos ?b + rsize ?b"
    using assms(5) length_contents [OF assms(1)] by simp
  obtain b0 where b0: "b0 = ?b \<or> b0 = set_gate (cpos ?b) ?b"
    and w: "waitForWriteSpace (int ?l) ?b = (b0, Ret (Inr (ppos ?b, int ?l)))"
    using waitForWriteSpace_room [OF room assms(2,3)] by blast
  have s: "ring_ok b0" "contents b0 = contents ?b" "ppos b0 = ppos ?b" "cpos b0 = cpos ?b"
    "rsize b0 = rsize ?b" "rmask b0 = rmask ?b" "\<not> isDone b0" "\<not> pheld b0" "\<not> cheld b0"
    "length (buf b0) = length (buf ?b)"
    using b0 assms(1-4) by (auto intro: ring_ok_gate)
  define pstart where "pstart = ppos ?b AND rmask ?b"
  have ps: "0 \<le> pstart" "pstart < rsize ?b"
    using masked [OF assms(1)] o(1) by (simp_all add: pstart_def)
  show ?thesis
  proof (cases "pstart + int ?l > rsize ?b")
    case True
    define out where "out = (if length (outTmp g) < ?l then replicate ?l 0 else outTmp g)"
    have "?l \<le> length out"
      by (simp add: out_def)
    then obtain m' k' where e: "msg_Encode out k m1 = Go (bs @ drop ?l out, ?l, m', k')"
      using encodesD [OF assms(7)] by blast
    obtain b1 where wr: "Write bs b0 = (b1, Ret (Inr (int ?l)))"
      using Write_room [OF s(1), of bs] s assms(5) by auto
    have o1: "(if length (outTmp (g\<lparr>g_out := b0\<rparr>)) < ?l then replicate ?l 0 else outTmp (g\<lparr>g_out := b0\<rparr>)) = out"
      by (simp add: out_def)
    have "write_wrapped ?l m1 k (g\<lparr>g_out := b0\<rparr>) = (g\<lparr>g_out := b1, outTmp := bs @ drop ?l out,
        outStat := Incr (word_of_int (int ?l)) (outStat g)\<rparr>, m', k', Ret (Inr (int ?l)))"
      unfolding write_wrapped_def Let_def o1 using e wr by simp
    then have "writeMessage m k g = (g\<lparr>g_out := b1, outTmp := bs @ drop ?l out,
        outStat := Incr (word_of_int (int ?l)) (outStat g)\<rparr>, m', k', Ret (Inr (int ?l)))"
      using assms(6) w True s(5,6)
      by (simp add: writeMessage_def writeMessage_from_def WriteWait_from_def pstart_def Let_def)
    then show ?thesis
      using Write_appends [OF s(1) wr] s(2) by auto
  next
    case False
    let ?lo = "nat pstart"
    define d where "d = slice_at ?lo (nat (pstart + int ?l)) (buf b0)"
    have fits: "?lo + ?l \<le> length (buf b0)"
      using False ps o(3) s(10) by linarith
    then have ld: "length d = ?l"
      using ps by (simp add: d_def slice_at_def nat_add_distrib)
    then obtain m' k' where e: "msg_Encode d k m1 = Go (bs, ?l, m', k')"
      using encodesD [OF assms(7), of d k] by auto
    let ?b1 = "b0\<lparr>buf := put_slice ?lo bs (buf b0)\<rparr>"
    have lo: "?lo = nat (ppos b0 AND rmask b0)"
      using s by (simp add: pstart_def)
    note p = put_slice_ring [OF s(1) lo fits room [folded s(3-5)]]
    obtain b2 where wc: "WriteCommit (int ?l) ?b1 = (b2, Ret (Inr (int ?l)))"
      using WriteCommit_room [OF p(1), of "int ?l"] room s by auto
    have "writeMessage m k g = (g\<lparr>g_out := b2, outStat := Incr (word_of_int (int ?l)) (outStat g)\<rparr>,
        m', k', Ret (Inr (int ?l)))"
      using assms(6) w False s e wc
      by (simp add: writeMessage_def writeMessage_from_def WriteWait_from_def write_direct_def
          pstart_def Let_def d_def del: of_nat_add)
    then show ?thesis
      using WriteCommit_appends [OF p(1) _ wc] p(2,3) s(2,3) by simp
  qed
qed

section \<open>PUBLISH on a connection\<close>

lemma publish_built_again:
  assumes "publish_ok m"
  shows "publish_ok (built m)" and "dirty (built m)" and "publish_bytes (built m) = publish_bytes m"
    and "publish_Len m = (if dirty m then Some (length (publish_bytes m), built m) else Some (length (dbuf m), m))"
proof -
  show "publish_ok (built m)" "dirty (built m)"
    using built_ok [OF assms] by (simp_all add: built_def)
  show "publish_bytes (built m) = publish_bytes m"
    by (simp add: publish_bytes_def, simp add: built_def)
  have b: "publish_build m = Some (built m)"
    using publish_build_ok [OF assms] by (simp add: built_def)
  have rl: "SetRemainingLength (remlen (built m)) (built m) = (built m, None)"
    using assms by (simp add: SetRemainingLength_def built_def publish_ok_def not_less unat_le_max unat_of_nat)
  show "publish_Len m = (if dirty m then Some (length (publish_bytes m), built m) else Some (length (dbuf m), m))"
    using length_publish_bytes [OF assms] by (simp add: publish_Len_def b rl Let_def)
qed

lemma publish_encodes:
  assumes "publish_ok m" and "dirty m"
  shows "encodes (MPublish m) (publish_bytes m)"
  using publish_Encode_bytes [of "into d k m" for d k] assms
  by (simp add: encodes_def into_def blit_fits)

lemma delRequestRespInfo_publish: "publish_ok p \<Longrightarrow> delRequestRespInfo g (MPublish p) = MPublish p"
  by (simp add: delRequestRespInfo_def)

text \<open>A ring that is open, with no leaked mutex and room for \<open>n\<close> bytes\<close>

definition out_ready :: "buffer \<Rightarrow> nat \<Rightarrow> bool" where
  "out_ready b n \<longleftrightarrow> ring_ok b \<and> \<not> isDone b \<and> \<not> pheld b \<and> \<not> cheld b
     \<and> int (length (contents b) + n) \<le> rsize b"

definition in_ready :: "buffer \<Rightarrow> bool" where
  "in_ready b \<longleftrightarrow> ring_ok b \<and> \<not> pheld b \<and> \<not> cheld b"

text \<open>C9: a PUBLISH on a connection. The message has a topic, QoS, packet identifier and lengths within the
  packet format, has been changed since it
  was last encoded, and has a payload that is not empty and does not begin with a property identifier byte. If the
  output ring is open, has room for its packet and neither mutex of it is held, writing appends the packet to the
  ring, around the end or not. On the input ring at the other side, with no mutex held and with that packet in front, the
  next message is announced with its type and length, decoded to the same topic, flags, packet identifier and
  payload whatever lies behind the packet, and exactly its bytes are consumed.\<close>

theorem publish_delivery:
  assumes "publish_ok p" and "dirty p" and "payload_plain p" and "out_ready (g_out g) (length (publish_bytes p))"
    and "in_ready (g_in r)" and "contents (g_in r) = publish_bytes p @ xs"
  shows "\<exists>g' m' k' r1 r2 q. writeMessage (MPublish p) k g = (g', m', k', Ret (Inr (int (length (publish_bytes p)))))
    \<and> contents (g_out g') = contents (g_out g) @ publish_bytes p
    \<and> peekMessageSize r = (r1, Ret (Inr (PUBLISH, int (length (publish_bytes p)))))
    \<and> peekMessage sp PUBLISH (int (length (publish_bytes p))) r1
        = (r2, Ret (Inr (MPublish q, length (publish_bytes p), None)))
    \<and> contents (g_in r2) = xs \<and> mtf q = mtf p \<and> topic q = topic p \<and> payload q = payload p
    \<and> (QoS p \<noteq> 0 \<longrightarrow> packetId q = packetId p)"
proof -
  let ?n = "length (publish_body p)"
  have n: "?n < 2 ^ 28" and t: "mtype_of (drop_bit 4 (mtf p)) = PUBLISH"
    using assms(1) by (simp_all add: publish_ok_def Type_def)
  have l: "int (Suc (length (varint ?n) + ?n)) = int (length (publish_bytes p))"
    by (simp add: publish_bytes_def)
  have ready: "ring_ok (g_out g)" "\<not> isDone (g_out g)" "\<not> pheld (g_out g)" "\<not> cheld (g_out g)"
      "int (length (contents (g_out g)) + length (publish_bytes p)) \<le> rsize (g_out g)"
    using assms(4) by (simp_all add: out_ready_def)
  have len: "msg_Len (delRequestRespInfo g (MPublish p)) = Some (length (publish_bytes p), MPublish (built p))"
    using assms(1,2) publish_built_again(4) by (simp add: delRequestRespInfo_publish len_as_def)
  have enc: "encodes (MPublish (built p)) (publish_bytes p)"
    using publish_encodes publish_built_again [OF assms(1)] by metis
  obtain g' m' k' where w: "writeMessage (MPublish p) k g = (g', m', k', Ret (Inr (int (length (publish_bytes p)))))"
      "contents (g_out g') = contents (g_out g) @ publish_bytes p"
    using writeMessage_appends [OF ready len enc, of k] by blast
  obtain u where s: "peekMessageSize r = (r\<lparr>g_in := (g_in r)\<lparr>tmp := u\<rparr>\<rparr>,
      Ret (Inr (PUBLISH, int (length (publish_bytes p)))))" (is "_ = (?r1, _)")
    using peekMessageSize_frame [of r "mtf p" ?n "publish_body p @ xs"] assms(5,6) n t l
    by (auto simp: in_ready_def publish_bytes_def)
  have "msg_Decode (GSlice (publish_bytes p) sp) (MPublish NewPublishMessage)
      = Go (length (publish_bytes p), MPublish (decoded (publish_bytes p) p))" for sp
    using publish_Decode_bytes [OF assms(1,3), of "GSlice (publish_bytes p) sp"] by simp
  then obtain b where "peekMessage sp PUBLISH (int (length (publish_bytes p))) ?r1
      = (?r1\<lparr>g_in := b\<rparr>, Ret (Inr (MPublish (decoded (publish_bytes p) p), length (publish_bytes p), None)))"
      "contents b = xs"
    using peekMessage_frame [of ?r1 "publish_bytes p" xs PUBLISH "MPublish NewPublishMessage"
        "MPublish (decoded (publish_bytes p) p)" sp] assms(5,6)
    by (auto simp: in_ready_def mtype_New_def)
  then show ?thesis
    using w s by (auto simp: decoded_def)
qed

definition sample_packet :: publish where
  "sample_packet = NewPublishMessage\<lparr>mtf := 0x32, topic := [0x61, 0x2F, 0x62], packetId := [0, 7],
     payload := [0x68, 0x69]\<rparr>"

definition ring32 :: "bytes \<Rightarrow> int \<Rightarrow> int \<Rightarrow> buffer" where
  "ring32 xs c p = \<lparr>buf_id = 1, buf = xs @ replicate (32 - length xs) 0, tmp = [], rsize = 32, rmask = 31,
     rdone = 0, pseq = \<lparr>cursor = p, gate = 0\<rparr>, cseq = \<lparr>cursor = c, gate = 0\<rparr>, cwait = 0, pwait = 0,
     pheld = False, cheld = False\<rparr>"

definition core32 :: "buffer \<Rightarrow> buffer \<Rightarrow> gcore" where
  "core32 i out = \<lparr>connMsg = NewConnectMessage, g_in = i, g_out = out, inTmp = [], outTmp = [],
     inStat = \<lparr>stat_bytes = 0, stat_msgs = 0\<rparr>, outStat = \<lparr>stat_bytes = 0, stat_msgs = 0\<rparr>, g_done = 0\<rparr>"

lemma sample_packet_ok:
  "publish_ok sample_packet" "dirty sample_packet" "payload_plain sample_packet"
  "publish_bytes sample_packet = [0x32, 10, 0, 3, 0x61, 0x2F, 0x62, 0, 7, 0, 0x68, 0x69]"
  by code_simp+

theorem publish_delivery_witness:
  "\<exists>g' m' k' r1 r2 q. writeMessage (MPublish sample_packet) 0 (core32 (ring32 [] 0 0) (ring32 [] 26 26))
      = (g', m', k', Ret (Inr 12))
    \<and> contents (g_out g') = publish_bytes sample_packet
    \<and> peekMessageSize (core32 (ring32 (publish_bytes sample_packet @ [0xC0, 0]) 0 14) (ring32 [] 0 0))
      = (r1, Ret (Inr (PUBLISH, 12)))
    \<and> peekMessage [] PUBLISH 12 r1 = (r2, Ret (Inr (MPublish q, 12, None)))
    \<and> contents (g_in r2) = [0xC0, 0] \<and> payload q = [0x68, 0x69]"
proof -
  let ?g = "core32 (ring32 [] 0 0) (ring32 [] 26 26)"
  let ?r = "core32 (ring32 (publish_bytes sample_packet @ [0xC0, 0]) 0 14) (ring32 [] 0 0)"
  have "out_ready (g_out ?g) (length (publish_bytes sample_packet))" "contents (g_out ?g) = []"
    "in_ready (g_in ?r)" "contents (g_in ?r) = publish_bytes sample_packet @ [0xC0, 0]"
    unfolding sample_packet_ok(4) by code_simp+
  moreover have "length (publish_bytes sample_packet) = 12"
    by (simp add: sample_packet_ok(4))
  moreover have "payload sample_packet = [0x68, 0x69]"
    by (simp add: sample_packet_def)
  ultimately show ?thesis
    using publish_delivery [OF sample_packet_ok(1-3), of ?g ?r "[0xC0, 0]" 0 "[]"] by auto
qed

text \<open>C35: a packet that is larger than the input ring is never decoded: \<open>peekMessage\<close> answers
  \<open>bufio.ErrBufferFull\<close>, which ends the connection. On the cores that \<open>NewGCore\<close> makes the
  limit is 4096 bytes, whatever maximum packet size is configured.\<close>

theorem packet_larger_than_ring:
  assumes "NewGCore m k = (Some g, k')" and "rsize (g_in g') = rsize (g_in g)" and "4096 < tot"
  shows "peekMessage sp t tot g' = (g', Ret (Inl (RingErr ErrBufferFull)))"
proof -
  obtain i j where "newBuffer defaultBufferSize k = (Inr (g_in g), i)"
    using assms(1) by (auto simp: NewGCore_def Let_def split: prod.splits sum.splits)
  moreover have "sint defaultBufferSize = 4096" "defaultBufferSize \<noteq> 0"
    by code_simp+
  ultimately have "rsize (g_in g) = 4096"
    using newBuffer_ok [of defaultBufferSize k "g_in g" i] by simp
  then show ?thesis
    using assms(2,3) by (intro peekMessage_oversize) simp
qed

lemma NewGCore_ring: "\<exists>g k'. NewGCore NewConnectMessage 0 = (Some g, k')"
proof -
  have "powerOfTwo64 defaultBufferSize" "\<not> defaultBufferSize <s 0" "defaultBufferSize \<noteq> 0"
    "\<not> sint defaultBufferSize div 2 < sint defaultReadBlockSize"
    by code_simp+
  then show ?thesis
    by (simp add: NewGCore_def newBuffer_def Let_def)
qed

theorem packet_larger_than_ring_witness:
  "\<exists>g. peekMessage [] PUBLISH 5000 g = (g, Ret (Inl (RingErr ErrBufferFull)))"
  using NewGCore_ring packet_larger_than_ring [of NewConnectMessage 0 _ _ _ 5000 "[]" PUBLISH] by fastforce

text \<open>A remaining length whose fourth byte asks for a fifth is refused by \<open>peekMessageSize\<close> with an
  error, and nothing is consumed.\<close>

theorem length_field_too_long:
  assumes "in_ready (g_in g)" and "5 \<le> length (contents (g_in g))"
    and "\<forall>i\<in>{1..4}. 0x80 \<le> contents (g_in g) ! i"
  shows "\<exists>g'. peekMessageSize g = (g', Ret (Inl (TextErr
      ''sendrecv/peekMessageSize: 4th byte of remaining length has continuation bit set'')))
    \<and> contents (g_in g') = contents (g_in g)"
  using peekSize_loop_continues [of "g_in g" 2] assms
  by (auto simp: in_ready_def peekMessageSize_def peekMessageSize_from_def)

theorem length_field_too_long_witness:
  "\<exists>g'. peekMessageSize (core32 (ring32 [0x30, 0xFF, 0xFF, 0xFF, 0xFF, 1] 0 6) (ring32 [] 0 0))
    = (g', Ret (Inl (TextErr
      ''sendrecv/peekMessageSize: 4th byte of remaining length has continuation bit set'')))"
proof -
  let ?g = "core32 (ring32 [0x30, 0xFF, 0xFF, 0xFF, 0xFF, 1] 0 6) (ring32 [] 0 0)"
  have "in_ready (g_in ?g)" "contents (g_in ?g) = [0x30, 0xFF, 0xFF, 0xFF, 0xFF, 1]"
    by code_simp+
  moreover have "\<forall>i\<in>{1..4::nat}. (0x80 :: byte) \<le> [0x30, 0xFF, 0xFF, 0xFF, 0xFF, 1] ! i"
    by code_simp
  ultimately show ?thesis
    using length_field_too_long [of ?g] by auto
qed

end
