(* ===== verification/ConnackRT.thy ===== *)
theory ConnackRT
  imports Connack
begin

text \<open>
  The wire format of CONNACK, and the proofs that \<open>EncodeToBuf\<close> produces it, that
  \<open>Encode\<close> produces it in a slice of zeros, and that \<open>Decode\<close> reads it back, with the
  fields it gets wrong.
\<close>

definition connack_props :: "connack \<Rightarrow> bytes" where
  "connack_props m =
     opt_bytes (sessionExpiryInterval m > 0) SessionExpirationInterval (put32 (sessionExpiryInterval m))
     @ opt_bytes (recv_max_written m) MaximumQuantityReceived (put16 (receiveMaximum m))
     @ opt_bytes (maxQos m > 0) MaximumQoS [maxQos m]
     @ opt_bytes (retainAvailable m \<noteq> 1) PreservePropertyAvailability [retainAvailable m]
     @ opt_bytes (maxPacketSize m \<noteq> 1) MaximumMessageLength (put32 (maxPacketSize m))
     @ opt_bytes (length (assignedIdentifier m) > 0) AssignCustomerIdentifiers (lp (assignedIdentifier m))
     @ opt_bytes (topicAliasMax m > 0) MaximumLengthOfTopicAlias (put16 (topicAliasMax m))
     @ opt_bytes (length (reasonStr m) > 0) ReasonString (lp (reasonStr m))
     @ up_bytes (userProperties m)
     @ opt_bytes (wildcardSubscriptionAvailable m \<noteq> 1) WildcardSubscriptionAvailability [wildcardSubscriptionAvailable m]
     @ opt_bytes (subscriptionIdentifierAvailable m \<noteq> 1) AvailabilityOfSubscriptionIdentifiers [subscriptionIdentifierAvailable m]
     @ opt_bytes (sharedSubscriptionAvailable m \<noteq> 1) SharedSubscriptionAvailability [sharedSubscriptionAvailable m]
     @ opt_bytes (serverKeepAlive m > 0) ServerSurvivalTime (put16 (serverKeepAlive m))
     @ opt_bytes (length (responseInformation m) > 0) SolicitedMessage (lp (responseInformation m))
     @ opt_bytes (length (serverReference m) > 0) ServerReference (lp (serverReference m))
     @ opt_bytes (length (authMethod m) > 0) AuthenticationMethod (lp (authMethod m))
     @ opt_bytes (length (authData m) > 0) AuthenticationData (lp (authData m))"

definition connack_flags :: "connack \<Rightarrow> bytes" where
  "connack_flags m = (if sessionPresent m then [1] else [0])"

definition connack_body :: "connack \<Rightarrow> bytes" where
  "connack_body m = connack_flags m @ [reasonCode m] @ varint (length (connack_props m)) @ connack_props m"

definition connack_bytes :: "connack \<Rightarrow> bytes" where
  "connack_bytes m = mtf m # varint (length (connack_body m)) @ connack_body m"

text \<open>
  A message within the bounds of the protocol. The encoders write the maximum packet size
  unless it is 1, \<open>build\<close> counts it unless it is 0, so these two values are excluded.
\<close>

definition connack_ok :: "connack \<Rightarrow> bool" where
  "connack_ok m \<longleftrightarrow>
     Type m = CONNACK \<and> flags_ok (mtf m) \<and> ValidConnAckReasonCode (reasonCode m) \<and> maxQos m \<le> 2
     \<and> maxPacketSize m \<noteq> 0 \<and> maxPacketSize m \<noteq> 1 \<and> \<not> not_flag (retainAvailable m)
     \<and> \<not> not_flag (wildcardSubscriptionAvailable m) \<and> \<not> not_flag (subscriptionIdentifierAvailable m)
     \<and> \<not> not_flag (sharedSubscriptionAvailable m)
     \<and> list_all (\<lambda>b. length b \<le> 65535) [assignedIdentifier m, reasonStr m, responseInformation m, serverReference m, authMethod m, authData m]
     \<and> strs_ok (userProperties m) \<and> length (connack_body m) < 2 ^ 28"

lemma length_connack_props:
  assumes "connack_ok m"
  shows "length (connack_props m) =
     (if sessionExpiryInterval m > 0 then 5 else 0)
            + (if recv_max_written m then 3 else 0)
            + (if maxQos m > 0 then 2 else 0)
            + (if retainAvailable m \<noteq> 1 then 2 else 0)
            + (if maxPacketSize m > 0 then 5 else 0)
            + prop_len (assignedIdentifier m)
            + (if topicAliasMax m > 0 then 3 else 0)
            + prop_len (reasonStr m)
            + buildUserPropertyLen (userProperties m)
            + (if wildcardSubscriptionAvailable m \<noteq> 1 then 2 else 0)
            + (if subscriptionIdentifierAvailable m \<noteq> 1 then 2 else 0)
            + (if sharedSubscriptionAvailable m \<noteq> 1 then 2 else 0)
            + (if serverKeepAlive m > 0 then 3 else 0)
            + prop_len (responseInformation m) + prop_len (serverReference m)
            + prop_len (authMethod m) + prop_len (authData m)"
proof -
  have "maxPacketSize m \<noteq> 1 \<longleftrightarrow> maxPacketSize m > 0"
    using assms by (simp add: connack_ok_def word_gt_0)
  then show ?thesis
    by (simp add: connack_props_def prop_len_def)
qed

definition connack_built :: "connack \<Rightarrow> connack" where
  "connack_built m = m\<lparr>receiveMaximum := (if recv_max_written m then receiveMaximum m else 65535),
     propertiesLen := word_of_nat (length (connack_props m)),
     remlen := word_of_nat (length (connack_body m)), dirty := True\<rparr>"

lemma connack_build_ok:
  assumes ok: "connack_ok m"
  shows "connack_build m = Some (connack_built m)"
proof -
  let ?p = "length (connack_props m)" and ?b = "length (connack_body m)"
  have b28: "?b < 2 ^ 28"
    using ok by (simp add: connack_ok_def)
  have p28: "?p < 2 ^ 28"
    using b28 by (simp add: connack_body_def)
  have e: "lbEncode (word_of_nat ?p) = Some (varint ?p)"
    using p28 by (simp add: lbEncode_varint unat_len32)
  have b: "1 + 1 + ?p + length (varint ?p) = ?b"
    by (simp add: connack_body_def connack_flags_def)
  have max: "\<not> (word_of_nat ?b :: uint32) > maxRemainingLength"
    using b28 by (simp add: not_less unat_le_max unat_len32)
  note pl = length_connack_props [OF ok, symmetric]
  show ?thesis
    unfolding connack_build_def Let_def pl
    using e max b by (simp add: SetRemainingLength_def connack_built_def del: of_nat_add)
qed

section \<open>Encoding\<close>

lemma recv_max_built: "recv_max_written (connack_built m) = recv_max_written m"
  by (simp add: connack_built_def recv_max_written_def)

lemma connack_built_parts [simp]:
  "connack_props (connack_built m) = connack_props m" "connack_flags (connack_built m) = connack_flags m"
  by (simp only: connack_props_def recv_max_built, simp add: connack_built_def cong: if_cong)
    (auto simp: opt_bytes_def recv_max_written_def connack_flags_def connack_built_def)

lemma connack_built_body [simp]: "connack_body (connack_built m) = connack_body m"
  unfolding connack_body_def connack_built_parts by (simp add: connack_built_def)

lemma connack_built_ok: "connack_ok m \<Longrightarrow> connack_ok (connack_built m)"
  unfolding connack_ok_def connack_built_body by (simp add: connack_built_def Type_def)

lemma connack_built_again:
  assumes "connack_ok m"
  shows "SetRemainingLength (remlen (connack_built m)) (connack_built m) = (connack_built m, None)"
    "connack_built (connack_built m) = connack_built m" "connack_bytes (connack_built m) = connack_bytes m"
    "length (connack_bytes m) = header_msglen (connack_built m) + unat (remlen (connack_built m))"
proof -
  have b: "length (connack_body m) < 2 ^ 28"
    using assms by (simp add: connack_ok_def)
  then have u: "unat (remlen (connack_built m)) = length (connack_body m)" "remlen (connack_built m) \<le> maxRemainingLength"
    by (simp_all add: connack_built_def unat_len32 unat_le_max)
  show "SetRemainingLength (remlen (connack_built m)) (connack_built m) = (connack_built m, None)"
    using u(2) by (simp add: SetRemainingLength_def connack_built_def not_less)
  show "connack_built (connack_built m) = connack_built m"
    unfolding connack_built_def [of "connack_built m"] by (simp add: recv_max_built, simp add: connack_built_def)
  show "connack_bytes (connack_built m) = connack_bytes m"
    by (simp add: connack_bytes_def, simp add: connack_built_def)
  show "length (connack_bytes m) = header_msglen (connack_built m) + unat (remlen (connack_built m))"
    using length_varint_remlen [OF u(2)] by (simp add: connack_bytes_def u(1))
qed

definition connack_chunks :: "connack \<Rightarrow> bytes list" where
  "connack_chunks m =
     [mtf m # varint (unat (remlen m)), connack_flags m, [reasonCode m], varint (unat (propertiesLen m)),
      opt_bytes (sessionExpiryInterval m > 0) SessionExpirationInterval (put32 (sessionExpiryInterval m)),
      opt_bytes (recv_max_written m) MaximumQuantityReceived (put16 (receiveMaximum m)),
      opt_bytes (maxQos m > 0) MaximumQoS [maxQos m],
      opt_bytes (retainAvailable m \<noteq> 1) PreservePropertyAvailability [retainAvailable m],
      opt_bytes (maxPacketSize m \<noteq> 1) MaximumMessageLength (put32 (maxPacketSize m)),
      opt_bytes (length (assignedIdentifier m) > 0) AssignCustomerIdentifiers (lp (assignedIdentifier m)),
      opt_bytes (topicAliasMax m > 0) MaximumLengthOfTopicAlias (put16 (topicAliasMax m)),
      opt_bytes (length (reasonStr m) > 0) ReasonString (lp (reasonStr m)),
      up_bytes (userProperties m),
      opt_bytes (wildcardSubscriptionAvailable m \<noteq> 1) WildcardSubscriptionAvailability [wildcardSubscriptionAvailable m],
      opt_bytes (subscriptionIdentifierAvailable m \<noteq> 1) AvailabilityOfSubscriptionIdentifiers [subscriptionIdentifierAvailable m],
      opt_bytes (sharedSubscriptionAvailable m \<noteq> 1) SharedSubscriptionAvailability [sharedSubscriptionAvailable m],
      opt_bytes (serverKeepAlive m > 0) ServerSurvivalTime (put16 (serverKeepAlive m)),
      opt_bytes (length (responseInformation m) > 0) SolicitedMessage (lp (responseInformation m)),
      opt_bytes (length (serverReference m) > 0) ServerReference (lp (serverReference m)),
      opt_bytes (length (authMethod m) > 0) AuthenticationMethod (lp (authMethod m)),
      opt_bytes (length (authData m) > 0) AuthenticationData (lp (authData m))]"

lemma connack_bounds:
  assumes "connack_ok m" and "connack_built m = m"
  shows "unat (propertiesLen m) = length (connack_props m)" "unat (propertiesLen m) < 2 ^ 28"
    "unat (remlen m) = length (connack_body m)" "remlen m \<le> maxRemainingLength" "mtype_Valid (Type m)"
    "strs_ok (userProperties m)" "length (assignedIdentifier m) \<le> 65535" "length (reasonStr m) \<le> 65535" "length (responseInformation m) \<le> 65535" "length (serverReference m) \<le> 65535" "length (authMethod m) \<le> 65535" "length (authData m) \<le> 65535"
    "\<not> reasonCode m > UnsupportedWildcardSubscriptions"
proof -
  have b: "length (connack_body m) < 2 ^ 28"
    using assms(1) by (simp add: connack_ok_def)
  then have p: "length (connack_props m) < 2 ^ 28"
    by (simp add: connack_body_def)
  have e: "propertiesLen m = word_of_nat (length (connack_props m))" "remlen m = word_of_nat (length (connack_body m))"
    using arg_cong [OF assms(2), of propertiesLen] arg_cong [OF assms(2), of remlen] by (simp_all add: connack_built_def)
  show "unat (propertiesLen m) = length (connack_props m)" "unat (propertiesLen m) < 2 ^ 28"
    unfolding e unat_len32 [OF p] using p by simp_all
  show "unat (remlen m) = length (connack_body m)" "remlen m \<le> maxRemainingLength"
    unfolding e unat_le_max unat_len32 [OF b] using b by simp_all
  show "mtype_Valid (Type m)"
    using assms(1) by (simp add: connack_ok_def)
  have "ValidConnAckReasonCode (reasonCode m)"
    using assms(1) by (simp add: connack_ok_def)
  then show "\<not> reasonCode m > UnsupportedWildcardSubscriptions"
    by (auto simp: ValidConnAckReasonCode_def)
qed (use assms(1) in \<open>simp_all add: connack_ok_def\<close>)

lemma connack_chunks_bytes:
  assumes "connack_ok m" and "connack_built m = m"
  shows "concat (connack_chunks m) = connack_bytes m"
  using connack_bounds(1,3) [OF assms]
  by (simp add: connack_chunks_def connack_bytes_def connack_body_def connack_props_def)

lemma zero_count_Go: "f s = Go t \<Longrightarrow> zero_count f s = Go t"
  by (simp add: zero_count_def)

lemma appends_zero: "appends m f x \<Longrightarrow> appends m (zero_count f) x"
  by (simp add: appends_def zero_count_Go)

lemma writes_zero: "writes N m f x \<Longrightarrow> writes N m (zero_count f) x"
  by (simp add: writes_def zero_count_Go)

lemma connack_buf_steps_ok:
  assumes ok: "connack_ok (b_msg s)" and b: "connack_built (b_msg s) = b_msg s"
  shows "steps connack_buf_steps s = Go (s\<lparr>b_buf := b_buf s @ connack_bytes (b_msg s)\<rparr>)"
proof -
  note o = connack_bounds [OF ok b]
  have f: "appends (b_msg s) (buf_write (\<lambda>m. if sessionPresent m then [1] else [0])) (connack_flags (b_msg s))"
    by (simp add: appends_def buf_write_def connack_flags_def)
  have rc: "appends (b_msg s) buf_reason [reasonCode (b_msg s)]"
    using o by (auto simp: appends_def buf_write_def buf_reason_def)
  have "list_all2 (appends (b_msg s)) connack_buf_steps (connack_chunks (b_msg s))"
    unfolding connack_buf_steps_def connack_chunks_def list_all2_Cons list_all2_Nil
    by (intro conjI TrueI f rc appends_zero appends_intros) (use o in simp_all)
  from steps_appends [OF this refl] show ?thesis
    by (simp only: connack_chunks_bytes [OF ok b])
qed

lemma connack_EncodeToBuf_bytes:
  assumes "connack_ok (b_msg s)" and "dirty (b_msg s)"
  shows "connack_EncodeToBuf s
    = Go (s\<lparr>b_buf := b_buf s @ connack_bytes (b_msg s), b_msg := connack_built (b_msg s)\<rparr>)"
  using connack_buf_steps_ok [of "s\<lparr>b_msg := connack_built (b_msg s)\<rparr>"] connack_built_ok [OF assms(1)]
    connack_built_again [OF assms(1)] assms(2)
  unfolding connack_EncodeToBuf_def Let_def connack_build_ok [OF assms(1)] option.case connack_built_again(1) [OF assms(1)]
  by simp

text \<open>
  \<open>Encode\<close> skips the flag byte when no session is present, so it keeps the byte that the
  slice had there.
\<close>

definition connack_slice :: "bytes \<Rightarrow> connack \<Rightarrow> bytes" where
  "connack_slice d m =
     (let h = mtf m # varint (length (connack_body m)) in
      h @ [if sessionPresent m then 1 else d ! length h] @ tl (connack_body m))"

lemma connack_enc_steps_ok:
  assumes ok: "connack_ok m" and b: "connack_built m = m" and e: "e_msg e = m" "e_tot e = 0"
    and room: "length (connack_bytes m) \<le> length (e_dst e)"
  shows "steps connack_enc_steps e
    = Go (e\<lparr>e_dst := blit (e_dst e) 0 (connack_slice (e_dst e) m), e_tot := length (connack_bytes m)\<rparr>)"
proof -
  note o = connack_bounds [OF ok b]
  let ?d = "e_dst e" and ?N = "length (e_dst e)"
  define h where "h = mtf m # varint (unat (remlen m))"
  define c where "c = (if sessionPresent m then 1 else ?d ! length h)"
  define fs where "fs = drop 2 connack_enc_steps"
  define xs where "xs = drop 2 (connack_chunks m)"
  have fl: "length (connack_flags m) = 1"
    by (simp add: connack_flags_def)
  have xs: "concat xs = tl (connack_body m)"
    using o(1) by (simp add: xs_def connack_chunks_def connack_body_def connack_props_def connack_flags_def)
  have len: "length (connack_bytes m) = length h + Suc (length (concat xs))"
    using o(3) fl by (simp add: h_def connack_bytes_def xs connack_body_def)
  have rc: "writes ?N m enc_reason [reasonCode m]"
    using o by (auto simp: writes_def enc_reason_def enc_byte_def list_update_blit)
  have w: "list_all2 (writes ?N m) fs xs"
    unfolding fs_def xs_def connack_enc_steps_def connack_chunks_def numeral_2_eq_2 drop_Suc_Cons drop_0 list_all2_Cons list_all2_Nil
    by (intro conjI TrueI rc writes_intros) (use o in simp_all)
  have wh: "writes ?N m (zero_count enc_header) h"
    unfolding h_def by (intro writes_zero writes_header) (use o in simp_all)
  let ?e1 = "e\<lparr>e_dst := blit ?d 0 h, e_tot := length h\<rparr>"
  have 1: "zero_count enc_header e = Go ?e1"
    using wh e room len by (simp add: writes_def)
  have hd1: "length h < ?N" "length (blit ?d 0 h) = ?N"
    using room len by simp_all
  have nth: "blit ?d 0 h ! length h = ?d ! length h"
    using hd1(1) by (simp add: blit_fits nth_append)
  let ?e2 = "?e1\<lparr>e_dst := blit ?d 0 (h @ [c]), e_tot := Suc (length h)\<rparr>"
  have bb: "blit (blit ?d 0 h) (length h) [c] = blit ?d 0 (h @ [c])"
    using blit_blit [of 0 h "[c]" ?d] hd1(1) by simp
  have 2: "enc_session ?e1 = Go ?e2"
  proof (cases "sessionPresent m")
    case True
    then show ?thesis
      using hd1 e(1) bb by (simp add: enc_session_def enc_byte_def list_update_blit c_def)
  next
    case False
    have "blit (blit ?d 0 h) (length h) [c] = blit ?d 0 h"
      using hd1 nth False list_update_id [of "blit ?d 0 h" "length h"]
      by (simp add: c_def list_update_blit [symmetric])
    then show ?thesis
      using False e(1) bb by (simp add: enc_session_def)
  qed
  have 3: "steps fs ?e2 = Go (?e2\<lparr>e_dst := blit (blit ?d 0 (h @ [c])) (length (h @ [c])) (concat xs),
      e_tot := length (h @ [c]) + length (concat xs)\<rparr>)"
    using steps_writes [OF w, of ?e2] e room len hd1 by simp
  have 4: "blit (blit ?d 0 (h @ [c])) (length (h @ [c])) (concat xs) = blit ?d 0 (connack_slice ?d m)"
    using blit_blit [of 0 "h @ [c]" "concat xs" ?d] room len o(3)
    by (simp add: connack_slice_def Let_def xs h_def c_def)
  have split: "connack_enc_steps = zero_count enc_header # enc_session # fs"
    by (simp add: connack_enc_steps_def fs_def)
  show ?thesis
    unfolding split using 1 2 3 4 len by simp
qed

lemma connack_slice_built: "connack_slice d (connack_built m) = connack_slice d m"
  by (simp add: connack_slice_def, simp add: connack_built_def)

lemma connack_Encode_bytes:
  assumes "connack_ok (e_msg s)" and "dirty (e_msg s)"
  shows "connack_Encode s =
    (if length (e_dst s) < length (connack_bytes (e_msg s))
     then Fail 0 (Errorf ''connack/Encode: Insufficient buffer size.'') (s\<lparr>e_msg := connack_built (e_msg s)\<rparr>)
     else Go (s\<lparr>e_dst := blit (e_dst s) 0 (connack_slice (e_dst s) (e_msg s)),
            e_tot := length (connack_bytes (e_msg s)), e_msg := connack_built (e_msg s)\<rparr>))"
proof -
  let ?m = "e_msg s"
  have st: "steps connack_enc_steps (s\<lparr>e_msg := connack_built ?m, e_tot := 0\<rparr>)
      = Go (s\<lparr>e_dst := blit (e_dst s) 0 (connack_slice (e_dst s) ?m), e_tot := length (connack_bytes ?m), e_msg := connack_built ?m\<rparr>)"
    if "\<not> length (e_dst s) < length (connack_bytes ?m)"
    using connack_enc_steps_ok [of "connack_built ?m" "s\<lparr>e_msg := connack_built ?m, e_tot := 0\<rparr>"]
      connack_built_ok [OF assms(1)] connack_built_again(2,3) [OF assms(1)] that by (simp add: connack_slice_built)
  show ?thesis
    using assms(2) st
    unfolding connack_Encode_def Let_def connack_build_ok [OF assms(1)] option.case
      connack_built_again(1) [OF assms(1)] prod.case connack_built_again(4) [OF assms(1), symmetric] by simp
qed

lemma connack_slice_eq:
  assumes "sessionPresent m \<or> d ! Suc (length (varint (length (connack_body m)))) = 0"
  shows "connack_slice d m = connack_bytes m"
  using assms by (auto simp: connack_slice_def connack_bytes_def connack_body_def connack_flags_def Let_def)

section \<open>Decoding\<close>

definition connack_decoded :: "bytes \<Rightarrow> connack \<Rightarrow> connack" where
  "connack_decoded raw m = connack_built m\<lparr>dbuf := raw, packetId := [], dirty := False,
     maxQos := (if maxQos m > 0 then maxQos m else 2),
     userProperties := up_pad (userProperties m),
     subscriptionIdentifierAvailable := (if sharedSubscriptionAvailable m = 1 then 1 else subscriptionIdentifierAvailable m),
     sharedSubscriptionAvailable := (if sharedSubscriptionAvailable m = 1 then 0 else sharedSubscriptionAvailable m)\<rparr>"

lemma connack_keep:
  "sessionExpiryInterval m = x1 \<Longrightarrow> m\<lparr>sessionExpiryInterval := x1\<rparr> = m"
  "assignedIdentifier m = x2 \<Longrightarrow> m\<lparr>assignedIdentifier := x2\<rparr> = m"
  "topicAliasMax m = x3 \<Longrightarrow> m\<lparr>topicAliasMax := x3\<rparr> = m"
  "reasonStr m = x4 \<Longrightarrow> m\<lparr>reasonStr := x4\<rparr> = m"
  "responseInformation m = x5 \<Longrightarrow> m\<lparr>responseInformation := x5\<rparr> = m"
  "serverReference m = x6 \<Longrightarrow> m\<lparr>serverReference := x6\<rparr> = m"
  "authMethod m = x7 \<Longrightarrow> m\<lparr>authMethod := x7\<rparr> = m"
  "authData m = x8 \<Longrightarrow> m\<lparr>authData := x8\<rparr> = m"
  "maxPacketSize m = x9 \<Longrightarrow> m\<lparr>maxPacketSize := x9\<rparr> = m"
  by auto

definition props_set :: "connack \<Rightarrow> connack \<Rightarrow> connack" where
  "props_set m m0 = m0\<lparr>sessionExpiryInterval := sessionExpiryInterval m,
     receiveMaximum := (if recv_max_written m then receiveMaximum m else 65535),
     maxQos := (if maxQos m > 0 then maxQos m else 2), retainAvailable := retainAvailable m,
     maxPacketSize := maxPacketSize m, assignedIdentifier := assignedIdentifier m,
     topicAliasMax := topicAliasMax m, reasonStr := reasonStr m, userProperties := up_pad (userProperties m)\<rparr>"

definition subs_set :: "connack \<Rightarrow> connack \<Rightarrow> connack" where
  "subs_set m m0 = m0\<lparr>wildcardSubscriptionAvailable := wildcardSubscriptionAvailable m,
     subscriptionIdentifierAvailable := (if sharedSubscriptionAvailable m = 1 then 1 else subscriptionIdentifierAvailable m),
     sharedSubscriptionAvailable := (if sharedSubscriptionAvailable m = 1 then 0 else sharedSubscriptionAvailable m),
     responseInformation := responseInformation m, serverReference := serverReference m,
     authMethod := authMethod m, authData := authData m\<rparr>"

lemma connack_dec_props_rt:
  assumes ok: "connack_ok m" and ka: "serverKeepAlive m = 0"
    and z: "sessionExpiryInterval m0 = 0" "assignedIdentifier m0 = []" "topicAliasMax m0 = 0" "reasonStr m0 = []"
      "responseInformation m0 = []" "serverReference m0 = []" "authMethod m0 = []" "authData m0 = []"
      "sharedSubscriptionAvailable m0 = 0"
  shows "reads src m0 (steps (connack_dec_props src)) (connack_props m) (subs_set m (props_set m m0)) []"
proof -
  have b: "length (assignedIdentifier m) \<le> 65535" "length (reasonStr m) \<le> 65535" "length (responseInformation m) \<le> 65535"
      "length (serverReference m) \<le> 65535" "length (authMethod m) \<le> 65535" "length (authData m) \<le> 65535"
      "strs_ok (userProperties m)" "maxQos m \<le> 2" "maxPacketSize m \<noteq> 0" "maxPacketSize m \<noteq> 1"
      "\<not> not_flag (retainAvailable m)" "\<not> not_flag (wildcardSubscriptionAvailable m)"
      "\<not> not_flag (subscriptionIdentifierAvailable m)" "\<not> not_flag (sharedSubscriptionAvailable m)"
    using ok by (simp_all add: connack_ok_def)
  let ?a2 = "m0\<lparr>sessionExpiryInterval := sessionExpiryInterval m,
     receiveMaximum := (if recv_max_written m then receiveMaximum m else 65535)\<rparr>"
  let ?a3 = "?a2\<lparr>maxQos := (if maxQos m > 0 then maxQos m else 2)\<rparr>"
  let ?a4 = "?a3\<lparr>retainAvailable := retainAvailable m\<rparr>"
  let ?p = "m0\<lparr>sessionExpiryInterval := sessionExpiryInterval m,
     receiveMaximum := (if recv_max_written m then receiveMaximum m else 65535),
     maxQos := (if maxQos m > 0 then maxQos m else 2), retainAvailable := retainAvailable m,
     maxPacketSize := maxPacketSize m, assignedIdentifier := assignedIdentifier m,
     topicAliasMax := topicAliasMax m, reasonStr := reasonStr m, userProperties := up_pad (userProperties m)\<rparr>"
  let ?b1 = "?p\<lparr>wildcardSubscriptionAvailable := wildcardSubscriptionAvailable m\<rparr>"
  let ?b2 = "?b1\<lparr>subscriptionIdentifierAvailable := subscriptionIdentifierAvailable m\<rparr>"
  let ?b3 = "if sharedSubscriptionAvailable m \<noteq> 1
     then ?b2\<lparr>sharedSubscriptionAvailable := sharedSubscriptionAvailable m\<rparr>
     else ?b2\<lparr>subscriptionIdentifierAvailable := 1\<rparr>"
  have fin: "?b3\<lparr>responseInformation := responseInformation m, serverReference := serverReference m,
     authMethod := authMethod m, authData := authData m\<rparr> = subs_set m (props_set m m0)"
    using z(9) by (auto simp: subs_set_def props_set_def)
  have xs: "connack_props m = concat
     [opt_bytes (sessionExpiryInterval m > 0) SessionExpirationInterval (put32 (sessionExpiryInterval m)),
      opt_bytes (recv_max_written m) MaximumQuantityReceived (put16 (receiveMaximum m)),
      opt_bytes (maxQos m > 0) MaximumQoS [maxQos m],
      opt_bytes (retainAvailable m \<noteq> 1) PreservePropertyAvailability [retainAvailable m],
      opt_bytes (maxPacketSize m \<noteq> 1) MaximumMessageLength (put32 (maxPacketSize m)),
      opt_bytes (length (assignedIdentifier m) > 0) AssignCustomerIdentifiers (lp (assignedIdentifier m)),
      opt_bytes (topicAliasMax m > 0) MaximumLengthOfTopicAlias (put16 (topicAliasMax m)),
      opt_bytes (length (reasonStr m) > 0) ReasonString (lp (reasonStr m)),
      up_bytes (userProperties m),
      opt_bytes (wildcardSubscriptionAvailable m \<noteq> 1) WildcardSubscriptionAvailability [wildcardSubscriptionAvailable m],
      opt_bytes (subscriptionIdentifierAvailable m \<noteq> 1) AvailabilityOfSubscriptionIdentifiers [subscriptionIdentifierAvailable m],
      opt_bytes (sharedSubscriptionAvailable m \<noteq> 1) SharedSubscriptionAvailability [sharedSubscriptionAvailable m],
      opt_bytes (serverKeepAlive m > 0) ServerSurvivalTime (put16 (serverKeepAlive m)),
      opt_bytes (length (responseInformation m) > 0) SolicitedMessage (lp (responseInformation m)),
      opt_bytes (length (serverReference m) > 0) ServerReference (lp (serverReference m)),
      opt_bytes (length (authMethod m) > 0) AuthenticationMethod (lp (authMethod m)),
      opt_bytes (length (authData m) > 0) AuthenticationData (lp (authData m))]"
    by (simp add: connack_props_def)
  show ?thesis
    unfolding xs connack_dec_props_def
    apply (rule reads_Cons, rule reads_opt_nodup, rule reads_u32)
       apply (simp, simp, use z in \<open>simp add: connack_keep word_gt_0\<close>)
    apply (rule reads_Cons, rule reads_opt_nodup_else [where m' = ?a2])
        apply (simp only: if_True, rule reads_u16)
       apply (simp, simp add: recv_max_written_def word_gt_0, rule reads_set, simp)
    apply (rule reads_Cons, rule reads_opt_nodup_else [where m' = ?a3])
        apply (simp only: if_True not_False_eq_True, rule reads_byte)
       apply (simp, use b in \<open>simp add: not_less\<close>, rule reads_set, simp)
    apply (rule reads_Cons, rule reads_opt_nodup_else [where m' = ?a4])
        apply (rule reads_byte)
       apply (simp, use b in simp, rule reads_set, simp)
    apply (rule reads_Cons, rule reads_opt_nodup, rule reads_u32)
       apply (simp, use b in simp, use b in simp)
    apply (rule reads_Cons, rule reads_opt_unique, rule reads_lp, rule b(1))
       apply (simp, simp, use z in \<open>simp add: connack_keep word_gt_0\<close>)
    apply (rule reads_Cons, rule reads_opt_nodup, rule reads_u16)
       apply (simp, simp, use z in \<open>simp add: connack_keep word_gt_0\<close>)
    apply (rule reads_Cons, rule reads_opt_unique, rule reads_lp, rule b(2))
       apply (simp, simp, use z in \<open>simp add: connack_keep word_gt_0\<close>)
    apply (rule reads_Cons, rule reads_userProperty, rule b(7), simp)
    apply (rule reads_Cons, rule reads_opt_nodup_else [where m' = ?b1])
        apply (rule reads_byte)
       apply (simp, use b in simp, rule reads_set, simp)
    apply (rule reads_Cons, rule reads_opt_nodup_else [where m' = ?b2])
        apply (rule reads_byte)
       apply (simp, use b in simp, rule reads_set, simp)
    apply (rule reads_Cons, rule reads_opt_nodup_else [where m' = ?b3])
        apply (simp only: if_True not_False_eq_True, rule reads_byte)
       apply (simp, use b in simp, rule reads_set, simp)
    apply (rule reads_Cons, rule reads_opt_nodup [where m' = ?b3], use ka in simp, simp, simp, simp)
    apply (rule reads_Cons, rule reads_opt_unique, rule reads_lp, rule b(3))
       apply (simp, simp, use z in \<open>(auto simp: connack_keep)[1]\<close>)
    apply (rule reads_Cons, rule reads_opt_unique, rule reads_lp, rule b(4))
       apply (simp, simp, use z in \<open>(auto simp: connack_keep)[1]\<close>)
    apply (rule reads_Cons, rule reads_opt_unique, rule reads_lp, rule b(5))
       apply (simp, simp, use z in \<open>(auto simp: connack_keep)[1]\<close>)
    apply (rule reads_Cons, rule reads_opt_unique, rule reads_lp, rule b(6))
       apply (simp, simp, use z in \<open>(auto simp: connack_keep)[1]\<close>)
    by (rule reads_Nil) (rule fin)
qed

lemma NewConnack_type: "Type NewConnackMessage = CONNACK"
  by (simp add: NewConnackMessage_def SetMaxPacketSize_def SetRetainAvailable_def header.defs Type_def
      new_header_def first_byte_def DefaultFlags_def mtype_of_def)

lemma connack_Decode_bytes:
  assumes ok: "connack_ok m" and ka: "serverKeepAlive m = 0" and v: "vis src = connack_bytes m"
  shows "connack_Decode src NewConnackMessage
    = Go \<lparr>d_hn = Suc (length (varint (length (connack_body m)))), d_tot = length (connack_bytes m),
        d_msg = connack_decoded (vis src) m\<rparr>"
proof -
  let ?b = "length (connack_body m)" and ?pl = "length (connack_props m)"
  let ?hn = "Suc (length (varint ?b))"
  define m0 where "m0 = NewConnackMessage\<lparr>dbuf := vis src, mtf := mtf m, remlen := word_of_nat ?b\<rparr>"
  define m1 where "m1 = m0\<lparr>sessionPresent := sessionPresent m, reasonCode := reasonCode m,
     propertiesLen := word_of_nat ?pl\<rparr>"
  note init = NewConnackMessage_def SetMaxPacketSize_def SetRetainAvailable_def header.defs new_header_def
  define x1 where "x1 = concat [connack_flags m, [reasonCode m], varint ?pl]"
  define fs where "fs = [connack_dec_flags src, connack_dec_reason src,
     dec_lb src (\<lambda>v m. m\<lparr>propertiesLen := v\<rparr>) ret_total]"
  have body: "connack_body m = x1 @ connack_props m"
    by (simp add: connack_body_def x1_def)
  have o: "?b < 2 ^ 28" "flags_ok (mtf m)" "Type m = CONNACK" "ValidConnAckReasonCode (reasonCode m)"
    using ok by (simp_all add: connack_ok_def)
  have p28: "?pl < 2 ^ 28"
    using o(1) by (simp add: connack_body_def)
  have rc: "\<not> reasonCode m > UnsupportedWildcardSubscriptions"
    using o(4) by (auto simp: ValidConnAckReasonCode_def)
  have pos: "?b \<noteq> 0"
    by (simp add: connack_body_def)
  have ty: "mtype_of (drop_bit 4 (mtf m)) = Type NewConnackMessage"
    using o(3) NewConnack_type by (simp add: Type_def)
  have vv: "vis src = mtf m # varint ?b @ connack_body m"
    using v by (simp add: connack_bytes_def)
  note h = dec_header_rt [OF vv o(1) refl o(2) ty disjI1 [OF pos]]
  have f1: "reads src m' (connack_dec_flags src) (connack_flags m) (m'\<lparr>sessionPresent := sessionPresent m\<rparr>) r" for m' r
    unfolding reads_def
    by (auto simp: connack_dec_flags_def connack_flags_def dest: left_at)
  have f2: "reads src m' (connack_dec_reason src) [reasonCode m] (m'\<lparr>reasonCode := reasonCode m\<rparr>) r" for m' r
    unfolding reads_def using rc o(4) by (auto simp: connack_dec_reason_def Let_def dest: left_at)
  have r1: "reads src m0 (steps fs) x1 m1 (connack_props m @ [])"
    unfolding fs_def x1_def m1_def
    by (rule reads_Cons, rule f1, rule reads_Cons, rule f2, rule reads_Cons, rule reads_lb, rule p28, rule reads_Nil) simp
  have r2: "reads src m1 (steps (connack_dec_props src)) (connack_props m) (subs_set m (props_set m m1)) []"
    by (rule connack_dec_props_rt [OF ok ka]) (simp_all add: m1_def m0_def init)
  have r: "reads src m0 (steps (fs @ connack_dec_props src)) (connack_body m) (subs_set m (props_set m m1)) []"
    unfolding body by (rule reads_append [OF r1 r2])
  let ?s0 = "\<lparr>d_hn = ?hn, d_tot = ?hn, d_msg = m0\<rparr>"
  have l: "left src (d_tot ?s0) (connack_body m @ [])"
    using h(2) by simp
  have e: "(subs_set m (props_set m m1))\<lparr>dirty := False\<rparr> = connack_decoded (vis src) m"
    by (rule connack.equality) (simp_all add: subs_set_def props_set_def m1_def m0_def
        init connack_decoded_def connack_built_def ka)
  define mid where "mid = fs @ connack_dec_props src"
  have c: "connack_Decode src NewConnackMessage
      = steps (dec_header src # mid @ [dec_set (\<lambda>m. m\<lparr>dirty := False\<rparr>)]) (dstart NewConnackMessage)"
    by (simp add: connack_Decode_def mid_def fs_def)
  show ?thesis
    using h(1) readsD [OF r [folded mid_def] _ l] e
    by (simp add: c steps_append [of mid] dec_set_def connack_bytes_def m0_def)
qed

section \<open>The packet\<close>

definition sample_connack :: connack where
  "sample_connack = NewConnackMessage\<lparr>sessionPresent := True, maxQos := 1, sharedSubscriptionAvailable := 1,
     assignedIdentifier := [0x63], userProperties := [[0x6B]], subscriptionIdentifierAvailable := 0\<rparr>"

lemma sample_connack_ok: "connack_ok sample_connack" "serverKeepAlive sample_connack = 0" "dirty sample_connack"
  "sessionPresent sample_connack"
  by code_simp+

text \<open>C27: round trip of CONNACK, for messages with a valid reason code, a maximum QoS of at most 2 and
  properties that are flags 0 or 1, changed since they were last encoded or decoded, with strings of at most 65535
  bytes and a body below 2^28, with the server keep alive 0, which the decoder does not read rightly, and with a
  maximum packet size that is neither 0 nor 1. Such a message is encoded by \<open>EncodeToBuf\<close> without error,
  and \<open>Decode\<close> reads the whole buffer back, whatever capacity lies behind it, into a message with the
  same session flag, reason code and properties, up to five: a maximum QoS of 0 comes back as 2; a receive maximum of
  0 comes back as 65535; the availability of shared subscriptions comes back as not available, and, if it was set,
  subscription identifiers come back as available; and a user property list of odd length gains an empty
  value.\<close>

theorem connack_roundtrip:
  assumes "connack_ok m" and "dirty m" and "serverKeepAlive m = 0"
  shows "\<exists>s t. connack_EncodeToBuf \<lparr>b_buf = [], b_msg = m, b_gpid = g\<rparr> = Go s
    \<and> connack_Decode (GSlice (b_buf s) sp) NewConnackMessage = Go t
    \<and> d_tot t = length (b_buf s) \<and> sessionPresent (d_msg t) = sessionPresent m
    \<and> reasonCode (d_msg t) = reasonCode m \<and> sessionExpiryInterval (d_msg t) = sessionExpiryInterval m
    \<and> receiveMaximum (d_msg t) = (if receiveMaximum m = 0 then 65535 else receiveMaximum m)
    \<and> maxQos (d_msg t) = (if maxQos m = 0 then 2 else maxQos m) \<and> serverKeepAlive (d_msg t) = 0
    \<and> retainAvailable (d_msg t) = retainAvailable m \<and> maxPacketSize (d_msg t) = maxPacketSize m
    \<and> assignedIdentifier (d_msg t) = assignedIdentifier m \<and> topicAliasMax (d_msg t) = topicAliasMax m
    \<and> reasonStr (d_msg t) = reasonStr m \<and> userProperties (d_msg t) = up_pad (userProperties m)
    \<and> wildcardSubscriptionAvailable (d_msg t) = wildcardSubscriptionAvailable m
    \<and> sharedSubscriptionAvailable (d_msg t) = 0
    \<and> subscriptionIdentifierAvailable (d_msg t)
        = (if sharedSubscriptionAvailable m = 1 then 1 else subscriptionIdentifierAvailable m)
    \<and> responseInformation (d_msg t) = responseInformation m \<and> serverReference (d_msg t) = serverReference m
    \<and> authMethod (d_msg t) = authMethod m \<and> authData (d_msg t) = authData m \<and> \<not> dirty (d_msg t)"
proof -
  have "sharedSubscriptionAvailable m = 0 \<or> sharedSubscriptionAvailable m = 1"
    using assms(1) by (auto simp: connack_ok_def not_flag_def)
  moreover have e: "(65535 :: uint16) = - 1"
    by simp
  have "receiveMaximum m \<le> 65535"
    unfolding e by (rule word_n1_ge)
  then have "receiveMaximum (connack_built m) = (if receiveMaximum m = 0 then 65535 else receiveMaximum m)"
    by (auto simp: connack_built_def recv_max_written_def word_gt_0 not_less intro: antisym)
  ultimately show ?thesis
    using assms connack_EncodeToBuf_bytes [of "\<lparr>b_buf = [], b_msg = m, b_gpid = g\<rparr>"]
      connack_Decode_bytes [of m "GSlice (connack_bytes m) sp"]
    by (auto simp: connack_decoded_def connack_built_def word_gt_0)
qed

theorem connack_roundtrip_witness:
  "\<exists>s t. connack_EncodeToBuf \<lparr>b_buf = [], b_msg = sample_connack, b_gpid = 0\<rparr> = Go s
    \<and> connack_Decode (GSlice (b_buf s) [0x13]) NewConnackMessage = Go t
    \<and> assignedIdentifier (d_msg t) = [0x63] \<and> sharedSubscriptionAvailable (d_msg t) = 0
    \<and> subscriptionIdentifierAvailable (d_msg t) = 1"
  using connack_roundtrip [OF sample_connack_ok(1,3,2), of 0 "[0x13]"] by (auto simp: sample_connack_def)

text \<open>The two CONNACK encoders agree for a message with a session present, or when the slice holds a
  zero where the flag byte belongs; otherwise \<open>Encode\<close> leaves the byte that the slice had there, and
  nothing else differs. Both refuse the same slices as too short.\<close>

theorem connack_encoders_agree:
  assumes "connack_ok m" and "dirty m"
  shows "\<exists>s. connack_EncodeToBuf \<lparr>b_buf = [], b_msg = m, b_gpid = g\<rparr> = Go s
    \<and> connack_Encode \<lparr>e_dst = d, e_tot = 0, e_msg = m, e_gpid = g\<rparr> =
      (if length d < length (b_buf s)
       then Fail 0 (Errorf ''connack/Encode: Insufficient buffer size.'')
         \<lparr>e_dst = d, e_tot = 0, e_msg = b_msg s, e_gpid = g\<rparr>
       else let k = length (b_buf s) - length (connack_body m) in
         Go \<lparr>e_dst = (b_buf s)[k := (if sessionPresent m then 1 else d ! k)] @ drop (length (b_buf s)) d,
           e_tot = length (b_buf s), e_msg = b_msg s, e_gpid = g\<rparr>)"
proof -
  let ?n = "length (mtf m # varint (length (connack_body m)))"
  have "connack_slice d m = (connack_bytes m)[?n := (if sessionPresent m then 1 else d ! ?n)]"
    by (simp add: connack_slice_def connack_bytes_def connack_body_def connack_flags_def list_update_append Let_def)
  moreover have "length (connack_slice d m) = length (connack_bytes m)"
    by (simp add: connack_slice_def connack_bytes_def connack_body_def connack_flags_def Let_def)
  moreover have "length (connack_bytes m) - length (connack_body m) = ?n"
    by (simp add: connack_bytes_def)
  ultimately show ?thesis
    using assms connack_EncodeToBuf_bytes [of "\<lparr>b_buf = [], b_msg = m, b_gpid = g\<rparr>"]
      connack_Encode_bytes [of "\<lparr>e_dst = d, e_tot = 0, e_msg = m, e_gpid = g\<rparr>"]
    by (simp add: blit_fits not_less)
qed

theorem connack_encoders_agree_witness:
  "\<exists>s. connack_EncodeToBuf \<lparr>b_buf = [], b_msg = NewConnackMessage, b_gpid = 0\<rparr> = Go s
    \<and> connack_Encode \<lparr>e_dst = replicate 64 7, e_tot = 0, e_msg = NewConnackMessage, e_gpid = 0\<rparr> =
      Go \<lparr>e_dst = (b_buf s)[2 := 7] @ drop (length (b_buf s)) (replicate 64 7),
           e_tot = length (b_buf s), e_msg = b_msg s, e_gpid = 0\<rparr>"
proof -
  have ok: "connack_ok NewConnackMessage" "dirty NewConnackMessage" "\<not> sessionPresent NewConnackMessage"
    by code_simp+
  have n: "length (connack_bytes NewConnackMessage) = 16" "length (connack_body NewConnackMessage) = 14"
    by code_simp+
  obtain s where s: "connack_EncodeToBuf \<lparr>b_buf = [], b_msg = NewConnackMessage, b_gpid = 0\<rparr> = Go s"
    and b: "b_buf s = connack_bytes NewConnackMessage"
    using connack_EncodeToBuf_bytes [of "\<lparr>b_buf = [], b_msg = NewConnackMessage, b_gpid = 0\<rparr>"] ok by simp
  show ?thesis
    using connack_encoders_agree [OF ok(1,2), of 0 "replicate 64 7"] s ok(3) by (simp add: b n)
qed

definition with_keepAlive :: connack where
  "with_keepAlive = NewConnackMessage\<lparr>serverKeepAlive := 60, authMethod := [0x6D], authData := [0x64]\<rparr>"

text \<open>A server keep alive is two bytes long but the decoder advances by one, so the low byte is
  taken for a property: the encoding of a message with a keep alive of 60 seconds and an
  authentication method is decoded without error into one with no authentication method, and the
  bytes behind the keep alive are never consumed.\<close>

theorem connack_keepalive_loses_properties:
  "\<exists>s t. connack_EncodeToBuf \<lparr>b_buf = [], b_msg = with_keepAlive, b_gpid = 0\<rparr> = Go s
    \<and> connack_Decode (exact (b_buf s)) NewConnackMessage = Go t
    \<and> serverKeepAlive (d_msg t) = 60 \<and> authMethod with_keepAlive \<noteq> [] \<and> authMethod (d_msg t) = []
    \<and> d_tot t < length (b_buf s)"
proof -
  have "connack_ok with_keepAlive" "dirty with_keepAlive"
    by code_simp+
  then obtain s where s: "connack_EncodeToBuf \<lparr>b_buf = [], b_msg = with_keepAlive, b_gpid = 0\<rparr> = Go s"
    "b_buf s = connack_bytes with_keepAlive"
    using connack_EncodeToBuf_bytes [of "\<lparr>b_buf = [], b_msg = with_keepAlive, b_gpid = 0\<rparr>"] by simp
  moreover have "case connack_Decode (exact (connack_bytes with_keepAlive)) NewConnackMessage of
      Go t \<Rightarrow> serverKeepAlive (d_msg t) = 60 \<and> authMethod (d_msg t) = [] \<and> d_tot t < length (connack_bytes with_keepAlive)
    | _ \<Rightarrow> False"
    by code_simp
  ultimately show ?thesis
    by (auto simp: with_keepAlive_def split: out.splits)
qed

end
