(* ===== verification/BrokerProps.thy ===== *)
theory BrokerProps
  imports WorldRel GCoreProps ConnackRT
begin

text \<open>
  Properties of the broker as a whole: shutting down, authentication, the choice of the session,
  flow control, the packet identifiers in use, and a message on its way from one client to the
  others.
\<close>

section \<open>A small broker\<close>

text \<open>The inputs of the examples: a broker that has just started, its configuration, a client's
  CONNECT packet and two authentication managers.\<close>

definition new_world :: "'r world" where
  "new_world = \<lparr>w_topics = topics_NewMemProvider NewMemMsgStore, w_mgr = NewMemManager NewMemSessStore,
     w_svcs = Map.empty, w_gpid = 0, w_tasks = [], w_jobs = Map.empty, w_ntask = 0, w_serving = NewSafeMap,
     w_ranging = False, w_listening = True, w_gsvcid = 0, w_bufcnt = 0\<rparr>"

definition small_env :: "unit env" where
  "small_env = \<lparr>MaxQos = 2, RetainAvailable = True, CloseShareSub = False, cfg_MaxPacketSize = 65535,
     cfg_Quota = 0, cfg_QuotaLimit = 0, aclPub = \<lambda>_ _. True, aclSub = \<lambda>_ _. True, newLimiter = \<lambda>_. (),
     limiterHit = \<lambda>_. (False, ()), random = \<lambda>_ _. 0, now = 0, socketFails = \<lambda>_ _. False, describe = \<lambda>_. []\<rparr>"

definition small_config :: srvcfg where
  "small_config = \<lparr>AllowZeroLengthClientId = True, MaxKeepalive = 0, srv_MaxPacketSize = 65535, srv_MaxQos = 2,
     srv_RetainAvailable = True, srv_CloseShareSub = False, RedirectOpen = False, RedirectIsForEver = False,
     Redirects = [], Keepalive = 300\<rparr>"

definition hello :: conn where
  "hello = \<lparr>c_in = [0x10, 15, 0, 4, 0x4D, 0x51, 0x54, 0x54, 5, 2, 0, 60, 0, 0, 2, 0x63, 0x31], c_out = [],
     c_broken = False\<rparr>"

definition accepts :: authman where
  "accepts = \<lparr>verify = \<lambda>_ _. None, plusVerify = \<lambda>_. None\<rparr>"

definition refuses :: authman where
  "refuses = \<lparr>verify = \<lambda>_ _. Some [], plusVerify = \<lambda>_. None\<rparr>"

section \<open>Shutdown\<close>

lemma service_stop_ranging:
  assumes "w_ranging w"
  shows "snd (service_stop ev i True w) \<noteq> Ret x"
proof -
  have "w_ranging (fst (stop_body ev i w))"
    using assms flags.acrossD [OF flags.stop_body_across, of ev i w] by simp
  then show ?thesis
    unfolding service_stop_def by (cases "stop_body ev i w"; cases "snd (stop_body ev i w)") auto
qed

lemma bindw_not_Ret: "(\<And>x. snd (f w) \<noteq> Ret x) \<Longrightarrow> snd (bindw f k w) \<noteq> Ret y"
  unfolding bindw_def by (cases "f w"; cases "snd (f w)") auto

lemma stop_all_flags: "w_ranging (fst (stop_all ev xs w)) = w_ranging w \<and> w_listening (fst (stop_all ev xs w)) = w_listening w"
proof -
  have "flags.across (stop_all ev xs)"
    by (induction xs) (auto simp: serverStopHandle_def intro!: flags.bind_across)
  then show ?thesis
    using flags.acrossD by blast
qed

text \<open>C5: shutting down never ends. With one connection still served, \<open>Shutdown\<close> does not return,
  for it stops the service inside a \<open>Range\<close> over the map of services, whose read lock it holds, and the
  service then waits for the write lock to take itself out; the listener stays open.\<close>

theorem shutdown_hangs:
  assumes "dirtyOld (w_serving w) @ dirtyNew (w_serving w) \<noteq> []"
  shows "snd (Shutdown ev w) \<noteq> Ret () \<and> w_listening (fst (Shutdown ev w)) = w_listening w"
proof -
  let ?ids = "map fst (dirtyOld (w_serving w) @ dirtyNew (w_serving w))"
  let ?w = "w\<lparr>w_ranging := True\<rparr>"
  obtain i xs where ids: "?ids = i # xs"
    using assms by (cases ?ids) auto
  have n: "snd (stop_all ev ?ids ?w) \<noteq> Ret x" for x
    unfolding ids stop_all.simps serverStopHandle_def
    by (intro bindw_not_Ret service_stop_ranging) simp
  have "w_listening (fst (stop_all ev ?ids ?w)) = w_listening w"
    using stop_all_flags [of ev ?ids ?w] by simp
  then have "w_listening (fst (Shutdown ev w)) = w_listening w"
    using n unfolding Shutdown_def bindw_def
    by (cases "stop_all ev ?ids ?w"; cases "snd (stop_all ev ?ids ?w)") auto
  then show ?thesis
    using n unfolding Shutdown_def by (auto intro!: bindw_not_Ret)
qed

theorem shutdown_hangs_witness:
  "snd (Shutdown small_env (new_world\<lparr>w_serving := Set 1 () NewSafeMap\<rparr>)) \<noteq> Ret ()
    \<and> w_listening (fst (Shutdown small_env (new_world\<lparr>w_serving := Set 1 () NewSafeMap\<rparr>)))"
proof -
  let ?w = "new_world\<lparr>w_serving := Set 1 () NewSafeMap\<rparr> :: unit world"
  have "dirtyOld (w_serving ?w) @ dirtyNew (w_serving ?w) \<noteq> []"
    by code_simp
  then show ?thesis
    using shutdown_hangs [of ?w small_env] by (simp add: new_world_def)
qed

section \<open>Authentication\<close>

definition config_ok :: "srvcfg \<Rightarrow> bool" where
  "config_ok cf \<longleftrightarrow> 0 \<le> srv_MaxQos cf \<and> srv_MaxQos cf \<le> 2 \<and> srv_MaxPacketSize cf \<noteq> 0 \<and> srv_MaxPacketSize cf \<noteq> 1"

text \<open>The CONNACK message as \<open>conAuth\<close> has prepared it, and with the code of a refusal\<close>

definition prepared :: "srvcfg \<Rightarrow> connack" where
  "prepared cf =
     (let resp = (if \<not> srv_CloseShareSub cf then SetSharedSubscriptionAvailable 1 NewConnackMessage
                  else NewConnackMessage)
      in SetRetainAvailable (if srv_RetainAvailable cf then 1 else 0)
           (SetMaxQos (word_of_int (srv_MaxQos cf)) (Connack.SetMaxPacketSize (srv_MaxPacketSize cf) resp)))"

definition refused :: "connack \<Rightarrow> connack" where
  "refused resp = SetSessionPresent False (Connack.SetReasonCode UserNameOrPasswordIsIncorrect resp)"

lemma refused_ok:
  assumes "config_ok cf"
  shows "connack_ok (refused (prepared cf))" and "dirty (refused (prepared cf))"
proof -
  have q: "(word_of_int (srv_MaxQos cf) :: byte) \<le> 2"
  proof -
    have "srv_MaxQos cf = 0 \<or> srv_MaxQos cf = 1 \<or> srv_MaxQos cf = 2"
      using assms by (auto simp: config_ok_def)
    then show ?thesis by auto
  qed
  let ?m = "refused (prepared cf)"
  have c: "mtype_of (2 :: byte) = CONNACK" "flags_ok (first_byte CONNACK (DefaultFlags CONNACK))"
    by code_simp+
  note defs = refused_def prepared_def Let_def SetSessionPresent_def Connack.SetReasonCode_def SetRetainAvailable_def
    SetMaxQos_def Connack.SetMaxPacketSize_def SetSharedSubscriptionAvailable_def NewConnackMessage_def
    header.defs new_header_def UserNameOrPasswordIsIncorrect_def
  show "dirty ?m"
    by (simp add: defs)
  have f: "Type ?m = CONNACK" "flags_ok (mtf ?m)" "connack.reasonCode ?m = 0x86" "connack.maxQos ?m = word_of_int (srv_MaxQos cf)"
    "connack.maxPacketSize ?m = srv_MaxPacketSize cf" "connack.assignedIdentifier ?m = []" "connack.reasonStr ?m = []"
    "connack.responseInformation ?m = []" "connack.serverReference ?m = []" "connack.authMethod ?m = []" "connack.authData ?m = []"
    "connack.userProperties ?m = []" "connack.sessionExpiryInterval ?m = 0" "connack.receiveMaximum ?m = 0"
    "connack.topicAliasMax ?m = 0" "serverKeepAlive ?m = 0" "wildcardSubscriptionAvailable ?m = 0"
    "subscriptionIdentifierAvailable ?m = 0"
    by (simp_all add: defs Type_def c)
  have g: "retainAvailable ?m = 0 \<or> retainAvailable ?m = 1" "sharedSubscriptionAvailable ?m = 0 \<or> sharedSubscriptionAvailable ?m = 1"
    by (simp_all add: defs)
  have "length (connack_props ?m) \<le> 20"
    using g by (auto simp: connack_props_def f opt_bytes_def recv_max_written_def)
  then have "length (connack_body ?m) < 2 ^ 28"
    using length_varint_28 [of "length (connack_props ?m)"] by (simp add: connack_body_def connack_flags_def)
  moreover have "ValidConnAckReasonCode 0x86"
    by code_simp
  ultimately show "connack_ok ?m"
    using g q assms by (auto simp: connack_ok_def f not_flag_def strs_ok_def config_ok_def)
qed

lemma conn_send_connack:
  assumes "connack_ok m" and "dirty m" and "\<not> c_broken c"
  shows "conn_send (MConnack m) c = (c\<lparr>c_out := c_out c @ [connack_bytes m]\<rparr>, Ret None)"
  using connack_EncodeToBuf_bytes [of "onto [] 0 m"] assms by (simp add: conn_send_def onto_def)

lemma bind_None: "snd (bindw f (\<lambda>_. ret (None, e')) c) \<noteq> Ret (Some hs, e)"
  unfolding bindw_def ret_def by (cases "f c"; cases "snd (f c)") auto

lemma reject_not_in: "snd (reject code info err c) \<noteq> Ret (Some hs, e)"
  unfolding reject_def by (rule bind_None)

text \<open>The client that is let in, with its CONNECT message as the broker completed it\<close>

definition let_in :: "(conn, handshake) step \<Rightarrow> conn \<Rightarrow> connect option" where
  "let_in f c = (case snd (f c) of Ret (Some (req, _), None) \<Rightarrow> Some req | _ \<Rightarrow> None)"

lemma let_in_Some: "let_in f c = Some req \<longleftrightarrow> (\<exists>resp. snd (f c) = Ret (Some (req, resp), None))"
  by (cases "snd (f c)") (auto simp: let_in_def split: option.splits prod.splits)

text \<open>The checks in front of the authentication do not depend on it.\<close>

lemma conAuth_checks:
  assumes "getConnectMessage c = (c1, Ret (Inr req))" and "snd (conAuth cf am c) = Ret (Some hs, None)"
  shows "\<exists>req'. \<forall>am'. conAuth cf am' c = after_checks cf am' req' (prepared cf) c1"
proof -
  let ?len = "if srv_MaxPacketSize cf > 0 then connect_Len req else Some (0, req)"
  note c = conAuth_def Let_def bindw_def assms(1) follow.simps sum.case
  have zero: "\<not> (length (connect.clientId req) = 0 \<and> \<not> AllowZeroLengthClientId cf)"
    using assms(2) reject_not_in by (auto simp: c split: if_splits)
  have ka: "\<not> (MaxKeepalive cf > 0 \<and> keepAlive req > MaxKeepalive cf)"
    using assms(2) reject_not_in zero by (auto simp: c split: if_splits)
  obtain l req' where len: "?len = Some (l, req')"
    using assms(2) zero ka by (cases ?len) (auto simp: c crash_def)
  have sz: "\<not> l > unat (srv_MaxPacketSize cf)"
    using assms(2) reject_not_in by (auto simp: c zero ka len split: if_splits)
  have q: "\<not> srv_MaxQos cf < uint (WillQos req')"
    using assms(2) reject_not_in by (auto simp: c zero ka len sz split: if_splits)
  have r: "srv_RetainAvailable cf \<or> \<not> WillRetain req'"
    using assms(2) reject_not_in by (auto simp: c zero ka len sz q split: if_splits)
  show ?thesis
    unfolding c if_not_P [OF zero] if_not_P [OF ka] len option.case prod.case if_not_P [OF sz] if_not_P [OF q]
    using r by (intro exI [of _ req'] allI) (cases "srv_RetainAvailable cf"; simp add: prepared_def Let_def)
qed

text \<open>C4: a refused password lets the client in. For a client without an authentication method that
  gets past the checks with one password verifier, every other verifier lets it in as well, one that refuses
  every password included: the refusing CONNACK is written, and because that succeeds \<open>auth\<close> returns no
  error, so \<open>conAuth\<close> goes on with the connection. The configured maximum QoS is at most 2 and the
  configured maximum packet size neither 0 nor 1.\<close>

theorem password_not_enforced:
  assumes "getConnectMessage c = (c1, Ret (Inr req))" and "\<not> c_broken c1" and "config_ok cf"
    and "let_in (conAuth cf am) c = Some req1" and "connect.authMethod req1 = []"
  shows "let_in (conAuth cf am') c = Some req1"
proof -
  obtain resp1 where letin: "snd (conAuth cf am c) = Ret (Some (req1, resp1), None)"
    using assms(4) by (auto simp: let_in_Some)
  obtain req' where ac: "\<And>am. conAuth cf am c = after_checks cf am req' (prepared cf) c1"
    using conAuth_checks [OF assms(1) letin] by blast
  have no: "\<not> RedirectOpen cf"
    using letin by (auto simp: ac after_checks_def crash_def dest: bind_None [THEN notE] split: list.splits)
  define fin where "fin x = (if keepAlive req' = 0 then Connect.SetKeepAlive (word_of_int (Keepalive cf)) req' else req',
      if requestRespInfo (if keepAlive req' = 0 then Connect.SetKeepAlive (word_of_int (Keepalive cf)) req' else req') = 0
      then SetResponseInformation [] x else x)" for x
  have after: "after_checks cf am req' (prepared cf) c1
      = bindw (server_auth am (prepared cf) req') (\<lambda>(resp, e). if e \<noteq> None then ret (None, e) else ret (Some (fin resp), None)) c1"
    for am
    unfolding after_checks_def if_not_P [OF no] Let_def fin_def by (rule refl)
  have "fst (fin resp) = req1 \<Longrightarrow> connect.authMethod req' = []" for resp
    using assms(5) by (auto simp: fin_def Connect.SetKeepAlive_def split: if_splits)
  moreover obtain resp where "fin resp = (req1, resp1)"
    using letin unfolding ac after bindw_def ret_def
    by (cases "server_auth am (prepared cf) req' c1"; cases "snd (server_auth am (prepared cf) req' c1)")
      (auto split: if_splits prod.splits)
  ultimately have m: "connect.authMethod req' = []" and f: "fst (fin x) = req1" for x
    by (auto simp: fin_def split: if_splits)
  have "\<exists>c2 x. server_auth am' (prepared cf) req' c1 = (c2, Ret (x, None))"
    using conn_send_connack [OF refused_ok [OF assms(3)] assms(2)]
    by (auto simp: server_auth_def m bindw_def ret_def refused_def Let_def split: option.split)
  then obtain c2 x where "server_auth am' (prepared cf) req' c1 = (c2, Ret (x, None))"
    by blast
  then have "snd (conAuth cf am' c) = Ret (Some (fin x), None)"
    unfolding ac after by (simp add: bindw_def ret_def)
  then show ?thesis
    using f [of x] by (cases "fin x") (auto simp: let_in_Some)
qed

theorem password_not_enforced_witness:
  "let_in (conAuth small_config refuses) hello = let_in (conAuth small_config accepts) hello
    \<and> let_in (conAuth small_config refuses) hello \<noteq> None"
proof -
  have "case getConnectMessage hello of (c1, Ret (Inr req)) \<Rightarrow> \<not> c_broken c1 | _ \<Rightarrow> False"
    by code_simp
  then obtain c1 req where c: "getConnectMessage hello = (c1, Ret (Inr req))" "\<not> c_broken c1"
    by (auto split: prod.splits outcome.splits sum.splits)
  have "map_option connect.authMethod (let_in (conAuth small_config accepts) hello) = Some []"
    by code_simp
  then obtain req1 where r: "let_in (conAuth small_config accepts) hello = Some req1" "connect.authMethod req1 = []"
    unfolding map_option_eq_Some by blast
  have ok: "config_ok small_config"
    by code_simp
  show ?thesis
    unfolding password_not_enforced [OF c ok r, of refuses] r by (simp only: option.distinct not_False_eq_True)
qed

end
