(* ===== verification/ConfigUse.thy ===== *)
theory ConfigUse
  imports Config BrokerProps
begin

text \<open>
  What the server reads of the configuration. \<open>getConnectMessage\<close>, \<open>conAuth\<close> and the services of
  broker/core/service/v1 read the fields through \<open>gcfg.GetGCfg\<close>; the lemmas give the bounds that the other
  theories assume of them.
\<close>

definition server_reads :: "gconfig \<Rightarrow> srvcfg" where
  "server_reads g = \<lparr>srvcfg.AllowZeroLengthClientId = broker_cfg.AllowZeroLengthClientId (Broker g),
     MaxKeepalive = broker_cfg.MaxKeepalive (Broker g), srv_MaxPacketSize = broker_cfg.MaxPacketSize (Broker g),
     srv_MaxQos = broker_cfg.MaxQos (Broker g), srv_RetainAvailable = broker_cfg.RetainAvailable (Broker g),
     srv_CloseShareSub = broker_cfg.CloseShareSub (Broker g), RedirectOpen = server_cfg.RedirectOpen (g_Server g),
     RedirectIsForEver = server_cfg.RedirectIsForEver (g_Server g), Redirects = server_cfg.Redirects (g_Server g),
     Keepalive = connect_cfg.Keepalive (g_Connect g)\<rparr>"

lemma config_init_reads:
  assumes "config_init unmarshal gen file = Some c"
  obtains g where "unmarshal file zero_config = Some g"
    and "broker_cfg.MaxPacketSize (Broker c) = default_uint (ascii ''65535'') (broker_cfg.MaxPacketSize (Broker g))"
    and "broker_cfg.MaxQos (Broker c) = clamp_qos (default_int (ascii ''2'') (broker_cfg.MaxQos (Broker g)))"
    and "connect_cfg.Keepalive (g_Connect c) = default_int (ascii ''100'') (connect_cfg.Keepalive (g_Connect g))"
proof -
  obtain g where g: "unmarshal file zero_config = Some g"
    and c: "c = (Validate_Struct gen g)\<lparr>Broker := (Broker (Validate_Struct gen g))
      \<lparr>broker_cfg.MaxQos := clamp_qos (broker_cfg.MaxQos (Broker (Validate_Struct gen g)))\<rparr>\<rparr>"
    using assms by (auto simp: config_init_def Let_def split: if_splits option.splits)
  show ?thesis
    by (rule that [OF g]) (simp_all add: c Validate_Struct_def validate_broker_def validate_connect_def)
qed

text \<open>With any file that does not ask for packets of one byte, the server is configured within the bounds of its
  CONNACK, and the period of its keep alive is not zero.\<close>

lemma configured_ok:
  assumes "config_init unmarshal gen file = Some c" and "\<And>g. unmarshal file zero_config = Some g \<Longrightarrow> broker_cfg.MaxPacketSize (Broker g) \<noteq> 1"
  shows "config_ok (server_reads c)" and "srvcfg.Keepalive (server_reads c) \<noteq> 0"
proof -
  obtain g where g: "unmarshal file zero_config = Some g"
      "broker_cfg.MaxPacketSize (Broker c) = default_uint (ascii ''65535'') (broker_cfg.MaxPacketSize (Broker g))"
      "broker_cfg.MaxQos (Broker c) = clamp_qos (default_int (ascii ''2'') (broker_cfg.MaxQos (Broker g)))"
      "connect_cfg.Keepalive (g_Connect c) = default_int (ascii ''100'') (connect_cfg.Keepalive (g_Connect g))"
    using config_init_reads [OF assms(1)] .
  then show "config_ok (server_reads c)" "srvcfg.Keepalive (server_reads c) \<noteq> 0"
    using assms(2) [OF g(1)] clamp_qos_range [of "default_int (ascii ''2'') (broker_cfg.MaxQos (Broker g))"]
    by (simp_all add: server_reads_def config_ok_def defaults_filled parse_defaults)
qed

end
