(* ===== verification/Serving.thy ===== *)
theory Serving
  imports Server "HOL-Library.Multiset"
begin

text \<open>
  The frame of the server, broker/core/service/v1/server.go: construction, the configuration that is filled in
  once, the accept loop, and the task group of util/waitgroup with which broker/core/core.go closes the managers.
  The listener and the URL parser are the standard library's: the listener is the list of its answers, the parser
  a parameter. The banner and the empty cluster hook are left out.
\<close>

section \<open>The server\<close>

record timeouts =
  tm_Keepalive :: int
  tm_ConnectTimeout :: int
  tm_AckTimeout :: int
  tm_TimeoutRetries :: int

record 'u srv =
  sv_uri :: 'u
  sv_running :: int
  sv_quit :: bool
  sv_configured :: bool
  sv_listeners :: nat
  sv_closers :: "nat list"
  sv_middleware :: nat
  sv_config :: timeouts

text \<open>\<open>NewServer\<close> panics on a URI that does not parse.\<close>

definition NewServer :: "(bytes \<Rightarrow> 'u option) \<Rightarrow> timeouts \<Rightarrow> bytes \<Rightarrow> 'u srv outcome" where
  "NewServer parse cf uri =
     (case parse uri of
        None \<Rightarrow> Panicked
      | Some u \<Rightarrow> Ret \<lparr>sv_uri = u, sv_running = 0, sv_quit = False, sv_configured = False, sv_listeners = 0,
          sv_closers = [], sv_middleware = 0, sv_config = cf\<rparr>)"

definition AddCloser :: "nat \<Rightarrow> 'u srv \<Rightarrow> 'u srv" where
  "AddCloser c s = s\<lparr>sv_closers := sv_closers s @ [c]\<rparr>"

definition server_Wait :: "'u srv \<Rightarrow> unit outcome" where
  "server_Wait s = (if sv_quit s then Ret () else Waits)"

definition KeepAlive :: int where "KeepAlive = 300"
definition ConnectTimeout :: int where "ConnectTimeout = 5"
definition AckTimeout :: int where "AckTimeout = 20"
definition TimeoutRetries :: int where "TimeoutRetries = 3"

definition or_default :: "int \<Rightarrow> int \<Rightarrow> int" where
  "or_default d n = (if n = 0 then d else n)"

definition fill_config :: "timeouts \<Rightarrow> timeouts" where
  "fill_config c = \<lparr>tm_Keepalive = or_default KeepAlive (tm_Keepalive c),
     tm_ConnectTimeout = or_default ConnectTimeout (tm_ConnectTimeout c),
     tm_AckTimeout = or_default AckTimeout (tm_AckTimeout c),
     tm_TimeoutRetries = or_default TimeoutRetries (tm_TimeoutRetries c)\<rparr>"

text \<open>The number of middleware options grows by those given.\<close>

definition initMiddleware :: "nat \<Rightarrow> 'u srv \<Rightarrow> 'u srv" where
  "initMiddleware n s = s\<lparr>sv_middleware := sv_middleware s + n\<rparr>"

definition checkAndInitConfig :: "'u srv \<Rightarrow> 'u srv" where
  "checkAndInitConfig s =
     (if sv_configured s then s
      else initMiddleware 1 (s\<lparr>sv_configured := True, sv_config := fill_config (sv_config s)\<rparr>))"

section \<open>Listening\<close>

datatype listen_err = AlreadyRunning | ListenFails | AcceptFails

text \<open>The deferred \<open>CompareAndSwapInt32(&running, 1, 0)\<close>, which is set up before the test that it is 0\<close>

definition stop_running :: "'u srv \<Rightarrow> 'u srv" where
  "stop_running s = (if sv_running s = 1 then s\<lparr>sv_running := 0\<rparr> else s)"

definition listen_enter :: "bool \<Rightarrow> 'u srv \<Rightarrow> 'u srv \<times> listen_err option" where
  "listen_enter listens s =
     (if sv_running s \<noteq> 0 then (stop_running s, Some AlreadyRunning)
      else let s = checkAndInitConfig (s\<lparr>sv_running := 1\<rparr>) in
        if listens then (s\<lparr>sv_listeners := sv_listeners s + 1\<rparr>, None)
        else (stop_running s, Some ListenFails))"

text \<open>
  The accept loop over the answers of the listener: a connection, or an error that is temporary or not, with
  whether the server has been told to quit by then. A list that runs out is a listener that blocks. The result:
  the delays slept, the connections handed to goroutines, and the way it ends.
\<close>

datatype 'c accepted = Accepted 'c | AcceptErr bool bool

datatype ending = Accepting | Quit | Failing listen_err

fun accept_loop :: "int \<Rightarrow> 'c accepted list \<Rightarrow> int list \<times> 'c list \<times> ending" where
  "accept_loop tempDelay [] = ([], [], Accepting)"
| "accept_loop tempDelay (Accepted c # as) = (case accept_loop tempDelay as of (ds, cs, e) \<Rightarrow> (ds, c # cs, e))"
| "accept_loop tempDelay (AcceptErr temporary quit # as) =
     (if quit then ([], [], Quit)
      else if temporary then
        (case accept_loop (reset_delay tempDelay) as of (ds, cs, e) \<Rightarrow> (reset_delay tempDelay # ds, cs, e))
      else ([], [], Failing AcceptFails))"

text \<open>\<open>ListenAndServe\<close> until it returns, if it does\<close>

definition ListenAndServe :: "bool \<Rightarrow> 'c accepted list \<Rightarrow> 'u srv \<Rightarrow> 'u srv \<times> 'c list \<times> listen_err option outcome" where
  "ListenAndServe listens as s =
     (case listen_enter listens s of
        (s, Some e) \<Rightarrow> (s, [], Ret (Some e))
      | (s, None) \<Rightarrow>
          (case accept_loop 0 as of
             (_, cs, Accepting) \<Rightarrow> (s, cs, Waits)
           | (_, cs, Quit) \<Rightarrow> (stop_running s, cs, Ret None)
           | (_, cs, Failing e) \<Rightarrow> (stop_running s, cs, Ret (Some e))))"

text \<open>A second call fails and clears the flag of the first, so a third one listens again.\<close>

lemma second_call_clears_flag:
  assumes "sv_running s = 1" and "sv_configured s"
  shows "listen_enter True s = (s\<lparr>sv_running := 0\<rparr>, Some AlreadyRunning)"
    and "listen_enter True (s\<lparr>sv_running := 0\<rparr>) = (s\<lparr>sv_listeners := sv_listeners s + 1\<rparr>, None)"
  using assms by (simp_all add: listen_enter_def stop_running_def checkAndInitConfig_def Let_def)

lemma reset_delay_pow:
  assumes "tempDelay = (if n = 0 then 0 else min (5 * 2 ^ (n - 1)) 1000)"
  shows "reset_delay tempDelay = min (5 * 2 ^ n) 1000"
proof (cases n)
  case 0
  then show ?thesis
    using assms by (simp add: reset_delay_def)
next
  case (Suc k)
  show ?thesis
  proof (cases "(5 * 2 ^ k :: int) \<le> 1000")
    case True
    then show ?thesis
      using assms Suc by (auto simp: reset_delay_def Let_def min_def)
  next
    case False
    then have "min (5 * 2 ^ k) 1000 = (1000 :: int)" "min (5 * (2 * 2 ^ k)) 1000 = (1000 :: int)"
      by linarith+
    then show ?thesis
      using assms Suc by (simp add: reset_delay_def Let_def)
  qed
qed

lemma accept_delays:
  assumes "accept_loop tempDelay as = (ds, cs, e)" and "tempDelay = (if n = 0 then 0 else min (5 * 2 ^ (n - 1)) 1000)"
    and "k < length ds"
  shows "ds ! k = min (5 * 2 ^ (n + k)) 1000"
  using assms
proof (induction tempDelay as arbitrary: ds cs n k rule: accept_loop.induct)
  case (2 tempDelay c as)
  then show ?case
    by (auto split: prod.splits)
next
  case (3 tempDelay temporary quit as)
  note r = reset_delay_pow [OF 3(3)]
  obtain ds' cs' where a: "\<not> quit" "temporary" "accept_loop (reset_delay tempDelay) as = (ds', cs', e)"
    and d: "ds = reset_delay tempDelay # ds'"
    using 3(2,4) by (auto split: if_splits prod.splits)
  show ?case
  proof (cases k)
    case 0
    then show ?thesis
      using r d by simp
  next
    case (Suc j)
    have "ds' ! j = min (5 * 2 ^ (Suc n + j)) 1000"
      using 3(1) [OF a(1,2,3), of "Suc n" j] r d Suc 3(4) by simp
    then show ?thesis
      using d Suc by simp
  qed
qed auto

section \<open>Task groups\<close>

text \<open>
  \<open>Group\<close>: each task runs in its goroutine, a panic is an error like any other, and the first error that is
  reported stays. \<open>pool\<close> is the channel of the workers with its capacity; what does not fit waits in \<open>chs\<close>
  for \<open>Wait\<close> to send it.
\<close>

datatype 'e task_end = Fine | Failed 'e | PanicOf

datatype 'e task_err = TaskErr 'e | PanicRecovered

record 'e group =
  gr_err :: "'e task_err option"
  gr_cancelled :: bool
  gr_cancels :: bool
  gr_running :: "'e task_end list"
  gr_busy :: "'e task_end list"
  gr_pool :: "(nat \<times> 'e task_end list) option"
  gr_chs :: "'e task_end list"
  gr_wg :: nat

definition WithContext :: "'e group" where
  "WithContext = \<lparr>gr_err = None, gr_cancelled = False, gr_cancels = False, gr_running = [], gr_busy = [], gr_pool = None,
     gr_chs = [], gr_wg = 0\<rparr>"

definition WithCancel :: "'e group" where
  "WithCancel = WithContext\<lparr>gr_cancels := True\<rparr>"

fun reported :: "'e task_end \<Rightarrow> 'e task_err option" where
  "reported Fine = None" | "reported (Failed e) = Some (TaskErr e)" | "reported PanicOf = Some PanicRecovered"

definition GOMAXPROCS :: "int \<Rightarrow> 'e group \<Rightarrow> 'e group outcome" where
  "GOMAXPROCS n g =
     (if n \<le> 0 then Panicked
      else Ret (if gr_pool g = None then g\<lparr>gr_pool := Some (nat n, [])\<rparr> else g))"

definition group_Go :: "'e task_end \<Rightarrow> 'e group \<Rightarrow> 'e group" where
  "group_Go f g =
     (let g = g\<lparr>gr_wg := gr_wg g + 1\<rparr> in
      case gr_pool g of
        None \<Rightarrow> g\<lparr>gr_running := gr_running g @ [f]\<rparr>
      | Some (n, q) \<Rightarrow> if length q < n then g\<lparr>gr_pool := Some (n, q @ [f])\<rparr> else g\<lparr>gr_chs := gr_chs g @ [f]\<rparr>)"

text \<open>The end of a task, from \<open>do\<close>\<close>

definition task_done :: "'e task_end \<Rightarrow> 'e group \<Rightarrow> 'e group" where
  "task_done f g =
     (let g = g\<lparr>gr_wg := gr_wg g - 1\<rparr> in
      case reported f of
        None \<Rightarrow> g
      | Some e \<Rightarrow> if gr_err g = None then g\<lparr>gr_err := Some e, gr_cancelled := gr_cancels g\<rparr> else g)"

text \<open>
  The moves of the goroutines: a task ends, in its own goroutine or in a worker's, a worker that is free takes a
  task from the channel, \<open>Wait\<close> sends a task that did not fit.
\<close>

inductive group_step :: "'e group \<Rightarrow> 'e group \<Rightarrow> bool" where
  ends: "gr_running g = xs @ f # ys \<Longrightarrow> group_step g (task_done f (g\<lparr>gr_running := xs @ ys\<rparr>))"
| worker_ends: "gr_busy g = xs @ f # ys \<Longrightarrow> group_step g (task_done f (g\<lparr>gr_busy := xs @ ys\<rparr>))"
| takes: "gr_pool g = Some (n, f # q) \<Longrightarrow> length (gr_busy g) < n \<Longrightarrow>
    group_step g (g\<lparr>gr_pool := Some (n, q), gr_busy := gr_busy g @ [f]\<rparr>)"
| sends: "gr_pool g = Some (n, q) \<Longrightarrow> gr_chs g = f # fs \<Longrightarrow> length q < n \<Longrightarrow>
    group_step g (g\<lparr>gr_pool := Some (n, q @ [f]), gr_chs := fs\<rparr>)"

definition group_Wait :: "'e group \<Rightarrow> 'e task_err option outcome" where
  "group_Wait g = (if gr_chs g = [] \<and> gr_wg g = 0 then Ret (gr_err g) else Waits)"

definition submitted :: "'e task_end list \<Rightarrow> 'e group \<Rightarrow> 'e group" where
  "submitted fs g = foldl (\<lambda>g f. group_Go f g) g fs"

text \<open>\<open>core.Close\<close>: \<open>make([]func() error, 4)\<close> has four nil functions, to which the closers are appended.\<close>

definition core_tasks :: "'e task_end list \<Rightarrow> 'e task_end list" where
  "core_tasks closers = replicate 4 PanicOf @ closers"

definition core_Close :: "'e task_end list \<Rightarrow> 'e group" where
  "core_Close closers = submitted (core_tasks closers) WithCancel"

section \<open>Every task once\<close>

definition queued :: "'e group \<Rightarrow> 'e task_end list" where
  "queued g = (case gr_pool g of None \<Rightarrow> [] | Some (n, q) \<Rightarrow> q)"

definition pending :: "'e group \<Rightarrow> 'e task_end multiset" where
  "pending g = mset (gr_running g) + mset (gr_busy g) + mset (queued g) + mset (gr_chs g)"

definition group_ok :: "'e task_end multiset \<Rightarrow> 'e group \<Rightarrow> bool" where
  "group_ok all g \<longleftrightarrow> (\<exists>past. all = past + pending g \<and> gr_wg g = size (pending g)
     \<and> (gr_err g = None \<longleftrightarrow> (\<forall>f \<in># past. reported f = None))
     \<and> (case gr_pool g of None \<Rightarrow> gr_busy g = [] \<and> gr_chs g = [] | Some (n, q) \<Rightarrow> 0 < n))"

lemma group_ok_Go: "group_ok all g \<Longrightarrow> group_ok (add_mset f all) (group_Go f g)"
  by (auto simp: group_ok_def group_Go_def pending_def queued_def Let_def split: option.splits)

lemma group_ok_submitted: "group_ok all g \<Longrightarrow> group_ok (all + mset fs) (submitted fs g)"
proof (induction fs arbitrary: all g)
  case (Cons f fs)
  then show ?case
    using Cons.IH [OF group_ok_Go [OF Cons.prems]] by (simp add: submitted_def)
qed (simp add: submitted_def)

lemma task_done_ok:
  assumes "all = past + add_mset f (pending g)" and "gr_wg g = Suc (size (pending g))"
    and "gr_err g = None \<longleftrightarrow> (\<forall>f \<in># past. reported f = None)"
    and "case gr_pool g of None \<Rightarrow> gr_busy g = [] \<and> gr_chs g = [] | Some (n, q) \<Rightarrow> 0 < n"
  shows "group_ok all (task_done f g)"
proof -
  let ?h = "task_done f g"
  have h: "pending ?h = pending g" "gr_wg ?h = gr_wg g - 1" "gr_pool ?h = gr_pool g" "gr_busy ?h = gr_busy g" "gr_chs ?h = gr_chs g"
    "gr_err ?h = None \<longleftrightarrow> gr_err g = None \<and> reported f = None"
    by (cases "reported f"; simp add: task_done_def pending_def queued_def Let_def)+
  show ?thesis
    unfolding group_ok_def h
    by (rule exI [of _ "add_mset f past"]) (use assms in \<open>simp add: conj_commute\<close>)
qed

lemma group_ok_step:
  assumes "group_step g g'" and "group_ok all g"
  shows "group_ok all g'"
proof -
  obtain past where p: "all = past + pending g" "gr_wg g = size (pending g)"
    "gr_err g = None \<longleftrightarrow> (\<forall>f \<in># past. reported f = None)"
    "case gr_pool g of None \<Rightarrow> gr_busy g = [] \<and> gr_chs g = [] | Some (n, q) \<Rightarrow> 0 < n"
    using assms(2) unfolding group_ok_def by (elim exE conjE)
  show ?thesis
    using assms(1)
  proof cases
    case (ends xs f ys)
    then show ?thesis
      using p by (auto intro!: task_done_ok [where past = past] simp: pending_def queued_def split: option.splits)
  next
    case (worker_ends xs f ys)
    then show ?thesis
      using p by (auto intro!: task_done_ok [where past = past] simp: pending_def queued_def split: option.splits)
  next
    case (takes n f q)
    then show ?thesis
      using p by (auto simp: group_ok_def pending_def queued_def)
  next
    case (sends n q f fs)
    then show ?thesis
      using p by (auto simp: group_ok_def pending_def queued_def)
  qed
qed

text \<open>What is left to do, which every move lowers\<close>

definition todo :: "'e group \<Rightarrow> nat" where
  "todo g = length (gr_running g) + length (gr_busy g) + 2 * length (queued g) + 3 * length (gr_chs g)"

lemma step_todo: "group_step g g' \<Longrightarrow> todo g' < todo g"
  by (induction rule: group_step.induct) (auto simp: todo_def queued_def task_done_def Let_def split: option.splits)

lemma group_moves:
  assumes "group_ok all g" and "group_Wait g = Waits"
  shows "\<exists>g'. group_step g g'"
proof -
  have "pending g \<noteq> {#}"
    using assms by (auto simp: group_ok_def group_Wait_def pending_def split: if_splits)
  then consider "gr_running g \<noteq> []" | "gr_busy g \<noteq> []" | "gr_busy g = []" "queued g \<noteq> []"
      | "queued g = []" "gr_chs g \<noteq> []"
    by (auto simp: pending_def)
  then show ?thesis
  proof cases
    case 1
    then show ?thesis
      using ends [of g "[]"] by (auto simp: neq_Nil_conv)
  next
    case 2
    then show ?thesis
      using worker_ends [of g "[]"] by (auto simp: neq_Nil_conv)
  next
    case 3
    then obtain n f q where "gr_pool g = Some (n, f # q)" "0 < n"
      using assms(1) by (auto simp: group_ok_def queued_def neq_Nil_conv split: option.splits)
    then show ?thesis
      using takes [of g n f q] 3(1) by auto
  next
    case 4
    then obtain n where "gr_pool g = Some (n, [])" "0 < n"
      using assms(1) by (auto simp: group_ok_def queued_def split: option.splits)
    then show ?thesis
      using sends [of g n "[]"] 4(2) by (auto simp: neq_Nil_conv)
  qed
qed

lemma group_ok_new: "group_ok {#} (WithCancel\<lparr>gr_pool := map_option (\<lambda>n. (Suc n, [])) pool\<rparr>)"
  by (cases pool) (simp_all add: group_ok_def WithCancel_def WithContext_def pending_def queued_def)

lemma group_run_ok:
  assumes "group_step\<^sup>*\<^sup>* (submitted fs (WithCancel\<lparr>gr_pool := map_option (\<lambda>n. (Suc n, [])) pool\<rparr>)) g"
  shows "group_ok (mset fs) g"
proof -
  have "group_ok ({#} + mset fs) (submitted fs (WithCancel\<lparr>gr_pool := map_option (\<lambda>n. (Suc n, [])) pool\<rparr>))"
    by (rule group_ok_submitted [OF group_ok_new])
  with assms show ?thesis
    by (induction rule: rtranclp_induct) (auto intro: group_ok_step)
qed

lemma Wait_ok: "group_ok (mset fs) g \<Longrightarrow> group_Wait g = Ret r \<Longrightarrow>
    (r = None \<longleftrightarrow> (\<forall>f \<in> set fs. reported f = None)) \<and> pending g = {#}"
  by (auto simp: group_Wait_def group_ok_def split: if_splits)

text \<open>The four nil functions of \<open>core.Close\<close> panic, so it always ends with an error, which it only logs.\<close>

lemma core_close_fails: "group_step\<^sup>*\<^sup>* (core_Close closers) g \<Longrightarrow> group_Wait g = Ret r \<Longrightarrow> r \<noteq> None"
  using group_run_ok [of "core_tasks closers" None g] Wait_ok [of "core_tasks closers" g r]
  by (simp add: core_Close_def core_tasks_def WithCancel_def WithContext_def)

text \<open>C31: a task group ends and misses nothing. With and without workers, after any moves of the goroutines: as
  long as \<open>Wait\<close> waits some goroutine can move, and every move brings the end nearer; when it returns
  every task has run, and it returns nil exactly if none of them failed or panicked.\<close>

theorem task_group:
  assumes "group_step\<^sup>*\<^sup>* (submitted fs (WithCancel\<lparr>gr_pool := map_option (\<lambda>n. (Suc n, [])) pool\<rparr>)) g"
  shows "case group_Wait g of
      Ret r \<Rightarrow> (r = None \<longleftrightarrow> (\<forall>f \<in> set fs. reported f = None)) \<and> pending g = {#}
    | _ \<Rightarrow> (\<exists>g'. group_step g g') \<and> (\<forall>g'. group_step g g' \<longrightarrow> todo g' < todo g)"
proof -
  note ok = group_run_ok [OF assms]
  show ?thesis
  proof (cases "group_Wait g")
    case (Ret r)
    then show ?thesis
      using Wait_ok [OF ok] by simp
  next
    case Waits
    then show ?thesis
      using group_moves [OF ok] step_todo [of g] by auto
  qed (auto simp: group_Wait_def split: if_splits)
qed

theorem task_group_witness:
  "\<exists>g. group_step (submitted [Failed (7 :: nat)] WithCancel) g \<and> group_Wait g = Ret (Some (TaskErr 7)) \<and> pending g = {#}"
proof -
  let ?start = "submitted [Failed (7 :: nat)] (WithCancel\<lparr>gr_pool := map_option (\<lambda>n. (Suc n, [])) None\<rparr>)"
  let ?g = "task_done (Failed 7) (?start\<lparr>gr_running := [] @ []\<rparr>)"
  have g0: "?start = submitted [Failed 7] WithCancel"
    by (simp add: WithCancel_def WithContext_def)
  have s: "group_step ?start ?g"
    by (rule ends [of ?start "[]" "Failed 7" "[]"]) (simp add: submitted_def group_Go_def WithCancel_def WithContext_def)
  have w: "group_Wait ?g = Ret (Some (TaskErr 7))"
    by code_simp
  have "pending ?g = {#}"
    using task_group [OF r_into_rtranclp [of group_step, OF s]] w by simp
  with s w show ?thesis
    unfolding g0 by blast
qed

end
