(* ===== verification/Proxy.thy ===== *)
theory Proxy
  imports Serving
begin

text \<open>
  The command line of cli/brokerv2_run.go: the start of the broker, the websocket listeners, and the proxy that
  copies between a websocket and a TCP connection to the broker; the readers and writers with a deadline of
  util/timeout_io. The websocket library, the HTTP server, the signals and the profiler are not modelled; the
  copying loops are functions of the answers of the two connections.
\<close>

section \<open>The start\<close>

datatype ws_listener = Plain bytes | Secure bytes bytes bytes

definition AddWebsocketHandler :: "(bytes \<Rightarrow> 'u option) \<Rightarrow> bytes \<Rightarrow> 'u option" where
  "AddWebsocketHandler parse uri = parse uri"

definition wsRun :: "(bytes \<Rightarrow> 'u option) \<Rightarrow> bytes \<Rightarrow> bytes \<Rightarrow> bytes \<Rightarrow> bytes \<Rightarrow> bytes \<Rightarrow> bytes \<Rightarrow> ws_listener list option" where
  "wsRun parse wsPath wsAddr wssAddr mqttAddr wssCertPath wssKeyPath =
     (if wsPath \<noteq> [] \<and> (wsAddr \<noteq> [] \<or> wssAddr \<noteq> [])
      then (case AddWebsocketHandler parse mqttAddr of
          None \<Rightarrow> None
        | Some u \<Rightarrow> Some ((if wsAddr \<noteq> [] then [Plain wsAddr] else [])
            @ (if wssAddr \<noteq> [] \<and> wssCertPath \<noteq> [] \<and> wssKeyPath \<noteq> [] then [Secure wssAddr wssCertPath wssKeyPath] else [])))
      else Some [])"

text \<open>The websocket listeners start before the broker's own. An error of either is a panic of \<open>Start\<close>;
  a URI that does not parse panics already in \<open>NewServer\<close>.\<close>

definition Start :: "(bytes \<Rightarrow> 'u option) \<Rightarrow> timeouts \<Rightarrow> bytes \<Rightarrow> ws_listener list option \<Rightarrow> bool \<Rightarrow> 'c accepted list
    \<Rightarrow> ws_listener list \<times> 'c list \<times> unit outcome" where
  "Start parse cf mqttAddr ws listens as =
     (case NewServer parse cf mqttAddr of
        Ret svr \<Rightarrow>
          (case ws of
             None \<Rightarrow> ([], [], Panicked)
           | Some wl \<Rightarrow>
               (case ListenAndServe listens as svr of
                  (svr, cs, Ret None) \<Rightarrow> (wl, cs, Ret ())
                | (svr, cs, Ret (Some e)) \<Rightarrow> (wl, cs, Panicked)
                | (svr, cs, Waits) \<Rightarrow> (wl, cs, Waits)
                | (svr, cs, Locked) \<Rightarrow> (wl, cs, Locked)
                | (svr, cs, Panicked) \<Rightarrow> (wl, cs, Panicked)
                | (svr, cs, Loops) \<Rightarrow> (wl, cs, Loops)))
      | _ \<Rightarrow> ([], [], Panicked))"

lemma wsRun_same_uri:
  assumes "parse mqttAddr \<noteq> None"
  shows "wsRun parse wsPath wsAddr wssAddr mqttAddr cert key \<noteq> None"
  using assms by (auto simp: wsRun_def AddWebsocketHandler_def)

text \<open>A listener that fails to open stops the program, although the websockets listen already.\<close>

lemma Start_no_listener:
  assumes "parse mqttAddr = Some u"
  shows "Start parse cf mqttAddr (Some wl) False as = (wl, [], Panicked)"
  using assms by (simp add: Start_def NewServer_def ListenAndServe_def listen_enter_def checkAndInitConfig_def Let_def stop_running_def)

section \<open>Copying\<close>

text \<open>A round of each loop is what the source answers and what the destination answers. When the rounds are
  used up the loop waits.\<close>

fun ioWsCopy :: "((bytes \<times> 'e option) \<times> 'e option) list \<Rightarrow> int \<Rightarrow> bytes list \<times> (int \<times> 'e option) outcome" where
  "ioWsCopy [] cnt = ([], Waits)"
| "ioWsCopy (((b, err), serr) # rs) cnt =
     (if err \<noteq> None \<or> length b < 1 then ([], Ret (cnt, err))
      else (case serr of
          Some e \<Rightarrow> ([], Ret (cnt + int (length b), Some e))
        | None \<Rightarrow> (case ioWsCopy rs (cnt + int (length b)) of (out, r) \<Rightarrow> (b # out, r))))"

fun ioCopyWs :: "((bytes \<times> 'e option) \<times> nat \<times> 'e option) list \<Rightarrow> int \<Rightarrow> bytes \<times> (int \<times> 'e option) outcome" where
  "ioCopyWs [] cnt = ([], Waits)"
| "ioCopyWs (((b, err), i, werr) # rs) cnt =
     (if err \<noteq> None then ([], Ret (cnt, err))
      else if werr \<noteq> None \<or> i < 1 then (take i b, Ret (cnt + int (length b), werr))
      else (case ioCopyWs rs (cnt + int (length b)) of (out, r) \<Rightarrow> (take i b @ out, r)))"

text \<open>As long as nothing fails and no frame is empty, both directions forward every byte in order.\<close>

lemma ioWsCopy_forwards:
  assumes "list_all (\<lambda>((b, e), s). b \<noteq> [] \<and> e = None \<and> s = None) rs"
  shows "ioWsCopy (rs @ qs) cnt
    = (case ioWsCopy qs (cnt + int (length (concat (map (\<lambda>x. fst (fst x)) rs)))) of (out, r) \<Rightarrow> (map (\<lambda>x. fst (fst x)) rs @ out, r))"
  using assms
proof (induction rs arbitrary: cnt)
  case (Cons x rs)
  then obtain b where x: "x = ((b, None), None)" "b \<noteq> []"
    by (auto split: prod.splits)
  have "ioWsCopy (rs @ qs) (cnt + int (length b))
    = (case ioWsCopy qs (cnt + int (length b) + int (length (concat (map (\<lambda>x. fst (fst x)) rs)))) of (out, r) \<Rightarrow> (map (\<lambda>x. fst (fst x)) rs @ out, r))"
    by (rule Cons.IH) (use Cons.prems in simp)
  then show ?case
    using x by (auto simp: algebra_simps Suc_le_eq split: prod.splits)
qed simp

lemma ioCopyWs_forwards:
  assumes "list_all (\<lambda>((b, e), i, w). b \<noteq> [] \<and> e = None \<and> i = length b \<and> w = None) rs"
  shows "ioCopyWs (rs @ qs) cnt
    = (case ioCopyWs qs (cnt + int (length (concat (map (\<lambda>x. fst (fst x)) rs)))) of (out, r) \<Rightarrow> (concat (map (\<lambda>x. fst (fst x)) rs) @ out, r))"
  using assms
proof (induction rs arbitrary: cnt)
  case (Cons x rs)
  then obtain b where x: "x = ((b, None), length b, None)" "b \<noteq> []"
    by (auto split: prod.splits)
  have "ioCopyWs (rs @ qs) (cnt + int (length b))
    = (case ioCopyWs qs (cnt + int (length b) + int (length (concat (map (\<lambda>x. fst (fst x)) rs)))) of (out, r) \<Rightarrow> (concat (map (\<lambda>x. fst (fst x)) rs) @ out, r))"
    by (rule Cons.IH) (use Cons.prems in simp)
  then show ?case
    using x by (auto simp: algebra_simps Suc_le_eq split: prod.splits)
qed simp

text \<open>An empty frame of the websocket ends its direction without an error, since a write of no bytes returns
  zero; the frames behind it are not forwarded.\<close>

lemma empty_frame_ends:
  assumes "list_all (\<lambda>((b, e), i, w). b \<noteq> [] \<and> e = None \<and> i = length b \<and> w = None) rs"
  shows "ioCopyWs (rs @ (([], None), 0, None) # qs) 0
    = (concat (map (\<lambda>x. fst (fst x)) rs), Ret (int (length (concat (map (\<lambda>x. fst (fst x)) rs))), None))"
  using ioCopyWs_forwards [OF assms] by simp

section \<open>The proxy\<close>

text \<open>Two goroutines copy and then send on a channel that the handler reads once.\<close>

datatype copier = Copying | Sending | Gone

record proxy =
  p_up :: copier
  p_down :: copier
  p_returned :: bool
  p_client :: bool
  p_ws :: bool

definition WebsocketTcpProxy :: "bool \<Rightarrow> proxy option" where
  "WebsocketTcpProxy dials =
     (if dials then Some \<lparr>p_up = Copying, p_down = Copying, p_returned = False, p_client = True, p_ws = True\<rparr> else None)"

definition proxy_returns :: "proxy \<Rightarrow> proxy" where
  "proxy_returns p = p\<lparr>p_returned := True, p_client := False, p_ws := False\<rparr>"

inductive proxy_step :: "proxy \<Rightarrow> proxy \<Rightarrow> bool" where
  up_copied: "p_up p = Copying \<Longrightarrow> proxy_step p (p\<lparr>p_up := Sending\<rparr>)"
| down_copied: "p_down p = Copying \<Longrightarrow> proxy_step p (p\<lparr>p_down := Sending\<rparr>)"
| up_sent: "p_up p = Sending \<Longrightarrow> \<not> p_returned p \<Longrightarrow> proxy_step p (proxy_returns (p\<lparr>p_up := Gone\<rparr>))"
| down_sent: "p_down p = Sending \<Longrightarrow> \<not> p_returned p \<Longrightarrow> proxy_step p (proxy_returns (p\<lparr>p_down := Gone\<rparr>))"

inductive_cases proxy_stepE: "proxy_step p p'"

definition proxy_inv :: "proxy \<Rightarrow> bool" where
  "proxy_inv p \<longleftrightarrow> (p_returned p \<longleftrightarrow> p_up p = Gone \<or> p_down p = Gone) \<and> \<not> (p_up p = Gone \<and> p_down p = Gone)
     \<and> (p_client p \<longleftrightarrow> \<not> p_returned p) \<and> (p_ws p \<longleftrightarrow> \<not> p_returned p)"

lemma proxy_step_inv: "proxy_step p p' \<Longrightarrow> proxy_inv p \<Longrightarrow> proxy_inv p'"
  by (erule proxy_stepE) (auto simp: proxy_inv_def proxy_returns_def)

lemma proxy_reach_inv:
  assumes "proxy_step\<^sup>*\<^sup>* p p'" and "proxy_inv p"
  shows "proxy_inv p'"
  using assms by (induction rule: rtranclp_induct) (auto intro: proxy_step_inv)

lemma proxy_start_inv: "WebsocketTcpProxy dials = Some p \<Longrightarrow> proxy_inv p"
  by (auto simp: WebsocketTcpProxy_def proxy_inv_def split: if_splits)

text \<open>A copier that finds the handler gone stays at its send.\<close>

lemma sending_stays:
  assumes "proxy_step p p'" and "p_returned p"
  shows "p_returned p' \<and> (p_up p = Sending \<longrightarrow> p_up p' = Sending) \<and> (p_down p = Sending \<longrightarrow> p_down p' = Sending)"
  using assms by (elim proxy_stepE) (auto simp: proxy_returns_def)

text \<open>C33: every websocket connection leaks a goroutine. From the start of the proxy, no sequence of steps ends
  both copiers: where no step is left, the handler has returned, both connections are closed, one copier is gone,
  and the other is blocked for ever on its send to the channel, which nobody reads a second time.\<close>

theorem proxy_leaks:
  assumes "WebsocketTcpProxy True = Some p" and "proxy_step\<^sup>*\<^sup>* p p'" and "\<nexists>q. proxy_step p' q"
  shows "p_returned p' \<and> \<not> p_client p' \<and> \<not> p_ws p' \<and> {p_up p', p_down p'} = {Gone, Sending}"
proof -
  have i: "proxy_inv p'"
    using proxy_reach_inv [OF assms(2) proxy_start_inv [OF assms(1)]] .
  have "p_up p' \<noteq> Copying" "p_down p' \<noteq> Copying" "p_up p' = Sending \<Longrightarrow> p_returned p'" "p_down p' = Sending \<Longrightarrow> p_returned p'"
    using assms(3) by (auto intro: proxy_step.intros)
  then show ?thesis
    using i by (cases "p_up p'"; cases "p_down p'") (auto simp: proxy_inv_def)
qed

theorem proxy_leaks_witness:
  "\<exists>p p'. WebsocketTcpProxy True = Some p \<and> proxy_step\<^sup>*\<^sup>* p p' \<and> {p_up p', p_down p'} = {Gone, Sending}"
proof -
  let ?p = "\<lparr>p_up = Copying, p_down = Copying, p_returned = False, p_client = True, p_ws = True\<rparr>"
  let ?r = "\<lparr>p_up = Gone, p_down = Sending, p_returned = True, p_client = False, p_ws = False\<rparr>"
  have s: "WebsocketTcpProxy True = Some ?p"
    by (simp add: WebsocketTcpProxy_def)
  have s1: "proxy_step ?p (?p\<lparr>p_up := Sending\<rparr>)"
    by (rule up_copied) simp
  have s2: "proxy_step (?p\<lparr>p_up := Sending\<rparr>) (?r\<lparr>p_down := Copying\<rparr>)"
    using up_sent [of "?p\<lparr>p_up := Sending\<rparr>"] by (simp add: proxy_returns_def)
  have s3: "proxy_step (?r\<lparr>p_down := Copying\<rparr>) ?r"
    using down_copied [of "?r\<lparr>p_down := Copying\<rparr>"] by simp
  have r: "proxy_step\<^sup>*\<^sup>* ?p ?r"
    by (rule converse_rtranclp_into_rtranclp, rule s1, rule converse_rtranclp_into_rtranclp, rule s2)
      (rule r_into_rtranclp, rule s3)
  have "\<nexists>q. proxy_step ?r q"
    by (clarify, erule proxy_stepE) simp_all
  from proxy_leaks [OF s r this] s r show ?thesis
    by blast
qed

section \<open>Deadlines\<close>

text \<open>The deadline is set before the operation; if that fails the operation is not tried.\<close>

definition deadline_Read :: "'e option \<Rightarrow> bytes \<times> 'e option \<Rightarrow> bytes \<times> 'e option" where
  "deadline_Read serr ans = (case serr of Some e \<Rightarrow> ([], Some e) | None \<Rightarrow> ans)"

definition deadline_Write :: "'e option \<Rightarrow> nat \<times> 'e option \<Rightarrow> nat \<times> 'e option" where
  "deadline_Write serr ans = (case serr of Some e \<Rightarrow> (0, Some e) | None \<Rightarrow> ans)"

end
