(* ===== verification/SessionProps.thy ===== *)
theory SessionProps
  imports BrokerProps
begin

text \<open>
  The choice of the session of a connection: what a connection with and without a clean start finds
  and leaves behind in the session manager.
\<close>

section \<open>The session of a connection\<close>

lemma mgr_op_Ret: "mgr_op f w = (w', Ret x) \<longleftrightarrow> (\<exists>p. f (w_mgr w) = Some (p, x) \<and> w' = w\<lparr>w_mgr := p\<rparr>)"
  by (auto simp: mgr_op_def split: option.splits)

lemma bindw_Ret: "bindw f k w = (w', Ret y) \<longleftrightarrow> (\<exists>x w1. f w = (w1, Ret x) \<and> k x w1 = (w', Ret y))"
  unfolding bindw_def by (cases "f w"; cases "snd (f w)") auto

lemma ret_Ret: "ret x w = (w', Ret y) \<longleftrightarrow> x = y \<and> w' = w"
  by (auto simp: ret_def)

lemma mod_svc_mgr: "w_mgr (fst (mod_svc i f w)) = w_mgr w \<and> w_jobs (fst (mod_svc i f w)) = w_jobs w
    \<and> w_tasks (fst (mod_svc i f w)) = w_tasks w \<and> w_topics (fst (mod_svc i f w)) = w_topics w"
  by (simp add: mod_svc_def bindw_def get_svc_def put_svc_def split: option.split)

lemma delay_Cancel_mgr: "w_mgr (fst (delay_Cancel c w)) = w_mgr w" "w_topics (fst (delay_Cancel c w)) = w_topics w"
  by (simp_all add: GetJob_def delay_Cancel_def mod_svc_mgr job_Remove_def split: option.split)

lemma delay_Cancel_idle:
  "snd (delay_Cancel c w) = Ret x \<Longrightarrow> Option.bind (w_jobs (fst (delay_Cancel c w)) c) (map_of (w_tasks (fst (delay_Cancel c w)))) = None"
  by (auto simp: GetJob_def delay_Cancel_def mod_svc_mgr job_Remove_def bind_eq_None_conv split: option.splits)


lemma BuildSess_Inr:
  assumes "BuildSess m p = Some (p', Inr r, m')"
  shows "\<exists>s. r = m_next p \<and> cMsg s = m' \<and> p' = p\<lparr>m_heap := (m_heap p)(r \<mapsto> s), m_next := m_next p + 1\<rparr>"
proof -
  obtain s where n: "NewMemSession m [] = Some (Inr s, m')" and a: "alloc s p = (r, p')"
    using assms by (auto simp: BuildSess_def split: option.splits prod.splits sum.splits)
  from n have "cMsg s = m'"
    by (auto simp: NewMemSession_def split: option.splits prod.splits sum.splits)
  then show ?thesis
    using a by (auto simp: alloc_def)
qed

lemma getSession_clean:
  assumes "CleanStart req" and "connect.clientId req \<noteq> []"
    and "getSession ev i req resp w = (w', Ret (Inr (Some r, req', resp')))" and "CleanSession req'"
  shows "\<exists>s. r = m_next (w_mgr w) \<and> w' = fst (delay_Cancel (connect.clientId req) (w\<lparr>w_mgr := (w_mgr w)\<lparr>
      m_heap := (m_heap (w_mgr w))(m_next (w_mgr w) \<mapsto> s), m_next := m_next (w_mgr w) + 1,
      m_local := Del (connect.clientId req') (m_local (w_mgr w))\<rparr>\<rparr>))
    \<and> Option.bind (w_jobs w' (connect.clientId req)) (map_of (w_tasks w')) = None"
proof -
  have c: "with_clientId i req = req"
    using assms(2) by (simp add: with_clientId_def)
  have "bindw (clean_session req) (\<lambda>(r, req). bindw (delay_Cancel (connect.clientId req0)) (\<lambda>_. ret (Inr (Some r, req, resp) :: goerr + _))) w
      = (w', Ret (Inr (Some r, req', resp')))" if "req0 = req" for req0
    using assms(1,3) that unfolding getSession_def c Let_def bindw_def ret_def
    by (cases "clean_session req w"; cases "snd (clean_session req w)") (auto split: prod.splits)
  then obtain w1 where cl: "clean_session req w = (w1, Ret (r, req'))" and d: "delay_Cancel (connect.clientId req) w1 = (w', Ret ())"
    by (auto simp: bindw_Ret ret_Ret)
  from cl obtain p1 p2 where b: "BuildSess req (w_mgr w) = Some (p1, Inr r, req')" and p2: "Remove r p1 = Some p2"
    and w1: "w1 = w\<lparr>w_mgr := p2\<rparr>"
    unfolding clean_session_def bindw_Ret
  proof (elim exE conjE, goal_cases)
    case (1 x w2)
    then show ?case
      by (cases x; cases "fst x") (auto simp: mgr_op_Ret mgr_Remove_def bindw_Ret ret_Ret crash_def)
  qed
  note d = d [unfolded w1]
  obtain s where s: "r = m_next (w_mgr w)" "cMsg s = req'"
    "p1 = (w_mgr w)\<lparr>m_heap := (m_heap (w_mgr w))(r \<mapsto> s), m_next := m_next (w_mgr w) + 1\<rparr>"
    using BuildSess_Inr [OF b] by blast
  have "p2 = p1\<lparr>m_local := Del (connect.clientId req') (m_local p1)\<rparr>"
    using p2 s assms(4) by (simp add: Remove_def CMsg_def session_ClientId_def)
  then have "w\<lparr>w_mgr := p2\<rparr> = w\<lparr>w_mgr := (w_mgr w)\<lparr>
      m_heap := (m_heap (w_mgr w))(m_next (w_mgr w) \<mapsto> s), m_next := m_next (w_mgr w) + 1,
      m_local := Del (connect.clientId req') (m_local (w_mgr w))\<rparr>\<rparr>"
    using s by simp
  then show ?thesis
    using d delay_Cancel_idle [of "connect.clientId req" "w\<lparr>w_mgr := p2\<rparr>" "()"]
    by (intro exI [of _ s] conjI) (rule s(1), metis fst_conv, metis fst_conv snd_conv)
qed

text \<open>Where a stored session is found and has not expired, it is the session of the connection.\<close>

lemma getSession_resumes:
  assumes "\<not> CleanStart req" and "connect.clientId req = c" and "c \<noteq> []"
    and "sm_wf (m_local (w_mgr w))" and "sm_abs (m_local (w_mgr w)) c = None"
    and "GetSession c (m_store (w_mgr w)) = Some r" and "m_heap (w_mgr w) r = Some s" and "\<not> expired (now ev) s"
    and "Option.bind (w_jobs w c) (map_of (w_tasks w)) = None"
  shows "snd (getSession ev i req resp w) = Ret (Inr (Some r, req, resp))"
proof -
  have c: "with_clientId i req = req"
    using assms(2,3) by (simp add: with_clientId_def)
  obtain l where l: "GetDel c (m_local (w_mgr w)) = (l, None)"
    using sm_del_ok(3) [OF assms(4), of c] assms(5) by (cases "sm_del c (m_local (w_mgr w))") (simp add: GetDel_def)
  have "GetOrCreate c None (w_mgr w) = Some ((w_mgr w)\<lparr>m_local := l\<rparr>, Inr (Some r, True), None)"
    by (simp add: GetOrCreate_def l assms(6))
  then show ?thesis
    unfolding getSession_def c Let_def assms(2)
    using assms(1,7,8,9)
    by (simp add: bindw_def ret_def old_session_def mgr_GetOrCreate_def mgr_op_def GetJob_def delay_Cancel_def)
qed

text \<open>The CONNECT messages of the example, and what \<open>NewMemSession\<close> makes of them\<close>

definition visit :: "bool \<Rightarrow> connect" where
  "visit clean = Connect.SetSessionExpiryInterval 100 (SetCleanSession clean
     (fst (Connect.SetClientId [0x63, 0x31] (fst (Connect.SetVersion 5 NewConnectMessage)))))"

definition recoded_visit :: "bool \<Rightarrow> bool" where
  "recoded_visit clean = (case recode (visit clean) of
     Some (None, _, m) \<Rightarrow> CleanSession m = clean \<and> \<not> WillFlag m \<and> connect.clientId m = [0x63, 0x31]
       \<and> connect.sessionExpiryInterval m = 100
   | _ \<Rightarrow> False)"

lemma visit_recoded_clean: "recoded_visit True"
  by code_simp

lemma visit_recoded_kept: "recoded_visit False"
  by code_simp

lemma new_queues_made: "\<exists>q1 q2 q3 q4 q5 q6. new_queues = Some (q1, q2, q3, q4, q5, q6)"
proof -
  have q: "newAckqueue n \<noteq> None" if "powerOfTwo64 n" "\<not> sint n < 0" for n
    using that by (simp add: newAckqueue_def newMemAckQueue_def)
  have "powerOfTwo64 (push_bit 1 defaultQueueSize) \<and> \<not> sint (push_bit 1 defaultQueueSize) < 0"
    "powerOfTwo64 (drop_bit 2 defaultQueueSize) \<and> \<not> sint (drop_bit 2 defaultQueueSize) < 0"
    "powerOfTwo64 (drop_bit 3 defaultQueueSize) \<and> \<not> sint (drop_bit 3 defaultQueueSize) < 0"
    by code_simp+
  then have "(newAckqueue (push_bit 1 defaultQueueSize) :: queue option) \<noteq> None"
    "(newAckqueue (drop_bit 2 defaultQueueSize) :: queue option) \<noteq> None"
    "(newAckqueue (drop_bit 3 defaultQueueSize) :: queue option) \<noteq> None"
    using q by blast+
  then show ?thesis
    by (auto simp: new_queues_def)
qed

lemma visit_session:
  "\<exists>s m. NewMemSession (visit b) [] = Some (Inr s, m) \<and> cMsg s = m \<and> CleanSession m = b
    \<and> connect.clientId m = [0x63, 0x31] \<and> connect.sessionExpiryInterval m = 100 \<and> offlineTime s = 0"
proof -
  have "recoded_visit b"
    using visit_recoded_clean visit_recoded_kept by (cases b) auto
  then obtain bs m where m: "recode (visit b) = Some (None, bs, m)" and f: "CleanSession m = b" "\<not> WillFlag m"
    "connect.clientId m = [0x63, 0x31]" "connect.sessionExpiryInterval m = 100"
    by (auto simp: recoded_visit_def split: option.splits prod.splits)
  obtain q1 q2 q3 q4 q5 q6 where q: "new_queues = Some (q1, q2, q3, q4, q5, q6)"
    using new_queues_made by blast
  have w: "new_will m = Inr None"
    using f by (simp add: new_will_def)
  show ?thesis
    unfolding NewMemSession_def m w option.case prod.case sum.case q using f by simp
qed


text \<open>C21: a clean start discards nothing. When a client for which a session is stored connects with its
  identifier and a clean start, \<open>getSession\<close> gives the connection a session of its own and leaves
  everything that belongs to the stored one as it was: the whole session store, with the client's subscriptions,
  messages in flight and offline messages; the session object, with its queues and topics; and the subscriptions in
  the topic trees. For it removes by the session it has just built, which is only in the local map. A connection of
  the client without a clean start that comes next, before the stored session expires, is given that session; what the
  service of the first connection does between the two is not part of the statement.\<close>

theorem clean_start_keeps_session:
  assumes "CleanStart req" and "connect.clientId req = c" and "c \<noteq> []"
    and "getSession ev i req resp w = (w', Ret (Inr (Some r, req', resp')))"
    and "CleanSession req'" and "connect.clientId req' = c"
    and "GetSession c (m_store (w_mgr w)) = Some old" and "m_heap (w_mgr w) old = Some s" and "old < m_next (w_mgr w)"
    and "sm_wf (m_local (w_mgr w))"
    and "\<not> CleanStart again" and "connect.clientId again = c" and "\<not> expired (now ev') s"
  shows "r \<noteq> old \<and> m_store (w_mgr w') = m_store (w_mgr w) \<and> m_heap (w_mgr w') old = Some s \<and> w_topics w' = w_topics w
    \<and> snd (getSession ev' i' again resp2 w') = Ret (Inr (Some old, again, resp2))"
proof -
  obtain s' where r: "r = m_next (w_mgr w)" and w': "w' = fst (delay_Cancel c (w\<lparr>w_mgr := (w_mgr w)\<lparr>
      m_heap := (m_heap (w_mgr w))(m_next (w_mgr w) \<mapsto> s'), m_next := m_next (w_mgr w) + 1,
      m_local := Del c (m_local (w_mgr w))\<rparr>\<rparr>))" and idle: "Option.bind (w_jobs w' c) (map_of (w_tasks w')) = None"
    using getSession_clean [OF assms(1) _ assms(4,5)] assms(2,3,6) by auto
  have m: "w_mgr w' = (w_mgr w)\<lparr>m_heap := (m_heap (w_mgr w))(m_next (w_mgr w) \<mapsto> s'), m_next := m_next (w_mgr w) + 1,
      m_local := Del c (m_local (w_mgr w))\<rparr>"
    by (simp add: w' delay_Cancel_mgr)
  have "snd (getSession ev' i' again resp2 w') = Ret (Inr (Some old, again, resp2))"
    using Del_ok [OF assms(10), of c] assms(7-9,13)
    by (intro getSession_resumes [OF assms(11,12,3) _ _ _ _ _ idle]) (simp_all add: m)
  moreover have "w_topics w' = w_topics w"
    by (simp add: w' delay_Cancel_mgr)
  ultimately show ?thesis
    using assms(8,9) r by (simp add: m)
qed


theorem clean_start_keeps_session_witness:
  "\<exists>w w' s again. CleanStart (visit True) \<and> \<not> CleanStart again
    \<and> w' = fst (getSession small_env 1 (visit True) NewConnackMessage w)
    \<and> m_heap (w_mgr w) 0 = Some s \<and> m_heap (w_mgr w') 0 = Some s \<and> GetSession [0x63, 0x31] (m_store (w_mgr w)) = Some 0
    \<and> snd (getSession small_env 2 again NewConnackMessage w') = Ret (Inr (Some 0, again, NewConnackMessage))"
proof -
  let ?c = "[0x63, 0x31] :: bytes"
  obtain s m where "NewMemSession (visit False) [] = Some (Inr s, m)" and s: "cMsg s = m"
    "connect.sessionExpiryInterval m = 100" "offlineTime s = 0"
    using visit_session by blast
  obtain s1 m1 where n: "NewMemSession (visit True) [] = Some (Inr s1, m1)" and s1: "cMsg s1 = m1"
    "CleanSession m1 = True" "connect.clientId m1 = ?c"
    using visit_session by blast
  let ?p = "(NewMemManager (StoreSession ?c 0 NewMemSessStore))\<lparr>m_heap := [0 \<mapsto> s], m_next := 1\<rparr>"
  let ?w = "new_world\<lparr>w_mgr := ?p\<rparr> :: unit world"
  have v: "CleanStart (visit True)" "\<not> CleanStart (visit False)" "connect.clientId (visit b) = ?c" for b
    by (cases b; code_simp)+
  have "CleanSession (CMsg s1)" "session_ClientId s1 = ?c"
    using s1 by (simp_all add: CMsg_def session_ClientId_def)
  then have "\<exists>w'. getSession small_env 1 (visit True) NewConnackMessage ?w = (w', Ret (Inr (Some 1, m1, NewConnackMessage)))"
    using v by (simp add: getSession_def with_clientId_def Let_def clean_session_def bindw_def mgr_op_def BuildSess_def n
        alloc_def ret_def mgr_Remove_def Remove_def GetJob_def delay_Cancel_def new_world_def)
  then obtain w' where g: "getSession small_env 1 (visit True) NewConnackMessage ?w = (w', Ret (Inr (Some 1, m1, NewConnackMessage)))"
    by blast
  have "Get ?c (Set ?c (0 :: nat) NewSafeMap) = Some 0"
    by code_simp
  then have "GetSession ?c (m_store (w_mgr ?w)) = Some 0"
    by (simp add: GetSession_def StoreSession_def NewMemManager_def NewMemSessStore_def)
  moreover have "\<not> expired (now small_env) s"
    using s by (simp add: expired_def small_env_def SessExpiryInterval_def OfflineTime_def)
  moreover have "sm_wf (m_local (w_mgr ?w))"
    by (simp add: NewMemManager_def NewSafeMap_ok)
  ultimately have "(1 :: nat) \<noteq> 0 \<and> m_store (w_mgr w') = m_store (w_mgr ?w) \<and> m_heap (w_mgr w') 0 = Some s \<and> w_topics w' = w_topics ?w
      \<and> snd (getSession small_env 2 (visit False) NewConnackMessage w') = Ret (Inr (Some 0, visit False, NewConnackMessage))"
    using s1 v by (intro clean_start_keeps_session [OF v(1) v(3) _ g, of 0 s]) simp_all
  then show ?thesis
    using v(1,2) g \<open>GetSession ?c (m_store (w_mgr ?w)) = Some 0\<close>
    by (intro exI [of _ ?w] exI [of _ w'] exI [of _ s] exI [of _ "visit False"]) simp
qed

end
