(* ===== verification/Delivery.thy ===== *)
theory Delivery
  imports SessionProps
begin

text \<open>
  A message on its way through the broker: from the handler of the publisher's packet to the output
  rings of the subscribers.
\<close>

section \<open>The ring a message is written to\<close>

definition open_ring :: "buffer \<Rightarrow> bool" where
  "open_ring b \<longleftrightarrow> ring_ok b \<and> \<not> isDone b \<and> \<not> pheld b \<and> \<not> cheld b"

definition same_ring :: "buffer \<Rightarrow> buffer \<Rightarrow> bool" where
  "same_ring b b' \<longleftrightarrow> rsize b' = rsize b \<and> rdone b' = rdone b \<and> pheld b' = pheld b \<and> cheld b' = cheld b"

lemma same_ring_trans: "same_ring b b' \<Longrightarrow> same_ring b' b'' \<Longrightarrow> same_ring b b''"
  by (simp add: same_ring_def)

lemma waitForWriteSpace_same: "waitForWriteSpace n b = (b', Ret (Inr x)) \<Longrightarrow> same_ring b b'"
  by (auto simp: waitForWriteSpace_def waitWrite_loop_def same_ring_def set_gate_def Let_def split: if_splits)

lemma Write_same: "Write p b = (b', Ret (Inr n)) \<Longrightarrow> same_ring b b'"
proof -
  assume "Write p b = (b', Ret (Inr n))"
  then obtain b0 start cnt where w: "waitForWriteSpace (int (length p)) b = (b0, Ret (Inr (start, cnt)))"
    and k: "(case ringCopy (buf b0) p (nat (start AND rmask b0)) of None \<Rightarrow> (b0, Loops)
      | Some (dst, tot) \<Rightarrow> signal_c (Inr (int tot)) (set_ppos (start + int (length p)) (b0\<lparr>buf := dst\<rparr>)))
      = (b', Ret (Inr n :: buferr + int))"
    by (auto simp: Write_def Write_from_def bindr_Inr_iff split: if_splits)
  show "same_ring b b'"
    using waitForWriteSpace_same [OF w] k
    by (cases "ringCopy (buf b0) p (nat (start AND rmask b0))")
      (auto simp: signal_c_def same_ring_def set_ppos_def split: if_splits)
qed

lemma WriteCommit_same: "WriteCommit m b = (b', Ret (Inr n)) \<Longrightarrow> same_ring b b'"
  by (auto simp: WriteCommit_def WriteCommit_from_def bindr_Inr_iff signal_c_def set_ppos_def same_ring_def
      split: if_splits dest!: waitForWriteSpace_same)

lemma count_out_Ret:
  "count_out g m k x = (g', m', k', Ret (Inr n)) \<Longrightarrow> \<exists>b. x = (b, Ret (Inr n)) \<and> g_out g' = b \<and> connMsg g' = connMsg g"
  by (cases "(g, m, k, x)" rule: count_out.cases) auto

lemma writeMessage_same:
  assumes "writeMessage m k g = (g', m', k', Ret (Inr n))"
  shows "same_ring (g_out g) (g_out g')"
proof -
  obtain l m1 where l: "msg_Len (delRequestRespInfo g m) = Some (l, m1)"
    using assms by (auto simp: writeMessage_def split: option.splits)
  obtain b0 lo hi wrap where w: "WriteWait_from waitForWriteSpace (int l) (g_out g) = (b0, Ret (Inr ((lo, hi), wrap)))"
    using assms l by (auto simp: writeMessage_def writeMessage_from_def split: outcome.splits sum.splits prod.splits)
  have s: "same_ring (g_out g) b0"
    using w by (auto simp: WriteWait_from_def bindr_Inr_iff Let_def split: if_splits dest: waitForWriteSpace_same)
  have "same_ring b0 (g_out g')"
  proof (cases wrap)
    case True
    then have "write_wrapped l m1 k (g\<lparr>g_out := b0\<rparr>) = (g', m', k', Ret (Inr n))"
      using assms l w by (simp add: writeMessage_def writeMessage_from_def)
    then show ?thesis
      by (auto simp: write_wrapped_def Let_def split: out.splits prod.splits dest!: count_out_Ret Write_same)
  next
    case False
    then have "write_direct lo hi m1 k (g\<lparr>g_out := b0\<rparr>) = (g', m', k', Ret (Inr n))"
      using assms l w by (simp add: writeMessage_def writeMessage_from_def)
    then show ?thesis
      by (auto simp: write_direct_def Let_def same_ring_def split: out.splits prod.splits
          dest!: count_out_Ret WriteCommit_same)
  qed
  then show ?thesis
    using s same_ring_trans by blast
qed

lemma writeMessage_open:
  assumes "open_ring (g_out g)" and "int (length (contents (g_out g)) + length bs) \<le> rsize (g_out g)"
    and "msg_Len (delRequestRespInfo g m) = Some (length bs, m1)" and "encodes m1 bs"
  shows "\<exists>g' m' k' n. writeMessage m k g = (g', m', k', Ret (Inr n)) \<and> open_ring (g_out g')
    \<and> contents (g_out g') = contents (g_out g) @ bs \<and> rsize (g_out g') = rsize (g_out g)"
proof -
  obtain g' m' k' where w: "writeMessage m k g = (g', m', k', Ret (Inr (int (length bs))))"
      "ring_ok (g_out g')" "contents (g_out g') = contents (g_out g) @ bs"
    using writeMessage_appends [OF _ _ _ _ assms(2-4), of k] assms(1) unfolding open_ring_def by blast
  then show ?thesis
    using writeMessage_same [OF w(1)] assms(1)
    by (auto simp: same_ring_def open_ring_def isDone_def)
qed

lemma publish_written:
  assumes "publish_ok m" and "dirty m"
  shows "msg_Len (delRequestRespInfo g (MPublish m)) = Some (length (publish_bytes m), MPublish (built m))"
    and "encodes (MPublish (built m)) (publish_bytes m)"
  using assms publish_built_again [OF assms(1)] publish_encodes [of "built m"]
  by (simp_all add: delRequestRespInfo_publish len_as_def)

section \<open>The copy for a subscriber\<close>

text \<open>The copy of a message as it came from the wire, and what is sent to a subscriber\<close>

definition copy_for :: "sub \<Rightarrow> publish \<Rightarrow> publish" where
  "copy_for sb p = fst (SetQoS (Qos sb) (decoded (publish_bytes p) p))"

definition forward :: "sub \<Rightarrow> publish \<Rightarrow> publish" where
  "forward sb p =
     (let m = copy_for sb p;
          m = (if RetainAsPublished sb then m else SetRetain False m)
      in if SubIdentifier sb > 0 then SetSubscriptionIdentifier (SubIdentifier sb) m else m)"

lemma forward_same: "topic (forward sb p) = topic p" "payload (forward sb p) = payload p"
  by (simp_all add: forward_def copy_for_def SetQoS_def decoded_def SetRetain_def SetSubscriptionIdentifier_def Let_def)

lemma recopy_wire:
  assumes "publish_ok p" and "payload_plain p" and "\<not> dirty m" and "dbuf m = publish_bytes p"
  shows "recopy k m = Some (decoded (publish_bytes p) p, m, k)"
proof -
  have "publish_EncodeToBuf (onto [] k m) = Go ((onto [] k m)\<lparr>b_buf := publish_bytes p\<rparr>)"
    using assms(3,4) by (simp add: publish_EncodeToBuf_def onto_def Let_def)
  moreover have "publish_Decode (exact (publish_bytes p)) NewPublishMessage = Go \<lparr>d_hn = 1 + length (varint (length (publish_body p))),
      d_tot = length (publish_bytes p), d_msg = decoded (publish_bytes p) p\<rparr>"
    using publish_Decode_bytes [OF assms(1,2), of "exact (publish_bytes p)"] by (simp add: exact_def)
  ultimately show ?thesis
    by (simp only: recopy_def onto_def Let_def out.case dstate.simps bstate.simps)
qed

lemma copyMsg_wire:
  assumes "publish_ok p" and "payload_plain p" and "\<not> dirty m" and "dbuf m = publish_bytes p"
  shows "copyMsg k m (Qos sb) = Some (copy_for sb p, m, k)"
  by (simp add: copyMsg_def recopy_wire [OF assms] copy_for_def)

lemma up_bytes_pad: "up_bytes (up_pad xs) = up_bytes xs"
  by (induction xs rule: up_bytes.induct) auto


lemma strs_ok_pad: "strs_ok xs \<Longrightarrow> strs_ok (up_pad xs)"
  by (induction xs rule: up_pad.induct) (auto simp: strs_ok_def)

lemma qos_bits: "drop_bit (Suc 0) ((f AND 249) AND 15) AND 3 = (0 :: byte)"
    "drop_bit (Suc 0) ((f AND 254) AND 15) AND 3 = drop_bit (Suc 0) (f AND 15) AND (3 :: byte)"
  by (simp_all add: drop_bit_and and.assoc)

lemma flags_qos0: "flags_ok f \<Longrightarrow> mtype_of (drop_bit 4 f) = PUBLISH \<Longrightarrow>
    flags_ok (f AND 249) \<and> mtype_of (drop_bit 4 (f AND 249)) = PUBLISH"
  and flags_noretain: "flags_ok f \<Longrightarrow> mtype_of (drop_bit 4 f) = PUBLISH \<Longrightarrow>
    flags_ok (f AND 254) \<and> mtype_of (drop_bit 4 (f AND 254)) = PUBLISH"
proof -
  have m: "(15 :: byte) = mask 4" "(3 :: byte) = mask 2"
    by (simp_all add: mask_eq_exp_minus_1)
  have h: "drop_bit 4 f AND 15 = drop_bit 4 f"
    unfolding m by (rule bit_word_eqI) (auto simp: bit_simps dest: bit_imp_le_length)
  have d: "drop_bit 4 (f AND 249) = drop_bit 4 f" "drop_bit 4 (f AND 254) = drop_bit 4 f"
    using h by (simp_all add: drop_bit_and)
  show "flags_ok f \<Longrightarrow> mtype_of (drop_bit 4 f) = PUBLISH \<Longrightarrow>
      flags_ok (f AND 249) \<and> mtype_of (drop_bit 4 (f AND 249)) = PUBLISH"
    and "flags_ok f \<Longrightarrow> mtype_of (drop_bit 4 f) = PUBLISH \<Longrightarrow>
      flags_ok (f AND 254) \<and> mtype_of (drop_bit 4 (f AND 254)) = PUBLISH"
    by (simp_all add: flags_ok_def d qos_bits Let_def ValidQos_def del: drop_bit_and)
qed


lemma copy_ok:
  assumes "publish_ok p" and "Qos sb = 0"
  shows "publish_ok (copy_for sb p)" and "dirty (copy_for sb p)" and "topic (copy_for sb p) = topic p"
    and "payload (copy_for sb p) = payload p" and "QoS (copy_for sb p) = 0"
    and "length (publish_body (copy_for sb p)) \<le> length (publish_body p)"
proof -
  let ?m = "copy_for sb p"
  have m: "?m = (decoded (publish_bytes p) p)\<lparr>mtf := mtf p AND 249, dirty := True\<rparr>"
    using assms(2) by (simp add: copy_for_def SetQoS_def) (simp add: decoded_def)
  have q: "QoS ?m = 0"
    by (simp add: m QoS_def Flags_def qos_bits del: drop_bit_and)
  have s: "subid_written ?m = subid_written p" "subid_written p \<Longrightarrow> subscriptionIdentifier ?m = subscriptionIdentifier p"
    by (auto simp: m decoded_def subid_written_def)
  have f: "publish.payloadFormatIndicator ?m = publish.payloadFormatIndicator p" "messageExpiryInterval ?m = messageExpiryInterval p"
    "publish.topicAlias ?m = publish.topicAlias p" "publish.responseTopic ?m = publish.responseTopic p" "publish.correlationData ?m = publish.correlationData p"
    "publish.userProperty ?m = up_pad (publish.userProperty p)" "publish.contentType ?m = publish.contentType p"
    by (simp_all add: m decoded_def)
  have props: "publish_props ?m = publish_props p"
    using s by (cases "subid_written p") (simp_all add: publish_props_def f up_bytes_pad opt_bytes_def)
  show t: "topic ?m = topic p" "payload ?m = payload p" "dirty ?m" "QoS ?m = 0"
    using q by (simp_all add: m decoded_def)
  show b: "length (publish_body ?m) \<le> length (publish_body p)"
    by (simp add: publish_body_def t props q)
  have "Type ?m = PUBLISH" "flags_ok (mtf ?m)"
    using assms(1) flags_qos0 [of "mtf p"] by (auto simp: m publish_ok_def Type_def)
  then show "publish_ok ?m"
    using assms(1) b by (simp add: publish_ok_def t f q strs_ok_pad)
qed


text \<open>What a subscriber gets differs from the copy in the retain flag, the subscription identifier and the
  lengths that \<open>Len\<close> has set.\<close>

lemma publish_ok_again:
  assumes "publish_ok m" and "publish_body m' = publish_body m" and "topic m' = topic m" "topicAlias m' = topicAlias m"
    "publish.responseTopic m' = publish.responseTopic m" "publish.correlationData m' = publish.correlationData m"
    "publish.contentType m' = publish.contentType m" "publish.userProperty m' = publish.userProperty m"
    "payload m' = payload m" and "QoS m' = 0" and "Type m' = PUBLISH" "flags_ok (mtf m')"
  shows "publish_ok m'"
  using assms by (simp add: publish_ok_def)

definition final :: "bool \<Rightarrow> sub \<Rightarrow> publish \<Rightarrow> publish" where
  "final long sb p =
     (let m = (if long then built (copy_for sb p) else copy_for sb p);
          m = (if RetainAsPublished sb then m else SetRetain False m)
      in if SubIdentifier sb > 0 then SetSubscriptionIdentifier (SubIdentifier sb) m else m)"

lemma final_ok:
  assumes "publish_ok p" and "Qos sb = 0" and "length (publish_body (forward sb p)) < 2 ^ 28"
  shows "publish_ok (final long sb p)" and "dirty (final long sb p)" and "publish_bytes (final long sb p) = publish_bytes (forward sb p)"
    and "QoS (forward sb p) = 0"
    and "\<not> RetainAsPublished sb \<Longrightarrow> \<not> Retain (forward sb p)"
    and "SubIdentifier sb > 0 \<Longrightarrow> subscriptionIdentifier (forward sb p) = SubIdentifier sb"
proof -
  let ?c = "copy_for sb p"
  note c = copy_ok [OF assms(1,2)]
  define f where "f = (if RetainAsPublished sb then mtf ?c else mtf ?c AND 254)"
  define i where "i = (if SubIdentifier sb > 0 then SubIdentifier sb else subscriptionIdentifier ?c)"
  have cd: "?c\<lparr>dirty := True\<rparr> = ?c"
    using c(2) by simp
  define m where "m = ?c\<lparr>mtf := f, subscriptionIdentifier := i\<rparr>"
  define l where "l = m\<lparr>propertiesLen := word_of_nat (length (publish_props ?c)), remlen := word_of_nat (length (publish_body ?c))\<rparr>"
  have s0: "final False sb p = m"
    using c(2) by (simp add: final_def m_def f_def i_def Let_def SetRetain_def SetSubscriptionIdentifier_def)
  have s1: "final True sb p = l"
    using c(2) by (simp add: final_def l_def m_def f_def i_def Let_def SetRetain_def SetSubscriptionIdentifier_def built_def)
  have fw: "forward sb p = m"
    using s0 by (simp add: forward_def final_def)
  have qf: "drop_bit (Suc 0) (f AND 15) AND 3 = (0 :: byte)"
    using c(5) by (simp add: f_def QoS_def Flags_def qos_bits del: drop_bit_and)
  have q: "QoS m = 0" "QoS l = 0"
    using qf by (simp_all add: QoS_def Flags_def m_def l_def)
  have "publish_props l = publish_props m"
    by (simp add: publish_props_def l_def subid_written_def)
  then have lm: "publish_body l = publish_body m"
    by (simp add: publish_body_def q) (simp add: l_def)
  have b: "publish_body (final long sb p) = publish_body (forward sb p)" "mtf (final long sb p) = mtf (forward sb p)"
    using lm by (cases long; simp add: s0 s1 fw l_def)+
  have x: "topic (final long sb p) = topic p" "payload (final long sb p) = payload p" "QoS (final long sb p) = 0"
    "publish.topicAlias (final long sb p) = publish.topicAlias ?c" "publish.responseTopic (final long sb p) = publish.responseTopic ?c"
    "publish.correlationData (final long sb p) = publish.correlationData ?c" "publish.contentType (final long sb p) = publish.contentType ?c"
    "publish.userProperty (final long sb p) = publish.userProperty ?c" for long
    using c(3,4) q by (cases long; simp add: s0 s1 l_def m_def)+
  have "mtf (final long sb p) = mtf ?c \<or> mtf (final long sb p) = mtf ?c AND 254"
    by (cases long) (simp_all add: s0 s1 l_def m_def f_def)
  then have t: "Type (final long sb p) = PUBLISH" "flags_ok (mtf (final long sb p))"
    using c(1) flags_noretain [of "mtf ?c"] by (auto simp: publish_ok_def Type_def)
  show "publish_ok (final long sb p)"
    using c(1,3,4) x t b assms(3) by (simp add: publish_ok_def)
  show "dirty (final long sb p)"
    using c(2) by (cases long) (simp_all add: s0 s1 l_def m_def)
  show "publish_bytes (final long sb p) = publish_bytes (forward sb p)"
    by (simp add: publish_bytes_def b)
  show "QoS (forward sb p) = 0"
    unfolding fw s0 [symmetric] by (rule x)
  have n: "((x AND 254) AND 15) AND 1 = (0 :: byte)" for x
    by (simp add: and.assoc)
  show "\<not> RetainAsPublished sb \<Longrightarrow> \<not> Retain (forward sb p)"
    by (simp add: n forward_def Let_def SetRetain_def SetSubscriptionIdentifier_def Retain_def Flags_def)
  show "SubIdentifier sb > 0 \<Longrightarrow> subscriptionIdentifier (forward sb p) = SubIdentifier sb"
    by (simp add: forward_def Let_def SetSubscriptionIdentifier_def)
qed


section \<open>A subscriber\<close>

definition outgoing :: "'r world \<Rightarrow> nat \<Rightarrow> bytes" where
  "outgoing w c = (case w_svcs w c of Some v \<Rightarrow> (case s_core v of Some g \<Rightarrow> contents (g_out g) | None \<Rightarrow> []) | None \<Rightarrow> [])"

text \<open>
  A subscriber that can be served at QoS 0: its service is running, its output ring open, it is not the
  sender of a no-local subscription, the topic has no alias, and the message is not too long for it.
\<close>

definition hears :: "'r world \<Rightarrow> bytes \<Rightarrow> publish \<Rightarrow> nat \<Rightarrow> sub \<Rightarrow> bool" where
  "hears w sender p c sb \<longleftrightarrow> (\<exists>v g s. w_svcs w c = Some v \<and> s_core v = Some g \<and> open_ring (g_out g)
     \<and> m_heap (w_mgr w) (s_sess v) = Some s \<and> Qos sb = 0 \<and> (NoLocal sb \<longrightarrow> cid v \<noteq> sender)
     \<and> GetTopicAlice (topic p) s = None
     \<and> (MaxPacketSize s = 0 \<or> length (publish_bytes (copy_for sb p)) \<le> unat (MaxPacketSize s))
     \<and> length (publish_body (forward sb p)) < 2 ^ 28)"

text \<open>The packets of a list of deliveries that go to a service, and room for them in its ring\<close>

definition packets :: "publish \<Rightarrow> nat \<Rightarrow> (nat \<times> sub) list \<Rightarrow> bytes" where
  "packets p c xs = concat (map (\<lambda>(c', sb). if c' = c then publish_bytes (forward sb p) else []) xs)"

definition room :: "'r world \<Rightarrow> (nat \<Rightarrow> bytes) \<Rightarrow> bool" where
  "room w d \<longleftrightarrow> (\<forall>c v g. w_svcs w c = Some v \<longrightarrow> s_core v = Some g \<longrightarrow>
     int (length (contents (g_out g)) + length (d c)) \<le> rsize (g_out g))"

definition room_for :: "'r world \<Rightarrow> publish \<Rightarrow> (nat \<times> sub) list \<Rightarrow> bool" where
  "room_for w p xs \<longleftrightarrow> room w (\<lambda>c. packets p c xs)"

section \<open>What has been written\<close>

text \<open>
  \<open>delivered d\<close>: the output ring of each service \<open>c\<close> has gained \<open>d c\<close>; but for the cores and the packet
  counter the state is the same.
\<close>

fun grown :: "bytes \<Rightarrow> gcore option \<Rightarrow> gcore option \<Rightarrow> bool" where
  "grown bs None None \<longleftrightarrow> bs = []"
| "grown bs (Some g) (Some g') \<longleftrightarrow> contents (g_out g') = contents (g_out g) @ bs \<and> rsize (g_out g') = rsize (g_out g)
     \<and> (open_ring (g_out g) \<longrightarrow> open_ring (g_out g'))"
| "grown bs g g' \<longleftrightarrow> False"

fun served :: "bytes \<Rightarrow> 'r service option \<Rightarrow> 'r service option \<Rightarrow> bool" where
  "served bs None None \<longleftrightarrow> bs = []"
| "served bs (Some v) (Some v') \<longleftrightarrow> v' = v\<lparr>s_core := s_core v'\<rparr> \<and> grown bs (s_core v) (s_core v')"
| "served bs v v' \<longleftrightarrow> False"

definition delivered :: "(nat \<Rightarrow> bytes) \<Rightarrow> 'r world \<Rightarrow> 'r world \<Rightarrow> bool" where
  "delivered d w w' \<longleftrightarrow> w_topics w' = w_topics w \<and> w_mgr w' = w_mgr w \<and> (\<forall>c. served (d c) (w_svcs w c) (w_svcs w' c))"

definition only_to :: "nat \<Rightarrow> bytes \<Rightarrow> nat \<Rightarrow> bytes" where
  "only_to c bs = (\<lambda>d. if d = c then bs else [])"

lemma grown_refl: "grown [] g g"
  by (cases g) auto

lemma served_refl: "served [] v v"
  by (cases v) (auto simp: grown_refl)

lemma grown_trans: "grown a g g' \<Longrightarrow> grown b g' g'' \<Longrightarrow> grown (a @ b) g g''"
  by (cases "(a, g, g')" rule: grown.cases; cases g'') auto

lemma served_trans: "served a v v' \<Longrightarrow> served b v' v'' \<Longrightarrow> served (a @ b) v v''"
proof (induction a v v' rule: served.induct)
  case (2 bs v v')
  then obtain u where u: "v'' = Some u" "u = v'\<lparr>s_core := s_core u\<rparr>" "grown b (s_core v') (s_core u)"
    by (cases v'') auto
  moreover have "u = v\<lparr>s_core := s_core u\<rparr>"
    using 2(1) u(2) by (metis (no_types, lifting) served.simps(2) service.surjective service.update_convs(4))
  ultimately show ?case
    using 2(1) grown_trans by (auto intro: grown_trans)
next
  case (1 bs)
  then show ?case
    by (cases v'') auto
qed auto

lemma delivered_refl: "delivered (\<lambda>_. []) w w"
  by (simp add: delivered_def served_refl)

lemma delivered_trans: "delivered d w w' \<Longrightarrow> delivered e w' w'' \<Longrightarrow> delivered (\<lambda>c. d c @ e c) w w''"
  by (auto simp: delivered_def intro: served_trans)

lemma served_Some: "served bs (Some v) y \<Longrightarrow> \<exists>core. y = Some (v\<lparr>s_core := core\<rparr>) \<and> grown bs (s_core v) core"
  by (cases y) auto

lemma delivered_svc:
  assumes "delivered d w w'" and "w_svcs w c = Some v"
  obtains core where "w_svcs w' c = Some (v\<lparr>s_core := core\<rparr>)" "grown (d c) (s_core v) core"
proof -
  have "served (d c) (Some v) (w_svcs w' c)"
    using assms by (metis delivered_def)
  then show ?thesis
    using served_Some that by blast
qed

lemma delivered_open:
  assumes "delivered d w w'" and "w_svcs w c = Some v" and "s_core v = Some g" and "open_ring (g_out g)"
  obtains g' where "w_svcs w' c = Some (v\<lparr>s_core := Some g'\<rparr>)" "open_ring (g_out g')"
    "contents (g_out g') = contents (g_out g) @ d c" "rsize (g_out g') = rsize (g_out g)"
proof -
  obtain core where c: "w_svcs w' c = Some (v\<lparr>s_core := core\<rparr>)" "grown (d c) (Some g) core"
    using delivered_svc [OF assms(1,2)] assms(3) by auto
  then obtain g' where "core = Some g'"
    by (cases core) auto
  with c assms(4) that show ?thesis
    by auto
qed

lemma delivered_hears:
  assumes "delivered d w w'" and "hears w sender p c sb"
  shows "hears w' sender p c sb"
proof -
  obtain v g s where v: "w_svcs w c = Some v" "s_core v = Some g" "open_ring (g_out g)"
    and s: "m_heap (w_mgr w) (s_sess v) = Some s" "Qos sb = 0" "NoLocal sb \<longrightarrow> cid v \<noteq> sender"
      "GetTopicAlice (topic p) s = None"
      "MaxPacketSize s = 0 \<or> length (publish_bytes (copy_for sb p)) \<le> unat (MaxPacketSize s)"
      "length (publish_body (forward sb p)) < 2 ^ 28"
    using assms(2) unfolding hears_def by blast
  obtain g' where "w_svcs w' c = Some (v\<lparr>s_core := Some g'\<rparr>)" "open_ring (g_out g')"
    using delivered_open [OF assms(1) v] .
  moreover have "m_heap (w_mgr w') (s_sess v) = Some s"
    using assms(1) s(1) by (simp add: delivered_def)
  ultimately show ?thesis
    using s(2-) unfolding hears_def by (intro exI [of _ "v\<lparr>s_core := Some g'\<rparr>"] exI [of _ g'] exI [of _ s]) (simp add: cid_def)
qed

lemma delivered_outgoing:
  assumes "delivered d w w'"
  shows "outgoing w' c = outgoing w c @ d c"
proof -
  have "served (d c) (w_svcs w c) (w_svcs w' c)"
    using assms by (simp add: delivered_def)
  then show ?thesis
    unfolding outgoing_def
    by (cases "(d c, w_svcs w c, w_svcs w' c)" rule: served.cases;
        cases "s_core (the (w_svcs w c))"; cases "s_core (the (w_svcs w' c))") auto
qed

lemma delivered_room:
  assumes "delivered d w w'" and "room w (\<lambda>c. d c @ e c)"
  shows "room w' e"
  unfolding room_def
proof (intro allI impI)
  fix c u h
  assume u: "w_svcs w' c = Some u" "s_core u = Some h"
  have "served (d c) (w_svcs w c) (Some u)"
    using assms(1) u(1) by (auto simp: delivered_def dest: spec [of _ c])
  then obtain v where v: "w_svcs w c = Some v" "grown (d c) (s_core v) (Some h)"
    using u(2) by (cases "w_svcs w c") auto
  then obtain g where "s_core v = Some g" "contents (g_out h) = contents (g_out g) @ d c" "rsize (g_out h) = rsize (g_out g)"
    by (cases "s_core v") auto
  then show "int (length (contents (g_out h)) + length (e c)) \<le> rsize (g_out h)"
    using assms(2) v(1) by (fastforce simp: room_def)
qed

lemma write_core_appends:
  assumes "w_svcs w c = Some v" and "s_core v = Some g" and "open_ring (g_out g)"
    and "int (length (contents (g_out g)) + length bs) \<le> rsize (g_out g)"
    and "msg_Len (delRequestRespInfo g m) = Some (length bs, m1)" and "encodes m1 bs"
  shows "\<exists>w' m'. write_core c m w = (w', Ret (m', None)) \<and> delivered (only_to c bs) w w'"
proof -
  obtain g' m' k' n where wm: "writeMessage m (w_gpid w) g = (g', m', k', Ret (Inr n))"
    and g': "open_ring (g_out g')" "contents (g_out g') = contents (g_out g) @ bs" "rsize (g_out g') = rsize (g_out g)"
    using writeMessage_open [OF assms(3-6)] by blast
  have "write_core c m w
      = (w\<lparr>w_svcs := (w_svcs w)(c \<mapsto> v\<lparr>s_core := Some g'\<rparr>), w_gpid := k'\<rparr>, Ret (m', None))"
    by (simp add: write_core_def bindw_def get_svc_def assms(1,2) wm)
  moreover have "delivered (only_to c bs) w (w\<lparr>w_svcs := (w_svcs w)(c \<mapsto> v\<lparr>s_core := Some g'\<rparr>), w_gpid := k'\<rparr>)"
    using assms(1,2) g' by (simp add: delivered_def only_to_def served_refl)
  ultimately show ?thesis
    by blast
qed

lemma onPub_writes:
  assumes "hears w sender p c sb" and "publish_ok p" and "room w (\<lambda>d. only_to c (publish_bytes (forward sb p)) d @ e d)"
  shows "\<exists>w'. onPub c (copy_for sb p) sb sender sh w = (w', Ret None)
    \<and> delivered (only_to c (publish_bytes (forward sb p))) w w'"
proof -
  obtain v g s where v: "w_svcs w c = Some v" "s_core v = Some g" "open_ring (g_out g)"
    and s: "m_heap (w_mgr w) (s_sess v) = Some s" and sb: "Qos sb = 0" "NoLocal sb \<longrightarrow> cid v \<noteq> sender"
    and al: "GetTopicAlice (topic p) s = None"
    and mx: "MaxPacketSize s = 0 \<or> length (publish_bytes (copy_for sb p)) \<le> unat (MaxPacketSize s)"
    and l: "length (publish_body (forward sb p)) < 2 ^ 28"
    using assms(1) unfolding hears_def by blast
  note c = copy_ok [OF assms(2) sb(1)]
  define lg where "lg = (MaxPacketSize s \<noteq> 0)"
  define m where "m = (if lg then built (copy_for sb p) else copy_for sb p)"
  note f = final_ok(1-3) [OF assms(2) sb(1) l, of lg]
  have tl: "too_long (MaxPacketSize s) (copy_for sb p) w = (w, Ret (m, False))"
    using mx publish_built_again(4) [OF c(1)] c(2) by (auto simp: too_long_def lg_def m_def ret_def)
  have q: "QoS m = 0" and tp: "topic m = topic p"
    using c(3,5) by (auto simp: m_def built_def QoS_def Flags_def)
  have tp': "topic (SetRetain False m) = topic p" "QoS (SetRetain False m) = 0"
    using tp q by (simp_all add: SetRetain_def QoS_def Flags_def qos_bits del: drop_bit_and)
  have fm: "final lg sb p = (let m = (if RetainAsPublished sb then m else SetRetain False m)
      in if SubIdentifier sb > 0 then SetSubscriptionIdentifier (SubIdentifier sb) m else m)"
    by (simp add: final_def m_def)
  have fq: "QoS (final lg sb p) = 0"
    using c(5) qos_bits(2) [of "mtf (copy_for sb p)"]
    by (auto simp: final_def Let_def SetRetain_def SetSubscriptionIdentifier_def built_def QoS_def Flags_def simp del: drop_bit_and)
  have rm: "int (length (contents (g_out g)) + length (publish_bytes (final lg sb p))) \<le> rsize (g_out g)"
    using assms(3) v(1,2) f(3) unfolding room_def only_to_def by fastforce
  obtain w' m' where wc: "write_core c (MPublish (final lg sb p)) w = (w', Ret (m', None))"
    and wt: "delivered (only_to c (publish_bytes (forward sb p))) w w'"
    using write_core_appends [OF v rm publish_written [OF f(1,2)]] f(3) by auto
  have "service_publish c (final lg sb p) LogSent w = (w', Ret (as_publish (final lg sb p) m', None))"
    by (simp add: service_publish_def fq bindw_def wc ret_def)
  then have "bindw (service_publish c (final lg sb p) LogSent) (\<lambda>(_, e). ret e) w = (w', Ret None)"
    by (simp add: bindw_def ret_def)
  moreover have "topic (SetSubscriptionIdentifier (SubIdentifier sb) x) = topic x" for x
    by (simp add: SetSubscriptionIdentifier_def)
  ultimately have "onPub c (copy_for sb p) sb sender sh w = (w', Ret None)"
    using sb(2) unfolding fm
    by (cases "RetainAsPublished sb"; cases "SubIdentifier sb > 0")
      (auto simp: onPub_def bindw_def get_sess_def get_svc_def v(1) s tl q ret_def Let_def tp tp' al)
  then show ?thesis
    using wt by blast
qed


section \<open>All subscribers\<close>

definition all_hear :: "'r world \<Rightarrow> bytes \<Rightarrow> publish \<Rightarrow> (nat \<times> sub) list \<Rightarrow> bool" where
  "all_hear w sender p xs \<longleftrightarrow> (\<forall>(c, sb) \<in> set xs. hears w sender p c sb)"

lemma packets_Cons: "packets p d ((c, sb) # xs) = only_to c (publish_bytes (forward sb p)) d @ packets p d xs"
  by (simp add: packets_def only_to_def)

lemma packets_append: "packets p d (xs @ ys) = packets p d xs @ packets p d ys"
  by (simp add: packets_def)

lemma delivered_all_hear: "delivered d w w' \<Longrightarrow> all_hear w sender p xs \<Longrightarrow> all_hear w' sender p xs"
  by (fastforce simp: all_hear_def intro: delivered_hears)

lemma lookSend_reaches:
  assumes "publish_ok p" and "payload_plain p" and "\<not> dirty m" and "dbuf m = publish_bytes p"
    and "w_svcs w i = Some v" and "cid v = sender" and "all_hear w sender p xs" and "room w (\<lambda>c. packets p c xs @ e c)"
  shows "\<exists>w'. lookSend False i m xs sh w = (w', Ret None) \<and> delivered (\<lambda>c. packets p c xs) w w'"
  using assms(5-8)
proof (induction xs arbitrary: w v)
  case Nil
  then show ?case
    by (auto simp: ret_def packets_def delivered_refl)
next
  case (Cons x xs)
  obtain c sb where x: "x = (c, sb)"
    by (cases x)
  have h: "hears w sender p c sb" and hs: "all_hear w sender p xs"
    and r: "room w (\<lambda>d. only_to c (publish_bytes (forward sb p)) d @ (packets p d xs @ e d))"
    using Cons.prems x by (simp_all add: all_hear_def packets_Cons)
  obtain w1 where o: "onPub c (copy_for sb p) sb sender sh w = (w1, Ret None)"
    and wt: "delivered (only_to c (publish_bytes (forward sb p))) w w1"
    using onPub_writes [OF h assms(1) r] by blast
  obtain core where v1: "w_svcs w1 i = Some (v\<lparr>s_core := core\<rparr>)" "cid (v\<lparr>s_core := core\<rparr>) = sender"
    using delivered_svc [OF wt Cons.prems(1)] Cons.prems(2) by (auto simp: cid_def)
  obtain w' where w': "lookSend False i m xs sh w1 = (w', Ret None)" "delivered (\<lambda>c. packets p c xs) w1 w'"
    using Cons.IH [OF v1 delivered_all_hear [OF wt hs] delivered_room [OF wt r]] by blast
  have "lookSend False i m (x # xs) sh w = (w', Ret None)"
    using o w'(1) Cons.prems(1,2)
    by (simp add: x copyMsg_wire [OF assms(1-4)] bindw_def write_back_def get_svc_def)
  then show ?case
    using delivered_trans [OF wt w'(2)] by (auto simp: x packets_Cons)
qed

lemma onPublish_reaches:
  assumes "publish_ok p" and "payload_plain p" and "\<not> Retain p"
    and "w_svcs w i = Some v" and "\<not> clusterOpen v"
    and "Subscribers (random ev) (topic p) (QoS p) [] False [] True (w_topics w) = (ys, None)"
    and "Subscribers (random ev) (topic p) (QoS p) [] False [] False (w_topics w) = (xs, None)"
    and "all_hear w (cid v) p (ys @ xs)" and "room w (\<lambda>c. packets p c (ys @ xs) @ e c)"
  shows "\<exists>w'. onPublish ev i (decoded (publish_bytes p) p) w = (w', Ret None)
    \<and> delivered (\<lambda>c. packets p c (ys @ xs)) w w'"
proof -
  let ?m = "decoded (publish_bytes p) p" and ?n = "SetRetain False (decoded (publish_bytes p) p)"
  have m: "QoS ?m = QoS p" "\<not> Retain ?m" "topic ?m = topic p" "\<not> dirty ?m" "dbuf ?m = publish_bytes p"
    using assms(3) by (simp_all add: decoded_def QoS_def Retain_def Flags_def)
  have n: "\<not> dirty ?n" "dbuf ?n = publish_bytes p" "topic ?n = topic p"
    using m by (simp_all add: SetRetain_def)
  have h: "all_hear w (cid v) p ys" "all_hear w (cid v) p xs"
    using assms(8) by (auto simp: all_hear_def)
  have r: "room w (\<lambda>c. packets p c ys @ (packets p c xs @ e c))"
    using assms(9) by (simp add: packets_append)
  obtain w1 where w1: "lookSend False i ?n ys True w = (w1, Ret None)" "delivered (\<lambda>c. packets p c ys) w w1"
    using lookSend_reaches [OF assms(1,2) n(1,2) assms(4) refl h(1) r] by blast
  obtain core where v1: "w_svcs w1 i = Some (v\<lparr>s_core := core\<rparr>)" "cid (v\<lparr>s_core := core\<rparr>) = cid v"
    using delivered_svc [OF w1(2) assms(4)] by (auto simp: cid_def)
  obtain w2 where w2: "lookSend False i ?n xs False w1 = (w2, Ret None)" "delivered (\<lambda>c. packets p c xs) w1 w2"
    using lookSend_reaches [OF assms(1,2) n(1,2) v1 delivered_all_hear [OF w1(2) h(2)] delivered_room [OF w1(2) r]] by blast
  have share: "sendShareToCluster ev i ?m w = (w1, Ret ())"
    using assms(4-6) m w1(1)
    by (simp add: sendShareToCluster_def bindw_def get_svc_def openCluster_def pubFnPlus_def pub_to_def Let_def
        write_back_def ret_def)
  have "w_topics w1 = w_topics w"
    using w1(2) by (simp add: delivered_def)
  then have plain: "pubFn ev False i ?m [] False w1 = (w2, Ret None)"
    using assms(7) m w2(1) by (simp add: pubFn_def pub_to_def bindw_def write_back_def Let_def)
  have "onPublish ev i ?m w = (w2, Ret None)"
    using share plain m
    by (simp add: onPublish_def bindw_def retain_def keeps_def recopy_wire [OF assms(1,2) m(4,5)])
  then show ?thesis
    using delivered_trans [OF w1(2) w2(2)] by (auto simp: packets_append)
qed

lemma no_alias:
  assumes "w_svcs w i = Some v" and "m_heap (w_mgr w) (s_sess v) = Some s" and "publish.topicAlias m = 0"
  shows "topicAliceIn i m w = (w, Ret (m, None))"
  using assms by (simp add: topicAliceIn_def bindw_def get_sess_def get_svc_def Let_def ret_def)

text \<open>C2: a QoS 0 message reaches every subscriber. A client publishes a QoS 0 message that is not retained and
  has no topic alias, with a payload that is not empty and does not begin with a property identifier byte (so that the
  broker has it as it was sent), a topic and lengths within the packet format, and the access control allowing it; the
  broker runs without a cluster. Every subscription that the topic manager finds for it has QoS 0 and belongs to a
  client with an open ring whose mutexes are free, no alias for the topic and a maximum packet size that the message
  respects, and is not excluded by the no-local option; every output ring has room for what it is to get. Then the
  handler succeeds and each subscriber's output ring gains exactly the packets of its subscriptions, in order: the
  same topic and payload, with the subscription's identifier; nobody else is sent anything.\<close>

theorem qos0_reaches_subscribers:
  assumes "publish_ok p" and "payload_plain p" and "QoS p = 0" and "\<not> Retain p" and "publish.topicAlias p = 0"
    and "w_svcs w i = Some v" and "\<not> clusterOpen v" and "m_heap (w_mgr w) (s_sess v) = Some s"
    and "aclPub ev (ccid v) (decoded (publish_bytes p) p)" and "0 \<le> MaxQos ev"
    and "Subscribers (random ev) (topic p) 0 [] False [] True (w_topics w) = (ys, None)"
    and "Subscribers (random ev) (topic p) 0 [] False [] False (w_topics w) = (xs, None)"
    and "all_hear w (cid v) p (ys @ xs)" and "room_for w p (ys @ xs)"
  shows "\<exists>w'. processPublish ev i (decoded (publish_bytes p) p) w = (w', Ret None)
    \<and> (\<forall>c. outgoing w' c = outgoing w c @ packets p c (ys @ xs))
    \<and> (\<forall>sb. topic (forward sb p) = topic p \<and> payload (forward sb p) = payload p)"
proof -
  let ?m = "decoded (publish_bytes p) p"
  have m: "QoS ?m = 0" "\<not> Retain ?m" "publish.topicAlias ?m = 0"
    using assms(3-5) by (simp_all add: decoded_def QoS_def Retain_def Flags_def)
  obtain w' where w': "onPublish ev i ?m w = (w', Ret None)" "delivered (\<lambda>c. packets p c (ys @ xs)) w w'"
    using onPublish_reaches [OF assms(1,2,4,6,7) _ _ assms(13), of ev "\<lambda>_. []"] assms(3,11,12,14)
    by (auto simp: room_for_def)
  then have "processPublish ev i ?m w = (w', Ret None)"
    using assms(6,9,10) m no_alias [OF assms(6,8) m(3)] by (simp add: processPublish_def bindw_def get_svc_def)
  then show ?thesis
    using delivered_outgoing [OF w'(2)] forward_same by blast
qed


text \<open>A broker with a publisher, service 1, and a subscriber, service 2. The tree stores a subscription without
  its filter, so what it finds is \<open>no_sub\<close>.\<close>

definition idle_queue :: queue where
  "idle_queue = \<lparr>aq_size = 2, aq_mask = 1, aq_count = 0, aq_head = 0, aq_tail = 0, aq_ping = zeroAckmsg,
     aq_ring = replicate 2 zeroAckmsg, aq_emap = Map.empty, aq_ackdone = []\<rparr>"

definition session_of :: "connect \<Rightarrow> session" where
  "session_of m = \<lparr>se_sid = connect.clientId m, queueSize = 256, pub1ack = idle_queue, pub2in = idle_queue, pub2out = idle_queue,
     se_suback = idle_queue, se_unsuback = idle_queue, pingack = idle_queue, cMsg = m, se_status = ONLINE,
     offlineTime = 0, offlineMsg = [], will = None, cbuf = [], rbuf = [], se_topics = [], topicAlice = Map.empty,
     topicAliceRe = Map.empty, initted = True, se_stop = 0\<rparr>"

definition listening :: sub where
  "listening = no_sub\<lparr>Topic := [0x61, 0x2F, 0x62]\<rparr>"

definition pair_world :: "unit world" where
  "pair_world = new_world\<lparr>w_topics := fst (Topics.Subscribe listening (Some 2) (topics_NewMemProvider NewMemMsgStore)),
     w_mgr := (NewMemManager NewMemSessStore)\<lparr>m_heap := [0 \<mapsto> session_of NewConnectMessage], m_next := 1\<rparr>,
     w_svcs := [1 \<mapsto> new_service (Some (core32 (ring32 [] 0 0) (ring32 [] 0 0))) 0 small_env,
       2 \<mapsto> new_service (Some (core32 (ring32 [] 0 0) (ring32 [] 0 0))) 0 small_env]\<rparr>"

definition greeting :: publish where
  "greeting = NewPublishMessage\<lparr>topic := [0x61, 0x2F, 0x62], payload := [0x68, 0x69]\<rparr>"

lemma greeting_ok: "publish_ok greeting" "payload_plain greeting" "QoS greeting = 0" "\<not> Retain greeting"
    "publish.topicAlias greeting = 0" "topic greeting = [0x61, 0x2F, 0x62]"
    "publish_bytes (forward no_sub greeting) = [0x30, 8, 0, 3, 0x61, 0x2F, 0x62, 0, 0x68, 0x69]"
    "length (publish_bytes (copy_for no_sub greeting)) = 10" "length (publish_body (forward no_sub greeting)) = 8"
  by code_simp+

lemma pair_world_found:
  "Subscribers (random small_env) [0x61, 0x2F, 0x62] 0 [] False [] True (w_topics pair_world) = ([], None)"
  "fst (Subscribers (random small_env) [0x61, 0x2F, 0x62] 0 [] False [] False (w_topics pair_world)) = [(2, no_sub)]"
  "snd (Subscribers (random small_env) [0x61, 0x2F, 0x62] 0 [] False [] False (w_topics pair_world)) = None"
  by code_simp+


theorem qos0_reaches_subscribers_witness:
  "\<exists>w'. processPublish small_env 1 (decoded (publish_bytes greeting) greeting) pair_world = (w', Ret None)
    \<and> outgoing w' 2 = [0x30, 8, 0, 3, 0x61, 0x2F, 0x62, 0, 0x68, 0x69] \<and> outgoing w' 1 = []"
proof -
  let ?g = "core32 (ring32 [] 0 0) (ring32 [] 0 0)"
  let ?v = "new_service (Some ?g) 0 small_env"
  let ?s = "session_of NewConnectMessage"
  have o: "open_ring (g_out ?g)" "contents (g_out ?g) = []" "rsize (g_out ?g) = 32"
    unfolding open_ring_def by code_simp+
  have v: "w_svcs pair_world 1 = Some ?v" "w_svcs pair_world 2 = Some ?v" "m_heap (w_mgr pair_world) 0 = Some ?s"
    "s_sess ?v = 0" "s_core ?v = Some ?g" "\<not> clusterOpen ?v" "cid ?v = []"
    by (simp_all add: pair_world_def new_service_def cid_def)
  have hs: "m_heap (w_mgr pair_world) (s_sess ?v) = Some ?s"
    using v(3,4) by simp
  have s: "MaxPacketSize ?s = 1024" "GetTopicAlice t ?s = None" for t
    by (simp_all add: session_of_def MaxPacketSize_def GetTopicAlice_def NewConnectMessage_def
        Connect.SetMaxPacketSize_def)
  have xs: "Subscribers (random small_env) (topic greeting) 0 [] False [] False (w_topics pair_world) = ([(2, no_sub)], None)"
    "Subscribers (random small_env) (topic greeting) 0 [] False [] True (w_topics pair_world) = ([], None)"
    using pair_world_found by (simp_all add: greeting_ok(6) prod_eq_iff)
  have "hears pair_world (cid ?v) greeting 2 no_sub"
    using v o(1) s by (simp add: hears_def greeting_ok) (simp add: no_sub_def)
  then have h: "all_hear pair_world (cid ?v) greeting ([] @ [(2, no_sub)])"
    by (simp add: all_hear_def)
  have r: "room_for pair_world greeting ([] @ [(2, no_sub)])"
    using o greeting_ok(7) by (auto simp: room_for_def room_def packets_def pair_world_def new_service_def split: if_splits)
  have a: "aclPub small_env (ccid ?v) m" "0 \<le> MaxQos small_env" for m
    by (simp_all add: small_env_def)
  from qos0_reaches_subscribers [OF greeting_ok(1-5) v(1,6) hs a xs(2,1) h r]
  obtain w' where p: "processPublish small_env 1 (decoded (publish_bytes greeting) greeting) pair_world = (w', Ret None)"
    and out: "\<forall>c. outgoing w' c = outgoing pair_world c @ packets greeting c ([] @ [(2, no_sub)])"
    by (elim exE conjE)
  have "outgoing pair_world 1 = []" "outgoing pair_world 2 = []"
    using v o by (simp_all add: outgoing_def)
  then have "outgoing w' 2 = [0x30, 8, 0, 3, 0x61, 0x2F, 0x62, 0, 0x68, 0x69]" "outgoing w' 1 = []"
    using out [rule_format, of 2] out [rule_format, of 1] greeting_ok(7) by (simp_all add: packets_def)
  with p show ?thesis
    by (intro exI [of _ w'] conjI)
qed

end
