(* ===== verification/BrokerRuns.thy ===== *)
theory BrokerRuns
  imports Delivery
begin

text \<open>
  The broker over time: the steps of its processors and of the delayed wills, and what no run of
  them can change back; a disconnected subscriber that is still in the topic tree; and the quota.
\<close>

section \<open>Runs\<close>

inductive broker_run :: "'r env \<Rightarrow> 'r world \<Rightarrow> 'r world \<Rightarrow> bool" for ev w where
  run_start: "broker_run ev w w"
| run_processor: "broker_run ev w w' \<Longrightarrow> broker_run ev w (fst (processor_step ev sp i w'))"
| run_will: "broker_run ev w w' \<Longrightarrow> broker_run ev w (fst (run_task ev n w'))"

lemma run_ids: "broker_run ev w w' \<Longrightarrow> ids_rel w w'"
proof (induction rule: broker_run.induct)
  case run_start
  show ?case
    by (rule ids.rel_refl)
next
  case (run_processor w' sp i)
  show ?case
    by (rule ids.rel_trans [OF run_processor.IH ids.acrossD [OF ids.processor_step_across]])
next
  case (run_will w' n)
  show ?case
    by (rule ids.rel_trans [OF run_will.IH ids.acrossD [OF ids.run_task_across]])
qed

section \<open>Exhausted packet identifiers\<close>

definition exhausted :: "limiter \<Rightarrow> bool" where
  "exhausted l \<longleftrightarrow> limit l \<le> used l \<and> \<not> exit l"

lemma exhausted_stays: "exhausted l \<Longrightarrow> limiter_rel l l' \<Longrightarrow> exhausted l'"
  by (auto simp: exhausted_def limiter_rel_def)

lemma run_exhausted:
  assumes "broker_run ev w w'" and "w_svcs w c = Some v" and "exhausted (pkIDLimiter v)"
  shows "\<exists>v'. w_svcs w' c = Some v' \<and> exhausted (pkIDLimiter v')"
  using run_ids [OF assms(1)] assms(2,3) exhausted_stays unfolding ids_rel_def by blast

lemma poll_exhausted: "w_svcs w c = Some v \<Longrightarrow> exhausted (pkIDLimiter v) \<Longrightarrow> poll_id c w = (w, Waits)"
  by (simp add: poll_id_def bindw_def get_svc_def PollPacketID_def PollPacketIDs_def exhausted_def)

lemma SetRemainingLength_mtf: "mtf (fst (SetRemainingLength n m)) = mtf m"
  by (simp add: SetRemainingLength_def)

lemma option_case_Some: "(case x of None \<Rightarrow> None | Some y \<Rightarrow> f y) = Some z \<Longrightarrow> (\<And>y. x = Some y \<Longrightarrow> f y = Some z \<Longrightarrow> P) \<Longrightarrow> P"
  by (cases x) simp_all

lemma publish_build_lengths: "publish_build m = Some m' \<Longrightarrow> \<exists>n k. m' = fst (SetRemainingLength n (m\<lparr>propertiesLen := k\<rparr>))"
  unfolding publish_build_def Let_def by (elim option_case_Some) blast

lemma publish_Len_mtf:
  assumes "publish_Len m = Some (l, m')"
  shows "QoS m' = QoS m"
proof (cases "dirty m")
  case True
  then obtain m1 where "publish_build m = Some m1" "m' = fst (SetRemainingLength (remlen m1) m1)"
    using assms by (auto simp: publish_Len_def Let_def split: option.splits prod.splits)
  moreover from this obtain n k where "m1 = fst (SetRemainingLength n (m\<lparr>propertiesLen := k\<rparr>))"
    using publish_build_lengths by blast
  ultimately show ?thesis
    by (simp add: QoS_def Flags_def SetRemainingLength_mtf)
qed (use assms in \<open>simp add: publish_Len_def\<close>)

lemma QoS_noretain: "QoS (SetRetain False m) = QoS m"
  by (simp add: QoS_def Flags_def SetRetain_def qos_bits del: drop_bit_and)

text \<open>A change of a service that keeps its core and its limiter\<close>

lemma req_quota_keeps:
  assumes "w_svcs w c = Some v"
  shows "\<exists>sg b. req_quota c w = (w\<lparr>w_svcs := (w_svcs w)(c \<mapsto> v\<lparr>s_sign := sg\<rparr>)\<rparr>, Ret b)"
  using assms by (cases "ReqQuota (s_sign v)") (auto simp: req_quota_def bindw_def get_svc_def put_svc_def ret_def)

lemma outgoing_sign: "w_svcs w c = Some v \<Longrightarrow> outgoing (w\<lparr>w_svcs := (w_svcs w)(c \<mapsto> v\<lparr>s_sign := sg\<rparr>)\<rparr>) d = outgoing w d"
  by (simp add: outgoing_def)

lemma onPub_exhausted:
  assumes "w_svcs w c = Some v" and "exhausted (pkIDLimiter v)" and "QoS m > 0"
  shows "outgoing (fst (onPub c m sb sender sh w)) d = outgoing w d"
proof (cases "m_heap (w_mgr w) (s_sess v)")
  case None
  then show ?thesis
    by (simp add: onPub_def bindw_def get_sess_def get_svc_def assms(1))
next
  case (Some s)
  have sess: "get_sess c w = (w, Ret s)"
    by (simp add: get_sess_def bindw_def get_svc_def assms(1) Some)
  consider (crash) "too_long (MaxPacketSize s) m w = (w, Panicked)" | (long) m' where "too_long (MaxPacketSize s) m w = (w, Ret (m', True))"
    | (fits) m' where "too_long (MaxPacketSize s) m w = (w, Ret (m', False))" "QoS m' = QoS m"
  proof (cases "MaxPacketSize s = 0")
    case False
    then show ?thesis
      using publish_Len_mtf [of m] that by (cases "publish_Len m") (auto simp: too_long_def ret_def crash_def, metis)
  qed (use that in \<open>simp add: too_long_def ret_def\<close>)
  then show ?thesis
  proof cases
    case fits
    obtain sg b where r: "req_quota c w = (w\<lparr>w_svcs := (w_svcs w)(c \<mapsto> v\<lparr>s_sign := sg\<rparr>)\<rparr>, Ret b)" (is "_ = (?w, _)")
      using req_quota_keeps [OF assms(1)] by blast
    have p: "poll_id c ?w = (?w, Waits)"
      using assms(2) by (intro poll_exhausted [of _ _ "v\<lparr>s_sign := sg\<rparr>"]) simp_all
    have q: "0 < QoS m'" "0 < QoS (SetRetain False m')"
      using fits(2) assms(3) by (simp_all add: QoS_noretain)
    have g: "get_svc c ?w = (?w, Ret (v\<lparr>s_sign := sg\<rparr>))"
      by (simp add: get_svc_def)
    have "fst (onPub c m sb sender sh w) = ?w"
      by (simp add: onPub_def bindw_def sess fits(1) q r g p Let_def ret_def)
    then show ?thesis
      using outgoing_sign [OF assms(1)] by simp
  qed (simp_all add: onPub_def bindw_def sess ret_def)
qed


definition full_service :: "unit service" where
  "full_service = (new_service None 0 small_env)\<lparr>pkIDLimiter := (newPacketIDLimiter 1)\<lparr>used := 1\<rparr>\<rparr>"


section \<open>The quota\<close>

lemma write_socket_open:
  assumes "w_svcs w i = Some v" and "s_core v = Some g"
  shows "write_socket ev i bs w = (w\<lparr>w_svcs := (w_svcs w)(i \<mapsto> v\<lparr>s_direct := s_direct v @ (if socketFails ev i bs then [] else bs)\<rparr>)\<rparr>,
    Ret (socketFails ev i bs))"
  using assms by (auto simp: write_socket_def bindw_def get_svc_def put_svc_def ret_def fun_upd_idem)

text \<open>The DISCONNECT with reason code 0x97\<close>

lemma beyond_packet:
  "msg_Len (MDisconnect (Disconnect.SetReasonCode MsgTypes.BeyondQuota NewDisconnectMessage)) = Some (4, m) \<Longrightarrow>
    \<exists>n m'. msg_Encode (replicate 4 0) k m = Go ([0xE0, 2, 0x97, 0], n, m', k)"
  "\<exists>m. msg_Len (MDisconnect (Disconnect.SetReasonCode MsgTypes.BeyondQuota NewDisconnectMessage)) = Some (4, m)"
proof -
  define m0 where "m0 = MDisconnect (Disconnect.SetReasonCode MsgTypes.BeyondQuota NewDisconnectMessage)"
  have l: "case msg_Len m0 of Some (n, m) \<Rightarrow> n = 4 \<and> m = MDisconnect \<lparr>remlen = 2, mtf = 0xE0, packetId = [], dbuf = [], dirty = True,
      disconnect.reasonCode = 0x97, propertyLen = 0, sessionExpiryInterval = 0, reasonStr = [], serverReference = [],
      userProperty = []\<rparr> | _ \<Rightarrow> False"
    unfolding m0_def by code_simp
  then show "\<exists>m. msg_Len (MDisconnect (Disconnect.SetReasonCode MsgTypes.BeyondQuota NewDisconnectMessage)) = Some (4, m)"
    unfolding m0_def by (auto split: option.splits prod.splits if_splits)
  assume "msg_Len (MDisconnect (Disconnect.SetReasonCode MsgTypes.BeyondQuota NewDisconnectMessage)) = Some (4, m)"
  then have m: "m = MDisconnect \<lparr>remlen = 2, mtf = 0xE0, packetId = [], dbuf = [], dirty = True,
      disconnect.reasonCode = 0x97, propertyLen = 0, sessionExpiryInterval = 0, reasonStr = [], serverReference = [],
      userProperty = []\<rparr>"
    using l unfolding m0_def by simp
  have "case msg_Encode (replicate 4 0) k m of Go (d, n, m', k') \<Rightarrow> d = [0xE0, 2, 0x97, 0] \<and> k' = k | _ \<Rightarrow> False"
    unfolding m by code_simp
  then show "\<exists>n m'. msg_Encode (replicate 4 0) k m = Go ([0xE0, 2, 0x97, 0], n, m', k)"
    by (auto split: out.splits prod.splits)
qed

lemma sendBeyondQuota_writes:
  assumes "w_svcs w i = Some v" and "s_core v = Some g"
  shows "\<exists>e. sendBeyondQuota ev i w = (w\<lparr>w_svcs := (w_svcs w)(i \<mapsto> v\<lparr>s_direct := s_direct v
    @ (if socketFails ev i [0xE0, 2, 0x97, 0] then [] else [0xE0, 2, 0x97, 0])\<rparr>)\<rparr>, Ret e)"
proof -
  obtain m n m' where "msg_Len (MDisconnect (Disconnect.SetReasonCode MsgTypes.BeyondQuota NewDisconnectMessage)) = Some (4, m)"
    and "msg_Encode (replicate 4 0) (w_gpid w) m = Go ([0xE0, 2, 0x97, 0], n, m', w_gpid w)"
    using beyond_packet by blast
  then show ?thesis
    using write_socket_open [OF assms, of ev "[0xE0, 2, 0x97, 0]"]
    by (simp add: sendBeyondQuota_def sendByConn_def bindw_def ret_def)
qed

text \<open>C34: a client that has used up its send quota is disconnected before its acknowledgements are read. With the
  quota exceeded and the service running, the next turn of the client's processor writes the DISCONNECT with reason
  code 0x97 to the socket, as far as the socket takes it, and changes nothing else in the broker: the input ring, with
  the PUBACK that would give back the quota in it, is as it was. The turn is the processor's last, and the service is
  stopped.\<close>

theorem beyond_quota_disconnects:
  assumes "w_svcs w i = Some v" and "s_core v = Some g" and "\<not> s_closed v" and "BeyondQuota (s_sign v)"
  shows "\<exists>w'. processor_turn ev sp i w = (w', Ret False)
    \<and> w' = w\<lparr>w_svcs := (w_svcs w)(i \<mapsto> v\<lparr>s_direct := s_direct v
        @ (if socketFails ev i [0xE0, 2, 0x97, 0] then [] else [0xE0, 2, 0x97, 0])\<rparr>)\<rparr>
    \<and> processor_step ev sp i w = bindw (service_stop ev i False) (\<lambda>_. ret False) w'"
proof -
  obtain e where e: "sendBeyondQuota ev i w = (w\<lparr>w_svcs := (w_svcs w)(i \<mapsto> v\<lparr>s_direct := s_direct v
      @ (if socketFails ev i [0xE0, 2, 0x97, 0] then [] else [0xE0, 2, 0x97, 0])\<rparr>)\<rparr>, Ret e)"
    using sendBeyondQuota_writes [OF assms(1,2)] by blast
  have "streamController ev i w = (w\<lparr>w_svcs := (w_svcs w)(i \<mapsto> v\<lparr>s_direct := s_direct v
      @ (if socketFails ev i [0xE0, 2, 0x97, 0] then [] else [0xE0, 2, 0x97, 0])\<rparr>)\<rparr>, Ret (Some SText))"
    using assms(1,4) e by (simp add: streamController_def bindw_def get_svc_def ret_def)
  then have "processor_turn ev sp i w = (w\<lparr>w_svcs := (w_svcs w)(i \<mapsto> v\<lparr>s_direct := s_direct v
      @ (if socketFails ev i [0xE0, 2, 0x97, 0] then [] else [0xE0, 2, 0x97, 0])\<rparr>)\<rparr>, Ret False)"
    using assms(1,3) by (simp add: processor_turn_def bindw_def get_svc_def service_isDone_def ret_def)
  then show ?thesis
    by (simp add: processor_step_def)
qed

definition limited_service :: "unit service" where
  "limited_service = (new_service (Some (core32 (ring32 [0x40, 2, 0, 1] 0 4) (ring32 [] 0 0))) 0 small_env)
     \<lparr>s_sign := setBeyondQuota True (NewSign (\<lambda>_. ()) 1 1)\<rparr>"

theorem beyond_quota_disconnects_witness:
  "\<exists>w' u. processor_turn small_env [] 1 (new_world\<lparr>w_svcs := [1 \<mapsto> limited_service]\<rparr>) = (w', Ret False)
    \<and> w_svcs w' 1 = Some u \<and> s_direct u = [0xE0, 2, 0x97, 0] \<and> s_core u = s_core limited_service"
proof -
  have l: "w_svcs (new_world\<lparr>w_svcs := [1 \<mapsto> limited_service]\<rparr>) 1 = Some limited_service"
    "s_core limited_service = Some (core32 (ring32 [0x40, 2, 0, 1] 0 4) (ring32 [] 0 0))" "\<not> s_closed limited_service"
    "s_direct limited_service = []"
    by (simp_all add: limited_service_def new_service_def)
  have "BeyondQuota (s_sign limited_service)"
    by code_simp
  from beyond_quota_disconnects [OF l(1-3) this, of small_env "[]"] show ?thesis
    by (auto simp: l(4) small_env_def)
qed

section \<open>A disconnected subscriber\<close>

lemma gcore_Close_ends:
  assumes "g_done g \<noteq> 1" and "\<not> pheld (g_in g)" and "\<not> pheld (g_out g)"
  shows "\<exists>g'. gcore_Close g = (g', Ret ())"
  using assms by (simp add: gcore_Close_def Close_def signal_p_def Let_def)

text \<open>The end of a persistent session's connection leaves the topic manager as it is and the service without a core.\<close>

lemma service_stop_persistent:
  assumes "w_svcs w c = Some v" and "s_core v = Some g" and "g_done g \<noteq> 1" and "\<not> pheld (g_in g)" and "\<not> pheld (g_out g)"
    and "\<not> s_closed v" and "m_heap (w_mgr w) (s_sess v) = Some s" and "\<not> CleanSession (CMsg s)" and "\<not> WillFlag (CMsg s)"
  shows "\<exists>st. service_stop ev c False w = (w\<lparr>w_mgr := (w_mgr w)\<lparr>m_heap := (m_heap (w_mgr w))
        (s_sess v \<mapsto> SetOfflineTime (now ev) (SetStatus OFFLINE s)), m_store := st\<rparr>,
      w_svcs := (w_svcs w)(c \<mapsto> v\<lparr>s_closed := True, s_core := None\<rparr>)\<rparr>, Ret ())"
proof -
  obtain g' where g': "gcore_Close g = (g', Ret ())"
    using gcore_Close_ends [OF assms(3-5)] by blast
  have k: "CMsg (SetOfflineTime t (SetStatus x s)) = CMsg s" "CMsg (SetStatus x s) = CMsg s" for t x
    by (simp_all add: CMsg_def SetOfflineTime_def SetStatus_def)
  show ?thesis
    using assms(1,2,6-9)
    by (simp add: service_stop_def stop_body_def bindw_def get_svc_def put_svc_def mod_svc_def mod_sess_def get_sess_def
        put_sess_def close_core_def end_session_def Save_def ret_def g' k) (rule exI, rule refl)
qed

lemma onPub_stopped:
  assumes "publish_ok p" and "QoS p = 0" and "Qos sb = 0"
    and "w_svcs w c = Some v" and "s_core v = None" and "m_heap (w_mgr w) (s_sess v) = Some s"
    and "NoLocal sb \<longrightarrow> cid v \<noteq> sender"
    and "MaxPacketSize s = 0 \<or> length (publish_bytes (copy_for sb p)) \<le> unat (MaxPacketSize s)"
  shows "onPub c (copy_for sb p) sb sender sh w = (w, Panicked)"
proof -
  note c = copy_ok [OF assms(1,3)]
  define m where "m = (if MaxPacketSize s \<noteq> 0 then built (copy_for sb p) else copy_for sb p)"
  have tl: "too_long (MaxPacketSize s) (copy_for sb p) w = (w, Ret (m, False))"
    using assms(8) publish_built_again(4) [OF c(1)] c(2) by (auto simp: too_long_def m_def ret_def)
  have q: "QoS m = 0"
    using c(5) by (simp add: m_def)
  have nil: "QoS (SetNilTopicAndAlias a x) = QoS x" "QoS (SetSubscriptionIdentifier k x) = QoS x"
    "topic (SetSubscriptionIdentifier k x) = topic x" "topic (SetRetain False x) = topic x" for a k x
    by (simp_all add: SetNilTopicAndAlias_def SetSubscriptionIdentifier_def SetRetain_def QoS_def Flags_def)
  have wr: "service_publish c x LogSent w = (w, Panicked)" if "QoS x = 0" for x
    using that assms(4,5) by (simp add: service_publish_def bindw_def write_core_def get_svc_def crash_def)
  show ?thesis
    using assms(7)
    by (cases "RetainAsPublished sb"; cases "SubIdentifier sb > 0"; cases "GetTopicAlice (topic m) s")
      (auto simp: onPub_def bindw_def get_sess_def get_svc_def assms(4,6) tl q QoS_noretain nil wr ret_def Let_def)
qed


text \<open>A turn of a processor that finds a PUBLISH at the front of its input ring, up to the handler\<close>

lemma processor_takes:
  assumes "w_svcs w i = Some u" and "s_core u = Some g" and "\<not> s_closed u" and "\<not> BeyondQuota (s_sign u)"
    and "Limit (limiterHit ev) (s_sign u) = (False, sg)" and "in_ready (g_in g)"
    and "contents (g_in g) = publish_bytes p @ zs" and "publish_ok p" and "payload_plain p"
    and "int (length (publish_bytes p)) \<le> cfg_MaxPacketSize ev"
  shows "\<exists>g'. g_out g' = g_out g \<and> contents (g_in g') = zs
    \<and> processor_turn ev sp i w = bindw (processIncoming ev i (MPublish (decoded (publish_bytes p) p)))
        (\<lambda>e. case e of None \<Rightarrow> ret True | Some e \<Rightarrow> handle_error ev i e)
        (w\<lparr>w_svcs := (w_svcs w)(i \<mapsto> u\<lparr>s_sign := sg, s_core := Some g'\<rparr>)\<rparr>)"
proof -
  let ?n = "length (publish_body p)" and ?l = "length (publish_bytes p)" and ?m = "decoded (publish_bytes p) p"
  have n: "?n < 2 ^ 28" "mtype_of (drop_bit 4 (mtf p)) = PUBLISH"
    using assms(8) by (simp_all add: publish_ok_def Type_def)
  obtain t where s: "peekMessageSize g = (g\<lparr>g_in := (g_in g)\<lparr>tmp := t\<rparr>\<rparr>, Ret (Inr (PUBLISH, int ?l)))" (is "_ = (?g1, _)")
    using peekMessageSize_frame [of g "mtf p" ?n "publish_body p @ zs"] assms(6,7) n
    by (auto simp: in_ready_def publish_bytes_def)
  have "msg_Decode (GSlice (publish_bytes p) sp) (MPublish NewPublishMessage) = Go (?l, MPublish ?m)" for sp
    using publish_Decode_bytes [OF assms(8,9), of "GSlice (publish_bytes p) sp"] by simp
  then obtain b where b: "peekMessage sp PUBLISH (int ?l) ?g1 = (?g1\<lparr>g_in := b\<rparr>, Ret (Inr (MPublish ?m, ?l, None)))"
      "contents b = zs"
    using peekMessage_frame [of ?g1 "publish_bytes p" zs PUBLISH "MPublish NewPublishMessage" "MPublish ?m" sp] assms(6,7)
    by (auto simp: in_ready_def mtype_New_def)
  define g' where "g' = ?g1\<lparr>g_in := b, inStat := Incr (word_of_nat ?l) (inStat g)\<rparr>"
  have "processor_turn ev sp i w = bindw (processIncoming ev i (MPublish ?m))
        (\<lambda>e. case e of None \<Rightarrow> ret True | Some e \<Rightarrow> handle_error ev i e)
        (w\<lparr>w_svcs := (w_svcs w)(i \<mapsto> u\<lparr>s_sign := sg, s_core := Some g'\<rparr>)\<rparr>)"
    using assms(1-5,10) s b(1)
    by (simp add: processor_turn_def bindw_def get_svc_def put_svc_def service_isDone_def streamController_def core_op_def
        ret_def g'_def)
  then show ?thesis
    using b(2) by (intro exI [of _ g']) (simp add: g'_def)
qed

text \<open>In a world where the first subscription that matches belongs to a service without a core\<close>

lemma publish_panics:
  assumes "publish_ok p" and "payload_plain p" and "QoS p = 0" and "\<not> Retain p" and "publish.topicAlias p = 0"
    and "w_svcs w i = Some u" and "\<not> clusterOpen u" and "m_heap (w_mgr w) (s_sess u) = Some r"
    and "aclPub ev (ccid u) (decoded (publish_bytes p) p)" and "0 \<le> MaxQos ev"
    and "Subscribers (random ev) (topic p) 0 [] False [] True (w_topics w) = ([], None)"
    and "Subscribers (random ev) (topic p) 0 [] False [] False (w_topics w) = ((c, sb) # xs, None)"
    and "Qos sb = 0" and "w_svcs w c = Some v" and "s_core v = None" and "m_heap (w_mgr w) (s_sess v) = Some s"
    and "NoLocal sb \<longrightarrow> cid v \<noteq> cid u"
    and "MaxPacketSize s = 0 \<or> length (publish_bytes (copy_for sb p)) \<le> unat (MaxPacketSize s)"
  shows "processPublish ev i (decoded (publish_bytes p) p) w = (w, Panicked)"
proof -
  let ?m = "decoded (publish_bytes p) p" and ?n = "SetRetain False (decoded (publish_bytes p) p)"
  have m: "QoS ?m = 0" "\<not> Retain ?m" "topic ?m = topic p" "publish.topicAlias ?m = 0" "\<not> dirty ?m" "dbuf ?m = publish_bytes p"
    using assms(3-5) by (simp_all add: decoded_def QoS_def Retain_def Flags_def)
  have n: "\<not> dirty ?n" "dbuf ?n = publish_bytes p"
    using m by (simp_all add: SetRetain_def)
  have al: "topicAliceIn i ?m w = (w, Ret (?m, None))"
    unfolding topicAliceIn_def bindw_def get_sess_def get_svc_def assms(6) using assms(8) m by (simp add: Let_def ret_def)
  have pan: "onPub c (copy_for sb p) sb (cid u) False w = (w, Panicked)"
    by (rule onPub_stopped [OF assms(1,3,13-18)])
  have "lookSend False i ?n ((c, sb) # xs) False w = (w, Panicked)"
    using pan assms(6) by (simp add: copyMsg_wire [OF assms(1,2) n] bindw_def write_back_def get_svc_def)
  then have "pubFn ev False i ?m [] False w = (w, Panicked)"
    using assms(12) m by (simp add: pubFn_def pub_to_def bindw_def write_back_def Let_def)
  moreover have "sendShareToCluster ev i ?m w = (w, Ret ())"
    using assms(6,7,11) m
    by (simp add: sendShareToCluster_def bindw_def get_svc_def openCluster_def pubFnPlus_def pub_to_def Let_def
        write_back_def ret_def)
  ultimately have "onPublish ev i ?m w = (w, Panicked)"
    using m by (simp add: onPublish_def bindw_def retain_def keeps_def recopy_wire [OF assms(1,2) m(5,6)])
  then show ?thesis
    using assms(6,9,10) m al by (simp add: processPublish_def bindw_def get_svc_def)
qed

text \<open>C22: a subscriber that has gone takes its publishers down. After the connection of a client with a
  persistent session and no will has ended, with no mutex of its rings held, its service stays in the topic tree
  without a core. Let another running client, within its send quota and not rate limited, on a broker without a
  cluster, then send a QoS 0 message of at most the configured packet size that the access control allows, not
  retained, without a topic alias, with a payload that is not empty and does not start with a property identifier
  byte, which no shared subscription matches, and whose first match is a QoS 0 subscription of the stopped client, not
  excluded by no-local and with a maximum packet size that the message respects. Then the turn of that publisher's
  processor that takes the packet from its ring, of which no mutex is held, panics: nothing is written for anybody, to
  an output ring or to a socket, and the panic stops the publisher's service.\<close>

theorem stopped_subscriber_panics:
  assumes "publish_ok p" and "payload_plain p" and "QoS p = 0" and "\<not> Retain p" and "publish.topicAlias p = 0"
    and "w_svcs w c = Some v" and "s_core v = Some g" and "g_done g \<noteq> 1" and "\<not> pheld (g_in g)" and "\<not> pheld (g_out g)"
    and "\<not> s_closed v" and "m_heap (w_mgr w) (s_sess v) = Some s" and "\<not> CleanSession (CMsg s)" and "\<not> WillFlag (CMsg s)"
    and "w_svcs w i = Some u" and "i \<noteq> c" and "\<not> clusterOpen u" and "m_heap (w_mgr w) (s_sess u) = Some r"
    and "s_core u = Some h" and "\<not> s_closed u" and "\<not> BeyondQuota (s_sign u)"
    and "Limit (limiterHit ev) (s_sign u) = (False, sg)" and "in_ready (g_in h)" and "contents (g_in h) = publish_bytes p @ zs"
    and "int (length (publish_bytes p)) \<le> cfg_MaxPacketSize ev"
    and "aclPub ev (ccid u) (decoded (publish_bytes p) p)" and "0 \<le> MaxQos ev"
    and "Subscribers (random ev) (topic p) 0 [] False [] True (w_topics w) = ([], None)"
    and "Subscribers (random ev) (topic p) 0 [] False [] False (w_topics w) = ((c, sb) # xs, None)"
    and "Qos sb = 0" and "NoLocal sb \<longrightarrow> cid v \<noteq> cid u"
    and "MaxPacketSize s = 0 \<or> length (publish_bytes (copy_for sb p)) \<le> unat (MaxPacketSize s)"
  shows "\<exists>w1 w2. service_stop ev c False w = (w1, Ret ()) \<and> processor_turn ev sp i w1 = (w2, Panicked)
    \<and> (\<forall>j. outgoing w2 j = outgoing w1 j \<and> map_option s_direct (w_svcs w2 j) = map_option s_direct (w_svcs w1 j))
    \<and> processor_step ev sp i w1 = bindw (service_stop ev i False) (\<lambda>_. ret False) w2"
proof -
  let ?m = "decoded (publish_bytes p) p"
  let ?s = "SetOfflineTime (now ev) (SetStatus OFFLINE s)" and ?v = "v\<lparr>s_closed := True, s_core := None\<rparr>"
  obtain st where w1: "service_stop ev c False w = (w\<lparr>w_mgr := (w_mgr w)\<lparr>m_heap := (m_heap (w_mgr w))(s_sess v \<mapsto> ?s),
      m_store := st\<rparr>, w_svcs := (w_svcs w)(c \<mapsto> ?v)\<rparr>, Ret ())" (is "_ = (?w, _)")
    using service_stop_persistent [OF assms(6-14)] by blast
  have u: "w_svcs ?w i = Some u"
    using assms(15,16) by simp
  obtain h' where h': "g_out h' = g_out h" and turn: "processor_turn ev sp i ?w = bindw (processIncoming ev i (MPublish ?m))
        (\<lambda>e. case e of None \<Rightarrow> ret True | Some e \<Rightarrow> handle_error ev i e)
        (?w\<lparr>w_svcs := (w_svcs ?w)(i \<mapsto> u\<lparr>s_sign := sg, s_core := Some h'\<rparr>)\<rparr>)" (is "_ = bindw _ _ ?x")
    using processor_takes [OF u assms(19-24,1,2,25), of sp] by blast
  let ?u = "u\<lparr>s_sign := sg, s_core := Some h'\<rparr>"
  obtain r' where r: "m_heap (w_mgr ?x) (s_sess ?u) = Some r'"
    using assms(18) by (cases "s_sess u = s_sess v") simp_all
  have x: "w_svcs ?x i = Some ?u" "\<not> clusterOpen ?u" "aclPub ev (ccid ?u) ?m" "w_topics ?x = w_topics w" "w_svcs ?x c = Some ?v"
    "s_core ?v = None" "m_heap (w_mgr ?x) (s_sess ?v) = Some ?s" "cid ?v = cid v" "cid ?u = cid u" "MaxPacketSize ?s = MaxPacketSize s"
    using assms(16,17,26) by (simp_all add: cid_def MaxPacketSize_def SetOfflineTime_def SetStatus_def)
  have "processPublish ev i ?m ?x = (?x, Panicked)"
    by (rule publish_panics [OF assms(1-5) x(1,2) r x(3) assms(27) _ _ assms(30) x(5-7)])
      (use assms(28,29,31,32) x(4,8-10) in simp_all)
  then have t: "processor_turn ev sp i ?w = (?x, Panicked)"
    by (simp add: turn processIncoming_def bindw_def)
  moreover have "outgoing ?x j = outgoing ?w j \<and> map_option s_direct (w_svcs ?x j) = map_option s_direct (w_svcs ?w j)" for j
    using assms(15,16,19) h' by (auto simp: outgoing_def)
  moreover have "processor_step ev sp i ?w = bindw (service_stop ev i False) (\<lambda>_. ret False) ?x"
    by (simp add: processor_step_def t)
  ultimately show ?thesis
    using w1 by blast
qed

definition talking :: "unit service" where
  "talking = new_service (Some (core32 (ring32 (publish_bytes greeting) 0 10) (ring32 [] 0 0))) 0 small_env"

theorem stopped_subscriber_panics_witness:
  "\<exists>w1 w2. service_stop small_env 2 False (pair_world\<lparr>w_svcs := (w_svcs pair_world)(1 \<mapsto> talking)\<rparr>) = (w1, Ret ())
    \<and> processor_turn small_env [] 1 w1 = (w2, Panicked) \<and> outgoing w2 2 = []"
proof -
  let ?w = "pair_world\<lparr>w_svcs := (w_svcs pair_world)(1 \<mapsto> talking)\<rparr>"
  let ?g = "core32 (ring32 [] 0 0) (ring32 [] 0 0)" and ?h = "core32 (ring32 (publish_bytes greeting) 0 10) (ring32 [] 0 0)"
  let ?v = "new_service (Some ?g) 0 small_env" and ?s = "session_of NewConnectMessage"
  have v: "w_svcs ?w 2 = Some ?v" "s_core ?v = Some ?g" "g_done ?g \<noteq> 1" "\<not> pheld (g_in ?g)" "\<not> pheld (g_out ?g)"
    "\<not> s_closed ?v" "m_heap (w_mgr ?w) (s_sess ?v) = Some ?s"
    by (simp_all add: pair_world_def new_service_def core32_def ring32_def)
  have s: "\<not> CleanSession (CMsg ?s)" "\<not> WillFlag (CMsg ?s)"
    unfolding session_of_def CMsg_def session.simps by code_simp+
  have u: "w_svcs ?w 1 = Some talking" "(1 :: nat) \<noteq> 2" "\<not> clusterOpen talking" "m_heap (w_mgr ?w) (s_sess talking) = Some ?s"
    "s_core talking = Some ?h" "\<not> s_closed talking"
    by (simp_all add: pair_world_def new_service_def talking_def)
  have q: "\<not> BeyondQuota (s_sign talking)" "Limit (limiterHit small_env) (s_sign talking) = (False, s_sign talking)"
    by (simp_all add: talking_def new_service_def NewSign_def BeyondQuota_def Limit_def small_env_def)
  have h: "in_ready (g_in ?h)" "contents (g_in ?h) = publish_bytes greeting @ []"
    by code_simp+
  have l: "int (length (publish_bytes greeting)) \<le> cfg_MaxPacketSize small_env"
    by code_simp
  have a: "aclPub small_env (ccid talking) m" "0 \<le> MaxQos small_env" for m
    by (simp_all add: small_env_def)
  have xs: "Subscribers (random small_env) (topic greeting) 0 [] False [] False (w_topics ?w) = ((2, no_sub) # [], None)"
    "Subscribers (random small_env) (topic greeting) 0 [] False [] True (w_topics ?w) = ([], None)"
    using pair_world_found by (simp_all add: greeting_ok(6) prod_eq_iff)
  have n: "Qos no_sub = 0" "NoLocal no_sub \<longrightarrow> cid ?v \<noteq> cid talking"
    by (simp_all add: no_sub_def)
  have "MaxPacketSize ?s = 1024"
    by (simp add: session_of_def MaxPacketSize_def NewConnectMessage_def Connect.SetMaxPacketSize_def)
  then have mx: "MaxPacketSize ?s = 0 \<or> length (publish_bytes (copy_for no_sub greeting)) \<le> unat (MaxPacketSize ?s)"
    by (simp add: greeting_ok)
  obtain w1 w2 where "service_stop small_env 2 False ?w = (w1, Ret ())" "processor_turn small_env [] 1 w1 = (w2, Panicked)"
    "outgoing w2 2 = outgoing w1 2"
    using stopped_subscriber_panics [OF greeting_ok(1-5) v s u(1-6) q h l a xs(2,1) n mx, of "[]"] by blast
  moreover from this(1) have "outgoing w1 2 = []"
    using service_stop_persistent [OF v s, of small_env] by (auto simp: outgoing_def)
  ultimately show ?thesis
    by auto
qed

end
