(* ===== verification/QosTwo.thy ===== *)
theory QosTwo
  imports BrokerRuns
begin

text \<open>
  The QoS 2 handshake of a publisher, from broker/core/service/v1/process.go: a PUBLISH waits in the queue
  \<open>Pub2in\<close> of the session, repeated ones are recognised by their identifier, and PUBREL hands the message over.
\<close>

section \<open>The replies\<close>

definition reply :: "mtype \<Rightarrow> uint16 \<Rightarrow> bytes" where
  "reply t n = first_byte t (DefaultFlags t) # 2 # put16 n"

definition plain_ack :: "mtype \<Rightarrow> uint16 \<Rightarrow> puback" where
  "plain_ack t n = SetPacketId n (new_ack t)"

lemma plain_ack_ok:
  assumes "t \<in> {PUBREC, PUBCOMP}" and "n \<noteq> 0"
  shows "ack_ok (\<lambda>_. True) (plain_ack t n)" and "dirty (plain_ack t n)" and "ack_bytes (plain_ack t n) = reply t n"
    and "reasonStr (plain_ack t n) = []" and "puback.userProperty (plain_ack t n) = []" and "Type (plain_ack t n) = t"
proof -
  have m: "plain_ack t n = (new_ack t)\<lparr>packetId := put16 n\<rparr>"
    using assms(2) by (simp add: plain_ack_def SetPacketId_def new_ack_def new_header_def header.defs)
  have f: "flags_ok (first_byte t (DefaultFlags t))" "mtype_of (drop_bit 4 (first_byte t (DefaultFlags t))) = t"
    using assms(1) by auto code_simp+
  have v: "varint 2 = [2]"
    by code_simp
  have a: "ack_tail (plain_ack t n) = []" "mtf (plain_ack t n) = first_byte t (DefaultFlags t)" "packetId (plain_ack t n) = put16 n"
    "reasonCode (plain_ack t n) = 0"
    by (simp_all add: m ack_tail_def ack_props_def new_ack_def new_header_def header.defs opt_bytes_def)
  show t: "reasonStr (plain_ack t n) = []" "puback.userProperty (plain_ack t n) = []" "dirty (plain_ack t n)"
    "Type (plain_ack t n) = t"
    using f by (simp_all add: m new_ack_def new_header_def header.defs Type_def)
  show "ack_ok (\<lambda>_. True) (plain_ack t n)"
    using f assms(1) by (auto simp: ack_ok_def a t exempt_def strs_ok_def)
  show "ack_bytes (plain_ack t n) = reply t n"
    using v by (simp add: ack_bytes_def a reply_def)
qed

lemma puback_Len_ok:
  assumes "ack_ok valid m" and "dirty m"
  shows "puback_Len m = Some (length (ack_bytes m), ack_built m)"
proof -
  note z = ack_sizes [OF assms(1)]
  have "remlen (ack_built m) \<le> maxRemainingLength"
    using z(2,4) by (simp add: unat_le_max)
  moreover have "length (packetId m) = 2"
    using assms(1) by (simp add: ack_ok_def)
  ultimately have "header_msglen (ack_built m) + unat (remlen (ack_built m)) = length (ack_bytes m)"
    using length_varint_remlen [of "ack_built m"] by (simp add: z(2) ack_bytes_def)
  then show ?thesis
    using assms by (simp add: puback_Len_def ack_build_ok [OF assms(1)] ack_set_built [OF assms(1)])
qed

lemma ack_ok_built: "ack_ok valid m \<Longrightarrow> ack_ok valid (ack_built m)"
  by (simp add: ack_ok_def)

lemma ack_encodes:
  assumes "ack_ok valid m"
  shows "encodes (MPubrec (ack_built m)) (ack_bytes m)" and "encodes (MPubcomp (ack_built m)) (ack_bytes m)"
    and "encodes (MPubrel (ack_built m)) (ack_bytes m)"
proof -
  have e: "puback_Encode (into d k (ack_built m)) = Go ((into d k (ack_built m))\<lparr>e_dst := blit d 0 (ack_bytes m),
      e_tot := length (ack_bytes m), e_msg := ack_built (ack_built m)\<rparr>)" if "length (ack_bytes m) \<le> length d" for d k
    using puback_Encode_bytes [of valid "into d k (ack_built m)"] ack_ok_built [OF assms] that by (simp add: into_def)
  show "encodes (MPubrec (ack_built m)) (ack_bytes m)" "encodes (MPubcomp (ack_built m)) (ack_bytes m)"
    "encodes (MPubrel (ack_built m)) (ack_bytes m)"
    unfolding encodes_def using e by (auto simp: into_def blit_fits)
qed

lemma reply_written:
  assumes "n \<noteq> 0"
  shows "msg_Len (delRequestRespInfo g (MPubrec (plain_ack PUBREC n))) = Some (length (reply PUBREC n), MPubrec (ack_built (plain_ack PUBREC n)))"
    and "msg_Len (delRequestRespInfo g (MPubcomp (plain_ack PUBCOMP n))) = Some (length (reply PUBCOMP n), MPubcomp (ack_built (plain_ack PUBCOMP n)))"
    and "encodes (MPubrec (ack_built (plain_ack PUBREC n))) (reply PUBREC n)"
    and "encodes (MPubcomp (ack_built (plain_ack PUBCOMP n))) (reply PUBCOMP n)"
proof -
  have clean: "Puback.SetUserProperties [] (Puback.SetReasonStr [] (plain_ack t n)) = plain_ack t n" if "t \<in> {PUBREC, PUBCOMP}" for t
    using plain_ack_ok [OF that assms] by (simp add: Puback.SetUserProperties_def Puback.SetReasonStr_def)
  have r: "PUBREC \<in> {PUBREC, PUBCOMP}" "PUBCOMP \<in> {PUBREC, PUBCOMP}"
    by simp_all
  note a = plain_ack_ok [OF r(1) assms] and b = plain_ack_ok [OF r(2) assms]
  show "msg_Len (delRequestRespInfo g (MPubrec (plain_ack PUBREC n))) = Some (length (reply PUBREC n), MPubrec (ack_built (plain_ack PUBREC n)))"
    using puback_Len_ok [OF a(1,2)] a(3) clean [OF r(1)] by (simp add: delRequestRespInfo_def len_as_def)
  show "msg_Len (delRequestRespInfo g (MPubcomp (plain_ack PUBCOMP n))) = Some (length (reply PUBCOMP n), MPubcomp (ack_built (plain_ack PUBCOMP n)))"
    using puback_Len_ok [OF b(1,2)] b(3) clean [OF r(2)] by (simp add: delRequestRespInfo_def len_as_def)
  show "encodes (MPubrec (ack_built (plain_ack PUBREC n))) (reply PUBREC n)"
    using ack_encodes(1) [OF a(1)] a(3) by simp
  show "encodes (MPubcomp (ack_built (plain_ack PUBCOMP n))) (reply PUBCOMP n)"
    using ack_encodes(2) [OF b(1)] b(3) by simp
qed

section \<open>The queue\<close>

definition idle :: "queue \<Rightarrow> bool" where
  "idle q \<longleftrightarrow> aq_wf q \<and> State (aq_ping q) \<noteq> PINGRESP"

lemma encoding_wire:
  assumes "\<not> dirty m" and "dbuf m = bs"
  shows "encoding k (MPublish m) = Some ((bs, None), MPublish m, k)"
  using assms by (simp add: encoding_def publish_Len_def len_as_def publish_Encode_def into_def blit_fits)

lemma encoding_release:
  assumes "ack_ok valid r" and "dirty r"
  shows "\<exists>m' k'. encoding k (MPubrel r) = Some ((ack_bytes r, None), m', k')"
  using puback_Len_ok [OF assms] encodesD [OF ack_encodes(3) [OF assms(1)], of "replicate (length (ack_bytes r)) 0" k]
  by (auto simp: encoding_def len_as_def)

lemma queue_Wait_new:
  assumes "idle q" and "QoS m = QosExactlyOnce" and "Type m = PUBLISH" and "\<not> dirty m" and "dbuf m = bs" and "PacketId m \<notin> Pktid ` set (entries q)"
  shows "\<exists>q'. queue_Wait k (MPublish m) onc q = Some (q', None, MPublish m, k) \<and> idle q'
    \<and> entries q' = entries q @ [new_entry (amsg_of (bs, None) (MPublish m)) onc]"
proof -
  have wf: "aq_wf q" "aq_count q < 2 ^ 62"
    using assms(1) count_le [of q] by (simp_all add: idle_def)
  let ?a = "amsg_of (bs, None) (MPublish m)"
  have a: "a_type ?a = PUBLISH" "a_pktid ?a = PacketId m" "a_qos ?a = QosExactlyOnce" "a_enc ?a = (bs, None)"
    using assms(2,3) by (simp_all add: amsg_of_def)
  have e: "aq_emap q (PacketId m) = None"
    using emap_None [OF wf(1)] assms(6) by simp
  obtain q' where q': "aq_insert (PacketId m) ?a onc q = Some (q', insert_err ?a (entries q))" "aq_wf q'"
    "entries q' = spec_insert ?a onc (entries q)" "aq_ping q' = aq_ping q"
    using insert_ok [OF wf, of ?a onc] a(2) by auto
  have "queue_Wait k (MPublish m) onc q = Some (q', None, MPublish m, k)"
    using q'(1) a e assms(2) encoding_wire [OF assms(4,5)]
    by (simp add: queue_Wait_def queued_type_def Wait_def)
  then show ?thesis
    using q' a assms(1,6) by (auto simp: idle_def spec_insert_def)
qed

lemma queue_Wait_again:
  assumes "idle q" and "QoS m = QosExactlyOnce" and "Type m = PUBLISH" and "PacketId m \<in> Pktid ` set (entries q)"
  shows "\<exists>q'. queue_Wait k (MPublish m) onc q = Some (q', None, MPublish m, k) \<and> idle q' \<and> entries q' = entries q"
proof -
  have wf: "aq_wf q" "aq_count q < 2 ^ 62"
    using assms(1) count_le [of q] by (simp_all add: idle_def)
  let ?a = "amsg_of ([], None) (MPublish m)"
  have a: "a_type ?a = PUBLISH" "a_pktid ?a = PacketId m" "a_qos ?a = QosExactlyOnce"
    using assms(2,3) by (simp_all add: amsg_of_def)
  have e: "aq_emap q (PacketId m) \<noteq> None"
    using emap_None [OF wf(1)] assms(4) by simp
  obtain q' where q': "aq_insert (PacketId m) ?a onc q = Some (q', insert_err ?a (entries q))" "aq_wf q'"
    "entries q' = spec_insert ?a onc (entries q)" "aq_ping q' = aq_ping q"
    using insert_ok [OF wf, of ?a onc] a(2) by auto
  have "queue_Wait k (MPublish m) onc q = Some (q', None, MPublish m, k)"
    using q'(1) a e assms(2) by (auto simp: queue_Wait_def queued_type_def Wait_def)
  then show ?thesis
    using q' a assms(1,4) by (auto simp: idle_def spec_insert_def)
qed

lemma done_release: "done_state PUBREL" "\<not> done_state RESERVED"
  by (simp_all add: done_state_def)

lemma queue_release:
  assumes "idle q" and "entries q = [e]" and "Pktid e = PacketId r" and "Type r = PUBREL" and "ack_ok valid r" and "dirty r"
  shows "\<exists>q' k'. queue_Ack k (MPubrel r) q = Some (q', None, k') \<and> aq_wf q' \<and> State (aq_ping q') \<noteq> PINGRESP
    \<and> idle (fst (Acked q')) \<and> entries (fst (Acked q')) = [] \<and> snd (Acked q') = [e\<lparr>State := PUBREL, Ackbuf := ack_bytes r\<rparr>]"
proof -
  have wf: "aq_wf q"
    using assms(1) by (simp add: idle_def)
  obtain m' k' where en: "encoding k (MPubrel r) = Some ((ack_bytes r, None), m', k')"
    using encoding_release [OF assms(5,6)] by blast
  let ?a = "amsg_of (ack_bytes r, None) (MPubrel r)"
  have a: "a_type ?a = PUBREL" "a_pktid ?a = PacketId r" "a_enc ?a = (ack_bytes r, None)"
    using assms(4) by (simp_all add: amsg_of_def)
  have em: "aq_emap q (PacketId r) \<noteq> None"
    using emap_None [OF wf] assms(2,3) by auto
  obtain q' err where q': "Ack ?a q = Some (q', err)" "aq_wf q'" "entries q' = spec_ack ?a (entries q)" "aq_ping q' = aq_ping q"
    using Ack_ok [OF wf, of ?a] a(1) by auto
  have err: "err = None"
    using q'(1) a em by (auto simp: Ack_def Let_def split: option.splits if_splits)
  have es: "entries q' = [e\<lparr>State := PUBREL, Ackbuf := ack_bytes r\<rparr>]"
    using q'(3) a assms(2,3) by (simp add: spec_ack_def)
  have "queue_Ack k (MPubrel r) q = Some (q', None, k')"
    using en q'(1) em assms(4) by (auto simp: queue_Ack_def err)
  moreover have "State (aq_ping q') \<noteq> PINGRESP"
    using assms(1) q'(4) by (simp add: idle_def)
  ultimately show ?thesis
    using Acked_ok [OF q'(2)] es q'(2) done_release by (auto simp: idle_def)
qed

lemma queue_release_again:
  assumes "idle q" and "entries q = []" and "Type r = PUBREL"
  shows "\<exists>q'. queue_Ack k (MPubrel r) q = Some (q', None, k) \<and> aq_wf q' \<and> State (aq_ping q') \<noteq> PINGRESP
    \<and> idle (fst (Acked q')) \<and> entries (fst (Acked q')) = [] \<and> snd (Acked q') = []"
proof -
  have wf: "aq_wf q"
    using assms(1) by (simp add: idle_def)
  let ?a = "amsg_of ([], None) (MPubrel r)"
  have a: "a_type ?a = PUBREL" "a_pktid ?a = PacketId r"
    using assms(3) by (simp_all add: amsg_of_def)
  have em: "aq_emap q (PacketId r) = None"
    using emap_None [OF wf] assms(2) by auto
  have "queue_Ack k (MPubrel r) q = Some (q, None, k)"
    using em a by (simp add: queue_Ack_def Ack_def)
  then show ?thesis
    using Acked_ok [OF wf] assms(1,2) wf by (auto simp: idle_def)
qed

section \<open>The handshake\<close>

text \<open>
  \<open>handshake d a es w w'\<close>: since \<open>w\<close> the queue of the session at \<open>a\<close> has come to hold \<open>es\<close> and \<open>d\<close> has been
  written; nothing else has changed.
\<close>

definition with_queue :: "nat \<Rightarrow> session \<Rightarrow> queue \<Rightarrow> 'r world \<Rightarrow> 'r world" where
  "with_queue a s q w = w\<lparr>w_mgr := (w_mgr w)\<lparr>m_heap := (m_heap (w_mgr w))(a \<mapsto> s\<lparr>pub2in := q\<rparr>)\<rparr>\<rparr>"

definition handshake :: "(nat \<Rightarrow> bytes) \<Rightarrow> nat \<Rightarrow> onComplete ackmsg list \<Rightarrow> 'r world \<Rightarrow> 'r world \<Rightarrow> bool" where
  "handshake d a es w w' \<longleftrightarrow> (\<exists>s q. m_heap (w_mgr w) a = Some s \<and> idle q \<and> entries q = es
     \<and> delivered d (with_queue a s q w) w')"

lemma handshake_refl:
  assumes "m_heap (w_mgr w) a = Some s" and "idle (pub2in s)"
  shows "handshake (\<lambda>_. []) a (entries (pub2in s)) w w"
proof -
  have "with_queue a s (pub2in s) w = w"
    using assms(1) by (simp add: with_queue_def fun_upd_idem)
  then show ?thesis
    using assms delivered_refl unfolding handshake_def by metis
qed

lemma handshake_then: "handshake d a es w w' \<Longrightarrow> delivered e w' w'' \<Longrightarrow> handshake (\<lambda>c. d c @ e c) a es w w''"
  unfolding handshake_def using delivered_trans by blast

lemma handshake_session:
  assumes "handshake d a es w w'"
  obtains s where "m_heap (w_mgr w') a = Some s" "idle (pub2in s)" "entries (pub2in s) = es"
  using assms that by (auto simp: handshake_def delivered_def with_queue_def)

lemma handshake_put:
  assumes "handshake d a es w w'" and "m_heap (w_mgr w') a = Some s" and "idle q" and "w'' = with_queue a s q w'\<lparr>w_gpid := k\<rparr>"
  shows "handshake d a (entries q) w w''"
proof -
  obtain s0 q0 where s0: "m_heap (w_mgr w) a = Some s0" and d: "delivered d (with_queue a s0 q0 w) w'"
    using assms(1) by (auto simp: handshake_def)
  have s: "s\<lparr>pub2in := q\<rparr> = s0\<lparr>pub2in := q\<rparr>"
    using d assms(2) by (auto simp: delivered_def with_queue_def)
  have "delivered d (with_queue a s0 q w) w''"
    using d s by (simp add: delivered_def with_queue_def assms(4))
  then show ?thesis
    using s0 assms(3) unfolding handshake_def by blast
qed

lemma room_with_queue: "room (with_queue a s q w) d = room w d"
  by (simp add: room_def with_queue_def)

lemma handshake_room: "handshake d a es w w' \<Longrightarrow> room w (\<lambda>c. d c @ e c) \<Longrightarrow> room w' e"
proof -
  assume "handshake d a es w w'" and r: "room w (\<lambda>c. d c @ e c)"
  then obtain s q where "delivered d (with_queue a s q w) w'"
    by (auto simp: handshake_def)
  from delivered_room [OF this, of e] r show ?thesis
    by (simp add: room_with_queue)
qed

lemma handshake_outgoing: "handshake d a es w w' \<Longrightarrow> outgoing w' c = outgoing w c @ d c"
  by (auto simp: handshake_def with_queue_def outgoing_def dest: delivered_outgoing [of _ _ _ c])

lemma handshake_hears:
  assumes "handshake d a es w w'" and "all_hear w sender p xs"
  shows "all_hear w' sender p xs"
proof -
  obtain s q where s: "m_heap (w_mgr w) a = Some s" and d: "delivered d (with_queue a s q w) w'"
    using assms(1) by (auto simp: handshake_def)
  have "all_hear (with_queue a s q w) sender p xs"
    using assms(2) s by (fastforce simp: all_hear_def hears_def with_queue_def MaxPacketSize_def GetTopicAlice_def CMsg_def)
  then show ?thesis
    using d delivered_all_hear by blast
qed

lemma handshake_topics: "handshake d a es w w' \<Longrightarrow> w_topics w' = w_topics w"
  by (auto simp: handshake_def delivered_def with_queue_def)

lemma handshake_open:
  assumes "handshake d a es w w'" and "w_svcs w c = Some v" and "s_core v = Some g" and "open_ring (g_out g)"
  obtains g' where "w_svcs w' c = Some (v\<lparr>s_core := Some g'\<rparr>)" "open_ring (g_out g')"
proof -
  obtain s q where d: "delivered d (with_queue a s q w) w'"
    using assms(1) by (auto simp: handshake_def)
  have "w_svcs (with_queue a s q w) c = Some v"
    using assms(2) by (simp add: with_queue_def)
  from delivered_open [OF d this assms(3,4)] that show ?thesis
    by blast
qed

section \<open>The handlers\<close>

lemma get_sess_at:
  "w_svcs w i = Some v \<Longrightarrow> m_heap (w_mgr w) (s_sess v) = Some s \<Longrightarrow> get_sess i w = (w, Ret s)"
  by (simp add: get_sess_def bindw_def get_svc_def)

lemma put_queue_at:
  assumes "w_svcs w i = Some v" and "m_heap (w_mgr w) (s_sess v) = Some s"
  shows "put_sess i (put_queue Pub2in q s) w = (with_queue (s_sess v) s q w, Ret ())"
  using assms by (simp add: put_sess_def bindw_def get_svc_def with_queue_def)

lemma write_reply:
  assumes "w_svcs w i = Some v" and "s_core v = Some g" and "open_ring (g_out g)" and "n \<noteq> 0"
  shows "room w (\<lambda>c. only_to i (reply PUBREC n) c @ e c) \<Longrightarrow>
      \<exists>w'. sent (write_core i (MPubrec (plain_ack PUBREC n))) w = (w', Ret None) \<and> delivered (only_to i (reply PUBREC n)) w w'"
    and "room w (\<lambda>c. only_to i (reply PUBCOMP n) c @ e c) \<Longrightarrow>
      \<exists>w'. sent (write_core i (MPubcomp (plain_ack PUBCOMP n))) w = (w', Ret None) \<and> delivered (only_to i (reply PUBCOMP n)) w w'"
proof -
  have fits: "int (length (contents (g_out g)) + length bs) \<le> rsize (g_out g)" if "room w (\<lambda>c. only_to i bs c @ e c)" for bs
    using that assms(1,2) unfolding room_def only_to_def by fastforce
  note wr = reply_written [OF assms(4)]
  show "\<exists>w'. sent (write_core i (MPubrec (plain_ack PUBREC n))) w = (w', Ret None) \<and> delivered (only_to i (reply PUBREC n)) w w'"
    if "room w (\<lambda>c. only_to i (reply PUBREC n) c @ e c)"
    using write_core_appends [OF assms(1-3) fits [OF that] wr(1) wr(3)] by (auto simp: sent_def bindw_def ret_def)
  show "\<exists>w'. sent (write_core i (MPubcomp (plain_ack PUBCOMP n))) w = (w', Ret None) \<and> delivered (only_to i (reply PUBCOMP n)) w w'"
    if "room w (\<lambda>c. only_to i (reply PUBCOMP n) c @ e c)"
    using write_core_appends [OF assms(1-3) fits [OF that] wr(2) wr(4)] by (auto simp: sent_def bindw_def ret_def)
qed

text \<open>A PUBLISH of the publisher at QoS 2\<close>

definition second :: "'r env \<Rightarrow> bytes \<Rightarrow> uint16 \<Rightarrow> publish \<Rightarrow> bool" where
  "second ev who n m \<longleftrightarrow> Type m = PUBLISH \<and> QoS m = QosExactlyOnce \<and> PacketId m = n \<and> n \<noteq> 0 \<and> \<not> Retain m
     \<and> publish.topicAlias m = 0 \<and> aclPub ev who m \<and> 2 \<le> MaxQos ev"

lemma publish_waits:
  assumes h: "handshake d (s_sess v) es w0 w" and "w_svcs w0 i = Some v" and "s_core v = Some g" and "open_ring (g_out g)"
    and sec: "second ev (ccid v) n m"
    and new: "\<And>q k. idle q \<Longrightarrow> entries q = es \<Longrightarrow>
      \<exists>q'. queue_Wait k (MPublish m) NoCallback q = Some (q', None, MPublish m, k) \<and> idle q' \<and> entries q' = es'"
    and rm: "room w (\<lambda>c. only_to i (reply PUBREC n) c @ e c)"
  shows "\<exists>w'. processIncoming ev i (MPublish m) w = (w', Ret None)
    \<and> handshake (\<lambda>c. d c @ only_to i (reply PUBREC n) c) (s_sess v) es' w0 w'"
proof -
  have m: "QoS m = 2" "PacketId m = n" "n \<noteq> 0" "\<not> Retain m" "publish.topicAlias m = 0" "aclPub ev (ccid v) m" "2 \<le> MaxQos ev"
    using sec by (simp_all add: second_def)
  obtain g' where v': "w_svcs w i = Some (v\<lparr>s_core := Some g'\<rparr>)" "open_ring (g_out g')"
    using handshake_open [OF h assms(2-4)] .
  obtain s where s: "m_heap (w_mgr w) (s_sess v) = Some s" "idle (pub2in s)" "entries (pub2in s) = es"
    using handshake_session [OF h] .
  have s': "m_heap (w_mgr w) (s_sess (v\<lparr>s_core := Some g'\<rparr>)) = Some s"
    using s(1) by simp
  obtain q' where q': "queue_Wait (w_gpid w) (MPublish m) NoCallback (pub2in s) = Some (q', None, MPublish m, w_gpid w)"
    "idle q'" "entries q' = es'"
    using new [OF s(2,3)] by blast
  let ?w = "with_queue (s_sess v) s q' w"
  have sg: "w\<lparr>w_gpid := w_gpid w\<rparr> = w"
    by simp
  have wt: "wait_on Pub2in i (MPublish m) NoCallback w = (?w, Ret (MPublish m, None))"
    using get_sess_at [OF v'(1) s'] put_queue_at [OF v'(1) s'] q'(1)
    by (simp add: wait_on_def bindw_def ret_def sg)
  have hw: "handshake d (s_sess v) es' w0 ?w"
    using handshake_put [OF h s(1) q'(2), of ?w "w_gpid w"] q'(3) by (simp add: with_queue_def)
  have w1: "w_svcs ?w i = Some (v\<lparr>s_core := Some g'\<rparr>)" "s_core (v\<lparr>s_core := Some g'\<rparr>) = Some g'"
    using v' by (simp_all add: with_queue_def)
  obtain w' where w': "sent (write_core i (MPubrec (plain_ack PUBREC n))) ?w = (w', Ret None)"
    "delivered (only_to i (reply PUBREC n)) ?w w'"
    using write_reply(1) [OF w1 v'(2) m(3)] rm by (auto simp: room_with_queue)
  have "processIncoming ev i (MPublish m) w = (w', Ret None)"
    using v'(1) m no_alias [OF v'(1) s' m(5)] wt w'(1)
    by (simp add: processIncoming_def processPublish_def bindw_def get_svc_def plain_ack_def NewPubrecMessage_def)
  then show ?thesis
    using handshake_then [OF hw w'(2)] by blast
qed

text \<open>The PUBREL of the publisher\<close>

definition releasing :: "uint16 \<Rightarrow> puback \<Rightarrow> bool" where
  "releasing n r \<longleftrightarrow> ack_ok ValidPubRelReasonCode r \<and> dirty r \<and> ack_followed r \<and> Type r = PUBREL \<and> PacketId r = n \<and> n \<noteq> 0"

lemma processAcked_release:
  assumes "publish_ok p" and "payload_plain p" and "releasing n r" and "Mtype e = PUBLISH" and "Msgbuf e = publish_bytes p"
  shows "processAcked ev i [e\<lparr>State := PUBREL, Ackbuf := ack_bytes r\<rparr>] = bindw (onPublish ev i (decoded (publish_bytes p) p)) (\<lambda>_. ret ())"
proof -
  have p: "msg_Decode (exact (publish_bytes p)) (MPublish NewPublishMessage)
      = Go (length (publish_bytes p), MPublish (decoded (publish_bytes p) p))"
    using publish_Decode_bytes [OF assms(1,2), of "exact (publish_bytes p)"] by (simp add: exact_def)
  have t: "Type NewPubrelMessage = PUBREL"
    by code_simp
  have r: "ack_ok ValidPubRelReasonCode r" "ack_followed r" "Type r = PUBREL"
    using assms(3) by (simp_all add: releasing_def)
  have "reasonStr NewPubrelMessage = []" "puback.userProperty NewPubrelMessage = []" "propertyLen NewPubrelMessage = 0"
    "dirty NewPubrelMessage"
    by (simp_all add: NewPubrelMessage_def new_ack_def new_header_def header.defs)
  then obtain y where "ack_Decode ValidPubRelReasonCode (exact (ack_bytes r)) NewPubrelMessage = Go y"
    using ack_Decode_bytes [OF r(1,2), of "exact (ack_bytes r)" NewPubrelMessage] r(3) t by (auto simp: exact_def)
  then have a: "\<exists>z. msg_Decode (exact (ack_bytes r)) (MPubrel NewPubrelMessage) = Go z"
    by (simp add: pubrel_Decode_def)
  have np: "Type NewPublishMessage = PUBLISH"
    by code_simp
  show ?thesis
    using p a t np assms(4,5) by (auto simp: mtype_New_def)
qed

text \<open>The end of a handshake: the queue is emptied, what it releases is handed over, PUBCOMP is written.\<close>

lemma pubrel_releases:
  assumes h: "handshake d (s_sess v) es w0 w" and v: "w_svcs w0 i = Some v" "s_core v = Some g" "open_ring (g_out g)"
    and r: "releasing n r"
    and rel: "\<And>q k. idle q \<Longrightarrow> entries q = es \<Longrightarrow> \<exists>q' k'. queue_Ack k (MPubrel r) q = Some (q', None, k')
      \<and> idle (fst (Acked q')) \<and> entries (fst (Acked q')) = [] \<and> snd (Acked q') = rs"
    and pub: "\<And>w1. handshake d (s_sess v) [] w0 w1 \<Longrightarrow> room w1 (\<lambda>c. f c @ (only_to i (reply PUBCOMP n) c @ e c)) \<Longrightarrow>
      \<exists>w2. processAcked ev i rs w1 = (w2, Ret ()) \<and> delivered f w1 w2"
    and rm: "room w (\<lambda>c. f c @ (only_to i (reply PUBCOMP n) c @ e c))"
  shows "\<exists>w'. processIncoming ev i (MPubrel r) w = (w', Ret None)
    \<and> handshake (\<lambda>c. d c @ f c @ only_to i (reply PUBCOMP n) c) (s_sess v) [] w0 w'"
proof -
  obtain g' where v': "w_svcs w i = Some (v\<lparr>s_core := Some g'\<rparr>)" "open_ring (g_out g')"
    using handshake_open [OF h v] .
  obtain s where s: "m_heap (w_mgr w) (s_sess v) = Some s" "idle (pub2in s)" "entries (pub2in s) = es"
    using handshake_session [OF h] .
  have s': "m_heap (w_mgr w) (s_sess (v\<lparr>s_core := Some g'\<rparr>)) = Some s"
    using s(1) by simp
  obtain q' k' where q': "queue_Ack (w_gpid w) (MPubrel r) (pub2in s) = Some (q', None, k')"
    and aq: "idle (fst (Acked q'))" "entries (fst (Acked q')) = []" "snd (Acked q') = rs"
    using rel [OF s(2,3)] by blast
  let ?w1 = "with_queue (s_sess v) s q' (w\<lparr>w_gpid := k'\<rparr>)"
  have ao: "ack_on Pub2in i (MPubrel r) w = (?w1, Ret None)"
    using get_sess_at [OF v'(1) s'] put_queue_at [of "w\<lparr>w_gpid := k'\<rparr>" i _ s q'] v'(1) s' q'
    by (simp add: ack_on_def bindw_def ret_def)
  have v1: "w_svcs ?w1 i = Some (v\<lparr>s_core := Some g'\<rparr>)" "m_heap (w_mgr ?w1) (s_sess (v\<lparr>s_core := Some g'\<rparr>)) = Some (s\<lparr>pub2in := q'\<rparr>)"
    using v' by (simp_all add: with_queue_def)
  let ?w2 = "with_queue (s_sess v) (s\<lparr>pub2in := q'\<rparr>) (fst (Acked q')) ?w1"
  have ac: "acked_on Pub2in i ?w1 = (?w2, Ret rs)"
    using get_sess_at [OF v1] put_queue_at [OF v1] aq(3)
    by (simp add: acked_on_def bindw_def ret_def case_prod_unfold)
  have h2: "handshake d (s_sess v) [] w0 ?w2"
    using handshake_put [OF h s(1) aq(1), of ?w2 k'] aq(2) by (simp add: with_queue_def)
  have r2: "room ?w2 (\<lambda>c. f c @ (only_to i (reply PUBCOMP n) c @ e c))"
    using rm by (simp add: room_def with_queue_def)
  obtain w3 where w3: "processAcked ev i rs ?w2 = (w3, Ret ())" "delivered f ?w2 w3"
    using pub [OF h2 r2] by blast
  have h3: "handshake (\<lambda>c. d c @ f c) (s_sess v) [] w0 w3"
    using handshake_then [OF h2 w3(2)] .
  obtain g3 where v3: "w_svcs w3 i = Some (v\<lparr>s_core := Some g3\<rparr>)" "open_ring (g_out g3)"
    using handshake_open [OF h3 v] .
  have n: "n \<noteq> 0" "PacketId r = n"
    using r by (simp_all add: releasing_def)
  obtain w' where w': "sent (write_core i (MPubcomp (plain_ack PUBCOMP n))) w3 = (w', Ret None)"
    "delivered (only_to i (reply PUBCOMP n)) w3 w'"
    using write_reply(2) [OF v3(1) _ v3(2) n(1) delivered_room [OF w3(2) r2]] by auto
  have "then_release ev Pub2in i ?w1 = (w3, Ret None)"
    using ac w3(1) by (simp add: then_release_def bindw_def ret_def)
  then have "processIncoming ev i (MPubrel r) w = (w', Ret None)"
    using ao w'(1) n(2)
    by (simp add: processIncoming_def unless_err_def bindw_def ret_def plain_ack_def NewPubcompMessage_def)
  then show ?thesis
    using handshake_then [OF h3 w'(2)] by (auto simp: append_assoc)
qed

section \<open>Exactly once\<close>

text \<open>The packets of a client handled one after another, up to the first error\<close>

fun received :: "'r env \<Rightarrow> nat \<Rightarrow> message list \<Rightarrow> ('r, svcerr option) act" where
  "received ev i [] = ret None"
| "received ev i (m # ms) = unless_err (processIncoming ev i m) (received ev i ms)"

lemma received_Cons: "processIncoming ev i m w = (w1, Ret None) \<Longrightarrow> received ev i (m # ms) w = received ev i ms w1"
  by (simp add: unless_err_def bindw_def)

lemma received_append: "received ev i xs w = (w1, Ret None) \<Longrightarrow> received ev i (xs @ ys) w = received ev i ys w1"
proof (induction xs arbitrary: w)
  case (Cons m ms)
  then obtain w2 where w2: "processIncoming ev i m w = (w2, Ret None)" "received ev i ms w2 = (w1, Ret None)"
    by (auto simp: unless_err_def bindw_Ret split: if_splits dest: sym simp: ret_Ret)
  then show ?case
    using Cons.IH [OF w2(2)] received_Cons [OF w2(1)] by simp
qed (simp add: ret_Ret)

definition copies :: "nat \<Rightarrow> bytes \<Rightarrow> bytes" where
  "copies n bs = concat (replicate n bs)"

lemma copies_Suc: "copies (Suc n) bs = bs @ copies n bs"
  by (simp add: copies_def)

lemma only_to_append: "only_to i (a @ b) c = only_to i a c @ only_to i b c"
  by (simp add: only_to_def)

lemma only_to_copies: "only_to i (copies (Suc n) bs) c = only_to i bs c @ only_to i (copies n bs) c"
    "only_to i (copies 0 bs) c = []"
  by (simp_all add: copies_Suc only_to_append) (simp add: only_to_def copies_def)

lemma repeats_ignored:
  assumes "w_svcs w0 i = Some v" and "s_core v = Some g" and "open_ring (g_out g)"
    and "\<And>m. m \<in> set ds \<Longrightarrow> second ev (ccid v) n m" and "Pktid e = n"
    and "handshake d (s_sess v) [e] w0 w" and "room w0 (\<lambda>c. d c @ only_to i (copies (length ds) (reply PUBREC n)) c @ f c)"
  shows "\<exists>w'. received ev i (map MPublish ds) w = (w', Ret None)
    \<and> handshake (\<lambda>c. d c @ only_to i (copies (length ds) (reply PUBREC n)) c) (s_sess v) [e] w0 w'"
  using assms(4,6,7)
proof (induction ds arbitrary: d w)
  case Nil
  then show ?case
    by (auto simp: ret_def only_to_copies)
next
  case (Cons m ms)
  have sec: "second ev (ccid v) n m"
    using Cons.prems(1) by simp
  have again: "\<exists>q'. queue_Wait k (MPublish m) NoCallback q = Some (q', None, MPublish m, k) \<and> idle q' \<and> entries q' = [e]"
    if "idle q" "entries q = [e]" for q k
    using queue_Wait_again [OF that(1)] that(2) sec assms(5) by (auto simp: second_def)
  have rm: "room w (\<lambda>c. only_to i (reply PUBREC n) c @ (only_to i (copies (length ms) (reply PUBREC n)) c @ f c))"
    using handshake_room [OF Cons.prems(2)] Cons.prems(3) by (simp add: only_to_copies)
  obtain w1 where w1: "processIncoming ev i (MPublish m) w = (w1, Ret None)"
    "handshake (\<lambda>c. d c @ only_to i (reply PUBREC n) c) (s_sess v) [e] w0 w1"
    using publish_waits [OF Cons.prems(2) assms(1-3) sec again rm] by blast
  obtain w' where w': "received ev i (map MPublish ms) w1 = (w', Ret None)"
    "handshake (\<lambda>c. (d c @ only_to i (reply PUBREC n) c) @ only_to i (copies (length ms) (reply PUBREC n)) c) (s_sess v) [e] w0 w'"
    using Cons.IH [OF _ w1(2)] Cons.prems(1,3) by (auto simp: only_to_copies)
  then show ?case
    using received_Cons [OF w1(1)] by (auto simp: only_to_copies)
qed

lemma releases_ignored:
  assumes "w_svcs w0 i = Some v" and "s_core v = Some g" and "open_ring (g_out g)" and r: "releasing n r"
    and "handshake d (s_sess v) [] w0 w" and "room w0 (\<lambda>c. d c @ only_to i (copies k (reply PUBCOMP n)) c)"
  shows "\<exists>w'. received ev i (replicate k (MPubrel r)) w = (w', Ret None)
    \<and> handshake (\<lambda>c. d c @ only_to i (copies k (reply PUBCOMP n)) c) (s_sess v) [] w0 w'"
  using assms(5,6)
proof (induction k arbitrary: d w)
  case 0
  then show ?case
    by (auto simp: ret_def only_to_copies)
next
  case (Suc k)
  have "Type r = PUBREL"
    using r by (simp add: releasing_def)
  then have rel: "\<exists>q' k'. queue_Ack j (MPubrel r) q = Some (q', None, k')
      \<and> idle (fst (Acked q')) \<and> entries (fst (Acked q')) = [] \<and> snd (Acked q') = []"
    if "idle q" "entries q = []" for q j
    using queue_release_again [OF that] by blast
  have rm: "room w (\<lambda>c. [] @ (only_to i (reply PUBCOMP n) c @ only_to i (copies k (reply PUBCOMP n)) c))"
    using handshake_room [OF Suc.prems(1)] Suc.prems(2) by (simp add: only_to_copies)
  have none: "\<exists>w2. processAcked ev i [] w1 = (w2, Ret ()) \<and> delivered (\<lambda>c. []) w1 w2" for w1
    by (simp add: ret_def delivered_refl)
  obtain w1 where w1: "processIncoming ev i (MPubrel r) w = (w1, Ret None)"
    "handshake (\<lambda>c. d c @ [] @ only_to i (reply PUBCOMP n) c) (s_sess v) [] w0 w1"
    using pubrel_releases [OF Suc.prems(1) assms(1-3) r rel none rm] by blast
  obtain w' where w': "received ev i (replicate k (MPubrel r)) w1 = (w', Ret None)"
    "handshake (\<lambda>c. (d c @ [] @ only_to i (reply PUBCOMP n) c) @ only_to i (copies k (reply PUBCOMP n)) c) (s_sess v) [] w0 w'"
    using Suc.IH [OF w1(2)] Suc.prems(2) by (auto simp: only_to_copies)
  then show ?case
    using received_Cons [OF w1(1)] by (auto simp: only_to_copies)
qed

text \<open>The PUBREL that finds the message\<close>

lemma release_delivers:
  assumes "publish_ok p" and "payload_plain p" and "\<not> Retain p" and r: "releasing n r"
    and e: "Pktid e = n" "Mtype e = PUBLISH" "Msgbuf e = publish_bytes p"
    and v: "w_svcs w0 i = Some v" "s_core v = Some g" "open_ring (g_out g)" and "\<not> clusterOpen v"
    and subs: "Subscribers (random ev) (topic p) (QoS p) [] False [] True (w_topics w0) = (ys, None)"
      "Subscribers (random ev) (topic p) (QoS p) [] False [] False (w_topics w0) = (xs, None)"
    and "all_hear w0 (cid v) p (ys @ xs)" and h: "handshake d (s_sess v) [e] w0 w"
    and rm: "room w0 (\<lambda>c. d c @ packets p c (ys @ xs) @ only_to i (reply PUBCOMP n) c @ f c)"
  shows "\<exists>w'. processIncoming ev i (MPubrel r) w = (w', Ret None)
    \<and> handshake (\<lambda>c. d c @ packets p c (ys @ xs) @ only_to i (reply PUBCOMP n) c) (s_sess v) [] w0 w'"
proof (rule pubrel_releases [OF h v r])
  show "\<exists>q' k'. queue_Ack k (MPubrel r) q = Some (q', None, k') \<and> idle (fst (Acked q')) \<and> entries (fst (Acked q')) = []
      \<and> snd (Acked q') = [e\<lparr>State := PUBREL, Ackbuf := ack_bytes r\<rparr>]" if "idle q" "entries q = [e]" for q k
  proof -
    have "Pktid e = PacketId r" "Type r = PUBREL" "ack_ok ValidPubRelReasonCode r" "dirty r"
      using e(1) r by (simp_all add: releasing_def)
    from queue_release [OF that this, of k] show ?thesis
      by blast
  qed
  show "room w (\<lambda>c. packets p c (ys @ xs) @ only_to i (reply PUBCOMP n) c @ f c)"
    using handshake_room [OF h] rm by simp
  show "\<exists>w2. processAcked ev i [e\<lparr>State := PUBREL, Ackbuf := ack_bytes r\<rparr>] w1 = (w2, Ret ())
      \<and> delivered (\<lambda>c. packets p c (ys @ xs)) w1 w2"
    if h1: "handshake d (s_sess v) [] w0 w1"
      and rm1: "room w1 (\<lambda>c. packets p c (ys @ xs) @ only_to i (reply PUBCOMP n) c @ f c)" for w1
  proof -
    obtain g1 where v1: "w_svcs w1 i = Some (v\<lparr>s_core := Some g1\<rparr>)"
      using handshake_open [OF h1 v] .
    have "\<not> clusterOpen (v\<lparr>s_core := Some g1\<rparr>)" "cid (v\<lparr>s_core := Some g1\<rparr>) = cid v"
      using assms(11) by (simp_all add: cid_def)
    then have "\<exists>w2. onPublish ev i (decoded (publish_bytes p) p) w1 = (w2, Ret None)
        \<and> delivered (\<lambda>c. packets p c (ys @ xs)) w1 w2"
      using onPublish_reaches [OF assms(1-3) v1] rm1 subs handshake_topics [OF h1] handshake_hears [OF h1 assms(14)] by simp
    then show ?thesis
      unfolding processAcked_release [OF assms(1,2) r e(2,3)] by (auto simp: bindw_def ret_def)
  qed
qed

text \<open>The PUBLISH and its repetitions leave one entry and as many PUBRECs\<close>

lemma publishes_wait:
  assumes "second ev (ccid v) n (decoded (publish_bytes p) p)" and "\<forall>m \<in> set ds. second ev (ccid v) n m"
    and "w_svcs w i = Some v" and "s_core v = Some g" and "open_ring (g_out g)"
    and "m_heap (w_mgr w) (s_sess v) = Some s" and "idle (pub2in s)" and "entries (pub2in s) = []"
    and "room w (\<lambda>c. only_to i (copies (Suc (length ds)) (reply PUBREC n)) c @ f c)"
  obtains w2 e where "received ev i (map MPublish (decoded (publish_bytes p) p # ds)) w = (w2, Ret None)"
    and "handshake (\<lambda>c. only_to i (copies (Suc (length ds)) (reply PUBREC n)) c) (s_sess v) [e] w w2"
    and "Pktid e = n" and "Mtype e = PUBLISH" and "Msgbuf e = publish_bytes p"
proof -
  let ?m = "decoded (publish_bytes p) p" and ?rec = "reply PUBREC n"
  define e where "e = new_entry (amsg_of (publish_bytes p, None) (MPublish ?m)) NoCallback"
  have m: "QoS ?m = QosExactlyOnce" "Type ?m = PUBLISH" "PacketId ?m = n" "\<not> dirty ?m" "dbuf ?m = publish_bytes p"
    using assms(1) by (simp_all add: second_def) (simp_all add: decoded_def)
  have e: "Pktid e = n" "Mtype e = PUBLISH" "Msgbuf e = publish_bytes p"
    using m by (simp_all add: e_def new_entry_def amsg_of_def)
  have h0: "handshake (\<lambda>_. []) (s_sess v) [] w w"
    using handshake_refl [OF assms(6,7)] assms(8) by simp
  have new: "\<exists>q'. queue_Wait k (MPublish ?m) NoCallback q = Some (q', None, MPublish ?m, k) \<and> idle q' \<and> entries q' = [e]"
    if "idle q" "entries q = []" for q k
    using queue_Wait_new [OF that(1) m(1,2,4,5)] that(2) by (auto simp: e_def)
  have r0: "room w (\<lambda>c. only_to i ?rec c @ (only_to i (copies (length ds) ?rec) c @ f c))"
    using assms(9) by (simp add: only_to_copies)
  obtain w1 where w1: "processIncoming ev i (MPublish ?m) w = (w1, Ret None)"
    "handshake (\<lambda>c. [] @ only_to i ?rec c) (s_sess v) [e] w w1"
    using publish_waits [OF h0 assms(3-5,1) new r0] by blast
  have r1: "room w (\<lambda>c. ([] @ only_to i ?rec c) @ only_to i (copies (length ds) ?rec) c @ f c)"
    using r0 by simp
  obtain w2 where w2: "received ev i (map MPublish ds) w1 = (w2, Ret None)"
    "handshake (\<lambda>c. ([] @ only_to i ?rec c) @ only_to i (copies (length ds) ?rec) c) (s_sess v) [e] w w2"
    using repeats_ignored [OF assms(3-5) _ e(1) w1(2) r1] assms(2) by blast
  show thesis
    by (rule that [OF _ _ e]) (use received_Cons [OF w1(1)] w2 in \<open>simp_all add: only_to_copies\<close>)
qed

text \<open>C3: QoS 2 delivers to QoS 0 subscriptions exactly once. A client with no handshake open sends a QoS 2
  PUBLISH, any number of QoS 2 PUBLISHes that repeat its identifier, with any topic and payload, and then a
  well-formed PUBREL with the identifier (whose reason string, if it has one, is followed by a user property), one or
  more times. No PUBLISH is retained or has a topic alias, the access control allows each, and the broker grants QoS 2
  and runs without a cluster; the first has a topic and lengths within the packet format and a payload that is not
  empty and does not begin with a property identifier byte. Every subscription that the topic manager finds for the
  first has QoS 0, is not excluded by no-local, and belongs to a client with an open ring whose mutexes are free, no
  alias for the topic and a maximum packet size that the message respects; all output rings have room, and the
  publishing client's own is open. Then each subscriber's ring gains the packets of the first message once; the client
  gets a PUBREC for every PUBLISH and a PUBCOMP for every PUBREL, and nobody is sent anything else.\<close>

theorem qos2_exactly_once:
  assumes "publish_ok p" and "payload_plain p" and "second ev (ccid v) n (decoded (publish_bytes p) p)"
    and "\<forall>m \<in> set ds. second ev (ccid v) n m" and "releasing n r"
    and "w_svcs w i = Some v" and "s_core v = Some g" and "open_ring (g_out g)" and "\<not> clusterOpen v"
    and "m_heap (w_mgr w) (s_sess v) = Some s" and "idle (pub2in s)" and "entries (pub2in s) = []"
    and "Subscribers (random ev) (topic p) (QoS p) [] False [] True (w_topics w) = (ys, None)"
    and "Subscribers (random ev) (topic p) (QoS p) [] False [] False (w_topics w) = (xs, None)"
    and "all_hear w (cid v) p (ys @ xs)"
    and "room w (\<lambda>c. only_to i (copies (Suc (length ds)) (reply PUBREC n)) c @ packets p c (ys @ xs)
      @ only_to i (copies (Suc k) (reply PUBCOMP n)) c)"
  shows "\<exists>w'. received ev i (map MPublish (decoded (publish_bytes p) p # ds) @ replicate (Suc k) (MPubrel r)) w = (w', Ret None)
    \<and> (\<forall>c. outgoing w' c = outgoing w c @ only_to i (copies (Suc (length ds)) (reply PUBREC n)) c
        @ packets p c (ys @ xs) @ only_to i (copies (Suc k) (reply PUBCOMP n)) c)"
proof -
  let ?m = "decoded (publish_bytes p) p" and ?rec = "only_to i (copies (Suc (length ds)) (reply PUBREC n))" and ?comp = "reply PUBCOMP n"
  have nr: "\<not> Retain p"
    using assms(3) by (simp add: second_def) (simp add: decoded_def Retain_def Flags_def)
  obtain w2 e where w2: "received ev i (map MPublish (?m # ds)) w = (w2, Ret None)"
      "handshake (\<lambda>c. ?rec c) (s_sess v) [e] w w2"
    and e: "Pktid e = n" "Mtype e = PUBLISH" "Msgbuf e = publish_bytes p"
    using publishes_wait [OF assms(3,4,6-8,10-12,16)] .
  have r2: "room w (\<lambda>c. ?rec c @ packets p c (ys @ xs) @ only_to i ?comp c @ only_to i (copies k ?comp) c)"
    using assms(16) by (simp add: only_to_copies)
  obtain w3 where w3: "processIncoming ev i (MPubrel r) w2 = (w3, Ret None)"
    "handshake (\<lambda>c. ?rec c @ packets p c (ys @ xs) @ only_to i ?comp c) (s_sess v) [] w w3"
    using release_delivers [OF assms(1,2) nr assms(5) e assms(6-9,13-15) w2(2) r2] by blast
  have r3: "room w (\<lambda>c. (?rec c @ packets p c (ys @ xs) @ only_to i ?comp c) @ only_to i (copies k ?comp) c)"
    using r2 by simp
  obtain w4 where w4: "received ev i (replicate k (MPubrel r)) w3 = (w4, Ret None)"
    "handshake (\<lambda>c. (?rec c @ packets p c (ys @ xs) @ only_to i ?comp c) @ only_to i (copies k ?comp) c) (s_sess v) [] w w4"
    using releases_ignored [OF assms(6-8,5) w3(2) r3] by blast
  have "received ev i (map MPublish (?m # ds) @ replicate (Suc k) (MPubrel r)) w = (w4, Ret None)"
    using received_append [OF w2(1)] received_Cons [OF w3(1)] w4(1) by simp
  moreover have "outgoing w4 c = outgoing w c @ ?rec c @ packets p c (ys @ xs) @ only_to i (copies (Suc k) ?comp) c" for c
    using handshake_outgoing [OF w4(2), of c] by (simp add: only_to_copies)
  ultimately show ?thesis
    by blast
qed

definition pledge :: publish where
  "pledge = greeting\<lparr>mtf := 0x34, packetId := [0, 7]\<rparr>"

lemma pledge_ok: "publish_ok pledge" "payload_plain pledge" "QoS pledge = 2" "topic pledge = [0x61, 0x2F, 0x62]"
    "publish_bytes (forward no_sub pledge) = [0x30, 8, 0, 3, 0x61, 0x2F, 0x62, 0, 0x68, 0x69]"
    "length (publish_bytes (copy_for no_sub pledge)) = 10" "length (publish_body (forward no_sub pledge)) = 8"
    "releasing 7 (SetPacketId 7 NewPubrelMessage)"
    "reply PUBREC 7 = [0x50, 2, 0, 7]" "reply PUBCOMP 7 = [0x70, 2, 0, 7]"
  by code_simp+

lemma pledge_second: "second small_env who 7 (decoded (publish_bytes pledge) pledge)"
proof -
  let ?m = "decoded (publish_bytes pledge) pledge"
  have "Type ?m = PUBLISH" "QoS ?m = 2" "PacketId ?m = 7" "\<not> Retain ?m" "publish.topicAlias ?m = 0"
    by code_simp+
  then show ?thesis
    by (simp add: second_def small_env_def)
qed

lemma pair_world_found2:
  "Subscribers (random small_env) [0x61, 0x2F, 0x62] 2 [] False [] True (w_topics pair_world) = ([], None)"
  "fst (Subscribers (random small_env) [0x61, 0x2F, 0x62] 2 [] False [] False (w_topics pair_world)) = [(2, no_sub)]"
  "snd (Subscribers (random small_env) [0x61, 0x2F, 0x62] 2 [] False [] False (w_topics pair_world)) = None"
  by code_simp+

lemma idle_idle_queue: "idle idle_queue" "entries idle_queue = []"
proof -
  show e: "entries idle_queue = []"
    by (simp add: entries_def idle_queue_def)
  have "\<exists>k\<le>62. (2 :: nat) = 2 ^ k"
    by (intro exI [of _ 1]) simp
  then show "idle idle_queue"
    using e by (simp add: idle_def aq_wf_def) (simp add: idle_queue_def slot_def zeroAckmsg_def)
qed

theorem qos2_exactly_once_witness:
  "\<exists>w'. received small_env 1 [MPublish (decoded (publish_bytes pledge) pledge), MPublish (decoded (publish_bytes pledge) pledge),
      MPubrel (SetPacketId 7 NewPubrelMessage), MPubrel (SetPacketId 7 NewPubrelMessage)] pair_world = (w', Ret None)
    \<and> outgoing w' 2 = [0x30, 8, 0, 3, 0x61, 0x2F, 0x62, 0, 0x68, 0x69]
    \<and> outgoing w' 1 = [0x50, 2, 0, 7, 0x50, 2, 0, 7, 0x70, 2, 0, 7, 0x70, 2, 0, 7]"
proof -
  let ?g = "core32 (ring32 [] 0 0) (ring32 [] 0 0)" and ?m = "decoded (publish_bytes pledge) pledge"
  let ?v = "new_service (Some ?g) 0 small_env" and ?s = "session_of NewConnectMessage"
  have o: "open_ring (g_out ?g)" "contents (g_out ?g) = []" "rsize (g_out ?g) = 32"
    unfolding open_ring_def by code_simp+
  have v: "w_svcs pair_world 1 = Some ?v" "w_svcs pair_world 2 = Some ?v" "s_core ?v = Some ?g" "\<not> clusterOpen ?v"
      "m_heap (w_mgr pair_world) (s_sess ?v) = Some ?s" "cid ?v = []"
    by (simp_all add: pair_world_def new_service_def cid_def)
  have q: "idle (pub2in ?s)" "entries (pub2in ?s) = []"
    using idle_idle_queue by (simp_all add: session_of_def)
  have s: "MaxPacketSize ?s = 1024" "GetTopicAlice t ?s = None" for t
    by (simp_all add: session_of_def MaxPacketSize_def GetTopicAlice_def NewConnectMessage_def
        Connect.SetMaxPacketSize_def)
  have xs: "Subscribers (random small_env) (topic pledge) (QoS pledge) [] False [] False (w_topics pair_world) = ([(2, no_sub)], None)"
    "Subscribers (random small_env) (topic pledge) (QoS pledge) [] False [] True (w_topics pair_world) = ([], None)"
    using pair_world_found2 by (simp_all add: pledge_ok(3,4) prod_eq_iff)
  have "hears pair_world (cid ?v) pledge 2 no_sub"
    using v o(1) s by (simp add: hears_def pledge_ok) (simp add: no_sub_def)
  then have h: "all_hear pair_world (cid ?v) pledge ([] @ [(2, no_sub)])"
    by (simp add: all_hear_def)
  have r: "room pair_world (\<lambda>c. only_to 1 (copies (Suc (length [?m])) (reply PUBREC 7)) c @ packets pledge c ([] @ [(2, no_sub)])
      @ only_to 1 (copies (Suc 1) (reply PUBCOMP 7)) c)"
    using o pledge_ok(5,9,10)
    by (auto simp: room_def packets_def pair_world_def new_service_def only_to_def copies_def split: if_splits)
  have d: "\<forall>m \<in> set [?m]. second small_env (ccid ?v) 7 m"
    using pledge_second by simp
  from qos2_exactly_once [OF pledge_ok(1,2) pledge_second d pledge_ok(8) v(1,3) o(1) v(4,5) q xs(2,1) h r]
  obtain w' where p: "received small_env 1 (map MPublish [?m, ?m] @ replicate (Suc 1) (MPubrel (SetPacketId 7 NewPubrelMessage)))
      pair_world = (w', Ret None)"
    and out: "\<forall>c. outgoing w' c = outgoing pair_world c @ only_to 1 (copies (Suc (length [?m])) (reply PUBREC 7)) c
        @ packets pledge c ([] @ [(2, no_sub)]) @ only_to 1 (copies (Suc 1) (reply PUBCOMP 7)) c"
    by (elim exE conjE)
  have "outgoing pair_world 1 = []" "outgoing pair_world 2 = []"
    using v o by (simp_all add: outgoing_def)
  then have "outgoing w' 2 = [0x30, 8, 0, 3, 0x61, 0x2F, 0x62, 0, 0x68, 0x69]"
    "outgoing w' 1 = [0x50, 2, 0, 7, 0x50, 2, 0, 7, 0x70, 2, 0, 7, 0x70, 2, 0, 7]"
    using out [rule_format, of 2] out [rule_format, of 1] pledge_ok(5,9,10) by (simp_all add: packets_def only_to_def copies_def)
  with p show ?thesis
    by (intro exI [of _ w'] conjI) (simp_all add: numeral_2_eq_2)
qed

end
