(* ===== verification/DelayedWills.thy ===== *)
theory DelayedWills
  imports QosTwo
begin

text \<open>
  Delayed wills over time: what becomes of a will whose identifier is taken over by another one. The identifier
  is the client identifier, and two connections with the same one can be open at once.
\<close>

lemma run_orphans: "broker_run ev w w' \<Longrightarrow> orphan n tk w \<longrightarrow> orphan n tk w'"
proof (induction rule: broker_run.induct)
  case (run_processor w' sp i)
  then show ?case
    using orphans.acrossD [OF orphans.processor_step_across] by blast
next
  case (run_will w' k)
  then show ?case
    using orphans.acrossD [OF orphans.run_task_across] by blast
qed simp

text \<open>The numbers of tasks are those counted so far.\<close>

definition numbered :: "'r world \<Rightarrow> bool" where
  "numbered w \<longleftrightarrow> (\<forall>(n, tk) \<in> set (w_tasks w). n < w_ntask w) \<and> (\<forall>tid n. w_jobs w tid = Some n \<longrightarrow> n < w_ntask w)"

lemma numbered_fresh: "numbered w \<Longrightarrow> map_of (w_tasks w) (w_ntask w) = None"
  by (auto simp: numbered_def map_of_eq_None_iff)

lemma replaced_orphan:
  assumes "numbered w" and "task_id t1 = task_id t2" and "0 < task_delay t1" and "0 < task_delay t2"
  shows "orphan (w_ntask w) t1 (fst (delay_Run t2 (fst (delay_Run t1 w))))"
  using assms numbered_fresh [OF assms(1)]
  by (auto simp: orphan_def delay_Run_def AddJob_def map_add_def numbered_def)

text \<open>C23: a delayed will that loses its identifier never stops. When a second delayed will is scheduled under the
  same client identifier, the job of the first stays in the scheduler: after any run of the broker, and also when
  the client comes back and its will is cancelled, the job is still due, and whenever it runs it publishes its
  message once more.\<close>

theorem delayed_will_repeats:
  assumes "numbered w" and "task_id t1 = task_id t2" and "0 < task_delay t1" and "0 < task_delay t2"
    and "broker_run ev (fst (delay_Run t2 (fst (delay_Run t1 w)))) w'"
  shows "map_of (w_tasks (fst (delay_Cancel tid w'))) (w_ntask w) = Some t1
    \<and> run_task ev (w_ntask w) w' = bindw (delay_Cancel (task_id t1)) (\<lambda>_.
        bindw (pubFn ev False (task_svc t1) (task_msg t1) [] False) (\<lambda>_ w. (job_Remove (task_id t1) w, Ret ()))) w'
    \<and> map_of (w_tasks (fst (run_task ev (w_ntask w) w'))) (w_ntask w) = Some t1"
proof -
  have o: "orphan (w_ntask w) t1 w'"
    using run_orphans [OF assms(5)] replaced_orphan [OF assms(1-4)] by blast
  have "orphan (w_ntask w) t1 (fst (delay_Cancel tid w'))" "orphan (w_ntask w) t1 (fst (run_task ev (w_ntask w) w'))"
    using o orphans.acrossD [OF orphans.delay_Cancel_across] orphans.acrossD [OF orphans.run_task_across] by blast+
  moreover have "run_task ev (w_ntask w) w' = bindw (delay_Cancel (task_id t1)) (\<lambda>_.
      bindw (pubFn ev False (task_svc t1) (task_msg t1) [] False) (\<lambda>_ w. (job_Remove (task_id t1) w, Ret ()))) w'"
    using o by (simp add: run_task_def orphan_def Let_def)
  ultimately show ?thesis
    by (simp add: orphan_def)
qed

definition last_words :: "nat \<Rightarrow> task" where
  "last_words i = \<lparr>task_id = [0x63, 0x31], task_delay = 10, task_msg = greeting, task_svc = i\<rparr>"

theorem delayed_will_repeats_witness:
  "map_of (w_tasks (fst (delay_Cancel [0x63, 0x31] (fst (run_task small_env 1
    (fst (delay_Run (last_words 2) (fst (delay_Run (last_words 1) new_world))))))))) 0 = Some (last_words 1)"
proof -
  have n: "numbered new_world" "w_ntask new_world = 0"
    by (simp_all add: numbered_def new_world_def)
  have t: "task_id (last_words 1) = task_id (last_words 2)" "0 < task_delay (last_words 1)" "0 < task_delay (last_words 2)"
    by (simp_all add: last_words_def)
  have "broker_run small_env (fst (delay_Run (last_words 2) (fst (delay_Run (last_words 1) new_world))))
      (fst (run_task small_env 1 (fst (delay_Run (last_words 2) (fst (delay_Run (last_words 1) new_world))))))"
    by (rule run_will [OF run_start])
  from delayed_will_repeats [OF n(1) t this, of "[0x63, 0x31]"] show ?thesis
    unfolding n(2) by (elim conjE)
qed

end
