(* ===== verification/CoreLoops.thy ===== *)
theory CoreLoops
  imports GCoreProps
begin

text \<open>
  The goroutines of a connection core, broker/core/service/v1/operator.go: the receiver, which reads from the
  socket into the input ring, the sender, which writes the output ring to the socket, and \<open>Close\<close> with its wait
  for both. They run side by side, so their moves are a step relation; what the socket answers is chosen by
  the step. \<open>readMessage\<close>, which nothing calls, is here too.
\<close>

section \<open>Reading a message by copying\<close>

definition gcore_ClientId :: "connect option \<Rightarrow> bytes" where
  "gcore_ClientId m = (case m of None \<Rightarrow> [] | Some m \<Rightarrow> connect.clientId m)"

text \<open>
  The loop of \<open>readMessage\<close>: it fills \<open>inTmp[l:]\<close>, which may be longer than what is missing. A read
  of no bytes without an error goes round for ever.
\<close>

function readMessage_loop :: "nat \<Rightarrow> nat \<Rightarrow> gcore \<Rightarrow> gcore \<times> (gerr + unit) outcome" where
  "readMessage_loop tot l g =
     (if tot \<le> l then (g, Ret (Inr ()))
      else case Read (int (length (inTmp g) - l)) (g_in g) of
        (b, Ret (Inl e)) \<Rightarrow> (g\<lparr>g_in := b\<rparr>, Ret (Inl (RingErr e)))
      | (b, Ret (Inr p)) \<Rightarrow>
          if p = [] then (g\<lparr>g_in := b\<rparr>, Loops)
          else readMessage_loop tot (l + length p) (g\<lparr>g_in := b, inTmp := blit (inTmp g) l p\<rparr>)
      | (b, Waits) \<Rightarrow> (g\<lparr>g_in := b\<rparr>, Waits) | (b, Locked) \<Rightarrow> (g\<lparr>g_in := b\<rparr>, Locked)
      | (b, Panicked) \<Rightarrow> (g\<lparr>g_in := b\<rparr>, Panicked) | (b, Loops) \<Rightarrow> (g\<lparr>g_in := b\<rparr>, Loops))"
  by pat_completeness auto

termination
  by (relation "measure (\<lambda>(tot, l, g). tot - l)") (auto simp: neq_Nil_conv)

declare readMessage_loop.simps [simp del]

definition readMessage :: "mtype \<Rightarrow> nat \<Rightarrow> gcore \<Rightarrow> gcore \<times> (gerr + message \<times> nat) outcome" where
  "readMessage t tot g =
     (case readMessage_loop tot 0 (g\<lparr>inTmp := (if length (inTmp g) < tot then replicate tot 0 else inTmp g)\<rparr>) of
        (g, Ret (Inl e)) \<Rightarrow> (g, Ret (Inl e))
      | (g, Ret (Inr _)) \<Rightarrow>
          (case mtype_New t of
             Inl e \<Rightarrow> (g, Ret (Inl (TextErr e)))
           | Inr m \<Rightarrow>
               (case msg_Decode (GSlice (take tot (inTmp g)) (drop tot (inTmp g))) m of
                  Panic \<Rightarrow> (g, Panicked)
                | Fail _ e _ \<Rightarrow> (g, Ret (Inl (CodecErr e)))
                | Go (n, m) \<Rightarrow> (g, Ret (Inr (m, n)))))
      | (g, Waits) \<Rightarrow> (g, Waits) | (g, Locked) \<Rightarrow> (g, Locked)
      | (g, Panicked) \<Rightarrow> (g, Panicked) | (g, Loops) \<Rightarrow> (g, Loops))"

section \<open>The end of a loop\<close>

text \<open>
  \<open>core.err\<close>, by the branch that sets it. A timeout is a network error of its own; the error of a
  closed socket counts only when the core is not done.
\<close>

datatype corerr = TimedOut | Broken buferr | NoConn | Recovered

definition loop_err :: "gcore \<Rightarrow> buferr \<Rightarrow> corerr option" where
  "loop_err g e =
     (if e = ErrNet IoTimeout then Some TimedOut
      else if IsDone g \<and> e = ErrNet UseOfClosed then None
      else if e \<noteq> ErrEOF then Some (Broken e) else None)"

definition set_err :: "corerr option \<Rightarrow> corerr option \<Rightarrow> corerr option" where
  "set_err new old = (case new of None \<Rightarrow> old | Some e \<Rightarrow> Some e)"

section \<open>The moves\<close>

text \<open>
  The receiver is at the top of its loop, asleep for space, inside the read of the window it was granted, or has stopped;
  the sender is at the top of its loop, asleep in \<open>ReadPeek\<close>, or has stopped. Where a goroutine waits
  for a mutex that is never released it is stuck and makes no further move.
\<close>

datatype receiving = RTop int | RAsleep int | RReading int int int | RStopped | RStuck
datatype sending = STop | SAsleep | SStopped | SStuck
datatype closing = NotClosed | WaitsForLoops | ConnClosed | CloseStuck

record connection =
  c_core :: gcore
  c_conn :: bool
  c_err :: "corerr option"
  c_recv :: receiving
  c_send :: sending
  c_close :: closing
  c_sent :: bytes

definition put_in :: "buffer \<Rightarrow> connection \<Rightarrow> connection" where
  "put_in b c = c\<lparr>c_core := (c_core c)\<lparr>g_in := b\<rparr>\<rparr>"

definition put_out :: "buffer \<Rightarrow> connection \<Rightarrow> connection" where
  "put_out b c = c\<lparr>c_core := (c_core c)\<lparr>g_out := b\<rparr>\<rparr>"

text \<open>\<open>NewGCore\<close> starts both; without a connection they end at once.\<close>

definition connected :: "gcore \<Rightarrow> bool \<Rightarrow> connection" where
  "connected g conn =
     (if conn then \<lparr>c_core = g, c_conn = conn, c_err = None, c_recv = RTop 0, c_send = STop, c_close = NotClosed, c_sent = []\<rparr>
      else \<lparr>c_core = g, c_conn = conn, c_err = Some NoConn, c_recv = RStopped, c_send = SStopped, c_close = NotClosed, c_sent = []\<rparr>)"

text \<open>\<open>ReadFrom\<close> has come to an end: its deferred \<open>Close\<close>, and the receiver's treatment of the error\<close>

definition receiver_ends :: "buffer \<Rightarrow> (int \<times> buferr option) outcome \<Rightarrow> connection \<Rightarrow> connection" where
  "receiver_ends b r c =
     (case defer_Close (b, r) of
        (b, Ret (n, Some e)) \<Rightarrow>
          let c = put_in b c in c\<lparr>c_recv := RStopped, c_err := set_err (loop_err (c_core c) e) (c_err c)\<rparr>
      | (b, Ret (n, None)) \<Rightarrow> (put_in b c)\<lparr>c_recv := RTop 0\<rparr>
      | (b, Panicked) \<Rightarrow> (put_in b c)\<lparr>c_recv := RStopped, c_err := Some Recovered\<rparr>
      | (b, _) \<Rightarrow> (put_in b c)\<lparr>c_recv := RStuck\<rparr>)"

text \<open>The part of a round of \<open>ReadFrom\<close> behind the wait: what the socket has answered goes into the ring.\<close>

definition ReadFrom_read :: "int \<Rightarrow> int \<Rightarrow> bytes \<times> buferr option \<Rightarrow> int \<Rightarrow> buffer \<Rightarrow> buffer \<times> round" where
  "ReadFrom_read start cnt ans tot b =
     (let (pstart, pend) = read_slice start cnt b;
          (bs, err) = ans;
          b = fill pstart bs b;
          n = int (length bs);
          tot = (if n > 0 then tot + n else tot);
          (b, r) = (if n > 0 then WriteCommit n b else (b, Ret (Inr 0)))
      in case r of
           Ret (Inl e) \<Rightarrow> (b, Stop (Ret (tot, Some e)))
         | Ret (Inr _) \<Rightarrow> (b, if err \<noteq> None then Stop (Ret (tot, err)) else Again tot)
         | Waits \<Rightarrow> (b, Stop Waits) | Locked \<Rightarrow> (b, Stop Locked)
         | Panicked \<Rightarrow> (b, Stop Panicked) | Loops \<Rightarrow> (b, Stop Loops))"

lemma ReadFrom_round_read:
  assumes "w (sint defaultReadBlockSize) b = (b', Ret (Inr (start, cnt)))"
  shows "ReadFrom_round w rd tot b
    = ReadFrom_read start cnt (rd (snd (read_slice start cnt b') - fst (read_slice start cnt b'))) tot b'"
  using assms by (cases "read_slice start cnt b'") (simp add: ReadFrom_round_def ReadFrom_read_def)

text \<open>The receiver up to its next read, from the top of the loop or from a wait for space\<close>

definition receiver_wait :: "waiter \<Rightarrow> int \<Rightarrow> connection \<Rightarrow> connection" where
  "receiver_wait w tot c =
     (case w (sint defaultReadBlockSize) (g_in (c_core c)) of
        (b, Ret (Inr (start, cnt))) \<Rightarrow> (put_in b c)\<lparr>c_recv := RReading tot start cnt\<rparr>
      | (b, Ret (Inl e)) \<Rightarrow> receiver_ends b (Ret (0, Some e)) c
      | (b, Waits) \<Rightarrow> (put_in b c)\<lparr>c_recv := RAsleep tot\<rparr>
      | (b, Panicked) \<Rightarrow> receiver_ends b Panicked c
      | (b, _) \<Rightarrow> (put_in b c)\<lparr>c_recv := RStuck\<rparr>)"

definition receiver_top :: "int \<Rightarrow> connection \<Rightarrow> connection" where
  "receiver_top tot c =
     (if isDone (g_in (c_core c)) then receiver_ends (g_in (c_core c)) (Ret (tot, Some ErrEOF)) c
      else receiver_wait waitForWriteSpace tot c)"

definition receiver_answer :: "bytes \<times> buferr option \<Rightarrow> int \<Rightarrow> int \<Rightarrow> int \<Rightarrow> connection \<Rightarrow> connection" where
  "receiver_answer ans tot start cnt c =
     (case ReadFrom_read start cnt ans tot (g_in (c_core c)) of
        (b, Again tot) \<Rightarrow> (put_in b c)\<lparr>c_recv := RTop tot\<rparr>
      | (b, Stop r) \<Rightarrow> receiver_ends b r c)"

text \<open>One round of the sender\<close>

definition sender_ends :: "buffer \<Rightarrow> (int \<times> buferr option) outcome \<Rightarrow> connection \<Rightarrow> connection" where
  "sender_ends b r c =
     (case defer_Close (b, r) of
        (b, Ret (n, Some e)) \<Rightarrow>
          let c = put_out b c in c\<lparr>c_send := SStopped, c_err := set_err (loop_err (c_core c) e) (c_err c)\<rparr>
      | (b, Ret (n, None)) \<Rightarrow> (put_out b c)\<lparr>c_send := STop\<rparr>
      | (b, Panicked) \<Rightarrow> (put_out b c)\<lparr>c_send := SStopped, c_err := Some Recovered\<rparr>
      | (b, _) \<Rightarrow> (put_out b c)\<lparr>c_send := SStuck\<rparr>)"

definition sender_round :: "peeker \<Rightarrow> (bytes \<Rightarrow> int \<times> buferr option) \<Rightarrow> connection \<Rightarrow> connection" where
  "sender_round peek wr c =
     (case WriteTo_round peek wr 0 (g_out (c_core c)) of
        (b, Again tot, bs) \<Rightarrow> (put_out b c)\<lparr>c_send := STop, c_sent := c_sent c @ bs\<rparr>
      | (b, Stop Waits, bs) \<Rightarrow> (put_out b c)\<lparr>c_send := SAsleep, c_sent := c_sent c @ bs\<rparr>
      | (b, Stop r, bs) \<Rightarrow> sender_ends b r (c\<lparr>c_sent := c_sent c @ bs\<rparr>))"

definition sender_top :: "(bytes \<Rightarrow> int \<times> buferr option) \<Rightarrow> connection \<Rightarrow> connection" where
  "sender_top wr c =
     (if isDone (g_out (c_core c)) then sender_ends (g_out (c_core c)) (Ret (0, Some ErrEOF)) c
      else sender_round ReadPeek wr c)"

text \<open>\<open>Close\<close>: the rings are closed, then it waits for both goroutines, and only then closes the socket.\<close>

definition close_call :: "connection \<Rightarrow> connection" where
  "close_call c =
     (if IsDone (c_core c) then c
      else case gcore_Close (c_core c) of
        (g, Ret _) \<Rightarrow> c\<lparr>c_core := g, c_close := WaitsForLoops\<rparr>
      | (g, _) \<Rightarrow> c\<lparr>c_core := g, c_close := CloseStuck\<rparr>)"

definition close_end :: "connection \<Rightarrow> connection" where
  "close_end c = c\<lparr>c_conn := False, c_close := ConnClosed\<rparr>"

inductive core_step :: "connection \<Rightarrow> connection \<Rightarrow> bool" where
  recv_top: "c_recv c = RTop tot \<Longrightarrow> core_step c (receiver_top tot c)"
| recv_woken: "c_recv c = RAsleep tot \<Longrightarrow> core_step c (receiver_wait waitForWriteSpace_woken tot c)"
| send_top: "c_send c = STop \<Longrightarrow> core_step c (sender_top wr c)"
| send_woken: "c_send c = SAsleep \<Longrightarrow> core_step c (sender_round ReadPeek_woken wr c)"
| closes: "c_close c = NotClosed \<Longrightarrow> core_step c (close_call c)"
| closed: "c_close c = WaitsForLoops \<Longrightarrow> c_recv c = RStopped \<Longrightarrow> c_send c = SStopped \<Longrightarrow> core_step c (close_end c)"

text \<open>With the answers of the socket to a read\<close>

inductive core_run :: "(bytes \<times> buferr option) list \<Rightarrow> connection \<Rightarrow> connection \<Rightarrow> bool" where
  run_refl: "core_run [] c c"
| run_step: "core_run as c c' \<Longrightarrow> core_step c' c'' \<Longrightarrow> core_run as c c''"
| run_read: "core_run as c c' \<Longrightarrow> c_recv c' = RReading tot start cnt \<Longrightarrow>
    core_run (as @ [ans]) c (receiver_answer ans tot start cnt c')"

inductive_cases core_stepE: "core_step c c'"

section \<open>Closing\<close>

text \<open>The sender and \<open>Close\<close> leave the receiver where it is.\<close>

lemma sender_ends_recv: "c_recv (sender_ends b r c) = c_recv c \<and> c_conn (sender_ends b r c) = c_conn c
    \<and> c_close (sender_ends b r c) = c_close c"
  by (auto simp: sender_ends_def put_out_def Let_def split: prod.splits outcome.splits option.splits)

lemma sender_round_recv: "c_recv (sender_round peek wr c) = c_recv c \<and> c_conn (sender_round peek wr c) = c_conn c
    \<and> c_close (sender_round peek wr c) = c_close c"
  by (auto simp: sender_round_def put_out_def sender_ends_recv split: prod.splits outcome.splits round.splits)

lemma close_call_recv: "c_recv (close_call c) = c_recv c \<and> c_conn (close_call c) = c_conn c
    \<and> (c_close c \<noteq> ConnClosed \<longrightarrow> c_close (close_call c) \<noteq> ConnClosed)"
  by (auto simp: close_call_def split: prod.splits outcome.splits)

lemma step_while_reading:
  assumes "core_step c c'" and "c_recv c = RReading tot start cnt" and "c_conn c" and "c_close c \<noteq> ConnClosed"
  shows "c_recv c' = RReading tot start cnt \<and> c_conn c' \<and> c_close c' \<noteq> ConnClosed"
  using assms
  by (auto elim!: core_stepE simp: sender_top_def sender_ends_recv sender_round_recv close_call_recv split: if_splits)

lemma run_while_reading:
  assumes "core_run as c c'" and "as = []" and "c_recv c = RReading tot start cnt" and "c_conn c" and "c_close c \<noteq> ConnClosed"
  shows "c_recv c' = RReading tot start cnt \<and> c_conn c' \<and> c_close c' \<noteq> ConnClosed"
  using assms by induction (auto dest: step_while_reading)

lemma receiver_ends_stops:
  assumes "\<not> pheld b"
  shows "c_recv (receiver_ends b (Ret (n, Some e)) c) = RStopped"
    and "c_send (receiver_ends b (Ret (n, Some e)) c) = c_send c"
    and "c_close (receiver_ends b (Ret (n, Some e)) c) = c_close c"
  using assms by (simp_all add: receiver_ends_def Close_def signal_p_def put_in_def Let_def)

lemma WriteCommit_done: "isDone b \<Longrightarrow> WriteCommit n b = (b, Ret (Inl ErrEOF))"
  by (simp add: WriteCommit_def WriteCommit_from_def waitForWriteSpace_def)

text \<open>An answer of the socket behind \<open>Close\<close>: the receiver stops, at the latest at the top of its loop.\<close>

lemma answer_stops:
  assumes "isDone (g_in (c_core c))" and "\<not> pheld (g_in (c_core c))" and "c_recv c = RReading tot start cnt"
  shows "\<exists>c'. core_run [ans] c c' \<and> c_recv c' = RStopped \<and> c_send c' = c_send c \<and> c_close c' = c_close c"
proof -
  let ?c1 = "receiver_answer ans tot start cnt c"
  obtain lo hi bs err where s: "read_slice start cnt (g_in (c_core c)) = (lo, hi)" and a: "ans = (bs, err)"
    by (cases "read_slice start cnt (g_in (c_core c))"; cases ans)
  define b where "b = fill lo bs (g_in (c_core c))"
  have b: "isDone b" "\<not> pheld b"
    using assms(1,2) by (simp_all add: b_def fill_def isDone_def)
  have run: "core_run [ans] c ?c1"
    using run_read [OF run_refl assms(3), of ans] by simp
  show ?thesis
  proof (cases "bs = [] \<and> err = None")
    case False
    then obtain n e where "?c1 = receiver_ends b (Ret (n, Some e)) c"
      using WriteCommit_done [OF b(1)]
      by (cases "bs = []") (auto simp: receiver_answer_def ReadFrom_read_def s a b_def Let_def)
    then show ?thesis
      using run receiver_ends_stops [OF b(2)] by metis
  next
    case True
    then have c1: "?c1 = (put_in b c)\<lparr>c_recv := RTop tot\<rparr>"
      by (simp add: receiver_answer_def ReadFrom_read_def s a b_def Let_def)
    have "core_step ?c1 (receiver_top tot ?c1)"
      by (rule recv_top) (simp add: c1)
    moreover have "receiver_top tot ?c1 = receiver_ends b (Ret (tot, Some ErrEOF)) ?c1"
      using b(1) by (simp add: receiver_top_def c1 put_in_def)
    ultimately show ?thesis
      using run_step [OF run] receiver_ends_stops [OF b(2), of tot ErrEOF ?c1] c1 by (auto simp: put_in_def)
  qed
qed

section \<open>The invariant of a connection\<close>

text \<open>
  The socket is open until \<open>Close\<close> has ended, which it does behind the receiver; while \<open>Close\<close> waits, the input ring
  is closed, and a receiver that reads has left the mutex free.
\<close>

definition conn_ok :: "connection \<Rightarrow> bool" where
  "conn_ok c \<longleftrightarrow> (c_conn c \<longleftrightarrow> c_close c \<noteq> ConnClosed) \<and> (c_close c = ConnClosed \<longrightarrow> c_recv c = RStopped)
     \<and> (c_close c = WaitsForLoops \<longrightarrow> isDone (g_in (c_core c))
         \<and> (\<forall>tot start cnt. c_recv c = RReading tot start cnt \<longrightarrow> \<not> pheld (g_in (c_core c))))"

lemma conn_ok_connected: "conn_ok (connected g True)"
  by (simp add: conn_ok_def connected_def)

lemma defer_Close_done: "isDone b \<Longrightarrow> isDone (fst (defer_Close (b, r)))"
  by (cases r) (auto simp: Close_def signal_p_def isDone_def)

lemma receiver_ends_ok:
  assumes "isDone (g_in (c_core c)) \<longrightarrow> isDone b"
  shows "c_conn (receiver_ends b r c) = c_conn c" and "c_close (receiver_ends b r c) = c_close c"
    and "c_recv (receiver_ends b r c) \<noteq> RReading tot start cnt"
    and "isDone (g_in (c_core c)) \<longrightarrow> isDone (g_in (c_core (receiver_ends b r c)))"
  using assms defer_Close_done [of b r]
  by (auto simp: receiver_ends_def put_in_def Let_def split: prod.splits outcome.splits option.splits)

lemma conn_ok_receiver:
  assumes "conn_ok c" and "c_close c \<noteq> ConnClosed" and "c_conn c' = c_conn c" and "c_close c' = c_close c"
    and "isDone (g_in (c_core c)) \<longrightarrow> isDone (g_in (c_core c'))
      \<and> (\<forall>tot start cnt. c_recv c' = RReading tot start cnt \<longrightarrow> \<not> pheld (g_in (c_core c')))"
  shows "conn_ok c'"
  using assms by (auto simp: conn_ok_def)

lemma conn_ok_ends:
  assumes "conn_ok c" and "c_close c \<noteq> ConnClosed" and "isDone (g_in (c_core c)) \<longrightarrow> isDone b"
  shows "conn_ok (receiver_ends b r c)"
  using receiver_ends_ok [OF assms(3)] by (intro conn_ok_receiver [OF assms(1,2)]) auto

lemma wait_done:
  "isDone b \<longrightarrow> isDone (fst (waitForWriteSpace n b)) \<and> (\<nexists>x. snd (waitForWriteSpace n b) = Ret (Inr x))"
  "isDone b \<longrightarrow> isDone (fst (waitForWriteSpace_woken n b))"
  "snd (waitForWriteSpace_woken n b) = Ret (Inr x) \<Longrightarrow> \<not> pheld (fst (waitForWriteSpace_woken n b))"
  by (auto simp: waitForWriteSpace_def waitForWriteSpace_woken_def waitWrite_loop_def isDone_def set_gate_def Let_def split: if_splits)

lemma conn_ok_wait:
  assumes "conn_ok c" and "c_close c \<noteq> ConnClosed"
    and w: "isDone (g_in (c_core c)) \<longrightarrow> isDone (fst (w (sint defaultReadBlockSize) (g_in (c_core c))))"
    and h: "\<And>x. isDone (g_in (c_core c)) \<Longrightarrow> snd (w (sint defaultReadBlockSize) (g_in (c_core c))) = Ret (Inr x)
      \<Longrightarrow> \<not> pheld (fst (w (sint defaultReadBlockSize) (g_in (c_core c))))"
  shows "conn_ok (receiver_wait w tot c)"
proof (cases "w (sint defaultReadBlockSize) (g_in (c_core c))")
  case (Pair b r)
  have b: "isDone (g_in (c_core c)) \<longrightarrow> isDone b" "isDone (g_in (c_core c)) \<and> (\<exists>x. r = Ret (Inr x)) \<longrightarrow> \<not> pheld b"
    using w h Pair by auto
  have "conn_ok (receiver_ends b r' c)" for r'
    by (rule conn_ok_ends [OF assms(1,2) b(1)])
  moreover have "conn_ok ((put_in b c)\<lparr>c_recv := x\<rparr>)"
    if "\<And>tot start cnt. x = RReading tot start cnt \<Longrightarrow> \<exists>y. r = Ret (Inr y)" for x
    by (rule conn_ok_receiver [OF assms(1,2)]) (use b that in \<open>auto simp: put_in_def\<close>)
  ultimately show ?thesis
    by (auto simp: receiver_wait_def Pair split: outcome.splits sum.splits)
qed

lemma conn_ok_same:
  assumes "conn_ok c" and "c_recv c' = c_recv c" and "c_conn c' = c_conn c" and "c_close c' = c_close c"
    and "g_in (c_core c') = g_in (c_core c)"
  shows "conn_ok c'"
  using assms by (simp add: conn_ok_def)

lemma sender_ends_in: "g_in (c_core (sender_ends b r c)) = g_in (c_core c)"
  by (auto simp: sender_ends_def put_out_def Let_def split: prod.splits outcome.splits option.splits)

lemma sender_round_in: "g_in (c_core (sender_round peek wr c)) = g_in (c_core c)"
  by (auto simp: sender_round_def put_out_def sender_ends_in split: prod.splits outcome.splits round.splits)

lemma conn_ok_close:
  assumes "conn_ok c" and "c_close c = NotClosed"
  shows "conn_ok (close_call c)"
proof (cases "IsDone (c_core c)")
  case True
  then show ?thesis
    using assms(1) by (simp add: close_call_def)
next
  case False
  obtain g r where g: "gcore_Close (c_core c) = (g, r)"
    by (metis prod.exhaust)
  have "isDone (g_in g) \<and> \<not> pheld (g_in g)" if "r = Ret ()"
    using g that False
    by (cases "pheld (g_in (c_core c))") (auto simp: gcore_Close_def IsDone_def Close_def signal_p_def isDone_def Let_def split: if_splits)
  then show ?thesis
    using assms False by (cases r) (simp_all add: conn_ok_def close_call_def g)
qed

lemma fill_done: "isDone (fill k bs b) = isDone b"
  by (simp add: fill_def isDone_def)

lemma ReadFrom_read_done: "isDone b \<Longrightarrow> isDone (fst (ReadFrom_read start cnt ans tot b))"
  by (auto simp: ReadFrom_read_def Let_def fill_done WriteCommit_done split: prod.splits)

lemma conn_ok_answer:
  assumes "conn_ok c" and "c_recv c = RReading tot start cnt"
  shows "conn_ok (receiver_answer ans tot start cnt c)"
proof (cases "ReadFrom_read start cnt ans tot (g_in (c_core c))")
  case (Pair b r)
  have b: "isDone (g_in (c_core c)) \<longrightarrow> isDone b" and n: "c_close c \<noteq> ConnClosed"
    using ReadFrom_read_done [of "g_in (c_core c)" start cnt ans tot] Pair assms by (auto simp: conn_ok_def)
  have "conn_ok ((put_in b c)\<lparr>c_recv := RTop t\<rparr>)" for t
    by (rule conn_ok_receiver [OF assms(1) n]) (use b in \<open>auto simp: put_in_def\<close>)
  then show ?thesis
    using conn_ok_ends [OF assms(1) n b] by (simp add: receiver_answer_def Pair split: round.split)
qed

lemma conn_ok_step:
  assumes "core_step c c'" and "conn_ok c"
  shows "conn_ok c'"
  using assms(1)
proof cases
  case (recv_top tot)
  have n: "c_close c \<noteq> ConnClosed"
    using assms(2) recv_top(2) by (auto simp: conn_ok_def)
  have "conn_ok (receiver_wait waitForWriteSpace tot c)"
    by (rule conn_ok_wait [OF assms(2) n]) (use wait_done(1) in blast)+
  moreover have "conn_ok (receiver_ends (g_in (c_core c)) r c)" for r
    by (rule conn_ok_ends [OF assms(2) n]) simp
  ultimately show ?thesis
    by (simp add: recv_top(1) receiver_top_def)
next
  case (recv_woken tot)
  have n: "c_close c \<noteq> ConnClosed"
    using assms(2) recv_woken(2) by (auto simp: conn_ok_def)
  show ?thesis
    unfolding recv_woken(1) by (rule conn_ok_wait [OF assms(2) n]) (use wait_done(2,3) in blast)+
next
  case (send_top wr)
  then show ?thesis
    by (intro conn_ok_same [OF assms(2)])
      (simp_all add: sender_top_def sender_ends_recv sender_round_recv sender_ends_in sender_round_in)
next
  case (send_woken wr)
  then show ?thesis
    by (intro conn_ok_same [OF assms(2)]) (simp_all add: sender_round_recv sender_round_in)
next
  case closes
  then show ?thesis
    using conn_ok_close [OF assms(2)] by simp
next
  case closed
  then show ?thesis
    by (simp add: conn_ok_def close_end_def)
qed

lemma conn_ok_run: "core_run as c c' \<Longrightarrow> conn_ok c \<Longrightarrow> conn_ok c'"
  by (induction rule: core_run.induct) (auto intro: conn_ok_step conn_ok_answer)

text \<open>C32: \<open>Close\<close> waits for the client. In every state that a connection reaches from its start,
  through any moves of the receiver, the sender and \<open>Close\<close> and any answers of the socket: while the
  receiver is inside a read of the socket, no further moves of the sender and of \<open>Close\<close> end
  \<open>Close\<close> or close the socket, whether \<open>Close\<close> has been called or is called meanwhile and
  whatever the sender does; and if \<open>Close\<close> waits and the sender has stopped, then as soon as the read
  returns, whatever it returns, \<open>Close\<close> can end. The processor, which may still take packets out of the
  ring, makes no moves here.\<close>

theorem close_waits_for_read:
  assumes "core_run as (connected g True) c" and "c_recv c = RReading tot start cnt"
  shows "(\<forall>c'. core_run [] c c' \<longrightarrow> c_conn c' \<and> c_close c' \<noteq> ConnClosed)
    \<and> (c_close c = WaitsForLoops \<and> c_send c = SStopped \<longrightarrow> (\<forall>ans. \<exists>c'. core_run [ans] c c' \<and> c_close c' = ConnClosed))"
proof (intro conjI allI impI; (elim conjE)?)
  have ok: "conn_ok c"
    by (rule conn_ok_run [OF assms(1) conn_ok_connected])
  then have "c_conn c" "c_close c \<noteq> ConnClosed"
    using assms(2) by (auto simp: conn_ok_def)
  then show "c_conn c'" "c_close c' \<noteq> ConnClosed" if "core_run [] c c'" for c'
    using run_while_reading [OF that refl assms(2)] by simp_all
  fix ans
  assume w: "c_close c = WaitsForLoops" "c_send c = SStopped"
  then have "isDone (g_in (c_core c))" "\<not> pheld (g_in (c_core c))"
    using ok assms(2) by (auto simp: conn_ok_def)
  from answer_stops [OF this assms(2), of ans] obtain c1
    where c1: "core_run [ans] c c1" "c_recv c1 = RStopped" "c_send c1 = SStopped" "c_close c1 = WaitsForLoops"
    using w by metis
  have "c_close (close_end c1) = ConnClosed"
    by (simp add: close_end_def)
  then show "\<exists>c'. core_run [ans] c c' \<and> c_close c' = ConnClosed"
    using run_step [OF c1(1) closed [OF c1(4,2,3)]] by blast
qed

text \<open>A connection whose receiver has begun to read, and the same behind \<open>Close\<close> with the sender gone\<close>

definition reading :: connection where
  "reading = receiver_top 0 (connected (core32 (ring2048\<lparr>pseq := newSequence\<rparr>) (ring32 [] 0 0)) True)"

definition half_closed :: connection where
  "half_closed = sender_top (\<lambda>_. (0, None)) (close_call reading)"

theorem close_waits_for_read_witness:
  "core_run [] reading half_closed \<and> c_close half_closed = WaitsForLoops
    \<and> \<not> (\<exists>c'. core_run [] reading c' \<and> c_close c' = ConnClosed)
    \<and> (\<exists>c'. core_run [([], None)] half_closed c' \<and> c_close c' = ConnClosed)"
proof -
  let ?s = "connected (core32 (ring2048\<lparr>pseq := newSequence\<rparr>) (ring32 [] 0 0)) True"
  note defs = reading_def connected_def core32_def ring2048_def ring4_def ring32_def newSequence_def receiver_top_def receiver_wait_def
    waitForWriteSpace_def isDone_def put_in_def ppos_def cpos_def
  have d: "sint defaultReadBlockSize = 1024"
    by code_simp
  have r: "c_recv reading = RReading 0 0 1024" "c_send reading = STop" "c_close reading = NotClosed" "c_conn reading"
    "\<not> IsDone (c_core reading)" "\<not> pheld (g_in (c_core reading))" "g_out (c_core reading) = ring32 [] 0 0"
    by (simp_all add: defs d Let_def IsDone_def)
  have h: "c_recv half_closed = RReading 0 0 1024" "c_close half_closed = WaitsForLoops" "c_send half_closed = SStopped"
    and s: "c_send (close_call reading) = STop"
    using r by (simp_all add: half_closed_def close_call_def gcore_Close_def IsDone_def Close_def signal_p_def isDone_def Let_def
        sender_top_def sender_ends_def ring32_def put_out_def)
  have "core_step ?s reading"
    unfolding reading_def by (rule recv_top) (simp add: connected_def)
  then have run: "core_run [] ?s reading"
    by (rule run_step [OF run_refl])
  have "core_run [] reading (close_call reading)"
    by (rule run_step [OF run_refl closes [OF r(3)]])
  then have half: "core_run [] reading half_closed"
    unfolding half_closed_def by (rule run_step) (rule send_top [OF s])
  have "core_run [] ?s (close_call reading)"
    by (rule run_step [OF run closes [OF r(3)]])
  then have "core_run [] ?s half_closed"
    unfolding half_closed_def by (rule run_step) (rule send_top [OF s])
  then show ?thesis
    using close_waits_for_read [OF run r(1)] close_waits_for_read [OF _ h(1)] h half by blast
qed

end
