(* ===== verification/ClientSide.thy ===== *)
theory ClientSide
  imports Lifecycle
begin

text \<open>
  The client side of a service, broker/core/service/v1/service.go: \<open>subscribe\<close>, \<open>unsubscribe\<close> and \<open>ping\<close> send a
  packet and leave a function in the queue, to be called with the acknowledgement. Nothing in the repository
  calls them; the broker bridging to another one would. The function that \<open>subscribe\<close> queues is \<open>subscribed\<close>,
  over the caller's own function, if any; the subscriber it enters is the caller's \<open>onPublish\<close>, a number here.
\<close>

datatype cberr = GivenErr | WrongMessage | WrongAck | IdsDiffer | CountsDiffer | SomeFailed

type_synonym completion = "(cberr option \<Rightarrow> cberr option) option"

text \<open>\<open>if onComplete != nil { return onComplete(msg, ack, err) }; return dflt\<close>\<close>

definition complete :: "completion \<Rightarrow> cberr option \<Rightarrow> cberr option \<Rightarrow> cberr option" where
  "complete oc err dflt = (case oc of Some f \<Rightarrow> f err | None \<Rightarrow> dflt)"

text \<open>The filters with their codes; an error does not stop the loop.\<close>

fun enter_granted :: "nat \<Rightarrow> nat \<Rightarrow> subscribe \<Rightarrow> (bytes \<times> byte) list \<Rightarrow> cberr option \<Rightarrow> ('r, cberr option) act" where
  "enter_granted i k m [] err2 = ret err2"
| "enter_granted i k m ((t, c) # xs) err2 =
     (if c = QosFailure then enter_granted i k m xs (Some SomeFailed)
      else (case asked m t c of
          None \<Rightarrow> crash
        | Some sb \<Rightarrow>
            bindw (sess_AddTopic i sb) (\<lambda>e w.
              let err2 = (if e \<noteq> None then Some SomeFailed else err2) in
              case Topics.Subscribe sb (Some k) (w_topics w) of
                (tp, _, e') \<Rightarrow> enter_granted i k m xs (if e' \<noteq> None then Some SomeFailed else err2)
                    (w\<lparr>w_topics := tp\<rparr>))))"

definition subscribed :: "nat \<Rightarrow> nat \<Rightarrow> completion \<Rightarrow> message \<Rightarrow> message \<Rightarrow> bool \<Rightarrow> ('r, cberr option) act" where
  "subscribed i k oc msg ack err =
     (if err then ret (complete oc (Some GivenErr) (Some GivenErr))
      else (case msg of
          MSubscribe m \<Rightarrow>
            (case ack of
               MSuback a \<Rightarrow>
                 if PacketId m \<noteq> PacketId a then ret (complete oc (Some IdsDiffer) None)
                 else if length (subscribe.topics m) \<noteq> length (reasonCodes a) then ret (complete oc (Some CountsDiffer) None)
                 else bindw (enter_granted i k m (zip (subscribe.topics m) (reasonCodes a)) None)
                   (\<lambda>err2. ret (complete oc err2 err2))
             | _ \<Rightarrow> ret (complete oc (Some WrongAck) None))
        | _ \<Rightarrow> ret (complete oc (Some WrongMessage) None)))"

text \<open>\<open>subscribe\<close>: the error of the write, else that of the queue. Without a handler for messages it is refused.\<close>

datatype client_err = NoHandler | NotSent | QueueErr aqerr

definition client_send :: "nat \<Rightarrow> message \<Rightarrow> which \<Rightarrow> onComplete \<Rightarrow> ('r, client_err option) act" where
  "client_send i m x onc =
     bindw (write_core i m) (\<lambda>(m, e).
       if e \<noteq> None then ret (Some NotSent)
       else bindw (wait_on x i m onc) (\<lambda>(_, e). ret (map_option QueueErr e)))"

definition client_subscribe :: "nat \<Rightarrow> subscribe \<Rightarrow> onComplete \<Rightarrow> nat option \<Rightarrow> ('r, client_err option) act" where
  "client_subscribe i m onc handler =
     (if handler = None then ret (Some NoHandler) else client_send i (MSubscribe m) SubACK onc)"

text \<open>\<open>unsubscribe\<close> removes every subscriber of its filters, its own among them.\<close>

fun leave_granted :: "nat \<Rightarrow> bytes list \<Rightarrow> cberr option \<Rightarrow> ('r, cberr option) act" where
  "leave_granted i [] err2 = ret err2"
| "leave_granted i (t # ts) err2 = (\<lambda>w.
     case Topics.Unsubscribe t None (w_topics w) of
       (tp, e) \<Rightarrow> bindw (mod_sess i (\<lambda>s. fst (RemoveTopic t s)))
         (\<lambda>_. leave_granted i ts (if e \<noteq> None then Some SomeFailed else err2)) (w\<lparr>w_topics := tp\<rparr>))"

definition unsubscribed :: "nat \<Rightarrow> completion \<Rightarrow> message \<Rightarrow> message \<Rightarrow> bool \<Rightarrow> ('r, cberr option) act" where
  "unsubscribed i oc msg ack err =
     (if err then ret (complete oc (Some GivenErr) (Some GivenErr))
      else (case msg of
          MUnsubscribe m \<Rightarrow>
            (case ack of
               MUnsuback a \<Rightarrow>
                 if PacketId m \<noteq> PacketId a then ret (complete oc (Some IdsDiffer) None)
                 else bindw (leave_granted i (unsubscribe.topics m) None) (\<lambda>err2. ret (complete oc err2 err2))
             | _ \<Rightarrow> ret (complete oc (Some WrongAck) None))
        | _ \<Rightarrow> ret (complete oc (Some WrongMessage) None)))"

definition client_unsubscribe :: "nat \<Rightarrow> unsubscribe \<Rightarrow> onComplete \<Rightarrow> ('r, client_err option) act" where
  "client_unsubscribe i m onc = client_send i (MUnsubscribe m) UnsubACK onc"

definition client_ping :: "nat \<Rightarrow> onComplete \<Rightarrow> ('r, client_err option) act" where
  "client_ping i onc = client_send i (MPingreq NewPingreqMessage) PingACK onc"

text \<open>A refused filter changes nothing; the result tells whether any filter failed.\<close>

lemma enter_granted_refused: "enter_granted i k m (map (\<lambda>t. (t, QosFailure)) ts) err2 w
    = (w, Ret (if ts = [] then err2 else Some SomeFailed))"
  by (induction ts arbitrary: err2) (simp_all add: ret_def)

end
