(* ===== verification/DefaultAuth.thy ===== *)
theory DefaultAuth
  imports Server
begin

text \<open>
  The authentication manager the broker is started with, broker/impl/auth/auth.go: it accepts every user, every
  method of enhanced authentication, and every topic.
\<close>

text \<open>A \<open>PlusVerify\<close>: which methods it is for, and its answer to the data of each round\<close>

record plus_verify =
  Should :: "bytes \<Rightarrow> bool"
  pv_Verify :: "nat \<Rightarrow> bytes \<Rightarrow> bytes \<times> bool \<times> bytes option"

definition defaultPlusVerify :: plus_verify where
  "defaultPlusVerify = \<lparr>Should = \<lambda>_. True, pv_Verify = \<lambda>_ _. ([], False, None)\<rparr>"

type_synonym default_auth = "plus_verify list"

definition RegistryPlus :: "plus_verify \<Rightarrow> default_auth \<Rightarrow> default_auth" where
  "RegistryPlus p a = a @ [p]"

definition auth_Verify :: "default_auth \<Rightarrow> bytes \<Rightarrow> bytes \<Rightarrow> bytes option" where
  "auth_Verify a name cred = None"

definition auth_PlusVerify :: "default_auth \<Rightarrow> bytes \<Rightarrow> plus_verify option" where
  "auth_PlusVerify a method = find (\<lambda>p. Should p method) a"

definition acl_Sub :: "bytes \<Rightarrow> sub \<Rightarrow> bool" where
  "acl_Sub c s = True"

definition acl_Pub :: "bytes \<Rightarrow> publish \<Rightarrow> bool" where
  "acl_Pub c m = True"

definition NewDefaultAuth :: default_auth where
  "NewDefaultAuth = RegistryPlus defaultPlusVerify []"

text \<open>As the server sees it\<close>

definition manager_of :: "default_auth \<Rightarrow> authman" where
  "manager_of a = \<lparr>verify = auth_Verify a, plusVerify = \<lambda>m. map_option pv_Verify (auth_PlusVerify a m)\<rparr>"

lemma default_methods: "auth_PlusVerify NewDefaultAuth m = Some defaultPlusVerify"
  by (simp add: auth_PlusVerify_def NewDefaultAuth_def RegistryPlus_def defaultPlusVerify_def)

text \<open>Registering another method behind the default changes nothing: the first one that applies is taken.\<close>

lemma registered_after_default: "auth_PlusVerify (RegistryPlus p NewDefaultAuth) m = Some defaultPlusVerify"
  by (simp add: auth_PlusVerify_def NewDefaultAuth_def RegistryPlus_def defaultPlusVerify_def)

text \<open>No one is turned away: the handshake of authentication ends without an error and writes nothing.\<close>

lemma default_auth_accepts: "\<exists>resp'. server_auth (manager_of NewDefaultAuth) resp req c = (c, Ret (resp', None))"
  by (subst server_auth_def)
    (simp add: default_methods defaultPlusVerify_def [THEN arg_cong [where f = pv_Verify]] auth_loop.simps manager_of_def auth_Verify_def bindw_def ret_def)

end
