(* ===== verification/ConnectRT.thy ===== *)
theory ConnectRT
  imports Connect
begin

text \<open>
  The wire format of CONNECT as a function of the message, and the proofs that the
  encoders produce it and that \<open>Decode\<close> reads it back.
\<close>

section \<open>The wire format\<close>

definition connect_props :: "connect \<Rightarrow> bytes" where
  "connect_props m =
     opt_bytes (sessionExpiryInterval m > 0) SessionExpirationInterval (put32 (sessionExpiryInterval m))
     @ opt_bytes (recv_max_written m) MaximumQuantityReceived (put16 (receiveMaximum m))
     @ opt_bytes True MaximumMessageLength (put32 (maxPacketSize m))
     @ opt_bytes (topicAliasMax m > 0) MaximumLengthOfTopicAlias (put16 (topicAliasMax m))
     @ opt_bytes (requestRespInfo m \<noteq> 0) RequestResponseInformation [requestRespInfo m]
     @ opt_bytes (requestProblemInfo m \<noteq> 1) RequestProblemInformation [requestProblemInfo m]
     @ up_bytes (userProperty m)
     @ opt_bytes (length (authMethod m) > 0) AuthenticationMethod (lp (authMethod m))
     @ opt_bytes (length (authData m) > 0) AuthenticationData (lp (authData m))"

text \<open>The properties of the will; the length that goes with them leaves the user properties out.\<close>

definition will_props :: "connect \<Rightarrow> bytes" where
  "will_props m =
     opt_bytes (willDelayInterval m > 0) DelayWills (put32 (willDelayInterval m))
     @ opt_bytes (payloadFormatIndicator m > 0) LoadFormatDescription [payloadFormatIndicator m]
     @ opt_bytes (willMsgExpiryInterval m > 0) MessageExpirationTime (put32 (willMsgExpiryInterval m))
     @ opt_bytes (length (contentType m) > 0) ContentType (lp (contentType m))
     @ opt_bytes (length (responseTopic m) > 0) ResponseTopic (lp (responseTopic m))
     @ opt_bytes (length (correlationData m) > 0) RelatedData (lp (correlationData m))
     @ up_bytes (willUserProperty m)"

definition will_plen :: "connect \<Rightarrow> nat" where
  "will_plen m = length (will_props m) - length (up_bytes (willUserProperty m))"

definition connect_will :: "connect \<Rightarrow> bytes" where
  "connect_will m = (if WillFlag m
     then varint (will_plen m) @ will_props m @ lp (willTopic m) @ lp (willMessage m) else [])"

definition connect_body :: "connect \<Rightarrow> bytes" where
  "connect_body m =
     lp (proto m) @ [version m] @ [connectFlags m] @ put16 (keepAlive m)
     @ varint (length (connect_props m)) @ connect_props m @ lp (clientId m) @ connect_will m
     @ (if UsernameFlag m \<and> length (username m) > 0 then lp (username m) else [])
     @ (if PasswordFlag m \<and> length (password m) > 0 then lp (password m) else [])"

definition connect_bytes :: "connect \<Rightarrow> bytes" where
  "connect_bytes m = mtf m # varint (length (connect_body m)) @ connect_body m"

text \<open>A message within the bounds of the protocol, as the setters build it.\<close>

definition connect_ok :: "connect \<Rightarrow> bool" where
  "connect_ok m \<longleftrightarrow>
     Type m = CONNECT \<and> flags_ok (mtf m) \<and> SupportedVersions (version m) = Some (protoName m)
     \<and> connectFlags m AND 0x1 = 0 \<and> WillQos m \<le> QosExactlyOnce
     \<and> (\<not> WillFlag m \<longrightarrow> \<not> WillRetain m \<and> WillQos m = QosAtMostOnce \<and> willUserProperty m = [])
     \<and> (WillFlag m \<longrightarrow> willTopic m \<noteq> [] \<and> willMessage m \<noteq> [])
     \<and> (UsernameFlag m \<longrightarrow> PasswordFlag m \<and> username m \<noteq> []) \<and> (PasswordFlag m \<longrightarrow> password m \<noteq> [])
     \<and> maxPacketSize m > 0 \<and> \<not> not_flag (requestRespInfo m) \<and> \<not> not_flag (requestProblemInfo m)
     \<and> \<not> not_flag (payloadFormatIndicator m)
     \<and> (authMethod m \<noteq> [] \<longrightarrow> authData m \<noteq> []) \<and> (clientId m = [] \<longrightarrow> CleanSession m) \<and> validClientId (clientId m)
     \<and> list_all (\<lambda>b. length b \<le> 65535) [clientId m, willTopic m, willMessage m, username m, password m,
          authMethod m, authData m, contentType m, responseTopic m, correlationData m]
     \<and> strs_ok (userProperty m) \<and> strs_ok (willUserProperty m)
     \<and> length (connect_body m) < 2 ^ 28"

text \<open>
  The decoder looks for the next property where the client identifier or the will topic
  starts, and the high byte of their length may be a property identifier. For strings of
  less than 256 bytes it is not.
\<close>

definition connect_plain :: "connect \<Rightarrow> bool" where
  "connect_plain m \<longleftrightarrow>
     hd (lp (clientId m)) \<notin> {SessionExpirationInterval, MaximumQuantityReceived, MaximumMessageLength,
       MaximumLengthOfTopicAlias, RequestResponseInformation, RequestProblemInformation, UserProperty,
       AuthenticationMethod, AuthenticationData}
     \<and> hd (lp (willTopic m)) \<notin> {DelayWills, LoadFormatDescription, MessageExpirationTime, ContentType,
       ResponseTopic, RelatedData, UserProperty}"

lemma connect_plain_short: "length (clientId m) < 256 \<Longrightarrow> length (willTopic m) < 256 \<Longrightarrow> connect_plain m"
  by (simp add: connect_plain_def hd_lp_short)

section \<open>Lengths\<close>

lemma length_connect_props:
  "maxPacketSize m > 0 \<Longrightarrow> length (connect_props m) =
     (if sessionExpiryInterval m > 0 then 5 else 0)
     + (if receiveMaximum m > 0 \<and> receiveMaximum m < 65535 then 3 else 0)
     + (if maxPacketSize m > 0 then 5 else 0)
     + (if topicAliasMax m > 0 then 3 else 0)
     + (if requestRespInfo m \<noteq> 0 then 2 else 0)
     + (if requestProblemInfo m \<noteq> 1 then 2 else 0)
     + buildUserPropertyLen (userProperty m)
     + prop_len (authMethod m) + prop_len (authData m)"
  by (simp add: connect_props_def prop_len_def recv_max_written_def)

lemma will_plen_eq:
  "\<not> not_flag (payloadFormatIndicator m) \<Longrightarrow> will_plen m =
     (if willDelayInterval m > 0 then 5 else 0)
     + (if payloadFormatIndicator m = 1 then 2 else 0)
     + (if willMsgExpiryInterval m > 0 then 5 else 0)
     + prop_len (contentType m) + prop_len (responseTopic m) + prop_len (correlationData m)"
  by (auto simp: will_plen_def will_props_def prop_len_def not_flag_def word_gt_0)

lemma will_props_length:
  "length (will_props m) = will_plen m + buildUserPropertyLen (willUserProperty m)"
  by (simp add: will_plen_def will_props_def)

lemma connect_body_parts:
  "length (connect_props m) \<le> length (connect_body m)"
  "WillFlag m \<Longrightarrow> will_plen m \<le> length (connect_body m)"
  by (simp_all add: connect_body_def connect_will_def will_props_length)

definition connect_built :: "connect \<Rightarrow> connect" where
  "connect_built m = m\<lparr>propertiesLen := word_of_nat (length (connect_props m)),
     willPropertiesLen := word_of_nat (will_plen m),
     remlen := word_of_nat (length (connect_body m)), dirty := True\<rparr>"

lemma connect_build_ok:
  assumes ok: "connect_ok m"
  shows "connect_build m = Some (connect_built m)"
proof -
  let ?p = "length (connect_props m)" and ?w = "will_plen m" and ?b = "length (connect_body m)"
  define rlen where "rlen = 1 + 1 + 2 + 2 + length (protoName m) + 2 + length (clientId m)
            + (if WillFlag m \<and> length (willTopic m) > 0 then 2 + length (willTopic m) else 0)
            + (if WillFlag m \<and> length (willMessage m) > 0 then 2 + length (willMessage m) else 0)
            + (if UsernameFlag m then 2 + length (username m) else 0)
            + (if PasswordFlag m then 2 + length (password m) else 0)"
  have o: "maxPacketSize m > 0" "\<not> not_flag (payloadFormatIndicator m)" "?b < 2 ^ 28"
      "proto m = protoName m"
    using ok by (simp_all add: connect_ok_def proto_def)
  have p28: "?p < 2 ^ 28"
    using o(3) connect_body_parts(1) [of m] by linarith
  have up: "unat (word_of_nat ?p :: uint32) = ?p"
    using p28 by (simp only: unat_len32)
  have e1: "lbEncode (word_of_nat ?p) = Some (varint ?p)"
    using p28 by (simp add: lbEncode_varint up)
  have e2: "lbEncode (word_of_nat ?w) = Some (varint ?w)" if "WillFlag m"
  proof -
    have "?w < 2 ^ 28"
      using o(3) connect_body_parts(2) [OF that] by linarith
    then show ?thesis
      by (simp add: lbEncode_varint unat_len32)
  qed
  have wf: "WillFlag (m\<lparr>propertiesLen := a, willPropertiesLen := b\<rparr>) = WillFlag m" for a b
    by (simp add: WillFlag_def)
  have max: "\<not> (word_of_nat ?b :: uint32) > maxRemainingLength"
    using o(3) by (simp add: not_less unat_le_max unat_len32)
  have b1: "?b = rlen + (?p + buildUserPropertyLen (willUserProperty m)) + length (varint ?p) + (?w + length (varint ?w))"
    if "WillFlag m"
    using ok that o(4) by (auto simp: connect_ok_def connect_body_def connect_will_def will_props_length rlen_def)
  have b2: "?b = rlen + (?p + buildUserPropertyLen (willUserProperty m)) + length (varint ?p)" if "\<not> WillFlag m"
    using ok that o(4) by (auto simp: connect_ok_def connect_body_def connect_will_def rlen_def)
  have s: "(word_of_nat (rlen + (?p + buildUserPropertyLen (willUserProperty m)) + length (varint ?p)) :: uint32)
      + word_of_nat (?w + length (varint ?w)) = word_of_nat ?b" if "WillFlag m"
    using b1 [OF that] by simp
  note plen = length_connect_props [OF o(1), symmetric] and wlen = will_plen_eq [OF o(2), symmetric]
  show ?thesis
  proof (cases "WillFlag m")
    case True
    then show ?thesis
      unfolding connect_build_def Let_def rlen_def [symmetric] plen wlen
      using e1 e2 [OF True] s [OF True] max
      by (simp add: wf SetRemainingLength_def connect_built_def del: of_nat_add)
  next
    case False
    show ?thesis
      unfolding connect_build_def Let_def rlen_def [symmetric] plen wlen
      using e1 False max b2 [OF False, symmetric]
      by (simp add: wf SetRemainingLength_def connect_built_def del: of_nat_add)
  qed
qed

section \<open>Encoding\<close>

lemma connect_built_parts [simp]:
  "connect_props (connect_built m) = connect_props m" "will_props (connect_built m) = will_props m"
  "WillFlag (connect_built m) = WillFlag m" "proto (connect_built m) = proto m"
  "UsernameFlag (connect_built m) = UsernameFlag m" "PasswordFlag (connect_built m) = PasswordFlag m"
  by (simp_all add: connect_built_def connect_props_def will_props_def WillFlag_def proto_def
      UsernameFlag_def PasswordFlag_def recv_max_written_def)

lemma connect_built_body [simp]: "connect_body (connect_built m) = connect_body m"
  unfolding connect_body_def connect_will_def will_plen_def connect_built_parts by (simp add: connect_built_def)

lemma connect_built_ok: "connect_ok m \<Longrightarrow> connect_ok (connect_built m)"
  unfolding connect_ok_def connect_built_body connect_built_parts
  by (simp add: connect_built_def Type_def WillQos_def WillRetain_def CleanSession_def)

definition connect_chunks :: "connect \<Rightarrow> bytes list" where
  "connect_chunks m =
     [mtf m # varint (unat (remlen m)), lp (proto m), [version m], [connectFlags m], put16 (keepAlive m),
      varint (unat (propertiesLen m)),
      opt_bytes (sessionExpiryInterval m > 0) SessionExpirationInterval (put32 (sessionExpiryInterval m)),
      opt_bytes (recv_max_written m) MaximumQuantityReceived (put16 (receiveMaximum m)),
      [MaximumMessageLength], put32 (maxPacketSize m),
      opt_bytes (topicAliasMax m > 0) MaximumLengthOfTopicAlias (put16 (topicAliasMax m)),
      opt_bytes (requestRespInfo m \<noteq> 0) RequestResponseInformation [requestRespInfo m],
      opt_bytes (requestProblemInfo m \<noteq> 1) RequestProblemInformation [requestProblemInfo m],
      up_bytes (userProperty m),
      opt_bytes (length (authMethod m) > 0) AuthenticationMethod (lp (authMethod m)),
      opt_bytes (length (authData m) > 0) AuthenticationData (lp (authData m)),
      lp (clientId m),
      if WillFlag m then concat
        [varint (unat (willPropertiesLen m)),
         opt_bytes (willDelayInterval m > 0) DelayWills (put32 (willDelayInterval m)),
         opt_bytes (payloadFormatIndicator m > 0) LoadFormatDescription [payloadFormatIndicator m],
         opt_bytes (willMsgExpiryInterval m > 0) MessageExpirationTime (put32 (willMsgExpiryInterval m)),
         opt_bytes (length (contentType m) > 0) ContentType (lp (contentType m)),
         opt_bytes (length (responseTopic m) > 0) ResponseTopic (lp (responseTopic m)),
         opt_bytes (length (correlationData m) > 0) RelatedData (lp (correlationData m)),
         up_bytes (willUserProperty m), lp (willTopic m), lp (willMessage m)] else [],
      if UsernameFlag m \<and> length (username m) > 0 then lp (username m) else [],
      if PasswordFlag m \<and> length (password m) > 0 then lp (password m) else []]"

lemma connect_built_lengths:
  assumes "connect_ok m" and "connect_built m = m"
  shows "unat (propertiesLen m) = length (connect_props m)" "unat (remlen m) = length (connect_body m)"
    "WillFlag m \<Longrightarrow> unat (willPropertiesLen m) = will_plen m" "length (connect_body m) < 2 ^ 28"
    "remlen m \<le> maxRemainingLength"
proof -
  show b: "length (connect_body m) < 2 ^ 28"
    using assms(1) by (simp add: connect_ok_def)
  have e: "propertiesLen m = word_of_nat (length (connect_props m))" "remlen m = word_of_nat (length (connect_body m))"
      "willPropertiesLen m = word_of_nat (will_plen m)"
    using arg_cong [OF assms(2), of propertiesLen] arg_cong [OF assms(2), of remlen]
      arg_cong [OF assms(2), of willPropertiesLen] by (simp_all add: connect_built_def)
  show "unat (propertiesLen m) = length (connect_props m)"
    unfolding e using b connect_body_parts(1) [of m] by (intro unat_len32) linarith
  show u: "unat (remlen m) = length (connect_body m)"
    unfolding e using b by (rule unat_len32)
  show "WillFlag m \<Longrightarrow> unat (willPropertiesLen m) = will_plen m"
    unfolding e using b connect_body_parts(2) [of m] by (intro unat_len32) linarith
  show "remlen m \<le> maxRemainingLength"
    unfolding unat_le_max u by (rule b)
qed

lemma concat_chunks:
  assumes "connect_ok m" and "connect_built m = m"
  shows "concat (connect_chunks m) = connect_bytes m"
  using connect_built_lengths [OF assms]
  by (simp add: connect_chunks_def connect_bytes_def connect_body_def connect_props_def connect_will_def
      will_props_def opt_bytes_def)

lemma connect_bounds:
  assumes "connect_ok m" and "connect_built m = m"
  shows "length (proto m) \<le> 65535" "strs_ok (userProperty m)" "strs_ok (willUserProperty m)"
    "length (clientId m) \<le> 65535" "length (willTopic m) \<le> 65535" "length (willMessage m) \<le> 65535"
    "length (username m) \<le> 65535" "length (password m) \<le> 65535" "length (authMethod m) \<le> 65535"
    "length (authData m) \<le> 65535" "length (contentType m) \<le> 65535" "length (responseTopic m) \<le> 65535"
    "length (correlationData m) \<le> 65535" "unat (propertiesLen m) < 2 ^ 28"
    "WillFlag m \<Longrightarrow> unat (willPropertiesLen m) < 2 ^ 28" "mtype_Valid (Type m)"
proof -
  show "length (proto m) \<le> 65535"
    by (simp add: proto_def SupportedVersions_def)
  show "unat (propertiesLen m) < 2 ^ 28" "WillFlag m \<Longrightarrow> unat (willPropertiesLen m) < 2 ^ 28"
    using connect_built_lengths [OF assms] connect_body_parts [of m] by linarith+
  show "mtype_Valid (Type m)"
    using assms(1) by (simp add: connect_ok_def)
qed (use assms(1) in \<open>simp_all add: connect_ok_def\<close>)

lemma connect_buf_steps_ok:
  assumes ok: "connect_ok (b_msg s)" and b: "connect_built (b_msg s) = b_msg s"
  shows "steps connect_buf_steps s = Go (s\<lparr>b_buf := b_buf s @ connect_bytes (b_msg s)\<rparr>)"
proof -
  note o = connect_bounds [OF ok b] connect_built_lengths(5) [OF ok b]
  have "list_all2 (appends (b_msg s)) connect_buf_steps (connect_chunks (b_msg s))"
    unfolding connect_buf_steps_def connect_chunks_def list_all2_Cons list_all2_Nil
    by (intro conjI TrueI appends_when appends_intros list_all2_Cons [THEN iffD2] list_all2_Nil [THEN iffD2]) (use o in simp_all)
  from steps_appends [OF this refl] show ?thesis
    by (simp only: concat_chunks [OF ok b])
qed

lemma connect_enc_steps_ok:
  assumes ok: "connect_ok m" and b: "connect_built m = m" and e: "e_msg e = m" "e_tot e = 0"
    and room: "length (connect_bytes m) \<le> length (e_dst e)"
  shows "steps connect_enc_steps e
    = Go (e\<lparr>e_dst := blit (e_dst e) 0 (connect_bytes m), e_tot := length (connect_bytes m)\<rparr>)"
proof -
  note o = connect_bounds [OF ok b] connect_built_lengths(5) [OF ok b]
  have w: "list_all2 (writes (length (e_dst e)) m) connect_enc_steps (connect_chunks m)"
    unfolding connect_enc_steps_def connect_chunks_def list_all2_Cons list_all2_Nil
    by (intro conjI TrueI writes_when writes_intros list_all2_Cons [THEN iffD2] list_all2_Nil [THEN iffD2]) (use o in simp_all)
  show ?thesis
    using steps_writes [OF w e(1) refl] room e(2) by (simp only: concat_chunks [OF ok b]) simp
qed

lemma connect_built_again:
  assumes "connect_ok m"
  shows "SetRemainingLength (remlen (connect_built m)) (connect_built m) = (connect_built m, None)"
    "connect_built (connect_built m) = connect_built m" "connect_bytes (connect_built m) = connect_bytes m"
    "length (connect_bytes m) = header_msglen (connect_built m) + unat (remlen (connect_built m))"
proof -
  have b: "length (connect_body m) < 2 ^ 28"
    using assms by (simp add: connect_ok_def)
  then have u: "unat (remlen (connect_built m)) = length (connect_body m)" "remlen (connect_built m) \<le> maxRemainingLength"
    by (simp_all add: connect_built_def unat_len32 unat_le_max)
  show "SetRemainingLength (remlen (connect_built m)) (connect_built m) = (connect_built m, None)"
    using u(2) by (simp add: SetRemainingLength_def connect_built_def not_less)
  show "connect_built (connect_built m) = connect_built m"
    unfolding connect_built_def [of "connect_built m"] by (simp add: will_plen_def, simp add: connect_built_def will_plen_def)
  show "connect_bytes (connect_built m) = connect_bytes m"
    by (simp add: connect_bytes_def, simp add: connect_built_def)
  show "length (connect_bytes m) = header_msglen (connect_built m) + unat (remlen (connect_built m))"
    using length_varint_remlen [OF u(2)] by (simp add: connect_bytes_def u(1))
qed

lemma connect_accepted: "connect_ok m \<Longrightarrow> Type m = CONNECT" "connect_ok m \<Longrightarrow> SupportedVersions (version m) \<noteq> None"
  by (simp_all add: connect_ok_def)

lemma connect_EncodeToBuf_bytes:
  assumes "connect_ok (b_msg s)" and "dirty (b_msg s)"
  shows "connect_EncodeToBuf s
    = Go (s\<lparr>b_buf := b_buf s @ connect_bytes (b_msg s), b_msg := connect_built (b_msg s)\<rparr>)"
  using connect_buf_steps_ok [of "s\<lparr>b_msg := connect_built (b_msg s)\<rparr>"] connect_built_ok [OF assms(1)]
    connect_built_again [OF assms(1)] connect_accepted [OF assms(1)] assms(2)
  unfolding connect_EncodeToBuf_def Let_def connect_build_ok [OF assms(1)] option.case connect_built_again(1) [OF assms(1)]
  by simp

lemma connect_Encode_bytes:
  assumes "connect_ok (e_msg s)" and "dirty (e_msg s)"
  shows "connect_Encode s =
    (if length (e_dst s) < length (connect_bytes (e_msg s))
     then Fail 0 (Errorf ''connect/Encode: Insufficient buffer size.'') (s\<lparr>e_msg := connect_built (e_msg s)\<rparr>)
     else Go (s\<lparr>e_dst := blit (e_dst s) 0 (connect_bytes (e_msg s)),
            e_tot := length (connect_bytes (e_msg s)), e_msg := connect_built (e_msg s)\<rparr>))"
proof -
  let ?m = "e_msg s"
  have st: "steps connect_enc_steps (s\<lparr>e_msg := connect_built ?m, e_tot := 0\<rparr>)
      = Go (s\<lparr>e_dst := blit (e_dst s) 0 (connect_bytes ?m), e_tot := length (connect_bytes ?m), e_msg := connect_built ?m\<rparr>)"
    if "\<not> length (e_dst s) < length (connect_bytes ?m)"
    using connect_enc_steps_ok [of "connect_built ?m" "s\<lparr>e_msg := connect_built ?m, e_tot := 0\<rparr>"]
      connect_built_ok [OF assms(1)] connect_built_again(2,3) [OF assms(1)] that by simp
  show ?thesis
    using assms(2) st connect_accepted [OF assms(1)]
    unfolding connect_Encode_def Let_def connect_build_ok [OF assms(1)] option.case
      connect_built_again(1) [OF assms(1)] prod.case connect_built_again(4) [OF assms(1), symmetric] by simp
qed

section \<open>Decoding\<close>

text \<open>
  What the decoder makes of the bytes of \<open>m\<close>: absent properties get their defaults, an
  empty identifier becomes \<open>#\<close>, an odd user property list gains an empty value.
\<close>

definition connect_decoded :: "bytes \<Rightarrow> connect \<Rightarrow> connect" where
  "connect_decoded raw m = connect_built m\<lparr>dbuf := raw, packetId := [], dirty := False,
     receiveMaximum := (if recv_max_written m then receiveMaximum m else 65535),
     userProperty := up_pad (userProperty m),
     clientId := (if clientId m = [] then defaultCId else clientId m),
     willPropertiesLen := (if WillFlag m then word_of_nat (will_plen m) else 0),
     willDelayInterval := (if WillFlag m then willDelayInterval m else 0),
     payloadFormatIndicator := (if WillFlag m then payloadFormatIndicator m else 0),
     willMsgExpiryInterval := (if WillFlag m then willMsgExpiryInterval m else 0),
     contentType := (if WillFlag m then contentType m else []),
     responseTopic := (if WillFlag m then responseTopic m else []),
     correlationData := (if WillFlag m then correlationData m else []),
     willUserProperty := (if WillFlag m then up_pad (willUserProperty m) else []),
     willTopic := (if WillFlag m then willTopic m else []),
     willMessage := (if WillFlag m then willMessage m else []),
     username := (if UsernameFlag m then username m else []),
     password := (if PasswordFlag m then password m else [])\<rparr>"

lemma connect_proto:
  assumes "connect_ok m"
  shows "proto m = protoName m" "length (protoName m) \<le> 65535" "SupportedVersions (version m) = Some (protoName m)"
proof -
  show sv: "SupportedVersions (version m) = Some (protoName m)"
    using assms by (simp add: connect_ok_def)
  then have "protoName m = [0x4D, 0x51, 0x54, 0x54]"
    by (simp add: SupportedVersions_def split: if_splits)
  then show "proto m = protoName m" "length (protoName m) \<le> 65535"
    using sv by (simp_all add: proto_def)
qed

lemma connect_dec_front_rt:
  assumes ok: "connect_ok m"
    and room: "length (connect_props m) \<le> length r"
  shows "reads src m0 (steps (connect_dec_front src))
    (lp (proto m) @ [version m] @ [connectFlags m] @ put16 (keepAlive m) @ varint (length (connect_props m)))
    (m0\<lparr>protoName := protoName m, version := version m, connectFlags := connectFlags m, keepAlive := keepAlive m,
       propertiesLen := word_of_nat (length (connect_props m))\<rparr>) r"
proof -
  have p28: "length (connect_props m) < 2 ^ 28"
    using ok connect_body_parts(1) [of m] unfolding connect_ok_def by linarith
  have pr: "proto m = protoName m" "length (protoName m) \<le> 65535"
    using connect_proto [OF ok] by simp_all
  let ?m1 = "m0\<lparr>protoName := protoName m, version := version m, connectFlags := connectFlags m\<rparr>"
  let ?m2 = "?m1\<lparr>keepAlive := keepAlive m\<rparr>"
  let ?m3 = "?m2\<lparr>propertiesLen := word_of_nat (length (connect_props m))\<rparr>"
  have k: "reads src ?m1 (connect_dec_keepAlive src) (put16 (keepAlive m)) ?m2 r'" for r'
    unfolding reads_def
  proof (intro allI impI)
    fix s :: "connect dstate" assume m: "d_msg s = ?m1" and l: "left src (d_tot s) (put16 (keepAlive m) @ r')"
    show "connect_dec_keepAlive src s = Go (s\<lparr>d_tot := d_tot s + length (put16 (keepAlive m)), d_msg := ?m2\<rparr>)"
      using readsD [OF reads_u16 [where upd = "\<lambda>v m. m\<lparr>keepAlive := v\<rparr>"] m l]
      by (simp add: connect_dec_keepAlive_def left_reslice [OF l])
  qed
  have c: "reads src ?m3 (connect_dec_plenCheck src) [] ?m3 r"
    unfolding reads_def connect_dec_plenCheck_def
    using room p28 by (auto simp: left_reslice unat_len32)
  have g: "proto (m0\<lparr>protoName := protoName m, version := version m\<rparr>) = protoName m"
    using pr(1) by (simp add: proto_def)
  have xs: "lp (proto m) @ [version m] @ [connectFlags m] @ put16 (keepAlive m) @ varint (length (connect_props m))
      = concat [lp (protoName m), [version m], [], [], [connectFlags m], [], [], [], [],
          put16 (keepAlive m), varint (length (connect_props m)), []]"
    by (simp add: pr(1))
  have o: "connectFlags m AND 0x1 = 0" "WillQos m \<le> QosExactlyOnce" "\<not> WillFlag m \<Longrightarrow> \<not> WillRetain m \<and> WillQos m = QosAtMostOnce"
      "UsernameFlag m \<Longrightarrow> PasswordFlag m"
    using ok by (simp_all add: connect_ok_def)
  have f: "WillQos ?m1 = WillQos m" "WillFlag ?m1 = WillFlag m" "WillRetain ?m1 = WillRetain m"
      "UsernameFlag ?m1 = UsernameFlag m" "PasswordFlag ?m1 = PasswordFlag m"
    by (simp_all add: WillQos_def WillFlag_def WillRetain_def UsernameFlag_def PasswordFlag_def)
  show ?thesis
    unfolding xs connect_dec_front_def
    apply (rule reads_Cons, rule reads_lp, rule pr(2))
    apply (rule reads_Cons, rule reads_byte)
    apply (rule reads_Cons, rule reads_guard)
    subgoal using connect_proto(3) [OF ok] by simp
    apply (rule reads_Cons, rule reads_guard)
    subgoal using g by simp
    apply (rule reads_Cons, rule reads_byte)
    apply (rule reads_Cons, rule reads_guard)
    subgoal using o by simp
    apply (rule reads_Cons, rule reads_guard)
    subgoal using o by (simp add: f not_less)
    apply (rule reads_Cons, rule reads_guard)
    subgoal using o(3) by (auto simp: f)
    apply (rule reads_Cons, rule reads_guard)
    subgoal using o(4) by (auto simp: f)
    apply (rule reads_Cons, rule k)
    apply (rule reads_Cons, rule reads_lb, rule p28)
    apply (rule reads_Cons, use c in simp)
    by (rule reads_Nil) simp
qed

lemma connect_keep:
  "sessionExpiryInterval m = x0 \<Longrightarrow> m\<lparr>sessionExpiryInterval := x0\<rparr> = m"
  "topicAliasMax m = x1 \<Longrightarrow> m\<lparr>topicAliasMax := x1\<rparr> = m"
  "requestRespInfo m = x2 \<Longrightarrow> m\<lparr>requestRespInfo := x2\<rparr> = m"
  "authMethod m = x3 \<Longrightarrow> m\<lparr>authMethod := x3\<rparr> = m"
  "authData m = x4 \<Longrightarrow> m\<lparr>authData := x4\<rparr> = m"
  "willDelayInterval m = x5 \<Longrightarrow> m\<lparr>willDelayInterval := x5\<rparr> = m"
  "payloadFormatIndicator m = x6 \<Longrightarrow> m\<lparr>payloadFormatIndicator := x6\<rparr> = m"
  "willMsgExpiryInterval m = x7 \<Longrightarrow> m\<lparr>willMsgExpiryInterval := x7\<rparr> = m"
  "contentType m = x8 \<Longrightarrow> m\<lparr>contentType := x8\<rparr> = m"
  "responseTopic m = x9 \<Longrightarrow> m\<lparr>responseTopic := x9\<rparr> = m"
  "correlationData m = x10 \<Longrightarrow> m\<lparr>correlationData := x10\<rparr> = m"
  by auto

lemma connect_dec_props_rt:
  assumes ok: "connect_ok m"
    and z: "sessionExpiryInterval m0 = 0" "topicAliasMax m0 = 0" "requestRespInfo m0 = 0" "authMethod m0 = []" "authData m0 = []"
    and r: "starts_not r SessionExpirationInterval" "starts_not r MaximumQuantityReceived" "starts_not r MaximumMessageLength"
      "starts_not r MaximumLengthOfTopicAlias" "starts_not r RequestResponseInformation"
      "starts_not r RequestProblemInformation" "starts_not r UserProperty" "starts_not r AuthenticationMethod"
      "starts_not r AuthenticationData"
  shows "reads src m0 (steps (connect_dec_props src)) (connect_props m)
    (m0\<lparr>sessionExpiryInterval := sessionExpiryInterval m,
       receiveMaximum := (if recv_max_written m then receiveMaximum m else 65535),
       maxPacketSize := maxPacketSize m, topicAliasMax := topicAliasMax m, requestRespInfo := requestRespInfo m,
       requestProblemInfo := requestProblemInfo m, userProperty := up_pad (userProperty m),
       authMethod := authMethod m, authData := authData m\<rparr>) r"
proof -
  have b: "length (authMethod m) \<le> 65535" "length (authData m) \<le> 65535" "strs_ok (userProperty m)"
      "maxPacketSize m \<noteq> 0" "\<not> not_flag (requestRespInfo m)" "\<not> not_flag (requestProblemInfo m)"
      "authMethod m \<noteq> [] \<Longrightarrow> authData m \<noteq> []"
    using ok by (simp_all add: connect_ok_def word_gt_0)
  have xs: "connect_props m = concat
     [opt_bytes (sessionExpiryInterval m > 0) SessionExpirationInterval (put32 (sessionExpiryInterval m)),
      opt_bytes (recv_max_written m) MaximumQuantityReceived (put16 (receiveMaximum m)),
      opt_bytes True MaximumMessageLength (put32 (maxPacketSize m)),
      opt_bytes (topicAliasMax m > 0) MaximumLengthOfTopicAlias (put16 (topicAliasMax m)),
      opt_bytes (requestRespInfo m \<noteq> 0) RequestResponseInformation [requestRespInfo m],
      opt_bytes (requestProblemInfo m \<noteq> 1) RequestProblemInformation [requestProblemInfo m],
      up_bytes (userProperty m),
      opt_bytes (length (authMethod m) > 0) AuthenticationMethod (lp (authMethod m)),
      opt_bytes (length (authData m) > 0) AuthenticationData (lp (authData m))]"
    by (simp add: connect_props_def)
  show ?thesis
    unfolding xs connect_dec_props_def
    apply (rule reads_Cons, rule reads_opt_unique, rule reads_u32)
       apply (use r in simp, simp, use z in \<open>simp add: connect_keep word_gt_0\<close>)
    apply (rule reads_Cons, rule reads_opt_unique_else [where m' = "m0\<lparr>sessionExpiryInterval := sessionExpiryInterval m,
       receiveMaximum := (if recv_max_written m then receiveMaximum m else 65535)\<rparr>"])
        apply (simp, rule reads_u16)
       apply (use r in simp, simp add: recv_max_written_def word_gt_0, rule reads_set, simp)
    apply (rule reads_Cons, rule reads_opt_unique, rule reads_u32)
       apply (use r in simp, use b in simp, simp)
    apply (rule reads_Cons, rule reads_opt_unique, rule reads_u16)
       apply (use r in simp, simp, use z in \<open>simp add: connect_keep word_gt_0\<close>)
    apply (rule reads_Cons, rule reads_opt_unique, rule reads_byte)
       apply (use r in simp, use b in simp, use z in \<open>simp add: connect_keep word_gt_0\<close>)
    apply (rule reads_Cons, rule reads_opt_unique_else [where m' = "m0\<lparr>sessionExpiryInterval := sessionExpiryInterval m,
       receiveMaximum := (if recv_max_written m then receiveMaximum m else 65535),
       maxPacketSize := maxPacketSize m, topicAliasMax := topicAliasMax m, requestRespInfo := requestRespInfo m,
       requestProblemInfo := requestProblemInfo m\<rparr>"])
        apply (rule reads_byte)
       apply (use r in simp, use b in simp, rule reads_set, simp)
    apply (rule reads_Cons, rule reads_userProperty, rule b(3), use r in simp)
    apply (rule reads_Cons, rule reads_opt_unique, rule reads_lp, rule b(1))
       apply (use r in simp, simp, use z in \<open>simp add: connect_keep word_gt_0\<close>)
    apply (rule reads_Cons, rule reads_opt_unique_else [where m' = "m0\<lparr>sessionExpiryInterval := sessionExpiryInterval m,
       receiveMaximum := (if recv_max_written m then receiveMaximum m else 65535),
       maxPacketSize := maxPacketSize m, topicAliasMax := topicAliasMax m, requestRespInfo := requestRespInfo m,
       requestProblemInfo := requestProblemInfo m, userProperty := up_pad (userProperty m),
       authMethod := authMethod m, authData := authData m\<rparr>"])
        apply (rule reads_lp, rule b(2))
       apply (use r in simp, simp)
     apply (use b(7) z in \<open>auto simp: reads_def dec_guard_def\<close>)[1]
    by (rule reads_Nil) simp
qed

definition will_set :: "connect \<Rightarrow> connect \<Rightarrow> connect" where
  "will_set m m0 = m0\<lparr>willPropertiesLen := word_of_nat (will_plen m), willDelayInterval := willDelayInterval m,
     payloadFormatIndicator := payloadFormatIndicator m, willMsgExpiryInterval := willMsgExpiryInterval m,
     contentType := contentType m, responseTopic := responseTopic m, correlationData := correlationData m,
     willUserProperty := up_pad (willUserProperty m)\<rparr>"

lemma connect_dec_will_rt:
  assumes ok: "connect_ok m" and w: "WillFlag m"
    and z: "willDelayInterval m0 = 0" "payloadFormatIndicator m0 = 0" "willMsgExpiryInterval m0 = 0"
      "contentType m0 = []" "responseTopic m0 = []" "correlationData m0 = []"
    and r: "starts_not r DelayWills" "starts_not r LoadFormatDescription" "starts_not r MessageExpirationTime"
      "starts_not r ContentType" "starts_not r ResponseTopic" "starts_not r RelatedData" "starts_not r UserProperty"
  shows "reads src m0 (steps (connect_dec_will src)) (varint (will_plen m) @ will_props m) (will_set m m0) r"
proof -
  have b: "length (contentType m) \<le> 65535" "length (responseTopic m) \<le> 65535"
      "length (correlationData m) \<le> 65535" "strs_ok (willUserProperty m)" "\<not> not_flag (payloadFormatIndicator m)"
      "will_plen m < 2 ^ 28"
    using ok connect_body_parts(2) [OF w] by (simp_all add: connect_ok_def)
  have xs: "varint (will_plen m) @ will_props m = concat
     [varint (will_plen m),
      opt_bytes (willDelayInterval m > 0) DelayWills (put32 (willDelayInterval m)),
      opt_bytes (payloadFormatIndicator m > 0) LoadFormatDescription [payloadFormatIndicator m],
      opt_bytes (willMsgExpiryInterval m > 0) MessageExpirationTime (put32 (willMsgExpiryInterval m)),
      opt_bytes (length (contentType m) > 0) ContentType (lp (contentType m)),
      opt_bytes (length (responseTopic m) > 0) ResponseTopic (lp (responseTopic m)),
      opt_bytes (length (correlationData m) > 0) RelatedData (lp (correlationData m)),
      up_bytes (willUserProperty m)]"
    by (simp add: will_props_def)
  show ?thesis
    unfolding xs connect_dec_will_def will_set_def
    apply (rule reads_Cons, rule reads_lb, rule b(6))
    apply (rule reads_Cons, rule reads_opt_unique, rule reads_u32)
       apply (use r in simp, simp, use z in \<open>simp add: connect_keep word_gt_0\<close>)
    apply (rule reads_Cons, rule reads_opt_unique, rule reads_byte)
       apply (use r in simp, use b in simp, use z in \<open>simp add: connect_keep word_gt_0\<close>)
    apply (rule reads_Cons, rule reads_opt_unique, rule reads_u32)
       apply (use r in simp, simp, use z in \<open>simp add: connect_keep word_gt_0\<close>)
    apply (rule reads_Cons, rule reads_opt_unique, rule reads_lp, rule b(1))
       apply (use r in simp, simp, use z in \<open>simp add: connect_keep word_gt_0\<close>)
    apply (rule reads_Cons, rule reads_opt_unique, rule reads_lp, rule b(2))
       apply (use r in simp, simp, use z in \<open>simp add: connect_keep word_gt_0\<close>)
    apply (rule reads_Cons, rule reads_opt_unique, rule reads_lp, rule b(3))
       apply (use r in simp, simp, use z in \<open>simp add: connect_keep word_gt_0\<close>)
    apply (rule reads_Cons, rule reads_userProperty, rule b(4), use r in simp)
    by (rule reads_Nil) simp
qed

lemma reads_cred:
  assumes "p m \<Longrightarrow> b \<noteq> []" and "length b \<le> 65535"
  shows "reads src m (connect_dec_cred src p upd) (if p m then lp b else []) (if p m then upd b m else m) r"
  unfolding reads_def
proof (intro allI impI)
  fix s :: "connect dstate" assume m: "d_msg s = m" and l: "left src (d_tot s) ((if p m then lp b else []) @ r)"
  show "connect_dec_cred src p upd s = Go (s\<lparr>d_tot := d_tot s + length (if p m then lp b else []),
      d_msg := if p m then upd b m else m\<rparr>)"
  proof (cases "p m")
    case True
    then have l': "left src (d_tot s) (lp b @ r)"
      using l by simp
    show ?thesis
      using readsD [OF reads_lp [OF assms(2), where upd = upd and h = ret_total] m l'] True m
      by (simp add: connect_dec_cred_def left_reslice [OF l'])
  next
    case False
    then show ?thesis
      using m by (simp add: connect_dec_cred_def)
  qed
qed

definition payload_set :: "connect \<Rightarrow> connect \<Rightarrow> connect" where
  "payload_set m m0 =
     (let m1 = m0\<lparr>clientId := (if clientId m = [] then defaultCId else clientId m)\<rparr>;
          m2 = (if WillFlag m then (will_set m m1)\<lparr>willTopic := willTopic m, willMessage := willMessage m\<rparr> else m1);
          m3 = (if UsernameFlag m then m2\<lparr>username := username m\<rparr> else m2) in
      if PasswordFlag m then m3\<lparr>password := password m\<rparr> else m3)"

lemma connect_dec_payload_rt:
  assumes ok: "connect_ok m" and pl: "connect_plain m" and cf: "connectFlags m0 = connectFlags m"
    and z: "willDelayInterval m0 = 0" "payloadFormatIndicator m0 = 0" "willMsgExpiryInterval m0 = 0"
      "contentType m0 = []" "responseTopic m0 = []" "correlationData m0 = []"
  shows "reads src m0 (steps (connect_dec_payload src))
    (lp (clientId m) @ connect_will m
     @ (if UsernameFlag m \<and> length (username m) > 0 then lp (username m) else [])
     @ (if PasswordFlag m \<and> length (password m) > 0 then lp (password m) else [])) (payload_set m m0) r"
proof -
  let ?m1 = "m0\<lparr>clientId := (if clientId m = [] then defaultCId else clientId m)\<rparr>"
  let ?m2 = "if WillFlag m then (will_set m ?m1)\<lparr>willTopic := willTopic m, willMessage := willMessage m\<rparr> else ?m1"
  let ?m3 = "if UsernameFlag m then ?m2\<lparr>username := username m\<rparr> else ?m2"
  have b: "length (clientId m) \<le> 65535" "length (willTopic m) \<le> 65535" "length (willMessage m) \<le> 65535"
      "length (username m) \<le> 65535" "length (password m) \<le> 65535" "validClientId (clientId m)"
      "clientId m = [] \<Longrightarrow> CleanSession m" "UsernameFlag m \<Longrightarrow> username m \<noteq> []" "PasswordFlag m \<Longrightarrow> password m \<noteq> []"
    using ok by (simp_all add: connect_ok_def)
  have fl: "WillFlag x = WillFlag m" "UsernameFlag x = UsernameFlag m" "PasswordFlag x = PasswordFlag m"
      "CleanSession x = CleanSession m" if "connectFlags x = connectFlags m" for x
    using that by (simp_all add: WillFlag_def UsernameFlag_def PasswordFlag_def CleanSession_def)
  have c2: "connectFlags ?m2 = connectFlags m" "connectFlags ?m3 = connectFlags m"
    using cf by (simp_all add: will_set_def)
  have xs: "lp (clientId m) @ connect_will m
     @ (if UsernameFlag m \<and> length (username m) > 0 then lp (username m) else [])
     @ (if PasswordFlag m \<and> length (password m) > 0 then lp (password m) else [])
    = concat [lp (clientId m), [], [], [],
        (if WillFlag m then varint (will_plen m) @ will_props m else []),
        (if WillFlag m then lp (willTopic m) @ lp (willMessage m) else []),
        (if UsernameFlag m then lp (username m) else []),
        (if PasswordFlag m then lp (password m) else [])]"
    using b(8,9) by (simp add: connect_will_def)
  have w: "reads src ?m1 (dec_cond WillFlag (connect_dec_will src))
      (if WillFlag m then varint (will_plen m) @ will_props m else []) (if WillFlag m then will_set m ?m1 else ?m1)
      (concat [if WillFlag m then lp (willTopic m) @ lp (willMessage m) else [],
        (if UsernameFlag m then lp (username m) else []), (if PasswordFlag m then lp (password m) else [])] @ r)"
  proof (rule reads_cond)
    assume "WillFlag ?m1"
    then have W: "WillFlag m"
      using fl(1) [of ?m1] cf by simp
    have "hd (lp (willTopic m)) \<notin> {DelayWills, LoadFormatDescription, MessageExpirationTime, ContentType,
       ResponseTopic, RelatedData, UserProperty}"
      using pl by (simp add: connect_plain_def)
    then show "reads src ?m1 (steps (connect_dec_will src))
      (if WillFlag m then varint (will_plen m) @ will_props m else []) (if WillFlag m then will_set m ?m1 else ?m1)
      (concat [if WillFlag m then lp (willTopic m) @ lp (willMessage m) else [],
        (if UsernameFlag m then lp (username m) else []), (if PasswordFlag m then lp (password m) else [])] @ r)"
      using connect_dec_will_rt [OF ok W, of ?m1] z W by simp
  next
    assume "\<not> WillFlag ?m1"
    then show "(if WillFlag m then varint (will_plen m) @ will_props m else []) = [] \<and>
        (if WillFlag m then will_set m ?m1 else ?m1) = ?m1"
      using fl(1) [of ?m1] cf by simp
  qed
  have t: "reads src (if WillFlag m then will_set m ?m1 else ?m1) (dec_cond WillFlag
        [dec_lp src (\<lambda>v m. m\<lparr>willTopic := v\<rparr>) ret_total, dec_lp src (\<lambda>v m. m\<lparr>willMessage := v\<rparr>) ret_total])
      (if WillFlag m then lp (willTopic m) @ lp (willMessage m) else []) ?m2 r'" for r'
  proof (rule reads_cond)
    assume "WillFlag (if WillFlag m then will_set m ?m1 else ?m1)"
    then have W: "WillFlag m"
      using fl(1) [of "if WillFlag m then will_set m ?m1 else ?m1"] cf by (simp add: will_set_def)
    have "reads src (will_set m ?m1) (steps [dec_lp src (\<lambda>v m. m\<lparr>willTopic := v\<rparr>) ret_total,
        dec_lp src (\<lambda>v m. m\<lparr>willMessage := v\<rparr>) ret_total]) (concat [lp (willTopic m), lp (willMessage m)])
        ((will_set m ?m1)\<lparr>willTopic := willTopic m, willMessage := willMessage m\<rparr>) r'"
      by (rule reads_Cons, rule reads_lp, rule b, rule reads_Cons, rule reads_lp, rule b, rule reads_Nil) simp
    then show "reads src (if WillFlag m then will_set m ?m1 else ?m1) (steps
        [dec_lp src (\<lambda>v m. m\<lparr>willTopic := v\<rparr>) ret_total, dec_lp src (\<lambda>v m. m\<lparr>willMessage := v\<rparr>) ret_total])
      (if WillFlag m then lp (willTopic m) @ lp (willMessage m) else []) ?m2 r'"
      using W by simp
  next
    assume "\<not> WillFlag (if WillFlag m then will_set m ?m1 else ?m1)"
    then have "\<not> WillFlag m"
      using fl(1) [of "if WillFlag m then will_set m ?m1 else ?m1"] cf by (auto simp: will_set_def)
    then show "(if WillFlag m then lp (willTopic m) @ lp (willMessage m) else []) = [] \<and>
        ?m2 = (if WillFlag m then will_set m ?m1 else ?m1)"
      by simp
  qed
  have u: "reads src ?m2 (connect_dec_cred src UsernameFlag (\<lambda>v m. m\<lparr>username := v\<rparr>))
      (if UsernameFlag m then lp (username m) else []) ?m3 r'" for r'
    using reads_cred [of UsernameFlag ?m2 "username m" src "\<lambda>v m. m\<lparr>username := v\<rparr>" r'] b(4,8) fl(2) [OF c2(1)] by simp
  have p: "reads src ?m3 (connect_dec_cred src PasswordFlag (\<lambda>v m. m\<lparr>password := v\<rparr>))
      (if PasswordFlag m then lp (password m) else []) (if PasswordFlag m then ?m3\<lparr>password := password m\<rparr> else ?m3) r'" for r'
    using reads_cred [of PasswordFlag ?m3 "password m" src "\<lambda>v m. m\<lparr>password := v\<rparr>" r'] b(5,9) fl(3) [OF c2(2)] by simp
  show ?thesis
    unfolding xs connect_dec_payload_def payload_set_def Let_def
    apply (rule reads_Cons, rule reads_lp, rule b(1))
    apply (rule reads_Cons, rule reads_guard)
    subgoal using b(7) fl(4) [of "m0\<lparr>clientId := clientId m\<rparr>"] cf by auto
    apply (rule reads_Cons, rule reads_guard)
    subgoal using b(6) by simp
    apply (rule reads_Cons, rule reads_set [where m' = ?m1])
    subgoal by simp
    apply (rule reads_Cons, rule w)
    apply (rule reads_Cons, rule t)
    apply (rule reads_Cons, rule u)
    apply (rule reads_Cons, rule p)
    by (rule reads_Nil) simp
qed

lemma NewConnect_type: "Type NewConnectMessage = CONNECT"
  by (simp add: NewConnectMessage_def SetMaxPacketSize_def SetRequestProblemInfo_def header.defs Type_def
      new_header_def first_byte_def DefaultFlags_def mtype_of_def)

lemma connect_Decode_bytes:
  assumes ok: "connect_ok m" and plain: "connect_plain m" and v: "vis src = connect_bytes m"
  shows "connect_Decode src NewConnectMessage
    = Go \<lparr>d_hn = Suc (length (varint (length (connect_body m)))), d_tot = length (connect_bytes m),
        d_msg = connect_decoded (vis src) m\<rparr>"
proof -
  let ?b = "length (connect_body m)"
  let ?hn = "Suc (length (varint ?b))"
  define m0 where "m0 = NewConnectMessage\<lparr>dbuf := vis src, mtf := mtf m, remlen := word_of_nat ?b\<rparr>"
  define m1 where "m1 = m0\<lparr>protoName := protoName m, version := version m, connectFlags := connectFlags m,
      keepAlive := keepAlive m, propertiesLen := word_of_nat (length (connect_props m))\<rparr>"
  define m2 where "m2 = m1\<lparr>sessionExpiryInterval := sessionExpiryInterval m,
       receiveMaximum := (if recv_max_written m then receiveMaximum m else 65535),
       maxPacketSize := maxPacketSize m, topicAliasMax := topicAliasMax m, requestRespInfo := requestRespInfo m,
       requestProblemInfo := requestProblemInfo m, userProperty := up_pad (userProperty m),
       authMethod := authMethod m, authData := authData m\<rparr>"
  note init = NewConnectMessage_def SetMaxPacketSize_def SetRequestProblemInfo_def header.defs new_header_def
  define x1 where "x1 = lp (proto m) @ [version m] @ [connectFlags m] @ put16 (keepAlive m) @ varint (length (connect_props m))"
  define x3 where "x3 = lp (clientId m) @ connect_will m
     @ (if UsernameFlag m \<and> length (username m) > 0 then lp (username m) else [])
     @ (if PasswordFlag m \<and> length (password m) > 0 then lp (password m) else [])"
  have body: "connect_body m = x1 @ connect_props m @ x3"
    by (simp add: connect_body_def x1_def x3_def)
  have o: "?b < 2 ^ 28" "flags_ok (mtf m)" "Type m = CONNECT"
    using ok by (simp_all add: connect_ok_def)
  have pos: "?b \<noteq> 0"
    by (simp add: connect_body_def)
  have ty: "mtype_of (drop_bit 4 (mtf m)) = Type NewConnectMessage"
    using o(3) NewConnect_type by (simp add: Type_def)
  have vv: "vis src = mtf m # varint ?b @ connect_body m"
    using v by (simp add: connect_bytes_def)
  note h = dec_header_rt [OF vv o(1) refl o(2) ty disjI1 [OF pos]]
  have pl: "hd (lp (clientId m)) \<notin> {SessionExpirationInterval, MaximumQuantityReceived, MaximumMessageLength,
       MaximumLengthOfTopicAlias, RequestResponseInformation, RequestProblemInformation, UserProperty,
       AuthenticationMethod, AuthenticationData}"
    using plain by (simp add: connect_plain_def)
  have r1: "reads src m0 (steps (connect_dec_front src)) x1 m1 ((connect_props m @ x3) @ [])"
    unfolding m1_def x1_def by (rule connect_dec_front_rt [OF ok]) simp
  have r2: "reads src m1 (steps (connect_dec_props src)) (connect_props m) m2 (x3 @ [])"
    unfolding m2_def by (rule connect_dec_props_rt [OF ok]) (use pl in \<open>simp_all add: m1_def m0_def init x3_def\<close>)
  have r3: "reads src m2 (steps (connect_dec_payload src)) x3 (payload_set m m2) []"
    unfolding x3_def by (rule connect_dec_payload_rt [OF ok plain]) (simp_all add: m2_def m1_def m0_def init)
  have r: "reads src m0 (steps (connect_dec_front src @ connect_dec_props src @ connect_dec_payload src))
      (connect_body m) (payload_set m m2) []"
    unfolding body by (rule reads_append [OF r1 reads_append [OF r2 r3]])
  let ?s0 = "\<lparr>d_hn = ?hn, d_tot = ?hn, d_msg = m0\<rparr>"
  have l: "left src (d_tot ?s0) (connect_body m @ [])"
    using h(2) by simp
  have e: "(payload_set m m2)\<lparr>dirty := False\<rparr> = connect_decoded (vis src) m"
    by (rule connect.equality) (simp_all add: payload_set_def Let_def will_set_def m2_def m1_def m0_def
        init connect_decoded_def connect_built_def)
  define mid where "mid = connect_dec_front src @ connect_dec_props src @ connect_dec_payload src"
  have c: "connect_Decode src NewConnectMessage
      = steps (dec_header src # mid @ [dec_set (\<lambda>m. m\<lparr>dirty := False\<rparr>)]) (dstart NewConnectMessage)"
    by (simp add: connect_Decode_def mid_def)
  show ?thesis
    using h(1) readsD [OF r [folded mid_def] _ l] e
    by (simp add: c steps_append [of mid] dec_set_def connect_bytes_def m0_def)
qed

section \<open>The packet\<close>

definition sample_connect :: connect where
  "sample_connect = NewConnectMessage\<lparr>version := 5, protoName := [0x4D, 0x51, 0x54, 0x54], connectFlags := 0xC6,
     keepAlive := 60, clientId := [0x63, 0x31], willTopic := [0x77], willMessage := [0x62, 0x79], username := [0x75],
     password := [0x70], willUserProperty := [[0x6B], [0x76]], sessionExpiryInterval := 30\<rparr>"

lemma sample_connect_ok: "connect_ok sample_connect" "connect_plain sample_connect" "dirty sample_connect"
  by code_simp+

lemma connect_there_and_back:
  assumes "connect_ok m" and "dirty m" and "connect_plain m"
  obtains s t where "connect_EncodeToBuf \<lparr>b_buf = [], b_msg = m, b_gpid = g\<rparr> = Go s"
    "connect_Decode (GSlice (b_buf s) sp) NewConnectMessage = Go t" "d_tot t = length (b_buf s)"
    "b_buf s = connect_bytes m" "d_msg t = connect_decoded (connect_bytes m) m"
  using assms connect_EncodeToBuf_bytes [of "\<lparr>b_buf = [], b_msg = m, b_gpid = g\<rparr>"]
    connect_Decode_bytes [of m "GSlice (connect_bytes m) sp"] by simp

text \<open>C7: round trip of CONNECT, for the messages that encoder and decoder accept, changed since they were last
  encoded or decoded. They have a supported version with its protocol name, a reserved flag of 0, properties that are
  flags 0 or 1, a will QoS of at most 2, and no will QoS, will retain or will user properties without the will flag; a
  user name comes with a password, an authentication method with data, and what is flagged (will topic, will message,
  user name, password) is not empty; the client identifier has letters, digits, space, \<open>_\<close>,
  \<open>-\<close> and \<open>/\<close> only, and is empty only with a clean start; the maximum packet size is not 0;
  strings have at most 65535 bytes and the body fewer than 2^28. Some of these limits are the code's and not the
  protocol's. Moreover the high byte of the length of the client identifier is not a CONNECT property identifier, and
  that of the will topic not a will property identifier, which the decoder would take for a property; will topics of
  256 to 1023, 2048 to 2559, 6144 to 6399 and 9728 to 9983 bytes are therefore left out. Such a message is encoded by
  \<open>EncodeToBuf\<close> without error, and \<open>Decode\<close> reads the whole buffer back, whatever capacity
  lies behind it, into a message with the same flags, version, keep alive, properties and credentials, the same client
  identifier (\<open>#\<close> in the place of an empty one), and, with the will flag set, the same will; a receive
  maximum of 0 comes back as 65535, and user property lists of odd length gain an empty value.\<close>

theorem connect_roundtrip:
  assumes "connect_ok m" and "dirty m" and "connect_plain m"
  shows "\<exists>s t. connect_EncodeToBuf \<lparr>b_buf = [], b_msg = m, b_gpid = g\<rparr> = Go s
    \<and> connect_Decode (GSlice (b_buf s) sp) NewConnectMessage = Go t
    \<and> d_tot t = length (b_buf s) \<and> mtf (d_msg t) = mtf m \<and> protoName (d_msg t) = protoName m
    \<and> version (d_msg t) = version m \<and> connectFlags (d_msg t) = connectFlags m \<and> keepAlive (d_msg t) = keepAlive m
    \<and> sessionExpiryInterval (d_msg t) = sessionExpiryInterval m
    \<and> receiveMaximum (d_msg t) = (if receiveMaximum m > 0 \<and> receiveMaximum m < 65535 then receiveMaximum m else 65535)
    \<and> maxPacketSize (d_msg t) = maxPacketSize m \<and> topicAliasMax (d_msg t) = topicAliasMax m
    \<and> requestRespInfo (d_msg t) = requestRespInfo m \<and> requestProblemInfo (d_msg t) = requestProblemInfo m
    \<and> userProperty (d_msg t) = up_pad (userProperty m)
    \<and> authMethod (d_msg t) = authMethod m \<and> authData (d_msg t) = authData m
    \<and> clientId (d_msg t) = (if clientId m = [] then [0x23] else clientId m)
    \<and> (WillFlag m \<longrightarrow> willTopic (d_msg t) = willTopic m \<and> willMessage (d_msg t) = willMessage m
        \<and> willDelayInterval (d_msg t) = willDelayInterval m \<and> payloadFormatIndicator (d_msg t) = payloadFormatIndicator m
        \<and> willMsgExpiryInterval (d_msg t) = willMsgExpiryInterval m \<and> contentType (d_msg t) = contentType m
        \<and> responseTopic (d_msg t) = responseTopic m \<and> correlationData (d_msg t) = correlationData m
        \<and> willUserProperty (d_msg t) = up_pad (willUserProperty m))
    \<and> (UsernameFlag m \<longrightarrow> username (d_msg t) = username m)
    \<and> (PasswordFlag m \<longrightarrow> password (d_msg t) = password m) \<and> \<not> dirty (d_msg t)"
proof -
  obtain s t where "connect_EncodeToBuf \<lparr>b_buf = [], b_msg = m, b_gpid = g\<rparr> = Go s"
    "connect_Decode (GSlice (b_buf s) sp) NewConnectMessage = Go t" "d_tot t = length (b_buf s)"
    "d_msg t = connect_decoded (connect_bytes m) m"
    by (rule connect_there_and_back [OF assms])
  then show ?thesis
    by (simp add: connect_decoded_def connect_built_def recv_max_written_def defaultCId_def)
qed

theorem connect_roundtrip_witness:
  "\<exists>s t. connect_EncodeToBuf \<lparr>b_buf = [], b_msg = sample_connect, b_gpid = 0\<rparr> = Go s
    \<and> connect_Decode (GSlice (b_buf s) [0x26]) NewConnectMessage = Go t
    \<and> clientId (d_msg t) = [0x63, 0x31] \<and> receiveMaximum (d_msg t) = 65535"
  using connect_roundtrip [OF sample_connect_ok(1,3,2), of 0 "[0x26]"]
  by (auto simp: sample_connect_def NewConnectMessage_def SetMaxPacketSize_def SetRequestProblemInfo_def
      header.defs)



text \<open>The length of the will properties that CONNECT announces leaves out the will's user
  properties. In every packet the encoder makes, the announced length plus the length of the user
  properties is the length of the properties that follow, so a decoder that trusts the field stops
  early; the decoder here does not look at it.\<close>

theorem connect_will_length_short:
  assumes "connect_ok m" and "dirty m" and "connect_plain m" and "WillFlag m"
  shows "\<exists>s t. connect_EncodeToBuf \<lparr>b_buf = [], b_msg = m, b_gpid = g\<rparr> = Go s
    \<and> connect_Decode (GSlice (b_buf s) sp) NewConnectMessage = Go t
    \<and> unat (willPropertiesLen (d_msg t)) + buildUserPropertyLen (willUserProperty m) = length (will_props m)
    \<and> willUserProperty (d_msg t) = up_pad (willUserProperty m)"
proof -
  have "will_plen m < 2 ^ 32"
    using connect_body_parts(2) [OF assms(4)] assms(1) by (simp add: connect_ok_def)
  then have "unat (word_of_nat (will_plen m) :: uint32) = will_plen m"
    by (simp add: unat_of_nat take_bit_nat_eq_self)
  moreover obtain s t where "connect_EncodeToBuf \<lparr>b_buf = [], b_msg = m, b_gpid = g\<rparr> = Go s"
    "connect_Decode (GSlice (b_buf s) sp) NewConnectMessage = Go t" "d_msg t = connect_decoded (connect_bytes m) m"
    by (rule connect_there_and_back [OF assms(1-3)])
  ultimately show ?thesis
    using assms(4) by (simp add: connect_decoded_def will_props_length)
qed

theorem connect_will_length_short_witness:
  "\<exists>s t. connect_EncodeToBuf \<lparr>b_buf = [], b_msg = sample_connect, b_gpid = 0\<rparr> = Go s
    \<and> connect_Decode (GSlice (b_buf s) []) NewConnectMessage = Go t
    \<and> unat (willPropertiesLen (d_msg t)) + 7 = length (will_props sample_connect)"
proof -
  have "WillFlag sample_connect" "buildUserPropertyLen (willUserProperty sample_connect) = 7"
    by code_simp+
  then show ?thesis
    using connect_will_length_short [OF sample_connect_ok(1,3,2), of 0 "[]"] by auto
qed

text \<open>C40: a CONNECT packet that ends behind the protocol name has no version byte; the decoder reads
  that byte with no test of the length and panics, on the first bytes a client sends.\<close>

theorem connect_truncated_panics:
  assumes "length p \<le> 65535" and v: "vis src = first_byte CONNECT 0 # varint (length (lp p)) @ lp p"
  shows "connect_Decode src NewConnectMessage = Panic"
proof -
  have n: "length (lp p) < 2 ^ 28" "length (lp p) \<noteq> 0"
    using assms(1) by simp_all
  have f: "flags_ok (first_byte CONNECT 0)" "mtype_of (drop_bit 4 (first_byte CONNECT 0)) = Type NewConnectMessage"
    unfolding NewConnect_type by (simp_all add: flags_ok_def first_byte_def mtype_of_def DefaultFlags_def)
  note h = dec_header_rt [OF v n(1) refl f disjI1 [OF n(2)]]
  let ?hn = "Suc (length (varint (length (lp p))))"
  let ?s = "\<lparr>d_hn = ?hn, d_tot = ?hn, d_msg = NewConnectMessage\<lparr>dbuf := vis src, mtf := first_byte CONNECT 0,
      remlen := word_of_nat (length (lp p))\<rparr>\<rparr>"
  have l: "left src (d_tot ?s) (lp p @ [])"
    using h(2) by simp
  have "at src (?hn + length (lp p)) = None"
    using v by (simp add: at_def)
  then show ?thesis
    using h(1) dec_lp_rt [OF l assms(1), where upd = "\<lambda>v m. m\<lparr>protoName := v\<rparr>" and h = ret_total]
    by (simp add: connect_Decode_def connect_dec_front_def dec_byte_def)
qed

theorem connect_truncated_panics_witness:
  "connect_Decode (exact [0x10, 6, 0, 4, 0x4D, 0x51, 0x54, 0x54]) NewConnectMessage = Panic"
proof -
  have "vis (exact [0x10, 6, 0, 4, 0x4D, 0x51, 0x54, 0x54])
    = first_byte CONNECT 0 # varint (length (lp [0x4D, 0x51, 0x54, 0x54])) @ lp [0x4D, 0x51, 0x54, 0x54]"
    by code_simp
  then show ?thesis
    by (intro connect_truncated_panics [of "[0x4D, 0x51, 0x54, 0x54]"]) simp_all
qed

end
