(* ===== verification/DisconnectRT.thy ===== *)
theory DisconnectRT
  imports Disconnect PacketFrame
begin

text \<open>
  The wire format of DISCONNECT as a function of the message, and the proofs that the
  encoders produce it and what \<open>Decode\<close> makes of it.
\<close>

section \<open>The wire format\<close>

definition disconnect_props :: "disconnect \<Rightarrow> bytes" where
  "disconnect_props m =
     opt_bytes (sessionExpiryInterval m > 0) SessionExpirationInterval (put32 (sessionExpiryInterval m))
     @ opt_bytes (length (reasonStr m) > 0) ReasonString (lp (reasonStr m))
     @ up_bytes (userProperty m)
     @ opt_bytes (length (serverReference m) > 0) ServerReference (lp (serverReference m))"

definition disconnect_body :: "disconnect \<Rightarrow> bytes" where
  "disconnect_body m =
     (if reasonCode m = Success \<and> disconnect_props m = [] then []
      else [reasonCode m] @ varint (length (disconnect_props m)) @ disconnect_props m)"

definition disconnect_ok :: "disconnect \<Rightarrow> bool" where
  "disconnect_ok m \<longleftrightarrow>
     Type m = DISCONNECT \<and> flags_ok (mtf m) \<and> ValidDisconnectReasonCode (reasonCode m)
     \<and> length (reasonStr m) \<le> 65535 \<and> length (serverReference m) \<le> 65535 \<and> strs_ok (userProperty m)
     \<and> length (disconnect_props m) < 2 ^ 27"

definition disconnect_built :: "disconnect \<Rightarrow> disconnect" where
  "disconnect_built m = m\<lparr>propertyLen := word_of_nat (length (disconnect_props m)),
     remlen := word_of_nat (length (disconnect_body m)), dirty := True\<rparr>"

lemma disconnect_sizes:
  assumes "disconnect_ok m"
  shows "length (disconnect_props m) < 2 ^ 28" "length (disconnect_body m) < 2 ^ 28"
proof -
  show p: "length (disconnect_props m) < 2 ^ 28"
    using assms by (simp add: disconnect_ok_def)
  have "length (varint (length (disconnect_props m))) \<le> 4"
    using p length_varint_le [of _ 3] by simp
  then show "length (disconnect_body m) < 2 ^ 28"
    using assms by (simp add: disconnect_ok_def disconnect_body_def)
qed

lemma length_disconnect_props:
  "length (disconnect_props m) = (if sessionExpiryInterval m > 0 then 5 else 0) + prop_len (reasonStr m)
     + buildUserPropertyLen (userProperty m) + prop_len (serverReference m)"
  by (simp add: disconnect_props_def prop_len_def)

lemma disconnect_build_ok:
  assumes ok: "disconnect_ok m"
  shows "disconnect_build m = Some (disconnect_built m)"
proof -
  let ?p = "length (disconnect_props m)" and ?b = "length (disconnect_body m)"
  note z = disconnect_sizes [OF ok]
  note p = plen_ok [OF z(1)] and b = plen_ok [OF z(2)]
  have "1 + ?p + length (varint ?p) = ?b" if "\<not> (reasonCode m = Success \<and> disconnect_props m = [])"
    using that by (auto simp: disconnect_body_def)
  moreover have "?b = 0" if "reasonCode m = Success \<and> disconnect_props m = []"
    using that by (simp add: disconnect_body_def)
  ultimately show ?thesis
    unfolding disconnect_build_def Let_def length_disconnect_props [symmetric]
    using p(1,2,4) b(3) plen_ok(3) [of 0] by (auto simp: disconnect_built_def simp del: of_nat_add)
qed

definition disconnect_chunks :: "disconnect \<Rightarrow> bytes list" where
  "disconnect_chunks m =
     [if \<not> (reasonCode m = Success \<and> disconnect_props m = []) then concat
       [[reasonCode m], varint (length (disconnect_props m)),
        opt_bytes (sessionExpiryInterval m > 0) SessionExpirationInterval (put32 (sessionExpiryInterval m)),
        opt_bytes (length (reasonStr m) > 0) ReasonString (lp (reasonStr m)),
        up_bytes (userProperty m),
        opt_bytes (length (serverReference m) > 0) ServerReference (lp (serverReference m))] else []]"

lemma disconnect_built_fields [simp]:
  "mtf (disconnect_built m) = mtf m" "reasonCode (disconnect_built m) = reasonCode m"
  "sessionExpiryInterval (disconnect_built m) = sessionExpiryInterval m"
  "reasonStr (disconnect_built m) = reasonStr m" "userProperty (disconnect_built m) = userProperty m"
  "serverReference (disconnect_built m) = serverReference m"
  by (simp_all add: disconnect_built_def)

lemma disconnect_built_short:
  assumes "disconnect_ok m"
  shows "disconnect_short (disconnect_built m) \<longleftrightarrow> reasonCode m = Success \<and> disconnect_props m = []"
    "unat (propertyLen (disconnect_built m)) = length (disconnect_props m)"
  using disconnect_sizes [OF assms, THEN plen_ok(4)] disconnect_sizes(1) [OF assms, THEN plen_ok(2)]
  by (auto simp: disconnect_short_def disconnect_built_def disconnect_body_def simp del: of_nat_add)

interpretation dc: packet_encoders disconnect_ok disconnect_build disconnect_built disconnect_body
  "tl disconnect_buf_steps" "tl disconnect_enc_steps" disconnect_chunks
  disconnect_EncodeToBuf disconnect_Encode "Errorf ''auth/Encode: Insufficient buffer size.''"
proof unfold_locales
  fix m :: disconnect and N :: nat assume ok: "disconnect_ok m"
  have o: "length (reasonStr m) \<le> 65535" "length (serverReference m) \<le> 65535" "strs_ok (userProperty m)"
    using ok by (simp_all add: disconnect_ok_def)
  note s = disconnect_built_short [OF ok] and z = disconnect_sizes [OF ok]
  show "disconnect_build m = Some (disconnect_built m)"
    by (rule disconnect_build_ok [OF ok])
  show "length (disconnect_body m) < 2 ^ 28" "mtype_Valid (Type m)"
    using z(2) ok by (simp_all add: disconnect_ok_def)
  show "remlen (disconnect_built m) = word_of_nat (length (disconnect_body m)) \<and> dirty (disconnect_built m)"
    by (simp add: disconnect_built_def)
  show "concat (disconnect_chunks m) = disconnect_body m"
    by (simp add: disconnect_chunks_def disconnect_body_def disconnect_props_def)
  have c: "disconnect_chunks m = [if \<not> disconnect_short (disconnect_built m) then concat
       [[reasonCode (disconnect_built m)], varint (unat (propertyLen (disconnect_built m))),
        opt_bytes (sessionExpiryInterval (disconnect_built m) > 0) SessionExpirationInterval (put32 (sessionExpiryInterval (disconnect_built m))),
        opt_bytes (length (reasonStr (disconnect_built m)) > 0) ReasonString (lp (reasonStr (disconnect_built m))),
        up_bytes (userProperty (disconnect_built m)),
        opt_bytes (length (serverReference (disconnect_built m)) > 0) ServerReference (lp (serverReference (disconnect_built m)))] else []]"
    by (simp add: disconnect_chunks_def s)
  show "list_all2 (appends (disconnect_built m)) (tl disconnect_buf_steps) (disconnect_chunks m)"
    unfolding c disconnect_buf_steps_def list.sel list_all2_Cons list_all2_Nil
    by (intro conjI TrueI appends_when appends_intros list_all2_Cons [THEN iffD2] list_all2_Nil [THEN iffD2])
      (use o s(2) z(1) in simp_all)
  show "list_all2 (writes N (disconnect_built m)) (tl disconnect_enc_steps) (disconnect_chunks m)"
    unfolding c disconnect_enc_steps_def list.sel list_all2_Cons list_all2_Nil
    by (intro conjI TrueI writes_when writes_intros list_all2_Cons [THEN iffD2] list_all2_Nil [THEN iffD2])
      (use o s(2) z(1) in simp_all)
qed (simp_all add: disconnect_EncodeToBuf_def disconnect_Encode_def disconnect_buf_steps_def disconnect_enc_steps_def)

section \<open>Decoding\<close>

text \<open>The first four bytes of the packet, which \<open>Decode\<close> takes for the session expiry interval.\<close>

definition first_word :: "bytes \<Rightarrow> uint32" where
  "first_word raw = (case get32 raw of Some v \<Rightarrow> v | None \<Rightarrow> 0)"

lemma first_word_pos:
  assumes "length raw \<ge> 4" and "drop_bit 4 (hd raw) \<noteq> 0"
  shows "get32 raw = Some (first_word raw)" "first_word raw \<noteq> 0"
proof -
  obtain a b c d r where raw: "raw = a # b # c # d # r"
    using assms(1) by (auto simp: numeral_eq_Suc Suc_le_length_iff)
  then show "get32 raw = Some (first_word raw)"
    by (simp add: first_word_def)
  have "a \<noteq> 0"
    using assms(2) raw by auto
  then obtain n where b: "bit a n"
    by (auto simp: bit_eq_iff)
  then have "n < 8"
    using bit_imp_le_length [OF b] by simp
  with b have "bit (push_bit 24 (ucast a) OR push_bit 16 (ucast b) OR push_bit 8 (ucast c) OR ucast d :: uint32) (24 + n)"
    by (auto simp: bit_simps)
  then show "first_word raw \<noteq> 0"
    using raw by (auto simp: first_word_def)
qed

definition disconnect_decoded :: "bytes \<Rightarrow> disconnect \<Rightarrow> disconnect" where
  "disconnect_decoded raw m = disconnect_built m\<lparr>dbuf := raw, packetId := [], userProperty := up_pad (userProperty m),
     sessionExpiryInterval := (if sessionExpiryInterval m > 0 then first_word raw else 0)\<rparr>"

lemma reads_once:
  assumes hit: "p \<Longrightarrow> reads src m (steps body) e mx (x @ r)" and miss: "\<not> p \<Longrightarrow> mx = m"
    and n: "starts_not (x @ r) c" and k: "reads src mx k x m' r"
  shows "reads src m (dec_once src c body k) (opt_bytes p c e @ x) m' r"
  unfolding reads_def
proof (intro allI impI)
  fix s :: "'a dstate" assume m: "d_msg s = m" and l: "left src (d_tot s) ((opt_bytes p c e @ x) @ r)"
  show "dec_once src c body k s = Go (s\<lparr>d_tot := d_tot s + length (opt_bytes p c e @ x), d_msg := m'\<rparr>)"
  proof (cases p)
    case True
    have l1: "left src (d_tot s) (c # e @ (x @ r))"
      using l True by (simp add: opt_bytes_def)
    let ?s = "s\<lparr>d_tot := Suc (d_tot s)\<rparr>"
    have l2: "left src (d_tot ?s) (e @ (x @ r))"
      using left_Suc [OF l1] by simp
    let ?t = "?s\<lparr>d_tot := d_tot ?s + length e, d_msg := mx\<rparr>"
    have l3: "left src (d_tot ?t) (x @ r)"
      using left_advance [OF l2] by simp
    show ?thesis
      using readsD [OF hit [OF True] _ l2] readsD [OF k _ l3] m True left_at [OF l1] left_starts_not [OF l3 n]
      by (simp add: dec_once_def opt_bytes_def)
  next
    case False
    then show ?thesis
      using readsD [OF k, of s] m l miss left_starts_not [OF _ n, of src "d_tot s"]
      by (simp add: dec_once_def opt_bytes_def)
  qed
qed

lemma reads_then:
  assumes "reads src m f x m1 (y @ r)" and "reads src m1 k y m' r"
  shows "reads src m (\<lambda>s. andthen (f s) k Fail) (x @ y) m' r"
  unfolding reads_def
proof (intro allI impI)
  fix s :: "'a dstate" assume m: "d_msg s = m" and l: "left src (d_tot s) ((x @ y) @ r)"
  have l1: "left src (d_tot s) (x @ (y @ r))"
    using l by simp
  show "andthen (f s) k Fail = Go (s\<lparr>d_tot := d_tot s + length (x @ y), d_msg := m'\<rparr>)"
    using readsD [OF assms(1) m l1] readsD [OF assms(2), of "s\<lparr>d_tot := d_tot s + length x, d_msg := m1\<rparr>"]
      left_advance [OF l1] by (simp add: add.assoc)
qed

lemma reads_one: "reads src m f x m' r \<Longrightarrow> reads src m (steps [f]) x m' r"
  by (auto simp: reads_def)

lemma reads_expiry:
  assumes "get32 (vis src) = Some v" and "v \<noteq> 0"
  shows "reads src m (steps [disconnect_dec_expiry src, dec_guard (\<lambda>m. sessionExpiryInterval m = 0) ProtocolError])
    (put32 w) (m\<lparr>sessionExpiryInterval := v\<rparr>) r"
  using assms by (auto simp: reads_def disconnect_dec_expiry_def dec_guard_def)

lemma disconnect_dec_props_rt:
  assumes o: "length (reasonStr m) \<le> 65535" "length (serverReference m) \<le> 65535" "strs_ok (userProperty m)"
    and w: "sessionExpiryInterval m > 0 \<Longrightarrow> get32 (vis src) = Some v \<and> v \<noteq> 0"
    and m0: "sessionExpiryInterval m0 = 0" "reasonStr m0 = []" "serverReference m0 = []"
  shows "reads src m0 (disconnect_dec_props src) (disconnect_props m)
    (m0\<lparr>sessionExpiryInterval := (if sessionExpiryInterval m > 0 then v else 0), reasonStr := reasonStr m,
      userProperty := up_pad (userProperty m), serverReference := serverReference m\<rparr>) []"
proof -
  let ?m1 = "m0\<lparr>sessionExpiryInterval := (if sessionExpiryInterval m > 0 then v else 0)\<rparr>"
  let ?m2 = "?m1\<lparr>reasonStr := reasonStr m\<rparr>"
  let ?m3 = "?m2\<lparr>userProperty := up_pad (userProperty m)\<rparr>"
  let ?m4 = "?m3\<lparr>serverReference := serverReference m\<rparr>"
  have 4: "reads src ?m3 (dec_once src ServerReference [dec_lp src (\<lambda>v m. m\<lparr>serverReference := v\<rparr>) ret_total] Go)
      (opt_bytes (length (serverReference m) > 0) ServerReference (lp (serverReference m)) @ []) ?m4 []"
    by (rule reads_once [where mx = ?m4], rule reads_one, rule reads_lp) (use o m0 in \<open>auto intro: reads_Go\<close>)
  have 3: "reads src ?m2 (\<lambda>s. andthen (dec_userProperty src (\<lambda>v m. m\<lparr>userProperty := v\<rparr>) s)
        (dec_once src ServerReference [dec_lp src (\<lambda>v m. m\<lparr>serverReference := v\<rparr>) ret_total] Go) Fail)
      (up_bytes (userProperty m) @ opt_bytes (length (serverReference m) > 0) ServerReference (lp (serverReference m))) ?m4 []"
    by (rule reads_then [OF reads_userProperty]) (use o 4 in simp_all)
  have 2: "reads src ?m1 (dec_once src ReasonString [dec_lp src (\<lambda>v m. m\<lparr>reasonStr := v\<rparr>) ret_total]
      (\<lambda>s. andthen (dec_userProperty src (\<lambda>v m. m\<lparr>userProperty := v\<rparr>) s)
        (dec_once src ServerReference [dec_lp src (\<lambda>v m. m\<lparr>serverReference := v\<rparr>) ret_total] Go) Fail))
      (opt_bytes (length (reasonStr m) > 0) ReasonString (lp (reasonStr m)) @ up_bytes (userProperty m)
        @ opt_bytes (length (serverReference m) > 0) ServerReference (lp (serverReference m))) ?m4 []"
    by (rule reads_once [where mx = ?m2], rule reads_one, rule reads_lp) (use o m0 3 in auto)
  show ?thesis
    unfolding disconnect_dec_props_def disconnect_props_def
    by (rule reads_once [where mx = ?m1], rule reads_expiry) (use w m0 2 in auto)
qed

lemma NewDisconnect_type: "Type NewDisconnectMessage = DISCONNECT"
  by (simp add: NewDisconnectMessage_def new_header_def header.defs Type_def first_byte_def DefaultFlags_def mtype_of_def)

lemma disconnect_Decode_bytes:
  assumes ok: "disconnect_ok m" and v: "vis src = frame m (disconnect_body m)"
  shows "disconnect_Decode src NewDisconnectMessage
    = Go \<lparr>d_hn = Suc (length (varint (length (disconnect_body m)))), d_tot = length (vis src),
        d_msg = disconnect_decoded (vis src) m\<rparr>"
proof -
  let ?b = "length (disconnect_body m)" and ?p = "length (disconnect_props m)"
  define m0 where "m0 = NewDisconnectMessage\<lparr>dbuf := vis src, mtf := mtf m, remlen := word_of_nat ?b\<rparr>"
  let ?hn = "Suc (length (varint ?b))"
  have o: "length (reasonStr m) \<le> 65535" "length (serverReference m) \<le> 65535" "strs_ok (userProperty m)"
      "ValidDisconnectReasonCode (reasonCode m)" "Type m = DISCONNECT" "flags_ok (mtf m)"
    using ok by (simp_all add: disconnect_ok_def)
  note z = disconnect_sizes [OF ok]
  note u = plen_ok(2) [OF z(2)]
  have vs: "vis src = mtf m # varint ?b @ disconnect_body m"
    by (simp add: v frame_def)
  have h: "dec_header src (dstart NewDisconnectMessage) = Go \<lparr>d_hn = ?hn, d_tot = ?hn, d_msg = m0\<rparr>"
    and l0: "left src ?hn (disconnect_body m)"
    using dec_header_rt [OF vs z(2) refl o(6), of NewDisconnectMessage] o(5) NewDisconnect_type
    by (simp_all add: m0_def Type_def exempt_def)
  have dec: "disconnect_decoded (vis src) m = m0\<lparr>reasonCode := reasonCode m, propertyLen := word_of_nat ?p,
      sessionExpiryInterval := (if sessionExpiryInterval m > 0 then first_word (vis src) else 0),
      reasonStr := reasonStr m, userProperty := up_pad (userProperty m), serverReference := serverReference m\<rparr>"
    by (simp add: disconnect_decoded_def disconnect_built_def m0_def NewDisconnectMessage_def new_header_def header.defs)
  have tot: "length (vis src) = ?hn + ?b"
    by (simp add: vs)
  show ?thesis
  proof (cases "reasonCode m = Success \<and> disconnect_props m = []")
    case True
    then have b: "disconnect_body m = []"
      by (simp add: disconnect_body_def)
    have e: "userProperty m = []" "reasonStr m = []" "serverReference m = []" "sessionExpiryInterval m = 0"
      using True by (auto simp: disconnect_props_def opt_bytes_def word_gt_0 split: if_splits
          elim: up_bytes.elims)
    have "m0\<lparr>reasonCode := Success\<rparr> = disconnect_decoded (vis src) m"
      unfolding dec using True e
      by (simp add: m0_def NewDisconnectMessage_def header.defs)
    then show ?thesis
      using h b tot by (simp add: disconnect_Decode_def m0_def)
  next
    case False
    then have b: "disconnect_body m = reasonCode m # varint ?p @ disconnect_props m"
      by (auto simp: disconnect_body_def)
    then have b2: "?b \<ge> 2"
      by (simp add: Suc_le_eq)
    then have r: "remlen m0 \<noteq> 0" "\<not> remlen m0 < 2"
      using u by (auto simp: m0_def word_less_nat_alt)
    let ?m1 = "m0\<lparr>reasonCode := reasonCode m\<rparr>" and ?s = "\<lparr>d_hn = ?hn, d_tot = ?hn, d_msg = m0\<rparr>"
    let ?m2 = "?m1\<lparr>propertyLen := word_of_nat ?p\<rparr>"
    have l: "left src (d_tot ?s) ([reasonCode m] @ varint ?p @ disconnect_props m)"
      using l0 b by simp
    let ?s1 = "?s\<lparr>d_tot := d_tot ?s + length [reasonCode m], d_msg := ?m1\<rparr>"
    have l1: "left src (d_tot ?s1) (varint ?p @ disconnect_props m)"
      using left_advance [OF l] by simp
    let ?s2 = "?s1\<lparr>d_tot := d_tot ?s1 + length (varint ?p), d_msg := ?m2\<rparr>"
    have l2: "left src (d_tot ?s2) (disconnect_props m @ [])"
      using left_advance [OF l1] by simp
    have w: "get32 (vis src) = Some (first_word (vis src)) \<and> first_word (vis src) \<noteq> 0"
      if "sessionExpiryInterval m > 0"
    proof -
      have "length (vis src) \<ge> 4"
        using b tot that length_disconnect_props [of m] by simp
      moreover have "drop_bit 4 (hd (vis src)) \<noteq> 0"
        using o(5) by (auto simp: vs Type_def mtype_of_def)
      ultimately show ?thesis
        using first_word_pos by blast
    qed
    have 1: "steps [dec_byte src (\<lambda>v m. m\<lparr>reasonCode := v\<rparr>),
        dec_guard (\<lambda>m. \<not> ValidDisconnectReasonCode (reasonCode m)) ProtocolError] ?s = Go ?s1"
      by (rule readsD [OF reads_two [OF reads_byte reads_guard] _ l]) (use o(4) in simp_all)
    have 2: "dec_lb src (\<lambda>v m. m\<lparr>propertyLen := v\<rparr>) ret_total ?s1 = Go ?s2"
      by (rule readsD [OF reads_lb _ l1]) (use z in simp_all)
    have 3: "disconnect_dec_props src ?s2 = Go (?s2\<lparr>d_tot := d_tot ?s2 + length (disconnect_props m),
        d_msg := disconnect_decoded (vis src) m\<rparr>)"
      unfolding dec
      by (rule readsD [OF disconnect_dec_props_rt [OF o(1-3) w] _ l2])
        (simp_all add: m0_def NewDisconnectMessage_def header.defs)
    show ?thesis
      unfolding disconnect_Decode_def h andthen.simps dstate.select_convs
      using r 1 2 3 b tot by simp
  qed
qed

section \<open>The packet\<close>

definition sample_disconnect :: disconnect where
  "sample_disconnect = (NewDiscMessageWithCodeInfo 0x8E [0x74, 0x6F])\<lparr>sessionExpiryInterval := 5,
     userProperty := [[0x6B]]\<rparr>"

lemma sample_disconnect_ok: "disconnect_ok sample_disconnect" "dirty sample_disconnect"
  by code_simp+

text \<open>DISCONNECT: the two encoders produce the same bytes, and \<open>Decode\<close> reads them back into a
  message with the same reason code, reason string, server reference and user properties. A session
  expiry interval does not survive: the decoder reads it at the start of the packet, so it comes back
  as the first four bytes of the packet. The decoded message stays marked as changed.\<close>

theorem disconnect_roundtrip:
  assumes "disconnect_ok m" and "dirty m"
  shows "\<exists>s t. disconnect_EncodeToBuf \<lparr>b_buf = [], b_msg = m, b_gpid = g\<rparr> = Go s
    \<and> disconnect_Encode \<lparr>e_dst = b_buf s, e_tot = 0, e_msg = m, e_gpid = g\<rparr> =
        Go \<lparr>e_dst = b_buf s, e_tot = length (b_buf s), e_msg = b_msg s, e_gpid = g\<rparr>
    \<and> disconnect_Decode (GSlice (b_buf s) sp) NewDisconnectMessage = Go t
    \<and> d_tot t = length (b_buf s) \<and> reasonCode (d_msg t) = reasonCode m \<and> reasonStr (d_msg t) = reasonStr m
    \<and> serverReference (d_msg t) = serverReference m \<and> userProperty (d_msg t) = up_pad (userProperty m)
    \<and> sessionExpiryInterval (d_msg t) = (if sessionExpiryInterval m = 0 then 0 else first_word (b_buf s))
    \<and> dirty (d_msg t)"
proof -
  obtain s where s: "disconnect_EncodeToBuf \<lparr>b_buf = [], b_msg = m, b_gpid = g\<rparr> = Go s"
    "b_buf s = frame m (disconnect_body m)"
    using dc.encoders_agree [OF assms] by blast
  moreover have "disconnect_Encode \<lparr>e_dst = b_buf s, e_tot = 0, e_msg = m, e_gpid = g\<rparr> =
        Go \<lparr>e_dst = b_buf s, e_tot = length (b_buf s), e_msg = b_msg s, e_gpid = g\<rparr>"
    using dc.encoders_agree [OF assms, of g "b_buf s"] s(1) by auto
  ultimately show ?thesis
    using disconnect_Decode_bytes [OF assms(1), of "GSlice (b_buf s) sp"]
    by (auto simp: disconnect_decoded_def disconnect_built_def word_gt_0)
qed

theorem disconnect_roundtrip_witness:
  "\<exists>s t. disconnect_EncodeToBuf \<lparr>b_buf = [], b_msg = sample_disconnect, b_gpid = 0\<rparr> = Go s
    \<and> disconnect_Decode (GSlice (b_buf s) []) NewDisconnectMessage = Go t
    \<and> reasonCode (d_msg t) = 0x8E \<and> reasonStr (d_msg t) = [0x74, 0x6F]
    \<and> sessionExpiryInterval (d_msg t) = first_word (b_buf s)"
  using disconnect_roundtrip [OF sample_disconnect_ok, of 0 "[]"]
  by (auto simp: sample_disconnect_def NewDiscMessageWithCodeInfo_def SetReasonCode_def SetReasonStr_def)

end
