(* ===== verification/SubscribeRT.thy ===== *)
theory SubscribeRT
  imports Subscribe
begin

text \<open>
  The invariant of the parallel lists of a SUBSCRIBE message, its wire format as a function
  of the message, and the proofs that the encoders produce it and \<open>Decode\<close> reads it back.
\<close>

section \<open>The parallel lists\<close>

definition parallel :: "subscribe \<Rightarrow> bool" where
  "parallel m \<longleftrightarrow> length (qos m) = length (topics m) \<and> length (noLocal m) = length (topics m)
     \<and> length (retainAsPub m) = length (topics m) \<and> length (retainHandling m) = length (topics m)"

lemma find_topic_bound: "find_topic t ts = Some i \<Longrightarrow> i < length ts"
  by (induction ts arbitrary: i) (auto split: if_splits)

lemma find_topic_None: "find_topic t ts = None \<longleftrightarrow> t \<notin> set ts"
  by (induction ts) auto

lemma find_topic_nth: "find_topic t ts = Some i \<Longrightarrow> ts ! i = t"
  by (induction ts arbitrary: i) (auto split: if_splits)

lemma parallel_ops:
  assumes "parallel m"
  shows "\<exists>m'. AddTopicOpts t q nl rap rh m = Some m' \<and> parallel m'" "\<exists>m'. RemoveTopic t m = Some m' \<and> parallel m'"
    "\<exists>m'. SetTopicNoLocal t v m = Some m' \<and> parallel m'" "\<exists>m'. SetTopicRetainAsPublished t v m = Some m' \<and> parallel m'"
    "\<exists>m'. SetTopicRetainHandling t w m = Some m' \<and> parallel m'"
    "length (f m) = length (topics m) \<Longrightarrow> topic_opt t f d m \<noteq> None"
  using assms find_topic_bound [of t "topics m"]
  by (cases "find_topic t (topics m)"; force simp: parallel_def AddTopicOpts_def RemoveTopic_def SetTopicNoLocal_def
      SetTopicRetainAsPublished_def SetTopicRetainHandling_def topic_opt_def upd_opt_def del_opt_def nth_opt_def)+

text \<open>What the setters do to a message, in any order\<close>

inductive sub_step :: "subscribe \<Rightarrow> subscribe \<Rightarrow> bool" where
  add: "AddTopic t q m = Some (m', e) \<Longrightarrow> sub_step m m'"
| add_all: "AddTopicAll t q nl rap rh m = Some (m', e) \<Longrightarrow> sub_step m m'"
| remove: "RemoveTopic t m = Some m' \<Longrightarrow> sub_step m m'"
| no_local: "SetTopicNoLocal t v m = Some m' \<Longrightarrow> sub_step m m'"
| retain_as: "SetTopicRetainAsPublished t v m = Some m' \<Longrightarrow> sub_step m m'"
| retain_handling: "SetTopicRetainHandling t w m = Some m' \<Longrightarrow> sub_step m m'"
| set_identifier: "sub_step m (SetSubscriptionIdentifier n m)"
| set_user: "sub_step m (SetUserProperties us m)"

lemma sub_step_parallel: "sub_step m m' \<Longrightarrow> parallel m \<Longrightarrow> parallel m'"
proof (induction rule: sub_step.induct)
  case (add t q m m' e)
  then show ?case
    using parallel_ops(1) [of m t q 0 0 0] by (auto simp: AddTopic_def split: if_splits)
next
  case (add_all t q nl rap rh m m' e)
  then show ?case
    using parallel_ops(1) [of m t q "if nl then 1 else 0" "if rap then 1 else 0" rh]
    by (auto simp: AddTopicAll_def split: if_splits)
next
  case (remove t m m')
  then show ?case using parallel_ops(2) [of m t] by auto
next
  case (no_local t v m m')
  then show ?case using parallel_ops(3) [of m t v] by auto
next
  case (retain_as t v m m')
  then show ?case using parallel_ops(4) [of m t v] by auto
next
  case (retain_handling t w m m')
  then show ?case using parallel_ops(5) [of m t w] by auto
qed (simp_all add: parallel_def SetSubscriptionIdentifier_def SetUserProperties_def)

lemma sub_steps_parallel: "sub_step\<^sup>*\<^sup>* m m' \<Longrightarrow> parallel m \<Longrightarrow> parallel m'"
  by (induction rule: rtranclp_induct) (auto intro: sub_step_parallel)

section \<open>What the decoder guarantees\<close>

lemma sub_dec_option_parallel:
  "sub_dec_option b s = Go s' \<Longrightarrow> parallel ((d_msg s)\<lparr>topics := butlast (topics (d_msg s))\<rparr>) \<Longrightarrow>
   topics (d_msg s) \<noteq> [] \<Longrightarrow> parallel (d_msg s')"
  by (auto simp: sub_dec_option_def parallel_def Let_def ret_proto_def split: if_splits)

lemma sub_dec_topics_parallel:
  "sub_dec_topics src n s = Go s' \<Longrightarrow> parallel (d_msg s) \<Longrightarrow> parallel (d_msg s')"
proof (induction src n s rule: sub_dec_topics.induct)
  case (1 src n s)
  show ?case
  proof (cases "n \<le> 0")
    case True
    then show ?thesis using 1 by (simp add: sub_dec_topics.simps [of src n s])
  next
    case False
    obtain sl t k b where r: "reslice src (d_tot s) = Some sl" "readLPBytes sl = Some (t, k, None)"
      and b: "at src (d_tot s + k) = Some b"
      and g: "andthen (sub_dec_option b (s\<lparr>d_tot := d_tot s + k, d_msg := (d_msg s)\<lparr>topics := topics (d_msg s) @ [t]\<rparr>\<rparr>))
        (sub_dec_topics src (n - int k - 1)) Fail = Go s'"
      using 1(2) False by (auto simp: sub_dec_topics.simps [of src n s] Let_def ret_total_def split: option.splits prod.splits)
    then obtain s2 where s2: "sub_dec_option b (s\<lparr>d_tot := d_tot s + k, d_msg := (d_msg s)\<lparr>topics := topics (d_msg s) @ [t]\<rparr>\<rparr>) = Go s2"
      "sub_dec_topics src (n - int k - 1) s2 = Go s'"
      by (auto simp: andthen_Go_iff)
    have "parallel (d_msg s2)"
      using sub_dec_option_parallel [OF s2(1)] 1(3) by (simp add: parallel_def)
    then show ?thesis
      using 1(1) [OF False] r b s2(2) by auto
  qed
qed

text \<open>A statement that keeps a property of the message when it succeeds\<close>

definition keeps :: "('m \<Rightarrow> bool) \<Rightarrow> ('m dstate \<Rightarrow> 'm dstate out) \<Rightarrow> bool" where
  "keeps P f \<longleftrightarrow> (\<forall>s s'. f s = Go s' \<longrightarrow> P (d_msg s) \<longrightarrow> P (d_msg s'))"

lemma keeps_steps: "list_all (keeps P) fs \<Longrightarrow> keeps P (steps fs)"
  by (induction fs) (auto simp: keeps_def andthen_Go_iff)

lemma keeps_list: "list_all P []" "P x \<Longrightarrow> list_all P xs \<Longrightarrow> list_all P (x # xs)"
  by simp_all

lemma keeps_forms:
  "(\<And>v m. P m \<Longrightarrow> P (upd v m)) \<Longrightarrow> keeps P (dec_lb src upd ret_total)"
  "(\<And>v m. P m \<Longrightarrow> P (uup v m)) \<Longrightarrow> keeps P (dec_userProperty src uup)"
  "keeps P (dec_plen src f)" "keeps P (dec_next_not src c bad)"
  "keeps P (steps body) \<Longrightarrow> keeps P (dec_when src c body)"
  by (auto simp: keeps_def dec_lb_def dec_userProperty_def dec_plen_def dec_next_not_def dec_when_def ret_total_def Let_def
      split: option.splits prod.splits if_splits)

lemma keeps_packetId: "(\<And>v m. P m \<Longrightarrow> P (m\<lparr>packetId := v\<rparr>)) \<Longrightarrow> keeps P (dec_packetId src)"
  by (auto simp: keeps_def dec_packetId_def split: option.splits)

lemma header_decode_rest:
  "header_decode src m = Go (n, m') \<Longrightarrow> header.more m' = header.more m"
  by (auto simp: header_decode_def Let_def split: option.splits if_splits list.splits prod.splits)

lemma keeps_header: "(\<And>m m'. P m \<Longrightarrow> header.more m' = header.more m \<Longrightarrow> P m') \<Longrightarrow> keeps P (dec_header src)"
  by (auto simp: keeps_def dec_header_def dest: header_decode_rest split: out.splits prod.splits)

lemma subscribe_Decode_parallel:
  assumes "subscribe_Decode src m0 = Go t" and "parallel m0"
  shows "parallel (d_msg t)" "topics (d_msg t) \<noteq> []" "\<not> dirty (d_msg t)"
proof -
  have fr: "keeps parallel (steps (subscribe_dec_front src))"
    unfolding subscribe_dec_front_def
    by (intro keeps_steps keeps_list conjI TrueI keeps_packetId keeps_forms)
      (simp_all add: parallel_def)
  have more: "parallel m' = parallel m" if "header.more m' = header.more m" for m m' :: subscribe
    using that by (cases m; cases m'; simp add: parallel_def)
  obtain s1 s2 s3 where s: "dec_header src (dstart m0) = Go s1" "steps (subscribe_dec_front src) s1 = Go s2"
    "sub_dec_topics src (uint (remlen (d_msg s2)) - (int (d_tot s2) - int (d_hn s2))) s2 = Go s3"
    and t: "topics (d_msg s3) \<noteq> []" "t = s3\<lparr>d_msg := (d_msg s3)\<lparr>dirty := False\<rparr>\<rparr>"
    using assms(1) by (auto simp: subscribe_Decode_def andthen_Go_iff dec_set_def ret_proto_def split: if_splits)
  have "keeps parallel (dec_header src)"
    using more by (intro keeps_header) blast
  then have "parallel (d_msg s1)"
    using s(1) assms(2) unfolding keeps_def dstart_def by force
  then have "parallel (d_msg s3)"
    using fr s(2) sub_dec_topics_parallel [OF s(3)] unfolding keeps_def by blast
  then show "parallel (d_msg t)" "topics (d_msg t) \<noteq> []" "\<not> dirty (d_msg t)"
    using t by (simp_all add: parallel_def)
qed

section \<open>The wire format\<close>

definition opt_byte :: "subscribe \<Rightarrow> nat \<Rightarrow> byte" where
  "opt_byte m i = qos m ! i OR push_bit 2 (noLocal m ! i) OR push_bit 3 (retainAsPub m ! i) OR push_bit 4 (retainHandling m ! i)"

definition opt_list :: "subscribe \<Rightarrow> bytes" where
  "opt_list m = map (opt_byte m) [0..<length (topics m)]"

fun filter_bytes :: "bytes list \<Rightarrow> bytes \<Rightarrow> bytes" where
  "filter_bytes (t # ts) (b # bs) = lp t @ b # filter_bytes ts bs"
| "filter_bytes _ _ = []"

definition subscribe_props :: "subscribe \<Rightarrow> bytes" where
  "subscribe_props m =
     opt_bytes (subid_written m) DefiningIdentifiers (varint (unat (subscriptionIdentifier m)))
     @ up_bytes (userProperty m)"

definition subscribe_body :: "subscribe \<Rightarrow> bytes" where
  "subscribe_body m = packetId m @ varint (length (subscribe_props m)) @ subscribe_props m
     @ filter_bytes (topics m) (opt_list m)"

definition subscribe_ok :: "subscribe \<Rightarrow> bool" where
  "subscribe_ok m \<longleftrightarrow>
     Type m = SUBSCRIBE \<and> flags_ok (mtf m) \<and> length (packetId m) = 2 \<and> PacketId m \<noteq> 0
     \<and> parallel m \<and> topics m \<noteq> [] \<and> list_all (\<lambda>t. length t \<le> 65535) (topics m)
     \<and> list_all (\<lambda>v. v \<le> 2) (qos m) \<and> list_all (\<lambda>v. v \<le> 1) (noLocal m) \<and> list_all (\<lambda>v. v \<le> 1) (retainAsPub m)
     \<and> list_all (\<lambda>v. v \<le> 2) (retainHandling m)
     \<and> subscriptionIdentifier m \<le> 268435455 \<and> strs_ok (userProperty m) \<and> length (subscribe_body m) < 2 ^ 28"

text \<open>The decoder looks for another property where the first filter starts.\<close>

definition subscribe_plain :: "subscribe \<Rightarrow> bool" where
  "subscribe_plain m \<longleftrightarrow> hd (lp (hd (topics m))) \<notin> {DefiningIdentifiers, UserProperty}"

lemma subscribe_plain_short: "length (hd (topics m)) < 256 \<Longrightarrow> subscribe_plain m"
  by (simp add: subscribe_plain_def hd_lp_short)

definition subscribe_built :: "subscribe \<Rightarrow> subscribe" where
  "subscribe_built m = m\<lparr>propertiesLen := word_of_nat (length (subscribe_props m)),
     remlen := word_of_nat (length (subscribe_body m)), dirty := True\<rparr>"

lemma length_filter_bytes:
  "length bs = length ts \<Longrightarrow> length (filter_bytes ts bs) = sum_list (map (\<lambda>t. 2 + length t + 1) ts)"
  by (induction ts bs rule: filter_bytes.induct) simp_all

lemma length_opt_list [simp]: "length (opt_list m) = length (topics m)"
  by (simp add: opt_list_def)

lemma subscribe_sizes:
  assumes "subscribe_ok m"
  shows "length (subscribe_props m) < 2 ^ 28" "length (subscribe_body m) < 2 ^ 28"
    "subid_written m \<Longrightarrow> unat (subscriptionIdentifier m) < 2 ^ 28"
proof -
  show b: "length (subscribe_body m) < 2 ^ 28"
    using assms by (simp add: subscribe_ok_def)
  then show "length (subscribe_props m) < 2 ^ 28"
    by (simp add: subscribe_body_def)
  show "unat (subscriptionIdentifier m) < 2 ^ 28"
    using assms by (simp add: subscribe_ok_def unat_le_max)
qed

lemma subscribe_build_ok:
  assumes ok: "subscribe_ok m"
  shows "subscribe_build m = Some (subscribe_built m)"
proof -
  let ?p = "length (subscribe_props m)" and ?b = "length (subscribe_body m)"
  let ?n = "if subid_written m then 1 + length (varint (unat (subscriptionIdentifier m))) else 0"
  note z = subscribe_sizes [OF ok]
  note p = plen_ok [OF z(1)] and b = plen_ok [OF z(2)]
  have 1: "(if subid_written m then map_option (\<lambda>b. 1 + length b) (lbEncode (subscriptionIdentifier m)) else Some 0) = Some ?n"
    using z(3) by (simp add: lbEncode_varint)
  have 2: "2 + ?n + buildUserPropertyLen (userProperty m) - 2 = ?p"
    by (simp add: subscribe_props_def)
  have "length (packetId m) = 2"
    using ok by (simp add: subscribe_ok_def)
  then have 3: "2 + ?n + buildUserPropertyLen (userProperty m) + length (varint ?p)
      + sum_list (map (\<lambda>t. 2 + length t + 1) (topics m)) = ?b"
    using 2 by (simp add: subscribe_body_def length_filter_bytes)
  show ?thesis
    unfolding subscribe_build_def 1 option.case Let_def 2
    using 3 p(1) b(3) by (simp add: subscribe_built_def del: of_nat_add of_nat_Suc)
qed

lemma subscribe_built_fields [simp]:
  "mtf (subscribe_built m) = mtf m" "packetId (subscribe_built m) = packetId m" "PacketId (subscribe_built m) = PacketId m"
  "userProperty (subscribe_built m) = userProperty m" "topics (subscribe_built m) = topics m"
  "subscriptionIdentifier (subscribe_built m) = subscriptionIdentifier m"
  "subid_written (subscribe_built m) = subid_written m" "sub_option (subscribe_built m) = sub_option m"
  by (simp_all add: subscribe_built_def PacketId_def subid_written_def sub_option_def fun_eq_iff)

section \<open>Encoding\<close>

lemma sub_option_parallel: "parallel m \<Longrightarrow> i < length (topics m) \<Longrightarrow> sub_option m i = Some (opt_byte m i)"
  by (simp add: sub_option_def opt_byte_def nth_opt_def parallel_def)

lemma buf_topics_ok:
  "list_all (\<lambda>t. length t \<le> 65535) ts \<Longrightarrow> length bs = length ts \<Longrightarrow>
   (\<And>k. k < length ts \<Longrightarrow> sub_option (b_msg s) (i + k) = Some (bs ! k)) \<Longrightarrow>
   buf_topics i ts s = Go (s\<lparr>b_buf := b_buf s @ filter_bytes ts bs\<rparr>)"
proof (induction ts arbitrary: i bs s)
  case (Cons t ts)
  obtain b bs' where bs: "bs = b # bs'"
    using Cons.prems(2) by (cases bs) simp_all
  have "sub_option (b_msg s) i = Some b"
    using Cons.prems(3) [of 0] bs by simp
  moreover have "sub_option (b_msg s) (Suc i + k) = Some (bs' ! k)" if "k < length ts" for k
    using Cons.prems(3) [of "Suc k"] bs that by simp
  ultimately show ?case
    using Cons.prems(1,2) Cons.IH [of bs' "s\<lparr>b_buf := (b_buf s @ lp t) @ [b]\<rparr>" "Suc i"] bs
    by (simp add: buf_lp_ok buf_write_def)
qed simp

lemma enc_topics_ok:
  "list_all (\<lambda>t. length t \<le> 65535) ts \<Longrightarrow> length bs = length ts \<Longrightarrow>
   (\<And>k. k < length ts \<Longrightarrow> sub_option (e_msg e) (i + k) = Some (bs ! k)) \<Longrightarrow>
   e_tot e + length (filter_bytes ts bs) \<le> length (e_dst e) \<Longrightarrow>
   enc_topics i ts e = Go (e\<lparr>e_dst := blit (e_dst e) (e_tot e) (filter_bytes ts bs),
      e_tot := e_tot e + length (filter_bytes ts bs)\<rparr>)"
proof (induction ts arbitrary: i bs e)
  case (Cons t ts)
  obtain b bs' where bs: "bs = b # bs'"
    using Cons.prems(2) by (cases bs) simp_all
  have b: "sub_option (e_msg e) i = Some b"
    using Cons.prems(3) [of 0] bs by simp
  have k: "sub_option (e_msg e) (Suc i + k) = Some (bs' ! k)" if "k < length ts" for k
    using Cons.prems(3) [of "Suc k"] bs that by simp
  have room: "e_tot e + length (lp t) + 1 + length (filter_bytes ts bs') \<le> length (e_dst e)"
    using Cons.prems(4) bs by simp
  let ?e1 = "e\<lparr>e_dst := blit (e_dst e) (e_tot e) (lp t), e_tot := e_tot e + length (lp t)\<rparr>"
  let ?e2 = "e\<lparr>e_dst := blit (e_dst e) (e_tot e) (lp t @ [b]), e_tot := e_tot e + length (lp t) + 1\<rparr>"
  have 1: "enc_lp (\<lambda>_. t) e = Go ?e1"
    using writes_lp [of "\<lambda>_. t" "e_msg e" "length (e_dst e)"] Cons.prems(1) room by (simp add: writes_def)
  have 2: "enc_byte (\<lambda>_. b) ?e1 = Go ?e2"
    using writes_byte [of "length (e_dst e)" "e_msg e" "\<lambda>_. b"] room blit_blit [of "e_tot e" "lp t" "[b]" "e_dst e"]
    by (simp add: writes_def)
  have 3: "enc_topics (Suc i) ts ?e2 = Go (?e2\<lparr>e_dst := blit (e_dst ?e2) (e_tot ?e2) (filter_bytes ts bs'),
      e_tot := e_tot ?e2 + length (filter_bytes ts bs')\<rparr>)"
    by (rule Cons.IH) (use Cons.prems k bs room in simp_all)
  show ?case
    using 1 2 3 b bs blit_blit [of "e_tot e" "lp t @ [b]" "filter_bytes ts bs'" "e_dst e"] room by simp
qed simp

definition subscribe_chunks :: "subscribe \<Rightarrow> bytes list" where
  "subscribe_chunks m =
     [packetId m, varint (length (subscribe_props m)),
      opt_bytes (subid_written m) DefiningIdentifiers (varint (unat (subscriptionIdentifier m))),
      up_bytes (userProperty m), filter_bytes (topics m) (opt_list m)]"

interpretation sb: packet_encoders subscribe_ok subscribe_build subscribe_built subscribe_body
  "tl subscribe_buf_steps" "tl subscribe_enc_steps" subscribe_chunks
  subscribe_EncodeToBuf subscribe_Encode "Errorf ''subscribe/Encode: Insufficient buffer size.''"
proof unfold_locales
  fix m :: subscribe and N :: nat assume ok: "subscribe_ok m"
  let ?m = "subscribe_built m"
  have o: "strs_ok (userProperty m)" "PacketId m \<noteq> 0" "list_all (\<lambda>t. length t \<le> 65535) (topics m)"
      "parallel m"
    using ok by (simp_all add: subscribe_ok_def)
  note z = subscribe_sizes [OF ok]
  have pl: "unat (propertiesLen ?m) = length (subscribe_props m)"
    using plen_ok(2) [OF z(1)] by (simp add: subscribe_built_def)
  have opt: "sub_option m k = Some (opt_list m ! k)" if "k < length (topics m)" for k
    using that o(4) by (simp add: opt_list_def sub_option_parallel)
  show "subscribe_build m = Some (subscribe_built m)"
    by (rule subscribe_build_ok [OF ok])
  show "length (subscribe_body m) < 2 ^ 28" "mtype_Valid (Type m)"
    using z(2) ok by (simp_all add: subscribe_ok_def)
  show "remlen ?m = word_of_nat (length (subscribe_body m)) \<and> dirty ?m"
    by (simp add: subscribe_built_def)
  show "concat (subscribe_chunks m) = subscribe_body m"
    by (simp add: subscribe_chunks_def subscribe_body_def subscribe_props_def)
  have c: "subscribe_chunks m = [packetId ?m, varint (unat (propertiesLen ?m)),
      opt_bytes (subid_written ?m) DefiningIdentifiers (varint (unat (subscriptionIdentifier ?m))),
      up_bytes (userProperty ?m), filter_bytes (topics m) (opt_list m)]"
    by (simp add: subscribe_chunks_def pl)
  have bt: "appends ?m (\<lambda>s. buf_topics 0 (topics (b_msg s)) s) (filter_bytes (topics m) (opt_list m))"
    unfolding appends_def by (intro allI impI, subst buf_topics_ok [where bs = "opt_list m"]) (use o opt in simp_all)
  have et: "writes N ?m (\<lambda>s. enc_topics 0 (topics (e_msg s)) s) (filter_bytes (topics m) (opt_list m))"
    unfolding writes_def by (intro allI impI, subst enc_topics_ok [where bs = "opt_list m"]) (use o opt in simp_all)
  show "list_all2 (appends ?m) (tl subscribe_buf_steps) (subscribe_chunks m)"
    unfolding c subscribe_buf_steps_def list.sel list_all2_Cons list_all2_Nil
    by (intro conjI TrueI bt appends_intros) (use o pl z in simp_all)
  show "list_all2 (writes N ?m) (tl subscribe_enc_steps) (subscribe_chunks m)"
    unfolding c subscribe_enc_steps_def list.sel list_all2_Cons list_all2_Nil
    by (intro conjI TrueI et writes_intros) (use o pl z in simp_all)
qed (simp_all add: subscribe_EncodeToBuf_def subscribe_Encode_def subscribe_buf_steps_def subscribe_enc_steps_def)

section \<open>Decoding\<close>

definition good_option :: "byte \<Rightarrow> bool" where
  "good_option b \<longleftrightarrow> b AND 3 \<noteq> 3 \<and> drop_bit 4 (b AND 48) \<noteq> 3 \<and> drop_bit 6 b = 0"

lemma byte_cases: "(v :: byte) \<le> 1 \<Longrightarrow> v = 0 \<or> v = 1" "(v :: byte) \<le> 2 \<Longrightarrow> v = 0 \<or> v = 1 \<or> v = 2"
  by (auto simp: word_le_nat_alt word_unat_eq_iff)

lemma option_byte:
  assumes "q \<le> (2 :: byte)" and "nl \<le> (1 :: byte)" and "rap \<le> (1 :: byte)" and "rh \<le> (2 :: byte)"
    and b: "b = q OR push_bit 2 nl OR push_bit 3 rap OR push_bit 4 rh"
  shows "good_option b" "b AND 3 = q" "drop_bit 2 (b AND 4) = nl" "drop_bit 3 (b AND 8) = rap"
    "drop_bit 4 (b AND 48) = rh"
  using byte_cases(2) [OF assms(1)] byte_cases(1) [OF assms(2)] byte_cases(1) [OF assms(3)] byte_cases(2) [OF assms(4)]
  unfolding b good_option_def by (elim disjE; simp)+

lemma sub_dec_topics_rt:
  "length bs = length ts \<Longrightarrow> list_all (\<lambda>t. length t \<le> 65535) ts \<Longrightarrow> list_all good_option bs \<Longrightarrow>
   left src (d_tot s) (filter_bytes ts bs @ r) \<Longrightarrow> n = int (length (filter_bytes ts bs)) \<Longrightarrow>
   sub_dec_topics src n s = Go (s\<lparr>d_tot := d_tot s + length (filter_bytes ts bs),
     d_msg := (d_msg s)\<lparr>topics := topics (d_msg s) @ ts, qos := qos (d_msg s) @ map (\<lambda>b. b AND 3) bs,
       noLocal := noLocal (d_msg s) @ map (\<lambda>b. drop_bit 2 (b AND 4)) bs,
       retainAsPub := retainAsPub (d_msg s) @ map (\<lambda>b. drop_bit 3 (b AND 8)) bs,
       retainHandling := retainHandling (d_msg s) @ map (\<lambda>b. drop_bit 4 (b AND 48)) bs\<rparr>\<rparr>)"
proof (induction ts arbitrary: bs s n)
  case Nil
  then show ?case by (simp add: sub_dec_topics.simps)
next
  case (Cons t ts)
  obtain b bs' where bs: "bs = b # bs'"
    using Cons.prems(1) by (cases bs) simp_all
  have l: "left src (d_tot s) (lp t @ (b # filter_bytes ts bs' @ r))"
    using Cons.prems(4) bs by simp
  let ?k = "2 + length t"
  have l1: "left src (d_tot s + ?k) (b # filter_bytes ts bs' @ r)"
    using left_advance [OF l] by simp
  let ?m2 = "(d_msg s)\<lparr>topics := topics (d_msg s) @ [t], qos := qos (d_msg s) @ [b AND 3],
      noLocal := noLocal (d_msg s) @ [drop_bit 2 (b AND 4)], retainAsPub := retainAsPub (d_msg s) @ [drop_bit 3 (b AND 8)],
      retainHandling := retainHandling (d_msg s) @ [drop_bit 4 (b AND 48)]\<rparr>"
  let ?s2 = "s\<lparr>d_tot := Suc (d_tot s + ?k), d_msg := ?m2\<rparr>"
  have n: "\<not> n \<le> 0" "n - int ?k - 1 = int (length (filter_bytes ts bs'))"
    using Cons.prems(5) bs by simp_all
  have rd: "readLPBytes (GSlice (lp t @ b # filter_bytes ts bs' @ r) (spare src)) = Some (t, ?k, None)"
    using Cons.prems(2) by (simp add: readLPBytes_lp)
  have op: "sub_dec_option b (s\<lparr>d_tot := d_tot s + ?k, d_msg := (d_msg s)\<lparr>topics := topics (d_msg s) @ [t]\<rparr>\<rparr>) = Go ?s2"
    using Cons.prems(3) bs by (simp add: sub_dec_option_def good_option_def)
  have "sub_dec_topics src n s = sub_dec_topics src (n - int ?k - 1) ?s2"
    using n(1) left_reslice [OF l] rd left_at [OF l1] op by (simp add: sub_dec_topics.simps [of src n s])
  moreover have "left src (d_tot ?s2) (filter_bytes ts bs' @ r)"
    using left_Suc [OF l1] by simp
  then have "sub_dec_topics src (n - int ?k - 1) ?s2 = Go (?s2\<lparr>d_tot := d_tot ?s2 + length (filter_bytes ts bs'),
     d_msg := (d_msg ?s2)\<lparr>topics := topics (d_msg ?s2) @ ts, qos := qos (d_msg ?s2) @ map (\<lambda>b. b AND 3) bs',
       noLocal := noLocal (d_msg ?s2) @ map (\<lambda>b. drop_bit 2 (b AND 4)) bs',
       retainAsPub := retainAsPub (d_msg ?s2) @ map (\<lambda>b. drop_bit 3 (b AND 8)) bs',
       retainHandling := retainHandling (d_msg ?s2) @ map (\<lambda>b. drop_bit 4 (b AND 48)) bs'\<rparr>\<rparr>)"
    by (intro Cons.IH) (use Cons.prems n(2) bs in simp_all)
  ultimately show ?case
    by (simp only: bs) (simp del: sub_dec_topics.simps)
qed

lemma opt_list_lists:
  assumes "subscribe_ok m"
  shows "list_all good_option (opt_list m)" "map (\<lambda>b. b AND 3) (opt_list m) = qos m"
    "map (\<lambda>b. drop_bit 2 (b AND 4)) (opt_list m) = noLocal m"
    "map (\<lambda>b. drop_bit 3 (b AND 8)) (opt_list m) = retainAsPub m"
    "map (\<lambda>b. drop_bit 4 (b AND 48)) (opt_list m) = retainHandling m"
proof -
  have p: "parallel m" and v: "list_all (\<lambda>v. v \<le> 2) (qos m)" "list_all (\<lambda>v. v \<le> 1) (noLocal m)"
      "list_all (\<lambda>v. v \<le> 1) (retainAsPub m)" "list_all (\<lambda>v. v \<le> 2) (retainHandling m)"
    using assms by (simp_all add: subscribe_ok_def)
  have b: "good_option (opt_byte m i) \<and> opt_byte m i AND 3 = qos m ! i \<and> drop_bit 2 (opt_byte m i AND 4) = noLocal m ! i
      \<and> drop_bit 3 (opt_byte m i AND 8) = retainAsPub m ! i \<and> drop_bit 4 (opt_byte m i AND 48) = retainHandling m ! i"
    if "i < length (topics m)" for i
    using that p v option_byte [of "qos m ! i" "noLocal m ! i" "retainAsPub m ! i" "retainHandling m ! i" "opt_byte m i"]
    by (simp add: parallel_def list_all_length opt_byte_def)
  then show "list_all good_option (opt_list m)"
    by (simp add: opt_list_def list_all_length)
  show "map (\<lambda>b. b AND 3) (opt_list m) = qos m" "map (\<lambda>b. drop_bit 2 (b AND 4)) (opt_list m) = noLocal m"
    "map (\<lambda>b. drop_bit 3 (b AND 8)) (opt_list m) = retainAsPub m"
    "map (\<lambda>b. drop_bit 4 (b AND 48)) (opt_list m) = retainHandling m"
    using p b by (intro nth_equalityI; simp add: opt_list_def parallel_def)+
qed

lemma reads_plen: "unat (f m) \<le> length r \<Longrightarrow> reads src m (dec_plen src f) [] m r"
  by (auto simp: reads_def dec_plen_def left_reslice)

lemma reads_next_not: "\<not> bad m \<Longrightarrow> r \<noteq> [] \<Longrightarrow> starts_not r c \<Longrightarrow> reads src m (dec_next_not src c bad) [] m r"
  by (cases r) (auto simp: reads_def dec_next_not_def left_at)

lemma subscribe_dec_front_rt:
  assumes ok: "subscribe_ok m" and r: "r \<noteq> []" "hd r \<notin> {DefiningIdentifiers, UserProperty}"
    and m0: "subscriptionIdentifier m0 = 0"
  shows "reads src m0 (steps (subscribe_dec_front src)) (packetId m @ varint (length (subscribe_props m)) @ subscribe_props m)
    (m0\<lparr>packetId := packetId m, propertiesLen := word_of_nat (length (subscribe_props m)),
      subscriptionIdentifier := subscriptionIdentifier m, userProperty := up_pad (userProperty m)\<rparr>) r"
proof -
  have o: "length (packetId m) = 2" "strs_ok (userProperty m)" "subscriptionIdentifier m \<le> 268435455"
    using ok by (simp_all add: subscribe_ok_def)
  note z = subscribe_sizes [OF ok]
  have sn: "starts_not r DefiningIdentifiers" "starts_not r UserProperty"
    using r by (cases r; simp)+
  have b: "packetId m @ varint (length (subscribe_props m)) @ subscribe_props m = concat [packetId m,
      varint (length (subscribe_props m)), [],
      opt_bytes (subid_written m) DefiningIdentifiers (varint (unat (subscriptionIdentifier m))), up_bytes (userProperty m)]"
    by (simp add: subscribe_props_def)
  have keep: "subscriptionIdentifier m = 0" if "\<not> subid_written m"
    using that o(3) by (auto simp: subid_written_def word_gt_0)
  have lb: "reads src x (dec_lb src (\<lambda>v m. m\<lparr>subscriptionIdentifier := v\<rparr>) ret_total)
      (varint (unat (subscriptionIdentifier m))) (x\<lparr>subscriptionIdentifier := subscriptionIdentifier m\<rparr>) r'"
    if "subid_written m" for x r'
    using reads_lb [OF z(3) [OF that], of src x "\<lambda>v m. m\<lparr>subscriptionIdentifier := v\<rparr>"] by simp
  show ?thesis
    unfolding b subscribe_dec_front_def
    apply (rule reads_Cons, rule reads_packetId, rule o(1))
    apply (rule reads_Cons, rule reads_lb, rule z(1))
    apply (rule reads_Cons, rule reads_plen)
     apply (use plen_ok(2) [OF z(1)] in \<open>simp add: subscribe_props_def\<close>)
    apply (rule reads_Cons, rule reads_when, rule reads_two, erule lb, rule reads_next_not)
         apply (simp add: subid_written_def word_gt_0)
        apply (use r in simp)
       apply (use sn in simp)
      apply (use sn in simp)
     apply (use m0 keep in simp)
    apply (rule reads_Cons, rule reads_userProperty)
      apply (use o sn in simp_all)[2]
    by (rule reads_Nil) simp
qed

definition subscribe_decoded :: "bytes \<Rightarrow> subscribe \<Rightarrow> subscribe" where
  "subscribe_decoded raw m = subscribe_built m\<lparr>dbuf := raw, userProperty := up_pad (userProperty m), dirty := False\<rparr>"

lemma NewSubscribe_type: "Type NewSubscribeMessage = SUBSCRIBE"
  by (simp add: NewSubscribeMessage_def new_header_def header.defs Type_def first_byte_def DefaultFlags_def mtype_of_def)

lemma subscribe_Decode_bytes:
  assumes ok: "subscribe_ok m" and plain: "subscribe_plain m" and v: "vis src = frame m (subscribe_body m)"
  shows "subscribe_Decode src NewSubscribeMessage
    = Go \<lparr>d_hn = Suc (length (varint (length (subscribe_body m)))), d_tot = length (vis src),
        d_msg = subscribe_decoded (vis src) m\<rparr>"
proof -
  let ?b = "length (subscribe_body m)" and ?p = "length (subscribe_props m)"
  let ?hn = "Suc (length (varint ?b))"
  define m0 where "m0 = NewSubscribeMessage\<lparr>dbuf := vis src, mtf := mtf m, remlen := word_of_nat ?b\<rparr>"
  define fb where "fb = filter_bytes (topics m) (opt_list m)"
  define x where "x = packetId m @ varint ?p @ subscribe_props m"
  define m1 where "m1 = m0\<lparr>packetId := packetId m, propertiesLen := word_of_nat ?p,
      subscriptionIdentifier := subscriptionIdentifier m, userProperty := up_pad (userProperty m)\<rparr>"
  let ?s0 = "\<lparr>d_hn = ?hn, d_tot = ?hn, d_msg = m0\<rparr>" and ?s1 = "\<lparr>d_hn = ?hn, d_tot = ?hn + length x, d_msg = m1\<rparr>"
  have o: "Type m = SUBSCRIBE" "flags_ok (mtf m)" "topics m \<noteq> []" "list_all (\<lambda>t. length t \<le> 65535) (topics m)"
    using ok by (simp_all add: subscribe_ok_def)
  note z = subscribe_sizes [OF ok]
  have bd: "subscribe_body m = x @ fb"
    by (simp add: subscribe_body_def x_def fb_def)
  have fb: "fb \<noteq> []" "hd fb \<notin> {DefiningIdentifiers, UserProperty}"
  proof -
    obtain t ts where ts: "topics m = t # ts"
      using o(3) by (cases "topics m") simp_all
    then obtain c cs where "opt_list m = c # cs"
      using length_opt_list [of m] by (cases "opt_list m") simp_all
    then have "fb = lp t @ c # filter_bytes ts cs"
      by (simp add: fb_def ts)
    then show "fb \<noteq> []" "hd fb \<notin> {DefiningIdentifiers, UserProperty}"
      using plain ts by (simp_all add: subscribe_plain_def hd_append)
  qed
  have vs: "vis src = mtf m # varint ?b @ subscribe_body m"
    by (simp add: v frame_def)
  have pos: "?b \<noteq> 0"
    using bd fb(1) by simp
  have h: "dec_header src (dstart NewSubscribeMessage) = Go ?s0" and l0: "left src (d_tot ?s0) (x @ fb)"
    using dec_header_rt [OF vs z(2) refl o(2), of NewSubscribeMessage] o(1) NewSubscribe_type pos bd
    by (simp_all add: m0_def Type_def)
  have "subscriptionIdentifier m0 = 0"
    by (simp add: m0_def NewSubscribeMessage_def header.defs)
  from readsD [OF subscribe_dec_front_rt [OF ok fb this, folded x_def] _ l0]
  have f: "steps (subscribe_dec_front src) ?s0 = Go ?s1"
    by (simp add: m1_def)
  have l1: "left src (d_tot ?s1) (filter_bytes (topics m) (opt_list m) @ [])"
    using left_advance [OF l0] by (simp add: fb_def)
  have u: "uint (remlen m1) = int ?b"
    using plen_ok(2) [OF z(2)] by (simp add: m1_def m0_def uint_nat)
  have n: "uint (remlen (d_msg ?s1)) - (int (d_tot ?s1) - int (d_hn ?s1)) = int (length (filter_bytes (topics m) (opt_list m)))"
    by (simp add: u bd fb_def)
  have e: "topics m1 = []" "qos m1 = []" "noLocal m1 = []" "retainAsPub m1 = []" "retainHandling m1 = []"
    by (simp_all add: m1_def m0_def NewSubscribeMessage_def header.defs)
  note lists = opt_list_lists [OF ok]
  have t: "sub_dec_topics src (uint (remlen (d_msg ?s1)) - (int (d_tot ?s1) - int (d_hn ?s1))) ?s1
      = Go (?s1\<lparr>d_tot := ?hn + ?b, d_msg := m1\<lparr>topics := topics m, qos := qos m, noLocal := noLocal m,
          retainAsPub := retainAsPub m, retainHandling := retainHandling m\<rparr>\<rparr>)"
    using sub_dec_topics_rt [OF length_opt_list o(4) lists(1) l1 n] lists(2-5) e
    by (simp add: bd fb_def)
  have dec: "m1\<lparr>topics := topics m, qos := qos m, noLocal := noLocal m, retainAsPub := retainAsPub m,
      retainHandling := retainHandling m, dirty := False\<rparr> = subscribe_decoded (vis src) m"
    by (simp add: subscribe_decoded_def subscribe_built_def m1_def m0_def NewSubscribeMessage_def new_header_def header.defs)
  show ?thesis
    unfolding subscribe_Decode_def steps.simps h andthen.simps f t
    using o(3) dec by (simp add: dec_set_def vs)
qed

section \<open>The packet\<close>

definition sample_subscribe :: subscribe where
  "sample_subscribe = NewSubscribeMessage\<lparr>packetId := [0, 7], subscriptionIdentifier := 300,
     topics := [[0x61, 0x2F, 0x23], [0x62]], qos := [1, 2], noLocal := [1, 0], retainAsPub := [0, 1],
     retainHandling := [2, 0]\<rparr>"

lemma sample_subscribe_ok: "subscribe_ok sample_subscribe" "dirty sample_subscribe" "subscribe_plain sample_subscribe"
  by code_simp+

text \<open>C11: round trip of SUBSCRIBE. The message has at least one filter, a value of each option for every filter
  (QoS and retain handling at most 2, the others 0 or 1), a packet identifier that is not 0, a subscription identifier
  of at most 268435455, strings of at most 65535 bytes and a body below 2^28; it has been changed since it was last
  encoded or decoded; and its first filter is not 2816 to 3071 or 9728 to 9983 bytes long, because the decoder would
  take the high byte of that length for a property. Then the two encoders produce the same bytes, and
  \<open>Decode\<close> reads them back, whatever capacity lies behind them, into a message with the same packet
  identifier, subscription identifier, filters, options and user properties, of which a list of odd length gains an
  empty value.\<close>

theorem subscribe_roundtrip:
  assumes "subscribe_ok m" and "dirty m" and "subscribe_plain m"
  shows "\<exists>s t. subscribe_EncodeToBuf \<lparr>b_buf = [], b_msg = m, b_gpid = g\<rparr> = Go s
    \<and> subscribe_Encode \<lparr>e_dst = b_buf s, e_tot = 0, e_msg = m, e_gpid = g\<rparr> =
        Go \<lparr>e_dst = b_buf s, e_tot = length (b_buf s), e_msg = b_msg s, e_gpid = g\<rparr>
    \<and> subscribe_Decode (GSlice (b_buf s) sp) NewSubscribeMessage = Go t
    \<and> d_tot t = length (b_buf s) \<and> packetId (d_msg t) = packetId m
    \<and> subscriptionIdentifier (d_msg t) = subscriptionIdentifier m \<and> userProperty (d_msg t) = up_pad (userProperty m)
    \<and> topics (d_msg t) = topics m \<and> qos (d_msg t) = qos m \<and> noLocal (d_msg t) = noLocal m
    \<and> retainAsPub (d_msg t) = retainAsPub m \<and> retainHandling (d_msg t) = retainHandling m \<and> \<not> dirty (d_msg t)"
proof -
  obtain s where s: "subscribe_EncodeToBuf \<lparr>b_buf = [], b_msg = m, b_gpid = g\<rparr> = Go s"
    "b_buf s = frame m (subscribe_body m)"
    using sb.encoders_agree [OF assms(1,2)] by blast
  moreover have "subscribe_Encode \<lparr>e_dst = b_buf s, e_tot = 0, e_msg = m, e_gpid = g\<rparr> =
        Go \<lparr>e_dst = b_buf s, e_tot = length (b_buf s), e_msg = b_msg s, e_gpid = g\<rparr>"
    using sb.encoders_agree [OF assms(1,2), of g "b_buf s"] s(1) by auto
  ultimately show ?thesis
    using subscribe_Decode_bytes [OF assms(1,3), of "GSlice (b_buf s) sp"]
    by (auto simp: subscribe_decoded_def subscribe_built_def)
qed

theorem subscribe_roundtrip_witness:
  "\<exists>s t. subscribe_EncodeToBuf \<lparr>b_buf = [], b_msg = sample_subscribe, b_gpid = 0\<rparr> = Go s
    \<and> subscribe_Decode (GSlice (b_buf s) [0]) NewSubscribeMessage = Go t
    \<and> topics (d_msg t) = [[0x61, 0x2F, 0x23], [0x62]] \<and> qos (d_msg t) = [1, 2] \<and> retainHandling (d_msg t) = [2, 0]"
  using subscribe_roundtrip [OF sample_subscribe_ok, of 0 "[0]"] by (auto simp: sample_subscribe_def)

text \<open>The filters of a SUBSCRIBE message and their four options are parallel lists. A new message and
  a message that was decoded without error have lists of equal length, every sequence of calls of
  the setters keeps it that way, and so no operation on the message indexes a list out of range.\<close>

theorem subscribe_lists_parallel:
  assumes "m0 = NewSubscribeMessage \<or> subscribe_Decode src NewSubscribeMessage = Go s \<and> m0 = d_msg s"
    and "sub_step\<^sup>*\<^sup>* m0 m"
  shows "parallel m \<and> AddTopic t q m \<noteq> None \<and> AddTopicAll t q nl rap rh m \<noteq> None \<and> RemoveTopic t m \<noteq> None
    \<and> TopicQos t m \<noteq> None \<and> TopicNoLocal t m \<noteq> None \<and> TopicRetainAsPublished t m \<noteq> None
    \<and> TopicRetainHandling t m \<noteq> None \<and> SetTopicNoLocal t v m \<noteq> None \<and> SetTopicRetainAsPublished t v m \<noteq> None
    \<and> SetTopicRetainHandling t rh m \<noteq> None \<and> Clone m \<noteq> None"
proof -
  have n: "parallel NewSubscribeMessage"
    by (simp add: NewSubscribeMessage_def parallel_def header.defs)
  then have p: "parallel m"
    using assms subscribe_Decode_parallel(1) [OF _ n] sub_steps_parallel by blast
  have l: "length (qos m) = length (topics m)" "length (noLocal m) = length (topics m)"
      "length (retainAsPub m) = length (topics m)" "length (retainHandling m) = length (topics m)"
    using p by (simp_all add: parallel_def)
  have o: "topic_opt t qos d m \<noteq> None" "topic_opt t noLocal d m \<noteq> None" "topic_opt t retainAsPub d m \<noteq> None"
      "topic_opt t retainHandling d m \<noteq> None" for d
    by (rule parallel_ops(6) [OF p]; fact l)+
  have "Clone m \<noteq> None"
    using l by (auto simp: Clone_def)
  then have c: "\<And>q x y z. AddTopicOpts t q x y z m \<noteq> None" "RemoveTopic t m \<noteq> None" "SetTopicNoLocal t v m \<noteq> None"
      "SetTopicRetainAsPublished t v m \<noteq> None" "SetTopicRetainHandling t rh m \<noteq> None" "Clone m \<noteq> None"
    using parallel_ops(1-5) [OF p] by (metis option.distinct(1))+
  have a: "AddTopic t q m \<noteq> None" "AddTopicAll t q nl rap rh m \<noteq> None"
    unfolding AddTopic_def AddTopicAll_def
    using c(1) [of q 0 0 0] c(1) [of q "if nl then 1 else 0" "if rap then 1 else 0" rh] by (simp_all only: option.map_disc_iff split: if_split) simp_all
  show ?thesis
    using p a c(2-6) o
    by (simp add: TopicQos_def TopicNoLocal_def TopicRetainAsPublished_def TopicRetainHandling_def)
qed

theorem subscribe_lists_parallel_witness:
  "\<exists>m. AddTopic [0x61] 1 NewSubscribeMessage = Some (m, None) \<and> parallel m \<and> TopicQos [0x61] m \<noteq> None"
proof -
  obtain m e where m: "AddTopic [0x61] 1 NewSubscribeMessage = Some (m, e)" "e = None"
    by (auto simp: AddTopic_def AddTopicOpts_def ValidQos_def NewSubscribeMessage_def header.defs)
  then have "sub_step\<^sup>*\<^sup>* NewSubscribeMessage m"
    by (intro r_into_rtranclp sub_step.add)
  then show ?thesis
    using m subscribe_lists_parallel [OF disjI1 [OF refl], of m "[0x61]"] by blast
qed

end
