(* ===== verification/SubackRT.thy ===== *)
theory SubackRT
  imports Suback SubscribeRT
begin

text \<open>
  The wire format of SUBACK and UNSUBACK as a function of the message, and the proofs that the
  encoders produce it and that \<open>Decode\<close> reads it back.
\<close>

section \<open>The wire format\<close>

definition suback_props :: "suback \<Rightarrow> bytes" where
  "suback_props m = opt_bytes (length (reasonStr m) > 0) ReasonString (lp (reasonStr m)) @ up_bytes (userProperty m)"

definition suback_body :: "suback \<Rightarrow> bytes" where
  "suback_body m = packetId m @ varint (length (suback_props m)) @ suback_props m @ reasonCodes m"

definition codes_ok :: "mtype \<Rightarrow> (byte \<Rightarrow> bool) \<Rightarrow> suback \<Rightarrow> bool" where
  "codes_ok t valid m \<longleftrightarrow>
     Type m = t \<and> mtype_Valid t \<and> flags_ok (mtf m) \<and> length (packetId m) = 2 \<and> length (reasonStr m) \<le> 65535 \<and> strs_ok (userProperty m)
     \<and> reasonCodes m \<noteq> [] \<and> list_all valid (reasonCodes m) \<and> length (suback_body m) < 2 ^ 28"

definition suback_built :: "suback \<Rightarrow> suback" where
  "suback_built m = m\<lparr>propertiesLen := word_of_nat (length (suback_props m)),
     remlen := word_of_nat (length (suback_body m)), dirty := True\<rparr>"

lemma suback_sizes:
  assumes "codes_ok t valid m"
  shows "length (suback_props m) < 2 ^ 28" "length (suback_body m) < 2 ^ 28"
proof -
  show b: "length (suback_body m) < 2 ^ 28"
    using assms by (simp add: codes_ok_def)
  then show "length (suback_props m) < 2 ^ 28"
    by (simp add: suback_body_def)
qed

lemma suback_build_ok:
  assumes ok: "codes_ok t valid m"
  shows "suback_build m = Some (suback_built m)"
proof -
  let ?p = "length (suback_props m)" and ?b = "length (suback_body m)"
  note z = suback_sizes [OF ok]
  note p = plen_ok [OF z(1)] and b = plen_ok [OF z(2)]
  have 1: "2 + prop_len (reasonStr m) + buildUserPropertyLen (userProperty m) = 2 + ?p"
    by (simp add: suback_props_def prop_len_def)
  have "length (packetId m) = 2"
    using ok by (simp add: codes_ok_def)
  then have "2 + ?p + length (varint ?p) + length (reasonCodes m) = ?b"
    by (simp add: suback_body_def)
  then show ?thesis
    unfolding suback_build_def Let_def 1
    using p(1) b(3) by (simp add: suback_built_def del: of_nat_add of_nat_Suc)
qed

lemma suback_built_fields [simp]:
  "mtf (suback_built m) = mtf m" "packetId (suback_built m) = packetId m" "reasonStr (suback_built m) = reasonStr m"
  "userProperty (suback_built m) = userProperty m" "reasonCodes (suback_built m) = reasonCodes m"
  by (simp_all add: suback_built_def)

section \<open>Encoding\<close>

definition suback_chunks :: "suback \<Rightarrow> bytes list" where
  "suback_chunks m =
     [packetId m, varint (length (suback_props m)),
      opt_bytes (length (reasonStr m) > 0) ReasonString (lp (reasonStr m)),
      up_bytes (userProperty m), reasonCodes m]"

lemma writes_id0: "length (packetId m) = 2 \<Longrightarrow> writes N m enc_id0 (packetId m)"
  by (auto simp: writes_def enc_id0_def)

lemma codes_format:
  "packet_format (codes_ok t valid) suback_build suback_built suback_body (tl suback_buf_steps)
    (tl suback_enc_steps) suback_chunks"
proof
  fix m :: suback and N :: nat assume ok: "codes_ok t valid m"
  let ?m = "suback_built m"
  have o: "length (packetId m) = 2" "length (reasonStr m) \<le> 65535" "strs_ok (userProperty m)"
    using ok by (simp_all add: codes_ok_def)
  note z = suback_sizes [OF ok]
  have pl: "unat (propertiesLen ?m) = length (suback_props m)"
    using plen_ok(2) [OF z(1)] by (simp add: suback_built_def)
  show "suback_build m = Some ?m"
    by (rule suback_build_ok [OF ok])
  show "length (suback_body m) < 2 ^ 28" "mtype_Valid (Type m)"
    using z(2) ok by (auto simp: codes_ok_def)
  show "remlen ?m = word_of_nat (length (suback_body m)) \<and> dirty ?m"
    by (simp add: suback_built_def)
  show "concat (suback_chunks m) = suback_body m"
    by (simp add: suback_chunks_def suback_body_def suback_props_def)
  have c: "suback_chunks m = [packetId ?m, varint (unat (propertiesLen ?m)),
      opt_bytes (length (reasonStr ?m) > 0) ReasonString (lp (reasonStr ?m)),
      up_bytes (userProperty ?m), reasonCodes ?m]"
    by (simp add: suback_chunks_def pl)
  have id: "appends ?m (buf_write (\<lambda>m. if length (packetId m) \<noteq> 2 then [0, 0] else packetId m)) (packetId ?m)"
    using o(1) by (simp add: appends_def buf_write_def)
  show "list_all2 (appends ?m) (tl suback_buf_steps) (suback_chunks m)"
    unfolding c suback_buf_steps_def list.sel list_all2_Cons list_all2_Nil
    by (intro conjI TrueI id appends_intros) (use o pl z in simp_all)
  show "list_all2 (writes N ?m) (tl suback_enc_steps) (suback_chunks m)"
    unfolding c suback_enc_steps_def list.sel list_all2_Cons list_all2_Nil
    by (intro conjI TrueI writes_id0 writes_intros) (use o pl z in simp_all)
qed simp

lemma codes_steps: "buf_header # tl suback_buf_steps = suback_buf_steps" "enc_header # tl suback_enc_steps = suback_enc_steps"
  by (simp_all add: suback_buf_steps_def suback_enc_steps_def)

interpretation sa: packet_encoders "codes_ok SUBACK ValidSubAckReasonCode" suback_build suback_built suback_body
  "tl suback_buf_steps" "tl suback_enc_steps" suback_chunks suback_EncodeToBuf suback_Encode suback_small
  by (intro packet_encoders.intro codes_format packet_encoders_axioms.intro)
    (simp_all add: suback_EncodeToBuf_def suback_Encode_def codes_EncodeToBuf_def codes_Encode_def codes_steps codes_ok_def)

interpretation ua: packet_encoders "codes_ok UNSUBACK ValidUnSubAckReasonCode" suback_build suback_built suback_body
  "tl suback_buf_steps" "tl suback_enc_steps" suback_chunks unsuback_EncodeToBuf unsuback_Encode unsuback_small
  by (intro packet_encoders.intro codes_format packet_encoders_axioms.intro)
    (simp_all add: unsuback_EncodeToBuf_def unsuback_Encode_def codes_EncodeToBuf_def codes_Encode_def codes_steps)

section \<open>Decoding\<close>

definition suback_decoded :: "bytes \<Rightarrow> suback \<Rightarrow> suback" where
  "suback_decoded raw m = suback_built m\<lparr>dbuf := raw, userProperty := up_pad (userProperty m), dirty := False\<rparr>"

text \<open>Codes that cannot be taken for a property\<close>

definition plain_codes :: "(byte \<Rightarrow> bool) \<Rightarrow> bool" where
  "plain_codes valid \<longleftrightarrow> \<not> valid ReasonString \<and> \<not> valid UserProperty"

lemma plain_codes_valid: "plain_codes ValidSubAckReasonCode" "plain_codes ValidUnSubAckReasonCode"
  by (simp_all add: plain_codes_def ValidSubAckReasonCode_def ValidUnSubAckReasonCode_def)

lemma suback_dec_props_rt:
  assumes o: "length (reasonStr m) \<le> 65535" "strs_ok (userProperty m)"
    and r: "r \<noteq> []" "starts_not r ReasonString" "starts_not r UserProperty" and m0: "reasonStr m0 = []"
  shows "reads src m0 (steps (take 2 (codes_dec_steps src valid))) (suback_props m)
    (m0\<lparr>reasonStr := reasonStr m, userProperty := up_pad (userProperty m)\<rparr>) r"
proof -
  have b: "suback_props m = concat [opt_bytes (length (reasonStr m) > 0) ReasonString (lp (reasonStr m)), up_bytes (userProperty m)]"
    by (simp add: suback_props_def)
  show ?thesis
    unfolding b codes_dec_steps_def numeral_2_eq_2 take_Suc_Cons take_0
    apply (rule reads_Cons, rule reads_when, rule reads_two, rule reads_lp, rule o(1), rule reads_next_not)
         apply simp
        apply (use r in simp)
       apply (use r in simp)
      apply (use r in simp)
     apply (use m0 in simp)
    apply (rule reads_Cons, rule reads_userProperty)
      apply (use o r in simp_all)[2]
    by (rule reads_Nil) simp
qed

text \<open>The part that the two decoders share, from the packet identifier on\<close>

lemma codes_decode_rt:
  assumes ok: "codes_ok t valid m" and plain: "plain_codes valid"
    and l: "left src hn (suback_body m)" and m0: "reasonStr m0 = []"
    and rl: "remlen m0 = word_of_nat (length (suback_body m))"
    and fs: "fs = [dec_packetId src, dec_lb src (\<lambda>v m. m\<lparr>propertiesLen := v\<rparr>) ret_total] \<or>
      fs = [dec_packetId src, dec_lb src (\<lambda>v m. m\<lparr>propertiesLen := v\<rparr>) ret_total, dec_plen src propertiesLen]"
  shows "steps (fs @ codes_dec_steps src valid) \<lparr>d_hn = hn, d_tot = hn, d_msg = m0\<rparr>
    = Go \<lparr>d_hn = hn, d_tot = hn + length (suback_body m), d_msg = m0\<lparr>packetId := packetId m,
        propertiesLen := word_of_nat (length (suback_props m)), reasonStr := reasonStr m,
        userProperty := up_pad (userProperty m), reasonCodes := reasonCodes m, dirty := False\<rparr>\<rparr>"
proof -
  let ?p = "length (suback_props m)" and ?cs = "reasonCodes m"
  have o: "length (packetId m) = 2" "length (reasonStr m) \<le> 65535" "strs_ok (userProperty m)" "?cs \<noteq> []"
      "list_all valid ?cs"
    using ok by (simp_all add: codes_ok_def)
  note z = suback_sizes [OF ok]
  have "valid (hd ?cs)"
    using o(4,5) by (cases ?cs) simp_all
  then have sn: "starts_not ?cs ReasonString" "starts_not ?cs UserProperty"
    using o(4) plain by (auto simp: starts_not_def plain_codes_def)
  let ?m1 = "m0\<lparr>packetId := packetId m, propertiesLen := word_of_nat ?p\<rparr>"
  let ?m2 = "?m1\<lparr>reasonStr := reasonStr m, userProperty := up_pad (userProperty m)\<rparr>"
  have pl: "unat (propertiesLen ?m1) \<le> length (suback_props m @ ?cs)"
    using plen_ok(2) [OF z(1)] by simp
  have 1: "reads src m0 (steps fs) (concat [packetId m, varint ?p]) ?m1 (suback_props m @ ?cs)"
    using fs
  proof
    assume "fs = [dec_packetId src, dec_lb src (\<lambda>v m. m\<lparr>propertiesLen := v\<rparr>) ret_total]"
    then show ?thesis
      by (simp only:) (rule reads_Cons, rule reads_packetId [OF o(1)], rule reads_Cons, rule reads_lb [OF z(1)],
        rule reads_Nil, simp)
  next
    assume f: "fs = [dec_packetId src, dec_lb src (\<lambda>v m. m\<lparr>propertiesLen := v\<rparr>) ret_total, dec_plen src propertiesLen]"
    have "reads src m0 (steps fs) (concat [packetId m, varint ?p, []]) ?m1 (suback_props m @ ?cs)"
      unfolding f by (rule reads_Cons, rule reads_packetId [OF o(1)], rule reads_Cons, rule reads_lb [OF z(1)],
        rule reads_Cons, rule reads_plen, simp only: concat.simps append_Nil pl, rule reads_Nil, simp)
    then show ?thesis by simp
  qed
  have 2: "reads src ?m1 (steps (take 2 (codes_dec_steps src valid))) (suback_props m) ?m2 ?cs"
    by (rule suback_dec_props_rt [OF o(2,3,4) sn]) (simp add: m0)
  let ?x = "concat [packetId m, varint ?p] @ suback_props m"
  have l1: "left src hn (?x @ ?cs)"
    using l by (simp add: suback_body_def)
  let ?s = "\<lparr>d_hn = hn, d_tot = hn, d_msg = m0\<rparr>" and ?t = "\<lparr>d_hn = hn, d_tot = hn + length ?x, d_msg = ?m2\<rparr>"
  have a: "steps (fs @ take 2 (codes_dec_steps src valid)) ?s = Go ?t"
    using readsD [OF reads_append [OF 1 2], of ?s] l1 by simp
  have l2: "left src (d_tot ?t) (?cs @ [])"
    using left_advance [OF l1] by simp
  have tot: "hn + length (suback_body m) = hn + length ?x + length ?cs"
    by (simp add: suback_body_def)
  have n: "uint (remlen ?m2) - (int (d_tot ?t) - int (d_hn ?t)) = int (length ?cs)"
    using plen_ok(2) [OF z(2)] by (simp add: rl uint_nat suback_body_def)
  have c: "dec_codes src valid ?t = Go (?t\<lparr>d_tot := d_tot ?t + length ?cs, d_msg := ?m2\<lparr>reasonCodes := ?cs\<rparr>\<rparr>)"
    using o(4,5) left_sub [OF l2] unfolding dec_codes_def Let_def dstate.select_convs n [simplified dstate.select_convs]
    by (simp add: CopyLen_def)
  have split: "fs @ codes_dec_steps src valid = (fs @ take 2 (codes_dec_steps src valid)) @ [dec_codes src valid, dec_set (\<lambda>m. m\<lparr>dirty := False\<rparr>)]"
    by (simp add: codes_dec_steps_def)
  show ?thesis
    unfolding split steps_append [of "fs @ take 2 (codes_dec_steps src valid)"] a andthen.simps steps.simps c tot
    by (simp add: dec_set_def)
qed

lemma new_codes_fields: "t \<noteq> RESERVED2 \<Longrightarrow> Type (new_codes t) = t" "reasonStr (new_codes t) = []"
  by (simp_all add: new_codes_def new_header_def header.defs Type_def)

lemma codes_Decode_bytes:
  assumes ok: "codes_ok t valid m" and plain: "plain_codes valid" and v: "vis src = frame m (suback_body m)"
    and fs: "fs = [dec_packetId src, dec_lb src (\<lambda>v m. m\<lparr>propertiesLen := v\<rparr>) ret_total] \<or>
      fs = [dec_packetId src, dec_lb src (\<lambda>v m. m\<lparr>propertiesLen := v\<rparr>) ret_total, dec_plen src propertiesLen]"
  shows "steps (dec_header src # fs @ codes_dec_steps src valid) (dstart (new_codes t))
    = Go \<lparr>d_hn = Suc (length (varint (length (suback_body m)))), d_tot = length (vis src),
        d_msg = suback_decoded (vis src) m\<rparr>"
proof -
  let ?b = "length (suback_body m)"
  let ?hn = "Suc (length (varint ?b))"
  define m0 where "m0 = (new_codes t)\<lparr>dbuf := vis src, mtf := mtf m, remlen := word_of_nat ?b\<rparr>"
  have o: "Type m = t" "flags_ok (mtf m)" "t \<noteq> RESERVED2" "suback_body m \<noteq> []"
    using ok by (auto simp: codes_ok_def suback_body_def)
  note z = suback_sizes [OF ok]
  have vs: "vis src = mtf m # varint ?b @ suback_body m"
    by (simp add: v frame_def)
  have h: "dec_header src (dstart (new_codes t)) = Go \<lparr>d_hn = ?hn, d_tot = ?hn, d_msg = m0\<rparr>"
    and l0: "left src ?hn (suback_body m)"
    using dec_header_rt [OF vs z(2) refl o(2), of "new_codes t"] o new_codes_fields(1) [of t]
    by (simp_all add: m0_def Type_def)
  have m0: "reasonStr m0 = []" "remlen m0 = word_of_nat ?b"
    by (simp_all add: m0_def new_codes_def header.defs)
  have dec: "m0\<lparr>packetId := packetId m, propertiesLen := word_of_nat (length (suback_props m)), reasonStr := reasonStr m,
      userProperty := up_pad (userProperty m), reasonCodes := reasonCodes m, dirty := False\<rparr> = suback_decoded (vis src) m"
    by (simp add: suback_decoded_def suback_built_def m0_def new_codes_def new_header_def header.defs)
  have tot: "length (vis src) = ?hn + ?b"
    by (simp add: vs)
  show ?thesis
    unfolding steps.simps h andthen.simps codes_decode_rt [OF ok plain l0 m0 fs] dec tot ..
qed

lemma suback_Decode_bytes:
  assumes "codes_ok SUBACK ValidSubAckReasonCode m" and "vis src = frame m (suback_body m)"
  shows "suback_Decode src NewSubackMessage
    = Go \<lparr>d_hn = Suc (length (varint (length (suback_body m)))), d_tot = length (vis src),
        d_msg = suback_decoded (vis src) m\<rparr>"
  using codes_Decode_bytes [OF assms(1) plain_codes_valid(1) assms(2) disjI2, OF refl]
  by (simp only: suback_Decode_def NewSubackMessage_def append_Cons append_Nil)

lemma unsuback_Decode_bytes:
  assumes "codes_ok UNSUBACK ValidUnSubAckReasonCode m" and "vis src = frame m (suback_body m)"
  shows "unsuback_Decode src NewUnsubackMessage
    = Go \<lparr>d_hn = Suc (length (varint (length (suback_body m)))), d_tot = length (vis src),
        d_msg = suback_decoded (vis src) m\<rparr>"
  using codes_Decode_bytes [OF assms(1) plain_codes_valid(2) assms(2) disjI1, OF refl]
  by (simp only: unsuback_Decode_def NewUnsubackMessage_def append_Cons append_Nil)

section \<open>The packets\<close>

definition sample_suback :: suback where
  "sample_suback = NewSubackMessage\<lparr>packetId := [0, 9], reasonStr := [0x6E], userProperty := [[0x6B], [0x76]],
     reasonCodes := [0, 2, 0x8F]\<rparr>"
definition sample_unsuback :: suback where
  "sample_unsuback = NewUnsubackMessage\<lparr>packetId := [0, 9], reasonStr := [0x6E], reasonCodes := [0, 0x11]\<rparr>"

lemma sample_suback_ok: "codes_ok SUBACK ValidSubAckReasonCode sample_suback" "dirty sample_suback"
  "codes_ok UNSUBACK ValidUnSubAckReasonCode sample_unsuback" "dirty sample_unsuback"
  by code_simp+

text \<open>C28: round trip of SUBACK and UNSUBACK: what \<open>EncodeToBuf\<close> produces for a message with valid
  reason codes, \<open>Decode\<close> reads back into a message with the same packet identifier, reason string, user
  properties, of which a list of odd length gains an empty value, and reason codes, and the other encoder produces the
  same bytes.\<close>

theorem suback_roundtrip:
  assumes "codes_ok SUBACK ValidSubAckReasonCode m" and "dirty m"
    and "codes_ok UNSUBACK ValidUnSubAckReasonCode u" and "dirty u"
  shows "(\<exists>s t. suback_EncodeToBuf \<lparr>b_buf = [], b_msg = m, b_gpid = g\<rparr> = Go s
      \<and> suback_Encode \<lparr>e_dst = b_buf s, e_tot = 0, e_msg = m, e_gpid = g\<rparr> =
          Go \<lparr>e_dst = b_buf s, e_tot = length (b_buf s), e_msg = b_msg s, e_gpid = g\<rparr>
      \<and> suback_Decode (GSlice (b_buf s) sp) NewSubackMessage = Go t
      \<and> d_tot t = length (b_buf s) \<and> packetId (d_msg t) = packetId m \<and> reasonStr (d_msg t) = reasonStr m
      \<and> userProperty (d_msg t) = up_pad (userProperty m) \<and> reasonCodes (d_msg t) = reasonCodes m)
    \<and> (\<exists>s t. unsuback_EncodeToBuf \<lparr>b_buf = [], b_msg = u, b_gpid = g\<rparr> = Go s
      \<and> unsuback_Encode \<lparr>e_dst = b_buf s, e_tot = 0, e_msg = u, e_gpid = g\<rparr> =
          Go \<lparr>e_dst = b_buf s, e_tot = length (b_buf s), e_msg = b_msg s, e_gpid = g\<rparr>
      \<and> unsuback_Decode (GSlice (b_buf s) sp) NewUnsubackMessage = Go t
      \<and> d_tot t = length (b_buf s) \<and> packetId (d_msg t) = packetId u \<and> reasonStr (d_msg t) = reasonStr u
      \<and> userProperty (d_msg t) = up_pad (userProperty u) \<and> reasonCodes (d_msg t) = reasonCodes u)"
proof -
  obtain s where s: "suback_EncodeToBuf \<lparr>b_buf = [], b_msg = m, b_gpid = g\<rparr> = Go s" "b_buf s = frame m (suback_body m)"
    using sa.encoders_agree [OF assms(1,2)] by blast
  obtain r where r: "unsuback_EncodeToBuf \<lparr>b_buf = [], b_msg = u, b_gpid = g\<rparr> = Go r" "b_buf r = frame u (suback_body u)"
    using ua.encoders_agree [OF assms(3,4)] by blast
  have "suback_Encode \<lparr>e_dst = b_buf s, e_tot = 0, e_msg = m, e_gpid = g\<rparr> =
        Go \<lparr>e_dst = b_buf s, e_tot = length (b_buf s), e_msg = b_msg s, e_gpid = g\<rparr>"
    using sa.encoders_agree [OF assms(1,2), of g "b_buf s"] s(1) by auto
  moreover have "unsuback_Encode \<lparr>e_dst = b_buf r, e_tot = 0, e_msg = u, e_gpid = g\<rparr> =
        Go \<lparr>e_dst = b_buf r, e_tot = length (b_buf r), e_msg = b_msg r, e_gpid = g\<rparr>"
    using ua.encoders_agree [OF assms(3,4), of g "b_buf r"] r(1) by auto
  moreover note suback_Decode_bytes [OF assms(1), of "GSlice (b_buf s) sp"]
    unsuback_Decode_bytes [OF assms(3), of "GSlice (b_buf r) sp"]
  ultimately show ?thesis
    using s r by (simp add: suback_decoded_def)
qed

theorem suback_roundtrip_witness:
  "\<exists>s t. suback_EncodeToBuf \<lparr>b_buf = [], b_msg = sample_suback, b_gpid = 0\<rparr> = Go s
    \<and> suback_Decode (GSlice (b_buf s) [0]) NewSubackMessage = Go t \<and> reasonCodes (d_msg t) = [0, 2, 0x8F]"
  using suback_roundtrip [OF sample_suback_ok, of 0 "[0]"] by (auto simp: sample_suback_def)

end
