(* ===== verification/UnsubscribeRT.thy ===== *)
theory UnsubscribeRT
  imports Unsubscribe PacketFrame
begin

text \<open>
  The wire format of UNSUBSCRIBE as a function of the message, the proof that the encoders
  produce it, and which of the filters \<open>Decode\<close> gets to see.
\<close>

section \<open>The wire format\<close>

definition topic_bytes :: "bytes list \<Rightarrow> bytes" where
  "topic_bytes ts = concat (map lp ts)"

definition unsubscribe_body :: "unsubscribe \<Rightarrow> bytes" where
  "unsubscribe_body m = packetId m @ varint (length (up_bytes (userProperty m))) @ up_bytes (userProperty m)
     @ topic_bytes (topics m)"

definition unsubscribe_ok :: "unsubscribe \<Rightarrow> bool" where
  "unsubscribe_ok m \<longleftrightarrow>
     Type m = UNSUBSCRIBE \<and> flags_ok (mtf m) \<and> length (packetId m) = 2 \<and> PacketId m \<noteq> 0
     \<and> topics m \<noteq> [] \<and> list_all (\<lambda>t. t \<noteq> [] \<and> length t \<le> 65535) (topics m)
     \<and> strs_ok (userProperty m) \<and> length (unsubscribe_body m) < 2 ^ 28"

definition unsubscribe_plain :: "unsubscribe \<Rightarrow> bool" where
  "unsubscribe_plain m \<longleftrightarrow> hd (lp (hd (topics m))) \<noteq> UserProperty"

definition unsubscribe_built :: "unsubscribe \<Rightarrow> unsubscribe" where
  "unsubscribe_built m = m\<lparr>propertyLen := word_of_nat (length (up_bytes (userProperty m))),
     remlen := word_of_nat (length (unsubscribe_body m)), dirty := True\<rparr>"

lemma length_topic_bytes: "length (topic_bytes ts) = sum_list (map (\<lambda>t. 2 + length t) ts)"
  by (induction ts) (simp_all add: topic_bytes_def)

lemma topic_bytes_simps [simp]: "topic_bytes [] = []" "topic_bytes (t # ts) = lp t @ topic_bytes ts"
  by (simp_all add: topic_bytes_def)

lemma unsubscribe_sizes:
  assumes "unsubscribe_ok m"
  shows "length (up_bytes (userProperty m)) < 2 ^ 28" "length (unsubscribe_body m) < 2 ^ 28"
proof -
  show b: "length (unsubscribe_body m) < 2 ^ 28"
    using assms by (simp add: unsubscribe_ok_def)
  then show "length (up_bytes (userProperty m)) < 2 ^ 28"
    by (simp add: unsubscribe_body_def)
qed

lemma unsubscribe_build_ok:
  assumes ok: "unsubscribe_ok m"
  shows "unsubscribe_build m = Some (unsubscribe_built m)"
proof -
  let ?p = "length (up_bytes (userProperty m))" and ?b = "length (unsubscribe_body m)"
  note z = unsubscribe_sizes [OF ok]
  note p = plen_ok [OF z(1)] and b = plen_ok [OF z(2)]
  have "length (packetId m) = 2"
    using ok by (simp add: unsubscribe_ok_def)
  then have "?p + 2 + sum_list (map (\<lambda>t. 2 + length t) (topics m)) + length (varint ?p) = ?b"
    by (simp add: unsubscribe_body_def length_topic_bytes)
  then show ?thesis
    unfolding unsubscribe_build_def Let_def length_up_bytes [symmetric]
    using p(1) b(3) by (simp add: unsubscribe_built_def del: of_nat_add of_nat_Suc length_up_bytes)
qed

lemma unsubscribe_built_fields [simp]:
  "mtf (unsubscribe_built m) = mtf m" "packetId (unsubscribe_built m) = packetId m" "PacketId (unsubscribe_built m) = PacketId m"
  "userProperty (unsubscribe_built m) = userProperty m" "topics (unsubscribe_built m) = topics m"
  by (simp_all add: unsubscribe_built_def PacketId_def)

section \<open>Encoding\<close>

lemma appends_topics:
  assumes "list_all (\<lambda>t. length t \<le> 65535) (f m)"
  shows "appends m (\<lambda>s. steps (map (\<lambda>t. buf_lp (\<lambda>_. t)) (f (b_msg s))) s) (topic_bytes (f m))"
proof -
  have "list_all2 (appends m) (map (\<lambda>t. buf_lp (\<lambda>_. t)) (f m)) (map lp (f m))"
    using assms by (auto simp: list_all2_conv_all_nth list_all_length intro!: appends_lp [where f = "\<lambda>_. x" for x])
  then show ?thesis
    using steps_appends by (fastforce simp: appends_def topic_bytes_def)
qed

lemma writes_topics:
  assumes "list_all (\<lambda>t. length t \<le> 65535) (f m)"
  shows "writes N m (\<lambda>s. steps (map (\<lambda>t. enc_lp (\<lambda>_. t)) (f (e_msg s))) s) (topic_bytes (f m))"
proof -
  have "list_all2 (writes N m) (map (\<lambda>t. enc_lp (\<lambda>_. t)) (f m)) (map lp (f m))"
    using assms by (auto simp: list_all2_conv_all_nth list_all_length intro!: writes_lp [where f = "\<lambda>_. x" for x])
  from steps_writes [OF this] show ?thesis
    by (simp add: writes_def topic_bytes_def)
qed

definition unsubscribe_chunks :: "unsubscribe \<Rightarrow> bytes list" where
  "unsubscribe_chunks m =
     [packetId m, varint (length (up_bytes (userProperty m))), up_bytes (userProperty m), topic_bytes (topics m)]"

interpretation us: packet_encoders unsubscribe_ok unsubscribe_build unsubscribe_built unsubscribe_body
  "tl unsubscribe_buf_steps" "tl unsubscribe_enc_steps" unsubscribe_chunks
  unsubscribe_EncodeToBuf unsubscribe_Encode "Errorf ''unsubscribe/Encode: Insufficient buffer size.''"
proof unfold_locales
  fix m :: unsubscribe and N :: nat assume ok: "unsubscribe_ok m"
  let ?m = "unsubscribe_built m"
  have o: "strs_ok (userProperty m)" "PacketId m \<noteq> 0" "list_all (\<lambda>t. length t \<le> 65535) (topics ?m)"
    using ok by (auto simp: unsubscribe_ok_def list_all_iff)
  note z = unsubscribe_sizes [OF ok]
  have pl: "unat (propertyLen ?m) = length (up_bytes (userProperty m))"
    using plen_ok(2) [OF z(1)] by (simp add: unsubscribe_built_def del: length_up_bytes)
  show "unsubscribe_build m = Some ?m"
    by (rule unsubscribe_build_ok [OF ok])
  show "length (unsubscribe_body m) < 2 ^ 28" "mtype_Valid (Type m)"
    using z(2) ok by (simp_all add: unsubscribe_ok_def)
  show "remlen ?m = word_of_nat (length (unsubscribe_body m)) \<and> dirty ?m"
    by (simp add: unsubscribe_built_def)
  show "concat (unsubscribe_chunks m) = unsubscribe_body m"
    by (simp add: unsubscribe_chunks_def unsubscribe_body_def)
  have c: "unsubscribe_chunks m = [packetId ?m, varint (unat (propertyLen ?m)), up_bytes (userProperty ?m), topic_bytes (topics ?m)]"
    by (simp add: unsubscribe_chunks_def pl del: length_up_bytes)
  show "list_all2 (appends ?m) (tl unsubscribe_buf_steps) (unsubscribe_chunks m)"
    unfolding c unsubscribe_buf_steps_def list.sel list_all2_Cons list_all2_Nil
    by (intro conjI TrueI appends_topics appends_intros) (use o pl z in \<open>simp_all del: length_up_bytes\<close>)
  show "list_all2 (writes N ?m) (tl unsubscribe_enc_steps) (unsubscribe_chunks m)"
    unfolding c unsubscribe_enc_steps_def list.sel list_all2_Cons list_all2_Nil
    by (intro conjI TrueI writes_topics writes_intros) (use o pl z in \<open>simp_all del: length_up_bytes\<close>)
qed (simp_all add: unsubscribe_EncodeToBuf_def unsubscribe_Encode_def unsubscribe_buf_steps_def unsubscribe_enc_steps_def)

section \<open>Decoding\<close>

text \<open>
  The number of filters that the loop reads: it stops when the bytes that are left are no
  more than the filters read so far, since it counts one byte too many for each of them.
\<close>

fun filters_seen :: "int \<Rightarrow> bytes list \<Rightarrow> bytes list" where
  "filters_seen n [] = []"
| "filters_seen n (t # ts) = (if n \<le> 0 then [] else t # filters_seen (n - int (2 + length t) - 1) ts)"

lemma unsub_dec_topics_rt:
  "list_all (\<lambda>t. length t \<le> 65535) ts \<Longrightarrow> left src (d_tot s) (topic_bytes ts @ r) \<Longrightarrow>
   n \<le> int (length (topic_bytes ts)) \<Longrightarrow>
   unsub_dec_topics src n s = Go (s\<lparr>d_tot := d_tot s + length (topic_bytes (filters_seen n ts)),
     d_msg := (d_msg s)\<lparr>topics := topics (d_msg s) @ filters_seen n ts\<rparr>\<rparr>)"
proof (induction ts arbitrary: n s)
  case Nil
  then show ?case by (simp add: unsub_dec_topics.simps)
next
  case (Cons t ts)
  have l: "left src (d_tot s) (lp t @ (topic_bytes ts @ r))"
    using Cons.prems(2) by simp
  let ?k = "2 + length t"
  let ?s1 = "s\<lparr>d_tot := d_tot s + ?k, d_msg := (d_msg s)\<lparr>topics := topics (d_msg s) @ [t]\<rparr>\<rparr>"
  have l1: "left src (d_tot ?s1) (topic_bytes ts @ r)"
    using left_advance [OF l] by simp
  show ?case
  proof (cases "n \<le> 0")
    case True
    then show ?thesis by (simp add: unsub_dec_topics.simps)
  next
    case False
    have "readLPBytes (GSlice (lp t @ topic_bytes ts @ r) (spare src)) = Some (t, ?k, None)"
      using Cons.prems(1) by (simp add: readLPBytes_lp)
    then have "unsub_dec_topics src n s = unsub_dec_topics src (n - int ?k - 1) ?s1"
      using False left_reslice [OF l] by (simp add: unsub_dec_topics.simps [of src n s])
    then show ?thesis
      using Cons.IH [OF _ l1, of "n - int ?k - 1"] Cons.prems(1,3) False by (simp add: add.assoc)
  qed
qed

text \<open>What is seen is the shortest prefix whose rest is no longer than the prefix has filters.\<close>

lemma filters_seen_prefix:
  assumes "n = int (length (topic_bytes ts)) - int d" and "list_all (\<lambda>t. t \<noteq> []) ts"
  shows "\<exists>k \<le> length ts. filters_seen n ts = take k ts \<and> length (topic_bytes (drop k ts)) \<le> d + k
    \<and> (\<forall>j < k. d + j < length (topic_bytes (drop j ts)))"
  using assms
proof (induction ts arbitrary: n d)
  case (Cons t ts)
  show ?case
  proof (cases "n \<le> 0")
    case True
    then show ?thesis
      using Cons.prems by (intro exI [of _ 0]) simp
  next
    case False
    have "n - int (2 + length t) - 1 = int (length (topic_bytes ts)) - int (Suc d)"
      using Cons.prems(1) by simp
    then obtain k where k: "k \<le> length ts" "filters_seen (n - int (2 + length t) - 1) ts = take k ts"
      "length (topic_bytes (drop k ts)) \<le> Suc d + k" "\<forall>j < k. Suc d + j < length (topic_bytes (drop j ts))"
      using Cons.IH [of "n - int (2 + length t) - 1" "Suc d"] Cons.prems(2) by auto
    have "\<forall>j < Suc k. d + j < length (topic_bytes (drop j (t # ts)))"
    proof (intro allI impI)
      fix j assume "j < Suc k"
      then show "d + j < length (topic_bytes (drop j (t # ts)))"
        using k(4) Cons.prems(1) False by (cases j) auto
    qed
    then show ?thesis
      using k False by (intro exI [of _ "Suc k"]) simp
  qed
qed simp

lemma filters_seen_Nil: "0 < n \<Longrightarrow> filters_seen n ts = [] \<longleftrightarrow> ts = []"
  by (cases ts) simp_all

definition unsubscribe_decoded :: "bytes \<Rightarrow> unsubscribe \<Rightarrow> unsubscribe" where
  "unsubscribe_decoded raw m = unsubscribe_built m\<lparr>dbuf := raw, userProperty := up_pad (userProperty m),
     topics := filters_seen (int (length (topic_bytes (topics m)))) (topics m), dirty := False\<rparr>"

lemma NewUnsubscribe_type: "Type NewUnsubscribeMessage = UNSUBSCRIBE"
  by (simp add: NewUnsubscribeMessage_def new_header_def header.defs Type_def first_byte_def DefaultFlags_def mtype_of_def)

lemma unsubscribe_Decode_bytes:
  assumes ok: "unsubscribe_ok m" and plain: "unsubscribe_plain m" and v: "vis src = frame m (unsubscribe_body m)"
  shows "\<exists>t. unsubscribe_Decode src NewUnsubscribeMessage = Go t \<and> d_msg t = unsubscribe_decoded (vis src) m"
proof -
  let ?b = "length (unsubscribe_body m)" and ?u = "userProperty m" and ?ts = "topics m"
  let ?p = "length (up_bytes ?u)"
  let ?hn = "Suc (length (varint ?b))"
  define m0 where "m0 = NewUnsubscribeMessage\<lparr>dbuf := vis src, mtf := mtf m, remlen := word_of_nat ?b\<rparr>"
  define m1 where "m1 = m0\<lparr>packetId := packetId m, propertyLen := word_of_nat ?p, userProperty := up_pad ?u\<rparr>"
  let ?s0 = "\<lparr>d_hn = ?hn, d_tot = ?hn, d_msg = m0\<rparr>"
  let ?s1 = "?s0\<lparr>d_tot := ?hn + 2, d_msg := m0\<lparr>packetId := packetId m\<rparr>\<rparr>"
  let ?s2 = "?s1\<lparr>d_tot := d_tot ?s1 + length (varint ?p), d_msg := (d_msg ?s1)\<lparr>propertyLen := word_of_nat ?p\<rparr>\<rparr>"
  let ?s3 = "?s2\<lparr>d_tot := d_tot ?s2 + ?p, d_msg := m1\<rparr>"
  have o: "Type m = UNSUBSCRIBE" "flags_ok (mtf m)" "length (packetId m) = 2" "?ts \<noteq> []"
      "list_all (\<lambda>t. t \<noteq> []) ?ts" "list_all (\<lambda>t. length t \<le> 65535) ?ts" "strs_ok ?u"
    using ok by (auto simp: unsubscribe_ok_def list_all_iff)
  note z = unsubscribe_sizes [OF ok]
  obtain t ts where ts: "?ts = t # ts" "t \<noteq> []"
    using o(4,5) by (cases ?ts) simp_all
  then have tb: "length (topic_bytes ?ts) \<ge> 3"
    by (cases t) simp_all
  have vne: "length (varint (buildUserPropertyLen ?u)) \<ge> 1"
    by (simp add: Suc_le_eq)
  have bd: "unsubscribe_body m = packetId m @ varint ?p @ up_bytes ?u @ topic_bytes ?ts"
    by (simp add: unsubscribe_body_def)
  have vs: "vis src = mtf m # varint ?b @ unsubscribe_body m"
    by (simp add: v frame_def)
  have h: "dec_header src (dstart NewUnsubscribeMessage) = Go ?s0" and l0: "left src (d_tot ?s0) (unsubscribe_body m)"
    using dec_header_rt [OF vs z(2) refl o(2), of NewUnsubscribeMessage] o(1,3) NewUnsubscribe_type
    by (simp_all add: m0_def Type_def bd)
  have l0': "left src (d_tot ?s0) (packetId m @ (varint ?p @ up_bytes ?u @ topic_bytes ?ts))"
    using l0 by (simp only: bd)
  have a: "dec_packetId src ?s0 = Go ?s1"
    using dec_packetId_rt [OF l0' o(3)] by simp
  have l1: "left src (d_tot ?s1) (varint ?p @ up_bytes ?u @ topic_bytes ?ts)"
    using left_advance [OF l0'] o(3) by simp
  have "length (vis src) - d_tot ?s1 \<ge> 4 \<and> d_tot ?s1 < length (vis src)"
    using tb o(3) vne by (simp add: vs bd)
  then have b: "unsub_dec_plen src ?s1 = Go ?s2"
    using dec_lb_rt [OF l1 z(1), where upd = "\<lambda>v m. m\<lparr>propertyLen := v\<rparr>" and h = ret_total]
    by (simp add: unsub_dec_plen_def)
  have l2: "left src (d_tot ?s2) (up_bytes ?u @ topic_bytes ?ts)"
    using left_advance [OF l1] by simp
  have "starts_not (topic_bytes ?ts) UserProperty"
    using plain ts by (simp add: unsubscribe_plain_def)
  from dec_userProperty_rt [OF l2 o(7) this]
  have c: "dec_userProperty src (\<lambda>v m. m\<lparr>userProperty := v\<rparr>) ?s2 = Go ?s3"
    by (simp add: m1_def)
  have l3: "left src (d_tot ?s3) (topic_bytes ?ts @ [])"
    using left_advance [OF l2] by simp
  have n: "uint (remlen (d_msg ?s3)) - (int (d_tot ?s3) - int (d_hn ?s3)) = int (length (topic_bytes ?ts))"
    using plen_ok(2) [OF z(2)] o(3) by (simp add: m1_def m0_def uint_nat bd del: length_up_bytes)
  let ?fs = "filters_seen (int (length (topic_bytes ?ts))) ?ts"
  have d: "unsub_dec_topics src (uint (remlen (d_msg ?s3)) - (int (d_tot ?s3) - int (d_hn ?s3))) ?s3
    = Go (?s3\<lparr>d_tot := d_tot ?s3 + length (topic_bytes ?fs), d_msg := m1\<lparr>topics := ?fs\<rparr>\<rparr>)"
    unfolding n using unsub_dec_topics_rt [OF o(6) l3 order_refl]
    by (simp add: m1_def m0_def NewUnsubscribeMessage_def header.defs)
  have "?fs \<noteq> []"
    using tb o(4) by (subst filters_seen_Nil) auto
  moreover have "m1\<lparr>topics := ?fs, dirty := False\<rparr> = unsubscribe_decoded (vis src) m"
    by (simp add: unsubscribe_decoded_def unsubscribe_built_def m1_def m0_def NewUnsubscribeMessage_def new_header_def
        header.defs del: length_up_bytes)
  ultimately show ?thesis
    unfolding unsubscribe_Decode_def steps.simps h andthen.simps a b c d by (simp add: dec_set_def)
qed

section \<open>The packet\<close>

definition four_filters :: unsubscribe where
  "four_filters = NewUnsubscribeMessage\<lparr>packetId := [0, 7], topics := [[0x61], [0x62], [0x63], [0x64]]\<rparr>"

lemma four_filters_ok: "unsubscribe_ok four_filters" "dirty four_filters" "unsubscribe_plain four_filters"
  by code_simp+

text \<open>C29: UNSUBSCRIBE loses filters. The message has at least one filter, no empty one, a packet identifier
  that is not 0, strings of at most 65535 bytes and a body below 2^28; it has been changed since it was last encoded
  or decoded; and its first filter is not 9728 to 9983 bytes long, because the decoder would take the high byte of
  that length for a user property. Then the two encoders produce the same bytes, but \<open>Decode\<close> counts one
  byte more per filter than it reads and so sees only a prefix of the filters, the shortest one whose remainder is
  encoded in no more bytes than the prefix has filters. With at most three filters that is all of them; filters behind
  are dropped without an error. The packet identifier survives, and the user properties do, except that a list of odd
  length gains an empty value.\<close>

theorem unsubscribe_drops_filters:
  assumes "unsubscribe_ok m" and "dirty m" and "unsubscribe_plain m"
  shows "\<exists>s t k. unsubscribe_EncodeToBuf \<lparr>b_buf = [], b_msg = m, b_gpid = g\<rparr> = Go s
    \<and> unsubscribe_Encode \<lparr>e_dst = b_buf s, e_tot = 0, e_msg = m, e_gpid = g\<rparr> =
        Go \<lparr>e_dst = b_buf s, e_tot = length (b_buf s), e_msg = b_msg s, e_gpid = g\<rparr>
    \<and> unsubscribe_Decode (GSlice (b_buf s) sp) NewUnsubscribeMessage = Go t
    \<and> packetId (d_msg t) = packetId m \<and> userProperty (d_msg t) = up_pad (userProperty m)
    \<and> topics (d_msg t) = take k (topics m) \<and> k \<le> length (topics m)
    \<and> length (topic_bytes (drop k (topics m))) \<le> k
    \<and> (\<forall>j < k. j < length (topic_bytes (drop j (topics m))))
    \<and> (length (topics m) \<le> 3 \<longrightarrow> topics (d_msg t) = topics m)"
proof -
  let ?ts = "topics m"
  obtain s where s: "unsubscribe_EncodeToBuf \<lparr>b_buf = [], b_msg = m, b_gpid = g\<rparr> = Go s"
    "b_buf s = frame m (unsubscribe_body m)"
    using us.encoders_agree [OF assms(1,2)] by blast
  have e: "unsubscribe_Encode \<lparr>e_dst = b_buf s, e_tot = 0, e_msg = m, e_gpid = g\<rparr> =
        Go \<lparr>e_dst = b_buf s, e_tot = length (b_buf s), e_msg = b_msg s, e_gpid = g\<rparr>"
    using us.encoders_agree [OF assms(1,2), of g "b_buf s"] s(1) by auto
  obtain t where t: "unsubscribe_Decode (GSlice (b_buf s) sp) NewUnsubscribeMessage = Go t"
    "d_msg t = unsubscribe_decoded (b_buf s) m"
    using unsubscribe_Decode_bytes [OF assms(1,3), of "GSlice (b_buf s) sp"] s(2) by auto
  have ne: "list_all (\<lambda>t. t \<noteq> []) ?ts"
    using assms(1) by (auto simp: unsubscribe_ok_def list_all_iff)
  obtain k where k: "k \<le> length ?ts" "filters_seen (int (length (topic_bytes ?ts))) ?ts = take k ?ts"
    "length (topic_bytes (drop k ?ts)) \<le> k" "\<forall>j < k. j < length (topic_bytes (drop j ?ts))"
    using filters_seen_prefix [of _ ?ts 0, OF _ ne] by auto
  have "take k ?ts = ?ts" if "length ?ts \<le> 3"
  proof (rule ccontr)
    assume "take k ?ts \<noteq> ?ts"
    then have "k < length ?ts"
      using k(1) by (metis le_neq_implies_less take_all_iff order_refl)
    then have "drop k ?ts = ?ts ! k # drop (Suc k) ?ts" "?ts ! k \<noteq> []"
      using ne by (simp_all add: Cons_nth_drop_Suc list_all_length)
    then have "length (topic_bytes (drop k ?ts)) \<ge> 3"
      by (cases "?ts ! k") simp_all
    then show False
      using k(3) \<open>k < length ?ts\<close> that by simp
  qed
  then show ?thesis
    using s(1) e t k by (intro exI [of _ s] exI [of _ t] exI [of _ k])
      (simp add: unsubscribe_decoded_def)
qed

theorem unsubscribe_drops_filters_witness:
  "\<exists>s t. unsubscribe_EncodeToBuf \<lparr>b_buf = [], b_msg = four_filters, b_gpid = 0\<rparr> = Go s
    \<and> unsubscribe_Decode (GSlice (b_buf s) []) NewUnsubscribeMessage = Go t
    \<and> topics (d_msg t) = [[0x61], [0x62], [0x63]]"
proof -
  have ts: "topics four_filters = [[0x61], [0x62], [0x63], [0x64]]"
    by (simp add: four_filters_def)
  obtain s t k where st: "unsubscribe_EncodeToBuf \<lparr>b_buf = [], b_msg = four_filters, b_gpid = 0\<rparr> = Go s"
    "unsubscribe_Decode (GSlice (b_buf s) []) NewUnsubscribeMessage = Go t" "topics (d_msg t) = take k (topics four_filters)"
    "k \<le> 4" "length (topic_bytes (drop k (topics four_filters))) \<le> k"
    "\<forall>j < k. j < length (topic_bytes (drop j (topics four_filters)))"
    using unsubscribe_drops_filters [OF four_filters_ok, of 0 "[]"] ts by auto
  have "k \<noteq> 0" "k \<noteq> 1" "k \<noteq> 2" "k \<noteq> 4"
    using st(5) spec [OF st(6), of 3] by (intro notI; simp add: ts)+
  then have "k = 3"
    using st(4) by auto
  then show ?thesis
    using st(1-3) ts by auto
qed

end
