(* ===== verification/Spec2Isabelle.thy ===== *)
theory Spec2Isabelle
  imports ConfigUse Proxy DelayedWills CoreLoops Serving ClientSide DefaultAuth ReasonCodes ConnectRT ConnackRT DisconnectRT Auth SubscribeRT SubackRT UnsubscribeRT PublishRT Puback Ping AckQueue PacketIds Topics SessionStore "HOL-Library.Code_Target_Nat"
begin

text \<open>
  A verification development for gmqtt, an MQTT 5 broker in Go. The theories translate the broker from its source
  under src/ and prove what the parts do, one by one and together.

  \<^bold>\<open>The program.\<close> A packet passes through the following parts. The server (broker/core/service/v1/server.go)
  accepts a connection, reads the CONNECT from the bare socket (misc.go), checks and authenticates it
  (broker/impl/auth), finds or makes the session (broker/impl/session) and starts a service. A service has a core
  (operator.go) with two ring buffers (buffer.go) and three goroutines: the receiver fills the input ring from the
  socket, the processor (process.go) takes packets out of it and handles them, and the sender empties the output
  ring into the socket. Handling a packet changes the acknowledgement queues of the session (mem_ackqueue.go), the
  packet identifiers (util/pkid), the send quota (pipiline.go), the subscription trees (broker/impl/topic), the stores
  (broker/impl/store), and writes into the output rings of the client and of the subscribers. Wills go through the
  table of delayed tasks (util/cron).

  \<^bold>\<open>How the code is translated.\<close> A struct is a record with its fields, a packet type has its theory, a method
  is a definition with the receiver as an argument and as a result when it changes. Machine integers are words;
  positions of the rings and counters that the code keeps in int64 and cannot overflow in practice are integers.
  Strings and slices are byte lists; a slice that is decoded is a \<open>gslice\<close>, its visible bytes and those behind
  it up to its capacity, because one helper reads past the end. A result of the codec is \<open>Go\<close>, \<open>Fail\<close> with
  the error and the state that the code leaves, or \<open>Panic\<close> (Prelude). An operation that can block is of type
  \<open>outcome\<close> (RingBuffer): it returns, waits on a condition, is locked on a mutex it will not get, panics or
  loops. The broker's global state is the record \<open>world\<close> (Service), services and sessions are numbers that point
  into it, and an operation is a function from a world to a world and an outcome. Pointers that are shared, of a
  session, a service or a message, stay pointers. What a goroutine does between two blocking calls is one step;
  runs of goroutines are inductive step relations (RingFlow, CoreLoops, Serving, BrokerRuns, Proxy). Go maps whose
  order matters take the order as an argument or are lists in the order of insertion.

  \<^bold>\<open>Theories.\<close>
  \<^item> Prelude, MsgTypes, Wire, Header, Decode, Encode, EncodeSlice, PropForms, PacketFrame, Message: the codec
    (broker/core/message: message.go, util.go, header.go, identifier.go), its primitive readers and writers, the
    three forms of a step that the packet types are written with, and the interface \<open>Message\<close>. The locales
    \<open>packet_format\<close> and \<open>packet_encoders\<close> hold what the packets share: steps that append the chunks of the
    layout make \<open>EncodeToBuf\<close> append the packet, and steps that write them make \<open>Encode\<close> leave it in the slice.
  \<^item> Publish, Puback, Ping, Connect, Connack, Disconnect, Auth, Subscribe, Suback, Unsubscribe: the packets, each
    with its record, setters, \<open>build\<close>, \<open>Len\<close>, both encoders and the decoder. The theories ending in RT prove
    the round trips, that the encoders agree, and where the decoders are wrong.
  \<^item> ReasonCodes: the codes as error values and their descriptions.
  \<^item> RingBuffer, RingFlow, GCore, GCoreProps, CoreLoops: the ring as operations that return or sleep, the
    interleavings of a producer, a consumer and \<open>Close\<close>, the framing of packets on it, the loops of the receiver
    and the sender. The locale \<open>space_wait\<close> is the contract of waiting for room that both forms of the wait fulfil.
  \<^item> PowerOfTwo, AckQueue, SafeMap, PacketIds, MessageStore, SessionStore: the containers and the stores. The locale
    \<open>machine_refinement\<close> says when a machine implements a specification step by step; it is interpreted for the
    queue (a list of entries), the map (a function) and the session store (a record of functions); \<open>id_allocator\<close>
    is the contract of the identifiers.
  \<^item> TopicTree, LevelTree, Retained, SysTopics, ShareTopics, Topics: the trees, each against a table from filters to
    subscribers and the matching relation \<open>mqtt_match\<close> of the protocol, and the manager that routes between them.
  \<^item> Quota, Session, Service, Process, Lifecycle, Server, Serving, ClientSide, DefaultAuth: the broker proper, in the
    order of its calls: sending to one subscriber and to all (Service), the handlers (Process), the dispatch, the
    turns of the processor, start, stop and delayed tasks (Lifecycle), the handshake and the shutdown (Server), the
    accept loop and the task group (Serving).
  \<^item> WorldRel: relations on worlds that every operation of the broker keeps, a locale with the laws of the primitive
    operations, from which they follow for all handlers; interpreted for the flags of the map and the listener, for
    the packet identifiers of every service and for the jobs nobody can cancel.
  \<^item> BrokerProps, SessionProps, Delivery, BrokerRuns, QosTwo, DelayedWills: properties of the whole broker.
  \<^item> Config, ConfigUse, Proxy: the configuration (broker/gcfg) with the bounds the server may rely on, the command
    line and the websocket proxy (cli).

  \<^bold>\<open>What is shown.\<close> The codec: every packet type that is sent survives encoding and decoding, with the exact
  bounds under which it does and the exceptions stated as theorems. The ring: in every interleaving bytes come out as
  they went in. The containers refine their specifications on every sequence of operations. The trees deliver to
  exactly the matching subscribers, for filters and names without empty levels. The broker, for subscriptions of QoS
  0: a QoS 0 publish reaches every subscriber's output ring with the bytes its subscription asks for, and a QoS 2
  handshake with any repetitions delivers once. The messages in flight stay within the client's quota; packet
  identifiers in use are distinct. Where the code does not do what it means to, the theorem states what it does: a
  refused password lets the client in, \<open>Shutdown\<close> does not return with a client connected, a clean start keeps the
  stored session, publishing to a stopped subscriber panics, a client that does not acknowledge stops its
  publishers, a filter with a leading slash matches any first level, and others.

  \<^bold>\<open>Bounds and termination.\<close> There is no fuel. Functions recurse on their data or on a measure with a proof: the
  tree walks on the size of the tree, the parsers on the bytes that are left, the loops of the ring on the distance to
  the end. The copy loop of the ring, which ends only on a ring in order, is a \<open>partial_function (option)\<close> and is
  proved to end there. Loops over a connection run over the list of its answers, and when the list is used up they
  are waiting. The round trips assume lengths the wire format can express and values the encoder accepts, the predicates
  ending in \<open>_ok\<close>, and that no byte behind the properties is taken for one, the predicates ending in \<open>_plain\<close>; each
  has a sample message. The witnesses run the theorems on concrete rings of 4 to 2048 bytes,
  trees, packets and a world of two clients.

  \<^bold>\<open>Not modelled.\<close> Logging and printing; the packages under util that wrap third-party pools, reflection and cron
  parsing; the stubs of the cluster, of the delay and metrics modules and of the second service interface, which do
  nothing; the HTTP server behind the websocket proxy; time, except as an argument where the code reads the
  clock. Third-party code appears as parameters: the rate limiter, the TOML reader, the URL parser, the
  authenticator's verifiers, the random choice in a shared group. Data races between goroutines beyond the shared
  rings and locks are not modelled: a step of one goroutine is atomic. The buffer \<open>dbuf\<close> of a decoded
  message is a slice of the input ring in the code and a list of bytes that stay in the model, so that the receiver
  can overwrite it while the message is in use is not modelled either.
\<close>

section \<open>The packet codec\<close>

definition sample_publish :: publish where
  "sample_publish = NewPublishMessage\<lparr>mtf := 0x32, topic := [0x61, 0x2F, 0x62], packetId := [0, 7],
     messageExpiryInterval := 60, publish.userProperty := [[0x6B], [0x76]], payload := [0x68, 0x69]\<rparr>"

lemma sample_ok: "publish_ok sample_publish" "dirty sample_publish" "payload_plain sample_publish"
  by code_simp+

text \<open>C1: round trip of PUBLISH. The message is one that the encoder accepts and that fits a packet: a QoS of at
  most 2, a topic name without wildcards, not empty unless there is a topic alias, strings of at most 65535 bytes, a
  packet identifier that is not 0 for QoS 1 and 2, a body below 2^28 bytes, and a payload that is not empty, since the
  encoder refuses an empty one; it has been changed since it was last encoded or decoded; and its payload does not
  begin with the identifier of a PUBLISH property (0x01, 0x02, 0x03, 0x08, 0x09, 0x0B, \<open>#\<close> and
  \<open>&\<close>), which the decoder would take for that property. Then \<open>EncodeToBuf\<close> succeeds, and
  \<open>Decode\<close> reads the whole buffer back, whatever capacity lies behind it, into a message with the same
  flags, topic, packet identifier, payload and properties, up to two: a subscription identifier of 168435455 or more
  is not written and comes back as 0, and a user property list of odd length gains an empty value.\<close>

theorem publish_roundtrip:
  assumes "publish_ok m" and "dirty m" and "payload_plain m"
  shows "\<exists>s t. publish_EncodeToBuf \<lparr>b_buf = [], b_msg = m, b_gpid = g\<rparr> = Go s
    \<and> publish_Decode (GSlice (b_buf s) sp) NewPublishMessage = Go t
    \<and> d_tot t = length (b_buf s) \<and> mtf (d_msg t) = mtf m \<and> topic (d_msg t) = topic m
    \<and> (QoS m \<noteq> 0 \<longrightarrow> packetId (d_msg t) = packetId m)
    \<and> payloadFormatIndicator (d_msg t) = payloadFormatIndicator m
    \<and> messageExpiryInterval (d_msg t) = messageExpiryInterval m \<and> topicAlias (d_msg t) = topicAlias m
    \<and> responseTopic (d_msg t) = responseTopic m \<and> correlationData (d_msg t) = correlationData m
    \<and> publish.userProperty (d_msg t) = up_pad (publish.userProperty m)
    \<and> subscriptionIdentifier (d_msg t) = (if subid_written m then subscriptionIdentifier m else 0)
    \<and> contentType (d_msg t) = contentType m \<and> payload (d_msg t) = payload m \<and> \<not> dirty (d_msg t)"
  using assms publish_EncodeToBuf_bytes [of "\<lparr>b_buf = [], b_msg = m, b_gpid = g\<rparr>"]
    publish_Decode_bytes [of m "GSlice (publish_bytes m) sp"]
  by (simp add: decoded_def)

theorem publish_roundtrip_witness:
  "\<exists>s t. publish_EncodeToBuf \<lparr>b_buf = [], b_msg = sample_publish, b_gpid = 0\<rparr> = Go s
    \<and> publish_Decode (GSlice (b_buf s) [0x26]) NewPublishMessage = Go t
    \<and> topic (d_msg t) = [0x61, 0x2F, 0x62] \<and> payload (d_msg t) = [0x68, 0x69]"
  using publish_roundtrip [OF sample_ok, of 0 "[0x26]"] by (auto simp: sample_publish_def)

text \<open>The two PUBLISH encoders agree. \<open>Encode\<close> into a slice writes at its start exactly the bytes
  that \<open>EncodeToBuf\<close> appends to a buffer and leaves the rest of the slice alone, both leave the same
  message behind, and \<open>Encode\<close> refuses exactly the slices that are shorter than those bytes.\<close>

theorem publish_encoders_agree:
  assumes "publish_ok m" and "dirty m"
  shows "\<exists>s. publish_EncodeToBuf \<lparr>b_buf = [], b_msg = m, b_gpid = g\<rparr> = Go s
    \<and> publish_Encode \<lparr>e_dst = d, e_tot = 0, e_msg = m, e_gpid = g\<rparr> =
      (if length d < length (b_buf s)
       then Fail 0 (Errorf ''publish/Encode: Insufficient buffer size'')
         \<lparr>e_dst = d, e_tot = 0, e_msg = b_msg s, e_gpid = g\<rparr>
       else Go \<lparr>e_dst = b_buf s @ drop (length (b_buf s)) d, e_tot = length (b_buf s),
         e_msg = b_msg s, e_gpid = g\<rparr>)"
  using assms publish_EncodeToBuf_bytes [of "\<lparr>b_buf = [], b_msg = m, b_gpid = g\<rparr>"]
    publish_Encode_bytes [of "\<lparr>e_dst = d, e_tot = 0, e_msg = m, e_gpid = g\<rparr>"]
  by (simp add: blit_fits not_less)

theorem publish_encoders_agree_witness:
  "\<exists>s. publish_EncodeToBuf \<lparr>b_buf = [], b_msg = sample_publish, b_gpid = 0\<rparr> = Go s
    \<and> publish_Encode \<lparr>e_dst = replicate 64 1, e_tot = 0, e_msg = sample_publish, e_gpid = 0\<rparr> =
      (if 64 < length (b_buf s)
       then Fail 0 (Errorf ''publish/Encode: Insufficient buffer size'')
         \<lparr>e_dst = replicate 64 1, e_tot = 0, e_msg = b_msg s, e_gpid = 0\<rparr>
       else Go \<lparr>e_dst = b_buf s @ drop (length (b_buf s)) (replicate 64 1), e_tot = length (b_buf s),
         e_msg = b_msg s, e_gpid = 0\<rparr>)"
  using publish_encoders_agree [OF sample_ok(1,2), of 0 "replicate 64 1"] by (simp only: length_replicate)

definition sneaky :: publish where
  "sneaky = NewPublishMessage\<lparr>topic := [0x61], payload := [0x03, 0, 1, 0x41]\<rparr>"

text \<open>The decoder does not stop at the property length, so a valid PUBLISH whose payload happens to
  start like a property is decoded into another message: here the payload \<open>03 00 01 41\<close> is taken
  as the content type \<open>A\<close> and the payload is empty.\<close>

theorem publish_payload_misread:
  "\<exists>s' t. publish_EncodeToBuf \<lparr>b_buf = [], b_msg = sneaky, b_gpid = 0\<rparr> = Go s' \<and>
     publish_Decode (exact (b_buf s')) NewPublishMessage = Go t \<and>
     payload sneaky = [0x03, 0, 1, 0x41] \<and> contentType sneaky = [] \<and>
     payload (d_msg t) = [] \<and> contentType (d_msg t) = [0x41]"
proof -
  let ?s = "\<lparr>b_buf = [], b_msg = sneaky, b_gpid = 0\<rparr>"
  have "case publish_EncodeToBuf ?s of Go s' \<Rightarrow> b_buf s' = [0x30, 8, 0, 1, 0x61, 0, 3, 0, 1, 0x41] | _ \<Rightarrow> False"
    by code_simp
  moreover have "case publish_Decode (exact [0x30, 8, 0, 1, 0x61, 0, 3, 0, 1, 0x41]) NewPublishMessage of
        Go t \<Rightarrow> payload (d_msg t) = [] \<and> contentType (d_msg t) = [0x41] | _ \<Rightarrow> False"
    by code_simp
  ultimately show ?thesis
    by (auto simp: sneaky_def NewPublishMessage_def header.defs split: out.splits)
qed

definition sample_ack :: puback where
  "sample_ack = NewPubackMessage\<lparr>packetId := [0, 9], reasonCode := 0x10, reasonStr := [0x6E, 0x6F],
     puback.userProperty := [[0x6B]]\<rparr>"

lemma sample_ack_ok: "ack_ok ValidPubAckReasonCode sample_ack" "ack_followed sample_ack" "dirty sample_ack"
  by code_simp+

text \<open>C26: round trip of the acknowledgements. For PUBACK, PUBREC, PUBREL and PUBCOMP alike (their
  decoders differ in the valid reason codes), a message within bounds whose reason string, if
  there is one, is followed by a user property is encoded without error and decoded back with its
  packet identifier, reason code, reason string and user properties, of which a list of odd length
  gains an empty value.\<close>

theorem ack_roundtrip:
  assumes "ack_ok valid m" and "dirty m" and "ack_followed m"
  shows "\<exists>s t. puback_EncodeToBuf \<lparr>b_buf = [], b_msg = m, b_gpid = g\<rparr> = Go s
    \<and> ack_Decode valid (GSlice (b_buf s) sp) (new_ack (Type m)) = Go t \<and> d_tot t = length (b_buf s)
    \<and> mtf (d_msg t) = mtf m \<and> packetId (d_msg t) = packetId m \<and> reasonCode (d_msg t) = reasonCode m
    \<and> reasonStr (d_msg t) = reasonStr m \<and> puback.userProperty (d_msg t) = up_pad (puback.userProperty m)"
proof -
  have "Type m \<noteq> RESERVED2"
    using assms(1) by (auto simp: ack_ok_def flags_ok_def Type_def Let_def)
  then have "Type (new_ack (Type m)) = Type m"
    by (simp add: new_ack_def new_header_def header.defs Type_def)
  then show ?thesis
    using assms puback_EncodeToBuf_bytes [of valid "\<lparr>b_buf = [], b_msg = m, b_gpid = g\<rparr>"]
      ack_Decode_bytes [OF assms(1,3), of "GSlice (ack_bytes m) sp" "new_ack (Type m)"]
    by (auto simp: ack_decoded_def new_ack_def new_header_def header.defs)
qed

theorem ack_roundtrip_witness:
  "\<exists>s t. puback_EncodeToBuf \<lparr>b_buf = [], b_msg = sample_ack, b_gpid = 0\<rparr> = Go s
    \<and> ack_Decode ValidPubAckReasonCode (GSlice (b_buf s) []) (new_ack (Type sample_ack)) = Go t
    \<and> reasonCode (d_msg t) = 0x10 \<and> puback.userProperty (d_msg t) = [[0x6B], []]"
  using ack_roundtrip [OF sample_ack_ok(1,3,2), of 0 "[]"] by (auto simp: sample_ack_def)

text \<open>Without that user property the decoder panics. It looks for a repeated reason string at
  \<open>src[total]\<close> with no bounds test, so every acknowledgement that the encoder produces with a
  reason string and no user property makes it index past the packet.\<close>

theorem ack_reason_string_panics:
  assumes "ack_ok valid m" and "dirty m" and "reasonStr m \<noteq> []" and "puback.userProperty m = []"
  shows "\<exists>s. puback_EncodeToBuf \<lparr>b_buf = [], b_msg = m, b_gpid = g\<rparr> = Go s
    \<and> ack_Decode valid (GSlice (b_buf s) sp) (new_ack (Type m)) = Panic"
proof -
  have "Type m \<noteq> RESERVED2"
    using assms(1) by (auto simp: ack_ok_def flags_ok_def Type_def Let_def)
  then have "Type (new_ack (Type m)) = Type m"
    by (simp add: new_ack_def new_header_def header.defs Type_def)
  then show ?thesis
    using assms puback_EncodeToBuf_bytes [of valid "\<lparr>b_buf = [], b_msg = m, b_gpid = g\<rparr>"]
      ack_Decode_panics [OF assms(1,3,4), of "GSlice (ack_bytes m) sp" "new_ack (Type m)"]
    by simp
qed

theorem ack_reason_string_panics_witness:
  "\<exists>s. puback_EncodeToBuf \<lparr>b_buf = [], b_msg = sample_ack\<lparr>puback.userProperty := []\<rparr>, b_gpid = 0\<rparr> = Go s
    \<and> ack_Decode ValidPubAckReasonCode (GSlice (b_buf s) [])
        (new_ack (Type (sample_ack\<lparr>puback.userProperty := []\<rparr>))) = Panic"
proof -
  have "ack_ok ValidPubAckReasonCode (sample_ack\<lparr>puback.userProperty := []\<rparr>)"
    by code_simp
  from ack_reason_string_panics [OF this, of 0 "[]"] show ?thesis
    by (simp add: sample_ack_def NewPubackMessage_def new_ack_def new_header_def header.defs)
qed

text \<open>C39: variable length integers. \<open>lbEncode\<close> produces at most four bytes for every value below
  \<open>2 ^ 28\<close> and panics on the others; \<open>lbDecode\<close> reads the value back from them, whatever
  follows.\<close>

theorem varint_roundtrip:
  "(lbEncode x = None \<longleftrightarrow> 2 ^ 28 \<le> unat x)
   \<and> (lbEncode x = Some b \<longrightarrow> 1 \<le> length b \<and> length b \<le> 4 \<and> lbDecode (b @ r) = Some (x, length b, None))"
proof -
  have "length (varint (unat x)) \<le> 4" if "unat x < 2 ^ 28"
    using that length_varint_le [of "unat x" 3] by simp
  moreover have "1 \<le> length (varint (unat x))"
    by (simp add: Suc_le_eq)
  ultimately show ?thesis
    using lbDecode_varint [of "unat x" r] by (auto simp: lbEncode_varint)
qed

theorem varint_roundtrip_witness:
  "lbEncode 321 = Some [0xC1, 0x02] \<and> lbDecode [0xC1, 0x02, 0x26] = Some (321, 2, None)"
proof -
  have "lbEncode 321 = Some [0xC1, 0x02]"
    by code_simp
  then show ?thesis
    using varint_roundtrip [of 321 "[0xC1, 0x02]" "[0x26]"] by simp
qed

section \<open>The acknowledgement queue\<close>

text \<open>C15: refinement of the acknowledgement queue. From a new queue of any size between 1 and \<open>2 ^
  62\<close>, every sequence of \<open>Wait\<close>, \<open>Ack\<close> and \<open>Acked\<close> calls runs without a
  panic and has exactly the effects and results of the abstract machine: a list of waiting entries, oldest first, and
  a pending ping, whatever the ring's wrap-arounds and reallocations.\<close>

theorem ackqueue_refines:
  fixes xs :: "'oc aqop list"
  assumes "0 < unat n" and "unat n \<le> 2 ^ 62"
  shows "\<exists>aq0 aq os. newMemAckQueue n = Some aq0 \<and> run aq_step xs aq0 = Some (aq, os) \<and> aq_wf aq
    \<and> spec_run aq_spec xs (zeroAckmsg, []) = ((aq_ping aq, entries aq), os)"
proof -
  obtain aq0 :: "'oc ackqueue" where 0: "newMemAckQueue n = Some aq0" "aq_wf aq0" "entries aq0 = []"
      "aq_ping aq0 = zeroAckmsg"
    using new_ok [OF assms] by blast
  then show ?thesis
    using aq_run_ok [OF 0(2), of xs] by (auto simp: aq_abs_def)
qed

theorem ackqueue_refines_witness:
  "\<exists>aq0 aq os. newMemAckQueue 3 = Some aq0 \<and> run aq_step [OAcked] aq0 = Some (aq, os) \<and> aq_wf aq
    \<and> spec_run aq_spec [OAcked :: nat aqop] (zeroAckmsg, []) = ((aq_ping aq, entries aq), os)"
  using ackqueue_refines [of 3 "[OAcked]"] by simp

text \<open>No acknowledged message is lost, duplicated or reordered. In every run from an empty queue the
  packet identifiers that \<open>Acked\<close> has handed out, followed by those still waiting, are exactly the
  identifiers that \<open>Wait\<close> has taken in, in that order.\<close>

theorem ackqueue_fifo:
  fixes aq0 :: "'oc ackqueue"
  assumes "0 < unat n" and "unat n \<le> 2 ^ 62" and "newMemAckQueue n = Some aq0"
    and "run aq_step xs aq0 = Some (aq, os)"
  shows "out_ids os @ map Pktid (entries aq) = taken xs (zeroAckmsg, [])"
proof -
  have 0: "aq_wf aq0" "aq_abs aq0 = (zeroAckmsg, [])"
    using new_ok [OF assms(1,2), where 'a = 'oc] assms(3) by (auto simp: aq_abs_def)
  have "spec_run aq_spec xs (zeroAckmsg, []) = (aq_abs aq, os)"
    using aq_run_ok [OF 0(1), of xs] assms(4) by (simp add: 0(2))
  then show ?thesis
    using spec_run_ids [of xs "(zeroAckmsg, [])"] by (simp add: aq_abs_def)
qed

definition qos1 :: "uint16 \<Rightarrow> amsg" where
  "qos1 i = \<lparr>a_type = PUBLISH, a_pktid = i, a_qos = 1, a_dup = False, a_enc = ([0x32], None)\<rparr>"

definition acks :: "uint16 \<Rightarrow> amsg" where
  "acks i = \<lparr>a_type = PUBACK, a_pktid = i, a_qos = 0, a_dup = False, a_enc = ([0x40], None)\<rparr>"

definition sample_run :: "nat aqop list" where
  "sample_run = [OWait (qos1 5) 0, OWait (qos1 6) 0, OWait (qos1 7) 0, OAck (acks 6), OAcked, OAck (acks 5), OAcked]"

theorem ackqueue_fifo_witness:
  "\<exists>aq0 aq os. newMemAckQueue 2 = Some aq0 \<and> run aq_step sample_run aq0 = Some (aq, os)
    \<and> out_ids os @ map Pktid (entries aq) = [5, 6, 7] \<and> out_ids os = [5, 6]"
proof -
  have "case newMemAckQueue 2 of None \<Rightarrow> False | Some aq0 \<Rightarrow>
      (case run aq_step sample_run aq0 of None \<Rightarrow> False | Some (aq, os) \<Rightarrow> out_ids os = [5, 6])"
    by code_simp
  then obtain aq0 aq os where r: "newMemAckQueue 2 = Some aq0" "run aq_step sample_run aq0 = Some (aq, os)"
      "out_ids os = [5, 6]"
    by (auto split: option.splits)
  have "taken sample_run (zeroAckmsg, []) = [5, 6, 7]"
    by code_simp
  then show ?thesis
    using ackqueue_fifo [OF _ _ r(1,2)] r by auto
qed

text \<open>C30: head of the line. \<open>Acked\<close> releases the longest prefix of acknowledged entries and nothing
  behind it: an acknowledged message stays in the queue while an older one waits.\<close>

theorem acked_releases_prefix:
  assumes "aq_wf aq" and "Acked aq = (bq, out)"
  shows "map Pktid out = (if State (aq_ping aq) = PINGRESP then [Pktid (aq_ping aq)] else [])
      @ map Pktid (takeWhile (done_state \<circ> State) (entries aq))
    \<and> entries bq = drop (length (takeWhile (done_state \<circ> State) (entries aq))) (entries aq)
    \<and> (entries bq \<noteq> [] \<longrightarrow> \<not> done_state (State (hd (entries bq)))) \<and> aq_wf bq"
proof -
  have "entries bq = dropWhile (done_state \<circ> State) (entries aq)"
    using Acked_ok [OF assms(1)] assms(2) by simp
  then have "entries bq \<noteq> [] \<longrightarrow> \<not> done_state (State (hd (entries bq)))"
    using hd_dropWhile [of "done_state \<circ> State" "entries aq"] by (auto simp: comp_def)
  then show ?thesis
    using Acked_ok [OF assms(1)] assms(2) by (simp add: dropWhile_eq_drop)
qed

theorem acked_releases_prefix_witness:
  "\<exists>aq :: nat ackqueue. newMemAckQueue 2 = Some aq \<and> map Pktid (snd (Acked aq)) = []"
proof -
  obtain aq :: "nat ackqueue" where "newMemAckQueue 2 = Some aq" "aq_wf aq" "entries aq = []" "aq_ping aq = zeroAckmsg"
    using new_ok [of 2] by auto
  then show ?thesis
    using acked_releases_prefix [of aq "fst (Acked aq)" "snd (Acked aq)"] by (simp add: zeroAckmsg_def)
qed

text \<open>The ring sizes. For every positive size up to \<open>2 ^ 62\<close> the bit smearing of
  \<open>roundUpPowerOfTwo64\<close> gives the least power of two that is not below it, and the result passes
  \<open>powerOfTwo64\<close>.\<close>

theorem roundUp_least:
  assumes "0 < unat n" and "unat n \<le> 2 ^ 62"
  shows "powerOfTwo64 (roundUpPowerOfTwo64 n) \<and> unat n \<le> unat (roundUpPowerOfTwo64 n)
    \<and> (\<forall>k. unat n \<le> 2 ^ k \<longrightarrow> unat (roundUpPowerOfTwo64 n) \<le> 2 ^ k)"
proof -
  obtain k where k: "k \<le> 62" "unat (roundUpPowerOfTwo64 n) = 2 ^ k" "unat n \<le> 2 ^ k" "2 ^ k < 2 * unat n"
    using roundUp_correct [OF assms] by blast
  have "roundUpPowerOfTwo64 n = 2 ^ k"
    using unat_of_nat [of "2 ^ k", where ?'a = 64] k(1,2) power_strict_increasing [of k 64 "2 :: nat"]
    by (simp add: word_unat_eq_iff)
  then have "powerOfTwo64 (roundUpPowerOfTwo64 n)"
    using k(1) by (simp add: powerOfTwo64_iff)
  moreover have "2 ^ k \<le> (2 :: nat) ^ j" if "unat n \<le> 2 ^ j" for j
  proof -
    have "2 ^ k < (2 :: nat) ^ Suc j"
      using k(4) that by simp
    then show ?thesis
      by (simp only: power_strict_increasing_iff power_increasing_iff one_less_numeral_iff num.simps less_Suc_eq_le semiring_norm)
  qed
  ultimately show ?thesis
    using k by auto
qed

theorem roundUp_least_witness:
  "powerOfTwo64 (roundUpPowerOfTwo64 5) \<and> unat (roundUpPowerOfTwo64 5) \<le> 2 ^ 3"
proof -
  have "unat (5 :: int64) \<le> 2 ^ 3"
    by simp
  then show ?thesis
    using roundUp_least [of 5] by fastforce
qed

section \<open>The concurrent map\<close>

text \<open>C18: refinement of \<open>SafeMap\<close>. Every sequence of its operations on an empty map gives the results
  of a plain partial function, and the two internal maps never share a key, whatever migrations
  the deletion counters trigger.\<close>

theorem safemap_refines:
  "\<exists>m os. run sm_step xs NewSafeMap = Some (m, os) \<and> sm_wf m
    \<and> spec_run sm_spec xs Map.empty = (\<lambda>k. Get k m, os) \<and> Size m = card (dom (\<lambda>k. Get k m))"
  using sm.run_ok [OF NewSafeMap_ok(1), of xs] Size_abs by (fastforce simp: Get_abs [abs_def] NewSafeMap_ok(2))

text \<open>When \<open>GetOrSet\<close> returns with the lock held. The unlocked first look-up sees \<open>m1\<close>, the locked
  part sees \<open>m2\<close>. The call returns the stored value, or stores its own, as it should, but it leaves
  the map locked for ever exactly when another goroutine stored the key between the two look-ups.\<close>

theorem getorset_lock:
  assumes "sm_wf m2" and "GetOrSet k v m1 m2 = (m, x, found, unlocked)"
  shows "(\<not> unlocked \<longleftrightarrow> Get k m1 = None \<and> Get k m2 \<noteq> None)
    \<and> (found \<longleftrightarrow> Get k m1 \<noteq> None \<or> Get k m2 \<noteq> None)
    \<and> x = (case Get k m1 of Some y \<Rightarrow> y | None \<Rightarrow> (case Get k m2 of Some y \<Rightarrow> y | None \<Rightarrow> v))
    \<and> sm_wf m \<and> sm_abs m = (if found then sm_abs m2 else (sm_abs m2)(k \<mapsto> v))"
  using assms put_ok [OF assms(1), of k v]
  by (auto simp: GetOrSet_def Get_def split: option.splits if_splits)

theorem getorset_lock_witness:
  "case GetOrSet (1 :: nat) (7 :: nat) NewSafeMap (Set 1 5 NewSafeMap) of
     (m, x, found, unlocked) \<Rightarrow> x = 5 \<and> found \<and> \<not> unlocked"
proof -
  obtain m x found unlocked where
      r: "GetOrSet (1 :: nat) (7 :: nat) NewSafeMap (Set 1 5 NewSafeMap) = (m, x, found, unlocked)"
    by (cases "GetOrSet (1 :: nat) (7 :: nat) NewSafeMap (Set 1 5 NewSafeMap)") blast
  have "sm_wf (Set (1 :: nat) (5 :: nat) NewSafeMap)" "Get (1 :: nat) (NewSafeMap :: (nat, nat) safemap) = None"
      "Get 1 (Set (1 :: nat) (5 :: nat) NewSafeMap) = Some 5"
    by (simp_all add: Get_abs Set_ok NewSafeMap_ok)
  then show ?thesis
    using getorset_lock [OF _ r] r by simp
qed

section \<open>Packet identifiers\<close>

text \<open>Polling identifiers. On every reachable state of an open limiter \<open>PollPacketIDs\<close> returns: it
  blocks exactly when all identifiers up to the limit are in use, and otherwise hands out the
  requested number or as many as are free, all of them different, non-zero, within the limit and not
  in use, and marks them as used. In particular the scan for a free bit always ends.\<close>

theorem poll_fresh_ids:
  assumes "lim_wf p" and "\<not> exit p"
  shows "\<exists>r p'. PollPacketIDs mx p = Some (r, p') \<and> lim_wf p' \<and> (case r of
      Ids ids \<Rightarrow> card (inflight p) < unat (limit p)
        \<and> length ids = min (unat mx) (unat (limit p) - card (inflight p)) \<and> distinct ids
        \<and> set ids \<inter> inflight p = {} \<and> set ids \<subseteq> {i. i \<noteq> 0 \<and> i \<le> limit p}
        \<and> inflight p' = inflight p \<union> set ids
    | Blocked \<Rightarrow> card (inflight p) = unat (limit p) \<and> p' = p
    | Closed \<Rightarrow> False)"
proof (cases "card (inflight p) < unat (limit p)")
  case True
  then show ?thesis
    using PollPacketIDs_ok [OF assms(1) True assms(2), of mx] by (auto split: polled.splits)
next
  case False
  have u: "unat (used p) = card (inflight p)" "inflight p \<subseteq> {i. i \<noteq> 0 \<and> i \<le> limit p}"
    using assms(1) by (simp_all add: lim_wf_def)
  have "card (inflight p) \<le> unat (limit p)"
    using card_mono [OF finite u(2)] by (simp add: ids_card)
  then show ?thesis
    using False assms u(1) by (simp add: PollPacketIDs_def word_le_nat_alt)
qed

theorem poll_fresh_ids_witness:
  "\<exists>r p'. PollPacketIDs 2 (newPacketIDLimiter 10) = Some (r, p') \<and> lim_wf p'"
  using poll_fresh_ids [OF new_limiter_wf(1), of 10 2]
  by (auto simp: good_limit_def newPacketIDLimiter_def word_le_nat_alt)

text \<open>C16: for every sequence of polls and releases on a new limiter whose limit is not one of the six
  defective ones, the identifiers handed out and not yet released are pairwise distinct, non-zero and
  within the limit; nothing panics.\<close>

theorem outstanding_ids_distinct:
  assumes "good_limit l"
  shows "\<exists>p out. id_run lim_alloc Release ops (newPacketIDLimiter l, []) = Some (p, out)
    \<and> distinct out \<and> set out = inflight p \<and> set out \<subseteq> {i. i \<noteq> 0 \<and> i \<le> limit p} \<and> length out \<le> unat (limit p)"
proof -
  obtain p out where r: "id_run lim_alloc Release ops (newPacketIDLimiter l, []) = Some (p, out)" "lim_wf p"
      "distinct out" "set out = inflight p"
    using pool.run_distinct [OF new_limiter_wf(1) [OF assms], of "[]" ops] new_limiter_wf(2) [OF assms] by auto
  have s: "set out \<subseteq> {i. i \<noteq> 0 \<and> i \<le> limit p}"
    using r(2,4) by (simp add: lim_wf_def)
  have "length out \<le> unat (limit p)"
    using card_mono [OF finite s] distinct_card [OF r(3)] by (simp add: ids_card)
  then show ?thesis
    using r s by auto
qed

theorem outstanding_ids_distinct_witness:
  "\<exists>p out. id_run lim_alloc Release [Alloc 2, Free 1, Alloc 3] (newPacketIDLimiter 3, []) = Some (p, out) \<and> distinct out"
  using outstanding_ids_distinct [of 3 "[Alloc 2, Free 1, Alloc 3]"] by (auto simp: good_limit_def word_le_nat_alt)

text \<open>The defective limits. For a receive maximum from 65528 to 65533 the size of the bitmap wraps
  around to 0: after any poll on the new limiter, releasing an identifier has no effect, so the
  identifiers taken can never be given back and polling blocks once the limit is reached.\<close>

theorem large_limit_never_releases:
  assumes "65528 \<le> l" and "l \<le> 65533"
  shows "\<exists>r p. PollPacketIDs mx (newPacketIDLimiter l) = Some (r, p) \<and> (\<forall>i. i \<noteq> 0 \<longrightarrow> Release i p = Some p)"
proof -
  have l: "lockedPid (newPacketIDLimiter l) = \<lparr>bm_vals = [0], bm_size = 0\<rparr>"
    using small_bitmap [OF assms] by (simp add: newPacketIDLimiter_def)
  have "l \<noteq> 0"
    using assms(1) by auto
  then have n: "used (newPacketIDLimiter l) < limit (newPacketIDLimiter l)" "\<not> exit (newPacketIDLimiter l)"
      "freePid (newPacketIDLimiter l) \<noteq> 0" "freePid (newPacketIDLimiter l) \<le> limit (newPacketIDLimiter l)"
    using unat_ge_1 [of l] by (simp_all add: newPacketIDLimiter_def MinPacketID_def word_gt_0 word_le_nat_alt)
  obtain ids p where t: "take_ids k (newPacketIDLimiter l) = Some (ids, p)" "lockedPid p = \<lparr>bm_vals = [0], bm_size = 0\<rparr>"
    if "k = unat (if limit (newPacketIDLimiter l) - used (newPacketIDLimiter l) < mx
       then limit (newPacketIDLimiter l) - used (newPacketIDLimiter l) else mx)" for k
    using small_take_ids [OF l n(3,4)] l by metis
  then show ?thesis
    using n(1,2) small_bitmap_Release(1) [OF t(2)] by (auto simp: PollPacketIDs_def Let_def)
qed

theorem large_limit_never_releases_witness:
  "\<exists>r p. PollPacketIDs 3 (newPacketIDLimiter 65530) = Some (r, p) \<and> Release 1 p = Some p"
  using large_limit_never_releases [of 65530 3] by (auto simp: word_le_nat_alt)

section \<open>Topics\<close>

lemma tree_lookup:
  assumes "\<forall>x \<in> set xs. filter_ok (op_filter x)" and "topic_ok ts"
  shows "snd (smatch (join_levels ts) q (fold tree_apply xs newSNode)) = None
    \<and> ((c, s') \<in> set (fst (smatch (join_levels ts) q (fold tree_apply xs newSNode)))
       \<longleftrightarrow> (\<exists>fs s. mqtt_match fs ts \<and> fold table_apply xs (\<lambda>_. Map.empty) fs c = Some s \<and> s' = cap q s))"
proof -
  let ?n = "fold tree_apply xs newSNode"
  have e: "tab (newSNode :: 'a snode) = (\<lambda>_. Map.empty)"
    by (simp add: fun_eq_iff)
  have n: "sn_wf ?n" "tab ?n = fold table_apply xs (\<lambda>_. Map.empty)"
    using tree_fold_ok [OF newSNode_wf assms(1)] by (simp_all add: e)
  have f: "filter_ok ps" if "tab ?n ps d \<noteq> None" for ps d
    using table_fold_filters [OF assms(1), of "\<lambda>_. Map.empty" ps d] that n(2) by simp
  have "path (join_levels ts) \<noteq> None"
    using path_filter [OF topic_filter [OF assms(2)]] by simp
  from smatch_ok [OF n(1) this] tree.delivered_iff [OF n(1) assms(2) f] show ?thesis
    by (simp add: n(2))
qed

lemma cap_min: "cap q s = s\<lparr>Qos := min q (Qos s)\<rparr>"
  by (simp add: cap_def min_def)

text \<open>C10: the subscription tree delivers by the matching rule of the protocol, for filters and topic names
  whose levels are not empty, do not begin with \<open>$\<close> and contain \<open>+\<close> and \<open>#\<close>
  only as a whole level, \<open>#\<close> only as the last one of a filter. After any sequence of subscriptions and
  cancellations with such filters, looking up such a topic name gives exactly the subscribers with a current
  subscription whose filter matches it level by level (\<open>+\<close> for one level, \<open>#\<close> for the rest),
  each with the options last set and the lower of the two QoS levels. Empty levels, which the protocol allows, are
  left out because the tree takes an empty level in front of a separator for \<open>+\<close>.\<close>

theorem tree_delivers:
  assumes "\<forall>x \<in> set xs. filter_ok (op_filter x)" and "topic_ok ts"
  shows "snd (smatch (join_levels ts) q (fold tree_apply xs newSNode)) = None
    \<and> ((c, s') \<in> set (fst (smatch (join_levels ts) q (fold tree_apply xs newSNode)))
       \<longleftrightarrow> (\<exists>fs s. mqtt_match fs ts \<and> fold table_apply xs (\<lambda>_. Map.empty) fs c = Some s
              \<and> s' = s\<lparr>Qos := min q (Qos s)\<rparr>))"
  using tree_lookup [OF assms] by (simp add: cap_min)

definition sample_sub :: sub where
  "sample_sub = \<lparr>Topic = [], Qos = 1, NoLocal = False, RetainAsPublished = True, RetainHandling = 0, SubIdentifier = 0\<rparr>"

text \<open>Filters \<open>a/+\<close> and \<open>a/#\<close>, topic \<open>a/b\<close>\<close>

definition sample_ops :: "nat subop list" where
  "sample_ops = [Subscribed [[0x61], [0x2B]] sample_sub 7, Subscribed [[0x61], [0x23]] sample_sub 8,
     Unsubscribed [[0x61], [0x23]] 8]"

theorem tree_delivers_witness:
  "(7, sample_sub) \<in> set (fst (smatch [0x61, 0x2F, 0x62] 2 (fold tree_apply sample_ops newSNode)))
   \<and> (\<forall>s'. (8, s') \<notin> set (fst (smatch [0x61, 0x2F, 0x62] 2 (fold tree_apply sample_ops newSNode))))"
proof -
  have ok: "\<forall>x \<in> set sample_ops. filter_ok (op_filter x)" "topic_ok [[0x61], [0x62]]"
    by (simp_all add: sample_ops_def plain_def topic_ok_def)
  have s: "sample_sub\<lparr>Topic := []\<rparr> = sample_sub" "sample_sub\<lparr>Qos := min 2 (Qos sample_sub)\<rparr> = sample_sub"
    by (simp_all add: sample_sub_def)
  have t: "fold table_apply sample_ops (\<lambda>_. Map.empty) [[0x61], [0x2B]] 7 = Some sample_sub"
      "\<And>fs. fold table_apply sample_ops (\<lambda>_. Map.empty) fs 8 = None"
    by (simp_all add: sample_ops_def s)
  have "mqtt_match [[0x61], [0x2B]] [[0x61], [0x62]]"
    by simp
  then show ?thesis
    using tree_delivers [OF ok, of 2 7 sample_sub] tree_delivers [OF ok, of 2 8] t s by fastforce
qed

text \<open>The level parser gives an empty level in front of a separator out as \<open>+\<close>.\<close>

lemma sinsert_slash:
  "sinsert (s\<lparr>Topic := c_sep # r\<rparr>) c n = sinsert (s\<lparr>Topic := c_swc # c_sep # r\<rparr>) c n"
  by (subst (1 2) sinsert.simps) (simp add: nextTopicLevel_def)

text \<open>C38: a leading slash is a wildcard. After any sequence of subscriptions and cancellations with filters whose
  levels are not empty and do not begin with \<open>$\<close>, subscribing to \<open>/f\<close>, for a filter \<open>f\<close> of that kind, leaves
  the very tree that subscribing to \<open>+/f\<close> leaves. So the subscriber is given the messages of every topic name of such
  levels that has any first level and behind it levels that \<open>f\<close> matches; by the protocol \<open>/f\<close> matches only
  names with an empty first level.\<close>

theorem leading_slash_matches_any:
  assumes "\<forall>x \<in> set xs. filter_ok (op_filter x)" and "filter_ok fs" and "topic_ok (t # ts)" and "mqtt_match fs ts"
  shows "fst (sinsert (s\<lparr>Topic := c_sep # join_levels fs\<rparr>) c (fold tree_apply xs newSNode))
      = fold tree_apply (xs @ [Subscribed ([c_swc] # fs) s c]) newSNode
    \<and> (c, s\<lparr>Topic := [], Qos := min q (Qos s)\<rparr>) \<in> set (fst (smatch (join_levels (t # ts)) q
        (fst (sinsert (s\<lparr>Topic := c_sep # join_levels fs\<rparr>) c (fold tree_apply xs newSNode)))))"
proof -
  obtain f gs where fs: "fs = f # gs"
    using assms(2) by (cases fs) auto
  have j: "join_levels ([c_swc] # fs) = c_swc # c_sep # join_levels fs"
    by (simp add: fs)
  have ops: "\<forall>x \<in> set (xs @ [Subscribed ([c_swc] # fs) s c]). filter_ok (op_filter x)"
    using assms(1,2) by (simp add: fs)
  have tree: "fst (sinsert (s\<lparr>Topic := c_sep # join_levels fs\<rparr>) c (fold tree_apply xs newSNode))
      = fold tree_apply (xs @ [Subscribed ([c_swc] # fs) s c]) newSNode"
    by (simp add: sinsert_slash j)
  have "mqtt_match ([c_swc] # fs) (t # ts)"
    using assms(4) by simp
  moreover have "fold table_apply (xs @ [Subscribed ([c_swc] # fs) s c]) (\<lambda>_. Map.empty) ([c_swc] # fs) c = Some (s\<lparr>Topic := []\<rparr>)"
    by simp
  moreover have "s\<lparr>Topic := [], Qos := min q (Qos s)\<rparr> = cap q (s\<lparr>Topic := []\<rparr>)"
    by (simp add: cap_min)
  ultimately have "(c, s\<lparr>Topic := [], Qos := min q (Qos s)\<rparr>) \<in> set (fst (smatch (join_levels (t # ts)) q
      (fold tree_apply (xs @ [Subscribed ([c_swc] # fs) s c]) newSNode)))"
    using conjunct2 [OF tree_lookup [OF ops assms(3)]] by blast
  then show ?thesis
    unfolding tree by (rule conjI [OF refl])
qed

text \<open>Filter \<open>/l\<close>, topic \<open>b/l\<close>\<close>

theorem leading_slash_matches_any_witness:
  "(9, sample_sub) \<in> set (fst (smatch [0x62, 0x2F, 0x6C] 2
      (fst (sinsert (sample_sub\<lparr>Topic := [0x2F, 0x6C]\<rparr>) (9 :: nat) (fold tree_apply sample_ops newSNode)))))"
proof -
  have ok: "\<forall>x \<in> set sample_ops. filter_ok (op_filter x)" "filter_ok [[0x6C]]" "topic_ok [[0x62], [0x6C]]"
    by (simp_all add: sample_ops_def plain_def topic_ok_def)
  have s: "sample_sub\<lparr>Topic := [], Qos := min 2 (Qos sample_sub)\<rparr> = sample_sub"
    by (simp add: sample_sub_def)
  show ?thesis
    using conjunct2 [OF leading_slash_matches_any [OF ok, where s = sample_sub and c = 9 and q = 2]] s by simp
qed

text \<open>Errors of the tree. A filter that the level parser rejects changes no subscription and is
  reported; removing a subscriber fails exactly when the filter is invalid or the subscriber does not
  have it, and then nothing changes.\<close>

theorem tree_errors:
  assumes "sn_wf n"
  shows "(path (Topic s) = None \<longrightarrow> snd (sinsert s c n) \<noteq> None \<and> tab (fst (sinsert s c n)) = tab n)
    \<and> (path (Topic s) \<noteq> None \<longrightarrow> snd (sinsert s c n) = None)
    \<and> (snd (sremove t (Some c) n) = None \<longleftrightarrow> (\<exists>ps. path t = Some ps \<and> tab n ps c \<noteq> None))
    \<and> (snd (sremove t (Some c) n) \<noteq> None \<longrightarrow> tab (fst (sremove t (Some c) n)) = tab n)"
proof -
  have "snd (sremove t (Some c) n) = None \<longleftrightarrow> (\<exists>ps. path t = Some ps \<and> tab n ps c \<noteq> None)"
    using sremove_tab [OF assms, of t "Some c"] sremove_err [OF assms, of t c] by metis
  then show ?thesis
    using sinsert_ok [OF assms, of s c] sremove_err [OF assms, of t c] by (auto split: option.splits)
qed

theorem tree_errors_witness:
  "snd (sinsert (sample_sub\<lparr>Topic := [0x61, 0x23]\<rparr>) (7 :: nat) newSNode) \<noteq> None
   \<and> snd (sremove [0x61] (Some (7 :: nat)) newSNode) \<noteq> None"
proof -
  have "path [0x61, 0x23] = None"
    by code_simp
  then show ?thesis
    using tree_errors [OF newSNode_wf, of "sample_sub\<lparr>Topic := [0x61, 0x23]\<rparr>" "7 :: nat" "[0x61]"]
    by simp
qed

text \<open>C14: retained messages. The topic name and the filter have levels that are not empty, do not begin with
  \<open>$\<close> and contain \<open>+\<close> and \<open>#\<close> only as a whole level of the filter,
  \<open>#\<close> only as its last; the tree, which has no key twice at a node, holds no message under the topic. The
  message has a topic, QoS, packet identifier and lengths within the packet format, has been changed since it was last
  encoded, and has a payload that is not empty and does not begin with a property identifier byte. Storing it makes it
  available, as the decoder reads it, under every such filter that matches the topic, and under no other; what the
  filter finds of the retained messages of other topics stays. Filters with empty levels are left out because the tree
  takes an empty level in front of a separator for \<open>+\<close>.\<close>

theorem retained_delivers:
  assumes "rn_wf n" and "topic_ok ts" and "filter_ok fs" and "rtab n ts = None"
    and "publish_ok m" and "dirty m" and "payload_plain m"
  shows "\<exists>n'. rinsert g (join_levels ts) m n = Some (n', None) \<and> rn_wf n'
    \<and> snd (rmatch (join_levels fs) n') = None
    \<and> set (fst (rmatch (join_levels fs) n'))
      = set (fst (rmatch (join_levels fs) n)) \<union> (if mqtt_match fs ts then {decoded (publish_bytes m) m} else {})"
proof -
  obtain n' where n: "rinsert g (join_levels ts) m n = Some (n', None)" "rn_wf n'"
      "rtab n' = (rtab n)(ts := Some (decoded (publish_bytes m) m))"
    using rinsert_ok [OF rstore_fresh [OF assms(5-7)] assms(1) path_filter [OF topic_filter [OF assms(2)]] assms(4)]
    by blast
  have "rhits (mqtt_match fs) n' = rhits (mqtt_match fs) n
      \<union> (if mqtt_match fs ts then {decoded (publish_bytes m) m} else {})"
    using assms(4) unfolding rhits_def n(3) by (auto split: if_splits) (metis option.distinct(1))+
  then show ?thesis
    using n rmatch_ok [OF assms(1), of fs] rmatch_ok [OF n(2), of fs] assms(3) by simp
qed

theorem retained_delivers_witness:
  "\<exists>n'. rinsert 0 (join_levels [[0x61], [0x62]]) sample_publish newRNode = Some (n', None)
    \<and> fst (rmatch (join_levels [[0x61], [0x23]]) n') \<noteq> []"
proof -
  have "topic_ok [[0x61], [0x62]]" "filter_ok [[0x61], [0x23]]" "mqtt_match [[0x61], [0x23]] [[0x61], [0x62]]"
    by (simp_all add: plain_def topic_ok_def)
  then show ?thesis
    using retained_delivers [OF newRNode_ok(1) _ _ newRNode_ok(2) sample_ok, of "[[0x61], [0x62]]" "[[0x61], [0x23]]" 0]
    by fastforce
qed

text \<open>Clearing the retained message of a topic loses the one of its parent. With messages retained
  for \<open>a\<close> and for \<open>a/b\<close>, removing the one for \<open>a/b\<close> deletes the node of \<open>a\<close> although it holds a
  message, so \<open>a\<close> has no retained message afterwards.\<close>

theorem retained_parent_lost:
  assumes "plain a" and "plain b"
    and "publish_ok m1" "dirty m1" "payload_plain m1" and "publish_ok m2" "dirty m2" "payload_plain m2"
  shows "\<exists>n1 n2. rinsert g a m1 newRNode = Some (n1, None) \<and> rinsert g (a @ c_sep # b) m2 n1 = Some (n2, None)
    \<and> rtab n2 [a] = Some (decoded (publish_bytes m1) m1) \<and> rtab n2 [a, b] = Some (decoded (publish_bytes m2) m2)
    \<and> snd (rremove (a @ c_sep # b) n2) = None \<and> rtab (fst (rremove (a @ c_sep # b) n2)) [a] = None"
proof -
  let ?A = "RNode (Some (decoded (publish_bytes m1) m1)) (publish_bytes m1)"
  let ?B = "RNode (Some (decoded (publish_bytes m2) m2)) (publish_bytes m2) []"
  have ne: "a \<noteq> []" "b \<noteq> []"
    using assms(1,2) by (auto simp: plain_def)
  have n1: "rinsert g a m1 newRNode = Some (RNode None [] [(a, ?A [])], None)"
    using ne ntl_plain(1) [OF assms(1)] rstore_fresh [OF assms(3-5), of newRNode g]
    by (subst rinsert.simps, simp, subst rinsert.simps) (simp add: newRNode_def rchild_def)
  have b: "rinsert g b m2 (?A []) = Some (?A [(b, ?B)], None)"
    using ne ntl_plain(1) [OF assms(2)] rstore_fresh [OF assms(6-8), of newRNode g]
    by (subst rinsert.simps, simp, subst rinsert.simps) (simp add: newRNode_def rchild_def)
  have n2: "rinsert g (a @ c_sep # b) m2 (RNode None [] [(a, ?A [])]) = Some (RNode None [] [(a, ?A [(b, ?B)])], None)"
    using ne ntl_plain(2) [OF assms(1), of b] b by (subst rinsert.simps) (simp add: rchild_def)
  have rb: "rremove b (?A [(b, ?B)]) = (?A [], None)"
    using ne ntl_plain(1) [OF assms(2)] by (subst rremove.simps, simp, subst rremove.simps) simp
  have "rremove (a @ c_sep # b) (RNode None [] [(a, ?A [(b, ?B)])]) = (RNode None [] [], None)"
    using ne ntl_plain(2) [OF assms(1), of b] rb by (subst rremove.simps) simp
  then show ?thesis
    using n1 n2 by simp
qed

theorem retained_parent_lost_witness:
  "\<exists>n1 n2. rinsert 0 [0x61] sample_publish newRNode = Some (n1, None)
    \<and> rinsert 0 [0x61, 0x2F, 0x62] sample_publish n1 = Some (n2, None) \<and> rtab n2 [[0x61]] \<noteq> None
    \<and> rtab (fst (rremove [0x61, 0x2F, 0x62] n2)) [[0x61]] = None"
proof -
  have "plain [0x61]" "plain [0x62]"
    by (simp_all add: plain_def)
  from retained_parent_lost [OF this sample_ok sample_ok, of 0] show ?thesis
    by auto
qed

section \<open>The topic manager and the stores\<close>

definition plain_name :: "bytes \<Rightarrow> bool" where
  "plain_name sn \<longleftrightarrow> sn \<noteq> [] \<and> c_sep \<notin> set sn \<and> c_mwc \<notin> set sn \<and> c_swc \<notin> set sn"

text \<open>C19: routing of subscriptions. With a valid QoS and a subscriber, a filter behind the system prefix
  enters the system table, one behind the shared prefix and a share name enters the table of that
  group, and any other enters the table of the tree; the granted QoS is the one asked for and the
  other two tables stay. An invalid filter is refused with code 0x80 and changes no table.\<close>

theorem subscribe_routes:
  assumes "topics_wf t" and "ValidQos (Qos s)" and "plain_name sn" and "f \<noteq> []"
    and "Topic s = f \<and> (f = [] \<or> hd f \<noteq> c_sys) \<and> r = 0
      \<or> Topic s = sysPrefix @ f \<and> r = 1 \<or> Topic s = sharePrefix @ sn @ c_sep # f \<and> r = (2 :: nat)"
  shows "\<exists>t' g e. Subscribe s (Some c) t = (t', g, e) \<and> topics_wf t' \<and>
     (case path f of
        None \<Rightarrow> e \<noteq> None \<and> g = QosFailure \<and> tables t' = tables t
      | Some ps \<Rightarrow> e = None \<and> g = Qos s \<and> tables t' =
         (if r = 0 then ((tab (t_sroot t))(ps := (tab (t_sroot t) ps)(c \<mapsto> s\<lparr>Topic := []\<rparr>)), snd (tables t))
          else if r = 1 then (tab (t_sroot t),
            (sys_tab (t_sys t))(ps := (sys_tab (t_sys t) ps)(c \<mapsto> Qos s)), share_tab (sh_sroot (t_share t)))
          else (tab (t_sroot t), sys_tab (t_sys t), (share_tab (sh_sroot (t_share t)))
            (ps := (share_tab (sh_sroot (t_share t)) ps)(sn := (share_tab (sh_sroot (t_share t)) ps sn)(c \<mapsto> Qos s))))))"
proof -
  have sn: "sn \<noteq> []" "c_sep \<notin> set sn" "c_mwc \<notin> set sn" "c_swc \<notin> set sn"
    using assms(3) by (simp_all add: plain_name_def)
  obtain t' g e where r: "Subscribe s (Some c) t = (t', g, e)"
    by (metis prod_cases3)
  show ?thesis
    using assms(5) r Subscribe_plain [OF assms(1,2), of c] plain_prefix [of f]
      Subscribe_sys [OF assms(1,2), of f c] Subscribe_share [OF assms(1,2) _ sn assms(4), of c]
    by (auto split: option.splits)
qed

lemma topic_no_sys:
  assumes "topic_ok ts"
  shows "hd (join_levels ts) \<noteq> c_sys"
proof -
  obtain l ls where ts: "ts = l # ls" "plain l"
    using assms by (cases ts) (auto simp: topic_ok_def)
  then have "hd (join_levels ts) = hd l" "hd l \<in> set l"
    by (cases ls; simp add: plain_def)+
  then show ?thesis
    using ts(2) by (auto simp: plain_def)
qed



text \<open>C20: the store follows the retained messages. \<open>Retain\<close> stores a message under its topic and
  clears the topic when the payload is empty; the will messages stay, and the list of all retained messages holds
  exactly those of the map. This is so even when the topic tree refuses the topic.\<close>

theorem retain_persists:
  assumes "topics_wf t" and "topics_Retain g m t = Some (t', e)"
  shows "retained (t_store t') = (retained (t_store t))(topic m := if payload m = [] then None else Some m)
    \<and> wills (t_store t') = wills (t_store t)
    \<and> set (GetAllRetainMsg (t_store t')) = ran (retained (t_store t'))"
proof -
  have w: "store_wf (t_store t)"
    using assms(1) by (simp add: topics_wf_def)
  then show ?thesis
    using assms(2) by (auto simp: topics_Retain_def GetAllRetainMsg_set split: if_splits prod.splits)
qed

text \<open>C17: refinement of the session store. From the empty store every sequence of its operations (the sessions
  and the subscriptions of a client, the messages in flight in both directions, the second phase of QoS 2, the offline
  messages, each stored, deleted one by one or all together, looked up and listed) has the effects and results of
  plain maps per client and a list of at most 1000 offline messages; the cached inner maps and the lookups that create
  entries do not show. The order in which Go lists a map is open, so of a list that a getter returns it is observed
  how often each value, or subscription, or identifier occurs in it, for every value.\<close>

theorem session_store_refines:
  "\<exists>st os. run (ss_step pid) xs NewMemSessStore = Some (st, os) \<and> ss_wf st
    \<and> spec_run (ss_spec pid) xs (ss_abs NewMemSessStore) = (ss_abs st, os)"
  using ss.run_ok [OF NewMemSessStore_ok(1)] by fast


definition at_topic :: "bytes \<Rightarrow> sub" where
  "at_topic tp = \<lparr>Topic = tp, Qos = 1, NoLocal = False, RetainAsPublished = True, RetainHandling = 0, SubIdentifier = 0\<rparr>"

definition new_topics :: "nat memtopic" where
  "new_topics = topics_NewMemProvider NewMemMsgStore"

lemma new_topics_ok: "topics_wf new_topics" "ValidQos (Qos (at_topic tp))" "ValidQos 1" "plain_name [0x67]"
    "path [0x61] = Some [[0x61]]" "filter_ok [[0x61]]" "topic_ok [[0x61]]"
    "sys_tab (t_sys new_topics) = (\<lambda>_. Map.empty)" "share_tab (sh_sroot (t_share new_topics)) = (\<lambda>_ _. Map.empty)"
proof -
  show "topics_wf new_topics"
    by (simp add: new_topics_def topics_new_wf NewMemMsgStore_ok)
  show "path [0x61] = Some [[0x61]]" "ValidQos (Qos (at_topic tp))" "ValidQos 1" "plain_name [0x67]"
    "filter_ok [[0x61]]" "topic_ok [[0x61]]"
    using path_filter [of "[[0x61]]"]
    by (simp_all add: at_topic_def ValidQos_def plain_name_def plain_def topic_ok_def)
  show "sys_tab (t_sys new_topics) = (\<lambda>_. Map.empty)" "share_tab (sh_sroot (t_share new_topics)) = (\<lambda>_ _. Map.empty)"
    by (simp_all add: new_topics_def topics_NewMemProvider_def newRSNode_ok share_NewMemProvider_def share_newSNode_ok fun_eq_iff)
qed

theorem subscribe_routes_witness:
  "\<exists>t'. Subscribe (at_topic (sharePrefix @ [0x67] @ c_sep # [0x61])) (Some 7) new_topics = (t', 1, None)
    \<and> topics_wf t' \<and> share_tab (sh_sroot (t_share t')) [[0x61]] [0x67] 7 = Some 1"
proof -
  have q: "Qos (at_topic tp) = 1" "Topic (at_topic tp) = tp" for tp
    by (simp_all add: at_topic_def)
  show ?thesis
    using subscribe_routes [of new_topics "at_topic (sharePrefix @ [0x67] @ c_sep # [0x61])" "[0x67]" "[0x61]" 2 7]
    by (auto simp: new_topics_ok q tables_def)
qed



definition rp :: publish where
  "rp = NewPublishMessage\<lparr>topic := [0x61], payload := [0x68]\<rparr>"

theorem retain_persists_witness:
  "\<exists>t' e. topics_Retain 0 rp new_topics = Some (t', e) \<and> retained (t_store t') [0x61] = Some rp"
proof -
  have ok: "publish_ok rp" "dirty rp" "payload_plain rp"
    by code_simp+
  have n: "rn_wf (t_rroot new_topics)" "rtab (t_rroot new_topics) [[0x61]] = None"
    unfolding new_topics_def topics_NewMemProvider_def memtopic.simps by (rule newRNode_ok)+
  obtain n' where "rinsert 0 [0x61] rp (t_rroot new_topics) = Some (n', None)"
    using rinsert_ok [OF rstore_fresh [OF ok] n(1) new_topics_ok(5) n(2)] by blast
  then obtain t' e where r: "topics_Retain 0 rp new_topics = Some (t', e)"
    by (simp add: topics_Retain_def rp_def)
  from retain_persists [OF new_topics_ok(1) this] r show ?thesis
    by (auto simp: rp_def)
qed


section \<open>Reading malformed packets\<close>

text \<open>The fixed header. Whatever the bytes, \<open>decode\<close> accepts a header only if its type is the one
  expected and its flags are allowed for the type, its remaining length is at most 268435455, and the
  packet with that length lies within the slice.\<close>

theorem header_accepts_only_valid:
  assumes "header_decode src head = Go (n, h)" and "vis src \<noteq> []"
  shows "flags_ok (hd (vis src)) \<and> mtf h = hd (vis src) \<and> Type h = Type head
    \<and> unat (remlen h) \<le> 268435455 \<and> n + unat (remlen h) \<le> length (vis src)"
proof -
  have "vis src = hd (vis src) # tl (vis src)"
    using assms(2) by simp
  from header_decode_flags [OF assms(1) this] show ?thesis
    by (auto simp: word_le_nat_alt)
qed

theorem header_accepts_only_valid_witness:
  "\<exists>n h. header_decode (exact [0xC0, 0]) (new_header PINGREQ) = Go (n, h) \<and> n + unat (remlen h) \<le> 2"
proof -
  have "case header_decode (exact [0xC0, 0]) (new_header PINGREQ) of Go _ \<Rightarrow> True | _ \<Rightarrow> False"
    by code_simp
  then obtain n h where h: "header_decode (exact [0xC0, 0]) (new_header PINGREQ) = Go (n, h)"
    by (auto split: out.splits)
  from header_accepts_only_valid [OF this] h show ?thesis
    by (auto simp: exact_def)
qed

text \<open>The length test of \<open>readLPBytes\<close> is two bytes short. For a string whose prefix announces \<open>k\<close>
  bytes more than the packet holds, with \<open>k\<close> 1 or 2, no error is returned: the result contains \<open>k\<close>
  bytes from behind the slice if its capacity has them, and the call panics if it has not.\<close>

theorem lpbytes_overread:
  assumes "k = 1 \<or> k = 2" and "length b + k \<le> 65535"
  shows "readLPBytes (GSlice (put16 (word_of_nat (length b + k)) @ b) sp)
    = (if k \<le> length sp then Some (b @ take k sp, 2 + length b + k, None) else None)"
proof -
  let ?n = "length b + k"
  have n: "unat (word_of_nat ?n :: uint16) = ?n"
    using assms(2) by (simp add: unat_of_nat del: of_nat_add)
  have g: "get16 (put16 (word_of_nat ?n) @ b) = Some (word_of_nat ?n)"
    by simp
  have len: "\<not> length (put16 (word_of_nat ?n) @ b) < ?n" "\<not> length (put16 (word_of_nat ?n) @ b) < 2"
    using assms(1) by auto
  show ?thesis
    using len assms(1) unfolding readLPBytes_def gslice.sel Let_def g option.case n
    by (auto simp: sub_def CopyLen_def nat_add_distrib)
qed

theorem lpbytes_overread_witness:
  "readLPBytes (GSlice [0, 2, 0x61] [0x62]) = Some ([0x61, 0x62], 4, None)
   \<and> readLPBytes (GSlice [0, 2, 0x61] []) = None"
  using lpbytes_overread [of 1 "[0x61]" "[0x62]"] lpbytes_overread [of 1 "[0x61]" "[]"] by (simp add: put16_def)

end
